(* ===== verification/Caly_Prelude.thy ===== *)
theory Caly_Prelude
  imports Main "HOL-Library.Word" "HOL-Library.Monad_Syntax"
begin

text \<open>
  Shared vocabulary of the development: the fixed-width integer types of the C sources, flag
  words, byte loads from a packet buffer, saturating arithmetic, and the generic lemmas about
  them.  A load outside the buffer is \<^term>\<open>None\<close>: the model makes an out-of-bounds read a
  value, so that its absence is a theorem about the parsers.

  The supported targets (x86\_64 and aarch64) are little endian.  A raw multi-byte load is
  therefore the little-endian composition of the bytes, and the byte-order macros swap.
\<close>

unbundle bit_operations_syntax

type_synonym u8 = "8 word"
type_synonym u16 = "16 word"
type_synonym u32 = "32 word"
type_synonym u64 = "64 word"

type_synonym bytes = "u8 list"

named_theorems caly_defs "definitions unfolded by the component proofs"
named_theorems load_simps "facts about loads inside the buffer"

text \<open>Bounds of the widths, usable as explicit facts.\<close>

lemma unat_u64_less: "unat (x :: u64) < 18446744073709551616"
  using unsigned_less [of x, where ?'a = nat] by simp

lemma unat_u32_less: "unat (x :: u32) < 4294967296"
  using unsigned_less [of x, where ?'a = nat] by simp

lemma unat_u16_less: "unat (x :: u16) < 65536"
  using unsigned_less [of x, where ?'a = nat] by simp

lemma unat_u8_less: "unat (x :: u8) < 256"
  using unsigned_less [of x, where ?'a = nat] by simp

section \<open>Flag words\<close>

text \<open>The C idiom \<open>(w & m)\<close> used as a condition.\<close>

definition has_flag :: "'a::len word \<Rightarrow> 'a word \<Rightarrow> bool" where
  "has_flag w m \<longleftrightarrow> w AND m \<noteq> 0"

lemma has_flag_or [simp]: "has_flag (a OR b) m \<longleftrightarrow> has_flag a m \<or> has_flag b m"
proof -
  have "(a OR b) AND m = (a AND m) OR (b AND m)"
    by (simp add: bit.conj_disj_distrib2)
  then show ?thesis
    by (auto simp: has_flag_def or_eq_0_iff)
qed

lemma has_flag_mask_or [simp]: "has_flag w (m OR n) \<longleftrightarrow> has_flag w m \<or> has_flag w n"
  using has_flag_or [of m n w] by (simp add: has_flag_def and.commute)

lemma has_flag_zero [simp]: "\<not> has_flag 0 m" "\<not> has_flag w 0"
  by (simp_all add: has_flag_def)

lemma has_flag_numeral [simp]:
  "has_flag (numeral a) (numeral b :: 'a::len word) \<longleftrightarrow> (numeral a AND numeral b :: 'a word) \<noteq> 0"
  "has_flag 1 (numeral b :: 'a::len word) \<longleftrightarrow> (1 AND numeral b :: 'a word) \<noteq> 0"
  "has_flag (numeral a) (1 :: 'a::len word) \<longleftrightarrow> (numeral a AND 1 :: 'a word) \<noteq> 0"
  "has_flag 1 (1 :: 'a::len word) \<longleftrightarrow> True"
  by (simp_all add: has_flag_def)

lemma has_flag_up:
  "LENGTH('a) \<le> LENGTH('b) \<Longrightarrow> has_flag (ucast (x :: 'a::len word) :: 'b::len word) (ucast m) \<longleftrightarrow> has_flag x m"
proof -
  assume le: "LENGTH('a) \<le> LENGTH('b)"
  have "(ucast x AND ucast m :: 'b word) = ucast (x AND m)"
    by (simp add: unsigned_and_eq)
  moreover have "(ucast y :: 'b word) = 0 \<longleftrightarrow> y = 0" for y :: "'a word"
  proof -
    have "unat y < 2 ^ LENGTH('b)"
      using unsigned_less [of y, where ?'a = nat] power_increasing [OF le, of "2 :: nat"]
      by (meson less_le_trans one_le_numeral)
    then have "unat (ucast y :: 'b word) = unat y"
      by (simp add: unsigned_ucast_eq take_bit_nat_eq_self_iff)
    then show ?thesis by (metis unsigned_eq_0_iff)
  qed
  ultimately show ?thesis by (simp add: has_flag_def)
qed

section \<open>Byte order and loads\<close>

definition le16 :: "u8 \<Rightarrow> u8 \<Rightarrow> u16" where
  "le16 a b = ucast a OR push_bit 8 (ucast b)"

definition le32 :: "u8 \<Rightarrow> u8 \<Rightarrow> u8 \<Rightarrow> u8 \<Rightarrow> u32" where
  "le32 a b c d = ucast a OR push_bit 8 (ucast b) OR push_bit 16 (ucast c) OR push_bit 24 (ucast d)"

text \<open>\<open>bpf_ntohs\<close>/\<open>caly_ntohs\<close> and \<open>caly_ntohl\<close> on a little-endian target.\<close>

definition ntohs :: "u16 \<Rightarrow> u16" where
  "ntohs x = push_bit 8 x OR drop_bit 8 x"

definition ntohl :: "u32 \<Rightarrow> u32" where
  "ntohl x = push_bit 24 x OR (push_bit 8 x AND 0x00FF0000) OR (drop_bit 8 x AND 0x0000FF00)
     OR drop_bit 24 x"

definition ld8 :: "bytes \<Rightarrow> nat \<Rightarrow> u8 option" where
  "ld8 d i = (if i < length d then Some (d ! i) else None)"

definition ld16 :: "bytes \<Rightarrow> nat \<Rightarrow> u16 option" where
  "ld16 d i = do { a \<leftarrow> ld8 d i; b \<leftarrow> ld8 d (i + 1); Some (le16 a b) }"

definition ld32 :: "bytes \<Rightarrow> nat \<Rightarrow> u32 option" where
  "ld32 d i = do { a \<leftarrow> ld8 d i; b \<leftarrow> ld8 d (i + 1); c \<leftarrow> ld8 d (i + 2); e \<leftarrow> ld8 d (i + 3);
     Some (le32 a b c e) }"

lemma ld8_inside [load_simps]: "i < length d \<Longrightarrow> ld8 d i = Some (d ! i)"
  by (simp add: ld8_def)

lemma ld16_inside [load_simps]: "i + 2 \<le> length d \<Longrightarrow> ld16 d i = Some (le16 (d ! i) (d ! (i + 1)))"
  by (simp add: ld16_def ld8_def)

lemma ld32_inside [load_simps]:
  "i + 4 \<le> length d \<Longrightarrow> ld32 d i = Some (le32 (d ! i) (d ! (i + 1)) (d ! (i + 2)) (d ! (i + 3)))"
  by (simp add: ld32_def ld8_def)

text \<open>The network byte order of two bytes on the wire is their big-endian value.\<close>

lemma ntohs_le16: "ntohs (le16 a b) = push_bit 8 (ucast a) OR ucast b"
  by (rule bit_word_eqI)
    (auto simp: ntohs_def le16_def bit_simps not_less not_le dest: bit_imp_le_length)

lemma unat_ntohs_le16: "unat (ntohs (le16 a b)) = unat a * 256 + unat b"
proof -
  have disj: "push_bit 8 (ucast a) AND ucast b = (0::u16)"
    by (rule bit_word_eqI) (auto simp: bit_simps dest: bit_imp_le_length)
  have "ntohs (le16 a b) = push_bit 8 (ucast a) + ucast b"
    using disj by (simp add: ntohs_le16 disjunctive_add_eq_or)
  moreover have "push_bit 8 (ucast a) = (256 * ucast a :: u16)"
    by (simp add: push_bit_eq_mult)
  moreover have "unat (ucast a :: u16) = unat a" "unat (ucast b :: u16) = unat b"
    by (simp_all add: unsigned_ucast_eq take_bit_nat_eq_self_iff less_trans [OF unsigned_less])
  moreover have "unat a < 256" "unat b < 256"
    using unsigned_less [of a] unsigned_less [of b] by simp_all
  ultimately show ?thesis
    by (simp add: unat_word_ariths)
qed

lemma ld_take:
  "i < n \<Longrightarrow> ld8 (take n d) i = ld8 d i"
  "i + 1 < n \<Longrightarrow> ld16 (take n d) i = ld16 d i"
  "i + 3 < n \<Longrightarrow> ld32 (take n d) i = ld32 d i"
  by (simp_all add: ld8_def ld16_def ld32_def)

lemma le16_be16: "le16 (ucast (drop_bit 8 x)) (ucast x) = ntohs x"
  unfolding ntohs_def le16_def
  by (rule bit_word_eqI) (auto simp: bit_simps dest: bit_imp_le_length)

lemma ntohs_ntohs [simp]: "ntohs (ntohs x) = x"
  by (rule bit_word_eqI) (auto simp: ntohs_def bit_simps dest: bit_imp_le_length)

lemma ntohs_eq_0 [simp]: "ntohs x = 0 \<longleftrightarrow> x = 0"
proof
  assume "ntohs x = 0"
  then have "ntohs (ntohs x) = ntohs 0" by simp
  then show "x = 0" by (simp add: ntohs_def [of 0])
qed (simp add: ntohs_def)

text \<open>Native stores: a store outside the buffer is \<^term>\<open>None\<close>.\<close>

definition st8 :: "bytes \<Rightarrow> nat \<Rightarrow> u8 \<Rightarrow> bytes option" where
  "st8 d i b = (if i < length d then Some (d[i := b]) else None)"

definition st16 :: "bytes \<Rightarrow> nat \<Rightarrow> u16 \<Rightarrow> bytes option" where
  "st16 d i w = do { d \<leftarrow> st8 d i (ucast w); st8 d (i + 1) (ucast (drop_bit 8 w)) }"

definition st32 :: "bytes \<Rightarrow> nat \<Rightarrow> u32 \<Rightarrow> bytes option" where
  "st32 d i w = do { d \<leftarrow> st8 d i (ucast w); d \<leftarrow> st8 d (i + 1) (ucast (drop_bit 8 w));
     d \<leftarrow> st8 d (i + 2) (ucast (drop_bit 16 w)); st8 d (i + 3) (ucast (drop_bit 24 w)) }"

lemma st8_inside [load_simps]: "i < length d \<Longrightarrow> st8 d i b = Some (d[i := b])"
  by (simp add: st8_def)

lemma st16_inside [load_simps]:
  "i + 2 \<le> length d \<Longrightarrow> st16 d i w = Some (d[i := ucast w, i + 1 := ucast (drop_bit 8 w)])"
  by (simp add: st16_def st8_def)

lemma st32_inside [load_simps]:
  "i + 4 \<le> length d \<Longrightarrow> st32 d i w = Some (d[i := ucast w, i + 1 := ucast (drop_bit 8 w),
     i + 2 := ucast (drop_bit 16 w), i + 3 := ucast (drop_bit 24 w)])"
  by (simp add: st32_def st8_def)

text \<open>A native store followed by a native load.\<close>

lemma le16_bytes: "le16 (ucast w) (ucast (drop_bit 8 w)) = w"
  unfolding le16_def by (rule bit_word_eqI) (auto simp: bit_simps dest: bit_imp_le_length)

lemma le32_bytes:
  "le32 (ucast w) (ucast (drop_bit 8 w)) (ucast (drop_bit 16 w)) (ucast (drop_bit 24 w)) = w"
proof (rule bit_word_eqI)
  fix n :: nat
  assume "n < LENGTH(32)"
  then consider "n < 8" | "8 \<le> n" "n < 16" | "16 \<le> n" "n < 24" | "24 \<le> n" "n < 32"
    by fastforce
  then show "bit (le32 (ucast w) (ucast (drop_bit 8 w)) (ucast (drop_bit 16 w)) (ucast (drop_bit 24 w))) n = bit w n"
    by cases (auto simp: le32_def bit_simps)
qed

lemma bind_defined: "\<exists>r. m = Some r \<Longrightarrow> (\<And>x. \<exists>r. f x = Some r) \<Longrightarrow> \<exists>r. (m \<bind> f) = Some r"
  by auto

section \<open>Saturating arithmetic\<close>

text \<open>\<open>s = a + b; return s < a ? ~0 : s\<close>.\<close>

definition sat_add :: "'a::len word \<Rightarrow> 'a word \<Rightarrow> 'a word" where
  "sat_add a b = (if a + b < a then - 1 else a + b)"

lemma unat_sat_add:
  "unat (sat_add a b :: 'a::len word) = min (unat a + unat b) (2 ^ LENGTH('a) - 1)"
proof (cases "unat a + unat b < 2 ^ LENGTH('a)")
  case True
  then have "unat (a + b) = unat a + unat b"
    by (rule unat_add_lem [THEN iffD1])
  with True show ?thesis
    by (auto simp: sat_add_def word_less_nat_alt)
next
  case False
  have "unat a < 2 ^ LENGTH('a)" "unat b < 2 ^ LENGTH('a)"
    by simp_all
  then have "unat a + unat b - 2 ^ LENGTH('a) < 2 ^ LENGTH('a)"
    by linarith
  with False have "unat (a + b) = unat a + unat b - 2 ^ LENGTH('a)"
    by (simp add: unat_word_ariths(1) le_mod_geq)
  with False \<open>unat b < 2 ^ LENGTH('a)\<close> have "unat (a + b) < unat a"
    by linarith
  then have "a + b < a"
    by (simp add: word_less_nat_alt)
  moreover have "unat (- 1 :: 'a word) = 2 ^ LENGTH('a) - 1"
    by (simp add: unsigned_minus_1_eq_mask mask_eq_exp_minus_1)
  ultimately show ?thesis
    using False by (simp add: sat_add_def)
qed

lemma sat_add_ge: "a \<le> (sat_add a b :: 'a::len word)"
proof -
  have "unat a < 2 ^ LENGTH('a)"
    by simp
  then have "unat a \<le> 2 ^ LENGTH('a) - 1"
    by linarith
  then show ?thesis
    by (simp add: word_le_nat_alt unat_sat_add)
qed

end
