(* ===== verification/Caly_Common.thy ===== *)
theory Caly_Common
  imports Caly_Prelude
begin

text \<open>
  The shared ABI of \<open>src/bpf/common.h\<close>, with the small helpers of \<open>src/bpf/compat.h\<close>: the
  enumerations and flag words, the structures that live in BPF maps, and the reason names.

  An enumeration whose values cross the map boundary as an unchecked \<open>__u32\<close> (the mode, the
  zone, the connection state, a stat reason) keeps that type here, with its constants as
  abbreviations: a value outside the enumeration is a value the code has to deal with.  The
  enumerations that are only ever written as constants (bucket kind, gauge, verdict) are
  datatypes.  Arrays indexed by such an enumeration are functions from it.
\<close>

section \<open>Stat reasons\<close>

abbreviation (input) STAT_PKT_TOTAL :: u32 where "STAT_PKT_TOTAL \<equiv> 0"
abbreviation (input) STAT_PASS_TOTAL :: u32 where "STAT_PASS_TOTAL \<equiv> 1"
abbreviation (input) STAT_DROP_TOTAL :: u32 where "STAT_DROP_TOTAL \<equiv> 2"
abbreviation (input) STAT_TX_TOTAL :: u32 where "STAT_TX_TOTAL \<equiv> 3"
abbreviation (input) STAT_MONITOR_WOULD_DROP :: u32 where "STAT_MONITOR_WOULD_DROP \<equiv> 4"
abbreviation (input) STAT_PASS_NOT_IP :: u32 where "STAT_PASS_NOT_IP \<equiv> 5"
abbreviation (input) STAT_PASS_LAN_IFACE :: u32 where "STAT_PASS_LAN_IFACE \<equiv> 6"
abbreviation (input) STAT_PASS_DISABLED :: u32 where "STAT_PASS_DISABLED \<equiv> 7"
abbreviation (input) STAT_PASS_ALLOWLIST :: u32 where "STAT_PASS_ALLOWLIST \<equiv> 8"
abbreviation (input) STAT_PASS_MGMT_PORT :: u32 where "STAT_PASS_MGMT_PORT \<equiv> 9"
abbreviation (input) STAT_PASS_CONNTRACK :: u32 where "STAT_PASS_CONNTRACK \<equiv> 10"
abbreviation (input) STAT_PASS_PORT_OPEN :: u32 where "STAT_PASS_PORT_OPEN \<equiv> 11"
abbreviation (input) STAT_PASS_PORT_RATE_OK :: u32 where "STAT_PASS_PORT_RATE_OK \<equiv> 12"
abbreviation (input) STAT_PASS_ICMP_POLICY :: u32 where "STAT_PASS_ICMP_POLICY \<equiv> 13"
abbreviation (input) STAT_PASS_ICMP6_ND :: u32 where "STAT_PASS_ICMP6_ND \<equiv> 14"
abbreviation (input) STAT_PASS_ICMP6_PMTUD :: u32 where "STAT_PASS_ICMP6_PMTUD \<equiv> 15"
abbreviation (input) STAT_PASS_ICMP4_PMTUD :: u32 where "STAT_PASS_ICMP4_PMTUD \<equiv> 16"
abbreviation (input) STAT_PASS_SYNCOOKIE_OK :: u32 where "STAT_PASS_SYNCOOKIE_OK \<equiv> 17"
abbreviation (input) STAT_PASS_DEFAULT :: u32 where "STAT_PASS_DEFAULT \<equiv> 18"
abbreviation (input) STAT_DROP_ETH_TRUNC :: u32 where "STAT_DROP_ETH_TRUNC \<equiv> 19"
abbreviation (input) STAT_DROP_VLAN_TRUNC :: u32 where "STAT_DROP_VLAN_TRUNC \<equiv> 20"
abbreviation (input) STAT_DROP_VLAN_DEPTH :: u32 where "STAT_DROP_VLAN_DEPTH \<equiv> 21"
abbreviation (input) STAT_DROP_L3_UNKNOWN :: u32 where "STAT_DROP_L3_UNKNOWN \<equiv> 22"
abbreviation (input) STAT_DROP_IP4_TRUNC :: u32 where "STAT_DROP_IP4_TRUNC \<equiv> 23"
abbreviation (input) STAT_DROP_IP4_IHL :: u32 where "STAT_DROP_IP4_IHL \<equiv> 24"
abbreviation (input) STAT_DROP_IP4_TOTLEN :: u32 where "STAT_DROP_IP4_TOTLEN \<equiv> 25"
abbreviation (input) STAT_DROP_IP4_OPTIONS :: u32 where "STAT_DROP_IP4_OPTIONS \<equiv> 26"
abbreviation (input) STAT_DROP_IP6_TRUNC :: u32 where "STAT_DROP_IP6_TRUNC \<equiv> 27"
abbreviation (input) STAT_DROP_IP6_EXT_DEPTH :: u32 where "STAT_DROP_IP6_EXT_DEPTH \<equiv> 28"
abbreviation (input) STAT_DROP_IP6_EXT_TRUNC :: u32 where "STAT_DROP_IP6_EXT_TRUNC \<equiv> 29"
abbreviation (input) STAT_DROP_IP6_RH0 :: u32 where "STAT_DROP_IP6_RH0 \<equiv> 30"
abbreviation (input) STAT_DROP_IP6_DISABLED :: u32 where "STAT_DROP_IP6_DISABLED \<equiv> 31"
abbreviation (input) STAT_DROP_TTL_ZERO :: u32 where "STAT_DROP_TTL_ZERO \<equiv> 32"
abbreviation (input) STAT_DROP_TTL_LOW :: u32 where "STAT_DROP_TTL_LOW \<equiv> 33"
abbreviation (input) STAT_DROP_TUNNEL_TRUNC :: u32 where "STAT_DROP_TUNNEL_TRUNC \<equiv> 34"
abbreviation (input) STAT_DROP_TUNNEL_DEPTH :: u32 where "STAT_DROP_TUNNEL_DEPTH \<equiv> 35"
abbreviation (input) STAT_DROP_TUNNEL_PROTO :: u32 where "STAT_DROP_TUNNEL_PROTO \<equiv> 36"
abbreviation (input) STAT_DROP_GRE_MALFORMED :: u32 where "STAT_DROP_GRE_MALFORMED \<equiv> 37"
abbreviation (input) STAT_DROP_L4_TRUNC :: u32 where "STAT_DROP_L4_TRUNC \<equiv> 38"
abbreviation (input) STAT_DROP_L4_UNKNOWN :: u32 where "STAT_DROP_L4_UNKNOWN \<equiv> 39"
abbreviation (input) STAT_DROP_L4_PORT_ZERO :: u32 where "STAT_DROP_L4_PORT_ZERO \<equiv> 40"
abbreviation (input) STAT_DROP_LAND :: u32 where "STAT_DROP_LAND \<equiv> 41"
abbreviation (input) STAT_DROP_BOGON_SRC :: u32 where "STAT_DROP_BOGON_SRC \<equiv> 42"
abbreviation (input) STAT_DROP_PRIVATE_SRC :: u32 where "STAT_DROP_PRIVATE_SRC \<equiv> 43"
abbreviation (input) STAT_DROP_MCAST_SRC :: u32 where "STAT_DROP_MCAST_SRC \<equiv> 44"
abbreviation (input) STAT_DROP_BCAST_SRC :: u32 where "STAT_DROP_BCAST_SRC \<equiv> 45"
abbreviation (input) STAT_DROP_IP6_SRC_UNSPEC :: u32 where "STAT_DROP_IP6_SRC_UNSPEC \<equiv> 46"
abbreviation (input) STAT_DROP_IP6_SRC_LOOPBACK :: u32 where "STAT_DROP_IP6_SRC_LOOPBACK \<equiv> 47"
abbreviation (input) STAT_DROP_SRC_SELF :: u32 where "STAT_DROP_SRC_SELF \<equiv> 48"
abbreviation (input) STAT_DROP_FRAG_TINY :: u32 where "STAT_DROP_FRAG_TINY \<equiv> 49"
abbreviation (input) STAT_DROP_FRAG_OFF_ONE :: u32 where "STAT_DROP_FRAG_OFF_ONE \<equiv> 50"
abbreviation (input) STAT_DROP_FRAG_POLICY :: u32 where "STAT_DROP_FRAG_POLICY \<equiv> 51"
abbreviation (input) STAT_DROP_FRAG_ICMP :: u32 where "STAT_DROP_FRAG_ICMP \<equiv> 52"
abbreviation (input) STAT_DROP_TCP_NULL :: u32 where "STAT_DROP_TCP_NULL \<equiv> 53"
abbreviation (input) STAT_DROP_TCP_FIN_ONLY :: u32 where "STAT_DROP_TCP_FIN_ONLY \<equiv> 54"
abbreviation (input) STAT_DROP_TCP_SYN_FIN :: u32 where "STAT_DROP_TCP_SYN_FIN \<equiv> 55"
abbreviation (input) STAT_DROP_TCP_SYN_RST :: u32 where "STAT_DROP_TCP_SYN_RST \<equiv> 56"
abbreviation (input) STAT_DROP_TCP_FIN_RST :: u32 where "STAT_DROP_TCP_FIN_RST \<equiv> 57"
abbreviation (input) STAT_DROP_TCP_XMAS :: u32 where "STAT_DROP_TCP_XMAS \<equiv> 58"
abbreviation (input) STAT_DROP_TCP_ALL_FLAGS :: u32 where "STAT_DROP_TCP_ALL_FLAGS \<equiv> 59"
abbreviation (input) STAT_DROP_TCP_DOFF :: u32 where "STAT_DROP_TCP_DOFF \<equiv> 60"
abbreviation (input) STAT_DROP_TCP_SYNACK_UNSOL :: u32 where "STAT_DROP_TCP_SYNACK_UNSOL \<equiv> 61"
abbreviation (input) STAT_DROP_ICMP_TYPE :: u32 where "STAT_DROP_ICMP_TYPE \<equiv> 62"
abbreviation (input) STAT_DROP_ICMP_OVERSIZE :: u32 where "STAT_DROP_ICMP_OVERSIZE \<equiv> 63"
abbreviation (input) STAT_DROP_ICMP6_TYPE :: u32 where "STAT_DROP_ICMP6_TYPE \<equiv> 64"
abbreviation (input) STAT_DROP_ICMP6_OVERSIZE :: u32 where "STAT_DROP_ICMP6_OVERSIZE \<equiv> 65"
abbreviation (input) STAT_DROP_BLOCKLIST :: u32 where "STAT_DROP_BLOCKLIST \<equiv> 66"
abbreviation (input) STAT_DROP_BAN_ACTIVE :: u32 where "STAT_DROP_BAN_ACTIVE \<equiv> 67"
abbreviation (input) STAT_DROP_LOCKDOWN :: u32 where "STAT_DROP_LOCKDOWN \<equiv> 68"
abbreviation (input) STAT_DROP_AMP_SRCPORT :: u32 where "STAT_DROP_AMP_SRCPORT \<equiv> 69"
abbreviation (input) STAT_DROP_PORT_CLOSED :: u32 where "STAT_DROP_PORT_CLOSED \<equiv> 70"
abbreviation (input) STAT_DROP_PORT_RATE :: u32 where "STAT_DROP_PORT_RATE \<equiv> 71"
abbreviation (input) STAT_DROP_DEFAULT_DENY :: u32 where "STAT_DROP_DEFAULT_DENY \<equiv> 72"
abbreviation (input) STAT_DROP_RATE_PPS :: u32 where "STAT_DROP_RATE_PPS \<equiv> 73"
abbreviation (input) STAT_DROP_RATE_BPS :: u32 where "STAT_DROP_RATE_BPS \<equiv> 74"
abbreviation (input) STAT_DROP_RATE_SYN :: u32 where "STAT_DROP_RATE_SYN \<equiv> 75"
abbreviation (input) STAT_DROP_RATE_UDP :: u32 where "STAT_DROP_RATE_UDP \<equiv> 76"
abbreviation (input) STAT_DROP_RATE_ICMP :: u32 where "STAT_DROP_RATE_ICMP \<equiv> 77"
abbreviation (input) STAT_DROP_RATE_NEWCONN :: u32 where "STAT_DROP_RATE_NEWCONN \<equiv> 78"
abbreviation (input) STAT_DROP_RATE_GLOBAL_SYN :: u32 where "STAT_DROP_RATE_GLOBAL_SYN \<equiv> 79"
abbreviation (input) STAT_DROP_PORTSCAN :: u32 where "STAT_DROP_PORTSCAN \<equiv> 80"
abbreviation (input) STAT_SYNPROXY_GEN_OK :: u32 where "STAT_SYNPROXY_GEN_OK \<equiv> 81"
abbreviation (input) STAT_SYNPROXY_GEN_FAIL :: u32 where "STAT_SYNPROXY_GEN_FAIL \<equiv> 82"
abbreviation (input) STAT_SYNPROXY_TX :: u32 where "STAT_SYNPROXY_TX \<equiv> 83"
abbreviation (input) STAT_SYNPROXY_TX_FAIL :: u32 where "STAT_SYNPROXY_TX_FAIL \<equiv> 84"
abbreviation (input) STAT_SYNPROXY_CHECK_OK :: u32 where "STAT_SYNPROXY_CHECK_OK \<equiv> 85"
abbreviation (input) STAT_DROP_SYNCOOKIE_BAD :: u32 where "STAT_DROP_SYNCOOKIE_BAD \<equiv> 86"
abbreviation (input) STAT_SYNPROXY_UNAVAIL :: u32 where "STAT_SYNPROXY_UNAVAIL \<equiv> 87"
abbreviation (input) STAT_SYNPROXY_SKIPPED :: u32 where "STAT_SYNPROXY_SKIPPED \<equiv> 88"
abbreviation (input) STAT_CT_CREATED :: u32 where "STAT_CT_CREATED \<equiv> 89"
abbreviation (input) STAT_CT_HIT :: u32 where "STAT_CT_HIT \<equiv> 90"
abbreviation (input) STAT_CT_MISS :: u32 where "STAT_CT_MISS \<equiv> 91"
abbreviation (input) STAT_CT_UPDATED :: u32 where "STAT_CT_UPDATED \<equiv> 92"
abbreviation (input) STAT_CT_FULL :: u32 where "STAT_CT_FULL \<equiv> 93"
abbreviation (input) STAT_CT_CLOSED :: u32 where "STAT_CT_CLOSED \<equiv> 94"
abbreviation (input) STAT_BAN_ADDED :: u32 where "STAT_BAN_ADDED \<equiv> 95"
abbreviation (input) STAT_BAN_ESCALATED :: u32 where "STAT_BAN_ESCALATED \<equiv> 96"
abbreviation (input) STAT_BAN_REFRESHED :: u32 where "STAT_BAN_REFRESHED \<equiv> 97"
abbreviation (input) STAT_BAN_FULL :: u32 where "STAT_BAN_FULL \<equiv> 98"
abbreviation (input) STAT_STRIKE_ADDED :: u32 where "STAT_STRIKE_ADDED \<equiv> 99"
abbreviation (input) STAT_MAP_FULL_RATE :: u32 where "STAT_MAP_FULL_RATE \<equiv> 100"
abbreviation (input) STAT_MAP_FULL_SCAN :: u32 where "STAT_MAP_FULL_SCAN \<equiv> 101"
abbreviation (input) STAT_MAP_FULL_SRCSTAT :: u32 where "STAT_MAP_FULL_SRCSTAT \<equiv> 102"
abbreviation (input) STAT_EVENT_EMITTED :: u32 where "STAT_EVENT_EMITTED \<equiv> 103"
abbreviation (input) STAT_EVENT_SAMPLED_OUT :: u32 where "STAT_EVENT_SAMPLED_OUT \<equiv> 104"
abbreviation (input) STAT_EVENT_LOST :: u32 where "STAT_EVENT_LOST \<equiv> 105"
abbreviation (input) STAT_TAILCALL_FAIL :: u32 where "STAT_TAILCALL_FAIL \<equiv> 106"
abbreviation (input) STAT_SCRATCH_FAIL :: u32 where "STAT_SCRATCH_FAIL \<equiv> 107"
abbreviation (input) STAT_CONFIG_MISSING :: u32 where "STAT_CONFIG_MISSING \<equiv> 108"
abbreviation (input) STAT_MAX :: u32 where "STAT_MAX \<equiv> 109"

text \<open>\<open>enum stat_reason\<close> in declaration order: the value of a reason is its position.\<close>

definition stat_reason_enum :: "u32 list" where
  "stat_reason_enum =
    [STAT_PKT_TOTAL, STAT_PASS_TOTAL, STAT_DROP_TOTAL,
     STAT_TX_TOTAL, STAT_MONITOR_WOULD_DROP, STAT_PASS_NOT_IP,
     STAT_PASS_LAN_IFACE, STAT_PASS_DISABLED, STAT_PASS_ALLOWLIST,
     STAT_PASS_MGMT_PORT, STAT_PASS_CONNTRACK, STAT_PASS_PORT_OPEN,
     STAT_PASS_PORT_RATE_OK, STAT_PASS_ICMP_POLICY, STAT_PASS_ICMP6_ND,
     STAT_PASS_ICMP6_PMTUD, STAT_PASS_ICMP4_PMTUD, STAT_PASS_SYNCOOKIE_OK,
     STAT_PASS_DEFAULT, STAT_DROP_ETH_TRUNC, STAT_DROP_VLAN_TRUNC,
     STAT_DROP_VLAN_DEPTH, STAT_DROP_L3_UNKNOWN, STAT_DROP_IP4_TRUNC,
     STAT_DROP_IP4_IHL, STAT_DROP_IP4_TOTLEN, STAT_DROP_IP4_OPTIONS,
     STAT_DROP_IP6_TRUNC, STAT_DROP_IP6_EXT_DEPTH, STAT_DROP_IP6_EXT_TRUNC,
     STAT_DROP_IP6_RH0, STAT_DROP_IP6_DISABLED, STAT_DROP_TTL_ZERO,
     STAT_DROP_TTL_LOW, STAT_DROP_TUNNEL_TRUNC, STAT_DROP_TUNNEL_DEPTH,
     STAT_DROP_TUNNEL_PROTO, STAT_DROP_GRE_MALFORMED, STAT_DROP_L4_TRUNC,
     STAT_DROP_L4_UNKNOWN, STAT_DROP_L4_PORT_ZERO, STAT_DROP_LAND,
     STAT_DROP_BOGON_SRC, STAT_DROP_PRIVATE_SRC, STAT_DROP_MCAST_SRC,
     STAT_DROP_BCAST_SRC, STAT_DROP_IP6_SRC_UNSPEC, STAT_DROP_IP6_SRC_LOOPBACK,
     STAT_DROP_SRC_SELF, STAT_DROP_FRAG_TINY, STAT_DROP_FRAG_OFF_ONE,
     STAT_DROP_FRAG_POLICY, STAT_DROP_FRAG_ICMP, STAT_DROP_TCP_NULL,
     STAT_DROP_TCP_FIN_ONLY, STAT_DROP_TCP_SYN_FIN, STAT_DROP_TCP_SYN_RST,
     STAT_DROP_TCP_FIN_RST, STAT_DROP_TCP_XMAS, STAT_DROP_TCP_ALL_FLAGS,
     STAT_DROP_TCP_DOFF, STAT_DROP_TCP_SYNACK_UNSOL, STAT_DROP_ICMP_TYPE,
     STAT_DROP_ICMP_OVERSIZE, STAT_DROP_ICMP6_TYPE, STAT_DROP_ICMP6_OVERSIZE,
     STAT_DROP_BLOCKLIST, STAT_DROP_BAN_ACTIVE, STAT_DROP_LOCKDOWN,
     STAT_DROP_AMP_SRCPORT, STAT_DROP_PORT_CLOSED, STAT_DROP_PORT_RATE,
     STAT_DROP_DEFAULT_DENY, STAT_DROP_RATE_PPS, STAT_DROP_RATE_BPS,
     STAT_DROP_RATE_SYN, STAT_DROP_RATE_UDP, STAT_DROP_RATE_ICMP,
     STAT_DROP_RATE_NEWCONN, STAT_DROP_RATE_GLOBAL_SYN, STAT_DROP_PORTSCAN,
     STAT_SYNPROXY_GEN_OK, STAT_SYNPROXY_GEN_FAIL, STAT_SYNPROXY_TX,
     STAT_SYNPROXY_TX_FAIL, STAT_SYNPROXY_CHECK_OK, STAT_DROP_SYNCOOKIE_BAD,
     STAT_SYNPROXY_UNAVAIL, STAT_SYNPROXY_SKIPPED, STAT_CT_CREATED,
     STAT_CT_HIT, STAT_CT_MISS, STAT_CT_UPDATED,
     STAT_CT_FULL, STAT_CT_CLOSED, STAT_BAN_ADDED,
     STAT_BAN_ESCALATED, STAT_BAN_REFRESHED, STAT_BAN_FULL,
     STAT_STRIKE_ADDED, STAT_MAP_FULL_RATE, STAT_MAP_FULL_SCAN,
     STAT_MAP_FULL_SRCSTAT, STAT_EVENT_EMITTED, STAT_EVENT_SAMPLED_OUT,
     STAT_EVENT_LOST, STAT_TAILCALL_FAIL, STAT_SCRATCH_FAIL,
     STAT_CONFIG_MISSING]"


section \<open>Enumerations and flag words\<close>

subsection \<open>Operating modes\<close>

abbreviation (input) FW_MODE_NORMAL :: u32 where "FW_MODE_NORMAL \<equiv> 0"
abbreviation (input) FW_MODE_ELEVATED :: u32 where "FW_MODE_ELEVATED \<equiv> 1"
abbreviation (input) FW_MODE_UNDER_ATTACK :: u32 where "FW_MODE_UNDER_ATTACK \<equiv> 2"
abbreviation (input) FW_MODE_LOCKDOWN :: u32 where "FW_MODE_LOCKDOWN \<equiv> 3"
abbreviation (input) FW_MODE_MONITOR_ONLY :: u32 where "FW_MODE_MONITOR_ONLY \<equiv> 4"
abbreviation (input) FW_MODE_MAX :: u32 where "FW_MODE_MAX \<equiv> 5"

subsection \<open>Per-port dispositions\<close>

abbreviation (input) CALY_PORT_CLOSED :: u32 where "CALY_PORT_CLOSED \<equiv> 0"
abbreviation (input) CALY_PORT_OPEN :: u32 where "CALY_PORT_OPEN \<equiv> 1"
abbreviation (input) CALY_PORT_RATELIMIT :: u32 where "CALY_PORT_RATELIMIT \<equiv> 2"
abbreviation (input) CALY_PORT_MODE_MAX :: u32 where "CALY_PORT_MODE_MAX \<equiv> 3"

subsection \<open>ICMP dispositions\<close>

abbreviation (input) CALY_ICMP_DROP :: u32 where "CALY_ICMP_DROP \<equiv> 0"
abbreviation (input) CALY_ICMP_PASS :: u32 where "CALY_ICMP_PASS \<equiv> 1"
abbreviation (input) CALY_ICMP_RATELIMIT :: u32 where "CALY_ICMP_RATELIMIT \<equiv> 2"
abbreviation (input) CALY_ICMP_POL_MAX :: u32 where "CALY_ICMP_POL_MAX \<equiv> 3"

subsection \<open>Interface zones\<close>

abbreviation (input) CALY_ZONE_UNSPEC :: u32 where "CALY_ZONE_UNSPEC \<equiv> 0"
abbreviation (input) CALY_ZONE_WAN :: u32 where "CALY_ZONE_WAN \<equiv> 1"
abbreviation (input) CALY_ZONE_LAN :: u32 where "CALY_ZONE_LAN \<equiv> 2"
abbreviation (input) CALY_ZONE_DMZ :: u32 where "CALY_ZONE_DMZ \<equiv> 3"
abbreviation (input) CALY_ZONE_MAX :: u32 where "CALY_ZONE_MAX \<equiv> 4"

subsection \<open>Tail-call slots\<close>

abbreviation (input) CALY_PROG_IDX_SYNPROXY :: u32 where "CALY_PROG_IDX_SYNPROXY \<equiv> 0"
abbreviation (input) CALY_PROG_IDX_IPV6 :: u32 where "CALY_PROG_IDX_IPV6 \<equiv> 1"
abbreviation (input) CALY_PROG_IDX_POLICY :: u32 where "CALY_PROG_IDX_POLICY \<equiv> 2"
abbreviation (input) CALY_PROG_IDX_PARSE :: u32 where "CALY_PROG_IDX_PARSE \<equiv> 3"
abbreviation (input) CALY_PROG_IDX_ACTION :: u32 where "CALY_PROG_IDX_ACTION \<equiv> 4"
abbreviation (input) CALY_PROG_IDX_MAX :: u32 where "CALY_PROG_IDX_MAX \<equiv> 5"

subsection \<open>Ban, rate-state and conntrack flags\<close>

abbreviation (input) CALY_BAN_F_AUTO :: u32 where "CALY_BAN_F_AUTO \<equiv> 1"
abbreviation (input) CALY_BAN_F_MANUAL :: u32 where "CALY_BAN_F_MANUAL \<equiv> 2"
abbreviation (input) CALY_BAN_F_PERMANENT :: u32 where "CALY_BAN_F_PERMANENT \<equiv> 4"
abbreviation (input) CALY_BAN_F_ESCALATED :: u32 where "CALY_BAN_F_ESCALATED \<equiv> 8"
abbreviation (input) CALY_BAN_F_FEED :: u32 where "CALY_BAN_F_FEED \<equiv> 16"
abbreviation (input) CALY_RS_F_SEEDED :: u32 where "CALY_RS_F_SEEDED \<equiv> 1"
abbreviation (input) CALY_RS_F_STRIKING :: u32 where "CALY_RS_F_STRIKING \<equiv> 2"
abbreviation (input) CALY_CT_NEW :: u32 where "CALY_CT_NEW \<equiv> 0"
abbreviation (input) CALY_CT_SYN_RECV :: u32 where "CALY_CT_SYN_RECV \<equiv> 1"
abbreviation (input) CALY_CT_SYN_SENT :: u32 where "CALY_CT_SYN_SENT \<equiv> 2"
abbreviation (input) CALY_CT_ESTABLISHED :: u32 where "CALY_CT_ESTABLISHED \<equiv> 3"
abbreviation (input) CALY_CT_FIN_WAIT :: u32 where "CALY_CT_FIN_WAIT \<equiv> 4"
abbreviation (input) CALY_CT_CLOSED :: u32 where "CALY_CT_CLOSED \<equiv> 5"
abbreviation (input) CALY_CT_STATE_MAX :: u32 where "CALY_CT_STATE_MAX \<equiv> 6"
abbreviation (input) CALY_CT_F_OUTBOUND :: u32 where "CALY_CT_F_OUTBOUND \<equiv> 1"
abbreviation (input) CALY_CT_F_SYNPROXIED :: u32 where "CALY_CT_F_SYNPROXIED \<equiv> 2"
abbreviation (input) CALY_CT_F_MGMT :: u32 where "CALY_CT_F_MGMT \<equiv> 4"
abbreviation (input) CALY_CT_F_ALLOWLIST :: u32 where "CALY_CT_F_ALLOWLIST \<equiv> 8"
abbreviation (input) CALY_CT_F_SEEN_REPLY :: u32 where "CALY_CT_F_SEEN_REPLY \<equiv> 16"

subsection \<open>Port, interface and rule flags\<close>

abbreviation (input) CALY_PORT_F_AMPLIFIER :: u32 where "CALY_PORT_F_AMPLIFIER \<equiv> 1"
abbreviation (input) CALY_PORT_F_MGMT :: u32 where "CALY_PORT_F_MGMT \<equiv> 2"
abbreviation (input) CALY_PORT_F_SYNPROXY :: u32 where "CALY_PORT_F_SYNPROXY \<equiv> 4"
abbreviation (input) CALY_PORT_F_NO_CT :: u32 where "CALY_PORT_F_NO_CT \<equiv> 8"
abbreviation (input) CALY_PORT_F_LOG :: u32 where "CALY_PORT_F_LOG \<equiv> 16"
abbreviation (input) CALY_PORT_F_PRESENT :: u32 where "CALY_PORT_F_PRESENT \<equiv> 32"

subsection \<open>Interface flags\<close>

abbreviation (input) CALY_IF_F_WAN :: u64 where "CALY_IF_F_WAN \<equiv> 1"
abbreviation (input) CALY_IF_F_MONITOR :: u64 where "CALY_IF_F_MONITOR \<equiv> 2"
abbreviation (input) CALY_IF_F_DISABLED :: u64 where "CALY_IF_F_DISABLED \<equiv> 4"
abbreviation (input) CALY_IF_F_DROP_PRIVATE :: u64 where "CALY_IF_F_DROP_PRIVATE \<equiv> 8"
abbreviation (input) CALY_IF_F_NO_IPV6 :: u64 where "CALY_IF_F_NO_IPV6 \<equiv> 16"
abbreviation (input) CALY_IF_F_TRUST_VLAN :: u64 where "CALY_IF_F_TRUST_VLAN \<equiv> 32"

subsection \<open>Rule flags\<close>

abbreviation (input) CALY_RULE_F_ALLOW :: u32 where "CALY_RULE_F_ALLOW \<equiv> 1"
abbreviation (input) CALY_RULE_F_BLOCK :: u32 where "CALY_RULE_F_BLOCK \<equiv> 2"
abbreviation (input) CALY_RULE_F_LOCAL :: u32 where "CALY_RULE_F_LOCAL \<equiv> 4"
abbreviation (input) CALY_RULE_F_BYPASS_RATE :: u32 where "CALY_RULE_F_BYPASS_RATE \<equiv> 8"
abbreviation (input) CALY_RULE_F_LOG :: u32 where "CALY_RULE_F_LOG \<equiv> 16"

subsection \<open>Policy and capability flags\<close>

abbreviation (input) CALY_F_ENABLED :: u64 where "CALY_F_ENABLED \<equiv> 1"
abbreviation (input) CALY_F_MONITOR_ONLY :: u64 where "CALY_F_MONITOR_ONLY \<equiv> 2"
abbreviation (input) CALY_F_IPV4 :: u64 where "CALY_F_IPV4 \<equiv> 4"
abbreviation (input) CALY_F_IPV6 :: u64 where "CALY_F_IPV6 \<equiv> 8"
abbreviation (input) CALY_F_VLAN_INSPECT :: u64 where "CALY_F_VLAN_INSPECT \<equiv> 16"
abbreviation (input) CALY_F_TUNNEL_INSPECT :: u64 where "CALY_F_TUNNEL_INSPECT \<equiv> 32"
abbreviation (input) CALY_F_ANOMALY_CHECKS :: u64 where "CALY_F_ANOMALY_CHECKS \<equiv> 64"
abbreviation (input) CALY_F_LAND_CHECK :: u64 where "CALY_F_LAND_CHECK \<equiv> 128"
abbreviation (input) CALY_F_BOGON_FILTER :: u64 where "CALY_F_BOGON_FILTER \<equiv> 256"
abbreviation (input) CALY_F_WAN_DROP_PRIVATE :: u64 where "CALY_F_WAN_DROP_PRIVATE \<equiv> 512"
abbreviation (input) CALY_F_TCP_FLAG_CHECKS :: u64 where "CALY_F_TCP_FLAG_CHECKS \<equiv> 1024"
abbreviation (input) CALY_F_FRAG_CHECKS :: u64 where "CALY_F_FRAG_CHECKS \<equiv> 2048"
abbreviation (input) CALY_F_DROP_ALL_FRAGS :: u64 where "CALY_F_DROP_ALL_FRAGS \<equiv> 4096"
abbreviation (input) CALY_F_ICMP_FILTER :: u64 where "CALY_F_ICMP_FILTER \<equiv> 8192"
abbreviation (input) CALY_F_DROP_IP4_OPTIONS :: u64 where "CALY_F_DROP_IP4_OPTIONS \<equiv> 16384"
abbreviation (input) CALY_F_DROP_RH0 :: u64 where "CALY_F_DROP_RH0 \<equiv> 32768"
abbreviation (input) CALY_F_TTL_CHECK :: u64 where "CALY_F_TTL_CHECK \<equiv> 65536"
abbreviation (input) CALY_F_ALLOWLIST :: u64 where "CALY_F_ALLOWLIST \<equiv> 131072"
abbreviation (input) CALY_F_BLOCKLIST :: u64 where "CALY_F_BLOCKLIST \<equiv> 262144"
abbreviation (input) CALY_F_AUTOBAN :: u64 where "CALY_F_AUTOBAN \<equiv> 524288"
abbreviation (input) CALY_F_RATE_LIMIT :: u64 where "CALY_F_RATE_LIMIT \<equiv> 1048576"
abbreviation (input) CALY_F_ANTI_AMPLIFY :: u64 where "CALY_F_ANTI_AMPLIFY \<equiv> 2097152"
abbreviation (input) CALY_F_PORT_POLICY :: u64 where "CALY_F_PORT_POLICY \<equiv> 4194304"
abbreviation (input) CALY_F_DEFAULT_DENY :: u64 where "CALY_F_DEFAULT_DENY \<equiv> 8388608"
abbreviation (input) CALY_F_CONNTRACK :: u64 where "CALY_F_CONNTRACK \<equiv> 16777216"
abbreviation (input) CALY_F_PORTSCAN_DETECT :: u64 where "CALY_F_PORTSCAN_DETECT \<equiv> 33554432"
abbreviation (input) CALY_F_SYNPROXY :: u64 where "CALY_F_SYNPROXY \<equiv> 67108864"
abbreviation (input) CALY_F_SRC_STATS :: u64 where "CALY_F_SRC_STATS \<equiv> 134217728"
abbreviation (input) CALY_F_LOG_EVENTS :: u64 where "CALY_F_LOG_EVENTS \<equiv> 268435456"
abbreviation (input) CALY_F_MGMT_BYPASS_ALL :: u64 where "CALY_F_MGMT_BYPASS_ALL \<equiv> 536870912"
abbreviation (input) CALY_F_LOCKDOWN_ICMP :: u64 where "CALY_F_LOCKDOWN_ICMP \<equiv> 1073741824"
abbreviation (input) CALY_F_DROP_UNKNOWN_L3 :: u64 where "CALY_F_DROP_UNKNOWN_L3 \<equiv> 2147483648"
abbreviation (input) CALY_F_CAP_SYNPROXY :: u64 where "CALY_F_CAP_SYNPROXY \<equiv> 4294967296"
abbreviation (input) CALY_F_CAP_RINGBUF :: u64 where "CALY_F_CAP_RINGBUF \<equiv> 8589934592"
abbreviation (input) CALY_F_CAP_XDP_NATIVE :: u64 where "CALY_F_CAP_XDP_NATIVE \<equiv> 17179869184"
abbreviation (input) CALY_F_CAP_TC_EGRESS :: u64 where "CALY_F_CAP_TC_EGRESS \<equiv> 34359738368"
abbreviation (input) CALY_F_CAP_BTF :: u64 where "CALY_F_CAP_BTF \<equiv> 68719476736"
abbreviation (input) CALY_F_CAP_XDP_TX :: u64 where "CALY_F_CAP_XDP_TX \<equiv> 137438953472"
abbreviation (input) CALY_F_CAP_LRU_PERCPU :: u64 where "CALY_F_CAP_LRU_PERCPU \<equiv> 274877906944"
abbreviation (input) CALY_F_CAP_BATCH_OPS :: u64 where "CALY_F_CAP_BATCH_OPS \<equiv> 549755813888"

subsection \<open>Packet flags\<close>

abbreviation (input) CALY_PKT_F_FRAG :: u32 where "CALY_PKT_F_FRAG \<equiv> 1"
abbreviation (input) CALY_PKT_F_FRAG_FIRST :: u32 where "CALY_PKT_F_FRAG_FIRST \<equiv> 2"
abbreviation (input) CALY_PKT_F_TUNNELED :: u32 where "CALY_PKT_F_TUNNELED \<equiv> 4"
abbreviation (input) CALY_PKT_F_VLAN :: u32 where "CALY_PKT_F_VLAN \<equiv> 8"
abbreviation (input) CALY_PKT_F_WAN :: u32 where "CALY_PKT_F_WAN \<equiv> 16"
abbreviation (input) CALY_PKT_F_ALLOWLIST :: u32 where "CALY_PKT_F_ALLOWLIST \<equiv> 32"
abbreviation (input) CALY_PKT_F_MGMT :: u32 where "CALY_PKT_F_MGMT \<equiv> 64"
abbreviation (input) CALY_PKT_F_CT_HIT :: u32 where "CALY_PKT_F_CT_HIT \<equiv> 128"
abbreviation (input) CALY_PKT_F_L4_TRUNC :: u32 where "CALY_PKT_F_L4_TRUNC \<equiv> 256"

subsection \<open>Protocol numbers\<close>

abbreviation (input) CALY_IPPROTO_HOPOPTS :: "'a::len word" where "CALY_IPPROTO_HOPOPTS \<equiv> 0"
abbreviation (input) CALY_IPPROTO_ICMP :: "'a::len word" where "CALY_IPPROTO_ICMP \<equiv> 1"
abbreviation (input) CALY_IPPROTO_IPIP :: "'a::len word" where "CALY_IPPROTO_IPIP \<equiv> 4"
abbreviation (input) CALY_IPPROTO_TCP :: "'a::len word" where "CALY_IPPROTO_TCP \<equiv> 6"
abbreviation (input) CALY_IPPROTO_UDP :: "'a::len word" where "CALY_IPPROTO_UDP \<equiv> 17"
abbreviation (input) CALY_IPPROTO_IPV6 :: "'a::len word" where "CALY_IPPROTO_IPV6 \<equiv> 41"
abbreviation (input) CALY_IPPROTO_ROUTING :: "'a::len word" where "CALY_IPPROTO_ROUTING \<equiv> 43"
abbreviation (input) CALY_IPPROTO_FRAGMENT :: "'a::len word" where "CALY_IPPROTO_FRAGMENT \<equiv> 44"
abbreviation (input) CALY_IPPROTO_GRE :: "'a::len word" where "CALY_IPPROTO_GRE \<equiv> 47"
abbreviation (input) CALY_IPPROTO_ESP :: "'a::len word" where "CALY_IPPROTO_ESP \<equiv> 50"
abbreviation (input) CALY_IPPROTO_AH :: "'a::len word" where "CALY_IPPROTO_AH \<equiv> 51"
abbreviation (input) CALY_IPPROTO_ICMPV6 :: "'a::len word" where "CALY_IPPROTO_ICMPV6 \<equiv> 58"
abbreviation (input) CALY_IPPROTO_NONE :: "'a::len word" where "CALY_IPPROTO_NONE \<equiv> 59"
abbreviation (input) CALY_IPPROTO_DSTOPTS :: "'a::len word" where "CALY_IPPROTO_DSTOPTS \<equiv> 60"
abbreviation (input) CALY_IPPROTO_MH :: "'a::len word" where "CALY_IPPROTO_MH \<equiv> 135"
abbreviation (input) CALY_IPPROTO_SCTP :: "'a::len word" where "CALY_IPPROTO_SCTP \<equiv> 132"

subsection \<open>Ethertypes\<close>

abbreviation (input) CALY_ETH_P_IP :: "'a::len word" where "CALY_ETH_P_IP \<equiv> 2048"
abbreviation (input) CALY_ETH_P_IPV6 :: "'a::len word" where "CALY_ETH_P_IPV6 \<equiv> 34525"
abbreviation (input) CALY_ETH_P_ARP :: "'a::len word" where "CALY_ETH_P_ARP \<equiv> 2054"
abbreviation (input) CALY_ETH_P_8021Q :: "'a::len word" where "CALY_ETH_P_8021Q \<equiv> 33024"
abbreviation (input) CALY_ETH_P_8021AD :: "'a::len word" where "CALY_ETH_P_8021AD \<equiv> 34984"
abbreviation (input) CALY_ETH_P_QINQ1 :: "'a::len word" where "CALY_ETH_P_QINQ1 \<equiv> 37120"
abbreviation (input) CALY_ETH_P_QINQ2 :: "'a::len word" where "CALY_ETH_P_QINQ2 \<equiv> 37376"
abbreviation (input) CALY_ETH_P_QINQ3 :: "'a::len word" where "CALY_ETH_P_QINQ3 \<equiv> 37632"

subsection \<open>TCP flag bits\<close>

abbreviation (input) CALY_TCP_FIN :: "'a::len word" where "CALY_TCP_FIN \<equiv> 1"
abbreviation (input) CALY_TCP_SYN :: "'a::len word" where "CALY_TCP_SYN \<equiv> 2"
abbreviation (input) CALY_TCP_RST :: "'a::len word" where "CALY_TCP_RST \<equiv> 4"
abbreviation (input) CALY_TCP_PSH :: "'a::len word" where "CALY_TCP_PSH \<equiv> 8"
abbreviation (input) CALY_TCP_ACK :: "'a::len word" where "CALY_TCP_ACK \<equiv> 16"
abbreviation (input) CALY_TCP_URG :: "'a::len word" where "CALY_TCP_URG \<equiv> 32"
abbreviation (input) CALY_TCP_ECE :: "'a::len word" where "CALY_TCP_ECE \<equiv> 64"
abbreviation (input) CALY_TCP_CWR :: "'a::len word" where "CALY_TCP_CWR \<equiv> 128"
abbreviation (input) CALY_TCP_FLAG_MASK :: "'a::len word" where "CALY_TCP_FLAG_MASK \<equiv> 63"
abbreviation (input) CALY_TCP_ALL_FLAGS :: "'a::len word" where "CALY_TCP_ALL_FLAGS \<equiv> 255"

subsection \<open>Address families\<close>

abbreviation (input) CALY_AF_INET :: u32 where "CALY_AF_INET \<equiv> 4"
abbreviation (input) CALY_AF_INET6 :: u32 where "CALY_AF_INET6 \<equiv> 6"

subsection \<open>Enumerations used only as constants\<close>

datatype caly_verdict = VERDICT_PASS | VERDICT_DROP | VERDICT_TX | VERDICT_MONITOR

primrec verdict_code :: "caly_verdict \<Rightarrow> u32" where
  "verdict_code VERDICT_PASS = 0"
| "verdict_code VERDICT_DROP = 1"
| "verdict_code VERDICT_TX = 2"
| "verdict_code VERDICT_MONITOR = 3"

datatype caly_tb_kind = TB_PPS | TB_BPS | TB_SYN | TB_UDP | TB_ICMP | TB_NEWCONN

datatype caly_gauge = G_PKTS | G_BYTES | G_SYN | G_NEWCONN | G_DROPS | G_UDP | G_ICMP | G_FRAG
  | G_SYNPROXY_TX | G_EVENTS | G_EVENTS_LOST

section \<open>Limits\<close>

abbreviation (input) CALY_VLAN_MAX_DEPTH :: u32 where "CALY_VLAN_MAX_DEPTH \<equiv> 2"
abbreviation (input) CALY_IP6_EXT_MAX :: u32 where "CALY_IP6_EXT_MAX \<equiv> 4"
abbreviation (input) CALY_TUNNEL_MAX_DEPTH :: u32 where "CALY_TUNNEL_MAX_DEPTH \<equiv> 0"
abbreviation (input) CALY_NSEC_PER_SEC :: u64 where "CALY_NSEC_PER_SEC \<equiv> 1000000000"
abbreviation (input) CALY_TB_RATE_MAX :: u64 where "CALY_TB_RATE_MAX \<equiv> 4000000000"
abbreviation (input) CALY_TB_MAX_ELAPSED_NS :: u64 where "CALY_TB_MAX_ELAPSED_NS \<equiv> 1000000000"
abbreviation (input) CALY_SCAN_BITMAP_MASK :: u32 where "CALY_SCAN_BITMAP_MASK \<equiv> 511"
abbreviation (input) CALY_SCAN_BITMAP_WORDS :: u32 where "CALY_SCAN_BITMAP_WORDS \<equiv> 8"
abbreviation (input) CALY_MGMT_PORTS_MAX :: nat where "CALY_MGMT_PORTS_MAX \<equiv> 16"

section \<open>Structures\<close>

text \<open>Four 32-bit words in network byte order: an IPv6 address, or an IPv4 address in the first.\<close>

datatype quad = Quad (q0: u32) (q1: u32) (q2: u32) (q3: u32)

text \<open>\<open>struct rule_meta\<close>: the value of an allow, block or local prefix.\<close>

record rule_meta =
  rm_added_ns :: "u64"
  rm_hits :: "u64"
  rm_flags :: "u32"
  rm_tag :: "u32"

text \<open>\<open>struct ban_entry\<close>: one dynamic ban.\<close>

record ban_entry =
  be_expiry_ns :: "u64"
  be_first_seen_ns :: "u64"
  be_last_hit_ns :: "u64"
  be_cur_ttl_ns :: "u64"
  be_hit_pkts :: "u64"
  be_hit_bytes :: "u64"
  be_reason :: "u32"
  be_strikes :: "u32"
  be_offences :: "u32"
  be_flags :: "u32"

text \<open>\<open>struct caly_token_bucket\<close>.\<close>

record caly_token_bucket =
  tb_tokens :: "u64"
  tb_last_refill_ns :: "u64"

text \<open>\<open>struct rate_state\<close>: the six buckets and the strike window of a source.\<close>

record rate_state =
  rs_tb :: "caly_tb_kind \<Rightarrow> caly_token_bucket"
  rs_window_start_ns :: "u64"
  rs_last_seen_ns :: "u64"
  rs_strikes :: "u32"
  rs_last_reason :: "u32"
  rs_offences :: "u32"
  rs_flags :: "u32"

text \<open>\<open>struct conn_key\<close>: the ingress-relative 5-tuple, padding included, since the map hashes bytes.\<close>

record conn_key =
  ck_saddr :: "quad"
  ck_daddr :: "quad"
  ck_sport :: "u16"
  ck_dport :: "u16"
  ck_proto :: "u8"
  ck_family :: "u8"
  ck_pad :: "u8 \<times> u8"

text \<open>\<open>struct conn_state\<close>.\<close>

record conn_state =
  cs_created_ns :: "u64"
  cs_last_seen_ns :: "u64"
  cs_pkts_in :: "u64"
  cs_bytes_in :: "u64"
  cs_pkts_out :: "u64"
  cs_bytes_out :: "u64"
  cs_state :: "u32"
  cs_flags :: "u32"
  cs_ifindex :: "u32"
  cs_mark :: "u32"

text \<open>\<open>struct port_rule\<close>.\<close>

record port_rule =
  pr_rate :: "u64"
  pr_burst :: "u64"
  pr_mode :: "u32"
  pr_flags :: "u32"

text \<open>\<open>struct scan_state\<close>: the port-scan Bloom filter of a source; the bitmap has eight words.\<close>

record scan_state =
  sn_window_start_ns :: "u64"
  sn_last_seen_ns :: "u64"
  sn_bitmap :: "u64 list"
  sn_distinct :: "u32"
  sn_hits :: "u32"
  sn_last_port :: "u32"
  sn_flags :: "u32"

text \<open>\<open>struct src_stats\<close>.\<close>

record src_stats =
  ss_packets :: "u64"
  ss_bytes :: "u64"
  ss_drops :: "u64"
  ss_drop_bytes :: "u64"
  ss_first_seen_ns :: "u64"
  ss_last_seen_ns :: "u64"
  ss_last_reason :: "u32"
  ss_flags :: "u32"

text \<open>\<open>struct event\<close>.\<close>

record event =
  ev_ts_ns :: "u64"
  ev_ban_ttl_ns :: "u64"
  ev_value :: "u64"
  ev_saddr :: "quad"
  ev_daddr :: "quad"
  ev_ifindex :: "u32"
  ev_reason :: "u32"
  ev_verdict :: "u32"
  ev_proto :: "u32"
  ev_pkt_len :: "u32"
  ev_family :: "u32"
  ev_sport :: "u16"
  ev_dport :: "u16"
  ev_tcp_flags :: "u16"
  ev_mode :: "u8"
  ev_version :: "u8"

text \<open>\<open>struct iface_config\<close>.\<close>

record iface_config =
  if_flags :: "u64"
  if_ifindex :: "u32"
  if_zone :: "u32"
  if_reserved :: "u64 list"

text \<open>\<open>struct pkt_ctx\<close>: the parsed packet descriptor.\<close>

record pkt_ctx =
  pk_ts_ns :: "u64"
  pk_saddr :: "quad"
  pk_daddr :: "quad"
  pk_l3_off :: "u32"
  pk_l4_off :: "u32"
  pk_payload_off :: "u32"
  pk_pkt_len :: "u32"
  pk_ifindex :: "u32"
  pk_family :: "u32"
  pk_proto :: "u32"
  pk_vlan_depth :: "u32"
  pk_tunnel_depth :: "u32"
  pk_frag_off :: "u32"
  pk_tcp_flags :: "u32"
  pk_flags :: "u32"
  pk_sport :: "u16"
  pk_dport :: "u16"
  pk_eth_proto :: "u16"
  pk_l4_len :: "u16"

text \<open>\<open>struct caly_scratch\<close>: the per-CPU scratch area, with the values carried across tail calls.\<close>

record caly_scratch =
  sc_pkt :: "pkt_ctx"
  sc_ev :: "event"
  sc_ck :: "conn_key"
  sc_cs :: "conn_state"
  sc_ban :: "ban_entry"
  sc_tmp :: "u64 list"
  sc_carry_if_flags :: "u64"
  sc_carry_icmp_tc :: "u32"
  sc_carry_l3_off :: "u32"
  sc_carry_l3_proto :: "u16"
  sc_carry_is_wan :: "u8"
  sc_carry_if_monitor :: "u8"
  sc_carry_ct_missed :: "u8"
  sc_carry_ct_key_valid :: "u8"
  sc_carry_pad :: "u8 \<times> u8"

text \<open>\<open>struct fw_config\<close>: the one configuration record.\<close>

record fw_config =
  cfg_abi_version :: "u64"
  cfg_config_gen :: "u64"
  cfg_flags :: "u64"
  cfg_tb_rate :: "caly_tb_kind \<Rightarrow> u64"
  cfg_tb_burst :: "caly_tb_kind \<Rightarrow> u64"
  cfg_global_pps_hi :: "u64"
  cfg_global_pps_lo :: "u64"
  cfg_global_bps_hi :: "u64"
  cfg_global_bps_lo :: "u64"
  cfg_global_syn_pps_hi :: "u64"
  cfg_global_syn_pps_lo :: "u64"
  cfg_global_newconn_pps_hi :: "u64"
  cfg_global_newconn_pps_lo :: "u64"
  cfg_attack_dwell_ns :: "u64"
  cfg_syn_fallback_pps :: "u64"
  cfg_ban_ttl_base_ns :: "u64"
  cfg_ban_ttl_max_ns :: "u64"
  cfg_ban_ttl_scan_ns :: "u64"
  cfg_ban_ttl_amp_ns :: "u64"
  cfg_strike_window_ns :: "u64"
  cfg_scan_window_ns :: "u64"
  cfg_ct_tcp_syn_ns :: "u64"
  cfg_ct_tcp_est_ns :: "u64"
  cfg_ct_tcp_fin_ns :: "u64"
  cfg_ct_udp_ns :: "u64"
  cfg_ct_udp_stream_ns :: "u64"
  cfg_ct_icmp_ns :: "u64"
  cfg_ct_generic_ns :: "u64"
  cfg_rate_idle_ns :: "u64"
  cfg_scan_idle_ns :: "u64"
  cfg_srcstat_idle_ns :: "u64"
  cfg_mode :: "u32"
  cfg_default_zone :: "u32"
  cfg_strike_limit :: "u32"
  cfg_ban_escalate_num :: "u32"
  cfg_ban_escalate_den :: "u32"
  cfg_scan_port_threshold :: "u32"
  cfg_icmp_max_payload :: "u32"
  cfg_icmp6_max_payload :: "u32"
  cfg_frag_min_bytes :: "u32"
  cfg_ip_min_ttl :: "u32"
  cfg_vlan_max_depth :: "u32"
  cfg_ip6_ext_max :: "u32"
  cfg_tunnel_max_depth :: "u32"
  cfg_tcp_min_doff :: "u32"
  cfg_log_sample_rate :: "u32"
  cfg_log_max_pps :: "u32"
  cfg_log_level :: "u32"
  cfg_event_pages :: "u32"
  cfg_max_ban_entries :: "u32"
  cfg_max_conn_entries :: "u32"
  cfg_max_rate_entries :: "u32"
  cfg_max_scan_entries :: "u32"
  cfg_max_srcstat_entries :: "u32"
  cfg_max_allow_entries :: "u32"
  cfg_max_block_entries :: "u32"
  cfg_max_iface_entries :: "u32"
  cfg_dataplane_pref :: "u32"
  cfg_xdp_attach_pref :: "u32"
  cfg_poll_interval_ms :: "u32"
  cfg_stats_interval_ms :: "u32"
  cfg_gc_interval_ms :: "u32"
  cfg_gc_batch :: "u32"
  cfg_mgmt_tcp_count :: "u32"
  cfg_mgmt_udp_count :: "u32"
  cfg_mgmt_tcp_ports :: "u16 list"
  cfg_mgmt_udp_ports :: "u16 list"
  cfg_reserved :: "u64 list"

section \<open>Names\<close>

text \<open>The switch of \<open>stat_reason_str\<close>, one pair per case.\<close>

definition stat_reason_table :: "(u32 \<times> string) list" where
  "stat_reason_table =
    [(STAT_PKT_TOTAL, ''pkt_total''),
     (STAT_PASS_TOTAL, ''pass_total''),
     (STAT_DROP_TOTAL, ''drop_total''),
     (STAT_TX_TOTAL, ''tx_total''),
     (STAT_MONITOR_WOULD_DROP, ''monitor_would_drop''),
     (STAT_PASS_NOT_IP, ''pass_not_ip''),
     (STAT_PASS_LAN_IFACE, ''pass_lan_iface''),
     (STAT_PASS_DISABLED, ''pass_disabled''),
     (STAT_PASS_ALLOWLIST, ''pass_allowlist''),
     (STAT_PASS_MGMT_PORT, ''pass_mgmt_port''),
     (STAT_PASS_CONNTRACK, ''pass_conntrack''),
     (STAT_PASS_PORT_OPEN, ''pass_port_open''),
     (STAT_PASS_PORT_RATE_OK, ''pass_port_rate_ok''),
     (STAT_PASS_ICMP_POLICY, ''pass_icmp_policy''),
     (STAT_PASS_ICMP6_ND, ''pass_icmp6_nd''),
     (STAT_PASS_ICMP6_PMTUD, ''pass_icmp6_pmtud''),
     (STAT_PASS_ICMP4_PMTUD, ''pass_icmp4_pmtud''),
     (STAT_PASS_SYNCOOKIE_OK, ''pass_syncookie_ok''),
     (STAT_PASS_DEFAULT, ''pass_default''),
     (STAT_DROP_ETH_TRUNC, ''drop_eth_trunc''),
     (STAT_DROP_VLAN_TRUNC, ''drop_vlan_trunc''),
     (STAT_DROP_VLAN_DEPTH, ''drop_vlan_depth''),
     (STAT_DROP_L3_UNKNOWN, ''drop_l3_unknown''),
     (STAT_DROP_IP4_TRUNC, ''drop_ip4_trunc''),
     (STAT_DROP_IP4_IHL, ''drop_ip4_ihl''),
     (STAT_DROP_IP4_TOTLEN, ''drop_ip4_totlen''),
     (STAT_DROP_IP4_OPTIONS, ''drop_ip4_options''),
     (STAT_DROP_IP6_TRUNC, ''drop_ip6_trunc''),
     (STAT_DROP_IP6_EXT_DEPTH, ''drop_ip6_ext_depth''),
     (STAT_DROP_IP6_EXT_TRUNC, ''drop_ip6_ext_trunc''),
     (STAT_DROP_IP6_RH0, ''drop_ip6_rh0''),
     (STAT_DROP_IP6_DISABLED, ''drop_ip6_disabled''),
     (STAT_DROP_TTL_ZERO, ''drop_ttl_zero''),
     (STAT_DROP_TTL_LOW, ''drop_ttl_low''),
     (STAT_DROP_TUNNEL_TRUNC, ''drop_tunnel_trunc''),
     (STAT_DROP_TUNNEL_DEPTH, ''drop_tunnel_depth''),
     (STAT_DROP_TUNNEL_PROTO, ''drop_tunnel_proto''),
     (STAT_DROP_GRE_MALFORMED, ''drop_gre_malformed''),
     (STAT_DROP_L4_TRUNC, ''drop_l4_trunc''),
     (STAT_DROP_L4_UNKNOWN, ''drop_l4_unknown''),
     (STAT_DROP_L4_PORT_ZERO, ''drop_l4_port_zero''),
     (STAT_DROP_LAND, ''drop_land''),
     (STAT_DROP_BOGON_SRC, ''drop_bogon_src''),
     (STAT_DROP_PRIVATE_SRC, ''drop_private_src''),
     (STAT_DROP_MCAST_SRC, ''drop_mcast_src''),
     (STAT_DROP_BCAST_SRC, ''drop_bcast_src''),
     (STAT_DROP_IP6_SRC_UNSPEC, ''drop_ip6_src_unspec''),
     (STAT_DROP_IP6_SRC_LOOPBACK, ''drop_ip6_src_loopback''),
     (STAT_DROP_SRC_SELF, ''drop_src_self''),
     (STAT_DROP_FRAG_TINY, ''drop_frag_tiny''),
     (STAT_DROP_FRAG_OFF_ONE, ''drop_frag_off_one''),
     (STAT_DROP_FRAG_POLICY, ''drop_frag_policy''),
     (STAT_DROP_FRAG_ICMP, ''drop_frag_icmp''),
     (STAT_DROP_TCP_NULL, ''drop_tcp_null''),
     (STAT_DROP_TCP_FIN_ONLY, ''drop_tcp_fin_only''),
     (STAT_DROP_TCP_SYN_FIN, ''drop_tcp_syn_fin''),
     (STAT_DROP_TCP_SYN_RST, ''drop_tcp_syn_rst''),
     (STAT_DROP_TCP_FIN_RST, ''drop_tcp_fin_rst''),
     (STAT_DROP_TCP_XMAS, ''drop_tcp_xmas''),
     (STAT_DROP_TCP_ALL_FLAGS, ''drop_tcp_all_flags''),
     (STAT_DROP_TCP_DOFF, ''drop_tcp_doff''),
     (STAT_DROP_TCP_SYNACK_UNSOL, ''drop_tcp_synack_unsolicited''),
     (STAT_DROP_ICMP_TYPE, ''drop_icmp_type''),
     (STAT_DROP_ICMP_OVERSIZE, ''drop_icmp_oversize''),
     (STAT_DROP_ICMP6_TYPE, ''drop_icmp6_type''),
     (STAT_DROP_ICMP6_OVERSIZE, ''drop_icmp6_oversize''),
     (STAT_DROP_BLOCKLIST, ''drop_blocklist''),
     (STAT_DROP_BAN_ACTIVE, ''drop_ban_active''),
     (STAT_DROP_LOCKDOWN, ''drop_lockdown''),
     (STAT_DROP_AMP_SRCPORT, ''drop_amp_srcport''),
     (STAT_DROP_PORT_CLOSED, ''drop_port_closed''),
     (STAT_DROP_PORT_RATE, ''drop_port_rate''),
     (STAT_DROP_DEFAULT_DENY, ''drop_default_deny''),
     (STAT_DROP_RATE_PPS, ''drop_rate_pps''),
     (STAT_DROP_RATE_BPS, ''drop_rate_bps''),
     (STAT_DROP_RATE_SYN, ''drop_rate_syn''),
     (STAT_DROP_RATE_UDP, ''drop_rate_udp''),
     (STAT_DROP_RATE_ICMP, ''drop_rate_icmp''),
     (STAT_DROP_RATE_NEWCONN, ''drop_rate_newconn''),
     (STAT_DROP_RATE_GLOBAL_SYN, ''drop_rate_global_syn''),
     (STAT_DROP_PORTSCAN, ''drop_portscan''),
     (STAT_SYNPROXY_GEN_OK, ''synproxy_gen_ok''),
     (STAT_SYNPROXY_GEN_FAIL, ''synproxy_gen_fail''),
     (STAT_SYNPROXY_TX, ''synproxy_tx''),
     (STAT_SYNPROXY_TX_FAIL, ''synproxy_tx_fail''),
     (STAT_SYNPROXY_CHECK_OK, ''synproxy_check_ok''),
     (STAT_DROP_SYNCOOKIE_BAD, ''drop_syncookie_bad''),
     (STAT_SYNPROXY_UNAVAIL, ''synproxy_unavailable''),
     (STAT_SYNPROXY_SKIPPED, ''synproxy_skipped''),
     (STAT_CT_CREATED, ''ct_created''),
     (STAT_CT_HIT, ''ct_hit''),
     (STAT_CT_MISS, ''ct_miss''),
     (STAT_CT_UPDATED, ''ct_updated''),
     (STAT_CT_FULL, ''ct_full''),
     (STAT_CT_CLOSED, ''ct_closed''),
     (STAT_BAN_ADDED, ''ban_added''),
     (STAT_BAN_ESCALATED, ''ban_escalated''),
     (STAT_BAN_REFRESHED, ''ban_refreshed''),
     (STAT_BAN_FULL, ''ban_full''),
     (STAT_STRIKE_ADDED, ''strike_added''),
     (STAT_MAP_FULL_RATE, ''map_full_rate''),
     (STAT_MAP_FULL_SCAN, ''map_full_scan''),
     (STAT_MAP_FULL_SRCSTAT, ''map_full_srcstat''),
     (STAT_EVENT_EMITTED, ''event_emitted''),
     (STAT_EVENT_SAMPLED_OUT, ''event_sampled_out''),
     (STAT_EVENT_LOST, ''event_lost''),
     (STAT_TAILCALL_FAIL, ''tailcall_fail''),
     (STAT_SCRATCH_FAIL, ''scratch_fail''),
     (STAT_CONFIG_MISSING, ''config_missing'')]"

definition stat_reason_str :: "u32 \<Rightarrow> string" where
  "stat_reason_str r = (case map_of stat_reason_table r of Some n \<Rightarrow> n | None \<Rightarrow> ''unknown'')"

definition fw_mode_str :: "u32 \<Rightarrow> string" where
  "fw_mode_str m =
     (if m = FW_MODE_NORMAL then ''normal''
      else if m = FW_MODE_ELEVATED then ''elevated''
      else if m = FW_MODE_UNDER_ATTACK then ''under-attack''
      else if m = FW_MODE_LOCKDOWN then ''lockdown''
      else if m = FW_MODE_MONITOR_ONLY then ''monitor-only''
      else ''unknown'')"

definition stat_reason_is_drop :: "u32 \<Rightarrow> bool" where
  "stat_reason_is_drop r \<longleftrightarrow>
     (STAT_DROP_ETH_TRUNC \<le> r \<and> r \<le> STAT_DROP_PORTSCAN) \<or> r = STAT_DROP_SYNCOOKIE_BAD"

section \<open>Helpers of compat.h\<close>

definition caly_min_u32 :: "u32 \<Rightarrow> u32 \<Rightarrow> u32" where
  "caly_min_u32 a b = (if a < b then a else b)"

definition caly_add_sat_u64 :: "u64 \<Rightarrow> u64 \<Rightarrow> u64" where
  "caly_add_sat_u64 a b = (let s = a + b in if s < a then NOT 0 else s)"

definition caly_add_sat_u32 :: "u32 \<Rightarrow> u32 \<Rightarrow> u32" where
  "caly_add_sat_u32 a b = (let s = a + b in if s < a then NOT 0 else s)"

definition caly_age_ns :: "u64 \<Rightarrow> u64 \<Rightarrow> u64" where
  "caly_age_ns now_ns then_ns = (if now_ns > then_ns then now_ns - then_ns else 0)"

definition caly_clamp_vlan_depth :: "u32 \<Rightarrow> u32" where
  "caly_clamp_vlan_depth v = (if v = 0 \<or> v > CALY_VLAN_MAX_DEPTH then CALY_VLAN_MAX_DEPTH else v)"

definition caly_clamp_ip6_ext :: "u32 \<Rightarrow> u32" where
  "caly_clamp_ip6_ext v = (if v = 0 \<or> v > CALY_IP6_EXT_MAX then CALY_IP6_EXT_MAX else v)"

lemma caly_add_sat_u64_eq: "caly_add_sat_u64 a b = sat_add a b"
  by (simp add: caly_add_sat_u64_def sat_add_def Let_def)

lemma caly_add_sat_u32_eq: "caly_add_sat_u32 a b = sat_add a b"
  by (simp add: caly_add_sat_u32_def sat_add_def Let_def)

lemma unat_caly_age_ns: "unat (caly_age_ns now thn) = unat now - unat thn"
  by (auto simp: caly_age_ns_def word_less_nat_alt unat_sub word_le_nat_alt not_less)

end
