(* ===== verification/Caly_Config.thy ===== *)
theory Caly_Config
  imports Caly_Common
begin

text \<open>
  The shipped configuration: \<open>caly_conf_set_defaults\<close> of \<open>src/user/config.c\<close>, the \<open>fw\<close> part of
  the daemon's configuration, with the default policy word of \<open>common.h\<close>.  It is the concrete
  configuration the witnesses run on.
\<close>

text \<open>\<open>CALY_ABI_VERSION\<close>: major 1, minor 1.\<close>

definition CALY_ABI_VERSION :: u64 where
  "CALY_ABI_VERSION = push_bit 16 1 OR 1"

definition CALY_F_DEFAULT_POLICY :: u64 where
  "CALY_F_DEFAULT_POLICY =
     CALY_F_ENABLED OR CALY_F_IPV4 OR CALY_F_IPV6 OR CALY_F_VLAN_INSPECT OR
     CALY_F_ANOMALY_CHECKS OR CALY_F_LAND_CHECK OR CALY_F_BOGON_FILTER OR
     CALY_F_TCP_FLAG_CHECKS OR CALY_F_FRAG_CHECKS OR CALY_F_ICMP_FILTER OR
     CALY_F_ALLOWLIST OR CALY_F_BLOCKLIST OR CALY_F_AUTOBAN OR
     CALY_F_RATE_LIMIT OR CALY_F_ANTI_AMPLIFY OR CALY_F_CONNTRACK OR
     CALY_F_PORTSCAN_DETECT OR CALY_F_SRC_STATS OR CALY_F_LOG_EVENTS OR
     CALY_F_MGMT_BYPASS_ALL OR CALY_F_LOCKDOWN_ICMP"

definition caly_conf_set_defaults :: fw_config where
  "caly_conf_set_defaults = \<lparr>
      cfg_abi_version = CALY_ABI_VERSION,
      cfg_config_gen = 0,
      cfg_flags = CALY_F_DEFAULT_POLICY OR CALY_F_PORT_POLICY OR CALY_F_TUNNEL_INSPECT OR CALY_F_DROP_RH0
        OR CALY_F_SYNPROXY,
      cfg_tb_rate = (\<lambda>k. case k of TB_PPS \<Rightarrow> 200000 | TB_BPS \<Rightarrow> 250000000 | TB_SYN \<Rightarrow> 2000 | TB_UDP \<Rightarrow> 50000 | TB_ICMP \<Rightarrow> 200 | TB_NEWCONN \<Rightarrow> 500),
      cfg_tb_burst = (\<lambda>k. case k of TB_PPS \<Rightarrow> 400000 | TB_BPS \<Rightarrow> 500000000 | TB_SYN \<Rightarrow> 4000 | TB_UDP \<Rightarrow> 100000 | TB_ICMP \<Rightarrow> 400 | TB_NEWCONN \<Rightarrow> 1000),
      cfg_global_pps_hi = 4000000,
      cfg_global_pps_lo = 2000000,
      cfg_global_bps_hi = 1250000000,
      cfg_global_bps_lo = 800000000,
      cfg_global_syn_pps_hi = 40000,
      cfg_global_syn_pps_lo = 15000,
      cfg_global_newconn_pps_hi = 100000,
      cfg_global_newconn_pps_lo = 50000,
      cfg_attack_dwell_ns = 120 * CALY_NSEC_PER_SEC,
      cfg_syn_fallback_pps = 100000,
      cfg_ban_ttl_base_ns = 600 * CALY_NSEC_PER_SEC,
      cfg_ban_ttl_max_ns = 86400 * CALY_NSEC_PER_SEC,
      cfg_ban_ttl_scan_ns = 3600 * CALY_NSEC_PER_SEC,
      cfg_ban_ttl_amp_ns = 6 * 3600 * CALY_NSEC_PER_SEC,
      cfg_strike_window_ns = 60 * CALY_NSEC_PER_SEC,
      cfg_scan_window_ns = 30 * CALY_NSEC_PER_SEC,
      cfg_ct_tcp_syn_ns = 60 * CALY_NSEC_PER_SEC,
      cfg_ct_tcp_est_ns = 4 * 3600 * CALY_NSEC_PER_SEC,
      cfg_ct_tcp_fin_ns = 30 * CALY_NSEC_PER_SEC,
      cfg_ct_udp_ns = 30 * CALY_NSEC_PER_SEC,
      cfg_ct_udp_stream_ns = 180 * CALY_NSEC_PER_SEC,
      cfg_ct_icmp_ns = 30 * CALY_NSEC_PER_SEC,
      cfg_ct_generic_ns = 60 * CALY_NSEC_PER_SEC,
      cfg_rate_idle_ns = 300 * CALY_NSEC_PER_SEC,
      cfg_scan_idle_ns = 300 * CALY_NSEC_PER_SEC,
      cfg_srcstat_idle_ns = 600 * CALY_NSEC_PER_SEC,
      cfg_mode = FW_MODE_NORMAL,
      cfg_default_zone = CALY_ZONE_LAN,
      cfg_strike_limit = 10,
      cfg_ban_escalate_num = 2,
      cfg_ban_escalate_den = 1,
      cfg_scan_port_threshold = 60,
      cfg_icmp_max_payload = 1472,
      cfg_icmp6_max_payload = 1472,
      cfg_frag_min_bytes = 128,
      cfg_ip_min_ttl = 0,
      cfg_vlan_max_depth = CALY_VLAN_MAX_DEPTH,
      cfg_ip6_ext_max = CALY_IP6_EXT_MAX,
      cfg_tunnel_max_depth = CALY_TUNNEL_MAX_DEPTH,
      cfg_tcp_min_doff = 5,
      cfg_log_sample_rate = 100,
      cfg_log_max_pps = 1000,
      cfg_log_level = 2,
      cfg_event_pages = 16,
      cfg_max_ban_entries = 262144,
      cfg_max_conn_entries = 262144,
      cfg_max_rate_entries = 524288,
      cfg_max_scan_entries = 131072,
      cfg_max_srcstat_entries = 131072,
      cfg_max_allow_entries = 65536,
      cfg_max_block_entries = 262144,
      cfg_max_iface_entries = 64,
      cfg_dataplane_pref = 0,
      cfg_xdp_attach_pref = 0,
      cfg_poll_interval_ms = 200,
      cfg_stats_interval_ms = 1000,
      cfg_gc_interval_ms = 5000,
      cfg_gc_batch = 4096,
      cfg_mgmt_tcp_count = 1,
      cfg_mgmt_udp_count = 0,
      cfg_mgmt_tcp_ports = 22 # replicate 15 0,
      cfg_mgmt_udp_ports = replicate 16 0,
      cfg_reserved = replicate 24 0
    \<rparr>"

text \<open>The fields of the shipped configuration, so that no proof unfolds the whole record.\<close>

lemma conf_defaults [simp]:
  "cfg_abi_version caly_conf_set_defaults = CALY_ABI_VERSION"
  "cfg_config_gen caly_conf_set_defaults = 0"
  "cfg_tb_rate caly_conf_set_defaults = (\<lambda>k. case k of TB_PPS \<Rightarrow> 200000 | TB_BPS \<Rightarrow> 250000000 | TB_SYN \<Rightarrow> 2000 | TB_UDP \<Rightarrow> 50000 | TB_ICMP \<Rightarrow> 200 | TB_NEWCONN \<Rightarrow> 500)"
  "cfg_tb_burst caly_conf_set_defaults = (\<lambda>k. case k of TB_PPS \<Rightarrow> 400000 | TB_BPS \<Rightarrow> 500000000 | TB_SYN \<Rightarrow> 4000 | TB_UDP \<Rightarrow> 100000 | TB_ICMP \<Rightarrow> 400 | TB_NEWCONN \<Rightarrow> 1000)"
  "cfg_global_pps_hi caly_conf_set_defaults = 4000000"
  "cfg_global_pps_lo caly_conf_set_defaults = 2000000"
  "cfg_global_bps_hi caly_conf_set_defaults = 1250000000"
  "cfg_global_bps_lo caly_conf_set_defaults = 800000000"
  "cfg_global_syn_pps_hi caly_conf_set_defaults = 40000"
  "cfg_global_syn_pps_lo caly_conf_set_defaults = 15000"
  "cfg_global_newconn_pps_hi caly_conf_set_defaults = 100000"
  "cfg_global_newconn_pps_lo caly_conf_set_defaults = 50000"
  "cfg_attack_dwell_ns caly_conf_set_defaults = 120 * CALY_NSEC_PER_SEC"
  "cfg_syn_fallback_pps caly_conf_set_defaults = 100000"
  "cfg_ban_ttl_base_ns caly_conf_set_defaults = 600 * CALY_NSEC_PER_SEC"
  "cfg_ban_ttl_max_ns caly_conf_set_defaults = 86400 * CALY_NSEC_PER_SEC"
  "cfg_ban_ttl_scan_ns caly_conf_set_defaults = 3600 * CALY_NSEC_PER_SEC"
  "cfg_ban_ttl_amp_ns caly_conf_set_defaults = 6 * 3600 * CALY_NSEC_PER_SEC"
  "cfg_strike_window_ns caly_conf_set_defaults = 60 * CALY_NSEC_PER_SEC"
  "cfg_scan_window_ns caly_conf_set_defaults = 30 * CALY_NSEC_PER_SEC"
  "cfg_ct_tcp_syn_ns caly_conf_set_defaults = 60 * CALY_NSEC_PER_SEC"
  "cfg_ct_tcp_est_ns caly_conf_set_defaults = 4 * 3600 * CALY_NSEC_PER_SEC"
  "cfg_ct_tcp_fin_ns caly_conf_set_defaults = 30 * CALY_NSEC_PER_SEC"
  "cfg_ct_udp_ns caly_conf_set_defaults = 30 * CALY_NSEC_PER_SEC"
  "cfg_ct_udp_stream_ns caly_conf_set_defaults = 180 * CALY_NSEC_PER_SEC"
  "cfg_ct_icmp_ns caly_conf_set_defaults = 30 * CALY_NSEC_PER_SEC"
  "cfg_ct_generic_ns caly_conf_set_defaults = 60 * CALY_NSEC_PER_SEC"
  "cfg_rate_idle_ns caly_conf_set_defaults = 300 * CALY_NSEC_PER_SEC"
  "cfg_scan_idle_ns caly_conf_set_defaults = 300 * CALY_NSEC_PER_SEC"
  "cfg_srcstat_idle_ns caly_conf_set_defaults = 600 * CALY_NSEC_PER_SEC"
  "cfg_mode caly_conf_set_defaults = FW_MODE_NORMAL"
  "cfg_default_zone caly_conf_set_defaults = CALY_ZONE_LAN"
  "cfg_strike_limit caly_conf_set_defaults = 10"
  "cfg_ban_escalate_num caly_conf_set_defaults = 2"
  "cfg_ban_escalate_den caly_conf_set_defaults = 1"
  "cfg_scan_port_threshold caly_conf_set_defaults = 60"
  "cfg_icmp_max_payload caly_conf_set_defaults = 1472"
  "cfg_icmp6_max_payload caly_conf_set_defaults = 1472"
  "cfg_frag_min_bytes caly_conf_set_defaults = 128"
  "cfg_ip_min_ttl caly_conf_set_defaults = 0"
  "cfg_vlan_max_depth caly_conf_set_defaults = CALY_VLAN_MAX_DEPTH"
  "cfg_ip6_ext_max caly_conf_set_defaults = CALY_IP6_EXT_MAX"
  "cfg_tunnel_max_depth caly_conf_set_defaults = CALY_TUNNEL_MAX_DEPTH"
  "cfg_tcp_min_doff caly_conf_set_defaults = 5"
  "cfg_log_sample_rate caly_conf_set_defaults = 100"
  "cfg_log_max_pps caly_conf_set_defaults = 1000"
  "cfg_log_level caly_conf_set_defaults = 2"
  "cfg_event_pages caly_conf_set_defaults = 16"
  "cfg_max_ban_entries caly_conf_set_defaults = 262144"
  "cfg_max_conn_entries caly_conf_set_defaults = 262144"
  "cfg_max_rate_entries caly_conf_set_defaults = 524288"
  "cfg_max_scan_entries caly_conf_set_defaults = 131072"
  "cfg_max_srcstat_entries caly_conf_set_defaults = 131072"
  "cfg_max_allow_entries caly_conf_set_defaults = 65536"
  "cfg_max_block_entries caly_conf_set_defaults = 262144"
  "cfg_max_iface_entries caly_conf_set_defaults = 64"
  "cfg_dataplane_pref caly_conf_set_defaults = 0"
  "cfg_xdp_attach_pref caly_conf_set_defaults = 0"
  "cfg_poll_interval_ms caly_conf_set_defaults = 200"
  "cfg_stats_interval_ms caly_conf_set_defaults = 1000"
  "cfg_gc_interval_ms caly_conf_set_defaults = 5000"
  "cfg_gc_batch caly_conf_set_defaults = 4096"
  "cfg_mgmt_tcp_count caly_conf_set_defaults = 1"
  "cfg_mgmt_udp_count caly_conf_set_defaults = 0"
  "cfg_mgmt_tcp_ports caly_conf_set_defaults = 22 # replicate 15 0"
  "cfg_mgmt_udp_ports caly_conf_set_defaults = replicate 16 0"
  "cfg_reserved caly_conf_set_defaults = replicate 24 0"
  by (simp_all add: caly_conf_set_defaults_def)

lemma conf_defaults_flags [simp]: "cfg_flags caly_conf_set_defaults = 2139008509"
  by (simp add: caly_conf_set_defaults_def CALY_F_DEFAULT_POLICY_def)

end
