(* ===== verification/Caly_Ban.thy ===== *)
theory Caly_Ban
  imports Caly_Config
begin

text \<open>
  Ban records: the TTL escalation \<open>caly_ban_next_ttl\<close> of \<open>common.h\<close> and the record builders of
  \<open>ratelimit.h\<close>.  The lemmas bound every TTL the escalation can produce and show that repeat
  offences lengthen a ban up to the configured ceiling.
\<close>

section \<open>Operations\<close>

definition caly_ban_next_ttl :: "u64 \<Rightarrow> u64 \<Rightarrow> u64 \<Rightarrow> u32 \<Rightarrow> u32 \<Rightarrow> u64" where
  "caly_ban_next_ttl cur_ttl_ns base_ns max_ns num den =
     (let base_ns = (if base_ns = 0 then 1 else base_ns);
          max_ns = (if max_ns < base_ns then base_ns else max_ns)
      in if cur_ttl_ns < base_ns then base_ns
         else if den = 0 \<or> num \<le> den then (if cur_ttl_ns > max_ns then max_ns else cur_ttl_ns)
         else if cur_ttl_ns > max_ns then max_ns
         else
           let next = (cur_ttl_ns div ucast den) * ucast num;
               next = (if next < cur_ttl_ns then cur_ttl_ns else next)
           in if next > max_ns then max_ns else next)"

definition caly_ban_fill :: "u32 \<Rightarrow> u64 \<Rightarrow> fw_config \<Rightarrow> u64 \<Rightarrow> u32 \<Rightarrow> ban_entry" where
  "caly_ban_fill reason now_ns cfg base_ttl_ns strikes =
     (let base_ttl_ns = (if base_ttl_ns = 0 then cfg_ban_ttl_base_ns cfg else base_ttl_ns);
          ttl = (if cfg_ban_ttl_max_ns cfg \<noteq> 0 \<and> base_ttl_ns > cfg_ban_ttl_max_ns cfg
                 then cfg_ban_ttl_max_ns cfg else base_ttl_ns)
      in \<lparr>be_expiry_ns = now_ns + ttl, be_first_seen_ns = now_ns, be_last_hit_ns = now_ns,
          be_cur_ttl_ns = ttl, be_hit_pkts = 0, be_hit_bytes = 0, be_reason = reason,
          be_strikes = strikes, be_offences = 1, be_flags = CALY_BAN_F_AUTO\<rparr>)"

text \<open>The result is the new TTL and the updated record.\<close>

definition caly_ban_refresh ::
  "ban_entry \<Rightarrow> fw_config \<Rightarrow> u64 \<Rightarrow> u32 \<Rightarrow> u32 \<Rightarrow> bool \<Rightarrow> u64 \<times> ban_entry" where
  "caly_ban_refresh b cfg now_ns reason pkt_len expired =
     (let b = b\<lparr>be_last_hit_ns := now_ns,
                be_hit_pkts := caly_add_sat_u64 (be_hit_pkts b) 1,
                be_hit_bytes := caly_add_sat_u64 (be_hit_bytes b) (ucast pkt_len)\<rparr>
      in if expired then
           let ttl = caly_ban_next_ttl (be_cur_ttl_ns b) (cfg_ban_ttl_base_ns cfg)
                       (cfg_ban_ttl_max_ns cfg) (cfg_ban_escalate_num cfg)
                       (cfg_ban_escalate_den cfg);
               b = b\<lparr>be_cur_ttl_ns := ttl, be_expiry_ns := now_ns + ttl,
                     be_offences := caly_add_sat_u32 (be_offences b) 1,
                     be_reason := reason, be_flags := be_flags b OR CALY_BAN_F_ESCALATED\<rparr>;
               b = (if be_first_seen_ns b = 0 then b\<lparr>be_first_seen_ns := now_ns\<rparr> else b)
           in (ttl, b)
         else if has_flag (be_flags b) CALY_BAN_F_PERMANENT then (be_cur_ttl_ns b, b)
         else
           let ttl = (if be_cur_ttl_ns b = 0 then cfg_ban_ttl_base_ns cfg else be_cur_ttl_ns b);
               ttl = (if cfg_ban_ttl_max_ns cfg \<noteq> 0 \<and> ttl > cfg_ban_ttl_max_ns cfg
                      then cfg_ban_ttl_max_ns cfg else ttl)
           in (ttl, b\<lparr>be_expiry_ns := now_ns + ttl\<rparr>))"

definition caly_ban_hit :: "ban_entry \<Rightarrow> u64 \<Rightarrow> u32 \<Rightarrow> u64 \<times> ban_entry" where
  "caly_ban_hit b now_ns pkt_len =
     (let b = b\<lparr>be_last_hit_ns := now_ns,
                be_hit_pkts := caly_add_sat_u64 (be_hit_pkts b) 1,
                be_hit_bytes := caly_add_sat_u64 (be_hit_bytes b) (ucast pkt_len)\<rparr>
      in (be_cur_ttl_ns b, b))"

definition caly_ban_base_ttl :: "fw_config \<Rightarrow> u32 \<Rightarrow> u64" where
  "caly_ban_base_ttl cfg reason =
     (if reason = STAT_DROP_PORTSCAN then
        (if cfg_ban_ttl_scan_ns cfg \<noteq> 0 then cfg_ban_ttl_scan_ns cfg else cfg_ban_ttl_base_ns cfg)
      else if reason = STAT_DROP_AMP_SRCPORT then
        (if cfg_ban_ttl_amp_ns cfg \<noteq> 0 then cfg_ban_ttl_amp_ns cfg else cfg_ban_ttl_base_ns cfg)
      else cfg_ban_ttl_base_ns cfg)"

section \<open>Escalation\<close>

text \<open>The bounds the escalation works between, after its own repairs of the configuration.\<close>

definition ttl_floor :: "u64 \<Rightarrow> u64" where
  "ttl_floor base_ns = (if base_ns = 0 then 1 else base_ns)"

definition ttl_ceiling :: "u64 \<Rightarrow> u64 \<Rightarrow> u64" where
  "ttl_ceiling base_ns max_ns = max (ttl_floor base_ns) max_ns"

lemma ttl_floor_le_ceiling [simp]: "ttl_floor b \<le> ttl_ceiling b m"
  by (simp add: ttl_ceiling_def)

lemma ttl_floor_pos [simp]: "0 < ttl_floor b"
  by (simp add: ttl_floor_def word_gt_0)

lemma next_ttl_alt:
  "caly_ban_next_ttl cur b m num den =
     (if cur < ttl_floor b then ttl_floor b
      else if ttl_ceiling b m < cur then ttl_ceiling b m
      else if den = 0 \<or> num \<le> den then cur
      else min (ttl_ceiling b m) (max cur ((cur div ucast den) * ucast num)))"
proof -
  have c: "(if m < ttl_floor b then ttl_floor b else m) = ttl_ceiling b m"
    by (auto simp: ttl_ceiling_def max_def dest: leD)
  define f t where "f = ttl_floor b" and "t = ttl_ceiling b m"
  have "caly_ban_next_ttl cur b m num den =
     (if cur < f then f
      else if den = 0 \<or> num \<le> den then (if t < cur then t else cur)
      else if t < cur then t
      else let next = (cur div ucast den) * ucast num;
               next = (if next < cur then cur else next)
           in if t < next then t else next)"
    unfolding caly_ban_next_ttl_def Let_def ttl_floor_def [symmetric] c
    unfolding f_def t_def by (rule refl)
  then show ?thesis
    unfolding f_def [symmetric] t_def [symmetric] Let_def
    by (auto simp: min_def max_def)
qed

text \<open>Every escalated TTL lies between the configured base and ceiling, and no repeat offence
  shortens a ban that is within the ceiling.\<close>

theorem caly_ban_next_ttl_bounds:
  "ttl_floor base \<le> caly_ban_next_ttl cur base mx num den \<and>
   caly_ban_next_ttl cur base mx num den \<le> ttl_ceiling base mx \<and>
   min cur (ttl_ceiling base mx) \<le> caly_ban_next_ttl cur base mx num den"
  by (auto simp: next_ttl_alt min_def max_def not_less not_le
      intro: order.trans [OF ttl_floor_le_ceiling])

text \<open>Escalation makes progress.  With a factor above one, a base of at least \<open>den\<close> squared
  nanoseconds and a ceiling at which the product cannot overflow, every repeat offence lengthens
  the ban strictly until it sits at the ceiling, where it stays.\<close>

theorem caly_ban_escalates:
  assumes "0 < den" "den < num" "base \<noteq> 0" "base \<le> mx" "base \<le> cur" "cur < mx"
    and "unat den * unat den \<le> unat base" and "unat mx * unat num < 2 ^ 64"
  shows "cur < caly_ban_next_ttl cur base mx num den \<and>
         caly_ban_next_ttl mx base mx num den = mx"
proof -
  let ?d = "unat den" and ?n = "unat num" and ?c = "unat cur"
  have d: "0 < ?d" "?d < ?n" using assms(1,2) by (simp_all add: word_less_nat_alt)
  have ud: "unat (ucast den :: u64) = ?d" and un: "unat (ucast num :: u64) = ?n"
    using unat_u32_less [of den] unat_u32_less [of num]
    by (simp_all add: unsigned_ucast_eq take_bit_nat_eq_self_iff)
  have qd: "?d \<le> ?c div ?d"
    using assms(5,7) d by (simp add: word_le_nat_alt less_eq_div_iff_mult_less_eq)
  have "?c < ?c div ?d * ?n"
  proof -
    define q r where "q = ?c div ?d" and "r = ?c mod ?d"
    have "?c = q * ?d + r" by (simp add: q_def r_def)
    moreover have "r < ?d" using d by (simp add: r_def)
    moreover have "q * (?d + 1) \<le> q * ?n"
      using d by (intro mult_le_mono2) simp
    moreover have "q * (?d + 1) = q * ?d + q" by simp
    moreover have "?d \<le> q" using qd by (simp add: q_def)
    ultimately have "?c < q * ?n" by linarith
    then show ?thesis by (simp add: q_def)
  qed
  moreover have "?c div ?d * ?n < 2 ^ 64"
  proof -
    have "?c div ?d \<le> ?c" by simp
    also have "?c \<le> unat mx" using assms(6) by (simp add: word_less_nat_alt)
    finally have "?c div ?d * ?n \<le> unat mx * ?n" by simp
    then show ?thesis using assms(8) by linarith
  qed
  ultimately have grow: "cur < (cur div ucast den) * ucast num"
    using ud un by (simp add: word_less_nat_alt unat_div unat_mult_lem [THEN iffD1])
  have ceil: "ttl_ceiling base mx = mx" and fl: "ttl_floor base = base"
    using assms(3,4) by (simp_all add: ttl_ceiling_def ttl_floor_def max_def)
  show ?thesis
    using assms grow by (auto simp: next_ttl_alt ceil fl not_less not_le min_def max_def)
qed

theorem caly_ban_escalates_witness:
  "60000000000 < caly_ban_next_ttl 60000000000 60000000000 86400000000000 2 1 \<and>
   caly_ban_next_ttl 86400000000000 60000000000 86400000000000 2 1 = 86400000000000"
  using caly_ban_escalates [of 1 2 60000000000 86400000000000 60000000000] by simp

text \<open>The product can overflow although the comment says the preceding clamp prevents it: with
  a ceiling of \<open>2^60\<close> ns a ban of \<open>2^55\<close> ns and a factor of 512 multiply to exactly zero modulo
  \<open>2^64\<close>, and the repeat offender keeps its old TTL instead of being raised to the ceiling.\<close>

theorem caly_ban_next_ttl_overflow:
  "caly_ban_next_ttl (2 ^ 55) 60000000000 (2 ^ 60) 512 1 = 2 ^ 55"
  by (simp add: next_ttl_alt ttl_floor_def ttl_ceiling_def)

text \<open>A packet absorbed by an active ban on the hot path is counted but does not move the
  expiry, although the comment on \<open>caly_ban_hit\<close> says it slides; \<open>caly_ban_refresh\<close> on a live,
  non-permanent ban does slide it, by a TTL that respects the ceiling.\<close>

theorem caly_ban_hit_and_refresh:
  "be_expiry_ns (snd (caly_ban_hit b now len)) = be_expiry_ns b \<and>
   be_hit_pkts (snd (caly_ban_hit b now len)) = sat_add (be_hit_pkts b) 1 \<and>
   (\<not> has_flag (be_flags b) CALY_BAN_F_PERMANENT \<longrightarrow>
      be_expiry_ns (snd (caly_ban_refresh b cfg now reason len False))
        = now + fst (caly_ban_refresh b cfg now reason len False) \<and>
      (cfg_ban_ttl_max_ns cfg \<noteq> 0 \<longrightarrow>
         fst (caly_ban_refresh b cfg now reason len False) \<le> cfg_ban_ttl_max_ns cfg))"
  by (auto simp: caly_ban_hit_def caly_ban_refresh_def Let_def caly_add_sat_u64_eq not_less)

theorem caly_ban_hit_and_refresh_witness:
  "let b = caly_ban_fill STAT_DROP_RATE_PPS 100 caly_conf_set_defaults 50 3;
       r = caly_ban_refresh b caly_conf_set_defaults 120 STAT_DROP_RATE_PPS 60 False
   in be_expiry_ns b = 150 \<and> be_expiry_ns (snd (caly_ban_hit b 120 60)) = 150 \<and>
      be_expiry_ns (snd r) = 170 \<and> fst r \<le> cfg_ban_ttl_max_ns caly_conf_set_defaults"
proof -
  let ?b = "caly_ban_fill STAT_DROP_RATE_PPS 100 caly_conf_set_defaults 50 3"
  have b: "?b = \<lparr>be_expiry_ns = 150, be_first_seen_ns = 100, be_last_hit_ns = 100,
      be_cur_ttl_ns = 50, be_hit_pkts = 0, be_hit_bytes = 0, be_reason = STAT_DROP_RATE_PPS,
      be_strikes = 3, be_offences = 1, be_flags = CALY_BAN_F_AUTO\<rparr>"
    by (simp add: caly_ban_fill_def)
  have r: "fst (caly_ban_refresh ?b caly_conf_set_defaults 120 STAT_DROP_RATE_PPS 60 False) = 50"
    unfolding b by (simp add: caly_ban_refresh_def)
  show ?thesis
    using caly_ban_hit_and_refresh [of ?b 120 60 caly_conf_set_defaults STAT_DROP_RATE_PPS] r
    by (simp add: b)
qed

end
