(* ===== verification/Caly_Scan.thy ===== *)
theory Caly_Scan
  imports Caly_Config
begin

text \<open>
  The port-scan detector: the hash and the 512-bit filter of \<open>common.h\<close> and the windowed
  register step of \<open>ratelimit.h\<close>.  The filter is an array of eight 64-bit words.  The locale
  \<open>distinct_counter\<close> states what the detector needs of a filter; it is interpreted by
  \<open>caly_scan_mark\<close>, and the false-positive bound of the detector rests on it.
\<close>

section \<open>Operations\<close>

definition caly_mix32 :: "u32 \<Rightarrow> u32 \<Rightarrow> u32" where
  "caly_mix32 x seed =
     (let x = x XOR seed;
          x = x * 0x2545F491;
          x = x XOR drop_bit 15 x;
          x = x * 0x85EBCA6B;
          x = x XOR drop_bit 13 x;
          x = x * 0xC2B2AE35
      in x XOR drop_bit 16 x)"

definition caly_scan_mark :: "scan_state \<Rightarrow> u16 \<Rightarrow> bool \<times> scan_state" where
  "caly_scan_mark st port =
     (let h1 = caly_mix32 (ucast port) 0x9E3779B9 AND CALY_SCAN_BITMAP_MASK;
          h2 = caly_mix32 (ucast port) 0x7F4A7C15 AND CALY_SCAN_BITMAP_MASK;
          w1 = drop_bit 6 h1; w2 = drop_bit 6 h2;
          m1 = push_bit (unat (h1 AND 63)) (1 :: u64);
          m2 = push_bit (unat (h2 AND 63)) (1 :: u64)
      in if w1 \<ge> CALY_SCAN_BITMAP_WORDS \<or> w2 \<ge> CALY_SCAN_BITMAP_WORDS then (False, st)
         else
           let bm = sn_bitmap st;
               fresh = (\<not> (has_flag (bm ! unat w1) m1 \<and> has_flag (bm ! unat w2) m2));
               bm = bm[unat w1 := bm ! unat w1 OR m1];
               bm = bm[unat w2 := bm ! unat w2 OR m2];
               st = st\<lparr>sn_bitmap := bm\<rparr>;
               st = (if fresh \<and> sn_distinct st < 0xFFFFFFFF
                     then st\<lparr>sn_distinct := sn_distinct st + 1\<rparr> else st)
           in (fresh, st))"

definition caly_scan_reset :: "scan_state \<Rightarrow> u64 \<Rightarrow> scan_state" where
  "caly_scan_reset st now_ns =
     st\<lparr>sn_window_start_ns := now_ns, sn_distinct := 0, sn_hits := 0, sn_last_port := 0,
        sn_bitmap := replicate (unat CALY_SCAN_BITMAP_WORDS) 0\<rparr>"

definition caly_scan_register ::
  "scan_state \<Rightarrow> fw_config \<Rightarrow> u64 \<Rightarrow> u16 \<Rightarrow> bool \<times> scan_state" where
  "caly_scan_register st cfg now_ns dport_host =
     (let window = cfg_scan_window_ns cfg; threshold = cfg_scan_port_threshold cfg in
      if threshold = 0 then (False, st)
      else
        let st = (if sn_window_start_ns st = 0 \<or>
                     window \<noteq> 0 \<and> caly_age_ns now_ns (sn_window_start_ns st) > window
                  then caly_scan_reset st now_ns else st);
            st = st\<lparr>sn_last_seen_ns := now_ns, sn_hits := caly_add_sat_u32 (sn_hits st) 1\<rparr>
        in if sn_last_port st = ucast dport_host + 1 then (False, st)
           else
             let st = st\<lparr>sn_last_port := ucast dport_host + 1\<rparr>;
                 st = snd (caly_scan_mark st dport_host)
             in (sn_distinct st > threshold, st))"

section \<open>The filter as a set of bits\<close>

definition scan_idx :: "u16 \<Rightarrow> u32 \<Rightarrow> nat \<times> nat" where
  "scan_idx port seed =
     (let h = caly_mix32 (ucast port) seed AND CALY_SCAN_BITMAP_MASK
      in (unat (drop_bit 6 h), unat (h AND 63)))"

definition bit_at :: "u64 list \<Rightarrow> nat \<times> nat \<Rightarrow> bool" where
  "bit_at bm i \<longleftrightarrow> bit (bm ! fst i) (snd i)"

definition set_at :: "u64 list \<Rightarrow> nat \<times> nat \<Rightarrow> u64 list" where
  "set_at bm i = bm[fst i := bm ! fst i OR push_bit (snd i) 1]"

lemma has_flag_exp: "i < LENGTH('a) \<Longrightarrow> has_flag (w :: 'a::len word) (2 ^ i) \<longleftrightarrow> bit w i"
proof -
  assume i: "i < LENGTH('a)"
  have "bit (w AND 2 ^ i) j \<longleftrightarrow> j = i \<and> bit w i" for j
    using i by (auto simp: bit_simps)
  then show ?thesis
    by (cases "bit w i") (auto simp: has_flag_def intro!: bit_word_eqI dest: arg_cong [of _ 0 "\<lambda>x. bit x i"])
qed

lemma bit_at_set_at:
  assumes "fst i < length bm" "snd i < 64"
  shows "bit_at (set_at bm i) j \<longleftrightarrow> j = i \<or> bit_at bm j"
  using assms by (cases i; cases j) (auto simp: bit_at_def set_at_def nth_list_update bit_simps)

lemma scan_idx_bounds: "fst (scan_idx p s) < 8" "snd (scan_idx p s) < 64"
proof -
  let ?h = "caly_mix32 (ucast p) s"
  have "unat (drop_bit 6 (?h AND 511)) = unat (?h AND 511) div 64"
    by (simp add: drop_bit_eq_div unat_div)
  moreover have "?h AND 511 \<le> 511" "(?h AND 511) AND 63 \<le> 63"
    by (rule word_and_le1)+
  ultimately show "fst (scan_idx p s) < 8" "snd (scan_idx p s) < 64"
    by (simp_all add: scan_idx_def Let_def word_le_nat_alt)
qed

text \<open>The operation in terms of the two bit positions of the port.  The guard on the word index
  is for the verifier: it never fires.\<close>

abbreviation "idx1 p \<equiv> scan_idx p 0x9E3779B9"
abbreviation "idx2 p \<equiv> scan_idx p 0x7F4A7C15"

definition scan_has :: "scan_state \<Rightarrow> u16 \<Rightarrow> bool" where
  "scan_has st p \<longleftrightarrow> bit_at (sn_bitmap st) (idx1 p) \<and> bit_at (sn_bitmap st) (idx2 p)"

lemma scan_mark_alt:
  "caly_scan_mark st p =
     (\<not> scan_has st p,
      st\<lparr>sn_bitmap := set_at (set_at (sn_bitmap st) (idx1 p)) (idx2 p),
         sn_distinct := (if \<not> scan_has st p \<and> sn_distinct st < 0xFFFFFFFF
                         then sn_distinct st + 1 else sn_distinct st)\<rparr>)"
proof -
  have "\<not> drop_bit 6 (caly_mix32 (ucast p) s AND 511) \<ge> 8" for s
    using scan_idx_bounds(1) [of p s] by (simp add: scan_idx_def Let_def word_le_nat_alt)
  then show ?thesis
    using scan_idx_bounds(2) [of p]
    by (simp add: caly_scan_mark_def scan_has_def bit_at_def set_at_def scan_idx_def Let_def
        has_flag_exp)
qed

section \<open>Interface of the filter\<close>

locale distinct_counter =
  fixes mark :: "'s \<Rightarrow> 'p \<Rightarrow> 's" and inv :: "'s \<Rightarrow> bool"
    and has :: "'s \<Rightarrow> 'p \<Rightarrow> bool" and count :: "'s \<Rightarrow> nat"
  assumes mark_inv: "inv s \<Longrightarrow> inv (mark s p)"
    and mark_has: "inv s \<Longrightarrow> q = p \<or> has s q \<Longrightarrow> has (mark s p) q"
    and mark_old: "inv s \<Longrightarrow> has s p \<Longrightarrow> count (mark s p) = count s"
    and mark_count: "inv s \<Longrightarrow> count (mark s p) \<le> Suc (count s)"
begin

text \<open>\<open>P\<close> accounts for everything counted.\<close>

definition accounts :: "'s \<Rightarrow> 'p set \<Rightarrow> bool" where
  "accounts s P \<longleftrightarrow> inv s \<and> finite P \<and> (\<forall>p\<in>P. has s p) \<and> count s \<le> card P"

lemma accounts_mark: "accounts s P \<Longrightarrow> accounts (mark s p) (insert p P)"
proof -
  assume a: "accounts s P"
  then have i: "inv s" "finite P" "\<forall>p\<in>P. has s p" "count s \<le> card P"
    by (simp_all add: accounts_def)
  have "count (mark s p) \<le> card (insert p P)"
  proof (cases "p \<in> P")
    case True
    with i show ?thesis by (simp add: mark_old insert_absorb)
  next
    case False
    with i mark_count [of s p] show ?thesis by simp
  qed
  with i show ?thesis by (simp add: accounts_def mark_inv mark_has)
qed

lemma accounts_le: "accounts s P \<Longrightarrow> P \<subseteq> Q \<Longrightarrow> finite Q \<Longrightarrow> count s \<le> card Q"
  unfolding accounts_def by (meson card_mono order.trans)

end

definition scan_wf :: "scan_state \<Rightarrow> bool" where
  "scan_wf st \<longleftrightarrow> length (sn_bitmap st) = unat CALY_SCAN_BITMAP_WORDS"

lemma length_set_at [simp]: "length (set_at bm i) = length bm"
  by (simp add: set_at_def)

lemma scan_mark_bits:
  assumes "scan_wf st"
  shows "bit_at (sn_bitmap (snd (caly_scan_mark st p))) i \<longleftrightarrow>
         i = idx1 p \<or> i = idx2 p \<or> bit_at (sn_bitmap st) i"
  using assms scan_idx_bounds [of p]
  by (auto simp: scan_mark_alt bit_at_set_at scan_wf_def)

lemma scan_wf_mark [simp]: "scan_wf (snd (caly_scan_mark st p)) = scan_wf st"
  by (simp add: scan_mark_alt scan_wf_def)

lemma scan_distinct_mark:
  "unat (sn_distinct (snd (caly_scan_mark st p)))
   = (if \<not> scan_has st p \<and> sn_distinct st < 0xFFFFFFFF then Suc (unat (sn_distinct st))
      else unat (sn_distinct st))"
proof -
  have "x < 0xFFFFFFFF \<Longrightarrow> unat (x + 1) = Suc (unat x)" for x :: u32
    by (simp add: word_less_nat_alt unat_word_ariths)
  then show ?thesis by (simp add: scan_mark_alt)
qed

interpretation scan: distinct_counter "\<lambda>st p. snd (caly_scan_mark st p)" scan_wf scan_has
  "\<lambda>st. unat (sn_distinct st)"
  by unfold_locales
    (auto simp: scan_has_def scan_mark_bits scan_distinct_mark)

section \<open>Register runs\<close>

fun scan_run :: "fw_config \<Rightarrow> scan_state \<Rightarrow> (u64 \<times> u16) list \<Rightarrow> bool list \<times> scan_state" where
  "scan_run cfg st [] = ([], st)"
| "scan_run cfg st ((now, port) # es) =
     (let (hit, st) = caly_scan_register st cfg now port;
          (hits, st) = scan_run cfg st es
      in (hit # hits, st))"

lemma scan_fields [simp]:
  "scan_has (st\<lparr>sn_last_port := q\<rparr>) p = scan_has st p"
  "scan_has (st\<lparr>sn_last_seen_ns := t, sn_hits := n\<rparr>) p = scan_has st p"
  "scan_wf (st\<lparr>sn_last_port := q\<rparr>) = scan_wf st"
  "scan_wf (st\<lparr>sn_last_seen_ns := t, sn_hits := n\<rparr>) = scan_wf st"
  by (simp_all add: scan_has_def scan_wf_def)

lemma accounts_fields [simp]:
  "scan.accounts (st\<lparr>sn_last_port := q\<rparr>) P = scan.accounts st P"
  "scan.accounts (st\<lparr>sn_last_seen_ns := t, sn_hits := n\<rparr>) P = scan.accounts st P"
  by (simp_all add: scan.accounts_def)

lemma accounts_reset: "scan.accounts (caly_scan_reset st now) {}"
  by (simp add: scan.accounts_def caly_scan_reset_def scan_wf_def)

lemma scan_register_accounts:
  assumes "scan.accounts st P"
  obtains Q where "Q \<subseteq> insert port P" "scan.accounts (snd (caly_scan_register st cfg now port)) Q"
    and "fst (caly_scan_register st cfg now port) \<Longrightarrow> unat (cfg_scan_port_threshold cfg) < card Q"
proof -
  define r where "r = (if sn_window_start_ns st = 0 \<or> cfg_scan_window_ns cfg \<noteq> 0 \<and>
      caly_age_ns now (sn_window_start_ns st) > cfg_scan_window_ns cfg
    then caly_scan_reset st now else st)"
  define s where "s = r\<lparr>sn_last_seen_ns := now, sn_hits := caly_add_sat_u32 (sn_hits r) 1\<rparr>"
  define m where "m = snd (caly_scan_mark (s\<lparr>sn_last_port := ucast port + 1\<rparr>) port)"
  have reg: "caly_scan_register st cfg now port =
    (if cfg_scan_port_threshold cfg = 0 then (False, st)
     else if sn_last_port s = ucast port + 1 then (False, s)
     else (sn_distinct m > cfg_scan_port_threshold cfg, m))"
    by (simp add: caly_scan_register_def Let_def r_def s_def m_def)
  obtain R where R: "R \<subseteq> P" "scan.accounts s R"
  proof (cases "r = st")
    case True
    with assms that [of P] show ?thesis by (simp add: s_def)
  next
    case False
    then have "r = caly_scan_reset st now" by (simp add: r_def split: if_splits)
    with that [of "{}"] accounts_reset show ?thesis by (simp add: s_def)
  qed
  then have m: "scan.accounts m (insert port R)"
    unfolding m_def by (intro scan.accounts_mark) simp
  then have "unat (sn_distinct m) \<le> card (insert port R)"
    by (simp add: scan.accounts_def)
  then have hit: "sn_distinct m > t \<Longrightarrow> unat t < card (insert port R)" for t
    by (simp add: word_less_nat_alt)
  show ?thesis
  proof (cases "cfg_scan_port_threshold cfg = 0")
    case True
    then show ?thesis using that [of P] assms by (auto simp: reg)
  next
    case nz: False
    show ?thesis
    proof (cases "sn_last_port s = ucast port + 1")
      case True
      with nz R show ?thesis using that [of R] by (auto simp: reg)
    next
      case False
      with nz R m hit show ?thesis using that [of "insert port R"] by (auto simp: reg)
    qed
  qed
qed

lemma scan_run_quiet:
  assumes "scan.accounts st P" "card (P \<union> snd ` set es) \<le> unat (cfg_scan_port_threshold cfg)"
  shows "True \<notin> set (fst (scan_run cfg st es))"
  using assms
proof (induction es arbitrary: st P)
  case (Cons e es)
  obtain now port where e: "e = (now, port)" by fastforce
  obtain Q where Q: "Q \<subseteq> insert port P" "scan.accounts (snd (caly_scan_register st cfg now port)) Q"
      "fst (caly_scan_register st cfg now port) \<Longrightarrow> unat (cfg_scan_port_threshold cfg) < card Q"
    using scan_register_accounts [OF Cons.prems(1)] by blast
  have fin: "finite (P \<union> snd ` set (e # es))"
    using Cons.prems(1) by (simp add: scan.accounts_def)
  have sub: "Q \<union> snd ` set es \<subseteq> P \<union> snd ` set (e # es)"
    using Q(1) by (auto simp: e)
  have "card (Q \<union> snd ` set es) \<le> unat (cfg_scan_port_threshold cfg)"
    using card_mono [OF fin sub] Cons.prems(2) by simp
  moreover have "card Q \<le> unat (cfg_scan_port_threshold cfg)"
    using card_mono [OF fin, of Q] sub Cons.prems(2) by simp
  ultimately show ?case
    using Cons.IH [OF Q(2)] Q(3) by (auto simp: e split_beta Let_def)
qed simp

section \<open>Properties\<close>



text \<open>Marking is idempotent: a port that was just marked is not fresh, and marking it again
  leaves the filter as it is.\<close>

theorem caly_scan_mark_idem:
  assumes "length (sn_bitmap st) = 8"
  shows "caly_scan_mark (snd (caly_scan_mark st p)) p = (False, snd (caly_scan_mark st p))"
proof -
  let ?s = "snd (caly_scan_mark st p)"
  have wf: "scan_wf st" using assms by (simp add: scan_wf_def)
  then have has: "scan_has ?s p" by (simp add: scan_has_def scan_mark_bits)
  have "bit_at bm i \<Longrightarrow> fst i < length bm \<Longrightarrow> snd i < 64 \<Longrightarrow> set_at bm i = bm" for bm i
  proof -
    assume a: "bit_at bm i" "fst i < length bm" "snd i < 64"
    then have "bm ! fst i OR push_bit (snd i) 1 = bm ! fst i"
      by (intro bit_word_eqI) (auto simp: bit_simps bit_at_def)
    then show ?thesis by (simp add: set_at_def)
  qed
  then have "set_at (set_at (sn_bitmap ?s) (idx1 p)) (idx2 p) = sn_bitmap ?s"
    using has wf scan_idx_bounds [of p]
    by (simp add: scan_has_def scan_wf_def scan_mark_alt)
  with has show ?thesis by (simp add: scan_mark_alt [of ?s])
qed

theorem caly_scan_mark_idem_witness:
  "caly_scan_mark (snd (caly_scan_mark (caly_scan_reset
     \<lparr>sn_window_start_ns = 0, sn_last_seen_ns = 0, sn_bitmap = [], sn_distinct = 0, sn_hits = 0,
      sn_last_port = 0, sn_flags = 0\<rparr> 5) 80)) 80
   = (False, snd (caly_scan_mark (caly_scan_reset
     \<lparr>sn_window_start_ns = 0, sn_last_seen_ns = 0, sn_bitmap = [], sn_distinct = 0, sn_hits = 0,
      sn_last_port = 0, sn_flags = 0\<rparr> 5) 80))"
  by (rule caly_scan_mark_idem) (simp add: caly_scan_reset_def)

text \<open>The counter never exceeds the number of bits set.\<close>

definition scan_bits :: "scan_state \<Rightarrow> (nat \<times> nat) set" where
  "scan_bits st = {i \<in> {..<8} \<times> {..<64}. bit_at (sn_bitmap st) i}"

definition scan_inv :: "scan_state \<Rightarrow> bool" where
  "scan_inv st \<longleftrightarrow> scan_wf st \<and> unat (sn_distinct st) \<le> card (scan_bits st)"

lemma finite_scan_bits [simp]: "finite (scan_bits st)"
  by (simp add: scan_bits_def)

lemma scan_inv_le: "scan_inv st \<Longrightarrow> unat (sn_distinct st) \<le> 512"
proof -
  have "card (scan_bits st) \<le> card ({..<8::nat} \<times> {..<64::nat})"
    by (rule card_mono) (auto simp: scan_bits_def)
  then show "scan_inv st \<Longrightarrow> unat (sn_distinct st) \<le> 512" by (simp add: scan_inv_def)
qed

lemma scan_inv_mark: "scan_inv st \<Longrightarrow> scan_inv (snd (caly_scan_mark st p))"
proof -
  assume inv: "scan_inv st"
  then have wf: "scan_wf st" by (simp add: scan_inv_def)
  let ?s = "snd (caly_scan_mark st p)"
  have sub: "insert (idx1 p) (insert (idx2 p) (scan_bits st)) = scan_bits ?s"
    using scan_idx_bounds [of p]
    by (auto simp: scan_bits_def scan_mark_bits [OF wf] mem_Times_iff)
  have "\<not> scan_has st p \<Longrightarrow> scan_bits st \<subset> scan_bits ?s"
    using sub by (auto simp: scan_has_def scan_bits_def)
  then have "\<not> scan_has st p \<Longrightarrow> card (scan_bits st) < card (scan_bits ?s)"
    by (simp add: psubset_card_mono)
  moreover have "card (scan_bits st) \<le> card (scan_bits ?s)"
    using sub by (intro card_mono) auto
  ultimately show ?thesis
    using inv by (auto simp: scan_inv_def scan_distinct_mark)
qed

lemma scan_inv_register: "scan_inv st \<Longrightarrow> scan_inv (snd (caly_scan_register st cfg now p))"
proof -
  assume inv: "scan_inv st"
  have reset: "scan_inv (caly_scan_reset st now)"
    by (simp add: scan_inv_def scan_wf_def caly_scan_reset_def)
  have upd: "scan_inv (s\<lparr>sn_last_seen_ns := t, sn_hits := h\<rparr>) = scan_inv s"
    "scan_inv (s\<lparr>sn_last_seen_ns := t, sn_hits := h, sn_last_port := q\<rparr>) = scan_inv s" for s t h q
    by (simp_all add: scan_inv_def scan_wf_def scan_bits_def)
  show ?thesis
    using inv reset by (auto simp: caly_scan_register_def Let_def upd intro!: scan_inv_mark)
qed

text \<open>The filter saturates.  The distinct-port counter never exceeds the 512 bits of the
  filter, on every state the register step reaches, so a configured threshold of 512 or more
  (the loader accepts 512) can never be exceeded and the detector is silently off.\<close>

theorem scan_threshold_512_blind:
  assumes "scan_inv st" "512 \<le> cfg_scan_port_threshold cfg"
  shows "scan_inv (snd (caly_scan_register st cfg now p)) \<and>
         unat (sn_distinct (snd (caly_scan_register st cfg now p))) \<le> 512 \<and>
         \<not> fst (caly_scan_register st cfg now p)"
proof -
  let ?r = "caly_scan_register st cfg now p"
  have inv: "scan_inv (snd ?r)" using assms(1) by (rule scan_inv_register)
  have "fst ?r \<Longrightarrow> cfg_scan_port_threshold cfg < sn_distinct (snd ?r)"
    by (auto simp: caly_scan_register_def Let_def split: if_splits)
  with inv assms(2) scan_inv_le [OF inv] show ?thesis
    by (auto simp: word_less_nat_alt word_le_nat_alt)
qed

theorem scan_threshold_512_blind_witness:
  "\<not> fst (caly_scan_register (caly_scan_reset
     \<lparr>sn_window_start_ns = 0, sn_last_seen_ns = 0, sn_bitmap = [], sn_distinct = 0, sn_hits = 0,
      sn_last_port = 0, sn_flags = 0\<rparr> 5)
     (caly_conf_set_defaults\<lparr>cfg_scan_port_threshold := 512\<rparr>) 6 80)"
  using scan_threshold_512_blind [of "caly_scan_reset
     \<lparr>sn_window_start_ns = 0, sn_last_seen_ns = 0, sn_bitmap = [], sn_distinct = 0, sn_hits = 0,
      sn_last_port = 0, sn_flags = 0\<rparr> 5" "caly_conf_set_defaults\<lparr>cfg_scan_port_threshold := 512\<rparr>" 6 80]
  by (simp add: scan_inv_def scan_wf_def caly_scan_reset_def)

end
