(* ===== verification/Caly_Bucket.thy ===== *)
theory Caly_Bucket
  imports Caly_Common
begin

text \<open>
  The token bucket of \<open>common.h\<close> (\<open>caly_tb_init\<close>, \<open>caly_tb_consume\<close>) and the wrappers of
  \<open>ratelimit.h\<close> that draw from one bucket.  The bucket is a pair of 64-bit words and every
  operation wraps; the lemmas read it in natural numbers and show that no wrap happens.  The
  locale \<open>limiter\<close> states what a rate limiter promises and derives the bound on the amount it
  admits; it is interpreted by the bucket itself, by the global SYN cap and by the per-port
  limit.
\<close>

section \<open>Operations\<close>

definition caly_tb_init :: "u64 \<Rightarrow> u64 \<Rightarrow> caly_token_bucket" where
  "caly_tb_init now_ns burst = \<lparr>tb_tokens = burst, tb_last_refill_ns = now_ns\<rparr>"

text \<open>Reseed of a fresh or recycled entry and of a clock that went backwards; the refill anchor
  is then snapped forward to at most one second before now.\<close>

definition tb_anchor :: "caly_token_bucket \<Rightarrow> u64 \<Rightarrow> u64 \<Rightarrow> caly_token_bucket" where
  "tb_anchor tb now_ns burst =
     (let tb = (if tb_last_refill_ns tb = 0 \<or> tb_last_refill_ns tb > now_ns
                then tb\<lparr>tb_last_refill_ns := now_ns, tb_tokens := burst\<rparr> else tb)
      in if now_ns - tb_last_refill_ns tb > CALY_TB_MAX_ELAPSED_NS
         then tb\<lparr>tb_last_refill_ns := now_ns - CALY_TB_MAX_ELAPSED_NS\<rparr> else tb)"

definition tb_refill :: "caly_token_bucket \<Rightarrow> u64 \<Rightarrow> u64 \<Rightarrow> u64 \<Rightarrow> caly_token_bucket" where
  "tb_refill tb now_ns rate burst =
     (let elapsed = now_ns - tb_last_refill_ns tb;
          add = (elapsed * rate) div CALY_NSEC_PER_SEC
      in if add > 0 then
           let consumed_ns = (add * CALY_NSEC_PER_SEC) div rate;
               tb = tb\<lparr>tb_last_refill_ns := tb_last_refill_ns tb + consumed_ns\<rparr>
           in if tb_tokens tb + add < tb_tokens tb \<or> tb_tokens tb + add > burst
              then tb\<lparr>tb_tokens := burst\<rparr>
              else tb\<lparr>tb_tokens := tb_tokens tb + add\<rparr>
         else tb)"

definition caly_tb_consume ::
  "caly_token_bucket \<Rightarrow> u64 \<Rightarrow> u64 \<Rightarrow> u64 \<Rightarrow> u64 \<Rightarrow> bool \<times> caly_token_bucket" where
  "caly_tb_consume tb now_ns rate burst want =
     (if rate = 0 \<or> burst = 0 then (True, tb)
      else
        let rate = (if rate > CALY_TB_RATE_MAX then CALY_TB_RATE_MAX else rate);
            tb = tb_refill (tb_anchor tb now_ns burst) now_ns rate burst
        in if tb_tokens tb \<ge> want then (True, tb\<lparr>tb_tokens := tb_tokens tb - want\<rparr>)
           else (False, tb))"

definition caly_tb_peek :: "caly_token_bucket \<Rightarrow> u64 \<Rightarrow> u64 \<Rightarrow> u64 \<Rightarrow> u64 \<Rightarrow> bool" where
  "caly_tb_peek tb now_ns rate burst want = fst (caly_tb_consume tb now_ns rate burst want)"

definition caly_tb_avail :: "caly_token_bucket \<Rightarrow> u64 \<Rightarrow> u64 \<Rightarrow> u64 \<Rightarrow> u64" where
  "caly_tb_avail tb now_ns rate burst =
     (if rate = 0 \<or> burst = 0 then burst
      else tb_tokens (snd (caly_tb_consume tb now_ns rate burst 0)))"

definition caly_syn_global_ok ::
  "caly_token_bucket \<Rightarrow> u64 \<Rightarrow> u64 \<Rightarrow> bool \<times> caly_token_bucket" where
  "caly_syn_global_ok tb now_ns fallback_pps =
     (if fallback_pps = 0 then (True, tb)
      else let burst = (if fallback_pps < 1 then 1 else fallback_pps)
           in caly_tb_consume tb now_ns fallback_pps burst 1)"

text \<open>\<open>pr\<close> and \<open>tb\<close> may be null pointers: the limiter then fails open.\<close>

definition caly_port_rate_ok ::
  "caly_token_bucket option \<Rightarrow> port_rule option \<Rightarrow> u64 \<Rightarrow> bool \<times> caly_token_bucket option" where
  "caly_port_rate_ok tb pr now_ns =
     (case pr of None \<Rightarrow> (True, tb)
      | Some p \<Rightarrow>
          if pr_mode p \<noteq> CALY_PORT_RATELIMIT then (True, tb)
          else (case tb of None \<Rightarrow> (True, tb)
                | Some b \<Rightarrow>
                    let (ok, b') = caly_tb_consume b now_ns (pr_rate p) (pr_burst p) 1
                    in (ok, Some b')))"

section \<open>Arithmetic without wrap-around\<close>

abbreviation (input) nsec :: nat where "nsec \<equiv> 1000000000"

text \<open>The rate the bucket uses, after the clamp.\<close>

definition eff_rate :: "u64 \<Rightarrow> nat" where
  "eff_rate rate = min (unat rate) 4000000000"

lemma eff_rate_pos: "rate \<noteq> 0 \<Longrightarrow> 0 < eff_rate rate"
  by (simp add: eff_rate_def unat_gt_0)

lemma unat_clamped_rate:
  "unat (if rate > CALY_TB_RATE_MAX then CALY_TB_RATE_MAX else rate) = eff_rate rate"
  by (auto simp: eff_rate_def word_less_nat_alt min_def)

text \<open>One bucket step in natural numbers: \<open>L\<close> the anchor, \<open>N\<close> now.\<close>

definition credit :: "nat \<Rightarrow> nat \<Rightarrow> nat" where
  "credit R e = e * R div nsec"

lemma credit_mult_le: "credit R e * nsec \<le> e * R"
  by (simp add: credit_def)

lemma credit_time_le: "0 < R \<Longrightarrow> credit R e * nsec div R \<le> e"
  using credit_mult_le [of R e] by (simp add: div_le_mono less_mult_imp_div_less
      div_mult_self1_is_m order.trans [OF div_le_mono])

text \<open>The refill never gives more than the elapsed time is worth, up to less than one
  nanosecond of rounding.\<close>

lemma credit_potential:
  assumes "0 < R"
  shows "credit R e * nsec + (e - credit R e * nsec div R) * R \<le> e * R + (R - 1)"
proof -
  let ?x = "credit R e * nsec"
  have "?x div R * R + ?x mod R = ?x" by simp
  moreover have "?x div R * R \<le> e * R"
    using credit_time_le [OF assms, of e] by simp
  moreover have "?x mod R \<le> R - 1"
    using mod_less_divisor [OF assms, of ?x] by linarith
  ultimately show ?thesis
    unfolding diff_mult_distrib by linarith
qed

lemma credit_bound: "R \<le> 4000000000 \<Longrightarrow> e \<le> nsec \<Longrightarrow> credit R e \<le> 4000000000"
proof -
  assume "R \<le> 4000000000" "e \<le> nsec"
  then have "e * R \<le> nsec * 4000000000"
    by (rule mult_le_mono [rotated])
  then have "e * R div nsec \<le> nsec * 4000000000 div nsec"
    by (rule div_le_mono)
  then show ?thesis by (simp add: credit_def)
qed

text \<open>A bucket that has been seeded and whose anchor is not in the future.\<close>

definition tb_seeded :: "caly_token_bucket \<Rightarrow> u64 \<Rightarrow> bool" where
  "tb_seeded tb now_ns \<longleftrightarrow> tb_last_refill_ns tb \<noteq> 0 \<and> tb_last_refill_ns tb \<le> now_ns"

lemma tb_anchor_seeded:
  assumes "tb_seeded tb now_ns"
  shows "tb_tokens (tb_anchor tb now_ns burst) = tb_tokens tb"
    and "unat (tb_last_refill_ns (tb_anchor tb now_ns burst)) =
         unat now_ns - min (unat now_ns - unat (tb_last_refill_ns tb)) nsec"
proof -
  let ?L = "tb_last_refill_ns tb"
  have le: "unat ?L \<le> unat now_ns" and "\<not> ?L > now_ns" "?L \<noteq> 0"
    using assms by (auto simp: tb_seeded_def word_le_nat_alt word_less_nat_alt)
  moreover have "unat (now_ns - ?L) = unat now_ns - unat ?L"
    using le by (simp add: unat_sub word_le_nat_alt)
  moreover have "nsec \<le> unat now_ns \<Longrightarrow> unat (now_ns - 1000000000) = unat now_ns - nsec"
    by (simp add: unat_sub word_le_nat_alt)
  ultimately show "tb_tokens (tb_anchor tb now_ns burst) = tb_tokens tb"
    and "unat (tb_last_refill_ns (tb_anchor tb now_ns burst)) = unat now_ns - min (unat now_ns - unat ?L) nsec"
    by (auto simp: tb_anchor_def Let_def word_less_nat_alt min_def)
qed

lemma tb_refill_nat:
  fixes tb now_ns rate burst
  defines "e \<equiv> unat now_ns - unat (tb_last_refill_ns tb)" and "R \<equiv> unat rate"
  assumes le: "unat (tb_last_refill_ns tb) \<le> unat now_ns" and e: "e \<le> nsec"
    and R: "0 < R" "R \<le> 4000000000"
  shows "unat (tb_last_refill_ns (tb_refill tb now_ns rate burst)) =
           unat (tb_last_refill_ns tb) + credit R e * nsec div R"
    and "unat (tb_tokens (tb_refill tb now_ns rate burst)) =
           (if credit R e = 0 then unat (tb_tokens tb)
            else min (unat burst) (unat (tb_tokens tb) + credit R e))"
proof -
  let ?L = "tb_last_refill_ns tb" and ?T = "tb_tokens tb"
  let ?add = "((now_ns - ?L) * rate) div 1000000000"
  have el: "unat (now_ns - ?L) = e"
    using le by (simp add: e_def unat_sub word_le_nat_alt)
  have prod: "e * R \<le> nsec * 4000000000"
    using e R by (intro mult_le_mono) auto
  then have "unat ((now_ns - ?L) * rate) = e * R"
    using el R_def by (subst unat_mult_lem [THEN iffD1]) auto
  then have add: "unat ?add = credit R e"
    by (simp add: unat_div credit_def)
  have c: "credit R e \<le> 4000000000" by (rule credit_bound [OF R(2) e])
  then have "unat (?add * 1000000000) = credit R e * nsec"
    using add by (subst unat_mult_lem [THEN iffD1]) auto
  then have cons: "unat ((?add * 1000000000) div rate) = credit R e * nsec div R"
    by (simp add: unat_div R_def)
  have "unat ?L + credit R e * nsec div R \<le> unat now_ns"
    using credit_time_le [OF R(1), of e] le by (simp add: e_def)
  then have L': "unat (?L + (?add * 1000000000) div rate) = unat ?L + credit R e * nsec div R"
    using cons unat_u64_less [of now_ns] by (subst unat_add_lem [THEN iffD1]) auto
  have pos: "0 < ?add \<longleftrightarrow> credit R e \<noteq> 0"
    by (simp add: word_less_nat_alt add)
  show "unat (tb_last_refill_ns (tb_refill tb now_ns rate burst)) =
           unat ?L + credit R e * nsec div R"
    using pos L' by (simp add: tb_refill_def Let_def)
  have ov: "?T + ?add < ?T \<longleftrightarrow> \<not> unat ?T + credit R e < 2 ^ 64"
    using no_olen_add_nat [of ?T ?add] add by (simp add: not_le [symmetric])
  have nov: "unat ?T + credit R e < 2 ^ 64 \<Longrightarrow> unat (?T + ?add) = unat ?T + credit R e"
    using add by (subst unat_add_lem [THEN iffD1]) auto
  show "unat (tb_tokens (tb_refill tb now_ns rate burst)) =
           (if credit R e = 0 then unat ?T else min (unat burst) (unat ?T + credit R e))"
  proof (cases "credit R e = 0")
    case True
    then show ?thesis using pos by (simp add: tb_refill_def Let_def)
  next
    case False
    then have red: "tb_tokens (tb_refill tb now_ns rate burst) =
        (if ?T + ?add < ?T \<or> burst < ?T + ?add then burst else ?T + ?add)"
      using pos by (simp add: tb_refill_def Let_def)
    show ?thesis
    proof (cases "unat ?T + credit R e < 2 ^ 64")
      case True
      then have "\<not> ?T + ?add < ?T" using ov by simp
      then show ?thesis
        using False red nov [OF True] by (simp add: word_less_nat_alt min_def)
    next
      case no: False
      have "unat burst < unat ?T + credit R e"
        using no unat_u64_less [of burst] by simp
      then show ?thesis using False no red ov by simp
    qed
  qed
qed

text \<open>The whole operation on a seeded bucket, in natural numbers.\<close>

definition tb_available :: "caly_token_bucket \<Rightarrow> u64 \<Rightarrow> u64 \<Rightarrow> u64 \<Rightarrow> nat" where
  "tb_available tb now_ns rate burst =
     (let c = credit (eff_rate rate) (min (unat now_ns - unat (tb_last_refill_ns tb)) nsec)
      in if c = 0 then unat (tb_tokens tb) else min (unat burst) (unat (tb_tokens tb) + c))"

lemma caly_tb_consume_seeded:
  fixes tb now_ns rate burst want
  defines "N \<equiv> unat now_ns" and "R \<equiv> eff_rate rate"
    and "A \<equiv> tb_available tb now_ns rate burst"
  defines "e \<equiv> min (N - unat (tb_last_refill_ns tb)) nsec"
  assumes on: "rate \<noteq> 0" "burst \<noteq> 0" and seeded: "tb_seeded tb now_ns"
  shows "fst (caly_tb_consume tb now_ns rate burst want) \<longleftrightarrow> unat want \<le> A"
    and "unat (tb_tokens (snd (caly_tb_consume tb now_ns rate burst want))) =
         (if unat want \<le> A then A - unat want else A)"
    and "unat (tb_last_refill_ns (snd (caly_tb_consume tb now_ns rate burst want))) =
         N - e + credit R e * nsec div R"
proof -
  let ?rate = "if rate > CALY_TB_RATE_MAX then CALY_TB_RATE_MAX else rate"
  let ?a = "tb_anchor tb now_ns burst"
  let ?t = "tb_refill ?a now_ns ?rate burst"
  have rate: "unat ?rate = R" by (simp add: R_def unat_clamped_rate)
  have R: "0 < R" "R \<le> 4000000000"
    using on by (simp_all add: R_def eff_rate_pos) (simp add: eff_rate_def)
  have last: "unat (tb_last_refill_ns ?a) = N - e"
    by (simp add: tb_anchor_seeded [OF seeded] N_def e_def)
  have e: "e \<le> N" "e \<le> nsec" by (simp_all add: e_def)
  note ref = tb_refill_nat [of ?a now_ns ?rate burst, unfolded rate last N_def [symmetric]]
  have el: "N - (N - e) = e" using e by simp
  have t1: "unat (tb_last_refill_ns ?t) = N - e + credit R e * nsec div R"
    using ref(1) e R el by simp
  have t2: "unat (tb_tokens ?t) = A"
    using ref(2) e R el
    by (simp add: A_def tb_available_def Let_def tb_anchor_seeded [OF seeded] R_def e_def N_def)
  have c: "caly_tb_consume tb now_ns rate burst want =
      (if want \<le> tb_tokens ?t then (True, ?t\<lparr>tb_tokens := tb_tokens ?t - want\<rparr>) else (False, ?t))"
    using on by (simp add: caly_tb_consume_def Let_def)
  have le: "want \<le> tb_tokens ?t \<longleftrightarrow> unat want \<le> A" by (simp add: word_le_nat_alt t2)
  show "fst (caly_tb_consume tb now_ns rate burst want) \<longleftrightarrow> unat want \<le> A"
    by (simp add: c le)
  show "unat (tb_tokens (snd (caly_tb_consume tb now_ns rate burst want))) =
         (if unat want \<le> A then A - unat want else A)"
    using le t2 by (simp add: c unat_sub)
  show "unat (tb_last_refill_ns (snd (caly_tb_consume tb now_ns rate burst want))) =
         N - e + credit R e * nsec div R"
    using t1 by (simp add: c)
qed

section \<open>What a limiter promises\<close>

text \<open>Requests served in order; the first component is the amount admitted.\<close>

fun limiter_run ::
  "('s \<Rightarrow> u64 \<Rightarrow> u64 \<Rightarrow> bool \<times> 's) \<Rightarrow> (u64 \<Rightarrow> nat) \<Rightarrow> 's \<Rightarrow> (u64 \<times> u64) list \<Rightarrow> nat \<times> 's" where
  "limiter_run f charge s [] = (0, s)"
| "limiter_run f charge s ((now, want) # rs) =
     (let (ok, s') = f s now want; (n, s'') = limiter_run f charge s' rs
      in ((if ok then charge want else 0) + n, s''))"

locale limiter =
  fixes consume :: "'c \<Rightarrow> 's \<Rightarrow> u64 \<Rightarrow> u64 \<Rightarrow> bool \<times> 's"
    and charge :: "u64 \<Rightarrow> nat"
    and valid :: "'c \<Rightarrow> bool"
    and rate :: "'c \<Rightarrow> nat"
    and burst :: "'c \<Rightarrow> nat"
    and ready :: "'s \<Rightarrow> bool"
    and tokens :: "'s \<Rightarrow> nat"
    and anchor :: "'s \<Rightarrow> nat"
  assumes step_ready:
      "valid c \<Longrightarrow> ready s \<Longrightarrow> anchor s \<le> unat now \<Longrightarrow> consume c s now want = (ok, s') \<Longrightarrow>
       ready s' \<and> anchor s' \<le> unat now"
    and step_tokens:
      "valid c \<Longrightarrow> ready s \<Longrightarrow> anchor s \<le> unat now \<Longrightarrow> consume c s now want = (ok, s') \<Longrightarrow>
       tokens s \<le> burst c \<Longrightarrow> tokens s' \<le> burst c"
    and step_potential:
      "valid c \<Longrightarrow> ready s \<Longrightarrow> anchor s \<le> unat now \<Longrightarrow> consume c s now want = (ok, s') \<Longrightarrow>
       (if ok then charge want else 0) * nsec + tokens s' * nsec + (unat now - anchor s') * rate c
       \<le> tokens s * nsec + (unat now - anchor s) * rate c + (rate c - 1)"
begin

lemma run_bound:
  assumes "valid c" "ready s" "sorted (map (unat \<circ> fst) rs)"
    and "\<forall>r \<in> set rs. anchor s \<le> unat (fst r) \<and> unat (fst r) \<le> t" and "anchor s \<le> t"
  shows "fst (limiter_run (consume c) charge s rs) * nsec
         \<le> tokens s * nsec + (t - anchor s) * rate c + length rs * (rate c - 1)"
  using assms
proof (induction rs arbitrary: s)
  case Nil
  then show ?case by simp
next
  case (Cons r rs)
  obtain now want where r: "r = (now, want)" by (cases r)
  obtain ok s' where st: "consume c s now want = (ok, s')" by (cases "consume c s now want")
  have now: "anchor s \<le> unat now" "unat now \<le> t" using Cons.prems r by auto
  have s': "ready s'" "anchor s' \<le> unat now"
    using step_ready [OF Cons.prems(1,2) now(1) st] by auto
  have later: "\<forall>r \<in> set rs. unat now \<le> unat (fst r)"
    using Cons.prems(3) r by auto
  have "fst (limiter_run (consume c) charge s' rs) * nsec
        \<le> tokens s' * nsec + (t - anchor s') * rate c + length rs * (rate c - 1)"
    using Cons.prems s' now later by (intro Cons.IH) (auto intro: order.trans)
  moreover have "(t - anchor s') * rate c = (t - unat now) * rate c + (unat now - anchor s') * rate c"
    using s' now by (simp add: add_mult_distrib [symmetric])
  moreover have "(t - anchor s) * rate c = (t - unat now) * rate c + (unat now - anchor s) * rate c"
    using now by (simp add: add_mult_distrib [symmetric])
  moreover note step_potential [OF Cons.prems(1,2) now(1) st]
  moreover have "fst (limiter_run (consume c) charge s (r # rs)) =
      (if ok then charge want else 0) + fst (limiter_run (consume c) charge s' rs)"
    by (simp add: r st split: prod.splits)
  ultimately show ?case
    by (simp add: add_mult_distrib)
qed

lemma run_burst_bound:
  assumes "valid c" "ready s" "sorted (map (unat \<circ> fst) rs)" "tokens s \<le> burst c"
    and "\<forall>r \<in> set rs. anchor s \<le> unat (fst r) \<and> unat (fst r) \<le> t" and "anchor s \<le> t"
  shows "fst (limiter_run (consume c) charge s rs) * nsec
         \<le> burst c * nsec + (t - anchor s) * rate c + length rs * (rate c - 1)"
proof -
  have "tokens s * nsec \<le> burst c * nsec" using assms(4) by simp
  with run_bound [OF assms(1-3,5-6)] show ?thesis by linarith
qed

end

section \<open>The bucket and its wrappers are limiters\<close>

lemma caly_tb_consume_step:
  assumes on: "rate \<noteq> 0" "burst \<noteq> 0" and ne: "tb_last_refill_ns tb \<noteq> 0"
    and le: "unat (tb_last_refill_ns tb) \<le> unat now"
    and st: "caly_tb_consume tb now rate burst want = (ok, tb')"
  shows "tb_last_refill_ns tb' \<noteq> 0" "unat (tb_last_refill_ns tb') \<le> unat now"
    and "unat (tb_tokens tb) \<le> unat burst \<Longrightarrow> unat (tb_tokens tb') \<le> unat burst"
    and "(if ok then unat want else 0) * nsec + unat (tb_tokens tb') * nsec
           + (unat now - unat (tb_last_refill_ns tb')) * eff_rate rate
         \<le> unat (tb_tokens tb) * nsec + (unat now - unat (tb_last_refill_ns tb)) * eff_rate rate
           + (eff_rate rate - 1)"
proof -
  let ?N = "unat now" and ?L = "unat (tb_last_refill_ns tb)" and ?T = "unat (tb_tokens tb)"
  let ?R = "eff_rate rate" and ?A = "tb_available tb now rate burst"
  let ?e = "min (?N - ?L) nsec"
  let ?c = "credit ?R ?e"
  have seeded: "tb_seeded tb now"
    using ne le by (simp add: tb_seeded_def word_le_nat_alt)
  note con = caly_tb_consume_seeded [OF on seeded, of want, unfolded st fst_conv snd_conv]
  have R: "0 < ?R" using on by (simp add: eff_rate_pos)
  have L0: "0 < ?L" using ne by (simp add: unat_gt_0)
  have ct: "?c * nsec div ?R \<le> ?e" by (rule credit_time_le [OF R])
  have L': "unat (tb_last_refill_ns tb') = ?N - ?e + ?c * nsec div ?R" by (rule con(3))
  show "unat (tb_last_refill_ns tb') \<le> ?N" using L' ct by linarith
  have "0 < unat (tb_last_refill_ns tb')" using L' L0 le by linarith
  then show "tb_last_refill_ns tb' \<noteq> 0" by auto
  have A: "?A \<le> ?T + ?c" by (simp add: tb_available_def Let_def)
  show "?T \<le> unat burst \<Longrightarrow> unat (tb_tokens tb') \<le> unat burst"
  proof -
    assume "?T \<le> unat burst"
    then have "?A \<le> unat burst" by (simp add: tb_available_def Let_def)
    then show ?thesis using con(2) by (auto split: if_splits)
  qed
  have tok: "(if ok then unat want else 0) + unat (tb_tokens tb') = ?A"
    using con(1,2) by auto
  have "?N - unat (tb_last_refill_ns tb') = ?e - ?c * nsec div ?R"
    using L' ct by linarith
  then have "?c * nsec + (?N - unat (tb_last_refill_ns tb')) * ?R \<le> ?e * ?R + (?R - 1)"
    using credit_potential [OF R, of ?e] by simp
  moreover have "?e * ?R \<le> (?N - ?L) * ?R" by simp
  moreover have "?A * nsec \<le> ?T * nsec + ?c * nsec" using A by simp
  moreover have "(if ok then unat want else 0) * nsec + unat (tb_tokens tb') * nsec = ?A * nsec"
    unfolding add_mult_distrib [symmetric] tok by (rule refl)
  ultimately show "(if ok then unat want else 0) * nsec + unat (tb_tokens tb') * nsec
           + (?N - unat (tb_last_refill_ns tb')) * ?R
         \<le> ?T * nsec + (?N - ?L) * ?R + (?R - 1)"
    by linarith
qed

definition tb_consume_at :: "u64 \<times> u64 \<Rightarrow> caly_token_bucket \<Rightarrow> u64 \<Rightarrow> u64 \<Rightarrow> bool \<times> caly_token_bucket" where
  "tb_consume_at c tb now want = caly_tb_consume tb now (fst c) (snd c) want"

interpretation tb: limiter tb_consume_at unat "\<lambda>c. fst c \<noteq> 0 \<and> snd c \<noteq> 0"
  "\<lambda>c. eff_rate (fst c)" "\<lambda>c. unat (snd c)" "\<lambda>b. tb_last_refill_ns b \<noteq> 0"
  "\<lambda>b. unat (tb_tokens b)" "\<lambda>b. unat (tb_last_refill_ns b)"
proof
  fix c :: "u64 \<times> u64" and s :: caly_token_bucket and now want ok s'
  assume on: "fst c \<noteq> 0 \<and> snd c \<noteq> 0" and a: "tb_last_refill_ns s \<noteq> 0"
      "unat (tb_last_refill_ns s) \<le> unat now"
    and "tb_consume_at c s now want = (ok, s')"
  then have "caly_tb_consume s now (fst c) (snd c) want = (ok, s')"
    by (simp add: tb_consume_at_def)
  note st = caly_tb_consume_step [OF on [THEN conjunct1] on [THEN conjunct2] a this]
  show "tb_last_refill_ns s' \<noteq> 0 \<and> unat (tb_last_refill_ns s') \<le> unat now"
    using st(1,2) by simp
  show "unat (tb_tokens s) \<le> unat (snd c) \<Longrightarrow> unat (tb_tokens s') \<le> unat (snd c)"
    by (rule st(3))
  show "(if ok then unat want else 0) * nsec + unat (tb_tokens s') * nsec
        + (unat now - unat (tb_last_refill_ns s')) * eff_rate (fst c)
      \<le> unat (tb_tokens s) * nsec + (unat now - unat (tb_last_refill_ns s)) * eff_rate (fst c)
        + (eff_rate (fst c) - 1)"
    by (rule st(4))
qed

text \<open>The pre-5.15 global SYN cap: one unit per call, a burst of one second.\<close>

definition syn_global_at :: "u64 \<Rightarrow> caly_token_bucket \<Rightarrow> u64 \<Rightarrow> u64 \<Rightarrow> bool \<times> caly_token_bucket" where
  "syn_global_at pps tb now want = caly_syn_global_ok tb now pps"

lemma syn_global_consume: "pps \<noteq> 0 \<Longrightarrow> caly_syn_global_ok tb now pps = caly_tb_consume tb now pps pps 1"
  by (simp add: caly_syn_global_ok_def Let_def word_less_nat_alt unat_eq_zero)

interpretation syn: limiter syn_global_at "\<lambda>_. 1" "\<lambda>pps. pps \<noteq> 0" eff_rate unat
  "\<lambda>b. tb_last_refill_ns b \<noteq> 0" "\<lambda>b. unat (tb_tokens b)" "\<lambda>b. unat (tb_last_refill_ns b)"
proof
  fix pps :: u64 and s :: caly_token_bucket and now want ok s'
  assume a: "pps \<noteq> 0" "tb_last_refill_ns s \<noteq> 0" "unat (tb_last_refill_ns s) \<le> unat now"
    and "syn_global_at pps s now want = (ok, s')"
  then have "caly_tb_consume s now pps pps 1 = (ok, s')"
    by (simp add: syn_global_at_def syn_global_consume)
  note st = caly_tb_consume_step [OF a(1,1,2,3) this]
  show "tb_last_refill_ns s' \<noteq> 0 \<and> unat (tb_last_refill_ns s') \<le> unat now"
    using st(1,2) by simp
  show "unat (tb_tokens s) \<le> unat pps \<Longrightarrow> unat (tb_tokens s') \<le> unat pps"
    by (rule st(3))
  show "(if ok then 1 else 0) * nsec + unat (tb_tokens s') * nsec
        + (unat now - unat (tb_last_refill_ns s')) * eff_rate pps
      \<le> unat (tb_tokens s) * nsec + (unat now - unat (tb_last_refill_ns s)) * eff_rate pps
        + (eff_rate pps - 1)"
    using st(4) by (cases ok) simp_all
qed

text \<open>The per-port limit, where the rule asks for one and the bucket slot exists.\<close>

definition port_rate_at ::
  "port_rule \<Rightarrow> caly_token_bucket option \<Rightarrow> u64 \<Rightarrow> u64 \<Rightarrow> bool \<times> caly_token_bucket option" where
  "port_rate_at pr tb now want = caly_port_rate_ok tb (Some pr) now"

lemma port_rate_consume:
  assumes "pr_mode pr = CALY_PORT_RATELIMIT"
  shows "caly_port_rate_ok (Some b) (Some pr) now = (ok, s') \<longleftrightarrow>
         (\<exists>b'. caly_tb_consume b now (pr_rate pr) (pr_burst pr) 1 = (ok, b') \<and> s' = Some b')"
  using assms by (auto simp: caly_port_rate_ok_def split: prod.splits)

interpretation port: limiter port_rate_at "\<lambda>_. 1"
  "\<lambda>pr. pr_mode pr = CALY_PORT_RATELIMIT \<and> pr_rate pr \<noteq> 0 \<and> pr_burst pr \<noteq> 0"
  "\<lambda>pr. eff_rate (pr_rate pr)" "\<lambda>pr. unat (pr_burst pr)"
  "\<lambda>s. \<exists>b. s = Some b \<and> tb_last_refill_ns b \<noteq> 0"
  "\<lambda>s. unat (tb_tokens (the s))" "\<lambda>s. unat (tb_last_refill_ns (the s))"
proof
  fix pr :: port_rule and s :: "caly_token_bucket option" and now want ok s'
  assume pr: "pr_mode pr = CALY_PORT_RATELIMIT \<and> pr_rate pr \<noteq> 0 \<and> pr_burst pr \<noteq> 0"
    and s: "\<exists>b. s = Some b \<and> tb_last_refill_ns b \<noteq> 0"
    and le: "unat (tb_last_refill_ns (the s)) \<le> unat now"
    and eq: "port_rate_at pr s now want = (ok, s')"
  obtain b where b: "s = Some b" "tb_last_refill_ns b \<noteq> 0" using s by blast
  obtain b' where st: "caly_tb_consume b now (pr_rate pr) (pr_burst pr) 1 = (ok, b')" "s' = Some b'"
    using eq pr b by (auto simp: port_rate_at_def port_rate_consume)
  have on: "pr_rate pr \<noteq> 0" "pr_burst pr \<noteq> 0" and le': "unat (tb_last_refill_ns b) \<le> unat now"
    using pr le b by auto
  note res = caly_tb_consume_step [OF on b(2) le' st(1)]
  show "(\<exists>b. s' = Some b \<and> tb_last_refill_ns b \<noteq> 0) \<and> unat (tb_last_refill_ns (the s')) \<le> unat now"
    using res(1,2) st(2) by simp
  show "unat (tb_tokens (the s)) \<le> unat (pr_burst pr) \<Longrightarrow> unat (tb_tokens (the s')) \<le> unat (pr_burst pr)"
    using res(3) st(2) b by simp
  show "(if ok then 1 else 0) * nsec + unat (tb_tokens (the s')) * nsec
        + (unat now - unat (tb_last_refill_ns (the s'))) * eff_rate (pr_rate pr)
      \<le> unat (tb_tokens (the s)) * nsec
        + (unat now - unat (tb_last_refill_ns (the s))) * eff_rate (pr_rate pr)
        + (eff_rate (pr_rate pr) - 1)"
    using res(4) st(2) b by (cases ok) simp_all
qed

section \<open>Properties\<close>

text \<open>C31. The rate limit is a limit.  Whatever requests arrive in time order between the seeding
  at \<open>t0\<close> and \<open>t\<close>, the bucket admits at most its burst plus what the (clamped) rate yields in
  that time, up to a rounding credit of less than one nanosecond of rate per request.\<close>

theorem caly_tb_rate_bound:
  assumes "rate \<noteq> 0" "burst \<noteq> 0" "t0 \<noteq> 0" "t0 \<le> t"
    and "sorted (map (unat \<circ> fst) rs)" and "\<forall>r \<in> set rs. t0 \<le> fst r \<and> fst r \<le> t"
  shows "fst (limiter_run (\<lambda>tb now want. caly_tb_consume tb now rate burst want) unat
               (caly_tb_init t0 burst) rs) * nsec
         \<le> unat burst * nsec + (unat t - unat t0) * eff_rate rate
           + length rs * (eff_rate rate - 1)"
proof -
  have f: "(\<lambda>tb now want. caly_tb_consume tb now rate burst want) = tb_consume_at (rate, burst)"
    by (simp add: fun_eq_iff tb_consume_at_def)
  show ?thesis
    using tb.run_burst_bound [of "(rate, burst)" "caly_tb_init t0 burst" rs "unat t"] assms
    by (simp add: f caly_tb_init_def word_le_nat_alt)
qed

theorem caly_tb_rate_bound_witness:
  "fst (limiter_run (\<lambda>tb now want. caly_tb_consume tb now 100 10 want) unat
          (caly_tb_init 1000 10) [(1000, 10), (20001000, 2), (20001000, 1)]) = 12 \<and>
   fst (limiter_run (\<lambda>tb now want. caly_tb_consume tb now 100 10 want) unat
          (caly_tb_init 1000 10) [(1000, 10), (20001000, 2), (20001000, 1)]) * nsec
     \<le> 10 * nsec + 20000000 * 100 + 3 * 99"
proof -
  let ?rs = "[(1000, 10), (20001000, 2), (20001000, 1)] :: (u64 \<times> u64) list"
  have "fst (limiter_run (\<lambda>tb now want. caly_tb_consume tb now 100 10 want) unat
          (caly_tb_init 1000 10) ?rs) = 12"
    by code_simp
  moreover have "eff_rate 100 = 100" by (simp add: eff_rate_def)
  ultimately show ?thesis
    using caly_tb_rate_bound [of 100 10 1000 20001000 ?rs] by simp
qed

text \<open>A source that stays quiet recovers: after one second without traffic (or on a fresh
  entry, or after a clock regression) any request within the burst and within one second of
  rate is admitted.\<close>

theorem caly_tb_idle_recovers:
  assumes "rate \<noteq> 0" "burst \<noteq> 0"
    and idle: "tb_last_refill_ns tb = 0 \<or> tb_last_refill_ns tb > now \<or>
               nsec \<le> unat now - unat (tb_last_refill_ns tb)"
    and want: "unat want \<le> min (unat burst) (eff_rate rate)"
  shows "fst (caly_tb_consume tb now rate burst want)"
proof (cases "tb_seeded tb now")
  case True
  have c: "credit (eff_rate rate) nsec = eff_rate rate" by (simp add: credit_def)
  have "min (unat now - unat (tb_last_refill_ns tb)) nsec = nsec"
    using True idle by (auto simp: tb_seeded_def)
  then have "unat want \<le> tb_available tb now rate burst"
    using want eff_rate_pos [OF assms(1)] by (simp add: tb_available_def c)
  with True assms show ?thesis by (simp add: caly_tb_consume_seeded)
next
  case False
  then have "tb_last_refill_ns tb = 0 \<or> tb_last_refill_ns tb > now"
    by (auto simp: tb_seeded_def)
  then have a: "tb_anchor tb now burst = tb\<lparr>tb_last_refill_ns := now, tb_tokens := burst\<rparr>"
    by (simp add: tb_anchor_def)
  have "want \<le> burst" using want by (simp add: word_le_nat_alt)
  with assms show ?thesis by (simp add: caly_tb_consume_def a tb_refill_def)
qed

theorem caly_tb_idle_recovers_witness:
  "fst (caly_tb_consume \<lparr>tb_tokens = 0, tb_last_refill_ns = 5\<rparr> 1000000005 50 80 50)"
  using caly_tb_idle_recovers [of 50 80 "\<lparr>tb_tokens = 0, tb_last_refill_ns = 5\<rparr>" 1000000005 50]
  by (simp add: eff_rate_def)

text \<open>The depth of a bucket never exceeds its burst, whatever the clock does.\<close>

theorem caly_tb_tokens_le_burst:
  assumes "tb_tokens tb \<le> burst"
  shows "tb_tokens (snd (caly_tb_consume tb now rate burst want)) \<le> burst"
proof -
  let ?a = "tb_anchor tb now burst"
  have a: "tb_tokens ?a \<le> burst" using assms by (simp add: tb_anchor_def Let_def)
  have r: "tb_tokens (tb_refill ?a now r burst) \<le> burst" for r
    using a by (auto simp: tb_refill_def Let_def)
  have "want \<le> x \<Longrightarrow> x \<le> burst \<Longrightarrow> x - want \<le> burst" for x
    by (metis order.trans word_sub_le)
  with r assms show ?thesis by (simp add: caly_tb_consume_def Let_def)
qed

theorem caly_tb_tokens_le_burst_witness:
  "tb_tokens (snd (caly_tb_consume \<lparr>tb_tokens = 7, tb_last_refill_ns = 9\<rparr> 3 1000 8 2)) \<le> 8"
  using caly_tb_tokens_le_burst [of "\<lparr>tb_tokens = 7, tb_last_refill_ns = 9\<rparr>" 8 3 1000 2] by simp

text \<open>Peek, depth report and consume agree: a request conforms exactly when it is within the
  depth that \<open>caly_tb_avail\<close> reports, and consuming leaves the difference.\<close>

theorem caly_tb_avail_consume:
  assumes "rate \<noteq> 0" "burst \<noteq> 0"
  shows "(caly_tb_peek tb now rate burst want \<longleftrightarrow> want \<le> caly_tb_avail tb now rate burst) \<and>
         tb_tokens (snd (caly_tb_consume tb now rate burst want))
         = (if caly_tb_peek tb now rate burst want
            then caly_tb_avail tb now rate burst - want else caly_tb_avail tb now rate burst)"
  using assms by (auto simp: caly_tb_peek_def caly_tb_avail_def caly_tb_consume_def Let_def)

theorem caly_tb_avail_consume_witness:
  "caly_tb_avail \<lparr>tb_tokens = 1, tb_last_refill_ns = 5\<rparr> 100000005 50 80 = 6 \<and>
   caly_tb_peek \<lparr>tb_tokens = 1, tb_last_refill_ns = 5\<rparr> 100000005 50 80 6 \<and>
   \<not> caly_tb_peek \<lparr>tb_tokens = 1, tb_last_refill_ns = 5\<rparr> 100000005 50 80 7"
proof -
  let ?b = "\<lparr>tb_tokens = 1, tb_last_refill_ns = 5\<rparr> :: caly_token_bucket"
  have "caly_tb_avail ?b 100000005 50 80 = 6" by code_simp
  then show ?thesis
    using caly_tb_avail_consume [of 50 80 ?b 100000005 6]
      caly_tb_avail_consume [of 50 80 ?b 100000005 7] by simp
qed

text \<open>The rounding credit is not always small.  Above one unit per nanosecond the time
  charged for a refill can round down to zero, so that the same nanosecond is credited again by
  every later request: at a rate just under the maximum, any number of requests is admitted at
  one instant, although the comment on the refill promises that time is never spent twice.\<close>

theorem caly_tb_instant_respent:
  "fst (limiter_run (\<lambda>tb now want. caly_tb_consume tb now 3999999999 100 want) unat
          \<lparr>tb_tokens = 0, tb_last_refill_ns = 1000\<rparr> (replicate n (1001, 3))) = 3 * n"
proof -
  let ?b = "\<lparr>tb_tokens = 0, tb_last_refill_ns = 1000\<rparr> :: caly_token_bucket"
  have "caly_tb_consume ?b 1001 3999999999 100 3 = (True, ?b)"
    by code_simp
  then show ?thesis by (induction n) (simp_all add: case_prod_beta)
qed

end
