(* ===== verification/Caly_Ratelimit.thy ===== *)
theory Caly_Ratelimit
  imports Caly_Bucket Caly_Config
begin

text \<open>
  The per-source limiter of \<open>ratelimit.h\<close>: seeding, the six-bucket check and the strike window
  that turns repeated violations into a ban.
\<close>

section \<open>Operations\<close>

definition caly_rate_seed :: "rate_state \<Rightarrow> fw_config \<Rightarrow> u64 \<Rightarrow> rate_state" where
  "caly_rate_seed rs cfg now_ns =
     rs\<lparr>rs_tb := (\<lambda>k. caly_tb_init now_ns (cfg_tb_burst cfg k)),
        rs_window_start_ns := now_ns, rs_last_seen_ns := now_ns, rs_strikes := 0,
        rs_last_reason := 0, rs_flags := rs_flags rs OR CALY_RS_F_SEEDED\<rparr>"

definition caly_rate_touch :: "rate_state \<Rightarrow> u64 \<Rightarrow> rate_state" where
  "caly_rate_touch rs now_ns = rs\<lparr>rs_last_seen_ns := now_ns\<rparr>"

text \<open>One \<open>caly_tb_consume(&rs->tb[k], now_ns, rate[k], burst[k], want)\<close>.\<close>

definition rate_draw ::
  "rate_state \<Rightarrow> fw_config \<Rightarrow> u64 \<Rightarrow> caly_tb_kind \<Rightarrow> u64 \<Rightarrow> bool \<times> rate_state" where
  "rate_draw rs cfg now_ns k want =
     (let (ok, b) = caly_tb_consume (rs_tb rs k) now_ns (cfg_tb_rate cfg k) (cfg_tb_burst cfg k) want
      in (ok, rs\<lparr>rs_tb := (rs_tb rs)(k := b)\<rparr>))"

definition rate_seeded :: "rate_state \<Rightarrow> fw_config \<Rightarrow> u64 \<Rightarrow> rate_state" where
  "rate_seeded rs cfg now_ns =
     (if \<not> has_flag (rs_flags rs) CALY_RS_F_SEEDED then caly_rate_seed rs cfg now_ns else rs)"

definition caly_rate_check ::
  "rate_state \<Rightarrow> fw_config \<Rightarrow> u64 \<Rightarrow> u32 \<Rightarrow> bool \<Rightarrow> bool \<Rightarrow> bool \<Rightarrow> bool \<Rightarrow> u32 \<times> rate_state" where
  "caly_rate_check rs cfg now_ns want_bytes is_syn is_udp is_icmp is_newconn =
     (let rs = rate_seeded rs cfg now_ns;
          (ok, rs) = rate_draw rs cfg now_ns TB_PPS 1
      in if \<not> ok then (STAT_DROP_RATE_PPS, rs) else
      let (ok, rs) = rate_draw rs cfg now_ns TB_BPS (ucast want_bytes)
      in if \<not> ok then (STAT_DROP_RATE_BPS, rs) else
      let (ok, rs) = (if is_syn then rate_draw rs cfg now_ns TB_SYN 1 else (True, rs))
      in if \<not> ok then (STAT_DROP_RATE_SYN, rs) else
      let (ok, rs) = (if is_udp then rate_draw rs cfg now_ns TB_UDP 1 else (True, rs))
      in if \<not> ok then (STAT_DROP_RATE_UDP, rs) else
      let (ok, rs) = (if is_icmp then rate_draw rs cfg now_ns TB_ICMP 1 else (True, rs))
      in if \<not> ok then (STAT_DROP_RATE_ICMP, rs) else
      let (ok, rs) = (if is_newconn then rate_draw rs cfg now_ns TB_NEWCONN 1 else (True, rs))
      in if \<not> ok then (STAT_DROP_RATE_NEWCONN, rs) else (STAT_PKT_TOTAL, rs))"

definition caly_rate_syn_ok :: "rate_state \<Rightarrow> fw_config \<Rightarrow> u64 \<Rightarrow> bool \<times> rate_state" where
  "caly_rate_syn_ok rs cfg now_ns = rate_draw (rate_seeded rs cfg now_ns) cfg now_ns TB_SYN 1"

definition caly_strike_register ::
  "rate_state \<Rightarrow> fw_config \<Rightarrow> u64 \<Rightarrow> u32 \<Rightarrow> bool \<times> rate_state" where
  "caly_strike_register rs cfg now_ns reason =
     (let limit = cfg_strike_limit cfg; window = cfg_strike_window_ns cfg in
      if window = 0 \<or> limit = 0 then
        (True, rs\<lparr>rs_last_reason := reason, rs_strikes := caly_add_sat_u32 (rs_strikes rs) 1,
                  rs_flags := rs_flags rs OR CALY_RS_F_STRIKING\<rparr>)
      else
        let rs = (if \<not> has_flag (rs_flags rs) CALY_RS_F_STRIKING \<or>
                     caly_age_ns now_ns (rs_window_start_ns rs) > window
                  then rs\<lparr>rs_window_start_ns := now_ns, rs_strikes := 0,
                          rs_flags := rs_flags rs OR CALY_RS_F_STRIKING\<rparr>
                  else rs);
            rs = rs\<lparr>rs_strikes := caly_add_sat_u32 (rs_strikes rs) 1, rs_last_reason := reason\<rparr>
        in if rs_strikes rs \<ge> limit
           then (True, rs\<lparr>rs_flags := rs_flags rs AND NOT CALY_RS_F_STRIKING\<rparr>)
           else (False, rs))"

definition caly_strike_clear :: "rate_state \<Rightarrow> rate_state" where
  "caly_strike_clear rs = rs\<lparr>rs_strikes := 0, rs_flags := rs_flags rs AND NOT CALY_RS_F_STRIKING\<rparr>"

section \<open>The check as a walk over the applicable buckets\<close>

type_synonym rate_plan = "(caly_tb_kind \<times> u64 \<times> u32) list"

definition plan_of :: "u32 \<Rightarrow> bool \<Rightarrow> bool \<Rightarrow> bool \<Rightarrow> bool \<Rightarrow> rate_plan" where
  "plan_of want_bytes is_syn is_udp is_icmp is_newconn =
     [(TB_PPS, 1, STAT_DROP_RATE_PPS), (TB_BPS, ucast want_bytes, STAT_DROP_RATE_BPS)]
     @ (if is_syn then [(TB_SYN, 1, STAT_DROP_RATE_SYN)] else [])
     @ (if is_udp then [(TB_UDP, 1, STAT_DROP_RATE_UDP)] else [])
     @ (if is_icmp then [(TB_ICMP, 1, STAT_DROP_RATE_ICMP)] else [])
     @ (if is_newconn then [(TB_NEWCONN, 1, STAT_DROP_RATE_NEWCONN)] else [])"

fun rate_walk :: "fw_config \<Rightarrow> u64 \<Rightarrow> rate_plan \<Rightarrow> rate_state \<Rightarrow> u32 \<times> rate_state" where
  "rate_walk cfg now [] rs = (STAT_PKT_TOTAL, rs)"
| "rate_walk cfg now ((k, want, reason) # p) rs =
     (let (ok, rs) = rate_draw rs cfg now k want
      in if ok then rate_walk cfg now p rs else (reason, rs))"

lemma rate_check_walk:
  "caly_rate_check rs cfg now bytes syn udp icmp new =
   rate_walk cfg now (plan_of bytes syn udp icmp new) (rate_seeded rs cfg now)"
  by (simp add: caly_rate_check_def plan_of_def Let_def split_beta)

text \<open>What one bucket grants, on the state before the packet.\<close>

definition grants :: "fw_config \<Rightarrow> u64 \<Rightarrow> rate_state \<Rightarrow> caly_tb_kind \<times> u64 \<times> u32 \<Rightarrow> bool" where
  "grants cfg now rs s =
     caly_tb_peek (rs_tb rs (fst s)) now (cfg_tb_rate cfg (fst s)) (cfg_tb_burst cfg (fst s)) (fst (snd s))"

definition drawn :: "fw_config \<Rightarrow> u64 \<Rightarrow> rate_state \<Rightarrow> caly_tb_kind \<Rightarrow> u64 \<Rightarrow> caly_token_bucket" where
  "drawn cfg now rs k want =
     snd (caly_tb_consume (rs_tb rs k) now (cfg_tb_rate cfg k) (cfg_tb_burst cfg k) want)"

lemma rate_draw_eq:
  "rate_draw rs cfg now k want =
     (grants cfg now rs (k, want, r), rs\<lparr>rs_tb := (rs_tb rs)(k := drawn cfg now rs k want)\<rparr>)"
  by (simp add: rate_draw_def grants_def drawn_def caly_tb_peek_def split_beta Let_def)

lemma grants_other: "k \<noteq> fst s \<Longrightarrow> grants cfg now (rs\<lparr>rs_tb := (rs_tb rs)(k := b)\<rparr>) s = grants cfg now rs s"
  by (simp add: grants_def)

lemma rate_walk_fst:
  assumes "distinct (map fst p)"
  shows "fst (rate_walk cfg now p rs) =
         (case find (\<lambda>s. \<not> grants cfg now rs s) p of None \<Rightarrow> STAT_PKT_TOTAL | Some (k, w, r) \<Rightarrow> r)"
  using assms
proof (induction p arbitrary: rs)
  case (Cons s p)
  obtain k w r where s: "s = (k, w, r)" by (metis prod.exhaust)
  let ?rs = "rs\<lparr>rs_tb := (rs_tb rs)(k := drawn cfg now rs k w)\<rparr>"
  have "find (\<lambda>s. \<not> grants cfg now ?rs s) p = find (\<lambda>s. \<not> grants cfg now rs s) p"
    using Cons.prems by (intro find_cong) (auto simp: s grants_other image_iff)
  with Cons show ?case
    by (simp add: s rate_draw_eq [of _ _ _ _ _ r] Let_def)
qed simp

lemma rate_walk_tb:
  assumes "distinct (map fst p)" "k \<notin> fst ` set p"
  shows "rs_tb (snd (rate_walk cfg now p rs)) k = rs_tb rs k"
  using assms by (induction p arbitrary: rs) (auto simp: rate_draw_def split_beta Let_def)

lemma plan_distinct: "distinct (map fst (plan_of bytes syn udp icmp new))"
  by (simp add: plan_of_def)

section \<open>Strikes\<close>

fun strike_run :: "fw_config \<Rightarrow> u32 \<Rightarrow> rate_state \<Rightarrow> u64 list \<Rightarrow> bool list" where
  "strike_run cfg reason rs [] = []"
| "strike_run cfg reason rs (t # ts) =
     (let (ban, rs) = caly_strike_register rs cfg t reason in ban # strike_run cfg reason rs ts)"

lemma striking_off: "\<not> has_flag (f AND - 3) CALY_RS_F_STRIKING"
  by (simp add: has_flag_def and.assoc)

lemma striking_on: "has_flag (f OR CALY_RS_F_STRIKING) CALY_RS_F_STRIKING"
  by simp

text \<open>A window with \<open>k\<close> strikes so far, none meaning that the window is closed.\<close>

definition strikes_so_far :: "u64 \<Rightarrow> rate_state \<Rightarrow> nat \<Rightarrow> bool" where
  "strikes_so_far t0 rs k \<longleftrightarrow>
     (if has_flag (rs_flags rs) CALY_RS_F_STRIKING
      then unat (rs_strikes rs) = k \<and> unat t0 \<le> unat (rs_window_start_ns rs) else k = 0)"

lemma strike_step:
  assumes "cfg_strike_window_ns cfg \<noteq> 0" "cfg_strike_limit cfg \<noteq> 0"
    and t: "unat t0 \<le> unat t" "unat t \<le> unat t0 + unat (cfg_strike_window_ns cfg)"
    and k: "strikes_so_far t0 rs k" "k < unat (cfg_strike_limit cfg)"
  shows "fst (caly_strike_register rs cfg t reason) \<longleftrightarrow> Suc k = unat (cfg_strike_limit cfg)"
    and "strikes_so_far t0 (snd (caly_strike_register rs cfg t reason))
           (Suc k mod unat (cfg_strike_limit cfg))"
proof -
  let ?w = "cfg_strike_window_ns cfg" and ?l = "cfg_strike_limit cfg"
  let ?opens = "\<not> has_flag (rs_flags rs) CALY_RS_F_STRIKING \<or> caly_age_ns t (rs_window_start_ns rs) > ?w"
  have open_iff: "?opens \<longleftrightarrow> \<not> has_flag (rs_flags rs) CALY_RS_F_STRIKING"
    using t k(1) by (auto simp: strikes_so_far_def word_less_nat_alt unat_caly_age_ns)
  have one: "unat (caly_add_sat_u32 (if ?opens then 0 else rs_strikes rs) 1) = Suc k"
    using k unat_u32_less [of ?l] unfolding open_iff
    by (auto simp: caly_add_sat_u32_eq unat_sat_add strikes_so_far_def min_def)
  have le: "?l \<le> caly_add_sat_u32 (if ?opens then 0 else rs_strikes rs) 1 \<longleftrightarrow> Suc k = unat ?l"
    using one k(2) by (auto simp: word_le_nat_alt)
  show "fst (caly_strike_register rs cfg t reason) \<longleftrightarrow> Suc k = unat ?l"
    using assms(1,2) le by (auto simp: caly_strike_register_def Let_def)
  have m: "Suc k mod unat ?l = (if Suc k = unat ?l then 0 else Suc k)"
    using k(2) by auto
  show "strikes_so_far t0 (snd (caly_strike_register rs cfg t reason)) (Suc k mod unat ?l)"
    using assms(1,2) le one open_iff t(1) k(1) unfolding m
    by (auto simp: caly_strike_register_def Let_def strikes_so_far_def striking_off)
qed

lemma strike_run_mod:
  fixes t0 :: u64
  assumes "cfg_strike_window_ns cfg \<noteq> 0" "cfg_strike_limit cfg \<noteq> 0"
    and "\<forall>t \<in> set ts. unat t0 \<le> unat t \<and> unat t \<le> unat t0 + unat (cfg_strike_window_ns cfg)"
    and "strikes_so_far t0 rs k" "k < unat (cfg_strike_limit cfg)" "i < length ts"
  shows "strike_run cfg reason rs ts ! i \<longleftrightarrow> unat (cfg_strike_limit cfg) dvd Suc (k + i)"
  using assms(3-)
proof (induction ts arbitrary: rs k i)
  case (Cons t ts)
  let ?l = "unat (cfg_strike_limit cfg)"
  have st: "fst (caly_strike_register rs cfg t reason) \<longleftrightarrow> Suc k = ?l"
    "strikes_so_far t0 (snd (caly_strike_register rs cfg t reason)) (Suc k mod ?l)"
    using strike_step [OF assms(1,2) _ _ Cons.prems(2,3)] Cons.prems(1) by simp_all
  show ?case
  proof (cases i)
    case 0
    have "?l dvd Suc k \<longleftrightarrow> Suc k = ?l"
      using Cons.prems(3) by (auto dest: dvd_imp_le)
    with st(1) 0 show ?thesis by (simp add: split_beta Let_def)
  next
    case (Suc j)
    have "strike_run cfg reason (snd (caly_strike_register rs cfg t reason)) ts ! j
          \<longleftrightarrow> ?l dvd Suc (Suc k mod ?l + j)"
      using Cons.IH [OF _ st(2)] Cons.prems Suc by simp
    also have "\<dots> \<longleftrightarrow> ?l dvd Suc (Suc k + j)"
      unfolding dvd_eq_mod_eq_0 by (metis add_Suc_right mod_add_left_eq)
    finally show ?thesis by (simp add: Suc split_beta Let_def)
  qed
qed simp

section \<open>Properties\<close>


definition rs_empty :: rate_state where
  "rs_empty = \<lparr>rs_tb = (\<lambda>k. \<lparr>tb_tokens = 0, tb_last_refill_ns = 0\<rparr>), rs_window_start_ns = 0,
     rs_last_seen_ns = 0, rs_strikes = 0, rs_last_reason = 0, rs_offences = 0, rs_flags = 0\<rparr>"


text \<open>Strikes inside one window become a ban exactly at every \<open>strike_limit\<close>-th strike: from
  a closed window, the \<open>i\<close>-th violation (from zero) reported within the window length bans if and
  only if \<open>i + 1\<close> is a multiple of the limit.\<close>

theorem strike_ban_at_limit:
  fixes t0 :: u64
  assumes "cfg_strike_window_ns cfg \<noteq> 0" "cfg_strike_limit cfg \<noteq> 0"
    and "\<not> has_flag (rs_flags rs) CALY_RS_F_STRIKING"
    and "\<forall>t \<in> set ts. unat t0 \<le> unat t \<and> unat t \<le> unat t0 + unat (cfg_strike_window_ns cfg)"
    and "i < length ts"
  shows "strike_run cfg reason rs ts ! i \<longleftrightarrow> unat (cfg_strike_limit cfg) dvd (i + 1)"
  using strike_run_mod [OF assms(1,2,4), of rs 0 i reason] assms(2,3,5)
  by (simp add: strikes_so_far_def unat_gt_0)

theorem strike_ban_at_limit_witness:
  "strike_run (caly_conf_set_defaults\<lparr>cfg_strike_limit := 3\<rparr>) STAT_DROP_RATE_PPS rs_empty
     [10, 20, 30, 40] ! 2"
  using strike_ban_at_limit [of "caly_conf_set_defaults\<lparr>cfg_strike_limit := 3\<rparr>" rs_empty
      "[10, 20, 30, 40]" 5 2 STAT_DROP_RATE_PPS]
  by (simp add: rs_empty_def del: strike_run.simps)

text \<open>Isolated violations never ban: with a limit of at least two, violations that are
  each more than a window apart from the previous one are all tolerated.\<close>

theorem strike_spread_tolerated:
  assumes "cfg_strike_window_ns cfg \<noteq> 0" "2 \<le> cfg_strike_limit cfg"
    and "\<not> has_flag (rs_flags rs) CALY_RS_F_STRIKING"
    and "successively (\<lambda>s t. unat s + unat (cfg_strike_window_ns cfg) < unat t) ts"
  shows "True \<notin> set (strike_run cfg reason rs ts)"
proof -
  let ?w = "cfg_strike_window_ns cfg"
  have one: "caly_add_sat_u32 0 1 = 1" by (simp add: caly_add_sat_u32_eq sat_add_def)
  have small: "\<not> cfg_strike_limit cfg \<le> 1" and nz: "cfg_strike_limit cfg \<noteq> 0"
    using assms(2) by (auto simp: word_le_nat_alt)
  have "True \<notin> set (strike_run cfg reason rs ts)"
    if "\<not> has_flag (rs_flags rs) CALY_RS_F_STRIKING \<or>
        (ts \<noteq> [] \<longrightarrow> unat (rs_window_start_ns rs) + unat ?w < unat (hd ts))"
      and "successively (\<lambda>s t. unat s + unat ?w < unat t) ts" for rs
    using that
  proof (induction ts arbitrary: rs)
    case (Cons t ts)
    have o: "\<not> has_flag (rs_flags rs) CALY_RS_F_STRIKING \<or> ?w < caly_age_ns t (rs_window_start_ns rs)"
      using Cons.prems(1) by (auto simp: word_less_nat_alt unat_caly_age_ns)
    then have "\<not> fst (caly_strike_register rs cfg t reason)"
      and "rs_window_start_ns (snd (caly_strike_register rs cfg t reason)) = t"
      using assms(1) nz small one by (auto simp: caly_strike_register_def Let_def)
    with Cons show ?case
      by (cases ts) (simp_all add: split_beta Let_def)
  qed simp
  then show ?thesis using assms(3,4) by blast
qed

theorem strike_spread_tolerated_witness:
  "True \<notin> set (strike_run caly_conf_set_defaults STAT_DROP_RATE_PPS rs_empty
     [1, 60000000002, 120000000003])"
  by (rule strike_spread_tolerated) (simp_all add: rs_empty_def)

end
