(* ===== verification/Caly_Classify.thy ===== *)
theory Caly_Classify
  imports Caly_Config
begin

text \<open>
  The stateless classifiers of \<open>common.h\<close>: management ports, source-address bogons and illegal
  TCP flag combinations.  An address is the array of its bytes in network order.
\<close>

section \<open>Management ports\<close>

text \<open>The bounded search loop; \<open>i\<close> counts up to \<open>CALY_MGMT_PORTS_MAX\<close>.\<close>

function mgmt_loop :: "u16 list \<Rightarrow> u32 \<Rightarrow> u16 \<Rightarrow> nat \<Rightarrow> bool" where
  "mgmt_loop ports n port i =
     (if i < CALY_MGMT_PORTS_MAX then
        if of_nat i \<ge> n then False
        else if ports ! i = port then True
        else mgmt_loop ports n port (i + 1)
      else False)"
  by pat_completeness auto
termination by (relation "measure (\<lambda>(_, _, _, i). CALY_MGMT_PORTS_MAX - i)") auto

declare mgmt_loop.simps [simp del]

definition caly_is_mgmt_tcp :: "fw_config \<Rightarrow> u16 \<Rightarrow> bool" where
  "caly_is_mgmt_tcp cfg port =
     (let n = cfg_mgmt_tcp_count cfg;
          n = (if n > of_nat CALY_MGMT_PORTS_MAX then of_nat CALY_MGMT_PORTS_MAX else n)
      in mgmt_loop (cfg_mgmt_tcp_ports cfg) n port 0)"

definition caly_is_mgmt_udp :: "fw_config \<Rightarrow> u16 \<Rightarrow> bool" where
  "caly_is_mgmt_udp cfg port =
     (let n = cfg_mgmt_udp_count cfg;
          n = (if n > of_nat CALY_MGMT_PORTS_MAX then of_nat CALY_MGMT_PORTS_MAX else n)
      in mgmt_loop (cfg_mgmt_udp_ports cfg) n port 0)"

lemma unat_small_nat: "i < 16 \<Longrightarrow> unat (of_nat i :: u32) = i"
  by (simp add: unsigned_of_nat take_bit_nat_eq_self_iff)

lemma mgmt_loop_iff:
  "n \<le> 16 \<Longrightarrow> mgmt_loop ports n port i \<longleftrightarrow> (\<exists>j. i \<le> j \<and> j < unat n \<and> ports ! j = port)"
proof (induction ports n port i rule: mgmt_loop.induct)
  case (1 ports n port i)
  have n: "unat n \<le> 16" using 1(2) by (simp add: word_le_nat_alt)
  show ?case
  proof (cases "i < unat n")
    case False
    then have "i < 16 \<Longrightarrow> n \<le> of_nat i"
      by (simp add: word_le_nat_alt unat_small_nat)
    with False show ?thesis by (subst mgmt_loop.simps) auto
  next
    case True
    then have i: "i < 16" "\<not> n \<le> of_nat i"
      using n by (simp_all add: word_le_nat_alt unat_small_nat)
    have "mgmt_loop ports n port i \<longleftrightarrow> ports ! i = port \<or> mgmt_loop ports n port (i + 1)"
      using i by (subst mgmt_loop.simps) simp
    also have "\<dots> \<longleftrightarrow> ports ! i = port \<or> (\<exists>j. i + 1 \<le> j \<and> j < unat n \<and> ports ! j = port)"
      using 1 i by blast
    also have "\<dots> \<longleftrightarrow> (\<exists>j. i \<le> j \<and> j < unat n \<and> ports ! j = port)"
      using True by (metis Suc_eq_plus1 Suc_leI le_eq_less_or_eq Suc_leD)
    finally show ?thesis .
  qed
qed

lemma mgmt_loop_take:
  assumes "length ports = 16"
  shows "mgmt_loop ports (if (n :: u32) > 16 then 16 else n) port 0 \<longleftrightarrow> port \<in> set (take (unat n) ports)"
proof -
  let ?n = "if n > 16 then 16 else n"
  have "?n \<le> 16" by auto
  moreover have "unat ?n = min (unat n) 16" by (auto simp: word_less_nat_alt min_def)
  ultimately show ?thesis
    using assms by (auto simp: mgmt_loop_iff in_set_conv_nth)
qed

text \<open>A destination is a management port exactly when it is among the first
  \<open>mgmt_tcp_count\<close> (or \<open>mgmt_udp_count\<close>) slots of the configured arrays; a count beyond the array
  reads no further than its end.\<close>

theorem caly_is_mgmt_iff:
  assumes "length (cfg_mgmt_tcp_ports cfg) = 16" "length (cfg_mgmt_udp_ports cfg) = 16"
  shows "(caly_is_mgmt_tcp cfg p \<longleftrightarrow> p \<in> set (take (unat (cfg_mgmt_tcp_count cfg)) (cfg_mgmt_tcp_ports cfg))) \<and>
         (caly_is_mgmt_udp cfg p \<longleftrightarrow> p \<in> set (take (unat (cfg_mgmt_udp_count cfg)) (cfg_mgmt_udp_ports cfg)))"
  using mgmt_loop_take [OF assms(1)] mgmt_loop_take [OF assms(2)]
  by (simp only: caly_is_mgmt_tcp_def caly_is_mgmt_udp_def Let_def of_nat_numeral)

theorem caly_is_mgmt_iff_witness:
  "caly_is_mgmt_tcp caly_conf_set_defaults 22 \<and> \<not> caly_is_mgmt_tcp caly_conf_set_defaults 0 \<and>
   \<not> caly_is_mgmt_udp caly_conf_set_defaults 0"
  using caly_is_mgmt_iff [of caly_conf_set_defaults 22] caly_is_mgmt_iff [of caly_conf_set_defaults 0]
  by simp

section \<open>Source bogons\<close>

definition caly_v4_src_bogon :: "bytes \<Rightarrow> bool \<Rightarrow> u32" where
  "caly_v4_src_bogon a drop_private =
     (if a ! 0 = 0 then STAT_DROP_BOGON_SRC
      else if a ! 0 = 127 then STAT_DROP_BOGON_SRC
      else if a ! 0 = 169 \<and> a ! 1 = 254 then STAT_DROP_BOGON_SRC
      else if a ! 0 AND 0xF0 = 0xE0 then STAT_DROP_MCAST_SRC
      else if a ! 0 AND 0xF0 = 0xF0 then
        (if a ! 0 = 255 \<and> a ! 1 = 255 \<and> a ! 2 = 255 \<and> a ! 3 = 255 then STAT_DROP_BCAST_SRC
         else STAT_DROP_BOGON_SRC)
      else if a ! 0 = 192 \<and> a ! 1 = 0 \<and> a ! 2 = 2 then STAT_DROP_BOGON_SRC
      else if a ! 0 = 198 \<and> a ! 1 = 51 \<and> a ! 2 = 100 then STAT_DROP_BOGON_SRC
      else if a ! 0 = 203 \<and> a ! 1 = 0 \<and> a ! 2 = 113 then STAT_DROP_BOGON_SRC
      else if a ! 0 = 198 \<and> a ! 1 AND 0xFE = 18 then STAT_DROP_BOGON_SRC
      else if drop_private \<and> a ! 0 = 10 then STAT_DROP_PRIVATE_SRC
      else if drop_private \<and> a ! 0 = 172 \<and> a ! 1 AND 0xF0 = 16 then STAT_DROP_PRIVATE_SRC
      else if drop_private \<and> a ! 0 = 192 \<and> a ! 1 = 168 then STAT_DROP_PRIVATE_SRC
      else if drop_private \<and> a ! 0 = 100 \<and> a ! 1 AND 0xC0 = 64 then STAT_DROP_PRIVATE_SRC
      else STAT_PKT_TOTAL)"

definition caly_v6_src_bogon :: "bytes \<Rightarrow> bool \<Rightarrow> u32" where
  "caly_v6_src_bogon a drop_private =
     (if a ! 0 = 0xFF then STAT_DROP_MCAST_SRC
      else
        let acc = foldl (\<lambda>acc i. acc OR a ! i) 0 [0..<15] in
        if acc = 0 \<and> a ! 15 = 0 then STAT_DROP_IP6_SRC_UNSPEC
        else if acc = 0 \<and> a ! 15 = 1 then STAT_DROP_IP6_SRC_LOOPBACK
        else if a ! 0 = 1 \<and> a ! 1 = 0 \<and> a ! 2 = 0 \<and> a ! 3 = 0 \<and> a ! 4 = 0 \<and> a ! 5 = 0 \<and>
                a ! 6 = 0 \<and> a ! 7 = 0 then STAT_DROP_BOGON_SRC
        else if drop_private \<and> a ! 0 AND 0xFE = 0xFC then STAT_DROP_PRIVATE_SRC
        else if drop_private \<and> a ! 0 = 0xFE \<and> a ! 1 AND 0xC0 = 0x80 then STAT_DROP_PRIVATE_SRC
        else STAT_PKT_TOTAL)"

text \<open>The specification: first match in a table of prefixes over the value of the address.\<close>

definition be_val :: "bytes \<Rightarrow> nat" where
  "be_val a = foldl (\<lambda>v b. v * 256 + unat b) 0 a"

definition in_prefix :: "nat \<Rightarrow> nat \<Rightarrow> nat \<Rightarrow> nat \<Rightarrow> bool" where
  "in_prefix w net len v \<longleftrightarrow> v div 2 ^ (w - len) = net div 2 ^ (w - len)"

type_synonym prefix_table = "(nat \<times> nat \<times> u32) list"

definition first_match :: "nat \<Rightarrow> prefix_table \<Rightarrow> nat \<Rightarrow> u32" where
  "first_match w tab v =
     (case find (\<lambda>(net, len, r). in_prefix w net len v) tab of None \<Rightarrow> STAT_PKT_TOTAL
      | Some (net, len, r) \<Rightarrow> r)"

definition v4_bogons :: prefix_table where
  "v4_bogons =
     [(be_val [0, 0, 0, 0], 8, STAT_DROP_BOGON_SRC), (be_val [127, 0, 0, 0], 8, STAT_DROP_BOGON_SRC),
      (be_val [169, 254, 0, 0], 16, STAT_DROP_BOGON_SRC),
      (be_val [224, 0, 0, 0], 4, STAT_DROP_MCAST_SRC),
      (be_val [255, 255, 255, 255], 32, STAT_DROP_BCAST_SRC),
      (be_val [240, 0, 0, 0], 4, STAT_DROP_BOGON_SRC),
      (be_val [192, 0, 2, 0], 24, STAT_DROP_BOGON_SRC),
      (be_val [198, 51, 100, 0], 24, STAT_DROP_BOGON_SRC),
      (be_val [203, 0, 113, 0], 24, STAT_DROP_BOGON_SRC),
      (be_val [198, 18, 0, 0], 15, STAT_DROP_BOGON_SRC)]"

definition v4_private :: prefix_table where
  "v4_private =
     [(be_val [10, 0, 0, 0], 8, STAT_DROP_PRIVATE_SRC),
      (be_val [172, 16, 0, 0], 12, STAT_DROP_PRIVATE_SRC),
      (be_val [192, 168, 0, 0], 16, STAT_DROP_PRIVATE_SRC),
      (be_val [100, 64, 0, 0], 10, STAT_DROP_PRIVATE_SRC)]"

lemma all_u8: "list_all P (map word_of_nat [0..<256]) \<Longrightarrow> P (x :: u8)"
proof -
  assume "list_all P (map word_of_nat [0..<256])"
  moreover have "x = word_of_nat (unat x)" "unat x < 256"
    using unat_u8_less [of x] by simp_all
  ultimately show "P x" by (metis (no_types, lifting) atLeastLessThan_iff imageI image_set
        list_all_iff set_upt zero_le)
qed

text \<open>The mask tests read the leading bits.\<close>

lemma u8_masks:
  "(x :: u8) AND 0xF0 = 0xE0 \<longleftrightarrow> unat x div 16 = 14" "x AND 0xF0 = 0xF0 \<longleftrightarrow> unat x div 16 = 15"
  "x AND 0xFE = 18 \<longleftrightarrow> unat x div 2 = 9" "x AND 0xF0 = 16 \<longleftrightarrow> unat x div 16 = 1"
  "x AND 0xC0 = 64 \<longleftrightarrow> unat x div 64 = 1"
proof -
  have "(x AND 0xF0 = 0xE0 \<longleftrightarrow> unat x div 16 = 14) \<and> (x AND 0xF0 = 0xF0 \<longleftrightarrow> unat x div 16 = 15) \<and>
    (x AND 0xFE = 18 \<longleftrightarrow> unat x div 2 = 9) \<and> (x AND 0xF0 = 16 \<longleftrightarrow> unat x div 16 = 1) \<and>
    (x AND 0xC0 = 64 \<longleftrightarrow> unat x div 64 = 1)"
    by (rule all_u8) code_simp
  then show "x AND 0xF0 = 0xE0 \<longleftrightarrow> unat x div 16 = 14" "x AND 0xF0 = 0xF0 \<longleftrightarrow> unat x div 16 = 15"
    "x AND 0xFE = 18 \<longleftrightarrow> unat x div 2 = 9" "x AND 0xF0 = 16 \<longleftrightarrow> unat x div 16 = 1"
    "x AND 0xC0 = 64 \<longleftrightarrow> unat x div 64 = 1"
    by blast+
qed

lemma in_prefix_v4:
  assumes "a = [x0, x1, x2, x3]"
  shows "in_prefix 32 net 8 (be_val a) \<longleftrightarrow> unat x0 = net div 2 ^ 24"
    and "in_prefix 32 net 4 (be_val a) \<longleftrightarrow> unat x0 div 16 = net div 2 ^ 28"
    and "in_prefix 32 net 16 (be_val a) \<longleftrightarrow> unat x0 * 256 + unat x1 = net div 2 ^ 16"
    and "in_prefix 32 net 24 (be_val a) \<longleftrightarrow> unat x0 * 65536 + unat x1 * 256 + unat x2 = net div 2 ^ 8"
    and "in_prefix 32 net 32 (be_val a) \<longleftrightarrow> unat x0 * 16777216 + unat x1 * 65536 + unat x2 * 256 + unat x3 = net"
    and "in_prefix 32 net 15 (be_val a) \<longleftrightarrow> unat x0 * 128 + unat x1 div 2 = net div 2 ^ 17"
    and "in_prefix 32 net 12 (be_val a) \<longleftrightarrow> unat x0 * 16 + unat x1 div 16 = net div 2 ^ 20"
    and "in_prefix 32 net 10 (be_val a) \<longleftrightarrow> unat x0 * 4 + unat x1 div 64 = net div 2 ^ 22"
proof -
  let ?v = "be_val a"
  have v: "?v = unat x0 * 16777216 + unat x1 * 65536 + unat x2 * 256 + unat x3"
    by (simp add: assms be_val_def)
  note b = unat_u8_less [of x0] unat_u8_less [of x1] unat_u8_less [of x2] unat_u8_less [of x3]
  have h: "r < 256 \<Longrightarrow> (q * 256 + r) div 256 = (q :: nat)" for q r by simp
  have q3: "?v div 256 = unat x0 * 65536 + unat x1 * 256 + unat x2"
    using h [OF b(4), of "unat x0 * 65536 + unat x1 * 256 + unat x2"] by (simp add: v)
  have q2: "?v div 65536 = unat x0 * 256 + unat x1"
    using h [OF b(3), of "unat x0 * 256 + unat x1"] q3 div_mult2_eq [of ?v 256 256] by simp
  have q1: "?v div 16777216 = unat x0"
    using h [OF b(2), of "unat x0"] q2 div_mult2_eq [of ?v 65536 256] by simp
  have d: "(q * 256 + r) div 2 = q * 128 + r div 2" "(q * 256 + r) div 16 = q * 16 + r div 16"
    "(q * 256 + r) div 64 = q * 4 + r div 64" for q r :: nat
    by presburger+
  have q: "?v div 268435456 = unat x0 div 16" "?v div 131072 = unat x0 * 128 + unat x1 div 2"
    "?v div 1048576 = unat x0 * 16 + unat x1 div 16" "?v div 4194304 = unat x0 * 4 + unat x1 div 64"
    using q1 div_mult2_eq [of ?v 16777216 16] q2 div_mult2_eq [of ?v 65536 2]
      div_mult2_eq [of ?v 65536 16] div_mult2_eq [of ?v 65536 64]
    by (simp_all only: d)
  show "in_prefix 32 net 8 ?v \<longleftrightarrow> unat x0 = net div 2 ^ 24"
    "in_prefix 32 net 4 ?v \<longleftrightarrow> unat x0 div 16 = net div 2 ^ 28"
    "in_prefix 32 net 16 ?v \<longleftrightarrow> unat x0 * 256 + unat x1 = net div 2 ^ 16"
    "in_prefix 32 net 24 ?v \<longleftrightarrow> unat x0 * 65536 + unat x1 * 256 + unat x2 = net div 2 ^ 8"
    "in_prefix 32 net 15 ?v \<longleftrightarrow> unat x0 * 128 + unat x1 div 2 = net div 2 ^ 17"
    "in_prefix 32 net 12 ?v \<longleftrightarrow> unat x0 * 16 + unat x1 div 16 = net div 2 ^ 20"
    "in_prefix 32 net 10 ?v \<longleftrightarrow> unat x0 * 4 + unat x1 div 64 = net div 2 ^ 22"
    by (simp_all add: in_prefix_def q q1 q2 q3)
  show "in_prefix 32 net 32 ?v \<longleftrightarrow> unat x0 * 16777216 + unat x1 * 65536 + unat x2 * 256 + unat x3 = net"
    by (simp add: in_prefix_def v)
qed

text \<open>A byte group is determined by its weighted sum.\<close>

lemma radix_eq: "b < B \<Longrightarrow> d < B \<Longrightarrow> a * B + b = c * B + d \<longleftrightarrow> a = c \<and> b = (d :: nat)"
  by (metis div_mult_self3 div_less add.right_neutral mod_less mod_mult_self3 less_zeroE neq0_conv)

lemma byte_sums:
  fixes x y z w :: u8
  shows "unat x * 256 + unat y = 43518 \<longleftrightarrow> unat x = 169 \<and> unat y = 254"
    and "unat x * 256 + unat y = 49320 \<longleftrightarrow> unat x = 192 \<and> unat y = 168"
    and "unat x * 128 + unat y div 2 = 25353 \<longleftrightarrow> unat x = 198 \<and> unat y div 2 = 9"
    and "unat x * 16 + unat y div 16 = 2753 \<longleftrightarrow> unat x = 172 \<and> unat y div 16 = 1"
    and "unat x * 4 + unat y div 64 = 401 \<longleftrightarrow> unat x = 100 \<and> unat y div 64 = 1"
    and "unat x * 65536 + unat y * 256 + unat z = 12582914 \<longleftrightarrow> unat x = 192 \<and> unat y = 0 \<and> unat z = 2"
    and "unat x * 65536 + unat y * 256 + unat z = 12989284 \<longleftrightarrow> unat x = 198 \<and> unat y = 51 \<and> unat z = 100"
    and "unat x * 65536 + unat y * 256 + unat z = 13303921 \<longleftrightarrow> unat x = 203 \<and> unat y = 0 \<and> unat z = 113"
    and "unat x * 16777216 + unat y * 65536 + unat z * 256 + unat w = 4294967295
         \<longleftrightarrow> unat x = 255 \<and> unat y = 255 \<and> unat z = 255 \<and> unat w = 255"
proof -
  note b = unat_u8_less [of x] unat_u8_less [of y] unat_u8_less [of z] unat_u8_less [of w]
  have d: "unat y div 2 < 128" "unat y div 16 < 16" "unat y div 64 < 4"
    using b(2) by (simp_all add: less_mult_imp_div_less)
  have yz: "unat y * 256 + unat z < 65536" and yzw: "unat y * 65536 + unat z * 256 + unat w < 16777216"
    using b by linarith+
  show "unat x * 256 + unat y = 43518 \<longleftrightarrow> unat x = 169 \<and> unat y = 254"
    "unat x * 256 + unat y = 49320 \<longleftrightarrow> unat x = 192 \<and> unat y = 168"
    using radix_eq [OF b(2), of 254 "unat x" 169] radix_eq [OF b(2), of 168 "unat x" 192] by simp_all
  show "unat x * 128 + unat y div 2 = 25353 \<longleftrightarrow> unat x = 198 \<and> unat y div 2 = 9"
    using radix_eq [OF d(1), of 9 "unat x" 198] by simp
  show "unat x * 16 + unat y div 16 = 2753 \<longleftrightarrow> unat x = 172 \<and> unat y div 16 = 1"
    using radix_eq [OF d(2), of 1 "unat x" 172] by simp
  show "unat x * 4 + unat y div 64 = 401 \<longleftrightarrow> unat x = 100 \<and> unat y div 64 = 1"
    using radix_eq [OF d(3), of 1 "unat x" 100] by simp
  show "unat x * 65536 + unat y * 256 + unat z = 12582914 \<longleftrightarrow> unat x = 192 \<and> unat y = 0 \<and> unat z = 2"
    using radix_eq [OF yz, of 2 "unat x" 192] radix_eq [OF b(3), of 2 "unat y" 0]
    by (simp add: add.assoc numeral_2_eq_2)
  show "unat x * 65536 + unat y * 256 + unat z = 12989284 \<longleftrightarrow> unat x = 198 \<and> unat y = 51 \<and> unat z = 100"
    using radix_eq [OF yz, of 13156 "unat x" 198] radix_eq [OF b(3), of 100 "unat y" 51]
    by (simp add: add.assoc)
  show "unat x * 65536 + unat y * 256 + unat z = 13303921 \<longleftrightarrow> unat x = 203 \<and> unat y = 0 \<and> unat z = 113"
    using radix_eq [OF yz, of 113 "unat x" 203] radix_eq [OF b(3), of 113 "unat y" 0]
    by (simp add: add.assoc)
  show "unat x * 16777216 + unat y * 65536 + unat z * 256 + unat w = 4294967295
        \<longleftrightarrow> unat x = 255 \<and> unat y = 255 \<and> unat z = 255 \<and> unat w = 255"
    using b by (intro iffI conjI; linarith)
qed

lemma u8_eq_iff:
  "(numeral n :: nat) < 256 \<Longrightarrow> (x :: u8) = numeral n \<longleftrightarrow> unat x = numeral n"
  "x = 0 \<longleftrightarrow> unat x = 0"
proof -
  have g: "m < 256 \<Longrightarrow> x = word_of_nat m \<longleftrightarrow> unat x = m" for m
    by (auto simp: unsigned_of_nat take_bit_nat_eq_self_iff)
  then show "(numeral n :: nat) < 256 \<Longrightarrow> x = numeral n \<longleftrightarrow> unat x = numeral n"
    by (metis of_nat_numeral)
qed (simp add: unat_eq_zero)

lemma first_match_simps:
  "first_match w [] v = STAT_PKT_TOTAL"
  "first_match w ((n, l, r) # t) v = (if in_prefix w n l v then r else first_match w t v)"
  by (simp_all add: first_match_def)

text \<open>The IPv4 source filter is the documented prefix table: the octet tests give, for every
  address, the reason of the first prefix that contains it.\<close>

theorem caly_v4_src_bogon_table:
  "caly_v4_src_bogon [x0, x1, x2, x3] drop_private =
   first_match 32 (v4_bogons @ (if drop_private then v4_private else [])) (be_val [x0, x1, x2, x3])"
proof -
  let ?a = "[x0, x1, x2, x3]"
  have nets: "be_val [0, 0, 0, 0] = 0" "be_val [127, 0, 0, 0] = 2130706432"
    "be_val [169, 254, 0, 0] = 2851995648" "be_val [224, 0, 0, 0] = 3758096384"
    "be_val [255, 255, 255, 255] = 4294967295" "be_val [240, 0, 0, 0] = 4026531840"
    "be_val [192, 0, 2, 0] = 3221225984" "be_val [198, 51, 100, 0] = 3325256704"
    "be_val [203, 0, 113, 0] = 3405803776" "be_val [198, 18, 0, 0] = 3323068416"
    "be_val [10, 0, 0, 0] = 167772160" "be_val [172, 16, 0, 0] = 2886729728"
    "be_val [192, 168, 0, 0] = 3232235520" "be_val [100, 64, 0, 0] = 1681915904"
    by (simp_all add: be_val_def)
  have hi: "unat x0 = 255 \<Longrightarrow> unat x0 div 16 = 15" "unat x0 = 255 \<Longrightarrow> unat x0 div 16 \<noteq> 14"
    by simp_all
  show ?thesis
    unfolding v4_bogons_def v4_private_def nets caly_v4_src_bogon_def
    by (cases drop_private)
      (simp_all add: first_match_simps in_prefix_v4 [OF refl] byte_sums u8_masks u8_eq_iff
        del: One_nat_def)
qed

section \<open>TCP flags\<close>

definition caly_tcp_flags_illegal :: "u8 \<Rightarrow> u32" where
  "caly_tcp_flags_illegal flags =
     (let f = flags AND CALY_TCP_FLAG_MASK in
      if flags = CALY_TCP_ALL_FLAGS then STAT_DROP_TCP_ALL_FLAGS
      else if f = 0 then STAT_DROP_TCP_NULL
      else if f AND (CALY_TCP_SYN OR CALY_TCP_FIN) = CALY_TCP_SYN OR CALY_TCP_FIN
        then STAT_DROP_TCP_SYN_FIN
      else if f AND (CALY_TCP_SYN OR CALY_TCP_RST) = CALY_TCP_SYN OR CALY_TCP_RST
        then STAT_DROP_TCP_SYN_RST
      else if f AND (CALY_TCP_FIN OR CALY_TCP_RST) = CALY_TCP_FIN OR CALY_TCP_RST
        then STAT_DROP_TCP_FIN_RST
      else if f AND (CALY_TCP_FIN OR CALY_TCP_PSH OR CALY_TCP_URG)
              = CALY_TCP_FIN OR CALY_TCP_PSH OR CALY_TCP_URG
        then STAT_DROP_TCP_XMAS
      else if f = CALY_TCP_FIN then STAT_DROP_TCP_FIN_ONLY
      else STAT_PKT_TOTAL)"

text \<open>At most one of the connection-control bits, and FIN only as part of an established
  exchange.\<close>

definition tcp_flags_legal :: "u8 \<Rightarrow> bool" where
  "tcp_flags_legal f \<longleftrightarrow>
     length (filter (has_flag f) [CALY_TCP_SYN, CALY_TCP_FIN, CALY_TCP_RST]) \<le> 1 \<and>
     (has_flag f CALY_TCP_FIN \<longrightarrow>
        has_flag f CALY_TCP_ACK \<and> \<not> (has_flag f CALY_TCP_PSH \<and> has_flag f CALY_TCP_URG) \<or>
        has_flag f CALY_TCP_PSH \<noteq> has_flag f CALY_TCP_URG) \<and>
     (\<exists>b \<in> set [CALY_TCP_FIN, CALY_TCP_SYN, CALY_TCP_RST, CALY_TCP_PSH, CALY_TCP_ACK, CALY_TCP_URG].
        has_flag f b)"

text \<open>The flag filter accepts exactly the legal combinations: some flag is set, at most one of
  SYN, FIN and RST, and FIN neither alone nor as a Christmas tree; the ECN bits do not matter.\<close>

theorem caly_tcp_flags_legal_iff:
  "caly_tcp_flags_illegal flags = STAT_PKT_TOTAL \<longleftrightarrow> tcp_flags_legal flags"
  by (rule all_u8 [of _ flags]) code_simp

end
