(* ===== verification/Caly_Parse.thy ===== *)
theory Caly_Parse
  imports Caly_Config
begin

text \<open>
  The packet parser of \<open>xdp_firewall.bpf.c\<close>: \<open>caly_parse_l3\<close> (IPv4, IPv6 with its extension
  chain, GRE) and \<open>caly_parse_l4\<close>, and the tunnel loop of \<open>caly_xdp_parse\<close> that drives them.  The
  frame is the byte list between \<open>data\<close> and \<open>data_end\<close>.  Every load goes through \<open>ld8\<close>, \<open>ld16\<close> or
  \<open>ld32\<close>, so a parser that reads outside the frame evaluates to \<^term>\<open>None\<close>; the loads of one
  header are grouped after the bounds check that covers them.
\<close>

section \<open>Constants and results\<close>

abbreviation (input) CALY_MAX_HDR_OFF :: u32 where "CALY_MAX_HDR_OFF \<equiv> 512"
abbreviation (input) CALY_MAX_PKT_LEN :: nat where "CALY_MAX_PKT_LEN \<equiv> 65535"
abbreviation (input) CALY_PARSE_OK :: u32 where "CALY_PARSE_OK \<equiv> 0"
abbreviation (input) CALY_GRE_F_CSUM :: u32 where "CALY_GRE_F_CSUM \<equiv> 0x8000"
abbreviation (input) CALY_GRE_F_ROUTING :: u32 where "CALY_GRE_F_ROUTING \<equiv> 0x4000"
abbreviation (input) CALY_GRE_F_KEY :: u32 where "CALY_GRE_F_KEY \<equiv> 0x2000"
abbreviation (input) CALY_GRE_F_SEQ :: u32 where "CALY_GRE_F_SEQ \<equiv> 0x1000"
abbreviation (input) CALY_GRE_F_SSR :: u32 where "CALY_GRE_F_SSR \<equiv> 0x0800"
abbreviation (input) CALY_GRE_VER_MASK :: u32 where "CALY_GRE_VER_MASK \<equiv> 0x0007"

text \<open>A header parser either returns a code from the whole function or hands the offset and
  protocol of the next header on.\<close>

datatype l3_step = Ret u32 pkt_ctx | Cont pkt_ctx u32 u8

datatype gre_out = GreRet u32 | GreTunnel u32 u16 | GreNone

text \<open>The result of \<open>caly_parse_l3\<close>: a return code with the ICMP type and code, or
  \<open>CALY_PARSE_TUNNEL\<close> with the inner offset and protocol.\<close>

datatype l3_result = L3_Done u32 pkt_ctx u32 | L3_Tunnel pkt_ctx u32 u16

section \<open>Operations\<close>

definition caly_ip6_is_ext :: "u8 \<Rightarrow> bool" where
  "caly_ip6_is_ext nh \<longleftrightarrow>
     nh = CALY_IPPROTO_HOPOPTS \<or> nh = CALY_IPPROTO_ROUTING \<or> nh = CALY_IPPROTO_FRAGMENT \<or>
     nh = CALY_IPPROTO_DSTOPTS \<or> nh = CALY_IPPROTO_AH \<or> nh = CALY_IPPROTO_MH"

definition caly_is_tunnel_proto :: "u8 \<Rightarrow> bool" where
  "caly_is_tunnel_proto proto \<longleftrightarrow>
     proto = CALY_IPPROTO_IPIP \<or> proto = CALY_IPPROTO_IPV6 \<or> proto = CALY_IPPROTO_GRE"

definition caly_parse_l4 ::
  "bytes \<Rightarrow> pkt_ctx \<Rightarrow> fw_config \<Rightarrow> u32 \<Rightarrow> (u32 \<times> pkt_ctx \<times> u32) option" where
  "caly_parse_l4 d pkt cfg icmp_tc =
     (let off = pk_l4_off pkt; ofs = unat off in
      if off > CALY_MAX_HDR_OFF then Some (STAT_DROP_L4_TRUNC, pkt, icmp_tc)
      else if has_flag (pk_flags pkt) CALY_PKT_F_FRAG \<and> pk_frag_off pkt \<noteq> 0 then
        Some (CALY_PARSE_OK, pkt\<lparr>pk_flags := pk_flags pkt OR CALY_PKT_F_L4_TRUNC,
                                 pk_payload_off := off\<rparr>, icmp_tc)
      else if pk_proto pkt = CALY_IPPROTO_TCP then
        (if ofs + 20 > length d then Some (STAT_DROP_L4_TRUNC, pkt, icmp_tc)
         else do {
           source \<leftarrow> ld16 d ofs; dest \<leftarrow> ld16 d (ofs + 2);
           doff_res \<leftarrow> ld8 d (ofs + 12); fl \<leftarrow> ld8 d (ofs + 13);
           let pkt = pkt\<lparr>pk_sport := source, pk_dport := dest, pk_tcp_flags := ucast fl\<rparr>;
           let doff = ucast (drop_bit 4 doff_res);
           let min_doff = (if cfg_tcp_min_doff cfg < 5 \<or> cfg_tcp_min_doff cfg > 15 then 5
                           else cfg_tcp_min_doff cfg);
           if has_flag (cfg_flags cfg) CALY_F_ANOMALY_CHECKS \<and> doff < min_doff
             then Some (STAT_DROP_TCP_DOFF, pkt, icmp_tc)
           else if has_flag (cfg_flags cfg) CALY_F_ANOMALY_CHECKS \<and> off + doff * 4 > pk_pkt_len pkt
             then Some (STAT_DROP_TCP_DOFF, pkt, icmp_tc)
           else
             let doff = (if doff < 5 then 5 else doff)
             in Some (CALY_PARSE_OK, pkt\<lparr>pk_payload_off := off + doff * 4\<rparr>, icmp_tc) })
      else if pk_proto pkt = CALY_IPPROTO_UDP then
        (if ofs + 8 > length d then Some (STAT_DROP_L4_TRUNC, pkt, icmp_tc)
         else do {
           source \<leftarrow> ld16 d ofs; dest \<leftarrow> ld16 d (ofs + 2);
           Some (CALY_PARSE_OK, pkt\<lparr>pk_sport := source, pk_dport := dest,
                                    pk_payload_off := off + 8\<rparr>, icmp_tc) })
      else if pk_proto pkt = CALY_IPPROTO_ICMP \<or> pk_proto pkt = CALY_IPPROTO_ICMPV6 then
        (if ofs + 8 > length d then Some (STAT_DROP_L4_TRUNC, pkt, icmp_tc)
         else do {
           ty \<leftarrow> ld8 d ofs; co \<leftarrow> ld8 d (ofs + 1);
           Some (CALY_PARSE_OK, pkt\<lparr>pk_payload_off := off + 8\<rparr>,
                 push_bit 8 (ucast ty) OR ucast co) })
      else Some (CALY_PARSE_OK, pkt\<lparr>pk_payload_off := off\<rparr>, icmp_tc))"

text \<open>The fragment policy and the layer-4 length of an IPv4 header that passed the checks.\<close>

definition ip4_finish ::
  "pkt_ctx \<Rightarrow> fw_config \<Rightarrow> u32 \<Rightarrow> u32 \<Rightarrow> u32 \<Rightarrow> u32 \<Rightarrow> u8 \<Rightarrow> l3_step" where
  "ip4_finish pkt cfg l3_off ihl tot_len raw_frag protocol =
     (let flags = cfg_flags cfg;
          frag_off = raw_frag AND 0x1FFF;
          more = has_flag raw_frag 0x2000;
          isfrag = (frag_off \<noteq> 0 \<or> more);
          pkt = (if isfrag then
                   pkt\<lparr>pk_flags := pk_flags pkt OR CALY_PKT_F_FRAG OR
                                   (if frag_off = 0 then CALY_PKT_F_FRAG_FIRST else 0),
                       pk_frag_off := frag_off\<rparr>
                 else pkt);
          l4_total = tot_len - ihl * 4
      in if isfrag \<and> has_flag flags CALY_F_DROP_ALL_FRAGS then Ret STAT_DROP_FRAG_POLICY pkt
         else if isfrag \<and> has_flag flags CALY_F_FRAG_CHECKS \<and> frag_off = 1
           then Ret STAT_DROP_FRAG_OFF_ONE pkt
         else if isfrag \<and> has_flag flags CALY_F_FRAG_CHECKS \<and> more \<and>
                 cfg_frag_min_bytes cfg \<noteq> 0 \<and> l4_total < cfg_frag_min_bytes cfg
           then Ret STAT_DROP_FRAG_TINY pkt
         else Cont (pkt\<lparr>pk_l4_len := ucast (if l4_total > 0xFFFF then 0xFFFF else l4_total)\<rparr>)
                (l3_off + ihl * 4) protocol)"

text \<open>The IPv4 branch of \<open>caly_parse_l3\<close>, up to the layer-4 offset.\<close>

definition parse_ip4 :: "bytes \<Rightarrow> pkt_ctx \<Rightarrow> fw_config \<Rightarrow> u32 \<Rightarrow> u32 \<Rightarrow> l3_step option" where
  "parse_ip4 d pkt cfg l3_off trunc_reason =
     (let ofs = unat l3_off; flags = cfg_flags cfg in
      if ofs + 20 > length d then Some (Ret trunc_reason pkt)
      else do {
        ver_ihl \<leftarrow> ld8 d ofs; tot \<leftarrow> ld16 d (ofs + 2); fro \<leftarrow> ld16 d (ofs + 6);
        ttl \<leftarrow> ld8 d (ofs + 8); protocol \<leftarrow> ld8 d (ofs + 9);
        saddr \<leftarrow> ld32 d (ofs + 12); daddr \<leftarrow> ld32 d (ofs + 16);
        let ihl = (ucast (ver_ihl AND 0x0F) :: u32);
        let tot_len = (ucast (ntohs tot) :: u32);
        if drop_bit 4 ver_ihl \<noteq> 4 then Some (Ret STAT_DROP_L3_UNKNOWN pkt)
        else if ihl < 5 then Some (Ret STAT_DROP_IP4_IHL pkt)
        else if tot_len < ihl * 4 then Some (Ret STAT_DROP_IP4_TOTLEN pkt)
        else if has_flag flags CALY_F_ANOMALY_CHECKS \<and> l3_off + tot_len > pk_pkt_len pkt
          then Some (Ret STAT_DROP_IP4_TOTLEN pkt)
        else if ihl > 5 \<and> has_flag flags CALY_F_DROP_IP4_OPTIONS
          then Some (Ret STAT_DROP_IP4_OPTIONS pkt)
        else if ttl = 0 then Some (Ret STAT_DROP_TTL_ZERO pkt)
        else if has_flag flags CALY_F_TTL_CHECK \<and> cfg_ip_min_ttl cfg \<noteq> 0 \<and>
                ucast ttl < cfg_ip_min_ttl cfg
          then Some (Ret STAT_DROP_TTL_LOW pkt)
        else Some (ip4_finish (pkt\<lparr>pk_family := CALY_AF_INET, pk_saddr := Quad saddr 0 0 0,
                                    pk_daddr := Quad daddr 0 0 0\<rparr>)
                     cfg l3_off ihl tot_len (ucast (ntohs fro)) protocol) })"

text \<open>One extension header of type \<open>nh\<close> at \<open>off\<close>, after the bounds check.\<close>

definition ip6_ext_one :: "bytes \<Rightarrow> u64 \<Rightarrow> u8 \<Rightarrow> u32 \<Rightarrow> pkt_ctx \<Rightarrow> l3_step option" where
  "ip6_ext_one d flags nh off pkt = do {
     let ofs = unat off;
     nexthdr \<leftarrow> ld8 d ofs; hdrlen \<leftarrow> ld8 d (ofs + 1); data0 \<leftarrow> ld8 d (ofs + 2); data1 \<leftarrow> ld8 d (ofs + 3);
     let next = (\<lambda>pkt hdr_bytes. Some (Cont pkt (off + (if hdr_bytes < 8 then 8 else hdr_bytes)) nexthdr));
     if nh = CALY_IPPROTO_ROUTING then
       (if has_flag flags CALY_F_DROP_RH0 \<and> data0 = 0 then Some (Ret STAT_DROP_IP6_RH0 pkt)
        else next pkt ((ucast hdrlen + 1) * 8))
     else if nh = CALY_IPPROTO_FRAGMENT then
       (let fo = push_bit 8 (ucast data0) OR ucast data1;
            frag_off = drop_bit 3 fo;
            pkt = pkt\<lparr>pk_flags := pk_flags pkt OR CALY_PKT_F_FRAG OR
                                  (if frag_off = 0 then CALY_PKT_F_FRAG_FIRST else 0),
                      pk_frag_off := frag_off\<rparr>
        in if has_flag flags CALY_F_DROP_ALL_FRAGS then Some (Ret STAT_DROP_FRAG_POLICY pkt)
           else if has_flag flags CALY_F_FRAG_CHECKS \<and> frag_off = 1
             then Some (Ret STAT_DROP_FRAG_OFF_ONE pkt)
           else next pkt 8)
     else if nh = CALY_IPPROTO_AH then next pkt ((ucast hdrlen + 2) * 4)
     else next pkt ((ucast hdrlen + 1) * 8) }"

function ip6_ext_loop ::
  "bytes \<Rightarrow> u64 \<Rightarrow> u32 \<Rightarrow> nat \<Rightarrow> u8 \<Rightarrow> u32 \<Rightarrow> pkt_ctx \<Rightarrow> l3_step option" where
  "ip6_ext_loop d flags ext_max i nh off pkt =
     (if i < unat CALY_IP6_EXT_MAX then
        if of_nat i \<ge> ext_max then Some (Cont pkt off nh)
        else if \<not> caly_ip6_is_ext nh then Some (Cont pkt off nh)
        else if off > CALY_MAX_HDR_OFF then Some (Ret STAT_DROP_IP6_EXT_DEPTH pkt)
        else if unat off + 8 > length d then Some (Ret STAT_DROP_IP6_EXT_TRUNC pkt)
        else (case ip6_ext_one d flags nh off pkt of
                None \<Rightarrow> None
              | Some (Ret rc pkt) \<Rightarrow> Some (Ret rc pkt)
              | Some (Cont pkt off nh) \<Rightarrow>
                  if nh = CALY_IPPROTO_NONE then Some (Cont pkt off nh)
                  else ip6_ext_loop d flags ext_max (i + 1) nh off pkt)
      else Some (Cont pkt off nh))"
  by pat_completeness auto
termination by (relation "measure (\<lambda>(_, _, _, i, _). unat CALY_IP6_EXT_MAX - i)") auto

declare ip6_ext_loop.simps [simp del]

text \<open>What follows the extension loop: the depth checks and the layer-4 length.\<close>

definition ip6_finish :: "u32 \<Rightarrow> u32 \<Rightarrow> l3_step \<Rightarrow> l3_step" where
  "ip6_finish plen l3_off st =
     (case st of
        Ret rc pkt \<Rightarrow> Ret rc pkt
      | Cont pkt off nh \<Rightarrow>
          if caly_ip6_is_ext nh then Ret STAT_DROP_IP6_EXT_DEPTH pkt
          else if off > CALY_MAX_HDR_OFF then Ret STAT_DROP_IP6_EXT_DEPTH pkt
          else
            let l4_total = plen + 40 - (off - l3_off);
                l4_len = (if plen \<noteq> 0 \<and> off \<ge> l3_off + 40 \<and> plen + 40 > off - l3_off
                          then ucast (if l4_total > 0xFFFF then 0xFFFF else l4_total) else 0)
            in Cont (pkt\<lparr>pk_l4_len := l4_len\<rparr>) off nh)"

text \<open>The IPv6 branch of \<open>caly_parse_l3\<close>.\<close>

definition parse_ip6 :: "bytes \<Rightarrow> pkt_ctx \<Rightarrow> fw_config \<Rightarrow> u32 \<Rightarrow> u32 \<Rightarrow> l3_step option" where
  "parse_ip6 d pkt cfg l3_off trunc_reason =
     (let ofs = unat l3_off; flags = cfg_flags cfg in
      if ofs + 40 > length d then Some (Ret trunc_reason pkt)
      else do {
        ver_tc \<leftarrow> ld8 d ofs; pl \<leftarrow> ld16 d (ofs + 4); nexthdr \<leftarrow> ld8 d (ofs + 6); hop \<leftarrow> ld8 d (ofs + 7);
        s0 \<leftarrow> ld32 d (ofs + 8); s1 \<leftarrow> ld32 d (ofs + 12); s2 \<leftarrow> ld32 d (ofs + 16); s3 \<leftarrow> ld32 d (ofs + 20);
        d0 \<leftarrow> ld32 d (ofs + 24); d1 \<leftarrow> ld32 d (ofs + 28); d2 \<leftarrow> ld32 d (ofs + 32); d3 \<leftarrow> ld32 d (ofs + 36);
        let plen = (ucast (ntohs pl) :: u32);
        if drop_bit 4 ver_tc \<noteq> 6 then Some (Ret STAT_DROP_L3_UNKNOWN pkt)
        else if hop = 0 then Some (Ret STAT_DROP_TTL_ZERO pkt)
        else if has_flag flags CALY_F_TTL_CHECK \<and> cfg_ip_min_ttl cfg \<noteq> 0 \<and>
                ucast hop < cfg_ip_min_ttl cfg
          then Some (Ret STAT_DROP_TTL_LOW pkt)
        else if has_flag flags CALY_F_ANOMALY_CHECKS \<and> plen \<noteq> 0 \<and> l3_off + 40 + plen > pk_pkt_len pkt
          then Some (Ret trunc_reason pkt)
        else do {
          let pkt = pkt\<lparr>pk_family := CALY_AF_INET6, pk_saddr := Quad s0 s1 s2 s3,
                        pk_daddr := Quad d0 d1 d2 d3\<rparr>;
          let ext_max = (if cfg_ip6_ext_max cfg > CALY_IP6_EXT_MAX then CALY_IP6_EXT_MAX
                         else cfg_ip6_ext_max cfg);
          st \<leftarrow> ip6_ext_loop d flags ext_max 0 nexthdr (l3_off + 40) pkt;
          Some (ip6_finish plen l3_off st) } })"

definition parse_gre :: "bytes \<Rightarrow> u32 \<Rightarrow> gre_out option" where
  "parse_gre d off =
     (if off > CALY_MAX_HDR_OFF then Some (GreRet STAT_DROP_TUNNEL_TRUNC)
      else if unat off + 4 > length d then Some (GreRet STAT_DROP_TUNNEL_TRUNC)
      else do {
        fv \<leftarrow> ld16 d (unat off); pr \<leftarrow> ld16 d (unat off + 2);
        let gflags = (ucast (ntohs fv) :: u32);
        let glen = 4 + (if has_flag gflags CALY_GRE_F_CSUM then 4 else 0)
                     + (if has_flag gflags CALY_GRE_F_KEY then 4 else 0)
                     + (if has_flag gflags CALY_GRE_F_SEQ then 4 else 0);
        let ethp = (ucast (ntohs pr) :: u32);
        if has_flag gflags (CALY_GRE_F_ROUTING OR CALY_GRE_F_SSR)
          then Some (GreRet STAT_DROP_GRE_MALFORMED)
        else if has_flag gflags CALY_GRE_VER_MASK then Some GreNone
        else if ethp \<noteq> CALY_ETH_P_IP \<and> ethp \<noteq> CALY_ETH_P_IPV6 then Some GreNone
        else Some (GreTunnel (off + glen) (ucast ethp)) })"

text \<open>What follows the address-family branches: the tunnel dispatch, then layer 4.\<close>

definition l3_finish :: "bytes \<Rightarrow> fw_config \<Rightarrow> bool \<Rightarrow> u32 \<Rightarrow> l3_step \<Rightarrow> l3_result option" where
  "l3_finish d cfg allow_tunnel icmp_tc st =
     (case st of
        Ret rc pkt \<Rightarrow> Some (L3_Done rc pkt icmp_tc)
      | Cont pkt off proto \<Rightarrow>
          let pkt = pkt\<lparr>pk_l4_off := off, pk_proto := ucast proto\<rparr>;
              l4 = do { (rc, pkt, tc) \<leftarrow> caly_parse_l4 d pkt cfg icmp_tc;
                        Some (L3_Done rc pkt tc) }
          in if caly_is_tunnel_proto proto \<and> allow_tunnel then
               if proto = CALY_IPPROTO_IPIP then Some (L3_Tunnel pkt off CALY_ETH_P_IP)
               else if proto = CALY_IPPROTO_IPV6 then Some (L3_Tunnel pkt off CALY_ETH_P_IPV6)
               else (case parse_gre d off of
                       None \<Rightarrow> None
                     | Some (GreRet rc) \<Rightarrow> Some (L3_Done rc pkt icmp_tc)
                     | Some (GreTunnel ioff iproto) \<Rightarrow> Some (L3_Tunnel pkt ioff iproto)
                     | Some GreNone \<Rightarrow> l4)
             else l4)"

definition caly_parse_l3 ::
  "bytes \<Rightarrow> pkt_ctx \<Rightarrow> fw_config \<Rightarrow> u32 \<Rightarrow> u16 \<Rightarrow> bool \<Rightarrow> bool \<Rightarrow> u32 \<Rightarrow> l3_result option" where
  "caly_parse_l3 d pkt cfg l3_off l3_proto allow_tunnel is_inner icmp_tc =
     (let trunc_reason = (if is_inner then STAT_DROP_TUNNEL_TRUNC else STAT_DROP_IP4_TRUNC) in
      if l3_off > CALY_MAX_HDR_OFF then Some (L3_Done trunc_reason pkt icmp_tc)
      else
        let pkt = pkt\<lparr>pk_l3_off := l3_off, pk_saddr := Quad 0 0 0 0, pk_daddr := Quad 0 0 0 0,
                      pk_sport := 0, pk_dport := 0, pk_tcp_flags := 0, pk_frag_off := 0,
                      pk_flags := pk_flags pkt AND
                        NOT (CALY_PKT_F_FRAG OR CALY_PKT_F_FRAG_FIRST OR CALY_PKT_F_L4_TRUNC)\<rparr>
        in do {
          st \<leftarrow> (if l3_proto = CALY_ETH_P_IP then parse_ip4 d pkt cfg l3_off trunc_reason
                else if l3_proto = CALY_ETH_P_IPV6 then
                  parse_ip6 d pkt cfg l3_off
                    (if is_inner then STAT_DROP_TUNNEL_TRUNC else STAT_DROP_IP6_TRUNC)
                else Some (Ret STAT_DROP_L3_UNKNOWN pkt));
          l3_finish d cfg allow_tunnel icmp_tc st })"

text \<open>The loop of \<open>caly_xdp_parse\<close> over at most \<open>CALY_TUNNEL_MAX_DEPTH + 1\<close> headers: the return
  code, the descriptor and the ICMP word.\<close>

function tunnel_loop ::
  "bytes \<Rightarrow> fw_config \<Rightarrow> nat \<Rightarrow> u32 \<Rightarrow> u16 \<Rightarrow> pkt_ctx \<Rightarrow> u32 \<Rightarrow> (u32 \<times> pkt_ctx \<times> u32) option" where
  "tunnel_loop d cfg i cur_off cur_proto pkt icmp_tc =
     (if i < unat CALY_TUNNEL_MAX_DEPTH + 1 then
        let tun_max = (if cfg_tunnel_max_depth cfg > CALY_TUNNEL_MAX_DEPTH then CALY_TUNNEL_MAX_DEPTH
                       else cfg_tunnel_max_depth cfg);
            allow_tun = (has_flag (cfg_flags cfg) CALY_F_TUNNEL_INSPECT \<and> of_nat i < tun_max)
        in (case caly_parse_l3 d pkt cfg cur_off cur_proto allow_tun (i > 0) icmp_tc of
              None \<Rightarrow> None
            | Some (L3_Done rc pkt tc) \<Rightarrow> Some (rc, pkt, tc)
            | Some (L3_Tunnel pkt nxt_off nxt_proto) \<Rightarrow>
                tunnel_loop d cfg (i + 1) nxt_off nxt_proto
                  (pkt\<lparr>pk_tunnel_depth := of_nat i + 1,
                       pk_flags := pk_flags pkt OR CALY_PKT_F_TUNNELED\<rparr>) icmp_tc)
      else Some (STAT_DROP_TUNNEL_DEPTH, pkt, icmp_tc))"
  by pat_completeness auto
termination by (relation "measure (\<lambda>(_, _, i, _). unat CALY_TUNNEL_MAX_DEPTH + 1 - i)") auto

declare tunnel_loop.simps [simp del]

section \<open>No read outside the frame\<close>

text \<open>Contracts of the header parsers: they are defined, and they return only drop codes.\<close>

definition l3_ok :: "l3_step option \<Rightarrow> bool" where
  "l3_ok r \<longleftrightarrow> (case r of None \<Rightarrow> False | Some (Ret rc _) \<Rightarrow> stat_reason_is_drop rc | Some (Cont _ _ _) \<Rightarrow> True)"

lemma l3_ok_simps [simp]:
  "l3_ok (Some (Ret rc p)) = stat_reason_is_drop rc" "l3_ok (Some (Cont p off nh))" "\<not> l3_ok None"
  by (simp_all add: l3_ok_def)

lemma l3_okE:
  assumes "l3_ok r"
  obtains rc p where "r = Some (Ret rc p)" "stat_reason_is_drop rc"
    | p off nh where "r = Some (Cont p off nh)"
  using assms by (auto simp: l3_ok_def split: option.splits l3_step.splits)

lemma ip4_finish_ok: "l3_ok (Some (ip4_finish p cfg l3_off ihl tot fro proto))"
  by (simp add: ip4_finish_def Let_def stat_reason_is_drop_def)

lemma parse_ip4_ok:
  "stat_reason_is_drop t \<Longrightarrow> l3_ok (parse_ip4 d pkt cfg l3_off t)"
  by (simp add: parse_ip4_def Let_def load_simps ip4_finish_ok stat_reason_is_drop_def)

lemma ip6_ext_one_ok: "unat off + 8 \<le> length d \<Longrightarrow> l3_ok (ip6_ext_one d flags nh off pkt)"
  by (simp add: ip6_ext_one_def Let_def load_simps stat_reason_is_drop_def)

lemma ip6_ext_loop_ok: "l3_ok (ip6_ext_loop d flags ext_max i nh off pkt)"
proof (induction d flags ext_max i nh off pkt rule: ip6_ext_loop.induct)
  case (1 d flags ext_max i nh off pkt)
  show ?case
  proof (cases "i < unat CALY_IP6_EXT_MAX \<and> \<not> of_nat i \<ge> ext_max \<and> caly_ip6_is_ext nh \<and>
                \<not> off > CALY_MAX_HDR_OFF \<and> unat off + 8 \<le> length d")
    case True
    then have "l3_ok (ip6_ext_one d flags nh off pkt)" by (simp add: ip6_ext_one_ok)
    then show ?thesis
    proof (cases rule: l3_okE)
      case (1 rc p)
      with True show ?thesis by (subst ip6_ext_loop.simps) simp
    next
      case (2 p off' nh')
      with True "1" show ?thesis by (subst ip6_ext_loop.simps) (auto dest: leD)
    qed
  next
    case False
    then show ?thesis
      by (subst ip6_ext_loop.simps) (auto simp: stat_reason_is_drop_def)
  qed
qed

lemma ip6_finish_ok: "l3_ok (Some st) \<Longrightarrow> l3_ok (Some (ip6_finish plen l3_off st))"
  by (cases st) (simp_all add: ip6_finish_def Let_def stat_reason_is_drop_def)

lemma parse_ip6_ok:
  assumes "stat_reason_is_drop t"
  shows "l3_ok (parse_ip6 d pkt cfg l3_off t)"
proof -
  have "l3_ok (ip6_ext_loop d f m i nh off p \<bind> (\<lambda>st. Some (ip6_finish plen l3_off st)))"
    for f m i nh off p plen
    using ip6_ext_loop_ok [of d f m i nh off p] ip6_finish_ok
    by (cases "ip6_ext_loop d f m i nh off p") simp_all
  then show ?thesis
    using assms by (simp add: parse_ip6_def Let_def load_simps stat_reason_is_drop_def)
qed

lemma parse_gre_ok:
  obtains rc where "parse_gre d off = Some (GreRet rc)" "stat_reason_is_drop rc"
  | io ip where "parse_gre d off = Some (GreTunnel io ip)"
  | "parse_gre d off = Some GreNone"
proof (cases "off > CALY_MAX_HDR_OFF \<or> unat off + 4 > length d")
  case True
  then have "parse_gre d off = Some (GreRet STAT_DROP_TUNNEL_TRUNC)"
    by (auto simp: parse_gre_def)
  with that(1) show ?thesis by (simp add: stat_reason_is_drop_def)
next
  case False
  then have "\<exists>r. parse_gre d off = Some r \<and>
    (r = GreRet STAT_DROP_GRE_MALFORMED \<or> (\<exists>io ip. r = GreTunnel io ip) \<or> r = GreNone)"
    by (simp add: parse_gre_def Let_def load_simps)
  then show ?thesis using that by (auto simp: stat_reason_is_drop_def)
qed

lemma parse_l4_ok:
  obtains rc p tc where "caly_parse_l4 d pkt cfg icmp_tc = Some (rc, p, tc)"
    "rc = CALY_PARSE_OK \<or> stat_reason_is_drop rc"
proof -
  have "\<exists>r. caly_parse_l4 d pkt cfg icmp_tc = Some r \<and> (fst r = CALY_PARSE_OK \<or> stat_reason_is_drop (fst r))"
    by (simp add: caly_parse_l4_def Let_def load_simps stat_reason_is_drop_def)
  then show ?thesis using that by (metis fst_conv surj_pair)
qed

text \<open>The contract of \<open>caly_parse_l3\<close>.\<close>

definition l3_result_ok :: "l3_result option \<Rightarrow> bool" where
  "l3_result_ok r \<longleftrightarrow> (case r of None \<Rightarrow> False
     | Some (L3_Done rc _ _) \<Rightarrow> rc = CALY_PARSE_OK \<or> stat_reason_is_drop rc
     | Some (L3_Tunnel _ _ _) \<Rightarrow> True)"

lemma l3_result_ok_simps [simp]:
  "l3_result_ok (Some (L3_Done rc p tc)) \<longleftrightarrow> rc = CALY_PARSE_OK \<or> stat_reason_is_drop rc"
  "l3_result_ok (Some (L3_Tunnel p io ip))" "\<not> l3_result_ok None"
  by (simp_all add: l3_result_ok_def)

lemma parse_l4_result_ok:
  "l3_result_ok (caly_parse_l4 d p cfg tc \<bind> (\<lambda>(rc, pkt, tc). Some (L3_Done rc pkt tc)))"
  using parse_l4_ok [of d p cfg tc] by (metis bind.bind_lunit case_prod_conv l3_result_ok_simps(1))

lemma l3_finish_ok: "l3_ok (Some st) \<Longrightarrow> l3_result_ok (l3_finish d cfg allow tc st)"
proof (cases st)
  case (Cont p off proto)
  then show ?thesis
    using parse_l4_result_ok
    by (cases rule: parse_gre_ok [of d off]) (simp_all add: l3_finish_def Let_def)
qed (simp add: l3_finish_def)

lemma parse_l3_ok: "l3_result_ok (caly_parse_l3 d pkt cfg l3_off l3_proto allow inner tc)"
proof -
  have tr: "stat_reason_is_drop STAT_DROP_TUNNEL_TRUNC" "stat_reason_is_drop STAT_DROP_IP4_TRUNC"
    "stat_reason_is_drop STAT_DROP_IP6_TRUNC" "stat_reason_is_drop STAT_DROP_L3_UNKNOWN"
    by (simp_all add: stat_reason_is_drop_def)
  have bind: "l3_ok r \<Longrightarrow> l3_result_ok (r \<bind> l3_finish d cfg allow tc)" for r
    using l3_finish_ok by (cases r) simp_all
  show ?thesis
    unfolding caly_parse_l3_def Let_def
    using tr by (auto intro!: bind parse_ip4_ok parse_ip6_ok l3_finish_ok)
qed

lemma tunnel_loop_ok:
  "\<exists>rc p tc'. tunnel_loop d cfg i off proto pkt tc = Some (rc, p, tc') \<and>
              (rc = CALY_PARSE_OK \<or> stat_reason_is_drop rc)"
proof (induction d cfg i off proto pkt tc rule: tunnel_loop.induct)
  case (1 d cfg i off proto pkt tc)
  define a where "a = (has_flag (cfg_flags cfg) CALY_F_TUNNEL_INSPECT \<and> of_nat i <
     (if cfg_tunnel_max_depth cfg > CALY_TUNNEL_MAX_DEPTH then CALY_TUNNEL_MAX_DEPTH
      else cfg_tunnel_max_depth cfg))"
  show ?case
  proof (cases "i < unat CALY_TUNNEL_MAX_DEPTH + 1")
    case False
    then show ?thesis by (subst tunnel_loop.simps) (simp add: stat_reason_is_drop_def)
  next
    case True
    have "l3_result_ok (caly_parse_l3 d pkt cfg off proto a (i > 0) tc)" by (rule parse_l3_ok)
    then show ?thesis
    proof (cases "caly_parse_l3 d pkt cfg off proto a (i > 0) tc")
      case (Some r)
      show ?thesis
      proof (cases r)
        case (L3_Done rc p tc')
        with Some True \<open>l3_result_ok _\<close> show ?thesis
          by (subst tunnel_loop.simps) (simp add: a_def)
      next
        case (L3_Tunnel p io ip)
        with Some True "1" [OF True refl, of a] show ?thesis
          by (subst tunnel_loop.simps) (simp add: a_def)
      qed
    qed simp
  qed
qed

section \<open>Fragments carry no ports\<close>

text \<open>What holds of the descriptor between the address-family branch and layer 4.\<close>

definition frag_inv :: "fw_config \<Rightarrow> pkt_ctx \<Rightarrow> bool" where
  "frag_inv cfg p \<longleftrightarrow>
     pk_sport p = 0 \<and> pk_dport p = 0 \<and> pk_tcp_flags p = 0 \<and>
     (pk_frag_off p \<noteq> 0 \<longrightarrow> has_flag (pk_flags p) CALY_PKT_F_FRAG) \<and>
     (has_flag (cfg_flags cfg) CALY_F_DROP_ALL_FRAGS \<longrightarrow> \<not> has_flag (pk_flags p) CALY_PKT_F_FRAG) \<and>
     (has_flag (cfg_flags cfg) CALY_F_FRAG_CHECKS \<longrightarrow> pk_frag_off p \<noteq> 1)"

definition cont_inv :: "fw_config \<Rightarrow> l3_step option \<Rightarrow> bool" where
  "cont_inv cfg r \<longleftrightarrow> (\<forall>p off nh. r = Some (Cont p off nh) \<longrightarrow> frag_inv cfg p)"

lemma cont_inv_simps [simp]:
  "cont_inv cfg (Some (Ret rc p))" "cont_inv cfg None"
  "cont_inv cfg (Some (Cont p off nh)) \<longleftrightarrow> frag_inv cfg p"
  by (simp_all add: cont_inv_def)

lemma ip4_finish_frag: "frag_inv cfg p \<Longrightarrow> \<not> has_flag (pk_flags p) CALY_PKT_F_FRAG \<Longrightarrow>
    cont_inv cfg (Some (ip4_finish p cfg l3_off ihl tot fro proto))"
  by (auto simp: ip4_finish_def Let_def frag_inv_def)

lemma parse_ip4_frag: "frag_inv cfg p \<Longrightarrow> \<not> has_flag (pk_flags p) CALY_PKT_F_FRAG \<Longrightarrow>
    cont_inv cfg (parse_ip4 d p cfg l3_off t)"
  by (cases "unat l3_off + 20 > length d")
    (simp_all add: parse_ip4_def Let_def load_simps ip4_finish_frag frag_inv_def)

lemma ip6_ext_one_frag: "frag_inv cfg p \<Longrightarrow> unat off + 8 \<le> length d \<Longrightarrow>
    cont_inv cfg (ip6_ext_one d (cfg_flags cfg) nh off p)"
  by (auto simp: ip6_ext_one_def Let_def load_simps frag_inv_def)

lemma ip6_ext_loop_frag:
  "frag_inv cfg p \<Longrightarrow> cont_inv cfg (ip6_ext_loop d (cfg_flags cfg) m i nh off p)"
proof (induction d "cfg_flags cfg" m i nh off p rule: ip6_ext_loop.induct)
  case (1 d m i nh off p)
  show ?case
  proof (cases "i < unat CALY_IP6_EXT_MAX \<and> \<not> of_nat i \<ge> m \<and> caly_ip6_is_ext nh \<and>
                \<not> off > CALY_MAX_HDR_OFF \<and> unat off + 8 \<le> length d")
    case True
    then have one: "cont_inv cfg (ip6_ext_one d (cfg_flags cfg) nh off p)"
      using "1.prems" by (simp add: ip6_ext_one_frag)
    have "l3_ok (ip6_ext_one d (cfg_flags cfg) nh off p)"
      using True by (simp add: ip6_ext_one_ok)
    then show ?thesis
    proof (cases rule: l3_okE)
      case (1 rc q)
      with True show ?thesis by (subst ip6_ext_loop.simps) (auto dest: leD)
    next
      case (2 q off' nh')
      with True one "1.hyps" show ?thesis by (subst ip6_ext_loop.simps) (auto dest: leD)
    qed
  next
    case False
    with "1.prems" show ?thesis by (subst ip6_ext_loop.simps) auto
  qed
qed

lemma ip6_finish_frag: "cont_inv cfg (Some st) \<Longrightarrow> cont_inv cfg (Some (ip6_finish plen l3_off st))"
  by (cases st) (simp_all add: ip6_finish_def Let_def frag_inv_def)

lemma parse_ip6_frag:
  assumes "frag_inv cfg p"
  shows "cont_inv cfg (parse_ip6 d p cfg l3_off t)"
proof -
  have "cont_inv cfg (ip6_ext_loop d (cfg_flags cfg) m i nh off q \<bind> (\<lambda>st. Some (ip6_finish plen l3_off st)))"
    if "frag_inv cfg q" for m i nh off q plen
    using ip6_ext_loop_frag [OF that, of d m i nh off] ip6_finish_frag
    by (cases "ip6_ext_loop d (cfg_flags cfg) m i nh off q") simp_all
  then show ?thesis
    using assms by (cases "unat l3_off + 40 > length d")
      (simp_all add: parse_ip6_def Let_def load_simps frag_inv_def)
qed

text \<open>What layer 4 makes of it.\<close>

definition frag_clean :: "fw_config \<Rightarrow> pkt_ctx \<Rightarrow> bool" where
  "frag_clean cfg p \<longleftrightarrow>
     (has_flag (pk_flags p) CALY_PKT_F_FRAG \<and> pk_frag_off p \<noteq> 0 \<longrightarrow>
        pk_sport p = 0 \<and> pk_dport p = 0 \<and> pk_tcp_flags p = 0 \<and>
        has_flag (pk_flags p) CALY_PKT_F_L4_TRUNC) \<and>
     (has_flag (cfg_flags cfg) CALY_F_DROP_ALL_FRAGS \<longrightarrow> \<not> has_flag (pk_flags p) CALY_PKT_F_FRAG) \<and>
     (has_flag (cfg_flags cfg) CALY_F_FRAG_CHECKS \<longrightarrow> pk_frag_off p \<noteq> 1)"

lemma eqF: "\<not> P \<Longrightarrow> P = False"
  by simp

lemma parse_l4_keeps:
  assumes "\<not> (has_flag (pk_flags p) CALY_PKT_F_FRAG \<and> pk_frag_off p \<noteq> 0)"
    and "caly_parse_l4 d p cfg tc = Some (rc, q, tc')"
  shows "pk_flags q = pk_flags p \<and> pk_frag_off q = pk_frag_off p"
proof -
  have "\<exists>r. caly_parse_l4 d p cfg tc = Some r \<and> pk_flags (fst (snd r)) = pk_flags p \<and>
    pk_frag_off (fst (snd r)) = pk_frag_off p"
    unfolding caly_parse_l4_def Let_def assms(1) [THEN eqF] if_False
    by (simp add: load_simps)
  with assms(2) show ?thesis by simp
qed

lemma parse_l4_frag:
  assumes "frag_inv cfg p" "caly_parse_l4 d p cfg tc = Some (CALY_PARSE_OK, q, tc')"
  shows "frag_clean cfg q"
proof (cases "has_flag (pk_flags p) CALY_PKT_F_FRAG \<and> pk_frag_off p \<noteq> 0")
  case True
  with assms show ?thesis
    by (auto simp: caly_parse_l4_def Let_def frag_inv_def frag_clean_def split: if_splits)
next
  case False
  with parse_l4_keeps [OF False assms(2)] assms(1) show ?thesis
    by (auto simp: frag_inv_def frag_clean_def)
qed

lemma l3_finish_frag:
  assumes "cont_inv cfg (Some st)" "l3_ok (Some st)"
    and "l3_finish d cfg allow tc st = Some (L3_Done CALY_PARSE_OK q tc')"
  shows "frag_clean cfg q"
proof (cases st)
  case (Ret rc p)
  with assms show ?thesis by (simp add: l3_finish_def stat_reason_is_drop_def)
next
  case (Cont p off proto)
  let ?p = "p\<lparr>pk_l4_off := off, pk_proto := ucast proto\<rparr>"
  have "frag_inv cfg ?p" using assms(1) Cont by (simp add: frag_inv_def)
  moreover have "caly_parse_l4 d ?p cfg tc = Some (CALY_PARSE_OK, q, tc')"
    using assms(3) Cont
    by (cases rule: parse_gre_ok [of d off])
      (auto simp: l3_finish_def Let_def bind_eq_Some_conv stat_reason_is_drop_def split: if_splits)
  ultimately show ?thesis by (rule parse_l4_frag)
qed

lemma parse_l3_frag:
  assumes "caly_parse_l3 d p cfg l3_off proto allow inner tc = Some (L3_Done CALY_PARSE_OK q tc')"
  shows "frag_clean cfg q"
proof -
  have tr: "stat_reason_is_drop STAT_DROP_TUNNEL_TRUNC" "stat_reason_is_drop STAT_DROP_IP4_TRUNC"
    "stat_reason_is_drop STAT_DROP_IP6_TRUNC" "stat_reason_is_drop STAT_DROP_L3_UNKNOWN"
    by (simp_all add: stat_reason_is_drop_def)
  define p0 where "p0 = p\<lparr>pk_l3_off := l3_off, pk_saddr := Quad 0 0 0 0, pk_daddr := Quad 0 0 0 0,
      pk_sport := 0, pk_dport := 0, pk_tcp_flags := 0, pk_frag_off := 0,
      pk_flags := pk_flags p AND
        NOT (CALY_PKT_F_FRAG OR CALY_PKT_F_FRAG_FIRST OR CALY_PKT_F_L4_TRUNC)\<rparr>"
  have nf: "\<not> has_flag (pk_flags p0) CALY_PKT_F_FRAG"
    by (simp add: p0_def has_flag_def and.assoc)
  then have inv: "frag_inv cfg p0" by (simp add: frag_inv_def p0_def)
  define st where "st = (if proto = CALY_ETH_P_IP
      then parse_ip4 d p0 cfg l3_off (if inner then STAT_DROP_TUNNEL_TRUNC else STAT_DROP_IP4_TRUNC)
    else if proto = CALY_ETH_P_IPV6
      then parse_ip6 d p0 cfg l3_off (if inner then STAT_DROP_TUNNEL_TRUNC else STAT_DROP_IP6_TRUNC)
    else Some (Ret STAT_DROP_L3_UNKNOWN p0))"
  have "l3_ok st" "cont_inv cfg st"
    using tr nf inv by (simp_all add: st_def parse_ip4_ok parse_ip6_ok parse_ip4_frag parse_ip6_frag)
  moreover have "st \<bind> l3_finish d cfg allow tc = Some (L3_Done CALY_PARSE_OK q tc')"
    using assms tr unfolding caly_parse_l3_def Let_def p0_def [symmetric] st_def [symmetric]
    by (auto simp: stat_reason_is_drop_def split: if_splits)
  ultimately show ?thesis
    by (cases st) (auto intro: l3_finish_frag)
qed

lemma tunnel_loop_frag:
  assumes "tunnel_loop d cfg i off proto p tc = Some (CALY_PARSE_OK, q, tc')"
  shows "frag_clean cfg q"
  using assms
proof (induction d cfg i off proto p tc rule: tunnel_loop.induct)
  case (1 d cfg i off proto p tc)
  from "1.prems" show ?case
    by (subst (asm) tunnel_loop.simps)
      (auto simp: Let_def split: if_splits option.splits l3_result.splits
        intro: parse_l3_frag "1.IH")
qed

section \<open>A well-formed frame\<close>

text \<open>Sixteen-bit values in network order, and the encoding of an IPv4/TCP segment without
  options behind an untagged Ethernet header.\<close>

definition be16 :: "u16 \<Rightarrow> bytes" where
  "be16 x = [ucast (drop_bit 8 x), ucast x]"

definition ip4_tcp_frame ::
  "u8 list \<Rightarrow> u8 \<Rightarrow> u16 \<Rightarrow> u8 \<Rightarrow> u16 \<Rightarrow> u8 \<times> u8 \<times> u8 \<times> u8 \<Rightarrow> u8 \<times> u8 \<times> u8 \<times> u8 \<Rightarrow>
   u16 \<Rightarrow> u16 \<Rightarrow> u8 list \<Rightarrow> u8 \<Rightarrow> u8 list \<Rightarrow> bytes \<Rightarrow> bytes" where
  "ip4_tcp_frame macs tos ident ttl csum s t sport dport seqack fl tail payload =
     macs @ be16 CALY_ETH_P_IP @ [0x45, tos] @ be16 (of_nat (40 + length payload)) @ be16 ident @
     be16 0x4000 @ [ttl, CALY_IPPROTO_TCP] @ be16 csum @
     (case s of (s0, s1, s2, s3) \<Rightarrow> [s0, s1, s2, s3]) @ (case t of (t0, t1, t2, t3) \<Rightarrow> [t0, t1, t2, t3]) @
     be16 sport @ be16 dport @ seqack @ [0x50, fl] @ tail @ payload"

lemma be16_simps [simp]: "length (be16 x) = 2" "be16 x ! 0 = ucast (drop_bit 8 x)" "be16 x ! Suc 0 = ucast x"
  by (simp_all add: be16_def)

lemma ntohs_be16: "ntohs (le16 (ucast (drop_bit 8 x)) (ucast x)) = x"
  unfolding ntohs_le16
  by (rule bit_word_eqI) (auto simp: bit_simps dest: bit_imp_le_length)

lemma ip4_tcp_frame_loads:
  assumes "length macs = 12" "length seqack = 8" "length tail = 6"
    and "d = ip4_tcp_frame macs tos ident ttl csum (s0, s1, s2, s3) (t0, t1, t2, t3) sport dport seqack fl tail payload"
  shows "length d = 54 + length payload" and "ld8 d 14 = Some 0x45"
    and "ld16 d 16 = Some (le16 (ucast (drop_bit 8 (of_nat (40 + length payload) :: u16)))
                             (ucast (of_nat (40 + length payload) :: u16)))"
    and "ld16 d 20 = Some (le16 0x40 0)" and "ld8 d 22 = Some ttl" and "ld8 d 23 = Some 6"
    and "ld32 d 26 = Some (le32 s0 s1 s2 s3)" and "ld32 d 30 = Some (le32 t0 t1 t2 t3)"
    and "ld16 d 34 = Some (le16 (ucast (drop_bit 8 sport)) (ucast sport))"
    and "ld16 d 36 = Some (le16 (ucast (drop_bit 8 dport)) (ucast dport))"
    and "ld8 d 46 = Some 0x50" and "ld8 d 47 = Some fl"
proof -
  have z: "(16384 :: u8) = 0" by (simp add: word_eq_iff_unsigned)
  show l: "length d = 54 + length payload" using assms by (simp add: ip4_tcp_frame_def)
  show "ld8 d 14 = Some 0x45"
    "ld16 d 16 = Some (le16 (ucast (drop_bit 8 (of_nat (40 + length payload) :: u16)))
                        (ucast (of_nat (40 + length payload) :: u16)))"
    "ld16 d 20 = Some (le16 0x40 0)" "ld8 d 22 = Some ttl" "ld8 d 23 = Some 6"
    "ld32 d 26 = Some (le32 s0 s1 s2 s3)" "ld32 d 30 = Some (le32 t0 t1 t2 t3)"
    "ld16 d 34 = Some (le16 (ucast (drop_bit 8 sport)) (ucast sport))"
    "ld16 d 36 = Some (le16 (ucast (drop_bit 8 dport)) (ucast dport))"
    "ld8 d 46 = Some 0x50" "ld8 d 47 = Some fl"
    using assms l by (simp_all add: load_simps) (simp_all add: ip4_tcp_frame_def be16_def nth_append z)
qed

text \<open>What the parser makes of such a frame.\<close>

lemma ip4_tcp_parses:
  assumes "length macs = 12" "length seqack = 8" "length tail = 6" "length payload \<le> 65481"
    and "ttl \<noteq> 0" "\<not> has_flag (cfg_flags cfg) CALY_F_TTL_CHECK"
    and "cfg_tcp_min_doff cfg \<le> 5"
    and "pk_pkt_len p = of_nat (54 + length payload)"
    and "d = ip4_tcp_frame macs tos ident ttl csum (s0, s1, s2, s3) (t0, t1, t2, t3) sport dport seqack fl tail payload"
  shows "\<exists>q. tunnel_loop d cfg 0 14 CALY_ETH_P_IP p tc = Some (CALY_PARSE_OK, q, tc) \<and>
             pk_family q = CALY_AF_INET \<and> pk_proto q = CALY_IPPROTO_TCP \<and>
             pk_saddr q = Quad (le32 s0 s1 s2 s3) 0 0 0 \<and> pk_daddr q = Quad (le32 t0 t1 t2 t3) 0 0 0 \<and>
             ntohs (pk_sport q) = sport \<and> ntohs (pk_dport q) = dport \<and> pk_tcp_flags q = ucast fl \<and>
             pk_l4_off q = 34 \<and> pk_payload_off q = 54 \<and>
             pk_flags q = pk_flags p AND NOT (CALY_PKT_F_FRAG OR CALY_PKT_F_FRAG_FIRST OR CALY_PKT_F_L4_TRUNC) \<and>
             pk_ts_ns q = pk_ts_ns p \<and> pk_pkt_len q = pk_pkt_len p \<and> pk_ifindex q = pk_ifindex p"
proof -
  let ?n = "length payload"
  note ld = ip4_tcp_frame_loads [OF assms(1-3,9)]
  have tot: "(ucast (of_nat (40 + ?n) :: u16) :: u32) = of_nat (40 + ?n)"
    using assms(4) take_bit_nat_eq_self_iff [of 16 "40 + ?n"] by (simp only: unsigned_of_nat) simp
  have un: "unat (of_nat (40 + ?n) :: u32) = 40 + ?n" "unat (of_nat (54 + ?n) :: u32) = 54 + ?n"
    using assms(4) by (simp_all only: unsigned_of_nat) (simp_all add: take_bit_nat_eq_self_iff)
  have cmp: "\<not> (of_nat (40 + ?n) :: u32) < 20" "\<not> (of_nat (54 + ?n) :: u32) < 54"
    "\<not> (of_nat (54 + ?n) :: u32) < 14 + of_nat (40 + ?n)"
    using un by (simp_all only: word_less_nat_alt) simp_all
  have fr: "ntohs (le16 0x40 0) = 0x4000" by (simp add: ntohs_def le16_def)
  have md: "\<not> 5 < (if cfg_tcp_min_doff cfg < 5 \<or> cfg_tcp_min_doff cfg > 15 then 5
                     else cfg_tcp_min_doff cfg)"
    using assms(7) by auto
  define p0 where "p0 = p\<lparr>pk_l3_off := 14, pk_saddr := Quad 0 0 0 0, pk_daddr := Quad 0 0 0 0,
      pk_sport := 0, pk_dport := 0, pk_tcp_flags := 0, pk_frag_off := 0,
      pk_flags := pk_flags p AND
        NOT (CALY_PKT_F_FRAG OR CALY_PKT_F_FRAG_FIRST OR CALY_PKT_F_L4_TRUNC)\<rparr>"
  define p1 where "p1 = p0\<lparr>pk_family := CALY_AF_INET, pk_saddr := Quad (le32 s0 s1 s2 s3) 0 0 0,
      pk_daddr := Quad (le32 t0 t1 t2 t3) 0 0 0,
      pk_l4_len := ucast (if of_nat (40 + ?n) - 20 > (0xFFFF :: u32) then (0xFFFF :: u32) else of_nat (40 + ?n) - 20)\<rparr>"
  have l3: "parse_ip4 d p0 cfg 14 STAT_DROP_IP4_TRUNC = Some (Cont p1 34 6)"
    using assms(5,6,8) cmp
    by (simp add: parse_ip4_def Let_def ld ntohs_be16 tot fr ip4_finish_def p0_def p1_def
        del: of_nat_add)
  have l4: "caly_parse_l4 d (p1\<lparr>pk_l4_off := 34, pk_proto := 6\<rparr>) cfg tc =
     Some (CALY_PARSE_OK, p1\<lparr>pk_l4_off := 34, pk_proto := 6,
        pk_sport := le16 (ucast (drop_bit 8 sport)) (ucast sport),
        pk_dport := le16 (ucast (drop_bit 8 dport)) (ucast dport), pk_tcp_flags := ucast fl,
        pk_payload_off := 54\<rparr>, tc)"
    using assms(8) cmp md
    by (simp add: caly_parse_l4_def Let_def ld p1_def p0_def del: of_nat_add)
  have "caly_parse_l3 d p cfg 14 CALY_ETH_P_IP False False tc = l3_finish d cfg False tc (Cont p1 34 6)"
    unfolding caly_parse_l3_def Let_def p0_def [symmetric] by (simp add: l3)
  then show ?thesis
    using l4
    by (subst tunnel_loop.simps)
      (simp add: l3_finish_def ntohs_be16, simp add: p1_def p0_def)
qed

section \<open>Properties\<close>

text \<open>Memory safety of the parser: for every frame, configuration and start offset the
  parse loop reads only inside the frame, ends, and returns either success or a reason that is
  counted as a drop.\<close>

theorem parser_memory_safe:
  "\<exists>rc p tc'. tunnel_loop d cfg 0 off proto pkt tc = Some (rc, p, tc') \<and>
              (rc = CALY_PARSE_OK \<or> stat_reason_is_drop rc)"
  by (rule tunnel_loop_ok)

text \<open>Ports never come from fragment data: when the parse succeeds on a non-first fragment,
  of IPv4 or IPv6, the descriptor has no ports and no TCP flags and says so; with fragment checks on no
  accepted packet has offset one, and with the drop-all policy none is a fragment.\<close>

theorem fragments_have_no_ports:
  assumes "tunnel_loop d cfg 0 off proto p tc = Some (CALY_PARSE_OK, q, tc')"
  shows "(has_flag (pk_flags q) CALY_PKT_F_FRAG \<and> pk_frag_off q \<noteq> 0 \<longrightarrow>
            pk_sport q = 0 \<and> pk_dport q = 0 \<and> pk_tcp_flags q = 0 \<and>
            has_flag (pk_flags q) CALY_PKT_F_L4_TRUNC) \<and>
         (has_flag (cfg_flags cfg) CALY_F_DROP_ALL_FRAGS \<longrightarrow>
            \<not> has_flag (pk_flags q) CALY_PKT_F_FRAG) \<and>
         (has_flag (cfg_flags cfg) CALY_F_FRAG_CHECKS \<longrightarrow> pk_frag_off q \<noteq> 1)"
  using tunnel_loop_frag [OF assms] by (simp add: frag_clean_def)


definition pkt0 :: "u32 \<Rightarrow> pkt_ctx" where
  "pkt0 len = \<lparr>pk_ts_ns = 0, pk_saddr = Quad 0 0 0 0, pk_daddr = Quad 0 0 0 0, pk_l3_off = 0,
     pk_l4_off = 0, pk_payload_off = 0, pk_pkt_len = len, pk_ifindex = 0, pk_family = 0, pk_proto = 0,
     pk_vlan_depth = 0, pk_tunnel_depth = 0, pk_frag_off = 0, pk_tcp_flags = 0, pk_flags = 0,
     pk_sport = 0, pk_dport = 0, pk_eth_proto = 0, pk_l4_len = 0\<rparr>"

text \<open>Round trip: the encoding of an IPv4/TCP segment parses back to its fields, for every
  address, port, flag byte, TTL and payload that fits a frame, as long as the configuration does
  not forbid the TTL or the header length.\<close>

theorem ip4_tcp_roundtrip:
  assumes "length macs = 12" "length seqack = 8" "length tail = 6" "length payload \<le> 65481"
    and "ttl \<noteq> 0" "\<not> has_flag (cfg_flags cfg) CALY_F_TTL_CHECK"
    and "cfg_tcp_min_doff cfg \<le> 5"
    and "pk_pkt_len p = of_nat (54 + length payload)"
    and "d = ip4_tcp_frame macs tos ident ttl csum (s0, s1, s2, s3) (t0, t1, t2, t3) sport dport seqack fl tail payload"
  shows "\<exists>q. tunnel_loop d cfg 0 14 CALY_ETH_P_IP p tc = Some (CALY_PARSE_OK, q, tc) \<and>
             pk_family q = CALY_AF_INET \<and> pk_proto q = CALY_IPPROTO_TCP \<and>
             pk_saddr q = Quad (le32 s0 s1 s2 s3) 0 0 0 \<and> pk_daddr q = Quad (le32 t0 t1 t2 t3) 0 0 0 \<and>
             ntohs (pk_sport q) = sport \<and> ntohs (pk_dport q) = dport \<and> pk_tcp_flags q = ucast fl \<and>
             pk_l4_off q = 34 \<and> pk_payload_off q = 54 \<and>
             \<not> has_flag (pk_flags q) CALY_PKT_F_FRAG"
proof -
  obtain q where q: "tunnel_loop d cfg 0 14 CALY_ETH_P_IP p tc = Some (CALY_PARSE_OK, q, tc)"
    "pk_family q = CALY_AF_INET" "pk_proto q = CALY_IPPROTO_TCP"
    "pk_saddr q = Quad (le32 s0 s1 s2 s3) 0 0 0" "pk_daddr q = Quad (le32 t0 t1 t2 t3) 0 0 0"
    "ntohs (pk_sport q) = sport" "ntohs (pk_dport q) = dport" "pk_tcp_flags q = ucast fl"
    "pk_l4_off q = 34" "pk_payload_off q = 54"
    "pk_flags q = pk_flags p AND NOT (CALY_PKT_F_FRAG OR CALY_PKT_F_FRAG_FIRST OR CALY_PKT_F_L4_TRUNC)"
    using ip4_tcp_parses [OF assms] by blast
  then have "\<not> has_flag (pk_flags q) CALY_PKT_F_FRAG"
    by (simp add: has_flag_def and.assoc)
  with q show ?thesis by blast
qed

theorem ip4_tcp_roundtrip_witness:
  "\<exists>q. tunnel_loop (ip4_tcp_frame (replicate 12 7) 0 1 64 0 (10, 0, 0, 1) (10, 0, 0, 2) 1234 443
          (replicate 8 0) 2 (replicate 6 0) []) caly_conf_set_defaults 0 14 CALY_ETH_P_IP (pkt0 54) 0
        = Some (CALY_PARSE_OK, q, 0) \<and> ntohs (pk_dport q) = 443 \<and> pk_tcp_flags q = 2"
proof -
  let ?f = "ip4_tcp_frame (replicate 12 7) 0 1 64 0 (10, 0, 0, 1) (10, 0, 0, 2) 1234 443
          (replicate 8 0) 2 (replicate 6 0) []"
  have "\<exists>q. tunnel_loop ?f caly_conf_set_defaults 0 14 CALY_ETH_P_IP (pkt0 54) 0
          = Some (CALY_PARSE_OK, q, 0) \<and>
        pk_family q = CALY_AF_INET \<and> pk_proto q = CALY_IPPROTO_TCP \<and>
        pk_saddr q = Quad (le32 10 0 0 1) 0 0 0 \<and> pk_daddr q = Quad (le32 10 0 0 2) 0 0 0 \<and>
        ntohs (pk_sport q) = 1234 \<and> ntohs (pk_dport q) = 443 \<and> pk_tcp_flags q = ucast (2 :: u8) \<and>
        pk_l4_off q = 34 \<and> pk_payload_off q = 54 \<and> \<not> has_flag (pk_flags q) CALY_PKT_F_FRAG"
    by (rule ip4_tcp_roundtrip [OF _ _ _ _ _ _ _ _ refl]) (simp_all add: pkt0_def)
  then show ?thesis by auto
qed

text \<open>An accepted IPv4 header is well formed: with the anomaly checks on, the layer-4 offset
  lies between the fixed header and the declared end of the packet, which lies inside the frame.\<close>

theorem ip4_header_well_formed:
  assumes "parse_ip4 d p cfg l3_off t = Some (Cont q off proto)"
    and "has_flag (cfg_flags cfg) CALY_F_ANOMALY_CHECKS"
    and "l3_off \<le> CALY_MAX_HDR_OFF" "unat (pk_pkt_len p) = length d" "length d \<le> CALY_MAX_PKT_LEN"
  shows "unat l3_off + 20 \<le> unat off \<and>
         unat off \<le> unat l3_off + unat (ntohs (le16 (d ! (unat l3_off + 2)) (d ! (unat l3_off + 3)))) \<and>
         unat l3_off + unat (ntohs (le16 (d ! (unat l3_off + 2)) (d ! (unat l3_off + 3)))) \<le> length d"
proof -
  let ?o = "unat l3_off"
  let ?tot = "ntohs (le16 (d ! (?o + 2)) (d ! (?o + 3)))"
  let ?ihl = "ucast (d ! ?o AND 0x0F) :: u32"
  have bnd: "\<not> ?o + 20 > length d"
    using assms(1) by (auto simp: parse_ip4_def Let_def)
  have fin: "ip4_finish r cfg l3_off ihl tl fr pr = Cont q off proto \<Longrightarrow> off = l3_off + ihl * 4"
    for r ihl tl fr pr by (auto simp: ip4_finish_def Let_def split: if_splits)
  have *: "\<not> ?ihl < 5 \<and> \<not> ucast ?tot < ?ihl * 4 \<and> \<not> l3_off + ucast ?tot > pk_pkt_len p \<and>
    off = l3_off + ?ihl * 4"
    using assms(1,2) bnd
    by (auto simp: parse_ip4_def Let_def load_simps numeral_3_eq_3 dest: fin split: if_splits)
  have ihl: "unat ?ihl \<le> 15"
  proof -
    have "d ! ?o AND 0x0F \<le> 0x0F" by (rule word_and_le1)
    moreover have "unat ?ihl = unat (d ! ?o AND 0x0F)"
      using unat_u8_less [of "d ! ?o AND 0x0F"]
      by (simp only: unsigned_ucast_eq) (simp add: take_bit_nat_eq_self_iff)
    ultimately show ?thesis by (simp add: word_le_nat_alt)
  qed
  have tot: "unat (ucast ?tot :: u32) = unat ?tot"
    using unat_u16_less [of ?tot] by (simp add: unsigned_ucast_eq take_bit_nat_eq_self_iff)
  have l3: "?o \<le> 512" using assms(3) by (simp add: word_le_nat_alt)
  have m: "unat (?ihl * 4) = unat ?ihl * 4"
    using ihl by (simp add: unat_word_ariths)
  have "unat (l3_off + ?ihl * 4) = ?o + unat ?ihl * 4"
    using l3 ihl m by (simp add: unat_word_ariths)
  moreover have "unat (l3_off + ucast ?tot) = ?o + unat ?tot"
    using l3 tot unat_u16_less [of ?tot] by (simp add: unat_word_ariths)
  ultimately show ?thesis
    using * m tot assms(4) by (auto simp: word_less_nat_alt)
qed

text \<open>Tunnels are not inspected.  The compiled depth limit is zero, so the loop makes one
  pass with the tunnel dispatch off: an encapsulated packet is judged by its outer header alone,
  and the configured depth and the tunnel flag of the configuration have no effect.\<close>

theorem tunnels_never_inspected:
  "tunnel_loop d cfg 0 off proto p tc =
     (case caly_parse_l3 d p cfg off proto False False tc of
        Some (L3_Done rc q tc') \<Rightarrow> Some (rc, q, tc') | _ \<Rightarrow> None)"
proof -
  have "l3_result_ok (caly_parse_l3 d p cfg off proto False False tc)" by (rule parse_l3_ok)
  moreover have "caly_parse_l3 d p cfg off proto False False tc \<noteq> Some (L3_Tunnel q io ip)" for q io ip
    by (auto simp: caly_parse_l3_def l3_finish_def Let_def bind_eq_Some_conv
        split: if_splits l3_step.splits)
  ultimately show ?thesis
    by (subst tunnel_loop.simps) (auto split: option.splits l3_result.splits)
qed

text \<open>A fragment that is not the first one, over UDP.\<close>

definition frag_frame :: bytes where
  "frag_frame = replicate 14 0 @ [0x45, 0, 0, 28, 0, 1, 0, 185, 64, 17, 0, 0, 10, 0, 0, 1, 10, 0, 0, 2,
                                  1, 2, 3, 4, 5, 6, 7, 8]"

lemma frag_frame_loads:
  "length frag_frame = 42" "ld8 frag_frame 14 = Some 0x45" "ld16 frag_frame 16 = Some 0x1C00"
  "ld16 frag_frame 20 = Some 0xB900" "ld8 frag_frame 22 = Some 64" "ld8 frag_frame 23 = Some 17"
  "ld32 frag_frame 26 = Some 0x0100000A" "ld32 frag_frame 30 = Some 0x0200000A"
  by code_simp+

lemma frag_frame_parse:
  "\<exists>q. parse_ip4 frag_frame (p\<lparr>pk_pkt_len := 42\<rparr>) caly_conf_set_defaults 14 STAT_DROP_IP4_TRUNC
       = Some (Cont q 34 17) \<and> pk_frag_off q = 185 \<and> has_flag (pk_flags q) CALY_PKT_F_FRAG"
  by (simp add: parse_ip4_def Let_def frag_frame_loads ip4_finish_def ntohs_def)

theorem fragments_have_no_ports_witness:
  "\<exists>q. tunnel_loop frag_frame caly_conf_set_defaults 0 14 CALY_ETH_P_IP (pkt0 42) 0
         = Some (CALY_PARSE_OK, q, 0) \<and> pk_frag_off q = 185 \<and> pk_dport q = 0"
proof -
  define p where "p = pkt0 42\<lparr>pk_l3_off := 14, pk_saddr := Quad 0 0 0 0, pk_daddr := Quad 0 0 0 0,
      pk_sport := 0, pk_dport := 0, pk_tcp_flags := 0, pk_frag_off := 0,
      pk_flags := pk_flags (pkt0 42) AND
        NOT (CALY_PKT_F_FRAG OR CALY_PKT_F_FRAG_FIRST OR CALY_PKT_F_L4_TRUNC)\<rparr>"
  have "p = p\<lparr>pk_pkt_len := 42\<rparr>" by (simp add: p_def pkt0_def)
  then obtain r where r: "parse_ip4 frag_frame p caly_conf_set_defaults 14 STAT_DROP_IP4_TRUNC = Some (Cont r 34 17)"
    "pk_frag_off r = 185" "has_flag (pk_flags r) CALY_PKT_F_FRAG"
    using frag_frame_parse [of p] by auto
  have "caly_parse_l3 frag_frame (pkt0 42) caly_conf_set_defaults 14 CALY_ETH_P_IP False False 0 =
      l3_finish frag_frame caly_conf_set_defaults False 0 (Cont r 34 17)"
    unfolding caly_parse_l3_def Let_def p_def [symmetric] by (simp add: r)
  then have "\<exists>q. tunnel_loop frag_frame caly_conf_set_defaults 0 14 CALY_ETH_P_IP (pkt0 42) 0
      = Some (CALY_PARSE_OK, q, 0) \<and> pk_frag_off q = 185 \<and> has_flag (pk_flags q) CALY_PKT_F_FRAG"
    using r(2,3) by (subst tunnel_loop.simps) (simp add: l3_finish_def caly_parse_l4_def)
  then obtain q where q: "tunnel_loop frag_frame caly_conf_set_defaults 0 14 CALY_ETH_P_IP (pkt0 42) 0
      = Some (CALY_PARSE_OK, q, 0)" "pk_frag_off q = 185" "has_flag (pk_flags q) CALY_PKT_F_FRAG"
    by blast
  then show ?thesis using fragments_have_no_ports [OF q(1)] by auto
qed

theorem ip4_header_well_formed_witness:
  "\<exists>q off. parse_ip4 frag_frame (pkt0 42) caly_conf_set_defaults 14 STAT_DROP_IP4_TRUNC = Some (Cont q off 17) \<and>
           34 \<le> unat off \<and> unat off \<le> 42"
proof -
  have "pkt0 42 = pkt0 42\<lparr>pk_pkt_len := 42\<rparr>" by (simp add: pkt0_def)
  then obtain q where q: "parse_ip4 frag_frame (pkt0 42) caly_conf_set_defaults 14 STAT_DROP_IP4_TRUNC
      = Some (Cont q 34 17)" using frag_frame_parse [of "pkt0 42"] by auto
  have "14 + 20 \<le> unat (34 :: u32) \<and> unat (34 :: u32) \<le> length frag_frame"
    using ip4_header_well_formed [OF q] by (simp add: pkt0_def frag_frame_loads(1))
  then show ?thesis using q by (auto simp: frag_frame_loads(1))
qed

end
