(* ===== verification/Caly_State.thy ===== *)
theory Caly_State
  imports Caly_Ban Caly_Scan Caly_Ratelimit Caly_Classify Caly_Parse
begin

text \<open>
  The state the XDP programs share: the BPF maps of \<open>maps.h\<close> as seen by one CPU, and the helpers of
  \<open>maps.h\<close> and \<open>xdp_firewall.bpf.c\<close> that touch them.  The two maps of an address family pair
  (\<open>caly_ban4\<close>/\<open>caly_ban6\<close> and so on) are one map over \<open>src_key\<close>.  A lookup that returns a null
  pointer is \<^term>\<open>None\<close>; a write through a returned pointer is an update of the map.

  What the kernel decides is the parameter \<open>kern\<close>: the clock, the longest-prefix match, whether an
  insertion fails or evicts, whether an event is accepted, and whether a tail-call slot is
  populated.
\<close>

section \<open>State\<close>

datatype src_key = K4 u32 | K6 quad

text \<open>A prefix of an LPM trie: the address and its length.\<close>

type_synonym lpm_key = "src_key \<times> nat"
type_synonym lpm_map = "lpm_key \<rightharpoonup> rule_meta"

record dp_state =
  dp_stats :: "u32 \<rightharpoonup> u64"
  dp_stats_b :: "u32 \<rightharpoonup> u64"
  dp_global :: "caly_gauge \<rightharpoonup> u64"
  dp_config :: "fw_config option"
  dp_scratch :: "caly_scratch option"
  dp_iface :: "u32 \<rightharpoonup> iface_config"
  dp_allow :: lpm_map
  dp_block :: lpm_map
  dp_local :: lpm_map
  dp_ban :: "src_key \<rightharpoonup> ban_entry"
  dp_rate :: "src_key \<rightharpoonup> rate_state"
  dp_scan :: "src_key \<rightharpoonup> scan_state"
  dp_top :: "src_key \<rightharpoonup> src_stats"
  dp_conn :: "conn_key \<rightharpoonup> conn_state"
  dp_port_tcp :: "u32 \<rightharpoonup> port_rule"
  dp_port_udp :: "u32 \<rightharpoonup> port_rule"
  dp_port_tb :: "u32 \<rightharpoonup> caly_token_bucket"
  dp_icmp4_pol :: "u32 \<rightharpoonup> u32"
  dp_icmp6_pol :: "u32 \<rightharpoonup> u32"
  dp_events :: "event list"

text \<open>The kernel: an insertion gives the new map, or \<^term>\<open>None\<close> when it fails.\<close>

record kern =
  k_now :: u64
  k_lpm :: "lpm_map \<Rightarrow> src_key \<Rightarrow> lpm_key option"
  k_upd_ban :: "(src_key \<rightharpoonup> ban_entry) \<Rightarrow> src_key \<Rightarrow> ban_entry \<Rightarrow> (src_key \<rightharpoonup> ban_entry) option"
  k_upd_rate :: "(src_key \<rightharpoonup> rate_state) \<Rightarrow> src_key \<Rightarrow> rate_state \<Rightarrow> (src_key \<rightharpoonup> rate_state) option"
  k_upd_scan :: "(src_key \<rightharpoonup> scan_state) \<Rightarrow> src_key \<Rightarrow> scan_state \<Rightarrow> (src_key \<rightharpoonup> scan_state) option"
  k_upd_top :: "(src_key \<rightharpoonup> src_stats) \<Rightarrow> src_key \<Rightarrow> src_stats \<Rightarrow> (src_key \<rightharpoonup> src_stats) option"
  k_upd_conn :: "(conn_key \<rightharpoonup> conn_state) \<Rightarrow> conn_key \<Rightarrow> conn_state \<Rightarrow> (conn_key \<rightharpoonup> conn_state) option"
  k_perf :: "event \<Rightarrow> bool"
  k_tail :: "u32 \<Rightarrow> bool"

text \<open>The documented behaviour of \<open>bpf_map_update_elem\<close> with \<open>BPF_ANY\<close>: on success the key holds
  the value, and any other key is unchanged or, in an LRU map, evicted.\<close>

definition upd_law ::
  "(('k \<rightharpoonup> 'v) \<Rightarrow> 'k \<Rightarrow> 'v \<Rightarrow> ('k \<rightharpoonup> 'v) option) \<Rightarrow> bool" where
  "upd_law upd \<longleftrightarrow> (\<forall>m k v m'. upd m k v = Some m' \<longrightarrow>
     m' k = Some v \<and> (\<forall>k'. k' \<noteq> k \<longrightarrow> m' k' = m k' \<or> m' k' = None))"

lemma upd_lawD:
  "upd_law upd \<Longrightarrow> upd m k v = Some m' \<Longrightarrow>
     m' k = Some v \<and> (\<forall>k'. k' \<noteq> k \<longrightarrow> m' k' = m k' \<or> m' k' = None)"
  unfolding upd_law_def by (erule allE)+ (erule (1) impE)

section \<open>Counters\<close>

text \<open>Every caller passes the 32-bit frame length, which the call widens to the 64-bit argument.\<close>

definition caly_stat :: "u32 \<Rightarrow> u32 \<Rightarrow> dp_state \<Rightarrow> dp_state" where
  "caly_stat reason bytes s =
     (if reason \<ge> STAT_MAX then s
      else
        let s = (case dp_stats s reason of None \<Rightarrow> s
                 | Some v \<Rightarrow> s\<lparr>dp_stats := (dp_stats s)(reason \<mapsto> v + 1)\<rparr>)
        in (case dp_stats_b s reason of None \<Rightarrow> s
            | Some v \<Rightarrow> s\<lparr>dp_stats_b := (dp_stats_b s)(reason \<mapsto> v + ucast bytes)\<rparr>))"

text \<open>The enumeration type makes the range guard of \<open>caly_gauge\<close> vacuous.\<close>

definition caly_gauge_add :: "caly_gauge \<Rightarrow> u64 \<Rightarrow> dp_state \<Rightarrow> dp_state" where
  "caly_gauge_add gauge add s =
     (case dp_global s gauge of None \<Rightarrow> s
      | Some v \<Rightarrow> s\<lparr>dp_global := (dp_global s)(gauge \<mapsto> v + add)\<rparr>)"

section \<open>Prefix lists\<close>

text \<open>The host-length lookup key of \<open>caly_lpm4_key\<close> and \<open>caly_lpm6_key\<close>.\<close>

definition lpm_src :: "bool \<Rightarrow> quad \<Rightarrow> src_key" where
  "lpm_src is_v4 a = (if is_v4 then K4 (q0 a) else K6 a)"

definition lpm_find :: "kern \<Rightarrow> lpm_map \<Rightarrow> src_key \<Rightarrow> (lpm_key \<times> rule_meta) option" where
  "lpm_find k m a =
     (case k_lpm k m a of None \<Rightarrow> None
      | Some p \<Rightarrow> (case m p of None \<Rightarrow> None | Some rm \<Rightarrow> Some (p, rm)))"

section \<open>Installing a ban\<close>

text \<open>The result is the TTL (zero when no ban was installed), the scratch area whose \<open>ban\<close> field
  is the template of a new entry, and the state.\<close>

definition caly_ban_install ::
  "kern \<Rightarrow> caly_scratch \<Rightarrow> fw_config \<Rightarrow> src_key \<Rightarrow> u64 \<Rightarrow> u32 \<Rightarrow> u64 \<Rightarrow> u32 \<Rightarrow> u32 \<Rightarrow> dp_state
   \<Rightarrow> u64 \<times> caly_scratch \<times> dp_state" where
  "caly_ban_install k sc cfg key now reason ttl_override strikes pkt_len s =
     (if \<not> has_flag (cfg_flags cfg) CALY_F_AUTOBAN then (0, sc, s)
      else (case dp_ban s key of
        Some be \<Rightarrow>
          if be_expiry_ns be > now \<and> \<not> has_flag (be_flags be) CALY_BAN_F_PERMANENT then
            (let ttl = be_cur_ttl_ns be;
                 ttl = (if ttl = 0 then cfg_ban_ttl_base_ns cfg else ttl);
                 ttl = (if ttl_override > ttl then ttl_override else ttl)
             in if ttl = 0 then (0, sc, s)
                else (ttl, sc, caly_stat STAT_BAN_REFRESHED pkt_len
                       (s\<lparr>dp_ban := (dp_ban s)(key \<mapsto> be\<lparr>be_expiry_ns := now + ttl,
                                                            be_last_hit_ns := now\<rparr>)\<rparr>)))
          else
            (let ttl = (if ttl_override \<noteq> 0 then ttl_override
                        else caly_ban_next_ttl (be_cur_ttl_ns be) (cfg_ban_ttl_base_ns cfg)
                               (cfg_ban_ttl_max_ns cfg) (cfg_ban_escalate_num cfg)
                               (cfg_ban_escalate_den cfg))
             in if ttl = 0 then (0, sc, s)
                else (ttl, sc, caly_stat STAT_BAN_ESCALATED pkt_len
                       (s\<lparr>dp_ban := (dp_ban s)(key \<mapsto>
                          be\<lparr>be_expiry_ns := now + ttl, be_last_hit_ns := now,
                             be_cur_ttl_ns := ttl, be_reason := reason, be_strikes := strikes,
                             be_offences := be_offences be + 1,
                             be_flags := be_flags be OR CALY_BAN_F_AUTO OR CALY_BAN_F_ESCALATED\<rparr>)\<rparr>)))
      | None \<Rightarrow>
          (let ttl = (if ttl_override \<noteq> 0 then ttl_override else cfg_ban_ttl_base_ns cfg)
           in if ttl = 0 then (0, sc, s)
              else
                let ttl = (if cfg_ban_ttl_max_ns cfg \<noteq> 0 \<and> ttl > cfg_ban_ttl_max_ns cfg
                           then cfg_ban_ttl_max_ns cfg else ttl);
                    nb = \<lparr>be_expiry_ns = now + ttl, be_first_seen_ns = now, be_last_hit_ns = now,
                          be_cur_ttl_ns = ttl, be_hit_pkts = 0, be_hit_bytes = 0,
                          be_reason = reason, be_strikes = strikes, be_offences = 1,
                          be_flags = CALY_BAN_F_AUTO\<rparr>;
                    sc = sc\<lparr>sc_ban := nb\<rparr>
                in (case k_upd_ban k (dp_ban s) key nb of
                      None \<Rightarrow> (0, sc, caly_stat STAT_BAN_FULL pkt_len s)
                    | Some m \<Rightarrow> (ttl, sc, caly_stat STAT_BAN_ADDED pkt_len (s\<lparr>dp_ban := m\<rparr>))))))"

section \<open>What the counters leave alone\<close>

text \<open>Everything but the counters, the gauges and the event log.\<close>

definition tables :: "dp_state \<Rightarrow> dp_state" where
  "tables s = s\<lparr>dp_stats := Map.empty, dp_stats_b := Map.empty, dp_global := Map.empty,
               dp_top := Map.empty, dp_events := []\<rparr>"

lemma tables_stat [simp]: "tables (caly_stat r b s) = tables s"
  by (simp add: tables_def caly_stat_def Let_def split: option.splits)

lemma tables_gauge [simp]: "tables (caly_gauge_add g a s) = tables s"
  by (simp add: tables_def caly_gauge_add_def split: option.splits)

lemma stat_fields [simp]:
  "dp_config (caly_stat r b s) = dp_config s" "dp_scratch (caly_stat r b s) = dp_scratch s"
  "dp_iface (caly_stat r b s) = dp_iface s" "dp_allow (caly_stat r b s) = dp_allow s"
  "dp_block (caly_stat r b s) = dp_block s" "dp_local (caly_stat r b s) = dp_local s"
  "dp_ban (caly_stat r b s) = dp_ban s" "dp_rate (caly_stat r b s) = dp_rate s"
  "dp_scan (caly_stat r b s) = dp_scan s" "dp_top (caly_stat r b s) = dp_top s"
  "dp_conn (caly_stat r b s) = dp_conn s" "dp_port_tcp (caly_stat r b s) = dp_port_tcp s"
  "dp_port_udp (caly_stat r b s) = dp_port_udp s" "dp_port_tb (caly_stat r b s) = dp_port_tb s"
  "dp_icmp4_pol (caly_stat r b s) = dp_icmp4_pol s" "dp_icmp6_pol (caly_stat r b s) = dp_icmp6_pol s"
  "dp_events (caly_stat r b s) = dp_events s" "dp_global (caly_stat r b s) = dp_global s"
  by (simp_all add: caly_stat_def Let_def split: option.splits)

lemma gauge_fields [simp]:
  "dp_config (caly_gauge_add g a s) = dp_config s" "dp_scratch (caly_gauge_add g a s) = dp_scratch s"
  "dp_stats (caly_gauge_add g a s) = dp_stats s" "dp_top (caly_gauge_add g a s) = dp_top s"
  "dp_events (caly_gauge_add g a s) = dp_events s" "dp_ban (caly_gauge_add g a s) = dp_ban s"
  "dp_conn (caly_gauge_add g a s) = dp_conn s"
  by (simp_all add: caly_gauge_add_def split: option.splits)

text \<open>The four grand totals.\<close>

definition totals :: "dp_state \<Rightarrow> u64 option \<times> u64 option \<times> u64 option \<times> u64 option" where
  "totals s = (dp_stats s STAT_PKT_TOTAL, dp_stats s STAT_PASS_TOTAL, dp_stats s STAT_DROP_TOTAL,
               dp_stats s STAT_TX_TOTAL)"

lemma stat_at: "dp_stats (caly_stat r b s) x =
  (if x = r \<and> r < STAT_MAX then map_option (\<lambda>v. v + 1) (dp_stats s x) else dp_stats s x)"
  by (auto simp: caly_stat_def Let_def not_le split: option.splits)

lemma totals_stat [simp]: "r \<ge> 4 \<Longrightarrow> totals (caly_stat r b s) = totals s"
  by (auto simp: totals_def stat_at word_le_nat_alt)

lemma totals_gauge [simp]: "totals (caly_gauge_add g a s) = totals s"
  by (simp add: totals_def)

lemma totals_cong: "dp_stats s = dp_stats t \<Longrightarrow> totals s = totals t"
  by (simp add: totals_def)

lemma totals_fields [simp]:
  "totals (s\<lparr>dp_scratch := x1\<rparr>) = totals s" "totals (s\<lparr>dp_allow := x2\<rparr>) = totals s"
  "totals (s\<lparr>dp_block := x2\<rparr>) = totals s" "totals (s\<lparr>dp_ban := x3\<rparr>) = totals s"
  "totals (s\<lparr>dp_rate := x4\<rparr>) = totals s" "totals (s\<lparr>dp_scan := x5\<rparr>) = totals s"
  "totals (s\<lparr>dp_top := x6\<rparr>) = totals s" "totals (s\<lparr>dp_conn := x7\<rparr>) = totals s"
  "totals (s\<lparr>dp_port_tb := x8\<rparr>) = totals s" "totals (s\<lparr>dp_events := x9\<rparr>) = totals s"
  by (simp_all add: totals_def)

lemma ban_install_totals [simp]:
  "totals (snd (snd (caly_ban_install k sc cfg key now r ov st l s))) = totals s"
  by (simp add: caly_ban_install_def Let_def split: option.splits)

lemma ban_install_config [simp]:
  "dp_config (snd (snd (caly_ban_install k sc cfg key now r ov st l s))) = dp_config s"
  by (simp add: caly_ban_install_def Let_def split: option.splits)

section \<open>Properties\<close>

text \<open>An installed ban is in force: when \<open>caly_ban_install\<close> reports a TTL, the source has an
  entry that expires that TTL after now, its own or the one just inserted, and every other source
  is untouched or evicted by the kernel; when it reports zero, no entry was changed.\<close>

theorem caly_ban_install_in_force:
  assumes "upd_law (k_upd_ban k)"
    and "caly_ban_install k sc cfg key now reason ov strikes len s = (ttl, sc', s')"
  shows "(ttl \<noteq> 0 \<longrightarrow> (\<exists>be. dp_ban s' key = Some be \<and> be_expiry_ns be = now + ttl)) \<and>
         (\<forall>k'. k' \<noteq> key \<longrightarrow> dp_ban s' k' = dp_ban s k' \<or> dp_ban s' k' = None) \<and>
         (ttl = 0 \<longrightarrow> dp_ban s' = dp_ban s)"
proof -
  have upd: "m' key = Some v \<and> (\<forall>k'. k' \<noteq> key \<longrightarrow> m' k' = dp_ban s k' \<or> m' k' = None)"
    if "k_upd_ban k (dp_ban s) key v = Some m'" for v m'
    using upd_lawD [OF assms(1) that] .
  show ?thesis
  proof (cases "dp_ban s key")
    case None
    then show ?thesis
      using assms(2) by (auto simp: caly_ban_install_def Let_def dest!: upd split: if_splits option.splits)
  next
    case (Some be)
    then show ?thesis
      using assms(2) by (auto simp: caly_ban_install_def Let_def split: if_splits)
  qed
qed

text \<open>The plainest legal kernel: nothing fails, nothing is evicted, and a prefix list holds host
  addresses only.  It shows that the hypotheses on the kernel can hold.\<close>

definition kern0 :: "u64 \<Rightarrow> kern" where
  "kern0 now = \<lparr>k_now = now,
     k_lpm = (\<lambda>m a. let p = (a, case a of K4 _ \<Rightarrow> 32 | K6 _ \<Rightarrow> 128) in if m p = None then None else Some p),
     k_upd_ban = (\<lambda>m k v. Some (m(k \<mapsto> v))), k_upd_rate = (\<lambda>m k v. Some (m(k \<mapsto> v))),
     k_upd_scan = (\<lambda>m k v. Some (m(k \<mapsto> v))), k_upd_top = (\<lambda>m k v. Some (m(k \<mapsto> v))),
     k_upd_conn = (\<lambda>m k v. Some (m(k \<mapsto> v))), k_perf = (\<lambda>_. True), k_tail = (\<lambda>_. True)\<rparr>"

definition dp0 :: "fw_config \<Rightarrow> caly_scratch \<Rightarrow> dp_state" where
  "dp0 cfg sc = \<lparr>dp_stats = (\<lambda>r. if r < STAT_MAX then Some 0 else None),
     dp_stats_b = (\<lambda>r. if r < STAT_MAX then Some 0 else None), dp_global = (\<lambda>_. Some 0),
     dp_config = Some cfg, dp_scratch = Some sc, dp_iface = Map.empty, dp_allow = Map.empty,
     dp_block = Map.empty, dp_local = Map.empty, dp_ban = Map.empty, dp_rate = Map.empty,
     dp_scan = Map.empty, dp_top = Map.empty, dp_conn = Map.empty, dp_port_tcp = Map.empty,
     dp_port_udp = Map.empty, dp_port_tb = Map.empty, dp_icmp4_pol = Map.empty,
     dp_icmp6_pol = Map.empty, dp_events = []\<rparr>"

definition sc0 :: "pkt_ctx \<Rightarrow> caly_scratch" where
  "sc0 p = \<lparr>sc_pkt = p,
     sc_ev = \<lparr>ev_ts_ns = 0, ev_ban_ttl_ns = 0, ev_value = 0, ev_saddr = Quad 0 0 0 0,
        ev_daddr = Quad 0 0 0 0, ev_ifindex = 0, ev_reason = 0, ev_verdict = 0, ev_proto = 0,
        ev_pkt_len = 0, ev_family = 0, ev_sport = 0, ev_dport = 0, ev_tcp_flags = 0, ev_mode = 0,
        ev_version = 0\<rparr>,
     sc_ck = \<lparr>ck_saddr = Quad 0 0 0 0, ck_daddr = Quad 0 0 0 0, ck_sport = 0, ck_dport = 0,
        ck_proto = 0, ck_family = 0, ck_pad = (0, 0)\<rparr>,
     sc_cs = \<lparr>cs_created_ns = 0, cs_last_seen_ns = 0, cs_pkts_in = 0, cs_bytes_in = 0,
        cs_pkts_out = 0, cs_bytes_out = 0, cs_state = 0, cs_flags = 0, cs_ifindex = 0, cs_mark = 0\<rparr>,
     sc_ban = \<lparr>be_expiry_ns = 0, be_first_seen_ns = 0, be_last_hit_ns = 0, be_cur_ttl_ns = 0,
        be_hit_pkts = 0, be_hit_bytes = 0, be_reason = 0, be_strikes = 0, be_offences = 0,
        be_flags = 0\<rparr>,
     sc_tmp = replicate 8 0, sc_carry_if_flags = 0, sc_carry_icmp_tc = 0, sc_carry_l3_off = 0,
     sc_carry_l3_proto = 0, sc_carry_is_wan = 0, sc_carry_if_monitor = 0, sc_carry_ct_missed = 0,
     sc_carry_ct_key_valid = 0, sc_carry_pad = (0, 0)\<rparr>"

lemma kern0_law: "upd_law (\<lambda>m k v. Some (m(k \<mapsto> v)))"
  by (simp add: upd_law_def)

theorem caly_ban_install_in_force_witness:
  "let r = caly_ban_install (kern0 5) (sc0 (pkt0 60)) caly_conf_set_defaults (K4 7) 5
             STAT_DROP_RATE_PPS 0 10 60 (dp0 caly_conf_set_defaults (sc0 (pkt0 60)))
   in fst r = 600000000000 \<and>
      (\<exists>be. dp_ban (snd (snd r)) (K4 7) = Some be \<and> be_expiry_ns be = 600000000005)"
proof -
  let ?r = "caly_ban_install (kern0 5) (sc0 (pkt0 60)) caly_conf_set_defaults (K4 7) 5
             STAT_DROP_RATE_PPS 0 10 60 (dp0 caly_conf_set_defaults (sc0 (pkt0 60)))"
  have ttl: "fst ?r = 600000000000"
    by (simp add: caly_ban_install_def dp0_def kern0_def Let_def)
  have law: "upd_law (k_upd_ban (kern0 5))" by (simp add: kern0_def kern0_law)
  obtain t sc s where r: "?r = (t, sc, s)" by (metis prod.exhaust)
  show ?thesis
    using caly_ban_install_in_force [OF law r] ttl by (simp add: r)
qed

end
