(* ===== verification/Caly_Verdict.thy ===== *)
theory Caly_Verdict
  imports Caly_State
begin

text \<open>
  The local variables of an XDP program and the \<open>verdict:\<close> block every program of the pipeline ends
  with: monitor-mode demotion, the counters and gauges, the per-source statistics and the event.
  The scratch area is per CPU and no other code runs on it between two tail calls, so a program
  works on a copy (\<open>e_sc\<close>) that is written back when the program ends.

  A stage of a program either jumps to its verdict block or falls through to the next stage.
\<close>

section \<open>Programs as sequences of stages\<close>

datatype act = ACT_PASS | ACT_DROP | ACT_TX

datatype xdp_action = XDP_DROP | XDP_PASS | XDP_TX

record env =
  e_cfg :: fw_config
  e_sc :: caly_scratch
  e_now :: u64
  e_pkt_len :: u32
  e_if_flags :: u64
  e_is_wan :: bool
  e_if_monitor :: bool
  e_is_v4 :: bool
  e_is_syn :: bool
  e_is_icmp :: bool
  e_skey :: src_key
  e_icmp_tc :: u32
  e_icmp_policy :: u32
  e_reason :: u32
  e_act :: act
  e_ban_ttl :: u64
  e_evval :: u64
  e_want_event :: bool
  e_ct_missed :: bool
  e_ct_key_valid :: bool
  e_ban_deferred :: bool
  e_prule :: "port_rule option"

datatype stage_out = Verdict env dp_state | Next env dp_state

type_synonym stage = "env \<Rightarrow> dp_state \<Rightarrow> stage_out"

primrec run_stages :: "stage list \<Rightarrow> env \<Rightarrow> dp_state \<Rightarrow> stage_out" where
  "run_stages [] e s = Next e s"
| "run_stages (f # fs) e s =
     (case f e s of Verdict e s \<Rightarrow> Verdict e s | Next e s \<Rightarrow> run_stages fs e s)"

abbreviation e_pkt :: "env \<Rightarrow> pkt_ctx" where "e_pkt e \<equiv> sc_pkt (e_sc e)"
abbreviation e_flags :: "env \<Rightarrow> u64" where "e_flags e \<equiv> cfg_flags (e_cfg e)"
abbreviation e_mode :: "env \<Rightarrow> u32" where "e_mode e \<equiv> cfg_mode (e_cfg e)"

text \<open>\<open>reason = r; act = CALY_ACT_DROP; goto verdict;\<close> and its pass form.\<close>

definition drop_with :: "u32 \<Rightarrow> env \<Rightarrow> dp_state \<Rightarrow> stage_out" where
  "drop_with r e s = Verdict (e\<lparr>e_reason := r, e_act := ACT_DROP\<rparr>) s"

definition pass_with :: "u32 \<Rightarrow> env \<Rightarrow> dp_state \<Rightarrow> stage_out" where
  "pass_with r e s = Verdict (e\<lparr>e_reason := r\<rparr>) s"

definition set_pkt_flag :: "u32 \<Rightarrow> env \<Rightarrow> env" where
  "set_pkt_flag f e =
     e\<lparr>e_sc := e_sc e\<lparr>sc_pkt := e_pkt e\<lparr>pk_flags := pk_flags (e_pkt e) OR f\<rparr>\<rparr>\<rparr>"

section \<open>The verdict block\<close>

definition monitoring :: "env \<Rightarrow> bool" where
  "monitoring e \<longleftrightarrow>
     has_flag (e_flags e) CALY_F_MONITOR_ONLY \<or> e_mode e = FW_MODE_MONITOR_ONLY \<or> e_if_monitor e"

text \<open>Demotion: the action after it, the verdict code and whether an event is wanted.\<close>

definition vb_demote :: "env \<Rightarrow> dp_state \<Rightarrow> env \<times> caly_verdict \<times> dp_state" where
  "vb_demote e s =
     (if e_act e = ACT_DROP \<and> monitoring e then
        (e\<lparr>e_act := ACT_PASS, e_want_event := True\<rparr>, VERDICT_MONITOR,
         caly_stat STAT_MONITOR_WOULD_DROP (e_pkt_len e) s)
      else if e_act e = ACT_DROP then (e\<lparr>e_want_event := True\<rparr>, VERDICT_DROP, s)
      else if e_act e = ACT_TX then (e\<lparr>e_want_event := True\<rparr>, VERDICT_TX, s)
      else (e, VERDICT_PASS, s))"

definition vb_count :: "env \<Rightarrow> dp_state \<Rightarrow> xdp_action \<times> dp_state" where
  "vb_count e s =
     (let len = e_pkt_len e;
          s = caly_stat STAT_PKT_TOTAL len s;
          s = (if e_reason e \<noteq> STAT_PKT_TOTAL then caly_stat (e_reason e) len s else s)
      in case e_act e of
           ACT_DROP \<Rightarrow> (XDP_DROP, caly_gauge_add G_DROPS 1 (caly_stat STAT_DROP_TOTAL len s))
         | ACT_TX \<Rightarrow> (XDP_TX, caly_stat STAT_TX_TOTAL len s)
         | ACT_PASS \<Rightarrow> (XDP_PASS, caly_stat STAT_PASS_TOTAL len s))"

definition vb_gauges :: "env \<Rightarrow> dp_state \<Rightarrow> dp_state" where
  "vb_gauges e s =
     (let s = caly_gauge_add G_PKTS 1 s;
          s = caly_gauge_add G_BYTES (ucast (e_pkt_len e)) s;
          s = (if e_is_syn e then caly_gauge_add G_SYN 1 s else s);
          s = (if e_is_syn e \<and> e_ct_missed e then caly_gauge_add G_NEWCONN 1 s else s);
          s = (if pk_proto (e_pkt e) = CALY_IPPROTO_UDP then caly_gauge_add G_UDP 1 s else s);
          s = (if e_is_icmp e then caly_gauge_add G_ICMP 1 s else s)
      in if has_flag (pk_flags (e_pkt e)) CALY_PKT_F_FRAG then caly_gauge_add G_FRAG 1 s else s)"

definition vb_srcstats :: "kern \<Rightarrow> env \<Rightarrow> caly_verdict \<Rightarrow> dp_state \<Rightarrow> dp_state" where
  "vb_srcstats k e v s =
     (if has_flag (e_flags e) CALY_F_SRC_STATS \<and> pk_family (e_pkt e) \<noteq> 0 then
        let len = ucast (e_pkt_len e); bad = (v = VERDICT_DROP \<or> v = VERDICT_MONITOR)
        in (case dp_top s (e_skey e) of
              Some ss \<Rightarrow>
                let ss = ss\<lparr>ss_packets := ss_packets ss + 1, ss_bytes := ss_bytes ss + len,
                            ss_last_seen_ns := e_now e\<rparr>;
                    ss = (if bad then ss\<lparr>ss_drops := ss_drops ss + 1,
                                         ss_drop_bytes := ss_drop_bytes ss + len,
                                         ss_last_reason := e_reason e\<rparr> else ss)
                in s\<lparr>dp_top := (dp_top s)(e_skey e \<mapsto> ss)\<rparr>
            | None \<Rightarrow>
                let ss = \<lparr>ss_packets = 1, ss_bytes = len, ss_drops = (if bad then 1 else 0),
                          ss_drop_bytes = (if bad then len else 0), ss_first_seen_ns = e_now e,
                          ss_last_seen_ns = e_now e, ss_last_reason = e_reason e, ss_flags = 0\<rparr>
                in (case k_upd_top k (dp_top s) (e_skey e) ss of
                      None \<Rightarrow> caly_stat STAT_MAP_FULL_SRCSTAT (e_pkt_len e) s
                    | Some m \<Rightarrow> s\<lparr>dp_top := m\<rparr>))
      else s)"

abbreviation (input) CALY_TMP_EV_COUNT :: nat where "CALY_TMP_EV_COUNT \<equiv> 0"
abbreviation (input) CALY_TMP_EV_WIN_NS :: nat where "CALY_TMP_EV_WIN_NS \<equiv> 1"
abbreviation (input) CALY_TMP_EV_IN_WIN :: nat where "CALY_TMP_EV_IN_WIN \<equiv> 2"

definition ev_fill :: "env \<Rightarrow> caly_verdict \<Rightarrow> event" where
  "ev_fill e v =
     (let p = e_pkt e in
      \<lparr>ev_ts_ns = e_now e, ev_ban_ttl_ns = e_ban_ttl e, ev_value = e_evval e,
       ev_saddr = pk_saddr p, ev_daddr = pk_daddr p, ev_ifindex = pk_ifindex p,
       ev_reason = e_reason e, ev_verdict = verdict_code v, ev_proto = pk_proto p,
       ev_pkt_len = e_pkt_len e, ev_family = pk_family p, ev_sport = pk_sport p,
       ev_dport = pk_dport p, ev_tcp_flags = ucast (pk_tcp_flags p), ev_mode = ucast (e_mode e),
       ev_version = 1\<rparr>)"

text \<open>The sampling counter, then the per-second cap, on the scratch words \<open>tmp[0..2]\<close>: whether
  to emit, and the new words.\<close>

definition ev_sample :: "fw_config \<Rightarrow> u64 \<Rightarrow> u64 list \<Rightarrow> bool \<times> u64 list" where
  "ev_sample cfg now tmp =
     (let tmp = tmp[CALY_TMP_EV_COUNT := tmp ! CALY_TMP_EV_COUNT + 1] in
      if tmp ! CALY_TMP_EV_COUNT < ucast (cfg_log_sample_rate cfg) then (False, tmp)
      else
        let tmp = tmp[CALY_TMP_EV_COUNT := 0] in
        if cfg_log_max_pps cfg = 0 then (True, tmp)
        else
          let ws = tmp ! CALY_TMP_EV_WIN_NS;
              tmp = (if now < ws \<or> now - ws \<ge> CALY_NSEC_PER_SEC
                     then tmp[CALY_TMP_EV_WIN_NS := now, CALY_TMP_EV_IN_WIN := 0] else tmp)
          in if tmp ! CALY_TMP_EV_IN_WIN \<ge> ucast (cfg_log_max_pps cfg) then (False, tmp)
             else (True, tmp[CALY_TMP_EV_IN_WIN := tmp ! CALY_TMP_EV_IN_WIN + 1]))"

definition vb_event :: "kern \<Rightarrow> env \<Rightarrow> caly_verdict \<Rightarrow> dp_state \<Rightarrow> env \<times> dp_state" where
  "vb_event k e v s =
     (if e_want_event e \<and> has_flag (e_flags e) CALY_F_LOG_EVENTS \<and> cfg_log_sample_rate (e_cfg e) \<noteq> 0
      then
        let len = e_pkt_len e;
            (emit, tmp) = ev_sample (e_cfg e) (e_now e) (sc_tmp (e_sc e));
            e = e\<lparr>e_sc := e_sc e\<lparr>sc_tmp := tmp\<rparr>\<rparr>
        in if \<not> emit then (e, caly_stat STAT_EVENT_SAMPLED_OUT len s)
           else
             let ev = ev_fill e v;
                 e = e\<lparr>e_sc := e_sc e\<lparr>sc_ev := ev\<rparr>\<rparr>
             in if k_perf k ev
                then (e, caly_gauge_add G_EVENTS 1
                           (caly_stat STAT_EVENT_EMITTED len (s\<lparr>dp_events := dp_events s @ [ev]\<rparr>)))
                else (e, caly_gauge_add G_EVENTS_LOST 1 (caly_stat STAT_EVENT_LOST len s))
      else (e, s))"

text \<open>The whole block; the program of the policy stage has no event part.\<close>

definition verdict_block :: "bool \<Rightarrow> kern \<Rightarrow> env \<Rightarrow> dp_state \<Rightarrow> xdp_action \<times> dp_state" where
  "verdict_block events k e s =
     (let (e, v, s) = vb_demote e s;
          (action, s) = vb_count e s;
          s = vb_gauges e s;
          s = vb_srcstats k e v s;
          (e, s) = (if events then vb_event k e v s else (e, s))
      in (action, s\<lparr>dp_scratch := Some (e_sc e)\<rparr>))"

section \<open>Lemmas\<close>

text \<open>The action the block returns.\<close>

definition final_action :: "env \<Rightarrow> xdp_action" where
  "final_action e =
     (case e_act e of ACT_PASS \<Rightarrow> XDP_PASS | ACT_TX \<Rightarrow> XDP_TX
      | ACT_DROP \<Rightarrow> if monitoring e then XDP_PASS else XDP_DROP)"

lemma fst_verdict_block [simp]: "fst (verdict_block ev k e s) = final_action e"
  by (cases "e_act e")
    (simp_all add: verdict_block_def vb_demote_def vb_count_def final_action_def Let_def split_beta)

lemma gauges_totals [simp]: "totals (vb_gauges e s) = totals s"
  by (simp add: vb_gauges_def Let_def)

lemma srcstats_totals [simp]: "totals (vb_srcstats k e v s) = totals s"
  by (simp add: vb_srcstats_def Let_def split: option.splits)

lemma event_totals [simp]: "totals (snd (vb_event k e v s)) = totals s"
  by (simp add: vb_event_def Let_def split_beta)

text \<open>The totals of one packet with the given outcome.\<close>

definition bump :: "u64 option \<Rightarrow> bool \<Rightarrow> u64 option" where
  "bump v b = (if b then map_option (\<lambda>x. x + 1) v else v)"

definition counted :: "xdp_action \<Rightarrow> dp_state \<Rightarrow> dp_state \<Rightarrow> bool" where
  "counted a s s' \<longleftrightarrow>
     totals s' = (bump (dp_stats s STAT_PKT_TOTAL) True, bump (dp_stats s STAT_PASS_TOTAL) (a = XDP_PASS),
                  bump (dp_stats s STAT_DROP_TOTAL) (a = XDP_DROP), bump (dp_stats s STAT_TX_TOTAL) (a = XDP_TX))"

lemma vb_count_counted:
  assumes "4 \<le> e_reason e"
  shows "counted (fst (vb_count e s)) s (snd (vb_count e s))"
proof -
  have ne: "e_reason e \<noteq> 0" "e_reason e \<noteq> 1" "e_reason e \<noteq> 2" "e_reason e \<noteq> 3"
    using assms by (auto simp: word_le_nat_alt)
  then show ?thesis
    by (cases "e_act e")
      (auto simp: vb_count_def Let_def counted_def totals_def bump_def stat_at)
qed

lemma counted_cong: "counted a s s' \<Longrightarrow> totals s = totals t \<Longrightarrow> totals s' = totals t' \<Longrightarrow> counted a t t'"
  by (simp add: counted_def totals_def)

lemma verdict_block_counted:
  assumes "4 \<le> e_reason e"
  shows "counted (fst (verdict_block ev k e s)) s (snd (verdict_block ev k e s))"
proof -
  obtain e1 v s1 where d: "vb_demote e s = (e1, v, s1)" by (metis prod.exhaust)
  then have r: "e_reason e1 = e_reason e" "totals s1 = totals s"
    by (auto simp: vb_demote_def split: if_splits)
  have c: "counted (fst (vb_count e1 s1)) s1 (snd (vb_count e1 s1))"
    using assms r by (simp add: vb_count_counted)
  have "totals (snd (verdict_block ev k e s)) = totals (snd (vb_count e1 s1))"
    "fst (verdict_block ev k e s) = fst (vb_count e1 s1)"
    by (simp_all add: verdict_block_def d Let_def split_beta del: fst_verdict_block)
  then show ?thesis using counted_cong [OF c r(2)] by metis
qed

end
