(* ===== verification/Caly_Stage.thy ===== *)
theory Caly_Stage
  imports Caly_Verdict
begin

text \<open>
  The contract every stage of the pipeline obeys, as a locale: a stage that starts with a countable
  reason and the pass action leaves the packet's context and the configuration alone, touches none
  of the four grand totals, ends with a countable reason, never asks for a transmission, and falls
  through only with the pass action.  The contract composes over a program's sequence of stages.
\<close>

definition ctx_of :: "env \<Rightarrow> fw_config \<times> u64 \<times> u32 \<times> bool \<times> bool \<times> bool \<times> bool \<times> bool \<times> src_key" where
  "ctx_of e = (e_cfg e, e_now e, e_pkt_len e, e_is_wan e, e_if_monitor e, e_is_v4 e, e_is_syn e,
               e_is_icmp e, e_skey e)"

lemma ctx_of_simps [simp]:
  "ctx_of (e\<lparr>e_sc := x1\<rparr>) = ctx_of e" "ctx_of (e\<lparr>e_icmp_policy := x2\<rparr>) = ctx_of e"
  "ctx_of (e\<lparr>e_reason := x2\<rparr>) = ctx_of e" "ctx_of (e\<lparr>e_act := x3\<rparr>) = ctx_of e"
  "ctx_of (e\<lparr>e_ban_ttl := x4\<rparr>) = ctx_of e" "ctx_of (e\<lparr>e_evval := x4\<rparr>) = ctx_of e"
  "ctx_of (e\<lparr>e_want_event := x5\<rparr>) = ctx_of e" "ctx_of (e\<lparr>e_ct_missed := x5\<rparr>) = ctx_of e"
  "ctx_of (e\<lparr>e_ct_key_valid := x5\<rparr>) = ctx_of e" "ctx_of (e\<lparr>e_ban_deferred := x5\<rparr>) = ctx_of e"
  "ctx_of (e\<lparr>e_prule := x6\<rparr>) = ctx_of e" "ctx_of (set_pkt_flag f e) = ctx_of e"
  by (simp_all add: ctx_of_def set_pkt_flag_def)

lemma set_pkt_flag_simps [simp]:
  "e_reason (set_pkt_flag f e) = e_reason e" "e_act (set_pkt_flag f e) = e_act e"
  "e_cfg (set_pkt_flag f e) = e_cfg e" "e_want_event (set_pkt_flag f e) = e_want_event e"
  by (simp_all add: set_pkt_flag_def)

definition kept :: "env \<Rightarrow> dp_state \<Rightarrow> env \<Rightarrow> dp_state \<Rightarrow> bool" where
  "kept e s e' s' \<longleftrightarrow> 4 \<le> e_reason e' \<and> totals s' = totals s \<and> ctx_of e' = ctx_of e \<and>
                     dp_config s' = dp_config s"

definition out_ok :: "env \<Rightarrow> dp_state \<Rightarrow> stage_out \<Rightarrow> bool" where
  "out_ok e s r = (case r of
     Verdict e' s' \<Rightarrow> kept e s e' s' \<and> e_act e' \<noteq> ACT_TX
   | Next e' s' \<Rightarrow> kept e s e' s' \<and> e_act e' = ACT_PASS)"

lemma out_ok_simps [simp]:
  "out_ok e s (Verdict e' s') \<longleftrightarrow> kept e s e' s' \<and> e_act e' \<noteq> ACT_TX"
  "out_ok e s (Next e' s') \<longleftrightarrow> kept e s e' s' \<and> e_act e' = ACT_PASS"
  "out_ok e s (drop_with r e' s') \<longleftrightarrow>
     4 \<le> r \<and> totals s' = totals s \<and> ctx_of e' = ctx_of e \<and> dp_config s' = dp_config s"
  "out_ok e s (pass_with r e' s') \<longleftrightarrow>
     4 \<le> r \<and> totals s' = totals s \<and> ctx_of e' = ctx_of e \<and> dp_config s' = dp_config s \<and>
     e_act e' \<noteq> ACT_TX"
  by (simp_all add: out_ok_def drop_with_def pass_with_def kept_def)

locale stage =
  fixes f :: stage
  assumes ok: "4 \<le> e_reason e \<Longrightarrow> e_act e = ACT_PASS \<Longrightarrow> out_ok e s (f e s)"
begin

lemma next_kept:
  "4 \<le> e_reason e \<Longrightarrow> e_act e = ACT_PASS \<Longrightarrow> f e s = Next e' s' \<Longrightarrow>
     4 \<le> e_reason e' \<and> e_act e' = ACT_PASS \<and> kept e s e' s'"
  using ok [of e s] by (auto simp: kept_def)

text \<open>A verdict of the stage is counted once, under the action returned for it.\<close>

lemma verdict_counted:
  assumes "4 \<le> e_reason e" "e_act e = ACT_PASS" "f e s = Verdict e' s'"
  shows "counted (fst (verdict_block ev k e' s')) s (snd (verdict_block ev k e' s'))"
proof -
  have "4 \<le> e_reason e'" "totals s' = totals s"
    using ok [of e s] assms by (auto simp: kept_def)
  then show ?thesis
    using counted_cong [OF verdict_block_counted] by blast
qed

text \<open>In monitor mode a verdict of the stage never drops.\<close>

lemma verdict_monitor:
  assumes "4 \<le> e_reason e" "e_act e = ACT_PASS" "f e s = Verdict e' s'" "monitoring e"
  shows "fst (verdict_block ev k e' s') = XDP_PASS"
proof -
  have "ctx_of e' = ctx_of e" "e_act e' \<noteq> ACT_TX"
    using ok [of e s] assms by (auto simp: kept_def)
  with assms(4) show ?thesis
    by (cases "e_act e'") (auto simp: final_action_def monitoring_def ctx_of_def)
qed

end

lemma run_stages_ok:
  assumes "\<forall>f \<in> set fs. stage f" "4 \<le> e_reason e" "e_act e = ACT_PASS"
  shows "out_ok e s (run_stages fs e s)"
  using assms
proof (induction fs arbitrary: e s)
  case Nil
  then show ?case by (simp add: kept_def)
next
  case (Cons f fs)
  then have f: "out_ok e s (f e s)" by (auto intro: stage.ok)
  show ?case
  proof (cases "f e s")
    case (Verdict e1 s1)
    with f show ?thesis by simp
  next
    case (Next e1 s1)
    with f Cons have "out_ok e1 s1 (run_stages fs e1 s1)" by (auto simp: kept_def)
    with f Next show ?thesis
      by (cases "run_stages fs e1 s1") (simp_all add: kept_def)
  qed
qed

lemma run_stages_stage: "\<forall>f \<in> set fs. stage f \<Longrightarrow> stage (run_stages fs)"
  by (simp add: stage_def run_stages_ok)

lemma run_stages_append:
  "run_stages (fs @ gs) e s =
     (case run_stages fs e s of Verdict e s \<Rightarrow> Verdict e s | Next e s \<Rightarrow> run_stages gs e s)"
  by (induction fs arbitrary: e s) (simp_all split: stage_out.splits)

end
