(* ===== verification/Caly_Action.thy ===== *)
theory Caly_Action
  imports Caly_Stage
begin

text \<open>
  The last program of the pipeline, \<open>caly_xdp_action\<close> of \<open>xdp_firewall.bpf.c\<close>: the amplifier filter,
  the port policy, the per-source rate limits with their strikes and bans, the port-scan detector,
  the SYN stage and the learning of new connections.  The SYN proxy it may tail-call is the
  parameter \<open>synproxy\<close>.  The local \<open>ct_hit\<close> of the program is never set, so its test is left out.
\<close>

section \<open>Stages\<close>

definition CALY_PORT_TB_IDX :: "bool \<Rightarrow> u32 \<Rightarrow> u32" where
  "CALY_PORT_TB_IDX is_udp port = (if is_udp then 65536 else 0) + (port AND 0xFFFF)"

definition CALY_RULE_PRESENT :: "port_rule \<Rightarrow> bool" where
  "CALY_RULE_PRESENT r \<longleftrightarrow> has_flag (pr_flags r) CALY_PORT_F_PRESENT"

definition action_amp :: stage where
  "action_amp e s =
     (if has_flag (e_flags e) CALY_F_ANTI_AMPLIFY \<and> has_flag (e_flags e) CALY_F_CAP_TC_EGRESS \<and>
         e_is_wan e \<and> pk_proto (e_pkt e) = CALY_IPPROTO_UDP \<and>
         \<not> has_flag (pk_flags (e_pkt e)) (CALY_PKT_F_L4_TRUNC OR CALY_PKT_F_MGMT)
      then
        let key32 = ucast (ntohs (pk_sport (e_pkt e)))
        in (case dp_port_udp s key32 of
              None \<Rightarrow> Next e s
            | Some sr \<Rightarrow>
                if has_flag (pr_flags sr) CALY_PORT_F_AMPLIFIER
                then drop_with STAT_DROP_AMP_SRCPORT (e\<lparr>e_evval := ucast key32\<rparr>) s
                else Next e s)
      else Next e s)"

text \<open>A rule that was configured for the destination port.\<close>

definition port_rule_apply :: "bool \<Rightarrow> u32 \<Rightarrow> port_rule \<Rightarrow> stage" where
  "port_rule_apply is_udp key32 pr e s =
     (let e = (if has_flag (pr_flags pr) CALY_PORT_F_LOG then e\<lparr>e_want_event := True\<rparr> else e) in
      if has_flag (pr_flags pr) CALY_PORT_F_MGMT
        then pass_with STAT_PASS_MGMT_PORT (set_pkt_flag CALY_PKT_F_MGMT e) s
      else if pr_mode pr = CALY_PORT_CLOSED then drop_with STAT_DROP_PORT_CLOSED e s
      else if pr_mode pr = CALY_PORT_RATELIMIT then
        let tbi = CALY_PORT_TB_IDX is_udp key32
        in (case dp_port_tb s tbi of
              None \<Rightarrow> Next (e\<lparr>e_reason := STAT_PASS_PORT_RATE_OK\<rparr>) s
            | Some tb \<Rightarrow>
                let (ok, tb) = caly_tb_consume tb (e_now e) (pr_rate pr) (pr_burst pr) 1;
                    s = s\<lparr>dp_port_tb := (dp_port_tb s)(tbi \<mapsto> tb)\<rparr>
                in if \<not> ok then drop_with STAT_DROP_PORT_RATE (e\<lparr>e_evval := pr_rate pr\<rparr>) s
                   else Next (e\<lparr>e_reason := STAT_PASS_PORT_RATE_OK\<rparr>) s)
      else Next (e\<lparr>e_reason := STAT_PASS_PORT_OPEN\<rparr>) s)"

definition action_port :: stage where
  "action_port e s =
     (let pkt = e_pkt e; proto = pk_proto pkt;
          deny = (\<lambda>e. if has_flag (e_flags e) CALY_F_DEFAULT_DENY
                       then drop_with STAT_DROP_DEFAULT_DENY e s else Next e s)
      in if has_flag (e_flags e) CALY_F_PORT_POLICY \<and>
            \<not> has_flag (pk_flags pkt) (CALY_PKT_F_L4_TRUNC OR CALY_PKT_F_MGMT) \<and>
            (proto = CALY_IPPROTO_TCP \<or> proto = CALY_IPPROTO_UDP)
         then
           let is_udp = (proto = CALY_IPPROTO_UDP);
               key32 = ucast (ntohs (pk_dport pkt));
               prule = (if is_udp then dp_port_udp s key32 else dp_port_tcp s key32);
               e = e\<lparr>e_prule := prule\<rparr>
           in (case prule of
                 None \<Rightarrow> deny e
               | Some pr \<Rightarrow> if CALY_RULE_PRESENT pr then port_rule_apply is_udp key32 pr e s else deny e)
         else if has_flag (e_flags e) CALY_F_DEFAULT_DENY \<and>
                 \<not> has_flag (pk_flags pkt) CALY_PKT_F_MGMT \<and> \<not> e_is_icmp e \<and>
                 proto \<noteq> CALY_IPPROTO_TCP \<and> proto \<noteq> CALY_IPPROTO_UDP \<and>
                 \<not> has_flag (pk_flags pkt) CALY_PKT_F_L4_TRUNC
         then drop_with (if caly_is_tunnel_proto (ucast proto) \<and> pk_tunnel_depth pkt \<noteq> 0
                         then STAT_DROP_TUNNEL_DEPTH else STAT_DROP_L4_UNKNOWN) e s
         else Next e s)"

text \<open>The first packet of a source: the buckets start full and its tokens are charged without a
  check.\<close>

definition rate_first ::
  "fw_config \<Rightarrow> u64 \<Rightarrow> u32 \<Rightarrow> bool \<Rightarrow> bool \<Rightarrow> bool \<Rightarrow> bool \<Rightarrow> rate_state" where
  "rate_first cfg now want_bytes is_syn is_udp is_icmp newconn =
     (let rs = \<lparr>rs_tb = (\<lambda>k. caly_tb_init now (cfg_tb_burst cfg k)), rs_window_start_ns = now,
                rs_last_seen_ns = now, rs_strikes = 0, rs_last_reason = 0, rs_offences = 0,
                rs_flags = CALY_RS_F_SEEDED\<rparr>;
          rs = snd (rate_draw rs cfg now TB_PPS 1);
          rs = snd (rate_draw rs cfg now TB_BPS (ucast want_bytes));
          rs = (if is_syn then snd (rate_draw rs cfg now TB_SYN 1) else rs);
          rs = (if is_udp then snd (rate_draw rs cfg now TB_UDP 1) else rs);
          rs = (if is_icmp then snd (rate_draw rs cfg now TB_ICMP 1) else rs)
      in if newconn then snd (rate_draw rs cfg now TB_NEWCONN 1) else rs)"

text \<open>The if-else chain over the buckets of a known source: the reason of the bucket that is
  exhausted, with its rate as the event value.  \<open>charge_one\<close> is one arm, \<open>cont\<close> the rest of the
  chain; an arm whose protocol test fails draws nothing.\<close>

definition charge_one ::
  "fw_config \<Rightarrow> u64 \<Rightarrow> bool \<Rightarrow> caly_tb_kind \<Rightarrow> u64 \<Rightarrow> u32 \<Rightarrow> (rate_state \<Rightarrow> u32 \<times> u64 \<times> rate_state)
   \<Rightarrow> rate_state \<Rightarrow> u32 \<times> u64 \<times> rate_state" where
  "charge_one cfg now applies k want reason cont rs =
     (if applies then
        let (ok, rs) = rate_draw rs cfg now k want
        in if \<not> ok then (reason, cfg_tb_rate cfg k, rs) else cont rs
      else cont rs)"

definition rate_charge ::
  "rate_state \<Rightarrow> fw_config \<Rightarrow> u64 \<Rightarrow> u32 \<Rightarrow> bool \<Rightarrow> bool \<Rightarrow> bool \<Rightarrow> bool \<Rightarrow> u64
   \<Rightarrow> u32 \<times> u64 \<times> rate_state" where
  "rate_charge rs cfg now want_bytes is_syn is_udp is_icmp newconn evval =
     charge_one cfg now True TB_PPS 1 STAT_DROP_RATE_PPS
     (charge_one cfg now True TB_BPS (ucast want_bytes) STAT_DROP_RATE_BPS
     (charge_one cfg now is_syn TB_SYN 1 STAT_DROP_RATE_SYN
     (charge_one cfg now is_udp TB_UDP 1 STAT_DROP_RATE_UDP
     (charge_one cfg now is_icmp TB_ICMP 1 STAT_DROP_RATE_ICMP
     (charge_one cfg now newconn TB_NEWCONN 1 STAT_DROP_RATE_NEWCONN
     (\<lambda>rs. (STAT_PKT_TOTAL, evval, rs))))))) rs"

definition xdp_strike :: "fw_config \<Rightarrow> u64 \<Rightarrow> u32 \<Rightarrow> rate_state \<Rightarrow> rate_state" where
  "xdp_strike cfg now hit rs =
     (let win = (if cfg_strike_window_ns cfg = 0 then 60 * CALY_NSEC_PER_SEC
                 else cfg_strike_window_ns cfg);
          rs = (if now < rs_window_start_ns rs \<or> now - rs_window_start_ns rs > win
                then rs\<lparr>rs_window_start_ns := now, rs_strikes := 0\<rparr> else rs);
          rs = (if rs_strikes rs < 0xFFFFFFFF then rs\<lparr>rs_strikes := rs_strikes rs + 1\<rparr> else rs)
      in rs\<lparr>rs_last_reason := hit, rs_flags := rs_flags rs OR CALY_RS_F_STRIKING\<rparr>)"

definition action_rate :: "kern \<Rightarrow> stage" where
  "action_rate k e s =
     (if has_flag (e_flags e) CALY_F_RATE_LIMIT \<and> \<not> has_flag (pk_flags (e_pkt e)) CALY_PKT_F_ALLOWLIST
      then
        let cfg = e_cfg e; now = e_now e; key = e_skey e; len = e_pkt_len e;
            is_udp = (pk_proto (e_pkt e) = CALY_IPPROTO_UDP);
            newconn = (e_is_syn e \<and> e_ct_missed e)
        in (case dp_rate s key of
              None \<Rightarrow>
                (case k_upd_rate k (dp_rate s) key
                        (rate_first cfg now len (e_is_syn e) is_udp (e_is_icmp e) newconn) of
                   None \<Rightarrow> Next e (caly_stat STAT_MAP_FULL_RATE len s)
                 | Some m \<Rightarrow> Next e (s\<lparr>dp_rate := m\<rparr>))
            | Some rs \<Rightarrow>
                let (hit, evval, rs) = rate_charge (rs\<lparr>rs_last_seen_ns := now\<rparr>) cfg now len
                                         (e_is_syn e) is_udp (e_is_icmp e) newconn (e_evval e)
                in if hit = STAT_PKT_TOTAL then Next e (s\<lparr>dp_rate := (dp_rate s)(key \<mapsto> rs)\<rparr>)
                   else
                     let rs = xdp_strike cfg now hit rs;
                         s = caly_stat STAT_STRIKE_ADDED len (s\<lparr>dp_rate := (dp_rate s)(key \<mapsto> rs)\<rparr>);
                         e = e\<lparr>e_evval := evval\<rparr>
                     in if has_flag (e_flags e) CALY_F_AUTOBAN \<and> cfg_strike_limit cfg \<noteq> 0 \<and>
                           \<not> is_udp \<and> \<not> e_is_icmp e \<and> rs_strikes rs \<ge> cfg_strike_limit cfg
                        then
                          let (ban_ttl, sc, s) = caly_ban_install k (e_sc e) cfg key now hit 0
                                                   (rs_strikes rs) len s;
                              rs = (if ban_ttl \<noteq> 0
                                    then rs\<lparr>rs_offences := rs_offences rs + 1, rs_strikes := 0,
                                            rs_window_start_ns := now\<rparr> else rs);
                              s = s\<lparr>dp_rate := (dp_rate s)(key \<mapsto> rs)\<rparr>
                          in drop_with hit (e\<lparr>e_sc := sc, e_ban_ttl := ban_ttl\<rparr>) s
                        else drop_with hit e s)
      else Next e s)"

definition scan_first :: "u64 \<Rightarrow> u16 \<Rightarrow> scan_state" where
  "scan_first now dport_h =
     (let sn = \<lparr>sn_window_start_ns = 0, sn_last_seen_ns = 0, sn_bitmap = replicate 8 0,
                sn_distinct = 0, sn_hits = 0, sn_last_port = 0, sn_flags = 0\<rparr>;
          sn = (caly_scan_reset sn now)\<lparr>sn_last_seen_ns := now, sn_hits := 1\<rparr>;
          sn = snd (caly_scan_mark sn dport_h)
      in sn\<lparr>sn_last_port := ucast dport_h\<rparr>)"

definition scan_touch :: "fw_config \<Rightarrow> u64 \<Rightarrow> u16 \<Rightarrow> scan_state \<Rightarrow> scan_state" where
  "scan_touch cfg now dport_h st =
     (let win = (if cfg_scan_window_ns cfg = 0 then 30 * CALY_NSEC_PER_SEC else cfg_scan_window_ns cfg);
          st = (if now < sn_window_start_ns st \<or> now - sn_window_start_ns st > win
                then caly_scan_reset st now else st);
          st = st\<lparr>sn_last_seen_ns := now\<rparr>;
          st = (if sn_hits st < 0xFFFFFFFF then st\<lparr>sn_hits := sn_hits st + 1\<rparr> else st)
      in if sn_last_port st \<noteq> ucast dport_h
         then (snd (caly_scan_mark st dport_h))\<lparr>sn_last_port := ucast dport_h\<rparr> else st)"

definition action_scan :: "kern \<Rightarrow> stage" where
  "action_scan k e s =
     (let pkt = e_pkt e in
      if has_flag (e_flags e) CALY_F_PORTSCAN_DETECT \<and>
         \<not> has_flag (pk_flags pkt) (CALY_PKT_F_L4_TRUNC OR CALY_PKT_F_ALLOWLIST) \<and>
         (pk_proto pkt = CALY_IPPROTO_TCP \<or> pk_proto pkt = CALY_IPPROTO_UDP)
      then
        let cfg = e_cfg e; now = e_now e; key = e_skey e; len = e_pkt_len e;
            dport_h = ntohs (pk_dport pkt)
        in (case dp_scan s key of
              None \<Rightarrow>
                (case k_upd_scan k (dp_scan s) key (scan_first now dport_h) of
                   None \<Rightarrow> Next e (caly_stat STAT_MAP_FULL_SCAN len s)
                 | Some m \<Rightarrow> Next e (s\<lparr>dp_scan := m\<rparr>))
            | Some st \<Rightarrow>
                let st = scan_touch cfg now dport_h st
                in if cfg_scan_port_threshold cfg \<noteq> 0 \<and> sn_distinct st > cfg_scan_port_threshold cfg
                   then
                     let (ban_ttl, sc, s) = caly_ban_install k (e_sc e) cfg key now STAT_DROP_PORTSCAN
                                              (cfg_ban_ttl_scan_ns cfg) (sn_distinct st) len s;
                         s = s\<lparr>dp_scan := (dp_scan s)(key \<mapsto> caly_scan_reset st now)\<rparr>
                     in drop_with STAT_DROP_PORTSCAN
                          (e\<lparr>e_evval := ucast (sn_distinct st), e_sc := sc, e_ban_ttl := ban_ttl\<rparr>) s
                   else Next e (s\<lparr>dp_scan := (dp_scan s)(key \<mapsto> st)\<rparr>))
      else Next e s)"

text \<open>The proxy half of the SYN stage: whether the tail call was taken, and the state otherwise.\<close>

definition action_syn_proxy :: "kern \<Rightarrow> env \<Rightarrow> dp_state \<Rightarrow> bool \<times> dp_state" where
  "action_syn_proxy k e s =
     (if e_is_syn e \<and> has_flag (e_flags e) CALY_F_SYNPROXY \<and> has_flag (e_flags e) CALY_F_CAP_SYNPROXY \<and>
         e_mode e = FW_MODE_UNDER_ATTACK
      then
        let len = e_pkt_len e;
            spr = (case e_prule e of Some r \<Rightarrow> Some r
                   | None \<Rightarrow> dp_port_tcp s (ucast (ntohs (pk_dport (e_pkt e)))))
        in (case spr of
              Some r \<Rightarrow>
                if has_flag (pr_flags r) CALY_PORT_F_SYNPROXY then
                  if k_tail k CALY_PROG_IDX_SYNPROXY then (True, s)
                  else (False, caly_stat STAT_SYNPROXY_UNAVAIL len (caly_stat STAT_TAILCALL_FAIL len s))
                else (False, caly_stat STAT_SYNPROXY_SKIPPED len s)
            | None \<Rightarrow> (False, caly_stat STAT_SYNPROXY_SKIPPED len s))
      else (False, s))"

definition action_syn_fallback :: stage where
  "action_syn_fallback e s =
     (if e_is_syn e \<and> \<not> has_flag (e_flags e) CALY_F_CAP_SYNPROXY \<and> cfg_syn_fallback_pps (e_cfg e) \<noteq> 0
      then
        let key32 = CALY_PORT_TB_IDX False 0; pps = cfg_syn_fallback_pps (e_cfg e)
        in (case dp_port_tb s key32 of
              None \<Rightarrow> Next e s
            | Some gb \<Rightarrow>
                let (ok, gb) = caly_tb_consume gb (e_now e) pps pps 1;
                    s = s\<lparr>dp_port_tb := (dp_port_tb s)(key32 \<mapsto> gb)\<rparr>
                in if \<not> ok then drop_with STAT_DROP_RATE_GLOBAL_SYN (e\<lparr>e_evval := pps\<rparr>) s
                   else Next e s)
      else Next e s)"

definition ct_learn :: "u64 \<Rightarrow> u32 \<Rightarrow> pkt_ctx \<Rightarrow> conn_state" where
  "ct_learn now pkt_len pkt =
     \<lparr>cs_created_ns = now, cs_last_seen_ns = now, cs_pkts_in = 1, cs_bytes_in = ucast pkt_len,
      cs_pkts_out = 0, cs_bytes_out = 0, cs_state = CALY_CT_SYN_RECV,
      cs_flags = (if has_flag (pk_flags pkt) CALY_PKT_F_MGMT then CALY_CT_F_MGMT else 0) OR
                 (if has_flag (pk_flags pkt) CALY_PKT_F_ALLOWLIST then CALY_CT_F_ALLOWLIST else 0),
      cs_ifindex = pk_ifindex pkt, cs_mark = 0\<rparr>"

definition action_learn :: "kern \<Rightarrow> stage" where
  "action_learn k e s =
     (let pkt = e_pkt e; len = e_pkt_len e;
          no_ct = (case e_prule e of None \<Rightarrow> False | Some r \<Rightarrow> has_flag (pr_flags r) CALY_PORT_F_NO_CT);
          (e, s) =
            (if has_flag (e_flags e) CALY_F_CONNTRACK \<and> e_ct_key_valid e \<and> e_ct_missed e \<and> e_is_syn e \<and>
                pk_proto pkt = CALY_IPPROTO_TCP \<and> \<not> no_ct
             then
               let cs = ct_learn (e_now e) len pkt; e = e\<lparr>e_sc := e_sc e\<lparr>sc_cs := cs\<rparr>\<rparr>
               in (case k_upd_conn k (dp_conn s) (sc_ck (e_sc e)) cs of
                     None \<Rightarrow> (e, caly_stat STAT_CT_FULL len s)
                   | Some m \<Rightarrow> (e, caly_stat STAT_CT_CREATED len (s\<lparr>dp_conn := m\<rparr>)))
             else (e, s))
      in Next (if e_reason e = STAT_PASS_DEFAULT \<and> \<not> e_is_wan e
               then e\<lparr>e_reason := STAT_PASS_LAN_IFACE\<rparr> else e) s)"

section \<open>The program\<close>

text \<open>The locals as the program reloads them from the scratch area.\<close>

definition action_env :: "fw_config \<Rightarrow> caly_scratch \<Rightarrow> env" where
  "action_env cfg sc =
     (let pkt = sc_pkt sc in
      \<lparr>e_cfg = cfg, e_sc = sc, e_now = pk_ts_ns pkt, e_pkt_len = pk_pkt_len pkt, e_if_flags = 0,
       e_is_wan = (sc_carry_is_wan sc \<noteq> 0), e_if_monitor = (sc_carry_if_monitor sc \<noteq> 0),
       e_is_v4 = (pk_family pkt = CALY_AF_INET),
       e_is_syn = (pk_proto pkt = CALY_IPPROTO_TCP \<and> has_flag (pk_tcp_flags pkt) CALY_TCP_SYN \<and>
                   \<not> has_flag (pk_tcp_flags pkt) CALY_TCP_ACK),
       e_is_icmp = (pk_proto pkt = CALY_IPPROTO_ICMP \<or> pk_proto pkt = CALY_IPPROTO_ICMPV6),
       e_skey = (if pk_family pkt = CALY_AF_INET then K4 (q0 (pk_saddr pkt)) else K6 (pk_saddr pkt)),
       e_icmp_tc = 0, e_icmp_policy = CALY_ICMP_PASS, e_reason = STAT_PASS_DEFAULT, e_act = ACT_PASS,
       e_ban_ttl = 0, e_evval = 0, e_want_event = False,
       e_ct_missed = (sc_carry_ct_missed sc \<noteq> 0), e_ct_key_valid = (sc_carry_ct_key_valid sc \<noteq> 0),
       e_ban_deferred = False, e_prule = None\<rparr>)"

definition action_verdict :: "kern \<Rightarrow> env \<Rightarrow> dp_state \<Rightarrow> xdp_action \<times> dp_state" where
  "action_verdict = verdict_block True"

text \<open>No configuration or no scratch area: counted and passed.\<close>

definition fail_open :: "u32 \<Rightarrow> u32 \<Rightarrow> dp_state \<Rightarrow> xdp_action \<times> dp_state" where
  "fail_open reason len s =
     (XDP_PASS, caly_stat STAT_PASS_TOTAL len (caly_stat reason len (caly_stat STAT_PKT_TOTAL len s)))"

type_synonym prog = "bytes \<Rightarrow> dp_state \<Rightarrow> xdp_action \<times> dp_state"

definition caly_xdp_action :: "kern \<Rightarrow> prog \<Rightarrow> prog" where
  "caly_xdp_action k synproxy d s =
     (case dp_config s of None \<Rightarrow> fail_open STAT_CONFIG_MISSING 0 s
      | Some cfg \<Rightarrow>
     (case dp_scratch s of None \<Rightarrow> fail_open STAT_SCRATCH_FAIL 0 s
      | Some sc \<Rightarrow>
     (case run_stages [action_amp, action_port, action_rate k, action_scan k] (action_env cfg sc) s of
        Verdict e s \<Rightarrow> action_verdict k e s
      | Next e s \<Rightarrow>
          let (taken, s) = action_syn_proxy k e s
          in if taken then synproxy d (s\<lparr>dp_scratch := Some (e_sc e)\<rparr>)
             else (case run_stages [action_syn_fallback, action_learn k] e s of
                     Verdict e s \<Rightarrow> action_verdict k e s
                   | Next e s \<Rightarrow> action_verdict k e s))))"

section \<open>The stages obey the contract\<close>

interpretation amp: stage action_amp
  by unfold_locales (auto simp: action_amp_def Let_def kept_def split: option.splits)

lemma port_rule_apply_ok:
  assumes "4 \<le> e_reason e" "e_act e = ACT_PASS" "ctx_of e = ctx_of e0"
  shows "out_ok e0 s (port_rule_apply u key pr e s)"
  using assms
  by (cases "dp_port_tb s (CALY_PORT_TB_IDX u key)")
    (auto simp: port_rule_apply_def Let_def kept_def split_beta)

interpretation port: stage action_port
proof
  fix e :: env and s
  assume a: "4 \<le> e_reason e" "e_act e = ACT_PASS"
  then have p: "out_ok e s (port_rule_apply u key pr (e\<lparr>e_prule := x\<rparr>) s)" for u key pr x
    by (simp add: port_rule_apply_ok)
  show "out_ok e s (action_port e s)"
    using a p by (simp add: action_port_def Let_def kept_def split: option.splits)
qed

text \<open>The inline chain refines the check of \<open>ratelimit.h\<close> on a seeded entry.\<close>

lemma charge_one_walk:
  assumes "\<And>rs. rate_walk cfg now p rs = (fst (cont rs), snd (snd (cont rs)))"
  shows "rate_walk cfg now ((if a then [(k, want, r)] else []) @ p) rs =
         (fst (charge_one cfg now a k want r cont rs), snd (snd (charge_one cfg now a k want r cont rs)))"
  by (simp add: charge_one_def assms split_beta Let_def)

lemma rate_charge_walk:
  "rate_walk cfg now (plan_of bytes syn udp icmp new) rs =
     (fst (rate_charge rs cfg now bytes syn udp icmp new ev),
      snd (snd (rate_charge rs cfg now bytes syn udp icmp new ev)))"
proof -
  have end_chain: "rate_walk cfg now [] rs = (fst (STAT_PKT_TOTAL, ev, rs), snd (snd (STAT_PKT_TOTAL, ev, rs)))"
    for rs by simp
  have plan: "plan_of bytes syn udp icmp new =
    (if True then [(TB_PPS, 1, STAT_DROP_RATE_PPS)] else []) @
    (if True then [(TB_BPS, ucast bytes, STAT_DROP_RATE_BPS)] else []) @
    (if syn then [(TB_SYN, 1, STAT_DROP_RATE_SYN)] else []) @
    (if udp then [(TB_UDP, 1, STAT_DROP_RATE_UDP)] else []) @
    (if icmp then [(TB_ICMP, 1, STAT_DROP_RATE_ICMP)] else []) @
    (if new then [(TB_NEWCONN, 1, STAT_DROP_RATE_NEWCONN)] else []) @ []"
    by (simp add: plan_of_def)
  show ?thesis
    unfolding plan rate_charge_def by (intro charge_one_walk end_chain)
qed

lemma charge_one_reason:
  assumes "\<And>rs. fst (cont rs) = STAT_PKT_TOTAL \<or> 4 \<le> fst (cont rs)" "4 \<le> r"
  shows "fst (charge_one cfg now a k want r cont rs) = STAT_PKT_TOTAL \<or>
         4 \<le> fst (charge_one cfg now a k want r cont rs)"
  using assms by (simp add: charge_one_def split_beta Let_def)

lemma rate_charge_reason:
  "fst (rate_charge rs cfg now bytes syn udp icmp new ev) = STAT_PKT_TOTAL \<or>
   4 \<le> fst (rate_charge rs cfg now bytes syn udp icmp new ev)"
  unfolding rate_charge_def by (intro charge_one_reason) simp_all

text \<open>The stage once the packet has hit a limit.\<close>

lemma rate_hit_ok:
  assumes "4 \<le> e_reason e" "e_act e = ACT_PASS"
  shows "out_ok e s (action_rate k e s)"
proof (cases "dp_rate s (e_skey e)")
  case None
  with assms show ?thesis
    by (simp add: action_rate_def Let_def kept_def split: option.splits)
next
  case (Some rs)
  define c where "c = rate_charge (rs\<lparr>rs_last_seen_ns := e_now e\<rparr>) (e_cfg e) (e_now e) (e_pkt_len e)
      (e_is_syn e) (pk_proto (e_pkt e) = CALY_IPPROTO_UDP) (e_is_icmp e)
      (e_is_syn e \<and> e_ct_missed e) (e_evval e)"
  have "fst c = STAT_PKT_TOTAL \<or> 4 \<le> fst c"
    unfolding c_def by (rule rate_charge_reason)
  with Some assms show ?thesis
    unfolding action_rate_def Let_def Some option.case c_def [symmetric]
    by (simp add: kept_def split_beta) blast
qed

interpretation rate: stage "action_rate k"
  by unfold_locales (rule rate_hit_ok)

interpretation scan: stage "action_scan k"
proof
  fix e :: env and s
  assume a: "4 \<le> e_reason e" "e_act e = ACT_PASS"
  show "out_ok e s (action_scan k e s)"
    using a by (simp add: action_scan_def Let_def kept_def split_beta split: option.splits)
qed

interpretation fallback: stage action_syn_fallback
  by unfold_locales (simp add: action_syn_fallback_def Let_def kept_def split_beta split: option.splits)

interpretation learn: stage "action_learn k"
  by unfold_locales (simp add: action_learn_def Let_def kept_def split_beta split: option.splits)

end
