(* ===== verification/Caly_Policy.thy ===== *)
theory Caly_Policy
  imports Caly_Action
begin

text \<open>
  The third program of the pipeline, \<open>caly_xdp_policy\<close> of \<open>xdp_firewall.bpf.c\<close>: the stateless
  checks, ICMP policy, source filters, the allow list, the management escape, the block list and
  bans, connection tracking, the deferred bans, the SYN-ACK check and the lockdown.
\<close>

section \<open>Stages\<close>

definition policy_land :: stage where
  "policy_land e s =
     (if has_flag (e_flags e) CALY_F_LAND_CHECK \<and> pk_saddr (e_pkt e) = pk_daddr (e_pkt e)
      then drop_with STAT_DROP_LAND e s else Next e s)"

definition policy_tcp :: stage where
  "policy_tcp e s =
     (let pkt = e_pkt e; bad = caly_tcp_flags_illegal (ucast (pk_tcp_flags pkt)) in
      if pk_proto pkt = CALY_IPPROTO_TCP \<and> \<not> has_flag (pk_flags pkt) CALY_PKT_F_L4_TRUNC then
        if has_flag (e_flags e) CALY_F_TCP_FLAG_CHECKS \<and> bad \<noteq> STAT_PKT_TOTAL then drop_with bad e s
        else if has_flag (e_flags e) CALY_F_ANOMALY_CHECKS \<and> (pk_sport pkt = 0 \<or> pk_dport pkt = 0)
          then drop_with STAT_DROP_L4_PORT_ZERO e s
        else Next e s
      else Next e s)"

definition policy_udp :: stage where
  "policy_udp e s =
     (let pkt = e_pkt e in
      if pk_proto pkt = CALY_IPPROTO_UDP \<and> \<not> has_flag (pk_flags pkt) CALY_PKT_F_L4_TRUNC \<and>
         has_flag (e_flags e) CALY_F_ANOMALY_CHECKS \<and> (pk_sport pkt = 0 \<or> pk_dport pkt = 0)
      then drop_with STAT_DROP_L4_PORT_ZERO e s else Next e s)"

text \<open>The types that keep path-MTU discovery and neighbour discovery alive.\<close>

definition icmp_mandatory :: "bool \<Rightarrow> u32 \<Rightarrow> bool" where
  "icmp_mandatory is_v4 itype \<longleftrightarrow>
     (if is_v4 then itype = 3 else itype = 2 \<or> itype = 133 \<or> itype = 134 \<or> itype = 135 \<or> itype = 136)"

definition policy_icmp :: stage where
  "policy_icmp e s =
     (if e_is_icmp e then
        let pkt = e_pkt e; is_v4 = e_is_v4 e; cfg = e_cfg e;
            itype = drop_bit 8 (e_icmp_tc e) AND 0xFF;
            payload = (if pk_l4_len pkt \<ge> 8 then ucast (pk_l4_len pkt) - 8 else 0);
            maxpay = (if is_v4 then cfg_icmp_max_payload cfg else cfg_icmp6_max_payload cfg);
            mandatory = icmp_mandatory is_v4 itype;
            pol = (if is_v4 then dp_icmp4_pol s itype else dp_icmp6_pol s itype);
            policy = (if mandatory then CALY_ICMP_PASS
                      else case pol of None \<Rightarrow> CALY_ICMP_PASS | Some p \<Rightarrow> p);
            e' = e\<lparr>e_icmp_policy := policy\<rparr>
        in if has_flag (e_flags e) CALY_F_FRAG_CHECKS \<and> has_flag (pk_flags pkt) CALY_PKT_F_FRAG
             then drop_with STAT_DROP_FRAG_ICMP e s
           else if maxpay \<noteq> 0 \<and> payload > maxpay
             then drop_with (if is_v4 then STAT_DROP_ICMP_OVERSIZE else STAT_DROP_ICMP6_OVERSIZE) e s
           else if mandatory then
             pass_with (if is_v4 then STAT_PASS_ICMP4_PMTUD
                        else if itype = 2 then STAT_PASS_ICMP6_PMTUD else STAT_PASS_ICMP6_ND) e' s
           else if has_flag (e_flags e) CALY_F_ICMP_FILTER \<and> policy = CALY_ICMP_DROP
             then drop_with (if is_v4 then STAT_DROP_ICMP_TYPE else STAT_DROP_ICMP6_TYPE) e' s
           else Next e' s
      else Next e s)"

text \<open>The bytes of an address word in memory.\<close>

definition word_bytes :: "u32 \<Rightarrow> bytes" where
  "word_bytes w = [ucast w, ucast (drop_bit 8 w), ucast (drop_bit 16 w), ucast (drop_bit 24 w)]"

definition policy_bogon :: "kern \<Rightarrow> stage" where
  "policy_bogon k e s =
     (if has_flag (e_flags e) CALY_F_BOGON_FILTER \<and> e_is_wan e then
        let a = pk_saddr (e_pkt e);
            drop_private = (has_flag (e_flags e) CALY_F_WAN_DROP_PRIVATE \<or>
                            has_flag (e_if_flags e) CALY_IF_F_DROP_PRIVATE);
            bog = (if e_is_v4 e then caly_v4_src_bogon (word_bytes (q0 a)) drop_private
                   else caly_v6_src_bogon (word_bytes (q0 a) @ word_bytes (q1 a) @ word_bytes (q2 a)
                                           @ word_bytes (q3 a)) drop_private)
        in if bog \<noteq> STAT_PKT_TOTAL then drop_with bog e s
           else (case lpm_find k (dp_local s) (lpm_src (e_is_v4 e) a) of
                   Some _ \<Rightarrow> drop_with STAT_DROP_SRC_SELF e s
                 | None \<Rightarrow> Next e s)
      else Next e s)"

definition policy_allow :: "kern \<Rightarrow> stage" where
  "policy_allow k e s =
     (if has_flag (e_flags e) CALY_F_ALLOWLIST then
        (case lpm_find k (dp_allow s) (lpm_src (e_is_v4 e) (pk_saddr (e_pkt e))) of
           None \<Rightarrow> Next e s
         | Some (p, rm) \<Rightarrow>
             let s = s\<lparr>dp_allow := (dp_allow s)(p \<mapsto> rm\<lparr>rm_hits := rm_hits rm + 1\<rparr>)\<rparr>;
                 e = set_pkt_flag CALY_PKT_F_ALLOWLIST e;
                 e = (if has_flag (rm_flags rm) CALY_RULE_F_LOG then e\<lparr>e_want_event := True\<rparr> else e)
             in pass_with STAT_PASS_ALLOWLIST e s)
      else Next e s)"

definition is_mgmt :: "env \<Rightarrow> bool" where
  "is_mgmt e \<longleftrightarrow>
     (let pkt = e_pkt e in
      if pk_proto pkt = CALY_IPPROTO_TCP then caly_is_mgmt_tcp (e_cfg e) (ntohs (pk_dport pkt))
      else if pk_proto pkt = CALY_IPPROTO_UDP then caly_is_mgmt_udp (e_cfg e) (ntohs (pk_dport pkt))
      else False)"

definition policy_mgmt :: stage where
  "policy_mgmt e s =
     (if \<not> has_flag (pk_flags (e_pkt e)) CALY_PKT_F_L4_TRUNC \<and> is_mgmt e then
        let e = set_pkt_flag CALY_PKT_F_MGMT e
        in if has_flag (e_flags e) CALY_F_MGMT_BYPASS_ALL then pass_with STAT_PASS_MGMT_PORT e s
           else Next e s
      else Next e s)"

definition policy_block :: "kern \<Rightarrow> stage" where
  "policy_block k e s =
     (if \<not> has_flag (pk_flags (e_pkt e)) CALY_PKT_F_MGMT \<and> has_flag (e_flags e) CALY_F_BLOCKLIST then
        (case lpm_find k (dp_block s) (lpm_src (e_is_v4 e) (pk_saddr (e_pkt e))) of
           None \<Rightarrow> Next e s
         | Some (p, rm) \<Rightarrow>
             drop_with STAT_DROP_BLOCKLIST e
               (s\<lparr>dp_block := (dp_block s)(p \<mapsto> rm\<lparr>rm_hits := rm_hits rm + 1\<rparr>)\<rparr>))
      else Next e s)"

definition ban_active :: "u64 \<Rightarrow> ban_entry \<Rightarrow> bool" where
  "ban_active now be \<longleftrightarrow> has_flag (be_flags be) CALY_BAN_F_PERMANENT \<or> be_expiry_ns be > now"

text \<open>Charging the packet to an active ban and dropping it.\<close>

definition ban_drop :: "ban_entry \<Rightarrow> stage" where
  "ban_drop be e s =
     (let be = be\<lparr>be_last_hit_ns := e_now e, be_hit_pkts := be_hit_pkts be + 1,
                  be_hit_bytes := be_hit_bytes be + ucast (e_pkt_len e)\<rparr>;
          s = s\<lparr>dp_ban := (dp_ban s)(e_skey e \<mapsto> be)\<rparr>;
          e = e\<lparr>e_evval := (if be_expiry_ns be > e_now e then be_expiry_ns be - e_now e else 0),
                e_ban_ttl := be_cur_ttl_ns be\<rparr>
      in drop_with STAT_DROP_BAN_ACTIVE e s)"

definition policy_ban :: stage where
  "policy_ban e s =
     (if \<not> has_flag (pk_flags (e_pkt e)) CALY_PKT_F_MGMT then
        (case dp_ban s (e_skey e) of
           None \<Rightarrow> Next e s
         | Some be \<Rightarrow>
             if ban_active (e_now e) be then
               if has_flag (be_flags be) (CALY_BAN_F_MANUAL OR CALY_BAN_F_FEED OR CALY_BAN_F_PERMANENT)
               then ban_drop be e s
               else Next (e\<lparr>e_ban_deferred := True\<rparr>) s
             else Next e s)
      else Next e s)"

definition ct_key_of :: "pkt_ctx \<Rightarrow> conn_key" where
  "ct_key_of pkt = \<lparr>ck_saddr = pk_saddr pkt, ck_daddr = pk_daddr pkt, ck_sport = pk_sport pkt,
     ck_dport = pk_dport pkt, ck_proto = ucast (pk_proto pkt), ck_family = ucast (pk_family pkt),
     ck_pad = (0, 0)\<rparr>"

definition ct_timeout :: "fw_config \<Rightarrow> u32 \<Rightarrow> bool \<Rightarrow> conn_state \<Rightarrow> u64" where
  "ct_timeout cfg proto is_icmp cs =
     (if proto = CALY_IPPROTO_TCP then
        (if cs_state cs = CALY_CT_ESTABLISHED then cfg_ct_tcp_est_ns cfg
         else if cs_state cs = CALY_CT_FIN_WAIT \<or> cs_state cs = CALY_CT_CLOSED then cfg_ct_tcp_fin_ns cfg
         else cfg_ct_tcp_syn_ns cfg)
      else if proto = CALY_IPPROTO_UDP then
        (if has_flag (cs_flags cs) CALY_CT_F_SEEN_REPLY then cfg_ct_udp_stream_ns cfg else cfg_ct_udp_ns cfg)
      else if is_icmp then cfg_ct_icmp_ns cfg
      else cfg_ct_generic_ns cfg)"

text \<open>The transition of a live entry on an ingress packet.\<close>

definition ct_advance :: "u32 \<Rightarrow> u32 \<Rightarrow> conn_state \<Rightarrow> conn_state" where
  "ct_advance proto tcp_flags cs =
     (if proto = CALY_IPPROTO_TCP then
        if has_flag tcp_flags CALY_TCP_RST then cs\<lparr>cs_state := CALY_CT_CLOSED\<rparr>
        else if has_flag tcp_flags CALY_TCP_FIN then cs\<lparr>cs_state := CALY_CT_FIN_WAIT\<rparr>
        else if has_flag tcp_flags CALY_TCP_ACK \<and>
                (cs_state cs = CALY_CT_SYN_RECV \<or> cs_state cs = CALY_CT_SYN_SENT \<or> cs_state cs = CALY_CT_NEW)
          then cs\<lparr>cs_state := CALY_CT_ESTABLISHED, cs_flags := cs_flags cs OR CALY_CT_F_SEEN_REPLY\<rparr>
        else cs
      else if cs_state cs = CALY_CT_NEW
        then cs\<lparr>cs_state := CALY_CT_ESTABLISHED, cs_flags := cs_flags cs OR CALY_CT_F_SEEN_REPLY\<rparr>
      else cs)"

definition ct_live :: "env \<Rightarrow> conn_state \<Rightarrow> bool" where
  "ct_live e cs \<longleftrightarrow>
     (let idle = (if e_now e \<ge> cs_last_seen_ns cs then e_now e - cs_last_seen_ns cs else 0);
          timeout = ct_timeout (e_cfg e) (pk_proto (e_pkt e)) (e_is_icmp e) cs
      in \<not> (timeout \<noteq> 0 \<and> idle > timeout))"

definition policy_conntrack :: stage where
  "policy_conntrack e s =
     (let pkt = e_pkt e; len = e_pkt_len e in
      if has_flag (e_flags e) CALY_F_CONNTRACK \<and> \<not> has_flag (pk_flags pkt) CALY_PKT_F_L4_TRUNC then
        let ck = ct_key_of pkt;
            e = e\<lparr>e_sc := e_sc e\<lparr>sc_ck := ck\<rparr>, e_ct_key_valid := True\<rparr>
        in (case dp_conn s ck of
              None \<Rightarrow> Next (e\<lparr>e_ct_missed := True\<rparr>) (caly_stat STAT_CT_MISS len s)
            | Some cs \<Rightarrow>
                if \<not> ct_live e cs then Next (e\<lparr>e_ct_missed := True\<rparr>) (caly_stat STAT_CT_MISS len s)
                else
                  let cs = cs\<lparr>cs_last_seen_ns := e_now e, cs_pkts_in := cs_pkts_in cs + 1,
                              cs_bytes_in := cs_bytes_in cs + ucast len\<rparr>;
                      cs = ct_advance (pk_proto pkt) (pk_tcp_flags pkt) cs;
                      s = s\<lparr>dp_conn := (dp_conn s)(ck \<mapsto> cs)\<rparr>;
                      s = (if pk_proto pkt = CALY_IPPROTO_TCP \<and> has_flag (pk_tcp_flags pkt) CALY_TCP_RST
                           then caly_stat STAT_CT_CLOSED len s else s);
                      s = caly_stat STAT_CT_UPDATED len s
                  in if cs_state cs \<noteq> CALY_CT_CLOSED
                     then pass_with STAT_PASS_CONNTRACK (set_pkt_flag CALY_PKT_F_CT_HIT e)
                            (caly_stat STAT_CT_HIT len s)
                     else Next (e\<lparr>e_ct_missed := True\<rparr>) s)
      else Next e s)"

definition policy_deferred_ban :: stage where
  "policy_deferred_ban e s =
     (if e_ban_deferred e then
        (case dp_ban s (e_skey e) of
           Some be \<Rightarrow> if ban_active (e_now e) be then ban_drop be e s else Next e s
         | None \<Rightarrow> Next e s)
      else Next e s)"

definition policy_synack :: stage where
  "policy_synack e s =
     (let pkt = e_pkt e in
      if has_flag (e_flags e) CALY_F_CAP_TC_EGRESS \<and> e_ct_missed e \<and>
         pk_proto pkt = CALY_IPPROTO_TCP \<and>
         pk_tcp_flags pkt AND (CALY_TCP_SYN OR CALY_TCP_ACK) = CALY_TCP_SYN OR CALY_TCP_ACK \<and>
         \<not> has_flag (pk_flags pkt) CALY_PKT_F_MGMT
      then drop_with STAT_DROP_TCP_SYNACK_UNSOL e s else Next e s)"

definition policy_lockdown :: stage where
  "policy_lockdown e s =
     (if e_mode e = FW_MODE_LOCKDOWN \<and> \<not> has_flag (pk_flags (e_pkt e)) CALY_PKT_F_MGMT then
        if has_flag (e_flags e) CALY_F_LOCKDOWN_ICMP \<and> e_is_icmp e \<and> e_icmp_policy e \<noteq> CALY_ICMP_DROP
        then pass_with STAT_PASS_ICMP_POLICY e s
        else drop_with STAT_DROP_LOCKDOWN e s
      else Next e s)"

section \<open>The program\<close>

definition policy_env :: "fw_config \<Rightarrow> caly_scratch \<Rightarrow> env" where
  "policy_env cfg sc =
     (let pkt = sc_pkt sc in
      \<lparr>e_cfg = cfg, e_sc = sc, e_now = pk_ts_ns pkt, e_pkt_len = pk_pkt_len pkt,
       e_if_flags = sc_carry_if_flags sc,
       e_is_wan = (sc_carry_is_wan sc \<noteq> 0), e_if_monitor = (sc_carry_if_monitor sc \<noteq> 0),
       e_is_v4 = (pk_family pkt = CALY_AF_INET),
       e_is_syn = (pk_proto pkt = CALY_IPPROTO_TCP \<and> has_flag (pk_tcp_flags pkt) CALY_TCP_SYN \<and>
                   \<not> has_flag (pk_tcp_flags pkt) CALY_TCP_ACK),
       e_is_icmp = (pk_proto pkt = CALY_IPPROTO_ICMP \<or> pk_proto pkt = CALY_IPPROTO_ICMPV6),
       e_skey = (if pk_family pkt = CALY_AF_INET then K4 (q0 (pk_saddr pkt)) else K6 (pk_saddr pkt)),
       e_icmp_tc = sc_carry_icmp_tc sc, e_icmp_policy = CALY_ICMP_PASS, e_reason = STAT_PASS_DEFAULT,
       e_act = ACT_PASS, e_ban_ttl = 0, e_evval = 0, e_want_event = False, e_ct_missed = False,
       e_ct_key_valid = False, e_ban_deferred = False, e_prule = None\<rparr>)"

definition policy_verdict :: "kern \<Rightarrow> env \<Rightarrow> dp_state \<Rightarrow> xdp_action \<times> dp_state" where
  "policy_verdict = verdict_block False"

definition policy_stages :: "kern \<Rightarrow> stage list" where
  "policy_stages k =
     [policy_land, policy_tcp, policy_udp, policy_icmp, policy_bogon k, policy_allow k, policy_mgmt,
      policy_block k, policy_ban, policy_conntrack, policy_deferred_ban, policy_synack,
      policy_lockdown]"

definition bool_u8 :: "bool \<Rightarrow> u8" where
  "bool_u8 b = (if b then 1 else 0)"

definition policy_carry :: "env \<Rightarrow> env" where
  "policy_carry e = e\<lparr>e_sc := e_sc e\<lparr>sc_carry_ct_missed := bool_u8 (e_ct_missed e),
                                      sc_carry_ct_key_valid := bool_u8 (e_ct_key_valid e)\<rparr>\<rparr>"

definition caly_xdp_policy :: "kern \<Rightarrow> prog \<Rightarrow> prog" where
  "caly_xdp_policy k synproxy d s =
     (case dp_config s of None \<Rightarrow> fail_open STAT_CONFIG_MISSING 0 s
      | Some cfg \<Rightarrow>
     (case dp_scratch s of None \<Rightarrow> fail_open STAT_SCRATCH_FAIL 0 s
      | Some sc \<Rightarrow>
     (case run_stages (policy_stages k) (policy_env cfg sc) s of
        Verdict e s \<Rightarrow> policy_verdict k e s
      | Next e s \<Rightarrow>
          let e = policy_carry e
          in if k_tail k CALY_PROG_IDX_ACTION
             then caly_xdp_action k synproxy d (s\<lparr>dp_scratch := Some (e_sc e)\<rparr>)
             else
               let s = caly_stat STAT_TAILCALL_FAIL (e_pkt_len e) s;
                   e = (if e_reason e = STAT_PASS_DEFAULT \<and> \<not> e_is_wan e
                        then e\<lparr>e_reason := STAT_PASS_LAN_IFACE\<rparr> else e)
               in policy_verdict k e s)))"

section \<open>The stages obey the contract\<close>

lemma tcp_illegal_reason: "caly_tcp_flags_illegal f = STAT_PKT_TOTAL \<or> 4 \<le> caly_tcp_flags_illegal f"
  by (simp add: caly_tcp_flags_illegal_def Let_def)

lemma bogon_reason:
  "caly_v4_src_bogon a b = STAT_PKT_TOTAL \<or> 4 \<le> caly_v4_src_bogon a b"
  "caly_v6_src_bogon a b = STAT_PKT_TOTAL \<or> 4 \<le> caly_v6_src_bogon a b"
  by (simp_all add: caly_v4_src_bogon_def caly_v6_src_bogon_def Let_def)

interpretation land: stage policy_land
  by unfold_locales (simp add: policy_land_def kept_def)

interpretation tcp: stage policy_tcp
proof
  fix e :: env and s
  assume "4 \<le> e_reason e" "e_act e = ACT_PASS"
  then show "out_ok e s (policy_tcp e s)"
    using tcp_illegal_reason [of "ucast (pk_tcp_flags (e_pkt e))"]
    by (auto simp: policy_tcp_def Let_def kept_def)
qed

interpretation udp: stage policy_udp
  by unfold_locales (simp add: policy_udp_def Let_def kept_def)

interpretation icmp: stage policy_icmp
  by unfold_locales (simp add: policy_icmp_def Let_def kept_def)

interpretation bogon: stage "policy_bogon k"
proof
  fix e :: env and s
  assume "4 \<le> e_reason e" "e_act e = ACT_PASS"
  then show "out_ok e s (policy_bogon k e s)"
    using bogon_reason by (auto simp: policy_bogon_def Let_def kept_def split: option.splits)
qed

interpretation allow: stage "policy_allow k"
  by unfold_locales (simp add: policy_allow_def Let_def kept_def split: option.splits)

interpretation mgmt: stage policy_mgmt
  by unfold_locales (simp add: policy_mgmt_def Let_def kept_def)

interpretation block: stage "policy_block k"
  by unfold_locales (simp add: policy_block_def kept_def split: option.splits)

lemma ban_drop_ok [simp]: "out_ok e s (ban_drop be e s)"
  by (simp add: ban_drop_def Let_def)

interpretation ban: stage policy_ban
  by unfold_locales (simp add: policy_ban_def kept_def split: option.splits)

interpretation conntrack: stage policy_conntrack
  by unfold_locales (simp add: policy_conntrack_def Let_def kept_def split: option.splits)

interpretation deferred: stage policy_deferred_ban
  by unfold_locales (simp add: policy_deferred_ban_def kept_def split: option.splits)

interpretation synack: stage policy_synack
  by unfold_locales (simp add: policy_synack_def Let_def kept_def)

interpretation lockdown: stage policy_lockdown
  by unfold_locales (simp add: policy_lockdown_def kept_def)

lemma policy_stages_ok: "\<forall>f \<in> set (policy_stages k). stage f"
  by (auto simp: policy_stages_def intro: land.stage_axioms tcp.stage_axioms udp.stage_axioms
      icmp.stage_axioms bogon.stage_axioms allow.stage_axioms mgmt.stage_axioms block.stage_axioms
      ban.stage_axioms conntrack.stage_axioms deferred.stage_axioms synack.stage_axioms
      lockdown.stage_axioms)

end
