(* ===== verification/Caly_Main.thy ===== *)
theory Caly_Main
  imports Caly_Policy
begin

text \<open>
  The first two programs of the pipeline of \<open>xdp_firewall.bpf.c\<close>: \<open>caly_xdp_main\<close> (interface lookup,
  Ethernet and VLAN headers) and \<open>caly_xdp_parse\<close>, and with them the whole pipeline of one packet.
  The result is \<^term>\<open>None\<close> exactly if a load left the frame.
\<close>

section \<open>Layer 2\<close>

definition is_vlan_proto :: "u32 \<Rightarrow> bool" where
  "is_vlan_proto p \<longleftrightarrow> p = CALY_ETH_P_8021Q \<or> p = CALY_ETH_P_8021AD \<or> p = CALY_ETH_P_QINQ1 \<or>
                      p = CALY_ETH_P_QINQ2 \<or> p = CALY_ETH_P_QINQ3"

text \<open>The tag loop: \<^term>\<open>Inl\<close> is the truncation exit, \<^term>\<open>Inr\<close> the ethertype and offset after it.\<close>

function vlan_loop ::
  "bytes \<Rightarrow> u32 \<Rightarrow> nat \<Rightarrow> u32 \<Rightarrow> u32 \<Rightarrow> pkt_ctx \<Rightarrow> (pkt_ctx + u32 \<times> u32 \<times> pkt_ctx) option" where
  "vlan_loop d vlan_max i eth_proto off pkt =
     (if i < unat CALY_VLAN_MAX_DEPTH then
        if of_nat i \<ge> vlan_max then Some (Inr (eth_proto, off, pkt))
        else if \<not> is_vlan_proto eth_proto then Some (Inr (eth_proto, off, pkt))
        else if unat off + 4 > length d then Some (Inl pkt)
        else (case ld16 d (unat off + 2) of
                None \<Rightarrow> None
              | Some enc \<Rightarrow>
                  vlan_loop d vlan_max (i + 1) (ucast (ntohs enc)) (off + 4)
                    (pkt\<lparr>pk_vlan_depth := pk_vlan_depth pkt + 1,
                         pk_flags := pk_flags pkt OR CALY_PKT_F_VLAN\<rparr>))
      else Some (Inr (eth_proto, off, pkt)))"
  by pat_completeness auto
termination by (relation "measure (\<lambda>(_, _, i, _). unat CALY_VLAN_MAX_DEPTH - i)") auto

declare vlan_loop.simps [simp del]

section \<open>Stages of the first program\<close>

abbreviation set_pkt :: "pkt_ctx \<Rightarrow> env \<Rightarrow> env" where
  "set_pkt p e \<equiv> e\<lparr>e_sc := e_sc e\<lparr>sc_pkt := p\<rparr>\<rparr>"

definition main_iface :: stage where
  "main_iface e s =
     (if \<not> has_flag (e_flags e) CALY_F_ENABLED then pass_with STAT_PASS_DISABLED e s
      else
        let ifc = dp_iface s (pk_ifindex (e_pkt e));
            zone = cfg_default_zone (e_cfg e);
            fl = (case ifc of None \<Rightarrow> 0 | Some c \<Rightarrow> if_flags c);
            zone = (case ifc of None \<Rightarrow> zone
                    | Some c \<Rightarrow> if if_zone c \<noteq> CALY_ZONE_UNSPEC then if_zone c else zone);
            e = e\<lparr>e_if_flags := fl\<rparr>
        in if has_flag fl CALY_IF_F_DISABLED then pass_with STAT_PASS_DISABLED e s
           else
             let is_wan = (zone = CALY_ZONE_WAN \<or> has_flag fl CALY_IF_F_WAN);
                 e = e\<lparr>e_if_monitor := has_flag fl CALY_IF_F_MONITOR, e_is_wan := is_wan\<rparr>
             in Next (if is_wan then set_pkt_flag CALY_PKT_F_WAN e else e) s)"

text \<open>What the ethertype after the tags decides.\<close>

definition main_proto :: "u32 \<Rightarrow> u32 \<Rightarrow> stage" where
  "main_proto eth_proto off e s =
     (let flags = e_flags e;
          unknown = (if has_flag flags CALY_F_DROP_UNKNOWN_L3 then drop_with STAT_DROP_L3_UNKNOWN e s
                     else pass_with STAT_PASS_NOT_IP e s)
      in if is_vlan_proto eth_proto then
           (if has_flag flags CALY_F_VLAN_INSPECT then drop_with STAT_DROP_VLAN_DEPTH e s else unknown)
         else
           let e = set_pkt ((e_pkt e)\<lparr>pk_eth_proto := ucast eth_proto\<rparr>) e;
               unknown = (if has_flag flags CALY_F_DROP_UNKNOWN_L3 then drop_with STAT_DROP_L3_UNKNOWN e s
                          else pass_with STAT_PASS_NOT_IP e s)
           in if eth_proto = CALY_ETH_P_ARP then pass_with STAT_PASS_NOT_IP e s
              else if eth_proto = CALY_ETH_P_IP then
                (if \<not> has_flag flags CALY_F_IPV4 then pass_with STAT_PASS_NOT_IP e s
                 else Next (e\<lparr>e_sc := e_sc e\<lparr>sc_carry_l3_off := off,
                                             sc_carry_l3_proto := ucast eth_proto\<rparr>\<rparr>) s)
              else if eth_proto = CALY_ETH_P_IPV6 then
                (if \<not> has_flag flags CALY_F_IPV6 \<or> has_flag (e_if_flags e) CALY_IF_F_NO_IPV6
                 then drop_with STAT_DROP_IP6_DISABLED e s
                 else Next (e\<lparr>e_sc := e_sc e\<lparr>sc_carry_l3_off := off,
                                             sc_carry_l3_proto := ucast eth_proto\<rparr>\<rparr>) s)
              else unknown)"

definition main_l2 :: "bytes \<Rightarrow> env \<Rightarrow> dp_state \<Rightarrow> stage_out option" where
  "main_l2 d e s =
     (if 14 > length d then Some (drop_with STAT_DROP_ETH_TRUNC e s)
      else do {
        h_proto \<leftarrow> ld16 d 12;
        let vlan_max = (if has_flag (e_flags e) CALY_F_VLAN_INSPECT then cfg_vlan_max_depth (e_cfg e) else 0);
        let vlan_max = (if vlan_max > CALY_VLAN_MAX_DEPTH then CALY_VLAN_MAX_DEPTH else vlan_max);
        r \<leftarrow> vlan_loop d vlan_max 0 (ucast (ntohs h_proto)) 14 (e_pkt e);
        (case r of
           Inl pkt \<Rightarrow> Some (drop_with STAT_DROP_VLAN_TRUNC (set_pkt pkt e) s)
         | Inr (eth_proto, off, pkt) \<Rightarrow> Some (main_proto eth_proto off (set_pkt pkt e) s)) })"

text \<open>The carry of the first program.\<close>

definition main_carry :: "env \<Rightarrow> env" where
  "main_carry e = e\<lparr>e_sc := e_sc e\<lparr>sc_carry_is_wan := bool_u8 (e_is_wan e),
                                   sc_carry_if_monitor := bool_u8 (e_if_monitor e),
                                   sc_carry_if_flags := e_if_flags e\<rparr>\<rparr>"

section \<open>The programs\<close>

definition main_verdict :: "kern \<Rightarrow> env \<Rightarrow> dp_state \<Rightarrow> xdp_action \<times> dp_state" where
  "main_verdict = verdict_block True"

definition parse_verdict :: "kern \<Rightarrow> env \<Rightarrow> dp_state \<Rightarrow> xdp_action \<times> dp_state" where
  "parse_verdict = verdict_block True"

text \<open>The locals of the first two programs; their source key stays zero.\<close>

definition front_env :: "fw_config \<Rightarrow> caly_scratch \<Rightarrow> env" where
  "front_env cfg sc =
     \<lparr>e_cfg = cfg, e_sc = sc, e_now = pk_ts_ns (sc_pkt sc), e_pkt_len = pk_pkt_len (sc_pkt sc),
      e_if_flags = 0, e_is_wan = False, e_if_monitor = False, e_is_v4 = True, e_is_syn = False,
      e_is_icmp = False, e_skey = K4 0, e_icmp_tc = 0, e_icmp_policy = CALY_ICMP_PASS,
      e_reason = STAT_PASS_DEFAULT, e_act = ACT_PASS, e_ban_ttl = 0, e_evval = 0,
      e_want_event = False, e_ct_missed = False, e_ct_key_valid = False, e_ban_deferred = False,
      e_prule = None\<rparr>"

definition parse_env :: "fw_config \<Rightarrow> caly_scratch \<Rightarrow> env" where
  "parse_env cfg sc =
     (front_env cfg sc)\<lparr>e_is_wan := (sc_carry_is_wan sc \<noteq> 0), e_if_monitor := (sc_carry_if_monitor sc \<noteq> 0),
                         e_if_flags := sc_carry_if_flags sc\<rparr>"

definition caly_xdp_parse ::
  "kern \<Rightarrow> prog \<Rightarrow> bytes \<Rightarrow> dp_state \<Rightarrow> (xdp_action \<times> dp_state) option" where
  "caly_xdp_parse k synproxy d s =
     (case dp_config s of None \<Rightarrow> Some (fail_open STAT_CONFIG_MISSING 0 s)
      | Some cfg \<Rightarrow>
     (case dp_scratch s of None \<Rightarrow> Some (fail_open STAT_SCRATCH_FAIL 0 s)
      | Some sc \<Rightarrow> do {
          (rc, pkt, icmp_tc) \<leftarrow> tunnel_loop d cfg 0 (sc_carry_l3_off sc) (sc_carry_l3_proto sc) (sc_pkt sc) 0;
          let e = set_pkt pkt (parse_env cfg sc);
          if rc \<noteq> CALY_PARSE_OK
          then Some (parse_verdict k (e\<lparr>e_reason := rc, e_act := ACT_DROP\<rparr>) s)
          else
            let e = main_carry (e\<lparr>e_sc := e_sc e\<lparr>sc_carry_icmp_tc := icmp_tc\<rparr>\<rparr>)
            in if k_tail k CALY_PROG_IDX_POLICY
               then Some (caly_xdp_policy k synproxy d (s\<lparr>dp_scratch := Some (e_sc e)\<rparr>))
               else Some (parse_verdict k e (caly_stat STAT_TAILCALL_FAIL (e_pkt_len e) s)) }))"

text \<open>The descriptor the first program starts from: all zero but the clock, length and interface.\<close>

definition main_pkt :: "u64 \<Rightarrow> u32 \<Rightarrow> u32 \<Rightarrow> pkt_ctx" where
  "main_pkt now len ifindex = (pkt0 len)\<lparr>pk_ts_ns := now, pk_ifindex := ifindex\<rparr>"

definition frame_len :: "bytes \<Rightarrow> u32" where
  "frame_len d =
     (let len = (of_nat (length d) :: u32)
      in if len > of_nat CALY_MAX_PKT_LEN then of_nat CALY_MAX_PKT_LEN else len)"

definition caly_xdp_main ::
  "kern \<Rightarrow> prog \<Rightarrow> u32 \<Rightarrow> bytes \<Rightarrow> dp_state \<Rightarrow> (xdp_action \<times> dp_state) option" where
  "caly_xdp_main k synproxy ifindex d s =
     (let len = frame_len d in
      case dp_config s of None \<Rightarrow> Some (fail_open STAT_CONFIG_MISSING len s)
      | Some cfg \<Rightarrow>
     (case dp_scratch s of None \<Rightarrow> Some (fail_open STAT_SCRATCH_FAIL len s)
      | Some sc \<Rightarrow>
          let e = front_env cfg (sc\<lparr>sc_pkt := main_pkt (k_now k) len ifindex\<rparr>)
          in (case main_iface e s of
                Verdict e s \<Rightarrow> Some (main_verdict k e s)
              | Next e s \<Rightarrow>
                  (case main_l2 d e s of
                     None \<Rightarrow> None
                   | Some (Verdict e s) \<Rightarrow> Some (main_verdict k e s)
                   | Some (Next e s) \<Rightarrow>
                       let e = main_carry e
                       in if k_tail k CALY_PROG_IDX_PARSE
                          then caly_xdp_parse k synproxy d (s\<lparr>dp_scratch := Some (e_sc e)\<rparr>)
                          else Some (main_verdict k e (caly_stat STAT_TAILCALL_FAIL len s))))))"

end
