(* ===== verification/Caly_Pipeline.thy ===== *)
theory Caly_Pipeline
  imports Caly_Main
begin

text \<open>
  Properties of the whole ingress pipeline: memory safety, accounting, monitor mode and failing
  open.  They follow from the contract of the stages and of the verdict block.
\<close>

section \<open>What every program guarantees\<close>

definition monitor_cfg :: "fw_config \<Rightarrow> bool" where
  "monitor_cfg cfg \<longleftrightarrow> has_flag (cfg_flags cfg) CALY_F_MONITOR_ONLY \<or> cfg_mode cfg = FW_MODE_MONITOR_ONLY"

text \<open>The SYN proxy can be reached only with its capability bit, its flag and the attack mode.\<close>

definition synproxy_off :: "dp_state \<Rightarrow> bool" where
  "synproxy_off s \<longleftrightarrow>
     (\<forall>cfg. dp_config s = Some cfg \<longrightarrow>
        \<not> has_flag (cfg_flags cfg) CALY_F_CAP_SYNPROXY \<or> \<not> has_flag (cfg_flags cfg) CALY_F_SYNPROXY \<or>
        cfg_mode cfg \<noteq> FW_MODE_UNDER_ATTACK)"

definition prog_ok :: "dp_state \<Rightarrow> xdp_action \<times> dp_state \<Rightarrow> bool" where
  "prog_ok s r \<longleftrightarrow>
     counted (fst r) s (snd r) \<and> dp_config (snd r) = dp_config s \<and>
     (\<forall>cfg. dp_config s = Some cfg \<longrightarrow> monitor_cfg cfg \<longrightarrow> fst r = XDP_PASS)"

text \<open>What the chain needs of the program in the SYN-proxy slot: it is out of reach, or it gives the
  guarantee itself.\<close>

definition slot_ok :: "prog \<Rightarrow> dp_state \<Rightarrow> bool" where
  "slot_ok sp s \<longleftrightarrow> synproxy_off s \<or> (\<forall>d s. prog_ok s (sp d s))"

lemma slot_ok_cong: "dp_config t = dp_config s \<Longrightarrow> slot_ok sp s \<Longrightarrow> slot_ok sp t"
  by (simp add: slot_ok_def synproxy_off_def)

lemma prog_ok_scratch [simp]: "prog_ok (s\<lparr>dp_scratch := x\<rparr>) r = prog_ok s r"
  by (simp add: prog_ok_def counted_def totals_def)

lemma gauges_config [simp]: "dp_config (vb_gauges e s) = dp_config s"
  by (simp add: vb_gauges_def Let_def)

lemma srcstats_config [simp]: "dp_config (vb_srcstats k e v s) = dp_config s"
  by (simp add: vb_srcstats_def Let_def split: option.splits)

lemma event_config [simp]: "dp_config (snd (vb_event k e v s)) = dp_config s"
  by (simp add: vb_event_def Let_def split_beta)

lemma verdict_config [simp]: "dp_config (snd (verdict_block ev k e s)) = dp_config s"
proof -
  have "dp_config (snd (snd (vb_demote e s))) = dp_config s"
    by (simp add: vb_demote_def)
  moreover have "dp_config (snd (vb_count e s)) = dp_config s" for e s
    by (simp add: vb_count_def Let_def split: act.splits)
  ultimately show ?thesis
    by (simp add: verdict_block_def Let_def split_beta)
qed

lemma verdict_prog_ok:
  assumes "4 \<le> e_reason e" "e_act e \<noteq> ACT_TX" "totals s1 = totals s" "dp_config s1 = dp_config s"
    and "dp_config s = Some (e_cfg e)"
  shows "prog_ok s (verdict_block ev k e s1)"
proof -
  have "counted (fst (verdict_block ev k e s1)) s (snd (verdict_block ev k e s1))"
    using counted_cong [OF verdict_block_counted [OF assms(1)] assms(3) refl] .
  moreover have "monitor_cfg (e_cfg e) \<Longrightarrow> final_action e = XDP_PASS"
    using assms(2) by (cases "e_act e") (auto simp: final_action_def monitoring_def monitor_cfg_def)
  ultimately show ?thesis
    using assms(4,5) by (simp add: prog_ok_def)
qed

lemma fail_open_counted:
  assumes "4 \<le> r"
  shows "counted XDP_PASS s (snd (fail_open r len s))"
proof -
  have "r \<noteq> 0" "r \<noteq> 1" "r \<noteq> 2" "r \<noteq> 3" using assms by (auto simp: word_le_nat_alt)
  then show ?thesis
    by (auto simp: fail_open_def counted_def totals_def bump_def stat_at)
qed

lemma fail_open_prog_ok: "4 \<le> r \<Longrightarrow> prog_ok s (fail_open r len s)"
  using fail_open_counted [of r s len] by (simp add: prog_ok_def fail_open_def)

section \<open>The programs, last to first\<close>

lemma action_stages_ok:
  "\<forall>f \<in> set [action_amp, action_port, action_rate k, action_scan k]. stage f"
  "\<forall>f \<in> set [action_syn_fallback, action_learn k]. stage f"
  by (auto intro: amp.stage_axioms port.stage_axioms rate.stage_axioms scan.stage_axioms
      fallback.stage_axioms learn.stage_axioms)

lemma syn_proxy_kept:
  "totals (snd (action_syn_proxy k e s)) = totals s" "dp_config (snd (action_syn_proxy k e s)) = dp_config s"
  by (simp_all add: action_syn_proxy_def Let_def split: option.split)

lemma syn_proxy_taken:
  assumes "slot_ok sp s" "dp_config s = Some (e_cfg e)" "fst (action_syn_proxy k e s1)"
  shows "prog_ok t (sp d t)"
  using assms by (auto simp: action_syn_proxy_def slot_ok_def synproxy_off_def split: if_splits)

lemma prog_ok_cong:
  "prog_ok s r \<Longrightarrow> totals s = totals t \<Longrightarrow> dp_config s = dp_config t \<Longrightarrow> prog_ok t r"
  by (auto simp: prog_ok_def intro: counted_cong)

lemma action_prog_ok:
  assumes off: "slot_ok sp s"
  shows "prog_ok s (caly_xdp_action k sp d s)"
proof (cases "dp_config s")
  case None
  then show ?thesis by (simp add: caly_xdp_action_def fail_open_prog_ok)
next
  case cfg: (Some cfg)
  show ?thesis
  proof (cases "dp_scratch s")
    case None
    with cfg show ?thesis by (simp add: caly_xdp_action_def fail_open_prog_ok)
  next
    case sc: (Some sc)
    let ?e = "action_env cfg sc"
    have e0: "4 \<le> e_reason ?e" "e_act ?e = ACT_PASS" "e_cfg ?e = cfg"
      by (simp_all add: action_env_def Let_def)
    have o1: "out_ok ?e s (run_stages [action_amp, action_port, action_rate k, action_scan k] ?e s)"
      using run_stages_ok [OF action_stages_ok(1) e0(1,2)] .
    show ?thesis
    proof (cases "run_stages [action_amp, action_port, action_rate k, action_scan k] ?e s")
      case (Verdict e1 s1)
      with o1 e0 cfg sc show ?thesis
        by (auto simp: caly_xdp_action_def action_verdict_def kept_def ctx_of_def intro!: verdict_prog_ok
            simp del: run_stages.simps)
    next
      case n1: (Next e1 s1)
      with o1 e0 have k1: "4 \<le> e_reason e1" "e_act e1 = ACT_PASS" "totals s1 = totals s"
        "dp_config s1 = dp_config s" "e_cfg e1 = cfg" by (auto simp: kept_def ctx_of_def)
      obtain taken s2 where px: "action_syn_proxy k e1 s1 = (taken, s2)" by (metis prod.exhaust)
      then have k2: "totals s2 = totals s" "dp_config s2 = dp_config s"
        using syn_proxy_kept [of k e1 s1] k1(3,4) by simp_all
      show ?thesis
      proof (cases taken)
        case True
        then have "prog_ok s2 (sp d (s2\<lparr>dp_scratch := x\<rparr>))" for x
          using syn_proxy_taken [OF off, of e1 k s1 "s2\<lparr>dp_scratch := x\<rparr>" d] cfg k1(5) px by simp
        then have "prog_ok s (sp d (s2\<lparr>dp_scratch := x\<rparr>))" for x
          using k2 by (auto intro: prog_ok_cong)
        with True px n1 cfg sc show ?thesis
          by (simp add: caly_xdp_action_def del: run_stages.simps)
      next
        case False
        have o2: "out_ok e1 s2 (run_stages [action_syn_fallback, action_learn k] e1 s2)"
          using run_stages_ok [OF action_stages_ok(2) k1(1,2)] .
        with False k1 k2 n1 px cfg sc show ?thesis
          by (cases "run_stages [action_syn_fallback, action_learn k] e1 s2")
            (auto simp: caly_xdp_action_def action_verdict_def kept_def ctx_of_def
              intro!: verdict_prog_ok simp del: run_stages.simps)
      qed
    qed
  qed
qed

lemma policy_prog_ok:
  assumes off: "slot_ok sp s"
  shows "prog_ok s (caly_xdp_policy k sp d s)"
proof (cases "dp_config s")
  case None
  then show ?thesis by (simp add: caly_xdp_policy_def fail_open_prog_ok)
next
  case cfg: (Some cfg)
  show ?thesis
  proof (cases "dp_scratch s")
    case None
    with cfg show ?thesis by (simp add: caly_xdp_policy_def fail_open_prog_ok)
  next
    case sc: (Some sc)
    let ?e = "policy_env cfg sc"
    have e0: "4 \<le> e_reason ?e" "e_act ?e = ACT_PASS" "e_cfg ?e = cfg"
      by (simp_all add: policy_env_def Let_def)
    have o1: "out_ok ?e s (run_stages (policy_stages k) ?e s)"
      using run_stages_ok [OF policy_stages_ok e0(1,2)] .
    show ?thesis
    proof (cases "run_stages (policy_stages k) ?e s")
      case (Verdict e1 s1)
      with o1 e0 cfg sc show ?thesis
        by (auto simp: caly_xdp_policy_def policy_verdict_def kept_def ctx_of_def intro!: verdict_prog_ok)
    next
      case n1: (Next e1 s1)
      with o1 e0 have k1: "4 \<le> e_reason e1" "e_act e1 = ACT_PASS" "totals s1 = totals s"
        "dp_config s1 = dp_config s" "e_cfg e1 = cfg" by (auto simp: kept_def ctx_of_def)
      have "prog_ok s1 (caly_xdp_action k sp d (s1\<lparr>dp_scratch := x\<rparr>))" for x
        using action_prog_ok [of sp "s1\<lparr>dp_scratch := x\<rparr>" k d] slot_ok_cong [OF _ off] k1(4) by simp
      then have "prog_ok s (caly_xdp_action k sp d (s1\<lparr>dp_scratch := x\<rparr>))" for x
        using k1 by (auto intro: prog_ok_cong)
      with n1 k1 cfg sc show ?thesis
        by (auto simp: caly_xdp_policy_def policy_verdict_def Let_def policy_carry_def
            intro!: verdict_prog_ok)
    qed
  qed
qed

text \<open>A program that may fault: it is defined and keeps the guarantee.\<close>

definition opt_ok :: "dp_state \<Rightarrow> (xdp_action \<times> dp_state) option \<Rightarrow> bool" where
  "opt_ok s x \<longleftrightarrow> (case x of None \<Rightarrow> False | Some r \<Rightarrow> prog_ok s r)"

lemma opt_ok_simps [simp]: "opt_ok s (Some r) = prog_ok s r" "\<not> opt_ok s None"
  by (simp_all add: opt_ok_def)

lemma opt_ok_scratch [simp]: "opt_ok (s\<lparr>dp_scratch := x\<rparr>) r = opt_ok s r"
  by (cases r) simp_all

lemma opt_okE: "opt_ok s x \<Longrightarrow> (\<And>a s'. x = Some (a, s') \<Longrightarrow> prog_ok s (a, s') \<Longrightarrow> P) \<Longrightarrow> P"
  by (cases x) auto

lemma drop_reason_countable: "stat_reason_is_drop r \<Longrightarrow> 4 \<le> r"
  by (auto simp: stat_reason_is_drop_def word_le_nat_alt)

lemma parse_prog_ok:
  assumes off: "slot_ok sp s"
  shows "opt_ok s (caly_xdp_parse k sp d s)"
proof (cases "dp_config s")
  case None
  then show ?thesis by (simp add: caly_xdp_parse_def fail_open_prog_ok)
next
  case cfg: (Some cfg)
  show ?thesis
  proof (cases "dp_scratch s")
    case None
    with cfg show ?thesis by (simp add: caly_xdp_parse_def fail_open_prog_ok)
  next
    case sc: (Some sc)
    obtain rc p tc where t: "tunnel_loop d cfg 0 (sc_carry_l3_off sc) (sc_carry_l3_proto sc) (sc_pkt sc) 0
        = Some (rc, p, tc)" "rc = CALY_PARSE_OK \<or> stat_reason_is_drop rc"
      using tunnel_loop_ok by metis
    have "prog_ok s (caly_xdp_policy k sp d (s\<lparr>dp_scratch := x\<rparr>))" for x
      using policy_prog_ok [of sp "s\<lparr>dp_scratch := x\<rparr>" k d] slot_ok_cong [OF _ off] by simp
    moreover have "e_cfg (parse_env cfg sc) = cfg" "e_act (parse_env cfg sc) = ACT_PASS"
      "4 \<le> e_reason (parse_env cfg sc)"
      by (simp_all add: parse_env_def front_env_def)
    ultimately show ?thesis
      using t cfg sc
      by (auto simp: caly_xdp_parse_def parse_verdict_def Let_def main_carry_def
          intro!: verdict_prog_ok intro: drop_reason_countable)
  qed
qed

section \<open>Layer 2 reads inside the frame\<close>

lemma vlan_loop_defined: "\<exists>r. vlan_loop d m i p off pkt = Some r"
proof (induction d m i p off pkt rule: vlan_loop.induct)
  case (1 d m i p off pkt)
  show ?case
  proof (cases "i < unat CALY_VLAN_MAX_DEPTH \<and> \<not> of_nat i \<ge> m \<and> is_vlan_proto p \<and> unat off + 4 \<le> length d")
    case True
    then have "\<exists>enc. ld16 d (unat off + 2) = Some enc" by (simp add: load_simps)
    with True "1" show ?thesis by (subst vlan_loop.simps) (auto dest: leD)
  next
    case False
    then show ?thesis by (subst vlan_loop.simps) auto
  qed
qed

text \<open>The outcome of the first two steps of the first program.\<close>

definition front_ok :: "env \<Rightarrow> dp_state \<Rightarrow> stage_out \<Rightarrow> bool" where
  "front_ok e s r = (case r of
     Verdict e' s' \<Rightarrow> 4 \<le> e_reason e' \<and> e_cfg e' = e_cfg e \<and> s' = s \<and> e_act e' \<noteq> ACT_TX
   | Next e' s' \<Rightarrow> 4 \<le> e_reason e' \<and> e_cfg e' = e_cfg e \<and> s' = s \<and> e_act e' = ACT_PASS)"

lemma main_iface_ok:
  "4 \<le> e_reason e \<Longrightarrow> e_act e = ACT_PASS \<Longrightarrow> front_ok e s (main_iface e s)"
  by (auto simp: main_iface_def front_ok_def pass_with_def Let_def split: option.splits)

lemma main_proto_ok:
  "4 \<le> e_reason e \<Longrightarrow> e_act e = ACT_PASS \<Longrightarrow> front_ok e s (main_proto p off e s)"
  by (simp add: main_proto_def front_ok_def pass_with_def drop_with_def Let_def)

lemma main_l2_ok:
  assumes "4 \<le> e_reason e" "e_act e = ACT_PASS"
  shows "\<exists>r. main_l2 d e s = Some r \<and> front_ok e s r"
proof (cases "14 > length d")
  case True
  with assms show ?thesis by (simp add: main_l2_def front_ok_def drop_with_def)
next
  case False
  then have ld: "\<exists>h. ld16 d 12 = Some h" by (simp add: load_simps)
  have p: "front_ok e s (main_proto p off (set_pkt q e) s)" for p off q
    using assms main_proto_ok [of "set_pkt q e" s p off]
    by (cases "main_proto p off (set_pkt q e) s") (simp_all add: front_ok_def)
  obtain h where h: "ld16 d 12 = Some h" using ld by blast
  define m where "m = (if (if has_flag (e_flags e) CALY_F_VLAN_INSPECT then cfg_vlan_max_depth (e_cfg e) else 0)
      > CALY_VLAN_MAX_DEPTH then CALY_VLAN_MAX_DEPTH
    else if has_flag (e_flags e) CALY_F_VLAN_INSPECT then cfg_vlan_max_depth (e_cfg e) else 0)"
  obtain r where r: "vlan_loop d m 0 (ucast (ntohs h)) 14 (e_pkt e) = Some r"
    using vlan_loop_defined by blast
  have "main_l2 d e s = Some (case r of
      Inl pkt \<Rightarrow> drop_with STAT_DROP_VLAN_TRUNC (set_pkt pkt e) s
    | Inr (p, off, pkt) \<Rightarrow> main_proto p off (set_pkt pkt e) s)"
    using False unfolding main_l2_def Let_def m_def [symmetric]
    by (simp add: h r split: sum.splits prod.splits)
  then show ?thesis
    using p assms by (auto simp: front_ok_def drop_with_def split: sum.splits prod.splits)
qed

lemma main_prog_ok:
  assumes off: "slot_ok sp s"
  shows "opt_ok s (caly_xdp_main k sp ifindex d s)"
proof (cases "dp_config s")
  case None
  then show ?thesis by (simp add: caly_xdp_main_def Let_def fail_open_prog_ok)
next
  case cfg: (Some cfg)
  show ?thesis
  proof (cases "dp_scratch s")
    case None
    with cfg show ?thesis by (simp add: caly_xdp_main_def Let_def fail_open_prog_ok)
  next
    case sc: (Some sc)
    define e where "e = front_env cfg (sc\<lparr>sc_pkt := main_pkt (k_now k) (frame_len d) ifindex\<rparr>)"
    have e0: "4 \<le> e_reason e" "e_act e = ACT_PASS" "e_cfg e = cfg"
      by (simp_all add: e_def front_env_def)
    have parse: "opt_ok s (caly_xdp_parse k sp d (s\<lparr>dp_scratch := x\<rparr>))" for x
      using parse_prog_ok [of sp "s\<lparr>dp_scratch := x\<rparr>" k d] slot_ok_cong [OF _ off] by simp
    note i = main_iface_ok [OF e0(1,2), of s]
    show ?thesis
    proof (cases "main_iface e s")
      case (Verdict e1 s1)
      with i e0 cfg sc show ?thesis
        by (auto simp: caly_xdp_main_def Let_def e_def [symmetric] main_verdict_def front_ok_def
            intro!: verdict_prog_ok)
    next
      case n: (Next e1 s1)
      with i e0 have e1: "4 \<le> e_reason e1" "e_act e1 = ACT_PASS" "e_cfg e1 = cfg" "s1 = s"
        by (auto simp: front_ok_def)
      obtain r where r: "main_l2 d e1 s = Some r" "front_ok e1 s r"
        using main_l2_ok [OF e1(1,2)] by blast
      show ?thesis
      proof (cases r)
        case (Verdict e2 s2)
        with r n e1 cfg sc show ?thesis
          by (auto simp: caly_xdp_main_def Let_def e_def [symmetric] main_verdict_def front_ok_def
              intro!: verdict_prog_ok)
      next
        case (Next e2 s2)
        with r n e1 cfg sc parse show ?thesis
          by (auto simp: caly_xdp_main_def Let_def e_def [symmetric] main_verdict_def front_ok_def
              main_carry_def intro!: verdict_prog_ok)
      qed
    qed
  qed
qed

text \<open>The interface of the SYN-proxy slot: a program that keeps the guarantee for every packet, and what
  the whole chain then promises.\<close>

locale slot_program =
  fixes sp :: prog
  assumes keeps: "prog_ok s (sp d s)"
begin

lemma slot: "slot_ok sp s"
  using keeps by (simp add: slot_ok_def)

lemma chain: "opt_ok s (caly_xdp_main k sp ifindex d s)"
  by (rule main_prog_ok [OF slot])

lemma chain_result:
  obtains a s' where "caly_xdp_main k sp ifindex d s = Some (a, s')" "counted a s s'" "dp_config s' = dp_config s"
    "\<And>cfg. dp_config s = Some cfg \<Longrightarrow> monitor_cfg cfg \<Longrightarrow> a = XDP_PASS"
  using chain [of s k ifindex d] by (auto simp: prog_ok_def elim: opt_okE)

end

section \<open>Properties\<close>

text \<open>C1. The ingress pipeline never reads outside the frame, whatever the frame, the interface,
  the maps and the configuration (the program in the SYN-proxy slot keeping the chain's guarantee).\<close>

theorem xdp_pipeline_memory_safe:
  assumes "slot_ok synproxy s"
  shows "caly_xdp_main k synproxy ifindex d s \<noteq> None"
  using main_prog_ok [OF assms, of k ifindex d] by (auto elim: opt_okE)

text \<open>C2. Every packet is counted once: the packet total grows by one, and exactly one of the
  pass, drop and transmit totals grows by one, the one of the action that is returned.\<close>

theorem xdp_packet_accounted:
  assumes "slot_ok synproxy s" "caly_xdp_main k synproxy ifindex d s = Some (a, s')"
  shows "dp_stats s' STAT_PKT_TOTAL = map_option (\<lambda>x. x + 1) (dp_stats s STAT_PKT_TOTAL) \<and>
         dp_stats s' STAT_PASS_TOTAL = bump (dp_stats s STAT_PASS_TOTAL) (a = XDP_PASS) \<and>
         dp_stats s' STAT_DROP_TOTAL = bump (dp_stats s STAT_DROP_TOTAL) (a = XDP_DROP) \<and>
         dp_stats s' STAT_TX_TOTAL = bump (dp_stats s STAT_TX_TOTAL) (a = XDP_TX)"
  using main_prog_ok [OF assms(1), of k ifindex d] assms(2)
  by (simp add: prog_ok_def counted_def totals_def bump_def)

text \<open>A run of the pipeline over the packets of one CPU, each with the kernel it meets.\<close>

fun xdp_run :: "prog \<Rightarrow> (kern \<times> u32 \<times> bytes) list \<Rightarrow> dp_state \<Rightarrow> dp_state option" where
  "xdp_run sp [] s = Some s"
| "xdp_run sp ((k, ifindex, d) # ps) s =
     (case caly_xdp_main k sp ifindex d s of None \<Rightarrow> None | Some (a, s) \<Rightarrow> xdp_run sp ps s)"

definition balanced :: "dp_state \<Rightarrow> bool" where
  "balanced s \<longleftrightarrow> (\<exists>p a b c. dp_stats s STAT_PKT_TOTAL = Some p \<and> dp_stats s STAT_PASS_TOTAL = Some a \<and>
     dp_stats s STAT_DROP_TOTAL = Some b \<and> dp_stats s STAT_TX_TOTAL = Some c \<and> p = a + b + c)"

lemma balanced_counted: "counted a s s' \<Longrightarrow> balanced s \<Longrightarrow> balanced s'"
  by (cases a) (auto simp: counted_def totals_def balanced_def bump_def)

text \<open>The books balance: over any run of packets no packet faults, and if the packet total
  equals the sum of the pass, drop and transmit totals at the start (modulo the counter width) it
  does so at the end.\<close>

theorem xdp_run_balanced:
  assumes "slot_ok synproxy s" "balanced s"
  shows "\<exists>s'. xdp_run synproxy ps s = Some s' \<and> balanced s' \<and> dp_config s' = dp_config s"
  using assms
proof (induction ps arbitrary: s)
  case (Cons p ps)
  obtain k i d where p: "p = (k, i, d)" by (metis prod.exhaust)
  obtain a s1 where r: "caly_xdp_main k synproxy i d s = Some (a, s1)" "prog_ok s (a, s1)"
    using main_prog_ok [OF Cons.prems(1), of k i d] by (auto elim: opt_okE)
  then have "balanced s1" "dp_config s1 = dp_config s"
    using Cons.prems(2) by (auto simp: prog_ok_def intro: balanced_counted)
  moreover from this have "slot_ok synproxy s1"
    using Cons.prems(1) slot_ok_cong by blast
  ultimately show ?case
    using Cons.IH [of s1] r by (auto simp: p)
qed simp

text \<open>Monitor mode never drops and never transmits: with the monitor flag or the monitor mode
  configured, every packet is passed.\<close>

theorem xdp_monitor_passes:
  assumes "slot_ok synproxy s" "dp_config s = Some cfg"
    and "has_flag (cfg_flags cfg) CALY_F_MONITOR_ONLY \<or> cfg_mode cfg = FW_MODE_MONITOR_ONLY"
  shows "\<exists>s'. caly_xdp_main k synproxy ifindex d s = Some (XDP_PASS, s')"
  using main_prog_ok [OF assms(1), of k ifindex d] assms(2,3)
  by (auto simp: prog_ok_def monitor_cfg_def elim!: opt_okE)

text \<open>The data plane fails open: without a configuration or without a scratch area a packet is
  passed and the reason is counted, and when the next program is not in its tail-call slot a packet
  that has reached the hand-off is passed.\<close>

theorem xdp_fails_open:
  "(dp_config s = None \<longrightarrow>
      (\<exists>s'. caly_xdp_main k synproxy ifindex d s = Some (XDP_PASS, s') \<and>
            dp_stats s' STAT_CONFIG_MISSING = map_option (\<lambda>x. x + 1) (dp_stats s STAT_CONFIG_MISSING))) \<and>
   (dp_config s \<noteq> None \<and> dp_scratch s = None \<longrightarrow>
      (\<exists>s'. caly_xdp_main k synproxy ifindex d s = Some (XDP_PASS, s') \<and>
            dp_stats s' STAT_SCRATCH_FAIL = map_option (\<lambda>x. x + 1) (dp_stats s STAT_SCRATCH_FAIL))) \<and>
   (\<forall>cfg sc e1 s1. dp_config s = Some cfg \<and> dp_scratch s = Some sc \<and> \<not> k_tail k CALY_PROG_IDX_ACTION \<and>
      run_stages (policy_stages k) (policy_env cfg sc) s = Next e1 s1 \<longrightarrow>
      fst (caly_xdp_policy k synproxy d s) = XDP_PASS)"
proof -
  have c: "dp_config s = None \<Longrightarrow> caly_xdp_main k synproxy ifindex d s = Some (fail_open STAT_CONFIG_MISSING (frame_len d) s)"
    by (simp add: caly_xdp_main_def Let_def)
  have sc: "dp_config s \<noteq> None \<Longrightarrow> dp_scratch s = None \<Longrightarrow>
      caly_xdp_main k synproxy ifindex d s = Some (fail_open STAT_SCRATCH_FAIL (frame_len d) s)"
    by (auto simp: caly_xdp_main_def Let_def)
  have t: "fst (caly_xdp_policy k synproxy d s) = XDP_PASS"
    if "dp_config s = Some cfg" "dp_scratch s = Some sc" "\<not> k_tail k CALY_PROG_IDX_ACTION"
      "run_stages (policy_stages k) (policy_env cfg sc) s = Next e1 s1" for cfg sc e1 s1
  proof -
    have "out_ok (policy_env cfg sc) s (run_stages (policy_stages k) (policy_env cfg sc) s)"
      by (rule run_stages_ok [OF policy_stages_ok]) (simp_all add: policy_env_def Let_def)
    then have "e_act e1 = ACT_PASS" using that(4) by simp
    with that show ?thesis
      by (simp add: caly_xdp_policy_def Let_def policy_verdict_def policy_carry_def final_action_def)
  qed
  show ?thesis
    using c sc t by (auto simp: fail_open_def stat_at)
qed

section \<open>Witnesses\<close>

definition mon_cfg :: fw_config where
  "mon_cfg = caly_conf_set_defaults\<lparr>cfg_mode := FW_MODE_MONITOR_ONLY\<rparr>"

definition mon_dp :: dp_state where
  "mon_dp = dp0 mon_cfg (sc0 (pkt0 0))"

lemma mon_dp_off: "slot_ok sp mon_dp" and mon_dp_config: "dp_config mon_dp = Some mon_cfg"
  and mon_dp_balanced: "balanced mon_dp"
  by (simp_all add: mon_dp_def dp0_def slot_ok_def synproxy_off_def mon_cfg_def balanced_def)

theorem xdp_pipeline_memory_safe_witness:
  "caly_xdp_main (kern0 9) (\<lambda>d s. (XDP_TX, s)) 3 [1, 2, 3] mon_dp \<noteq> None"
  using xdp_pipeline_memory_safe [OF mon_dp_off] .

theorem xdp_packet_accounted_witness:
  "\<exists>a s'. caly_xdp_main (kern0 9) (\<lambda>d s. (XDP_TX, s)) 3 [1, 2, 3] mon_dp = Some (a, s') \<and>
          dp_stats s' STAT_PKT_TOTAL = Some 1"
proof -
  obtain a s' where r: "caly_xdp_main (kern0 9) (\<lambda>d s. (XDP_TX, s)) 3 [1, 2, 3] mon_dp = Some (a, s')"
    using main_prog_ok [OF mon_dp_off] by (meson opt_okE)
  then show ?thesis
    using xdp_packet_accounted [OF mon_dp_off r] by (simp add: mon_dp_def dp0_def)
qed

theorem xdp_run_balanced_witness:
  "\<exists>s'. xdp_run (\<lambda>d s. (XDP_TX, s)) [(kern0 9, 3, [1, 2, 3]), (kern0 10, 3, replicate 60 0)] mon_dp = Some s' \<and>
        balanced s'"
  using xdp_run_balanced [OF mon_dp_off mon_dp_balanced] by blast

theorem xdp_monitor_passes_witness:
  "\<exists>s'. caly_xdp_main (kern0 9) (\<lambda>d s. (XDP_TX, s)) 3 [1, 2, 3] mon_dp = Some (XDP_PASS, s')"
  using xdp_monitor_passes [OF mon_dp_off mon_dp_config] by (simp add: mon_cfg_def)

theorem xdp_fails_open_witness:
  "\<exists>s'. caly_xdp_main (kern0 9) (\<lambda>d s. (XDP_TX, s)) 3 [1, 2, 3] (mon_dp\<lparr>dp_config := None\<rparr>) = Some (XDP_PASS, s') \<and>
        dp_stats s' STAT_CONFIG_MISSING = Some 1"
  using xdp_fails_open [of "mon_dp\<lparr>dp_config := None\<rparr>" "kern0 9" "\<lambda>d s. (XDP_TX, s)" 3 "[1, 2, 3]"]
  by (simp add: mon_dp_def dp0_def)

end
