(* ===== verification/Caly_Rules.thy ===== *)
theory Caly_Rules
  imports Caly_Pipeline
begin

text \<open>
  The precedence of the rules in \<open>caly_xdp_policy\<close>: what a packet that passed the stateless checks
  meets next, and which rule wins.
\<close>

section \<open>After the stateless checks\<close>

text \<open>The packet is not a LAND packet, its flags and ports are legal, its ICMP type is neither
  mandatory nor refused, and its source is neither a bogon nor one of our own addresses.\<close>

definition checks_pass :: "kern \<Rightarrow> env \<Rightarrow> dp_state \<Rightarrow> bool" where
  "checks_pass k e s \<longleftrightarrow>
     (case run_stages [policy_land, policy_tcp, policy_udp, policy_icmp, policy_bogon k] e s of
        Next _ _ \<Rightarrow> True | Verdict _ _ \<Rightarrow> False)"

definition late_stages :: "kern \<Rightarrow> stage list" where
  "late_stages k = [policy_allow k, policy_mgmt, policy_block k, policy_ban, policy_conntrack,
                    policy_deferred_ban, policy_synack, policy_lockdown]"

lemma simple_stage_next:
  "policy_land e s = Next e' s' \<Longrightarrow> e' = e \<and> s' = s"
  "policy_tcp e s = Next e' s' \<Longrightarrow> e' = e \<and> s' = s"
  "policy_udp e s = Next e' s' \<Longrightarrow> e' = e \<and> s' = s"
  "policy_bogon k e s = Next e' s' \<Longrightarrow> e' = e \<and> s' = s"
  by (auto simp: policy_land_def policy_tcp_def policy_udp_def policy_bogon_def drop_with_def Let_def
      split: if_splits option.splits)

lemma icmp_stage_next:
  "policy_icmp e s = Next e' s' \<Longrightarrow> s' = s \<and> (\<exists>p. e' = e\<lparr>e_icmp_policy := p\<rparr>)"
proof -
  assume n: "policy_icmp e s = Next e' s'"
  show ?thesis
  proof (cases "e_is_icmp e")
    case True
    with n show ?thesis
      by (auto simp: policy_icmp_def drop_with_def pass_with_def Let_def split: if_splits)
  next
    case False
    with n have "e' = e\<lparr>e_icmp_policy := e_icmp_policy e\<rparr>" "s' = s" by (simp_all add: policy_icmp_def)
    then show ?thesis by blast
  qed
qed

lemma late_policy:
  assumes "checks_pass k e s"
  obtains p where "run_stages (policy_stages k) e s = run_stages (late_stages k) (e\<lparr>e_icmp_policy := p\<rparr>) s"
proof -
  have split: "policy_stages k = [policy_land, policy_tcp, policy_udp, policy_icmp, policy_bogon k] @ late_stages k"
    by (simp add: policy_stages_def late_stages_def)
  obtain e' s' where n: "run_stages [policy_land, policy_tcp, policy_udp, policy_icmp, policy_bogon k] e s = Next e' s'"
    using assms by (auto simp: checks_pass_def split: stage_out.splits)
  then have "s' = s \<and> (\<exists>p. e' = e\<lparr>e_icmp_policy := p\<rparr>)"
    by (auto split: stage_out.splits dest!: simple_stage_next icmp_stage_next)
  with n that show ?thesis
    unfolding split run_stages_append by auto
qed

text \<open>The verdict of the program is the verdict of the late stages.\<close>

lemma policy_verdict_fst:
  assumes "dp_config s = Some cfg" "dp_scratch s = Some sc"
    and "run_stages (policy_stages k) (policy_env cfg sc) s = Verdict e s'"
  shows "fst (caly_xdp_policy k sp d s) = final_action e"
  using assms by (simp add: caly_xdp_policy_def policy_verdict_def)

section \<open>Named situations\<close>

definition src_of :: "caly_scratch \<Rightarrow> src_key" where
  "src_of sc = (if pk_family (sc_pkt sc) = CALY_AF_INET then K4 (q0 (pk_saddr (sc_pkt sc)))
                else K6 (pk_saddr (sc_pkt sc)))"

text \<open>The source is on a list.\<close>

definition listed :: "kern \<Rightarrow> lpm_map \<Rightarrow> caly_scratch \<Rightarrow> bool" where
  "listed k m sc \<longleftrightarrow> lpm_find k m (src_of sc) \<noteq> None"

definition allowlisted :: "kern \<Rightarrow> fw_config \<Rightarrow> caly_scratch \<Rightarrow> dp_state \<Rightarrow> bool" where
  "allowlisted k cfg sc s \<longleftrightarrow> has_flag (cfg_flags cfg) CALY_F_ALLOWLIST \<and> listed k (dp_allow s) sc"

definition blocklisted :: "kern \<Rightarrow> fw_config \<Rightarrow> caly_scratch \<Rightarrow> dp_state \<Rightarrow> bool" where
  "blocklisted k cfg sc s \<longleftrightarrow> has_flag (cfg_flags cfg) CALY_F_BLOCKLIST \<and> listed k (dp_block s) sc"

definition to_mgmt_port :: "fw_config \<Rightarrow> caly_scratch \<Rightarrow> bool" where
  "to_mgmt_port cfg sc \<longleftrightarrow>
     \<not> has_flag (pk_flags (sc_pkt sc)) CALY_PKT_F_L4_TRUNC \<and> is_mgmt (policy_env cfg sc)"

text \<open>An entry of the flow that is live and stays open on this packet.\<close>

definition open_flow :: "fw_config \<Rightarrow> caly_scratch \<Rightarrow> dp_state \<Rightarrow> bool" where
  "open_flow cfg sc s \<longleftrightarrow>
     has_flag (cfg_flags cfg) CALY_F_CONNTRACK \<and> \<not> has_flag (pk_flags (sc_pkt sc)) CALY_PKT_F_L4_TRUNC \<and>
     (case dp_conn s (ct_key_of (sc_pkt sc)) of None \<Rightarrow> False
      | Some cs \<Rightarrow> ct_live (policy_env cfg sc) cs \<and>
                  cs_state (ct_advance (pk_proto (sc_pkt sc)) (pk_tcp_flags (sc_pkt sc)) cs) \<noteq> CALY_CT_CLOSED)"

definition fresh_pkt :: "caly_scratch \<Rightarrow> bool" where
  "fresh_pkt sc \<longleftrightarrow> \<not> has_flag (pk_flags (sc_pkt sc)) CALY_PKT_F_ALLOWLIST \<and>
                    \<not> has_flag (pk_flags (sc_pkt sc)) CALY_PKT_F_MGMT"

definition monitored :: "fw_config \<Rightarrow> caly_scratch \<Rightarrow> bool" where
  "monitored cfg sc \<longleftrightarrow> monitor_cfg cfg \<or> sc_carry_if_monitor sc \<noteq> 0"

lemma policy_env_simps [simp]:
  "e_cfg (policy_env cfg sc) = cfg" "e_sc (policy_env cfg sc) = sc" "e_act (policy_env cfg sc) = ACT_PASS"
  "e_skey (policy_env cfg sc) = src_of sc" "e_now (policy_env cfg sc) = pk_ts_ns (sc_pkt sc)"
  "e_pkt_len (policy_env cfg sc) = pk_pkt_len (sc_pkt sc)"
  "e_if_monitor (policy_env cfg sc) \<longleftrightarrow> sc_carry_if_monitor sc \<noteq> 0"
  "\<not> e_ban_deferred (policy_env cfg sc)" "\<not> e_ct_missed (policy_env cfg sc)"
  "lpm_src (e_is_v4 (policy_env cfg sc)) (pk_saddr (sc_pkt sc)) = src_of sc"
  by (simp_all add: policy_env_def Let_def src_of_def lpm_src_def)

lemma set_flag_pkt [simp]: "pk_flags (e_pkt (set_pkt_flag f e)) = pk_flags (e_pkt e) OR f"
  by (simp add: set_pkt_flag_def)

lemma is_mgmt_icmp_policy [simp]: "is_mgmt (e\<lparr>e_icmp_policy := p\<rparr>) = is_mgmt e"
  by (simp add: is_mgmt_def Let_def)

lemma final_pass: "e_act e = ACT_PASS \<Longrightarrow> final_action e = XDP_PASS"
  by (simp add: final_action_def)

lemma final_drop: "e_act e = ACT_DROP \<Longrightarrow> \<not> monitoring e \<Longrightarrow> final_action e = XDP_DROP"
  by (simp add: final_action_def)

lemma allow_skipped:
  "\<not> allowlisted k cfg sc s \<Longrightarrow>
   policy_allow k ((policy_env cfg sc)\<lparr>e_icmp_policy := p\<rparr>) s = Next ((policy_env cfg sc)\<lparr>e_icmp_policy := p\<rparr>) s"
  by (auto simp: policy_allow_def allowlisted_def listed_def split: option.splits)

lemma mgmt_skipped:
  "\<not> to_mgmt_port cfg sc \<Longrightarrow>
   policy_mgmt ((policy_env cfg sc)\<lparr>e_icmp_policy := p\<rparr>) s = Next ((policy_env cfg sc)\<lparr>e_icmp_policy := p\<rparr>) s"
  by (auto simp: policy_mgmt_def to_mgmt_port_def)

lemma block_skipped:
  "\<not> blocklisted k cfg sc s \<Longrightarrow>
   policy_block k ((policy_env cfg sc)\<lparr>e_icmp_policy := p\<rparr>) s = Next ((policy_env cfg sc)\<lparr>e_icmp_policy := p\<rparr>) s"
  by (auto simp: policy_block_def blocklisted_def listed_def split: option.splits)

lemma allowlist_pass:
  assumes "dp_config s = Some cfg" "dp_scratch s = Some sc"
    and "checks_pass k (policy_env cfg sc) s" "allowlisted k cfg sc s"
  shows "fst (caly_xdp_policy k synproxy d s) = XDP_PASS"
proof -
  obtain p where p: "run_stages (policy_stages k) (policy_env cfg sc) s =
      run_stages (late_stages k) ((policy_env cfg sc)\<lparr>e_icmp_policy := p\<rparr>) s"
    using late_policy [OF assms(3)] by blast
  obtain q rm where "lpm_find k (dp_allow s) (src_of sc) = Some (q, rm)"
    using assms(4) by (auto simp: allowlisted_def listed_def)
  then have "\<exists>e' s'. run_stages (policy_stages k) (policy_env cfg sc) s = Verdict e' s' \<and> e_act e' = ACT_PASS"
    using assms(4) by (simp add: p late_stages_def policy_allow_def pass_with_def allowlisted_def Let_def)
  then show ?thesis
    using policy_verdict_fst [OF assms(1,2)] by (auto simp: final_pass)
qed

text \<open>Connection tracking on an environment that agrees with the packet.\<close>

lemma ct_state_upd: "cs_state (ct_advance proto fl (cs\<lparr>cs_last_seen_ns := a, cs_pkts_in := b, cs_bytes_in := c\<rparr>))
    = cs_state (ct_advance proto fl cs)"
  by (auto simp: ct_advance_def)

lemma ct_live_ctx:
  "ctx_of e = ctx_of (policy_env cfg sc) \<Longrightarrow> sc_pkt (e_sc e) = sc_pkt sc \<Longrightarrow>
   ct_live e cs = ct_live (policy_env cfg sc) cs"
  by (simp add: ct_live_def ctx_of_def Let_def)

lemma conntrack_open:
  assumes "open_flow cfg sc s" "ctx_of e = ctx_of (policy_env cfg sc)" "e_sc e = sc" "e_act e = ACT_PASS"
  shows "\<exists>e' s'. policy_conntrack e s = Verdict e' s' \<and> e_act e' = ACT_PASS"
proof -
  have cfg: "e_cfg e = cfg" using assms(2) by (simp add: ctx_of_def)
  obtain cs where cs: "dp_conn s (ct_key_of (sc_pkt sc)) = Some cs" "ct_live (policy_env cfg sc) cs"
    "cs_state (ct_advance (pk_proto (sc_pkt sc)) (pk_tcp_flags (sc_pkt sc)) cs) \<noteq> CALY_CT_CLOSED"
    using assms(1) by (auto simp: open_flow_def split: option.splits)
  have live: "ct_live (e\<lparr>e_sc := sc\<lparr>sc_ck := x\<rparr>, e_ct_key_valid := True\<rparr>) cs" for x
    using cs(2) assms(2,3) by (subst ct_live_ctx [of _ cfg sc]) simp_all
  show ?thesis
    using assms cs cfg live
    by (simp add: policy_conntrack_def Let_def open_flow_def pass_with_def ct_state_upd)
qed

lemma conntrack_not_open:
  assumes "\<not> open_flow cfg sc s" "ctx_of e = ctx_of (policy_env cfg sc)" "e_sc e = sc"
  shows "\<exists>e1 s1. policy_conntrack e s = Next e1 s1 \<and> e_ban_deferred e1 = e_ban_deferred e \<and>
           ctx_of e1 = ctx_of e \<and> dp_ban s1 = dp_ban s \<and> sc_pkt (e_sc e1) = sc_pkt sc"
proof -
  have cfg: "e_cfg e = cfg" using assms(2) by (simp add: ctx_of_def)
  have live: "ct_live (e\<lparr>e_sc := sc\<lparr>sc_ck := x\<rparr>, e_ct_key_valid := True\<rparr>) cs = ct_live (policy_env cfg sc) cs" for x cs
    using assms(2,3) by (subst ct_live_ctx [of _ cfg sc]) simp_all
  show ?thesis
    using assms cfg live
    by (auto simp: policy_conntrack_def Let_def open_flow_def ct_state_upd split: option.splits)
qed

lemma block_cases:
  "policy_block k e s = Next e s \<or> (\<exists>s'. policy_block k e s = drop_with STAT_DROP_BLOCKLIST e s')"
  by (auto simp: policy_block_def split: option.splits)

lemma ban_cases:
  obtains b where "policy_ban ((policy_env cfg sc)\<lparr>e_icmp_policy := p\<rparr>) s =
      Next ((policy_env cfg sc)\<lparr>e_icmp_policy := p, e_ban_deferred := b\<rparr>) s"
  | be where "policy_ban ((policy_env cfg sc)\<lparr>e_icmp_policy := p\<rparr>) s =
      ban_drop be ((policy_env cfg sc)\<lparr>e_icmp_policy := p\<rparr>) s"
proof -
  let ?e = "(policy_env cfg sc)\<lparr>e_icmp_policy := p\<rparr>"
  have f: "?e = ?e\<lparr>e_ban_deferred := False\<rparr>"
    by (simp add: policy_env_def Let_def)
  show ?thesis
  proof (cases "dp_ban s (src_of sc)")
    case None
    then have "policy_ban ?e s = Next (?e\<lparr>e_ban_deferred := False\<rparr>) s"
      using f by (simp add: policy_ban_def)
    with that(1) show ?thesis by simp
  next
    case (Some be)
    then have "policy_ban ?e s = Next (?e\<lparr>e_ban_deferred := False\<rparr>) s \<or>
        policy_ban ?e s = Next (?e\<lparr>e_ban_deferred := True\<rparr>) s \<or> policy_ban ?e s = ban_drop be ?e s"
      using f by (simp add: policy_ban_def)
    with that show ?thesis by auto
  qed
qed

lemma ban_drop_verdict: "\<exists>e' s'. ban_drop be e s = Verdict e' s' \<and> e_act e' = ACT_DROP \<and> ctx_of e' = ctx_of e"
  by (simp add: ban_drop_def drop_with_def Let_def)

text \<open>The last two stages in lockdown.\<close>

lemma lockdown_tail:
  assumes "e_mode e = FW_MODE_LOCKDOWN" "\<not> has_flag (pk_flags (e_pkt e)) CALY_PKT_F_MGMT" "\<not> e_is_icmp e"
  shows "\<exists>e' s'. run_stages [policy_synack, policy_lockdown] e s = Verdict e' s' \<and> e_act e' = ACT_DROP \<and>
           ctx_of e' = ctx_of e"
  using assms by (simp add: policy_synack_def policy_lockdown_def drop_with_def Let_def)

lemma deferred_tail:
  assumes "e_mode e = FW_MODE_LOCKDOWN" "\<not> has_flag (pk_flags (e_pkt e)) CALY_PKT_F_MGMT" "\<not> e_is_icmp e"
  shows "\<exists>e' s'. run_stages [policy_deferred_ban, policy_synack, policy_lockdown] e s = Verdict e' s' \<and>
           e_act e' = ACT_DROP \<and> ctx_of e' = ctx_of e"
proof -
  have "(\<exists>be. policy_deferred_ban e s = ban_drop be e s) \<or> policy_deferred_ban e s = Next e s"
    by (auto simp: policy_deferred_ban_def split: option.splits)
  then show ?thesis
    using ban_drop_verdict lockdown_tail [OF assms, of s]
    by (auto simp del: run_stages.simps simp: run_stages.simps(2) [of policy_deferred_ban]) (metis stage_out.simps(5))
qed

lemma late_drops_in_lockdown:
  assumes "cfg_mode cfg = FW_MODE_LOCKDOWN" "fresh_pkt sc"
    and "\<not> allowlisted k cfg sc s" "\<not> to_mgmt_port cfg sc" "\<not> open_flow cfg sc s"
    and "pk_proto (sc_pkt sc) \<noteq> CALY_IPPROTO_ICMP" "pk_proto (sc_pkt sc) \<noteq> CALY_IPPROTO_ICMPV6"
  shows "\<exists>e' s'. run_stages (late_stages k) ((policy_env cfg sc)\<lparr>e_icmp_policy := p\<rparr>) s = Verdict e' s' \<and>
           e_act e' = ACT_DROP \<and> ctx_of e' = ctx_of ((policy_env cfg sc)\<lparr>e_icmp_policy := p\<rparr>)"
proof -
  let ?e = "(policy_env cfg sc)\<lparr>e_icmp_policy := p\<rparr>"
  have pre: "run_stages (late_stages k) ?e s =
      run_stages [policy_block k, policy_ban, policy_conntrack, policy_deferred_ban, policy_synack, policy_lockdown] ?e s"
    using assms(3,4) by (simp add: late_stages_def allow_skipped mgmt_skipped)
  show ?thesis
  proof (cases "policy_block k ?e s = Next ?e s")
    case False
    then show ?thesis using block_cases [of k ?e s] by (auto simp: pre drop_with_def)
  next
    case blk: True
    show ?thesis
    proof (rule ban_cases [of p cfg sc s])
      fix be
      assume "policy_ban ?e s = ban_drop be ?e s"
      then show ?thesis using ban_drop_verdict [of be ?e s] blk by (auto simp: pre)
    next
      fix b
      assume bn: "policy_ban ?e s = Next (?e\<lparr>e_ban_deferred := b\<rparr>) s"
      let ?f = "?e\<lparr>e_ban_deferred := b\<rparr>"
      obtain e1 s1 where c: "policy_conntrack ?f s = Next e1 s1" "ctx_of e1 = ctx_of ?f" "sc_pkt (e_sc e1) = sc_pkt sc"
        using conntrack_not_open [OF assms(5), of ?f] by auto
      have "\<exists>e' s'. run_stages [policy_deferred_ban, policy_synack, policy_lockdown] e1 s1 = Verdict e' s' \<and>
          e_act e' = ACT_DROP \<and> ctx_of e' = ctx_of e1"
        using assms c(2,3) by (intro deferred_tail) (simp_all add: ctx_of_def fresh_pkt_def policy_env_def Let_def)
      with c blk bn show ?thesis
        by (simp add: pre del: run_stages.simps add: run_stages.simps(2) [of "policy_block k"]
            run_stages.simps(2) [of policy_ban] run_stages.simps(2) [of policy_conntrack])
    qed
  qed
qed

text \<open>An open flow passes everything after the block list and the operator's bans.\<close>

lemma open_flow_passes:
  assumes "dp_config s = Some cfg" "dp_scratch s = Some sc"
    and "checks_pass k (policy_env cfg sc) s" "\<not> blocklisted k cfg sc s" "\<not> to_mgmt_port cfg sc"
    and "\<And>be. dp_ban s (src_of sc) = Some be \<Longrightarrow> ban_active (pk_ts_ns (sc_pkt sc)) be \<Longrightarrow>
           \<not> has_flag (be_flags be) (CALY_BAN_F_MANUAL OR CALY_BAN_F_FEED OR CALY_BAN_F_PERMANENT)"
    and "open_flow cfg sc s"
  shows "fst (caly_xdp_policy k synproxy d s) = XDP_PASS"
proof (cases "allowlisted k cfg sc s")
  case True
  with assms show ?thesis using allowlist_pass by blast
next
  case False
  obtain p where p: "run_stages (policy_stages k) (policy_env cfg sc) s =
      run_stages (late_stages k) ((policy_env cfg sc)\<lparr>e_icmp_policy := p\<rparr>) s"
    using late_policy [OF assms(3)] by blast
  let ?e = "(policy_env cfg sc)\<lparr>e_icmp_policy := p\<rparr>"
  have "\<exists>b. policy_ban ?e s = Next (?e\<lparr>e_ban_deferred := b\<rparr>) s"
  proof (cases "dp_ban s (src_of sc)")
    case None
    then have "policy_ban ?e s = Next (?e\<lparr>e_ban_deferred := False\<rparr>) s"
      by (simp add: policy_ban_def policy_env_def src_of_def Let_def)
    then show ?thesis by blast
  next
    case (Some be)
    then have "policy_ban ?e s = Next (?e\<lparr>e_ban_deferred := ban_active (pk_ts_ns (sc_pkt sc)) be \<and>
        \<not> has_flag (pk_flags (sc_pkt sc)) CALY_PKT_F_MGMT\<rparr>) s"
      using assms(6) by (simp add: policy_ban_def policy_env_def src_of_def Let_def)
    then show ?thesis by blast
  qed
  then obtain b where b: "policy_ban ?e s = Next (?e\<lparr>e_ban_deferred := b\<rparr>) s" by blast
  obtain e' s' where c: "policy_conntrack (?e\<lparr>e_ban_deferred := b\<rparr>) s = Verdict e' s'" "e_act e' = ACT_PASS"
    using conntrack_open [OF assms(7), of "?e\<lparr>e_ban_deferred := b\<rparr>"] by auto
  with b have "run_stages (policy_stages k) (policy_env cfg sc) s = Verdict e' s'"
    using False assms(4,5) by (simp add: p late_stages_def allow_skipped mgmt_skipped block_skipped)
  then show ?thesis
    using policy_verdict_fst [OF assms(1,2)] c(2) by (auto simp: final_pass)
qed

section \<open>Properties\<close>

text \<open>The allow list wins: a packet from an allow-listed source that passed the stateless
  checks is passed, whatever the block list, the bans, the connection table and the mode say.\<close>

theorem allowlist_outranks:
  assumes "dp_config s = Some cfg" "dp_scratch s = Some sc"
    and "checks_pass k (policy_env cfg sc) s" "allowlisted k cfg sc s"
  shows "fst (caly_xdp_policy k synproxy d s) = XDP_PASS"
  using allowlist_pass [OF assms] .

lemma mgmt_port_pass:
  assumes "dp_config s = Some cfg" "dp_scratch s = Some sc"
    and "checks_pass k (policy_env cfg sc) s"
    and "has_flag (cfg_flags cfg) CALY_F_MGMT_BYPASS_ALL" "to_mgmt_port cfg sc"
  shows "fst (caly_xdp_policy k synproxy d s) = XDP_PASS"
proof (cases "allowlisted k cfg sc s")
  case True
  with assms show ?thesis using allowlist_pass by blast
next
  case False
  obtain p where p: "run_stages (policy_stages k) (policy_env cfg sc) s =
      run_stages (late_stages k) ((policy_env cfg sc)\<lparr>e_icmp_policy := p\<rparr>) s"
    using late_policy [OF assms(3)] by blast
  have "\<exists>e' s'. run_stages (policy_stages k) (policy_env cfg sc) s = Verdict e' s' \<and> e_act e' = ACT_PASS"
    using False assms(4,5)
    by (auto simp: p late_stages_def allow_skipped policy_mgmt_def pass_with_def to_mgmt_port_def)
  then show ?thesis
    using policy_verdict_fst [OF assms(1,2)] by (auto simp: final_pass)
qed

text \<open>The management port is never locked out: with \<open>MGMT_BYPASS_ALL\<close> a packet to a management
  port that passed the stateless checks is passed, even from a block-listed or banned source and
  in lockdown.\<close>

theorem mgmt_port_never_locked_out:
  assumes "dp_config s = Some cfg" "dp_scratch s = Some sc"
    and "checks_pass k (policy_env cfg sc) s"
    and "has_flag (cfg_flags cfg) CALY_F_MGMT_BYPASS_ALL" "to_mgmt_port cfg sc"
  shows "fst (caly_xdp_policy k synproxy d s) = XDP_PASS"
  using mgmt_port_pass [OF assms] .

text \<open>The block list outranks connection tracking: a packet from a block-listed source that is
  neither allow-listed nor aimed at a management port is dropped although an open flow exists
  for it (outside monitor mode).\<close>

theorem blocklist_drops:
  assumes "dp_config s = Some cfg" "dp_scratch s = Some sc"
    and "checks_pass k (policy_env cfg sc) s" "fresh_pkt sc"
    and "\<not> allowlisted k cfg sc s" "\<not> to_mgmt_port cfg sc" "blocklisted k cfg sc s"
    and "\<not> monitored cfg sc"
  shows "fst (caly_xdp_policy k synproxy d s) = XDP_DROP"
proof -
  obtain p where p: "run_stages (policy_stages k) (policy_env cfg sc) s =
      run_stages (late_stages k) ((policy_env cfg sc)\<lparr>e_icmp_policy := p\<rparr>) s"
    using late_policy [OF assms(3)] by blast
  obtain q rm where "lpm_find k (dp_block s) (src_of sc) = Some (q, rm)"
    using assms(7) by (auto simp: blocklisted_def listed_def)
  then have "\<exists>e' s'. run_stages (policy_stages k) (policy_env cfg sc) s = Verdict e' s' \<and>
      e_act e' = ACT_DROP \<and> \<not> monitoring e'"
    using assms(4-8)
    by (simp add: p late_stages_def allow_skipped mgmt_skipped policy_block_def drop_with_def
        blocklisted_def fresh_pkt_def monitoring_def monitored_def monitor_cfg_def)
  then show ?thesis
    using policy_verdict_fst [OF assms(1,2)] by (auto simp: final_drop)
qed

text \<open>What is left of the policy program for a packet no list decides.\<close>

lemma ban_stages_left:
  assumes "checks_pass k (policy_env cfg sc) s" "fresh_pkt sc"
    and "\<not> allowlisted k cfg sc s" "\<not> to_mgmt_port cfg sc" "\<not> blocklisted k cfg sc s"
  obtains p where "run_stages (policy_stages k) (policy_env cfg sc) s =
      run_stages [policy_ban, policy_conntrack, policy_deferred_ban, policy_synack, policy_lockdown]
        ((policy_env cfg sc)\<lparr>e_icmp_policy := p\<rparr>) s"
proof -
  obtain p where p: "run_stages (policy_stages k) (policy_env cfg sc) s =
      run_stages (late_stages k) ((policy_env cfg sc)\<lparr>e_icmp_policy := p\<rparr>) s"
    using late_policy [OF assms(1)] by blast
  show ?thesis
    by (rule that [of p]) (use assms(2-5) in \<open>simp add: p late_stages_def allow_skipped mgmt_skipped block_skipped fresh_pkt_def\<close>)
qed

lemma operator_ban_drops:
  assumes "dp_config s = Some cfg" "dp_scratch s = Some sc"
    and "checks_pass k (policy_env cfg sc) s" "fresh_pkt sc"
    and "\<not> allowlisted k cfg sc s" "\<not> to_mgmt_port cfg sc" "\<not> blocklisted k cfg sc s"
    and "\<not> monitored cfg sc" "dp_ban s (src_of sc) = Some be"
    and "ban_active (pk_ts_ns (sc_pkt sc)) be"
    and "has_flag (be_flags be) (CALY_BAN_F_MANUAL OR CALY_BAN_F_FEED OR CALY_BAN_F_PERMANENT)"
  shows "fst (caly_xdp_policy k synproxy d s) = XDP_DROP"
proof -
  obtain p where pre: "run_stages (policy_stages k) (policy_env cfg sc) s =
      run_stages [policy_ban, policy_conntrack, policy_deferred_ban, policy_synack, policy_lockdown]
        ((policy_env cfg sc)\<lparr>e_icmp_policy := p\<rparr>) s"
    using ban_stages_left [OF assms(3-7)] by blast
  let ?e = "(policy_env cfg sc)\<lparr>e_icmp_policy := p\<rparr>"
  have "\<not> has_flag (pk_flags (sc_pkt sc)) CALY_PKT_F_MGMT" using assms(4) by (simp add: fresh_pkt_def)
  then have "\<exists>e' s'. run_stages (policy_stages k) (policy_env cfg sc) s = Verdict e' s' \<and>
      e_act e' = ACT_DROP \<and> ctx_of e' = ctx_of ?e"
    using assms(9-11) by (auto simp: pre policy_ban_def ban_drop_def drop_with_def Let_def ctx_of_def)
  moreover have "\<not> monitoring e" if "ctx_of e = ctx_of ?e" for e
    using that assms(8) by (auto simp: monitoring_def monitored_def monitor_cfg_def ctx_of_def)
  ultimately show ?thesis using policy_verdict_fst [OF assms(1,2)] by (auto simp: final_drop)
qed

text \<open>C32. Operator bans outrank connection tracking, automatic ones do not: an active manual, feed
  or permanent ban drops the packet although an open flow exists, while an automatic ban lets
  the packets of an open flow through and drops everything else of the source.\<close>

theorem ban_precedence:
  assumes "dp_config s = Some cfg" "dp_scratch s = Some sc"
    and "checks_pass k (policy_env cfg sc) s" "fresh_pkt sc"
    and "\<not> allowlisted k cfg sc s" "\<not> to_mgmt_port cfg sc" "\<not> blocklisted k cfg sc s"
    and "\<not> monitored cfg sc" "dp_ban s (src_of sc) = Some be"
    and "ban_active (pk_ts_ns (sc_pkt sc)) be"
  shows "fst (caly_xdp_policy k synproxy d s) =
         (if has_flag (be_flags be) (CALY_BAN_F_MANUAL OR CALY_BAN_F_FEED OR CALY_BAN_F_PERMANENT)
          then XDP_DROP else if open_flow cfg sc s then XDP_PASS else XDP_DROP)"
proof -
  obtain p where pre: "run_stages (policy_stages k) (policy_env cfg sc) s =
      run_stages [policy_ban, policy_conntrack, policy_deferred_ban, policy_synack, policy_lockdown]
        ((policy_env cfg sc)\<lparr>e_icmp_policy := p\<rparr>) s"
    using ban_stages_left [OF assms(3-7)] by blast
  let ?e = "(policy_env cfg sc)\<lparr>e_icmp_policy := p\<rparr>"
  have mon: "\<not> monitoring e" if "ctx_of e = ctx_of ?e" for e
    using that assms(8) by (auto simp: monitoring_def monitored_def monitor_cfg_def ctx_of_def)
  have fl: "\<not> has_flag (pk_flags (sc_pkt sc)) CALY_PKT_F_MGMT"
    using assms(4) by (simp add: fresh_pkt_def)
  show ?thesis
  proof (cases "has_flag (be_flags be) (CALY_BAN_F_MANUAL OR CALY_BAN_F_FEED OR CALY_BAN_F_PERMANENT)")
    case True
    then show ?thesis using operator_ban_drops [OF assms] by simp
  next
    case auto: False
    then have b: "policy_ban ?e s = Next (?e\<lparr>e_ban_deferred := True\<rparr>) s"
      using assms(9,10) fl by (simp add: policy_ban_def)
    show ?thesis
    proof (cases "open_flow cfg sc s")
      case True
      then have "\<exists>e' s'. run_stages (policy_stages k) (policy_env cfg sc) s = Verdict e' s' \<and> e_act e' = ACT_PASS"
        using conntrack_open [of cfg sc s "?e\<lparr>e_ban_deferred := True\<rparr>"] by (auto simp: pre b)
      with auto True show ?thesis
        using policy_verdict_fst [OF assms(1,2)] by (auto simp: final_pass)
    next
      case False
      obtain e1 s1 where c: "policy_conntrack (?e\<lparr>e_ban_deferred := True\<rparr>) s = Next e1 s1"
        "e_ban_deferred e1" "ctx_of e1 = ctx_of ?e" "dp_ban s1 = dp_ban s"
        using conntrack_not_open [OF False, of "?e\<lparr>e_ban_deferred := True\<rparr>"] by auto
      have "e_skey e1 = src_of sc" "e_now e1 = pk_ts_ns (sc_pkt sc)"
        using c(3) by (simp_all add: ctx_of_def)
      then have "\<exists>e' s'. run_stages (policy_stages k) (policy_env cfg sc) s = Verdict e' s' \<and>
          e_act e' = ACT_DROP \<and> ctx_of e' = ctx_of ?e"
        using assms(9,10) c
        by (simp add: pre b policy_deferred_ban_def ban_drop_def drop_with_def Let_def)
      with auto False show ?thesis
        using policy_verdict_fst [OF assms(1,2)] mon by (auto simp: final_drop)
    qed
  qed
qed

text \<open>Lockdown: a packet that is neither allow-listed, nor aimed at a management port, nor part
  of an open flow, nor ICMP is dropped in lockdown mode.\<close>

theorem lockdown_drops:
  assumes "dp_config s = Some cfg" "dp_scratch s = Some sc" "cfg_mode cfg = FW_MODE_LOCKDOWN"
    and "checks_pass k (policy_env cfg sc) s" "fresh_pkt sc"
    and "\<not> allowlisted k cfg sc s" "\<not> to_mgmt_port cfg sc" "\<not> open_flow cfg sc s"
    and "pk_proto (sc_pkt sc) \<noteq> CALY_IPPROTO_ICMP" "pk_proto (sc_pkt sc) \<noteq> CALY_IPPROTO_ICMPV6"
    and "\<not> monitored cfg sc"
  shows "fst (caly_xdp_policy k synproxy d s) = XDP_DROP"
proof -
  obtain p where p: "run_stages (policy_stages k) (policy_env cfg sc) s =
      run_stages (late_stages k) ((policy_env cfg sc)\<lparr>e_icmp_policy := p\<rparr>) s"
    using late_policy [OF assms(4)] by blast
  let ?e = "(policy_env cfg sc)\<lparr>e_icmp_policy := p\<rparr>"
  have "\<exists>e' s'. run_stages (late_stages k) ?e s = Verdict e' s' \<and> e_act e' = ACT_DROP \<and> ctx_of e' = ctx_of ?e"
    using assms by (intro late_drops_in_lockdown) simp_all
  moreover have "\<not> monitoring e'" if "ctx_of e' = ctx_of ?e" for e'
    using that assms(11) by (auto simp: monitoring_def monitored_def monitor_cfg_def ctx_of_def)
  ultimately show ?thesis
    using policy_verdict_fst [OF assms(1,2)] p by (auto simp: final_drop)
qed

text \<open>C33. Path-MTU and neighbour discovery survive every policy: an ICMP packet of a mandatory type
  that is neither a LAND packet, nor a fragment, nor oversized is passed whatever the ICMP policy
  map, the lists, the bans and the mode say.\<close>

theorem mandatory_icmp_passes:
  assumes "dp_config s = Some cfg" "dp_scratch s = Some sc"
    and "pk_proto (sc_pkt sc) = CALY_IPPROTO_ICMP \<or> pk_proto (sc_pkt sc) = CALY_IPPROTO_ICMPV6"
    and "icmp_mandatory (pk_family (sc_pkt sc) = CALY_AF_INET) (drop_bit 8 (sc_carry_icmp_tc sc) AND 0xFF)"
    and "pk_saddr (sc_pkt sc) \<noteq> pk_daddr (sc_pkt sc)"
    and "\<not> has_flag (pk_flags (sc_pkt sc)) CALY_PKT_F_FRAG"
    and "cfg_icmp_max_payload cfg = 0 \<or> ucast (pk_l4_len (sc_pkt sc)) \<le> cfg_icmp_max_payload cfg"
    and "cfg_icmp6_max_payload cfg = 0 \<or> ucast (pk_l4_len (sc_pkt sc)) \<le> cfg_icmp6_max_payload cfg"
  shows "fst (caly_xdp_policy k synproxy d s) = XDP_PASS"
proof -
  let ?l = "ucast (pk_l4_len (sc_pkt sc)) :: u32" and ?e = "policy_env cfg sc"
  have sub: "pk_l4_len (sc_pkt sc) \<ge> 8 \<Longrightarrow> ?l - 8 \<le> ?l"
  proof (rule word_sub_le)
    assume "pk_l4_len (sc_pkt sc) \<ge> 8"
    moreover have "unat ?l = unat (pk_l4_len (sc_pkt sc))"
      using unat_u16_less [of "pk_l4_len (sc_pkt sc)"]
      by (simp only: unsigned_ucast_eq) (simp add: take_bit_nat_eq_self_iff)
    ultimately show "8 \<le> ?l" by (simp add: word_le_nat_alt)
  qed
  have pay: "\<not> (m \<noteq> 0 \<and> (if pk_l4_len (sc_pkt sc) \<ge> 8 then ?l - 8 else 0) > m)"
    if "m = 0 \<or> ?l \<le> m" for m
    using that sub by (auto dest: order.trans leD)
  have i: "e_is_icmp ?e" "e_icmp_tc ?e = sc_carry_icmp_tc sc" "e_is_v4 ?e \<longleftrightarrow> pk_family (sc_pkt sc) = CALY_AF_INET"
    using assms(3) by (simp_all add: policy_env_def Let_def)
  have "\<exists>e'. policy_icmp ?e s = Verdict e' s \<and> e_act e' = ACT_PASS"
    using assms(4,6) i pay [OF assms(7)] pay [OF assms(8)]
    unfolding policy_icmp_def Let_def pass_with_def
    by (cases "pk_family (sc_pkt sc) = CALY_AF_INET") auto
  then have "\<exists>e'. run_stages (policy_stages k) ?e s = Verdict e' s \<and> e_act e' = ACT_PASS"
    using assms(3,5)
    by (auto simp: policy_stages_def policy_land_def policy_tcp_def policy_udp_def Let_def)
  then show ?thesis
    using policy_verdict_fst [OF assms(1,2)] by (auto simp: final_pass)
qed

text \<open>The short circuit is wider than an established flow: a packet without RST passes every
  later rule when its flow entry is live and was only ever created by a SYN, so repeated SYNs of
  one tuple meet neither the rate limits nor the port policy; and a FIN reopens an entry that a
  RST had closed, although the comment says that such an entry opens no door.\<close>

theorem half_open_flow_short_circuits:
  assumes "dp_config s = Some cfg" "dp_scratch s = Some sc"
    and "checks_pass k (policy_env cfg sc) s" "fresh_pkt sc" "\<not> blocklisted k cfg sc s"
    and "dp_ban s (src_of sc) = None"
    and "has_flag (cfg_flags cfg) CALY_F_CONNTRACK" "\<not> has_flag (pk_flags (sc_pkt sc)) CALY_PKT_F_L4_TRUNC"
    and "pk_proto (sc_pkt sc) = CALY_IPPROTO_TCP" "\<not> has_flag (pk_tcp_flags (sc_pkt sc)) CALY_TCP_RST"
    and "dp_conn s (ct_key_of (sc_pkt sc)) = Some cs" "ct_live (policy_env cfg sc) cs"
    and "cs_state cs = CALY_CT_SYN_RECV \<or>
         cs_state cs = CALY_CT_CLOSED \<and> has_flag (pk_tcp_flags (sc_pkt sc)) CALY_TCP_FIN"
    and "\<not> to_mgmt_port cfg sc"
  shows "fst (caly_xdp_policy k synproxy d s) = XDP_PASS"
proof -
  have "open_flow cfg sc s"
    using assms(7-13) by (auto simp: open_flow_def ct_advance_def)
  then show ?thesis
    using assms(1-3,5,6,14) by (intro open_flow_passes) auto
qed

section \<open>Witnesses\<close>

text \<open>A TCP SYN from 7.0.0.0 to port 80 of 9.0.0.0, and the same to port 22.\<close>

definition syn_pkt :: pkt_ctx where
  "syn_pkt = (pkt0 60)\<lparr>pk_ts_ns := 1000, pk_family := CALY_AF_INET, pk_proto := CALY_IPPROTO_TCP,
     pk_saddr := Quad 7 0 0 0, pk_daddr := Quad 9 0 0 0, pk_sport := 0x3930, pk_dport := 0x5000,
     pk_tcp_flags := CALY_TCP_SYN\<rparr>"

definition rule0 :: rule_meta where
  "rule0 = \<lparr>rm_added_ns = 0, rm_hits = 0, rm_flags = 0, rm_tag = 0\<rparr>"

definition ban0 :: "u32 \<Rightarrow> ban_entry" where
  "ban0 fl = \<lparr>be_expiry_ns = 5000, be_first_seen_ns = 0, be_last_hit_ns = 0, be_cur_ttl_ns = 5000,
     be_hit_pkts = 0, be_hit_bytes = 0, be_reason = STAT_DROP_RATE_PPS, be_strikes = 0, be_offences = 1,
     be_flags = fl\<rparr>"

abbreviation "syn_sc \<equiv> sc0 syn_pkt"
abbreviation "syn_dp \<equiv> dp0 caly_conf_set_defaults syn_sc"
abbreviation "k0 \<equiv> kern0 1000"

lemma syn_pkt_simps [simp]:
  "sc_pkt (sc0 q) = q" "pk_flags syn_pkt = 0" "pk_proto syn_pkt = 6" "pk_tcp_flags syn_pkt = 2"
  "pk_family syn_pkt = 4" "pk_saddr syn_pkt = Quad 7 0 0 0" "pk_daddr syn_pkt = Quad 9 0 0 0"
  "pk_dport syn_pkt = 0x5000" "pk_sport syn_pkt = 0x3930" "pk_ts_ns syn_pkt = 1000"
  "sc_carry_if_monitor (sc0 q) = 0" "sc_carry_is_wan (sc0 q) = 0"
  by (simp_all add: sc0_def syn_pkt_def pkt0_def)

lemma syn_src [simp]: "src_of syn_sc = K4 7"
  by (simp add: src_of_def)

lemma ntohs_http [simp]: "ntohs 0x5000 = 80"
  by code_simp

lemma ntohs_ssh [simp]: "ntohs 0x1600 = 22"
  by code_simp

lemma syn_legal [simp]: "caly_tcp_flags_illegal 2 = STAT_PKT_TOTAL"
  by (simp add: caly_tcp_flags_illegal_def)

lemma syn_checks [simp]: "checks_pass k (policy_env caly_conf_set_defaults syn_sc) s"
  by (simp add: checks_pass_def policy_land_def policy_tcp_def policy_udp_def policy_icmp_def
      policy_bogon_def Let_def policy_env_def)

lemma syn_not_mgmt [simp]: "\<not> to_mgmt_port caly_conf_set_defaults syn_sc"
proof -
  have "\<not> caly_is_mgmt_tcp caly_conf_set_defaults 80"
    using mgmt_loop_take [of "cfg_mgmt_tcp_ports caly_conf_set_defaults" 1 80]
    by (simp add: caly_is_mgmt_tcp_def)
  then show ?thesis by (simp add: to_mgmt_port_def is_mgmt_def)
qed

lemma syn_fresh [simp]: "fresh_pkt syn_sc" "\<not> monitored caly_conf_set_defaults syn_sc"
  by (simp_all add: fresh_pkt_def monitored_def monitor_cfg_def)

lemma dp0_simps [simp]:
  "dp_config (dp0 c q) = Some c" "dp_scratch (dp0 c q) = Some q" "dp_allow (dp0 c q) = Map.empty"
  "dp_block (dp0 c q) = Map.empty" "dp_ban (dp0 c q) = Map.empty" "dp_conn (dp0 c q) = Map.empty"
  by (simp_all add: dp0_def)

lemma k0_lpm: "lpm_find k0 m (K4 a) = map_option (\<lambda>r. ((K4 a, 32), r)) (m (K4 a, 32))"
  by (cases "m (K4 a, 32)") (simp_all add: lpm_find_def kern0_def Let_def)

theorem allowlist_outranks_witness:
  "fst (caly_xdp_policy k0 (\<lambda>d s. (XDP_TX, s)) []
          (syn_dp\<lparr>dp_allow := [(K4 7, 32) \<mapsto> rule0], dp_block := [(K4 7, 32) \<mapsto> rule0]\<rparr>)) = XDP_PASS"
  by (rule allowlist_outranks [of _ caly_conf_set_defaults syn_sc])
    (simp_all add: allowlisted_def listed_def k0_lpm)

theorem blocklist_drops_witness:
  "fst (caly_xdp_policy k0 (\<lambda>d s. (XDP_TX, s)) [] (syn_dp\<lparr>dp_block := [(K4 7, 32) \<mapsto> rule0]\<rparr>)) = XDP_DROP"
  by (rule blocklist_drops [of _ caly_conf_set_defaults syn_sc])
    (simp_all add: allowlisted_def blocklisted_def listed_def k0_lpm)

theorem ban_precedence_witness:
  "fst (caly_xdp_policy k0 (\<lambda>d s. (XDP_TX, s)) [] (syn_dp\<lparr>dp_ban := [K4 7 \<mapsto> ban0 CALY_BAN_F_MANUAL]\<rparr>)) = XDP_DROP \<and>
   fst (caly_xdp_policy k0 (\<lambda>d s. (XDP_TX, s)) []
          (syn_dp\<lparr>dp_ban := [K4 7 \<mapsto> ban0 CALY_BAN_F_AUTO],
                  dp_conn := [ct_key_of syn_pkt \<mapsto> ct_learn 900 60 syn_pkt]\<rparr>)) = XDP_PASS"
proof -
  let ?s1 = "syn_dp\<lparr>dp_ban := [K4 7 \<mapsto> ban0 CALY_BAN_F_MANUAL]\<rparr>"
  let ?s2 = "syn_dp\<lparr>dp_ban := [K4 7 \<mapsto> ban0 CALY_BAN_F_AUTO],
                  dp_conn := [ct_key_of syn_pkt \<mapsto> ct_learn 900 60 syn_pkt]\<rparr>"
  have "open_flow caly_conf_set_defaults syn_sc ?s2"
    by (simp add: open_flow_def ct_learn_def ct_live_def ct_timeout_def ct_advance_def)
  then show ?thesis
    using ban_precedence [of ?s1 caly_conf_set_defaults syn_sc k0 "ban0 CALY_BAN_F_MANUAL" "\<lambda>d s. (XDP_TX, s)" "[]"]
      ban_precedence [of ?s2 caly_conf_set_defaults syn_sc k0 "ban0 CALY_BAN_F_AUTO" "\<lambda>d s. (XDP_TX, s)" "[]"]
    by (simp add: allowlisted_def blocklisted_def listed_def k0_lpm ban_active_def ban0_def)
qed

theorem half_open_flow_short_circuits_witness:
  "fst (caly_xdp_policy k0 (\<lambda>d s. (XDP_TX, s)) []
          (syn_dp\<lparr>dp_conn := [ct_key_of syn_pkt \<mapsto> ct_learn 900 60 syn_pkt]\<rparr>)) = XDP_PASS"
  by (rule half_open_flow_short_circuits [where cfg = caly_conf_set_defaults and sc = syn_sc
        and cs = "ct_learn 900 60 syn_pkt"])
    (simp_all add: blocklisted_def listed_def k0_lpm ct_learn_def ct_live_def ct_timeout_def)

text \<open>Port 22, and the lockdown mode.\<close>

abbreviation "ssh_sc \<equiv> sc0 (syn_pkt\<lparr>pk_dport := 0x1600\<rparr>)"
abbreviation "lock_cfg \<equiv> caly_conf_set_defaults\<lparr>cfg_mode := FW_MODE_LOCKDOWN\<rparr>"

theorem mgmt_port_never_locked_out_witness:
  "fst (caly_xdp_policy k0 (\<lambda>d s. (XDP_TX, s)) []
          ((dp0 lock_cfg ssh_sc)\<lparr>dp_block := [(K4 7, 32) \<mapsto> rule0]\<rparr>)) = XDP_PASS"
proof (rule mgmt_port_never_locked_out [of _ lock_cfg ssh_sc])
  have "caly_is_mgmt_tcp lock_cfg 22"
    using mgmt_loop_take [of "cfg_mgmt_tcp_ports caly_conf_set_defaults" 1 22]
    by (simp add: caly_is_mgmt_tcp_def)
  then show "to_mgmt_port lock_cfg ssh_sc"
    by (simp add: to_mgmt_port_def is_mgmt_def)
qed (simp_all add: checks_pass_def policy_land_def policy_tcp_def policy_udp_def policy_icmp_def
      policy_bogon_def Let_def policy_env_def)

theorem lockdown_drops_witness:
  "fst (caly_xdp_policy k0 (\<lambda>d s. (XDP_TX, s)) [] (dp0 lock_cfg syn_sc)) = XDP_DROP"
proof (rule lockdown_drops [of _ lock_cfg syn_sc])
  have "\<not> caly_is_mgmt_tcp lock_cfg 80"
    using mgmt_loop_take [of "cfg_mgmt_tcp_ports caly_conf_set_defaults" 1 80]
    by (simp add: caly_is_mgmt_tcp_def)
  then show "\<not> to_mgmt_port lock_cfg syn_sc"
    by (simp add: to_mgmt_port_def is_mgmt_def)
qed (simp_all add: checks_pass_def policy_land_def policy_tcp_def policy_udp_def policy_icmp_def
      policy_bogon_def Let_def policy_env_def allowlisted_def listed_def k0_lpm open_flow_def
      monitored_def monitor_cfg_def)

theorem mandatory_icmp_passes_witness:
  "fst (caly_xdp_policy k0 (\<lambda>d s. (XDP_TX, s)) []
          (dp0 lock_cfg ((sc0 (syn_pkt\<lparr>pk_proto := CALY_IPPROTO_ICMP\<rparr>))\<lparr>sc_carry_icmp_tc := 0x304\<rparr>))) = XDP_PASS"
  by (rule mandatory_icmp_passes [of _ lock_cfg "(sc0 (syn_pkt\<lparr>pk_proto := CALY_IPPROTO_ICMP\<rparr>))\<lparr>sc_carry_icmp_tc := 0x304\<rparr>"])
    (simp_all add: sc0_def icmp_mandatory_def, simp_all add: syn_pkt_def pkt0_def)

end
