(* ===== verification/Caly_Egress.thy ===== *)
theory Caly_Egress
  imports Caly_Rules
begin

text \<open>
  The clsact egress hook of \<open>tc_egress.bpf.c\<close>: it parses the packets the host sends and learns their
  flows with the tuple swapped, so that the replies hit the connection table of the ingress chain.

  The kernel's \<open>bpf_skb_pull_data\<close> is the parameter \<open>pull\<close>: from the length of the linear part of
  the buffer and the requested length it gives the length that is directly accessible afterwards.
\<close>

section \<open>Data\<close>

datatype tc_action = TC_ACT_OK | TC_ACT_SHOT

text \<open>The fields of \<open>struct __sk_buff\<close> the hooks read: the packet, how much of it is linear, its
  length, the protocol in network order, and the device.\<close>

record sk_buff =
  skb_bytes :: bytes
  skb_linear :: nat
  skb_len :: u32
  skb_protocol :: u32
  skb_ifindex :: u32

record tce_out =
  to_src :: quad
  to_dst :: quad
  to_family :: u32
  to_proto :: u32
  to_sport :: u16
  to_dport :: u16
  to_tcp_flags :: u16
  to_pkt_len :: u32

abbreviation (input) TCE_PULL_LEN :: u32 where "TCE_PULL_LEN \<equiv> 80"

section \<open>Operations\<close>

definition tce_stat :: "u32 \<Rightarrow> dp_state \<Rightarrow> dp_state" where
  "tce_stat reason s =
     (if reason \<ge> STAT_MAX then s
      else case dp_stats s reason of None \<Rightarrow> s
           | Some v \<Rightarrow> s\<lparr>dp_stats := (dp_stats s)(reason \<mapsto> v + 1)\<rparr>)"

definition tce_is_vlan :: "u16 \<Rightarrow> bool" where
  "tce_is_vlan p \<longleftrightarrow> p = ntohs CALY_ETH_P_8021Q \<or> p = ntohs CALY_ETH_P_8021AD \<or> p = ntohs CALY_ETH_P_QINQ1"

text \<open>A result \<^term>\<open>Some None\<close> is the source's \<open>return -1\<close>.\<close>

function tce_vlan_loop :: "bytes \<Rightarrow> nat \<Rightarrow> u16 \<Rightarrow> u32 \<Rightarrow> (u16 \<times> u32) option option" where
  "tce_vlan_loop d i h_proto off =
     (if i < unat CALY_VLAN_MAX_DEPTH then
        if \<not> tce_is_vlan h_proto then Some (Some (h_proto, off))
        else if unat off + 4 > length d then Some None
        else (case ld16 d (unat off + 2) of
                None \<Rightarrow> None
              | Some enc \<Rightarrow> tce_vlan_loop d (i + 1) enc (off + 4))
      else Some (Some (h_proto, off)))"
  by pat_completeness auto
termination by (relation "measure (\<lambda>(_, i, _). unat CALY_VLAN_MAX_DEPTH - i)") auto

declare tce_vlan_loop.simps [simp del]

definition tce_l2 :: "bytes \<Rightarrow> u16 \<Rightarrow> (u32 \<times> u32) option option" where
  "tce_l2 d h_proto = do {
     r \<leftarrow> tce_vlan_loop d 0 h_proto 14;
     Some (case r of None \<Rightarrow> None
           | Some (h_proto, off) \<Rightarrow>
               if h_proto = ntohs CALY_ETH_P_IP then Some (off, CALY_AF_INET)
               else if h_proto = ntohs CALY_ETH_P_IPV6 then Some (off, CALY_AF_INET6)
               else None) }"

definition tce_bare_l3 :: "bytes \<Rightarrow> u16 \<Rightarrow> (u32 \<times> u32) option option" where
  "tce_bare_l3 d skb_proto =
     (if skb_proto = ntohs CALY_ETH_P_IP then Some (Some (0, CALY_AF_INET))
      else if skb_proto = ntohs CALY_ETH_P_IPV6 then Some (Some (0, CALY_AF_INET6))
      else if 1 \<le> length d then do {
        b \<leftarrow> ld8 d 0;
        let v = drop_bit 4 b;
        Some (if v = 4 then Some (0, CALY_AF_INET)
              else if v = 6 then Some (0, CALY_AF_INET6) else None) }
      else Some None)"

definition tce_l3_off :: "bytes \<Rightarrow> u16 \<Rightarrow> (u32 \<times> u32) option option" where
  "tce_l3_off d skb_proto =
     (if 14 \<le> length d then do {
        h_proto \<leftarrow> ld16 d 12;
        if h_proto = ntohs CALY_ETH_P_IP \<or> h_proto = ntohs CALY_ETH_P_IPV6 \<or> tce_is_vlan h_proto
          then tce_l2 d h_proto
        else tce_bare_l3 d skb_proto }
      else tce_bare_l3 d skb_proto)"

definition ld_quad :: "bytes \<Rightarrow> nat \<Rightarrow> quad option" where
  "ld_quad d i = do { a \<leftarrow> ld32 d i; b \<leftarrow> ld32 d (i + 4); c \<leftarrow> ld32 d (i + 8); e \<leftarrow> ld32 d (i + 12);
     Some (Quad a b c e) }"

text \<open>The IP header: the packet with its addresses and protocol, and the layer-4 offset.\<close>

definition tce_ip :: "bytes \<Rightarrow> u32 \<Rightarrow> tce_out \<Rightarrow> (tce_out \<times> u32) option option" where
  "tce_ip d l3_off out =
     (let ofs = unat l3_off in
      if to_family out = CALY_AF_INET then
        (if ofs + 20 > length d then Some None
         else do {
           b0 \<leftarrow> ld8 d ofs; frag_off \<leftarrow> ld16 d (ofs + 6); protocol \<leftarrow> ld8 d (ofs + 9);
           saddr \<leftarrow> ld32 d (ofs + 12); daddr \<leftarrow> ld32 d (ofs + 16);
           let ihl = b0 AND 0x0F;
           Some (if ihl < 5 then None
                 else if has_flag frag_off (ntohs 0x3FFF) then None
                 else Some (out\<lparr>to_proto := ucast protocol,
                                to_src := (case to_src out of Quad _ b c e \<Rightarrow> Quad saddr b c e),
                                to_dst := (case to_dst out of Quad _ b c e \<Rightarrow> Quad daddr b c e)\<rparr>,
                            l3_off + ucast ihl * 4)) })
      else
        (if ofs + 40 > length d then Some None
         else do {
           nexthdr \<leftarrow> ld8 d (ofs + 6); saddr \<leftarrow> ld_quad d (ofs + 8); daddr \<leftarrow> ld_quad d (ofs + 24);
           Some (Some (out\<lparr>to_proto := ucast nexthdr, to_src := saddr, to_dst := daddr\<rparr>,
                       l3_off + 40)) }))"

definition tce_l4 :: "bytes \<Rightarrow> u32 \<Rightarrow> tce_out \<Rightarrow> tce_out option option" where
  "tce_l4 d l4_off out =
     (let ofs = unat l4_off in
      if to_proto out = CALY_IPPROTO_TCP then
        (if ofs + 20 > length d then Some None
         else do {
           source \<leftarrow> ld16 d ofs; dest \<leftarrow> ld16 d (ofs + 2); fl \<leftarrow> ld8 d (ofs + 13);
           Some (Some (out\<lparr>to_sport := source, to_dport := dest, to_tcp_flags := ucast fl\<rparr>)) })
      else if to_proto out = CALY_IPPROTO_UDP then
        (if ofs + 8 > length d then Some None
         else do {
           source \<leftarrow> ld16 d ofs; dest \<leftarrow> ld16 d (ofs + 2);
           Some (Some (out\<lparr>to_sport := source, to_dport := dest, to_tcp_flags := 0\<rparr>)) })
      else Some None)"

definition tce_parse :: "bytes \<Rightarrow> u16 \<Rightarrow> tce_out \<Rightarrow> tce_out option option" where
  "tce_parse d skb_proto out = do {
     r \<leftarrow> tce_l3_off d skb_proto;
     case r of None \<Rightarrow> Some None
     | Some (l3_off, family) \<Rightarrow> do {
         r \<leftarrow> tce_ip d l3_off (out\<lparr>to_family := family\<rparr>);
         case r of None \<Rightarrow> Some None
         | Some (out, l4_off) \<Rightarrow> do {
             r \<leftarrow> tce_l4 d l4_off out;
             Some (case r of None \<Rightarrow> None
                   | Some out \<Rightarrow> if to_sport out = 0 \<or> to_dport out = 0 then None else Some out) } } }"

definition tce_conn_key :: "tce_out \<Rightarrow> conn_key" where
  "tce_conn_key out = \<lparr>ck_saddr = to_dst out, ck_daddr = to_src out, ck_sport = to_dport out,
     ck_dport = to_sport out, ck_proto = ucast (to_proto out), ck_family = ucast (to_family out),
     ck_pad = (0, 0)\<rparr>"

text \<open>An outbound packet of a known flow.\<close>

definition tce_touch :: "u64 \<Rightarrow> u32 \<Rightarrow> bool \<Rightarrow> bool \<Rightarrow> conn_state \<Rightarrow> conn_state" where
  "tce_touch now pkt_len is_rst is_fin cs =
     (let cs = cs\<lparr>cs_last_seen_ns := now, cs_pkts_out := cs_pkts_out cs + 1,
                  cs_bytes_out := cs_bytes_out cs + ucast pkt_len,
                  cs_flags := cs_flags cs OR CALY_CT_F_OUTBOUND\<rparr>;
          cs = (if cs_state cs = CALY_CT_SYN_RECV \<or> cs_state cs = CALY_CT_SYN_SENT
                then cs\<lparr>cs_state := CALY_CT_ESTABLISHED\<rparr> else cs);
          cs = (if cs_state cs = CALY_CT_ESTABLISHED
                then cs\<lparr>cs_flags := cs_flags cs OR CALY_CT_F_SEEN_REPLY\<rparr> else cs)
      in if is_rst then cs\<lparr>cs_state := CALY_CT_CLOSED\<rparr>
         else if is_fin then cs\<lparr>cs_state := CALY_CT_FIN_WAIT\<rparr>
         else cs)"

text \<open>The entry of a new outbound flow.\<close>

definition tce_new :: "fw_config \<Rightarrow> u64 \<Rightarrow> u32 \<Rightarrow> tce_out \<Rightarrow> conn_state" where
  "tce_new cfg now ifindex out =
     (let tcp = (to_proto out = CALY_IPPROTO_TCP);
          is_mgmt = (if tcp then caly_is_mgmt_tcp cfg (ntohs (to_sport out)) \<or> caly_is_mgmt_tcp cfg (ntohs (to_dport out))
                     else caly_is_mgmt_udp cfg (ntohs (to_sport out)) \<or> caly_is_mgmt_udp cfg (ntohs (to_dport out)))
      in \<lparr>cs_created_ns = now, cs_last_seen_ns = now, cs_pkts_in = 0, cs_bytes_in = 0, cs_pkts_out = 1,
          cs_bytes_out = ucast (to_pkt_len out),
          cs_state = (if tcp then CALY_CT_SYN_SENT else CALY_CT_ESTABLISHED),
          cs_flags = CALY_CT_F_OUTBOUND OR (if is_mgmt then CALY_CT_F_MGMT else 0),
          cs_ifindex = ifindex, cs_mark = 0\<rparr>)"

definition tce_learn :: "kern \<Rightarrow> fw_config \<Rightarrow> u32 \<Rightarrow> tce_out \<Rightarrow> dp_state \<Rightarrow> dp_state" where
  "tce_learn k cfg ifindex out s =
     (let now = k_now k; tcp = (to_proto out = CALY_IPPROTO_TCP); fl = to_tcp_flags out;
          is_syn = (tcp \<and> has_flag fl CALY_TCP_SYN \<and> \<not> has_flag fl CALY_TCP_ACK);
          is_rst = (tcp \<and> has_flag fl CALY_TCP_RST);
          is_fin = (tcp \<and> has_flag fl CALY_TCP_FIN);
          ck = tce_conn_key out
      in case dp_conn s ck of
           Some cs \<Rightarrow>
             let s = s\<lparr>dp_conn := (dp_conn s)(ck \<mapsto> tce_touch now (to_pkt_len out) is_rst is_fin cs)\<rparr>;
                 s = (if is_rst then tce_stat STAT_CT_CLOSED s else s)
             in tce_stat STAT_CT_UPDATED s
         | None \<Rightarrow>
             if tcp \<and> \<not> is_syn then s
             else if is_rst then s
             else (case k_upd_conn k (dp_conn s) ck (tce_new cfg now ifindex out) of
                     Some m \<Rightarrow> tce_stat STAT_CT_CREATED (s\<lparr>dp_conn := m\<rparr>)
                   | None \<Rightarrow> tce_stat STAT_CT_FULL s))"

definition tce_out0 :: "u32 \<Rightarrow> tce_out" where
  "tce_out0 len = \<lparr>to_src = Quad 0 0 0 0, to_dst = Quad 0 0 0 0, to_family = 0, to_proto = 0,
     to_sport = 0, to_dport = 0, to_tcp_flags = 0, to_pkt_len = len\<rparr>"

text \<open>The bytes the hook can read after asking for its first 80.\<close>

definition tce_data :: "(nat \<Rightarrow> nat \<Rightarrow> nat) \<Rightarrow> sk_buff \<Rightarrow> bytes" where
  "tce_data pull skb =
     (let n = (if skb_len skb > TCE_PULL_LEN then TCE_PULL_LEN else skb_len skb)
      in take (pull (skb_linear skb) (unat n)) (skb_bytes skb))"

definition caly_tc_egress ::
  "kern \<Rightarrow> (nat \<Rightarrow> nat \<Rightarrow> nat) \<Rightarrow> sk_buff \<Rightarrow> dp_state \<Rightarrow> (tc_action \<times> dp_state) option" where
  "caly_tc_egress k pull skb s =
     (case dp_config s of
        None \<Rightarrow> Some (TC_ACT_OK, s)
      | Some cfg \<Rightarrow>
          if \<not> has_flag (cfg_flags cfg) CALY_F_ENABLED then Some (TC_ACT_OK, s)
          else if \<not> has_flag (cfg_flags cfg) CALY_F_CONNTRACK then Some (TC_ACT_OK, s)
          else do {
            r \<leftarrow> tce_parse (tce_data pull skb) (ucast (skb_protocol skb)) (tce_out0 (skb_len skb));
            case r of None \<Rightarrow> Some (TC_ACT_OK, s)
            | Some out \<Rightarrow> Some (TC_ACT_OK, tce_learn k cfg (skb_ifindex skb) out s) })"

section \<open>Every load is inside the buffer\<close>

lemma tce_vlan_loop_defined: "\<exists>r. tce_vlan_loop d i p off = Some r"
proof (induction d i p off rule: tce_vlan_loop.induct)
  case (1 d i p off)
  show ?case
  proof (cases "i < unat CALY_VLAN_MAX_DEPTH \<and> tce_is_vlan p \<and> \<not> unat off + 4 > length d")
    case True
    then have "ld16 d (unat off + 2) = Some (le16 (d ! (unat off + 2)) (d ! (unat off + 2 + 1)))"
      by (intro ld16_inside) simp
    with True "1" show ?thesis by (subst tce_vlan_loop.simps) auto
  next
    case False
    then show ?thesis by (subst tce_vlan_loop.simps) auto
  qed
qed

lemma tce_l3_off_defined: "\<exists>r. tce_l3_off d p = Some r"
proof -
  have "\<exists>r. tce_bare_l3 d p = Some r"
    by (simp add: tce_bare_l3_def load_simps Let_def ld8_def)
  moreover have "\<exists>r. tce_l2 d h = Some r" for h
    using tce_vlan_loop_defined [of d 0 h 14] by (auto simp: tce_l2_def)
  ultimately show ?thesis
    by (simp add: tce_l3_off_def load_simps)
qed

lemma tce_ip_defined: "\<exists>r. tce_ip d off out = Some r"
  by (simp add: tce_ip_def ld_quad_def Let_def load_simps)

lemma tce_l4_defined: "\<exists>r. tce_l4 d off out = Some r"
  by (simp add: tce_l4_def Let_def load_simps)

lemma tce_parse_defined: "\<exists>r. tce_parse d p out = Some r"
  unfolding tce_parse_def
  by (intro bind_defined tce_l3_off_defined)
    (auto split: option.split intro!: bind_defined tce_ip_defined tce_l4_defined)

text \<open>What the hook may change.\<close>

definition flow_only :: "dp_state \<Rightarrow> dp_state \<Rightarrow> bool" where
  "flow_only s s' \<longleftrightarrow> s'\<lparr>dp_conn := dp_conn s, dp_stats := dp_stats s\<rparr> = s"

lemma flow_only_refl: "flow_only s s"
  by (simp add: flow_only_def)

lemma flow_only_conn: "flow_only s s' \<Longrightarrow> flow_only s (s'\<lparr>dp_conn := c\<rparr>)"
  by (simp add: flow_only_def)

lemma flow_only_stat: "flow_only s s' \<Longrightarrow> flow_only s (tce_stat r s')"
  by (simp add: flow_only_def tce_stat_def split: option.split)

lemma tce_learn_flow_only: "flow_only s (tce_learn k cfg i out s)"
  by (auto simp: tce_learn_def Let_def split: option.split
      intro!: flow_only_stat flow_only_conn flow_only_refl)

section \<open>A segment of an outbound connection\<close>

lemma ip4_tcp_ethertype:
  "length macs = 12 \<Longrightarrow> ld16 (ip4_tcp_frame macs tos ident ttl csum s t sport dport seqack fl tail payload) 12 = Some 8"
  by (simp add: ip4_tcp_frame_def ld16_def ld8_def be16_def nth_append le16_def)

lemma tce_parse_tcp:
  assumes "length macs = 12" "length seqack = 8" "length tail = 6" "54 \<le> n" "sport \<noteq> 0" "dport \<noteq> 0"
    and "d = ip4_tcp_frame macs tos ident ttl csum (s0, s1, s2, s3) (t0, t1, t2, t3) sport dport seqack fl tail payload"
  shows "tce_parse (take n d) p (tce_out0 len) =
     Some (Some \<lparr>to_src = Quad (le32 s0 s1 s2 s3) 0 0 0, to_dst = Quad (le32 t0 t1 t2 t3) 0 0 0,
       to_family = CALY_AF_INET, to_proto = CALY_IPPROTO_TCP, to_sport = ntohs sport, to_dport = ntohs dport,
       to_tcp_flags = ucast fl, to_pkt_len = len\<rparr>)"
proof -
  note ld = ip4_tcp_frame_loads [OF assms(1-3,7)]
  have eth: "ld16 d 12 = Some 8" using ip4_tcp_ethertype [OF assms(1)] assms(7) by simp
  have len: "54 \<le> length (take n d)" using assms(4) ld(1) by simp
  have c: "ntohs 2048 = 8" "ntohs 0x3FFF = 0xFF3F" "ntohs 34525 = 0xDD86" "ntohs 33024 = 0x81" "ntohs 34984 = 0xA888"
    "ntohs 37120 = 0x91"
    by (simp_all add: ntohs_def)
  have off: "tce_l3_off (take n d) p = Some (Some (14, CALY_AF_INET))"
    using len assms(4)
    by (simp add: tce_l3_off_def ld_take eth c tce_l2_def) (subst tce_vlan_loop.simps, simp add: tce_is_vlan_def c)
  have nz: "ntohs sport \<noteq> 0" "ntohs dport \<noteq> 0"
    using assms(5,6) by simp_all
  have fr: "le16 0x40 0 = 0x40" by (simp add: le16_def)
  show ?thesis
    using len assms(4) nz
    by (simp add: tce_parse_def off tce_ip_def tce_l4_def ld_take ld le16_be16 tce_out0_def Let_def c fr)
qed

lemma egress_accepts: "\<exists>s'. caly_tc_egress k pull skb s = Some (TC_ACT_OK, s') \<and> flow_only s s'"
proof -
  obtain r where "tce_parse (tce_data pull skb) (ucast (skb_protocol skb)) (tce_out0 (skb_len skb)) = Some r"
    using tce_parse_defined by blast
  then show ?thesis
    using tce_learn_flow_only flow_only_refl
    by (cases r) (simp_all add: caly_tc_egress_def split: option.split)
qed

section \<open>Properties\<close>

text \<open>The egress hook never stops our own traffic: for every buffer, kernel and table contents
  it reads only inside the accessible bytes, accepts the packet, and changes nothing but the
  connection table and the counters.\<close>

theorem egress_never_drops:
  "\<exists>s'. caly_tc_egress k pull skb s = Some (TC_ACT_OK, s') \<and>
        s'\<lparr>dp_conn := dp_conn s, dp_stats := dp_stats s\<rparr> = s"
  using egress_accepts by (simp add: flow_only_def)

end
