(* ===== verification/Caly_Flow.thy ===== *)
theory Caly_Flow
  imports Caly_Egress
begin

text \<open>
  Flows across the two hooks: the egress hook learns a connection, the ingress chain recognises its
  packets.  The table of flows is shared; its entries obey an invariant in every reachable state.
\<close>

text \<open>The flag byte of a TCP header, widened.\<close>

lemma tcp_flag_up:
  "has_flag (ucast (x :: u8) :: u16) CALY_TCP_FIN \<longleftrightarrow> has_flag x CALY_TCP_FIN"
  "has_flag (ucast (x :: u8) :: u16) CALY_TCP_SYN \<longleftrightarrow> has_flag x CALY_TCP_SYN"
  "has_flag (ucast (x :: u8) :: u16) CALY_TCP_RST \<longleftrightarrow> has_flag x CALY_TCP_RST"
  "has_flag (ucast (x :: u8) :: u16) CALY_TCP_ACK \<longleftrightarrow> has_flag x CALY_TCP_ACK"
  "has_flag (ucast (x :: u8) :: u32) CALY_TCP_FIN \<longleftrightarrow> has_flag x CALY_TCP_FIN"
  "has_flag (ucast (x :: u8) :: u32) CALY_TCP_SYN \<longleftrightarrow> has_flag x CALY_TCP_SYN"
  "has_flag (ucast (x :: u8) :: u32) CALY_TCP_RST \<longleftrightarrow> has_flag x CALY_TCP_RST"
  "has_flag (ucast (x :: u8) :: u32) CALY_TCP_ACK \<longleftrightarrow> has_flag x CALY_TCP_ACK"
  using has_flag_up [of x 1, where ?'b = 16] has_flag_up [of x 2, where ?'b = 16]
   has_flag_up [of x 4, where ?'b = 16] has_flag_up [of x 16, where ?'b = 16]
   has_flag_up [of x 1, where ?'b = 32] has_flag_up [of x 2, where ?'b = 32]
   has_flag_up [of x 4, where ?'b = 32] has_flag_up [of x 16, where ?'b = 32] by simp_all

section \<open>A TCP segment on its way to the policy program\<close>

definition iface_on :: "dp_state \<Rightarrow> u32 \<Rightarrow> bool" where
  "iface_on s i \<longleftrightarrow> (case dp_iface s i of None \<Rightarrow> True | Some c \<Rightarrow> \<not> has_flag (if_flags c) CALY_IF_F_DISABLED)"

lemma tcp_reaches_policy:
  assumes "dp_config s = Some cfg" "dp_scratch s = Some sca"
    and "has_flag (cfg_flags cfg) CALY_F_ENABLED" "has_flag (cfg_flags cfg) CALY_F_IPV4"
    and "\<not> has_flag (cfg_flags cfg) CALY_F_TTL_CHECK" "cfg_tcp_min_doff cfg \<le> 5"
    and "iface_on s ifindex" "k_tail k CALY_PROG_IDX_PARSE" "k_tail k CALY_PROG_IDX_POLICY"
    and "length macs = 12" "length seqack = 8" "length tail = 6" "length payload \<le> 65481" "ttl \<noteq> 0"
    and "d = ip4_tcp_frame macs tos ident ttl csum (s0, s1, s2, s3) (t0, t1, t2, t3) sport dport seqack fl tail payload"
  shows "\<exists>sc. caly_xdp_main k sp ifindex d s = Some (caly_xdp_policy k sp d (s\<lparr>dp_scratch := Some sc\<rparr>)) \<and>
     pk_family (sc_pkt sc) = CALY_AF_INET \<and> pk_proto (sc_pkt sc) = CALY_IPPROTO_TCP \<and>
     pk_saddr (sc_pkt sc) = Quad (le32 s0 s1 s2 s3) 0 0 0 \<and> pk_daddr (sc_pkt sc) = Quad (le32 t0 t1 t2 t3) 0 0 0 \<and>
     pk_sport (sc_pkt sc) = ntohs sport \<and> pk_dport (sc_pkt sc) = ntohs dport \<and>
     pk_tcp_flags (sc_pkt sc) = ucast fl \<and> pk_ts_ns (sc_pkt sc) = k_now k \<and>
     \<not> has_flag (pk_flags (sc_pkt sc)) (CALY_PKT_F_L4_TRUNC OR CALY_PKT_F_MGMT OR CALY_PKT_F_ALLOWLIST)"
proof -
  let ?n = "length payload"
  note ld = ip4_tcp_frame_loads [OF assms(10-12,15)]
  have eth: "ld16 d 12 = Some 8" using ip4_tcp_ethertype [OF assms(10)] assms(15) by simp
  have flen: "frame_len d = of_nat (54 + ?n)"
  proof -
    have "unat (of_nat (54 + ?n) :: u32) = 54 + ?n"
      using assms(13) by (simp only: unsigned_of_nat) (simp add: take_bit_nat_eq_self_iff)
    then have "\<not> (of_nat (54 + ?n) :: u32) > 65535"
      using assms(13) by (simp only: word_less_nat_alt) simp
    then show ?thesis by (simp add: frame_len_def ld(1) Let_def)
  qed
  define e0 where "e0 = front_env cfg (sca\<lparr>sc_pkt := main_pkt (k_now k) (frame_len d) ifindex\<rparr>)"
  have "\<exists>e1. main_iface e0 s = Next e1 s \<and> e_cfg e1 = cfg \<and> pk_ts_ns (e_pkt e1) = k_now k \<and>
     pk_pkt_len (e_pkt e1) = frame_len d \<and> (pk_flags (e_pkt e1) = 0 \<or> pk_flags (e_pkt e1) = CALY_PKT_F_WAN)"
    using assms(3,7)
    by (cases "dp_iface s ifindex")
      (simp_all add: main_iface_def e0_def front_env_def main_pkt_def pkt0_def iface_on_def Let_def set_pkt_flag_def)
  then obtain e1 where e1: "main_iface e0 s = Next e1 s" "e_cfg e1 = cfg" "pk_ts_ns (e_pkt e1) = k_now k"
     "pk_pkt_len (e_pkt e1) = frame_len d" "pk_flags (e_pkt e1) = 0 \<or> pk_flags (e_pkt e1) = CALY_PKT_F_WAN"
    by blast
  define e2 where "e2 = main_carry (set_pkt ((e_pkt e1)\<lparr>pk_eth_proto := 2048\<rparr>) e1)"
  define e3 where "e3 = e2\<lparr>e_sc := e_sc e2\<lparr>sc_carry_l3_off := 14, sc_carry_l3_proto := 2048\<rparr>\<rparr>"
  have "ntohs 8 = 2048" by (simp add: ntohs_def)
  then have l2: "vlan_loop d m 0 (ucast (ntohs 8)) 14 p = Some (Inr (2048, 14, p))" for m p
    by (subst vlan_loop.simps) (simp add: is_vlan_proto_def)
  have "\<exists>e. main_l2 d e1 s = Some (Next e s) \<and> main_carry e = e3"
    using assms(4) e1(2) ld(1) eth l2
    by (simp add: main_l2_def main_proto_def is_vlan_proto_def e3_def e2_def main_carry_def Let_def)
  then have main: "caly_xdp_main k sp ifindex d s = caly_xdp_parse k sp d (s\<lparr>dp_scratch := Some (e_sc e3)\<rparr>)"
    using assms(1,2,8) e1(1) by (auto simp: caly_xdp_main_def e0_def Let_def)
  have p3: "pk_ts_ns (e_pkt e3) = k_now k" "pk_pkt_len (e_pkt e3) = of_nat (54 + ?n)"
    "pk_flags (e_pkt e3) = 0 \<or> pk_flags (e_pkt e3) = CALY_PKT_F_WAN"
    "sc_carry_l3_off (e_sc e3) = 14" "sc_carry_l3_proto (e_sc e3) = 2048"
    using e1(3-5) flen by (simp_all add: e3_def e2_def main_carry_def)
  obtain q where q: "tunnel_loop d cfg 0 14 CALY_ETH_P_IP (e_pkt e3) 0 = Some (CALY_PARSE_OK, q, 0)"
     "pk_family q = CALY_AF_INET" "pk_proto q = CALY_IPPROTO_TCP"
     "pk_saddr q = Quad (le32 s0 s1 s2 s3) 0 0 0" "pk_daddr q = Quad (le32 t0 t1 t2 t3) 0 0 0"
     "ntohs (pk_sport q) = sport" "ntohs (pk_dport q) = dport" "pk_tcp_flags q = ucast fl"
     "pk_flags q = pk_flags (e_pkt e3) AND NOT (CALY_PKT_F_FRAG OR CALY_PKT_F_FRAG_FIRST OR CALY_PKT_F_L4_TRUNC)"
     "pk_ts_ns q = pk_ts_ns (e_pkt e3)"
    using ip4_tcp_parses [OF assms(10-14,5,6) p3(2) assms(15)] by blast
  have "pk_sport q = ntohs sport" "pk_dport q = ntohs dport"
    using q(6,7) by auto
  moreover have "\<not> has_flag (pk_flags q) (CALY_PKT_F_L4_TRUNC OR CALY_PKT_F_MGMT OR CALY_PKT_F_ALLOWLIST)"
    using p3(3) by (auto simp: q(9))
  moreover have "\<exists>sc. caly_xdp_parse k sp d (s\<lparr>dp_scratch := Some (e_sc e3)\<rparr>) =
      Some (caly_xdp_policy k sp d (s\<lparr>dp_scratch := Some sc\<rparr>)) \<and> sc_pkt sc = q"
    using assms(1,9) q(1) p3(4,5)
    by (simp add: caly_xdp_parse_def parse_env_def front_env_def main_carry_def Let_def)
      (rule exI, rule conjI, rule refl, simp)
  then obtain sc where "caly_xdp_parse k sp d (s\<lparr>dp_scratch := Some (e_sc e3)\<rparr>) =
      Some (caly_xdp_policy k sp d (s\<lparr>dp_scratch := Some sc\<rparr>))" "sc_pkt sc = q"
    by blast
  ultimately show ?thesis
    using q(2-5,8,10) p3(1) unfolding main by (intro exI [of _ sc]) simp
qed

section \<open>The reply to an outbound connection\<close>

definition tcp4_key :: "u32 \<Rightarrow> u32 \<Rightarrow> u16 \<Rightarrow> u16 \<Rightarrow> conn_key" where
  "tcp4_key peer us pport uport = \<lparr>ck_saddr = Quad peer 0 0 0, ck_daddr = Quad us 0 0 0, ck_sport = ntohs pport,
     ck_dport = ntohs uport, ck_proto = CALY_IPPROTO_TCP, ck_family = 4, ck_pad = (0, 0)\<rparr>"

lemma tce_stat_simps [simp]:
  "dp_conn (tce_stat r s) = dp_conn s" "dp_config (tce_stat r s) = dp_config s"
  "dp_scratch (tce_stat r s) = dp_scratch s" "dp_iface (tce_stat r s) = dp_iface s"
  "dp_ban (tce_stat r s) = dp_ban s" "dp_block (tce_stat r s) = dp_block s"
  "dp_allow (tce_stat r s) = dp_allow s" "dp_local (tce_stat r s) = dp_local s"
  by (simp_all add: tce_stat_def split: option.split)

text \<open>The egress hook on the first segment of a connection.\<close>

lemma egress_syn:
  assumes "dp_config s = Some cfg" "has_flag (cfg_flags cfg) CALY_F_ENABLED"
    and "has_flag (cfg_flags cfg) CALY_F_CONNTRACK"
    and "length macs = 12" "length seqack = 8" "length tail = 6" "sport \<noteq> 0" "dport \<noteq> 0"
    and "skb_bytes skb = ip4_tcp_frame macs tos ident ttl csum (s0, s1, s2, s3) (t0, t1, t2, t3) sport dport seqack fl tail payload"
    and "54 \<le> skb_len skb" "\<And>l n. n \<le> pull l n"
    and "has_flag fl CALY_TCP_SYN" "\<not> has_flag fl CALY_TCP_ACK" "\<not> has_flag fl CALY_TCP_RST"
    and "dp_conn s (tcp4_key (le32 t0 t1 t2 t3) (le32 s0 s1 s2 s3) dport sport) = None"
    and "upd_law (k_upd_conn k)" "\<And>m c v. k_upd_conn k m c v \<noteq> None"
    and "caly_tc_egress k pull skb s = Some (a, s')"
  shows "\<exists>cs m. s' = tce_stat STAT_CT_CREATED (s\<lparr>dp_conn := m\<rparr>) \<and>
           m (tcp4_key (le32 t0 t1 t2 t3) (le32 s0 s1 s2 s3) dport sport) = Some cs \<and>
           cs_state cs = CALY_CT_SYN_SENT \<and> cs_last_seen_ns cs = k_now k \<and>
           has_flag (cs_flags cs) CALY_CT_F_OUTBOUND"
proof -
  let ?ck = "tcp4_key (le32 t0 t1 t2 t3) (le32 s0 s1 s2 s3) dport sport"
  define out where "out = \<lparr>to_src = Quad (le32 s0 s1 s2 s3) 0 0 0, to_dst = Quad (le32 t0 t1 t2 t3) 0 0 0,
       to_family = CALY_AF_INET, to_proto = CALY_IPPROTO_TCP, to_sport = ntohs sport, to_dport = ntohs dport,
       to_tcp_flags = ucast fl, to_pkt_len = skb_len skb\<rparr>"
  define n where "n = (if skb_len skb > TCE_PULL_LEN then TCE_PULL_LEN else skb_len skb)"
  have "54 \<le> unat n" using assms(10) by (simp add: n_def word_le_nat_alt)
  then have "54 \<le> pull (skb_linear skb) (unat n)" using assms(11) by (rule order.trans)
  then have parse: "tce_parse (tce_data pull skb) p (tce_out0 (skb_len skb)) = Some (Some out)" for p
    using tce_parse_tcp [OF assms(4-6) _ assms(7,8) assms(9)]
    by (simp add: tce_data_def n_def [symmetric] out_def)
  have ck: "tce_conn_key out = ?ck"
    by (simp add: tce_conn_key_def tcp4_key_def out_def)
  have fl: "has_flag (to_tcp_flags out) CALY_TCP_SYN" "\<not> has_flag (to_tcp_flags out) CALY_TCP_ACK"
    "\<not> has_flag (to_tcp_flags out) CALY_TCP_RST"
    using assms(12-14) by (simp_all add: out_def tcp_flag_up)
  obtain m where m: "k_upd_conn k (dp_conn s) ?ck (tce_new cfg (k_now k) (skb_ifindex skb) out) = Some m"
    using assms(17) by fastforce
  have "m ?ck = Some (tce_new cfg (k_now k) (skb_ifindex skb) out)"
    using upd_lawD [OF assms(16) m] by simp
  moreover have "s' = tce_stat STAT_CT_CREATED (s\<lparr>dp_conn := m\<rparr>)"
    using assms(1-3,15,18) parse fl m
    by (simp add: caly_tc_egress_def tce_learn_def ck Let_def)
  ultimately show ?thesis
    by (intro exI [of _ "tce_new cfg (k_now k) (skb_ifindex skb) out"] exI [of _ m])
      (simp add: tce_new_def out_def Let_def)
qed

text \<open>The ingress chain on a segment of a flow that the egress hook has learnt.\<close>

lemma word_bytes_le32: "word_bytes (le32 a b c d) = [a, b, c, d]"
proof -
  have z: "\<not> bit w (n + 8)" "\<not> bit w (n + 16)" "\<not> bit w (n + 24)" for w :: u8 and n
    by (auto dest: bit_imp_le_length)
  show ?thesis
    by (simp add: word_bytes_def le32_def)
      (auto intro!: bit_word_eqI simp: bit_simps z add.commute dest: bit_imp_le_length)
qed


text \<open>A flow that is tracked but not open is a miss.\<close>

lemma conntrack_missed:
  assumes "\<not> open_flow cfg sc s" "ctx_of e = ctx_of (policy_env cfg sc)" "e_sc e = sc"
    and "has_flag (cfg_flags cfg) CALY_F_CONNTRACK" "\<not> has_flag (pk_flags (sc_pkt sc)) CALY_PKT_F_L4_TRUNC"
    and "policy_conntrack e s = Next e1 s1"
  shows "e_ct_missed e1"
proof -
  have cfg: "e_cfg e = cfg" using assms(2) by (simp add: ctx_of_def)
  show ?thesis
    using assms(3-6) cfg by (auto simp: policy_conntrack_def Let_def pass_with_def split: option.splits if_splits)
qed

lemma unsolicited_synack_drops:
  assumes "dp_config s = Some cfg" "dp_scratch s = Some sc" "checks_pass k (policy_env cfg sc) s" "fresh_pkt sc"
    and "\<not> allowlisted k cfg sc s" "\<not> to_mgmt_port cfg sc" "\<not> blocklisted k cfg sc s" "\<not> monitored cfg sc"
    and "dp_ban s (src_of sc) = None" "\<not> open_flow cfg sc s"
    and "has_flag (cfg_flags cfg) CALY_F_CONNTRACK" "has_flag (cfg_flags cfg) CALY_F_CAP_TC_EGRESS"
    and "\<not> has_flag (pk_flags (sc_pkt sc)) CALY_PKT_F_L4_TRUNC" "pk_proto (sc_pkt sc) = CALY_IPPROTO_TCP"
    and "pk_tcp_flags (sc_pkt sc) AND (CALY_TCP_SYN OR CALY_TCP_ACK) = CALY_TCP_SYN OR CALY_TCP_ACK"
  shows "fst (caly_xdp_policy k sp d s) = XDP_DROP"
proof -
  obtain p where p: "run_stages (policy_stages k) (policy_env cfg sc) s =
      run_stages (late_stages k) ((policy_env cfg sc)\<lparr>e_icmp_policy := p\<rparr>) s"
    using late_policy [OF assms(3)] by blast
  let ?e = "(policy_env cfg sc)\<lparr>e_icmp_policy := p\<rparr>"
  obtain e1 s1 where c: "policy_conntrack ?e s = Next e1 s1" "\<not> e_ban_deferred e1" "ctx_of e1 = ctx_of ?e"
    "sc_pkt (e_sc e1) = sc_pkt sc"
    using conntrack_not_open [OF assms(10), of ?e] by auto
  have "e_ct_missed e1" using conntrack_missed [OF assms(10) _ _ assms(11,13) c(1)] by simp
  moreover have "e_cfg e1 = cfg" using c(3) by (simp add: ctx_of_def)
  ultimately have "policy_synack e1 s1 = drop_with STAT_DROP_TCP_SYNACK_UNSOL e1 s1"
    using c(4) assms(4,12,14,15) by (simp add: policy_synack_def fresh_pkt_def Let_def)
  moreover have "policy_ban ?e s = Next ?e s" "policy_deferred_ban e1 s1 = Next e1 s1"
    using assms(9) c(2) by (simp_all add: policy_ban_def policy_deferred_ban_def)
  ultimately have "\<exists>e' s'. run_stages (policy_stages k) (policy_env cfg sc) s = Verdict e' s' \<and>
      e_act e' = ACT_DROP \<and> ctx_of e' = ctx_of ?e"
    using assms(5-7) c(1,3)
    by (simp add: p late_stages_def allow_skipped mgmt_skipped block_skipped drop_with_def)
  moreover have "\<not> monitoring e" if "ctx_of e = ctx_of ?e" for e
    using that assms(8) by (auto simp: monitoring_def monitored_def monitor_cfg_def ctx_of_def)
  ultimately show ?thesis
    using policy_verdict_fst [OF assms(1,2)] by (auto simp: final_drop)
qed

lemma tce_touch_closed:
  "cs_state cs = CALY_CT_CLOSED \<Longrightarrow> cs_state (tce_touch now len r False cs) = CALY_CT_CLOSED \<and>
     cs_last_seen_ns (tce_touch now len r False cs) = now"
  by (simp add: tce_touch_def Let_def)

text \<open>C38. A reset tuple stays dead for us: once an entry is closed, an outbound SYN of the same tuple
  does not reopen it, so the peer's SYN-ACK misses connection tracking and is dropped as
  unsolicited; the entry is refreshed by every attempt.\<close>

theorem reconnect_after_reset_dropped:
  assumes "dp_config s = Some cfg" "has_flag (cfg_flags cfg) CALY_F_ENABLED"
    and "has_flag (cfg_flags cfg) CALY_F_CONNTRACK" "has_flag (cfg_flags cfg) CALY_F_CAP_TC_EGRESS"
    \<comment> \<open>an outbound segment without FIN of a closed flow\<close>
    and "tce_parse (tce_data pull skb) (ucast (skb_protocol skb)) (tce_out0 (skb_len skb)) = Some (Some out)"
    and "to_proto out = CALY_IPPROTO_TCP" "\<not> has_flag (to_tcp_flags out) CALY_TCP_FIN"
    and "dp_conn s (tce_conn_key out) = Some cs" "cs_state cs = CALY_CT_CLOSED"
    and "caly_tc_egress k pull skb s = Some (a, s')"
    \<comment> \<open>the SYN-ACK of the peer\<close>
    and "ct_key_of (sc_pkt sc) = tce_conn_key out" "pk_proto (sc_pkt sc) = CALY_IPPROTO_TCP"
    and "pk_tcp_flags (sc_pkt sc) = CALY_TCP_SYN OR CALY_TCP_ACK"
    and "\<not> has_flag (pk_flags (sc_pkt sc)) CALY_PKT_F_L4_TRUNC" "fresh_pkt sc" "\<not> monitored cfg sc"
    and "checks_pass k' (policy_env cfg sc) (s'\<lparr>dp_scratch := Some sc\<rparr>)"
    and "\<not> allowlisted k' cfg sc s'" "\<not> blocklisted k' cfg sc s'" "\<not> to_mgmt_port cfg sc"
    and "dp_ban s (src_of sc) = None"
  shows "fst (caly_xdp_policy k' sp d (s'\<lparr>dp_scratch := Some sc\<rparr>)) = XDP_DROP \<and>
         (\<exists>cs'. dp_conn s' (tce_conn_key out) = Some cs' \<and> cs_state cs' = CALY_CT_CLOSED \<and>
                cs_last_seen_ns cs' = k_now k)"
proof -
  let ?s = "s'\<lparr>dp_scratch := Some sc\<rparr>"
  have s': "s' = tce_learn k cfg (skb_ifindex skb) out s"
    using assms(1-3,5,10) by (simp add: caly_tc_egress_def)
  then obtain cs' where cs': "dp_conn s' (tce_conn_key out) = Some cs'" "cs_state cs' = CALY_CT_CLOSED"
    "cs_last_seen_ns cs' = k_now k"
    using assms(6-8) tce_touch_closed [OF assms(9)] by (cases "has_flag (to_tcp_flags out) CALY_TCP_RST") (auto simp: tce_learn_def Let_def)
  have "s'\<lparr>dp_conn := dp_conn s, dp_stats := dp_stats s\<rparr> = s"
    using tce_learn_flow_only [of s k cfg "skb_ifindex skb" out] by (simp add: s' flow_only_def)
  from arg_cong [OF this, of dp_config] arg_cong [OF this, of dp_ban]
  have fr: "dp_config s' = Some cfg" "dp_ban s' = dp_ban s" using assms(1) by simp_all
  have "\<not> open_flow cfg sc ?s"
    using cs' assms(12,13) by (simp add: open_flow_def assms(11) ct_advance_def)
  then have "fst (caly_xdp_policy k' sp d ?s) = XDP_DROP"
    using assms fr by (intro unsolicited_synack_drops [of _ cfg sc k' sp d]) (simp_all add: allowlisted_def blocklisted_def)
  with cs' show ?thesis by blast
qed

section \<open>Witnesses\<close>

abbreviation "wit_skb \<equiv> \<lparr>skb_bytes = ip4_tcp_frame (replicate 12 7) 0 1 64 0 (9, 9, 9, 9) (8, 8, 8, 8) 40000 443
     (replicate 8 0) CALY_TCP_SYN (replicate 6 0) [], skb_linear = 54, skb_len = 54, skb_protocol = 8, skb_ifindex = 2\<rparr>"
abbreviation "wit_reply \<equiv> ip4_tcp_frame (replicate 12 7) 0 1 64 0 (8, 8, 8, 8) (9, 9, 9, 9) 443 40000
     (replicate 8 0) (CALY_TCP_SYN OR CALY_TCP_ACK) (replicate 6 0) []"

lemma wit_skb_bytes: "skb_bytes wit_skb = ip4_tcp_frame (replicate 12 7) 0 1 64 0 (9, 9, 9, 9) (8, 8, 8, 8) 40000 443
     (replicate 8 0) CALY_TCP_SYN (replicate 6 0) []"
  by simp

lemma wit_not_mgmt: "\<not> caly_is_mgmt_tcp caly_conf_set_defaults 40000"
  using mgmt_loop_take [of "cfg_mgmt_tcp_ports caly_conf_set_defaults" 1 40000]
  by (simp add: caly_is_mgmt_tcp_def)

lemma kern0_sel: "k_now (kern0 t) = t" "k_upd_conn (kern0 t) = (\<lambda>m c v. Some (m(c \<mapsto> v)))" "k_tail (kern0 t) i"
  by (simp_all add: kern0_def)

lemma kern0_lpm: "lpm_find (kern0 t) Map.empty a = None"
  by (simp add: kern0_def lpm_find_def Let_def)


text \<open>The same tuple with a closed entry, and the SYN-ACK of its peer.\<close>

definition wit_cfg :: fw_config where
  "wit_cfg = caly_conf_set_defaults\<lparr>cfg_flags := cfg_flags caly_conf_set_defaults OR CALY_F_CAP_TC_EGRESS\<rparr>"

definition wit_closed :: conn_state where
  "wit_closed = \<lparr>cs_created_ns = 0, cs_last_seen_ns = 0, cs_pkts_in = 1, cs_bytes_in = 60, cs_pkts_out = 1,
     cs_bytes_out = 60, cs_state = CALY_CT_CLOSED, cs_flags = 0, cs_ifindex = 2, cs_mark = 0\<rparr>"

definition wit_synack :: caly_scratch where
  "wit_synack = sc0 (syn_pkt\<lparr>pk_saddr := Quad (le32 8 8 8 8) 0 0 0, pk_daddr := Quad (le32 9 9 9 9) 0 0 0,
     pk_sport := ntohs 443, pk_dport := ntohs 40000, pk_tcp_flags := CALY_TCP_SYN OR CALY_TCP_ACK\<rparr>)"

abbreviation "wit_key \<equiv> tcp4_key (le32 8 8 8 8) (le32 9 9 9 9) 443 40000"
abbreviation "wit_dp \<equiv> (dp0 wit_cfg syn_sc)\<lparr>dp_conn := [wit_key \<mapsto> wit_closed]\<rparr>"
abbreviation "wit_out \<equiv> \<lparr>to_src = Quad (le32 9 9 9 9) 0 0 0, to_dst = Quad (le32 8 8 8 8) 0 0 0,
       to_family = CALY_AF_INET, to_proto = CALY_IPPROTO_TCP, to_sport = ntohs 40000, to_dport = ntohs 443,
       to_tcp_flags = ucast (CALY_TCP_SYN :: u8), to_pkt_len = 54\<rparr>"

lemma wit_parse: "tce_parse (tce_data (\<lambda>l n. n) wit_skb) p (tce_out0 54) = Some (Some wit_out)"
  using tce_parse_tcp [OF _ _ _ _ _ _ refl, of "replicate 12 7" "replicate 8 0" "replicate 6 0" 54 40000 443]
  by (simp add: tce_data_def)

theorem reconnect_after_reset_dropped_witness:
  "\<exists>a s'. caly_tc_egress (kern0 1000) (\<lambda>l n. n) wit_skb wit_dp = Some (a, s') \<and>
     fst (caly_xdp_policy (kern0 2000) (\<lambda>d s. (XDP_PASS, s)) [] (s'\<lparr>dp_scratch := Some wit_synack\<rparr>)) = XDP_DROP"
proof -
  obtain a s' where e: "caly_tc_egress (kern0 1000) (\<lambda>l n. n) wit_skb wit_dp = Some (a, s')" "flow_only wit_dp s'"
    using egress_accepts [of "kern0 1000" "\<lambda>l n. n" wit_skb wit_dp] by blast
  then have fr: "s'\<lparr>dp_conn := dp_conn wit_dp, dp_stats := dp_stats wit_dp\<rparr> = wit_dp" by (simp add: flow_only_def)
  have maps: "dp_allow s' = Map.empty" "dp_block s' = Map.empty" "dp_local s' = Map.empty" "dp_ban wit_dp = Map.empty"
    using arg_cong [OF fr, of dp_allow] arg_cong [OF fr, of dp_block] arg_cong [OF fr, of dp_local]
    by (simp_all add: dp0_def)
  have checks: "checks_pass (kern0 2000) (policy_env wit_cfg wit_synack) (s'\<lparr>dp_scratch := Some wit_synack\<rparr>)"
    by (simp add: checks_pass_def policy_land_def policy_tcp_def policy_udp_def policy_icmp_def policy_bogon_def
        Let_def policy_env_def wit_cfg_def wit_synack_def word_bytes_le32 lpm_src_def maps kern0_lpm
        caly_tcp_flags_illegal_def caly_v4_src_bogon_def le32_def)
  have "fst (caly_xdp_policy (kern0 2000) (\<lambda>d s. (XDP_PASS, s)) [] (s'\<lparr>dp_scratch := Some wit_synack\<rparr>)) = XDP_DROP \<and>
     (\<exists>cs'. dp_conn s' (tce_conn_key wit_out) = Some cs' \<and> cs_state cs' = CALY_CT_CLOSED \<and>
                cs_last_seen_ns cs' = k_now (kern0 1000))"
  proof (rule reconnect_after_reset_dropped [where cfg = wit_cfg and cs = wit_closed, OF _ _ _ _ _ _ _ _ _ e(1)])
    show "checks_pass (kern0 2000) (policy_env wit_cfg wit_synack) (s'\<lparr>dp_scratch := Some wit_synack\<rparr>)" by (rule checks)
    show "\<not> to_mgmt_port wit_cfg wit_synack"
      using wit_not_mgmt by (simp add: to_mgmt_port_def is_mgmt_def wit_synack_def wit_cfg_def caly_is_mgmt_tcp_def)
  qed (simp_all add: wit_parse tce_conn_key_def ct_key_of_def tcp4_key_def maps wit_cfg_def wit_closed_def allowlisted_def blocklisted_def listed_def
        kern0_lpm fresh_pkt_def monitored_def monitor_cfg_def wit_synack_def)
  with e(1) show ?thesis by blast
qed

end
