(* ===== verification/Caly_Checksum.thy ===== *)
theory Caly_Checksum
  imports Caly_Common
begin

text \<open>
  The Internet checksum of \<open>checksum.h\<close>: one's complement accumulation in 32 bits, folding, the
  incremental update of RFC 1624, and the bounded sum over packet bytes.  The reference is ordinary
  arithmetic: an accumulator stands for the natural number it was summed from, up to multiples of
  65535, and a set of words with its checksum is valid when the sum of all of them is a positive
  multiple of 65535 (all ones in one's complement).
\<close>

section \<open>Operations\<close>

definition caly_csum_add :: "u32 \<Rightarrow> u32 \<Rightarrow> u32" where
  "caly_csum_add csum addend = (let csum = csum + addend in csum + (if csum < addend then 1 else 0))"

definition caly_csum_sub :: "u32 \<Rightarrow> u32 \<Rightarrow> u32" where
  "caly_csum_sub csum addend = caly_csum_add csum (NOT addend)"

definition caly_csum_fold_partial :: "u32 \<Rightarrow> u16" where
  "caly_csum_fold_partial csum =
     (let csum = (csum AND 0xFFFF) + drop_bit 16 csum;
          csum = (csum AND 0xFFFF) + drop_bit 16 csum
      in ucast csum)"

definition caly_csum_fold :: "u32 \<Rightarrow> u16" where
  "caly_csum_fold csum =
     (let csum = (csum AND 0xFFFF) + drop_bit 16 csum;
          csum = (csum AND 0xFFFF) + drop_bit 16 csum
      in ucast (NOT csum))"

definition caly_csum_unfold :: "u16 \<Rightarrow> u32" where
  "caly_csum_unfold acc = ucast acc"

definition caly_csum_replace2 :: "u16 \<Rightarrow> u16 \<Rightarrow> u16 \<Rightarrow> u16" where
  "caly_csum_replace2 acc from to =
     (let tmp = caly_csum_sub (NOT (caly_csum_unfold acc) AND 0xFFFFFFFF) (ucast from)
      in caly_csum_fold (caly_csum_add tmp (ucast to)))"

definition caly_csum_replace4 :: "u16 \<Rightarrow> u32 \<Rightarrow> u32 \<Rightarrow> u16" where
  "caly_csum_replace4 acc from to =
     (let tmp = caly_csum_sub (NOT (caly_csum_unfold acc) AND 0xFFFFFFFF) from
      in caly_csum_fold (caly_csum_add tmp to))"

definition caly_csum_replace16 :: "u16 \<Rightarrow> quad \<Rightarrow> quad \<Rightarrow> u16" where
  "caly_csum_replace16 acc from to =
     (let tmp = NOT (caly_csum_unfold acc) AND 0xFFFFFFFF;
          tmp = caly_csum_sub tmp (q0 from); tmp = caly_csum_sub tmp (q1 from);
          tmp = caly_csum_sub tmp (q2 from); tmp = caly_csum_sub tmp (q3 from);
          tmp = caly_csum_add tmp (q0 to); tmp = caly_csum_add tmp (q1 to);
          tmp = caly_csum_add tmp (q2 to); tmp = caly_csum_add tmp (q3 to)
      in caly_csum_fold tmp)"

text \<open>The error codes of the range functions; every caller passes a valid result pointer.\<close>

datatype csum_err = CALY_ERR_TRUNC | CALY_ERR_INVAL

abbreviation (input) CALY_CSUM_MAX_BYTES :: u32 where "CALY_CSUM_MAX_BYTES \<equiv> 128"
abbreviation (input) CALY_CSUM_MAX_WORDS :: u32 where "CALY_CSUM_MAX_WORDS \<equiv> 64"
abbreviation (input) CALY_CSUM_NO_SKIP :: u32 where "CALY_CSUM_NO_SKIP \<equiv> 0xFFFFFFFF"
abbreviation (input) CALY_IP4_CSUM_OFF :: u32 where "CALY_IP4_CSUM_OFF \<equiv> 10"

function csum_loop :: "bytes \<Rightarrow> nat \<Rightarrow> u32 \<Rightarrow> u32 \<Rightarrow> nat \<Rightarrow> u32 \<Rightarrow> (csum_err + u32) option" where
  "csum_loop d start words skip_off i acc =
     (if i < unat CALY_CSUM_MAX_WORDS then
        if of_nat i \<ge> words then Some (Inr acc)
        else
          let off = of_nat i * 2 in
          if start + unat off + 2 > length d then Some (Inl CALY_ERR_TRUNC)
          else if skip_off \<noteq> CALY_CSUM_NO_SKIP \<and> off = skip_off then
            csum_loop d start words skip_off (i + 1) acc
          else (case ld16 d (start + unat off) of
                  None \<Rightarrow> None
                | Some w \<Rightarrow> csum_loop d start words skip_off (i + 1) (caly_csum_add acc (ucast w)))
      else Some (Inr acc))"
  by pat_completeness auto
termination by (relation "measure (\<lambda>(_, _, _, _, i, _). unat CALY_CSUM_MAX_WORDS - i)") auto

declare csum_loop.simps [simp del]

definition caly_csum_range :: "bytes \<Rightarrow> nat \<Rightarrow> u32 \<Rightarrow> u32 \<Rightarrow> (csum_err + u32) option" where
  "caly_csum_range d start len skip_off =
     (if len > CALY_CSUM_MAX_BYTES then Some (Inl CALY_ERR_INVAL)
      else if skip_off \<noteq> CALY_CSUM_NO_SKIP \<and> (has_flag skip_off 1 \<or> skip_off \<ge> len)
        then Some (Inl CALY_ERR_INVAL)
      else do {
        r \<leftarrow> csum_loop d start (drop_bit 1 len) skip_off 0 0;
        case r of Inl e \<Rightarrow> Some (Inl e)
        | Inr acc \<Rightarrow>
            if has_flag len 1 then
              let off = len - 1 in
              if start + unat off + 1 > length d then Some (Inl CALY_ERR_TRUNC)
              else if skip_off = CALY_CSUM_NO_SKIP \<or> off \<noteq> skip_off then do {
                b \<leftarrow> ld8 d (start + unat off);
                Some (Inr (caly_csum_add acc (ucast (ntohs (push_bit 8 (ucast b)))))) }
              else Some (Inr acc)
            else Some (Inr acc) })"

definition caly_ipv4_csum :: "bytes \<Rightarrow> nat \<Rightarrow> u32 \<Rightarrow> (csum_err + u16) option" where
  "caly_ipv4_csum d iph ihl_bytes =
     (if ihl_bytes < 20 \<or> ihl_bytes > 60 \<or> has_flag ihl_bytes 3 then Some (Inl CALY_ERR_INVAL)
      else do {
        r \<leftarrow> caly_csum_range d iph ihl_bytes CALY_IP4_CSUM_OFF;
        Some (map_sum id caly_csum_fold r) })"

definition caly_pseudo_csum_v4 :: "u32 \<Rightarrow> u32 \<Rightarrow> u8 \<Rightarrow> u16 \<Rightarrow> u32" where
  "caly_pseudo_csum_v4 saddr daddr proto l4_len =
     (let acc = caly_csum_add 0 saddr; acc = caly_csum_add acc daddr;
          acc = caly_csum_add acc (ucast (ntohs (ucast proto)))
      in caly_csum_add acc (ucast (ntohs l4_len)))"

definition caly_pseudo_csum_v6 :: "quad \<Rightarrow> quad \<Rightarrow> u8 \<Rightarrow> u32 \<Rightarrow> u32" where
  "caly_pseudo_csum_v6 saddr daddr nexthdr l4_len =
     (let acc = caly_csum_add 0 (q0 saddr); acc = caly_csum_add acc (q1 saddr);
          acc = caly_csum_add acc (q2 saddr); acc = caly_csum_add acc (q3 saddr);
          acc = caly_csum_add acc (q0 daddr); acc = caly_csum_add acc (q1 daddr);
          acc = caly_csum_add acc (q2 daddr); acc = caly_csum_add acc (q3 daddr);
          acc = caly_csum_add acc (ntohl l4_len)
      in caly_csum_add acc (ntohl (ucast nexthdr)))"

definition nonzero_csum :: "u16 \<Rightarrow> u16" where
  "nonzero_csum c = (if c = 0 then 0xFFFF else c)"

definition caly_l4_csum_v4 ::
  "bytes \<Rightarrow> nat \<Rightarrow> u32 \<Rightarrow> u32 \<Rightarrow> u8 \<Rightarrow> u16 \<Rightarrow> u32 \<Rightarrow> (csum_err + u16) option" where
  "caly_l4_csum_v4 d l4h saddr daddr proto l4_len skip_off = do {
     r \<leftarrow> caly_csum_range d l4h (ucast l4_len) skip_off;
     Some (map_sum id (\<lambda>acc. nonzero_csum (caly_csum_fold
             (caly_csum_add acc (caly_pseudo_csum_v4 saddr daddr proto l4_len)))) r) }"

definition caly_l4_csum_v6 ::
  "bytes \<Rightarrow> nat \<Rightarrow> quad \<Rightarrow> quad \<Rightarrow> u8 \<Rightarrow> u16 \<Rightarrow> u32 \<Rightarrow> (csum_err + u16) option" where
  "caly_l4_csum_v6 d l4h saddr daddr nexthdr l4_len skip_off = do {
     r \<leftarrow> caly_csum_range d l4h (ucast l4_len) skip_off;
     Some (map_sum id (\<lambda>acc. nonzero_csum (caly_csum_fold
             (caly_csum_add acc (caly_pseudo_csum_v6 saddr daddr nexthdr (ucast l4_len))))) r) }"

definition caly_csum_ok :: "u16 \<Rightarrow> u16 \<Rightarrow> bool" where
  "caly_csum_ok computed stored \<longleftrightarrow>
     computed = stored \<or> computed = 0 \<and> stored = 0xFFFF \<or> computed = 0xFFFF \<and> stored = 0"

section \<open>Accumulators as natural numbers\<close>

text \<open>The representative of a sum in one's complement: zero for zero, else between 1 and 65535.\<close>

definition oc16 :: "nat \<Rightarrow> nat" where
  "oc16 n = (if n = 0 then 0 else if n mod 65535 = 0 then 65535 else n mod 65535)"

definition acc_of :: "u32 \<Rightarrow> nat \<Rightarrow> bool" where
  "acc_of a n \<longleftrightarrow> unat a mod 65535 = n mod 65535 \<and> (a = 0 \<longleftrightarrow> n = 0)"

lemma oc16_le: "oc16 n \<le> 65535"
  by (simp add: oc16_def)

lemma oc16_mod: "oc16 n mod 65535 = n mod 65535"
  by (simp add: oc16_def)

lemma oc16_cong: "a mod 65535 = b mod 65535 \<Longrightarrow> (a = 0 \<longleftrightarrow> b = 0) \<Longrightarrow> oc16 a = oc16 b"
  by (simp add: oc16_def)

lemma oc16_unique: "y \<le> 65535 \<Longrightarrow> y mod 65535 = n mod 65535 \<Longrightarrow> (y = 0 \<longleftrightarrow> n = 0) \<Longrightarrow> y = oc16 n"
  by (cases "y = 65535") (auto simp: oc16_def)

lemma acc_of_0: "acc_of 0 0"
  by (simp add: acc_of_def)

lemma unat_csum_add:
  "unat (caly_csum_add a b) = (if unat a + unat b < 2 ^ 32 then unat a + unat b else unat a + unat b - (2 ^ 32 - 1))"
proof (cases "unat a + unat b < 2 ^ 32")
  case True
  then have "unat (a + b) = unat a + unat b" by (simp add: unat_word_ariths(1))
  then show ?thesis using True by (simp add: caly_csum_add_def word_less_nat_alt)
next
  case False
  have lt: "unat a < 2 ^ 32" "unat b < 2 ^ 32" using unat_u32_less [of a] unat_u32_less [of b] by simp_all
  have ab: "unat (a + b) = unat a + unat b - 2 ^ 32"
    using False lt by (simp add: unat_word_ariths(1) le_mod_geq)
  then have "a + b < b" using False lt by (simp add: word_less_nat_alt)
  moreover have "unat (a + b + 1) = unat (a + b) + 1"
    using ab lt by (simp add: unat_word_ariths(1) [of "a + b" 1])
  ultimately show ?thesis
    using False ab by (simp add: caly_csum_add_def Let_def)
qed

lemma acc_of_add:
  assumes "acc_of a n"
  shows "acc_of (caly_csum_add a b) (n + unat b)"
proof -
  have "\<exists>k. unat a + unat b = unat (caly_csum_add a b) + k * 65535"
  proof (cases "unat a + unat b < 2 ^ 32")
    case True
    then show ?thesis by (intro exI [of _ 0]) (simp add: unat_csum_add)
  next
    case False
    then show ?thesis by (intro exI [of _ 65537]) (simp add: unat_csum_add)
  qed
  then have "unat (caly_csum_add a b) mod 65535 = (unat a + unat b) mod 65535"
    by auto
  also have "\<dots> = (n + unat b) mod 65535"
    using assms mod_add_cong [of "unat a" 65535 n "unat b" "unat b"] by (simp add: acc_of_def)
  finally have "unat (caly_csum_add a b) mod 65535 = (n + unat b) mod 65535" .
  moreover have "unat (caly_csum_add a b) = 0 \<longleftrightarrow> unat a = 0 \<and> unat b = 0"
    by (auto simp: unat_csum_add)
  ultimately show ?thesis
    using assms by (simp add: acc_of_def unsigned_eq_0_iff)
qed

lemma fold_step:
  fixes x :: nat
  shows "(x mod 65536 + x div 65536) mod 65535 = x mod 65535" "x mod 65536 + x div 65536 = 0 \<longleftrightarrow> x = 0"
proof -
  have "x = 65536 * (x div 65536) + x mod 65536" by simp
  then have "x = (x mod 65536 + x div 65536) + 65535 * (x div 65536)" by linarith
  then show "(x mod 65536 + x div 65536) mod 65535 = x mod 65535" by (metis mod_mult_self2)
  show "x mod 65536 + x div 65536 = 0 \<longleftrightarrow> x = 0" by (auto simp: div_eq_0_iff)
qed

lemma fold_nat:
  fixes n :: nat
  assumes "n < 2 ^ 32"
  defines "m \<equiv> n mod 65536 + n div 65536"
  shows "m mod 65536 + m div 65536 = oc16 n"
proof (rule oc16_unique)
  have "n div 65536 < 65536" using assms(1) by (simp add: less_mult_imp_div_less)
  moreover have "n mod 65536 < 65536" by simp
  ultimately have "m \<le> 131070" unfolding m_def by linarith
  then show "m mod 65536 + m div 65536 \<le> 65535"
    by (cases "m < 65536") (simp_all add: not_less le_mod_geq div_nat_eqI)
  show "(m mod 65536 + m div 65536) mod 65535 = n mod 65535"
    using fold_step(1) [of m] fold_step(1) [of n] by (simp add: m_def)
  show "m mod 65536 + m div 65536 = 0 \<longleftrightarrow> n = 0"
    using fold_step(2) [of m] fold_step(2) [of n] by (simp add: m_def)
qed

lemma unat_fold_half: "unat ((c AND 0xFFFF) + drop_bit 16 c :: u32) = unat c mod 65536 + unat c div 65536"
proof -
  have "c AND 0xFFFF = take_bit 16 c"
    by (simp add: take_bit_eq_mask mask_eq_exp_minus_1)
  then have lo: "unat (c AND 0xFFFF) = unat c mod 65536"
    by (simp only: unsigned_take_bit_eq) (simp add: take_bit_eq_mod)
  have hi: "unat (drop_bit 16 c) = unat c div 65536"
    by (simp only: unat_drop_bit_eq) (simp add: drop_bit_eq_div)
  have "unat c div 65536 < 65536"
    using unat_u32_less [of c] by (simp add: less_mult_imp_div_less)
  moreover have "unat c mod 65536 < 65536" by simp
  ultimately show ?thesis
    by (simp add: unat_word_ariths(1) lo hi)
qed

lemma unat_not_u32: "unat (NOT x :: u32) = 4294967295 - unat x"
proof -
  have "NOT x = - 1 - x" by (simp add: not_eq_complement)
  moreover have "unat (- 1 - x) = unat (- 1 :: u32) - unat x" by (rule unat_sub) (rule word_order.extremum)
  moreover have "unat (- 1 :: u32) = 4294967295"
    by (simp add: unsigned_minus_1_eq_mask mask_eq_exp_minus_1)
  ultimately show ?thesis by metis
qed

lemma unat_ucast_not:
  assumes x: "unat (x :: u32) \<le> 65535"
  shows "unat (ucast (NOT x) :: u16) = 65535 - unat x"
proof -
  have "4294967295 - unat x = (65535 - unat x) + 65535 * 65536" using x by linarith
  moreover have "((65535 - unat x) + 65535 * 65536) mod 65536 = (65535 - unat x) mod (65536 :: nat)"
    by (rule mod_mult_self1)
  moreover have "(65535 - unat x) mod 65536 = 65535 - unat x" by (rule mod_less) linarith
  moreover have "unat (ucast (NOT x) :: u16) = unat (NOT x) mod 65536"
    by (simp only: unsigned_ucast_eq take_bit_eq_mod) simp
  ultimately show ?thesis by (metis unat_not_u32)
qed

lemma unat_csum_fold: "unat (caly_csum_fold c) = 65535 - oc16 (unat c)"
proof -
  have "unat c < 2 ^ 32" using unat_u32_less [of c] by simp
  then show ?thesis
    using fold_nat [of "unat c"] oc16_le [of "unat c"]
    by (simp add: caly_csum_fold_def Let_def unat_ucast_not unat_fold_half)
qed

section \<open>The checksum of a sum\<close>

definition csum_of :: "nat \<Rightarrow> u16" where
  "csum_of n = of_nat (65535 - oc16 n)"

text \<open>What a receiver checks: the words and the checksum field add up to all ones.\<close>

definition csum_valid :: "nat \<Rightarrow> u16 \<Rightarrow> bool" where
  "csum_valid n c \<longleftrightarrow> (n + unat c) mod 65535 = 0 \<and> n + unat c \<noteq> 0"

lemma unat_csum_of: "unat (csum_of n) = 65535 - oc16 n"
  by (simp add: csum_of_def unsigned_of_nat take_bit_nat_eq_self_iff)

lemma fold_acc:
  assumes "acc_of a n"
  shows "caly_csum_fold a = csum_of n"
proof -
  have "oc16 (unat a) = oc16 n"
    using assms by (intro oc16_cong) (simp_all add: acc_of_def unsigned_eq_0_iff)
  then have "unat (caly_csum_fold a) = unat (csum_of n)"
    by (simp add: unat_csum_fold unat_csum_of)
  then show ?thesis by (simp add: word_eq_iff_unsigned [where ?'a = nat])
qed

lemma csum_of_valid: "csum_valid n (csum_of n)"
proof -
  have "65535 * (n div 65535) + n mod 65535 = n" "n mod 65535 < 65535" by simp_all
  then have "n + (65535 - n mod 65535) = 65535 * Suc (n div 65535)"
    unfolding mult_Suc_right by linarith
  then have "(n + (65535 - n mod 65535)) mod 65535 = 0"
    by (metis mod_mult_self1_is_0)
  then have "(n + (65535 - oc16 n)) mod 65535 = 0" by (simp add: oc16_def)
  moreover have "n + (65535 - oc16 n) \<noteq> 0" by (auto simp: oc16_def)
  ultimately show ?thesis by (simp add: csum_valid_def unat_csum_of)
qed

section \<open>Incremental update\<close>

definition acc_nz :: "u32 \<Rightarrow> nat \<Rightarrow> bool" where
  "acc_nz a n \<longleftrightarrow> unat a mod 65535 = n mod 65535 \<and> a \<noteq> 0"

lemma acc_nz_iff: "acc_nz a n \<longleftrightarrow> (\<exists>k. acc_of a (n + k * 65535) \<and> a \<noteq> 0)"
proof
  assume "acc_nz a n"
  then have "acc_of a (n + 1 * 65535)" "a \<noteq> 0" by (simp_all add: acc_nz_def acc_of_def)
  then show "\<exists>k. acc_of a (n + k * 65535) \<and> a \<noteq> 0" by blast
qed (auto simp: acc_nz_def acc_of_def)

lemma csum_add_nz: "a \<noteq> 0 \<Longrightarrow> caly_csum_add a b \<noteq> 0"
  by (auto simp: unat_csum_add unsigned_eq_0_iff [where ?'a = nat, symmetric] split: if_splits)

lemma acc_nz_add: "acc_nz a n \<Longrightarrow> acc_nz (caly_csum_add a b) (n + unat b)"
  using acc_of_add [of a _ b] csum_add_nz [of a b]
  by (auto simp: acc_nz_iff) (metis add.assoc add.commute)

lemma acc_nz_sub: "acc_nz a (n + unat b) \<Longrightarrow> acc_nz (caly_csum_sub a b) n"
proof -
  assume a: "acc_nz a (n + unat b)"
  have "n + unat b + unat (NOT b) = n + 65537 * 65535"
    using unat_u32_less [of b] by (simp add: unat_not_u32)
  then have "(n + unat b + unat (NOT b)) mod 65535 = n mod 65535" by (metis mod_mult_self1)
  then show ?thesis
    using acc_nz_add [OF a, of "NOT b"] by (simp add: caly_csum_sub_def acc_nz_def)
qed

lemma unat_unfold_not: "unat (NOT (caly_csum_unfold c) AND 0xFFFFFFFF) = 4294967295 - unat c"
proof -
  have "(0xFFFFFFFF :: u32) = - 1" by (simp add: word_eq_iff_unsigned)
  then have "NOT (caly_csum_unfold c) AND 0xFFFFFFFF = NOT (caly_csum_unfold c)"
    by (simp only: and.right_neutral)
  moreover have "unat (caly_csum_unfold c) = unat c"
    using unat_u16_less [of c] by (simp only: caly_csum_unfold_def unsigned_ucast_eq) (simp add: take_bit_nat_eq_self_iff)
  ultimately show ?thesis by (simp add: unat_not_u32)
qed

lemma unfold_not_nz: "NOT (caly_csum_unfold c) AND 0xFFFFFFFF \<noteq> 0"
proof
  assume "NOT (caly_csum_unfold c) AND 0xFFFFFFFF = 0"
  then have "4294967295 - unat c = 0" using unat_unfold_not [of c] by (simp only: unsigned_0)
  with unat_u16_less [of c] show False by simp
qed

lemma acc_nz_unfold: "acc_nz (NOT (caly_csum_unfold (csum_of n)) AND 0xFFFFFFFF) n"
proof -
  have u: "unat (NOT (caly_csum_unfold (csum_of n)) AND 0xFFFFFFFF) = oc16 n + 65536 * 65535"
    using oc16_le [of n] by (simp only: unat_unfold_not unat_csum_of)
  show ?thesis
    unfolding acc_nz_def u mod_mult_self1 oc16_mod using unfold_not_nz by simp
qed

lemma fold_nz: "acc_nz a n \<Longrightarrow> n \<noteq> 0 \<Longrightarrow> caly_csum_fold a = csum_of n"
  by (rule fold_acc) (simp add: acc_nz_def acc_of_def)

lemma unat_widen16: "unat (ucast (w :: u16) :: u32) = unat w"
  using unat_u16_less [of w] by (simp only: unsigned_ucast_eq) (simp add: take_bit_nat_eq_self_iff)

lemma replace_acc:
  assumes "acc_nz a (n + unat from)"
  shows "acc_nz (caly_csum_add (caly_csum_sub a from) to) (n + unat to)"
  using assms by (intro acc_nz_add acc_nz_sub)

definition quad_sum :: "quad \<Rightarrow> nat" where
  "quad_sum q = unat (q0 q) + unat (q1 q) + unat (q2 q) + unat (q3 q)"

lemma replace16_acc:
  assumes "acc_nz a (n + quad_sum from)"
  shows "acc_nz (caly_csum_sub (caly_csum_sub (caly_csum_sub (caly_csum_sub a (q0 from)) (q1 from)) (q2 from)) (q3 from)) n"
  using assms
  by (intro acc_nz_sub) (simp add: quad_sum_def add.commute add.left_commute)

section \<open>The sum over a range\<close>

lemma unat_small: "i < 64 \<Longrightarrow> unat (of_nat i :: u32) = i" "i < 64 \<Longrightarrow> unat (of_nat i * 2 :: u32) = 2 * i"
proof -
  show u: "i < 64 \<Longrightarrow> unat (of_nat i :: u32) = i"
    by (simp add: unsigned_of_nat take_bit_nat_eq_self_iff)
  assume "i < 64"
  with u show "unat (of_nat i * 2 :: u32) = 2 * i" by (simp add: unat_word_ariths(2))
qed

definition word_at :: "bytes \<Rightarrow> nat \<Rightarrow> nat \<Rightarrow> nat" where
  "word_at d start i = unat (le16 (d ! (start + 2 * i)) (d ! (start + 2 * i + 1)))"

text \<open>The 16-bit words of a range from the \<open>i\<close>-th on, without the one at byte offset \<open>skip\<close>.\<close>

definition words_sum :: "bytes \<Rightarrow> nat \<Rightarrow> nat \<Rightarrow> nat \<Rightarrow> nat \<Rightarrow> nat" where
  "words_sum d start skip i n = (\<Sum>j = i..<n. if 2 * j = skip then 0 else word_at d start j)"

lemma words_sum_step:
  "i < n \<Longrightarrow> words_sum d start skip i n =
     (if 2 * i = skip then 0 else word_at d start i) + words_sum d start skip (Suc i) n"
  by (simp add: words_sum_def sum.atLeast_Suc_lessThan)

definition loop_spec :: "bytes \<Rightarrow> nat \<Rightarrow> u32 \<Rightarrow> u32 \<Rightarrow> nat \<Rightarrow> u32 \<Rightarrow> csum_err + u32 \<Rightarrow> bool" where
  "loop_spec d start words skip i a r =
     (case r of
        Inl e \<Rightarrow> e = CALY_ERR_TRUNC \<and> i < unat words \<and> length d < start + 2 * unat words
      | Inr a' \<Rightarrow> (i < unat words \<longrightarrow> start + 2 * unat words \<le> length d) \<and>
          (\<forall>n. acc_of a n \<longrightarrow> acc_of a' (n + words_sum d start (unat skip) i (unat words))))"

lemma loop_spec_step:
  assumes "loop_spec d start words skip (i + 1) a' r" "i < unat words" "start + 2 * i + 2 \<le> length d"
    and "\<And>n. acc_of a n \<Longrightarrow> acc_of a' (n + (if 2 * i = unat skip then 0 else word_at d start i))"
  shows "loop_spec d start words skip i a r"
proof (cases r)
  case (Inr b)
  have "start + 2 * unat words \<le> length d"
    using assms(1-3) Inr by (cases "i + 1 < unat words") (auto simp: loop_spec_def)
  moreover have "acc_of b (n + words_sum d start (unat skip) i (unat words))" if "acc_of a n" for n
  proof -
    have "acc_of b (n + (if 2 * i = unat skip then 0 else word_at d start i) +
        words_sum d start (unat skip) (Suc i) (unat words))"
      using assms(1) assms(4) [OF that] Inr by (simp add: loop_spec_def)
    then show ?thesis using words_sum_step [OF assms(2), of d start "unat skip"] by (simp add: add.assoc)
  qed
  ultimately show ?thesis using Inr by (simp add: loop_spec_def)
qed (use assms in \<open>simp add: loop_spec_def\<close>)

lemma csum_loop_spec:
  "unat words \<le> 64 \<Longrightarrow> \<exists>r. csum_loop d start words skip i a = Some r \<and> loop_spec d start words skip i a r"
proof (induction d start words skip i a rule: csum_loop.induct)
  case (1 d start words skip i a)
  show ?case
  proof (cases "i < unat words")
    case False
    then have "i < 64 \<Longrightarrow> words \<le> of_nat i" by (simp add: word_le_nat_alt unat_small)
    then have "csum_loop d start words skip i a = Some (Inr a)"
      by (subst csum_loop.simps) simp
    with False show ?thesis by (simp add: loop_spec_def words_sum_def)
  next
    case True
    with "1.prems" have i: "i < 64" by simp
    then have nle: "\<not> words \<le> of_nat i" using True by (simp add: word_le_nat_alt unat_small)
    let ?off = "of_nat i * 2 :: u32"
    note off = unat_small(2) [OF i]
    show ?thesis
    proof (cases "start + unat ?off + 2 > length d")
      case trunc: True
      then have "csum_loop d start words skip i a = Some (Inl CALY_ERR_TRUNC)"
        using i nle by (subst csum_loop.simps) (simp add: Let_def)
      with trunc True off show ?thesis by (simp add: loop_spec_def)
    next
      case inside: False
      have sk: "?off = skip \<longleftrightarrow> 2 * i = unat skip"
        using off by (metis word_eq_iff_unsigned)
      have ns: "2 * i = unat skip \<Longrightarrow> skip \<noteq> CALY_CSUM_NO_SKIP" using i by auto
      show ?thesis
      proof (cases "2 * i = unat skip")
        case skipped: True
        obtain r where "csum_loop d start words skip (i + 1) a = Some r" "loop_spec d start words skip (i + 1) a r"
          using "1.IH"(1) [of ?off] "1.prems" i nle inside sk ns skipped by auto
        moreover have "csum_loop d start words skip i a = csum_loop d start words skip (i + 1) a"
          using i nle inside sk ns skipped by (subst csum_loop.simps) (simp add: Let_def)
        ultimately show ?thesis
          using loop_spec_step [of d start words skip i a r a] True inside off skipped by auto
      next
        case counted: False
        let ?w = "le16 (d ! (start + unat ?off)) (d ! (start + unat ?off + 1))"
        have ld: "ld16 d (start + unat ?off) = Some ?w" using inside by (intro ld16_inside) simp
        obtain r where "csum_loop d start words skip (i + 1) (caly_csum_add a (ucast ?w)) = Some r"
            "loop_spec d start words skip (i + 1) (caly_csum_add a (ucast ?w)) r"
          using "1.IH"(2) [of ?off ?w] "1.prems" i nle inside sk ld counted by auto
        moreover have "csum_loop d start words skip i a = csum_loop d start words skip (i + 1) (caly_csum_add a (ucast ?w))"
          using i nle inside sk ld counted by (subst csum_loop.simps) (simp add: Let_def)
        moreover have "acc_of a n \<Longrightarrow> acc_of (caly_csum_add a (ucast ?w)) (n + word_at d start i)" for n
          using acc_of_add [of a n "ucast ?w"] by (simp add: word_at_def off unat_widen16)
        ultimately show ?thesis
          using loop_spec_step [of d start words skip i "caly_csum_add a (ucast ?w)" r a] True inside off counted by auto
      qed
    qed
  qed
qed

text \<open>The sum of a range: its words, and a last odd byte as the first byte of a word.\<close>

definition range_sum :: "bytes \<Rightarrow> nat \<Rightarrow> nat \<Rightarrow> nat \<Rightarrow> nat" where
  "range_sum d start len skip =
     words_sum d start skip 0 (len div 2) + (if odd len \<and> len - 1 \<noteq> skip then unat (d ! (start + len - 1)) else 0)"

lemma ntohs_high_byte: "ntohs (push_bit 8 (ucast (b :: u8))) = ucast b"
  by (rule bit_word_eqI) (auto simp: ntohs_def bit_simps dest: bit_imp_le_length)

lemma odd_has_flag: "has_flag (x :: u32) 1 \<longleftrightarrow> odd (unat x)"
proof -
  have "has_flag x 1 \<longleftrightarrow> odd x"
    by (simp add: has_flag_def and_one_eq odd_iff_mod_2_eq_one)
  also have "\<dots> \<longleftrightarrow> bit (unat x) 0"
    by (simp add: bit_unsigned_iff) (simp add: bit_0)
  finally show ?thesis by (simp add: bit_0)
qed

lemma caly_csum_range_spec:
  assumes "len \<le> CALY_CSUM_MAX_BYTES" "skip = CALY_CSUM_NO_SKIP \<or> even (unat skip) \<and> skip < len"
  shows "\<exists>r. caly_csum_range d start len skip = Some r \<and>
     (if len = 0 \<or> start + unat len \<le> length d then \<exists>a. r = Inr a \<and> acc_of a (range_sum d start (unat len) (unat skip))
      else r = Inl CALY_ERR_TRUNC)"
proof -
  have n: "unat (drop_bit 1 len) = unat len div 2"
    by (simp only: unat_drop_bit_eq) (simp add: drop_bit_eq_div)
  then have n': "unat (drop_bit (Suc 0) len) = unat len div 2" by simp
  have l: "unat len \<le> 128" using assms(1) by (simp add: word_le_nat_alt)
  obtain r where r: "csum_loop d start (drop_bit 1 len) skip 0 0 = Some r"
    "loop_spec d start (drop_bit 1 len) skip 0 0 r"
    using csum_loop_spec [of "drop_bit 1 len" d start skip 0 0] l unfolding n by fastforce
  have inval: "\<not> (skip \<noteq> CALY_CSUM_NO_SKIP \<and> (has_flag skip 1 \<or> len \<le> skip))"
    using assms(2) by (auto simp: odd_has_flag)
  have m1: "odd (unat len) \<Longrightarrow> unat (len - 1) = unat len - 1"
    by (rule unat_minus_one) auto
  show ?thesis
  proof (cases r)
    case (Inl e)
    with r have "e = CALY_ERR_TRUNC" "0 < unat len div 2" "length d < start + 2 * (unat len div 2)"
      by (simp_all add: loop_spec_def n')
    with r(1) Inl assms(1) inval show ?thesis by (auto simp: caly_csum_range_def)
  next
    case (Inr a)
    have w: "unat len div 2 \<noteq> 0 \<Longrightarrow> start + 2 * (unat len div 2) \<le> length d"
      and acc: "acc_of a (words_sum d start (unat skip) 0 (unat len div 2))"
      using r(2) Inr acc_of_0 by (auto simp: loop_spec_def n')
    show ?thesis
    proof (cases "odd (unat len)")
      case False
      then have even: "2 * (unat len div 2) = unat len" by simp
      have nz: "len = 0 \<or> start + unat len \<le> length d"
        using w even by (cases "unat len div 2 = 0") (auto simp: unsigned_eq_0_iff)
      show ?thesis
        using r(1) Inr assms(1) inval False nz acc
        by (auto simp: caly_csum_range_def odd_has_flag range_sum_def)
    next
      case True
      then have len: "unat len = 2 * (unat len div 2) + 1" by simp
      show ?thesis
      proof (cases "start + unat len \<le> length d")
        case fits: True
        let ?b = "d ! (start + unat len - 1)"
        have ld: "ld8 d (start + (unat len - 1)) = Some ?b"
          using fits len by (simp add: ld8_def)
        have last: "(skip = CALY_CSUM_NO_SKIP \<or> len - 1 \<noteq> skip) \<longleftrightarrow> unat len - 1 \<noteq> unat skip"
          using m1 [OF True] l by (auto simp: word_eq_iff_unsigned [where ?'a = nat])
        have "unat (ucast (ucast ?b :: u16) :: u32) = unat ?b"
          by (simp only: unat_widen16) (simp add: unsigned_ucast_eq take_bit_nat_eq_self_iff unat_u8_less less_trans [OF unat_u8_less])
        then have "acc_of (caly_csum_add a (ucast (ntohs (push_bit 8 (ucast ?b)))))
            (words_sum d start (unat skip) 0 (unat len div 2) + unat ?b)"
          using acc_of_add [OF acc, of "ucast (ucast ?b :: u16)"] by (simp only: ntohs_high_byte)
        moreover have "\<not> CALY_CSUM_MAX_BYTES < len" "\<not> length d < Suc (start + (unat len - Suc 0))"
          using assms(1) fits len by (simp_all add: not_less)
        ultimately show ?thesis
          using r(1) Inr inval True fits acc ld last m1 [OF True]
          by (cases "unat len - 1 = unat skip")
            (simp_all add: caly_csum_range_def odd_has_flag Let_def range_sum_def)
      next
        case trunc: False
        then show ?thesis
          using r(1) Inr assms(1) inval True m1 [OF True] len
          by (auto simp: caly_csum_range_def odd_has_flag Let_def)
      qed
    qed
  qed
qed

lemma caly_csum_range_defined: "\<exists>r. caly_csum_range d start len skip = Some r"
proof (cases "len > CALY_CSUM_MAX_BYTES \<or> skip \<noteq> CALY_CSUM_NO_SKIP \<and> (has_flag skip 1 \<or> skip \<ge> len)")
  case True
  then show ?thesis by (auto simp: caly_csum_range_def)
next
  case False
  then show ?thesis
    using caly_csum_range_spec [of len skip d start] by (auto simp: not_less not_le odd_has_flag)
qed

lemma caly_csum_range_inr:
  assumes "caly_csum_range d start len skip = Some (Inr a)"
  shows "acc_of a (range_sum d start (unat len) (unat skip)) \<and> (len = 0 \<or> start + unat len \<le> length d)"
proof -
  have "len \<le> CALY_CSUM_MAX_BYTES" "skip = CALY_CSUM_NO_SKIP \<or> even (unat skip) \<and> skip < len"
    using assms by (auto simp: caly_csum_range_def not_less not_le odd_has_flag split: if_splits)
  from caly_csum_range_spec [OF this, of d start] assms show ?thesis
    by (auto split: if_splits)
qed

text \<open>All words of a range, the checksum field included.\<close>

definition all_words :: "bytes \<Rightarrow> nat \<Rightarrow> nat \<Rightarrow> nat" where
  "all_words d start n = (\<Sum>j < n. word_at d start j)"

lemma word_at_store:
  assumes "start + 2 * i + 2 \<le> length d"
  shows "word_at (d[start + 2 * i := ucast c, start + 2 * i + 1 := ucast (drop_bit 8 (c :: u16))]) start j =
         (if j = i then unat c else word_at d start j)"
proof (cases "j = i")
  case True
  let ?d = "d[start + 2 * i := ucast c, start + 2 * i + 1 := ucast (drop_bit 8 c)]"
  have "?d ! (start + 2 * i) = ucast c" "?d ! (start + 2 * i + 1) = ucast (drop_bit 8 c)"
    using assms by (simp_all add: nth_list_update)
  with True show ?thesis by (simp only: word_at_def le16_bytes refl if_True)
next
  case False
  then have "start + 2 * j \<noteq> start + 2 * i" "start + 2 * j \<noteq> start + 2 * i + 1"
    "start + 2 * j + 1 \<noteq> start + 2 * i" "start + 2 * j + 1 \<noteq> start + 2 * i + 1"
    by presburger+
  with False show ?thesis by (simp add: word_at_def)
qed

lemma all_words_store:
  assumes "start + 2 * i + 2 \<le> length d" "i < n"
  shows "all_words (d[start + 2 * i := ucast c, start + 2 * i + 1 := ucast (drop_bit 8 (c :: u16))]) start n =
         words_sum d start (2 * i) 0 n + unat c"
proof -
  have "all_words (d[start + 2 * i := ucast c, start + 2 * i + 1 := ucast (drop_bit 8 c)]) start n =
      (\<Sum>j < n. if j = i then unat c else word_at d start j)"
    unfolding all_words_def by (intro sum.cong refl word_at_store assms(1))
  also have "\<dots> = (\<Sum>j < n. (if j = i then unat c else 0) + (if 2 * j = 2 * i then 0 else word_at d start j))"
    by (rule sum.cong) auto
  also have "\<dots> = unat c + words_sum d start (2 * i) 0 n"
    using assms(2) by (simp add: sum.distrib words_sum_def lessThan_atLeast0)
  finally show ?thesis by simp
qed

lemma fold_not_negative_zero: "a \<noteq> 0 \<Longrightarrow> caly_csum_fold a \<noteq> 0xFFFF"
proof
  assume a: "a \<noteq> 0" "caly_csum_fold a = 0xFFFF"
  then have "oc16 (unat a) = 0" using unat_csum_fold [of a] oc16_le [of "unat a"] by simp
  with a(1) show False by (auto simp: oc16_def unsigned_eq_0_iff split: if_splits)
qed

section \<open>Properties\<close>

text \<open>RFC 1624 for every field width: replacing a 16-, 32- or 128-bit field in data of any other
  content gives exactly the checksum a full recomputation gives (unless all data are zero), and no
  update of any checksum ever produces the negative zero.\<close>

theorem csum_incremental:
  assumes "n + unat t2 \<noteq> 0" "n + unat t4 \<noteq> 0" "n + quad_sum t16 \<noteq> 0"
  shows "caly_csum_replace2 (csum_of (n + unat f2)) f2 t2 = csum_of (n + unat t2) \<and>
         caly_csum_replace4 (csum_of (n + unat f4)) f4 t4 = csum_of (n + unat t4) \<and>
         caly_csum_replace16 (csum_of (n + quad_sum f16)) f16 t16 = csum_of (n + quad_sum t16) \<and>
         caly_csum_replace2 c f2 t2 \<noteq> 0xFFFF \<and> caly_csum_replace4 c f4 t4 \<noteq> 0xFFFF \<and>
         caly_csum_replace16 c f16 t16 \<noteq> 0xFFFF"
proof (intro conjI)
  show "caly_csum_replace2 (csum_of (n + unat f2)) f2 t2 = csum_of (n + unat t2)"
    unfolding caly_csum_replace2_def Let_def
    using assms(1) replace_acc [of _ n "ucast f2" "ucast t2"] acc_nz_unfold [of "n + unat f2"]
    by (intro fold_nz) (simp_all add: unat_widen16)
  show "caly_csum_replace4 (csum_of (n + unat f4)) f4 t4 = csum_of (n + unat t4)"
    unfolding caly_csum_replace4_def Let_def
    using assms(2) acc_nz_unfold [of "n + unat f4"] by (intro fold_nz replace_acc) simp_all
  show "caly_csum_replace16 (csum_of (n + quad_sum f16)) f16 t16 = csum_of (n + quad_sum t16)"
    unfolding caly_csum_replace16_def Let_def
    using assms(3) acc_nz_add replace16_acc [OF acc_nz_unfold, of n f16]
    by (intro fold_nz) (simp_all add: quad_sum_def add.assoc [symmetric])
  note nz = csum_add_nz unfold_not_nz fold_not_negative_zero
  show "caly_csum_replace2 c f2 t2 \<noteq> 0xFFFF"
    unfolding caly_csum_replace2_def caly_csum_sub_def Let_def by (intro nz)
  show "caly_csum_replace4 c f4 t4 \<noteq> 0xFFFF"
    unfolding caly_csum_replace4_def caly_csum_sub_def Let_def by (intro nz)
  show "caly_csum_replace16 c f16 t16 \<noteq> 0xFFFF"
    unfolding caly_csum_replace16_def caly_csum_sub_def Let_def by (intro nz)
qed

theorem csum_incremental_witness:
  "caly_csum_replace2 (csum_of (5 + unat (0 :: u16))) 0 7 = csum_of 12"
  using csum_incremental [of 5 7 0 "Quad 0 0 0 0" 0 0 "Quad 0 0 0 0" 0]
  by simp

lemma caly_ipv4_csum_inr:
  assumes "caly_ipv4_csum d iph ihl_bytes = Some (Inr c)"
  shows "c = csum_of (words_sum d iph 10 0 (unat ihl_bytes div 2)) \<and> 20 \<le> unat ihl_bytes \<and>
         iph + unat ihl_bytes \<le> length d"
proof -
  obtain r where r: "caly_csum_range d iph ihl_bytes CALY_IP4_CSUM_OFF = Some r" "Inr c = map_sum id caly_csum_fold r"
    and ihl: "20 \<le> ihl_bytes" "\<not> has_flag ihl_bytes 3"
    using assms by (auto simp: caly_ipv4_csum_def not_less split: if_splits bind_splits)
  from r(2) obtain a where a: "r = Inr a" "c = caly_csum_fold a" by (cases r) auto
  have "ihl_bytes AND 1 = (ihl_bytes AND 3) AND 1" by (simp add: and.assoc)
  then have "\<not> has_flag ihl_bytes 1" using ihl(2) by (simp add: has_flag_def)
  then have even: "even (unat ihl_bytes)" by (simp add: odd_has_flag)
  have l: "20 \<le> unat ihl_bytes" using ihl(1) by (simp add: word_le_nat_alt)
  from caly_csum_range_inr [OF r(1) [unfolded a(1)]] l
  have "acc_of a (range_sum d iph (unat ihl_bytes) 10)" "iph + unat ihl_bytes \<le> length d" by auto
  with even l a(2) show ?thesis by (simp add: fold_acc range_sum_def)
qed

text \<open>A computed IPv4 header checksum is right: the computation never reads outside the buffer,
  and when it succeeds, storing its result in the header makes the header's words add up to all ones,
  whatever was in the field before.\<close>

theorem caly_ipv4_csum_valid:
  "caly_ipv4_csum d iph ihl_bytes \<noteq> None \<and>
   (caly_ipv4_csum d iph ihl_bytes = Some (Inr c) \<longrightarrow>
      (\<exists>d'. st16 d (iph + 10) c = Some d' \<and> all_words d' iph (unat ihl_bytes div 2) mod 65535 = 0 \<and>
            all_words d' iph (unat ihl_bytes div 2) \<noteq> 0))"
proof (intro conjI impI)
  show "caly_ipv4_csum d iph ihl_bytes \<noteq> None"
    using caly_csum_range_defined [of d iph ihl_bytes CALY_IP4_CSUM_OFF] by (auto simp: caly_ipv4_csum_def)
  assume "caly_ipv4_csum d iph ihl_bytes = Some (Inr c)"
  then have c: "c = csum_of (words_sum d iph 10 0 (unat ihl_bytes div 2))" "10 \<le> unat ihl_bytes div 2"
    and l: "iph + unat ihl_bytes \<le> length d" "20 \<le> unat ihl_bytes"
    using caly_ipv4_csum_inr by fastforce+
  let ?d = "d[iph + 10 := ucast c, iph + 10 + 1 := ucast (drop_bit 8 c)]"
  have "st16 d (iph + 10) c = Some ?d" using l by (intro st16_inside) simp
  moreover have "all_words ?d iph (unat ihl_bytes div 2) = words_sum d iph 10 0 (unat ihl_bytes div 2) + unat c"
    using all_words_store [of iph 5 d "unat ihl_bytes div 2" c] l c(2) by (simp add: add.commute)
  ultimately show "\<exists>d'. st16 d (iph + 10) c = Some d' \<and> all_words d' iph (unat ihl_bytes div 2) mod 65535 = 0 \<and>
           all_words d' iph (unat ihl_bytes div 2) \<noteq> 0"
    using csum_of_valid [of "words_sum d iph 10 0 (unat ihl_bytes div 2)"] c(1)
    by (auto simp: csum_valid_def)
qed

theorem caly_ipv4_csum_valid_witness:
  "\<exists>c d'. caly_ipv4_csum (replicate 20 0x45) 0 20 = Some (Inr c) \<and>
     st16 (replicate 20 0x45) 10 c = Some d' \<and> all_words d' 0 10 mod 65535 = 0"
proof -
  have "caly_ipv4_csum (replicate 20 0x45) 0 20 = Some (Inr 0x9090)" by code_simp
  with caly_ipv4_csum_valid [of "replicate 20 0x45" 0 20 "0x9090"] show ?thesis by auto
qed

text \<open>The transport checksum: the segment with its pseudo header.  The field that is computed is never
  zero, so that UDP's zero stays free to mean that there is none.\<close>

definition pseudo_sum :: "nat \<Rightarrow> nat \<Rightarrow> u8 \<Rightarrow> u16 \<Rightarrow> nat" where
  "pseudo_sum sa da proto l4_len = sa + da + unat (ntohs (ucast proto)) + unat (ntohs l4_len)"

lemma nonzero_csum_valid:
  assumes "acc_of a n"
  shows "csum_valid n (nonzero_csum (caly_csum_fold a)) \<and> nonzero_csum (caly_csum_fold a) \<noteq> 0"
  using csum_of_valid [of n] fold_acc [OF assms] by (auto simp: nonzero_csum_def csum_valid_def)

lemma acc_of_sum: "acc_of a m \<Longrightarrow> acc_of b n \<Longrightarrow> acc_of (caly_csum_add a b) (m + n)"
proof -
  assume a: "acc_of a m" and b: "acc_of b n"
  have "(m + unat b) mod 65535 = (m + n) mod 65535"
    using b by (intro mod_add_cong) (simp_all add: acc_of_def)
  with acc_of_add [OF a, of b] b show ?thesis by (simp add: acc_of_def unsigned_eq_0_iff)
qed

lemma caly_pseudo_csum_v4_acc:
  "acc_of (caly_pseudo_csum_v4 sa da proto l4_len) (pseudo_sum (unat sa) (unat da) proto l4_len)"
  using acc_of_add [OF acc_of_add [OF acc_of_add [OF acc_of_add [OF acc_of_0, of sa], of da],
      of "ucast (ntohs (ucast proto))"], of "ucast (ntohs l4_len)"]
  by (simp add: caly_pseudo_csum_v4_def Let_def pseudo_sum_def unat_widen16)

lemma caly_l4_csum_v4_valid:
  assumes "caly_l4_csum_v4 d l4h sa da proto l4_len skip = Some (Inr c)"
  shows "csum_valid (range_sum d l4h (unat l4_len) (unat skip) +
           pseudo_sum (unat sa) (unat da) proto l4_len) c \<and> c \<noteq> 0"
proof -
  let ?p = "caly_pseudo_csum_v4 sa da proto l4_len"
  obtain r where r: "caly_csum_range d l4h (ucast l4_len) skip = Some r"
      "Inr c = map_sum id (\<lambda>a. nonzero_csum (caly_csum_fold (caly_csum_add a ?p))) r"
    using assms by (auto simp: caly_l4_csum_v4_def split: bind_splits)
  from r(2) obtain a where a: "r = Inr a" "c = nonzero_csum (caly_csum_fold (caly_csum_add a ?p))"
    by (cases r) auto
  show ?thesis
    using nonzero_csum_valid acc_of_sum caly_csum_range_inr [OF r(1) [unfolded a(1)]]
      caly_pseudo_csum_v4_acc unfolding a(2) by (metis unat_widen16)
qed

text \<open>Verification: a stored field is accepted for a computed one when both stand for the same sum.\<close>

lemma caly_csum_ok_iff: "caly_csum_ok c c' \<longleftrightarrow> unat c mod 65535 = unat c' mod 65535"
proof -
  have "unat c \<le> 65535" "unat c' \<le> 65535" using unat_u16_less [of c] unat_u16_less [of c'] by simp_all
  moreover have "x mod 65535 = (if x = 65535 then 0 else x)" if "x \<le> 65535" for x :: nat
    using that by auto
  ultimately show ?thesis
    by (auto simp: caly_csum_ok_def word_eq_iff_unsigned [where ?'a = nat])
qed

end
