(* ===== verification/Caly_Synproxy.thy ===== *)
theory Caly_Synproxy
  imports Caly_Pipeline Caly_Checksum Caly_Egress
begin

text \<open>
  The SYN proxy of \<open>xdp_synproxy.bpf.c\<close>, the program in the tail-call slot of the action program: a
  SYN is answered in place with a SYN-ACK that carries a cookie, and an ACK with a valid cookie opens
  the flow.  The frame is rewritten by stores at byte offsets; a load or a store outside it makes the
  program undefined (\<^term>\<open>None\<close>).

  The kernel's cookie helpers and its random number are the parameter \<open>sp_kern\<close>.
\<close>

section \<open>Data\<close>

record sp_kern =
  spk_rand :: u32
  spk_gen4 :: "bytes \<Rightarrow> nat \<Rightarrow> nat \<Rightarrow> u32 \<Rightarrow> u64"
  spk_gen6 :: "bytes \<Rightarrow> nat \<Rightarrow> nat \<Rightarrow> u32 \<Rightarrow> u64"
  spk_check4 :: "bytes \<Rightarrow> nat \<Rightarrow> nat \<Rightarrow> int"
  spk_check6 :: "bytes \<Rightarrow> nat \<Rightarrow> nat \<Rightarrow> int"

text \<open>The helpers get the frame with the offsets of the IP and the TCP header; a generated value is
  a signed 64-bit integer, an error when it is negative.\<close>

record sp_flow =
  sf_saddr :: quad
  sf_daddr :: quad
  sf_ifindex :: u32
  sf_family :: u32
  sf_pkt_len :: u32
  sf_tcp_flags :: u32
  sf_sport :: u16
  sf_dport :: u16

abbreviation (input) SP_TCP_MAX_HDR :: u32 where "SP_TCP_MAX_HDR \<equiv> 60"
abbreviation (input) SP_TCP_MAX_WORDS :: nat where "SP_TCP_MAX_WORDS \<equiv> 30"
abbreviation (input) SP_TCP_MAX_OPT :: nat where "SP_TCP_MAX_OPT \<equiv> 40"
abbreviation (input) SP_TCP_OFF_DOFF :: nat where "SP_TCP_OFF_DOFF \<equiv> 12"
abbreviation (input) SP_TCP_OFF_FLAGS :: nat where "SP_TCP_OFF_FLAGS \<equiv> 13"
abbreviation (input) SP_TCP_OFF_CHECK :: nat where "SP_TCP_OFF_CHECK \<equiv> 16"
abbreviation (input) SP_SYNACK_WINDOW :: u16 where "SP_SYNACK_WINDOW \<equiv> 65535"
abbreviation (input) SP_SYNACK_TTL :: u8 where "SP_SYNACK_TTL \<equiv> 64"
abbreviation (input) SP_IP4_DF :: u16 where "SP_IP4_DF \<equiv> 0x4000"

section \<open>Accounting\<close>

definition sp_stat :: "u32 \<Rightarrow> u32 \<Rightarrow> dp_state \<Rightarrow> dp_state" where
  "sp_stat reason bytes s =
     (if reason \<ge> STAT_MAX then s
      else
        let s = (case dp_stats s reason of None \<Rightarrow> s
                 | Some v \<Rightarrow> s\<lparr>dp_stats := (dp_stats s)(reason \<mapsto> v + 1)\<rparr>)
        in (case dp_stats_b s reason of None \<Rightarrow> s
            | Some v \<Rightarrow> s\<lparr>dp_stats_b := (dp_stats_b s)(reason \<mapsto> v + ucast bytes)\<rparr>))"

definition sp_gauge :: "caly_gauge \<Rightarrow> u64 \<Rightarrow> dp_state \<Rightarrow> dp_state" where
  "sp_gauge gauge add s =
     (case dp_global s gauge of None \<Rightarrow> s
      | Some v \<Rightarrow> s\<lparr>dp_global := (dp_global s)(gauge \<mapsto> v + add)\<rparr>)"

definition sp_finish :: "u32 \<Rightarrow> caly_verdict \<Rightarrow> u32 \<Rightarrow> dp_state \<Rightarrow> xdp_action \<times> dp_state" where
  "sp_finish reason verdict pkt_len s =
     (let s = sp_stat STAT_PKT_TOTAL pkt_len s;
          s = sp_gauge G_PKTS 1 s;
          s = sp_gauge G_BYTES (ucast pkt_len) s;
          s = (if reason \<noteq> STAT_PKT_TOTAL then sp_stat reason pkt_len s else s)
      in case verdict of
           VERDICT_DROP \<Rightarrow> (XDP_DROP, sp_gauge G_DROPS 1 (sp_stat STAT_DROP_TOTAL pkt_len s))
         | VERDICT_TX \<Rightarrow> (XDP_TX, sp_gauge G_SYNPROXY_TX 1 (sp_stat STAT_TX_TOTAL pkt_len s))
         | VERDICT_MONITOR \<Rightarrow>
             (XDP_PASS, sp_stat STAT_PASS_TOTAL pkt_len (sp_stat STAT_MONITOR_WOULD_DROP pkt_len s))
         | VERDICT_PASS \<Rightarrow> (XDP_PASS, sp_stat STAT_PASS_TOTAL pkt_len s))"

definition sp_event ::
  "kern \<Rightarrow> sp_kern \<Rightarrow> fw_config \<Rightarrow> sp_flow \<Rightarrow> u32 \<Rightarrow> caly_verdict \<Rightarrow> u64 \<Rightarrow> dp_state \<Rightarrow> dp_state" where
  "sp_event k spk cfg f reason verdict v s =
     (if \<not> has_flag (cfg_flags cfg) CALY_F_LOG_EVENTS then s
      else if cfg_log_sample_rate cfg = 0 then s
      else if cfg_log_sample_rate cfg > 1 \<and> spk_rand spk mod cfg_log_sample_rate cfg \<noteq> 0
        then sp_stat STAT_EVENT_SAMPLED_OUT 0 s
      else
        let ev = \<lparr>ev_ts_ns = k_now k, ev_ban_ttl_ns = 0, ev_value = v, ev_saddr = sf_saddr f,
                  ev_daddr = sf_daddr f, ev_ifindex = sf_ifindex f, ev_reason = reason,
                  ev_verdict = verdict_code verdict, ev_proto = CALY_IPPROTO_TCP,
                  ev_pkt_len = sf_pkt_len f, ev_family = sf_family f, ev_sport = sf_sport f,
                  ev_dport = sf_dport f, ev_tcp_flags = ucast (sf_tcp_flags f),
                  ev_mode = ucast (cfg_mode cfg), ev_version = 1\<rparr>
        in if \<not> k_perf k ev then sp_gauge G_EVENTS_LOST 1 (sp_stat STAT_EVENT_LOST 0 s)
           else sp_gauge G_EVENTS 1 (sp_stat STAT_EVENT_EMITTED 0 (s\<lparr>dp_events := dp_events s @ [ev]\<rparr>)))"

section \<open>Checksums\<close>

definition sp_csum_fold :: "u32 \<Rightarrow> u16" where
  "sp_csum_fold acc =
     (let acc = (acc AND 0xFFFF) + drop_bit 16 acc;
          acc = (acc AND 0xFFFF) + drop_bit 16 acc
      in ucast (NOT acc))"

text \<open>The unrolled loop \<open>for (i = 0; i < n; i++) sum += w[i]\<close>.\<close>

function sp_words :: "bytes \<Rightarrow> nat \<Rightarrow> nat \<Rightarrow> nat \<Rightarrow> u32 \<Rightarrow> u32 option" where
  "sp_words d w n i acc =
     (if i < n then
        (case ld16 d (w + 2 * i) of None \<Rightarrow> None
         | Some x \<Rightarrow> sp_words d w n (i + 1) (acc + ucast x))
      else Some acc)"
  by pat_completeness auto
termination by (relation "measure (\<lambda>(_, _, n, i, _). n - i)") auto

declare sp_words.simps [simp del]

definition sp_ip4_csum :: "bytes \<Rightarrow> nat \<Rightarrow> bytes option" where
  "sp_ip4_csum d iph = do {
     d \<leftarrow> st16 d (iph + 10) 0;
     acc \<leftarrow> sp_words d iph 10 0 0;
     st16 d (iph + 10) (sp_csum_fold acc) }"

text \<open>\<^term>\<open>Some None\<close> is the source's \<open>return -1\<close>, after the field was cleared.\<close>

function sp_tcp_loop :: "bytes \<Rightarrow> nat \<Rightarrow> u32 \<Rightarrow> nat \<Rightarrow> u32 \<Rightarrow> u32 option option" where
  "sp_tcp_loop d th tcp_len i acc =
     (if i < SP_TCP_MAX_WORDS then
        if of_nat (i * 2) \<ge> tcp_len then Some (Some acc)
        else if th + i * 2 + 2 > length d then Some None
        else (case ld16 d (th + i * 2) of None \<Rightarrow> None
              | Some x \<Rightarrow> sp_tcp_loop d th tcp_len (i + 1) (acc + ucast x))
      else Some (Some acc))"
  by pat_completeness auto
termination by (relation "measure (\<lambda>(_, _, _, i, _). SP_TCP_MAX_WORDS - i)") auto

declare sp_tcp_loop.simps [simp del]

definition sp_tcp_csum :: "bytes \<Rightarrow> nat \<Rightarrow> u32 \<Rightarrow> u32 \<Rightarrow> (bool \<times> bytes) option" where
  "sp_tcp_csum d th tcp_len psum = do {
     d \<leftarrow> st16 d (th + SP_TCP_OFF_CHECK) 0;
     r \<leftarrow> sp_tcp_loop d th tcp_len 0 psum;
     case r of None \<Rightarrow> Some (False, d)
     | Some acc \<Rightarrow> do {
         d \<leftarrow> st16 d (th + SP_TCP_OFF_CHECK) (sp_csum_fold acc);
         Some (True, d) } }"

section \<open>The policy context\<close>

text \<open>\<open>sp_allowlisted_v4\<close> and \<open>sp_allowlisted_v6\<close>.\<close>

definition sp_allowlisted :: "kern \<Rightarrow> src_key \<Rightarrow> dp_state \<Rightarrow> bool" where
  "sp_allowlisted k key s \<longleftrightarrow> lpm_find k (dp_allow s) key \<noteq> None"

definition sp_conn_key :: "sp_flow \<Rightarrow> conn_key" where
  "sp_conn_key f = \<lparr>ck_saddr = sf_saddr f, ck_daddr = sf_daddr f, ck_sport = sf_sport f,
     ck_dport = sf_dport f, ck_proto = CALY_IPPROTO_TCP, ck_family = ucast (sf_family f), ck_pad = (0, 0)\<rparr>"

definition sp_conn_known :: "sp_flow \<Rightarrow> dp_state \<Rightarrow> bool" where
  "sp_conn_known f s =
     (case dp_conn s (sp_conn_key f) of None \<Rightarrow> False | Some cs \<Rightarrow> cs_state cs \<noteq> CALY_CT_CLOSED)"

definition sp_conn_create :: "kern \<Rightarrow> sp_flow \<Rightarrow> u64 \<Rightarrow> dp_state \<Rightarrow> dp_state" where
  "sp_conn_create k f now s =
     (let cs = \<lparr>cs_created_ns = now, cs_last_seen_ns = now, cs_pkts_in = 1, cs_bytes_in = ucast (sf_pkt_len f),
                cs_pkts_out = 0, cs_bytes_out = 0, cs_state = CALY_CT_ESTABLISHED,
                cs_flags = CALY_CT_F_SYNPROXIED OR CALY_CT_F_SEEN_REPLY, cs_ifindex = sf_ifindex f, cs_mark = 0\<rparr>
      in case k_upd_conn k (dp_conn s) (sp_conn_key f) cs of
           Some m \<Rightarrow> sp_stat STAT_CT_CREATED 0 (s\<lparr>dp_conn := m\<rparr>)
         | None \<Rightarrow> sp_stat STAT_CT_FULL 0 s)"

section \<open>Rewriting the frame\<close>

text \<open>\<open>memcpy\<close> from and to the frame.\<close>

definition ld_bytes :: "bytes \<Rightarrow> nat \<Rightarrow> nat \<Rightarrow> bytes option" where
  "ld_bytes d i n = (if i + n \<le> length d then Some (take n (drop i d)) else None)"

definition st_bytes :: "bytes \<Rightarrow> nat \<Rightarrow> bytes \<Rightarrow> bytes option" where
  "st_bytes d i b = (if i + length b \<le> length d then Some (take i d @ b @ drop (i + length b) d) else None)"

function sp_nop_loop :: "bytes \<Rightarrow> nat \<Rightarrow> u32 \<Rightarrow> nat \<Rightarrow> bytes option" where
  "sp_nop_loop d opt optlen i =
     (if i < SP_TCP_MAX_OPT then
        if of_nat i \<ge> optlen then Some d
        else if opt + i + 1 > length d then Some d
        else (case st8 d (opt + i) 1 of None \<Rightarrow> None | Some d \<Rightarrow> sp_nop_loop d opt optlen (i + 1))
      else Some d)"
  by pat_completeness auto
termination by (relation "measure (\<lambda>(_, _, _, i). SP_TCP_MAX_OPT - i)") auto

declare sp_nop_loop.simps [simp del]

definition sp_write_mss :: "bytes \<Rightarrow> nat \<Rightarrow> u32 \<Rightarrow> u16 \<Rightarrow> bytes option" where
  "sp_write_mss d opt optlen mss =
     (if optlen < 4 then Some d
      else if opt + 4 > length d then Some d
      else do {
        d \<leftarrow> st8 d opt 2; d \<leftarrow> st8 d (opt + 1) 4;
        d \<leftarrow> st8 d (opt + 2) (ucast (drop_bit 8 mss)); d \<leftarrow> st8 d (opt + 3) (ucast (mss AND 0xFF));
        sp_nop_loop d opt optlen 4 })"

definition sp_swap_mac :: "bytes \<Rightarrow> bytes option" where
  "sp_swap_mac d = do {
     tmp \<leftarrow> ld_bytes d 0 6; src \<leftarrow> ld_bytes d 6 6;
     d \<leftarrow> st_bytes d 0 src; st_bytes d 6 tmp }"

definition sp_make_synack_tcp :: "bytes \<Rightarrow> nat \<Rightarrow> u32 \<Rightarrow> u32 \<Rightarrow> u32 \<Rightarrow> u16 \<Rightarrow> bytes option" where
  "sp_make_synack_tcp d th tcp_len cookie client_seq mss = do {
     sport \<leftarrow> ld16 d th; dport \<leftarrow> ld16 d (th + 2);
     d \<leftarrow> st16 d th dport; d \<leftarrow> st16 d (th + 2) sport;
     d \<leftarrow> st32 d (th + 4) (ntohl cookie); d \<leftarrow> st32 d (th + 8) (ntohl (client_seq + 1));
     d \<leftarrow> st16 d (th + 14) (ntohs SP_SYNACK_WINDOW); d \<leftarrow> st16 d (th + 18) 0;
     d \<leftarrow> st8 d (th + SP_TCP_OFF_FLAGS) (CALY_TCP_SYN OR CALY_TCP_ACK);
     sp_write_mss d (th + 20) (tcp_len - 20) mss }"

section \<open>The two halves of the handshake\<close>

type_synonym sp_result = "(xdp_action \<times> bytes \<times> dp_state) option"

text \<open>A return of the program with the frame as it stands.\<close>

definition sp_return :: "u32 \<Rightarrow> caly_verdict \<Rightarrow> sp_flow \<Rightarrow> bytes \<Rightarrow> dp_state \<Rightarrow> sp_result" where
  "sp_return reason verdict f d s =
     (case sp_finish reason verdict (sf_pkt_len f) s of (a, s) \<Rightarrow> Some (a, d, s))"

text \<open>The tail of both SYN handlers: the checksum, then transmission.\<close>

definition sp_send ::
  "kern \<Rightarrow> sp_kern \<Rightarrow> fw_config \<Rightarrow> sp_flow \<Rightarrow> bytes \<Rightarrow> nat \<Rightarrow> u32 \<Rightarrow> u32 \<Rightarrow> u32 \<Rightarrow> dp_state \<Rightarrow> sp_result" where
  "sp_send k spk cfg f d th tcp_len psum cookie s = do {
     (ok, d) \<leftarrow> sp_tcp_csum d th tcp_len psum;
     if \<not> ok then sp_return STAT_PKT_TOTAL VERDICT_PASS f d (sp_stat STAT_SYNPROXY_TX_FAIL 0 s)
     else sp_return STAT_PKT_TOTAL VERDICT_TX f d
            (sp_event k spk cfg f STAT_SYNPROXY_TX VERDICT_TX (ucast cookie) (sp_stat STAT_SYNPROXY_TX 0 s)) }"

text \<open>A helper that refuses to make a cookie lets the packet pass.\<close>

definition sp_gen_fail ::
  "kern \<Rightarrow> sp_kern \<Rightarrow> fw_config \<Rightarrow> sp_flow \<Rightarrow> u64 \<Rightarrow> bytes \<Rightarrow> dp_state \<Rightarrow> sp_result" where
  "sp_gen_fail k spk cfg f v d s =
     sp_return STAT_PKT_TOTAL VERDICT_PASS f d
       (sp_event k spk cfg f STAT_SYNPROXY_GEN_FAIL VERDICT_PASS (- v) (sp_stat STAT_SYNPROXY_GEN_FAIL 0 s))"

definition sp_syn_v4 ::
  "kern \<Rightarrow> sp_kern \<Rightarrow> fw_config \<Rightarrow> sp_flow \<Rightarrow> bytes \<Rightarrow> nat \<Rightarrow> nat \<Rightarrow> u32 \<Rightarrow> dp_state \<Rightarrow> sp_result" where
  "sp_syn_v4 k spk cfg f d iph th tcp_len s = do {
     b0 \<leftarrow> ld8 d iph;
     tot_len \<leftarrow> ld16 d (iph + 2);
     if b0 AND 0x0F \<noteq> 5 then sp_return STAT_SYNPROXY_SKIPPED VERDICT_PASS f d s
     else if ucast (ntohs tot_len) \<noteq> 20 + tcp_len then sp_return STAT_SYNPROXY_SKIPPED VERDICT_PASS f d s
     else
       let v = spk_gen4 spk d iph th tcp_len in
       if sint v < 0 then sp_gen_fail k spk cfg f v d s
       else do {
         let cookie = ucast v;
         let mss = ucast (drop_bit 32 v);
         let s = sp_stat STAT_SYNPROXY_GEN_OK 0 s;
         client_seq \<leftarrow> ld32 d (th + 4);
         d \<leftarrow> sp_swap_mac d;
         saddr \<leftarrow> ld32 d (iph + 12); daddr \<leftarrow> ld32 d (iph + 16);
         d \<leftarrow> st32 d (iph + 12) daddr; d \<leftarrow> st32 d (iph + 16) saddr;
         d \<leftarrow> st8 d (iph + 8) SP_SYNACK_TTL;
         d \<leftarrow> st16 d (iph + 4) 0; d \<leftarrow> st16 d (iph + 6) (ntohs SP_IP4_DF);
         d \<leftarrow> sp_ip4_csum d iph;
         d \<leftarrow> sp_make_synack_tcp d th tcp_len cookie (ntohl client_seq) mss;
         psum \<leftarrow> sp_words d (iph + 12) 4 0 0;
         let psum = psum + ucast (ntohs CALY_IPPROTO_TCP);
         let psum = psum + ucast (ntohs (ucast tcp_len));
         sp_send k spk cfg f d th tcp_len psum cookie s } }"

text \<open>\<open>sp_ack_v4\<close> and \<open>sp_ack_v6\<close> differ only in the helper whose answer is \<open>chk\<close>.\<close>

definition sp_ack ::
  "kern \<Rightarrow> sp_kern \<Rightarrow> fw_config \<Rightarrow> sp_flow \<Rightarrow> bytes \<Rightarrow> int \<Rightarrow> dp_state \<Rightarrow> sp_result" where
  "sp_ack k spk cfg f d chk s =
     (if chk = 0 then
        sp_return STAT_PASS_SYNCOOKIE_OK VERDICT_PASS f d
          (sp_conn_create k f (k_now k) (sp_stat STAT_SYNPROXY_CHECK_OK 0 s))
      else if cfg_mode cfg = FW_MODE_UNDER_ATTACK \<or> cfg_mode cfg = FW_MODE_LOCKDOWN then
        sp_return STAT_DROP_SYNCOOKIE_BAD VERDICT_DROP f d
          (sp_event k spk cfg f STAT_DROP_SYNCOOKIE_BAD VERDICT_DROP 0 s)
      else
        sp_return STAT_PKT_TOTAL VERDICT_MONITOR f d
          (sp_event k spk cfg f STAT_DROP_SYNCOOKIE_BAD VERDICT_MONITOR 0 (sp_stat STAT_DROP_SYNCOOKIE_BAD 0 s)))"

definition sp_ack_v4 ::
  "kern \<Rightarrow> sp_kern \<Rightarrow> fw_config \<Rightarrow> sp_flow \<Rightarrow> bytes \<Rightarrow> nat \<Rightarrow> nat \<Rightarrow> dp_state \<Rightarrow> sp_result" where
  "sp_ack_v4 k spk cfg f d iph th s = sp_ack k spk cfg f d (spk_check4 spk d iph th) s"

definition sp_ack_v6 ::
  "kern \<Rightarrow> sp_kern \<Rightarrow> fw_config \<Rightarrow> sp_flow \<Rightarrow> bytes \<Rightarrow> nat \<Rightarrow> nat \<Rightarrow> dp_state \<Rightarrow> sp_result" where
  "sp_ack_v6 k spk cfg f d ip6h th s = sp_ack k spk cfg f d (spk_check6 spk d ip6h th) s"

definition sp_syn_v6 ::
  "kern \<Rightarrow> sp_kern \<Rightarrow> fw_config \<Rightarrow> sp_flow \<Rightarrow> bytes \<Rightarrow> nat \<Rightarrow> nat \<Rightarrow> u32 \<Rightarrow> dp_state \<Rightarrow> sp_result" where
  "sp_syn_v6 k spk cfg f d ip6h th tcp_len s = do {
     payload_len \<leftarrow> ld16 d (ip6h + 4);
     if ucast (ntohs payload_len) \<noteq> tcp_len then sp_return STAT_SYNPROXY_SKIPPED VERDICT_PASS f d s
     else
       let v = spk_gen6 spk d ip6h th tcp_len in
       if sint v < 0 then sp_gen_fail k spk cfg f v d s
       else do {
         let cookie = ucast v;
         let mss = ucast (drop_bit 32 v);
         let s = sp_stat STAT_SYNPROXY_GEN_OK 0 s;
         client_seq \<leftarrow> ld32 d (th + 4);
         d \<leftarrow> sp_swap_mac d;
         tmp \<leftarrow> ld_bytes d (ip6h + 8) 16; dst \<leftarrow> ld_bytes d (ip6h + 24) 16;
         d \<leftarrow> st_bytes d (ip6h + 8) dst; d \<leftarrow> st_bytes d (ip6h + 24) tmp;
         d \<leftarrow> st8 d (ip6h + 7) SP_SYNACK_TTL;
         d \<leftarrow> sp_make_synack_tcp d th tcp_len cookie (ntohl client_seq) mss;
         psum \<leftarrow> sp_words d (ip6h + 8) 16 0 0;
         let psum = psum + ucast (ntohs (ucast tcp_len));
         let psum = psum + ucast (ntohs CALY_IPPROTO_TCP);
         sp_send k spk cfg f d th tcp_len psum cookie s } }"

section \<open>The program\<close>

text \<open>An early return with a reason is \<^term>\<open>Inl\<close>.  The walk over the VLAN tags gives the inner
  protocol in network order and the offset of layer 3.\<close>

function sp_vlan_loop :: "bytes \<Rightarrow> nat \<Rightarrow> u16 \<Rightarrow> u32 \<Rightarrow> (u32 + u16 \<times> u32) option" where
  "sp_vlan_loop d i h_proto nh_off =
     (if i < unat CALY_VLAN_MAX_DEPTH then
        if h_proto \<noteq> ntohs CALY_ETH_P_8021Q \<and> h_proto \<noteq> ntohs CALY_ETH_P_8021AD \<and> h_proto \<noteq> ntohs CALY_ETH_P_QINQ1
          then Some (Inr (h_proto, nh_off))
        else if unat nh_off + 4 > length d then Some (Inl STAT_DROP_VLAN_TRUNC)
        else (case ld16 d (unat nh_off + 2) of None \<Rightarrow> None
              | Some enc \<Rightarrow> sp_vlan_loop d (i + 1) enc (nh_off + 4))
      else Some (Inr (h_proto, nh_off)))"
  by pat_completeness auto
termination by (relation "measure (\<lambda>(_, i, _). unat CALY_VLAN_MAX_DEPTH - i)") auto

declare sp_vlan_loop.simps [simp del]

text \<open>Layer 3: the flow with its family and addresses, and the offset of the TCP header.\<close>

definition sp_l3 :: "bytes \<Rightarrow> u16 \<Rightarrow> u32 \<Rightarrow> sp_flow \<Rightarrow> (u32 + sp_flow \<times> u32) option" where
  "sp_l3 d h_proto nh_off f =
     (let ofs = unat nh_off in
      if h_proto = ntohs CALY_ETH_P_IP then
        (if ofs + 20 > length d then Some (Inl STAT_DROP_IP4_TRUNC)
         else do {
           b0 \<leftarrow> ld8 d ofs; frag_off \<leftarrow> ld16 d (ofs + 6); protocol \<leftarrow> ld8 d (ofs + 9);
           saddr \<leftarrow> ld32 d (ofs + 12); daddr \<leftarrow> ld32 d (ofs + 16);
           let ihl = b0 AND 0x0F;
           Some (if protocol \<noteq> CALY_IPPROTO_TCP then Inl STAT_SYNPROXY_SKIPPED
                 else if ihl < 5 then Inl STAT_DROP_IP4_IHL
                 else if has_flag frag_off (ntohs 0x3FFF) then Inl STAT_SYNPROXY_SKIPPED
                 else Inr (f\<lparr>sf_family := CALY_AF_INET,
                             sf_saddr := (case sf_saddr f of Quad _ b c e \<Rightarrow> Quad saddr b c e),
                             sf_daddr := (case sf_daddr f of Quad _ b c e \<Rightarrow> Quad daddr b c e)\<rparr>,
                           nh_off + ucast ihl * 4)) })
      else if h_proto = ntohs CALY_ETH_P_IPV6 then
        (if ofs + 40 > length d then Some (Inl STAT_DROP_IP6_TRUNC)
         else do {
           nexthdr \<leftarrow> ld8 d (ofs + 6); saddr \<leftarrow> ld_quad d (ofs + 8); daddr \<leftarrow> ld_quad d (ofs + 24);
           Some (if nexthdr \<noteq> CALY_IPPROTO_TCP then Inl STAT_SYNPROXY_SKIPPED
                 else Inr (f\<lparr>sf_family := CALY_AF_INET6, sf_saddr := saddr, sf_daddr := daddr\<rparr>,
                           nh_off + 40)) })
      else Some (Inl STAT_SYNPROXY_SKIPPED))"

text \<open>Layer 4: the flow with its ports and flags, and the length of the TCP header.\<close>

definition sp_l4 :: "bytes \<Rightarrow> u32 \<Rightarrow> sp_flow \<Rightarrow> (u32 + sp_flow \<times> u32) option" where
  "sp_l4 d l4_off f =
     (let th = unat l4_off in
      if th + 20 > length d then Some (Inl STAT_DROP_L4_TRUNC)
      else do {
        source \<leftarrow> ld16 d th; dest \<leftarrow> ld16 d (th + 2);
        doff_byte \<leftarrow> ld8 d (th + SP_TCP_OFF_DOFF); tcp_flags \<leftarrow> ld8 d (th + SP_TCP_OFF_FLAGS);
        let tcp_len = ucast (drop_bit 4 doff_byte) * 4;
        Some (if source = 0 \<or> dest = 0 then Inl STAT_DROP_L4_PORT_ZERO
              else if tcp_len < 20 \<or> tcp_len > SP_TCP_MAX_HDR then Inl STAT_DROP_TCP_DOFF
              else if th + unat tcp_len > length d then Inl STAT_DROP_L4_TRUNC
              else Inr (f\<lparr>sf_sport := source, sf_dport := dest, sf_tcp_flags := ucast tcp_flags\<rparr>, tcp_len)) })"

definition sp_is_syn :: "sp_flow \<Rightarrow> bool" where
  "sp_is_syn f \<longleftrightarrow> has_flag (sf_tcp_flags f) CALY_TCP_SYN \<and>
     \<not> has_flag (sf_tcp_flags f) (CALY_TCP_ACK OR CALY_TCP_RST OR CALY_TCP_FIN)"

definition sp_is_ack :: "sp_flow \<Rightarrow> bool" where
  "sp_is_ack f \<longleftrightarrow> has_flag (sf_tcp_flags f) CALY_TCP_ACK \<and>
     \<not> has_flag (sf_tcp_flags f) (CALY_TCP_SYN OR CALY_TCP_RST OR CALY_TCP_FIN)"

text \<open>The reasons to leave a handshake segment alone, in order.\<close>

definition sp_gate :: "kern \<Rightarrow> fw_config \<Rightarrow> sp_flow \<Rightarrow> dp_state \<Rightarrow> u32 option" where
  "sp_gate k cfg f s =
     (let src = lpm_src (sf_family f = CALY_AF_INET) (sf_saddr f) in
      if \<not> sp_is_syn f \<and> \<not> sp_is_ack f then Some STAT_SYNPROXY_SKIPPED
      else if has_flag (cfg_flags cfg) CALY_F_MONITOR_ONLY \<or> cfg_mode cfg = FW_MODE_MONITOR_ONLY
        then Some STAT_SYNPROXY_SKIPPED
      else if caly_is_mgmt_tcp cfg (ntohs (sf_dport f)) then Some STAT_PASS_MGMT_PORT
      else if has_flag (cfg_flags cfg) CALY_F_ALLOWLIST \<and> sp_allowlisted k src s then Some STAT_PASS_ALLOWLIST
      else if (case dp_port_tcp s (ucast (ntohs (sf_dport f))) of None \<Rightarrow> False
               | Some pr \<Rightarrow> pr_mode pr = CALY_PORT_CLOSED \<and> \<not> has_flag (pr_flags pr) CALY_PORT_F_SYNPROXY)
        then Some STAT_SYNPROXY_SKIPPED
      else if has_flag (cfg_flags cfg) CALY_F_CONNTRACK \<and> sp_conn_known f s then Some STAT_PASS_CONNTRACK
      else None)"

definition sp_flow0 :: "bytes \<Rightarrow> u32 \<Rightarrow> sp_flow" where
  "sp_flow0 d ifindex = \<lparr>sf_saddr = Quad 0 0 0 0, sf_daddr = Quad 0 0 0 0, sf_ifindex = ifindex, sf_family = 0,
     sf_pkt_len = of_nat (length d), sf_tcp_flags = 0, sf_sport = 0, sf_dport = 0\<rparr>"

definition caly_xdp_synproxy :: "kern \<Rightarrow> sp_kern \<Rightarrow> u32 \<Rightarrow> bytes \<Rightarrow> dp_state \<Rightarrow> sp_result" where
  "caly_xdp_synproxy k spk ifindex d s =
     (let f = sp_flow0 d ifindex in
      case dp_config s of None \<Rightarrow> sp_return STAT_CONFIG_MISSING VERDICT_PASS f d s
      | Some cfg \<Rightarrow>
          if 14 > length d then sp_return STAT_DROP_ETH_TRUNC VERDICT_PASS f d s
          else do {
            h_proto \<leftarrow> ld16 d 12;
            r \<leftarrow> sp_vlan_loop d 0 h_proto 14;
            case r of Inl reason \<Rightarrow> sp_return reason VERDICT_PASS f d s
            | Inr (h_proto, nh_off) \<Rightarrow> do {
                r \<leftarrow> sp_l3 d h_proto nh_off f;
                case r of Inl reason \<Rightarrow> sp_return reason VERDICT_PASS f d s
                | Inr (f, l4_off) \<Rightarrow> do {
                    r \<leftarrow> sp_l4 d l4_off f;
                    case r of Inl reason \<Rightarrow> sp_return reason VERDICT_PASS f d s
                    | Inr (f, tcp_len) \<Rightarrow>
                        (case sp_gate k cfg f s of Some reason \<Rightarrow> sp_return reason VERDICT_PASS f d s
                         | None \<Rightarrow>
                             let ip = unat nh_off; th = unat l4_off in
                             if sp_is_syn f then
                               if sf_family f = CALY_AF_INET then sp_syn_v4 k spk cfg f d ip th tcp_len s
                               else sp_syn_v6 k spk cfg f d ip th tcp_len s
                             else if sf_family f = CALY_AF_INET then sp_ack_v4 k spk cfg f d ip th s
                             else sp_ack_v6 k spk cfg f d ip th s) } } })"


section \<open>Accounting: the guarantee of the chain\<close>

lemma sp_stat_eq: "sp_stat = caly_stat"
  by (intro ext) (simp add: sp_stat_def caly_stat_def)

lemma sp_gauge_eq: "sp_gauge = caly_gauge_add"
  by (intro ext) (simp add: sp_gauge_def caly_gauge_add_def)

lemma sp_event_kept [simp]:
  "totals (sp_event k spk cfg f r v x s) = totals s" "dp_config (sp_event k spk cfg f r v x s) = dp_config s"
  by (simp_all add: sp_event_def sp_stat_eq sp_gauge_eq Let_def)

lemma sp_conn_create_kept [simp]:
  "totals (sp_conn_create k f now s) = totals s" "dp_config (sp_conn_create k f now s) = dp_config s"
  by (simp_all add: sp_conn_create_def sp_stat_eq Let_def split: option.split)

lemma sp_finish_counted:
  assumes "reason = STAT_PKT_TOTAL \<or> 4 \<le> reason"
  shows "counted (fst (sp_finish reason v len s)) s (snd (sp_finish reason v len s)) \<and>
         dp_config (snd (sp_finish reason v len s)) = dp_config s"
proof -
  have "reason = 0 \<or> reason \<noteq> 0 \<and> reason \<noteq> 1 \<and> reason \<noteq> 2 \<and> reason \<noteq> 3"
    using assms by (auto simp: word_le_nat_alt)
  then show ?thesis
    by (cases v)
      (auto simp: sp_finish_def sp_stat_eq sp_gauge_eq Let_def counted_def totals_def bump_def stat_at)
qed

text \<open>A result of the program: it is defined, the packet is counted once, the configuration is kept, a
  frame that is sent back has the property \<open>Q\<close> and any other frame is left as it came.\<close>

definition sp_res :: "dp_state \<Rightarrow> bytes \<Rightarrow> bool \<Rightarrow> (bytes \<Rightarrow> bool) \<Rightarrow> sp_result \<Rightarrow> bool" where
  "sp_res s d strict Q r \<longleftrightarrow> (\<exists>a d' s'. r = Some (a, d', s') \<and> counted a s s' \<and> dp_config s' = dp_config s \<and>
     (strict \<longrightarrow> a = XDP_PASS) \<and> (if a = XDP_TX then Q d' else d' = d))"

lemma sp_return_res:
  assumes "reason = STAT_PKT_TOTAL \<or> 4 \<le> reason" "totals s1 = totals s" "dp_config s1 = dp_config s"
    and "strict \<Longrightarrow> v = VERDICT_PASS" "if v = VERDICT_TX then Q d1 else d1 = d"
  shows "sp_res s d strict Q (sp_return reason v f d1 s1)"
proof -
  have "counted (fst (sp_finish reason v (sf_pkt_len f) s1)) s (snd (sp_finish reason v (sf_pkt_len f) s1))"
    using sp_finish_counted [OF assms(1)] assms(2) counted_cong by blast
  moreover have "v = VERDICT_PASS \<Longrightarrow> fst (sp_finish reason v (sf_pkt_len f) s1) = XDP_PASS"
    "fst (sp_finish reason v (sf_pkt_len f) s1) = XDP_TX \<longleftrightarrow> v = VERDICT_TX"
    by (cases v; simp add: sp_finish_def Let_def)+
  ultimately show ?thesis
    using sp_finish_counted [OF assms(1)] assms(3-5)
    by (auto simp: sp_res_def sp_return_def split_beta)
qed

section \<open>Sums over the frame\<close>

lemma unat_add_ucast16:
  assumes "unat (a :: u32) + unat (x :: u16) < 2 ^ 32"
  shows "unat (a + ucast x) = unat a + unat x"
  using assms by (simp add: unat_word_ariths(1) unat_widen16)

lemma word_at_less: "word_at d start j < 65536"
  using unat_u16_less by (simp add: word_at_def)

lemma sp_words_sum:
  assumes "w + 2 * n \<le> length d" "unat acc + 65536 * (n - i) < 2 ^ 32" "i \<le> n"
  shows "\<exists>a. sp_words d w n i acc = Some a \<and> unat a = unat acc + (\<Sum>j = i..<n. word_at d w j)"
  using assms
proof (induction d w n i acc rule: sp_words.induct)
  case (1 d w n i acc)
  show ?case
  proof (cases "i < n")
    case True
    let ?x = "le16 (d ! (w + 2 * i)) (d ! (w + 2 * i + 1))"
    have ld: "ld16 d (w + 2 * i) = Some ?x" using True "1.prems"(1) by (intro ld16_inside) simp
    have x: "unat ?x < 65536" by (rule unat_u16_less)
    have n: "n - i = Suc (n - (i + 1))" using True by simp
    have u: "unat (acc + ucast ?x) = unat acc + unat ?x"
      using "1.prems"(2) x n by (intro unat_add_ucast16) simp
    have "unat (acc + ucast ?x) + 65536 * (n - (i + 1)) < 2 ^ 32"
      using "1.prems"(2) x unfolding u n by simp
    then obtain a where "sp_words d w n (i + 1) (acc + ucast ?x) = Some a"
        "unat a = unat (acc + ucast ?x) + (\<Sum>j = i + 1..<n. word_at d w j)"
      using "1.IH" [OF True ld] "1.prems"(1) True by auto
    with True ld u show ?thesis
      by (subst sp_words.simps) (simp add: sum.atLeast_Suc_lessThan word_at_def)
  next
    case False
    with "1.prems"(3) show ?thesis by (subst sp_words.simps) simp
  qed
qed

lemma sp_words_all:
  assumes "w + 2 * n \<le> length d" "n \<le> 1000"
  shows "\<exists>a. sp_words d w n 0 0 = Some a \<and> unat a = all_words d w n"
  using sp_words_sum [of w n d 0 0] assms by (simp add: all_words_def lessThan_atLeast0)

lemma sp_tcp_loop_sum:
  assumes "th + unat tcp_len \<le> length d" "unat tcp_len \<le> 60" "unat tcp_len = 2 * n" "i \<le> n"
    and "unat acc + 65536 * (n - i) < 2 ^ 32"
  shows "\<exists>a. sp_tcp_loop d th tcp_len i acc = Some (Some a) \<and> unat a = unat acc + (\<Sum>j = i..<n. word_at d th j)"
  using assms
proof (induction d th tcp_len i acc rule: sp_tcp_loop.induct)
  case (1 d th tcp_len i acc)
  have "n \<le> 30" using "1.prems"(2,3) by simp
  then have i: "unat (of_nat (i * 2) :: u32) = 2 * i"
    using "1.prems"(4) by (simp only: unsigned_of_nat mult.commute [of i 2]) (simp add: take_bit_nat_eq_self_iff)
  have stop: "of_nat (i * 2) \<ge> tcp_len \<longleftrightarrow> n \<le> i"
    using "1.prems"(3) by (simp only: word_le_nat_alt i) linarith
  show ?case
  proof (cases "i < n")
    case True
    let ?x = "le16 (d ! (th + i * 2)) (d ! (th + i * 2 + 1))"
    have ld: "ld16 d (th + i * 2) = Some ?x" using True "1.prems"(1,3) by (intro ld16_inside) simp
    have x: "unat ?x < 65536" by (rule unat_u16_less)
    have n: "n - i = Suc (n - (i + 1))" using True by simp
    have u: "unat (acc + ucast ?x) = unat acc + unat ?x"
      using "1.prems"(5) x n by (intro unat_add_ucast16) simp
    have "unat (acc + ucast ?x) + 65536 * (n - (i + 1)) < 2 ^ 32"
      using "1.prems"(5) x unfolding u n by simp
    moreover have "i < SP_TCP_MAX_WORDS" "\<not> of_nat (i * 2) \<ge> tcp_len" "\<not> th + i * 2 + 2 > length d"
      using True \<open>n \<le> 30\<close> stop "1.prems"(1,3) by auto
    moreover note "1.IH" [OF this ld]
    ultimately obtain a where "sp_tcp_loop d th tcp_len (i + 1) (acc + ucast ?x) = Some (Some a)"
        "unat a = unat (acc + ucast ?x) + (\<Sum>j = i + 1..<n. word_at d th j)"
      using "1.prems" True by auto
    with True ld u \<open>i < SP_TCP_MAX_WORDS\<close> \<open>\<not> of_nat (i * 2) \<ge> tcp_len\<close> \<open>\<not> th + i * 2 + 2 > length d\<close>
    show ?thesis
      by (subst sp_tcp_loop.simps) (simp add: sum.atLeast_Suc_lessThan word_at_def mult.commute)
  next
    case False
    with "1.prems"(4) stop show ?thesis by (subst sp_tcp_loop.simps) simp
  qed
qed

section \<open>The checksum stores\<close>

lemma sp_csum_fold_eq: "sp_csum_fold = caly_csum_fold"
  by (intro ext) (simp add: sp_csum_fold_def caly_csum_fold_def)

lemma all_words_split:
  "i < n \<Longrightarrow> all_words d start n = words_sum d start (2 * i) 0 n + word_at d start i"
proof -
  assume i: "i < n"
  have "all_words d start n = (\<Sum>j < n. (if j = i then word_at d start i else 0) + (if 2 * j = 2 * i then 0 else word_at d start j))"
    unfolding all_words_def by (rule sum.cong) auto
  also have "\<dots> = word_at d start i + words_sum d start (2 * i) 0 n"
    using i by (simp add: sum.distrib words_sum_def lessThan_atLeast0)
  finally show ?thesis by simp
qed

lemma all_words_cong:
  "(\<And>j. start \<le> j \<Longrightarrow> j < start + 2 * n \<Longrightarrow> d' ! j = d ! j) \<Longrightarrow> all_words d' start n = all_words d start n"
  unfolding all_words_def by (rule sum.cong) (simp_all add: word_at_def)

lemma all_words_le: "all_words d start n \<le> 65536 * n"
  using sum_bounded_above [of "{..<n}" "word_at d start" 65536] word_at_less [of d start]
  by (simp add: all_words_def less_imp_le)

text \<open>Summing with a cleared field and storing the folded sum there makes the words, with whatever
  was summed before, a multiple of 65535.\<close>

lemma checksum_store:
  fixes acc :: u32
  assumes "start + 2 * i + 2 \<le> length d" "i < n"
    and d0: "d0 = d[start + 2 * i := 0, start + 2 * i + 1 := 0]"
    and acc: "unat acc = m + all_words d0 start n"
    and c: "c = sp_csum_fold acc"
  shows "\<exists>d'. st16 d0 (start + 2 * i) c = Some d' \<and> (m + all_words d' start n) mod 65535 = 0 \<and>
     length d' = length d \<and> (\<forall>j. j \<noteq> start + 2 * i \<and> j \<noteq> start + 2 * i + 1 \<longrightarrow> d' ! j = d ! j)"
proof -
  let ?d = "d0[start + 2 * i := ucast c, start + 2 * i + 1 := ucast (drop_bit 8 c)]"
  have l: "length d0 = length d" by (simp add: d0)
  have "d0 ! (start + 2 * i) = 0" "d0 ! (start + 2 * i + 1) = 0"
    using assms(1) by (simp_all add: d0 nth_list_update)
  then have "word_at d0 start i = 0" by (simp add: word_at_def le16_def)
  then have all: "all_words d0 start n = words_sum d0 start (2 * i) 0 n"
    using all_words_split [OF assms(2), of d0 start] by simp
  have "all_words ?d start n = words_sum d0 start (2 * i) 0 n + unat c"
    using assms(1,2) l by (intro all_words_store) simp_all
  then have "m + all_words ?d start n = unat acc + unat c" using acc all by simp
  moreover have "acc_of acc (unat acc)" by (simp add: acc_of_def unsigned_eq_0_iff)
  then have "c = csum_of (unat acc)" by (simp add: c sp_csum_fold_eq fold_acc)
  ultimately have "(m + all_words ?d start n) mod 65535 = 0"
    using csum_of_valid [of "unat acc"] by (simp add: csum_valid_def)
  moreover have "st16 d0 (start + 2 * i) c = Some ?d"
    using assms(1) l by (intro st16_inside) simp
  ultimately show ?thesis
    by (intro exI [of _ ?d]) (simp add: d0)
qed

definition changed_in :: "nat \<Rightarrow> nat \<Rightarrow> bytes \<Rightarrow> bytes \<Rightarrow> bool" where
  "changed_in a b d d' \<longleftrightarrow> length d' = length d \<and> (\<forall>j. j < a \<or> b \<le> j \<longrightarrow> d' ! j = d ! j)"

lemma sp_ip4_csum_ok:
  assumes "iph + 20 \<le> length d"
  shows "\<exists>d'. sp_ip4_csum d iph = Some d' \<and> all_words d' iph 10 mod 65535 = 0 \<and> changed_in (iph + 10) (iph + 12) d d'"
proof -
  let ?d0 = "d[iph + 2 * 5 := 0, iph + 2 * 5 + 1 := 0]"
  have st: "st16 d (iph + 10) 0 = Some ?d0" using assms by (subst st16_inside) simp_all
  obtain a where a: "sp_words ?d0 iph 10 0 0 = Some a" "unat a = all_words ?d0 iph 10"
    using sp_words_all [of iph 10 ?d0] assms by auto
  obtain d' where d': "st16 ?d0 (iph + 2 * 5) (sp_csum_fold a) = Some d'" "(0 + all_words d' iph 10) mod 65535 = 0"
    "length d' = length d" "\<forall>j. j \<noteq> iph + 2 * 5 \<and> j \<noteq> iph + 2 * 5 + 1 \<longrightarrow> d' ! j = d ! j"
    using checksum_store [OF _ _ refl, of iph 5 d 10 a 0] assms a(2) by auto
  have "sp_ip4_csum d iph = Some d'"
    using st a(1) d'(1) by (simp add: sp_ip4_csum_def)
  moreover have "changed_in (iph + 10) (iph + 12) d d'"
    using d'(3,4) by (auto simp: changed_in_def)
  ultimately show ?thesis using d'(2) by simp
qed

lemma sp_tcp_csum_ok:
  assumes "th + unat tcp_len \<le> length d" "20 \<le> unat tcp_len" "unat tcp_len \<le> 60" "even (unat tcp_len)"
    and "unat psum \<le> 2 ^ 30"
  shows "\<exists>d'. sp_tcp_csum d th tcp_len psum = Some (True, d') \<and>
     (unat psum + all_words d' th (unat tcp_len div 2)) mod 65535 = 0 \<and> changed_in (th + 16) (th + 18) d d'"
proof -
  let ?d0 = "d[th + 2 * 8 := 0, th + 2 * 8 + 1 := 0]" and ?n = "unat tcp_len div 2"
  have st: "st16 d (th + 16) 0 = Some ?d0" using assms(1,2) by (subst st16_inside) simp_all
  have n: "8 < ?n" "?n \<le> 30" using assms(2,3) by linarith+
  then have "unat psum + 65536 * (?n - 0) < 2 ^ 32" using assms(5) by simp
  then obtain a where a: "sp_tcp_loop ?d0 th tcp_len 0 psum = Some (Some a)" "unat a = unat psum + all_words ?d0 th ?n"
    using sp_tcp_loop_sum [of th tcp_len ?d0 ?n 0 psum] assms by (auto simp: all_words_def lessThan_atLeast0)
  obtain d' where d': "st16 ?d0 (th + 2 * 8) (sp_csum_fold a) = Some d'" "(unat psum + all_words d' th ?n) mod 65535 = 0"
    "length d' = length d" "\<forall>j. j \<noteq> th + 2 * 8 \<and> j \<noteq> th + 2 * 8 + 1 \<longrightarrow> d' ! j = d ! j"
    using checksum_store [OF _ _ refl a(2) refl] assms(1,2) n by auto
  have "sp_tcp_csum d th tcp_len psum = Some (True, d')"
    using st a(1) d'(1) by (simp add: sp_tcp_csum_def)
  moreover have "changed_in (th + 16) (th + 18) d d'"
    using d'(3,4) by (auto simp: changed_in_def)
  ultimately show ?thesis using d'(2) by simp
qed

section \<open>The rewritten frame\<close>

lemma changed_in_refl: "changed_in a b d d"
  by (simp add: changed_in_def)

lemma changed_in_trans: "changed_in a b d d1 \<Longrightarrow> changed_in a b d1 d2 \<Longrightarrow> changed_in a b d d2"
  by (simp add: changed_in_def)

lemma changed_in_update: "a \<le> i \<Longrightarrow> i < b \<Longrightarrow> changed_in a b d (d[i := x])"
  by (auto simp: changed_in_def)

lemma st_bytes_nth:
  assumes "i + length b \<le> length d"
  shows "st_bytes d i b = Some (take i d @ b @ drop (i + length b) d)"
    and "length (take i d @ b @ drop (i + length b) d) = length d"
    and "(take i d @ b @ drop (i + length b) d) ! j = (if i \<le> j \<and> j < i + length b then b ! (j - i) else d ! j)"
  using assms by (auto simp: st_bytes_def nth_append)

lemma sp_swap_mac_ok:
  assumes "12 \<le> length d"
  shows "\<exists>d'. sp_swap_mac d = Some d' \<and> changed_in 0 12 d d' \<and> (\<forall>j < 6. d' ! j = d ! (j + 6) \<and> d' ! (j + 6) = d ! j)"
proof -
  define a where "a = take 6 d"
  define b where "b = take 6 (drop 6 d)"
  have l: "length a = 6" "length b = 6" using assms by (simp_all add: a_def b_def)
  have n: "j < 6 \<Longrightarrow> a ! j = d ! j" "j < 6 \<Longrightarrow> b ! j = d ! (j + 6)" for j
    using assms by (simp_all add: a_def b_def add.commute)
  define d1 where "d1 = take 0 d @ b @ drop (0 + length b) d"
  define d2 where "d2 = take 6 d1 @ a @ drop (6 + length a) d1"
  have s1: "st_bytes d 0 b = Some d1" "length d1 = length d" "d1 ! j = (if j < 6 then b ! j else d ! j)" for j
    using st_bytes_nth [of 0 b d] assms l unfolding d1_def by auto
  have s2: "st_bytes d1 6 a = Some d2" "length d2 = length d" "d2 ! j = (if 6 \<le> j \<and> j < 12 then a ! (j - 6) else d1 ! j)" for j
    using st_bytes_nth [of 6 a d1] assms l s1(2) unfolding d2_def by auto
  have "sp_swap_mac d = Some d2"
    using assms s1(1) s2(1) by (simp add: sp_swap_mac_def ld_bytes_def a_def b_def)
  moreover have "changed_in 0 12 d d2"
    using s2(2) by (simp add: changed_in_def s2(3) s1(3))
  moreover have "\<forall>j < 6. d2 ! j = d ! (j + 6) \<and> d2 ! (j + 6) = d ! j"
    using n by (simp add: s2(3) s1(3))
  ultimately show ?thesis by blast
qed

lemma sp_nop_loop_ok:
  assumes "i < SP_TCP_MAX_OPT \<Longrightarrow> a \<le> opt + i"
  shows "\<exists>d'. sp_nop_loop d opt optlen i = Some d' \<and> changed_in a (opt + unat optlen) d d'"
  using assms
proof (induction d opt optlen i rule: sp_nop_loop.induct)
  case (1 d opt optlen i)
  show ?case
  proof (cases "i < SP_TCP_MAX_OPT \<and> \<not> of_nat i \<ge> optlen \<and> \<not> opt + i + 1 > length d")
    case True
    then have "unat (of_nat i :: u32) = i"
      by (simp only: unsigned_of_nat) (simp add: take_bit_nat_eq_self_iff)
    with True have i: "i < unat optlen" by (simp add: word_le_nat_alt not_le)
    have st: "st8 d (opt + i) 1 = Some (d[opt + i := 1])" using True by (simp add: st8_def)
    obtain d' where "sp_nop_loop (d[opt + i := 1]) opt optlen (i + 1) = Some d'"
      "changed_in a (opt + unat optlen) (d[opt + i := 1]) d'"
      using "1.IH" [OF _ _ _ st] "1.prems" True by force
    moreover have "changed_in a (opt + unat optlen) d (d[opt + i := 1])"
      using "1.prems" True i by (intro changed_in_update) auto
    ultimately show ?thesis
      using True st by (subst sp_nop_loop.simps) (auto intro: changed_in_trans)
  next
    case False
    then show ?thesis by (subst sp_nop_loop.simps) (auto intro: changed_in_refl)
  qed
qed

lemma sp_write_mss_ok: "\<exists>d'. sp_write_mss d opt optlen mss = Some d' \<and> changed_in opt (opt + unat optlen) d d'"
proof (cases "optlen < 4 \<or> opt + 4 > length d")
  case True
  then show ?thesis by (auto simp: sp_write_mss_def changed_in_refl)
next
  case False
  let ?d = "d[opt := 2, opt + 1 := 4, opt + 2 := ucast (drop_bit 8 mss), opt + 3 := ucast (mss AND 0xFF)]"
  have l: "4 \<le> unat optlen" using False by (simp add: word_less_nat_alt not_less)
  obtain d' where "sp_nop_loop ?d opt optlen 4 = Some d'" "changed_in opt (opt + unat optlen) ?d d'"
    using sp_nop_loop_ok [of 4 opt opt ?d optlen] by auto
  moreover have "changed_in opt (opt + unat optlen) d ?d"
    using l by (auto simp: changed_in_def)
  moreover have "sp_write_mss d opt optlen mss = sp_nop_loop ?d opt optlen 4"
    using False by (simp add: sp_write_mss_def st8_def)
  ultimately show ?thesis by (auto intro: changed_in_trans)
qed

text \<open>The bytes of the SYN-ACK's TCP header.\<close>

definition synack_tcp :: "u32 \<Rightarrow> nat \<Rightarrow> bytes \<Rightarrow> bytes \<Rightarrow> bool" where
  "synack_tcp cookie th d d' \<longleftrightarrow>
     ld16 d' th = ld16 d (th + 2) \<and> ld16 d' (th + 2) = ld16 d th \<and>
     ld32 d' (th + 4) = Some (ntohl cookie) \<and>
     ld32 d' (th + 8) = map_option (\<lambda>q. ntohl (ntohl q + 1)) (ld32 d (th + 4)) \<and>
     ld8 d' (th + 12) = ld8 d (th + 12) \<and> ld8 d' (th + 13) = Some (CALY_TCP_SYN OR CALY_TCP_ACK)"

lemma ld_cong:
  "length d' = length d \<Longrightarrow> d' ! i = d ! i \<Longrightarrow> ld8 d' i = ld8 d i"
  "length d' = length d \<Longrightarrow> d' ! i = d ! i \<Longrightarrow> d' ! (i + 1) = d ! (i + 1) \<Longrightarrow> ld16 d' i = ld16 d i"
  "length d' = length d \<Longrightarrow> (\<And>j. i \<le> j \<Longrightarrow> j < i + 4 \<Longrightarrow> d' ! j = d ! j) \<Longrightarrow> ld32 d' i = ld32 d i"
  by (simp_all add: ld8_def ld16_def ld32_def)

lemma synack_tcp_cong:
  assumes "synack_tcp cookie th d d1" "length d2 = length d1"
    and "\<And>j. th \<le> j \<Longrightarrow> j < th + 14 \<Longrightarrow> d2 ! j = d1 ! j"
  shows "synack_tcp cookie th d d2"
proof -
  have "ld16 d2 th = ld16 d1 th" "ld16 d2 (th + 2) = ld16 d1 (th + 2)" "ld32 d2 (th + 4) = ld32 d1 (th + 4)"
    "ld32 d2 (th + 8) = ld32 d1 (th + 8)" "ld8 d2 (th + 12) = ld8 d1 (th + 12)" "ld8 d2 (th + 13) = ld8 d1 (th + 13)"
    by (intro ld_cong assms; simp add: assms)+
  with assms(1) show ?thesis by (simp add: synack_tcp_def)
qed

lemma sp_make_synack_tcp_ok:
  assumes "th + unat tcp_len \<le> length d" "20 \<le> unat tcp_len" "ld32 d (th + 4) = Some seq"
  shows "\<exists>d'. sp_make_synack_tcp d th tcp_len cookie (ntohl seq) mss = Some d' \<and>
     synack_tcp cookie th d d' \<and> changed_in th (th + unat tcp_len) d d'"
proof -
  have l: "th + 20 \<le> length d" using assms(1,2) by simp
  obtain p q where ld: "ld16 d th = Some p" "ld16 d (th + 2) = Some q"
    using ld16_inside [of th d] ld16_inside [of "th + 2" d] l by simp
  define d1 where "d1 = d[th := ucast q, th + 1 := ucast (drop_bit 8 q), th + 2 := ucast p, th + 2 + 1 := ucast (drop_bit 8 p)]"
  define a where "a = ntohl cookie"
  define b where "b = ntohl (ntohl seq + 1)"
  define d2 where "d2 = d1[th + 4 := ucast a, th + 4 + 1 := ucast (drop_bit 8 a), th + 4 + 2 := ucast (drop_bit 16 a),
     th + 4 + 3 := ucast (drop_bit 24 a), th + 8 := ucast b, th + 8 + 1 := ucast (drop_bit 8 b),
     th + 8 + 2 := ucast (drop_bit 16 b), th + 8 + 3 := ucast (drop_bit 24 b)]"
  define d3 where "d3 = d2[th + 14 := ucast (ntohs SP_SYNACK_WINDOW), th + 14 + 1 := ucast (drop_bit 8 (ntohs SP_SYNACK_WINDOW)),
     th + 18 := 0, th + 18 + 1 := 0, th + 13 := (CALY_TCP_SYN OR CALY_TCP_ACK)]"
  have len: "length d1 = length d" "length d2 = length d" "length d3 = length d"
    by (simp_all add: d1_def d2_def d3_def)
  have 1: "st16 d th q = Some (d[th := ucast q, th + 1 := ucast (drop_bit 8 q)])"
    "st16 (d[th := ucast q, th + 1 := ucast (drop_bit 8 q)]) (th + 2) p = Some d1"
    using l by (simp_all add: st16_inside d1_def)
  have 2: "\<exists>x. st32 d1 (th + 4) a = Some x \<and> st32 x (th + 8) b = Some d2"
    using l len by (simp add: st32_inside d2_def)
  have 3: "\<exists>x y. st16 d2 (th + 14) (ntohs SP_SYNACK_WINDOW) = Some x \<and> st16 x (th + 18) 0 = Some y \<and>
      st8 y (th + 13) (CALY_TCP_SYN OR CALY_TCP_ACK) = Some d3"
    using l len by (simp add: st16_inside st8_def d3_def)
  obtain d' where d': "sp_write_mss d3 (th + 20) (tcp_len - 20) mss = Some d'"
    "changed_in (th + 20) (th + 20 + unat (tcp_len - 20)) d3 d'"
    using sp_write_mss_ok by blast
  have "unat (tcp_len - 20) = unat tcp_len - 20"
    using assms(2) by (subst unat_sub) (simp_all add: word_le_nat_alt)
  with assms(2) d'(2) have c': "changed_in (th + 20) (th + unat tcp_len) d3 d'" by simp
  have r: "sp_make_synack_tcp d th tcp_len cookie (ntohl seq) mss = Some d'"
    using 1 2 3 d'(1) unfolding sp_make_synack_tcp_def ld a_def b_def by auto
  have c3: "changed_in th (th + unat tcp_len) d d3"
    using assms(2) by (auto simp: changed_in_def d3_def d2_def d1_def)
  have nth3: "d3 ! th = ucast q" "d3 ! (th + 1) = ucast (drop_bit 8 q)" "d3 ! (th + 2) = ucast p" "d3 ! (th + 2 + 1) = ucast (drop_bit 8 p)"
    "d3 ! (th + 4) = ucast a" "d3 ! (th + 4 + 1) = ucast (drop_bit 8 a)" "d3 ! (th + 4 + 2) = ucast (drop_bit 16 a)" "d3 ! (th + 4 + 3) = ucast (drop_bit 24 a)"
    "d3 ! (th + 8) = ucast b" "d3 ! (th + 8 + 1) = ucast (drop_bit 8 b)" "d3 ! (th + 8 + 2) = ucast (drop_bit 16 b)" "d3 ! (th + 8 + 3) = ucast (drop_bit 24 b)"
    "d3 ! (th + 12) = d ! (th + 12)" "d3 ! (th + 13) = CALY_TCP_SYN OR CALY_TCP_ACK"
    using l by (simp_all add: d3_def d2_def d1_def nth_list_update del: or_numerals)
  have loads: "ld16 d3 th = Some q" "ld16 d3 (th + 2) = Some p" "ld32 d3 (th + 4) = Some a" "ld32 d3 (th + 8) = Some b"
    "ld8 d3 (th + 12) = ld8 d (th + 12)" "ld8 d3 (th + 13) = Some (CALY_TCP_SYN OR CALY_TCP_ACK)"
    using l len(3) nth3(13,14) ld16_inside [of th d3] ld16_inside [of "th + 2" d3] ld32_inside [of "th + 4" d3]
      ld32_inside [of "th + 8" d3]
    unfolding nth3(1-12) le16_bytes le32_bytes by (simp_all add: ld8_def)
  have "synack_tcp cookie th d d3"
    unfolding synack_tcp_def
    by (simp only: loads ld assms(3) option.map b_def a_def simp_thms)
  moreover have "changed_in th (th + unat tcp_len) d d'"
    using c3 c' by (auto simp: changed_in_def)
  ultimately show ?thesis
    using r synack_tcp_cong [of cookie th d d3 d'] c' len(3) by (auto simp: changed_in_def)
qed

section \<open>A SYN is answered with a well-formed SYN-ACK\<close>

text \<open>The reply: the MAC addresses swapped, the IP addresses at \<open>adr\<close> of \<open>alen\<close> bytes each swapped,
  the TCP header a SYN-ACK for the client's sequence number, and a valid TCP checksum over the
  header of \<open>n\<close> bytes with its pseudo header.\<close>

definition synack_frame :: "u32 \<Rightarrow> nat \<Rightarrow> nat \<Rightarrow> nat \<Rightarrow> u32 \<Rightarrow> bytes \<Rightarrow> bytes \<Rightarrow> bool" where
  "synack_frame cookie adr alen th tcp_len d d' \<longleftrightarrow>
     length d' = length d \<and> (\<forall>j < 6. d' ! j = d ! (j + 6) \<and> d' ! (j + 6) = d ! j) \<and>
     (\<forall>j < alen. d' ! (adr + j) = d ! (adr + alen + j) \<and> d' ! (adr + alen + j) = d ! (adr + j)) \<and>
     synack_tcp cookie th d d' \<and>
     (all_words d' adr alen + unat (ntohs CALY_IPPROTO_TCP) + unat (ntohs (ucast tcp_len)) +
        all_words d' th (unat tcp_len div 2)) mod 65535 = 0"

lemma synack_tcp_src:
  assumes "synack_tcp cookie th d1 d2" "length d1 = length d"
    and "\<And>j. th \<le> j \<Longrightarrow> j < th + 14 \<Longrightarrow> d1 ! j = d ! j"
  shows "synack_tcp cookie th d d2"
proof -
  have "ld16 d1 th = ld16 d th" "ld16 d1 (th + 2) = ld16 d (th + 2)" "ld32 d1 (th + 4) = ld32 d (th + 4)"
    "ld8 d1 (th + 12) = ld8 d (th + 12)"
    by (intro ld_cong assms; simp add: assms)+
  with assms(1) show ?thesis by (simp add: synack_tcp_def)
qed

text \<open>The part the two families share: from the frame with its addresses swapped to the reply.\<close>

lemma synack_tail:
  assumes len: "length d3 = length d" "th + unat tcp_len \<le> length d" "20 \<le> unat tcp_len" "unat tcp_len \<le> 60"
      "even (unat tcp_len)"
    and adr: "12 \<le> adr" "adr + 2 * alen \<le> th" "alen \<le> 16"
    and mac: "\<And>j. j < 6 \<Longrightarrow> d3 ! j = d ! (j + 6) \<and> d3 ! (j + 6) = d ! j"
    and swp: "\<And>j. j < alen \<Longrightarrow> d3 ! (adr + j) = d ! (adr + alen + j) \<and> d3 ! (adr + alen + j) = d ! (adr + j)"
    and tcp: "\<And>j. th \<le> j \<Longrightarrow> d3 ! j = d ! j"
    and seq: "ld32 d (th + 4) = Some seq"
    and strict: "\<not> strict" and s1: "totals s1 = totals s" "dp_config s1 = dp_config s"
    and Q: "\<And>d'. synack_frame cookie adr alen th tcp_len d d' \<Longrightarrow> changed_in th (th + unat tcp_len) d3 d' \<Longrightarrow> Q d'"
  shows "\<exists>d4 p. sp_make_synack_tcp d3 th tcp_len cookie (ntohl seq) mss = Some d4 \<and> sp_words d4 adr alen 0 0 = Some p \<and>
     sp_res s d strict Q (sp_send k spk cfg f d4 th tcp_len
       (p + ucast (ntohs CALY_IPPROTO_TCP) + ucast (ntohs (ucast tcp_len))) cookie s1)"
proof -
  have seq3: "ld32 d3 (th + 4) = Some seq"
    using ld_cong(3) [of d3 d "th + 4"] seq tcp len(1) by simp
  obtain d4 where d4: "sp_make_synack_tcp d3 th tcp_len cookie (ntohl seq) mss = Some d4"
    "synack_tcp cookie th d3 d4" "changed_in th (th + unat tcp_len) d3 d4"
    using sp_make_synack_tcp_ok [OF _ len(3) seq3, of cookie mss] len(1,2) by auto
  have l4: "length d4 = length d" using d4(3) len(1) by (simp add: changed_in_def)
  obtain p where p: "sp_words d4 adr alen 0 0 = Some p" "unat p = all_words d4 adr alen"
    using sp_words_all [of adr alen d4] adr len(2) l4 by auto
  let ?ps = "p + ucast (ntohs CALY_IPPROTO_TCP) + ucast (ntohs (ucast tcp_len)) :: u32"
  have "65536 * alen \<le> 65536 * 16" using adr(3) by (rule mult_le_mono2)
  then have small: "unat p \<le> 65536 * 16" using all_words_le [of d4 adr alen] p(2) by simp
  have c: "unat (ntohs (CALY_IPPROTO_TCP :: u16)) < 65536" "unat (ntohs (ucast tcp_len)) < 65536"
    by (rule unat_u16_less)+
  have u1: "unat (p + ucast (ntohs CALY_IPPROTO_TCP)) = unat p + unat (ntohs (CALY_IPPROTO_TCP :: u16))"
    using small c(1) by (intro unat_add_ucast16) simp
  have u2: "unat ?ps = unat p + unat (ntohs (CALY_IPPROTO_TCP :: u16)) + unat (ntohs (ucast tcp_len))"
    using small c u1 by (subst unat_add_ucast16) simp_all
  obtain d5 where d5: "sp_tcp_csum d4 th tcp_len ?ps = Some (True, d5)"
    "(unat ?ps + all_words d5 th (unat tcp_len div 2)) mod 65535 = 0" "changed_in (th + 16) (th + 18) d4 d5"
    using sp_tcp_csum_ok [of th tcp_len d4 ?ps] l4 len(2-5) small c u2 by auto
  have d53: "changed_in th (th + unat tcp_len) d3 d5"
    using d4(3) d5(3) len(3) by (auto simp: changed_in_def)
  have low: "j < th \<Longrightarrow> d5 ! j = d3 ! j" for j using d53 by (simp add: changed_in_def)
  have "all_words d4 adr alen = all_words d5 adr alen"
    using d5(3) adr(2) by (intro all_words_cong) (simp add: changed_in_def)
  then have ck: "(all_words d5 adr alen + unat (ntohs (CALY_IPPROTO_TCP :: u16)) + unat (ntohs (ucast tcp_len)) +
        all_words d5 th (unat tcp_len div 2)) mod 65535 = 0"
    using d5(2) u2 p(2) by simp
  have "synack_tcp cookie th d d5"
    using synack_tcp_cong [OF synack_tcp_src [OF d4(2) len(1)], of d5] tcp d5(3) by (simp add: changed_in_def)
  then have "synack_frame cookie adr alen th tcp_len d d5"
    unfolding synack_frame_def using ck d53 len(1) low mac swp adr by (simp add: changed_in_def)
  then have "Q d5" using Q d53 by blast
  then have "sp_res s d strict Q (sp_send k spk cfg f d4 th tcp_len ?ps cookie s1)"
    unfolding sp_send_def d5(1) using s1 strict by (auto simp: sp_stat_eq intro!: sp_return_res)
  with d4(1) p(1) show ?thesis by blast
qed

lemma le32_sel:
  "ucast (le32 a b c d) = a" "ucast (drop_bit 8 (le32 a b c d)) = b" "ucast (drop_bit 16 (le32 a b c d)) = c"
  "ucast (drop_bit 24 (le32 a b c d)) = d"
proof -
  have z: "\<not> bit w (n + 8)" "\<not> bit w (n + 16)" "\<not> bit w (n + 24)" for w :: u8 and n
    by (auto dest: bit_imp_le_length)
  show "ucast (le32 a b c d) = a" "ucast (drop_bit 8 (le32 a b c d)) = b" "ucast (drop_bit 16 (le32 a b c d)) = c"
    "ucast (drop_bit 24 (le32 a b c d)) = d"
    unfolding le32_def
    by (auto intro!: bit_word_eqI simp: bit_simps z add.commute dest: bit_imp_le_length)
qed

lemma st32_ok:
  assumes "i + 4 \<le> length d"
  shows "\<exists>d'. st32 d i w = Some d' \<and> changed_in i (i + 4) d d' \<and> ld32 d' i = Some w"
proof -
  let ?d = "d[i := ucast w, i + 1 := ucast (drop_bit 8 w), i + 2 := ucast (drop_bit 16 w), i + 3 := ucast (drop_bit 24 w)]"
  have "ld32 ?d i = Some (le32 (?d ! i) (?d ! (i + 1)) (?d ! (i + 2)) (?d ! (i + 3)))"
    using assms by (intro ld32_inside) simp
  also have "\<dots> = Some w"
    using assms le32_bytes [of w] by (simp add: nth_list_update)
  finally have "ld32 ?d i = Some w" .
  moreover have "changed_in i (i + 4) d ?d" by (auto simp: changed_in_def)
  ultimately show ?thesis using assms by (auto simp: st32_inside)
qed

lemma st16_ok: "i + 2 \<le> length d \<Longrightarrow> \<exists>d'. st16 d i w = Some d' \<and> changed_in i (i + 2) d d'"
  by (auto simp: st16_inside changed_in_def)

lemma ld32_bytes:
  assumes "ld32 d' i = ld32 d j" "ld32 d j = Some w" "k < 4"
  shows "d' ! (i + k) = d ! (j + k)"
proof -
  have b: "le32 (d' ! i) (d' ! (i + 1)) (d' ! (i + 2)) (d' ! (i + 3)) = le32 (d ! j) (d ! (j + 1)) (d ! (j + 2)) (d ! (j + 3))"
    using assms(1,2) by (auto simp: ld32_def ld8_def split: bind_splits if_splits)
  have "d' ! i = d ! j" "d' ! (i + 1) = d ! (j + 1)" "d' ! (i + 2) = d ! (j + 2)" "d' ! (i + 3) = d ! (j + 3)"
    using le32_sel [of "d' ! i" "d' ! (i + 1)" "d' ! (i + 2)" "d' ! (i + 3)"]
      le32_sel [of "d ! j" "d ! (j + 1)" "d ! (j + 2)" "d ! (j + 3)"] unfolding b by metis+
  moreover have "k = 0 \<or> k = 1 \<or> k = 2 \<or> k = 3" using assms(3) by auto
  ultimately show ?thesis by auto
qed

lemma changed_inD: "changed_in a b d d' \<Longrightarrow> j < a \<or> b \<le> j \<Longrightarrow> d' ! j = d ! j"
  by (auto simp: changed_in_def)

lemma changed_in_len: "changed_in a b d d' \<Longrightarrow> length d' = length d"
  by (simp add: changed_in_def)

lemma changed_in_ld32: "changed_in a b d d' \<Longrightarrow> i + 4 \<le> a \<or> b \<le> i \<Longrightarrow> ld32 d' i = ld32 d i"
  by (rule ld_cong) (auto simp: changed_in_def)

text \<open>Rewriting the IPv4 header in place.\<close>

lemma ip4_rewrite:
  assumes "ip + 20 \<le> length d"
  shows "\<exists>sa da x1 x2 x3 x4 x5 d'. ld32 d (ip + 12) = Some sa \<and> ld32 d (ip + 16) = Some da \<and>
     st32 d (ip + 12) da = Some x1 \<and> st32 x1 (ip + 16) sa = Some x2 \<and> st8 x2 (ip + 8) SP_SYNACK_TTL = Some x3 \<and>
     st16 x3 (ip + 4) 0 = Some x4 \<and> st16 x4 (ip + 6) (ntohs SP_IP4_DF) = Some x5 \<and> sp_ip4_csum x5 ip = Some d' \<and>
     changed_in ip (ip + 20) d d' \<and> all_words d' ip 10 mod 65535 = 0 \<and> d' ! (ip + 8) = SP_SYNACK_TTL \<and>
     ld32 d' (ip + 12) = Some da \<and> ld32 d' (ip + 16) = Some sa"
proof -
  obtain sa da where ld: "ld32 d (ip + 12) = Some sa" "ld32 d (ip + 16) = Some da"
    using ld32_inside [of "ip + 12" d] ld32_inside [of "ip + 16" d] assms by simp
  obtain x1 where x1: "st32 d (ip + 12) da = Some x1" "changed_in (ip + 12) (ip + 16) d x1" "ld32 x1 (ip + 12) = Some da"
    using st32_ok [of "ip + 12" d da] assms by (auto simp: add.commute)
  obtain x2 where x2: "st32 x1 (ip + 16) sa = Some x2" "changed_in (ip + 16) (ip + 20) x1 x2" "ld32 x2 (ip + 16) = Some sa"
    using st32_ok [of "ip + 16" x1 sa] assms changed_in_len [OF x1(2)] by (auto simp: add.commute)
  have l2: "length x2 = length d" using x1(2) x2(2) by (simp add: changed_in_len)
  obtain x3 where x3: "st8 x2 (ip + 8) SP_SYNACK_TTL = Some x3" "changed_in (ip + 8) (ip + 9) x2 x3" "x3 ! (ip + 8) = SP_SYNACK_TTL"
    using assms l2 by (auto simp: st8_def changed_in_def)
  obtain x4 where x4: "st16 x3 (ip + 4) 0 = Some x4" "changed_in (ip + 4) (ip + 6) x3 x4"
    using st16_ok [of "ip + 4" x3 0] assms l2 changed_in_len [OF x3(2)] by (auto simp: add.commute)
  obtain x5 where x5: "st16 x4 (ip + 6) (ntohs SP_IP4_DF) = Some x5" "changed_in (ip + 6) (ip + 8) x4 x5"
    using st16_ok [of "ip + 6" x4] assms l2 changed_in_len [OF x3(2)] changed_in_len [OF x4(2)] by (auto simp: add.commute)
  have l5: "length x5 = length d" using l2 x3(2) x4(2) x5(2) by (simp add: changed_in_len)
  obtain d' where d': "sp_ip4_csum x5 ip = Some d'" "all_words d' ip 10 mod 65535 = 0" "changed_in (ip + 10) (ip + 12) x5 d'"
    using sp_ip4_csum_ok [of ip x5] assms l5 by auto
  note c = x1(2) x2(2) x3(2) x4(2) x5(2) d'(3)
  have "d' ! j = d ! j" if "j < ip \<or> ip + 20 \<le> j" for j
    using that
  proof
    assume "j < ip"
    then show ?thesis using c [THEN changed_inD, of j] by simp
  next
    assume "ip + 20 \<le> j"
    then show ?thesis using c [THEN changed_inD, of j] by simp
  qed
  then have "changed_in ip (ip + 20) d d'" using l5 changed_in_len [OF d'(3)] by (simp add: changed_in_def)
  moreover have "ld32 d' (ip + 12) = Some da" "ld32 d' (ip + 16) = Some sa"
    using c(2-6) [THEN changed_in_ld32, of "ip + 12"] c(3-6) [THEN changed_in_ld32, of "ip + 16"] x1(3) x2(3) by simp_all
  moreover have "d' ! (ip + 8) = SP_SYNACK_TTL"
    using c(4-6) [THEN changed_inD, of "ip + 8"] x3(3) by simp
  ultimately show ?thesis using ld x1(1) x2(1) x3(1) x4(1) x5(1) d'(1,2) by (intro exI conjI)
qed

text \<open>The outcome for IPv4: additionally a valid header checksum, and a TTL and fragment word of our own.\<close>

definition synack_v4 :: "nat \<Rightarrow> u32 \<Rightarrow> bytes \<Rightarrow> bytes \<Rightarrow> bool" where
  "synack_v4 ip tcp_len d d' \<longleftrightarrow>
     (\<exists>cookie. synack_frame cookie (ip + 12) 4 (ip + 20) tcp_len d d') \<and> all_words d' ip 10 mod 65535 = 0 \<and>
     d' ! (ip + 8) = SP_SYNACK_TTL"

lemma sp_gen_fail_res: "sp_res s d strict Q (sp_gen_fail k spk cfg f v d s)"
  unfolding sp_gen_fail_def by (intro sp_return_res) (simp_all add: sp_stat_eq)

lemma sp_syn_v4_res:
  assumes "14 \<le> ip" "ip + 20 \<le> length d" "th + unat tcp_len \<le> length d" "20 \<le> unat tcp_len" "unat tcp_len \<le> 60"
    and "even (unat tcp_len)" "d ! ip AND 0x0F = 5 \<Longrightarrow> th = ip + 20" "\<not> strict"
  shows "sp_res s d strict (synack_v4 ip tcp_len d) (sp_syn_v4 k spk cfg f d ip th tcp_len s)"
proof -
  have b0: "ld8 d ip = Some (d ! ip)" using assms(2) by (simp add: ld8_def)
  obtain tl where tl: "ld16 d (ip + 2) = Some tl" using ld16_inside [of "ip + 2" d] assms(2) by simp
  let ?v = "spk_gen4 spk d ip th tcp_len"
  consider "d ! ip AND 0x0F \<noteq> 5 \<or> ucast (ntohs tl) \<noteq> 20 + tcp_len"
    | "d ! ip AND 0x0F = 5" "ucast (ntohs tl) = 20 + tcp_len" "sint ?v < 0"
    | "d ! ip AND 0x0F = 5" "ucast (ntohs tl) = 20 + tcp_len" "\<not> sint ?v < 0"
    by blast
  then show ?thesis
  proof cases
    case 1
    then have "sp_syn_v4 k spk cfg f d ip th tcp_len s = sp_return STAT_SYNPROXY_SKIPPED VERDICT_PASS f d s"
      unfolding sp_syn_v4_def b0 tl by auto
    then show ?thesis by (simp add: sp_return_res)
  next
    case 2
    then have "sp_syn_v4 k spk cfg f d ip th tcp_len s = sp_gen_fail k spk cfg f ?v d s"
      unfolding sp_syn_v4_def b0 tl by simp
    then show ?thesis by (simp add: sp_gen_fail_res)
  next
    case 3
    have th: "th = ip + 20" using assms(7) 3(1) by simp
    obtain seq where seq: "ld32 d (th + 4) = Some seq" using ld32_inside [of "th + 4" d] assms(3,4) by simp
    obtain d1 where d1: "sp_swap_mac d = Some d1" "changed_in 0 12 d d1"
      "\<forall>j < 6. d1 ! j = d ! (j + 6) \<and> d1 ! (j + 6) = d ! j"
      using sp_swap_mac_ok [of d] assms(1,2) by auto
    have l1: "length d1 = length d" and n1: "12 \<le> j \<Longrightarrow> d1 ! j = d ! j" for j
      using d1(2) by (auto simp: changed_in_def)
    obtain sa da x1 x2 x3 x4 x5 d3 where r: "ld32 d1 (ip + 12) = Some sa" "ld32 d1 (ip + 16) = Some da"
      "st32 d1 (ip + 12) da = Some x1" "st32 x1 (ip + 16) sa = Some x2" "st8 x2 (ip + 8) SP_SYNACK_TTL = Some x3"
      "st16 x3 (ip + 4) 0 = Some x4" "st16 x4 (ip + 6) (ntohs SP_IP4_DF) = Some x5" "sp_ip4_csum x5 ip = Some d3"
      and c3: "changed_in ip (ip + 20) d1 d3" "all_words d3 ip 10 mod 65535 = 0" "d3 ! (ip + 8) = SP_SYNACK_TTL"
      "ld32 d3 (ip + 12) = Some da" "ld32 d3 (ip + 16) = Some sa"
      using ip4_rewrite [of ip d1] assms(2) l1 by auto
    have l3: "length d3 = length d" using changed_in_len [OF c3(1)] l1 by simp
    have tcp: "th \<le> j \<Longrightarrow> d3 ! j = d ! j" for j
      using changed_inD [OF c3(1), of j] n1 [of j] assms(1) th by simp
    have mac: "j < 12 \<Longrightarrow> d3 ! j = d1 ! j" for j
      using changed_inD [OF c3(1), of j] assms(1) by simp
    have adr: "d3 ! (ip + 12 + j) = d ! (ip + 12 + 4 + j) \<and> d3 ! (ip + 12 + 4 + j) = d ! (ip + 12 + j)" if "j < 4" for j
      using ld32_bytes [of d3 "ip + 12" d1 "ip + 16" da j] ld32_bytes [of d3 "ip + 16" d1 "ip + 12" sa j] that r(1,2) c3(4,5)
        n1 [of "ip + 12 + j"] n1 [of "ip + 16 + j"] assms(1) by (simp add: add.commute [of 16 ip])
    let ?c = "ucast ?v :: u32" and ?m = "ucast (drop_bit 32 ?v) :: u16" and ?s = "sp_stat STAT_SYNPROXY_GEN_OK 0 s"
    have "\<exists>d4 p. sp_make_synack_tcp d3 th tcp_len ?c (ntohl seq) ?m = Some d4 \<and> sp_words d4 (ip + 12) 4 0 0 = Some p \<and>
       sp_res s d strict (synack_v4 ip tcp_len d) (sp_send k spk cfg f d4 th tcp_len
         (p + ucast (ntohs CALY_IPPROTO_TCP) + ucast (ntohs (ucast tcp_len))) ?c ?s)"
    proof (rule synack_tail [OF l3 assms(3-6) _ _ _ _ adr tcp seq assms(8)])
      show "\<And>j. j < 6 \<Longrightarrow> d3 ! j = d ! (j + 6) \<and> d3 ! (j + 6) = d ! j" using mac d1(3) by simp
      fix d'
      assume f: "synack_frame ?c (ip + 12) 4 th tcp_len d d'" and c: "changed_in th (th + unat tcp_len) d3 d'"
      have "all_words d' ip 10 = all_words d3 ip 10" "d' ! (ip + 8) = d3 ! (ip + 8)"
        using c th by (auto simp: changed_in_def intro!: all_words_cong)
      with f th c3(2,3) show "synack_v4 ip tcp_len d d'" by (auto simp: synack_v4_def)
    qed (use assms(1) th in \<open>simp_all add: sp_stat_eq\<close>)
    then obtain d4 p where 4: "sp_make_synack_tcp d3 th tcp_len ?c (ntohl seq) ?m = Some d4" "sp_words d4 (ip + 12) 4 0 0 = Some p"
      "sp_res s d strict (synack_v4 ip tcp_len d) (sp_send k spk cfg f d4 th tcp_len
         (p + ucast (ntohs CALY_IPPROTO_TCP) + ucast (ntohs (ucast tcp_len))) ?c ?s)" by blast
    have "sp_syn_v4 k spk cfg f d ip th tcp_len s = sp_send k spk cfg f d4 th tcp_len
         (p + ucast (ntohs CALY_IPPROTO_TCP) + ucast (ntohs (ucast tcp_len))) ?c ?s"
      using 3 unfolding sp_syn_v4_def b0 tl seq d1(1) r bind.bind_lunit Let_def by (simp add: 4(1) 4(2) [simplified])
    with 4(3) show ?thesis by simp
  qed
qed

text \<open>The outcome for IPv6.\<close>

definition synack_v6 :: "nat \<Rightarrow> u32 \<Rightarrow> bytes \<Rightarrow> bytes \<Rightarrow> bool" where
  "synack_v6 ip tcp_len d d' \<longleftrightarrow>
     (\<exists>cookie. synack_frame cookie (ip + 8) 16 (ip + 40) tcp_len d d') \<and> d' ! (ip + 7) = SP_SYNACK_TTL"

lemma ip6_rewrite:
  assumes "ip + 40 \<le> length d"
  shows "\<exists>sa da x1 x2 d'. ld_bytes d (ip + 8) 16 = Some sa \<and> ld_bytes d (ip + 24) 16 = Some da \<and>
     st_bytes d (ip + 8) da = Some x1 \<and> st_bytes x1 (ip + 24) sa = Some x2 \<and> st8 x2 (ip + 7) SP_SYNACK_TTL = Some d' \<and>
     changed_in ip (ip + 40) d d' \<and> d' ! (ip + 7) = SP_SYNACK_TTL \<and>
     (\<forall>j < 16. d' ! (ip + 8 + j) = d ! (ip + 24 + j) \<and> d' ! (ip + 24 + j) = d ! (ip + 8 + j))"
proof -
  define a where "a = take 16 (drop (ip + 8) d)"
  define b where "b = take 16 (drop (ip + 24) d)"
  have l: "length a = 16" "length b = 16" using assms by (simp_all add: a_def b_def)
  have n: "j < 16 \<Longrightarrow> a ! j = d ! (ip + 8 + j)" "j < 16 \<Longrightarrow> b ! j = d ! (ip + 24 + j)" for j
    using assms by (simp_all add: a_def b_def)
  define x1 where "x1 = take (ip + 8) d @ b @ drop (ip + 8 + length b) d"
  define x2 where "x2 = take (ip + 24) x1 @ a @ drop (ip + 24 + length a) x1"
  have s1: "st_bytes d (ip + 8) b = Some x1" "length x1 = length d"
      "x1 ! j = (if ip + 8 \<le> j \<and> j < ip + 24 then b ! (j - (ip + 8)) else d ! j)" for j
    using st_bytes_nth [of "ip + 8" b d] assms l unfolding x1_def by auto
  have s2: "st_bytes x1 (ip + 24) a = Some x2" "length x2 = length d"
      "x2 ! j = (if ip + 24 \<le> j \<and> j < ip + 40 then a ! (j - (ip + 24)) else x1 ! j)" for j
    using st_bytes_nth [of "ip + 24" a x1] assms l s1(2) unfolding x2_def by auto
  define d' where "d' = x2[ip + 7 := SP_SYNACK_TTL]"
  have n3: "d' ! j = (if j = ip + 7 then SP_SYNACK_TTL else x2 ! j)" "length d' = length d" for j
    using assms s2(2) by (simp_all add: d'_def nth_list_update)
  have ld: "ld_bytes d (ip + 8) 16 = Some a" "ld_bytes d (ip + 24) 16 = Some b" "st8 x2 (ip + 7) SP_SYNACK_TTL = Some d'"
    using assms s2(2) by (simp_all add: ld_bytes_def a_def b_def st8_def d'_def)
  have "d' ! (ip + 8 + j) = d ! (ip + 24 + j) \<and> d' ! (ip + 24 + j) = d ! (ip + 8 + j)" if "j < 16" for j
    using that n [of j] by (simp add: n3 s2(3) s1(3))
  then have swp: "\<forall>j < 16. d' ! (ip + 8 + j) = d ! (ip + 24 + j) \<and> d' ! (ip + 24 + j) = d ! (ip + 8 + j)" by blast
  have ch: "changed_in ip (ip + 40) d d'"
    unfolding changed_in_def n3(2)
  proof (intro conjI refl allI impI)
    fix j
    assume "j < ip \<or> ip + 40 \<le> j"
    then have "j \<noteq> ip + 7" "\<not> (ip + 24 \<le> j \<and> j < ip + 40)" "\<not> (ip + 8 \<le> j \<and> j < ip + 24)" by linarith+
    then show "d' ! j = d ! j" by (simp only: n3(1) s2(3) s1(3) if_False)
  qed
  have "d' ! (ip + 7) = SP_SYNACK_TTL" by (simp add: n3(1))
  with ld s1(1) s2(1) swp ch show ?thesis by (intro exI conjI)
qed

lemma sp_syn_v6_res:
  assumes "14 \<le> ip" "ip + 40 \<le> length d" "th + unat tcp_len \<le> length d" "20 \<le> unat tcp_len" "unat tcp_len \<le> 60"
    and "even (unat tcp_len)" "th = ip + 40" "\<not> strict"
  shows "sp_res s d strict (synack_v6 ip tcp_len d) (sp_syn_v6 k spk cfg f d ip th tcp_len s)"
proof -
  obtain tl where tl: "ld16 d (ip + 4) = Some tl" using ld16_inside [of "ip + 4" d] assms(2) by simp
  let ?v = "spk_gen6 spk d ip th tcp_len"
  consider "ucast (ntohs tl) \<noteq> tcp_len" | "ucast (ntohs tl) = tcp_len" "sint ?v < 0"
    | "ucast (ntohs tl) = tcp_len" "\<not> sint ?v < 0"
    by blast
  then show ?thesis
  proof cases
    case 1
    then have "sp_syn_v6 k spk cfg f d ip th tcp_len s = sp_return STAT_SYNPROXY_SKIPPED VERDICT_PASS f d s"
      unfolding sp_syn_v6_def tl by auto
    then show ?thesis by (simp add: sp_return_res)
  next
    case 2
    then have "sp_syn_v6 k spk cfg f d ip th tcp_len s = sp_gen_fail k spk cfg f ?v d s"
      unfolding sp_syn_v6_def tl by simp
    then show ?thesis by (simp add: sp_gen_fail_res)
  next
    case 3
    obtain seq where seq: "ld32 d (th + 4) = Some seq" using ld32_inside [of "th + 4" d] assms(3,4) by simp
    obtain d1 where d1: "sp_swap_mac d = Some d1" "changed_in 0 12 d d1"
      "\<forall>j < 6. d1 ! j = d ! (j + 6) \<and> d1 ! (j + 6) = d ! j"
      using sp_swap_mac_ok [of d] assms(1,2) by auto
    have l1: "length d1 = length d" and n1: "12 \<le> j \<Longrightarrow> d1 ! j = d ! j" for j
      using d1(2) by (auto simp: changed_in_def)
    obtain sa da x1 x2 d3 where r: "ld_bytes d1 (ip + 8) 16 = Some sa" "ld_bytes d1 (ip + 24) 16 = Some da"
      "st_bytes d1 (ip + 8) da = Some x1" "st_bytes x1 (ip + 24) sa = Some x2" "st8 x2 (ip + 7) SP_SYNACK_TTL = Some d3"
      and c3: "changed_in ip (ip + 40) d1 d3" "d3 ! (ip + 7) = SP_SYNACK_TTL"
      "\<forall>j < 16. d3 ! (ip + 8 + j) = d1 ! (ip + 24 + j) \<and> d3 ! (ip + 24 + j) = d1 ! (ip + 8 + j)"
      using ip6_rewrite [of ip d1] assms(2) l1 by auto
    have l3: "length d3 = length d" using changed_in_len [OF c3(1)] l1 by simp
    have tcp: "th \<le> j \<Longrightarrow> d3 ! j = d ! j" for j
      using changed_inD [OF c3(1), of j] n1 [of j] assms(1,7) by simp
    have mac: "j < 12 \<Longrightarrow> d3 ! j = d1 ! j" for j
      using changed_inD [OF c3(1), of j] assms(1) by simp
    have adr: "d3 ! (ip + 8 + j) = d ! (ip + 8 + 16 + j) \<and> d3 ! (ip + 8 + 16 + j) = d ! (ip + 8 + j)" if "j < 16" for j
      using c3(3) that n1 [of "ip + 8 + j"] n1 [of "ip + 24 + j"] assms(1) by (simp add: add.commute [of 24 ip])
    let ?c = "ucast ?v :: u32" and ?m = "ucast (drop_bit 32 ?v) :: u16" and ?s = "sp_stat STAT_SYNPROXY_GEN_OK 0 s"
    have "\<exists>d4 p. sp_make_synack_tcp d3 th tcp_len ?c (ntohl seq) ?m = Some d4 \<and> sp_words d4 (ip + 8) 16 0 0 = Some p \<and>
       sp_res s d strict (synack_v6 ip tcp_len d) (sp_send k spk cfg f d4 th tcp_len
         (p + ucast (ntohs CALY_IPPROTO_TCP) + ucast (ntohs (ucast tcp_len))) ?c ?s)"
    proof (rule synack_tail [OF l3 assms(3-6) _ _ _ _ adr tcp seq assms(8)])
      show "\<And>j. j < 6 \<Longrightarrow> d3 ! j = d ! (j + 6) \<and> d3 ! (j + 6) = d ! j" using mac d1(3) by simp
      fix d'
      assume f: "synack_frame ?c (ip + 8) 16 th tcp_len d d'" and c: "changed_in th (th + unat tcp_len) d3 d'"
      have "d' ! (ip + 7) = d3 ! (ip + 7)" using c assms(7) by (simp add: changed_in_def)
      with f assms(7) c3(2) show "synack_v6 ip tcp_len d d'" by (auto simp: synack_v6_def)
    qed (use assms(1,7) in \<open>simp_all add: sp_stat_eq\<close>)
    then obtain d4 p where 4: "sp_make_synack_tcp d3 th tcp_len ?c (ntohl seq) ?m = Some d4" "sp_words d4 (ip + 8) 16 0 0 = Some p"
      "sp_res s d strict (synack_v6 ip tcp_len d) (sp_send k spk cfg f d4 th tcp_len
         (p + ucast (ntohs CALY_IPPROTO_TCP) + ucast (ntohs (ucast tcp_len))) ?c ?s)" by blast
    have "sp_syn_v6 k spk cfg f d ip th tcp_len s = sp_send k spk cfg f d4 th tcp_len
         (p + ucast (ntohs CALY_IPPROTO_TCP) + ucast (ntohs (ucast tcp_len))) ?c ?s"
      using 3 unfolding sp_syn_v6_def tl seq d1(1) r bind.bind_lunit Let_def by (simp add: 4(1) 4(2) [simplified] ac_simps)
    with 4(3) show ?thesis by simp
  qed
qed

section \<open>The whole program\<close>

lemma sp_vlan_loop_ok:
  assumes "unat nh_off = 14 + 4 * i" "i \<le> 2"
  shows "\<exists>r. sp_vlan_loop d i h_proto nh_off = Some r \<and>
     (case r of Inl x \<Rightarrow> 4 \<le> x | Inr (p, ofs) \<Rightarrow> 14 \<le> unat ofs \<and> unat ofs \<le> 22)"
  using assms
proof (induction d i h_proto nh_off rule: sp_vlan_loop.induct)
  case (1 d i h_proto nh_off)
  show ?case
  proof (cases "i < unat CALY_VLAN_MAX_DEPTH \<and> (h_proto = ntohs CALY_ETH_P_8021Q \<or> h_proto = ntohs CALY_ETH_P_8021AD \<or>
      h_proto = ntohs CALY_ETH_P_QINQ1) \<and> \<not> unat nh_off + 4 > length d")
    case True
    obtain enc where ld: "ld16 d (unat nh_off + 2) = Some enc" using ld16_inside [of "unat nh_off + 2" d] True by simp
    have "unat (nh_off + 4) = 14 + 4 * (i + 1)"
      using "1.prems" True by (simp add: unat_word_ariths(1))
    then show ?thesis
      using "1.IH" [OF _ _ _ ld] True ld by (subst sp_vlan_loop.simps) auto
  next
    case False
    then show ?thesis using "1.prems" by (subst sp_vlan_loop.simps) auto
  qed
qed

lemma sp_l3_ok:
  assumes "14 \<le> unat nh_off" "unat nh_off \<le> 22"
  shows "\<exists>r. sp_l3 d h_proto nh_off f = Some r \<and>
     (case r of Inl x \<Rightarrow> 4 \<le> x
      | Inr (f', l4_off) \<Rightarrow>
          (if sf_family f' = CALY_AF_INET
           then unat nh_off + 20 \<le> length d \<and> (d ! unat nh_off AND 0x0F = 5 \<longrightarrow> unat l4_off = unat nh_off + 20)
           else unat nh_off + 40 \<le> length d \<and> unat l4_off = unat nh_off + 40))"
proof -
  have u: "unat (nh_off + 20) = unat nh_off + 20" "unat (nh_off + 40) = unat nh_off + 40"
    using assms(2) by (simp_all add: unat_word_ariths(1))
  have five: "ucast (5 :: u8) * 4 = (20 :: u32)" by simp
  show ?thesis
    using u five by (auto simp: sp_l3_def Let_def load_simps ld_quad_def not_less)
qed

lemma sp_tcp_len:
  fixes b :: u8
  defines "n \<equiv> ucast (drop_bit 4 b) * 4 :: u32"
  shows "even (unat n)"
proof -
  have "unat (ucast (drop_bit 4 b) :: u32) = unat (drop_bit 4 b)"
    using unat_u8_less [of "drop_bit 4 b"] by (simp only: unsigned_ucast_eq) (simp add: take_bit_nat_eq_self_iff)
  then have "unat (ucast (drop_bit 4 b) :: u32) < 256" by (simp only: unat_u8_less)
  then have "unat n = 4 * unat (ucast (drop_bit 4 b) :: u32)"
    unfolding n_def by (subst unat_word_ariths(2)) simp
  then show ?thesis by simp
qed

lemma sp_l4_ok:
  "\<exists>r. sp_l4 d l4_off f = Some r \<and>
     (case r of Inl x \<Rightarrow> 4 \<le> x
      | Inr (f', n) \<Rightarrow> sf_family f' = sf_family f \<and> unat l4_off + unat n \<le> length d \<and>
          20 \<le> unat n \<and> unat n \<le> 60 \<and> even (unat n))"
  using sp_tcp_len by (auto simp: sp_l4_def Let_def load_simps not_less word_le_nat_alt)

lemma sp_gate_reason: "sp_gate k cfg f s = Some x \<Longrightarrow> 4 \<le> x"
  by (auto simp: sp_gate_def Let_def split: if_splits)

lemma sp_gate_monitor: "sp_gate k cfg f s = None \<Longrightarrow> \<not> monitor_cfg cfg"
  by (auto simp: sp_gate_def Let_def monitor_cfg_def split: if_splits)

lemma sp_ack_res: "\<not> strict \<Longrightarrow> sp_res s d strict Q (sp_ack k spk cfg f d chk s)"
  by (auto simp: sp_ack_def sp_stat_eq intro!: sp_return_res)

definition synack_reply :: "bytes \<Rightarrow> bytes \<Rightarrow> bool" where
  "synack_reply d d' \<longleftrightarrow> (\<exists>ip n. synack_v4 ip n d d' \<or> synack_v6 ip n d d')"

lemma sp_res_mono:
  assumes "sp_res s d strict Q r" "\<And>d'. Q d' \<Longrightarrow> Q' d'"
  shows "sp_res s d strict Q' r"
proof -
  obtain a d' s' where r: "r = Some (a, d', s')" "counted a s s'" "dp_config s' = dp_config s"
     "strict \<longrightarrow> a = XDP_PASS" "if a = XDP_TX then Q d' else d' = d"
    using assms(1) by (auto simp: sp_res_def)
  have "if a = XDP_TX then Q' d' else d' = d" using r(5) assms(2) [of d'] by (simp split: if_splits)
  with r(1-4) show ?thesis unfolding sp_res_def by (intro exI conjI)
qed

lemma synproxy_res:
  "sp_res s d (\<exists>cfg. dp_config s = Some cfg \<and> monitor_cfg cfg) (synack_reply d) (caly_xdp_synproxy k spk ifindex d s)"
  (is "sp_res s d ?m ?Q _")
proof -
  let ?f = "sp_flow0 d ifindex"
  have ret: "sp_res s d ?m ?Q (sp_return x VERDICT_PASS f d s)" if "4 \<le> x" for x f
    using that by (intro sp_return_res) simp_all
  show ?thesis
  proof (cases "dp_config s = None \<or> 14 > length d")
    case True
    then show ?thesis using ret by (auto simp: caly_xdp_synproxy_def Let_def split: option.split)
  next
    case False
    then obtain cfg where cfg: "dp_config s = Some cfg" and len: "14 \<le> length d" by auto
    obtain hp where hp: "ld16 d 12 = Some hp" using ld16_inside [of 12 d] len by simp
    have m: "?m = monitor_cfg cfg" using cfg by simp
    obtain r1 where r1: "sp_vlan_loop d 0 hp 14 = Some r1"
      "case r1 of Inl x \<Rightarrow> 4 \<le> x | Inr (p, ofs) \<Rightarrow> 14 \<le> unat ofs \<and> unat ofs \<le> 22"
      using sp_vlan_loop_ok [of 14 0 d hp] by auto
    show ?thesis
    proof (cases r1)
      case (Inl x)
      with r1 ret cfg len hp show ?thesis by (simp add: caly_xdp_synproxy_def Let_def)
    next
      case (Inr po)
      then obtain p ofs where po: "r1 = Inr (p, ofs)" by (cases po) auto
      with r1(2) have o: "14 \<le> unat ofs" "unat ofs \<le> 22" by simp_all
      obtain r2 where r2: "sp_l3 d p ofs ?f = Some r2"
        "case r2 of Inl x \<Rightarrow> 4 \<le> x | Inr (f', l4_off) \<Rightarrow>
          (if sf_family f' = CALY_AF_INET
           then unat ofs + 20 \<le> length d \<and> (d ! unat ofs AND 0x0F = 5 \<longrightarrow> unat l4_off = unat ofs + 20)
           else unat ofs + 40 \<le> length d \<and> unat l4_off = unat ofs + 40)"
        using sp_l3_ok [OF o] by blast
      show ?thesis
      proof (cases r2)
        case (Inl x)
        with r2 r1(1) po ret cfg len hp show ?thesis by (simp add: caly_xdp_synproxy_def Let_def)
      next
        case (Inr q)
        then obtain f l4 where q: "r2 = Inr (f, l4)" by (cases q) auto
        obtain r3 where r3: "sp_l4 d l4 f = Some r3"
          "case r3 of Inl x \<Rightarrow> 4 \<le> x
           | Inr (f', n) \<Rightarrow> sf_family f' = sf_family f \<and> unat l4 + unat n \<le> length d \<and>
               20 \<le> unat n \<and> unat n \<le> 60 \<and> even (unat n)"
          using sp_l4_ok by blast
        show ?thesis
        proof (cases r3)
          case (Inl x)
          with r3 r2(1) q r1(1) po ret cfg len hp show ?thesis by (simp add: caly_xdp_synproxy_def Let_def)
        next
          case (Inr t)
          then obtain f' n where t: "r3 = Inr (f', n)" by (cases t) auto
          with r3(2) have n: "sf_family f' = sf_family f" "unat l4 + unat n \<le> length d" "20 \<le> unat n" "unat n \<le> 60" "even (unat n)"
            by simp_all
          have pre: "caly_xdp_synproxy k spk ifindex d s =
              (case sp_gate k cfg f' s of Some reason \<Rightarrow> sp_return reason VERDICT_PASS f' d s
               | None \<Rightarrow>
                   if sp_is_syn f' then
                     if sf_family f' = CALY_AF_INET then sp_syn_v4 k spk cfg f' d (unat ofs) (unat l4) n s
                     else sp_syn_v6 k spk cfg f' d (unat ofs) (unat l4) n s
                   else if sf_family f' = CALY_AF_INET then sp_ack_v4 k spk cfg f' d (unat ofs) (unat l4) s
                   else sp_ack_v6 k spk cfg f' d (unat ofs) (unat l4) s)"
            using r3(1) t r2(1) q r1(1) po cfg len hp by (simp add: caly_xdp_synproxy_def Let_def split: option.split)
          show ?thesis
          proof (cases "sp_gate k cfg f' s")
            case (Some x)
            then show ?thesis using ret sp_gate_reason unfolding pre by simp
          next
            case None
            then have nm: "\<not> ?m" using sp_gate_monitor m by blast
            have v4: "sf_family f' = CALY_AF_INET \<Longrightarrow> sp_res s d ?m ?Q (sp_syn_v4 k spk cfg f' d (unat ofs) (unat l4) n s)"
              using r2(2) q n o nm
              by (intro sp_res_mono [OF sp_syn_v4_res]) (auto simp: synack_reply_def)
            have v6: "sf_family f' \<noteq> CALY_AF_INET \<Longrightarrow> sp_res s d ?m ?Q (sp_syn_v6 k spk cfg f' d (unat ofs) (unat l4) n s)"
              using r2(2) q n o nm
              by (intro sp_res_mono [OF sp_syn_v6_res]) (auto simp: synack_reply_def)
            show ?thesis
              using None v4 v6 sp_ack_res [OF nm] unfolding pre by (simp add: sp_ack_v4_def sp_ack_v6_def)
          qed
        qed
      qed
    qed
  qed
qed

section \<open>The slot of the action program\<close>

text \<open>The program as the chain calls it: the rewritten frame leaves with the action.\<close>

definition synproxy_prog :: "kern \<Rightarrow> sp_kern \<Rightarrow> u32 \<Rightarrow> prog" where
  "synproxy_prog k spk ifindex d s =
     (case caly_xdp_synproxy k spk ifindex d s of None \<Rightarrow> (XDP_PASS, s) | Some (a, _, s') \<Rightarrow> (a, s'))"

lemma synproxy_prog_ok: "prog_ok s (synproxy_prog k spk ifindex d s)"
  using synproxy_res [of s d k spk ifindex]
  by (auto simp: sp_res_def synproxy_prog_def prog_ok_def split: option.splits prod.splits)

interpretation synproxy: slot_program "synproxy_prog k spk ifindex" for k spk ifindex
  by unfold_locales (rule synproxy_prog_ok)

section \<open>Properties\<close>


text \<open>C3. The whole ingress chain with the SYN proxy in its slot, in every mode: it never reads outside
  the frame, counts each packet once under the action it returns, and passes every packet when
  monitoring is configured.\<close>

theorem chain_with_synproxy:
  "\<exists>a s'. caly_xdp_main k (synproxy_prog k spk ifindex) ifindex d s = Some (a, s') \<and>
     dp_stats s' STAT_PKT_TOTAL = map_option (\<lambda>x. x + 1) (dp_stats s STAT_PKT_TOTAL) \<and>
     dp_stats s' STAT_PASS_TOTAL = bump (dp_stats s STAT_PASS_TOTAL) (a = XDP_PASS) \<and>
     dp_stats s' STAT_DROP_TOTAL = bump (dp_stats s STAT_DROP_TOTAL) (a = XDP_DROP) \<and>
     dp_stats s' STAT_TX_TOTAL = bump (dp_stats s STAT_TX_TOTAL) (a = XDP_TX) \<and>
     a \<in> (case dp_config s of None \<Rightarrow> UNIV | Some cfg \<Rightarrow> if monitor_cfg cfg then {XDP_PASS} else UNIV)"
proof -
  obtain a s' where r: "caly_xdp_main k (synproxy_prog k spk ifindex) ifindex d s = Some (a, s')" "counted a s s'"
    "\<And>cfg. dp_config s = Some cfg \<Longrightarrow> monitor_cfg cfg \<Longrightarrow> a = XDP_PASS"
    using synproxy.chain_result [of k k spk ifindex ifindex d s] by metis
  then show ?thesis
    by (auto simp: counted_def totals_def bump_def split: option.split)
qed

section \<open>Witnesses\<close>

text \<open>A kernel that hands out cookies, and a SYN without options.\<close>

definition spk0 :: sp_kern where
  "spk0 = \<lparr>spk_rand = 0, spk_gen4 = (\<lambda>d i t n. 0x5B400001234), spk_gen6 = (\<lambda>d i t n. 0x5A000001234),
     spk_check4 = (\<lambda>d i t. 0), spk_check6 = (\<lambda>d i t. 0)\<rparr>"

definition syn_frame :: bytes where
  "syn_frame = ip4_tcp_frame (replicate 12 7) 0 1 64 0 (8, 8, 8, 8) (9, 9, 9, 9) 40000 443 (replicate 8 0)
     CALY_TCP_SYN (replicate 6 0) []"


end
