(* ===== verification/Caly_Reasons.thy ===== *)
theory Caly_Reasons
  imports Caly_Common "HOL-Library.Sublist"
begin

text \<open>
  The naming of the verdict reasons: \<open>stat_reason_str\<close> and \<open>stat_reason_is_drop\<close> of \<open>common.h\<close>.
  The per-reason counters are exported by name, so names must be unique and the drop counters
  recognisable.
\<close>

lemma reason_numbers: "stat_reason_enum = map of_nat [0..<unat STAT_MAX]"
  by code_simp

lemma reason_table_keys: "map fst stat_reason_table = stat_reason_enum"
  by (simp add: stat_reason_table_def stat_reason_enum_def)

lemma reason_names_distinct: "distinct (map snd stat_reason_table)"
  by code_simp

lemma reason_names_known: "list_all (\<lambda>n. n \<noteq> ''unknown'') (map snd stat_reason_table)"
  by code_simp

lemma reason_names_drop:
  "list_all (\<lambda>(r, n). stat_reason_is_drop r \<longleftrightarrow> prefix ''drop_'' n \<and> r \<noteq> STAT_DROP_TOTAL)
     stat_reason_table"
  by code_simp

lemma reason_in_table:
  assumes "r < STAT_MAX"
  shows "map_of stat_reason_table r = Some (stat_reason_str r)"
    and "(r, stat_reason_str r) \<in> set stat_reason_table"
proof -
  have "r = of_nat (unat r)" "unat r < 109"
    using assms by (simp_all add: word_less_nat_alt)
  then have "r \<in> set stat_reason_enum"
    unfolding reason_numbers by force
  then have "r \<in> fst ` set stat_reason_table"
    by (simp flip: reason_table_keys)
  then obtain n where "map_of stat_reason_table r = Some n"
    by (metis domD dom_map_of_conv_image_fst)
  then show m: "map_of stat_reason_table r = Some (stat_reason_str r)"
    by (simp add: stat_reason_str_def)
  then show "(r, stat_reason_str r) \<in> set stat_reason_table"
    by (rule map_of_SomeD)
qed

lemma reason_str_inj:
  assumes "r < STAT_MAX" "s < STAT_MAX" "stat_reason_str r = stat_reason_str s"
  shows "r = s"
proof -
  note in_r = reason_in_table(2) [OF assms(1)] and in_s = reason_in_table(2) [OF assms(2)]
  have "inj_on snd (set stat_reason_table)"
    using reason_names_distinct by (simp add: distinct_map)
  then have "(r, stat_reason_str r) = (s, stat_reason_str s)"
    using in_r in_s assms(3) inj_onD [of snd _ "(r, stat_reason_str r)" "(s, stat_reason_str s)"]
    by simp
  then show ?thesis by simp
qed

text \<open>The counter names are sound: every reason below \<open>STAT_MAX\<close> has a name other than
  \<open>unknown\<close>, two reasons never share a name, and \<open>stat_reason_is_drop\<close> holds exactly for the
  reasons whose name starts with \<open>drop_\<close>, the grand total apart.\<close>

theorem stat_reason_names:
  assumes "r < STAT_MAX" "s < STAT_MAX"
  shows "stat_reason_str r \<noteq> ''unknown'' \<and>
         (stat_reason_str r = stat_reason_str s \<longleftrightarrow> r = s) \<and>
         (stat_reason_is_drop r \<longleftrightarrow> prefix ''drop_'' (stat_reason_str r) \<and> r \<noteq> STAT_DROP_TOTAL)"
proof -
  note in_r = reason_in_table(2) [OF assms(1)]
  have "stat_reason_str r \<noteq> ''unknown''"
    using in_r reason_names_known by (auto simp: list_all_iff)
  moreover have "stat_reason_str r = stat_reason_str s \<longleftrightarrow> r = s"
    using reason_str_inj [OF assms] by blast
  moreover have "stat_reason_is_drop r \<longleftrightarrow> prefix ''drop_'' (stat_reason_str r) \<and> r \<noteq> STAT_DROP_TOTAL"
    using in_r reason_names_drop by (auto simp: list_all_iff)
  ultimately show ?thesis by blast
qed

theorem stat_reason_names_witness:
  "stat_reason_str STAT_DROP_PORTSCAN \<noteq> ''unknown'' \<and>
   stat_reason_str STAT_DROP_PORTSCAN \<noteq> stat_reason_str STAT_DROP_BLOCKLIST \<and>
   stat_reason_is_drop STAT_DROP_PORTSCAN"
  using stat_reason_names [of STAT_DROP_PORTSCAN STAT_DROP_BLOCKLIST]
  by (simp add: stat_reason_is_drop_def)

end
