(* ===== verification/Caly_Cidr.thy ===== *)
theory Caly_Cidr
  imports Caly_Common
begin

text \<open>
  Network prefixes as user space handles them (\<open>util.c\<close>): the structure \<open>caly_cidr\<close> and the mask that
  makes a prefix canonical before it becomes a key of a longest-prefix trie.
\<close>

record caly_cidr =
  cd_addr :: bytes
  cd_prefixlen :: u32
  cd_family :: u32

text \<open>The loop \<open>for (i = n; i < 16; i++) addr[i] = 0\<close>.\<close>

definition zero_tail :: "nat \<Rightarrow> bytes \<Rightarrow> bytes" where
  "zero_tail n a = foldl (\<lambda>a i. a[i := 0]) a [n..<16]"

definition caly_cidr_apply_mask :: "caly_cidr \<Rightarrow> caly_cidr option" where
  "caly_cidr_apply_mask c =
     (let nbytes = (if cd_family c = CALY_AF_INET then Some 4
                    else if cd_family c = CALY_AF_INET6 then Some 16 else None)
      in case nbytes of None \<Rightarrow> None
         | Some nbytes \<Rightarrow>
             if cd_prefixlen c > of_nat (nbytes * 8) then None
             else
               let full = unat (cd_prefixlen c) div 8;
                   rem = unat (cd_prefixlen c) mod 8;
                   a = cd_addr c;
                   a = (if rem \<noteq> 0 \<and> full < nbytes
                        then a[full := a ! full AND push_bit (8 - rem) 0xFF] else a)
               in Some (c\<lparr>cd_addr := zero_tail (full + (if rem \<noteq> 0 then 1 else 0)) a\<rparr>))"

section \<open>The mask keeps the prefix and clears the rest\<close>

text \<open>Bit \<open>i\<close> of an address in network order.\<close>

definition addr_bit :: "bytes \<Rightarrow> nat \<Rightarrow> bool" where
  "addr_bit a i = bit (a ! (i div 8)) (7 - i mod 8)"

definition family_bits :: "u32 \<Rightarrow> nat option" where
  "family_bits f = (if f = CALY_AF_INET then Some 32 else if f = CALY_AF_INET6 then Some 128 else None)"

text \<open>A loop that stores one value in the slots from \<open>i\<close> to \<open>j\<close>.\<close>

lemma fill_slots:
  "j \<le> length xs \<Longrightarrow> foldl (\<lambda>xs i. xs[i := z]) xs [i..<j] = take i xs @ replicate (j - i) z @ drop (max i j) xs"
proof (induction j)
  case (Suc j)
  show ?case
  proof (cases "i \<le> j")
    case True
    have "drop j xs = xs ! j # drop (Suc j) xs" using Suc.prems by (simp add: Cons_nth_drop_Suc)
    with True Suc show ?thesis
      by (simp add: list_update_append Suc_diff_le replicate_append_same max_absorb2)
  qed (use Suc in simp)
qed simp

lemma zero_tail_eq: "length a = 16 \<Longrightarrow> zero_tail n a = take n a @ replicate (16 - n) 0"
  by (simp add: zero_tail_def fill_slots)

lemma byte_mask_bit:
  "r < 8 \<Longrightarrow> j < 8 \<Longrightarrow> bit ((b :: u8) AND push_bit (8 - r) 0xFF) (7 - j) \<longleftrightarrow> j < r \<and> bit b (7 - j)"
proof -
  assume r: "r < 8" and j: "j < 8"
  have m: "(0xFF :: u8) = mask 8" by (simp add: mask_eq_exp_minus_1)
  have "8 - r \<le> 7 - j \<longleftrightarrow> j < r" "7 - j < 8" "7 - j - (8 - r) < 8" using r j by linarith+
  then show ?thesis
    unfolding m bit_and_iff bit_push_bit_iff bit_mask_iff by auto
qed

lemma zero_tail_nth: "length a = 16 \<Longrightarrow> k < 16 \<Longrightarrow> zero_tail n a ! k = (if k < n then a ! k else 0)"
  by (simp add: zero_tail_eq nth_append)

lemma mask_bytes:
  assumes "length a = 16" "k < 16" "j < 8" "r < 8"
  shows "bit (zero_tail (f + (if r \<noteq> 0 then 1 else 0))
            (if r \<noteq> 0 \<and> f < 16 then a[f := a ! f AND push_bit (8 - r) 0xFF] else a) ! k) (7 - j)
         \<longleftrightarrow> 8 * k + j < 8 * f + r \<and> bit (a ! k) (7 - j)"
proof -
  let ?b = "if r \<noteq> 0 \<and> f < 16 then a[f := a ! f AND push_bit (8 - r) 0xFF] else a"
  have z: "zero_tail n ?b ! k = (if k < n then ?b ! k else 0)" for n
    by (rule zero_tail_nth) (simp_all add: assms(1,2))
  have b: "?b ! k = (if r \<noteq> 0 \<and> k = f then a ! k AND push_bit (8 - r) 0xFF else a ! k)"
    using assms(1,2) by (cases "k = f") simp_all
  consider "k < f" "8 * k + j < 8 * f + r" | "k = f" | "k > f" "\<not> 8 * k + j < 8 * f + r"
    using assms(3,4) by linarith
  then show ?thesis
  proof cases
    case 1
    then show ?thesis unfolding z b by (simp only: if_False if_True simp_thms) simp
  next
    case 2
    show ?thesis
      unfolding z b using 2 byte_mask_bit [OF assms(4,3), of "a ! k"] by (cases "r = 0") simp_all
  next
    case 3
    then show ?thesis unfolding z b by (cases "r = 0") simp_all
  qed
qed

lemma mask_bits:
  assumes "length a = 16" "i < 128"
  shows "addr_bit (zero_tail (p div 8 + (if p mod 8 \<noteq> 0 then 1 else 0))
            (if p mod 8 \<noteq> 0 \<and> p div 8 < 16 then a[p div 8 := a ! (p div 8) AND push_bit (8 - p mod 8) 0xFF] else a)) i
         \<longleftrightarrow> i < p \<and> addr_bit a i"
proof -
  have "i div 8 < 16" using assms(2) by presburger
  then show ?thesis
    using mask_bytes [OF assms(1), of "i div 8" "i mod 8" "p mod 8" "p div 8"]
    by (simp only: addr_bit_def mult_div_mod_eq mod_less_divisor zero_less_numeral)
qed

lemma apply_mask_eq:
  assumes "length (cd_addr c) = 16" "family_bits (cd_family c) = Some n" "unat (cd_prefixlen c) \<le> n"
  shows "\<exists>a. caly_cidr_apply_mask c = Some (c\<lparr>cd_addr := a\<rparr>) \<and> length a = 16 \<and>
             (\<forall>i<128. addr_bit a i \<longleftrightarrow> i < unat (cd_prefixlen c) \<and> addr_bit (cd_addr c) i)"
proof -
  let ?p = "unat (cd_prefixlen c)"
  let ?a = "zero_tail (?p div 8 + (if ?p mod 8 \<noteq> 0 then 1 else 0))
     (if ?p mod 8 \<noteq> 0 \<and> ?p div 8 < 16 then (cd_addr c)[?p div 8 := cd_addr c ! (?p div 8) AND push_bit (8 - ?p mod 8) 0xFF]
      else cd_addr c)"
  have n: "n = 32 \<or> n = 128" using assms(2) by (auto simp: family_bits_def split: if_splits)
  have "caly_cidr_apply_mask c = Some (c\<lparr>cd_addr := ?a\<rparr>)"
  proof (cases "cd_family c = CALY_AF_INET")
    case True
    with assms(2,3) have "?p \<le> 32" "\<not> cd_prefixlen c > 32" by (auto simp: family_bits_def word_less_nat_alt)
    moreover have "p \<le> 32 \<Longrightarrow> p mod 8 \<noteq> 0 \<Longrightarrow> p div 8 < 4 \<and> p div 8 < 16" for p :: nat by presburger
    ultimately show ?thesis using True by (auto simp: caly_cidr_apply_mask_def Let_def)
  next
    case False
    with assms(2,3) have "cd_family c = 6" "\<not> cd_prefixlen c > 128"
      by (auto simp: family_bits_def word_less_nat_alt split: if_splits)
    then show ?thesis by (auto simp: caly_cidr_apply_mask_def Let_def)
  qed
  moreover have "length ?a = 16" using n assms(1,3) by (auto simp: zero_tail_eq)
  moreover have "\<forall>i<128. addr_bit ?a i \<longleftrightarrow> i < ?p \<and> addr_bit (cd_addr c) i"
    by (intro allI impI mask_bits [OF assms(1)])
  ultimately show ?thesis by blast
qed

lemma apply_mask_none:
  "caly_cidr_apply_mask c = None \<longleftrightarrow>
     (case family_bits (cd_family c) of None \<Rightarrow> True | Some n \<Rightarrow> unat (cd_prefixlen c) > n)"
  by (auto simp: caly_cidr_apply_mask_def family_bits_def Let_def word_less_nat_alt)

lemma addr_bits_inject:
  assumes "length a = 16" "length b = 16" "\<And>i. i < 128 \<Longrightarrow> addr_bit a i = addr_bit b i"
  shows "a = b"
proof (rule nth_equalityI)
  fix k assume "k < length a"
  then have k: "k < 16" using assms(1) by simp
  show "a ! k = b ! k"
  proof (rule bit_word_eqI)
    fix j assume "j < LENGTH(8)"
    then have "j < 8" by simp
    moreover have "(8 * k + m) div 8 = k \<and> (8 * k + m) mod 8 = m" if "m < 8" for m using that by simp
    note this [of "7 - j"]
    ultimately show "bit (a ! k) j = bit (b ! k) j"
      using assms(3) [of "8 * k + (7 - j)"] k by (simp add: addr_bit_def del: Nat.diff_add_assoc)
  qed
qed (use assms in simp)

text \<open>Masking a prefix keeps exactly its leading bits: it succeeds if and only if the family is known
  and the length fits the family, and then two prefixes of one length become the same key if and only
  if they agree on those leading bits, so a network has one key however its host bits were written.\<close>

theorem caly_cidr_apply_mask_canonical:
  assumes "length (cd_addr c) = 16" "length (cd_addr d) = 16"
    and "cd_family d = cd_family c" "cd_prefixlen d = cd_prefixlen c"
  shows "(caly_cidr_apply_mask c = None \<longleftrightarrow>
           (case family_bits (cd_family c) of None \<Rightarrow> True | Some n \<Rightarrow> unat (cd_prefixlen c) > n)) \<and>
         (caly_cidr_apply_mask c \<noteq> None \<longrightarrow>
           (caly_cidr_apply_mask c = caly_cidr_apply_mask d \<longleftrightarrow>
             (\<forall>i < unat (cd_prefixlen c). addr_bit (cd_addr c) i = addr_bit (cd_addr d) i)))"
proof (cases "caly_cidr_apply_mask c = None")
  case True
  then show ?thesis by (simp add: apply_mask_none)
next
  case False
  then obtain n where n: "family_bits (cd_family c) = Some n" "unat (cd_prefixlen c) \<le> n"
    by (auto simp: apply_mask_none split: option.splits)
  then have p: "unat (cd_prefixlen c) \<le> 128" by (auto simp: family_bits_def split: if_splits)
  obtain a where a: "caly_cidr_apply_mask c = Some (c\<lparr>cd_addr := a\<rparr>)" "length a = 16"
      "\<forall>i<128. addr_bit a i \<longleftrightarrow> i < unat (cd_prefixlen c) \<and> addr_bit (cd_addr c) i"
    using apply_mask_eq [OF assms(1) n] by blast
  obtain b where b: "caly_cidr_apply_mask d = Some (d\<lparr>cd_addr := b\<rparr>)" "length b = 16"
      "\<forall>i<128. addr_bit b i \<longleftrightarrow> i < unat (cd_prefixlen c) \<and> addr_bit (cd_addr d) i"
    using apply_mask_eq [OF assms(2), of n] n assms(3,4) by auto
  have "c\<lparr>cd_addr := a\<rparr> = d\<lparr>cd_addr := b\<rparr> \<longleftrightarrow> a = b"
    using assms(3,4) by (metis (full_types) caly_cidr.select_convs(1) caly_cidr.surjective caly_cidr.update_convs(1)
        old.unit.exhaust)
  moreover have "a = b \<longleftrightarrow> (\<forall>i < unat (cd_prefixlen c). addr_bit (cd_addr c) i = addr_bit (cd_addr d) i)"
    using addr_bits_inject [OF a(2) b(2)] a(3) b(3) p by (metis less_le_trans)
  ultimately show ?thesis using a(1) b(1) n by (simp add: apply_mask_none)
qed

text \<open>\<open>10.1.2.3/12\<close> and \<open>10.15.0.0/12\<close> are one network, \<open>10.16.0.0/12\<close> another.\<close>

theorem caly_cidr_apply_mask_canonical_witness:
  "caly_cidr_apply_mask \<lparr>cd_addr = [10, 1, 2, 3] @ replicate 12 0, cd_prefixlen = 12, cd_family = CALY_AF_INET\<rparr> =
   caly_cidr_apply_mask \<lparr>cd_addr = [10, 15, 0, 0] @ replicate 12 0, cd_prefixlen = 12, cd_family = CALY_AF_INET\<rparr>"
proof -
  let ?c = "\<lparr>cd_addr = [10, 1, 2, 3] @ replicate 12 0, cd_prefixlen = 12, cd_family = CALY_AF_INET\<rparr>"
  let ?d = "\<lparr>cd_addr = [10, 15, 0, 0] @ replicate 12 0, cd_prefixlen = 12, cd_family = CALY_AF_INET\<rparr>"
  have "\<forall>i < unat (cd_prefixlen ?c). addr_bit (cd_addr ?c) i = addr_bit (cd_addr ?d) i"
  proof -
    have "\<forall>i\<in>set [0..<12]. addr_bit ([10, 1, 2, 3] @ replicate 12 0) i = addr_bit ([10, 15, 0, 0] @ replicate 12 0) i"
      by code_simp
    then show ?thesis by simp
  qed
  moreover have "caly_cidr_apply_mask ?c \<noteq> None" by (simp add: apply_mask_none family_bits_def)
  ultimately show ?thesis using caly_cidr_apply_mask_canonical [of ?c ?d] by simp
qed

end
