(* ===== verification/Caly_Loader.thy ===== *)
theory Caly_Loader
  imports Caly_Rules Caly_Cidr
begin

text \<open>
  The configuration side of the loader (\<open>loader.c\<close>), which every configuration passes before the data
  plane sees it: the defaults, the sanitiser, the capability bits, the ICMP and port policy maps, and
  the insertion of a prefix.  The maps are those of the data plane's state.

  A failing system call is a parameter where the code looks at it; a message to the log is not
  modelled.
\<close>

section \<open>Constants\<close>

abbreviation (input) CALY_MAP_ENTRIES_MIN :: u32 where "CALY_MAP_ENTRIES_MIN \<equiv> 1024"
abbreviation (input) CALY_MAP_ENTRIES_MAX :: u32 where "CALY_MAP_ENTRIES_MAX \<equiv> 16777216"
abbreviation (input) CALY_DP_MAX :: u32 where "CALY_DP_MAX \<equiv> 6"
abbreviation (input) CALY_XDP_MODE_MAX :: u32 where "CALY_XDP_MODE_MAX \<equiv> 4"
abbreviation (input) CALY_LL_INFO :: u32 where "CALY_LL_INFO \<equiv> 2"
abbreviation (input) CALY_LL_MAX :: u32 where "CALY_LL_MAX \<equiv> 5"
abbreviation (input) CALY_F_CAP_MASK :: u64 where "CALY_F_CAP_MASK \<equiv> 0x0000FFFF00000000"

section \<open>Defaults\<close>

definition caly_config_defaults :: fw_config where
  "caly_config_defaults = \<lparr>
      cfg_abi_version = CALY_ABI_VERSION,
      cfg_config_gen = 1,
      cfg_flags = CALY_F_ENABLED OR CALY_F_IPV4 OR CALY_F_IPV6 OR CALY_F_VLAN_INSPECT OR CALY_F_TUNNEL_INSPECT
        OR CALY_F_ANOMALY_CHECKS OR CALY_F_LAND_CHECK OR CALY_F_BOGON_FILTER OR CALY_F_TCP_FLAG_CHECKS
        OR CALY_F_FRAG_CHECKS OR CALY_F_ICMP_FILTER OR CALY_F_DROP_RH0 OR CALY_F_ALLOWLIST OR CALY_F_BLOCKLIST
        OR CALY_F_AUTOBAN OR CALY_F_RATE_LIMIT OR CALY_F_ANTI_AMPLIFY OR CALY_F_PORT_POLICY OR CALY_F_CONNTRACK
        OR CALY_F_PORTSCAN_DETECT OR CALY_F_SYNPROXY OR CALY_F_SRC_STATS OR CALY_F_LOG_EVENTS
        OR CALY_F_MGMT_BYPASS_ALL OR CALY_F_LOCKDOWN_ICMP,
      cfg_tb_rate = (\<lambda>k. case k of TB_PPS \<Rightarrow> 200000 | TB_BPS \<Rightarrow> 250000000 | TB_SYN \<Rightarrow> 2000 | TB_UDP \<Rightarrow> 50000 | TB_ICMP \<Rightarrow> 200 | TB_NEWCONN \<Rightarrow> 500),
      cfg_tb_burst = (\<lambda>k. case k of TB_PPS \<Rightarrow> 400000 | TB_BPS \<Rightarrow> 500000000 | TB_SYN \<Rightarrow> 4000 | TB_UDP \<Rightarrow> 100000 | TB_ICMP \<Rightarrow> 400 | TB_NEWCONN \<Rightarrow> 1000),
      cfg_global_pps_hi = 4000000,
      cfg_global_pps_lo = 2000000,
      cfg_global_bps_hi = 1250000000,
      cfg_global_bps_lo = 800000000,
      cfg_global_syn_pps_hi = 40000,
      cfg_global_syn_pps_lo = 15000,
      cfg_global_newconn_pps_hi = 100000,
      cfg_global_newconn_pps_lo = 50000,
      cfg_attack_dwell_ns = 120 * CALY_NSEC_PER_SEC,
      cfg_syn_fallback_pps = 100000,
      cfg_ban_ttl_base_ns = 600 * CALY_NSEC_PER_SEC,
      cfg_ban_ttl_max_ns = 86400 * CALY_NSEC_PER_SEC,
      cfg_ban_ttl_scan_ns = 3600 * CALY_NSEC_PER_SEC,
      cfg_ban_ttl_amp_ns = 6 * 3600 * CALY_NSEC_PER_SEC,
      cfg_strike_window_ns = 60 * CALY_NSEC_PER_SEC,
      cfg_scan_window_ns = 30 * CALY_NSEC_PER_SEC,
      cfg_ct_tcp_syn_ns = 60 * CALY_NSEC_PER_SEC,
      cfg_ct_tcp_est_ns = 4 * 3600 * CALY_NSEC_PER_SEC,
      cfg_ct_tcp_fin_ns = 30 * CALY_NSEC_PER_SEC,
      cfg_ct_udp_ns = 30 * CALY_NSEC_PER_SEC,
      cfg_ct_udp_stream_ns = 180 * CALY_NSEC_PER_SEC,
      cfg_ct_icmp_ns = 30 * CALY_NSEC_PER_SEC,
      cfg_ct_generic_ns = 60 * CALY_NSEC_PER_SEC,
      cfg_rate_idle_ns = 300 * CALY_NSEC_PER_SEC,
      cfg_scan_idle_ns = 300 * CALY_NSEC_PER_SEC,
      cfg_srcstat_idle_ns = 600 * CALY_NSEC_PER_SEC,
      cfg_mode = FW_MODE_NORMAL,
      cfg_default_zone = CALY_ZONE_LAN,
      cfg_strike_limit = 10,
      cfg_ban_escalate_num = 2,
      cfg_ban_escalate_den = 1,
      cfg_scan_port_threshold = 60,
      cfg_icmp_max_payload = 1472,
      cfg_icmp6_max_payload = 1472,
      cfg_frag_min_bytes = 128,
      cfg_ip_min_ttl = 0,
      cfg_vlan_max_depth = CALY_VLAN_MAX_DEPTH,
      cfg_ip6_ext_max = CALY_IP6_EXT_MAX,
      cfg_tunnel_max_depth = CALY_TUNNEL_MAX_DEPTH,
      cfg_tcp_min_doff = 5,
      cfg_log_sample_rate = 100,
      cfg_log_max_pps = 1000,
      cfg_log_level = CALY_LL_INFO,
      cfg_event_pages = 16,
      cfg_max_ban_entries = 262144,
      cfg_max_conn_entries = 262144,
      cfg_max_rate_entries = 524288,
      cfg_max_scan_entries = 131072,
      cfg_max_srcstat_entries = 131072,
      cfg_max_allow_entries = 65536,
      cfg_max_block_entries = 262144,
      cfg_max_iface_entries = 64,
      cfg_dataplane_pref = 0,
      cfg_xdp_attach_pref = 0,
      cfg_poll_interval_ms = 200,
      cfg_stats_interval_ms = 1000,
      cfg_gc_interval_ms = 5000,
      cfg_gc_batch = 4096,
      cfg_mgmt_tcp_count = 1,
      cfg_mgmt_udp_count = 0,
      cfg_mgmt_tcp_ports = 22 # replicate 15 0,
      cfg_mgmt_udp_ports = replicate 16 0,
      cfg_reserved = replicate 24 0
    \<rparr>"

section \<open>The sanitiser\<close>

datatype config_err = ABI_MISMATCH | NO_SLOT_FOR_SSH

text \<open>The value in range, and the number of warnings so far.\<close>

definition caly_clamp_u32 :: "u32 \<Rightarrow> u32 \<Rightarrow> u32 \<Rightarrow> u32 \<Rightarrow> u32 \<times> u32" where
  "caly_clamp_u32 v lo hi warnings =
     (if v < lo \<or> v > hi then (if v < lo then lo else hi, warnings + 1) else (v, warnings))"

definition san_enums :: "fw_config \<Rightarrow> u32 \<Rightarrow> fw_config \<times> u32" where
  "san_enums c w =
     (let (mode, w) = caly_clamp_u32 (cfg_mode c) 0 (FW_MODE_MAX - 1) w;
          (zone, w) = caly_clamp_u32 (cfg_default_zone c) 0 (CALY_ZONE_MAX - 1) w;
          (dp, w) = caly_clamp_u32 (cfg_dataplane_pref c) 0 (CALY_DP_MAX - 1) w;
          (xdp, w) = caly_clamp_u32 (cfg_xdp_attach_pref c) 0 (CALY_XDP_MODE_MAX - 1) w
      in (c\<lparr>cfg_mode := mode, cfg_default_zone := zone, cfg_dataplane_pref := dp, cfg_xdp_attach_pref := xdp\<rparr>, w))"

definition san_depths :: "fw_config \<Rightarrow> u32 \<Rightarrow> fw_config \<times> u32" where
  "san_depths c w =
     (let (c, w) = (if cfg_vlan_max_depth c > CALY_VLAN_MAX_DEPTH
                    then (c\<lparr>cfg_vlan_max_depth := CALY_VLAN_MAX_DEPTH\<rparr>, w + 1) else (c, w));
          (c, w) = (if cfg_ip6_ext_max c > CALY_IP6_EXT_MAX
                    then (c\<lparr>cfg_ip6_ext_max := CALY_IP6_EXT_MAX\<rparr>, w + 1) else (c, w))
      in if cfg_tunnel_max_depth c > CALY_TUNNEL_MAX_DEPTH
         then (c\<lparr>cfg_tunnel_max_depth := CALY_TUNNEL_MAX_DEPTH\<rparr>, w + 1) else (c, w))"

definition san_scalars :: "fw_config \<Rightarrow> u32 \<Rightarrow> fw_config \<times> u32" where
  "san_scalars c w =
     (let (doff, w) = caly_clamp_u32 (cfg_tcp_min_doff c) 5 15 w;
          (ttl, w) = caly_clamp_u32 (cfg_ip_min_ttl c) 0 255 w;
          (ll, w) = caly_clamp_u32 (cfg_log_level c) 0 (CALY_LL_MAX - 1) w
      in (c\<lparr>cfg_tcp_min_doff := doff, cfg_ip_min_ttl := ttl, cfg_log_level := ll\<rparr>, w))"

definition san_ban :: "fw_config \<Rightarrow> u32 \<Rightarrow> fw_config \<times> u32" where
  "san_ban c w =
     (let (c, w) = (if cfg_ban_escalate_den c = 0 then (c\<lparr>cfg_ban_escalate_den := 1\<rparr>, w + 1) else (c, w));
          (c, w) = (if cfg_strike_limit c = 0 then (c\<lparr>cfg_strike_limit := 1\<rparr>, w + 1) else (c, w))
      in (if cfg_ban_ttl_max_ns c < cfg_ban_ttl_base_ns c
          then c\<lparr>cfg_ban_ttl_max_ns := cfg_ban_ttl_base_ns c\<rparr> else c, w))"

definition san_thresholds :: "fw_config \<Rightarrow> fw_config" where
  "san_thresholds c =
     (let c = (if cfg_global_pps_lo c > cfg_global_pps_hi c then c\<lparr>cfg_global_pps_lo := cfg_global_pps_hi c\<rparr> else c);
          c = (if cfg_global_bps_lo c > cfg_global_bps_hi c then c\<lparr>cfg_global_bps_lo := cfg_global_bps_hi c\<rparr> else c);
          c = (if cfg_global_syn_pps_lo c > cfg_global_syn_pps_hi c
               then c\<lparr>cfg_global_syn_pps_lo := cfg_global_syn_pps_hi c\<rparr> else c)
      in if cfg_global_newconn_pps_lo c > cfg_global_newconn_pps_hi c
         then c\<lparr>cfg_global_newconn_pps_lo := cfg_global_newconn_pps_hi c\<rparr> else c)"

definition san_events :: "fw_config \<Rightarrow> u32 \<Rightarrow> fw_config \<times> u32" where
  "san_events c w =
     (let (c, w) = (if cfg_event_pages c = 0 \<or> has_flag (cfg_event_pages c) (cfg_event_pages c - 1)
                    then (c\<lparr>cfg_event_pages := 16\<rparr>, w + 1) else (c, w));
          (pages, w) = caly_clamp_u32 (cfg_event_pages c) 1 1024 w
      in (c\<lparr>cfg_event_pages := pages\<rparr>, w))"

definition san_intervals :: "fw_config \<Rightarrow> u32 \<Rightarrow> fw_config \<times> u32" where
  "san_intervals c w =
     (let (poll, w) = caly_clamp_u32 (cfg_poll_interval_ms c) 10 60000 w;
          (stats, w) = caly_clamp_u32 (cfg_stats_interval_ms c) 100 600000 w;
          (gc, w) = caly_clamp_u32 (cfg_gc_interval_ms c) 100 3600000 w;
          (batch, w) = caly_clamp_u32 (cfg_gc_batch c) 16 1048576 w
      in (c\<lparr>cfg_poll_interval_ms := poll, cfg_stats_interval_ms := stats, cfg_gc_interval_ms := gc,
             cfg_gc_batch := batch\<rparr>, w))"

definition san_sizes :: "fw_config \<Rightarrow> u32 \<Rightarrow> fw_config \<times> u32" where
  "san_sizes c w =
     (let (ban, w) = caly_clamp_u32 (cfg_max_ban_entries c) CALY_MAP_ENTRIES_MIN CALY_MAP_ENTRIES_MAX w;
          (conn, w) = caly_clamp_u32 (cfg_max_conn_entries c) CALY_MAP_ENTRIES_MIN CALY_MAP_ENTRIES_MAX w;
          (rate, w) = caly_clamp_u32 (cfg_max_rate_entries c) CALY_MAP_ENTRIES_MIN CALY_MAP_ENTRIES_MAX w;
          (scan, w) = caly_clamp_u32 (cfg_max_scan_entries c) CALY_MAP_ENTRIES_MIN CALY_MAP_ENTRIES_MAX w;
          (src, w) = caly_clamp_u32 (cfg_max_srcstat_entries c) CALY_MAP_ENTRIES_MIN CALY_MAP_ENTRIES_MAX w;
          (allow, w) = caly_clamp_u32 (cfg_max_allow_entries c) 64 CALY_MAP_ENTRIES_MAX w;
          (block, w) = caly_clamp_u32 (cfg_max_block_entries c) 64 CALY_MAP_ENTRIES_MAX w;
          (iface, w) = caly_clamp_u32 (cfg_max_iface_entries c) 4 4096 w
      in (c\<lparr>cfg_max_ban_entries := ban, cfg_max_conn_entries := conn, cfg_max_rate_entries := rate,
             cfg_max_scan_entries := scan, cfg_max_srcstat_entries := src, cfg_max_allow_entries := allow,
             cfg_max_block_entries := block, cfg_max_iface_entries := iface\<rparr>, w))"

text \<open>The loop \<open>for (i = n; i < CALY_MGMT_PORTS_MAX; i++) ports[i] = 0\<close>.\<close>

definition zero_from :: "u32 \<Rightarrow> u16 list \<Rightarrow> u16 list" where
  "zero_from n ports = foldl (\<lambda>ps i. ps[i := 0]) ports [unat n..<CALY_MGMT_PORTS_MAX]"

definition san_mgmt :: "fw_config \<Rightarrow> u32 \<Rightarrow> config_err + fw_config \<times> u32" where
  "san_mgmt c w =
     (let cap = of_nat CALY_MGMT_PORTS_MAX;
          c = (if cfg_mgmt_tcp_count c > cap then c\<lparr>cfg_mgmt_tcp_count := cap\<rparr> else c);
          c = (if cfg_mgmt_udp_count c > cap then c\<lparr>cfg_mgmt_udp_count := cap\<rparr> else c);
          c = c\<lparr>cfg_mgmt_tcp_ports := zero_from (cfg_mgmt_tcp_count c) (cfg_mgmt_tcp_ports c)\<rparr>;
          c = c\<lparr>cfg_mgmt_udp_ports := zero_from (cfg_mgmt_udp_count c) (cfg_mgmt_udp_ports c)\<rparr>;
          have_ssh = list_ex (\<lambda>i. cfg_mgmt_tcp_ports c ! i = 22) [0..<unat (cfg_mgmt_tcp_count c)]
      in if have_ssh then Inr (c, w)
         else if cfg_mgmt_tcp_count c < cap then
           Inr (c\<lparr>cfg_mgmt_tcp_ports := (cfg_mgmt_tcp_ports c)[unat (cfg_mgmt_tcp_count c) := 22],
                  cfg_mgmt_tcp_count := cfg_mgmt_tcp_count c + 1\<rparr>, w + 1)
         else Inl NO_SLOT_FOR_SSH)"

text \<open>The steps in order; the null checks are those of the C interface.\<close>

definition caly_config_sanitize :: "fw_config \<Rightarrow> config_err + fw_config \<times> u32" where
  "caly_config_sanitize c =
     (if drop_bit 16 (cfg_abi_version c) \<noteq> 1 \<and> cfg_abi_version c \<noteq> 0 then Inl ABI_MISMATCH
      else
        let c = c\<lparr>cfg_abi_version := CALY_ABI_VERSION, cfg_flags := cfg_flags c AND NOT CALY_F_CAP_MASK\<rparr>;
            (c, w) = san_enums c 0;
            (c, w) = san_depths c w;
            (c, w) = san_scalars c w;
            (c, w) = san_ban c w;
            c = san_thresholds c;
            (c, w) = san_events c w;
            (c, w) = san_intervals c w;
            (c, w) = san_sizes c w
        in san_mgmt c w)"

record caly_features =
  have_synproxy :: bool
  have_ringbuf :: bool
  have_btf :: bool
  have_batch_ops :: bool

definition caly_config_apply_caps :: "fw_config \<Rightarrow> caly_features \<Rightarrow> fw_config" where
  "caly_config_apply_caps c f =
     (let fl = cfg_flags c AND NOT CALY_F_CAP_MASK;
          fl = (if have_synproxy f then fl OR CALY_F_CAP_SYNPROXY else fl);
          fl = (if have_ringbuf f then fl OR CALY_F_CAP_RINGBUF else fl);
          fl = (if have_btf f then fl OR CALY_F_CAP_BTF else fl);
          fl = (if have_batch_ops f then fl OR CALY_F_CAP_BATCH_OPS else fl)
      in c\<lparr>cfg_flags := fl\<rparr>)"

section \<open>What a sanitised configuration satisfies\<close>

definition enums_ok :: "fw_config \<Rightarrow> bool" where
  "enums_ok c \<longleftrightarrow> cfg_mode c \<le> FW_MODE_MAX - 1 \<and> cfg_default_zone c \<le> CALY_ZONE_MAX - 1 \<and>
     cfg_dataplane_pref c \<le> CALY_DP_MAX - 1 \<and> cfg_xdp_attach_pref c \<le> CALY_XDP_MODE_MAX - 1"

definition depths_ok :: "fw_config \<Rightarrow> bool" where
  "depths_ok c \<longleftrightarrow> cfg_vlan_max_depth c \<le> CALY_VLAN_MAX_DEPTH \<and> cfg_ip6_ext_max c \<le> CALY_IP6_EXT_MAX \<and>
     cfg_tunnel_max_depth c \<le> CALY_TUNNEL_MAX_DEPTH"

definition scalars_ok :: "fw_config \<Rightarrow> bool" where
  "scalars_ok c \<longleftrightarrow> cfg_tcp_min_doff c \<in> {5..15} \<and> cfg_ip_min_ttl c \<le> 255 \<and> cfg_log_level c \<le> CALY_LL_MAX - 1"

definition ban_ok :: "fw_config \<Rightarrow> bool" where
  "ban_ok c \<longleftrightarrow> cfg_ban_escalate_den c \<noteq> 0 \<and> cfg_strike_limit c \<noteq> 0 \<and> cfg_ban_ttl_base_ns c \<le> cfg_ban_ttl_max_ns c"

definition thresholds_ok :: "fw_config \<Rightarrow> bool" where
  "thresholds_ok c \<longleftrightarrow> cfg_global_pps_lo c \<le> cfg_global_pps_hi c \<and> cfg_global_bps_lo c \<le> cfg_global_bps_hi c \<and>
     cfg_global_syn_pps_lo c \<le> cfg_global_syn_pps_hi c \<and> cfg_global_newconn_pps_lo c \<le> cfg_global_newconn_pps_hi c"

definition events_ok :: "fw_config \<Rightarrow> bool" where
  "events_ok c \<longleftrightarrow> cfg_event_pages c \<in> {1..1024} \<and> \<not> has_flag (cfg_event_pages c) (cfg_event_pages c - 1)"

definition intervals_ok :: "fw_config \<Rightarrow> bool" where
  "intervals_ok c \<longleftrightarrow> cfg_poll_interval_ms c \<in> {10..60000} \<and> cfg_stats_interval_ms c \<in> {100..600000} \<and>
     cfg_gc_interval_ms c \<in> {100..3600000} \<and> cfg_gc_batch c \<in> {16..1048576}"

definition sizes_ok :: "fw_config \<Rightarrow> bool" where
  "sizes_ok c \<longleftrightarrow>
     (\<forall>n \<in> {cfg_max_ban_entries c, cfg_max_conn_entries c, cfg_max_rate_entries c, cfg_max_scan_entries c,
            cfg_max_srcstat_entries c}. CALY_MAP_ENTRIES_MIN \<le> n \<and> n \<le> CALY_MAP_ENTRIES_MAX) \<and>
     cfg_max_allow_entries c \<in> {64..CALY_MAP_ENTRIES_MAX} \<and> cfg_max_block_entries c \<in> {64..CALY_MAP_ENTRIES_MAX} \<and>
     cfg_max_iface_entries c \<in> {4..4096}"

definition mgmt_ok :: "fw_config \<Rightarrow> bool" where
  "mgmt_ok c \<longleftrightarrow> cfg_mgmt_tcp_count c \<le> 16 \<and> cfg_mgmt_udp_count c \<le> 16 \<and>
     22 \<in> set (take (unat (cfg_mgmt_tcp_count c)) (cfg_mgmt_tcp_ports c)) \<and>
     drop (unat (cfg_mgmt_tcp_count c)) (cfg_mgmt_tcp_ports c) = replicate (16 - unat (cfg_mgmt_tcp_count c)) 0 \<and>
     drop (unat (cfg_mgmt_udp_count c)) (cfg_mgmt_udp_ports c) = replicate (16 - unat (cfg_mgmt_udp_count c)) 0"

definition config_ok :: "fw_config \<Rightarrow> bool" where
  "config_ok c \<longleftrightarrow> enums_ok c \<and> depths_ok c \<and> scalars_ok c \<and> ban_ok c \<and> thresholds_ok c \<and> events_ok c \<and>
     intervals_ok c \<and> sizes_ok c \<and> mgmt_ok c \<and> cfg_abi_version c = CALY_ABI_VERSION \<and>
     \<not> has_flag (cfg_flags c) CALY_F_CAP_MASK"

text \<open>The arrays of the C structure have sixteen slots.\<close>

definition mgmt_arrays :: "fw_config \<Rightarrow> bool" where
  "mgmt_arrays c \<longleftrightarrow> length (cfg_mgmt_tcp_ports c) = 16 \<and> length (cfg_mgmt_udp_ports c) = 16"

lemma clamp_range: "lo \<le> hi \<Longrightarrow> lo \<le> fst (caly_clamp_u32 v lo hi w) \<and> fst (caly_clamp_u32 v lo hi w) \<le> hi"
  by (auto simp: caly_clamp_u32_def)

lemma clamp_id: "lo \<le> v \<Longrightarrow> v \<le> hi \<Longrightarrow> caly_clamp_u32 v lo hi w = (v, w)"
  by (auto simp: caly_clamp_u32_def)

text \<open>Each step establishes its group, and is the identity where the group holds.\<close>

lemma san_enums_ok: "enums_ok (fst (san_enums c w))"
  by (simp add: san_enums_def enums_ok_def split_beta Let_def clamp_range)

lemma san_enums_id: "enums_ok c \<Longrightarrow> san_enums c w = (c, w)"
  by (simp add: san_enums_def enums_ok_def clamp_id)

lemma san_depths_ok: "depths_ok (fst (san_depths c w))"
  by (simp add: san_depths_def depths_ok_def Let_def not_less)

lemma san_depths_id: "depths_ok c \<Longrightarrow> san_depths c w = (c, w)"
  by (simp add: san_depths_def depths_ok_def Let_def leD)

lemma san_scalars_ok: "scalars_ok (fst (san_scalars c w))"
  by (simp add: san_scalars_def scalars_ok_def split_beta Let_def clamp_range)

lemma san_scalars_id: "scalars_ok c \<Longrightarrow> san_scalars c w = (c, w)"
  by (simp add: san_scalars_def scalars_ok_def clamp_id)

lemma san_ban_ok: "ban_ok (fst (san_ban c w))"
  by (simp add: san_ban_def ban_ok_def Let_def not_less)

lemma san_ban_id: "ban_ok c \<Longrightarrow> san_ban c w = (c, w)"
  by (simp add: san_ban_def ban_ok_def Let_def leD)

lemma san_thresholds_ok: "thresholds_ok (san_thresholds c)"
  unfolding san_thresholds_def Let_def thresholds_ok_def by (simp split: if_split add: not_less)

lemma san_thresholds_id: "thresholds_ok c \<Longrightarrow> san_thresholds c = c"
  by (simp add: san_thresholds_def thresholds_ok_def Let_def leD)

lemma san_events_ok: "events_ok (fst (san_events c w))"
proof -
  have p: "cfg_event_pages c \<in> {1..1024} \<or> cfg_event_pages c = 0 \<or> cfg_event_pages c > 1024"
    by (auto simp: word_le_nat_alt word_less_nat_alt unsigned_eq_0_iff [where ?'a = nat, symmetric])
  show ?thesis
  proof (cases "cfg_event_pages c = 0 \<or> has_flag (cfg_event_pages c) (cfg_event_pages c - 1)")
    case True
    then show ?thesis by (simp add: san_events_def events_ok_def caly_clamp_u32_def has_flag_def)
  next
    case False
    with p show ?thesis
      by (auto simp: san_events_def events_ok_def caly_clamp_u32_def has_flag_def Let_def)
  qed
qed

lemma san_events_id: "events_ok c \<Longrightarrow> san_events c w = (c, w)"
  by (auto simp: san_events_def events_ok_def clamp_id)

lemma san_intervals_ok: "intervals_ok (fst (san_intervals c w))"
  by (simp add: san_intervals_def intervals_ok_def split_beta Let_def clamp_range)

lemma san_intervals_id: "intervals_ok c \<Longrightarrow> san_intervals c w = (c, w)"
  by (simp add: san_intervals_def intervals_ok_def clamp_id)

lemma san_sizes_ok: "sizes_ok (fst (san_sizes c w))"
  by (simp add: san_sizes_def sizes_ok_def split_beta Let_def clamp_range)

lemma san_sizes_id: "sizes_ok c \<Longrightarrow> san_sizes c w = (c, w)"
  by (simp add: san_sizes_def sizes_ok_def clamp_id)

text \<open>The zeroing loop keeps the first \<open>n\<close> slots.\<close>

lemma zero_from_eq:
  "length ps = 16 \<Longrightarrow> zero_from n ps = take (unat n) ps @ replicate (16 - unat n) 0"
  by (simp add: zero_from_def fill_slots)

lemma zero_from_id:
  "length ps = 16 \<Longrightarrow> drop (unat n) ps = replicate (16 - unat n) 0 \<Longrightarrow> zero_from n ps = ps"
  by (metis append_take_drop_id zero_from_eq)

lemma san_mgmt_cases:
  assumes "mgmt_arrays c" "san_mgmt c w = Inr (c', w')"
  shows "mgmt_ok c' \<and> mgmt_arrays c' \<and>
         (\<exists>m n ps qs. c' = c\<lparr>cfg_mgmt_tcp_count := m, cfg_mgmt_udp_count := n, cfg_mgmt_tcp_ports := ps,
                               cfg_mgmt_udp_ports := qs\<rparr>)"
proof -
  define m where "m = (if cfg_mgmt_tcp_count c > 16 then 16 else cfg_mgmt_tcp_count c)"
  define n where "n = (if cfg_mgmt_udp_count c > 16 then 16 else cfg_mgmt_udp_count c)"
  define ps where "ps = zero_from m (cfg_mgmt_tcp_ports c)"
  define qs where "qs = zero_from n (cfg_mgmt_udp_ports c)"
  define b where "b = c\<lparr>cfg_mgmt_tcp_count := m, cfg_mgmt_udp_count := n, cfg_mgmt_tcp_ports := ps, cfg_mgmt_udp_ports := qs\<rparr>"
  have mn: "m \<le> 16" "n \<le> 16" by (auto simp: m_def n_def)
  then have um: "unat m \<le> 16" "unat n \<le> 16" by (auto simp: word_le_nat_alt)
  have ps: "ps = take (unat m) (cfg_mgmt_tcp_ports c) @ replicate (16 - unat m) 0" "length ps = 16"
    using assms(1) um by (simp_all add: ps_def zero_from_eq mgmt_arrays_def)
  have qs: "qs = take (unat n) (cfg_mgmt_udp_ports c) @ replicate (16 - unat n) 0" "length qs = 16"
    using assms(1) um by (simp_all add: qs_def zero_from_eq mgmt_arrays_def)
  have r: "san_mgmt c w =
     (if list_ex (\<lambda>i. ps ! i = 22) [0..<unat m] then Inr (b, w)
      else if m < 16 then Inr (b\<lparr>cfg_mgmt_tcp_ports := ps[unat m := 22], cfg_mgmt_tcp_count := m + 1\<rparr>, w + 1)
      else Inl NO_SLOT_FOR_SSH)"
    by (simp add: san_mgmt_def m_def n_def ps_def qs_def b_def)
  have dq: "drop (unat n) qs = replicate (16 - unat n) 0" using qs um assms(1) by (simp add: mgmt_arrays_def)
  show ?thesis
  proof (cases "list_ex (\<lambda>i. ps ! i = 22) [0..<unat m]")
    case True
    then obtain i where "i < unat m" "ps ! i = 22" by (auto simp: list_ex_iff)
    then have "22 \<in> set (take (unat m) ps)"
      using um ps(2) by (auto simp: in_set_conv_nth intro!: exI [of _ i])
    moreover have "drop (unat m) ps = replicate (16 - unat m) 0"
      using ps um assms(1) by (simp add: mgmt_arrays_def)
    moreover have "c' = b" using True r assms(2) by simp
    ultimately show ?thesis
      using mn ps(2) qs(2) dq by (auto simp: mgmt_ok_def mgmt_arrays_def b_def)
  next
    case False
    then have lt: "m < 16" and c': "c' = b\<lparr>cfg_mgmt_tcp_ports := ps[unat m := 22], cfg_mgmt_tcp_count := m + 1\<rparr>"
      using r assms(2) by (auto split: if_splits)
    have u: "unat (m + 1) = Suc (unat m)" using lt by (auto simp: word_less_nat_alt unat_word_ariths)
    have le: "m + 1 \<le> 16" using lt u by (simp add: word_le_nat_alt word_less_nat_alt)
    have ltm: "unat m < 16" using lt by (simp add: word_less_nat_alt)
    have "22 \<in> set (take (Suc (unat m)) (ps[unat m := 22]))"
      using ltm ps(2) by (simp add: take_Suc_conv_app_nth)
    moreover have "drop (Suc (unat m)) (ps[unat m := 22]) = replicate (16 - Suc (unat m)) 0"
      using ps ltm assms(1) by (simp add: mgmt_arrays_def)
    ultimately have "mgmt_ok c' \<and> mgmt_arrays c'"
      using mn le u ps(2) qs(2) dq by (auto simp: c' mgmt_ok_def mgmt_arrays_def b_def)
    moreover have "c' = c\<lparr>cfg_mgmt_tcp_count := m + 1, cfg_mgmt_udp_count := n,
        cfg_mgmt_tcp_ports := ps[unat m := 22], cfg_mgmt_udp_ports := qs\<rparr>"
      by (simp add: c' b_def)
    ultimately show ?thesis by blast
  qed
qed

lemma san_mgmt_id:
  assumes "mgmt_arrays c" "mgmt_ok c"
  shows "san_mgmt c w = Inr (c, w)"
proof -
  have "list_ex (\<lambda>i. cfg_mgmt_tcp_ports c ! i = 22) [0..<unat (cfg_mgmt_tcp_count c)]"
    using assms by (auto simp: mgmt_ok_def in_set_conv_nth list_ex_iff intro!: bexI)
  then show ?thesis
    using assms by (simp add: san_mgmt_def Let_def mgmt_ok_def mgmt_arrays_def zero_from_id leD)
qed

lemma san_mgmt_error:
  "(\<exists>e. san_mgmt c w = Inl e) \<longleftrightarrow>
     cfg_mgmt_tcp_count c \<ge> 16 \<and> 22 \<notin> set (take 16 (cfg_mgmt_tcp_ports c))" if "mgmt_arrays c"
proof -
  have p: "length (cfg_mgmt_tcp_ports c) = 16" using that by (simp add: mgmt_arrays_def)
  have e: "(\<exists>i\<in>set [0..<16]. cfg_mgmt_tcp_ports c ! i = 22) \<longleftrightarrow> 22 \<in> set (cfg_mgmt_tcp_ports c)"
    using p by (auto simp: in_set_conv_nth)
  show ?thesis
  proof (cases "cfg_mgmt_tcp_count c \<ge> 16")
    case True
    then have "(if cfg_mgmt_tcp_count c > 16 then 16 else cfg_mgmt_tcp_count c) = 16" by auto
    then show ?thesis
      using True p e by (auto simp: san_mgmt_def Let_def zero_from_eq list_ex_iff)
  next
    case False
    then show ?thesis by (auto simp: san_mgmt_def Let_def)
  qed
qed

section \<open>The steps do not interfere\<close>

lemma san_depths_frame [simp]: "enums_ok (fst (san_depths c w)) = enums_ok c"
  by (simp add: san_depths_def enums_ok_def Let_def)

lemma san_scalars_frame [simp]:
  "enums_ok (fst (san_scalars c w)) = enums_ok c" "depths_ok (fst (san_scalars c w)) = depths_ok c"
  by (simp_all add: san_scalars_def enums_ok_def depths_ok_def split_beta Let_def)

lemma san_ban_frame [simp]:
  "enums_ok (fst (san_ban c w)) = enums_ok c" "depths_ok (fst (san_ban c w)) = depths_ok c"
  "scalars_ok (fst (san_ban c w)) = scalars_ok c"
  by (simp_all add: san_ban_def enums_ok_def depths_ok_def scalars_ok_def Let_def)

lemma san_thresholds_frame [simp]:
  "enums_ok (san_thresholds c) = enums_ok c" "depths_ok (san_thresholds c) = depths_ok c"
  "scalars_ok (san_thresholds c) = scalars_ok c" "ban_ok (san_thresholds c) = ban_ok c"
  by (simp_all add: san_thresholds_def enums_ok_def depths_ok_def scalars_ok_def ban_ok_def Let_def)

lemma san_events_frame [simp]:
  "enums_ok (fst (san_events c w)) = enums_ok c" "depths_ok (fst (san_events c w)) = depths_ok c"
  "scalars_ok (fst (san_events c w)) = scalars_ok c" "ban_ok (fst (san_events c w)) = ban_ok c"
  "thresholds_ok (fst (san_events c w)) = thresholds_ok c"
  by (simp_all add: san_events_def enums_ok_def depths_ok_def scalars_ok_def ban_ok_def thresholds_ok_def
        split_beta Let_def)

lemma san_intervals_frame [simp]:
  "enums_ok (fst (san_intervals c w)) = enums_ok c" "depths_ok (fst (san_intervals c w)) = depths_ok c"
  "scalars_ok (fst (san_intervals c w)) = scalars_ok c" "ban_ok (fst (san_intervals c w)) = ban_ok c"
  "thresholds_ok (fst (san_intervals c w)) = thresholds_ok c" "events_ok (fst (san_intervals c w)) = events_ok c"
  by (simp_all add: san_intervals_def enums_ok_def depths_ok_def scalars_ok_def ban_ok_def thresholds_ok_def
        events_ok_def split_beta Let_def)

lemma san_sizes_frame [simp]:
  "enums_ok (fst (san_sizes c w)) = enums_ok c" "depths_ok (fst (san_sizes c w)) = depths_ok c"
  "scalars_ok (fst (san_sizes c w)) = scalars_ok c" "ban_ok (fst (san_sizes c w)) = ban_ok c"
  "thresholds_ok (fst (san_sizes c w)) = thresholds_ok c" "events_ok (fst (san_sizes c w)) = events_ok c"
  "intervals_ok (fst (san_sizes c w)) = intervals_ok c"
  by (simp_all add: san_sizes_def enums_ok_def depths_ok_def scalars_ok_def ban_ok_def thresholds_ok_def
        events_ok_def intervals_ok_def split_beta Let_def)

text \<open>What no step before the last touches.\<close>

definition carried :: "fw_config \<Rightarrow> u64 \<times> u64 \<times> u64 \<times> u32 \<times> u32 \<times> u16 list \<times> u16 list" where
  "carried c = (cfg_abi_version c, cfg_config_gen c, cfg_flags c, cfg_mgmt_tcp_count c, cfg_mgmt_udp_count c,
                cfg_mgmt_tcp_ports c, cfg_mgmt_udp_ports c)"

lemma san_carried [simp]:
  "carried (fst (san_enums c w)) = carried c" "carried (fst (san_depths c w)) = carried c"
  "carried (fst (san_scalars c w)) = carried c" "carried (fst (san_ban c w)) = carried c"
  "carried (san_thresholds c) = carried c" "carried (fst (san_events c w)) = carried c"
  "carried (fst (san_intervals c w)) = carried c" "carried (fst (san_sizes c w)) = carried c"
  by (simp_all add: carried_def san_enums_def san_depths_def san_scalars_def san_ban_def san_thresholds_def
        san_events_def san_intervals_def san_sizes_def split_beta Let_def)

lemma sanitize_before_mgmt:
  assumes "\<not> (drop_bit 16 (cfg_abi_version c) \<noteq> 1 \<and> cfg_abi_version c \<noteq> 0)"
  shows "\<exists>b v. caly_config_sanitize c = san_mgmt b v \<and> enums_ok b \<and> depths_ok b \<and> scalars_ok b \<and> ban_ok b \<and>
    thresholds_ok b \<and> events_ok b \<and> intervals_ok b \<and> sizes_ok b \<and>
    carried b = carried (c\<lparr>cfg_abi_version := CALY_ABI_VERSION, cfg_flags := cfg_flags c AND NOT CALY_F_CAP_MASK\<rparr>)"
proof -
  let ?c = "c\<lparr>cfg_abi_version := CALY_ABI_VERSION, cfg_flags := cfg_flags c AND NOT CALY_F_CAP_MASK\<rparr>"
  let ?p1 = "san_enums ?c 0"
  let ?p2 = "san_depths (fst ?p1) (snd ?p1)"
  let ?p3 = "san_scalars (fst ?p2) (snd ?p2)"
  let ?p4 = "san_ban (fst ?p3) (snd ?p3)"
  let ?p6 = "san_events (san_thresholds (fst ?p4)) (snd ?p4)"
  let ?p7 = "san_intervals (fst ?p6) (snd ?p6)"
  let ?p8 = "san_sizes (fst ?p7) (snd ?p7)"
  have "caly_config_sanitize c = san_mgmt (fst ?p8) (snd ?p8)"
    unfolding caly_config_sanitize_def if_not_P [OF assms] Let_def split_beta ..
  then show ?thesis
    by (intro exI [of _ "fst ?p8"] exI [of _ "snd ?p8"])
      (simp add: san_enums_ok san_depths_ok san_scalars_ok san_ban_ok san_thresholds_ok san_events_ok
        san_intervals_ok san_sizes_ok)
qed

lemma sanitize_config_ok:
  assumes "caly_config_sanitize c = Inr (c', w)" "mgmt_arrays c"
  shows "config_ok c' \<and> mgmt_arrays c' \<and> cfg_flags c' = cfg_flags c AND NOT CALY_F_CAP_MASK"
proof -
  obtain b v where b: "san_mgmt b v = Inr (c', w)" "mgmt_arrays b" "enums_ok b" "depths_ok b" "scalars_ok b"
    "ban_ok b" "thresholds_ok b" "events_ok b" "intervals_ok b" "sizes_ok b"
    "carried b = carried (c\<lparr>cfg_abi_version := CALY_ABI_VERSION, cfg_flags := cfg_flags c AND NOT CALY_F_CAP_MASK\<rparr>)"
  proof -
    have "\<not> (drop_bit 16 (cfg_abi_version c) \<noteq> 1 \<and> cfg_abi_version c \<noteq> 0)"
      using assms(1) unfolding caly_config_sanitize_def by (rule contrapos_pn) (simp only: if_True, simp)
    from sanitize_before_mgmt [OF this] assms show thesis
      by (auto simp: carried_def mgmt_arrays_def intro!: that)
  qed
  obtain m n ps qs where c': "c' = b\<lparr>cfg_mgmt_tcp_count := m, cfg_mgmt_udp_count := n, cfg_mgmt_tcp_ports := ps,
      cfg_mgmt_udp_ports := qs\<rparr>" and m: "mgmt_ok c'" "mgmt_arrays c'"
    using san_mgmt_cases [OF b(2,1)] by blast
  have "enums_ok c'" "depths_ok c'" "scalars_ok c'" "ban_ok c'" "thresholds_ok c'" "events_ok c'"
      "intervals_ok c'" "sizes_ok c'"
    using b(3-10)
    by (simp_all add: c' enums_ok_def depths_ok_def scalars_ok_def ban_ok_def thresholds_ok_def events_ok_def
          intervals_ok_def sizes_ok_def)
  moreover have f: "cfg_flags c' = cfg_flags c AND NOT CALY_F_CAP_MASK" and "cfg_abi_version c' = CALY_ABI_VERSION"
    using b(11) by (simp_all add: c' carried_def)
  moreover have "\<not> has_flag (cfg_flags c') CALY_F_CAP_MASK"
    by (simp add: f has_flag_def and.assoc)
  ultimately show ?thesis using m by (simp add: config_ok_def)
qed

lemma config_ok_fixpoint:
  assumes "config_ok c" "mgmt_arrays c"
  shows "caly_config_sanitize c = Inr (c, 0)"
proof -
  have "c\<lparr>cfg_abi_version := CALY_ABI_VERSION, cfg_flags := cfg_flags c AND NOT CALY_F_CAP_MASK\<rparr> = c"
  proof -
    have "cfg_flags c = (cfg_flags c AND CALY_F_CAP_MASK) OR (cfg_flags c AND NOT CALY_F_CAP_MASK)"
      by (simp only: bit.conj_disj_distrib [symmetric] bit.disj_cancel_right bit.conj_one_right)
    moreover have "cfg_flags c AND CALY_F_CAP_MASK = 0"
      using assms(1) by (simp add: config_ok_def has_flag_def)
    ultimately show ?thesis using assms(1) by (simp add: config_ok_def)
  qed
  moreover have "drop_bit 16 (cfg_abi_version c) = 1"
    using assms(1) by (simp add: config_ok_def CALY_ABI_VERSION_def)
  ultimately show ?thesis
    using assms by (simp add: caly_config_sanitize_def Let_def config_ok_def san_enums_id san_depths_id
        san_scalars_id san_ban_id san_thresholds_id san_events_id san_intervals_id san_sizes_id san_mgmt_id)
qed

section \<open>Properties of the sanitiser\<close>

text \<open>C18. Every configuration the daemon accepts is well formed: the enumerations are in range, the
  parser depths within what the data plane was compiled for, the intervals and map sizes within
  their limits, the divisors non-zero, each low threshold at most its high one, the unused management
  slots zero, port 22 a management port, and no capability bit is set; the other flags are kept, and
  sanitising again changes nothing and warns of nothing.\<close>

theorem caly_config_sanitize_ok:
  assumes "mgmt_arrays c" "caly_config_sanitize c = Inr (c', w)"
  shows "config_ok c' \<and> cfg_flags c' = cfg_flags c AND NOT CALY_F_CAP_MASK \<and>
         caly_config_sanitize c' = Inr (c', 0)"
  using sanitize_config_ok [OF assms(2,1)] config_ok_fixpoint by blast

text \<open>The two refusals are exact: a configuration is rejected if it was written for another major
  version of the ABI, or if the sixteen management slots are all taken and none is port 22; every
  other configuration is accepted.\<close>

theorem caly_config_sanitize_error:
  assumes "mgmt_arrays c"
  shows "(\<exists>e. caly_config_sanitize c = Inl e) \<longleftrightarrow>
           cfg_abi_version c \<noteq> 0 \<and> drop_bit 16 (cfg_abi_version c) \<noteq> 1 \<or>
           cfg_mgmt_tcp_count c \<ge> 16 \<and> 22 \<notin> set (cfg_mgmt_tcp_ports c)"
proof (cases "drop_bit 16 (cfg_abi_version c) \<noteq> 1 \<and> cfg_abi_version c \<noteq> 0")
  case False
  obtain b v where b: "caly_config_sanitize c = san_mgmt b v"
      "carried b = carried (c\<lparr>cfg_abi_version := CALY_ABI_VERSION, cfg_flags := cfg_flags c AND NOT CALY_F_CAP_MASK\<rparr>)"
    using sanitize_before_mgmt [OF False] by blast
  have p: "mgmt_arrays b" "length (cfg_mgmt_tcp_ports c) = 16" "cfg_mgmt_tcp_count b = cfg_mgmt_tcp_count c"
      "cfg_mgmt_tcp_ports b = cfg_mgmt_tcp_ports c"
    using b(2) assms by (auto simp: carried_def mgmt_arrays_def)
  then show ?thesis using False san_mgmt_error [OF p(1), of v] by (simp add: b(1)) blast
qed (auto simp: caly_config_sanitize_def)

lemma defaults_ok: "config_ok caly_config_defaults" "mgmt_arrays caly_config_defaults"
proof -
  note d = caly_config_defaults_def
  have "enums_ok caly_config_defaults" "depths_ok caly_config_defaults" "scalars_ok caly_config_defaults"
      "ban_ok caly_config_defaults" "thresholds_ok caly_config_defaults" "events_ok caly_config_defaults"
      "intervals_ok caly_config_defaults" "sizes_ok caly_config_defaults"
    by (simp_all add: d enums_ok_def depths_ok_def scalars_ok_def ban_ok_def thresholds_ok_def events_ok_def
          intervals_ok_def sizes_ok_def has_flag_def)
  moreover have "mgmt_ok caly_config_defaults"
    by (simp add: d mgmt_ok_def drop_Cons' take_Cons')
  moreover have "\<not> has_flag (cfg_flags caly_config_defaults) CALY_F_CAP_MASK" "cfg_abi_version caly_config_defaults = CALY_ABI_VERSION"
    by (simp_all add: d)
  ultimately show "config_ok caly_config_defaults" by (simp add: config_ok_def)
  show "mgmt_arrays caly_config_defaults" by (simp add: d mgmt_arrays_def)
qed

text \<open>The defaults need no repair: they are well formed and the sanitiser returns them unchanged with
  no warning.\<close>

theorem caly_config_defaults_clean:
  "config_ok caly_config_defaults \<and> caly_config_sanitize caly_config_defaults = Inr (caly_config_defaults, 0)"
  using defaults_ok config_ok_fixpoint by blast

lemma mgmt_tcp_iff:
  "mgmt_arrays c \<Longrightarrow> caly_is_mgmt_tcp c p \<longleftrightarrow> p \<in> set (take (unat (cfg_mgmt_tcp_count c)) (cfg_mgmt_tcp_ports c))"
  using mgmt_loop_take [of "cfg_mgmt_tcp_ports c" "cfg_mgmt_tcp_count c" p]
  by (simp only: caly_is_mgmt_tcp_def mgmt_arrays_def Let_def of_nat_numeral)

lemma split_mask: "(x AND c) OR (x AND NOT c) = (x :: u64)"
  by (simp only: bit.conj_disj_distrib [symmetric] bit.disj_cancel_right bit.conj_one_right)

lemma masked_clear: "m AND c = 0 \<Longrightarrow> (x AND NOT c) AND m = x AND (m :: u64)"
  using split_mask [of m c] by (metis and.assoc and.commute or.left_neutral)

lemma masked_or: "m AND c = 0 \<Longrightarrow> b AND c = b \<Longrightarrow> (x OR b) AND m = x AND (m :: u64)"
proof -
  assume m: "m AND c = 0" and b: "b AND c = b"
  have "b AND m = b AND (m AND c)" by (subst b [symmetric]) (simp only: and.assoc and.commute [of c])
  then have "b AND m = 0" by (simp only: m bit.conj_zero_right)
  then show ?thesis by (simp only: bit.conj_disj_distrib2 or.right_neutral)
qed

lemmas masked_cap = masked_or [of _ CALY_F_CAP_MASK]

lemma apply_caps_frame:
  "\<exists>fl. caly_config_apply_caps c f = c\<lparr>cfg_flags := fl\<rparr> \<and>
        (\<forall>m. m AND CALY_F_CAP_MASK = 0 \<longrightarrow> fl AND m = cfg_flags c AND m)"
  unfolding caly_config_apply_caps_def Let_def
  by (intro exI conjI, rule refl) (simp add: masked_clear [of _ CALY_F_CAP_MASK, simplified] masked_cap)

text \<open>The operator is never locked out of SSH by a configuration: whatever an accepted configuration
  says about management ports, with the capability bits the loader adds, a TCP packet to port 22 that
  passed the stateless checks is passed by the policy program, in every mode and from any source, when
  \<open>MGMT_BYPASS_ALL\<close> is set.\<close>

theorem ssh_reachable_under_any_config:
  assumes "mgmt_arrays c" "caly_config_sanitize c = Inr (c', w)" "cfg = caly_config_apply_caps c' f"
    and "has_flag (cfg_flags c) CALY_F_MGMT_BYPASS_ALL"
    and "dp_config s = Some cfg" "dp_scratch s = Some sc" "checks_pass k (policy_env cfg sc) s"
    and "pk_proto (sc_pkt sc) = CALY_IPPROTO_TCP" "ntohs (pk_dport (sc_pkt sc)) = 22"
    and "\<not> has_flag (pk_flags (sc_pkt sc)) CALY_PKT_F_L4_TRUNC"
  shows "fst (caly_xdp_policy k synproxy d s) = XDP_PASS"
proof -
  have ok: "config_ok c'" "mgmt_arrays c'" "cfg_flags c' = cfg_flags c AND NOT CALY_F_CAP_MASK"
    using sanitize_config_ok [OF assms(2,1)] by auto
  obtain fl where fl: "cfg = c'\<lparr>cfg_flags := fl\<rparr>" "\<forall>m. m AND CALY_F_CAP_MASK = 0 \<longrightarrow> fl AND m = cfg_flags c' AND m"
    using apply_caps_frame [of c' f] assms(3) by blast
  have "has_flag (cfg_flags cfg) CALY_F_MGMT_BYPASS_ALL"
    using assms(4) fl(2) [rule_format, of CALY_F_MGMT_BYPASS_ALL] by (simp add: fl(1) ok(3) has_flag_def and.assoc)
  moreover have "mgmt_arrays cfg" using ok(2) by (simp add: fl(1) mgmt_arrays_def)
  from mgmt_tcp_iff [OF this, of 22] have "to_mgmt_port cfg sc"
    using ok(1) assms(8-10)
    by (simp add: fl(1) to_mgmt_port_def policy_env_def is_mgmt_def Let_def config_ok_def mgmt_ok_def)
  ultimately show ?thesis using mgmt_port_pass assms(5-7) by blast
qed

section \<open>Witnesses\<close>

text \<open>A configuration with an unknown mode and no management port.\<close>

definition bad_cfg :: fw_config where
  "bad_cfg = caly_config_defaults\<lparr>cfg_mode := 9, cfg_mgmt_tcp_count := 0, cfg_mgmt_tcp_ports := replicate 16 0\<rparr>"

lemma groups_mode:
  "depths_ok (c\<lparr>cfg_mode := m, cfg_mgmt_tcp_count := n, cfg_mgmt_tcp_ports := ps\<rparr>) = depths_ok c"
  "scalars_ok (c\<lparr>cfg_mode := m, cfg_mgmt_tcp_count := n, cfg_mgmt_tcp_ports := ps\<rparr>) = scalars_ok c"
  "ban_ok (c\<lparr>cfg_mode := m, cfg_mgmt_tcp_count := n, cfg_mgmt_tcp_ports := ps\<rparr>) = ban_ok c"
  "thresholds_ok (c\<lparr>cfg_mode := m, cfg_mgmt_tcp_count := n, cfg_mgmt_tcp_ports := ps\<rparr>) = thresholds_ok c"
  "events_ok (c\<lparr>cfg_mode := m, cfg_mgmt_tcp_count := n, cfg_mgmt_tcp_ports := ps\<rparr>) = events_ok c"
  "intervals_ok (c\<lparr>cfg_mode := m, cfg_mgmt_tcp_count := n, cfg_mgmt_tcp_ports := ps\<rparr>) = intervals_ok c"
  "sizes_ok (c\<lparr>cfg_mode := m, cfg_mgmt_tcp_count := n, cfg_mgmt_tcp_ports := ps\<rparr>) = sizes_ok c"
  by (simp_all add: depths_ok_def scalars_ok_def ban_ok_def thresholds_ok_def events_ok_def intervals_ok_def
        sizes_ok_def)

lemma bad_cfg_fixed:
  "caly_config_sanitize bad_cfg = Inr (caly_config_defaults\<lparr>cfg_mode := FW_MODE_MAX - 1\<rparr>, 2)"
proof -
  let ?c = "caly_config_defaults\<lparr>cfg_mode := FW_MODE_MAX - 1, cfg_mgmt_tcp_count := 0, cfg_mgmt_tcp_ports := replicate 16 0\<rparr>"
  have replicate_Cons: "replicate 16 (0 :: u16) = 0 # replicate 15 0" by (simp add: numeral_eq_Suc)
  note ok = defaults_ok(1) [unfolded config_ok_def]
  have e: "san_enums bad_cfg 0 = (?c, 1)"
    by (simp add: san_enums_def bad_cfg_def caly_clamp_u32_def caly_config_defaults_def)
  have m: "san_mgmt ?c 1 = Inr (caly_config_defaults\<lparr>cfg_mode := FW_MODE_MAX - 1\<rparr>, 2)"
    by (simp add: san_mgmt_def Let_def zero_from_eq caly_config_defaults_def replicate_Cons)
  have f: "bad_cfg\<lparr>cfg_abi_version := CALY_ABI_VERSION, cfg_flags := cfg_flags bad_cfg AND NOT CALY_F_CAP_MASK\<rparr> = bad_cfg"
    by (simp add: bad_cfg_def caly_config_defaults_def)
  have a: "drop_bit 16 (cfg_abi_version bad_cfg) = 1"
    by (simp add: bad_cfg_def caly_config_defaults_def CALY_ABI_VERSION_def)
  show ?thesis
    unfolding caly_config_sanitize_def Let_def f using a e m ok
    by (simp add: groups_mode san_depths_id san_scalars_id san_ban_id san_thresholds_id san_events_id
        san_intervals_id san_sizes_id)
qed

lemma bad_cfg_arrays: "mgmt_arrays bad_cfg"
  by (simp add: bad_cfg_def mgmt_arrays_def caly_config_defaults_def)

theorem caly_config_sanitize_ok_witness:
  "config_ok (caly_config_defaults\<lparr>cfg_mode := FW_MODE_MAX - 1\<rparr>)"
  using caly_config_sanitize_ok [OF bad_cfg_arrays bad_cfg_fixed] by blast

theorem caly_config_sanitize_error_witness:
  "\<exists>e. caly_config_sanitize (bad_cfg\<lparr>cfg_mgmt_tcp_count := 16, cfg_mgmt_tcp_ports := replicate 16 443\<rparr>) = Inl e"
  using caly_config_sanitize_error [of "bad_cfg\<lparr>cfg_mgmt_tcp_count := 16, cfg_mgmt_tcp_ports := replicate 16 443\<rparr>"]
  by (simp add: bad_cfg_def mgmt_arrays_def caly_config_defaults_def)

theorem ssh_reachable_under_any_config_witness:
  "fst (caly_xdp_policy k0 (\<lambda>d s. (XDP_TX, s)) []
          ((dp0 (caly_config_apply_caps (caly_config_defaults\<lparr>cfg_mode := FW_MODE_MAX - 1\<rparr>)
                   \<lparr>have_synproxy = True, have_ringbuf = True, have_btf = True, have_batch_ops = True\<rparr>) ssh_sc)
           \<lparr>dp_block := [(K4 7, 32) \<mapsto> rule0]\<rparr>)) = XDP_PASS"
  by (rule ssh_reachable_under_any_config [OF bad_cfg_arrays bad_cfg_fixed refl, where sc = ssh_sc
        and f = "\<lparr>have_synproxy = True, have_ringbuf = True, have_btf = True, have_batch_ops = True\<rparr>"])
    (simp_all add: checks_pass_def policy_land_def policy_tcp_def policy_udp_def policy_icmp_def
      policy_bogon_def Let_def policy_env_def bad_cfg_def caly_config_defaults_def caly_config_apply_caps_def)

end
