(* ===== verification/Caly_Seed.thy ===== *)
theory Caly_Seed
  imports Caly_Loader Caly_Action
begin

text \<open>
  How user space fills the policy maps (\<open>loader.c\<close>, \<open>main.c\<close>): the baseline of the port and ICMP arrays,
  the rules of the configuration file, the prefixes and the interfaces.  The maps are those of the
  data plane's state.

  The record \<open>syscalls\<close> is what the kernel answers: whether a map is there, whether the update or the
  lookup of an array slot succeeds, after how many elements a batch update fails, and whether the
  buffers of a batch could be allocated.  An operation gives \<^term>\<open>None\<close> where the code returns 0 and
  the error otherwise, with the state as it is then.
\<close>

section \<open>Maps and system calls\<close>

datatype caly_map_id = MID_CONFIG | MID_STATS | MID_STATS_B | MID_GLOBAL | MID_ALLOW4 | MID_ALLOW6 | MID_BLOCK4
  | MID_BLOCK6 | MID_LOCAL4 | MID_LOCAL6 | MID_BAN4 | MID_BAN6 | MID_RATE4 | MID_RATE6 | MID_CONN | MID_SCAN4
  | MID_SCAN6 | MID_TOP4 | MID_TOP6 | MID_PORT_TCP | MID_PORT_UDP | MID_PORT_TB | MID_ICMP4_POL | MID_ICMP6_POL
  | MID_IFACE | MID_EVENTS | MID_EVENTS_RB | MID_PROGS | MID_SCRATCH

datatype errno = EINVAL | ENOENT | EPERM | ESYS

record syscalls =
  sy_fd :: "caly_map_id \<Rightarrow> bool"
  sy_upd :: "caly_map_id \<Rightarrow> u32 \<Rightarrow> bool"
  sy_get :: "caly_map_id \<Rightarrow> u32 \<Rightarrow> bool"
  sy_batch :: "caly_map_id \<Rightarrow> u32 \<Rightarrow> nat option"
  sy_mem :: "caly_map_id \<Rightarrow> bool"
  sy_lpm :: "caly_map_id \<Rightarrow> lpm_map \<Rightarrow> lpm_key \<Rightarrow> rule_meta \<Rightarrow> lpm_map option"

type_synonym op = "dp_state \<Rightarrow> errno option \<times> dp_state"

text \<open>Steps that run until one fails: the chain of \<open>if (f() != 0) return -1\<close>.\<close>

primrec run_ops :: "op list \<Rightarrow> op" where
  "run_ops [] s = (None, s)"
| "run_ops (f # fs) s = (case f s of (None, s) \<Rightarrow> run_ops fs s | (Some e, s) \<Rightarrow> (Some e, s))"

section \<open>One slot\<close>

abbreviation (input) "icmp4_mandatory \<equiv> [3 :: u32]"
abbreviation (input) "icmp6_mandatory \<equiv> [2, 133, 134, 135, 136 :: u32]"

definition caly_icmp_type_is_mandatory :: "u32 \<Rightarrow> u32 \<Rightarrow> bool" where
  "caly_icmp_type_is_mandatory family type =
     (if family = CALY_AF_INET6 then list_ex (\<lambda>v. v = type) icmp6_mandatory
      else if family = CALY_AF_INET then list_ex (\<lambda>v. v = type) icmp4_mandatory
      else False)"

definition icmp_put :: "bool \<Rightarrow> u32 \<Rightarrow> u32 \<Rightarrow> dp_state \<Rightarrow> dp_state" where
  "icmp_put v6 type policy s =
     (if v6 then s\<lparr>dp_icmp6_pol := (dp_icmp6_pol s)(type \<mapsto> policy)\<rparr>
      else s\<lparr>dp_icmp4_pol := (dp_icmp4_pol s)(type \<mapsto> policy)\<rparr>)"

definition icmp_mid :: "bool \<Rightarrow> caly_map_id" where
  "icmp_mid v6 = (if v6 then MID_ICMP6_POL else MID_ICMP4_POL)"

definition caly_icmp_policy_set :: "syscalls \<Rightarrow> u32 \<Rightarrow> u32 \<Rightarrow> u32 \<Rightarrow> op" where
  "caly_icmp_policy_set sy family type policy s =
     (if type > 255 then (Some EINVAL, s)
      else if policy \<ge> CALY_ICMP_POL_MAX then (Some EINVAL, s)
      else if policy = CALY_ICMP_DROP \<and> caly_icmp_type_is_mandatory family type then (Some EPERM, s)
      else
        let v6 = (family = CALY_AF_INET6) in
        if \<not> sy_fd sy (icmp_mid v6) then (Some ENOENT, s)
        else if \<not> sy_upd sy (icmp_mid v6) type then (Some ESYS, s)
        else (None, icmp_put v6 type policy s))"

definition port_mid :: "bool \<Rightarrow> caly_map_id" where
  "port_mid is_udp = (if is_udp then MID_PORT_UDP else MID_PORT_TCP)"

definition dp_port :: "bool \<Rightarrow> dp_state \<Rightarrow> u32 \<rightharpoonup> port_rule" where
  "dp_port is_udp s = (if is_udp then dp_port_udp s else dp_port_tcp s)"

definition set_dp_port :: "bool \<Rightarrow> (u32 \<rightharpoonup> port_rule) \<Rightarrow> dp_state \<Rightarrow> dp_state" where
  "set_dp_port is_udp m s = (if is_udp then s\<lparr>dp_port_udp := m\<rparr> else s\<lparr>dp_port_tcp := m\<rparr>)"

definition caly_port_rule_set :: "syscalls \<Rightarrow> bool \<Rightarrow> u32 \<Rightarrow> port_rule \<Rightarrow> op" where
  "caly_port_rule_set sy is_udp port rule s =
     (if port > 65535 then (Some EINVAL, s)
      else if \<not> sy_fd sy (port_mid is_udp) then (Some ENOENT, s)
      else if \<not> sy_upd sy (port_mid is_udp) port then (Some ESYS, s)
      else (None, set_dp_port is_udp ((dp_port is_udp s)(port \<mapsto> rule)) s))"

definition caly_port_rule_get :: "syscalls \<Rightarrow> bool \<Rightarrow> u32 \<Rightarrow> dp_state \<Rightarrow> port_rule option" where
  "caly_port_rule_get sy is_udp port s =
     (if port > 65535 then None
      else if \<not> sy_fd sy (port_mid is_udp) then None
      else if \<not> sy_get sy (port_mid is_udp) port then None
      else dp_port is_udp s port)"

definition caly_iface_config_set :: "syscalls \<Rightarrow> iface_config \<Rightarrow> op" where
  "caly_iface_config_set sy ic s =
     (if if_ifindex ic = 0 then (Some EINVAL, s)
      else if \<not> sy_fd sy MID_IFACE then (Some ENOENT, s)
      else if \<not> sy_upd sy MID_IFACE (if_ifindex ic) then (Some ESYS, s)
      else (None, s\<lparr>dp_iface := (dp_iface s)(if_ifindex ic \<mapsto> ic)\<rparr>))"

section \<open>Filling an array\<close>

primrec fill_each :: "(u32 \<Rightarrow> bool) \<Rightarrow> 'v \<Rightarrow> u32 list \<Rightarrow> (u32 \<rightharpoonup> 'v) \<Rightarrow> bool \<times> (u32 \<rightharpoonup> 'v)" where
  "fill_each upd v [] m = (True, m)"
| "fill_each upd v (i # is) m = (if upd i then fill_each upd v is (m(i \<mapsto> v)) else (False, m))"

text \<open>The kernel applies a batch element by element.\<close>

definition put_range :: "nat \<Rightarrow> nat \<Rightarrow> 'v \<Rightarrow> (u32 \<rightharpoonup> 'v) \<Rightarrow> u32 \<rightharpoonup> 'v" where
  "put_range i n v m = foldl (\<lambda>m j. m(of_nat j \<mapsto> v)) m [i..<i + n]"

abbreviation (input) "CALY_SEED_BATCH \<equiv> 1024 :: nat"

function fill_batch :: "(u32 \<Rightarrow> nat option) \<Rightarrow> 'v \<Rightarrow> nat \<Rightarrow> nat \<Rightarrow> (u32 \<rightharpoonup> 'v) \<Rightarrow> bool \<times> (u32 \<rightharpoonup> 'v)" where
  "fill_batch batch v entries i m =
     (if i < entries then
        let n = min (entries - i) CALY_SEED_BATCH
        in (case batch (of_nat i) of
              None \<Rightarrow> fill_batch batch v entries (i + CALY_SEED_BATCH) (put_range i n v m)
            | Some j \<Rightarrow> (False, put_range i (min j n) v m))
      else (True, m))"
  by pat_completeness auto
termination by (relation "measure (\<lambda>(_, _, entries, i, _). entries - i)") auto

declare fill_batch.simps [simp del]

definition caly_array_fill ::
  "syscalls \<Rightarrow> caly_map_id \<Rightarrow> nat \<Rightarrow> 'v \<Rightarrow> bool \<Rightarrow> (u32 \<rightharpoonup> 'v) \<Rightarrow> bool \<times> (u32 \<rightharpoonup> 'v)" where
  "caly_array_fill sy mid entries v use_batch m =
     (if \<not> sy_fd sy mid then (False, m)
      else
        let (ok, m) = (if use_batch \<and> sy_mem sy mid then fill_batch (sy_batch sy mid) v entries 0 m else (False, m))
        in if ok then (True, m) else fill_each (sy_upd sy mid) v (map of_nat [0..<entries]) m)"

text \<open>The fill of a port or ICMP map as a step.\<close>

definition fill_port :: "syscalls \<Rightarrow> bool \<Rightarrow> port_rule \<Rightarrow> bool \<Rightarrow> op" where
  "fill_port sy is_udp base use_batch s =
     (let (ok, m) = caly_array_fill sy (port_mid is_udp) 65536 base use_batch (dp_port is_udp s)
      in (if ok then None else Some ESYS, set_dp_port is_udp m s))"

definition fill_icmp :: "syscalls \<Rightarrow> bool \<Rightarrow> u32 \<Rightarrow> bool \<Rightarrow> op" where
  "fill_icmp sy v6 base use_batch s =
     (let (ok, m) = caly_array_fill sy (icmp_mid v6) 256 base use_batch (if v6 then dp_icmp6_pol s else dp_icmp4_pol s)
      in (if ok then None else Some ESYS, if v6 then s\<lparr>dp_icmp6_pol := m\<rparr> else s\<lparr>dp_icmp4_pol := m\<rparr>))"

section \<open>Seeding\<close>

definition caly_icmp4_seed :: "(u32 \<times> u32) list" where
  "caly_icmp4_seed = [(0, CALY_ICMP_PASS), (3, CALY_ICMP_PASS), (8, CALY_ICMP_RATELIMIT), (11, CALY_ICMP_PASS),
     (12, CALY_ICMP_PASS)]"

definition caly_icmp6_seed :: "(u32 \<times> u32) list" where
  "caly_icmp6_seed = [(1, CALY_ICMP_PASS), (2, CALY_ICMP_PASS), (3, CALY_ICMP_PASS), (4, CALY_ICMP_PASS),
     (128, CALY_ICMP_RATELIMIT), (129, CALY_ICMP_PASS), (130, CALY_ICMP_PASS), (131, CALY_ICMP_PASS),
     (132, CALY_ICMP_PASS), (133, CALY_ICMP_PASS), (134, CALY_ICMP_PASS), (135, CALY_ICMP_PASS),
     (136, CALY_ICMP_PASS), (137, CALY_ICMP_DROP), (143, CALY_ICMP_PASS)]"

definition icmp_force :: "syscalls \<Rightarrow> bool \<Rightarrow> u32 \<Rightarrow> op" where
  "icmp_force sy v6 type s =
     (if sy_upd sy (icmp_mid v6) type then (None, icmp_put v6 type CALY_ICMP_PASS s) else (Some ESYS, s))"

definition caly_seed_icmp :: "syscalls \<Rightarrow> caly_features \<Rightarrow> fw_config \<Rightarrow> op" where
  "caly_seed_icmp sy feat cfg s =
     (let base = (if has_flag (cfg_flags cfg) CALY_F_ICMP_FILTER then CALY_ICMP_DROP else CALY_ICMP_PASS)
      in if \<not> sy_fd sy MID_ICMP4_POL \<or> \<not> sy_fd sy MID_ICMP6_POL then (Some ESYS, s)
         else run_ops
           ([fill_icmp sy False base (have_batch_ops feat), fill_icmp sy True base (have_batch_ops feat)]
            @ map (\<lambda>(t, p). caly_icmp_policy_set sy CALY_AF_INET t p) caly_icmp4_seed
            @ map (\<lambda>(t, p). caly_icmp_policy_set sy CALY_AF_INET6 t p) caly_icmp6_seed
            @ map (icmp_force sy False) icmp4_mandatory
            @ map (icmp_force sy True) icmp6_mandatory) s)"

definition CALY_AMP_PORTS :: "u32 list" where
  "CALY_AMP_PORTS = [19, 17, 53, 69, 111, 123, 137, 161, 389, 520, 623, 1434, 1900, 3283, 5093, 5351, 5353,
     11211, 27015, 30718, 37810]"

definition base_rule :: "fw_config \<Rightarrow> port_rule" where
  "base_rule cfg = \<lparr>pr_rate = 0, pr_burst = 0,
     pr_mode = (if has_flag (cfg_flags cfg) CALY_F_DEFAULT_DENY then CALY_PORT_CLOSED else CALY_PORT_OPEN),
     pr_flags = 0\<rparr>"

text \<open>Read a rule, or take the base; change it; write it back.\<close>

definition edit_rule :: "syscalls \<Rightarrow> bool \<Rightarrow> port_rule \<Rightarrow> (port_rule \<Rightarrow> port_rule) \<Rightarrow> u32 \<Rightarrow> op" where
  "edit_rule sy is_udp base f p s =
     (let r = (case caly_port_rule_get sy is_udp p s of None \<Rightarrow> base | Some r \<Rightarrow> r)
      in caly_port_rule_set sy is_udp p (f r) s)"

definition amp_rule :: "port_rule \<Rightarrow> port_rule" where
  "amp_rule r = r\<lparr>pr_flags := pr_flags r OR CALY_PORT_F_AMPLIFIER\<rparr>"

definition mgmt_rule :: "port_rule \<Rightarrow> port_rule" where
  "mgmt_rule r = r\<lparr>pr_mode := CALY_PORT_OPEN, pr_flags := pr_flags r OR CALY_PORT_F_MGMT\<rparr>"

definition mgmt_step :: "syscalls \<Rightarrow> bool \<Rightarrow> port_rule \<Rightarrow> u16 \<Rightarrow> op" where
  "mgmt_step sy is_udp base port s =
     (let p = ucast port :: u32
      in if p = 0 \<or> p > 65535 then (None, s) else edit_rule sy is_udp base mgmt_rule p s)"

text \<open>The slots \<open>i < count && i < CALY_MGMT_PORTS_MAX\<close>.\<close>

definition mgmt_slots :: "u32 \<Rightarrow> u16 list \<Rightarrow> u16 list" where
  "mgmt_slots count ports = map (\<lambda>i. ports ! i) [0..<min (unat count) CALY_MGMT_PORTS_MAX]"

definition caly_seed_ports :: "syscalls \<Rightarrow> caly_features \<Rightarrow> fw_config \<Rightarrow> op" where
  "caly_seed_ports sy feat cfg s =
     (let base = base_rule cfg
      in if \<not> sy_fd sy MID_PORT_TCP \<or> \<not> sy_fd sy MID_PORT_UDP then (Some ESYS, s)
         else run_ops
           ([fill_port sy False base (have_batch_ops feat), fill_port sy True base (have_batch_ops feat)]
            @ (if has_flag (cfg_flags cfg) CALY_F_ANTI_AMPLIFY
               then map (edit_rule sy True base amp_rule) CALY_AMP_PORTS else [])
            @ map (mgmt_step sy False base) (mgmt_slots (cfg_mgmt_tcp_count cfg) (cfg_mgmt_tcp_ports cfg))
            @ map (mgmt_step sy True base) (mgmt_slots (cfg_mgmt_udp_count cfg) (cfg_mgmt_udp_ports cfg))) s)"

definition caly_bpf_seed_maps :: "syscalls \<Rightarrow> caly_features \<Rightarrow> fw_config \<Rightarrow> op" where
  "caly_bpf_seed_maps sy feat cfg s = run_ops [caly_seed_ports sy feat cfg, caly_seed_icmp sy feat cfg] s"

section \<open>The configuration file's rules\<close>

record caly_pending_cidr =
  pc_cidr :: caly_cidr
  pc_map_id :: caly_map_id
  pc_flags :: u32
  pc_tag :: u32

record caly_pending_port =
  pp_is_udp :: bool
  pp_lo :: u32
  pp_hi :: u32
  pp_mode :: u32
  pp_rate :: u64
  pp_burst :: u64
  pp_set_flags :: u32
  pp_clr_flags :: u32

record caly_pending_icmp =
  pi_family :: u32
  pi_type :: u32
  pi_policy :: u32

record caly_iface_spec =
  is_name :: string
  is_zone :: u32
  is_flags :: u64
  is_have_zone :: bool
  is_attach :: bool

text \<open>The trie a map identifier stands for.\<close>

definition lpm_of :: "caly_map_id \<Rightarrow> dp_state \<Rightarrow> lpm_map" where
  "lpm_of mid s = (if mid \<in> {MID_ALLOW4, MID_ALLOW6} then dp_allow s
     else if mid \<in> {MID_BLOCK4, MID_BLOCK6} then dp_block s else dp_local s)"

definition set_lpm_of :: "caly_map_id \<Rightarrow> lpm_map \<Rightarrow> dp_state \<Rightarrow> dp_state" where
  "set_lpm_of mid m s = (if mid \<in> {MID_ALLOW4, MID_ALLOW6} then s\<lparr>dp_allow := m\<rparr>
     else if mid \<in> {MID_BLOCK4, MID_BLOCK6} then s\<lparr>dp_block := m\<rparr> else s\<lparr>dp_local := m\<rparr>)"

definition addr_word :: "bytes \<Rightarrow> nat \<Rightarrow> u32" where
  "addr_word a i = le32 (a ! i) (a ! (i + 1)) (a ! (i + 2)) (a ! (i + 3))"

definition cidr_key :: "caly_cidr \<Rightarrow> lpm_key" where
  "cidr_key c = (if cd_family c = CALY_AF_INET then K4 (addr_word (cd_addr c) 0)
     else K6 (Quad (addr_word (cd_addr c) 0) (addr_word (cd_addr c) 4) (addr_word (cd_addr c) 8)
                (addr_word (cd_addr c) 12)), unat (cd_prefixlen c))"

definition caly_lpm_insert :: "syscalls \<Rightarrow> caly_map_id \<Rightarrow> caly_cidr \<Rightarrow> u32 \<Rightarrow> u32 \<Rightarrow> op" where
  "caly_lpm_insert sy mid cidr flags tag s =
     (case caly_cidr_apply_mask cidr of None \<Rightarrow> (Some EINVAL, s)
      | Some c \<Rightarrow>
          if \<not> sy_fd sy mid then (Some ENOENT, s)
          else if cd_family c = CALY_AF_INET \<or> cd_family c = CALY_AF_INET6 then
            (let meta = \<lparr>rm_added_ns = 0, rm_hits = 0, rm_flags = flags, rm_tag = tag\<rparr>
             in case sy_lpm sy mid (lpm_of mid s) (cidr_key c) meta of
                  None \<Rightarrow> (Some ESYS, s) | Some m \<Rightarrow> (None, set_lpm_of mid m s))
          else (Some EINVAL, s))"

definition zero_rule :: port_rule where
  "zero_rule = \<lparr>pr_rate = 0, pr_burst = 0, pr_mode = 0, pr_flags = 0\<rparr>"

definition pending_rule :: "caly_pending_port \<Rightarrow> port_rule \<Rightarrow> port_rule" where
  "pending_rule pp r =
     (let r = (if pp_mode pp \<noteq> 0xFFFFFFFF then
                 let r = r\<lparr>pr_mode := pp_mode pp\<rparr>
                 in if pp_mode pp = CALY_PORT_RATELIMIT then r\<lparr>pr_rate := pp_rate pp, pr_burst := pp_burst pp\<rparr> else r
               else r);
          r = r\<lparr>pr_flags := pr_flags r OR pp_set_flags pp\<rparr>
      in r\<lparr>pr_flags := pr_flags r AND NOT (pp_clr_flags pp)\<rparr>)"

lemma port_set_ok: "caly_port_rule_set sy u p r s = (None, s') \<Longrightarrow> p \<le> 65535"
  by (auto simp: caly_port_rule_set_def Let_def not_less split: if_splits)

lemma edit_rule_bound:
  assumes "edit_rule sy u base f p s = (None, s')"
  shows "65536 - unat (p + 1) < 65536 - unat p"
proof -
  have "unat p \<le> 65535"
    using port_set_ok assms by (fastforce simp: edit_rule_def Let_def word_le_nat_alt)
  moreover from this have "unat (p + 1) = unat p + 1" by (simp add: unat_word_ariths)
  ultimately show ?thesis by simp
qed

text \<open>The loop over the ports of a range: it stops at the first refusal, so also where \<open>hi\<close> is the
  largest 32-bit value.\<close>

function pending_port_loop :: "syscalls \<Rightarrow> caly_pending_port \<Rightarrow> u32 \<Rightarrow> dp_state \<Rightarrow> bool \<times> dp_state" where
  "pending_port_loop sy pp p s =
     (if p \<le> pp_hi pp then
        (case edit_rule sy (pp_is_udp pp) zero_rule (pending_rule pp) p s of
           (None, s) \<Rightarrow> pending_port_loop sy pp (p + 1) s
         | (Some _, s) \<Rightarrow> (False, s))
      else (True, s))"
  by pat_completeness auto
termination
  by (relation "measure (\<lambda>(_, _, p, _). 65536 - unat p)") (auto dest: edit_rule_bound [OF sym])

declare pending_port_loop.simps [simp del]

text \<open>Every rule is tried; the result is whether all went in.\<close>

primrec try_all :: "('a \<Rightarrow> dp_state \<Rightarrow> bool \<times> dp_state) \<Rightarrow> 'a list \<Rightarrow> dp_state \<Rightarrow> bool \<times> dp_state" where
  "try_all f [] s = (True, s)"
| "try_all f (x # xs) s = (let (a, s) = f x s; (b, s) = try_all f xs s in (a \<and> b, s))"

definition ok_of :: "op \<Rightarrow> dp_state \<Rightarrow> bool \<times> dp_state" where
  "ok_of f s = (let (r, s) = f s in (r = None, s))"

definition iface_of :: "caly_iface_spec \<Rightarrow> u32 \<Rightarrow> iface_config" where
  "iface_of sp idx = \<lparr>if_flags = is_flags sp OR (if is_zone sp = CALY_ZONE_WAN then CALY_IF_F_WAN else 0),
     if_ifindex = idx, if_zone = (if is_have_zone sp then is_zone sp else CALY_ZONE_UNSPEC), if_reserved = [0, 0]\<rparr>"

text \<open>The pending lists of the daemon, and \<open>ifindex\<close> the kernel's table of interface names, with 0
  for an unknown one.\<close>

definition caly_apply_pending ::
  "syscalls \<Rightarrow> (string \<Rightarrow> u32) \<Rightarrow> caly_pending_cidr list \<Rightarrow> caly_pending_port list \<Rightarrow> caly_pending_icmp list
   \<Rightarrow> caly_iface_spec list \<Rightarrow> dp_state \<Rightarrow> bool \<times> dp_state" where
  "caly_apply_pending sy ifindex cidrs ports icmps ifaces s =
     (let (a, s) = try_all (\<lambda>pc. ok_of (caly_lpm_insert sy (pc_map_id pc) (pc_cidr pc) (pc_flags pc) (pc_tag pc))) cidrs s;
          (b, s) = try_all (\<lambda>pp. pending_port_loop sy pp (pp_lo pp)) ports s;
          (c, s) = try_all (\<lambda>pi. ok_of (caly_icmp_policy_set sy (pi_family pi) (pi_type pi) (pi_policy pi))) icmps s;
          (d, s) = try_all (\<lambda>sp. if ifindex (is_name sp) = 0 then (\<lambda>s. (True, s))
                       else ok_of (caly_iface_config_set sy (iface_of sp (ifindex (is_name sp))))) ifaces s
      in (a \<and> b \<and> c \<and> d, s))"

section \<open>What a successful step did\<close>

lemma run_ops_append:
  "run_ops (fs @ gs) s = (case run_ops fs s of (None, s) \<Rightarrow> run_ops gs s | (Some e, s) \<Rightarrow> (Some e, s))"
  by (induction fs arbitrary: s) (auto split: prod.splits option.splits)

lemma run_ops_append_ok:
  "run_ops (fs @ gs) s = (None, s') \<longleftrightarrow> (\<exists>t. run_ops fs s = (None, t) \<and> run_ops gs t = (None, s'))"
  by (auto simp: run_ops_append split: prod.splits option.splits)

lemma run_ops_cons_ok:
  "run_ops (f # fs) s = (None, s') \<longleftrightarrow> (\<exists>t. f s = (None, t) \<and> run_ops fs t = (None, s'))"
  by (auto split: prod.splits option.splits)

text \<open>A field that no step touches.\<close>

lemma run_ops_keep:
  assumes "\<And>f s. f \<in> set fs \<Longrightarrow> g (snd (f s)) = g s"
  shows "g (snd (run_ops fs s)) = g s"
  using assms
proof (induction fs arbitrary: s)
  case (Cons f fs)
  obtain r t where f: "f s = (r, t)" by fastforce
  have "g t = g s" using Cons.prems [of f s] f by simp
  moreover have "g (snd (run_ops fs t)) = g t" by (rule Cons.IH) (use Cons.prems in simp)
  ultimately show ?case by (simp add: f split: option.splits)
qed simp

lemma fill_each_ok:
  "fill_each upd v is m = (True, m') \<Longrightarrow> m' = (\<lambda>k. if k \<in> set is then Some v else m k)"
  by (induction "is" arbitrary: m) (auto simp: fun_eq_iff split: if_splits)

lemma put_range_eq:
  "put_range i n v m = (\<lambda>k. if k \<in> of_nat ` {i..<i + n} then Some v else m k)"
  by (induction n) (auto simp: put_range_def fun_eq_iff atLeastLessThanSuc)

lemma fill_batch_ok:
  "fill_batch batch v entries i m = (True, m') \<Longrightarrow>
     m' = (\<lambda>k. if k \<in> of_nat ` {i..<entries} then Some v else m k)"
proof (induction batch v entries i m rule: fill_batch.induct)
  case (1 batch v entries i m)
  show ?case
  proof (cases "i < entries")
    case True
    let ?n = "min (entries - i) CALY_SEED_BATCH"
    from 1(2) True have b: "batch (of_nat i) = None"
      and r: "fill_batch batch v entries (i + CALY_SEED_BATCH) (put_range i ?n v m) = (True, m')"
      by (auto simp: fill_batch.simps [of _ _ _ i] Let_def split: option.splits)
    have "{i..<entries} = {i..<i + ?n} \<union> {i + CALY_SEED_BATCH..<entries}" using True by auto
    then show ?thesis
      using 1(1) [OF True refl b r] by (auto simp: put_range_eq fun_eq_iff)
  qed (use 1(2) in \<open>auto simp: fill_batch.simps [of _ _ _ i]\<close>)
qed

lemma fill_batch_keep:
  "k \<notin> of_nat ` {i..<entries} \<Longrightarrow> snd (fill_batch batch v entries i m) k = m k"
proof (induction batch v entries i m rule: fill_batch.induct)
  case (1 batch v entries i m)
  have r: "put_range i n v m k = m k" if "i + n \<le> entries" for n
    using 1(2) that by (auto simp: put_range_eq)
  have "k \<notin> of_nat ` {i + CALY_SEED_BATCH..<entries}" using 1(2) by auto
  with 1(1) show ?case
    by (subst fill_batch.simps) (simp add: Let_def r split: option.splits)
qed

lemma array_fill_ok:
  assumes "caly_array_fill sy mid entries v use_batch m = (True, m')"
  shows "m' = (\<lambda>k. if k \<in> of_nat ` {..<entries} then Some v else m k)"
proof -
  have e: "set (map of_nat [0..<entries]) = (of_nat ` {..<entries} :: u32 set)" by (auto simp: lessThan_atLeast0)
  obtain ok n where n: "(if use_batch \<and> sy_mem sy mid then fill_batch (sy_batch sy mid) v entries 0 m
      else (False, m)) = (ok, n)" by fastforce
  have p: "n k = m k" if "k \<notin> of_nat ` {..<entries}" for k
    using n fill_batch_keep [of k 0 entries "sy_batch sy mid" v m] that
    by (auto simp: lessThan_atLeast0 split: if_splits)
  show ?thesis
  proof (cases ok)
    case True
    then show ?thesis
      using n assms fill_batch_ok [of "sy_batch sy mid" v entries 0 m m']
      by (auto simp: caly_array_fill_def lessThan_atLeast0 split: if_splits)
  next
    case False
    then have "fill_each (sy_upd sy mid) v (map of_nat [0..<entries]) n = (True, m')"
      using n assms by (auto simp: caly_array_fill_def split: if_splits)
    from fill_each_ok [OF this] show ?thesis using p by (simp only: e) (auto simp: fun_eq_iff)
  qed
qed

lemma of_nat_range: "n < 4294967296 \<Longrightarrow> (k :: u32) \<in> of_nat ` {..<n} \<longleftrightarrow> unat k < n"
proof
  assume n: "n < 4294967296" and "k \<in> of_nat ` {..<n}"
  then obtain j where "k = of_nat j" "j < n" by auto
  then show "unat k < n" using n by (simp add: unsigned_of_nat take_bit_nat_eq_self)
next
  assume "unat k < n"
  then show "k \<in> of_nat ` {..<n}" by (intro image_eqI [of _ _ "unat k"]) simp_all
qed

lemma dp_port_set [simp]:
  "dp_port u (set_dp_port v m s) = (if u = v then m else dp_port u s)"
  "set_dp_port u m (set_dp_port u n s) = set_dp_port u m s"
  "set_dp_port u (dp_port u s) s = s"
  by (auto simp: dp_port_def set_dp_port_def)

lemma fill_port_ok:
  "fill_port sy u base b s = (None, s') \<Longrightarrow>
     s' = set_dp_port u (\<lambda>p. if unat p < 65536 then Some base else dp_port u s p) s"
  using array_fill_ok [of sy "port_mid u" 65536 base b "dp_port u s"]
  by (auto simp: fill_port_def of_nat_range split: prod.splits if_splits)

lemma fill_icmp_ok:
  "fill_icmp sy v6 base b s = (None, s') \<Longrightarrow>
     s' = (if v6 then s\<lparr>dp_icmp6_pol := \<lambda>t. if unat t < 256 then Some base else dp_icmp6_pol s t\<rparr>
           else s\<lparr>dp_icmp4_pol := \<lambda>t. if unat t < 256 then Some base else dp_icmp4_pol s t\<rparr>)"
  using array_fill_ok [of sy "icmp_mid v6" 256 base b "if v6 then dp_icmp6_pol s else dp_icmp4_pol s"]
  by (auto simp: fill_icmp_def of_nat_range split: prod.splits if_splits)

text \<open>The documented behaviour of an array map: a lookup of a slot in range does not fail.\<close>

definition array_lookups :: "syscalls \<Rightarrow> bool" where
  "array_lookups sy \<longleftrightarrow> (\<forall>mid k. sy_get sy mid k)"

lemma edit_rule_ok:
  "edit_rule sy u base f p s = (None, s') \<Longrightarrow> array_lookups sy \<Longrightarrow> dp_port u s p = Some r \<Longrightarrow>
     s' = set_dp_port u ((dp_port u s)(p \<mapsto> f r)) s"
  by (auto simp: edit_rule_def caly_port_rule_set_def caly_port_rule_get_def array_lookups_def Let_def
        split: if_splits)

lemma edits_ok:
  assumes "run_ops (map (edit_rule sy u base f) ps) s = (None, s')" "array_lookups sy"
    and "\<And>p. p \<in> set ps \<Longrightarrow> dp_port u s p \<noteq> None" "\<And>r. f (f r) = f r"
  shows "s' = set_dp_port u (\<lambda>p. if p \<in> set ps then map_option f (dp_port u s p) else dp_port u s p) s"
  using assms(1,3)
proof (induction ps arbitrary: s)
  case (Cons p ps)
  obtain t where t: "edit_rule sy u base f p s = (None, t)" "run_ops (map (edit_rule sy u base f) ps) t = (None, s')"
    using Cons.prems(1) by (auto simp del: run_ops.simps simp: run_ops_cons_ok)
  obtain r where r: "dp_port u s p = Some r" using Cons.prems(2) by fastforce
  have e: "t = set_dp_port u ((dp_port u s)(p \<mapsto> f r)) s" using edit_rule_ok [OF t(1) assms(2) r] .
  have "s' = set_dp_port u (\<lambda>q. if q \<in> set ps then map_option f (dp_port u t q) else dp_port u t q) t"
    by (rule Cons.IH [OF t(2)]) (use Cons.prems(2) e in auto)
  also have "\<dots> = set_dp_port u (\<lambda>q. if q \<in> set (p # ps) then map_option f (dp_port u s q) else dp_port u s q) s"
    unfolding e using r by (auto simp: assms(4) intro!: arg_cong [where f = "\<lambda>m. set_dp_port u m s"])
  finally show ?case .
qed simp

lemma unat_port [simp]: "unat (ucast (p :: u16) :: u32) = unat p"
  using unat_u16_less [of p] by (simp add: unsigned_ucast_eq take_bit_nat_eq_self)

lemma mgmt_steps:
  "run_ops (map (mgmt_step sy u base) ports) s =
   run_ops (map (edit_rule sy u base mgmt_rule) (map ucast (filter (\<lambda>p. p \<noteq> 0) ports))) s"
proof (induction ports arbitrary: s)
  case (Cons p ports)
  have "\<not> (ucast p :: u32) > 65535" using unat_u16_less [of p] by (simp add: word_less_nat_alt)
  moreover have "(ucast p :: u32) = 0 \<longleftrightarrow> p = 0"
    by (metis unat_port unsigned_eq_0_iff)
  ultimately show ?case using Cons by (cases "p = 0") (auto simp: mgmt_step_def Let_def split: prod.splits option.splits)
qed simp

lemma rule_idem: "amp_rule (amp_rule r) = amp_rule r" "mgmt_rule (mgmt_rule r) = mgmt_rule r"
  by (simp_all add: amp_rule_def mgmt_rule_def or.assoc)

section \<open>The seeded maps\<close>

text \<open>What the port arrays hold after seeding, and what the ICMP arrays hold.\<close>

definition mgmt_set :: "fw_config \<Rightarrow> bool \<Rightarrow> u32 set" where
  "mgmt_set cfg is_udp =
     ucast ` (set (if is_udp then mgmt_slots (cfg_mgmt_udp_count cfg) (cfg_mgmt_udp_ports cfg)
                   else mgmt_slots (cfg_mgmt_tcp_count cfg) (cfg_mgmt_tcp_ports cfg)) - {0})"

definition seeded_rule :: "fw_config \<Rightarrow> bool \<Rightarrow> u32 \<Rightarrow> port_rule" where
  "seeded_rule cfg is_udp p = \<lparr>pr_rate = 0, pr_burst = 0,
     pr_mode = (if p \<in> mgmt_set cfg is_udp \<or> \<not> has_flag (cfg_flags cfg) CALY_F_DEFAULT_DENY
                then CALY_PORT_OPEN else CALY_PORT_CLOSED),
     pr_flags = (if is_udp \<and> has_flag (cfg_flags cfg) CALY_F_ANTI_AMPLIFY \<and> p \<in> set CALY_AMP_PORTS
                 then CALY_PORT_F_AMPLIFIER else 0)
       OR (if p \<in> mgmt_set cfg is_udp then CALY_PORT_F_MGMT else 0)\<rparr>"

definition seeded_icmp :: "fw_config \<Rightarrow> bool \<Rightarrow> u32 \<Rightarrow> u32" where
  "seeded_icmp cfg v6 t =
     (if t = (if v6 then 128 else 8) then CALY_ICMP_RATELIMIT
      else if t \<in> (if v6 then {1, 2, 3, 4, 129, 130, 131, 132, 133, 134, 135, 136, 143} else {0, 3, 11, 12})
        then CALY_ICMP_PASS
      else if v6 \<and> t = 137 \<or> has_flag (cfg_flags cfg) CALY_F_ICMP_FILTER then CALY_ICMP_DROP
      else CALY_ICMP_PASS)"

lemma amp_ports_small: "p \<in> set CALY_AMP_PORTS \<Longrightarrow> unat p < 65536"
  by (auto simp: CALY_AMP_PORTS_def)

lemma mgmt_set_small: "p \<in> mgmt_set cfg u \<Longrightarrow> unat p < 65536"
  using unat_u16_less by (auto simp: mgmt_set_def)

lemma mgmt_set_list:
  "set (map ucast (filter (\<lambda>p. p \<noteq> 0) (mgmt_slots (cfg_mgmt_tcp_count cfg) (cfg_mgmt_tcp_ports cfg)))) = mgmt_set cfg False"
  "set (map ucast (filter (\<lambda>p. p \<noteq> 0) (mgmt_slots (cfg_mgmt_udp_count cfg) (cfg_mgmt_udp_ports cfg)))) = mgmt_set cfg True"
  by (auto simp: mgmt_set_def)

lemma seeded_rule_steps:
  "(let r = (if u \<and> has_flag (cfg_flags cfg) CALY_F_ANTI_AMPLIFY \<and> p \<in> set CALY_AMP_PORTS
             then amp_rule (base_rule cfg) else base_rule cfg)
    in if p \<in> mgmt_set cfg u then mgmt_rule r else r) = seeded_rule cfg u p"
  by (simp add: seeded_rule_def amp_rule_def mgmt_rule_def base_rule_def Let_def)

lemma seed_ports_ok:
  assumes "caly_seed_ports sy feat cfg s = (None, s')" "array_lookups sy"
  shows "\<exists>mt mu. s' = s\<lparr>dp_port_tcp := mt, dp_port_udp := mu\<rparr> \<and>
           (\<forall>u p. unat p < 65536 \<longrightarrow> dp_port u s' p = Some (seeded_rule cfg u p))"
proof -
  let ?b = "base_rule cfg" and ?hb = "have_batch_ops feat"
  let ?A = "has_flag (cfg_flags cfg) CALY_F_ANTI_AMPLIFY"
  let ?amps = "if ?A then CALY_AMP_PORTS else []"
  have amps: "(if ?A then map (edit_rule sy True ?b amp_rule) CALY_AMP_PORTS else []) = map (edit_rule sy True ?b amp_rule) ?amps"
    by simp
  obtain s1 s2 s3 s4 where r:
      "fill_port sy False ?b ?hb s = (None, s1)" "fill_port sy True ?b ?hb s1 = (None, s2)"
      "run_ops (map (edit_rule sy True ?b amp_rule) ?amps) s2 = (None, s3)"
      "run_ops (map (mgmt_step sy False ?b) (mgmt_slots (cfg_mgmt_tcp_count cfg) (cfg_mgmt_tcp_ports cfg))) s3 = (None, s4)"
      "run_ops (map (mgmt_step sy True ?b) (mgmt_slots (cfg_mgmt_udp_count cfg) (cfg_mgmt_udp_ports cfg))) s4 = (None, s')"
    using assms(1) unfolding caly_seed_ports_def Let_def amps append_Cons append_Nil
    by (auto simp: run_ops_append_ok run_ops_cons_ok simp del: run_ops.simps(2) map_map split: if_splits)
  have s1: "s1 = set_dp_port False (\<lambda>p. if unat p < 65536 then Some ?b else dp_port False s p) s"
    using fill_port_ok [OF r(1)] .
  have s2: "s2 = set_dp_port True (\<lambda>p. if unat p < 65536 then Some ?b else dp_port True s1 p) s1"
    using fill_port_ok [OF r(2)] .
  have s3: "s3 = set_dp_port True (\<lambda>p. if p \<in> set ?amps then map_option amp_rule (dp_port True s2 p) else dp_port True s2 p) s2"
    by (rule edits_ok [OF r(3) assms(2)]) (auto simp: s2 rule_idem amp_ports_small split: if_splits)
  have s4: "s4 = set_dp_port False (\<lambda>p. if p \<in> mgmt_set cfg False then map_option mgmt_rule (dp_port False s3 p) else dp_port False s3 p) s3"
    using edits_ok [OF r(4) [unfolded mgmt_steps] assms(2)]
    by (simp only: mgmt_set_list rule_idem) (auto simp: s1 s2 s3 mgmt_set_small)
  have s5: "s' = set_dp_port True (\<lambda>p. if p \<in> mgmt_set cfg True then map_option mgmt_rule (dp_port True s4 p) else dp_port True s4 p) s4"
    using edits_ok [OF r(5) [unfolded mgmt_steps] assms(2)]
    by (simp only: mgmt_set_list rule_idem) (auto simp: s1 s2 s3 s4 mgmt_set_small)
  have "dp_port u s' p = Some (seeded_rule cfg u p)" if "unat p < 65536" for u p
    unfolding seeded_rule_steps [symmetric] Let_def using that
    by (cases u) (simp_all add: s1 s2 s3 s4 s5)
  moreover have "\<exists>mt mu. s' = s\<lparr>dp_port_tcp := mt, dp_port_udp := mu\<rparr>"
    unfolding s5 s4 s3 s2 s1 set_dp_port_def by (intro exI) simp
  ultimately show ?thesis by blast
qed

lemma policy_set_ok:
  "caly_icmp_policy_set sy family t p s = (None, s') \<Longrightarrow> s' = icmp_put (family = CALY_AF_INET6) t p s \<and>
     \<not> (p = CALY_ICMP_DROP \<and> caly_icmp_type_is_mandatory family t)"
  by (auto simp: caly_icmp_policy_set_def Let_def split: if_splits)

lemma policy_sets_ok:
  assumes "run_ops (map (\<lambda>(t, p). caly_icmp_policy_set sy family t p) xs) s = (None, s')"
  shows "s' = fold (\<lambda>(t, p). icmp_put (family = CALY_AF_INET6) t p) xs s"
  using assms
proof (induction xs arbitrary: s)
  case (Cons x xs)
  obtain t p where x: "x = (t, p)" by fastforce
  from Cons.prems have "run_ops (map (\<lambda>(t, p). caly_icmp_policy_set sy family t p) xs) (icmp_put (family = CALY_AF_INET6) t p s) = (None, s')"
    by (auto simp: x dest: policy_set_ok split: prod.splits option.splits)
  from Cons.IH [OF this] show ?case by (simp add: x)
qed simp

lemma forces_ok:
  "run_ops (map (icmp_force sy v6) ts) s = (None, s') \<Longrightarrow> s' = fold (\<lambda>t. icmp_put v6 t CALY_ICMP_PASS) ts s"
  by (induction ts arbitrary: s) (auto simp: icmp_force_def split: if_splits)

lemma icmp_put_fold:
  "fold (\<lambda>(t, p). icmp_put v6 t p) xs s =
     (if v6 then s\<lparr>dp_icmp6_pol := fold (\<lambda>(t, p) m. m(t \<mapsto> p)) xs (dp_icmp6_pol s)\<rparr>
      else s\<lparr>dp_icmp4_pol := fold (\<lambda>(t, p) m. m(t \<mapsto> p)) xs (dp_icmp4_pol s)\<rparr>)"
  by (induction xs arbitrary: s) (auto simp: icmp_put_def)

lemma icmp_force_fold:
  "fold (\<lambda>t. icmp_put v6 t p) ts s = fold (\<lambda>(t, p). icmp_put v6 t p) (map (\<lambda>t. (t, p)) ts) s"
  by (induction ts arbitrary: s) auto

lemma seed_icmp_ok:
  assumes "caly_seed_icmp sy feat cfg s = (None, s')"
  shows "\<exists>m4 m6. s' = s\<lparr>dp_icmp4_pol := m4, dp_icmp6_pol := m6\<rparr> \<and>
           (\<forall>t. unat t < 256 \<longrightarrow> m4 t = Some (seeded_icmp cfg False t) \<and> m6 t = Some (seeded_icmp cfg True t))"
proof -
  let ?b = "if has_flag (cfg_flags cfg) CALY_F_ICMP_FILTER then CALY_ICMP_DROP else CALY_ICMP_PASS" and ?hb = "have_batch_ops feat"
  obtain s1 s2 s3 s4 s5 where r:
      "fill_icmp sy False ?b ?hb s = (None, s1)" "fill_icmp sy True ?b ?hb s1 = (None, s2)"
      "run_ops (map (\<lambda>(t, p). caly_icmp_policy_set sy CALY_AF_INET t p) caly_icmp4_seed) s2 = (None, s3)"
      "run_ops (map (\<lambda>(t, p). caly_icmp_policy_set sy CALY_AF_INET6 t p) caly_icmp6_seed) s3 = (None, s4)"
      "run_ops (map (icmp_force sy False) icmp4_mandatory) s4 = (None, s5)"
      "run_ops (map (icmp_force sy True) icmp6_mandatory) s5 = (None, s')"
    using assms unfolding caly_seed_icmp_def Let_def append_Cons append_Nil
    by (auto simp: run_ops_append_ok run_ops_cons_ok simp del: run_ops.simps(2) list.map(2) split: if_splits)
  let ?m4 = "fold (\<lambda>(t, p) m. m(t \<mapsto> p)) (caly_icmp4_seed @ map (\<lambda>t. (t, CALY_ICMP_PASS)) icmp4_mandatory)
     (\<lambda>t. if unat t < 256 then Some ?b else dp_icmp4_pol s t)"
  let ?m6 = "fold (\<lambda>(t, p) m. m(t \<mapsto> p)) (caly_icmp6_seed @ map (\<lambda>t. (t, CALY_ICMP_PASS)) icmp6_mandatory)
     (\<lambda>t. if unat t < 256 then Some ?b else dp_icmp6_pol s t)"
  have s2: "s2 = s\<lparr>dp_icmp4_pol := \<lambda>t. if unat t < 256 then Some ?b else dp_icmp4_pol s t,
       dp_icmp6_pol := \<lambda>t. if unat t < 256 then Some ?b else dp_icmp6_pol s t\<rparr>"
    unfolding fill_icmp_ok [OF r(2)] fill_icmp_ok [OF r(1)] if_True if_False by (simp cong: if_cong)
  have s4: "s4 = fold (\<lambda>(t, p). icmp_put True t p) caly_icmp6_seed (fold (\<lambda>(t, p). icmp_put False t p) caly_icmp4_seed s2)"
    using policy_sets_ok [OF r(4)] policy_sets_ok [OF r(3)] by simp
  have s': "s' = fold (\<lambda>t. icmp_put True t CALY_ICMP_PASS) icmp6_mandatory (fold (\<lambda>t. icmp_put False t CALY_ICMP_PASS) icmp4_mandatory s4)"
    using forces_ok [OF r(6)] forces_ok [OF r(5)] by simp
  have "s' = s\<lparr>dp_icmp4_pol := ?m4, dp_icmp6_pol := ?m6\<rparr>"
    unfolding s' s4 s2 icmp_force_fold icmp_put_fold by (simp del: fold_simps list.map)
  moreover have "?m4 t = Some (seeded_icmp cfg False t)" "?m6 t = Some (seeded_icmp cfg True t)" if "unat t < 256" for t
    using that by (auto simp: caly_icmp4_seed_def caly_icmp6_seed_def seeded_icmp_def)
  ultimately show ?thesis by blast
qed

lemma try_all_inv:
  "(\<And>x s. x \<in> set xs \<Longrightarrow> P s \<Longrightarrow> P (snd (f x s))) \<Longrightarrow> P s \<Longrightarrow> P (snd (try_all f xs s))"
proof (induction xs arbitrary: s)
  case (Cons x xs)
  have "P (snd (try_all f xs (snd (f x s))))" by (rule Cons.IH) (use Cons.prems in auto)
  then show ?case by (simp add: split_beta)
qed simp

text \<open>What each kind of pending rule leaves alone.\<close>

lemma lpm_insert_frame:
  "dp_port u (snd (caly_lpm_insert sy mid c fl tag s)) = dp_port u s"
  "dp_icmp4_pol (snd (caly_lpm_insert sy mid c fl tag s)) = dp_icmp4_pol s"
  "dp_icmp6_pol (snd (caly_lpm_insert sy mid c fl tag s)) = dp_icmp6_pol s"
  by (auto simp: caly_lpm_insert_def set_lpm_of_def dp_port_def Let_def split: option.splits)

lemma iface_set_frame:
  "dp_port u (snd (caly_iface_config_set sy ic s)) = dp_port u s"
  "dp_icmp4_pol (snd (caly_iface_config_set sy ic s)) = dp_icmp4_pol s"
  "dp_icmp6_pol (snd (caly_iface_config_set sy ic s)) = dp_icmp6_pol s"
  by (auto simp: caly_iface_config_set_def dp_port_def)

lemma policy_set_frame: "dp_port u (snd (caly_icmp_policy_set sy f t p s)) = dp_port u s"
  by (auto simp: caly_icmp_policy_set_def icmp_put_def dp_port_def Let_def)

lemma ok_of_snd [simp]: "snd (ok_of f s) = snd (f s)"
  by (simp add: ok_of_def split_beta)

lemma port_set_frame:
  "dp_icmp4_pol (snd (caly_port_rule_set sy u p r s)) = dp_icmp4_pol s"
  "dp_icmp6_pol (snd (caly_port_rule_set sy u p r s)) = dp_icmp6_pol s"
  by (auto simp: caly_port_rule_set_def set_dp_port_def)

lemma pending_loop_inv:
  "(\<And>p s. P s \<Longrightarrow> P (snd (edit_rule sy (pp_is_udp pp) zero_rule (pending_rule pp) p s))) \<Longrightarrow>
   P s \<Longrightarrow> P (snd (pending_port_loop sy pp p s))"
proof (induction sy pp p s rule: pending_port_loop.induct)
  case (1 sy pp p s)
  obtain r t where e: "edit_rule sy (pp_is_udp pp) zero_rule (pending_rule pp) p s = (r, t)" by fastforce
  have t: "P t" using 1(2) [OF 1(3), of p] e by simp
  show ?case
  proof (cases "p \<le> pp_hi pp \<and> r = None")
    case True
    with 1(1) [OF _ e [symmetric]] 1(2) t have "P (snd (pending_port_loop sy pp (p + 1) t))" by blast
    then show ?thesis using True e by (subst pending_port_loop.simps) simp
  next
    case False
    then show ?thesis using e t 1(3) by (subst pending_port_loop.simps) (auto split: option.splits)
  qed
qed

text \<open>An invariant of the four kinds of rule is one of the whole list.\<close>

lemma apply_pending_inv:
  assumes "P s"
    and "\<And>pc s. pc \<in> set cidrs \<Longrightarrow> P s \<Longrightarrow> P (snd (caly_lpm_insert sy (pc_map_id pc) (pc_cidr pc) (pc_flags pc) (pc_tag pc) s))"
    and "\<And>pp p s. pp \<in> set ports \<Longrightarrow> P s \<Longrightarrow> P (snd (edit_rule sy (pp_is_udp pp) zero_rule (pending_rule pp) p s))"
    and "\<And>pi s. pi \<in> set icmps \<Longrightarrow> P s \<Longrightarrow> P (snd (caly_icmp_policy_set sy (pi_family pi) (pi_type pi) (pi_policy pi) s))"
    and "\<And>ic s. P s \<Longrightarrow> P (snd (caly_iface_config_set sy ic s))"
  shows "P (snd (caly_apply_pending sy ifindex cidrs ports icmps ifaces s))"
proof -
  let ?s1 = "snd (try_all (\<lambda>pc. ok_of (caly_lpm_insert sy (pc_map_id pc) (pc_cidr pc) (pc_flags pc) (pc_tag pc))) cidrs s)"
  let ?s2 = "snd (try_all (\<lambda>pp. pending_port_loop sy pp (pp_lo pp)) ports ?s1)"
  let ?s3 = "snd (try_all (\<lambda>pi. ok_of (caly_icmp_policy_set sy (pi_family pi) (pi_type pi) (pi_policy pi))) icmps ?s2)"
  have 1: "P ?s1" by (rule try_all_inv [where P = P]) (use assms(1,2) in auto)
  have 2: "P ?s2" by (rule try_all_inv [where P = P, OF _ 1]) (use assms(3) in \<open>auto intro: pending_loop_inv\<close>)
  have 3: "P ?s3" by (rule try_all_inv [where P = P, OF _ 2]) (use assms(4) in auto)
  have "P (snd (try_all (\<lambda>sp. if ifindex (is_name sp) = 0 then (\<lambda>s. (True, s))
      else ok_of (caly_iface_config_set sy (iface_of sp (ifindex (is_name sp))))) ifaces ?s3))"
    by (rule try_all_inv [where P = P, OF _ 3]) (use assms(5) in auto)
  then show ?thesis by (simp add: caly_apply_pending_def split_beta Let_def)
qed

section \<open>Seeding succeeds when the kernel does\<close>

definition kernel_willing :: "syscalls \<Rightarrow> bool" where
  "kernel_willing sy \<longleftrightarrow> (\<forall>mid k. sy_fd sy mid \<and> sy_upd sy mid k \<and> sy_get sy mid k)"

lemma run_ops_none: "(\<And>f s. f \<in> set fs \<Longrightarrow> fst (f s) = None) \<Longrightarrow> fst (run_ops fs s) = None"
proof (induction fs arbitrary: s)
  case (Cons f fs)
  obtain t where "f s = (None, t)" using Cons.prems [of f s] by (cases "f s") simp
  with Cons show ?case by simp
qed simp

lemma fill_willing: "kernel_willing sy \<Longrightarrow> fst (caly_array_fill sy mid n v b m)"
proof -
  assume k: "kernel_willing sy"
  have "fst (fill_each (sy_upd sy mid) v ks m)" for ks m
    using k by (induction ks arbitrary: m) (auto simp: kernel_willing_def)
  then show ?thesis using k by (auto simp: caly_array_fill_def kernel_willing_def split_beta)
qed

lemma edit_willing: "kernel_willing sy \<Longrightarrow> unat p < 65536 \<Longrightarrow> fst (edit_rule sy u base f p s) = None"
  by (auto simp: edit_rule_def caly_port_rule_set_def kernel_willing_def Let_def word_less_nat_alt)

lemma mgmt_willing: "kernel_willing sy \<Longrightarrow> fst (mgmt_step sy u base p s) = None"
  using unat_u16_less [of p] by (auto simp: mgmt_step_def Let_def edit_willing)

lemma seed_willing:
  assumes "kernel_willing sy"
  shows "fst (caly_bpf_seed_maps sy feat cfg s) = None"
proof -
  have fd: "sy_fd sy mid" "sy_upd sy mid k" for mid k using assms by (simp_all add: kernel_willing_def)
  have f: "fst (fill_port sy u base b t) = None" "fst (fill_icmp sy v6 pol b t) = None" for u base b t v6 pol
    using fill_willing [OF assms] by (auto simp: fill_port_def fill_icmp_def split_beta)
  have p: "fst (caly_seed_ports sy feat cfg t) = None" for t
    unfolding caly_seed_ports_def Let_def
    by (simp only: fd if_False simp_thms, rule run_ops_none)
      (auto simp: f edit_willing [OF assms] mgmt_willing [OF assms] amp_ports_small split: if_splits)
  have i: "fst (caly_icmp_policy_set sy fam t pol s) = None"
    if "(t, pol) \<in> set (if fam = CALY_AF_INET6 then caly_icmp6_seed else caly_icmp4_seed)" for fam t pol s
    using that fd by (auto simp: caly_icmp4_seed_def caly_icmp6_seed_def caly_icmp_policy_set_def
        caly_icmp_type_is_mandatory_def word_le_nat_alt split: if_splits)
  have g: "fst (icmp_force sy v6 t s) = None" for v6 t s using fd by (simp add: icmp_force_def)
  have ii: "fst (caly_seed_icmp sy feat cfg t) = None" for t
    unfolding caly_seed_icmp_def Let_def
    by (simp only: fd if_False simp_thms, rule run_ops_none) (auto simp: f i g)
  show ?thesis unfolding caly_bpf_seed_maps_def by (rule run_ops_none) (auto simp: p ii)
qed

section \<open>Properties\<close>

lemma seed_maps_ok:
  assumes "caly_bpf_seed_maps sy feat cfg s = (None, s')" "array_lookups sy"
  shows "(\<exists>mt mu m4 m6. s' = s\<lparr>dp_port_tcp := mt, dp_port_udp := mu, dp_icmp4_pol := m4, dp_icmp6_pol := m6\<rparr>) \<and>
         (\<forall>u p. unat p < 65536 \<longrightarrow> dp_port u s' p = Some (seeded_rule cfg u p)) \<and>
         (\<forall>t. unat t < 256 \<longrightarrow> dp_icmp4_pol s' t = Some (seeded_icmp cfg False t) \<and>
                                dp_icmp6_pol s' t = Some (seeded_icmp cfg True t))"
proof -
  obtain t where t: "caly_seed_ports sy feat cfg s = (None, t)" "caly_seed_icmp sy feat cfg t = (None, s')"
    using assms(1) unfolding caly_bpf_seed_maps_def run_ops_cons_ok by auto
  obtain mt mu where p: "t = s\<lparr>dp_port_tcp := mt, dp_port_udp := mu\<rparr>"
      "\<And>u p. unat p < 65536 \<Longrightarrow> dp_port u t p = Some (seeded_rule cfg u p)"
    using seed_ports_ok [OF t(1) assms(2)] by blast
  obtain m4 m6 where i: "s' = t\<lparr>dp_icmp4_pol := m4, dp_icmp6_pol := m6\<rparr>"
      "\<And>t. unat t < 256 \<Longrightarrow> m4 t = Some (seeded_icmp cfg False t) \<and> m6 t = Some (seeded_icmp cfg True t)"
    using seed_icmp_ok [OF t(2)] by blast
  have "dp_port u s' = dp_port u t" for u by (simp add: i(1) dp_port_def)
  moreover have "dp_icmp4_pol s' = m4" "dp_icmp6_pol s' = m6" by (simp_all add: i(1))
  moreover have "s' = s\<lparr>dp_port_tcp := mt, dp_port_udp := mu, dp_icmp4_pol := m4, dp_icmp6_pol := m6\<rparr>"
    by (simp add: i(1) p(1))
  ultimately show ?thesis
    using p(2) i(2) by (intro conjI allI impI exI) simp_all
qed

text \<open>Seeding fills the policy maps completely: when it succeeds, every one of the 65536 ports of both
  protocols and of the 256 ICMP types of both families holds the documented baseline (management ports
  open, the others closed exactly under default deny, the amplifier source ports flagged, echo requests
  rate limited, the mandatory types passed), and nothing else of the state has changed; it does
  succeed when the kernel grants every call, with or without working batch updates.\<close>

theorem caly_bpf_seed_maps_exact:
  assumes "array_lookups sy" "caly_bpf_seed_maps sy feat cfg s = (r, s')"
  shows "(kernel_willing sy \<longrightarrow> r = None) \<and>
         (r = None \<longrightarrow>
           (\<exists>mt mu m4 m6. s' = s\<lparr>dp_port_tcp := mt, dp_port_udp := mu, dp_icmp4_pol := m4, dp_icmp6_pol := m6\<rparr>) \<and>
           (\<forall>u p. unat p < 65536 \<longrightarrow> dp_port u s' p = Some (seeded_rule cfg u p)) \<and>
           (\<forall>t. unat t < 256 \<longrightarrow> dp_icmp4_pol s' t = Some (seeded_icmp cfg False t) \<and>
                                  dp_icmp6_pol s' t = Some (seeded_icmp cfg True t)))"
  using seed_willing [of sy feat cfg s] seed_maps_ok [OF _ assms(1), of feat cfg s s'] assms(2) by force

text \<open>The maps hold no drop for a type that connectivity needs.\<close>

definition mandatory_open :: "dp_state \<Rightarrow> bool" where
  "mandatory_open s \<longleftrightarrow>
     (\<forall>t. caly_icmp_type_is_mandatory CALY_AF_INET t \<longrightarrow> dp_icmp4_pol s t \<notin> {None, Some CALY_ICMP_DROP}) \<and>
     (\<forall>t. caly_icmp_type_is_mandatory CALY_AF_INET6 t \<longrightarrow> dp_icmp6_pol s t \<notin> {None, Some CALY_ICMP_DROP})"

lemma mandatory_open_cong:
  "dp_icmp4_pol s = dp_icmp4_pol t \<Longrightarrow> dp_icmp6_pol s = dp_icmp6_pol t \<Longrightarrow> mandatory_open s = mandatory_open t"
  by (simp add: mandatory_open_def)

lemma mandatory_seeded:
  "caly_icmp_type_is_mandatory f t \<Longrightarrow> unat t < 256 \<and> seeded_icmp cfg (f = CALY_AF_INET6) t = CALY_ICMP_PASS"
  by (auto simp: caly_icmp_type_is_mandatory_def seeded_icmp_def split: if_splits)

lemma policy_set_open:
  assumes "mandatory_open s" "f = CALY_AF_INET \<or> f = CALY_AF_INET6"
  shows "mandatory_open (snd (caly_icmp_policy_set sy f t p s))"
proof (cases "fst (caly_icmp_policy_set sy f t p s)")
  case None
  then have "caly_icmp_policy_set sy f t p s = (None, snd (caly_icmp_policy_set sy f t p s))"
    by (simp add: prod_eq_iff)
  from policy_set_ok [OF this] show ?thesis
    using assms by (auto simp: mandatory_open_def icmp_put_def)
next
  case (Some e)
  then have "snd (caly_icmp_policy_set sy f t p s) = s"
    by (auto simp: caly_icmp_policy_set_def Let_def split: if_splits)
  with assms show ?thesis by simp
qed

text \<open>No configuration file can drop the ICMP types that path-MTU discovery and neighbour discovery
  need: after seeding and after any list of prefixes, port rules, ICMP rules of the two families and
  interfaces has been applied, whichever of them failed, each mandatory type is present in its map and
  not set to drop; the types are those the data plane itself never filters.\<close>

theorem mandatory_icmp_stays_open:
  assumes "array_lookups sy" "caly_bpf_seed_maps sy feat cfg s = (None, s1)"
    and "\<forall>pi \<in> set icmps. pi_family pi = CALY_AF_INET \<or> pi_family pi = CALY_AF_INET6"
    and "caly_apply_pending sy ifindex cidrs ports icmps ifaces s1 = (ok, s2)"
  shows "mandatory_open s2 \<and>
         (\<forall>v4 t. caly_icmp_type_is_mandatory (if v4 then CALY_AF_INET else CALY_AF_INET6) t = icmp_mandatory v4 t)"
proof
  have seeded: "unat t < 256 \<Longrightarrow> dp_icmp4_pol s1 t = Some (seeded_icmp cfg False t)"
      "unat t < 256 \<Longrightarrow> dp_icmp6_pol s1 t = Some (seeded_icmp cfg True t)" for t
    by (simp_all add: seed_maps_ok [OF assms(2,1)])
  have "mandatory_open s1"
    unfolding mandatory_open_def
  proof (intro conjI allI impI)
    fix t assume "caly_icmp_type_is_mandatory CALY_AF_INET t"
    from mandatory_seeded [OF this, of cfg] show "dp_icmp4_pol s1 t \<notin> {None, Some CALY_ICMP_DROP}"
      using seeded [of t] by simp
  next
    fix t assume "caly_icmp_type_is_mandatory CALY_AF_INET6 t"
    from mandatory_seeded [OF this, of cfg] show "dp_icmp6_pol s1 t \<notin> {None, Some CALY_ICMP_DROP}"
      using seeded [of t] by simp
  qed
  then have "mandatory_open (snd (caly_apply_pending sy ifindex cidrs ports icmps ifaces s1))"
  proof (rule apply_pending_inv)
    show "mandatory_open (snd (caly_lpm_insert sy m c f g t))" if "mandatory_open t" for m c f g t
      using that mandatory_open_cong [OF lpm_insert_frame(2,3)] by simp
    show "mandatory_open (snd (edit_rule sy u zero_rule f p t))" if "mandatory_open t" for u f p t
      using that mandatory_open_cong [OF port_set_frame] by (simp add: edit_rule_def Let_def)
    show "mandatory_open (snd (caly_icmp_policy_set sy (pi_family pi) (pi_type pi) (pi_policy pi) t))"
      if "pi \<in> set icmps" "mandatory_open t" for pi t
      using that assms(3) policy_set_open by blast
    show "mandatory_open (snd (caly_iface_config_set sy ic t))" if "mandatory_open t" for ic t
      using that mandatory_open_cong [OF iface_set_frame(2,3)] by simp
  qed
  then show "mandatory_open s2" using assms(4) by simp
  show "\<forall>v4 t. caly_icmp_type_is_mandatory (if v4 then CALY_AF_INET else CALY_AF_INET6) t = icmp_mandatory v4 t"
    by (auto simp: caly_icmp_type_is_mandatory_def icmp_mandatory_def)
qed

section \<open>What the data plane makes of the port rules\<close>

definition none_present :: "dp_state \<Rightarrow> bool" where
  "none_present s \<longleftrightarrow> (\<forall>u p r. unat p < 65536 \<longrightarrow> dp_port u s p = Some r \<longrightarrow> \<not> CALY_RULE_PRESENT r)"

lemma none_presentD: "none_present s \<Longrightarrow> dp_port u s p = Some r \<Longrightarrow> unat p < 65536 \<Longrightarrow> \<not> CALY_RULE_PRESENT r"
  unfolding none_present_def by blast

lemma none_present_cong: "(\<And>u. dp_port u s = dp_port u t) \<Longrightarrow> none_present s = none_present t"
  by (simp add: none_present_def)

lemma has_flag_and: "has_flag (a AND b) m \<Longrightarrow> has_flag a m"
  by (auto simp: has_flag_def) (metis and.assoc and.commute bit.conj_zero_right)

lemma edit_none_present:
  assumes "none_present s" "\<And>r. \<not> CALY_RULE_PRESENT r \<Longrightarrow> \<not> CALY_RULE_PRESENT (f r)" "\<not> CALY_RULE_PRESENT base"
  shows "none_present (snd (edit_rule sy u base f p s))"
proof -
  have "\<not> CALY_RULE_PRESENT (case caly_port_rule_get sy u p s of None \<Rightarrow> base | Some r \<Rightarrow> r)"
    using assms(3) none_presentD [OF assms(1), of u p]
    by (auto simp: caly_port_rule_get_def word_less_nat_alt not_less split: option.splits if_splits)
  then show ?thesis
    using assms(1,2) by (auto simp: edit_rule_def caly_port_rule_set_def none_present_def Let_def split: if_splits)
qed

lemma pending_rule_present:
  "\<not> has_flag (pp_set_flags pp) CALY_PORT_F_PRESENT \<Longrightarrow> \<not> CALY_RULE_PRESENT r \<Longrightarrow> \<not> CALY_RULE_PRESENT (pending_rule pp r)"
  by (auto simp: CALY_RULE_PRESENT_def pending_rule_def Let_def dest!: has_flag_and)

text \<open>The port rules of the configuration file never decide a packet: seeding and the file's rules
  write every slot without the flag by which the data plane recognises a configured rule, so that for
  any list of rules (none of the directives sets that flag) the port stage decides a TCP or UDP packet
  by default deny alone.\<close>

theorem config_port_rules_ignored:
  assumes "array_lookups sy" "caly_bpf_seed_maps sy feat cfg s = (None, s1)"
    and "\<forall>pp \<in> set ports. \<not> has_flag (pp_set_flags pp) CALY_PORT_F_PRESENT"
    and "caly_apply_pending sy ifindex cidrs ports icmps ifaces s1 = (ok, s2)"
    and "has_flag (e_flags e) CALY_F_PORT_POLICY"
    and "\<not> has_flag (pk_flags (e_pkt e)) (CALY_PKT_F_L4_TRUNC OR CALY_PKT_F_MGMT)"
    and "pk_proto (e_pkt e) = CALY_IPPROTO_TCP \<or> pk_proto (e_pkt e) = CALY_IPPROTO_UDP"
  shows "\<exists>e'. action_port e s2 =
           (if has_flag (e_flags e) CALY_F_DEFAULT_DENY then drop_with STAT_DROP_DEFAULT_DENY e' s2 else Next e' s2)"
proof -
  have "none_present s1"
    using seed_maps_ok [OF assms(2,1)]
    by (auto simp: none_present_def CALY_RULE_PRESENT_def seeded_rule_def split: if_splits)
  then have "none_present (snd (caly_apply_pending sy ifindex cidrs ports icmps ifaces s1))"
  proof (rule apply_pending_inv)
    show "none_present (snd (caly_lpm_insert sy m c f g t))" if "none_present t" for m c f g t
      using that none_present_cong lpm_insert_frame(1) by blast
    show "none_present (snd (edit_rule sy (pp_is_udp pp) zero_rule (pending_rule pp) p t))"
      if "pp \<in> set ports" "none_present t" for pp p t
      by (rule edit_none_present [OF that(2) pending_rule_present])
        (use that(1) assms(3) in \<open>auto simp: zero_rule_def CALY_RULE_PRESENT_def\<close>)
    show "none_present (snd (caly_icmp_policy_set sy f ty p t))" if "none_present t" for f ty p t
      using that none_present_cong policy_set_frame by blast
    show "none_present (snd (caly_iface_config_set sy ic t))" if "none_present t" for ic t
      using that none_present_cong iface_set_frame(1) by blast
  qed
  then have np: "none_present s2" using assms(4) by simp
  let ?u = "pk_proto (e_pkt e) = CALY_IPPROTO_UDP" and ?p = "ucast (ntohs (pk_dport (e_pkt e))) :: u32"
  have "\<not> CALY_RULE_PRESENT r" if "dp_port ?u s2 ?p = Some r" for r
    using none_presentD [OF np that] unat_u16_less [of "ntohs (pk_dport (e_pkt e))"] by simp
  then show ?thesis
    using assms(5-7)
    by (intro exI [of _ "e\<lparr>e_prule := dp_port ?u s2 ?p\<rparr>"])
      (auto simp: action_port_def dp_port_def Let_def split: option.splits)
qed

section \<open>Witnesses\<close>

text \<open>A kernel without batch updates that grants every other call.\<close>

definition sy0 :: syscalls where
  "sy0 = \<lparr>sy_fd = \<lambda>_. True, sy_upd = \<lambda>_ _. True, sy_get = \<lambda>_ _. True, sy_batch = \<lambda>_ _. Some 7, sy_mem = \<lambda>_. True,
          sy_lpm = \<lambda>_ m k v. Some (m(k \<mapsto> v))\<rparr>"

definition feat0 :: caly_features where
  "feat0 = \<lparr>have_synproxy = True, have_ringbuf = True, have_btf = True, have_batch_ops = True\<rparr>"

definition deny_cfg :: fw_config where
  "deny_cfg = caly_config_defaults\<lparr>cfg_flags := cfg_flags caly_config_defaults OR CALY_F_DEFAULT_DENY\<rparr>"

abbreviation "https_sc \<equiv> sc0 (syn_pkt\<lparr>pk_dport := 0xBB01\<rparr>)"

text \<open>\<open>tcp_port = 443 open\<close> and \<open>icmp4_type = 3 drop\<close>.\<close>

definition https_rule :: caly_pending_port where
  "https_rule = \<lparr>pp_is_udp = False, pp_lo = 443, pp_hi = 443, pp_mode = CALY_PORT_OPEN, pp_rate = 0, pp_burst = 0,
     pp_set_flags = 0, pp_clr_flags = 0\<rparr>"

definition unreach_rule :: caly_pending_icmp where
  "unreach_rule = \<lparr>pi_family = CALY_AF_INET, pi_type = 3, pi_policy = CALY_ICMP_DROP\<rparr>"

definition seeded0 :: dp_state where
  "seeded0 = snd (caly_bpf_seed_maps sy0 feat0 deny_cfg (dp0 deny_cfg https_sc))"

lemma sy0_laws: "array_lookups sy0" "kernel_willing sy0"
  by (simp_all add: sy0_def array_lookups_def kernel_willing_def)

lemma seeded0_ok: "caly_bpf_seed_maps sy0 feat0 deny_cfg (dp0 deny_cfg https_sc) = (None, seeded0)"
  using seed_willing [OF sy0_laws(2), of feat0 deny_cfg] by (simp add: seeded0_def prod_eq_iff)

theorem caly_bpf_seed_maps_exact_witness:
  "dp_port False seeded0 443 = Some (seeded_rule deny_cfg False 443) \<and>
   pr_mode (seeded_rule deny_cfg False 443) = CALY_PORT_CLOSED \<and>
   dp_icmp4_pol seeded0 8 = Some CALY_ICMP_RATELIMIT"
proof -
  have "unat (443 :: u32) < 65536" "unat (8 :: u32) < 256" by simp_all
  moreover have "443 \<notin> mgmt_set deny_cfg False"
    by (simp add: mgmt_set_def mgmt_slots_def deny_cfg_def caly_config_defaults_def)
  then have "pr_mode (seeded_rule deny_cfg False 443) = CALY_PORT_CLOSED"
    by (simp add: seeded_rule_def deny_cfg_def)
  moreover have "seeded_icmp deny_cfg False 8 = CALY_ICMP_RATELIMIT" by (simp add: seeded_icmp_def)
  ultimately show ?thesis
    using caly_bpf_seed_maps_exact [OF sy0_laws(1) seeded0_ok] by simp
qed

theorem mandatory_icmp_stays_open_witness:
  "mandatory_open (snd (caly_apply_pending sy0 (\<lambda>_. 0) [] [https_rule] [unreach_rule] [] seeded0))"
  using mandatory_icmp_stays_open [OF sy0_laws(1) seeded0_ok, of "[unreach_rule]" "\<lambda>_. 0" "[]" "[https_rule]" "[]"]
  by (simp add: unreach_rule_def prod_eq_iff)

theorem config_port_rules_ignored_witness:
  "let s2 = snd (caly_apply_pending sy0 (\<lambda>_. 0) [] [https_rule] [] [] seeded0)
   in \<exists>e'. action_port (policy_env deny_cfg https_sc) s2 = drop_with STAT_DROP_DEFAULT_DENY e' s2"
proof -
  have "e_flags (policy_env deny_cfg https_sc) = cfg_flags deny_cfg" by (simp add: policy_env_def Let_def)
  moreover have "has_flag (cfg_flags deny_cfg) CALY_F_PORT_POLICY" "has_flag (cfg_flags deny_cfg) CALY_F_DEFAULT_DENY"
    by (simp_all add: deny_cfg_def caly_config_defaults_def)
  moreover have "e_pkt (policy_env deny_cfg https_sc) = syn_pkt\<lparr>pk_dport := 0xBB01\<rparr>"
    by (simp add: policy_env_def Let_def)
  ultimately show ?thesis
    using config_port_rules_ignored [OF sy0_laws(1) seeded0_ok, of "[https_rule]" "\<lambda>_. 0" "[]" "[]" "[]"
        "fst (caly_apply_pending sy0 (\<lambda>_. 0) [] [https_rule] [] [] seeded0)"
        "snd (caly_apply_pending sy0 (\<lambda>_. 0) [] [https_rule] [] [] seeded0)" "policy_env deny_cfg https_sc"]
    by (simp add: https_rule_def Let_def)
qed

end
