(* ===== verification/Caly_Gc.thy ===== *)
theory Caly_Gc
  imports Caly_Seed
begin

text \<open>
  The garbage collector of the loader (\<open>loader.c\<close>): when an entry of a dynamic map has aged out, the
  bounded sweep over one map, and the collection over all of them.

  The kernel is a parameter: which key follows a key in a map, whether a deletion succeeds and whether
  a map is there.  A sweep is not interleaved with the data plane here.
\<close>

section \<open>Expiry\<close>

definition idle_over :: "u64 \<Rightarrow> u64 \<Rightarrow> u64 \<Rightarrow> bool" where
  "idle_over seen now idle \<longleftrightarrow> seen \<noteq> 0 \<and> now > seen \<and> now - seen > idle"

text \<open>A configured interval, or the built-in one where it is zero.\<close>

definition or_default :: "u64 \<Rightarrow> u64 \<Rightarrow> u64" where
  "or_default v d = (if v \<noteq> 0 then v else d)"

definition gc_expired_ban :: "u64 \<Rightarrow> ban_entry \<Rightarrow> bool" where
  "gc_expired_ban now e \<longleftrightarrow>
     (if has_flag (be_flags e) CALY_BAN_F_PERMANENT then False else be_expiry_ns e \<noteq> 0 \<and> be_expiry_ns e \<le> now)"

definition gc_expired_rate :: "fw_config \<Rightarrow> u64 \<Rightarrow> rate_state \<Rightarrow> bool" where
  "gc_expired_rate cfg now e \<longleftrightarrow>
     idle_over (rs_last_seen_ns e) now (or_default (cfg_rate_idle_ns cfg) (5 * 60 * CALY_NSEC_PER_SEC))"

definition gc_expired_scan :: "fw_config \<Rightarrow> u64 \<Rightarrow> scan_state \<Rightarrow> bool" where
  "gc_expired_scan cfg now e \<longleftrightarrow>
     idle_over (sn_last_seen_ns e) now (or_default (cfg_scan_idle_ns cfg) (5 * 60 * CALY_NSEC_PER_SEC))"

definition gc_expired_top :: "fw_config \<Rightarrow> u64 \<Rightarrow> src_stats \<Rightarrow> bool" where
  "gc_expired_top cfg now e \<longleftrightarrow>
     idle_over (ss_last_seen_ns e) now (or_default (cfg_srcstat_idle_ns cfg) (10 * 60 * CALY_NSEC_PER_SEC))"

definition gc_conn_timeout :: "fw_config \<Rightarrow> u32 \<Rightarrow> conn_state \<Rightarrow> u64" where
  "gc_conn_timeout cfg proto e =
     (if proto = CALY_IPPROTO_TCP then
        (if cs_state e = CALY_CT_ESTABLISHED then or_default (cfg_ct_tcp_est_ns cfg) (4 * 3600 * CALY_NSEC_PER_SEC)
         else if cs_state e = CALY_CT_FIN_WAIT \<or> cs_state e = CALY_CT_CLOSED
           then or_default (cfg_ct_tcp_fin_ns cfg) (30 * CALY_NSEC_PER_SEC)
         else or_default (cfg_ct_tcp_syn_ns cfg) (60 * CALY_NSEC_PER_SEC))
      else if proto = CALY_IPPROTO_UDP then
        (if has_flag (cs_flags e) CALY_CT_F_SEEN_REPLY
         then or_default (cfg_ct_udp_stream_ns cfg) (180 * CALY_NSEC_PER_SEC)
         else or_default (cfg_ct_udp_ns cfg) (30 * CALY_NSEC_PER_SEC))
      else if proto = CALY_IPPROTO_ICMP \<or> proto = CALY_IPPROTO_ICMPV6
        then or_default (cfg_ct_icmp_ns cfg) (30 * CALY_NSEC_PER_SEC)
      else or_default (cfg_ct_generic_ns cfg) (60 * CALY_NSEC_PER_SEC))"

definition gc_expired_conn :: "fw_config \<Rightarrow> u64 \<Rightarrow> conn_key \<Rightarrow> conn_state \<Rightarrow> bool" where
  "gc_expired_conn cfg now k e \<longleftrightarrow>
     (let to = gc_conn_timeout cfg (ucast (ck_proto k)) e;
          to = (if has_flag (cs_flags e) CALY_CT_F_MGMT then to * 4 else to)
      in idle_over (cs_last_seen_ns e) now to)"

section \<open>The sweep\<close>

lemma seen_step: "(seen :: u32) < budget \<Longrightarrow> unat (seen + 1) = unat seen + 1 \<and> unat seen < unat budget"
proof -
  assume "seen < budget"
  then have "unat seen < unat budget" by (simp add: word_less_nat_alt)
  then show ?thesis using unat_u32_less [of budget] by (simp add: unat_word_ariths)
qed

text \<open>\<open>nxt m k\<close> is \<open>bpf_map_get_next_key\<close>, with \<^term>\<open>None\<close> for the null key and for the end; \<open>del k\<close>
  says whether the deletion of a key succeeds.  The result is the map, the number of removed entries
  and the number of keys seen.\<close>

function gc_loop ::
  "(('k \<rightharpoonup> 'v) \<Rightarrow> 'k option \<Rightarrow> 'k option) \<Rightarrow> ('k \<Rightarrow> bool) \<Rightarrow> ('k \<Rightarrow> 'v \<Rightarrow> bool) \<Rightarrow> u32
   \<Rightarrow> 'k option \<Rightarrow> u32 \<Rightarrow> u64 \<Rightarrow> ('k \<rightharpoonup> 'v) \<Rightarrow> ('k \<rightharpoonup> 'v) \<times> u64 \<times> u32" where
  "gc_loop nxt del expired budget prev seen removed m =
     (if seen < budget then
        (case nxt m prev of
           None \<Rightarrow> (m, removed, seen)
         | Some cur \<Rightarrow>
             (case m cur of
                None \<Rightarrow> gc_loop nxt del expired budget (Some cur) (seen + 1) removed m
              | Some v \<Rightarrow>
                  if expired cur v \<and> del cur
                  then gc_loop nxt del expired budget (Some cur) (seen + 1) (removed + 1) (m(cur := None))
                  else gc_loop nxt del expired budget (Some cur) (seen + 1) removed m))
      else (m, removed, seen))"
  by pat_completeness auto

termination
  by (relation "measure (\<lambda>(_, _, _, budget, _, seen, _, _). unat budget - unat seen)")
    (auto dest: seen_step)

declare gc_loop.simps [simp del]

definition caly_gc_sweep ::
  "bool \<Rightarrow> (('k \<rightharpoonup> 'v) \<Rightarrow> 'k option \<Rightarrow> 'k option) \<Rightarrow> ('k \<Rightarrow> bool) \<Rightarrow> ('k \<Rightarrow> 'v \<Rightarrow> bool) \<Rightarrow> u32 \<Rightarrow> ('k \<rightharpoonup> 'v)
   \<Rightarrow> ('k \<rightharpoonup> 'v) \<times> u64 \<times> u32" where
  "caly_gc_sweep fd nxt del expired budget m =
     (if \<not> fd then (m, 0, 0) else gc_loop nxt del expired budget None 0 0 m)"

section \<open>The collection\<close>

record gc_kern =
  gk_fd :: "caly_map_id \<Rightarrow> bool"
  gk_next_ban :: "caly_map_id \<Rightarrow> (src_key \<rightharpoonup> ban_entry) \<Rightarrow> src_key option \<Rightarrow> src_key option"
  gk_next_rate :: "caly_map_id \<Rightarrow> (src_key \<rightharpoonup> rate_state) \<Rightarrow> src_key option \<Rightarrow> src_key option"
  gk_next_scan :: "caly_map_id \<Rightarrow> (src_key \<rightharpoonup> scan_state) \<Rightarrow> src_key option \<Rightarrow> src_key option"
  gk_next_top :: "caly_map_id \<Rightarrow> (src_key \<rightharpoonup> src_stats) \<Rightarrow> src_key option \<Rightarrow> src_key option"
  gk_next_conn :: "(conn_key \<rightharpoonup> conn_state) \<Rightarrow> conn_key option \<Rightarrow> conn_key option"
  gk_del :: "caly_map_id \<Rightarrow> src_key \<Rightarrow> bool"
  gk_del_conn :: "conn_key \<Rightarrow> bool"

record caly_gc_stats =
  gs_bans_removed :: u64
  gs_rate_removed :: u64
  gs_scan_removed :: u64
  gs_top_removed :: u64
  gs_conn_removed :: u64
  gs_examined :: u64

definition gc_budget :: "fw_config \<Rightarrow> u32" where
  "gc_budget cfg = (if cfg_gc_batch cfg \<noteq> 0 then cfg_gc_batch cfg else 4096)"

definition caly_bpf_gc :: "gc_kern \<Rightarrow> fw_config \<Rightarrow> u64 \<Rightarrow> dp_state \<Rightarrow> caly_gc_stats \<times> dp_state" where
  "caly_bpf_gc gk cfg now s =
     (let budget = gc_budget cfg;
          (bans, b4, x1) = caly_gc_sweep (gk_fd gk MID_BAN4) (gk_next_ban gk MID_BAN4) (gk_del gk MID_BAN4)
                             (\<lambda>_. gc_expired_ban now) budget (dp_ban s);
          (bans, b6, x2) = caly_gc_sweep (gk_fd gk MID_BAN6) (gk_next_ban gk MID_BAN6) (gk_del gk MID_BAN6)
                             (\<lambda>_. gc_expired_ban now) budget bans;
          (rates, r4, x3) = caly_gc_sweep (gk_fd gk MID_RATE4) (gk_next_rate gk MID_RATE4) (gk_del gk MID_RATE4)
                             (\<lambda>_. gc_expired_rate cfg now) budget (dp_rate s);
          (rates, r6, x4) = caly_gc_sweep (gk_fd gk MID_RATE6) (gk_next_rate gk MID_RATE6) (gk_del gk MID_RATE6)
                             (\<lambda>_. gc_expired_rate cfg now) budget rates;
          (scans, s4, x5) = caly_gc_sweep (gk_fd gk MID_SCAN4) (gk_next_scan gk MID_SCAN4) (gk_del gk MID_SCAN4)
                             (\<lambda>_. gc_expired_scan cfg now) budget (dp_scan s);
          (scans, s6, x6) = caly_gc_sweep (gk_fd gk MID_SCAN6) (gk_next_scan gk MID_SCAN6) (gk_del gk MID_SCAN6)
                             (\<lambda>_. gc_expired_scan cfg now) budget scans;
          (tops, t4, x7) = caly_gc_sweep (gk_fd gk MID_TOP4) (gk_next_top gk MID_TOP4) (gk_del gk MID_TOP4)
                             (\<lambda>_. gc_expired_top cfg now) budget (dp_top s);
          (tops, t6, x8) = caly_gc_sweep (gk_fd gk MID_TOP6) (gk_next_top gk MID_TOP6) (gk_del gk MID_TOP6)
                             (\<lambda>_. gc_expired_top cfg now) budget tops;
          (conns, c, x9) = caly_gc_sweep (gk_fd gk MID_CONN) (gk_next_conn gk) (gk_del_conn gk)
                             (gc_expired_conn cfg now) budget (dp_conn s)
      in (\<lparr>gs_bans_removed = b4 + b6, gs_rate_removed = r4 + r6, gs_scan_removed = s4 + s6,
           gs_top_removed = t4 + t6, gs_conn_removed = c,
           gs_examined = ucast x1 + ucast x2 + ucast x3 + ucast x4 + ucast x5 + ucast x6 + ucast x7 + ucast x8 + ucast x9\<rparr>,
          s\<lparr>dp_ban := bans, dp_rate := rates, dp_scan := scans, dp_top := tops, dp_conn := conns\<rparr>))"

section \<open>A sweep removes only what has expired\<close>

definition swept :: "('k \<Rightarrow> 'v \<Rightarrow> bool) \<Rightarrow> ('k \<rightharpoonup> 'v) \<Rightarrow> ('k \<rightharpoonup> 'v) \<Rightarrow> bool" where
  "swept expired m m' \<longleftrightarrow> (\<forall>k. m' k = m k \<or> m' k = None \<and> (\<exists>v. m k = Some v \<and> expired k v))"

lemma swept_refl [simp]: "swept expired m m"
  by (simp add: swept_def)

lemma swept_trans: "swept expired m m' \<Longrightarrow> swept expired m' m'' \<Longrightarrow> swept expired m m''"
proof -
  assume a: "swept expired m m'" and b: "swept expired m' m''"
  show ?thesis
    unfolding swept_def
  proof
    fix k
    show "m'' k = m k \<or> m'' k = None \<and> (\<exists>v. m k = Some v \<and> expired k v)"
      using a [unfolded swept_def, rule_format, of k] b [unfolded swept_def, rule_format, of k] by metis
  qed
qed

text \<open>One round of the loop.\<close>

definition gc_hit :: "('k \<Rightarrow> bool) \<Rightarrow> ('k \<Rightarrow> 'v \<Rightarrow> bool) \<Rightarrow> ('k \<rightharpoonup> 'v) \<Rightarrow> 'k \<Rightarrow> bool" where
  "gc_hit del expired m k \<longleftrightarrow> (\<exists>v. m k = Some v \<and> expired k v \<and> del k)"

lemma gc_loop_done: "\<not> seen < budget \<or> nxt m prev = None \<Longrightarrow>
   gc_loop nxt del expired budget prev seen removed m = (m, removed, seen)"
  by (auto simp: gc_loop.simps [of _ _ _ _ _ seen])

lemma gc_loop_step:
  "seen < budget \<Longrightarrow> nxt m prev = Some cur \<Longrightarrow>
   gc_loop nxt del expired budget prev seen removed m =
   (if gc_hit del expired m cur
    then gc_loop nxt del expired budget (Some cur) (seen + 1) (removed + 1) (m(cur := None))
    else gc_loop nxt del expired budget (Some cur) (seen + 1) removed m)"
  by (subst gc_loop.simps) (auto simp: gc_hit_def split: option.splits)

lemma gc_loop_swept:
  "gc_loop nxt del expired budget prev seen removed m = (m', r, x) \<Longrightarrow> seen \<le> budget \<Longrightarrow>
   swept expired m m' \<and> x \<le> budget"
proof (induction "unat budget - unat seen" arbitrary: prev seen removed m)
  case 0
  then show ?case by (simp add: gc_loop_done word_less_nat_alt)
next
  case (Suc n)
  then have lt: "seen < budget" by (simp add: word_less_nat_alt)
  note step = seen_step [OF lt]
  have le: "seen + 1 \<le> budget" "n = unat budget - unat (seen + 1)" using Suc(2) step by (simp_all add: word_le_nat_alt)
  show ?case
  proof (cases "nxt m prev")
    case None
    with Suc.prems show ?thesis by (simp add: gc_loop_done)
  next
    case (Some cur)
    note r = Suc.prems(1) [unfolded gc_loop_step [where nxt = nxt and prev = prev, OF lt Some]]
    show ?thesis
    proof (cases "gc_hit del expired m cur")
      case True
      then have "swept expired (m(cur := None)) m' \<and> x \<le> budget" using r Suc.hyps(1) [OF le(2) _ le(1)] by simp
      moreover have "swept expired m (m(cur := None))" using True by (auto simp: swept_def gc_hit_def)
      ultimately show ?thesis using swept_trans by blast
    next
      case False
      then show ?thesis using r Suc.hyps(1) [OF le(2) _ le(1)] by simp
    qed
  qed
qed

lemma sweep_swept:
  "caly_gc_sweep fd nxt del expired budget m = (m', r, x) \<Longrightarrow> swept expired m m' \<and> x \<le> budget"
  using gc_loop_swept [of nxt del expired budget None 0 0 m m' r x] by (auto simp: caly_gc_sweep_def split: if_splits)

lemma gc_swept:
  assumes "caly_bpf_gc gk cfg now s = (st, s')"
  shows "swept (\<lambda>_. gc_expired_ban now) (dp_ban s) (dp_ban s')" "swept (\<lambda>_. gc_expired_rate cfg now) (dp_rate s) (dp_rate s')"
    "swept (\<lambda>_. gc_expired_scan cfg now) (dp_scan s) (dp_scan s')" "swept (\<lambda>_. gc_expired_top cfg now) (dp_top s) (dp_top s')"
    "swept (gc_expired_conn cfg now) (dp_conn s) (dp_conn s')"
  using assms unfolding caly_bpf_gc_def Let_def
  by (auto split: prod.splits dest!: sweep_swept intro: swept_trans)

lemma gc_frame:
  assumes "caly_bpf_gc gk cfg now s = (st, s')"
  shows "\<exists>b r n t c. s' = s\<lparr>dp_ban := b, dp_rate := r, dp_scan := n, dp_top := t, dp_conn := c\<rparr>"
  using assms unfolding caly_bpf_gc_def Let_def by (clarsimp split: prod.splits) blast

lemma unat_sum9:
  fixes x1 x2 x3 x4 x5 x6 x7 x8 x9 :: u32
  assumes "unat x1 \<le> n" "unat x2 \<le> n" "unat x3 \<le> n" "unat x4 \<le> n" "unat x5 \<le> n" "unat x6 \<le> n" "unat x7 \<le> n"
    "unat x8 \<le> n" "unat x9 \<le> n"
  shows "unat (ucast x1 + ucast x2 + ucast x3 + ucast x4 + ucast x5 + ucast x6 + ucast x7 + ucast x8 + ucast (x9 :: u32) :: u64)
           \<le> 9 * n"
proof -
  have u: "unat (ucast (x :: u32) :: u64) = unat x" for x
    using unat_u32_less [of x] by (simp add: unsigned_ucast_eq take_bit_nat_eq_self)
  have s: "unat (a + b) \<le> unat a + unat b" for a b :: u64 by (simp add: unat_word_ariths)
  show ?thesis
    using assms s [of "ucast x1" "ucast x2"]
      s [of "ucast x1 + ucast x2" "ucast x3"]
      s [of "ucast x1 + ucast x2 + ucast x3" "ucast x4"]
      s [of "ucast x1 + ucast x2 + ucast x3 + ucast x4" "ucast x5"]
      s [of "ucast x1 + ucast x2 + ucast x3 + ucast x4 + ucast x5" "ucast x6"]
      s [of "ucast x1 + ucast x2 + ucast x3 + ucast x4 + ucast x5 + ucast x6" "ucast x7"]
      s [of "ucast x1 + ucast x2 + ucast x3 + ucast x4 + ucast x5 + ucast x6 + ucast x7" "ucast x8"]
      s [of "ucast x1 + ucast x2 + ucast x3 + ucast x4 + ucast x5 + ucast x6 + ucast x7 + ucast x8" "ucast x9"]
    unfolding u by linarith
qed

lemma gc_examined:
  assumes "caly_bpf_gc gk cfg now s = (st, s')"
  shows "unat (gs_examined st) \<le> 9 * unat (gc_budget cfg)"
  using assms unfolding caly_bpf_gc_def Let_def
  by (clarsimp split: prod.splits dest!: sweep_swept simp: word_le_nat_alt) (rule unat_sum9)

section \<open>What the data plane still honours is kept\<close>

text \<open>The connection timeouts the data plane does not read as \<open>never\<close>, and small enough that the factor
  for management flows does not wrap.\<close>

definition ct_timeouts_set :: "fw_config \<Rightarrow> bool" where
  "ct_timeouts_set cfg \<longleftrightarrow>
     (\<forall>t \<in> {cfg_ct_tcp_syn_ns cfg, cfg_ct_tcp_est_ns cfg, cfg_ct_tcp_fin_ns cfg, cfg_ct_udp_ns cfg, cfg_ct_udp_stream_ns cfg,
            cfg_ct_icmp_ns cfg, cfg_ct_generic_ns cfg}. t \<noteq> 0 \<and> t < 0x4000000000000000)"

lemma expired_ban_inactive: "gc_expired_ban now be \<Longrightarrow> now \<le> t \<Longrightarrow> \<not> ban_active t be"
  by (auto simp: gc_expired_ban_def ban_active_def split: if_splits)

lemma times4: "(x :: u64) < 0x4000000000000000 \<Longrightarrow> x \<le> x * 4"
  by (simp add: word_less_nat_alt word_le_nat_alt unat_word_ariths)

lemma gc_timeout_eq:
  "ct_timeouts_set cfg \<Longrightarrow> gc_conn_timeout cfg proto cs =
     ct_timeout cfg proto (proto = CALY_IPPROTO_ICMP \<or> proto = CALY_IPPROTO_ICMPV6) cs"
  by (simp add: gc_conn_timeout_def ct_timeout_def ct_timeouts_set_def or_default_def)

lemma ct_timeout_range:
  "ct_timeouts_set cfg \<Longrightarrow> ct_timeout cfg proto i cs \<noteq> 0 \<and> ct_timeout cfg proto i cs < 0x4000000000000000"
  by (simp add: ct_timeout_def ct_timeouts_set_def)

lemma expired_conn_dead:
  assumes "gc_expired_conn cfg now k cs" "ct_timeouts_set cfg" "now \<le> e_now e"
    and "e_cfg e = cfg" "pk_proto (e_pkt e) = ucast (ck_proto k)"
    and "e_is_icmp e \<longleftrightarrow> pk_proto (e_pkt e) = CALY_IPPROTO_ICMP \<or> pk_proto (e_pkt e) = CALY_IPPROTO_ICMPV6"
  shows "\<not> ct_live e cs"
proof -
  let ?to = "ct_timeout cfg (pk_proto (e_pkt e)) (e_is_icmp e) cs"
  have r: "?to \<noteq> 0" "?to < 0x4000000000000000" using ct_timeout_range [OF assms(2)] by auto
  have "idle_over (cs_last_seen_ns cs) now (if has_flag (cs_flags cs) CALY_CT_F_MGMT then ?to * 4 else ?to)"
    using assms(1) by (simp add: gc_expired_conn_def gc_timeout_eq [OF assms(2)] assms(5) assms(6) Let_def split: if_splits)
  then have i: "now > cs_last_seen_ns cs" "now - cs_last_seen_ns cs > ?to"
    using times4 [OF r(2)] by (auto simp: idle_over_def split: if_splits)
  have "e_now e - cs_last_seen_ns cs \<ge> now - cs_last_seen_ns cs"
    using i(1) assms(3) by (simp add: word_le_nat_alt word_less_nat_alt unat_sub_if')
  then have "e_now e \<ge> cs_last_seen_ns cs \<and> e_now e - cs_last_seen_ns cs > ?to" using i assms(3) by auto
  then show ?thesis using r(1) assms(4) by (simp add: ct_live_def Let_def)
qed

text \<open>The timeouts of the packet's flow.\<close>

lemma gc_keeps_flow:
  assumes "caly_bpf_gc gk cfg now s = (st, s')" "ct_timeouts_set cfg"
    and "now \<le> pk_ts_ns (sc_pkt sc)" "pk_proto (sc_pkt sc) < 256"
  shows "open_flow cfg sc s' = open_flow cfg sc s"
proof -
  let ?k = "ct_key_of (sc_pkt sc)" and ?e = "policy_env cfg sc"
  have "unat (pk_proto (sc_pkt sc)) < 256" using assms(4) by (simp add: word_less_nat_alt)
  then have p: "ucast (ck_proto ?k) = pk_proto (sc_pkt sc)"
    by (intro word_unat_eq_iff [THEN iffD2]) (simp add: ct_key_of_def unsigned_ucast_eq unsigned_take_bit_eq take_bit_nat_eq_self)
  have dead: "\<not> ct_live ?e cs" if "gc_expired_conn cfg now ?k cs" for cs
    by (rule expired_conn_dead [OF that assms(2)]) (use assms(3) p in \<open>auto simp: policy_env_def Let_def\<close>)
  have "dp_conn s' ?k = dp_conn s ?k \<or> dp_conn s' ?k = None \<and> (\<exists>cs. dp_conn s ?k = Some cs \<and> gc_expired_conn cfg now ?k cs)"
    using gc_swept(5) [OF assms(1)] by (simp add: swept_def)
  then show ?thesis using dead by (auto simp: open_flow_def)
qed

lemma gc_keeps_ban:
  assumes "caly_bpf_gc gk cfg now s = (st, s')" "now \<le> t"
  shows "(\<exists>be. dp_ban s' k = Some be \<and> ban_active t be \<and> P be) \<longleftrightarrow> (\<exists>be. dp_ban s k = Some be \<and> ban_active t be \<and> P be)"
proof -
  have "dp_ban s' k = dp_ban s k \<or> dp_ban s' k = None \<and> (\<exists>be. dp_ban s k = Some be \<and> gc_expired_ban now be)"
    using gc_swept(1) [OF assms(1)] by (simp add: swept_def)
  then show ?thesis
  proof
    assume "dp_ban s' k = dp_ban s k"
    then show ?thesis by simp
  qed (use expired_ban_inactive [OF _ assms(2)] in auto)
qed

section \<open>How far a sweep gets\<close>

text \<open>The documented behaviour of \<open>bpf_map_get_next_key\<close> on a hash map whose keys lie in the order
  \<open>ord\<close>: the null key gives the first key, a key of the map the next one, and a key that is not in
  the map the first one again.\<close>

definition walks :: "(('k \<rightharpoonup> 'v) \<Rightarrow> 'k option \<Rightarrow> 'k option) \<Rightarrow> 'k list \<Rightarrow> bool" where
  "walks nxt ord \<longleftrightarrow> distinct ord \<and>
     (\<forall>m. nxt m None = find (\<lambda>k. m k \<noteq> None) ord) \<and>
     (\<forall>m k. m k = None \<longrightarrow> nxt m (Some k) = find (\<lambda>k. m k \<noteq> None) ord) \<and>
     (\<forall>m k xs ys. ord = xs @ k # ys \<longrightarrow> m k \<noteq> None \<longrightarrow> nxt m (Some k) = find (\<lambda>k. m k \<noteq> None) ys)"

definition present :: "('k \<rightharpoonup> 'v) \<Rightarrow> 'k list \<Rightarrow> nat" where
  "present m ks = length (filter (\<lambda>k. m k \<noteq> None) ks)"

definition expiring :: "('k \<Rightarrow> 'v \<Rightarrow> bool) \<Rightarrow> ('k \<rightharpoonup> 'v) \<Rightarrow> 'k \<Rightarrow> bool" where
  "expiring expired m k \<longleftrightarrow> (\<exists>v. m k = Some v \<and> expired k v)"

definition stale :: "('k \<Rightarrow> 'v \<Rightarrow> bool) \<Rightarrow> ('k \<rightharpoonup> 'v) \<Rightarrow> 'k list \<Rightarrow> nat" where
  "stale expired m ks = length (filter (expiring expired m) ks)"

lemma find_split:
  "find P xs = Some x \<longleftrightarrow> (\<exists>ys zs. xs = ys @ x # zs \<and> P x \<and> (\<forall>y \<in> set ys. \<not> P y))"
proof (induction xs)
  case (Cons a xs)
  show ?case
  proof (cases "P a")
    case True
    then show ?thesis by (auto simp: Cons_eq_append_conv)
  next
    case False
    then have "(\<exists>ys zs. a # xs = ys @ x # zs \<and> P x \<and> (\<forall>y \<in> set ys. \<not> P y)) \<longleftrightarrow>
        (\<exists>ys zs. xs = ys @ x # zs \<and> P x \<and> (\<forall>y \<in> set ys. \<not> P y))"
      by (auto simp: Cons_eq_append_conv) (metis set_ConsD)
    with False Cons show ?thesis by simp
  qed
qed simp

lemma swept_stale_free:
  assumes "swept expired m m'" "\<And>k. \<not> expiring expired m k"
  shows "m' = m"
  using assms by (fastforce simp: swept_def expiring_def fun_eq_iff)

text \<open>What a sweep removes when it runs to the end: exactly the stale entries.\<close>

definition without_stale :: "('k \<Rightarrow> 'v \<Rightarrow> bool) \<Rightarrow> ('k \<rightharpoonup> 'v) \<Rightarrow> 'k \<rightharpoonup> 'v" where
  "without_stale expired m = (\<lambda>k. if expiring expired m k then None else m k)"

lemma stale_del:
  assumes "distinct ks" "k \<in> set ks" "expiring expired m k"
  shows "stale expired m ks = Suc (stale expired (m(k := None)) ks)" "present m ks = Suc (present (m(k := None)) ks)"
proof -
  have d: "length (filter P ks) = Suc (length (filter Q ks))"
    if "P k" "\<not> Q k" "\<And>x. x \<noteq> k \<Longrightarrow> P x = Q x" for P Q :: "'a \<Rightarrow> bool"
  proof -
    obtain xs ys where ks: "ks = xs @ k # ys" "k \<notin> set xs" "k \<notin> set ys"
      using assms(1,2) by (metis distinct.simps(2) distinct_append not_distinct_conv_prefix split_list_first)
    have "filter P xs = filter Q xs" "filter P ys = filter Q ys"
      by (rule filter_cong [OF refl], use ks(2,3) that(3) in metis)+
    then show ?thesis using ks(1) that(1,2) by simp
  qed
  show "stale expired m ks = Suc (stale expired (m(k := None)) ks)"
    unfolding stale_def by (rule d) (use assms(3) in \<open>auto simp: expiring_def\<close>)
  show "present m ks = Suc (present (m(k := None)) ks)"
    unfolding present_def by (rule d) (use assms(3) in \<open>auto simp: expiring_def\<close>)
qed

lemma gc_loop_complete:
  assumes w: "walks nxt ord" and del: "\<And>k. del k"
  shows "ord = xs @ ys \<Longrightarrow> dom m \<subseteq> set ord \<Longrightarrow> (\<And>k. k \<in> set xs \<Longrightarrow> \<not> expiring expired m k) \<Longrightarrow>
    nxt m prev = find (\<lambda>k. m k \<noteq> None) ys \<Longrightarrow> seen \<le> budget \<Longrightarrow>
    stale expired m ord * (present m ord + 1) + present m ys \<le> unat budget - unat seen \<Longrightarrow>
    fst (gc_loop nxt del expired budget prev seen removed m) = without_stale expired m"
proof (induction "unat budget - unat seen" arbitrary: prev seen removed m xs ys)
  case 0
  then have "stale expired m ord = 0" by simp
  then have "\<not> expiring expired m k" for k
    using 0(3) by (cases "k \<in> set ord") (auto simp: stale_def filter_empty_conv expiring_def)
  then have "without_stale expired m = m" by (simp add: without_stale_def)
  then show ?case using 0(1,6) by (simp add: gc_loop_done word_less_nat_alt)
next
  case (Suc n)
  have lt: "seen < budget" using Suc(2) by (simp add: word_less_nat_alt)
  have le: "seen + 1 \<le> budget" "n = unat budget - unat (seen + 1)" using Suc(2) seen_step [OF lt] by (simp_all add: word_le_nat_alt)
  show ?case
  proof (cases "find (\<lambda>k. m k \<noteq> None) ys")
    case None
    then have "\<not> expiring expired m k" for k
      using Suc(3,4,5) by (auto simp: find_None_iff expiring_def)
    moreover have "nxt m prev = None" using None Suc(6) by simp
    ultimately show ?thesis by (simp add: gc_loop_done without_stale_def)
  next
    case (Some cur)
    then obtain as bs where ys: "ys = as @ cur # bs" "m cur \<noteq> None" "\<forall>y \<in> set as. m y = None"
      by (auto simp: find_split)
    have nx: "nxt m prev = Some cur" using Some Suc(6) by simp
    show ?thesis
    proof (cases "expiring expired m cur")
      case True
      let ?m = "m(cur := None)"
      have cnt: "stale expired m ord = Suc (stale expired ?m ord)" "present m ord = Suc (present ?m ord)"
        by (rule stale_del [OF _ _ True]; use w ys Suc(3) in \<open>simp add: walks_def\<close>)+
      have "fst (gc_loop nxt del expired budget (Some cur) (seen + 1) (removed + 1) ?m) = without_stale expired ?m"
      proof (rule Suc.hyps(1) [OF le(2), of "[]" ord])
        show "nxt ?m (Some cur) = find (\<lambda>k. ?m k \<noteq> None) ord" using w by (simp add: walks_def)
        have "Suc (stale expired ?m ord) * (Suc (present ?m ord) + 1) \<le> Suc n"
          using Suc(8) unfolding cnt Suc(2) [symmetric] by linarith
        then have "stale expired ?m ord * (present ?m ord + 1) + present ?m ord \<le> n" by (simp add: algebra_simps)
        then show "stale expired ?m ord * (present ?m ord + 1) + present ?m ord \<le> unat budget - unat (seen + 1)"
          by (simp only: le(2))
      qed (use Suc(4) le in auto)
      moreover have "without_stale expired ?m = without_stale expired m"
        using True by (auto simp: without_stale_def expiring_def fun_eq_iff)
      ultimately show ?thesis
        using True del by (simp add: gc_loop_step [where nxt = nxt and prev = prev, OF lt nx] gc_hit_def expiring_def)
    next
      case False
      have p: "present m ys = Suc (present m bs)" using ys by (simp add: present_def filter_empty_conv)
      have "fst (gc_loop nxt del expired budget (Some cur) (seen + 1) removed m) = without_stale expired m"
      proof (rule Suc.hyps(1) [OF le(2), of "xs @ as @ [cur]" bs])
        show "nxt m (Some cur) = find (\<lambda>k. m k \<noteq> None) bs"
          using w ys Suc(3) unfolding walks_def by (metis append.assoc)
        show "stale expired m ord * (present m ord + 1) + present m bs \<le> unat budget - unat (seen + 1)"
          using Suc(8) p le(2) Suc(2) by linarith
      qed (use Suc(3,4,5) ys False le in \<open>auto simp: expiring_def\<close>)
      moreover have "\<not> gc_hit del expired m cur" using False by (auto simp: gc_hit_def expiring_def)
      ultimately show ?thesis
        by (simp add: gc_loop_step [where nxt = nxt and prev = prev, OF lt nx])
    qed
  qed
qed

section \<open>Properties\<close>


text \<open>A sweep with enough budget removes exactly the stale entries: with \<open>e\<close> stale entries among
  \<open>n\<close>, a budget of \<open>e * (n + 1) + n\<close> is enough, since after each deletion the kernel starts again at
  the first key.\<close>

theorem caly_gc_sweep_complete:
  assumes "walks nxt ord" "dom m \<subseteq> set ord" "\<And>k. del k"
    and "stale expired m ord * (present m ord + 1) + present m ord \<le> unat budget"
  shows "fst (caly_gc_sweep True nxt del expired budget m) = without_stale expired m"
  using gc_loop_complete [OF assms(1,3), where xs = "[]" and ys = ord and m = m and prev = None and seen = 0]
    assms(1,2,4)
  by (simp add: caly_gc_sweep_def walks_def)

text \<open>A sweep is starved by live entries: if the first \<open>budget\<close> keys of a map are live, nothing is
  removed, however many stale entries follow, and the next sweep starts at the same first key.\<close>

theorem caly_gc_sweep_starved:
  assumes "walks nxt ord" "ord = xs @ ys" "length xs = unat budget"
    and "\<And>k. k \<in> set xs \<Longrightarrow> m k \<noteq> None \<and> \<not> expiring expired m k"
  shows "fst (caly_gc_sweep True nxt del expired budget m) = m"
proof -
  have "fst (gc_loop nxt del expired budget prev seen removed m) = m"
    if "xs = as @ bs" "nxt m prev = find (\<lambda>k. m k \<noteq> None) (bs @ ys)" "length bs = unat budget - unat seen" for as bs prev seen removed
    using that
  proof (induction bs arbitrary: as prev seen)
    case Nil
    then show ?case by (simp add: gc_loop_done word_less_nat_alt)
  next
    case (Cons b bs)
    have lt: "seen < budget" using Cons.prems(3) by (simp add: word_less_nat_alt)
    have b: "m b \<noteq> None" "\<not> expiring expired m b" using assms(4) Cons.prems(1) by auto
    then have nx: "nxt m prev = Some b" using Cons.prems(2) by simp
    have "fst (gc_loop nxt del expired budget (Some b) (seen + 1) removed m) = m"
    proof (rule Cons.IH [of "as @ [b]"])
      show "nxt m (Some b) = find (\<lambda>k. m k \<noteq> None) (bs @ ys)"
        using assms(1,2) b(1) Cons.prems(1) unfolding walks_def by (metis append.assoc append_Cons)
    qed (use Cons.prems seen_step [OF lt] in auto)
    moreover have "\<not> gc_hit del expired m b" using b(2) by (auto simp: gc_hit_def expiring_def)
    ultimately show ?case by (simp add: gc_loop_step [where nxt = nxt and prev = prev, OF lt nx])
  qed
  from this [of "[]" xs None 0 0] show ?thesis
    using assms(1-3) by (simp add: caly_gc_sweep_def walks_def)
qed

text \<open>Garbage collection forgives: a repeat offender whose expired entry is still in the table gets
  the escalated TTL, but once the entry has been collected the same offence is punished like a first
  one, with the base TTL.\<close>

theorem gc_forgets_escalation:
  assumes "dp_ban s key = Some be" "gc_expired_ban now be"
    and "caly_bpf_gc gk cfg now s = (st, s')" "dp_ban s' key = None"
    and "has_flag (cfg_flags cfg) CALY_F_AUTOBAN"
    and "cfg_ban_ttl_base_ns cfg \<noteq> 0" "cfg_ban_ttl_base_ns cfg \<le> cfg_ban_ttl_max_ns cfg"
    and "\<And>v. k_upd_ban k (dp_ban s') key v \<noteq> None"
  shows "fst (caly_ban_install k sc cfg key now reason 0 strikes len s) =
           caly_ban_next_ttl (be_cur_ttl_ns be) (cfg_ban_ttl_base_ns cfg) (cfg_ban_ttl_max_ns cfg)
             (cfg_ban_escalate_num cfg) (cfg_ban_escalate_den cfg) \<and>
         fst (caly_ban_install k sc cfg key now reason 0 strikes len s') = cfg_ban_ttl_base_ns cfg"
proof
  have "\<not> be_expiry_ns be > now" using assms(2) by (auto simp: gc_expired_ban_def split: if_splits)
  then show "fst (caly_ban_install k sc cfg key now reason 0 strikes len s) =
           caly_ban_next_ttl (be_cur_ttl_ns be) (cfg_ban_ttl_base_ns cfg) (cfg_ban_ttl_max_ns cfg)
             (cfg_ban_escalate_num cfg) (cfg_ban_escalate_den cfg)"
    using assms(1,5) by (simp add: caly_ban_install_def Let_def)
  show "fst (caly_ban_install k sc cfg key now reason 0 strikes len s') = cfg_ban_ttl_base_ns cfg"
  proof -
    have u: "k_upd_ban k (dp_ban s') key v = None \<longleftrightarrow> False" for v using assms(8) by blast
    show ?thesis
      using assms(4-7) by (simp add: caly_ban_install_def Let_def u leD split: option.split)
  qed
qed

section \<open>Witnesses\<close>

text \<open>A ban table with a live and two expired entries, walked in the order 1, 2, 3.\<close>

definition ord0 :: "src_key list" where
  "ord0 = [K4 1, K4 2, K4 3]"

definition next0 :: "(src_key \<rightharpoonup> 'v) \<Rightarrow> src_key option \<Rightarrow> src_key option" where
  "next0 m p = (case p of None \<Rightarrow> find (\<lambda>k. m k \<noteq> None) ord0
     | Some k \<Rightarrow> if m k = None then find (\<lambda>k. m k \<noteq> None) ord0
                 else find (\<lambda>k. m k \<noteq> None) (tl (dropWhile (\<lambda>x. x \<noteq> k) ord0)))"

definition ban_at :: "u64 \<Rightarrow> ban_entry" where
  "ban_at t = \<lparr>be_expiry_ns = t, be_first_seen_ns = 1, be_last_hit_ns = 1, be_cur_ttl_ns = 1200000000000, be_hit_pkts = 0,
     be_hit_bytes = 0, be_reason = 0, be_strikes = 0, be_offences = 2, be_flags = CALY_BAN_F_AUTO\<rparr>"

definition bans0 :: "src_key \<rightharpoonup> ban_entry" where
  "bans0 = [K4 1 \<mapsto> ban_at 9000, K4 2 \<mapsto> ban_at 500, K4 3 \<mapsto> ban_at 600]"

lemma next0_walks: "walks next0 ord0"
proof -
  have s: "next0 m (Some k) = find (\<lambda>k. m k \<noteq> None) ys" if "ord0 = xs @ k # ys" "m k \<noteq> None" for m :: "src_key \<rightharpoonup> 'v" and k xs ys
  proof -
    have "k \<notin> set xs" using that(1) by (auto simp: ord0_def Cons_eq_append_conv)
    then have "dropWhile (\<lambda>x. x \<noteq> k) ord0 = k # ys" unfolding that(1) by (subst dropWhile_append2) auto
    then show ?thesis using that(2) unfolding next0_def by (simp only: option.case if_False list.sel)
  qed
  show ?thesis
    unfolding walks_def
  proof (intro conjI allI impI)
    fix m :: "src_key \<rightharpoonup> 'v" and k xs ys
    assume "ord0 = xs @ k # ys" "m k \<noteq> None"
    then show "next0 m (Some k) = find (\<lambda>k. m k \<noteq> None) ys" by (rule s)
  qed (simp_all add: next0_def, simp add: ord0_def)
qed

theorem caly_gc_sweep_complete_witness:
  "fst (caly_gc_sweep True next0 (\<lambda>_. True) (\<lambda>_. gc_expired_ban 1000) 16 bans0) = [K4 1 \<mapsto> ban_at 9000]"
proof -
  have "fst (caly_gc_sweep True next0 (\<lambda>_. True) (\<lambda>_. gc_expired_ban 1000) 16 bans0) = without_stale (\<lambda>_. gc_expired_ban 1000) bans0"
    by (rule caly_gc_sweep_complete [OF next0_walks])
      (auto simp: bans0_def ord0_def stale_def present_def expiring_def gc_expired_ban_def ban_at_def)
  also have "\<dots> = [K4 1 \<mapsto> ban_at 9000]"
    by (auto simp: without_stale_def expiring_def bans0_def fun_eq_iff gc_expired_ban_def ban_at_def)
  finally show ?thesis .
qed

theorem caly_gc_sweep_starved_witness:
  "fst (caly_gc_sweep True next0 (\<lambda>_. True) (\<lambda>_. gc_expired_ban 1000) 1 bans0) = bans0"
  by (rule caly_gc_sweep_starved [OF next0_walks, of "[K4 1]" "[K4 2, K4 3]"])
    (auto simp: bans0_def ord0_def expiring_def gc_expired_ban_def ban_at_def)

definition gk0 :: gc_kern where
  "gk0 = \<lparr>gk_fd = \<lambda>_. True, gk_next_ban = \<lambda>_. next0, gk_next_rate = \<lambda>_. next0, gk_next_scan = \<lambda>_. next0,
     gk_next_top = \<lambda>_. next0, gk_next_conn = \<lambda>_ _. None, gk_del = \<lambda>_ _. True, gk_del_conn = \<lambda>_. True\<rparr>"

definition gc_dp :: dp_state where
  "gc_dp = (dp0 caly_config_defaults syn_sc)\<lparr>dp_ban := bans0\<rparr>"


end
