(* ===== verification/Caly_Daemon.thy ===== *)
theory Caly_Daemon
  imports Caly_Gc
begin

text \<open>
  The daemon's control of the data plane (\<open>main.c\<close>, and the handler \<open>h_mode\<close> of \<open>ctl.c\<close>): the gauge rates,
  the escalation of the mode, the periodic work, the reload of the configuration, the mode command
  and the start, as functions on the daemon's state and a step relation over them.

  The outside is the record \<open>world\<close>: the gauge totals, whether the configuration map can be written,
  the kernel of the map operations, the interface table, the probed and the loaded features, the
  attached links.  The file parser's result is an argument of the reload.
\<close>

section \<open>State\<close>

record caly_link =
  ln_ifindex :: u32
  ln_ifname :: string
  ln_prog_id :: u32
  ln_dataplane :: u32
  ln_xdp_attached :: bool
  ln_tc_attached :: bool

abbreviation (input) CALY_DP_XDP_NATIVE :: u32 where "CALY_DP_XDP_NATIVE \<equiv> 1"

abbreviation (input) CALY_NSEC_PER_MSEC :: u64 where "CALY_NSEC_PER_MSEC \<equiv> 1000000"

record parsed_file =
  pf_cfg :: fw_config
  pf_cidrs :: "caly_pending_cidr list"
  pf_ports :: "caly_pending_port list"
  pf_icmps :: "caly_pending_icmp list"
  pf_ifaces :: "caly_iface_spec list"
  pf_allow_bypass_rate :: bool

record caly_daemon =
  d_cfg :: fw_config
  d_feat :: caly_features
  d_dp :: dp_state
  d_ifaces :: "caly_iface_spec list"
  d_links :: "caly_link list"
  d_cidrs :: "caly_pending_cidr list"
  d_ports :: "caly_pending_port list"
  d_icmps :: "caly_pending_icmp list"
  d_allow_bypass_rate :: bool
  d_prev_gauges :: "caly_gauge \<Rightarrow> u64"
  d_prev_sample_ns :: u64
  d_last_stats_ns :: u64
  d_last_gc_ns :: u64
  d_last_hi_ns :: u64
  d_base_mode :: u32
  d_cur_mode :: u32
  d_have_prev_sample :: bool

record world =
  w_gauges :: "(caly_gauge \<Rightarrow> u64) option"
  w_config_write :: bool
  w_sys :: syscalls
  w_gc :: gc_kern
  w_ifindex :: "string \<Rightarrow> u32"
  w_probe :: "caly_features option"
  w_load :: "caly_features option"
  w_attach :: "caly_link list option"
  w_events :: bool

section \<open>Rates and mode\<close>

definition caly_rate_of :: "(caly_gauge \<Rightarrow> u64) \<Rightarrow> (caly_gauge \<Rightarrow> u64) \<Rightarrow> caly_gauge \<Rightarrow> u64 \<Rightarrow> u64" where
  "caly_rate_of cur prev g elapsed_ns =
     (if elapsed_ns = 0 \<or> cur g < prev g then 0
      else
        let delta = cur g - prev g
        in if delta > 0xFFFFFFFFFFFFFFFF div CALY_NSEC_PER_SEC then 0xFFFFFFFFFFFFFFFF div elapsed_ns
           else (delta * CALY_NSEC_PER_SEC) div elapsed_ns)"

text \<open>\<open>caly_bpf_config_write\<close>.\<close>

definition push_config :: "world \<Rightarrow> caly_daemon \<Rightarrow> caly_daemon" where
  "push_config w d =
     (if sy_fd (w_sys w) MID_CONFIG \<and> w_config_write w
      then d\<lparr>d_dp := (d_dp d)\<lparr>dp_config := Some (d_cfg d)\<rparr>\<rparr> else d)"

definition over_hi :: "fw_config \<Rightarrow> u64 \<Rightarrow> u64 \<Rightarrow> u64 \<Rightarrow> u64 \<Rightarrow> bool" where
  "over_hi c pps bps syn newconn \<longleftrightarrow>
     cfg_global_pps_hi c \<noteq> 0 \<and> pps > cfg_global_pps_hi c \<or>
     cfg_global_bps_hi c \<noteq> 0 \<and> bps > cfg_global_bps_hi c \<or>
     cfg_global_syn_pps_hi c \<noteq> 0 \<and> syn > cfg_global_syn_pps_hi c \<or>
     cfg_global_newconn_pps_hi c \<noteq> 0 \<and> newconn > cfg_global_newconn_pps_hi c"

definition over_lo :: "fw_config \<Rightarrow> u64 \<Rightarrow> u64 \<Rightarrow> u64 \<Rightarrow> u64 \<Rightarrow> bool" where
  "over_lo c pps bps syn newconn \<longleftrightarrow>
     pps > cfg_global_pps_lo c \<or> bps > cfg_global_bps_lo c \<or>
     syn > cfg_global_syn_pps_lo c \<or> newconn > cfg_global_newconn_pps_lo c"

definition attack_dwell :: "fw_config \<Rightarrow> u64" where
  "attack_dwell c = (if cfg_attack_dwell_ns c \<noteq> 0 then cfg_attack_dwell_ns c else 2 * 60 * CALY_NSEC_PER_SEC)"

text \<open>The decision from a new sample, and the switch to the mode it asks for.\<close>

definition escalate_sample :: "u64 \<Rightarrow> (caly_gauge \<Rightarrow> u64) \<Rightarrow> caly_daemon \<Rightarrow> u32 \<times> caly_daemon" where
  "escalate_sample now g d =
     (let c = d_cfg d;
          elapsed = now - d_prev_sample_ns d;
          pps = caly_rate_of g (d_prev_gauges d) G_PKTS elapsed;
          bps = caly_rate_of g (d_prev_gauges d) G_BYTES elapsed;
          syn = caly_rate_of g (d_prev_gauges d) G_SYN elapsed;
          newconn = caly_rate_of g (d_prev_gauges d) G_NEWCONN elapsed;
          d = d\<lparr>d_prev_gauges := g, d_prev_sample_ns := now\<rparr>
      in if over_hi c pps bps syn newconn then (FW_MODE_UNDER_ATTACK, d\<lparr>d_last_hi_ns := now\<rparr>)
         else if over_lo c pps bps syn newconn then (FW_MODE_ELEVATED, d)
         else (FW_MODE_NORMAL, d))"

definition switch_mode :: "world \<Rightarrow> u64 \<Rightarrow> u32 \<Rightarrow> caly_daemon \<Rightarrow> caly_daemon" where
  "switch_mode w now want d =
     (if d_cur_mode d = FW_MODE_UNDER_ATTACK \<and> want \<noteq> FW_MODE_UNDER_ATTACK \<and>
         now - d_last_hi_ns d < attack_dwell (d_cfg d)
      then d
      else if want = d_cur_mode d then d
      else push_config w (d\<lparr>d_cur_mode := want, d_cfg := (d_cfg d)\<lparr>cfg_mode := want\<rparr>\<rparr>))"

definition caly_maybe_escalate :: "world \<Rightarrow> u64 \<Rightarrow> caly_daemon \<Rightarrow> caly_daemon" where
  "caly_maybe_escalate w now d =
     (if d_base_mode d = FW_MODE_LOCKDOWN \<or> d_base_mode d = FW_MODE_MONITOR_ONLY then d
      else (case w_gauges w of None \<Rightarrow> d
        | Some g \<Rightarrow>
            if \<not> d_have_prev_sample d
            then d\<lparr>d_prev_gauges := g, d_prev_sample_ns := now, d_have_prev_sample := True\<rparr>
            else if now - d_prev_sample_ns d < CALY_NSEC_PER_MSEC then d
            else (let (want, d) = escalate_sample now g d in switch_mode w now want d)))"

definition caly_periodic :: "world \<Rightarrow> u64 \<Rightarrow> caly_daemon \<Rightarrow> caly_daemon" where
  "caly_periodic w now d =
     (let d = (if cfg_stats_interval_ms (d_cfg d) > 0 \<and>
                  now - d_last_stats_ns d \<ge> ucast (cfg_stats_interval_ms (d_cfg d)) * CALY_NSEC_PER_MSEC
               then (caly_maybe_escalate w now d)\<lparr>d_last_stats_ns := now\<rparr> else d)
      in if cfg_gc_interval_ms (d_cfg d) > 0 \<and>
            now - d_last_gc_ns d \<ge> ucast (cfg_gc_interval_ms (d_cfg d)) * CALY_NSEC_PER_MSEC
         then d\<lparr>d_dp := snd (caly_bpf_gc (w_gc w) (d_cfg d) now (d_dp d)), d_last_gc_ns := now\<rparr> else d)"

section \<open>Commands\<close>

definition base_of :: "u32 \<Rightarrow> u32" where
  "base_of mode = (if mode = FW_MODE_LOCKDOWN \<or> mode = FW_MODE_MONITOR_ONLY then mode else FW_MODE_NORMAL)"

definition link_caps :: "caly_link list \<Rightarrow> u64" where
  "link_caps ls = foldl (\<lambda>add l.
     let add = (if ln_dataplane l = CALY_DP_XDP_NATIVE then add OR (CALY_F_CAP_XDP_NATIVE OR CALY_F_CAP_XDP_TX) else add)
     in if ln_tc_attached l then add OR CALY_F_CAP_TC_EGRESS else add) 0 ls"

definition h_mode :: "world \<Rightarrow> u64 \<Rightarrow> caly_daemon \<Rightarrow> bool \<times> caly_daemon" where
  "h_mode w mode d =
     (if mode > ucast FW_MODE_MONITOR_ONLY then (False, d)
      else
        let m = ucast mode :: u32;
            d = d\<lparr>d_cfg := (d_cfg d)\<lparr>cfg_mode := m\<rparr>, d_base_mode := m, d_cur_mode := m\<rparr>
        in (sy_fd (w_sys w) MID_CONFIG \<and> w_config_write w, push_config w d))"

text \<open>The policy maps after a new configuration: the baseline, then the file's rules.  Either may
  fail; the daemon goes on.\<close>

definition reseed :: "world \<Rightarrow> caly_daemon \<Rightarrow> caly_daemon" where
  "reseed w d =
     (let s = snd (caly_bpf_seed_maps (w_sys w) (d_feat d) (d_cfg d) (d_dp d));
          s = snd (caly_apply_pending (w_sys w) (w_ifindex w) (d_cidrs d) (d_ports d) (d_icmps d) (d_ifaces d) s)
      in d\<lparr>d_dp := s\<rparr>)"

definition caly_reload :: "world \<Rightarrow> parsed_file option \<Rightarrow> caly_daemon \<Rightarrow> bool \<times> caly_daemon" where
  "caly_reload w parsed d =
     (case parsed of None \<Rightarrow> (False, d)
      | Some f \<Rightarrow>
          let newcfg = pf_cfg f;
              newcfg = (if cfg_mode newcfg = FW_MODE_NORMAL then newcfg\<lparr>cfg_mode := d_cur_mode d\<rparr> else newcfg)
          in (case caly_config_sanitize newcfg of Inl _ \<Rightarrow> (False, d)
              | Inr (newcfg, _) \<Rightarrow>
                  let d = d\<lparr>d_cfg := newcfg, d_base_mode := base_of (cfg_mode newcfg), d_cur_mode := cfg_mode newcfg,
                            d_cidrs := pf_cidrs f, d_ports := pf_ports f, d_icmps := pf_icmps f,
                            d_allow_bypass_rate := pf_allow_bypass_rate f, d_ifaces := pf_ifaces f\<rparr>;
                      c = caly_config_apply_caps (d_cfg d) (d_feat d);
                      d = d\<lparr>d_cfg := c\<lparr>cfg_flags := cfg_flags c OR link_caps (d_links d)\<rparr>\<rparr>
                  in (True, reseed w (push_config w d))))"

text \<open>The start, from the configuration that the defaults, the file and the command line gave.\<close>

definition caly_startup :: "world \<Rightarrow> caly_daemon \<Rightarrow> caly_daemon option" where
  "caly_startup w d =
     (case w_probe w of None \<Rightarrow> None
      | Some feat \<Rightarrow>
          if \<not> have_btf feat then None
          else (case caly_config_sanitize (caly_config_apply_caps (d_cfg d) feat) of Inl _ \<Rightarrow> None
            | Inr (cfg, _) \<Rightarrow>
                let d = d\<lparr>d_feat := feat, d_cfg := cfg, d_base_mode := base_of (cfg_mode cfg), d_cur_mode := cfg_mode cfg\<rparr>
                in (case w_load w of None \<Rightarrow> None
                  | Some feat \<Rightarrow>
                      let d = d\<lparr>d_feat := feat, d_cfg := caly_config_apply_caps (d_cfg d) feat\<rparr>
                      in if \<not> (sy_fd (w_sys w) MID_CONFIG \<and> w_config_write w) then None
                         else
                           let d = push_config w d
                           in if fst (caly_bpf_seed_maps (w_sys w) (d_feat d) (d_cfg d) (d_dp d)) \<noteq> None then None
                              else
                                let d = reseed w d
                                in if \<not> w_events w then None
                                   else (case w_attach w of None \<Rightarrow> None
                                     | Some links \<Rightarrow>
                                         let d = d\<lparr>d_links := links\<rparr>; add = link_caps links
                                         in if add \<noteq> 0 \<and> cfg_flags (d_cfg d) AND add \<noteq> add
                                            then Some (push_config w (d\<lparr>d_cfg := (d_cfg d)\<lparr>cfg_flags := cfg_flags (d_cfg d) OR add\<rparr>\<rparr>))
                                            else Some d))))"

section \<open>The daemon as a transition system\<close>

text \<open>A tick of the timer, a mode command, a reload (whose parser gives arrays of the C structure's
  length), and traffic, which may change every map but not the configuration.\<close>

inductive dstep :: "caly_daemon \<Rightarrow> caly_daemon \<Rightarrow> bool" where
  tick: "dstep d (caly_periodic w now d)"
| mode: "dstep d (snd (h_mode w m d))"
| reload: "(\<And>f. parsed = Some f \<Longrightarrow> mgmt_arrays (pf_cfg f)) \<Longrightarrow> dstep d (snd (caly_reload w parsed d))"
| traffic: "dp_config s = dp_config (d_dp d) \<Longrightarrow> dstep d (d\<lparr>d_dp := s\<rparr>)"

inductive running :: "caly_daemon \<Rightarrow> bool" where
  start: "mgmt_arrays (d_cfg d) \<Longrightarrow> caly_startup w d = Some d' \<Longrightarrow> running d'"
| step: "running d \<Longrightarrow> dstep d d' \<Longrightarrow> running d'"

section \<open>Rates\<close>

lemma unat_div_word: "unat (a div b :: u64) = unat a div unat b"
  by (simp add: unat_div)

lemma rate_scaled:
  "unat (if (d :: u64) > 0xFFFFFFFFFFFFFFFF div CALY_NSEC_PER_SEC then 0xFFFFFFFFFFFFFFFF div e
         else (d * CALY_NSEC_PER_SEC) div e) = min (unat d * 1000000000) 18446744073709551615 div unat e"
proof (cases "d > 0xFFFFFFFFFFFFFFFF div CALY_NSEC_PER_SEC")
  case True
  then have "unat d > 18446744073" by (simp add: word_less_nat_alt unat_div_word)
  then have "18446744073709551615 \<le> unat d * 1000000000" by simp
  with True show ?thesis by (simp add: unat_div_word min_absorb2)
next
  case False
  then have s: "unat d \<le> 18446744073" by (simp add: word_less_nat_alt unat_div_word not_less)
  then have "unat (d * CALY_NSEC_PER_SEC) = unat d * 1000000000" by (simp add: unat_word_ariths)
  moreover have "unat d * 1000000000 \<le> 18446744073709551615" using s by linarith
  ultimately show ?thesis using False by (simp add: unat_div_word min_absorb1)
qed

lemma rate_of_eq:
  "unat (caly_rate_of cur prev g elapsed) =
     (if elapsed = 0 \<or> cur g < prev g then 0
      else min ((unat (cur g) - unat (prev g)) * 1000000000) 18446744073709551615 div unat elapsed)"
proof (cases "elapsed = 0 \<or> cur g < prev g")
  case False
  then have "unat (cur g - prev g) = unat (cur g) - unat (prev g)"
    by (simp add: unat_sub word_less_nat_alt not_less word_le_nat_alt)
  with False rate_scaled [of "cur g - prev g" elapsed] show ?thesis
    by (simp only: caly_rate_of_def Let_def if_False)
qed (auto simp: caly_rate_of_def)

section \<open>The running configuration\<close>

definition running_ok :: "fw_config \<Rightarrow> bool" where
  "running_ok c \<longleftrightarrow> enums_ok c \<and> depths_ok c \<and> scalars_ok c \<and> ban_ok c \<and> thresholds_ok c \<and> events_ok c \<and>
     intervals_ok c \<and> sizes_ok c \<and> mgmt_ok c \<and> mgmt_arrays c \<and> cfg_abi_version c = CALY_ABI_VERSION"

lemma running_ok_flags [simp]: "running_ok (c\<lparr>cfg_flags := f\<rparr>) = running_ok c"
  by (simp add: running_ok_def enums_ok_def depths_ok_def scalars_ok_def ban_ok_def thresholds_ok_def events_ok_def
      intervals_ok_def sizes_ok_def mgmt_ok_def mgmt_arrays_def)

lemma running_ok_mode: "running_ok c \<Longrightarrow> m \<le> FW_MODE_MONITOR_ONLY \<Longrightarrow> running_ok (c\<lparr>cfg_mode := m\<rparr>)"
  by (simp add: running_ok_def enums_ok_def depths_ok_def scalars_ok_def ban_ok_def thresholds_ok_def events_ok_def
      intervals_ok_def sizes_ok_def mgmt_ok_def mgmt_arrays_def)

lemma running_ok_caps [simp]:
  "running_ok (caly_config_apply_caps c f) = running_ok c" "cfg_mode (caly_config_apply_caps c f) = cfg_mode c"
  by (simp_all add: caly_config_apply_caps_def Let_def)

lemma sanitized_running: "caly_config_sanitize c = Inr (c', w) \<Longrightarrow> mgmt_arrays c \<Longrightarrow> running_ok c'"
  using sanitize_config_ok by (simp add: running_ok_def config_ok_def)

section \<open>Nothing but a configuration write changes the data plane's configuration\<close>

lemma icmp_put_config [simp]: "dp_config (icmp_put v t p s) = dp_config s"
  by (simp add: icmp_put_def)

lemma port_set_config [simp]: "dp_config (set_dp_port u m s) = dp_config s"
  by (simp add: set_dp_port_def)

lemma op_config:
  "dp_config (snd (caly_icmp_policy_set sy f t p s)) = dp_config s"
  "dp_config (snd (caly_port_rule_set sy u q r s)) = dp_config s"
  "dp_config (snd (caly_iface_config_set sy ic s)) = dp_config s"
  "dp_config (snd (caly_lpm_insert sy mid c fl tag s)) = dp_config s"
  "dp_config (snd (icmp_force sy v t s)) = dp_config s"
  "dp_config (snd (fill_port sy u base b s)) = dp_config s"
  "dp_config (snd (fill_icmp sy v pol b s)) = dp_config s"
  by (auto simp: caly_icmp_policy_set_def caly_port_rule_set_def caly_iface_config_set_def caly_lpm_insert_def
      set_lpm_of_def icmp_force_def fill_port_def fill_icmp_def Let_def split: option.splits prod.splits)

lemma edit_config:
  "dp_config (snd (edit_rule sy u base f p s)) = dp_config s"
  "dp_config (snd (mgmt_step sy u base q s)) = dp_config s"
  by (simp_all add: edit_rule_def mgmt_step_def Let_def op_config)

lemma seed_config: "dp_config (snd (caly_bpf_seed_maps sy feat cfg s)) = dp_config s"
proof -
  have "dp_config (snd (caly_seed_ports sy feat cfg t)) = dp_config t" for t
    unfolding caly_seed_ports_def Let_def
    by (cases "\<not> sy_fd sy MID_PORT_TCP \<or> \<not> sy_fd sy MID_PORT_UDP")
      (simp, simp only: if_False, rule run_ops_keep, auto simp: op_config edit_config split: if_splits)
  moreover have "dp_config (snd (caly_seed_icmp sy feat cfg t)) = dp_config t" for t
    unfolding caly_seed_icmp_def Let_def
    by (cases "\<not> sy_fd sy MID_ICMP4_POL \<or> \<not> sy_fd sy MID_ICMP6_POL")
      (simp, simp only: if_False, rule run_ops_keep, auto simp: op_config)
  ultimately show ?thesis
    unfolding caly_bpf_seed_maps_def by (intro run_ops_keep) auto
qed

lemma pending_config: "dp_config (snd (caly_apply_pending sy ifi cidrs ports icmps ifaces s)) = dp_config s"
  by (rule apply_pending_inv [where P = "\<lambda>t. dp_config t = dp_config s"]) (simp_all add: op_config edit_config)

lemma gc_config: "dp_config (snd (caly_bpf_gc gk cfg now s)) = dp_config s"
  using gc_frame [of gk cfg now s "fst (caly_bpf_gc gk cfg now s)" "snd (caly_bpf_gc gk cfg now s)"] by auto

section \<open>The invariant\<close>

abbreviation (input) "operator_mode m \<equiv> m = FW_MODE_LOCKDOWN \<or> m = FW_MODE_MONITOR_ONLY"

text \<open>An operator's mode is the mode in force, and only an operator can set one.\<close>

definition modes_ok :: "u32 \<Rightarrow> u32 \<Rightarrow> bool" where
  "modes_ok base cur \<longleftrightarrow> (operator_mode base \<or> operator_mode cur \<longrightarrow> cur = base)"

definition daemon_inv :: "caly_daemon \<Rightarrow> bool" where
  "daemon_inv d \<longleftrightarrow> running_ok (d_cfg d) \<and> d_cur_mode d = cfg_mode (d_cfg d) \<and>
     modes_ok (d_base_mode d) (d_cur_mode d) \<and> (\<forall>c. dp_config (d_dp d) = Some c \<longrightarrow> running_ok c)"

lemma modes_ok_base: "modes_ok (base_of m) m"
  by (simp add: modes_ok_def base_of_def)

lemma push_fields [simp]:
  "d_cfg (push_config w d) = d_cfg d" "d_base_mode (push_config w d) = d_base_mode d"
  "d_cur_mode (push_config w d) = d_cur_mode d" "d_links (push_config w d) = d_links d"
  "d_last_hi_ns (push_config w d) = d_last_hi_ns d" "d_prev_sample_ns (push_config w d) = d_prev_sample_ns d"
  "d_have_prev_sample (push_config w d) = d_have_prev_sample d" "d_last_stats_ns (push_config w d) = d_last_stats_ns d"
  "d_feat (push_config w d) = d_feat d"
  by (simp_all add: push_config_def)

lemma push_inv:
  assumes "running_ok (d_cfg d)" "d_cur_mode d = cfg_mode (d_cfg d)" "modes_ok (d_base_mode d) (d_cur_mode d)"
    and "\<forall>c. dp_config (d_dp d) = Some c \<longrightarrow> running_ok c"
  shows "daemon_inv (push_config w d)"
  using assms by (simp add: daemon_inv_def push_config_def)

lemma reseed_fields [simp]:
  "d_cfg (reseed w d) = d_cfg d" "d_base_mode (reseed w d) = d_base_mode d" "d_cur_mode (reseed w d) = d_cur_mode d"
  "dp_config (d_dp (reseed w d)) = dp_config (d_dp d)" "d_links (reseed w d) = d_links d"
  by (simp_all add: reseed_def Let_def pending_config seed_config)

lemma inv_cong:
  assumes "daemon_inv d" "d_cfg e = d_cfg d" "d_base_mode e = d_base_mode d" "d_cur_mode e = d_cur_mode d"
    and "dp_config (d_dp e) = dp_config (d_dp d)"
  shows "daemon_inv e"
  using assms(1) unfolding daemon_inv_def assms(2-5) .

lemma sample_fields:
  "escalate_sample now g d = (want, e) \<Longrightarrow> want \<le> FW_MODE_UNDER_ATTACK \<and> d_cfg e = d_cfg d \<and> d_base_mode e = d_base_mode d \<and>
     d_cur_mode e = d_cur_mode d \<and> d_dp e = d_dp d"
  by (auto simp: escalate_sample_def Let_def split: if_splits)

lemma switch_inv:
  assumes "daemon_inv d" "want \<le> FW_MODE_UNDER_ATTACK" "\<not> operator_mode (d_base_mode d)"
  shows "daemon_inv (switch_mode w now want d)"
proof -
  have "want \<noteq> 3" "want \<noteq> 4" using assms(2) by (auto simp: word_le_nat_alt)
  then have "modes_ok (d_base_mode d) want" using assms(3) by (simp add: modes_ok_def)
  moreover have "running_ok ((d_cfg d)\<lparr>cfg_mode := want\<rparr>)"
    using assms(1,2) by (auto simp: daemon_inv_def word_le_nat_alt intro: running_ok_mode)
  ultimately have "daemon_inv (push_config w (d\<lparr>d_cur_mode := want, d_cfg := (d_cfg d)\<lparr>cfg_mode := want\<rparr>\<rparr>))"
    using assms(1) by (intro push_inv) (simp_all add: daemon_inv_def)
  with assms(1) show ?thesis by (simp add: switch_mode_def)
qed

lemma escalate_inv:
  assumes "daemon_inv d"
  shows "daemon_inv (caly_maybe_escalate w now d)"
proof (cases "operator_mode (d_base_mode d)")
  case True
  with assms show ?thesis by (auto simp: caly_maybe_escalate_def)
next
  case False
  have "daemon_inv (switch_mode w now want e)" if "escalate_sample now g d = (want, e)" for g want e
    using sample_fields [OF that] False assms by (intro switch_inv inv_cong [OF assms]) simp_all
  moreover have "daemon_inv (d\<lparr>d_prev_gauges := g, d_prev_sample_ns := now, d_have_prev_sample := True\<rparr>)" for g
    by (rule inv_cong [OF assms]) simp_all
  ultimately show ?thesis
    using False assms by (auto simp: caly_maybe_escalate_def split: option.split prod.split)
qed

lemma periodic_inv:
  assumes "daemon_inv d"
  shows "daemon_inv (caly_periodic w now d)"
proof -
  have "daemon_inv (e\<lparr>d_dp := snd (caly_bpf_gc gk c now (d_dp e)), d_last_gc_ns := now\<rparr>)" if "daemon_inv e" for e gk c
    by (rule inv_cong [OF that]) (simp_all add: gc_config)
  moreover have "daemon_inv ((caly_maybe_escalate w now d)\<lparr>d_last_stats_ns := now\<rparr>)"
    by (rule inv_cong [OF escalate_inv [OF assms]]) simp_all
  ultimately show ?thesis using assms by (simp add: caly_periodic_def Let_def)
qed

lemma h_mode_inv:
  assumes "daemon_inv d"
  shows "daemon_inv (snd (h_mode w m d))"
proof (cases "m > ucast FW_MODE_MONITOR_ONLY")
  case False
  then have "unat m \<le> 4" by (simp add: word_less_nat_alt not_less)
  then have "(ucast m :: u32) \<le> 4" by (simp add: word_le_nat_alt unsigned_ucast_eq take_bit_nat_eq_self)
  then have "daemon_inv (push_config w (d\<lparr>d_cfg := (d_cfg d)\<lparr>cfg_mode := ucast m\<rparr>, d_base_mode := ucast m, d_cur_mode := ucast m\<rparr>))"
    using assms by (intro push_inv) (simp_all add: daemon_inv_def modes_ok_def running_ok_mode)
  with False show ?thesis by (simp add: h_mode_def Let_def)
qed (use assms in \<open>simp add: h_mode_def\<close>)

lemma reload_inv:
  assumes "daemon_inv d" "\<And>f. parsed = Some f \<Longrightarrow> mgmt_arrays (pf_cfg f)"
  shows "daemon_inv (snd (caly_reload w parsed d))"
proof (cases parsed)
  case (Some f)
  let ?c = "if cfg_mode (pf_cfg f) = FW_MODE_NORMAL then (pf_cfg f)\<lparr>cfg_mode := d_cur_mode d\<rparr> else pf_cfg f"
  have a: "mgmt_arrays ?c" using assms(2) [OF Some] by (simp add: mgmt_arrays_def)
  show ?thesis
  proof (cases "caly_config_sanitize ?c")
    case (Inl e)
    with Some assms(1) show ?thesis by (simp add: caly_reload_def Let_def)
  next
    case (Inr r)
    obtain n v where r: "r = (n, v)" by fastforce
    have n: "running_ok n" using sanitized_running a Inr r by blast
    let ?caps = "caly_config_apply_caps n (d_feat d)"
    let ?d = "d\<lparr>d_base_mode := base_of (cfg_mode n), d_cur_mode := cfg_mode n, d_cidrs := pf_cidrs f,
       d_ports := pf_ports f, d_icmps := pf_icmps f, d_allow_bypass_rate := pf_allow_bypass_rate f, d_ifaces := pf_ifaces f,
       d_cfg := ?caps\<lparr>cfg_flags := cfg_flags ?caps OR link_caps (d_links d)\<rparr>\<rparr>"
    have e: "snd (caly_reload w parsed d) = reseed w (push_config w ?d)"
      using Inr by (simp only: caly_reload_def Some option.case Let_def r sum.case prod.case snd_conv) simp
    have "daemon_inv (push_config w ?d)"
      using n assms(1) by (intro push_inv) (simp_all add: modes_ok_base daemon_inv_def)
    then show ?thesis unfolding e by (rule inv_cong) simp_all
  qed
qed (use assms in \<open>simp add: caly_reload_def\<close>)

lemma startup_inv:
  assumes "caly_startup w d = Some d'" "mgmt_arrays (d_cfg d)"
  shows "daemon_inv d'"
proof -
  obtain feat cfg v feat' links where s: "w_probe w = Some feat" "w_load w = Some feat'" "w_attach w = Some links"
      "caly_config_sanitize (caly_config_apply_caps (d_cfg d) feat) = Inr (cfg, v)" "sy_fd (w_sys w) MID_CONFIG" "w_config_write w"
    using assms(1) unfolding caly_startup_def Let_def
    by (auto split: option.splits if_splits sum.splits)
  have "mgmt_arrays (caly_config_apply_caps (d_cfg d) feat)"
    using assms(2) by (simp add: mgmt_arrays_def caly_config_apply_caps_def Let_def)
  then have r: "running_ok cfg" using sanitized_running s(4) by blast
  let ?d = "d\<lparr>d_base_mode := base_of (cfg_mode cfg), d_cur_mode := cfg_mode cfg, d_feat := feat', d_cfg := caly_config_apply_caps cfg feat'\<rparr>"
  let ?e = "(reseed w (push_config w ?d))\<lparr>d_links := links\<rparr>"
  let ?f = "?e\<lparr>d_cfg := (d_cfg ?e)\<lparr>cfg_flags := cfg_flags (d_cfg ?e) OR link_caps links\<rparr>\<rparr>"
  have d': "d' = ?e \<or> d' = push_config w ?f"
    using assms(1) s unfolding caly_startup_def Let_def
    by (auto split: if_splits)
  have p: "dp_config (d_dp (push_config w ?d)) = Some (caly_config_apply_caps cfg feat')"
    using s(5,6) by (simp add: push_config_def)
  have e: "daemon_inv ?e"
    using r p by (simp add: daemon_inv_def modes_ok_base)
  moreover have "daemon_inv (push_config w ?f)"
    using e r p by (intro push_inv) (simp_all add: modes_ok_base)
  ultimately show ?thesis using d' by blast
qed

lemma running_inv: "running d \<Longrightarrow> daemon_inv d"
proof (induction rule: running.induct)
  case (start d w d')
  then show ?case by (rule startup_inv [rotated])
next
  case (step d d')
  from step(2,3) show ?case
  proof (cases rule: dstep.cases)
    case (tick w now)
    with step show ?thesis by (simp add: periodic_inv)
  next
    case (mode w m)
    with step show ?thesis by (simp add: h_mode_inv)
  next
    case (reload parsed w)
    with step show ?thesis using reload_inv by blast
  next
    case (traffic s)
    show ?thesis unfolding traffic(1) by (rule inv_cong [OF step.IH]) (simp_all add: traffic(2))
  qed
qed

section \<open>Properties\<close>

text \<open>C17. In every state the daemon can reach from a start, through any sequence of ticks, mode commands,
  reloads (accepted, refused or unreadable) and traffic, with any failing system call: its
  configuration and the one the data plane reads are well formed, the mode in the configuration is the
  mode it reports, lockdown and monitor mode stay exactly as long as the operator wants them, and the
  escalation never enters them.\<close>

theorem daemon_invariant:
  assumes "running d"
  shows "running_ok (d_cfg d) \<and> (\<forall>c. dp_config (d_dp d) = Some c \<longrightarrow> running_ok c) \<and>
         d_cur_mode d = cfg_mode (d_cfg d) \<and>
         (operator_mode (d_base_mode d) \<or> operator_mode (d_cur_mode d) \<longrightarrow> d_cur_mode d = d_base_mode d)"
  using running_inv [OF assms] unfolding daemon_inv_def modes_ok_def by blast

text \<open>C6. Whatever the daemon is told, SSH stays reachable: in every reachable state, with the
  configuration the data plane then reads, a TCP packet to port 22 that passed the stateless checks is
  passed by the policy program in every mode and from any source, when \<open>MGMT_BYPASS_ALL\<close> is set.\<close>

theorem ssh_reachable_while_running:
  assumes "running d" "dp_config (d_dp d) = Some cfg" "has_flag (cfg_flags cfg) CALY_F_MGMT_BYPASS_ALL"
    and "dp_config s = Some cfg" "dp_scratch s = Some sc" "checks_pass k (policy_env cfg sc) s"
    and "pk_proto (sc_pkt sc) = CALY_IPPROTO_TCP" "ntohs (pk_dport (sc_pkt sc)) = 22"
    and "\<not> has_flag (pk_flags (sc_pkt sc)) CALY_PKT_F_L4_TRUNC"
  shows "fst (caly_xdp_policy k synproxy p s) = XDP_PASS"
proof -
  have "running_ok cfg" using running_inv [OF assms(1)] assms(2) by (simp add: daemon_inv_def)
  then have "mgmt_arrays cfg" "mgmt_ok cfg" by (simp_all add: running_ok_def)
  then have "to_mgmt_port cfg sc"
    using mgmt_tcp_iff [of cfg 22] assms(7-9)
    by (simp add: to_mgmt_port_def policy_env_def is_mgmt_def Let_def mgmt_ok_def)
  then show ?thesis using mgmt_port_pass assms(3-6) by blast
qed

text \<open>The rate of a gauge between two samples, as a number, and the comparison with the thresholds.\<close>

definition gauge_rate :: "(caly_gauge \<Rightarrow> u64) \<Rightarrow> (caly_gauge \<Rightarrow> u64) \<Rightarrow> u64 \<Rightarrow> caly_gauge \<Rightarrow> nat" where
  "gauge_rate cur prev elapsed g =
     (if cur g < prev g then 0
      else min ((unat (cur g) - unat (prev g)) * 10 ^ 9) (2 ^ 64 - 1) div unat elapsed)"

definition thresholds_of :: "fw_config \<Rightarrow> (caly_gauge \<times> u64 \<times> u64) list" where
  "thresholds_of c = [(G_PKTS, cfg_global_pps_lo c, cfg_global_pps_hi c), (G_BYTES, cfg_global_bps_lo c, cfg_global_bps_hi c),
     (G_SYN, cfg_global_syn_pps_lo c, cfg_global_syn_pps_hi c), (G_NEWCONN, cfg_global_newconn_pps_lo c, cfg_global_newconn_pps_hi c)]"

lemma over_hi_rate:
  "over_hi c (caly_rate_of g p G_PKTS e) (caly_rate_of g p G_BYTES e) (caly_rate_of g p G_SYN e) (caly_rate_of g p G_NEWCONN e)
     \<longleftrightarrow> (\<exists>(k, lo, hi) \<in> set (thresholds_of c). hi \<noteq> 0 \<and> gauge_rate g p e k > unat hi)"
  by (simp add: over_hi_def thresholds_of_def word_less_nat_alt rate_of_eq gauge_rate_def)

lemma over_lo_rate:
  "over_lo c (caly_rate_of g p G_PKTS e) (caly_rate_of g p G_BYTES e) (caly_rate_of g p G_SYN e) (caly_rate_of g p G_NEWCONN e)
     \<longleftrightarrow> (\<exists>(k, lo, hi) \<in> set (thresholds_of c). gauge_rate g p e k > unat lo)"
  by (simp add: over_lo_def thresholds_of_def word_less_nat_alt rate_of_eq gauge_rate_def)

text \<open>The escalation does what the thresholds say: from a sample at least a millisecond after the
  previous one, the mode becomes under-attack at once when a rate (events per second, saturating, never
  wrapping) exceeds its high threshold; otherwise under-attack is held until the dwell time has passed
  since the last such sample; otherwise the mode is elevated when a rate exceeds its low threshold and
  normal when none does; a changed mode reaches the data plane when the map can be written.\<close>

theorem caly_maybe_escalate_decides:
  assumes "\<not> operator_mode (d_base_mode d)" "w_gauges w = Some g" "d_have_prev_sample d"
    and "now - d_prev_sample_ns d \<ge> CALY_NSEC_PER_MSEC"
    and "d' = caly_maybe_escalate w now d"
  shows "d_cur_mode d' =
           (if \<exists>(k, lo, hi) \<in> set (thresholds_of (d_cfg d)). hi \<noteq> 0 \<and>
                 gauge_rate g (d_prev_gauges d) (now - d_prev_sample_ns d) k > unat hi then FW_MODE_UNDER_ATTACK
            else if d_cur_mode d = FW_MODE_UNDER_ATTACK \<and> now - d_last_hi_ns d < attack_dwell (d_cfg d)
              then FW_MODE_UNDER_ATTACK
            else if \<exists>(k, lo, hi) \<in> set (thresholds_of (d_cfg d)).
                 gauge_rate g (d_prev_gauges d) (now - d_prev_sample_ns d) k > unat lo then FW_MODE_ELEVATED
            else FW_MODE_NORMAL) \<and>
         (d_cur_mode d' \<noteq> d_cur_mode d \<longrightarrow> w_config_write w \<longrightarrow> sy_fd (w_sys w) MID_CONFIG \<longrightarrow>
           dp_config (d_dp d') = Some ((d_cfg d)\<lparr>cfg_mode := d_cur_mode d'\<rparr>))"
proof -
  let ?r = "\<lambda>k. caly_rate_of g (d_prev_gauges d) k (now - d_prev_sample_ns d)"
  define hi where "hi = over_hi (d_cfg d) (?r G_PKTS) (?r G_BYTES) (?r G_SYN) (?r G_NEWCONN)"
  define lo where "lo = over_lo (d_cfg d) (?r G_PKTS) (?r G_BYTES) (?r G_SYN) (?r G_NEWCONN)"
  define e where "e = d\<lparr>d_prev_gauges := g, d_prev_sample_ns := now\<rparr>"
  have es: "escalate_sample now g d =
      (if hi then (FW_MODE_UNDER_ATTACK, e\<lparr>d_last_hi_ns := now\<rparr>) else if lo then (FW_MODE_ELEVATED, e) else (FW_MODE_NORMAL, e))"
    by (simp add: escalate_sample_def Let_def hi_def lo_def e_def)
  have d': "d' = (let (want, e) = escalate_sample now g d in switch_mode w now want e)"
    using assms by (simp add: caly_maybe_escalate_def not_less)
  have f: "d_cur_mode e = d_cur_mode d" "d_last_hi_ns e = d_last_hi_ns d" "d_cfg e = d_cfg d" "d_dp e = d_dp d"
    by (simp_all add: e_def)
  show ?thesis
    unfolding over_hi_rate [symmetric] over_lo_rate [symmetric] hi_def [symmetric] lo_def [symmetric] d' es
    by (cases hi; cases lo) (simp_all add: switch_mode_def f push_config_def)
qed

lemma san_mode:
  "cfg_mode (fst (san_depths c w)) = cfg_mode c" "cfg_mode (fst (san_scalars c w)) = cfg_mode c"
  "cfg_mode (fst (san_ban c w)) = cfg_mode c" "cfg_mode (san_thresholds c) = cfg_mode c"
  "cfg_mode (fst (san_events c w)) = cfg_mode c" "cfg_mode (fst (san_intervals c w)) = cfg_mode c"
  "cfg_mode (fst (san_sizes c w)) = cfg_mode c"
  by (simp_all add: san_depths_def san_scalars_def san_ban_def san_thresholds_def san_events_def san_intervals_def
      san_sizes_def split_beta Let_def)

lemma san_mgmt_mode: "san_mgmt c w = Inr (c', v) \<Longrightarrow> cfg_mode c' = cfg_mode c"
  by (auto simp: san_mgmt_def Let_def split: if_splits)

lemma sanitize_mode:
  assumes "caly_config_sanitize c = Inr (c', w)" "cfg_mode c \<le> FW_MODE_MONITOR_ONLY"
  shows "cfg_mode c' = cfg_mode c"
proof -
  have "cfg_mode (fst (san_enums b v)) = cfg_mode b" if "cfg_mode b \<le> FW_MODE_MONITOR_ONLY" for b v
    using that by (simp add: san_enums_def split_beta Let_def clamp_id)
  then show ?thesis
    using assms unfolding caly_config_sanitize_def Let_def split_beta
    by (auto simp: san_mode dest!: san_mgmt_mode split: if_splits)
qed


section \<open>The dwell time\<close>

definition ticks :: "(world \<times> u64) list \<Rightarrow> caly_daemon \<Rightarrow> caly_daemon" where
  "ticks ts d = fold (\<lambda>(w, now). caly_periodic w now) ts d"

text \<open>What the dwell time depends on, kept by a tick that does not leave under-attack.\<close>

lemma escalate_dwell:
  assumes "d_cur_mode d = FW_MODE_UNDER_ATTACK" "now - d_last_hi_ns d < attack_dwell (d_cfg d)"
  shows "d_cur_mode (caly_maybe_escalate w now d) = FW_MODE_UNDER_ATTACK \<and>
         attack_dwell (d_cfg (caly_maybe_escalate w now d)) = attack_dwell (d_cfg d) \<and>
         (d_last_hi_ns (caly_maybe_escalate w now d) = d_last_hi_ns d \<or> d_last_hi_ns (caly_maybe_escalate w now d) = now)"
proof -
  have s: "d_cur_mode (switch_mode w now want e) = FW_MODE_UNDER_ATTACK \<and> d_cfg (switch_mode w now want e) = d_cfg d \<and>
      (d_last_hi_ns (switch_mode w now want e) = d_last_hi_ns d \<or> d_last_hi_ns (switch_mode w now want e) = now)"
    if "escalate_sample now g d = (want, e)" for g want e
    using that assms by (auto simp: escalate_sample_def switch_mode_def Let_def split: if_splits)
  show ?thesis
    using s assms(1) by (simp add: caly_maybe_escalate_def split: option.split prod.split)
qed

lemma periodic_dwell:
  assumes "d_cur_mode d = FW_MODE_UNDER_ATTACK" "now - d_last_hi_ns d < attack_dwell (d_cfg d)"
  shows "d_cur_mode (caly_periodic w now d) = FW_MODE_UNDER_ATTACK \<and>
         attack_dwell (d_cfg (caly_periodic w now d)) = attack_dwell (d_cfg d) \<and>
         (d_last_hi_ns (caly_periodic w now d) = d_last_hi_ns d \<or> d_last_hi_ns (caly_periodic w now d) = now)"
  using escalate_dwell [OF assms, of w] assms(1) by (auto simp: caly_periodic_def Let_def)

text \<open>A bursty flood cannot make the mode oscillate: once a sample has put the daemon under attack,
  every sequence of ticks at non-decreasing times within the dwell time leaves it there, whatever the
  gauges, the failures and the other work of the ticks are.\<close>

theorem attack_mode_dwells:
  assumes "d_cur_mode d = FW_MODE_UNDER_ATTACK" "d_last_hi_ns d = t"
    and "sorted (unat t # map (unat \<circ> snd) ts)"
    and "\<forall>(w, now) \<in> set ts. unat now < unat t + unat (attack_dwell (d_cfg d))"
  shows "d_cur_mode (ticks ts d) = FW_MODE_UNDER_ATTACK"
proof -
  have "d_cur_mode (ticks ts d) = FW_MODE_UNDER_ATTACK"
    if "d_cur_mode d = FW_MODE_UNDER_ATTACK" "unat t \<le> unat (d_last_hi_ns d)"
      "sorted (unat (d_last_hi_ns d) # map (unat \<circ> snd) ts)"
      "\<forall>(w, now) \<in> set ts. unat now < unat t + unat (attack_dwell (d_cfg d))" for d
    using that
  proof (induction ts arbitrary: d)
    case (Cons x ts)
    obtain w now where x: "x = (w, now)" by fastforce
    have le: "unat (d_last_hi_ns d) \<le> unat now" using Cons.prems(3) x by simp
    have "unat (now - d_last_hi_ns d) = unat now - unat (d_last_hi_ns d)"
      using le by (simp add: unat_sub word_le_nat_alt)
    moreover have "unat now < unat t + unat (attack_dwell (d_cfg d))" using Cons.prems(4) x by simp
    ultimately have "now - d_last_hi_ns d < attack_dwell (d_cfg d)"
      using Cons.prems(2) le unfolding word_less_nat_alt by linarith
    note p = periodic_dwell [OF Cons.prems(1) this, of w]
    have "d_cur_mode (ticks ts (caly_periodic w now d)) = FW_MODE_UNDER_ATTACK"
      by (rule Cons.IH) (use Cons.prems p x le in auto)
    then show ?case by (simp add: ticks_def x)
  qed (simp add: ticks_def)
  from this [of d] assms show ?thesis by simp
qed

text \<open>An operator who sets under-attack through the control socket is overruled by the next quiet
  sample, because the base mode protects only lockdown and monitor mode and the command does not start
  the dwell time.\<close>

lemma operator_attack_mode_undone:
  assumes "caly_maybe_escalate w now (snd (h_mode w 2 d)) = d'" "w_gauges w = Some (d_prev_gauges d)" "d_have_prev_sample d"
    and "now - d_prev_sample_ns d \<ge> CALY_NSEC_PER_MSEC" "now - d_last_hi_ns d \<ge> attack_dwell (d_cfg d)"
  shows "d_cur_mode d' = FW_MODE_NORMAL"
proof -
  have r: "caly_rate_of g g k e = 0" for g k e by (simp add: caly_rate_of_def)
  then show ?thesis
    using assms by (auto simp: h_mode_def push_config_def caly_maybe_escalate_def escalate_sample_def switch_mode_def
        over_hi_def over_lo_def attack_dwell_def Let_def)
qed

text \<open>A metric disabled with a zero high threshold makes any traffic elevate the mode, since the
  sanitiser lowers the low threshold to zero too.\<close>

lemma disabled_metric_elevates:
  "thresholds_ok c \<Longrightarrow> cfg_global_pps_hi c = 0 \<Longrightarrow> 0 < pps \<Longrightarrow> over_lo c pps bps syn newconn"
  by (auto simp: thresholds_ok_def over_lo_def)

section \<open>Witnesses\<close>

text \<open>A start with the default configuration on one native link, and a tick that sees a SYN flood.\<close>

definition link0 :: caly_link where
  "link0 = \<lparr>ln_ifindex = 2, ln_ifname = ''eth0'', ln_prog_id = 7, ln_dataplane = CALY_DP_XDP_NATIVE, ln_xdp_attached = True, ln_tc_attached = True\<rparr>"

definition w0 :: world where
  "w0 = \<lparr>w_gauges = Some (\<lambda>g. if g = G_SYN then 50000 else 60000), w_config_write = True, w_sys = sy0, w_gc = gk0,
     w_ifindex = \<lambda>_. 0, w_probe = Some feat0, w_load = Some feat0,
     w_attach = Some [link0], w_events = True\<rparr>"

definition d0 :: caly_daemon where
  "d0 = \<lparr>d_cfg = caly_config_defaults, d_feat = feat0, d_dp = dp0 caly_config_defaults syn_sc, d_ifaces = [], d_links = [],
     d_cidrs = [], d_ports = [https_rule], d_icmps = [unreach_rule], d_allow_bypass_rate = False, d_prev_gauges = \<lambda>_. 0,
     d_prev_sample_ns = 1000000000, d_last_stats_ns = 0, d_last_gc_ns = 0, d_last_hi_ns = 0, d_base_mode = FW_MODE_NORMAL,
     d_cur_mode = FW_MODE_NORMAL, d_have_prev_sample = True\<rparr>"

definition cfg1 :: fw_config where
  "cfg1 = (let c = caly_config_apply_caps caly_config_defaults feat0
     in c\<lparr>cfg_flags := cfg_flags c OR (CALY_F_CAP_XDP_NATIVE OR CALY_F_CAP_XDP_TX OR CALY_F_CAP_TC_EGRESS)\<rparr>)"

definition d1 :: caly_daemon where
  "d1 = the (caly_startup w0 d0)"

lemma sanitize_flags:
  "f AND NOT CALY_F_CAP_MASK = cfg_flags c AND NOT CALY_F_CAP_MASK \<Longrightarrow>
   caly_config_sanitize (c\<lparr>cfg_flags := f\<rparr>) = caly_config_sanitize c"
  by (simp add: caly_config_sanitize_def)

lemma sanitize_capped: "caly_config_sanitize (caly_config_apply_caps caly_config_defaults feat0) = Inr (caly_config_defaults, 0)"
proof -
  obtain fl where fl: "caly_config_apply_caps caly_config_defaults feat0 = caly_config_defaults\<lparr>cfg_flags := fl\<rparr>"
      "fl AND NOT CALY_F_CAP_MASK = cfg_flags caly_config_defaults AND NOT CALY_F_CAP_MASK"
    using apply_caps_frame [of caly_config_defaults feat0] by (metis and.commute bit.conj_cancel_right)
  then show ?thesis
    using sanitize_flags [OF fl(2)] config_ok_fixpoint defaults_ok by simp
qed

lemma w0_fields:
  "w_probe w0 = Some feat0" "w_load w0 = Some feat0" "w_events w0" "w_config_write w0" "w_sys w0 = sy0" "sy_fd sy0 m"
  "w_attach w0 = Some [link0]" "have_btf feat0"
  "d_cfg d0 = caly_config_defaults" "cfg_mode caly_config_defaults = FW_MODE_NORMAL"
  by (simp_all add: w0_def sy0_def feat0_def d0_def caly_config_defaults_def)

lemma capped_flags:
  "cfg_flags (caly_config_apply_caps caly_config_defaults feat0) AND (CALY_F_CAP_XDP_NATIVE OR CALY_F_CAP_XDP_TX OR CALY_F_CAP_TC_EGRESS) = 0"
  by (simp add: caly_config_apply_caps_def feat0_def caly_config_defaults_def Let_def)

lemma started_ex: "\<exists>x. caly_startup w0 d0 = Some x \<and> d_cfg x = cfg1 \<and> dp_config (d_dp x) = Some cfg1"
proof -
  have s: "fst (caly_bpf_seed_maps sy0 f c s) = None" for f c s by (rule seed_willing [OF sy0_laws(2)])
  have l: "link_caps [link0] =
      CALY_F_CAP_XDP_NATIVE OR CALY_F_CAP_XDP_TX OR CALY_F_CAP_TC_EGRESS"
    by (simp add: link_caps_def link0_def)
  have n: "CALY_F_CAP_XDP_NATIVE OR CALY_F_CAP_XDP_TX OR CALY_F_CAP_TC_EGRESS \<noteq> (0 :: u64)" by simp
  show ?thesis
    unfolding caly_startup_def Let_def
    by (simp add: w0_fields sanitize_capped s l capped_flags [simplified] push_config_def cfg1_def Let_def)
qed

lemma started: "caly_startup w0 d0 = Some d1" "d_cfg d1 = cfg1" "dp_config (d_dp d1) = Some cfg1"
  using started_ex by (auto simp: d1_def)

lemma d1_running: "running d1"
  by (rule running.start [OF _ started(1)]) (simp add: w0_fields defaults_ok)

theorem daemon_invariant_witness:
  "running_ok (d_cfg (snd (h_mode w0 3 d1))) \<and> d_cur_mode (snd (h_mode w0 3 d1)) = FW_MODE_LOCKDOWN"
proof -
  have "running (snd (h_mode w0 3 d1))" by (rule running.step [OF d1_running dstep.mode])
  from daemon_invariant [OF this] show ?thesis by (simp add: h_mode_def Let_def)
qed

theorem ssh_reachable_while_running_witness:
  "fst (caly_xdp_policy k0 (\<lambda>d s. (XDP_TX, s)) [] ((dp0 cfg1 ssh_sc)\<lparr>dp_block := [(K4 7, 32) \<mapsto> rule0]\<rparr>)) = XDP_PASS"
  by (rule ssh_reachable_while_running [OF d1_running started(3), where sc = ssh_sc])
    (simp_all add: checks_pass_def policy_land_def policy_tcp_def policy_udp_def policy_icmp_def
      policy_bogon_def Let_def policy_env_def cfg1_def caly_config_defaults_def caly_config_apply_caps_def feat0_def)

theorem caly_maybe_escalate_decides_witness:
  "d_cur_mode (caly_maybe_escalate w0 2000000000 d0) = FW_MODE_UNDER_ATTACK"
proof -
  have "gauge_rate (\<lambda>g. if g = G_SYN then 50000 else 60000) (d_prev_gauges d0) (2000000000 - d_prev_sample_ns d0) G_SYN = 50000"
    by (simp add: gauge_rate_def d0_def)
  moreover have "(G_SYN, cfg_global_syn_pps_lo (d_cfg d0), cfg_global_syn_pps_hi (d_cfg d0)) \<in> set (thresholds_of (d_cfg d0))"
    by (simp add: thresholds_of_def)
  moreover have "cfg_global_syn_pps_hi (d_cfg d0) = 40000" by (simp add: d0_def caly_config_defaults_def)
  ultimately have "\<exists>(k, lo, hi) \<in> set (thresholds_of (d_cfg d0)). hi \<noteq> 0 \<and>
      gauge_rate (\<lambda>g. if g = G_SYN then 50000 else 60000) (d_prev_gauges d0) (2000000000 - d_prev_sample_ns d0) k > unat hi"
    by (intro bexI [of _ "(G_SYN, cfg_global_syn_pps_lo (d_cfg d0), cfg_global_syn_pps_hi (d_cfg d0))"]) simp_all
  then show ?thesis
    using caly_maybe_escalate_decides [of d0 w0 "\<lambda>g. if g = G_SYN then 50000 else 60000" 2000000000, OF _ _ _ _ refl]
    by (simp add: w0_def d0_def)
qed


theorem attack_mode_dwells_witness:
  "d_cur_mode (ticks [(w0, 6000000000), (w0, 9000000000)] (d0\<lparr>d_cur_mode := FW_MODE_UNDER_ATTACK, d_last_hi_ns := 5000000000\<rparr>))
     = FW_MODE_UNDER_ATTACK"
  by (rule attack_mode_dwells [OF _ refl]) (simp_all add: d0_def attack_dwell_def caly_config_defaults_def)

end
