(* ===== verification/Caly_Util.thy ===== *)
theory Caly_Util
  imports Caly_Cidr
begin

text \<open>
  The text parsers of \<open>util.c\<close> that read the configuration file and the control commands: trimming,
  splitting, Booleans, integers, decimal numbers with a unit (durations, rates, sizes), port ranges
  and prefixes.  A C string is the list of its characters before the terminating zero; a parser
  returns \<^term>\<open>None\<close> where the C function returns -1.  The locale is the C locale (the program never
  calls \<open>setlocale\<close>).  \<open>inet_pton\<close> is a parameter.
\<close>

section \<open>Characters and strings\<close>

definition ccode :: "char \<Rightarrow> nat" where
  "ccode c = of_char c"

definition isspace :: "char \<Rightarrow> bool" where
  "isspace c \<longleftrightarrow> ccode c = 32 \<or> 9 \<le> ccode c \<and> ccode c \<le> 13"

definition isdigit :: "char \<Rightarrow> bool" where
  "isdigit c \<longleftrightarrow> 48 \<le> ccode c \<and> ccode c \<le> 57"

definition tolower :: "char \<Rightarrow> char" where
  "tolower c = (if 65 \<le> ccode c \<and> ccode c \<le> 90 then char_of (ccode c + 32) else c)"

definition caly_trim :: "string \<Rightarrow> string" where
  "caly_trim s = rev (dropWhile isspace (rev (dropWhile isspace s)))"

fun caly_strcaseeq :: "string \<Rightarrow> string \<Rightarrow> bool" where
  "caly_strcaseeq (a # as) (b # bs) = (if tolower a \<noteq> tolower b then False else caly_strcaseeq as bs)"
| "caly_strcaseeq [] bs = (bs = [])"
| "caly_strcaseeq as [] = (as = [])"

definition caly_str_startswith :: "string \<Rightarrow> string \<Rightarrow> bool" where
  "caly_str_startswith s prefix = (take (length prefix) s = prefix)"

text \<open>Tokens are maximal runs without separators, at most \<open>mx\<close> of them; the separator after a token
  is overwritten by its terminator.\<close>

function caly_str_split :: "string \<Rightarrow> string \<Rightarrow> nat \<Rightarrow> string list" where
  "caly_str_split s seps mx =
     (if s = [] \<or> mx = 0 then []
      else
        let s = dropWhile (\<lambda>c. c \<in> set seps) s in
        if s = [] then []
        else takeWhile (\<lambda>c. c \<notin> set seps) s
             # caly_str_split (drop 1 (dropWhile (\<lambda>c. c \<notin> set seps) s)) seps (mx - 1))"
  by pat_completeness auto
termination by (relation "measure (\<lambda>(_, _, mx). mx)") auto

declare caly_str_split.simps [simp del]

section \<open>Booleans and integers\<close>

definition caly_parse_bool :: "string \<Rightarrow> bool option" where
  "caly_parse_bool s =
     (if caly_strcaseeq s ''yes'' \<or> caly_strcaseeq s ''true'' \<or> caly_strcaseeq s ''on'' \<or> s = ''1'' then Some True
      else if caly_strcaseeq s ''no'' \<or> caly_strcaseeq s ''false'' \<or> caly_strcaseeq s ''off'' \<or> s = ''0'' then Some False
      else None)"

text \<open>\<open>strtoull\<close> with base 0 on a text without a minus sign (the caller has refused one): an optional
  plus sign, then hexadecimal after \<open>0x\<close>, octal after \<open>0\<close>, decimal otherwise.  \<^term>\<open>None\<close> is ``no
  conversion''; the value is the number itself, out of range or not, with the rest of the text.\<close>

definition digit_val :: "char \<Rightarrow> nat" where
  "digit_val c =
     (if isdigit c then ccode c - 48
      else if 97 \<le> ccode c \<and> ccode c \<le> 102 then ccode c - 87
      else if 65 \<le> ccode c \<and> ccode c \<le> 70 then ccode c - 55 else 99)"

definition num_val :: "nat \<Rightarrow> string \<Rightarrow> nat" where
  "num_val base ds = foldl (\<lambda>v c. v * base + digit_val c) 0 ds"

definition digit_run :: "nat \<Rightarrow> string \<Rightarrow> (nat \<times> string) option" where
  "digit_run base s =
     (let ds = takeWhile (\<lambda>c. digit_val c < base) s
      in if ds = [] then None else Some (num_val base ds, drop (length ds) s))"

definition strtoull :: "string \<Rightarrow> (nat \<times> string) option" where
  "strtoull s =
     (let s = dropWhile isspace s;
          s = (if take 1 s = ''+'' then drop 1 s else s)
      in if (take 2 s = ''0x'' \<or> take 2 s = ''0X'') \<and> digit_run 16 (drop 2 s) \<noteq> None then digit_run 16 (drop 2 s)
         else if take 1 s = ''0'' then digit_run 8 s
         else digit_run 10 s)"

abbreviation (input) CALY_U64_MAX :: u64 where "CALY_U64_MAX \<equiv> 0xFFFFFFFFFFFFFFFF"

definition caly_parse_u64 :: "string \<Rightarrow> u64 option" where
  "caly_parse_u64 s =
     (let s = dropWhile isspace s
      in if s = [] \<or> hd s = CHR ''-'' then None
         else case strtoull s of None \<Rightarrow> None
              | Some (v, end_) \<Rightarrow>
                  if v > unat CALY_U64_MAX then None
                  else if dropWhile isspace end_ \<noteq> [] then None
                  else Some (of_nat v))"

definition caly_parse_u32 :: "string \<Rightarrow> u32 option" where
  "caly_parse_u32 s = (case caly_parse_u64 s of None \<Rightarrow> None
     | Some v \<Rightarrow> if v > 0xFFFFFFFF then None else Some (ucast v))"

definition caly_parse_u16 :: "string \<Rightarrow> u16 option" where
  "caly_parse_u16 s = (case caly_parse_u64 s of None \<Rightarrow> None
     | Some v \<Rightarrow> if v > 0xFFFF then None else Some (ucast v))"

section \<open>Decimal numbers with a unit\<close>

abbreviation (input) CALY_FRAC_SCALE :: u64 where "CALY_FRAC_SCALE \<equiv> 1000000000"

abbreviation (input) digit_u64 :: "char \<Rightarrow> u64" where "digit_u64 c \<equiv> of_nat (ccode c - 48)"

text \<open>The two digit loops: the first refuses a number beyond 64 bits, the second keeps nine digits.\<close>

fun dec_whole :: "u64 \<Rightarrow> string \<Rightarrow> (u64 \<times> string) option" where
  "dec_whole w [] = Some (w, [])"
| "dec_whole w (c # s) =
     (if isdigit c then
        let d = digit_u64 c
        in if w > (CALY_U64_MAX - d) div 10 then None else dec_whole (w * 10 + d) s
      else Some (w, c # s))"

fun dec_frac :: "u64 \<Rightarrow> u64 \<Rightarrow> string \<Rightarrow> u64 \<times> u64 \<times> string" where
  "dec_frac f dv [] = (f, dv, [])"
| "dec_frac f dv (c # s) =
     (if isdigit c then
        if dv < CALY_FRAC_SCALE then dec_frac (f * 10 + digit_u64 c) (dv * 10) s else dec_frac f dv s
      else (f, dv, c # s))"

text \<open>The counter \<open>digits\<close> is at least one once the first digit has been seen, so the test for zero
  never refuses.\<close>

definition caly_parse_decimal :: "string \<Rightarrow> (u64 \<times> u64 \<times> string) option" where
  "caly_parse_decimal s =
     (let s = dropWhile isspace s
      in if s = [] \<or> \<not> isdigit (hd s) then None
         else case dec_whole 0 s of None \<Rightarrow> None
              | Some (w, s) \<Rightarrow>
                  let (f, dv, s) = (if take 1 s = ''.'' then dec_frac 0 1 (drop 1 s) else (0, 1, s));
                      f = (if dv > 1 then f * (CALY_FRAC_SCALE div dv) else 0)
                  in Some (w, f, dropWhile isspace s))"

definition caly_scale :: "u64 \<Rightarrow> u64 \<Rightarrow> u64 \<Rightarrow> u64 option" where
  "caly_scale whole frac mul =
     (if mul \<noteq> 0 \<and> whole > CALY_U64_MAX div mul then None
      else
        let a = whole * mul;
            b = (mul div CALY_FRAC_SCALE) * frac + ((mul mod CALY_FRAC_SCALE) * frac) div CALY_FRAC_SCALE
        in if a > CALY_U64_MAX - b then None else Some (a + b))"

definition caly_parse_duration_ns :: "string \<Rightarrow> u64 option" where
  "caly_parse_duration_ns s =
     (case caly_parse_decimal s of None \<Rightarrow> None
      | Some (whole, frac, suf) \<Rightarrow>
          let mul = (if suf = [] then Some 1000000000
                     else if caly_strcaseeq suf ''ns'' then Some 1
                     else if caly_strcaseeq suf ''us'' \<or> caly_strcaseeq suf ''usec'' then Some 1000
                     else if caly_strcaseeq suf ''ms'' \<or> caly_strcaseeq suf ''msec'' then Some 1000000
                     else if caly_strcaseeq suf ''s'' \<or> caly_strcaseeq suf ''sec'' then Some 1000000000
                     else if caly_strcaseeq suf ''m'' \<or> caly_strcaseeq suf ''min'' then Some (60 * 1000000000)
                     else if caly_strcaseeq suf ''h'' \<or> caly_strcaseeq suf ''hr'' then Some (3600 * 1000000000)
                     else if caly_strcaseeq suf ''d'' \<or> caly_strcaseeq suf ''day'' then Some (86400 * 1000000000)
                     else None)
          in case mul of None \<Rightarrow> None | Some mul \<Rightarrow> caly_scale whole frac mul)"

text \<open>A rate's unit is noise: \<open>strncasecmp\<close> over its length followed by the end of the text.\<close>

definition caly_strip_rate_unit :: "string \<Rightarrow> string" where
  "caly_strip_rate_unit suf =
     (if list_ex (caly_strcaseeq suf) [''pps'', ''bps'', ''b/s'', ''B/s'', ''/s'', ''ps'', ''b'', ''B''] then [] else suf)"

definition caly_parse_rate :: "string \<Rightarrow> u64 option" where
  "caly_parse_rate s =
     (case caly_parse_decimal s of None \<Rightarrow> None
      | Some (whole, frac, suf) \<Rightarrow>
          let (mul, suf) =
                (if take 1 suf = ''k'' \<or> take 1 suf = ''K'' then (1000, drop 1 suf)
                 else if take 1 suf = ''m'' \<or> take 1 suf = ''M'' then (1000000, drop 1 suf)
                 else if take 1 suf = ''g'' \<or> take 1 suf = ''G'' then (1000000000, drop 1 suf)
                 else (1, suf))
          in if caly_strip_rate_unit suf \<noteq> [] then None else caly_scale whole frac mul)"

definition caly_parse_size :: "string \<Rightarrow> u64 option" where
  "caly_parse_size s =
     (case caly_parse_decimal s of None \<Rightarrow> None
      | Some (whole, frac, suf) \<Rightarrow>
          if suf = [] then caly_scale whole frac 1
          else
            let binary = (take 1 (drop 1 suf) = ''i'' \<or> take 1 (drop 1 suf) = ''I'');
                mul = (if take 1 suf = ''k'' \<or> take 1 suf = ''K'' then Some (if binary then 1024 else 1000)
                       else if take 1 suf = ''m'' \<or> take 1 suf = ''M''
                         then Some (if binary then 1024 * 1024 else 1000000)
                       else if take 1 suf = ''g'' \<or> take 1 suf = ''G''
                         then Some (if binary then 1024 * 1024 * 1024 else 1000000000)
                       else None)
            in case mul of None \<Rightarrow> None
               | Some mul \<Rightarrow>
                   let suf = drop (if binary then 2 else 1) suf;
                       suf = (if take 1 suf = ''b'' \<or> take 1 suf = ''B'' then drop 1 suf else suf)
                   in if suf \<noteq> [] then None else caly_scale whole frac mul)"

section \<open>Port ranges and prefixes\<close>

text \<open>\<open>strchr\<close>: the text before and after the first occurrence of a character.\<close>

definition cut_at :: "char \<Rightarrow> string \<Rightarrow> (string \<times> string) option" where
  "cut_at c s = (if c \<in> set s then Some (takeWhile (\<lambda>x. x \<noteq> c) s, drop 1 (dropWhile (\<lambda>x. x \<noteq> c) s)) else None)"

definition caly_parse_port_range :: "string \<Rightarrow> (u32 \<times> u32) option" where
  "caly_parse_port_range s =
     (if length s \<ge> 32 then None
      else do {
        (a, b) \<leftarrow> (case cut_at (CHR ''-'') s of
                    Some (l, r) \<Rightarrow> do { a \<leftarrow> caly_parse_u32 (caly_trim l); b \<leftarrow> caly_parse_u32 (caly_trim r); Some (a, b) }
                  | None \<Rightarrow> do { a \<leftarrow> caly_parse_u32 (caly_trim s); Some (a, a) });
        if a > 65535 \<or> b > 65535 \<or> a > b then None else Some (a, b) })"

text \<open>\<open>pton f s\<close> is \<open>inet_pton\<close> for family \<open>f\<close>, giving the address bytes.\<close>

type_synonym pton = "u32 \<Rightarrow> string \<Rightarrow> bytes option"

definition caly_parse_ip4 :: "pton \<Rightarrow> string \<Rightarrow> bytes option" where
  "caly_parse_ip4 pton s = pton CALY_AF_INET s"

definition caly_parse_ip6 :: "pton \<Rightarrow> string \<Rightarrow> bytes option" where
  "caly_parse_ip6 pton s = pton CALY_AF_INET6 s"

abbreviation (input) CALY_CIDR_STRLEN :: nat where "CALY_CIDR_STRLEN \<equiv> 48"

definition caly_parse_cidr :: "pton \<Rightarrow> string \<Rightarrow> caly_cidr option" where
  "caly_parse_cidr pton s =
     (if length s \<ge> CALY_CIDR_STRLEN + 16 then None
      else do {
        (host, plen) \<leftarrow> (case cut_at (CHR ''/'') s of
                          Some (l, r) \<Rightarrow> do { p \<leftarrow> caly_parse_u32 (caly_trim r); Some (l, p) }
                        | None \<Rightarrow> Some (s, 0xFFFFFFFF));
        if CHR '':'' \<in> set host then do {
          a \<leftarrow> caly_parse_ip6 pton (caly_trim host);
          let plen = (if plen = 0xFFFFFFFF then 128 else plen);
          if plen > 128 then None
          else Some \<lparr>cd_addr = a, cd_prefixlen = plen, cd_family = CALY_AF_INET6\<rparr> }
        else do {
          a \<leftarrow> caly_parse_ip4 pton (caly_trim host);
          let plen = (if plen = 0xFFFFFFFF then 32 else plen);
          if plen > 32 then None
          else Some \<lparr>cd_addr = a @ replicate 12 0, cd_prefixlen = plen, cd_family = CALY_AF_INET\<rparr> } })"


section \<open>Digits and decimals\<close>

lemma strcaseeq_iff: "caly_strcaseeq a b \<longleftrightarrow> map tolower a = map tolower b"
  by (induction a b rule: caly_strcaseeq.induct) auto

lemma digit_val_digit: "isdigit c \<Longrightarrow> digit_val c = ccode c - 48 \<and> digit_val c < 10"
  by (auto simp: digit_val_def isdigit_def)

lemma digit_val_less_10: "digit_val c < 10 \<longleftrightarrow> isdigit c"
  by (auto simp: digit_val_def isdigit_def)

lemma isspace_not_digit: "isspace c \<Longrightarrow> \<not> isdigit c"
  by (auto simp: isspace_def isdigit_def)

text \<open>A text that does not go on with a digit.\<close>

definition no_digit :: "string \<Rightarrow> bool" where
  "no_digit s \<longleftrightarrow> s = [] \<or> \<not> isdigit (hd s)"

abbreviation dec_from :: "nat \<Rightarrow> string \<Rightarrow> nat" where
  "dec_from v ds \<equiv> foldl (\<lambda>v c. v * 10 + digit_val c) v ds"

lemma dec_from_ge: "v \<le> dec_from v ds"
proof (induction ds arbitrary: v)
  case (Cons c ds)
  have "v \<le> v * 10 + digit_val c" by simp
  also have "\<dots> \<le> dec_from (v * 10 + digit_val c) ds" by (rule Cons)
  finally show ?case by simp
qed simp

lemma dec_from_bound: "list_all isdigit ds \<Longrightarrow> dec_from v ds < (v + 1) * 10 ^ length ds"
proof (induction ds arbitrary: v)
  case (Cons c ds)
  have "v * 10 + digit_val c + 1 \<le> (v + 1) * 10" using Cons.prems digit_val_digit by fastforce
  then have "(v * 10 + digit_val c + 1) * 10 ^ length ds \<le> (v + 1) * 10 * 10 ^ length ds" by (rule mult_le_mono1)
  moreover have "dec_from v (c # ds) < (v * 10 + digit_val c + 1) * 10 ^ length ds" using Cons by simp
  ultimately have "dec_from v (c # ds) < (v + 1) * 10 * 10 ^ length ds" by (rule order_less_le_trans [rotated])
  then show ?case by (simp only: list.size(4) add_0_right add_Suc_right power_Suc mult.assoc)
qed simp

lemma unat_digit_u64: "isdigit c \<Longrightarrow> unat (digit_u64 c) = digit_val c"
  using digit_val_digit [of c] by (simp add: unat_of_nat)

lemma dec_step_fits:
  assumes "unat d < 10"
  shows "(w :: u64) > (CALY_U64_MAX - d) div 10 \<longleftrightarrow> unat w * 10 + unat d \<ge> 2 ^ 64"
    and "unat w * 10 + unat d < 2 ^ 64 \<Longrightarrow> unat (w * 10 + d) = unat w * 10 + unat d"
proof -
  have "unat (CALY_U64_MAX - d) = 18446744073709551615 - unat d"
    using assms by (subst unat_sub) (simp_all add: word_le_nat_alt)
  then have "unat ((CALY_U64_MAX - d) div 10) = (18446744073709551615 - unat d) div 10"
    by (simp add: unat_div)
  then show "w > (CALY_U64_MAX - d) div 10 \<longleftrightarrow> unat w * 10 + unat d \<ge> 2 ^ 64"
    using assms by (auto simp: word_less_nat_alt)
  show "unat (w * 10 + d) = unat w * 10 + unat d" if "unat w * 10 + unat d < 2 ^ 64"
    using that by (simp add: unat_word_ariths)
qed

lemma dec_whole_run:
  assumes "list_all isdigit ds" "no_digit rest"
  shows "dec_whole w (ds @ rest) =
           (if dec_from (unat w) ds < 2 ^ 64 then Some (of_nat (dec_from (unat w) ds), rest) else None)"
  using assms(1)
proof (induction ds arbitrary: w)
  case Nil
  have "dec_whole w rest = Some (w, rest)" using assms(2) by (cases rest) (auto simp: no_digit_def)
  then show ?case using unat_u64_less [of w] by simp
next
  case (Cons c ds)
  then have c: "isdigit c" "unat (digit_u64 c) = digit_val c" "digit_val c < 10"
    using unat_digit_u64 digit_val_less_10 by simp_all
  note fits = dec_step_fits [of "digit_u64 c" w, unfolded c(2), OF c(3)]
  show ?case
  proof (cases "unat w * 10 + digit_val c < 2 ^ 64")
    case True
    then show ?thesis using Cons fits c(1) by (simp add: Let_def)
  next
    case False
    then have "\<not> dec_from (unat w * 10 + digit_val c) ds < 2 ^ 64"
      using dec_from_ge [of "unat w * 10 + digit_val c" ds] by linarith
    then show ?thesis using False fits c(1) by (simp add: Let_def)
  qed
qed

text \<open>The fraction in billionths: nine digits, padded with zeros.\<close>

definition frac9 :: "string \<Rightarrow> nat" where
  "frac9 fs = dec_from 0 (take 9 fs) * 10 ^ (9 - min 9 (length fs))"


lemma dec_frac_run:
  assumes "list_all isdigit fs" "no_digit rest" "k \<le> 9" "unat f < 10 ^ k"
  shows "dec_frac f (10 ^ k) (fs @ rest) =
           (of_nat (dec_from (unat f) (take (9 - k) fs)), 10 ^ min 9 (k + length fs), rest)"
  using assms(1,3,4)
proof (induction fs arbitrary: f k)
  case Nil
  have "dec_frac f (10 ^ k) rest = (f, 10 ^ k, rest)" using assms(2) by (cases rest) (auto simp: no_digit_def)
  then show ?case using Nil by (simp add: min_def)
next
  case (Cons c fs)
  then have c: "isdigit c" "unat (digit_u64 c) = digit_val c" "digit_val c < 10"
    using unat_digit_u64 digit_val_less_10 by simp_all
  have pk: "unat (10 ^ j :: u64) = 10 ^ j" if "j \<le> 9" for j
  proof -
    have "(10 :: nat) ^ j \<le> 10 ^ 9" using that by (intro power_increasing) auto
    then show ?thesis by (simp add: unat_of_nat [of "10 ^ j", where 'a = 64, simplified])
  qed
  show ?case
  proof (cases "k < 9")
    case True
    have lt: "unat f * 10 + digit_val c < 10 ^ Suc k" using Cons.prems(3) c(3) by simp
    have "(10 :: nat) ^ Suc k \<le> 10 ^ 9" using True by (intro power_increasing) auto
    then have u: "unat (f * 10 + digit_u64 c) = unat f * 10 + digit_val c"
      using lt c(2) by (simp add: unat_word_ariths)
    have "(10 :: nat) ^ k < 10 ^ 9" using True by (intro power_strict_increasing) auto
    then have "(10 ^ k :: u64) < CALY_FRAC_SCALE" using True pk [of k] by (simp add: word_less_nat_alt)
    moreover have "9 - k = Suc (9 - Suc k)" using True by simp
    ultimately show ?thesis
      using Cons.IH [of "Suc k" "f * 10 + digit_u64 c"] Cons.prems c(1) lt u True by (simp add: mult.commute)
  next
    case False
    then have "k = 9" using Cons.prems(2) by simp
    then show ?thesis using Cons.IH [of k f] Cons.prems c(1) by simp
  qed
qed


lemma dropWhile_all_append: "list_all P xs \<Longrightarrow> dropWhile P (xs @ ys) = dropWhile P ys"
  by (induction xs) auto

text \<open>The text of a decimal: digits, an optional fraction, spaces, a suffix.\<close>

definition decimal_text :: "string \<Rightarrow> string \<Rightarrow> bool \<Rightarrow> string \<Rightarrow> string \<Rightarrow> string" where
  "decimal_text ds fs dot sp suf = ds @ (if dot then ''.'' @ fs else []) @ sp @ suf"

definition decimal_ok :: "string \<Rightarrow> string \<Rightarrow> bool \<Rightarrow> string \<Rightarrow> string \<Rightarrow> bool" where
  "decimal_ok ds fs dot sp suf \<longleftrightarrow>
     ds \<noteq> [] \<and> list_all isdigit ds \<and> list_all isdigit fs \<and> (\<not> dot \<longrightarrow> fs = []) \<and> list_all isspace sp \<and>
     (suf \<noteq> [] \<longrightarrow> \<not> isdigit (hd suf) \<and> \<not> isspace (hd suf) \<and> hd suf \<noteq> CHR ''.'')"

lemma frac9_less: "list_all isdigit fs \<Longrightarrow> frac9 fs < 10 ^ 9"
proof -
  assume d: "list_all isdigit fs"
  have "list_all isdigit (take 9 fs)" using d by (simp add: list_all_iff in_set_takeD [THEN d [unfolded list_all_iff, rule_format]])
  then have "dec_from 0 (take 9 fs) < 10 ^ min 9 (length fs)"
    using dec_from_bound [of "take 9 fs" 0] by (simp add: min.commute)
  then have "frac9 fs < 10 ^ min 9 (length fs) * 10 ^ (9 - min 9 (length fs))"
    unfolding frac9_def by (rule mult_less_mono1) simp
  then show ?thesis by (simp flip: power_add)
qed

lemma of_nat_unat_u64: "of_nat (unat x) = (x :: u64)"
  by (simp add: word_unat_eq_iff unat_of_nat)

lemma pow10_word: "j \<le> 9 \<Longrightarrow> unat (10 ^ j :: u64) = 10 ^ j"
proof -
  assume "j \<le> 9"
  then have "(10 :: nat) ^ j \<le> 10 ^ 9" by (intro power_increasing) auto
  then show ?thesis by (simp add: unat_of_nat [of "10 ^ j", where 'a = 64, simplified])
qed

lemma scale_frac:
  assumes "list_all isdigit fs" "dv = (10 ^ min 9 (length fs) :: u64)" "f = of_nat (dec_from 0 (take 9 fs))"
  shows "(if dv > 1 then f * (CALY_FRAC_SCALE div dv) else 0) = of_nat (frac9 fs)"
proof (cases fs)
  case (Cons c cs)
  let ?k = "min 9 (length fs)"
  have k: "?k \<le> 9" "1 \<le> ?k" using Cons by auto
  have "(10 :: nat) ^ 1 \<le> 10 ^ ?k" using k(2) by (intro power_increasing) auto
  then have "dv > 1" using pow10_word [OF k(1)] assms(2) by (simp add: word_less_nat_alt)
  moreover have "unat (CALY_FRAC_SCALE div dv) = 10 ^ 9 div 10 ^ ?k"
    using pow10_word [OF k(1)] assms(2) by (simp add: unat_div)
  moreover have "10 ^ 9 div 10 ^ ?k = (10 :: nat) ^ (9 - ?k)" using k(1) by (simp add: power_diff)
  ultimately have "CALY_FRAC_SCALE div dv = of_nat (10 ^ (9 - ?k))" 
    by (metis of_nat_unat_u64)
  then show ?thesis using \<open>dv > 1\<close> assms(3) by (simp add: frac9_def)
qed (use assms in \<open>simp add: frac9_def\<close>)

lemma parse_decimal_text:
  assumes "decimal_ok ds fs dot sp suf"
  shows "caly_parse_decimal (decimal_text ds fs dot sp suf) =
           (if dec_from 0 ds < 2 ^ 64 then Some (of_nat (dec_from 0 ds), of_nat (frac9 fs), suf) else None)"
proof -
  note ok = assms [unfolded decimal_ok_def]
  let ?tail = "(if dot then ''.'' @ fs else []) @ sp @ suf"
  have hd: "isdigit (hd ds)" "ds \<noteq> []" using ok by (auto simp: list_all_iff)
  then have start: "dropWhile isspace (decimal_text ds fs dot sp suf) = ds @ ?tail"
    using isspace_not_digit by (cases ds) (auto simp: decimal_text_def)
  have nd: "no_digit (sp @ suf)"
    using ok isspace_not_digit by (cases sp) (auto simp: no_digit_def)
  have nd2: "no_digit ?tail" using nd by (auto simp: no_digit_def isdigit_def ccode_def)
  have sp: "dropWhile isspace (sp @ suf) = suf"
    using ok by (cases suf) (auto simp: dropWhile_all_append list_all_iff)
  have dot1: "take 1 (sp @ suf) \<noteq> ''.''"
    using ok by (cases sp; cases suf) (auto simp: isspace_def ccode_def)
  have frac: "dec_frac 0 1 (fs @ sp @ suf) = (of_nat (dec_from 0 (take 9 fs)), 10 ^ min 9 (length fs), sp @ suf)"
    using dec_frac_run [of fs "sp @ suf" 0 0] ok nd by simp
  note sc = scale_frac [OF _ refl refl, of fs]
  show ?thesis
    unfolding caly_parse_decimal_def Let_def start
    using ok hd dec_whole_run [of ds ?tail 0] nd2 sp dot1 frac sc
    by (cases dot) (simp_all add: frac9_def)
qed


text \<open>The product of a decimal and a unit, rounded down.\<close>

definition decimal_value :: "string \<Rightarrow> string \<Rightarrow> nat \<Rightarrow> nat" where
  "decimal_value ds fs mul = (dec_from 0 ds * 10 ^ 9 + frac9 fs) * mul div 10 ^ 9"

lemma mul_div_split:
  "(w * s + f) * m div s = w * m + ((m div s) * f + (m mod s) * f div s)" if "0 < s" for w s f m :: nat
proof -
  have "m * f = (m div s * f) * s + (m mod s) * f" by (metis div_mult_mod_eq mult.assoc mult.commute distrib_right)
  then have "(w * s + f) * m = s * (w * m + m div s * f) + (m mod s) * f" by (simp add: algebra_simps)
  then show ?thesis using that by simp
qed

lemma add_overflows: "(a :: u64) > CALY_U64_MAX - b \<longleftrightarrow> 2 ^ 64 \<le> unat a + unat b"
proof -
  have "unat (CALY_U64_MAX - b) = 18446744073709551615 - unat b"
    using unat_u64_less [of b] by (subst unat_sub) (simp_all add: word_le_nat_alt)
  then show ?thesis using unat_u64_less [of b] by (auto simp: word_less_nat_alt)
qed

lemma caly_scale_exact:
  assumes "frac < 10 ^ 9" "0 < mul" "mul \<le> 86400 * 10 ^ 9" "whole < 2 ^ 64"
  shows "caly_scale (of_nat whole) (of_nat frac) (of_nat mul) =
           (let v = (whole * 10 ^ 9 + frac) * mul div 10 ^ 9 in if v < 2 ^ 64 then Some (of_nat v) else None)"
proof -
  let ?w = "of_nat whole :: u64" and ?f = "of_nat frac :: u64" and ?m = "of_nat mul :: u64"
  let ?b = "(mul div 10 ^ 9) * frac + (mul mod 10 ^ 9) * frac div 10 ^ 9"
  have u: "unat ?w = whole" "unat ?f = frac" "unat ?m = mul" using assms by (simp_all add: unat_of_nat)
  have q: "mul div 10 ^ 9 \<le> 86400" using assms(3) by (simp add: div_le_mono [of mul "86400 * 10 ^ 9" "10 ^ 9", simplified])
  then have p1: "(mul div 10 ^ 9) * frac \<le> 86400 * 10 ^ 9" using assms(1) by (intro mult_le_mono) auto
  have r: "mul mod 10 ^ 9 < 10 ^ 9" by simp
  then have p2: "(mul mod 10 ^ 9) * frac \<le> 10 ^ 9 * 10 ^ 9" using assms(1) by (intro mult_le_mono) auto
  then have p3: "(mul mod 10 ^ 9) * frac div 10 ^ 9 \<le> 10 ^ 9" using div_le_mono [OF p2, of "10 ^ 9"] by simp
  have b: "unat (?m div CALY_FRAC_SCALE * ?f + ?m mod CALY_FRAC_SCALE * ?f div CALY_FRAC_SCALE) = ?b"
    using q p1 p2 p3 u by (simp add: unat_word_ariths unat_div unat_mod)
  have v: "(whole * 10 ^ 9 + frac) * mul div 10 ^ 9 = whole * mul + ?b" by (rule mul_div_split) simp
  have over: "?w > CALY_U64_MAX div ?m \<longleftrightarrow> 2 ^ 64 \<le> whole * mul"
    using assms(2) u by (auto simp: word_less_nat_alt unat_div div_less_iff_less_mult)
  show ?thesis
  proof (cases "2 ^ 64 \<le> whole * mul")
    case True
    then show ?thesis using over assms(2) u(3) v by (auto simp: caly_scale_def Let_def)
  next
    case False
    then have a: "unat (?w * ?m) = whole * mul" using u by (simp add: unat_word_ariths)
    have "?w * ?m > CALY_U64_MAX - (?m div CALY_FRAC_SCALE * ?f + ?m mod CALY_FRAC_SCALE * ?f div CALY_FRAC_SCALE)
               \<longleftrightarrow> 2 ^ 64 \<le> whole * mul + ?b"
      by (simp only: add_overflows a b)
    moreover have "?w * ?m + (?m div CALY_FRAC_SCALE * ?f + ?m mod CALY_FRAC_SCALE * ?f div CALY_FRAC_SCALE) =
        of_nat (whole * mul + ?b)"
      using of_nat_unat_u64 [of "?m div CALY_FRAC_SCALE * ?f + ?m mod CALY_FRAC_SCALE * ?f div CALY_FRAC_SCALE"] b
      by (simp only: of_nat_add of_nat_mult)
    ultimately show ?thesis using False over v unfolding caly_scale_def Let_def by simp
  qed
qed

lemma scaled_decimal:
  assumes "decimal_ok ds fs dot sp suf" "0 < mul" "mul \<le> 86400 * 10 ^ 9"
  shows "(case caly_parse_decimal (decimal_text ds fs dot sp suf) of None \<Rightarrow> None
          | Some (whole, frac, suf') \<Rightarrow> if suf' = suf then caly_scale whole frac (of_nat mul) else None) =
         (if decimal_value ds fs mul < 2 ^ 64 then Some (of_nat (decimal_value ds fs mul)) else None)"
proof (cases "dec_from 0 ds < 2 ^ 64")
  case True
  then show ?thesis
    using assms frac9_less [of fs] caly_scale_exact [of "frac9 fs" mul "dec_from 0 ds"]
    by (simp add: parse_decimal_text decimal_ok_def decimal_value_def Let_def)
next
  case False
  have "dec_from 0 ds * mul \<le> decimal_value ds fs mul"
    unfolding decimal_value_def by (subst mul_div_split) auto
  moreover have "dec_from 0 ds * 1 \<le> dec_from 0 ds * mul" using assms(2) by (intro mult_le_mono2) simp
  ultimately have "\<not> decimal_value ds fs mul < 2 ^ 64" using False by linarith
  then show ?thesis using False assms(1) by (simp add: parse_decimal_text)
qed

text \<open>The units of a duration and of a rate, in lower case.\<close>

definition duration_units :: "(string \<times> nat) list" where
  "duration_units =
     [('''', 1000000000), (''ns'', 1), (''us'', 1000), (''usec'', 1000), (''ms'', 1000000), (''msec'', 1000000),
      (''s'', 1000000000), (''sec'', 1000000000), (''m'', 60000000000), (''min'', 60000000000),
      (''h'', 3600000000000), (''hr'', 3600000000000), (''d'', 86400000000000), (''day'', 86400000000000)]"

definition rate_units :: "(string \<times> nat) list" where
  "rate_units =
     [(u @ n, m). (u, m) \<leftarrow> [('''', 1), (''k'', 1000), (''m'', 1000000), (''g'', 1000000000)],
                  n \<leftarrow> ['''', ''pps'', ''bps'', ''b/s'', ''/s'', ''ps'', ''b'']]"

lemma tolower_hd:
  assumes "map tolower suf = u" "u \<noteq> []"
  shows "suf \<noteq> [] \<and> tolower (hd suf) = hd u \<and> map tolower (tl suf) = tl u"
  using assms by (cases suf) auto

lemma tolower_start:
  "\<not> isdigit (tolower c) \<Longrightarrow> \<not> isspace (tolower c) \<Longrightarrow> tolower c \<noteq> CHR ''.'' \<Longrightarrow>
   \<not> isdigit c \<and> \<not> isspace c \<and> c \<noteq> CHR ''.''"
  by (auto simp: tolower_def isdigit_def isspace_def ccode_def split: if_splits)

lemma unit_decimal_ok:
  assumes "ds \<noteq> []" "list_all isdigit ds" "list_all isdigit fs" "\<not> dot \<longrightarrow> fs = []" "list_all isspace sp"
    and "map tolower suf = u" "u \<noteq> [] \<longrightarrow> \<not> isdigit (hd u) \<and> \<not> isspace (hd u) \<and> hd u \<noteq> CHR ''.''"
  shows "decimal_ok ds fs dot sp suf"
  using assms tolower_hd [OF assms(6)] tolower_start [of "hd suf"] unfolding decimal_ok_def by force

text \<open>Durations are read exactly: a decimal number with an optional fraction and a unit in any case
  (none means seconds) is the product rounded down to a nanosecond (digits beyond the ninth of the
  fraction are ignored), and it is refused exactly when that product does not fit 64 bits.\<close>

theorem caly_parse_duration_ns_exact:
  assumes "ds \<noteq> []" "list_all isdigit ds" "list_all isdigit fs" "\<not> dot \<longrightarrow> fs = []" "list_all isspace sp"
    and "(u, mul) \<in> set duration_units" "map tolower suf = u"
  shows "caly_parse_duration_ns (decimal_text ds fs dot sp suf) =
           (if decimal_value ds fs mul < 2 ^ 64 then Some (of_nat (decimal_value ds fs mul)) else None)"
proof -
  have u: "u \<noteq> [] \<longrightarrow> \<not> isdigit (hd u) \<and> \<not> isspace (hd u) \<and> hd u \<noteq> CHR ''.''" "0 < mul" "mul \<le> 86400 * 10 ^ 9"
    using assms(6) by (auto simp: duration_units_def isdigit_def isspace_def ccode_def)
  have d: "decimal_ok ds fs dot sp suf" using unit_decimal_ok assms(1-5,7) u(1) by blast
  have tl: "map tolower ''ns'' = ''ns''" "map tolower ''us'' = ''us''" "map tolower ''usec'' = ''usec''"
    "map tolower ''ms'' = ''ms''" "map tolower ''msec'' = ''msec''" "map tolower ''s'' = ''s''"
    "map tolower ''sec'' = ''sec''" "map tolower ''m'' = ''m''" "map tolower ''min'' = ''min''"
    "map tolower ''h'' = ''h''" "map tolower ''hr'' = ''hr''" "map tolower ''d'' = ''d''" "map tolower ''day'' = ''day''"
    by (simp_all add: tolower_def ccode_def)
  have "caly_parse_duration_ns (decimal_text ds fs dot sp suf) =
      (case caly_parse_decimal (decimal_text ds fs dot sp suf) of None \<Rightarrow> None
       | Some (whole, frac, suf') \<Rightarrow> if suf' = suf then caly_scale whole frac (of_nat mul) else None)"
    using assms(6,7) unfolding caly_parse_duration_ns_def parse_decimal_text [OF d] strcaseeq_iff tl duration_units_def
    by (auto simp: Let_def)
  then show ?thesis using scaled_decimal [OF d u(2,3)] by simp
qed

lemma tolower_cases: "tolower c = d \<Longrightarrow> c = d \<or> ccode c + 32 = ccode d"
  by (auto simp: tolower_def ccode_def split: if_splits)

lemma ccode_eq: "ccode c = ccode d \<longleftrightarrow> c = d"
  by (simp add: ccode_def)

lemma tolower_kmg:
  "tolower c = CHR ''k'' \<Longrightarrow> c = CHR ''k'' \<or> c = CHR ''K''"
  "tolower c = CHR ''m'' \<Longrightarrow> c = CHR ''m'' \<or> c = CHR ''M''"
  "tolower c = CHR ''g'' \<Longrightarrow> c = CHR ''g'' \<or> c = CHR ''G''"
  using tolower_cases [of c] ccode_eq [of c "CHR ''K''"] ccode_eq [of c "CHR ''M''"] ccode_eq [of c "CHR ''G''"]
  by (auto simp: ccode_def)

lemma tolower_idem: "tolower (tolower c) = tolower c"
  by (simp add: tolower_def ccode_def)

lemma strip_rate_noise:
  "map tolower t \<in> set ['''', ''pps'', ''bps'', ''b/s'', ''/s'', ''ps'', ''b''] \<Longrightarrow> caly_strip_rate_unit t = []"
proof -
  assume t: "map tolower t \<in> set ['''', ''pps'', ''bps'', ''b/s'', ''/s'', ''ps'', ''b'']"
  have "caly_strcaseeq t (map tolower t)" by (simp add: strcaseeq_iff tolower_idem)
  moreover have "caly_strip_rate_unit t = []"
    if "caly_strcaseeq t x" "x \<in> set ['''', ''pps'', ''bps'', ''b/s'', ''/s'', ''ps'', ''b'']" for x
    using that by (cases "x = []") (auto simp: caly_strip_rate_unit_def strcaseeq_iff)
  ultimately show ?thesis using t by blast
qed

lemma caly_parse_rate_exact:
  assumes "ds \<noteq> []" "list_all isdigit ds" "list_all isdigit fs" "\<not> dot \<longrightarrow> fs = []" "list_all isspace sp"
    and "(u, mul) \<in> set rate_units" "map tolower suf = u"
  shows "caly_parse_rate (decimal_text ds fs dot sp suf) =
           (if decimal_value ds fs mul < 2 ^ 64 then Some (of_nat (decimal_value ds fs mul)) else None)"
proof -
  have u: "u \<noteq> [] \<longrightarrow> \<not> isdigit (hd u) \<and> \<not> isspace (hd u) \<and> hd u \<noteq> CHR ''.''" "0 < mul" "mul \<le> 86400 * 10 ^ 9"
    using assms(6) by (auto simp: rate_units_def isdigit_def isspace_def ccode_def)
  have d: "decimal_ok ds fs dot sp suf" using unit_decimal_ok assms(1-5,7) u(1) by blast
  obtain p n where pn: "u = p @ n" "(p, mul) \<in> {('''', 1), (''k'', 1000), (''m'', 1000000), (''g'', 1000000000)}"
    "n \<in> set ['''', ''pps'', ''bps'', ''b/s'', ''/s'', ''ps'', ''b'']"
    using assms(6) unfolding rate_units_def by auto
  obtain q t where qt: "suf = q @ t" "map tolower q = p" "map tolower t = n"
    using assms(7) pn(1) by (metis map_eq_append_conv)
  have strip: "caly_strip_rate_unit t = []" by (rule strip_rate_noise) (use qt(3) pn(3) in \<open>simp only:\<close>)
  have none: "take 1 t \<noteq> [c]" if "tolower c \<in> {CHR ''k'', CHR ''m'', CHR ''g''}" for c
    using that pn(3) qt(3) by (cases t) auto
  have "caly_parse_rate (decimal_text ds fs dot sp suf) =
      (case caly_parse_decimal (decimal_text ds fs dot sp suf) of None \<Rightarrow> None
       | Some (whole, frac, suf') \<Rightarrow> if suf' = suf then caly_scale whole frac (of_nat mul) else None)"
  proof (cases "p = []")
    case True
    have "take 1 suf \<notin> {''k'', ''K'', ''m'', ''M'', ''g'', ''G''}"
      using True qt none by (auto simp: tolower_def ccode_def char_of_def bit_0)
    then show ?thesis using True qt pn(2) strip unfolding caly_parse_rate_def parse_decimal_text [OF d] by (simp add: Let_def)
  next
    case False
    then obtain c where c: "q = [c]" "p = [tolower c]" using pn(2) qt(2) by auto
    have "(c = CHR ''k'' \<or> c = CHR ''K'') \<and> mul = 1000 \<or> (c = CHR ''m'' \<or> c = CHR ''M'') \<and> mul = 1000000 \<or>
        (c = CHR ''g'' \<or> c = CHR ''G'') \<and> mul = 1000000000"
      using pn(2) c(2) tolower_kmg [of c] by auto
    then show ?thesis
      using qt(1) c(1) strip unfolding caly_parse_rate_def parse_decimal_text [OF d] by (auto simp: Let_def)
  qed
  then show ?thesis using scaled_decimal [OF d u(2,3)] by simp
qed

section \<open>Integers\<close>

definition digit_chr :: "nat \<Rightarrow> char" where
  "digit_chr d = char_of (d + 48)"

text \<open>The decimal numeral without leading zeros, as \<open>%u\<close> prints it.\<close>

fun dec_str :: "nat \<Rightarrow> string" where
  "dec_str n = (if n \<le> 9 then [] else dec_str (n div 10)) @ [digit_chr (n mod 10)]"

declare dec_str.simps [simp del]

lemma digit_chr_code: "d < 10 \<Longrightarrow> ccode (digit_chr d) = d + 48"
  by (simp add: ccode_def digit_chr_def)

lemma digit_chr_digit: "d < 10 \<Longrightarrow> isdigit (digit_chr d) \<and> digit_val (digit_chr d) = d"
  using digit_chr_code [of d] digit_val_digit [of "digit_chr d"] by (auto simp: isdigit_def)

lemma dec_str_digits: "list_all isdigit (dec_str n)" "dec_str n \<noteq> []"
  by (induction n rule: dec_str.induct; subst dec_str.simps; simp add: digit_chr_digit)+

lemma dec_from_str: "dec_from 0 (dec_str n) = n"
  by (induction n rule: dec_str.induct) (subst dec_str.simps, auto simp: digit_chr_digit)

lemma dec_str_lead: "0 < n \<Longrightarrow> hd (dec_str n) \<noteq> CHR ''0''"
proof (induction n rule: dec_str.induct)
  case (1 n)
  show ?case
  proof (cases "n \<le> 9")
    case True
    then have "ccode (digit_chr n) \<noteq> ccode (CHR ''0'')" using 1(2) digit_chr_code [of n] by (simp add: ccode_def)
    then show ?thesis using True by (subst dec_str.simps) auto
  next
    case False
    then have "hd (dec_str (n div 10)) \<noteq> CHR ''0''" using 1 by simp
    then show ?thesis using False dec_str_digits(2) [of "n div 10"] by (subst dec_str.simps) simp
  qed
qed

lemma digits_plain:
  assumes "list_all isdigit ds" "c \<in> set ds"
  shows "\<not> isspace c" "c \<noteq> CHR ''-''" "c \<noteq> CHR ''+''" "c \<noteq> CHR ''/''" "c \<noteq> CHR '':''"
  using assms by (auto simp: list_all_iff isspace_def isdigit_def ccode_def)

lemma digit_run_10:
  assumes "list_all isdigit ds" "ds \<noteq> []"
  shows "digit_run 10 ds = Some (dec_from 0 ds, [])"
proof -
  have tw: "takeWhile (\<lambda>c. digit_val c < 10) ds = ds" using assms(1) by (simp add: digit_val_less_10 list_all_iff)
  show ?thesis using assms(2) unfolding digit_run_def num_val_def Let_def tw by simp
qed

lemma strtoull_dec: "strtoull (dec_str n) = Some (n, [])"
proof (cases "n = 0")
  case True
  then show ?thesis
    by (simp add: dec_str.simps digit_chr_def char_of_def bit_0 strtoull_def isspace_def ccode_def digit_run_def digit_val_def isdigit_def
        num_val_def Let_def)
next
  case False
  obtain c cs where c: "dec_str n = c # cs" using dec_str_digits(2) by (cases "dec_str n") auto
  then have "\<not> isspace c" "c \<noteq> CHR ''+''" "c \<noteq> CHR ''0''"
    using digits_plain [OF dec_str_digits(1), of c n] dec_str_lead [of n] False by simp_all
  then show ?thesis
    using c digit_run_10 [OF dec_str_digits, of n] dec_from_str [of n] by (simp add: strtoull_def)
qed

lemma dec_str_trim: "caly_trim (dec_str n) = dec_str n" "dropWhile isspace (dec_str n) = dec_str n"
proof -
  have "dropWhile isspace (dec_str n) = dec_str n" "dropWhile isspace (rev (dec_str n)) = rev (dec_str n)"
    using digits_plain(1) [OF dec_str_digits(1), of _ n] dec_str_digits(2) [of n]
    by (auto simp: dropWhile_eq_self_iff hd_rev)
  then show "caly_trim (dec_str n) = dec_str n" "dropWhile isspace (dec_str n) = dec_str n"
    by (simp_all add: caly_trim_def)
qed

lemma parse_u64_dec: "caly_parse_u64 (dec_str n) = (if n < 2 ^ 64 then Some (of_nat n) else None)"
proof -
  have "hd (dec_str n) \<noteq> CHR ''-''"
    using digits_plain(2) [OF dec_str_digits(1)] hd_in_set [OF dec_str_digits(2)] by blast
  then show ?thesis
    using strtoull_dec dec_str_digits(2) by (auto simp: caly_parse_u64_def Let_def dec_str_trim)
qed

lemma parse_u32_dec: "caly_parse_u32 (dec_str n) = (if n < 2 ^ 32 then Some (of_nat n) else None)"
  by (auto simp: caly_parse_u32_def parse_u64_dec word_less_nat_alt unat_of_nat unsigned_of_nat take_bit_nat_eq_self)

section \<open>Port ranges, prefixes and token lists\<close>

lemma dec_str_length: "n < 10 ^ k \<Longrightarrow> 0 < k \<Longrightarrow> length (dec_str n) \<le> k"
proof (induction k arbitrary: n)
  case (Suc k)
  show ?case
  proof (cases "n \<le> 9")
    case False
    then have "n div 10 < 10 ^ k" "0 < k" using Suc.prems(1) by (auto intro: Nat.gr0I)
    then have "length (dec_str (n div 10)) \<le> k" using Suc.IH by blast
    then show ?thesis using False by (subst dec_str.simps) simp
  qed (subst dec_str.simps, simp)
qed simp

lemma cut_at_join: "c \<notin> set l \<Longrightarrow> cut_at c (l @ [c] @ r) = Some (l, r)"
  by (induction l) (auto simp: cut_at_def)

lemma cut_at_none: "c \<notin> set s \<Longrightarrow> cut_at c s = None"
  by (simp add: cut_at_def)

text \<open>Port ranges are read back and checked: the text \<open>lo-hi\<close> or a single port gives exactly its
  bounds if \<open>lo \<le> hi \<le> 65535\<close> and is refused otherwise, and whatever text is accepted gives such a
  range, so no rule can reach past the port tables.\<close>

theorem caly_parse_port_range_exact:
  "caly_parse_port_range (dec_str a @ ''-'' @ dec_str b) =
     (if a \<le> b \<and> b \<le> 65535 then Some (of_nat a, of_nat b) else None) \<and>
   caly_parse_port_range (dec_str a) = (if a \<le> 65535 then Some (of_nat a, of_nat a) else None) \<and>
   (caly_parse_port_range s = Some (lo, hi) \<longrightarrow> lo \<le> hi \<and> hi \<le> 65535)"
proof (intro conjI impI)
  have nd: "CHR ''-'' \<notin> set (dec_str n)" for n using digits_plain(2) [OF dec_str_digits(1)] by blast
  have cut: "cut_at (CHR ''-'') (dec_str a @ ''-'' @ dec_str b) = Some (dec_str a, dec_str b)"
    using cut_at_join [OF nd] by simp
  have len: "length (dec_str n) \<le> 5" if "n \<le> 65535" for n using dec_str_length [of n 5] that by simp
  have small: "(of_nat n > (65535 :: u32)) = (n > 65535)" if "n < 2 ^ 32" for n
    using that by (simp add: word_less_nat_alt unat_of_nat)
  have le: "(of_nat a > (of_nat b :: u32)) = (a > b)" if "a < 2 ^ 32" "b < 2 ^ 32"
    using that by (simp add: word_less_nat_alt unat_of_nat)
  show "caly_parse_port_range (dec_str a @ ''-'' @ dec_str b) =
     (if a \<le> b \<and> b \<le> 65535 then Some (of_nat a, of_nat b) else None)"
    using len [of a] len [of b] small [of a] small [of b] le
    unfolding caly_parse_port_range_def cut by (auto simp: dec_str_trim parse_u32_dec not_less)
  show "caly_parse_port_range (dec_str a) = (if a \<le> 65535 then Some (of_nat a, of_nat a) else None)"
    using len [of a] small [of a] unfolding caly_parse_port_range_def cut_at_none [OF nd]
    by (auto simp: dec_str_trim parse_u32_dec not_less)
  assume "caly_parse_port_range s = Some (lo, hi)"
  then show "lo \<le> hi" "hi \<le> 65535"
    by (auto simp: caly_parse_port_range_def not_less split: if_splits option.splits bind_splits)
qed

text \<open>The documented result of \<open>inet_pton\<close>: 4 or 16 bytes.\<close>

definition pton_lengths :: "pton \<Rightarrow> bool" where
  "pton_lengths pton \<longleftrightarrow> (\<forall>s a. (pton CALY_AF_INET s = Some a \<longrightarrow> length a = 4) \<and>
     (pton CALY_AF_INET6 s = Some a \<longrightarrow> length a = 16))"

text \<open>What a prefix must be to become a key.\<close>

definition cidr_ok :: "caly_cidr \<Rightarrow> bool" where
  "cidr_ok c \<longleftrightarrow> length (cd_addr c) = 16 \<and>
     (case family_bits (cd_family c) of None \<Rightarrow> False | Some n \<Rightarrow> unat (cd_prefixlen c) \<le> n)"

lemma parse_cidr_ok:
  assumes "pton_lengths pton" "caly_parse_cidr pton s = Some c"
  shows "cidr_ok c"
  using assms unfolding caly_parse_cidr_def caly_parse_ip4_def caly_parse_ip6_def
  by (auto simp: cidr_ok_def pton_lengths_def family_bits_def not_less word_le_nat_alt Let_def
      split: if_splits option.splits bind_splits)

text \<open>Prefixes round-trip: the printed address, a slash and the length give back the address
  (zero-padded to sixteen bytes), the family and the length, an address alone the full length, and a
  length beyond the family is refused; every accepted prefix has a canonical key.\<close>

theorem caly_parse_cidr_roundtrip:
  assumes "pton_lengths pton" "pton fam t = Some a" "fam = (if CHR '':'' \<in> set t then CALY_AF_INET6 else CALY_AF_INET)"
    and "CHR ''/'' \<notin> set t" "list_all (\<lambda>c. \<not> isspace c) t" "length t < 48"
    and "bits = (if CHR '':'' \<in> set t then 128 else 32)"
  shows "(n < 2 ^ 32 - 1 \<longrightarrow> length (dec_str n) \<le> 15 \<longrightarrow> caly_parse_cidr pton (t @ ''/'' @ dec_str n) =
           (if n \<le> bits then Some \<lparr>cd_addr = a @ replicate (16 - length a) 0, cd_prefixlen = of_nat n, cd_family = fam\<rparr>
            else None)) \<and>
         caly_parse_cidr pton t =
           Some \<lparr>cd_addr = a @ replicate (16 - length a) 0, cd_prefixlen = of_nat bits, cd_family = fam\<rparr> \<and>
         (\<forall>s c. caly_parse_cidr pton s = Some c \<longrightarrow> caly_cidr_apply_mask c \<noteq> None)"
proof (intro conjI allI impI)
  have cut: "cut_at (CHR ''/'') (t @ ''/'' @ r) = Some (t, r)" for r using cut_at_join [OF assms(4)] by simp
  have tr: "caly_trim t = t"
  proof -
    have "dropWhile isspace t = t" "dropWhile isspace (rev t) = rev t"
      using assms(5) by (auto simp: dropWhile_eq_self_iff list_all_iff hd_rev)
    then show ?thesis by (simp add: caly_trim_def)
  qed
  have la: "length a = (if CHR '':'' \<in> set t then 16 else 4)"
    using assms(1-3) by (auto simp: pton_lengths_def split: if_splits)
  show "caly_parse_cidr pton t =
      Some \<lparr>cd_addr = a @ replicate (16 - length a) 0, cd_prefixlen = of_nat bits, cd_family = fam\<rparr>"
    using assms(2,3,6,7) la unfolding caly_parse_cidr_def cut_at_none [OF assms(4)]
    by (auto simp: tr caly_parse_ip4_def caly_parse_ip6_def Let_def split: if_splits)
  show "caly_parse_cidr pton (t @ ''/'' @ dec_str n) =
     (if n \<le> bits then Some \<lparr>cd_addr = a @ replicate (16 - length a) 0, cd_prefixlen = of_nat n, cd_family = fam\<rparr>
      else None)" if n: "n < 2 ^ 32 - 1" "length (dec_str n) \<le> 15"
  proof -
    have un: "unat (of_nat n :: u32) = n" using n by (simp add: unat_of_nat)
    then have "(of_nat n :: u32) \<noteq> 0xFFFFFFFF" "\<And>m. (of_nat n > (m :: u32)) = (n > unat m)"
      using n(1) by (auto simp: word_less_nat_alt)
    then show ?thesis
      using assms(2,3,6,7) la n unfolding caly_parse_cidr_def cut
      by (auto simp: tr dec_str_trim parse_u32_dec caly_parse_ip4_def caly_parse_ip6_def Let_def split: if_splits)
  qed
  show "caly_cidr_apply_mask c \<noteq> None" if "caly_parse_cidr pton s = Some c" for s c
    using parse_cidr_ok [OF assms(1) that] by (auto simp: cidr_ok_def apply_mask_none split: option.splits)
qed

text \<open>Splitting a list of tokens that were joined by separators gives the tokens, up to the limit.\<close>

lemma str_split_alt:
  "caly_str_split s seps mx =
     (let s = dropWhile (\<lambda>c. c \<in> set seps) s
      in if mx = 0 \<or> s = [] then []
         else takeWhile (\<lambda>c. c \<notin> set seps) s
              # caly_str_split (drop 1 (dropWhile (\<lambda>c. c \<notin> set seps) s)) seps (mx - 1))"
  by (subst caly_str_split.simps) (auto simp: Let_def)

lemma str_split_skip:
  assumes "list_all (\<lambda>c. c \<in> set seps) xs"
  shows "caly_str_split (xs @ r) seps mx = caly_str_split r seps mx"
proof -
  have "dropWhile (\<lambda>c. c \<in> set seps) (xs @ r) = dropWhile (\<lambda>c. c \<in> set seps) r"
    by (rule dropWhile_all_append [OF assms])
  then show ?thesis unfolding str_split_alt [of "xs @ r"] str_split_alt [of r] by simp
qed

lemma str_split_join:
  assumes "\<forall>t \<in> set ts. t \<noteq> [] \<and> set t \<inter> set seps = {}" "set sep \<subseteq> set seps" "sep \<noteq> []"
  shows "caly_str_split (concat (map (\<lambda>t. t @ sep) ts)) seps mx = take mx ts"
  using assms(1)
proof (induction ts arbitrary: mx)
  case Nil
  then show ?case by (subst caly_str_split.simps) simp
next
  case (Cons t ts)
  let ?r = "concat (map (\<lambda>t. t @ sep) ts)"
  obtain c cs where sep: "sep = c # cs" "c \<in> set seps" using assms(2,3) by (cases sep) auto
  have t: "t \<noteq> []" "hd t \<notin> set seps" "\<forall>x \<in> set t. x \<notin> set seps" using Cons.prems by (auto intro: hd_in_set)
  have d: "dropWhile (\<lambda>c. c \<in> set seps) (t @ sep @ ?r) = t @ sep @ ?r"
    using t by (simp add: dropWhile_eq_self_iff)
  have w: "takeWhile (\<lambda>c. c \<notin> set seps) (t @ sep @ ?r) = t" "dropWhile (\<lambda>c. c \<notin> set seps) (t @ sep @ ?r) = sep @ ?r"
    using t sep by (auto simp: takeWhile_append2 dropWhile_append2)
  have "list_all (\<lambda>c. c \<in> set seps) cs" using assms(2) sep(1) by (auto simp: list_all_iff)
  note skip = str_split_skip [OF this, of ?r]
  show ?case
    using Cons t d w sep skip by (subst caly_str_split.simps) (cases mx; simp)
qed

section \<open>Instances\<close>

theorem caly_parse_duration_ns_exact_witness:
  "caly_parse_duration_ns ''1.5 H'' = Some 5400000000000"
  using caly_parse_duration_ns_exact [of "''1''" "''5''" True "'' ''" "''h''" 3600000000000 "''H''"]
  by (simp add: decimal_text_def decimal_value_def frac9_def duration_units_def isdigit_def isspace_def tolower_def
      ccode_def digit_val_def char_of_def bit_0)

lemma dec_str_samples: "dec_str 8 = ''8''" "dec_str 80 = ''80''" "dec_str 443 = ''443''" "dec_str 70000 = ''70000''"
  by (simp_all add: dec_str.simps digit_chr_def char_of_def bit_0)

theorem caly_parse_port_range_exact_witness:
  "caly_parse_port_range ''80-443'' = Some (80, 443) \<and> caly_parse_port_range ''80'' = Some (80, 80) \<and>
   caly_parse_port_range ''80-70000'' = None"
  using caly_parse_port_range_exact [of 80 443 "''80''" 80 80] caly_parse_port_range_exact [of 80 70000]
  by (simp add: dec_str_samples)

definition pton0 :: pton where
  "pton0 fam s = (if fam = CALY_AF_INET \<and> s = ''10.0.0.0'' then Some [10, 0, 0, 0]
     else if fam = CALY_AF_INET6 \<and> s = ''::1'' then Some (replicate 15 0 @ [1]) else None)"

lemma pton0_lengths: "pton_lengths pton0"
  by (auto simp: pton_lengths_def pton0_def split: if_splits)

theorem caly_parse_cidr_roundtrip_witness:
  "caly_parse_cidr pton0 ''10.0.0.0/8'' =
     Some \<lparr>cd_addr = [10, 0, 0, 0] @ replicate 12 0, cd_prefixlen = 8, cd_family = CALY_AF_INET\<rparr>"
  using caly_parse_cidr_roundtrip [of pton0 CALY_AF_INET "''10.0.0.0''" "[10, 0, 0, 0]" 32 8] pton0_lengths
  by (simp add: dec_str_samples pton0_def isspace_def ccode_def)

end
