(* ===== verification/Caly_File.thy ===== *)
theory Caly_File
  imports Caly_Daemon Caly_Util
begin

text \<open>
  The configuration file (\<open>main.c\<close>): lines as \<open>fgets\<close> delivers them, comments and keys, one handler per
  directive, and the pending lists they fill.  A handler returns whether it accepted the value, with the
  daemon's parsing state, which keeps what a refused directive had stored before the refusal.  The
  chain of string comparisons of \<open>caly_cfg_apply\<close> is a table in the order of the source.  Outside are
  \<open>inet_pton\<close> and the outcome of \<open>realloc\<close>; log messages are not modelled.
\<close>

section \<open>Growing arrays and interfaces\<close>

record fenv =
  fe_pton :: pton
  fe_realloc :: "nat \<Rightarrow> bool"

text \<open>The capacities are 0, 16, 32 and so on; the array grows when it is full, to at most a million
  elements.\<close>

definition vec_full :: "nat \<Rightarrow> bool" where
  "vec_full n \<longleftrightarrow> n \<in> set (0 # map (\<lambda>k. 16 * 2 ^ k) [0..<17])"

definition caly_vec_push :: "fenv \<Rightarrow> 'a list \<Rightarrow> 'a \<Rightarrow> 'a list option" where
  "caly_vec_push fe v x =
     (if vec_full (length v) then
        let ncap = (if length v \<noteq> 0 then length v * 2 else 16)
        in if ncap > 2 ^ 20 then None else if \<not> fe_realloc fe ncap then None else Some (v @ [x])
      else Some (v @ [x]))"

abbreviation (input) CALY_MAX_IFACES :: nat where "CALY_MAX_IFACES \<equiv> 32"
abbreviation (input) IF_NAMESIZE :: nat where "IF_NAMESIZE \<equiv> 16"

fun caly_iface_find :: "caly_iface_spec list \<Rightarrow> string \<Rightarrow> nat option" where
  "caly_iface_find [] name = None"
| "caly_iface_find (s # ss) name = (if is_name s = name then Some 0 else map_option Suc (caly_iface_find ss name))"

definition caly_iface_add :: "caly_iface_spec list \<Rightarrow> string \<Rightarrow> (nat \<times> caly_iface_spec list) option" where
  "caly_iface_add ifs name =
     (case caly_iface_find ifs name of Some i \<Rightarrow> Some (i, ifs)
      | None \<Rightarrow>
          if length ifs \<ge> CALY_MAX_IFACES then None
          else if length name \<ge> IF_NAMESIZE then None
          else Some (length ifs, ifs @ [\<lparr>is_name = name, is_zone = CALY_ZONE_UNSPEC, is_flags = 0, is_have_zone = False,
                                          is_attach = True\<rparr>]))"

section \<open>Names of enumerations\<close>

definition caly_zone_from_str :: "string \<Rightarrow> u32" where
  "caly_zone_from_str s =
     (if caly_strcaseeq s ''wan'' then CALY_ZONE_WAN
      else if caly_strcaseeq s ''lan'' then CALY_ZONE_LAN
      else if caly_strcaseeq s ''dmz'' then CALY_ZONE_DMZ else CALY_ZONE_UNSPEC)"

definition caly_mode_from_str :: "string \<Rightarrow> u32 option" where
  "caly_mode_from_str s =
     (if caly_strcaseeq s ''normal'' then Some FW_MODE_NORMAL
      else if caly_strcaseeq s ''elevated'' then Some FW_MODE_ELEVATED
      else if caly_strcaseeq s ''under-attack'' \<or> caly_strcaseeq s ''under_attack'' \<or> caly_strcaseeq s ''attack''
        then Some FW_MODE_UNDER_ATTACK
      else if caly_strcaseeq s ''lockdown'' then Some FW_MODE_LOCKDOWN
      else if caly_strcaseeq s ''monitor-only'' \<or> caly_strcaseeq s ''monitor_only'' \<or> caly_strcaseeq s ''monitor''
        then Some FW_MODE_MONITOR_ONLY
      else None)"

abbreviation (input) CALY_DP_AUTO :: u32 where "CALY_DP_AUTO \<equiv> 0"
abbreviation (input) CALY_DP_XDP_GENERIC :: u32 where "CALY_DP_XDP_GENERIC \<equiv> 2"
abbreviation (input) CALY_DP_TC :: u32 where "CALY_DP_TC \<equiv> 3"
abbreviation (input) CALY_DP_NFTABLES :: u32 where "CALY_DP_NFTABLES \<equiv> 4"
abbreviation (input) CALY_DP_IPTABLES :: u32 where "CALY_DP_IPTABLES \<equiv> 5"

definition caly_dataplane_from_str :: "string \<Rightarrow> u32" where
  "caly_dataplane_from_str s =
     (if caly_strcaseeq s ''auto'' then CALY_DP_AUTO
      else if caly_strcaseeq s ''xdp-native'' \<or> caly_strcaseeq s ''native'' then CALY_DP_XDP_NATIVE
      else if caly_strcaseeq s ''xdp-generic'' \<or> caly_strcaseeq s ''generic'' then CALY_DP_XDP_GENERIC
      else if caly_strcaseeq s ''tc-bpf'' \<or> caly_strcaseeq s ''tc'' then CALY_DP_TC
      else if caly_strcaseeq s ''nftables'' \<or> caly_strcaseeq s ''nft'' then CALY_DP_NFTABLES
      else if caly_strcaseeq s ''iptables'' then CALY_DP_IPTABLES else CALY_DP_AUTO)"

abbreviation (input) CALY_XDP_AUTO :: u32 where "CALY_XDP_AUTO \<equiv> 0"
abbreviation (input) CALY_XDP_NATIVE :: u32 where "CALY_XDP_NATIVE \<equiv> 1"
abbreviation (input) CALY_XDP_GENERIC :: u32 where "CALY_XDP_GENERIC \<equiv> 2"
abbreviation (input) CALY_XDP_OFFLOAD :: u32 where "CALY_XDP_OFFLOAD \<equiv> 3"

definition caly_xdpmode_from_str :: "string \<Rightarrow> u32" where
  "caly_xdpmode_from_str s =
     (if caly_strcaseeq s ''auto'' then CALY_XDP_AUTO
      else if caly_strcaseeq s ''native'' then CALY_XDP_NATIVE
      else if caly_strcaseeq s ''generic'' then CALY_XDP_GENERIC
      else if caly_strcaseeq s ''offload'' then CALY_XDP_OFFLOAD else CALY_XDP_AUTO)"

text \<open>The names of the levels are among the synonyms, so the loop over them finds nothing new.\<close>

definition caly_log_level_from_string :: "string \<Rightarrow> u32 option" where
  "caly_log_level_from_string s =
     (if s = [] then None
      else if caly_strcaseeq s ''err'' \<or> caly_strcaseeq s ''error'' \<or> caly_strcaseeq s ''fatal'' then Some 0
      else if caly_strcaseeq s ''warn'' \<or> caly_strcaseeq s ''warning'' then Some 1
      else if caly_strcaseeq s ''info'' \<or> caly_strcaseeq s ''notice'' then Some CALY_LL_INFO
      else if caly_strcaseeq s ''debug'' then Some 3
      else if caly_strcaseeq s ''trace'' then Some 4
      else case find (\<lambda>(name, _). caly_strcaseeq s name) (zip [''error'', ''warn'', ''info'', ''debug'', ''trace''] [0..<5]) of
             Some (_, i) \<Rightarrow> Some (of_nat i)
           | None \<Rightarrow>
               (case caly_parse_u32 s of Some v \<Rightarrow> if v < CALY_LL_MAX then Some v else None | None \<Rightarrow> None))"

section \<open>Directives\<close>

type_synonym directive = "string \<Rightarrow> parsed_file \<Rightarrow> bool \<times> parsed_file"

definition upd_cfg :: "(fw_config \<Rightarrow> fw_config) \<Rightarrow> parsed_file \<Rightarrow> parsed_file" where
  "upd_cfg f d = d\<lparr>pf_cfg := f (pf_cfg d)\<rparr>"

definition cfg_set :: "(string \<Rightarrow> fw_config \<Rightarrow> fw_config) \<Rightarrow> directive" where
  "cfg_set f val d = (True, upd_cfg (f val) d)"

definition caly_cfg_bool :: "u64 \<Rightarrow> directive" where
  "caly_cfg_bool b val d = (case caly_parse_bool val of None \<Rightarrow> (False, d)
     | Some True \<Rightarrow> (True, upd_cfg (\<lambda>c. c\<lparr>cfg_flags := cfg_flags c OR b\<rparr>) d)
     | Some False \<Rightarrow> (True, upd_cfg (\<lambda>c. c\<lparr>cfg_flags := cfg_flags c AND NOT b\<rparr>) d))"

definition caly_cfg_u32 :: "(u32 \<Rightarrow> fw_config \<Rightarrow> fw_config) \<Rightarrow> directive" where
  "caly_cfg_u32 f val d = (case caly_parse_u32 val of None \<Rightarrow> (False, d) | Some v \<Rightarrow> (True, upd_cfg (f v) d))"

definition caly_cfg_dur_ns :: "(u64 \<Rightarrow> fw_config \<Rightarrow> fw_config) \<Rightarrow> directive" where
  "caly_cfg_dur_ns f val d = (case caly_parse_duration_ns val of None \<Rightarrow> (False, d) | Some v \<Rightarrow> (True, upd_cfg (f v) d))"

definition caly_cfg_dur_ms :: "(u32 \<Rightarrow> fw_config \<Rightarrow> fw_config) \<Rightarrow> directive" where
  "caly_cfg_dur_ms f val d = (case caly_parse_duration_ns val of None \<Rightarrow> (False, d)
     | Some ns \<Rightarrow>
         let ns = ns div CALY_NSEC_PER_MSEC; ns = (if ns > 0xFFFFFFFF then 0xFFFFFFFF else ns)
         in (True, upd_cfg (f (ucast ns)) d))"

definition caly_cfg_rate :: "(u64 \<Rightarrow> fw_config \<Rightarrow> fw_config) \<Rightarrow> directive" where
  "caly_cfg_rate f val d = (case caly_parse_rate val of None \<Rightarrow> (False, d) | Some v \<Rightarrow> (True, upd_cfg (f v) d))"

text \<open>A loop over tokens that returns at the first one refused, with what the tokens before it have
  stored.\<close>

fun each_token :: "(string \<Rightarrow> 'a \<Rightarrow> 'a option) \<Rightarrow> string list \<Rightarrow> 'a \<Rightarrow> bool \<times> 'a" where
  "each_token f [] d = (True, d)"
| "each_token f (t # ts) d = (case f t d of None \<Rightarrow> (False, d) | Some d \<Rightarrow> each_token f ts d)"

abbreviation (input) TAB :: char where "TAB \<equiv> CHR 0x09"

definition caly_cfg_add_cidrs :: "fenv \<Rightarrow> caly_map_id \<Rightarrow> caly_map_id \<Rightarrow> u32 \<Rightarrow> directive" where
  "caly_cfg_add_cidrs fe map4 map6 flags val d =
     each_token (\<lambda>t d. do {
         c \<leftarrow> caly_parse_cidr (fe_pton fe) t;
         cs \<leftarrow> caly_vec_push fe (pf_cidrs d)
                \<lparr>pc_cidr = c, pc_map_id = (if cd_family c = CALY_AF_INET6 then map6 else map4), pc_flags = flags, pc_tag = 0\<rparr>;
         Some (d\<lparr>pf_cidrs := cs\<rparr>) })
       (caly_str_split val ('', '' @ [TAB]) 64) d"

definition caly_cfg_flag_ports :: "fenv \<Rightarrow> bool \<Rightarrow> u32 \<Rightarrow> u32 \<Rightarrow> directive" where
  "caly_cfg_flag_ports fe is_udp set_flags clr_flags val d =
     each_token (\<lambda>t d. do {
         (lo, hi) \<leftarrow> caly_parse_port_range t;
         ps \<leftarrow> caly_vec_push fe (pf_ports d)
                \<lparr>pp_is_udp = is_udp, pp_lo = lo, pp_hi = hi, pp_mode = 0xFFFFFFFF, pp_rate = 0, pp_burst = 0,
                 pp_set_flags = set_flags, pp_clr_flags = clr_flags\<rparr>;
         Some (d\<lparr>pf_ports := ps\<rparr>) })
       (caly_str_split val ('', '' @ [TAB]) 128) d"

text \<open>The mode, the rate and the burst of a port rule, from the tokens after the range.\<close>

definition port_rule_mode :: "string list \<Rightarrow> (u32 \<times> u64 \<times> u64) option" where
  "port_rule_mode tok =
     (let m = tok ! 1 in
      if caly_strcaseeq m ''open'' then Some (CALY_PORT_OPEN, 0, 0)
      else if caly_strcaseeq m ''closed'' \<or> caly_strcaseeq m ''close'' then Some (CALY_PORT_CLOSED, 0, 0)
      else if caly_strcaseeq m ''ratelimit'' \<or> caly_strcaseeq m ''rate'' then do {
        rate \<leftarrow> (if length tok \<ge> 3 then caly_parse_rate (tok ! 2) else Some 0);
        burst \<leftarrow> (if length tok \<ge> 4 then caly_parse_rate (tok ! 3) else Some 0);
        Some (CALY_PORT_RATELIMIT, rate, if burst = 0 then rate * 2 else burst) }
      else None)"

definition caly_cfg_port_rule :: "fenv \<Rightarrow> bool \<Rightarrow> directive" where
  "caly_cfg_port_rule fe is_udp val d =
     (let tok = caly_str_split val ('' '' @ [TAB]) 8 in
      if length tok < 2 then (False, d)
      else case do { (lo, hi) \<leftarrow> caly_parse_port_range (tok ! 0);
                     (m, rate, burst) \<leftarrow> port_rule_mode tok;
                     caly_vec_push fe (pf_ports d)
                       \<lparr>pp_is_udp = is_udp, pp_lo = lo, pp_hi = hi, pp_mode = m, pp_rate = rate, pp_burst = burst,
                        pp_set_flags = 0, pp_clr_flags = 0\<rparr> } of
             None \<Rightarrow> (False, d) | Some ps \<Rightarrow> (True, d\<lparr>pf_ports := ps\<rparr>))"

definition caly_cfg_icmp_rule :: "fenv \<Rightarrow> u32 \<Rightarrow> directive" where
  "caly_cfg_icmp_rule fe family val d =
     (let tok = caly_str_split val ('' '' @ [TAB]) 4 in
      if length tok < 2 then (False, d)
      else case do { type \<leftarrow> caly_parse_u32 (tok ! 0);
                     (if type > 255 then None else Some ());
                     policy \<leftarrow> (if caly_strcaseeq (tok ! 1) ''drop'' then Some CALY_ICMP_DROP
                                else if caly_strcaseeq (tok ! 1) ''pass'' then Some CALY_ICMP_PASS
                                else if caly_strcaseeq (tok ! 1) ''ratelimit'' \<or> caly_strcaseeq (tok ! 1) ''rate''
                                  then Some CALY_ICMP_RATELIMIT
                                else None);
                     (if policy = CALY_ICMP_DROP \<and> caly_icmp_type_is_mandatory family type then None else Some ());
                     caly_vec_push fe (pf_icmps d) \<lparr>pi_family = family, pi_type = type, pi_policy = policy\<rparr> } of
             None \<Rightarrow> (False, d) | Some rs \<Rightarrow> (True, d\<lparr>pf_icmps := rs\<rparr>))"

text \<open>The management list is emptied first; ports beyond the sixteenth are ignored.\<close>

definition set_mgmt :: "bool \<Rightarrow> u16 list \<Rightarrow> u32 \<Rightarrow> fw_config \<Rightarrow> fw_config" where
  "set_mgmt is_udp arr cnt c =
     (if is_udp then c\<lparr>cfg_mgmt_udp_ports := arr, cfg_mgmt_udp_count := cnt\<rparr>
      else c\<lparr>cfg_mgmt_tcp_ports := arr, cfg_mgmt_tcp_count := cnt\<rparr>)"

fun mgmt_tokens :: "string list \<Rightarrow> u16 list \<Rightarrow> u32 \<Rightarrow> bool \<times> u16 list \<times> u32" where
  "mgmt_tokens [] arr cnt = (True, arr, cnt)"
| "mgmt_tokens (t # ts) arr cnt =
     (if unat cnt \<ge> CALY_MGMT_PORTS_MAX then (True, arr, cnt)
      else case caly_parse_u16 t of None \<Rightarrow> (False, arr, cnt)
           | Some p \<Rightarrow> if p = 0 then (False, arr, cnt) else mgmt_tokens ts (arr[unat cnt := p]) (cnt + 1))"

definition caly_cfg_mgmt_ports :: "bool \<Rightarrow> directive" where
  "caly_cfg_mgmt_ports is_udp val d =
     (let tok = caly_str_split val ('', '' @ [TAB]) (CALY_MGMT_PORTS_MAX + 8);
          (ok, arr, cnt) = mgmt_tokens tok (replicate CALY_MGMT_PORTS_MAX 0) 0
      in (ok, upd_cfg (set_mgmt is_udp arr cnt) d))"

definition iface_flag :: "caly_iface_spec \<Rightarrow> string \<Rightarrow> caly_iface_spec" where
  "iface_flag s t =
     (if caly_str_startswith t ''zone='' then
        let s = s\<lparr>is_zone := caly_zone_from_str (drop 5 t), is_have_zone := True\<rparr>
        in if is_zone s = CALY_ZONE_WAN then s\<lparr>is_flags := is_flags s OR CALY_IF_F_WAN\<rparr> else s
      else if t = ''monitor'' then s\<lparr>is_flags := is_flags s OR CALY_IF_F_MONITOR\<rparr>
      else if t = ''disabled'' then s\<lparr>is_flags := is_flags s OR CALY_IF_F_DISABLED\<rparr>
      else if t = ''drop-private'' then s\<lparr>is_flags := is_flags s OR CALY_IF_F_DROP_PRIVATE\<rparr>
      else if t = ''no-ipv6'' then s\<lparr>is_flags := is_flags s OR CALY_IF_F_NO_IPV6\<rparr>
      else if t = ''trust-vlan'' then s\<lparr>is_flags := is_flags s OR CALY_IF_F_TRUST_VLAN\<rparr>
      else s)"

definition caly_cfg_interface :: directive where
  "caly_cfg_interface val d =
     (case caly_str_split val ('' '' @ [TAB]) 8 of [] \<Rightarrow> (False, d)
      | name # flags \<Rightarrow>
          (case caly_iface_add (pf_ifaces d) name of None \<Rightarrow> (False, d)
           | Some (i, ifs) \<Rightarrow> (True, d\<lparr>pf_ifaces := ifs[i := foldl iface_flag (ifs ! i) flags]\<rparr>)))"

text \<open>The directives that \<open>caly_cfg_apply\<close> handles in place.\<close>

definition cfg_mode_key :: directive where
  "cfg_mode_key val d = (case caly_mode_from_str val of None \<Rightarrow> (False, d)
     | Some m \<Rightarrow> (True, upd_cfg (\<lambda>c. c\<lparr>cfg_mode := m\<rparr>) d))"

definition cfg_log_level_key :: directive where
  "cfg_log_level_key val d = (case caly_log_level_from_string val of None \<Rightarrow> (False, d)
     | Some l \<Rightarrow> (True, upd_cfg (\<lambda>c. c\<lparr>cfg_log_level := l\<rparr>) d))"

definition cfg_allow_key :: "fenv \<Rightarrow> directive" where
  "cfg_allow_key fe val d =
     (let f = (if pf_allow_bypass_rate d then CALY_RULE_F_ALLOW OR CALY_RULE_F_BYPASS_RATE else CALY_RULE_F_ALLOW)
      in caly_cfg_add_cidrs fe MID_ALLOW4 MID_ALLOW6 f val d)"

definition cfg_bypass_key :: directive where
  "cfg_bypass_key val d = (case caly_parse_bool val of None \<Rightarrow> (False, d)
     | Some b \<Rightarrow> (True, d\<lparr>pf_allow_bypass_rate := b\<rparr>))"

definition cfg_frag_key :: directive where
  "cfg_frag_key val d = (case caly_parse_size val of None \<Rightarrow> (False, d)
     | Some v \<Rightarrow> (True, upd_cfg (\<lambda>c. c\<lparr>cfg_frag_min_bytes := (if v > 0xFFFFFFFF then 0xFFFFFFFF else ucast v)\<rparr>) d))"

definition cfg_min_ttl_key :: directive where
  "cfg_min_ttl_key val d = (case caly_parse_u32 val of None \<Rightarrow> (False, d)
     | Some v \<Rightarrow> (True, upd_cfg (\<lambda>c. let c = c\<lparr>cfg_ip_min_ttl := v\<rparr>
         in if v > 0 then c\<lparr>cfg_flags := cfg_flags c OR CALY_F_TTL_CHECK\<rparr>
            else c\<lparr>cfg_flags := cfg_flags c AND NOT CALY_F_TTL_CHECK\<rparr>) d))"

section \<open>Keys\<close>

datatype cfg_key =
    KBOOL u64
  | KU32 "u32 \<Rightarrow> fw_config \<Rightarrow> fw_config"
  | KDUR_NS "u64 \<Rightarrow> fw_config \<Rightarrow> fw_config"
  | KDUR_MS "u32 \<Rightarrow> fw_config \<Rightarrow> fw_config"
  | KRATE "u64 \<Rightarrow> fw_config \<Rightarrow> fw_config"
  | KSPEC "fenv \<Rightarrow> directive"

fun run_key :: "fenv \<Rightarrow> cfg_key \<Rightarrow> directive" where
  "run_key fe (KBOOL b) = caly_cfg_bool b"
| "run_key fe (KU32 f) = caly_cfg_u32 f"
| "run_key fe (KDUR_NS f) = caly_cfg_dur_ns f"
| "run_key fe (KDUR_MS f) = caly_cfg_dur_ms f"
| "run_key fe (KRATE f) = caly_cfg_rate f"
| "run_key fe (KSPEC g) = g fe"

definition keys_base :: "(string \<times> cfg_key) list" where
  "keys_base =
     [(''enabled'', KBOOL CALY_F_ENABLED),
      (''monitor_only'', KBOOL CALY_F_MONITOR_ONLY),
      (''mode'', KSPEC (\<lambda>_. cfg_mode_key)),
      (''ipv4'', KBOOL CALY_F_IPV4),
      (''ipv6'', KBOOL CALY_F_IPV6),
      (''log_level'', KSPEC (\<lambda>_. cfg_log_level_key)),
      (''poll_interval'', KDUR_MS (\<lambda>v c. c\<lparr>cfg_poll_interval_ms := v\<rparr>)),
      (''stats_interval'', KDUR_MS (\<lambda>v c. c\<lparr>cfg_stats_interval_ms := v\<rparr>)),
      (''gc_interval'', KDUR_MS (\<lambda>v c. c\<lparr>cfg_gc_interval_ms := v\<rparr>)),
      (''gc_batch'', KU32 (\<lambda>v c. c\<lparr>cfg_gc_batch := v\<rparr>)),
      (''dataplane'', KSPEC (\<lambda>_. cfg_set (\<lambda>v c. c\<lparr>cfg_dataplane_pref := caly_dataplane_from_str v\<rparr>))),
      (''xdp_mode'', KSPEC (\<lambda>_. cfg_set (\<lambda>v c. c\<lparr>cfg_xdp_attach_pref := caly_xdpmode_from_str v\<rparr>))),
      (''event_pages'', KU32 (\<lambda>v c. c\<lparr>cfg_event_pages := v\<rparr>))]"

definition keys_lists :: "(string \<times> cfg_key) list" where
  "keys_lists =
     [(''interface'', KSPEC (\<lambda>_. caly_cfg_interface)),
      (''default_zone'', KSPEC (\<lambda>_. cfg_set (\<lambda>v c. c\<lparr>cfg_default_zone := caly_zone_from_str v\<rparr>))),
      (''mgmt_tcp_ports'', KSPEC (\<lambda>_. caly_cfg_mgmt_ports False)),
      (''mgmt_udp_ports'', KSPEC (\<lambda>_. caly_cfg_mgmt_ports True)),
      (''mgmt_bypass_ratelimit'', KBOOL CALY_F_MGMT_BYPASS_ALL),
      (''allow'', KSPEC cfg_allow_key),
      (''allowlist_bypass_ratelimit'', KSPEC (\<lambda>_. cfg_bypass_key)),
      (''allowlist_enabled'', KBOOL CALY_F_ALLOWLIST),
      (''local'', KSPEC (\<lambda>fe. caly_cfg_add_cidrs fe MID_LOCAL4 MID_LOCAL6 CALY_RULE_F_LOCAL)),
      (''block'', KSPEC (\<lambda>fe. caly_cfg_add_cidrs fe MID_BLOCK4 MID_BLOCK6 CALY_RULE_F_BLOCK)),
      (''blocklist_enabled'', KBOOL CALY_F_BLOCKLIST)]"

definition keys_checks :: "(string \<times> cfg_key) list" where
  "keys_checks =
     [(''anomaly_checks'', KBOOL CALY_F_ANOMALY_CHECKS),
      (''land_check'', KBOOL CALY_F_LAND_CHECK),
      (''bogon_filter'', KBOOL CALY_F_BOGON_FILTER),
      (''wan_drop_private'', KBOOL CALY_F_WAN_DROP_PRIVATE),
      (''tcp_flag_checks'', KBOOL CALY_F_TCP_FLAG_CHECKS),
      (''frag_checks'', KBOOL CALY_F_FRAG_CHECKS),
      (''frag_min_size'', KSPEC (\<lambda>_. cfg_frag_key)),
      (''drop_all_fragments'', KBOOL CALY_F_DROP_ALL_FRAGS),
      (''drop_ip4_options'', KBOOL CALY_F_DROP_IP4_OPTIONS),
      (''drop_ipv6_rh0'', KBOOL CALY_F_DROP_RH0),
      (''min_ttl'', KSPEC (\<lambda>_. cfg_min_ttl_key)),
      (''drop_unknown_ethertype'', KBOOL CALY_F_DROP_UNKNOWN_L3),
      (''vlan_max_depth'', KU32 (\<lambda>v c. c\<lparr>cfg_vlan_max_depth := v\<rparr>)),
      (''ipv6_ext_max'', KU32 (\<lambda>v c. c\<lparr>cfg_ip6_ext_max := v\<rparr>)),
      (''tunnel_max_depth'', KU32 (\<lambda>v c. c\<lparr>cfg_tunnel_max_depth := v\<rparr>)),
      (''vlan_inspect'', KBOOL CALY_F_VLAN_INSPECT),
      (''tunnel_inspect'', KBOOL CALY_F_TUNNEL_INSPECT),
      (''tcp_min_doff'', KU32 (\<lambda>v c. c\<lparr>cfg_tcp_min_doff := v\<rparr>)),
      (''icmp_filter'', KBOOL CALY_F_ICMP_FILTER),
      (''icmp_max_payload'', KU32 (\<lambda>v c. c\<lparr>cfg_icmp_max_payload := v\<rparr>)),
      (''icmp6_max_payload'', KU32 (\<lambda>v c. c\<lparr>cfg_icmp6_max_payload := v\<rparr>)),
      (''icmp4_type'', KSPEC (\<lambda>fe. caly_cfg_icmp_rule fe CALY_AF_INET)),
      (''icmp6_type'', KSPEC (\<lambda>fe. caly_cfg_icmp_rule fe CALY_AF_INET6))]"

definition keys_limits :: "(string \<times> cfg_key) list" where
  "keys_limits =
     [(''ratelimit_enabled'', KBOOL CALY_F_RATE_LIMIT),
      (''rate_pps'', KRATE (\<lambda>v c. c\<lparr>cfg_tb_rate := (cfg_tb_rate c)(TB_PPS := v)\<rparr>)),
      (''rate_pps_burst'', KRATE (\<lambda>v c. c\<lparr>cfg_tb_burst := (cfg_tb_burst c)(TB_PPS := v)\<rparr>)),
      (''rate_bps'', KRATE (\<lambda>v c. c\<lparr>cfg_tb_rate := (cfg_tb_rate c)(TB_BPS := v)\<rparr>)),
      (''rate_bps_burst'', KRATE (\<lambda>v c. c\<lparr>cfg_tb_burst := (cfg_tb_burst c)(TB_BPS := v)\<rparr>)),
      (''rate_syn'', KRATE (\<lambda>v c. c\<lparr>cfg_tb_rate := (cfg_tb_rate c)(TB_SYN := v)\<rparr>)),
      (''rate_syn_burst'', KRATE (\<lambda>v c. c\<lparr>cfg_tb_burst := (cfg_tb_burst c)(TB_SYN := v)\<rparr>)),
      (''rate_udp'', KRATE (\<lambda>v c. c\<lparr>cfg_tb_rate := (cfg_tb_rate c)(TB_UDP := v)\<rparr>)),
      (''rate_udp_burst'', KRATE (\<lambda>v c. c\<lparr>cfg_tb_burst := (cfg_tb_burst c)(TB_UDP := v)\<rparr>)),
      (''rate_icmp'', KRATE (\<lambda>v c. c\<lparr>cfg_tb_rate := (cfg_tb_rate c)(TB_ICMP := v)\<rparr>)),
      (''rate_icmp_burst'', KRATE (\<lambda>v c. c\<lparr>cfg_tb_burst := (cfg_tb_burst c)(TB_ICMP := v)\<rparr>)),
      (''rate_newconn'', KRATE (\<lambda>v c. c\<lparr>cfg_tb_rate := (cfg_tb_rate c)(TB_NEWCONN := v)\<rparr>)),
      (''rate_newconn_burst'', KRATE (\<lambda>v c. c\<lparr>cfg_tb_burst := (cfg_tb_burst c)(TB_NEWCONN := v)\<rparr>)),
      (''max_rate_entries'', KU32 (\<lambda>v c. c\<lparr>cfg_max_rate_entries := v\<rparr>)),
      (''rate_idle_timeout'', KDUR_NS (\<lambda>v c. c\<lparr>cfg_rate_idle_ns := v\<rparr>)),
      (''autoban'', KBOOL CALY_F_AUTOBAN),
      (''strike_limit'', KU32 (\<lambda>v c. c\<lparr>cfg_strike_limit := v\<rparr>)),
      (''strike_window'', KDUR_NS (\<lambda>v c. c\<lparr>cfg_strike_window_ns := v\<rparr>)),
      (''ban_ttl_base'', KDUR_NS (\<lambda>v c. c\<lparr>cfg_ban_ttl_base_ns := v\<rparr>)),
      (''ban_ttl_max'', KDUR_NS (\<lambda>v c. c\<lparr>cfg_ban_ttl_max_ns := v\<rparr>)),
      (''ban_escalate_num'', KU32 (\<lambda>v c. c\<lparr>cfg_ban_escalate_num := v\<rparr>)),
      (''ban_escalate_den'', KU32 (\<lambda>v c. c\<lparr>cfg_ban_escalate_den := v\<rparr>)),
      (''ban_ttl_scan'', KDUR_NS (\<lambda>v c. c\<lparr>cfg_ban_ttl_scan_ns := v\<rparr>)),
      (''ban_ttl_amp'', KDUR_NS (\<lambda>v c. c\<lparr>cfg_ban_ttl_amp_ns := v\<rparr>)),
      (''max_ban_entries'', KU32 (\<lambda>v c. c\<lparr>cfg_max_ban_entries := v\<rparr>)),
      (''max_block_entries'', KU32 (\<lambda>v c. c\<lparr>cfg_max_block_entries := v\<rparr>)),
      (''max_allow_entries'', KU32 (\<lambda>v c. c\<lparr>cfg_max_allow_entries := v\<rparr>)),
      (''max_iface_entries'', KU32 (\<lambda>v c. c\<lparr>cfg_max_iface_entries := v\<rparr>)),
      (''anti_amplification'', KBOOL CALY_F_ANTI_AMPLIFY),
      (''amp_exempt'', KSPEC (\<lambda>fe. caly_cfg_flag_ports fe True 0 CALY_PORT_F_AMPLIFIER)),
      (''amp_extra'', KSPEC (\<lambda>fe. caly_cfg_flag_ports fe True CALY_PORT_F_AMPLIFIER 0))]"

definition keys_flows :: "(string \<times> cfg_key) list" where
  "keys_flows =
     [(''default_deny'', KBOOL CALY_F_DEFAULT_DENY),
      (''port_policy'', KBOOL CALY_F_PORT_POLICY),
      (''tcp_port'', KSPEC (\<lambda>fe. caly_cfg_port_rule fe False)),
      (''udp_port'', KSPEC (\<lambda>fe. caly_cfg_port_rule fe True)),
      (''conntrack'', KBOOL CALY_F_CONNTRACK),
      (''ct_tcp_syn'', KDUR_NS (\<lambda>v c. c\<lparr>cfg_ct_tcp_syn_ns := v\<rparr>)),
      (''ct_tcp_established'', KDUR_NS (\<lambda>v c. c\<lparr>cfg_ct_tcp_est_ns := v\<rparr>)),
      (''ct_tcp_fin'', KDUR_NS (\<lambda>v c. c\<lparr>cfg_ct_tcp_fin_ns := v\<rparr>)),
      (''ct_udp'', KDUR_NS (\<lambda>v c. c\<lparr>cfg_ct_udp_ns := v\<rparr>)),
      (''ct_udp_stream'', KDUR_NS (\<lambda>v c. c\<lparr>cfg_ct_udp_stream_ns := v\<rparr>)),
      (''ct_icmp'', KDUR_NS (\<lambda>v c. c\<lparr>cfg_ct_icmp_ns := v\<rparr>)),
      (''ct_generic'', KDUR_NS (\<lambda>v c. c\<lparr>cfg_ct_generic_ns := v\<rparr>)),
      (''max_conn_entries'', KU32 (\<lambda>v c. c\<lparr>cfg_max_conn_entries := v\<rparr>)),
      (''portscan_detect'', KBOOL CALY_F_PORTSCAN_DETECT),
      (''scan_port_threshold'', KU32 (\<lambda>v c. c\<lparr>cfg_scan_port_threshold := v\<rparr>)),
      (''scan_window'', KDUR_NS (\<lambda>v c. c\<lparr>cfg_scan_window_ns := v\<rparr>)),
      (''max_scan_entries'', KU32 (\<lambda>v c. c\<lparr>cfg_max_scan_entries := v\<rparr>)),
      (''scan_idle_timeout'', KDUR_NS (\<lambda>v c. c\<lparr>cfg_scan_idle_ns := v\<rparr>)),
      (''synproxy'', KBOOL CALY_F_SYNPROXY),
      (''synproxy_port'', KSPEC (\<lambda>fe. caly_cfg_flag_ports fe False CALY_PORT_F_SYNPROXY 0)),
      (''global_syn_pps_high'', KRATE (\<lambda>v c. c\<lparr>cfg_global_syn_pps_hi := v\<rparr>)),
      (''global_syn_pps_low'', KRATE (\<lambda>v c. c\<lparr>cfg_global_syn_pps_lo := v\<rparr>)),
      (''syn_fallback_pps'', KRATE (\<lambda>v c. c\<lparr>cfg_syn_fallback_pps := v\<rparr>)),
      (''global_pps_high'', KRATE (\<lambda>v c. c\<lparr>cfg_global_pps_hi := v\<rparr>)),
      (''global_pps_low'', KRATE (\<lambda>v c. c\<lparr>cfg_global_pps_lo := v\<rparr>)),
      (''global_bps_high'', KRATE (\<lambda>v c. c\<lparr>cfg_global_bps_hi := v\<rparr>)),
      (''global_bps_low'', KRATE (\<lambda>v c. c\<lparr>cfg_global_bps_lo := v\<rparr>)),
      (''global_newconn_pps_high'', KRATE (\<lambda>v c. c\<lparr>cfg_global_newconn_pps_hi := v\<rparr>)),
      (''global_newconn_pps_low'', KRATE (\<lambda>v c. c\<lparr>cfg_global_newconn_pps_lo := v\<rparr>)),
      (''attack_dwell'', KDUR_NS (\<lambda>v c. c\<lparr>cfg_attack_dwell_ns := v\<rparr>)),
      (''lockdown_allow_icmp'', KBOOL CALY_F_LOCKDOWN_ICMP),
      (''log_events'', KBOOL CALY_F_LOG_EVENTS),
      (''log_sample_rate'', KU32 (\<lambda>v c. c\<lparr>cfg_log_sample_rate := v\<rparr>)),
      (''log_max_pps'', KU32 (\<lambda>v c. c\<lparr>cfg_log_max_pps := v\<rparr>)),
      (''src_stats'', KBOOL CALY_F_SRC_STATS),
      (''max_srcstat_entries'', KU32 (\<lambda>v c. c\<lparr>cfg_max_srcstat_entries := v\<rparr>)),
      (''srcstat_idle_timeout'', KDUR_NS (\<lambda>v c. c\<lparr>cfg_srcstat_idle_ns := v\<rparr>))]"

definition cfg_keys :: "(string \<times> cfg_key) list" where
  "cfg_keys = keys_base @ keys_lists @ keys_checks @ keys_limits @ keys_flows"

text \<open>The first key that matches decides; an unknown key is ignored with a warning.\<close>

definition caly_cfg_apply :: "fenv \<Rightarrow> string \<Rightarrow> directive" where
  "caly_cfg_apply fe key val d = (case map_of cfg_keys key of None \<Rightarrow> (True, d) | Some k \<Rightarrow> run_key fe k val d)"

section \<open>The file\<close>

text \<open>\<open>fgets\<close> with a buffer of 2048: a line with its newline, or 2047 characters of a longer one.\<close>

definition fgets_len :: "string \<Rightarrow> nat" where
  "fgets_len s = min 2047 (let n = length (takeWhile (\<lambda>c. c \<noteq> CHR 0x0A) s) in if n < length s then n + 1 else n)"

lemma fgets_len_pos: "s \<noteq> [] \<Longrightarrow> 0 < fgets_len s"
  by (auto simp: fgets_len_def Let_def not_less)

function fgets_lines :: "string \<Rightarrow> string list" where
  "fgets_lines s = (if s = [] then [] else take (fgets_len s) s # fgets_lines (drop (fgets_len s) s))"
  by pat_completeness auto
termination by (relation "measure length") (auto simp: fgets_len_pos)

declare fgets_lines.simps [simp del]

text \<open>One buffer: the C string ends at a zero byte; a comment starts anywhere; section headers and
  lines without an equals sign are skipped.\<close>

definition strip_comment :: "string \<Rightarrow> string" where
  "strip_comment buf =
     (let line = takeWhile (\<lambda>c. c \<noteq> CHR 0x00) buf
      in case cut_at (CHR ''#'') line of None \<Rightarrow> line | Some (l, _) \<Rightarrow> l)"

definition cfg_line :: "string \<Rightarrow> (string \<times> string) option" where
  "cfg_line buf =
     (let s = caly_trim (strip_comment buf)
      in if s = [] \<or> hd s = CHR ''['' then None
         else case cut_at (CHR ''='') s of None \<Rightarrow> None
              | Some (k, v) \<Rightarrow> Some (caly_trim k, caly_trim v))"

definition cfg_step :: "fenv \<Rightarrow> nat \<times> parsed_file \<Rightarrow> string \<Rightarrow> nat \<times> parsed_file" where
  "cfg_step fe st buf =
     (case cfg_line buf of None \<Rightarrow> st
      | Some (key, val) \<Rightarrow>
          let (errors, d) = st; (ok, d) = caly_cfg_apply fe key val d
          in (if ok then errors else errors + 1, d))"

text \<open>The file is \<^term>\<open>None\<close> if it cannot be opened; otherwise the text that could be read and whether a
  read error ended it.\<close>

definition caly_config_parse_file :: "fenv \<Rightarrow> (string \<times> bool) option \<Rightarrow> parsed_file \<Rightarrow> bool \<times> parsed_file" where
  "caly_config_parse_file fe src d =
     (case src of None \<Rightarrow> (False, d)
      | Some (txt, ferr) \<Rightarrow>
          let (errors, d) = foldl (cfg_step fe) (0, d) (fgets_lines txt)
          in (\<not> ferr \<and> errors = 0, d))"

text \<open>What a reload starts from and hands to \<open>caly_reload\<close>.\<close>

definition fresh_file :: parsed_file where
  "fresh_file = \<lparr>pf_cfg = caly_config_defaults, pf_cidrs = [], pf_ports = [], pf_icmps = [], pf_ifaces = [],
     pf_allow_bypass_rate = False\<rparr>"

definition reload_input :: "fenv \<Rightarrow> (string \<times> bool) option \<Rightarrow> parsed_file option" where
  "reload_input fe src = (let (ok, d) = caly_config_parse_file fe src fresh_file in if ok then Some d else None)"

section \<open>What every file yields\<close>

definition pending_cidr_ok :: "caly_pending_cidr \<Rightarrow> bool" where
  "pending_cidr_ok pc \<longleftrightarrow> cidr_ok (pc_cidr pc) \<and>
     pc_map_id pc \<in> (if cd_family (pc_cidr pc) = CALY_AF_INET6 then {MID_ALLOW6, MID_BLOCK6, MID_LOCAL6}
                     else {MID_ALLOW4, MID_BLOCK4, MID_LOCAL4})"

definition pending_port_ok :: "caly_pending_port \<Rightarrow> bool" where
  "pending_port_ok pp \<longleftrightarrow> pp_lo pp \<le> pp_hi pp \<and> pp_hi pp \<le> 65535 \<and> \<not> has_flag (pp_set_flags pp) CALY_PORT_F_PRESENT"

definition pending_icmp_ok :: "caly_pending_icmp \<Rightarrow> bool" where
  "pending_icmp_ok pi \<longleftrightarrow> (pi_family pi = CALY_AF_INET \<or> pi_family pi = CALY_AF_INET6) \<and> pi_type pi \<le> 255 \<and>
     pi_policy pi < CALY_ICMP_POL_MAX \<and>
     \<not> (pi_policy pi = CALY_ICMP_DROP \<and> caly_icmp_type_is_mandatory (pi_family pi) (pi_type pi))"

definition ifaces_ok :: "caly_iface_spec list \<Rightarrow> bool" where
  "ifaces_ok ifs \<longleftrightarrow> length ifs \<le> CALY_MAX_IFACES \<and> distinct (map is_name ifs) \<and>
     list_all (\<lambda>n. length n < IF_NAMESIZE) (map is_name ifs)"

definition file_ok :: "parsed_file \<Rightarrow> bool" where
  "file_ok d \<longleftrightarrow> mgmt_arrays (pf_cfg d) \<and> list_all pending_cidr_ok (pf_cidrs d) \<and> list_all pending_port_ok (pf_ports d) \<and>
     list_all pending_icmp_ok (pf_icmps d) \<and> ifaces_ok (pf_ifaces d)"

lemma file_ok_upd: "mgmt_arrays (f (pf_cfg d)) \<Longrightarrow> file_ok d \<Longrightarrow> file_ok (upd_cfg f d)"
  by (simp add: file_ok_def upd_cfg_def)

lemma vec_push_all: "caly_vec_push fe v x = Some v' \<Longrightarrow> v' = v @ [x]"
  by (auto simp: caly_vec_push_def Let_def split: if_splits)

lemma each_token_inv:
  assumes "\<And>t d d'. P d \<Longrightarrow> f t d = Some d' \<Longrightarrow> P d'" "P d"
  shows "P (snd (each_token f ts d))"
  using assms(2) by (induction ts arbitrary: d) (auto split: option.splits dest: assms(1))

lemma add_cidrs_ok:
  assumes "pton_lengths (fe_pton fe)" "map4 \<in> {MID_ALLOW4, MID_BLOCK4, MID_LOCAL4}"
    "map6 \<in> {MID_ALLOW6, MID_BLOCK6, MID_LOCAL6}" "file_ok d"
  shows "file_ok (snd (caly_cfg_add_cidrs fe map4 map6 flags val d))"
  unfolding caly_cfg_add_cidrs_def using assms(4)
proof (rule each_token_inv [rotated])
  fix t and d d' :: parsed_file
  assume d: "file_ok d" and "do {
         c \<leftarrow> caly_parse_cidr (fe_pton fe) t;
         cs \<leftarrow> caly_vec_push fe (pf_cidrs d)
                \<lparr>pc_cidr = c, pc_map_id = (if cd_family c = CALY_AF_INET6 then map6 else map4), pc_flags = flags, pc_tag = 0\<rparr>;
         Some (d\<lparr>pf_cidrs := cs\<rparr>) } = Some d'"
  then obtain c cs where c: "caly_parse_cidr (fe_pton fe) t = Some c" "d' = d\<lparr>pf_cidrs := cs\<rparr>"
    "cs = pf_cidrs d @ [\<lparr>pc_cidr = c, pc_map_id = (if cd_family c = CALY_AF_INET6 then map6 else map4),
                         pc_flags = flags, pc_tag = 0\<rparr>]"
    by (auto split: bind_splits dest: vec_push_all)
  then show "file_ok d'"
    using d parse_cidr_ok [OF assms(1) c(1)] assms(2,3) by (auto simp: file_ok_def pending_cidr_ok_def)
qed

lemma port_range_ok: "caly_parse_port_range s = Some (lo, hi) \<Longrightarrow> lo \<le> hi \<and> hi \<le> 65535"
  by (auto simp: caly_parse_port_range_def not_less split: if_splits option.splits bind_splits)

lemma flag_ports_ok:
  assumes "\<not> has_flag set_flags CALY_PORT_F_PRESENT" "file_ok d"
  shows "file_ok (snd (caly_cfg_flag_ports fe u set_flags clr val d))"
  unfolding caly_cfg_flag_ports_def using assms(2)
  by (rule each_token_inv [rotated])
    (use assms(1) in \<open>auto simp: file_ok_def pending_port_ok_def dest!: vec_push_all port_range_ok split: bind_splits prod.splits\<close>)

lemma cfg_port_rule_ok: "file_ok d \<Longrightarrow> file_ok (snd (caly_cfg_port_rule fe u val d))"
  by (auto simp: caly_cfg_port_rule_def Let_def file_ok_def pending_port_ok_def
      dest!: vec_push_all port_range_ok split: option.splits bind_splits prod.splits)

lemma icmp_rule_ok:
  "family = CALY_AF_INET \<or> family = CALY_AF_INET6 \<Longrightarrow> file_ok d \<Longrightarrow> file_ok (snd (caly_cfg_icmp_rule fe family val d))"
  unfolding caly_cfg_icmp_rule_def Let_def
  by (auto simp: file_ok_def pending_icmp_ok_def not_less dest!: vec_push_all
      split: option.splits bind_splits if_splits)

lemma mgmt_tokens_length: "length (fst (snd (mgmt_tokens ts arr cnt))) = length arr"
  by (induction ts arr cnt rule: mgmt_tokens.induct) (auto split: option.splits)

lemma mgmt_ports_ok: "file_ok d \<Longrightarrow> file_ok (snd (caly_cfg_mgmt_ports u val d))"
  using mgmt_tokens_length [of "caly_str_split val ('', '' @ [TAB]) 24" "replicate 16 0" 0]
  unfolding caly_cfg_mgmt_ports_def Let_def
  by (auto simp: split_beta file_ok_def upd_cfg_def set_mgmt_def mgmt_arrays_def)

lemma iface_find_Some: "caly_iface_find ifs name = Some i \<Longrightarrow> i < length ifs \<and> is_name (ifs ! i) = name"
  by (induction ifs arbitrary: i) (auto split: if_splits)

lemma iface_find_None: "caly_iface_find ifs name = None \<Longrightarrow> name \<notin> is_name ` set ifs"
  by (induction ifs) (auto split: if_splits)

lemma iface_flag_name [simp]: "is_name (foldl iface_flag s fs) = is_name s"
  by (induction fs arbitrary: s) (auto simp: iface_flag_def Let_def)

lemma ifaces_ok_upd: "ifaces_ok ifs \<Longrightarrow> i < length ifs \<Longrightarrow> is_name s = is_name (ifs ! i) \<Longrightarrow> ifaces_ok (ifs[i := s])"
proof -
  assume a: "ifaces_ok ifs" "i < length ifs" "is_name s = is_name (ifs ! i)"
  then have "map is_name (ifs[i := s]) = map is_name ifs" by (simp add: map_update list_update_same_conv)
  then show ?thesis using a(1) unfolding ifaces_ok_def by simp
qed

lemma interface_ok: "file_ok d \<Longrightarrow> file_ok (snd (caly_cfg_interface val d))"
proof (cases "caly_str_split val ('' '' @ [TAB]) 8")
  case (Cons name flags)
  assume d: "file_ok d"
  show ?thesis
  proof (cases "caly_iface_add (pf_ifaces d) name")
    case (Some a)
    obtain i ifs where a: "a = (i, ifs)" by (cases a)
    have "ifaces_ok ifs \<and> i < length ifs"
      using Some a d iface_find_Some iface_find_None unfolding caly_iface_add_def file_ok_def ifaces_ok_def
      by (fastforce split: option.splits if_splits)
    then show ?thesis using Some Cons a d by (simp add: caly_cfg_interface_def file_ok_def ifaces_ok_upd)
  qed (use Cons d in \<open>simp add: caly_cfg_interface_def\<close>)
qed (simp add: caly_cfg_interface_def)

text \<open>Every entry of the table keeps the invariant, whatever the value and whether or not it is accepted.\<close>

definition key_ok :: "cfg_key \<Rightarrow> bool" where
  "key_ok k \<longleftrightarrow> (\<forall>fe val d. pton_lengths (fe_pton fe) \<longrightarrow> file_ok d \<longrightarrow> file_ok (snd (run_key fe k val d)))"

lemma key_ok_plain:
  "key_ok (KBOOL b)"
  "(\<And>v c. mgmt_arrays (f v c) = mgmt_arrays c) \<Longrightarrow> key_ok (KU32 f)"
  "(\<And>v c. mgmt_arrays (f v c) = mgmt_arrays c) \<Longrightarrow> key_ok (KDUR_MS f)"
  "(\<And>v c. mgmt_arrays (g v c) = mgmt_arrays c) \<Longrightarrow> key_ok (KDUR_NS g)"
  "(\<And>v c. mgmt_arrays (g v c) = mgmt_arrays c) \<Longrightarrow> key_ok (KRATE g)"
  "(\<And>v c. mgmt_arrays (h v c) = mgmt_arrays c) \<Longrightarrow> key_ok (KSPEC (\<lambda>_. cfg_set h))"
  by (auto simp: key_ok_def caly_cfg_bool_def caly_cfg_u32_def caly_cfg_dur_ms_def caly_cfg_dur_ns_def caly_cfg_rate_def
      cfg_set_def Let_def mgmt_arrays_def file_ok_def upd_cfg_def split: option.splits bool.splits)

lemma key_ok_spec:
  "key_ok (KSPEC (\<lambda>_. cfg_mode_key))" "key_ok (KSPEC (\<lambda>_. cfg_log_level_key))" "key_ok (KSPEC (\<lambda>_. cfg_bypass_key))"
  "key_ok (KSPEC (\<lambda>_. cfg_frag_key))" "key_ok (KSPEC (\<lambda>_. cfg_min_ttl_key))"
  by (auto simp: key_ok_def cfg_mode_key_def cfg_log_level_key_def cfg_bypass_key_def cfg_frag_key_def cfg_min_ttl_key_def
      Let_def mgmt_arrays_def file_ok_def upd_cfg_def split: option.splits)

lemma key_ok_rule:
  "key_ok (KSPEC (\<lambda>_. caly_cfg_interface))" "key_ok (KSPEC (\<lambda>_. caly_cfg_mgmt_ports u))"
  "key_ok (KSPEC (\<lambda>fe. caly_cfg_port_rule fe u))"
  "key_ok (KSPEC (\<lambda>fe. caly_cfg_icmp_rule fe CALY_AF_INET))" "key_ok (KSPEC (\<lambda>fe. caly_cfg_icmp_rule fe CALY_AF_INET6))"
  by (simp_all add: key_ok_def interface_ok mgmt_ports_ok cfg_port_rule_ok icmp_rule_ok)

lemma key_ok_lists:
  "key_ok (KSPEC cfg_allow_key)"
  "key_ok (KSPEC (\<lambda>fe. caly_cfg_add_cidrs fe MID_LOCAL4 MID_LOCAL6 fl))"
  "key_ok (KSPEC (\<lambda>fe. caly_cfg_add_cidrs fe MID_BLOCK4 MID_BLOCK6 fl))"
  "\<not> has_flag sf CALY_PORT_F_PRESENT \<Longrightarrow> key_ok (KSPEC (\<lambda>fe. caly_cfg_flag_ports fe u sf cf))"
  by (auto simp: key_ok_def cfg_allow_key_def Let_def add_cidrs_ok flag_ports_ok)

lemmas key_ok_rules = key_ok_plain key_ok_spec key_ok_rule key_ok_lists

lemma cfg_keys_ok: "list_all (\<lambda>(_, k). key_ok k) cfg_keys"
  unfolding cfg_keys_def keys_base_def keys_lists_def keys_checks_def keys_limits_def keys_flows_def
  by (simp add: key_ok_rules mgmt_arrays_def has_flag_def)

lemma cfg_apply_ok:
  assumes "pton_lengths (fe_pton fe)" "file_ok d"
  shows "file_ok (snd (caly_cfg_apply fe key val d))"
proof (cases "map_of cfg_keys key")
  case (Some k)
  then have "key_ok k" using cfg_keys_ok map_of_SomeD [OF Some] by (auto simp: list_all_iff)
  then show ?thesis using Some assms by (simp add: caly_cfg_apply_def key_ok_def)
qed (use assms in \<open>simp add: caly_cfg_apply_def\<close>)

lemma parse_lines_ok:
  assumes "pton_lengths (fe_pton fe)" "file_ok d"
  shows "file_ok (snd (foldl (cfg_step fe) (n, d) bufs))"
  using assms(2)
proof (induction bufs arbitrary: n d)
  case (Cons b bufs)
  have "file_ok (snd (cfg_step fe (n, d) b))"
    using cfg_apply_ok [OF assms(1) Cons.prems] Cons.prems by (auto simp: cfg_step_def Let_def split_beta split: option.splits)
  then show ?case using Cons.IH [of "snd (cfg_step fe (n, d) b)" "fst (cfg_step fe (n, d) b)"] by simp
qed simp

lemma fresh_file_ok: "file_ok fresh_file"
  by (simp add: file_ok_def fresh_file_def mgmt_arrays_def caly_config_defaults_def ifaces_ok_def)

lemma parse_file_ok:
  assumes "pton_lengths (fe_pton fe)" "file_ok d"
  shows "file_ok (snd (caly_config_parse_file fe src d))"
  using parse_lines_ok [OF assms, of 0] assms(2)
  by (auto simp: caly_config_parse_file_def Let_def split_beta split: option.splits prod.splits)

lemma reload_input_ok: "pton_lengths (fe_pton fe) \<Longrightarrow> reload_input fe src = Some f \<Longrightarrow> file_ok f"
  using parse_file_ok [OF _ fresh_file_ok, where fe = fe and src = src] by (auto simp: reload_input_def split_beta split: if_splits)

text \<open>C19. Whatever bytes the configuration file holds, what the daemon keeps of it is well formed: the
  management arrays have their sixteen slots, every prefix fits its family and goes to a list of that
  family, every port range lies inside the port tables, no ICMP rule drops a mandatory type, and there
  are at most 32 interfaces with distinct names that fit the kernel's limit; a reload from any file
  therefore leads from a reachable state of the daemon to a reachable state.\<close>

theorem any_file_is_safe:
  assumes "pton_lengths (fe_pton fe)" "caly_config_parse_file fe src fresh_file = (ok, f)"
  shows "file_ok f \<and> (running d \<longrightarrow> running (snd (caly_reload w (reload_input fe src) d)))"
proof -
  have "mgmt_arrays (pf_cfg f)" if "reload_input fe src = Some f" for f
    using reload_input_ok [OF assms(1) that] by (simp add: file_ok_def)
  then have "dstep d (snd (caly_reload w (reload_input fe src) d))" by (rule dstep.reload)
  then show ?thesis
    using parse_file_ok [OF assms(1) fresh_file_ok, where src = src] assms(2) running.step by auto
qed

text \<open>C20. No configuration file can drop the ICMP types that path-MTU discovery and neighbour discovery
  need: after seeding and after everything in an accepted file has been applied, whichever parts of it
  failed, each mandatory type is present in its map and not set to drop; the types are those the data
  plane itself never filters.\<close>

theorem no_file_closes_mandatory_icmp:
  assumes "pton_lengths (fe_pton fe)" "reload_input fe src = Some f"
    and "array_lookups sy" "caly_bpf_seed_maps sy feat cfg s = (None, s1)"
    and "caly_apply_pending sy ifindex (pf_cidrs f) (pf_ports f) (pf_icmps f) (pf_ifaces f) s1 = (ok, s2)"
  shows "mandatory_open s2 \<and>
         (\<forall>v4 t. caly_icmp_type_is_mandatory (if v4 then CALY_AF_INET else CALY_AF_INET6) t = icmp_mandatory v4 t)"
proof (rule mandatory_icmp_stays_open [OF assms(3,4) _ assms(5)])
  show "\<forall>pi \<in> set (pf_icmps f). pi_family pi = CALY_AF_INET \<or> pi_family pi = CALY_AF_INET6"
    using reload_input_ok [OF assms(1,2)] by (auto simp: file_ok_def list_all_iff pending_icmp_ok_def)
qed


section \<open>Text of settings\<close>

abbreviation (input) NL :: char where "NL \<equiv> CHR 0x0A"

text \<open>A setting as an editor writes it, with a comment or without.\<close>

definition setting_text :: "string \<times> string \<times> string \<Rightarrow> string" where
  "setting_text s = (case s of (k, v, cm) \<Rightarrow> k @ '' = '' @ v @ cm @ [NL])"

definition plain_text :: "string \<Rightarrow> bool" where
  "plain_text s \<longleftrightarrow> caly_trim s = s \<and> set s \<inter> {CHR ''#'', NL, CHR 0x00} = {}"

definition setting_ok :: "string \<times> string \<times> string \<Rightarrow> bool" where
  "setting_ok s = (case s of (k, v, cm) \<Rightarrow>
     k \<noteq> [] \<and> plain_text k \<and> plain_text v \<and> CHR ''='' \<notin> set k \<and> hd k \<noteq> CHR ''['' \<and>
     (cm = [] \<or> hd cm = CHR ''#'') \<and> NL \<notin> set cm \<and> length (setting_text s) \<le> 2047)"

lemma trim_pad:
  assumes "list_all isspace a" "list_all isspace b" "m \<noteq> [] \<longrightarrow> \<not> isspace (hd m) \<and> \<not> isspace (last m)"
  shows "caly_trim (a @ m @ b) = m"
proof (cases "m = []")
  case True
  then have e: "dropWhile isspace (a @ m @ b) = []" using assms(1,2) by (auto simp: list_all_iff)
  show ?thesis using True unfolding caly_trim_def e by simp
next
  case False
  then have "dropWhile isspace (a @ m @ b) = m @ b"
    using assms(1,3) by (cases m) (simp_all add: dropWhile_all_append)
  moreover have "dropWhile isspace (rev b @ rev m) = rev m"
    using False assms(2,3) by (cases m rule: rev_cases) (simp_all add: dropWhile_all_append)
  ultimately show ?thesis by (simp add: caly_trim_def)
qed

lemma trimmed_ends: "caly_trim s = s \<Longrightarrow> s \<noteq> [] \<Longrightarrow> \<not> isspace (hd s) \<and> \<not> isspace (last s)"
proof -
  assume t: "caly_trim s = s" "s \<noteq> []"
  let ?d = "dropWhile isspace s"
  have "length (dropWhile isspace (rev ?d)) \<le> length ?d" by (metis length_dropWhile_le length_rev)
  moreover have "length ?d \<le> length s" by (rule length_dropWhile_le)
  moreover have l: "length (dropWhile isspace (rev ?d)) = length s" using t(1) by (metis caly_trim_def length_rev)
  ultimately have "length ?d = length s" by simp
  then have d: "?d = s" by (metis append_eq_conv_conj drop0 dropWhile_eq_drop length_takeWhile_le takeWhile_dropWhile_id append_Nil diff_self_eq_0 length_append add_cancel_left_left length_0_conv)
  then have "rev s = dropWhile isspace (rev s)" using t(1) by (metis caly_trim_def rev_rev_ident)
  then show ?thesis using d t(2) by (metis dropWhile_eq_self_iff hd_rev rev_is_Nil_conv)
qed

lemma cut_hash:
  assumes "CHR ''#'' \<notin> set s" "CHR 0x00 \<notin> set s" "cm = [] \<or> hd cm = CHR ''#''"
  obtains w where "list_all isspace w" "strip_comment (s @ cm @ [NL]) = s @ w"
proof -
  have tw: "takeWhile (\<lambda>c. c \<noteq> CHR 0x00) (s @ cm @ [NL]) = s @ takeWhile (\<lambda>c. c \<noteq> CHR 0x00) (cm @ [NL])"
    using assms(2) by (intro takeWhile_append2) auto
  show ?thesis
  proof (cases cm)
    case Nil
    then show ?thesis using that [of "[NL]"] tw assms(1) by (simp add: strip_comment_def Let_def cut_at_def isspace_def ccode_def)
  next
    case (Cons c cs)
    then have "takeWhile (\<lambda>c. c \<noteq> CHR 0x00) (s @ cm @ [NL]) =
        s @ [CHR ''#''] @ takeWhile (\<lambda>c. c \<noteq> CHR 0x00) (cs @ [NL])"
      using tw assms(3) by simp
    then show ?thesis using that [of "[]"] cut_at_join [OF assms(1)] by (simp add: strip_comment_def Let_def)
  qed
qed

lemma setting_line: "setting_ok (k, v, cm) \<Longrightarrow> cfg_line (setting_text (k, v, cm)) = Some (k, v)"
proof -
  assume "setting_ok (k, v, cm)"
  then have k: "k \<noteq> []" "caly_trim k = k" "CHR ''='' \<notin> set k" "hd k \<noteq> CHR ''[''" "caly_trim v = v"
    and c: "CHR ''#'' \<notin> set (k @ '' = '' @ v)" "CHR 0x00 \<notin> set (k @ '' = '' @ v)" "cm = [] \<or> hd cm = CHR ''#''"
    by (auto simp: setting_ok_def plain_text_def)
  have ends: "\<not> isspace (hd k)" "\<not> isspace (last k)" "v \<noteq> [] \<Longrightarrow> \<not> isspace (hd v) \<and> \<not> isspace (last v)"
    using trimmed_ends k by blast+
  have sp: "isspace (CHR '' '')" "\<not> isspace (CHR ''='')" by (simp_all add: isspace_def ccode_def)
  obtain w where w: "list_all isspace w" "strip_comment ((k @ '' = '' @ v) @ cm @ [NL]) = (k @ '' = '' @ v) @ w"
    using cut_hash [OF c] by metis
  define m where "m = (if v = [] then k @ '' ='' else k @ '' = '' @ v)"
  have "caly_trim ((k @ '' = '' @ v) @ w) = m"
  proof (cases "v = []")
    case True
    then show ?thesis using trim_pad [of "[]" "'' '' @ w" m] k(1) ends w(1) sp by (simp add: m_def)
  next
    case False
    then show ?thesis using trim_pad [of "[]" w m] k(1) ends w(1) by (simp add: m_def)
  qed
  moreover have "cut_at (CHR ''='') m = Some (k @ '' '', if v = [] then [] else '' '' @ v)"
    using cut_at_join [of "CHR ''=''" "k @ '' ''"] k(3) by (simp add: m_def)
  moreover have "m \<noteq> []" "hd m \<noteq> CHR ''[''" using k by (auto simp: m_def)
  moreover have "caly_trim (k @ '' '') = k" using trim_pad [of "[]" "'' ''" k] k(1) ends sp by simp
  moreover have "caly_trim (if v = [] then [] else '' '' @ v) = v"
    using trim_pad [of "'' ''" "[]" v] k(5) ends(3) sp by (auto simp: caly_trim_def)
  ultimately show ?thesis
    using w(2) unfolding cfg_line_def Let_def setting_text_def by simp
qed

lemma fgets_line_first:
  assumes "NL \<notin> set l" "length l < 2047"
  shows "fgets_lines (l @ [NL] @ r) = (l @ [NL]) # fgets_lines r"
proof -
  have "takeWhile (\<lambda>c. c \<noteq> NL) (l @ [NL] @ r) = l"
    using assms(1) by (subst takeWhile_append2) auto
  then have "fgets_len (l @ [NL] @ r) = length (l @ [NL])" using assms(2) by (simp add: fgets_len_def)
  then show ?thesis by (subst fgets_lines.simps) simp
qed

lemma fgets_settings: "list_all setting_ok ss \<Longrightarrow> fgets_lines (concat (map setting_text ss)) = map setting_text ss"
proof (induction ss)
  case (Cons s ss)
  obtain k v cm where s: "s = (k, v, cm)" by (cases s)
  let ?l = "k @ '' = '' @ v @ cm"
  have "NL \<notin> set ?l" "length ?l < 2047"
    using Cons.prems by (auto simp: s setting_ok_def setting_text_def plain_text_def)
  from fgets_line_first [OF this] show ?case using Cons by (simp add: s setting_text_def)
qed (simp add: fgets_lines.simps)

lemma settings_parsed:
  assumes "list_all setting_ok ss"
  shows "caly_config_parse_file fe (Some (concat (map setting_text ss), False)) d =
           (let (errors, d') = foldl (\<lambda>(n, d) (k, v, cm). let (ok, d) = caly_cfg_apply fe k v d
                                                      in (if ok then n else n + 1, d)) (0 :: nat, d) ss
            in (errors = 0, d'))"
proof -
  have "foldl (cfg_step fe) st (map setting_text ss) =
      foldl (\<lambda>(n, d) (k, v, cm). let (ok, d) = caly_cfg_apply fe k v d in (if ok then n else n + 1, d)) st ss" for st
    using assms by (induction ss arbitrary: st) (auto simp: cfg_step_def setting_line split_beta)
  then show ?thesis by (simp add: caly_config_parse_file_def fgets_settings [OF assms])
qed

text \<open>C27. The file reader gives the directives exactly the settings that were written: a text of lines
  \<open>key = value\<close>, each optionally followed by a comment, is read back as those pairs in that order,
  values with inner blanks or an equals sign included, and is accepted if and only if every directive
  accepts its value.\<close>

theorem config_text_roundtrip:
  assumes "list_all setting_ok ss"
  shows "caly_config_parse_file fe (Some (concat (map setting_text ss), False)) d =
           (let (errors, d') = foldl (\<lambda>(n, d) (k, v, cm). let (ok, d) = caly_cfg_apply fe k v d
                                                      in (if ok then n else n + 1, d)) (0 :: nat, d) ss
            in (errors = 0, d'))"
  using assms by (rule settings_parsed)

text \<open>The keys are distinct, so the order of the comparisons does not matter.\<close>

lemma cfg_keys_distinct: "distinct (map fst cfg_keys)"
  unfolding cfg_keys_def keys_base_def keys_lists_def keys_checks_def keys_limits_def keys_flows_def by simp

text \<open>A prefix list keeps its first 64 entries: the others are dropped without a word.\<close>

lemma each_token_growth:
  assumes "\<And>t d d'. f t d = Some d' \<Longrightarrow> m d' = Suc (m d)"
  shows "m (snd (each_token f ts d)) \<le> m d + length ts"
proof (induction ts arbitrary: d)
  case (Cons t ts)
  show ?case
  proof (cases "f t d")
    case (Some d')
    then show ?thesis using Cons [of d'] assms [OF Some] by simp
  qed simp
qed simp

lemma str_split_length: "length (caly_str_split s seps mx) \<le> mx"
proof (induction mx arbitrary: s)
  case 0
  then show ?case by (subst caly_str_split.simps) simp
next
  case (Suc mx)
  then show ?case by (subst caly_str_split.simps) (auto simp: Let_def)
qed

lemma list_directive_truncates:
  "length (pf_cidrs (snd (caly_cfg_add_cidrs fe m4 m6 fl val d))) \<le> length (pf_cidrs d) + 64"
proof -
  let ?ts = "caly_str_split val ('', '' @ [TAB]) 64"
  have "length (pf_cidrs (snd (caly_cfg_add_cidrs fe m4 m6 fl val d))) \<le> length (pf_cidrs d) + length ?ts"
    unfolding caly_cfg_add_cidrs_def
    by (rule each_token_growth [where m = "\<lambda>d. length (pf_cidrs d)"]) (auto split: bind_splits dest!: vec_push_all)
  then show ?thesis using str_split_length [of val "'', '' @ [TAB]" 64] by linarith
qed

section \<open>Instances\<close>

definition fe0 :: fenv where
  "fe0 = \<lparr>fe_pton = pton0, fe_realloc = (\<lambda>_. True)\<rparr>"

definition settings0 :: "(string \<times> string \<times> string) list" where
  "settings0 = [(''allow'', ''10.0.0.0/8'', []), (''allowlist_bypass_ratelimit'', ''yes'', ''# too late''),
                (''tcp_port'', ''443 open'', []), (''icmp4_type'', ''3 pass'', [])]"

definition file0 :: "string" where
  "file0 = concat (map setting_text settings0)"

lemma settings0_ok: "list_all setting_ok settings0"
  by (simp add: settings0_def setting_ok_def plain_text_def setting_text_def caly_trim_def isspace_def ccode_def)

lemma keys0:
  "map_of cfg_keys ''allow'' = Some (KSPEC cfg_allow_key)"
  "map_of cfg_keys ''allowlist_bypass_ratelimit'' = Some (KSPEC (\<lambda>_. cfg_bypass_key))"
  "map_of cfg_keys ''tcp_port'' = Some (KSPEC (\<lambda>fe. caly_cfg_port_rule fe False))"
  "map_of cfg_keys ''icmp4_type'' = Some (KSPEC (\<lambda>fe. caly_cfg_icmp_rule fe CALY_AF_INET))"
  unfolding cfg_keys_def keys_base_def keys_lists_def keys_checks_def keys_limits_def keys_flows_def by simp_all

definition f0 :: parsed_file where
  "f0 = fresh_file\<lparr>
     pf_cidrs := [\<lparr>pc_cidr = \<lparr>cd_addr = [10, 0, 0, 0] @ replicate 12 0, cd_prefixlen = 8, cd_family = CALY_AF_INET\<rparr>,
                   pc_map_id = MID_ALLOW4, pc_flags = CALY_RULE_F_ALLOW, pc_tag = 0\<rparr>],
     pf_allow_bypass_rate := True, pf_ports := [https_rule],
     pf_icmps := [\<lparr>pi_family = CALY_AF_INET, pi_type = 3, pi_policy = CALY_ICMP_PASS\<rparr>]\<rparr>"

lemmas char_evals = isspace_def isdigit_def tolower_def ccode_def digit_val_def char_of_def bit_0
lemmas text_evals = caly_str_split.simps cut_at_def caly_trim_def caly_parse_u32_def caly_parse_u64_def strtoull_def
  digit_run_def num_val_def Let_def

lemma values0:
  "caly_str_split ''10.0.0.0/8'' [CHR '','', CHR '' '', TAB] 64 = [''10.0.0.0/8'']"
  "caly_str_split ''443 open'' [CHR '' '', TAB] 8 = [''443'', ''open'']"
  "caly_str_split ''3 pass'' [CHR '' '', TAB] 4 = [''3'', ''pass'']"
  "caly_parse_u32 ''8'' = Some 8" "caly_parse_u32 ''3'' = Some 3" "caly_parse_u32 ''443'' = Some 443"
  by (simp_all add: text_evals char_evals)

lemma parsed0:
  "caly_parse_cidr pton0 ''10.0.0.0/8'' =
     Some \<lparr>cd_addr = [10, 0, 0, 0] @ replicate 12 0, cd_prefixlen = 8, cd_family = CALY_AF_INET\<rparr>"
  "caly_parse_port_range ''443'' = Some (443, 443)"
  by (simp_all add: caly_parse_cidr_def caly_parse_port_range_def cut_at_def caly_trim_def values0 pton0_def
      caly_parse_ip4_def isspace_def ccode_def Let_def)

lemma file0_parsed: "reload_input fe0 (Some (file0, False)) = Some f0"
proof -
  have p: "caly_vec_push fe0 [] x = Some [x]" for x :: 'a by (simp add: caly_vec_push_def fe0_def)
  have e: "fe_pton fe0 = pton0" by (simp add: fe0_def)
  have "caly_cfg_apply fe0 ''allow'' ''10.0.0.0/8'' fresh_file =
      (True, fresh_file\<lparr>pf_cidrs := pf_cidrs f0\<rparr>)"
    by (simp add: caly_cfg_apply_def keys0 cfg_allow_key_def caly_cfg_add_cidrs_def values0 parsed0 e p f0_def fresh_file_def)
  moreover have "caly_cfg_apply fe0 ''allowlist_bypass_ratelimit'' ''yes'' d = (True, d\<lparr>pf_allow_bypass_rate := True\<rparr>)" for d
    by (simp add: caly_cfg_apply_def keys0 cfg_bypass_key_def caly_parse_bool_def char_evals)
  moreover have "caly_cfg_apply fe0 ''tcp_port'' ''443 open'' d = (True, d\<lparr>pf_ports := [https_rule]\<rparr>)"
    if "pf_ports d = []" for d
    using that by (simp add: caly_cfg_apply_def keys0 caly_cfg_port_rule_def values0 parsed0 port_rule_mode_def p https_rule_def
        tolower_def)
  moreover have "caly_cfg_apply fe0 ''icmp4_type'' ''3 pass'' d = (True, d\<lparr>pf_icmps := pf_icmps f0\<rparr>)" if "pf_icmps d = []" for d
    using that by (simp add: caly_cfg_apply_def keys0 caly_cfg_icmp_rule_def values0 p f0_def tolower_def ccode_def)
  ultimately show ?thesis
    unfolding reload_input_def file0_def settings_parsed [OF settings0_ok]
    by (simp add: settings0_def f0_def fresh_file_def)
qed

lemma fe0_lengths: "pton_lengths (fe_pton fe0)"
  by (simp add: fe0_def pton0_lengths)

theorem any_file_is_safe_witness:
  "file_ok f0 \<and> running (snd (caly_reload w0 (Some f0) d1))"
proof -
  have "caly_config_parse_file fe0 (Some (file0, False)) fresh_file = (True, f0)"
    using file0_parsed by (auto simp: reload_input_def split_beta prod_eq_iff split: if_splits)
  from any_file_is_safe [OF fe0_lengths this, of d1 w0] show ?thesis using d1_running by (simp add: file0_parsed)
qed

theorem no_file_closes_mandatory_icmp_witness:
  "mandatory_open (snd (caly_apply_pending sy0 (\<lambda>_. 0) (pf_cidrs f0) (pf_ports f0) (pf_icmps f0) (pf_ifaces f0) seeded0))"
  using no_file_closes_mandatory_icmp [OF fe0_lengths file0_parsed sy0_laws(1) seeded0_ok, of "\<lambda>_. 0"]
  by (simp add: prod_eq_iff)


theorem config_text_roundtrip_witness:
  "caly_config_parse_file fe0 (Some (file0, False)) fresh_file =
     (let (errors, d') = foldl (\<lambda>(n, d) (k, v, cm). let (ok, d) = caly_cfg_apply fe0 k v d
                                              in (if ok then n else n + 1, d)) (0 :: nat, fresh_file) settings0
      in (errors = 0, d'))"
  unfolding file0_def by (rule config_text_roundtrip [OF settings0_ok])

text \<open>The entry of the \<open>allow\<close> line keeps the flags of the moment it was read: the setting
  \<open>allowlist_bypass_ratelimit\<close> that follows it, as in the shipped file, does not reach it.\<close>

lemma bypass_after_allow_ignored:
  "pf_allow_bypass_rate f0 \<and> map pc_flags (pf_cidrs f0) = [CALY_RULE_F_ALLOW]"
  by (simp add: f0_def)

end
