(* ===== verification/Caly_Json.thy ===== *)
theory Caly_Json
  imports Caly_Util
begin

text \<open>
  The JSON of the control socket (\<open>ctl.c\<close>): the reader of requests with its limits on nodes and depth,
  the accessors, and the escaping of the writer.

  The node array with its \<open>child\<close> and \<open>next\<close> links is a tree of type \<open>jval\<close>; the number of nodes used is
  carried along, since it is what \<open>j_alloc\<close> limits.  The cursor is the text that is left.  The loops
  over the elements of an array or an object are partial functions: \<^term>\<open>None\<close> is a loop that does
  not end, \<^term>\<open>Some None\<close> the result -1.  That they end is a theorem.
\<close>

section \<open>Values and lexical structure\<close>

datatype jval = JNull | JBool bool | JNum u64 bool | JStr string | JArr "jval list" | JObj "(string \<times> jval) list"

abbreviation (input) J_MAX_NODES :: nat where "J_MAX_NODES \<equiv> 4096"
abbreviation (input) J_MAX_DEPTH :: nat where "J_MAX_DEPTH \<equiv> 64"

definition j_skip_ws :: "string \<Rightarrow> string" where
  "j_skip_ws s = dropWhile (\<lambda>c. c = CHR '' '' \<or> c = CHR 0x09 \<or> c = CHR 0x0A \<or> c = CHR 0x0D) s"

definition j_alloc :: "nat \<Rightarrow> nat option" where
  "j_alloc n = (if n \<ge> J_MAX_NODES then None else Some (n + 1))"

text \<open>The characters after a backslash that stand for one character, and the four digits after \<open>u\<close>.\<close>

definition j_unescape :: "char \<Rightarrow> char option" where
  "j_unescape e =
     (if e = CHR 0x22 then Some (CHR 0x22) else if e = CHR 0x5C then Some (CHR 0x5C)
      else if e = CHR ''/'' then Some (CHR ''/'') else if e = CHR ''b'' then Some (CHR 0x08)
      else if e = CHR ''f'' then Some (CHR 0x0C) else if e = CHR ''n'' then Some (CHR 0x0A)
      else if e = CHR ''r'' then Some (CHR 0x0D) else if e = CHR ''t'' then Some (CHR 0x09) else None)"

definition j_hex4 :: "string \<Rightarrow> u32 option" where
  "j_hex4 s =
     (if length s < 4 then None
      else foldl (\<lambda>cp h. case cp of None \<Rightarrow> None
                         | Some cp \<Rightarrow> if digit_val h < 16 then Some (push_bit 4 cp OR of_nat (digit_val h)) else None)
             (Some 0) (take 4 s))"

definition byte_chr :: "u32 \<Rightarrow> char" where
  "byte_chr w = char_of (unat w mod 256)"

definition j_utf8 :: "u32 \<Rightarrow> string" where
  "j_utf8 cp =
     (if cp < 0x80 then [byte_chr cp]
      else if cp < 0x800 then [byte_chr (0xC0 OR drop_bit 6 cp), byte_chr (0x80 OR (cp AND 0x3F))]
      else [byte_chr (0xE0 OR drop_bit 12 cp), byte_chr (0x80 OR (drop_bit 6 cp AND 0x3F)), byte_chr (0x80 OR (cp AND 0x3F))])"

text \<open>The text between quotes, decoded (the source decodes in place), and the rest after the closing
  quote.\<close>

function j_parse_string_raw :: "string \<Rightarrow> (string \<times> string) option" where
  "j_parse_string_raw [] = None"
| "j_parse_string_raw (c # s) =
     (if c = CHR 0x22 then Some ([], s)
      else if c = CHR 0x5C then
        (case s of [] \<Rightarrow> None
         | e # r \<Rightarrow>
             if e = CHR ''u'' then do {
               cp \<leftarrow> j_hex4 r;
               (t, rest) \<leftarrow> j_parse_string_raw (drop 4 r);
               Some (j_utf8 cp @ t, rest) }
             else do {
               ch \<leftarrow> j_unescape e;
               (t, rest) \<leftarrow> j_parse_string_raw r;
               Some (ch # t, rest) })
      else if ccode c < 0x20 then None
      else do { (t, rest) \<leftarrow> j_parse_string_raw s; Some (c # t, rest) })"
  by pat_completeness auto
termination by (relation "measure length") auto

declare j_parse_string_raw.simps(2) [simp del]

type_synonym 'a jres = "('a \<times> string \<times> nat) option"

definition j_parse_string :: "string \<Rightarrow> nat \<Rightarrow> jval jres" where
  "j_parse_string s n = do {
     n \<leftarrow> j_alloc n;
     (t, rest) \<leftarrow> j_parse_string_raw (drop 1 s);
     Some (JStr t, rest, n) }"

text \<open>The digits of a number saturate; a fraction and an exponent are skipped.\<close>

fun j_digits :: "u64 \<Rightarrow> string \<Rightarrow> u64 \<times> string" where
  "j_digits v [] = (v, [])"
| "j_digits v (c # s) =
     (if isdigit c then
        let dg = digit_u64 c
        in j_digits (if v > (CALY_U64_MAX - dg) div 10 then CALY_U64_MAX else v * 10 + dg) s
      else (v, c # s))"

definition j_parse_number :: "string \<Rightarrow> nat \<Rightarrow> jval jres" where
  "j_parse_number s n = do {
     n \<leftarrow> j_alloc n;
     let neg = (take 1 s = ''-'');
     let s = (if take 1 s = ''-'' \<or> take 1 s = ''+'' then drop 1 s else s);
     if s = [] \<or> \<not> isdigit (hd s) then None
     else
       let (v, s) = j_digits 0 s;
           s = dropWhile (\<lambda>c. isdigit c \<or> c = CHR ''.'' \<or> c = CHR ''e'' \<or> c = CHR ''E'' \<or> c = CHR ''+'' \<or> c = CHR ''-'') s
       in Some (JNum v neg, s, n) }"

definition j_lit :: "string \<Rightarrow> jval \<Rightarrow> string \<Rightarrow> nat \<Rightarrow> jval jres" where
  "j_lit lit v s n =
     (if take (length lit) s \<noteq> lit then None
      else do { n \<leftarrow> j_alloc n; Some (v, drop (length lit) s, n) })"

section \<open>Arrays and objects\<close>

text \<open>The loop of both functions, for a parser of one item and the closing bracket.  In the source the
  blanks after the opening bracket and after a comma are skipped there; here the item parser starts by
  skipping them.\<close>

partial_function (option) elem_loop ::
  "(string \<Rightarrow> nat \<Rightarrow> 'a jres option) \<Rightarrow> char \<Rightarrow> 'a list \<Rightarrow> string \<Rightarrow> nat \<Rightarrow> 'a list jres option" where
  "elem_loop item close acc s n =
     (case item s n of None \<Rightarrow> None | Some None \<Rightarrow> Some None
      | Some (Some (x, s, n)) \<Rightarrow>
          (case j_skip_ws s of [] \<Rightarrow> Some None
           | c # s \<Rightarrow>
               if c = CHR '','' then elem_loop item close (acc @ [x]) s n
               else if c = close then Some (Some (acc @ [x], s, n))
               else Some None))"

definition arr_item :: "(string \<Rightarrow> nat \<Rightarrow> jval jres option) \<Rightarrow> string \<Rightarrow> nat \<Rightarrow> jval jres option" where
  "arr_item pv s n = pv (j_skip_ws s) n"

definition j_member_key :: "string \<Rightarrow> (string \<times> string) option" where
  "j_member_key s =
     (case j_skip_ws s of [] \<Rightarrow> None
      | c # s \<Rightarrow>
          if c \<noteq> CHR 0x22 then None
          else do {
            (key, s) \<leftarrow> j_parse_string_raw s;
            case j_skip_ws s of [] \<Rightarrow> None | c # s \<Rightarrow> if c \<noteq> CHR '':'' then None else Some (key, s) })"

definition obj_item :: "(string \<Rightarrow> nat \<Rightarrow> jval jres option) \<Rightarrow> string \<Rightarrow> nat \<Rightarrow> (string \<times> jval) jres option" where
  "obj_item pv s n =
     (case j_member_key s of None \<Rightarrow> Some None
      | Some (key, s) \<Rightarrow>
          (case pv s n of None \<Rightarrow> None | Some None \<Rightarrow> Some None
           | Some (Some (v, s, n)) \<Rightarrow> Some (Some ((key, v), s, n))))"

text \<open>An array or an object at the cursor; \<open>sub\<close> is the parser one level down, missing at the depth
  limit.\<close>

definition j_parse_array :: "(string \<Rightarrow> nat \<Rightarrow> jval jres option) option \<Rightarrow> string \<Rightarrow> nat \<Rightarrow> jval jres option" where
  "j_parse_array sub s n =
     (case j_alloc n of None \<Rightarrow> Some None
      | Some n \<Rightarrow>
          (case sub of None \<Rightarrow> Some None
           | Some pv \<Rightarrow>
               let s = j_skip_ws (drop 1 s)
               in if take 1 s = '']'' then Some (Some (JArr [], drop 1 s, n))
                  else map_option (map_option (\<lambda>(vs, s, n). (JArr vs, s, n))) (elem_loop (arr_item pv) (CHR '']'') [] s n)))"

definition j_parse_object :: "(string \<Rightarrow> nat \<Rightarrow> jval jres option) option \<Rightarrow> string \<Rightarrow> nat \<Rightarrow> jval jres option" where
  "j_parse_object sub s n =
     (case j_alloc n of None \<Rightarrow> Some None
      | Some n \<Rightarrow>
          (case sub of None \<Rightarrow> Some None
           | Some pv \<Rightarrow>
               let s = j_skip_ws (drop 1 s)
               in if take 1 s = [CHR 0x7D] then Some (Some (JObj [], drop 1 s, n))
                  else map_option (map_option (\<lambda>(ms, s, n). (JObj ms, s, n))) (elem_loop (obj_item pv) (CHR 0x7D) [] s n)))"

definition j_switch :: "(string \<Rightarrow> nat \<Rightarrow> jval jres option) option \<Rightarrow> string \<Rightarrow> nat \<Rightarrow> jval jres option" where
  "j_switch sub s n =
     (case j_skip_ws s of [] \<Rightarrow> Some None
      | c # r \<Rightarrow>
          if c = CHR 0x7B then j_parse_object sub (c # r) n
          else if c = CHR ''['' then j_parse_array sub (c # r) n
          else if c = CHR 0x22 then Some (j_parse_string (c # r) n)
          else if c = CHR ''t'' then Some (j_lit ''true'' (JBool True) (c # r) n)
          else if c = CHR ''f'' then Some (j_lit ''false'' (JBool False) (c # r) n)
          else if c = CHR ''n'' then Some (j_lit ''null'' JNull (c # r) n)
          else Some (j_parse_number (c # r) n))"

text \<open>The parser with \<open>k\<close> levels of nesting left, \<open>J_MAX_DEPTH - depth\<close>.\<close>

primrec j_value_at :: "nat \<Rightarrow> string \<Rightarrow> nat \<Rightarrow> jval jres option" where
  "j_value_at 0 = j_switch None"
| "j_value_at (Suc k) = j_switch (Some (j_value_at k))"

definition j_parse_value :: "string \<Rightarrow> jval jres option" where
  "j_parse_value s = j_value_at J_MAX_DEPTH s 0"

section \<open>Accessors\<close>

fun j_obj_get :: "jval \<Rightarrow> string \<Rightarrow> jval option" where
  "j_obj_get (JObj ms) key = map_of ms key"
| "j_obj_get _ key = None"

fun j_as_str :: "jval \<Rightarrow> string option" where
  "j_as_str (JStr s) = Some s"
| "j_as_str _ = None"

text \<open>The copy is read as a C string afterwards: an embedded zero ends it.\<close>

definition c_str :: "string \<Rightarrow> string" where
  "c_str s = takeWhile (\<lambda>c. c \<noteq> CHR 0x00) s"

definition j_str_dup :: "jval option \<Rightarrow> nat \<Rightarrow> string option" where
  "j_str_dup v cap = do {
     v \<leftarrow> v; s \<leftarrow> j_as_str v;
     if length s \<ge> cap then None else Some (c_str s) }"

fun j_as_u64 :: "jval \<Rightarrow> u64 option" where
  "j_as_u64 (JNum v neg) = Some (if neg then 0 else v)"
| "j_as_u64 (JStr s) = (if s = [] \<or> length s \<ge> 32 then None else caly_parse_u64 (c_str s))"
| "j_as_u64 _ = None"

fun j_as_bool :: "jval \<Rightarrow> bool option" where
  "j_as_bool (JBool b) = Some b"
| "j_as_bool (JNum v neg) = Some (v \<noteq> 0)"
| "j_as_bool _ = None"

section \<open>The writer\<close>

definition hex_digit :: "nat \<Rightarrow> char" where
  "hex_digit d = (if d < 10 then char_of (d + 48) else char_of (d + 87))"

definition j_escape :: "char \<Rightarrow> string" where
  "j_escape c =
     (if c = CHR 0x22 then [CHR 0x5C, CHR 0x22] else if c = CHR 0x5C then [CHR 0x5C, CHR 0x5C]
      else if c = CHR 0x08 then [CHR 0x5C, CHR ''b''] else if c = CHR 0x0C then [CHR 0x5C, CHR ''f'']
      else if c = CHR 0x0A then [CHR 0x5C, CHR ''n''] else if c = CHR 0x0D then [CHR 0x5C, CHR ''r'']
      else if c = CHR 0x09 then [CHR 0x5C, CHR ''t'']
      else if ccode c < 0x20 then [CHR 0x5C, CHR ''u'', CHR ''0'', CHR ''0'', hex_digit (ccode c div 16), hex_digit (ccode c mod 16)]
      else [c])"

definition sb_jstr :: "string \<Rightarrow> string" where
  "sb_jstr p = [CHR 0x22] @ concat (map j_escape p) @ [CHR 0x22]"

definition sb_u64 :: "u64 \<Rightarrow> string" where
  "sb_u64 v = dec_str (unat v)"

definition sb_key :: "string \<Rightarrow> string" where
  "sb_key k = sb_jstr k @ '':''"

section \<open>The reader returns, within its limits\<close>

fun j_nodes :: "jval \<Rightarrow> nat" where
  "j_nodes (JArr vs) = Suc (sum_list (map j_nodes vs))"
| "j_nodes (JObj ms) = Suc (sum_list (map (\<lambda>m. j_nodes (snd m)) ms))"
| "j_nodes _ = 1"

fun j_depth :: "jval \<Rightarrow> nat" where
  "j_depth (JArr vs) = Suc (Max (set (0 # map j_depth vs)))"
| "j_depth (JObj ms) = Suc (Max (set (0 # map (\<lambda>m. j_depth (snd m)) ms)))"
| "j_depth _ = 0"

lemma j_depth_le: "j_depth (JArr vs) \<le> Suc k \<longleftrightarrow> (\<forall>v \<in> set vs. j_depth v \<le> k)"
  "j_depth (JObj ms) \<le> Suc k \<longleftrightarrow> (\<forall>m \<in> set ms. j_depth (snd m) \<le> k)"
  by auto

text \<open>What the parser of an item promises: it returns, and on success it has moved on, has counted its
  nodes within the limit, and its result satisfies \<open>P\<close>.\<close>

definition j_returns :: "('a \<Rightarrow> nat) \<Rightarrow> ('a \<Rightarrow> bool) \<Rightarrow> (string \<Rightarrow> nat \<Rightarrow> 'a jres option) \<Rightarrow> bool" where
  "j_returns w P item \<longleftrightarrow> (\<forall>s n. \<exists>r. item s n = Some r \<and>
     (\<forall>x s' n'. r = Some (x, s', n') \<longrightarrow> length s' < length s \<and> n' = n + w x \<and> n' \<le> J_MAX_NODES \<and> P x))"

lemma j_returnsI:
  assumes "\<And>s n. item s n \<noteq> None"
    "\<And>s n x s' n'. item s n = Some (Some (x, s', n')) \<Longrightarrow> length s' < length s \<and> n' = n + w x \<and> n' \<le> J_MAX_NODES \<and> P x"
  shows "j_returns w P item"
  unfolding j_returns_def
proof (intro allI)
  fix s n
  obtain r where "item s n = Some r" using assms(1) [of s n] by auto
  then show "\<exists>r. item s n = Some r \<and>
     (\<forall>x s' n'. r = Some (x, s', n') \<longrightarrow> length s' < length s \<and> n' = n + w x \<and> n' \<le> J_MAX_NODES \<and> P x)"
    using assms(2) by blast
qed

lemma j_returnsD:
  assumes "j_returns w P item"
  shows "item s n \<noteq> None"
    "item s n = Some (Some (x, s', n')) \<Longrightarrow> length s' < length s \<and> n' = n + w x \<and> n' \<le> J_MAX_NODES \<and> P x"
  using assms [unfolded j_returns_def, THEN spec, THEN spec, of s n] by auto

lemma j_returnsE:
  assumes "j_returns w P item"
  obtains "item s n = Some None"
    | x s' n' where "item s n = Some (Some (x, s', n'))" "length s' < length s" "n' = n + w x" "n' \<le> J_MAX_NODES" "P x"
proof (cases "item s n")
  case (Some r)
  show ?thesis
  proof (cases r)
    case None
    then show ?thesis using that(1) Some by simp
  next
    case y: (Some y)
    obtain x s' n' where "y = (x, s', n')" by (cases y)
    then have "item s n = Some (Some (x, s', n'))" using Some y by simp
    from that(2) [OF this] j_returnsD(2) [OF assms this] show ?thesis by simp
  qed
qed (use j_returnsD(1) [OF assms, of s n] in simp)

lemma skip_ws_le: "length (j_skip_ws s) \<le> length s"
  by (simp add: j_skip_ws_def length_dropWhile_le)

lemma skip_ws_cons: "j_skip_ws s = c # r \<Longrightarrow> length r < length s"
  using skip_ws_le [of s] by simp

lemma string_raw_shorter: "j_parse_string_raw s = Some (t, r) \<Longrightarrow> length r < length s"
proof (induction s arbitrary: t r rule: j_parse_string_raw.induct)
  case (2 c s)
  show ?case
  proof (cases "c = CHR 0x5C")
    case True
    then obtain e q where s: "s = e # q" using 2(4) by (cases s) (auto simp: j_parse_string_raw.simps(2))
    show ?thesis
    proof (cases "e = CHR ''u''")
      case eu: True
      then obtain cp t' where "j_hex4 q = Some cp" "j_parse_string_raw (drop 4 q) = Some (t', r)"
        using 2(4) True s by (auto simp: j_parse_string_raw.simps(2) split: bind_splits)
      then show ?thesis using 2(1) [of e q cp] True s eu by fastforce
    next
      case ne: False
      then obtain ch t' where "j_unescape e = Some ch" "j_parse_string_raw q = Some (t', r)"
        using 2(4) True s by (auto simp: j_parse_string_raw.simps(2) split: bind_splits)
      then show ?thesis using 2(2) [of e q ch] True s ne by fastforce
    qed
  next
    case False
    then show ?thesis using 2(3,4) by (force simp: j_parse_string_raw.simps(2) split: if_splits bind_splits)
  qed
qed simp

lemma member_key_shorter: "j_member_key s = Some (k, r) \<Longrightarrow> length r < length s"
  unfolding j_member_key_def
  by (auto split: list.splits if_splits bind_splits dest!: string_raw_shorter skip_ws_cons)

lemma digits_le: "length (snd (j_digits v s)) \<le> length s"
  by (induction v s rule: j_digits.induct) (auto simp: Let_def le_SucI)

lemma number_returns:
  "j_parse_number s n = Some (v, s', n') \<Longrightarrow> length s' < length s \<and> n' = n + 1 \<and> n' \<le> J_MAX_NODES \<and> j_nodes v = 1 \<and> j_depth v = 0"
proof -
  assume a: "j_parse_number s n = Some (v, s', n')"
  let ?s = "if take 1 s = ''-'' \<or> take 1 s = ''+'' then drop 1 s else s"
  let ?P = "\<lambda>c. isdigit c \<or> c = CHR ''.'' \<or> c = CHR ''e'' \<or> c = CHR ''E'' \<or> c = CHR ''+'' \<or> c = CHR ''-''"
  have d: "?s \<noteq> []" "isdigit (hd ?s)" "n' = n + 1" "n < J_MAX_NODES" "v = JNum (fst (j_digits 0 ?s)) (take 1 s = ''-'')"
    "s' = dropWhile ?P (snd (j_digits 0 ?s))"
    using a unfolding j_parse_number_def j_alloc_def Let_def by (auto simp: split_beta split: if_splits bind_splits)
  obtain c q where c: "?s = c # q" using d(1) by (cases ?s) auto
  then have "length (snd (j_digits 0 ?s)) \<le> length q"
    using d(2) digits_le [of "digit_u64 c" q] by (simp add: Let_def)
  moreover have "length q < length s" using c by (cases s) (auto split: if_splits)
  ultimately show ?thesis using d(3-6) length_dropWhile_le [of ?P "snd (j_digits 0 ?s)"] by simp
qed

lemma lit_returns:
  "j_lit lit v s n = Some (v', s', n') \<Longrightarrow> lit \<noteq> [] \<Longrightarrow>
   length s' < length s \<and> n' = n + 1 \<and> n' \<le> J_MAX_NODES \<and> v' = v"
proof -
  assume a: "j_lit lit v s n = Some (v', s', n')" "lit \<noteq> []"
  then have "take (length lit) s = lit" by (simp add: j_lit_def split: if_splits)
  then have "length lit \<le> length s" by (metis length_take min.cobounded1)
  moreover have "0 < length lit" using a(2) by simp
  ultimately have "length s - length lit < length s" by linarith
  then show ?thesis using a by (auto simp: j_lit_def j_alloc_def split: if_splits bind_splits)
qed

lemma string_returns:
  "j_parse_string s n = Some (v, s', n') \<Longrightarrow> length s' < length s \<and> n' = n + 1 \<and> n' \<le> J_MAX_NODES \<and> j_nodes v = 1 \<and> j_depth v = 0"
  by (auto simp: j_parse_string_def j_alloc_def split: bind_splits if_splits dest!: string_raw_shorter)


lemma elem_loop_returns:
  assumes "j_returns w P item"
  shows "elem_loop item close acc s n = Some None \<or>
     (\<exists>ws s' n'. elem_loop item close acc s n = Some (Some (acc @ ws, s', n')) \<and> length s' < length s \<and>
        n' \<le> J_MAX_NODES \<and> n' = n + sum_list (map w ws) \<and> (\<forall>x \<in> set ws. P x))"
proof (induction "length s" arbitrary: s acc n rule: less_induct)
  case less
  show ?case
  proof (rule j_returnsE [OF assms, of s n])
    assume "item s n = Some None"
    then show ?thesis by (subst elem_loop.simps) simp
  next
    fix x s1 n1
    assume it: "item s n = Some (Some (x, s1, n1))" "length s1 < length s" "n1 = n + w x" "n1 \<le> J_MAX_NODES" "P x"
    show ?thesis
    proof (cases "j_skip_ws s1")
      case Nil
      then show ?thesis using it(1) by (subst elem_loop.simps) simp
    next
      case (Cons c s2)
      have l: "length s2 < length s" using skip_ws_cons [OF Cons] it(2) by simp
      show ?thesis
      proof (cases "c = CHR '',''")
        case True
        have e: "elem_loop item close acc s n = elem_loop item close (acc @ [x]) s2 n1"
          using it(1) Cons True by (subst elem_loop.simps) simp
        have "length s' < length s2 \<Longrightarrow> length s' < length s" for s' :: string using l by simp
        with less [OF l, of "acc @ [x]" n1] it(3-5) show ?thesis
          unfolding e by (elim disjE exE conjE) (auto intro!: exI [of _ "x # _"])
      next
        case False
        then show ?thesis
          using it Cons l by (subst (1 2) elem_loop.simps) (auto intro!: exI [of _ "[x]"])
      qed
    qed
  qed
qed

lemma arr_item_returns: "j_returns w P pv \<Longrightarrow> j_returns w P (arr_item pv)"
  by (rule j_returnsI) (auto simp: arr_item_def dest: j_returnsD intro: order_less_le_trans [OF _ skip_ws_le])

lemma obj_item_returns:
  assumes "j_returns w P pv"
  shows "j_returns (\<lambda>m. w (snd m)) (\<lambda>m. P (snd m)) (obj_item pv)"
proof (rule j_returnsI)
  fix s n
  show "obj_item pv s n \<noteq> None"
    using j_returnsD(1) [OF assms, of "snd (the (j_member_key s))" n]
    by (cases "j_member_key s") (auto simp: obj_item_def split: option.splits)
  fix x s' n'
  assume a: "obj_item pv s n = Some (Some (x, s', n'))"
  then obtain key s0 where k: "j_member_key s = Some (key, s0)" by (cases "j_member_key s") (auto simp: obj_item_def)
  then show "length s' < length s \<and> n' = n + w (snd x) \<and> n' \<le> J_MAX_NODES \<and> P (snd x)"
    using a member_key_shorter [OF k] j_returnsD(2) [OF assms, of s0 n]
    by (auto simp: obj_item_def split: option.splits dest: order_less_trans)
qed

text \<open>One level: brackets around a loop, and the scalars.\<close>

definition sub_ok :: "nat \<Rightarrow> (string \<Rightarrow> nat \<Rightarrow> jval jres option) option \<Rightarrow> bool" where
  "sub_ok k sub \<longleftrightarrow> (case sub of None \<Rightarrow> True | Some pv \<Rightarrow> 0 < k \<and> j_returns j_nodes (\<lambda>v. j_depth v \<le> k - 1) pv)"

lemma array_returns:
  assumes "sub_ok k sub" "s \<noteq> []"
  shows "j_parse_array sub s n \<noteq> None"
    "j_parse_array sub s n = Some (Some (v, s', n')) \<Longrightarrow>
       length s' < length s \<and> n' = n + j_nodes v \<and> n' \<le> J_MAX_NODES \<and> j_depth v \<le> k"
proof -
  let ?s = "j_skip_ws (drop 1 s)"
  have ls: "length ?s < length s" using skip_ws_le [of "drop 1 s"] assms(2) by (cases s) auto
  have l: "sub = Some pv \<Longrightarrow> 0 < k \<and> j_returns j_nodes (\<lambda>v. j_depth v \<le> k - 1) (arr_item pv)" for pv
    using assms(1) by (auto simp: sub_ok_def arr_item_returns)
  show "j_parse_array sub s n \<noteq> None"
    using elem_loop_returns [of j_nodes "\<lambda>v. j_depth v \<le> k - 1" "arr_item (the sub)" "CHR '']''" "[]" ?s] l
    by (fastforce simp: j_parse_array_def Let_def split: option.splits)
  show "length s' < length s \<and> n' = n + j_nodes v \<and> n' \<le> J_MAX_NODES \<and> j_depth v \<le> k"
    if a: "j_parse_array sub s n = Some (Some (v, s', n'))"
  proof -
    have "n < J_MAX_NODES" "sub \<noteq> None"
      using a by (auto simp: j_parse_array_def j_alloc_def split: option.splits if_splits)
    then obtain pv where pv: "sub = Some pv" "n < J_MAX_NODES" by blast
    show ?thesis
    proof (cases "take 1 ?s = '']''")
      case True
      then show ?thesis using a pv ls l by (auto simp: j_parse_array_def j_alloc_def Let_def)
    next
      case False
      then obtain vs where vs: "elem_loop (arr_item pv) (CHR '']'') [] ?s (n + 1) = Some (Some (vs, s', n'))" "v = JArr vs"
        using a pv by (auto simp: j_parse_array_def j_alloc_def Let_def)
      from elem_loop_returns [OF conjunct2 [OF l [OF pv(1)]], of "CHR '']''" "[]" ?s "n + 1"] vs(1)
      show ?thesis using ls vs(2) l [OF pv(1)] j_depth_le(1) [of vs "k - 1"] by auto
    qed
  qed
qed

lemma object_returns:
  assumes "sub_ok k sub" "s \<noteq> []"
  shows "j_parse_object sub s n \<noteq> None"
    "j_parse_object sub s n = Some (Some (v, s', n')) \<Longrightarrow>
       length s' < length s \<and> n' = n + j_nodes v \<and> n' \<le> J_MAX_NODES \<and> j_depth v \<le> k"
proof -
  let ?s = "j_skip_ws (drop 1 s)" and ?P = "\<lambda>m. j_depth (snd m) \<le> k - 1" and ?w = "\<lambda>m. j_nodes (snd m)"
  have ls: "length ?s < length s" using skip_ws_le [of "drop 1 s"] assms(2) by (cases s) auto
  have l: "sub = Some pv \<Longrightarrow> 0 < k \<and> j_returns ?w ?P (obj_item pv)" for pv
    using assms(1) obj_item_returns [of j_nodes "\<lambda>v. j_depth v \<le> k - 1" pv] by (auto simp: sub_ok_def)
  show "j_parse_object sub s n \<noteq> None"
    using elem_loop_returns [of ?w ?P "obj_item (the sub)" "CHR 0x7D" "[]" ?s] l
    by (fastforce simp: j_parse_object_def Let_def split: option.splits)
  show "length s' < length s \<and> n' = n + j_nodes v \<and> n' \<le> J_MAX_NODES \<and> j_depth v \<le> k"
    if a: "j_parse_object sub s n = Some (Some (v, s', n'))"
  proof -
    have "n < J_MAX_NODES" "sub \<noteq> None"
      using a by (auto simp: j_parse_object_def j_alloc_def split: option.splits if_splits)
    then obtain pv where pv: "sub = Some pv" "n < J_MAX_NODES" by blast
    show ?thesis
    proof (cases "take 1 ?s = [CHR 0x7D]")
      case True
      then show ?thesis using a pv ls l by (auto simp: j_parse_object_def j_alloc_def Let_def)
    next
      case False
      then obtain ms where ms: "elem_loop (obj_item pv) (CHR 0x7D) [] ?s (n + 1) = Some (Some (ms, s', n'))" "v = JObj ms"
        using a pv by (auto simp: j_parse_object_def j_alloc_def Let_def)
      from elem_loop_returns [OF conjunct2 [OF l [OF pv(1)]], of "CHR 0x7D" "[]" ?s "n + 1"] ms(1)
      show ?thesis using ls ms(2) l [OF pv(1)] j_depth_le(2) [of ms "k - 1"] by auto
    qed
  qed
qed

lemma switch_returns:
  assumes "sub_ok k sub"
  shows "j_returns j_nodes (\<lambda>v. j_depth v \<le> k) (j_switch sub)"
proof (rule j_returnsI)
  fix s n
  show "j_switch sub s n \<noteq> None"
    using array_returns(1) [OF assms] object_returns(1) [OF assms] by (auto simp: j_switch_def split: list.splits)
  fix v s' n'
  assume a: "j_switch sub s n = Some (Some (v, s', n'))"
  then obtain c r where c: "j_skip_ws s = c # r" by (auto simp: j_switch_def split: list.splits)
  have "length s' < length (c # r) \<and> n' = n + j_nodes v \<and> n' \<le> J_MAX_NODES \<and> j_depth v \<le> k"
    using a c array_returns(2) [OF assms, of "c # r"] object_returns(2) [OF assms, of "c # r"]
    by (auto simp: j_switch_def split: if_splits dest!: string_returns number_returns lit_returns)
  moreover have "length (c # r) \<le> length s" using skip_ws_le [of s] c by simp
  ultimately show "length s' < length s \<and> n' = n + j_nodes v \<and> n' \<le> J_MAX_NODES \<and> j_depth v \<le> k"
    by linarith
qed

lemma value_at_returns: "j_returns j_nodes (\<lambda>v. j_depth v \<le> k) (j_value_at k)"
proof (induction k)
  case 0
  then show ?case using switch_returns [of 0 None] by (simp add: sub_ok_def)
next
  case (Suc k)
  then show ?case using switch_returns [of "Suc k" "Some (j_value_at k)"] by (simp add: sub_ok_def)
qed

text \<open>The reader of the control socket returns on every text: it never runs on, and a value it
  accepts has at most 4096 nodes and 64 levels of nesting, with the node count the array would hold,
  and the cursor has moved forward.\<close>

theorem j_parse_value_returns:
  "\<exists>r. j_parse_value s = Some r \<and>
     (\<forall>v rest n. r = Some (v, rest, n) \<longrightarrow>
        n = j_nodes v \<and> n \<le> J_MAX_NODES \<and> j_depth v \<le> J_MAX_DEPTH \<and> length rest < length s)"
proof (cases "j_parse_value s")
  case None
  then show ?thesis using j_returnsD(1) [OF value_at_returns, of J_MAX_DEPTH s 0] by (simp add: j_parse_value_def)
next
  case (Some r)
  then show ?thesis
    using j_returnsD(2) [OF value_at_returns, of J_MAX_DEPTH s 0] by (auto simp: j_parse_value_def)
qed

section \<open>Reading back what was written\<close>

lemma hex_digit_val: "d < 16 \<Longrightarrow> digit_val (hex_digit d) = d"
  by (cases "d < 10") (auto simp: hex_digit_def digit_val_def isdigit_def ccode_def)

lemma hex4_control:
  assumes "k < 32"
  shows "j_hex4 (CHR ''0'' # CHR ''0'' # hex_digit (k div 16) # hex_digit (k mod 16) # r) = Some (of_nat k)"
proof -
  have d: "digit_val (CHR ''0'') = 0" by (simp add: digit_val_def isdigit_def ccode_def)
  have "k div 16 < 16" using assms by simp
  then have "j_hex4 (CHR ''0'' # CHR ''0'' # hex_digit (k div 16) # hex_digit (k mod 16) # r) =
      Some (push_bit 4 (of_nat (k div 16)) OR of_nat (k mod 16))"
    by (simp add: j_hex4_def d hex_digit_val)
  moreover have "push_bit 4 (of_nat (k div 16)) OR of_nat (k mod 16) = (of_nat k :: u32)"
  proof -
    have "k div 16 = 0 \<or> k div 16 = 1" using assms by auto
    moreover have "k mod 16 < 16" by simp
    moreover have "k = 16 * (k div 16) + k mod 16" by simp
    moreover have "push_bit 4 (of_nat a) OR of_nat b = (of_nat (16 * a + b) :: u32)" if "a = 0 \<or> a = 1" "b < 16" for a b
    proof -
      have "b \<in> {0, 1, 2, 3, 4, 5, 6, 7, 8, 9, 10, 11, 12, 13, 14, 15}"
        using that(2) by (simp add: numeral_eq_Suc less_Suc_eq)
      then show ?thesis using that(1) by (elim disjE insertE; simp)
    qed
    ultimately show ?thesis by metis
  qed
  ultimately show ?thesis by simp
qed

lemma utf8_control: "ccode c < 32 \<Longrightarrow> j_utf8 (of_nat (ccode c)) = [c]"
  by (simp add: j_utf8_def byte_chr_def ccode_def word_less_nat_alt unat_of_nat)

text \<open>One escaped character in front of a text that is read.\<close>

lemma raw_escape:
  assumes "j_parse_string_raw q = Some (t, rest)"
  shows "j_parse_string_raw (j_escape c @ q) = Some (c # t, rest)"
proof -
  consider "c \<in> {CHR 0x22, CHR 0x5C, CHR 0x08, CHR 0x0C, CHR 0x0A, CHR 0x0D, CHR 0x09}"
    | "c \<notin> {CHR 0x22, CHR 0x5C, CHR 0x08, CHR 0x0C, CHR 0x0A, CHR 0x0D, CHR 0x09}" "ccode c < 32"
    | "c \<notin> {CHR 0x22, CHR 0x5C, CHR 0x08, CHR 0x0C, CHR 0x0A, CHR 0x0D, CHR 0x09}" "\<not> ccode c < 32"
    by blast
  then show ?thesis
  proof cases
    case 1
    then show ?thesis using assms by (auto simp: j_escape_def j_parse_string_raw.simps(2) j_unescape_def)
  next
    case 2
    then have "j_escape c = [CHR 0x5C, CHR ''u'', CHR ''0'', CHR ''0'', hex_digit (ccode c div 16), hex_digit (ccode c mod 16)]"
      by (simp add: j_escape_def)
    then show ?thesis
      using assms hex4_control [OF 2(2), of q] utf8_control [OF 2(2)] by (simp add: j_parse_string_raw.simps(2))
  next
    case 3
    then show ?thesis using assms by (simp add: j_escape_def j_parse_string_raw.simps(2))
  qed
qed

lemma raw_jstr: "j_parse_string_raw (concat (map j_escape p) @ CHR 0x22 # rest) = Some (p, rest)"
  by (induction p) (simp_all add: j_parse_string_raw.simps(2) raw_escape)

lemma j_digits_run:
  assumes "list_all isdigit ds" "no_digit rest" "dec_from (unat v) ds < 2 ^ 64"
  shows "j_digits v (ds @ rest) = (of_nat (dec_from (unat v) ds), rest)"
  using assms(1,3)
proof (induction ds arbitrary: v)
  case Nil
  then show ?case using assms(2) by (cases rest) (auto simp: no_digit_def)
next
  case (Cons c ds)
  then have c: "isdigit c" "unat (digit_u64 c) = digit_val c" "digit_val c < 10"
    using unat_digit_u64 digit_val_less_10 by simp_all
  note fits = dec_step_fits [of "digit_u64 c" v, unfolded c(2), OF c(3)]
  have "unat v * 10 + digit_val c < 2 ^ 64"
    using Cons.prems(2) dec_from_ge [of "unat v * 10 + digit_val c" ds] by simp
  then show ?case using Cons fits c(1) by (simp add: Let_def)
qed

text \<open>The compact text of a value, with the writer's strings and numbers.\<close>

definition commas :: "string list \<Rightarrow> string" where
  "commas ts = concat (case ts of [] \<Rightarrow> [] | t # ts \<Rightarrow> t # map (\<lambda>t. '','' @ t) ts)"

fun j_print :: "jval \<Rightarrow> string" where
  "j_print JNull = ''null''"
| "j_print (JBool b) = (if b then ''true'' else ''false'')"
| "j_print (JNum v neg) = (if neg then ''-'' else []) @ sb_u64 v"
| "j_print (JStr s) = sb_jstr s"
| "j_print (JArr vs) = ''['' @ commas (map j_print vs) @ '']''"
| "j_print (JObj ms) = [CHR 0x7B] @ commas (map (\<lambda>m. sb_key (fst m) @ j_print (snd m)) ms) @ [CHR 0x7D]"

text \<open>A text after which a number has ended.\<close>

definition num_end :: "string \<Rightarrow> bool" where
  "num_end s \<longleftrightarrow> s = [] \<or> hd s = CHR '','' \<or> hd s = CHR '']'' \<or> hd s = CHR 0x7D"

lemma number_print:
  assumes "n < J_MAX_NODES" "num_end rest"
  shows "j_parse_number (j_print (JNum v neg) @ rest) n = Some (JNum v neg, rest, n + 1)"
proof -
  let ?d = "dec_str (unat v)"
  obtain c cs where c: "?d = c # cs" using dec_str_digits(2) by (cases ?d) auto
  have cd: "isdigit c" "c \<noteq> CHR ''-''" "c \<noteq> CHR ''+''"
    using c dec_str_digits(1) [of "unat v"] digits_plain [OF dec_str_digits(1), of c "unat v"] by simp_all
  have nd: "no_digit rest" using assms(2) by (auto simp: num_end_def no_digit_def isdigit_def ccode_def)
  have dg: "j_digits 0 (?d @ rest) = (v, rest)"
    using j_digits_run [OF dec_str_digits(1) nd, of 0 "unat v"] by (simp add: dec_from_str unat_u64_less of_nat_unat_u64)
  let ?P = "\<lambda>c. isdigit c \<or> c = CHR ''.'' \<or> c = CHR ''e'' \<or> c = CHR ''E'' \<or> c = CHR ''+'' \<or> c = CHR ''-''"
  have dw: "dropWhile ?P rest = rest"
    using assms(2) by (cases rest) (auto simp: num_end_def isdigit_def ccode_def)
  show ?thesis
    using c cd dg dw assms(1) by (cases neg) (auto simp: j_parse_number_def j_alloc_def sb_u64_def Let_def)
qed

text \<open>A character at which the reader does not skip.\<close>

definition visible :: "char \<Rightarrow> bool" where
  "visible c \<longleftrightarrow> c \<noteq> CHR '' '' \<and> c \<noteq> CHR 0x09 \<and> c \<noteq> CHR 0x0A \<and> c \<noteq> CHR 0x0D"

lemma skip_visible [simp]: "visible c \<Longrightarrow> j_skip_ws (c # r) = c # r"
  by (simp add: j_skip_ws_def visible_def)

lemma visible_marks [simp]: "visible (CHR '','')" "visible (CHR '']'')" "visible (CHR 0x7D)" "visible (CHR 0x22)"
  "visible (CHR '':'')" "visible (CHR 0x7B)" "visible (CHR ''['')" "visible (CHR ''t'')" "visible (CHR ''f'')" "visible (CHR ''n'')"
  by (simp_all add: visible_def)

lemma digit_visible: "isdigit c \<Longrightarrow> visible c"
  by (auto simp: isdigit_def visible_def ccode_def)

lemma print_start: "\<exists>c r. j_print v = c # r \<and> visible c \<and> c \<noteq> CHR '']''"
proof (cases v)
  case (JNum u neg)
  obtain c cs where c: "dec_str (unat u) = c # cs" using dec_str_digits(2) by (cases "dec_str (unat u)") auto
  then have "isdigit c" using dec_str_digits(1) [of "unat u"] by simp
  then show ?thesis using JNum c digit_visible by (cases neg) (auto simp: sb_u64_def visible_def isdigit_def ccode_def)
qed (auto simp: sb_jstr_def visible_def)

lemma commas_Cons: "commas (t # ts) = t @ (case ts of [] \<Rightarrow> [] | _ \<Rightarrow> CHR '','' # commas ts)"
  by (cases ts) (auto simp: commas_def)

lemma elem_loop_print:
  assumes "\<And>x rest n. x \<in> set xs \<Longrightarrow> num_end rest \<Longrightarrow> n + w x \<le> J_MAX_NODES \<Longrightarrow> item (pr x @ rest) n = Some (Some (x, rest, n + w x))"
    and "close = CHR '']'' \<or> close = CHR 0x7D" "xs \<noteq> []" "n + sum_list (map w xs) \<le> J_MAX_NODES"
  shows "elem_loop item close acc (commas (map pr xs) @ close # rest) n = Some (Some (acc @ xs, rest, n + sum_list (map w xs)))"
  using assms(1,3,4)
proof (induction xs arbitrary: acc n)
  case (Cons x xs)
  show ?case
  proof (cases xs)
    case Nil
    then have "item (pr x @ close # rest) n = Some (Some (x, close # rest, n + w x))"
      using Cons.prems(1) [of x "close # rest" n] Cons.prems(3) assms(2) by (auto simp: num_end_def)
    then show ?thesis using Nil assms(2) by (subst elem_loop.simps) (auto simp: commas_Cons)
  next
    case (Cons y ys)
    let ?r = "CHR '','' # commas (map pr xs) @ close # rest"
    have "item (pr x @ ?r) n = Some (Some (x, ?r, n + w x))"
      using Cons.prems(1) [of x ?r n] Cons.prems(3) by (simp add: num_end_def)
    moreover have "elem_loop item close (acc @ [x]) (commas (map pr xs) @ close # rest) (n + w x) =
        Some (Some ((acc @ [x]) @ xs, rest, n + w x + sum_list (map w xs)))"
      by (rule Cons.IH) (use Cons.prems Cons in auto)
    ultimately show ?thesis using Cons by (subst elem_loop.simps) (simp add: commas_Cons [of "pr x"])
  qed
qed simp

lemma member_print:
  assumes "\<And>rest n. num_end rest \<Longrightarrow> n + j_nodes v \<le> J_MAX_NODES \<Longrightarrow> pv (j_print v @ rest) n = Some (Some (v, rest, n + j_nodes v))"
    and "num_end rest" "n + j_nodes v \<le> J_MAX_NODES"
  shows "obj_item pv ((sb_key k @ j_print v) @ rest) n = Some (Some ((k, v), rest, n + j_nodes v))"
proof -
  have "j_member_key ((sb_key k @ j_print v) @ rest) = Some (k, j_print v @ rest)"
    using raw_jstr [of k "CHR '':'' # j_print v @ rest"] by (simp add: j_member_key_def sb_key_def sb_jstr_def)
  then show ?thesis using assms by (simp add: obj_item_def)
qed

text \<open>The reader \<open>pv\<close> reads back the text of \<open>v\<close>.\<close>

definition reads :: "(string \<Rightarrow> nat \<Rightarrow> jval jres option) \<Rightarrow> jval \<Rightarrow> bool" where
  "reads pv v \<longleftrightarrow> (\<forall>rest n. num_end rest \<longrightarrow> n + j_nodes v \<le> J_MAX_NODES \<longrightarrow>
     pv (j_print v @ rest) n = Some (Some (v, rest, n + j_nodes v)))"

lemma switch_scalar: "reads (j_switch sub) JNull" "reads (j_switch sub) (JBool b)" "reads (j_switch sub) (JStr t)"
  by (auto simp: reads_def j_switch_def j_lit_def j_alloc_def j_parse_string_def sb_jstr_def raw_jstr)

lemma switch_number: "reads (j_switch sub) (JNum u neg)"
  unfolding reads_def
proof (intro allI impI)
  fix rest n assume e: "num_end rest" and "n + j_nodes (JNum u neg) \<le> J_MAX_NODES"
  then have n: "n < J_MAX_NODES" by simp
  obtain c r where c: "j_print (JNum u neg) = c # r" "visible c" using print_start by blast
  have "c = CHR ''-'' \<or> isdigit c"
    using c(1) dec_str_digits [of "unat u"] by (cases "dec_str (unat u)") (auto simp: sb_u64_def split: if_splits)
  then have "c \<noteq> CHR 0x7B" "c \<noteq> CHR ''[''" "c \<noteq> CHR 0x22" "c \<noteq> CHR ''t''" "c \<noteq> CHR ''f''" "c \<noteq> CHR ''n''"
    by (auto simp: isdigit_def ccode_def)
  then have "j_switch sub (j_print (JNum u neg) @ rest) n = Some (j_parse_number (j_print (JNum u neg) @ rest) n)"
    using c by (simp add: j_switch_def)
  then show "j_switch sub (j_print (JNum u neg) @ rest) n = Some (Some (JNum u neg, rest, n + j_nodes (JNum u neg)))"
    using number_print [OF n e, of u neg] by (simp del: j_print.simps)
qed

lemma switch_array:
  assumes "\<And>v. v \<in> set vs \<Longrightarrow> reads pv v"
  shows "reads (j_switch (Some pv)) (JArr vs)"
  unfolding reads_def
proof (intro allI impI)
  fix rest n assume e: "num_end rest" and n: "n + j_nodes (JArr vs) \<le> J_MAX_NODES"
  show "j_switch (Some pv) (j_print (JArr vs) @ rest) n = Some (Some (JArr vs, rest, n + j_nodes (JArr vs)))"
  proof (cases vs)
    case Nil
    then show ?thesis using n by (simp add: j_switch_def j_parse_array_def j_alloc_def commas_def)
  next
    case (Cons x xs)
    let ?t = "commas (map j_print vs) @ CHR '']'' # rest"
    have "elem_loop (arr_item pv) (CHR '']'') [] ?t (n + 1) = Some (Some ([] @ vs, rest, (n + 1) + sum_list (map j_nodes vs)))"
    proof (rule elem_loop_print)
      fix y q m assume y: "y \<in> set vs" "num_end q" "m + j_nodes y \<le> J_MAX_NODES"
      obtain c r where "j_print y = c # r" "visible c" using print_start by blast
      then show "arr_item pv (j_print y @ q) m = Some (Some (y, q, m + j_nodes y))"
        using assms [OF y(1)] y(2,3) by (simp add: arr_item_def reads_def)
    qed (use Cons n in auto)
    moreover obtain c r where c: "?t = c # r" "visible c" "c \<noteq> CHR '']''"
      using print_start [of x] Cons by (auto simp: commas_Cons)
    moreover have "j_print (JArr vs) @ rest = CHR ''['' # ?t" by simp
    ultimately show ?thesis using n by (simp add: j_switch_def j_parse_array_def j_alloc_def del: j_print.simps)
  qed
qed

lemma switch_object:
  assumes "\<And>m. m \<in> set ms \<Longrightarrow> reads pv (snd m)"
  shows "reads (j_switch (Some pv)) (JObj ms)"
  unfolding reads_def
proof (intro allI impI)
  fix rest n assume e: "num_end rest" and n: "n + j_nodes (JObj ms) \<le> J_MAX_NODES"
  show "j_switch (Some pv) (j_print (JObj ms) @ rest) n = Some (Some (JObj ms, rest, n + j_nodes (JObj ms)))"
  proof (cases ms)
    case Nil
    then show ?thesis using n by (simp add: j_switch_def j_parse_object_def j_alloc_def commas_def)
  next
    case (Cons x xs)
    let ?pr = "\<lambda>m. sb_key (fst m) @ j_print (snd m)" and ?w = "\<lambda>m. j_nodes (snd m)"
    let ?t = "commas (map ?pr ms) @ CHR 0x7D # rest"
    have "elem_loop (obj_item pv) (CHR 0x7D) [] ?t (n + 1) = Some (Some ([] @ ms, rest, (n + 1) + sum_list (map ?w ms)))"
    proof (rule elem_loop_print)
      fix y q m assume y: "y \<in> set ms" "num_end q" "m + j_nodes (snd y) \<le> J_MAX_NODES"
      then show "obj_item pv ((sb_key (fst y) @ j_print (snd y)) @ q) m = Some (Some (y, q, m + j_nodes (snd y)))"
        using member_print [of "snd y" pv q m "fst y"] assms [OF y(1)] by (simp add: reads_def)
    qed (use Cons n in auto)
    moreover obtain r where "?t = CHR 0x22 # r" using Cons by (simp add: commas_Cons sb_key_def sb_jstr_def)
    moreover have "j_print (JObj ms) @ rest = CHR 0x7B # ?t" by simp
    ultimately show ?thesis using n by (simp add: j_switch_def j_parse_object_def j_alloc_def del: j_print.simps)
  qed
qed

lemma value_at_reads: "j_depth v \<le> k \<Longrightarrow> reads (j_value_at k) v"
proof (induction v arbitrary: k)
  case (JArr vs)
  obtain k' where k: "k = Suc k'" using JArr.prems by (cases k) simp_all
  have d: "\<forall>x \<in> set vs. j_depth x \<le> k'" using JArr.prems j_depth_le(1) [of vs k'] k by (simp only:)
  have "reads (j_switch (Some (j_value_at k'))) (JArr vs)"
    by (rule switch_array) (rule JArr.IH, assumption, rule bspec [OF d])
  then show ?case by (simp only: k j_value_at.simps)
next
  case (JObj ms)
  obtain k' where k: "k = Suc k'" using JObj.prems by (cases k) simp_all
  have d: "\<forall>m \<in> set ms. j_depth (snd m) \<le> k'" using JObj.prems j_depth_le(2) [of ms k'] k by (simp only:)
  have "reads (j_switch (Some (j_value_at k'))) (JObj ms)"
  proof (rule switch_object)
    fix m assume m: "m \<in> set ms"
    have "snd m \<in> Basic_BNFs.snds m" by (cases m) simp
    from JObj.IH [OF m this bspec [OF d m]] show "reads (j_value_at k') (snd m)" .
  qed
  then show ?case by (simp only: k j_value_at.simps)
qed (case_tac k; simp add: switch_scalar switch_number)+

lemma parse_printed:
  assumes "j_depth v \<le> J_MAX_DEPTH" "j_nodes v \<le> J_MAX_NODES"
  shows "j_parse_value (j_print v) = Some (Some (v, [], j_nodes v))"
  using value_at_reads [OF assms(1)] assms(2) unfolding reads_def j_parse_value_def
  by (metis add_0 append_Nil2 num_end_def)

text \<open>C26. What the daemon writes it can read: the compact text of every value of at most 4096 nodes and 64
  levels, with any bytes in its strings and keys (quotes, backslashes, control characters, zero bytes)
  and any 64-bit number, is read back as that value, to the end of the text.\<close>

theorem j_print_parse:
  assumes "j_depth v \<le> J_MAX_DEPTH" "j_nodes v \<le> J_MAX_NODES"
  shows "j_parse_value (j_print v) = Some (Some (v, [], j_nodes v))"
  by (rule parse_printed [OF assms])

section \<open>Instances\<close>

definition ping_req :: jval where
  "ping_req = JObj [(''id'', JNum 7 False), (''cmd'', JStr ''ping'')]"

theorem j_parse_value_returns_witness:
  "\<exists>r. j_parse_value (j_print ping_req) = Some r \<and>
     (\<forall>v rest n. r = Some (v, rest, n) \<longrightarrow>
        n = j_nodes v \<and> n \<le> J_MAX_NODES \<and> j_depth v \<le> J_MAX_DEPTH \<and> length rest < length (j_print ping_req))"
  by (rule j_parse_value_returns)

theorem j_print_parse_witness: "j_parse_value (j_print ping_req) = Some (Some (ping_req, [], 3))"
  using j_print_parse [of ping_req] by (simp add: ping_req_def)

text \<open>The reader takes the integer part of a number and skips the exponent.\<close>

lemma number_exponent_ignored: "j_parse_value ''6e11'' = Some (Some (JNum 6 False, [], 1))"
proof -
  have "j_value_at J_MAX_DEPTH = j_switch (Some (j_value_at 63))"
    using j_value_at.simps(2) [of 63] by (simp add: numeral_eq_Suc)
  then show ?thesis
    by (simp add: j_parse_value_def j_switch_def j_skip_ws_def j_parse_number_def j_alloc_def isdigit_def ccode_def Let_def)
qed

end
