(* ===== verification/Caly_Query.thy ===== *)
theory Caly_Query
  imports Caly_Json Caly_Daemon "HOL-Library.Multiset"
begin

text \<open>
  The read-only side of the control socket (\<open>ctl.c\<close>): the reply buffer with its size limit, the counters
  summed over the CPUs (\<open>loader.c\<close>), the walk over a map, and the replies to \<open>status\<close>, \<open>stats\<close>, \<open>top\<close>,
  \<open>list\<close> and \<open>conntrack\<close> and the text of an event.

  A handler gives the JSON value it writes; \<open>j_tokens\<close> is the sequence of writes for a value, one per
  token, and \<open>sb_write\<close> what each of them does to the buffer.
\<close>

section \<open>The reply buffer\<close>

record sbuf =
  sb_text :: string
  sb_cap :: nat
  sb_err :: bool

abbreviation (input) CTL_RESP_MAX :: nat where "CTL_RESP_MAX \<equiv> 7 * 1024 * 1024"

definition sb_init :: sbuf where
  "sb_init = \<lparr>sb_text = [], sb_cap = 0, sb_err = False\<rparr>"

text \<open>The loop that doubles the capacity; \<^term>\<open>None\<close> when it passes the limit.\<close>

function sb_grow :: "nat \<Rightarrow> nat \<Rightarrow> nat option" where
  "sb_grow need cap =
     (if cap < need then (if cap > CTL_RESP_MAX then None else sb_grow need (if cap = 0 then 1024 else cap * 2)) else Some cap)"
  by pat_completeness auto

termination
  by (relation "measure (\<lambda>(need, cap). need - cap)") auto

declare sb_grow.simps [simp del]

text \<open>\<open>mem c\<close> tells whether \<open>realloc\<close> gives \<open>c\<close> bytes.\<close>

definition sb_reserve :: "(nat \<Rightarrow> bool) \<Rightarrow> sbuf \<Rightarrow> nat \<Rightarrow> bool \<times> sbuf" where
  "sb_reserve mem s extra =
     (if sb_err s then (False, s)
      else if extra > CTL_RESP_MAX \<or> length (sb_text s) > CTL_RESP_MAX - extra then (False, s\<lparr>sb_err := True\<rparr>)
      else let need = length (sb_text s) + extra + 1
           in if need \<le> sb_cap s then (True, s)
              else case sb_grow need (if sb_cap s = 0 then 1024 else sb_cap s) of
                None \<Rightarrow> (False, s\<lparr>sb_err := True\<rparr>)
              | Some cap \<Rightarrow> if mem cap then (True, s\<lparr>sb_cap := cap\<rparr>) else (False, s\<lparr>sb_cap := cap, sb_err := True\<rparr>))"

definition sb_write :: "(nat \<Rightarrow> bool) \<Rightarrow> sbuf \<Rightarrow> string \<Rightarrow> sbuf" where
  "sb_write mem s p =
     (case sb_reserve mem s (length p) of (False, s) \<Rightarrow> s | (True, s) \<Rightarrow> s\<lparr>sb_text := sb_text s @ p\<rparr>)"

definition sb_puts :: "(nat \<Rightarrow> bool) \<Rightarrow> string list \<Rightarrow> sbuf" where
  "sb_puts mem ps = foldl (sb_write mem) sb_init ps"

text \<open>The writes for a value, one per token: \<open>sb_putc\<close> for brackets and commas, \<open>sb_key\<close>, \<open>sb_jstr\<close>,
  \<open>sb_u64\<close>.\<close>

definition sep_tokens :: "string list list \<Rightarrow> string list" where
  "sep_tokens tss = (case tss of [] \<Rightarrow> [] | ts # tss \<Rightarrow> ts @ concat (map (\<lambda>ts. '','' # ts) tss))"

fun j_tokens :: "jval \<Rightarrow> string list" where
  "j_tokens JNull = [''null'']"
| "j_tokens (JBool b) = [if b then ''true'' else ''false'']"
| "j_tokens (JNum v neg) = [(if neg then ''-'' else []) @ sb_u64 v]"
| "j_tokens (JStr s) = [sb_jstr s]"
| "j_tokens (JArr vs) = [''[''] @ sep_tokens (map j_tokens vs) @ ['']'']"
| "j_tokens (JObj ms) = [[CHR 0x7B]] @ sep_tokens (map (\<lambda>m. sb_key (fst m) # j_tokens (snd m)) ms) @ [[CHR 0x7D]]"

text \<open>\<open>sb_i64\<close>, and \<open>sb_jstrz\<close>, which stops at a zero byte.\<close>

definition j_i64 :: "u64 \<Rightarrow> jval" where
  "j_i64 v = (if bit v 63 then JNum (- v) True else JNum v False)"

definition j_strz :: "string \<Rightarrow> jval" where
  "j_strz s = JStr (c_str s)"

abbreviation jn :: "u64 \<Rightarrow> jval" where "jn v \<equiv> JNum v False"

section \<open>What the system answers\<close>

datatype percpu = PerCpu "nat \<Rightarrow> u64" | NoEntry | LookupErr

record ctl_top_row =
  tr_family :: u32
  tr_addr :: bytes
  tr_st :: src_stats

record ctl_kern =
  kq_w :: world
  kq_now :: u64
  kq_wall :: u64
  kq_next_lpm :: "caly_map_id \<Rightarrow> lpm_map \<Rightarrow> lpm_key option \<Rightarrow> lpm_key option"
  kq_ban_put :: "(src_key \<rightharpoonup> ban_entry) \<Rightarrow> src_key \<Rightarrow> ban_entry \<Rightarrow> (src_key \<rightharpoonup> ban_entry) option"
  kq_lpm_del :: "caly_map_id \<Rightarrow> lpm_key \<Rightarrow> bool"
  kq_percpu :: "caly_map_id \<Rightarrow> u32 \<Rightarrow> percpu"
  kq_ncpus :: "int \<times> int"
  kq_calloc :: "string \<Rightarrow> bool"
  kq_realloc :: "nat \<Rightarrow> bool"
  kq_qsort :: "(ctl_top_row \<Rightarrow> ctl_top_row \<Rightarrow> int) \<Rightarrow> ctl_top_row list \<Rightarrow> ctl_top_row list"
  kq_pton :: pton
  kq_ntop :: "u32 \<Rightarrow> bytes \<Rightarrow> string option"

abbreviation (input) kq_fd :: "ctl_kern \<Rightarrow> caly_map_id \<Rightarrow> bool" where "kq_fd k mid \<equiv> sy_fd (w_sys (kq_w k)) mid"
abbreviation (input) kq_gc :: "ctl_kern \<Rightarrow> gc_kern" where "kq_gc k \<equiv> w_gc (kq_w k)"

record caly_ctl_env =
  ce_version :: string
  ce_start_wall_ns :: u64
  ce_pid :: u64
  ce_events_seen :: u64
  ce_events_lost :: u64
  ce_synproxy_loaded :: bool
  ce_ringbuf_active :: bool

section \<open>Counters over the CPUs\<close>

definition caly_percpu_sum :: "ctl_kern \<Rightarrow> caly_map_id \<Rightarrow> u32 \<Rightarrow> int \<Rightarrow> u64 option" where
  "caly_percpu_sum k mid key ncpus =
     (if \<not> kq_fd k mid then None
      else case kq_percpu k mid key of
        NoEntry \<Rightarrow> Some 0
      | LookupErr \<Rightarrow> None
      | PerCpu v \<Rightarrow> Some (foldl (\<lambda>t c. t + v c) 0 [0..<nat ncpus]))"

definition kq_cpus :: "ctl_kern \<Rightarrow> int" where
  "kq_cpus k = (if fst (kq_ncpus k) \<le> 0 then snd (kq_ncpus k) else fst (kq_ncpus k))"

text \<open>The results are the values written and whether all of them could be read; \<^term>\<open>None\<close> when
  nothing was written.\<close>

definition read_sums :: "ctl_kern \<Rightarrow> caly_map_id \<Rightarrow> u32 list \<Rightarrow> bool \<times> u64 list" where
  "read_sums k mid ks = (list_all (\<lambda>i. caly_percpu_sum k mid i (kq_cpus k) \<noteq> None) ks,
     map (\<lambda>i. case caly_percpu_sum k mid i (kq_cpus k) of None \<Rightarrow> 0 | Some v \<Rightarrow> v) ks)"

abbreviation (input) CALY_G_MAX :: nat where "CALY_G_MAX \<equiv> 11"

definition caly_bpf_read_gauges :: "ctl_kern \<Rightarrow> nat \<Rightarrow> (bool \<times> u64 list) option" where
  "caly_bpf_read_gauges k n =
     (if n = 0 \<or> \<not> kq_fd k MID_GLOBAL \<or> kq_cpus k \<le> 0 \<or> \<not> kq_calloc k ''gauges'' then None
      else let (ok, vs) = read_sums k MID_GLOBAL (map of_nat [0..<min n CALY_G_MAX])
           in Some (ok, vs @ replicate (n - CALY_G_MAX) 0))"

definition caly_bpf_read_stats :: "ctl_kern \<Rightarrow> nat \<Rightarrow> (bool \<times> u64 list \<times> u64 list) option" where
  "caly_bpf_read_stats k n =
     (if n = 0 \<or> kq_cpus k \<le> 0 \<or> \<not> kq_calloc k ''stats'' then None
      else let (okp, pkts) = read_sums k MID_STATS (map of_nat [0..<n]);
               (okb, bytes) = read_sums k MID_STATS_B (map of_nat [0..<n])
           in Some (okp \<and> okb, pkts, bytes))"

section \<open>Walking a map\<close>

text \<open>The buffers double from 64 entries; they are full at these lengths.\<close>

definition grown :: "nat \<Rightarrow> bool" where
  "grown n \<longleftrightarrow> n \<in> set (0 # map (\<lambda>k. 64 * 2 ^ k) [0..<16])"

partial_function (option) collect_loop ::
  "(('k \<rightharpoonup> 'v) \<Rightarrow> 'k option \<Rightarrow> 'k option) \<Rightarrow> (nat \<Rightarrow> bool) \<Rightarrow> ('k \<rightharpoonup> 'v) \<Rightarrow> 'k option \<Rightarrow> ('k \<times> 'v) list
   \<Rightarrow> ('k \<times> 'v) list option option" where
  "collect_loop nxt mem m cur acc =
     (case nxt m cur of None \<Rightarrow> Some (Some acc)
      | Some k \<Rightarrow>
          (case m k of None \<Rightarrow> collect_loop nxt mem m (Some k) acc
           | Some v \<Rightarrow>
               if grown (length acc) \<and> \<not> mem (length acc) then Some None
               else if length acc + 1 \<ge> 2000000 then Some (Some (acc @ [(k, v)]))
               else collect_loop nxt mem m (Some k) (acc @ [(k, v)])))"

definition ctl_map_collect ::
  "(('k \<rightharpoonup> 'v) \<Rightarrow> 'k option \<Rightarrow> 'k option) \<Rightarrow> (nat \<Rightarrow> bool) \<Rightarrow> ('k \<rightharpoonup> 'v) \<Rightarrow> ('k \<times> 'v) list option option" where
  "ctl_map_collect nxt mem m = collect_loop nxt mem m None []"

function count_loop :: "(('k \<rightharpoonup> 'v) \<Rightarrow> 'k option \<Rightarrow> 'k option) \<Rightarrow> ('k \<rightharpoonup> 'v) \<Rightarrow> 'k option \<Rightarrow> nat \<Rightarrow> nat" where
  "count_loop nxt m cur cnt =
     (case nxt m cur of None \<Rightarrow> cnt
      | Some k \<Rightarrow> if cnt + 1 > unat CALY_MAP_ENTRIES_MAX then cnt + 1 else count_loop nxt m (Some k) (cnt + 1))"
  by pat_completeness auto

termination
  by (relation "measure (\<lambda>(_, _, _, cnt). unat CALY_MAP_ENTRIES_MAX - cnt)") auto

declare count_loop.simps [simp del]

text \<open>\<open>caly_bpf_map_count\<close> gives -1 for a missing map, which \<open>ctl_count\<close> turns into 0.\<close>

definition ctl_count :: "bool \<Rightarrow> (('k \<rightharpoonup> 'v) \<Rightarrow> 'k option \<Rightarrow> 'k option) \<Rightarrow> ('k \<rightharpoonup> 'v) \<Rightarrow> u64" where
  "ctl_count fd nxt m = (if fd then of_nat (count_loop nxt m None 0) else 0)"

section \<open>Addresses\<close>

definition key_bytes :: "src_key \<Rightarrow> bytes" where
  "key_bytes k = (case k of K4 w \<Rightarrow> word_bytes w @ replicate 12 0
     | K6 q \<Rightarrow> word_bytes (q0 q) @ word_bytes (q1 q) @ word_bytes (q2 q) @ word_bytes (q3 q))"

definition quad_bytes :: "bool \<Rightarrow> quad \<Rightarrow> bytes" where
  "quad_bytes v4 q = key_bytes (if v4 then K4 (q0 q) else K6 q)"

text \<open>The buffers are large enough for every address; a prefix longer than its buffer is cut, which
  \<open>caly_snprintf\<close> reports as an error.\<close>

definition caly_format_ip :: "ctl_kern \<Rightarrow> u32 \<Rightarrow> bytes \<Rightarrow> string option" where
  "caly_format_ip k family addr =
     (if family = CALY_AF_INET \<or> family = CALY_AF_INET6 then kq_ntop k family addr else None)"

definition caly_format_cidr :: "ctl_kern \<Rightarrow> caly_cidr \<Rightarrow> string option" where
  "caly_format_cidr k c = do {
     ip \<leftarrow> caly_format_ip k (cd_family c) (cd_addr c);
     let t = ip @ ''/'' @ dec_str (unat (cd_prefixlen c));
     if length t < CALY_CIDR_STRLEN then Some t else None }"

definition ctl_emit_addr :: "ctl_kern \<Rightarrow> u32 \<Rightarrow> bytes \<Rightarrow> jval" where
  "ctl_emit_addr k family addr = (case caly_format_ip k family addr of None \<Rightarrow> JStr ''?'' | Some t \<Rightarrow> JStr t)"

definition ctl_emit_cidr :: "ctl_kern \<Rightarrow> caly_cidr \<Rightarrow> jval" where
  "ctl_emit_cidr k c = (case caly_format_cidr k c of None \<Rightarrow> JStr ''?'' | Some t \<Rightarrow> JStr t)"

section \<open>Requests without side effects\<close>

text \<open>A handler's result: the error it reports, if any, and what it has written by then.\<close>

type_synonym hres = "(string \<times> string) option \<times> string list"

definition hok :: "jval \<Rightarrow> hres" where
  "hok v = (None, j_tokens v)"

definition herr :: "string \<Rightarrow> string \<Rightarrow> hres" where
  "herr code msg = (Some (code, msg), [])"

text \<open>An optional integer argument: the default stays when it is missing or not a number.\<close>

definition arg_u64 :: "jval \<Rightarrow> string \<Rightarrow> u64 \<Rightarrow> u64" where
  "arg_u64 args key dflt = (case j_obj_get args key of None \<Rightarrow> dflt
     | Some v \<Rightarrow> (case j_as_u64 v of None \<Rightarrow> dflt | Some n \<Rightarrow> n))"

definition CTL_FAM_ANY :: u32 where "CTL_FAM_ANY = 0"

definition str_in :: "string \<Rightarrow> string list \<Rightarrow> bool" where
  "str_in s names = list_ex (caly_strcaseeq s) names"

definition ctl_arg_family :: "jval \<Rightarrow> u32" where
  "ctl_arg_family args =
     (case j_obj_get args ''family'' of None \<Rightarrow> CTL_FAM_ANY
      | Some v \<Rightarrow>
          (case j_as_u64 v of
             Some n \<Rightarrow> if n = 4 then CALY_AF_INET else if n = 6 then CALY_AF_INET6 else CTL_FAM_ANY
           | None \<Rightarrow>
               (case j_str_dup (Some v) 16 of None \<Rightarrow> CTL_FAM_ANY
                | Some buf \<Rightarrow>
                    if str_in buf [''4'', ''v4'', ''inet'', ''ipv4''] then CALY_AF_INET
                    else if str_in buf [''6'', ''v6'', ''inet6'', ''ipv6''] then CALY_AF_INET6
                    else CTL_FAM_ANY)))"

definition h_ping :: hres where
  "h_ping = hok (JObj [(''pong'', JBool True)])"

definition ctl_dataplane_str :: "u32 \<Rightarrow> string" where
  "ctl_dataplane_str dp =
     (if dp = 1 then ''xdp-native'' else if dp = 2 then ''xdp-generic'' else if dp = 3 then ''tc''
      else if dp = 4 then ''nftables'' else if dp = 5 then ''iptables'' else if dp = 0 then ''auto'' else ''none'')"

definition tb_kinds :: "caly_tb_kind list" where
  "tb_kinds = [TB_PPS, TB_BPS, TB_SYN, TB_UDP, TB_ICMP, TB_NEWCONN]"

text \<open>The loop \<open>i < (int)count && i < CALY_MGMT_PORTS_MAX\<close>: a count with its top bit set is negative.\<close>

definition mgmt_shown :: "u32 \<Rightarrow> u16 list \<Rightarrow> u16 list" where
  "mgmt_shown cnt ports = take (if bit cnt 31 then 0 else min (unat cnt) CALY_MGMT_PORTS_MAX) ports"

definition ctl_emit_config :: "fw_config \<Rightarrow> jval" where
  "ctl_emit_config c = JObj
     [(''abi_version'', jn (cfg_abi_version c)), (''config_gen'', jn (cfg_config_gen c)), (''flags'', jn (cfg_flags c)),
      (''tb_rate'', JArr (map (\<lambda>i. jn (cfg_tb_rate c i)) tb_kinds)), (''tb_burst'', JArr (map (\<lambda>i. jn (cfg_tb_burst c i)) tb_kinds)),
      (''global_pps_hi'', jn (cfg_global_pps_hi c)), (''global_pps_lo'', jn (cfg_global_pps_lo c)),
      (''global_bps_hi'', jn (cfg_global_bps_hi c)), (''global_bps_lo'', jn (cfg_global_bps_lo c)),
      (''global_syn_pps_hi'', jn (cfg_global_syn_pps_hi c)), (''global_syn_pps_lo'', jn (cfg_global_syn_pps_lo c)),
      (''attack_dwell_ns'', jn (cfg_attack_dwell_ns c)), (''syn_fallback_pps'', jn (cfg_syn_fallback_pps c)),
      (''ban_ttl_base_ns'', jn (cfg_ban_ttl_base_ns c)), (''ban_ttl_max_ns'', jn (cfg_ban_ttl_max_ns c)),
      (''strike_window_ns'', jn (cfg_strike_window_ns c)), (''scan_window_ns'', jn (cfg_scan_window_ns c)),
      (''ct_tcp_est_ns'', jn (cfg_ct_tcp_est_ns c)), (''ct_udp_ns'', jn (cfg_ct_udp_ns c)),
      (''mode'', jn (ucast (cfg_mode c))), (''strike_limit'', jn (ucast (cfg_strike_limit c))),
      (''scan_port_threshold'', jn (ucast (cfg_scan_port_threshold c))), (''log_sample_rate'', jn (ucast (cfg_log_sample_rate c))),
      (''log_level'', jn (ucast (cfg_log_level c))), (''dataplane_pref'', jn (ucast (cfg_dataplane_pref c))),
      (''mgmt_tcp_ports'', JArr (map (\<lambda>p. jn (ucast p)) (mgmt_shown (cfg_mgmt_tcp_count c) (cfg_mgmt_tcp_ports c)))),
      (''mgmt_udp_ports'', JArr (map (\<lambda>p. jn (ucast p)) (mgmt_shown (cfg_mgmt_udp_count c) (cfg_mgmt_udp_ports c))))]"

definition status_link :: "caly_link \<Rightarrow> jval" where
  "status_link l = JObj
     [(''name'', j_strz (ln_ifname l)), (''ifindex'', jn (ucast (ln_ifindex l))),
      (''dataplane'', j_strz (ctl_dataplane_str (ln_dataplane l))), (''attached'', JBool (ln_xdp_attached l)),
      (''tc'', JBool (ln_tc_attached l)), (''prog_id'', jn (ucast (ln_prog_id l)))]"

definition best_dataplane :: "caly_link list \<Rightarrow> u32" where
  "best_dataplane ls = foldl (\<lambda>best l. if ln_dataplane l \<noteq> 0 \<and> (best = 0 \<or> ln_dataplane l < best) then ln_dataplane l else best) 0 ls"

definition status_counts :: "ctl_kern \<Rightarrow> dp_state \<Rightarrow> jval" where
  "status_counts k s =
     (let lpm = (\<lambda>m4 m6 m. jn (ctl_count (kq_fd k m4) (kq_next_lpm k m4) m + ctl_count (kq_fd k m6) (kq_next_lpm k m6) m))
      in JObj
        [(''bans'', jn (ctl_count (kq_fd k MID_BAN4) (gk_next_ban (kq_gc k) MID_BAN4) (dp_ban s) +
                        ctl_count (kq_fd k MID_BAN6) (gk_next_ban (kq_gc k) MID_BAN6) (dp_ban s))),
         (''allow'', lpm MID_ALLOW4 MID_ALLOW6 (dp_allow s)), (''block'', lpm MID_BLOCK4 MID_BLOCK6 (dp_block s)),
         (''local'', lpm MID_LOCAL4 MID_LOCAL6 (dp_local s)),
         (''conn'', jn (ctl_count (kq_fd k MID_CONN) (gk_next_conn (kq_gc k)) (dp_conn s))),
         (''rate'', jn (ctl_count (kq_fd k MID_RATE4) (gk_next_rate (kq_gc k) MID_RATE4) (dp_rate s) +
                        ctl_count (kq_fd k MID_RATE6) (gk_next_rate (kq_gc k) MID_RATE6) (dp_rate s))),
         (''scan'', jn (ctl_count (kq_fd k MID_SCAN4) (gk_next_scan (kq_gc k) MID_SCAN4) (dp_scan s) +
                        ctl_count (kq_fd k MID_SCAN6) (gk_next_scan (kq_gc k) MID_SCAN6) (dp_scan s)))])"

definition h_status :: "ctl_kern \<Rightarrow> caly_ctl_env \<Rightarrow> caly_daemon \<Rightarrow> hres" where
  "h_status k env d =
     (let uptime = (if kq_wall k > ce_start_wall_ns env then kq_wall k - ce_start_wall_ns env else 0);
          dp = j_strz (ctl_dataplane_str (best_dataplane (d_links d)))
      in hok (JObj
        [(''version'', j_strz (ce_version env)), (''pid'', j_i64 (ce_pid env)), (''uptime_ns'', jn uptime),
         (''mode'', jn (ucast (d_cur_mode d))), (''base_mode'', jn (ucast (d_base_mode d))),
         (''synproxy'', JBool (ce_synproxy_loaded env)), (''ringbuf'', JBool (ce_ringbuf_active env)),
         (''events_seen'', jn (ce_events_seen env)), (''events_lost'', jn (ce_events_lost env)),
         (''interfaces'', JArr (map status_link (d_links d))), (''dataplane'', dp), (''xdp_mode'', dp),
         (''counts'', status_counts k (d_dp d)), (''config'', ctl_emit_config (d_cfg d))]))"

definition h_stats :: "ctl_kern \<Rightarrow> hres" where
  "h_stats k =
     (if \<not> kq_calloc k ''arrays'' then herr ''internal'' ''out of memory''
      else case caly_bpf_read_stats k (unat STAT_MAX) of
        Some (True, pkts, bytes) \<Rightarrow>
          (let gauges = (case caly_bpf_read_gauges k CALY_G_MAX of None \<Rightarrow> replicate CALY_G_MAX 0 | Some (_, vs) \<Rightarrow> vs)
           in hok (JObj [(''ts_ns'', jn (kq_wall k)), (''packets'', JArr (map jn pkts)), (''bytes'', JArr (map jn bytes)),
                         (''gauges'', JArr (map jn gauges))]))
      | _ \<Rightarrow> herr ''internal'' ''cannot read the statistics map'')"

section \<open>Top talkers\<close>

definition top_key :: "nat \<Rightarrow> ctl_top_row \<Rightarrow> u64" where
  "top_key fld r =
     (if fld = 1 then ss_bytes (tr_st r) else if fld = 2 then ss_drops (tr_st r)
      else if fld = 3 then ss_drop_bytes (tr_st r) else if fld = 4 then ss_last_seen_ns (tr_st r)
      else ss_packets (tr_st r))"

definition ctl_top_cmp :: "nat \<Rightarrow> ctl_top_row \<Rightarrow> ctl_top_row \<Rightarrow> int" where
  "ctl_top_cmp fld x y = (if top_key fld x < top_key fld y then 1 else if top_key fld x > top_key fld y then -1 else 0)"

definition top_row :: "bool \<Rightarrow> src_key \<times> src_stats \<Rightarrow> ctl_top_row" where
  "top_row v6 e = \<lparr>tr_family = (if v6 then CALY_AF_INET6 else CALY_AF_INET), tr_addr = key_bytes (fst e), tr_st = snd e\<rparr>"

definition ctl_top_gather ::
  "ctl_kern \<Rightarrow> caly_map_id \<Rightarrow> bool \<Rightarrow> (src_key \<rightharpoonup> src_stats) \<Rightarrow> ctl_top_row list \<Rightarrow> ctl_top_row list option option" where
  "ctl_top_gather k mid v6 m rows =
     (if \<not> kq_fd k mid then Some (Some rows)
      else map_option (\<lambda>r. case r of None \<Rightarrow> None
        | Some es \<Rightarrow>
            if list_all (\<lambda>n. grown n \<longrightarrow> kq_realloc k n) [length rows..<length rows + length es]
            then Some (rows @ map (top_row v6) es) else None)
        (ctl_map_collect (gk_next_top (kq_gc k) mid) (kq_realloc k) m))"

definition top_limit :: "u64 \<Rightarrow> nat" where
  "top_limit n = unat (if n = 0 \<or> n > 100000 then 100000 else n)"

definition top_sort_field :: "jval \<Rightarrow> nat" where
  "top_sort_field args =
     (case j_str_dup (j_obj_get args ''sort'') 16 of None \<Rightarrow> 0
      | Some s \<Rightarrow>
          if caly_strcaseeq s ''bytes'' then 1 else if caly_strcaseeq s ''drops'' then 2
          else if caly_strcaseeq s ''drop_bytes'' then 3 else if caly_strcaseeq s ''last_seen'' then 4 else 0)"

definition top_entry :: "ctl_kern \<Rightarrow> ctl_top_row \<Rightarrow> jval" where
  "top_entry k r = JObj
     [(''addr'', ctl_emit_addr k (tr_family r) (tr_addr r)), (''family'', jn (ucast (tr_family r))),
      (''packets'', jn (ss_packets (tr_st r))), (''bytes'', jn (ss_bytes (tr_st r))), (''drops'', jn (ss_drops (tr_st r))),
      (''drop_bytes'', jn (ss_drop_bytes (tr_st r))), (''first_seen_ns'', jn (ss_first_seen_ns (tr_st r))),
      (''last_seen_ns'', jn (ss_last_seen_ns (tr_st r))), (''last_reason'', jn (ucast (ss_last_reason (tr_st r))))]"

text \<open>The rows of one or both families.\<close>

definition top_rows :: "ctl_kern \<Rightarrow> u32 \<Rightarrow> (src_key \<rightharpoonup> src_stats) \<Rightarrow> ctl_top_row list option option" where
  "top_rows k fam m =
     (case (if fam = CALY_AF_INET6 then Some (Some []) else ctl_top_gather k MID_TOP4 False m []) of
        None \<Rightarrow> None | Some None \<Rightarrow> Some None
      | Some (Some rows) \<Rightarrow> if fam = CALY_AF_INET then Some (Some rows) else ctl_top_gather k MID_TOP6 True m rows)"

definition h_top :: "ctl_kern \<Rightarrow> jval \<Rightarrow> caly_daemon \<Rightarrow> hres option" where
  "h_top k args d =
     map_option (\<lambda>r. case r of None \<Rightarrow> herr ''internal'' ''top-talker query failed''
       | Some rows \<Rightarrow>
           (let rows = (if length rows > 1 then kq_qsort k (ctl_top_cmp (top_sort_field args)) rows else rows)
            in hok (JObj [(''sources'', JArr (map (top_entry k) (take (top_limit (arg_u64 args ''n'' 20)) rows)))])))
       (top_rows k (ctl_arg_family args) (dp_top (d_dp d)))"

section \<open>Lists and flows\<close>

definition ban_json :: "ctl_kern \<Rightarrow> bool \<Rightarrow> src_key \<times> ban_entry \<Rightarrow> jval" where
  "ban_json k v6 x = (let e = snd x in JObj
     [(''cidr'', ctl_emit_addr k (if v6 then CALY_AF_INET6 else CALY_AF_INET) (key_bytes (fst x))),
      (''family'', jn (if v6 then 6 else 4)), (''expiry_ns'', jn (be_expiry_ns e)), (''first_seen_ns'', jn (be_first_seen_ns e)),
      (''last_hit_ns'', jn (be_last_hit_ns e)), (''cur_ttl_ns'', jn (be_cur_ttl_ns e)), (''hit_pkts'', jn (be_hit_pkts e)),
      (''hit_bytes'', jn (be_hit_bytes e)), (''reason'', jn (ucast (be_reason e))), (''strikes'', jn (ucast (be_strikes e))),
      (''offences'', jn (ucast (be_offences e))), (''flags'', jn (ucast (be_flags e)))])"

text \<open>The entries one map adds to a list: none when the map is missing or the walk fails.\<close>

definition list_map ::
  "bool \<Rightarrow> (('k \<rightharpoonup> 'v) \<Rightarrow> 'k option \<Rightarrow> 'k option) \<Rightarrow> (nat \<Rightarrow> bool) \<Rightarrow> ('k \<times> 'v \<Rightarrow> jval) \<Rightarrow> ('k \<rightharpoonup> 'v) \<Rightarrow> jval list option" where
  "list_map fd nxt mem show_entry m =
     (if \<not> fd then Some []
      else map_option (\<lambda>r. case r of None \<Rightarrow> [] | Some es \<Rightarrow> map show_entry es) (ctl_map_collect nxt mem m))"

definition h_list_bans :: "ctl_kern \<Rightarrow> caly_map_id \<Rightarrow> bool \<Rightarrow> dp_state \<Rightarrow> jval list option" where
  "h_list_bans k mid v6 s =
     list_map (kq_fd k mid) (gk_next_ban (kq_gc k) mid) (kq_realloc k) (ban_json k v6) (dp_ban s)"

definition lpm_cidr :: "bool \<Rightarrow> lpm_key \<Rightarrow> caly_cidr" where
  "lpm_cidr v6 kx = \<lparr>cd_addr = key_bytes (fst kx), cd_prefixlen = of_nat (snd kx),
     cd_family = (if v6 then CALY_AF_INET6 else CALY_AF_INET)\<rparr>"

definition rule_json :: "ctl_kern \<Rightarrow> bool \<Rightarrow> lpm_key \<times> rule_meta \<Rightarrow> jval" where
  "rule_json k v6 x = (let m = snd x in JObj
     [(''cidr'', ctl_emit_cidr k (lpm_cidr v6 (fst x))), (''family'', jn (if v6 then 6 else 4)),
      (''flags'', jn (ucast (rm_flags m))), (''tag'', jn (ucast (rm_tag m))), (''added_ns'', jn (rm_added_ns m)),
      (''hits'', jn (rm_hits m))])"

definition h_list_lpm :: "ctl_kern \<Rightarrow> caly_map_id \<Rightarrow> bool \<Rightarrow> dp_state \<Rightarrow> jval list option" where
  "h_list_lpm k mid v6 s =
     list_map (kq_fd k mid) (kq_next_lpm k mid) (kq_realloc k) (rule_json k v6) (lpm_of mid s)"

text \<open>The two maps of a list, and the list of that name.\<close>

definition both :: "jval list option \<Rightarrow> jval list option \<Rightarrow> hres option" where
  "both a b = do { xs \<leftarrow> a; ys \<leftarrow> b; Some (hok (JObj [(''entries'', JArr (xs @ ys))])) }"

definition h_list :: "ctl_kern \<Rightarrow> jval \<Rightarrow> caly_daemon \<Rightarrow> hres option" where
  "h_list k args d =
     (let s = d_dp d in
      case j_str_dup (j_obj_get args ''what'') 16 of
        None \<Rightarrow> Some (herr ''bad_request'' ''missing 'what' (allow|block|local|bans)'')
      | Some what \<Rightarrow>
          if caly_strcaseeq what ''bans'' then both (h_list_bans k MID_BAN4 False s) (h_list_bans k MID_BAN6 True s)
          else if caly_strcaseeq what ''allow'' then both (h_list_lpm k MID_ALLOW4 False s) (h_list_lpm k MID_ALLOW6 True s)
          else if caly_strcaseeq what ''block'' then both (h_list_lpm k MID_BLOCK4 False s) (h_list_lpm k MID_BLOCK6 True s)
          else if caly_strcaseeq what ''local'' then both (h_list_lpm k MID_LOCAL4 False s) (h_list_lpm k MID_LOCAL6 True s)
          else Some (Some (''bad_request'', ''unknown list; use allow|block|local|bans''),
                     [CHR 0x7B # sb_key ''entries'' @ ''['']))"

definition ctl_proto_num :: "string \<Rightarrow> u32" where
  "ctl_proto_num s =
     (if caly_strcaseeq s ''tcp'' then CALY_IPPROTO_TCP else if caly_strcaseeq s ''udp'' then CALY_IPPROTO_UDP
      else if caly_strcaseeq s ''icmp'' then CALY_IPPROTO_ICMP
      else if caly_strcaseeq s ''icmpv6'' \<or> caly_strcaseeq s ''icmp6'' then CALY_IPPROTO_ICMPV6 else 0)"

definition flow_json :: "ctl_kern \<Rightarrow> conn_key \<times> conn_state \<Rightarrow> jval" where
  "flow_json k x =
     (let key = fst x; st = snd x; v4 = (ucast (ck_family key) = (CALY_AF_INET :: u32));
          fam = (if v4 then CALY_AF_INET else CALY_AF_INET6)
      in JObj
        [(''family'', jn (ucast (ck_family key))), (''proto'', jn (ucast (ck_proto key))),
         (''saddr'', ctl_emit_addr k fam (quad_bytes v4 (ck_saddr key))), (''sport'', jn (ucast (ntohs (ck_sport key)))),
         (''daddr'', ctl_emit_addr k fam (quad_bytes v4 (ck_daddr key))), (''dport'', jn (ucast (ntohs (ck_dport key)))),
         (''state'', jn (ucast (cs_state st))), (''flags'', jn (ucast (cs_flags st))), (''pkts_in'', jn (cs_pkts_in st)),
         (''bytes_in'', jn (cs_bytes_in st)), (''pkts_out'', jn (cs_pkts_out st)), (''bytes_out'', jn (cs_bytes_out st)),
         (''created_ns'', jn (cs_created_ns st)), (''last_seen_ns'', jn (cs_last_seen_ns st)),
         (''ifindex'', jn (ucast (cs_ifindex st)))])"

definition h_conntrack :: "ctl_kern \<Rightarrow> jval \<Rightarrow> caly_daemon \<Rightarrow> hres option" where
  "h_conntrack k args d =
     (let want = (case j_str_dup (j_obj_get args ''proto'') 8 of None \<Rightarrow> 0 | Some p \<Rightarrow> ctl_proto_num p);
          keep = (\<lambda>x. want = 0 \<or> ucast (ck_proto (fst x)) = want)
      in if \<not> kq_fd k MID_CONN then Some (hok (JObj [(''flows'', JArr [])]))
         else map_option (\<lambda>r. case r of
             None \<Rightarrow> (Some (''internal'', ''conntrack dump failed''), [CHR 0x7B # sb_key ''flows'' @ ''[''])
           | Some es \<Rightarrow> hok (JObj [(''flows'', JArr (map (flow_json k) (take (top_limit (arg_u64 args ''limit'' 50)) (filter keep es))))]))
           (ctl_map_collect (gk_next_conn (kq_gc k)) (kq_realloc k) (dp_conn (d_dp d))))"

section \<open>Events\<close>

definition event_json :: "ctl_kern \<Rightarrow> event \<Rightarrow> jval" where
  "event_json k ev =
     (let v4 = (ev_family ev = CALY_AF_INET); fam = (if v4 then CALY_AF_INET else CALY_AF_INET6)
      in JObj [(''stream'', JStr ''events''), (''event'', JObj
        [(''ts_ns'', jn (ev_ts_ns ev)), (''ban_ttl_ns'', jn (ev_ban_ttl_ns ev)), (''value'', jn (ev_value ev)),
         (''saddr'', ctl_emit_addr k fam (quad_bytes v4 (ev_saddr ev))), (''daddr'', ctl_emit_addr k fam (quad_bytes v4 (ev_daddr ev))),
         (''family'', jn (ucast (ev_family ev))), (''ifindex'', jn (ucast (ev_ifindex ev))), (''reason'', jn (ucast (ev_reason ev))),
         (''reason_str'', j_strz (stat_reason_str (ev_reason ev))), (''verdict'', jn (ucast (ev_verdict ev))),
         (''proto'', jn (ucast (ev_proto ev))), (''pkt_len'', jn (ucast (ev_pkt_len ev))),
         (''sport'', jn (ucast (ntohs (ev_sport ev)))), (''dport'', jn (ucast (ntohs (ev_dport ev)))),
         (''tcp_flags'', jn (ucast (ev_tcp_flags ev))), (''mode'', jn (ucast (ev_mode ev)))])])"

definition caly_ctl_format_event :: "ctl_kern \<Rightarrow> event \<Rightarrow> nat \<Rightarrow> string option" where
  "caly_ctl_format_event k ev cap =
     (let s = sb_puts (kq_realloc k) (j_tokens (event_json k ev) @ [[CHR 0x0A]])
      in if \<not> sb_err s \<and> length (sb_text s) < cap then Some (sb_text s) else None)"

section \<open>What the buffer holds\<close>

lemma sb_grow_fits: "need \<le> CTL_RESP_MAX + 1 \<Longrightarrow> \<exists>c. sb_grow need cap = Some c \<and> need \<le> c"
  by (induction need cap rule: sb_grow.induct) (subst sb_grow.simps, auto)

lemma sb_write_ok:
  assumes "\<not> sb_err (sb_write mem s p)"
  shows "\<not> sb_err s \<and> sb_text (sb_write mem s p) = sb_text s @ p \<and> length (sb_text s) + length p \<le> CTL_RESP_MAX"
  using assms by (auto simp: sb_write_def sb_reserve_def Let_def split: if_splits option.splits)

lemma sb_write_fits:
  assumes "\<And>c. mem c" "\<not> sb_err s" "length (sb_text s) + length p \<le> CTL_RESP_MAX"
  shows "\<not> sb_err (sb_write mem s p)"
proof -
  obtain c where "sb_grow (length (sb_text s) + length p + 1) (if sb_cap s = 0 then 1024 else sb_cap s) = Some c"
    using sb_grow_fits [of "length (sb_text s) + length p + 1"] assms(3) by auto
  then show ?thesis using assms by (auto simp: sb_write_def sb_reserve_def Let_def)
qed

lemma sb_puts_ok:
  "\<not> sb_err (foldl (sb_write mem) s ps) \<Longrightarrow>
     \<not> sb_err s \<and> sb_text (foldl (sb_write mem) s ps) = sb_text s @ concat ps \<and>
     (length (sb_text s) \<le> CTL_RESP_MAX \<longrightarrow> length (sb_text s) + length (concat ps) \<le> CTL_RESP_MAX)"
proof (induction ps arbitrary: s)
  case (Cons p ps)
  then show ?case using sb_write_ok [of mem s p] by (fastforce simp: add.assoc)
qed simp

lemma sb_puts_fits:
  assumes "\<And>c. mem c"
  shows "\<not> sb_err s \<Longrightarrow> length (sb_text s) + length (concat ps) \<le> CTL_RESP_MAX \<Longrightarrow> \<not> sb_err (foldl (sb_write mem) s ps)"
proof (induction ps arbitrary: s)
  case (Cons p ps)
  have "\<not> sb_err (sb_write mem s p)" using sb_write_fits [OF assms] Cons.prems by simp
  then show ?case using Cons.IH Cons.prems sb_write_ok by fastforce
qed simp

text \<open>The buffer either holds everything that was written or is marked; with memory available it is
  marked exactly when the text is longer than seven mebibytes.\<close>

lemma sb_puts_text: "\<not> sb_err (sb_puts mem ps) \<Longrightarrow> sb_text (sb_puts mem ps) = concat ps"
  using sb_puts_ok [of mem sb_init ps] by (simp add: sb_puts_def sb_init_def)

lemma sb_puts_err:
  assumes "\<And>c. mem c"
  shows "sb_err (sb_puts mem ps) \<longleftrightarrow> length (concat ps) > CTL_RESP_MAX"
proof
  assume "sb_err (sb_puts mem ps)"
  then show "length (concat ps) > CTL_RESP_MAX"
    using sb_puts_fits [where mem = mem and s = sb_init and ps = ps, OF assms] by (fastforce simp: sb_puts_def sb_init_def)
next
  assume "length (concat ps) > CTL_RESP_MAX"
  then show "sb_err (sb_puts mem ps)" using sb_puts_ok [of mem sb_init ps] by (fastforce simp: sb_puts_def sb_init_def)
qed

lemma concat_sep_tokens: "concat (sep_tokens tss) = commas (map concat tss)"
proof (cases tss)
  case (Cons ts rest)
  have "concat (concat (map (\<lambda>ts. '','' # ts) rest)) = concat (map (\<lambda>t. '','' @ t) (map concat rest))"
    by (induction rest) auto
  then show ?thesis using Cons by (simp add: sep_tokens_def commas_def comp_def)
qed (simp add: sep_tokens_def commas_def)

lemma j_tokens_print: "concat (j_tokens v) = j_print v"
  by (induction v) (auto simp: concat_sep_tokens comp_def intro!: arg_cong [where f = commas])

text \<open>A printed value has no line break, so a reply is one line.\<close>

lemma escape_no_newline: "CHR 0x0A \<notin> set (j_escape c)"
proof (cases "ccode c < 32")
  case True
  have "ccode c div 16 < 16" "ccode c mod 16 < 16" using True by simp_all
  moreover have "digit_val (CHR 0x0A) = 99" by (simp add: digit_val_def isdigit_def ccode_def)
  ultimately have "hex_digit (ccode c div 16) \<noteq> CHR 0x0A" "hex_digit (ccode c mod 16) \<noteq> CHR 0x0A"
    using hex_digit_val [of "ccode c div 16"] hex_digit_val [of "ccode c mod 16"] by (metis less_irrefl numeral_less_iff order.strict_trans semiring_norm)+
  then show ?thesis by (auto simp: j_escape_def)
qed (auto simp: j_escape_def ccode_def)

lemma jstr_no_newline: "CHR 0x0A \<notin> set (sb_jstr s)"
  using escape_no_newline by (auto simp: sb_jstr_def)

lemma commas_set: "x \<in> set (commas ts) \<Longrightarrow> x = CHR '','' \<or> (\<exists>t \<in> set ts. x \<in> set t)"
  by (cases ts) (auto simp: commas_def split: if_splits)

lemma print_no_newline: "CHR 0x0A \<notin> set (j_print v)"
proof (induction v)
  case (JNum v neg)
  have "isdigit x" if "x \<in> set (dec_str (unat v))" for x
    using dec_str_digits(1) [of "unat v"] that by (simp add: list_all_iff)
  from this [of "CHR 0x0A"] have "CHR 0x0A \<notin> set (dec_str (unat v))" by (auto simp: isdigit_def ccode_def)
  then show ?case by (simp add: sb_u64_def)
qed (auto simp: jstr_no_newline sb_key_def dest!: commas_set)

section \<open>A walk sees every entry once\<close>

text \<open>The entries of a map in the kernel's order.\<close>

definition entries :: "('k \<rightharpoonup> 'v) \<Rightarrow> 'k list \<Rightarrow> ('k \<times> 'v) list" where
  "entries m ks = map (\<lambda>k. (k, the (m k))) (filter (\<lambda>k. m k \<noteq> None) ks)"

lemma entries_find:
  "find (\<lambda>k. m k \<noteq> None) ks = None \<Longrightarrow> entries m ks = []"
  "ks = us @ k # vs \<Longrightarrow> m k = Some v \<Longrightarrow> \<forall>u \<in> set us. m u = None \<Longrightarrow> entries m ks = (k, v) # entries m vs"
  by (auto simp: entries_def find_None_iff filter_empty_conv)

lemma walk_step:
  assumes w: "walks nxt ord" and "ord = xs @ ys" and n: "nxt m cur = find (\<lambda>k. m k \<noteq> None) ys" and k: "nxt m cur = Some k"
  obtains us vs v where "ys = us @ k # vs" "m k = Some v" "entries m ys = (k, v) # entries m vs"
    "nxt m (Some k) = find (\<lambda>k. m k \<noteq> None) vs" "ord = (xs @ us @ [k]) @ vs"
proof -
  obtain us vs where ys: "ys = us @ k # vs" "m k \<noteq> None" "\<forall>u \<in> set us. \<not> m u \<noteq> None"
    using trans [OF sym [OF n] k] unfolding find_split by blast
  then obtain v where v: "m k = Some v" by blast
  have "ord = (xs @ us) @ k # vs" using assms(2) ys(1) by simp
  then have "nxt m (Some k) = find (\<lambda>k. m k \<noteq> None) vs" using w ys(2) unfolding walks_def by blast
  then show ?thesis using that ys v assms(2) entries_find(2) [of ys us k vs m v] by simp
qed

lemma walk_first: "walks nxt ord \<Longrightarrow> nxt m None = find (\<lambda>k. m k \<noteq> None) ord"
  by (simp add: walks_def)

lemma collect_loop_walks:
  assumes w: "walks nxt ord"
  shows "ord = xs @ ys \<Longrightarrow> nxt m cur = find (\<lambda>k. m k \<noteq> None) ys \<Longrightarrow> length acc < 2000000 \<Longrightarrow>
    \<exists>r. collect_loop nxt mem m cur acc = Some r \<and> (r \<noteq> None \<longrightarrow> r = Some (acc @ take (2000000 - length acc) (entries m ys))) \<and>
        ((\<forall>n. mem n) \<longrightarrow> r \<noteq> None)"
proof (induction "length ys" arbitrary: xs ys cur acc rule: less_induct)
  case less
  show ?case
  proof (cases "nxt m cur")
    case None
    then show ?thesis using less.prems(2) by (subst collect_loop.simps) (simp add: entries_find(1))
  next
    case (Some k)
    obtain us vs v where k: "ys = us @ k # vs" "m k = Some v" "entries m ys = (k, v) # entries m vs"
      "nxt m (Some k) = find (\<lambda>k. m k \<noteq> None) vs" "ord = (xs @ us @ [k]) @ vs"
      using walk_step [OF w less.prems(1,2) Some] by metis
    show ?thesis
    proof (cases "length acc + 1 \<ge> 2000000 \<or> grown (length acc) \<and> \<not> mem (length acc)")
      case True
      moreover have "2000000 - length acc = Suc 0" if "length acc + 1 \<ge> 2000000" using that less.prems(3) by simp
      ultimately show ?thesis using Some k(2,3) by (subst collect_loop.simps) (auto simp: take_Suc_Cons)
    next
      case False
      have step: "collect_loop nxt mem m cur acc = collect_loop nxt mem m (Some k) (acc @ [(k, v)])"
        using Some k(2) False by (subst collect_loop.simps) auto
      have "\<exists>r. collect_loop nxt mem m (Some k) (acc @ [(k, v)]) = Some r \<and>
          (r \<noteq> None \<longrightarrow> r = Some ((acc @ [(k, v)]) @ take (2000000 - length (acc @ [(k, v)])) (entries m vs))) \<and> ((\<forall>n. mem n) \<longrightarrow> r \<noteq> None)"
        by (rule less.hyps [OF _ k(5,4)]) (use k(1) False in auto)
      moreover have "2000000 - length acc = Suc (2000000 - Suc (length acc))" using less.prems(3) by simp
      ultimately show ?thesis unfolding step using k(3) by (auto simp: take_Suc_Cons)
    qed
  qed
qed

text \<open>The dump of a map returns; unless memory runs out it holds the first two million entries.\<close>

lemma map_collect_walks:
  assumes "walks nxt ord"
  obtains r where "ctl_map_collect nxt mem m = Some r" "r \<noteq> None \<Longrightarrow> r = Some (take 2000000 (entries m ord))"
    "(\<And>n. mem n) \<Longrightarrow> r \<noteq> None"
  using collect_loop_walks [OF assms, of "[]" ord m None "[]" mem] walk_first [OF assms, of m]
  by (auto simp: ctl_map_collect_def)

lemma map_collect_all:
  assumes "walks nxt ord" "\<And>n. mem n" "length (entries m ord) \<le> 2000000"
  shows "ctl_map_collect nxt mem m = Some (Some (entries m ord))"
  by (rule map_collect_walks [OF assms(1), of mem m]) (use assms(2,3) in auto)

lemma count_loop_walks:
  assumes w: "walks nxt ord"
  shows "ord = xs @ ys \<Longrightarrow> nxt m cur = find (\<lambda>k. m k \<noteq> None) ys \<Longrightarrow>
    cnt + length (entries m ys) \<le> unat CALY_MAP_ENTRIES_MAX \<Longrightarrow> count_loop nxt m cur cnt = cnt + length (entries m ys)"
proof (induction "length ys" arbitrary: xs ys cur cnt rule: less_induct)
  case less
  show ?case
  proof (cases "nxt m cur")
    case None
    then show ?thesis using less.prems(2) by (subst count_loop.simps) (simp add: entries_find(1))
  next
    case (Some k)
    obtain us vs v where k: "ys = us @ k # vs" "entries m ys = (k, v) # entries m vs"
      "nxt m (Some k) = find (\<lambda>k. m k \<noteq> None) vs" "ord = (xs @ us @ [k]) @ vs"
      using walk_step [OF w less.prems(1,2) Some] by metis
    have "count_loop nxt m (Some k) (cnt + 1) = (cnt + 1) + length (entries m vs)"
      by (rule less.hyps [OF _ k(4,3)]) (use k(1,2) less.prems(3) in auto)
    then show ?thesis using Some k(2) less.prems(3) by (subst count_loop.simps) simp
  qed
qed

lemma ctl_count_walks:
  assumes "walks nxt ord" "length (entries m ord) \<le> unat CALY_MAP_ENTRIES_MAX"
  shows "unat (ctl_count True nxt m) = length (entries m ord)"
  using count_loop_walks [OF assms(1) _ walk_first [OF assms(1)], of "[]" 0] assms(2)
  by (simp add: ctl_count_def unat_of_nat)

section \<open>Sums over the CPUs\<close>

lemma foldl_add_word: "unat (foldl (\<lambda>t c. t + v c) (a :: u64) cs) = (unat a + (\<Sum>c\<leftarrow>cs. unat (v c))) mod 2 ^ 64"
proof (induction cs arbitrary: a)
  case (Cons c cs)
  then show ?case by (simp add: unat_word_ariths(1) mod_simps add.assoc)
qed (simp add: unat_u64_less)

lemma percpu_sum_exact:
  assumes "kq_fd k mid" "kq_percpu k mid key = PerCpu v"
  shows "\<exists>t. caly_percpu_sum k mid key n = Some t \<and> unat t = (\<Sum>c\<leftarrow>[0..<nat n]. unat (v c)) mod 2 ^ 64"
  using assms foldl_add_word [of v 0] by (simp add: caly_percpu_sum_def)

section \<open>Lists and top talkers\<close>

text \<open>What C promises of \<open>qsort\<close>, for a comparison that is a total preorder.\<close>

definition cmp_ok :: "('a \<Rightarrow> 'a \<Rightarrow> int) \<Rightarrow> bool" where
  "cmp_ok cmp \<longleftrightarrow> (\<forall>x y. cmp x y < 0 \<longleftrightarrow> cmp y x > 0) \<and> (\<forall>x y z. cmp x y \<le> 0 \<longrightarrow> cmp y z \<le> 0 \<longrightarrow> cmp x z \<le> 0)"

definition qsort_ok :: "(('a \<Rightarrow> 'a \<Rightarrow> int) \<Rightarrow> 'a list \<Rightarrow> 'a list) \<Rightarrow> bool" where
  "qsort_ok q \<longleftrightarrow> (\<forall>cmp xs. cmp_ok cmp \<longrightarrow> mset (q cmp xs) = mset xs \<and> sorted_wrt (\<lambda>x y. cmp x y \<le> 0) (q cmp xs))"

lemma top_cmp_le: "ctl_top_cmp fld x y \<le> 0 \<longleftrightarrow> top_key fld y \<le> top_key fld x"
  by (auto simp: ctl_top_cmp_def)

lemma top_cmp_ok: "cmp_ok (ctl_top_cmp fld)"
  unfolding cmp_ok_def top_cmp_le by (auto simp: ctl_top_cmp_def)

lemma top_sorted:
  assumes "qsort_ok q"
  shows "mset (q (ctl_top_cmp fld) rows) = mset rows"
    "sorted_wrt (\<lambda>x y. top_key fld y \<le> top_key fld x) (q (ctl_top_cmp fld) rows)"
  using assms top_cmp_ok [of fld] unfolding qsort_ok_def top_cmp_le [symmetric] by blast+

lemma top_gather_walks:
  assumes "walks (gk_next_top (kq_gc k) mid) ord" "kq_fd k mid" "\<And>n. kq_realloc k n" "length (entries m ord) \<le> 2000000"
  shows "ctl_top_gather k mid v6 m rows = Some (Some (rows @ map (top_row v6) (entries m ord)))"
  using map_collect_all [where mem = "kq_realloc k" and m = m, OF assms(1,3,4)] assms(2,3) by (simp add: ctl_top_gather_def list_all_iff)

text \<open>The sources of the families asked for.\<close>

definition top_all :: "u32 \<Rightarrow> (src_key \<rightharpoonup> src_stats) \<Rightarrow> src_key list \<Rightarrow> src_key list \<Rightarrow> ctl_top_row list" where
  "top_all fam m o4 o6 =
     (if fam = CALY_AF_INET6 then [] else map (top_row False) (entries m o4)) @
     (if fam = CALY_AF_INET then [] else map (top_row True) (entries m o6))"

lemma top_rows_walks:
  assumes "walks (gk_next_top (kq_gc k) MID_TOP4) o4" "walks (gk_next_top (kq_gc k) MID_TOP6) o6"
    and "\<And>mid. kq_fd k mid" "\<And>n. kq_realloc k n"
    and "length (entries m o4) \<le> 2000000" "length (entries m o6) \<le> 2000000"
  shows "top_rows k fam m = Some (Some (top_all fam m o4 o6))"
  using top_gather_walks [OF assms(1,3,4,5)] top_gather_walks [OF assms(2,3,4,6)]
  by (simp add: top_rows_def top_all_def)

text \<open>The answer to \<open>top\<close> is the top: of the sources of the families asked for, the requested number (20,
  or 100000 at most) is listed in descending order of the requested counter, and no source that is left
  out has a larger value than one that is listed.\<close>

theorem top_talkers_are_top:
  assumes "walks (gk_next_top (kq_gc k) MID_TOP4) o4" "walks (gk_next_top (kq_gc k) MID_TOP6) o6"
    and "\<And>mid. kq_fd k mid" "\<And>n. kq_realloc k n" "qsort_ok (kq_qsort k)"
    and "length (entries (dp_top (d_dp d)) o4) \<le> 2000000" "length (entries (dp_top (d_dp d)) o6) \<le> 2000000"
  shows "\<exists>rows rest. h_top k args d = Some (hok (JObj [(''sources'', JArr (map (top_entry k) rows))])) \<and>
    mset (rows @ rest) = mset (top_all (ctl_arg_family args) (dp_top (d_dp d)) o4 o6) \<and>
    (length rows = top_limit (arg_u64 args ''n'' 20) \<or> rest = []) \<and> length rows \<le> top_limit (arg_u64 args ''n'' 20) \<and>
    sorted_wrt (\<lambda>x y. top_key (top_sort_field args) y \<le> top_key (top_sort_field args) x) (rows @ rest)"
proof -
  let ?lim = "top_limit (arg_u64 args ''n'' 20)" and ?all = "top_all (ctl_arg_family args) (dp_top (d_dp d)) o4 o6"
  let ?f = "top_sort_field args"
  let ?s = "if length ?all > 1 then kq_qsort k (ctl_top_cmp ?f) ?all else ?all"
  have s: "mset ?s = mset ?all" "sorted_wrt (\<lambda>x y. top_key ?f y \<le> top_key ?f x) ?s"
    using top_sorted [OF assms(5)] by (auto simp: le_Suc_eq length_Suc_conv not_less)
  have "h_top k args d = Some (hok (JObj [(''sources'', JArr (map (top_entry k) (take ?lim ?s)))]))"
    using top_rows_walks [OF assms(1-4,6,7)] by (simp add: h_top_def Let_def)
  then show ?thesis using s by (intro exI [of _ "take ?lim ?s"] exI [of _ "drop ?lim ?s"]) (auto simp: min_def)
qed

text \<open>A list is complete: the entries of both maps in the kernel's order.\<close>

lemma list_map_walks:
  assumes "walks nxt ord" "\<And>n. mem n" "length (entries m ord) \<le> 2000000"
  shows "list_map True nxt mem show_entry m = Some (map show_entry (entries m ord))"
  by (simp add: list_map_def map_collect_all [OF assms])

section \<open>Instances\<close>

text \<open>Insertion sort is a \<open>qsort\<close>.\<close>

primrec ins :: "('a \<Rightarrow> 'a \<Rightarrow> int) \<Rightarrow> 'a \<Rightarrow> 'a list \<Rightarrow> 'a list" where
  "ins cmp x [] = [x]"
| "ins cmp x (y # ys) = (if cmp x y \<le> 0 then x # y # ys else y # ins cmp x ys)"

primrec isort :: "('a \<Rightarrow> 'a \<Rightarrow> int) \<Rightarrow> 'a list \<Rightarrow> 'a list" where
  "isort cmp [] = []"
| "isort cmp (x # xs) = ins cmp x (isort cmp xs)"

lemma mset_ins [simp]: "mset (ins cmp x ys) = add_mset x (mset ys)"
  by (induction ys) auto

lemma sorted_ins:
  assumes "cmp_ok cmp"
  shows "sorted_wrt (\<lambda>x y. cmp x y \<le> 0) ys \<Longrightarrow> sorted_wrt (\<lambda>x y. cmp x y \<le> 0) (ins cmp x ys)"
proof (induction ys)
  case (Cons y ys)
  have "cmp y x \<le> 0" if "\<not> cmp x y \<le> 0" using assms that by (simp add: cmp_ok_def) (metis less_eq_int_code(1) linorder_not_le nless_le)
  moreover have "cmp x z \<le> 0" if "cmp x y \<le> 0" "cmp y z \<le> 0" for z using assms that unfolding cmp_ok_def by blast
  moreover have "set (ins cmp x ys) = insert x (set ys)" by (metis mset_ins set_mset_add_mset_insert set_mset_mset)
  ultimately show ?case using Cons by auto
qed simp

lemma isort_ok: "qsort_ok isort"
proof -
  have "mset (isort cmp xs) = mset xs \<and> (cmp_ok cmp \<longrightarrow> sorted_wrt (\<lambda>x y. cmp x y \<le> 0) (isort cmp xs))" for cmp and xs :: "'a list"
    by (induction xs) (simp_all add: sorted_ins)
  then show ?thesis by (simp add: qsort_ok_def)
qed

text \<open>A system where every call succeeds, and two sources.\<close>

definition gk1 :: gc_kern where
  "gk1 = gk0\<lparr>gk_next_ban := (\<lambda>mid. if mid = MID_BAN4 then next0 else (\<lambda>_ _. None)),
     gk_next_top := (\<lambda>mid. if mid = MID_TOP4 then next0 else (\<lambda>_ _. None))\<rparr>"

definition pton1 :: pton where
  "pton1 fam s = (if fam = CALY_AF_INET \<and> s = ''7.0.0.0'' then Some [7, 0, 0, 0] else None)"

definition k1 :: ctl_kern where
  "k1 = \<lparr>kq_w = w0\<lparr>w_gc := gk1\<rparr>, kq_now = 500, kq_wall = 900, kq_next_lpm = \<lambda>_ _ _. None,
     kq_ban_put = \<lambda>m key e. Some (m(key \<mapsto> e)), kq_lpm_del = \<lambda>_ _. True, kq_percpu = \<lambda>_ _. PerCpu (\<lambda>c. 1),
     kq_ncpus = (2, 2), kq_calloc = \<lambda>_. True, kq_realloc = \<lambda>_. True, kq_qsort = isort, kq_pton = pton1,
     kq_ntop = \<lambda>_ _. Some ''7.0.0.0''\<rparr>"

definition talker :: "u64 \<Rightarrow> src_stats" where
  "talker n = \<lparr>ss_packets = n, ss_bytes = n * 60, ss_drops = 0, ss_drop_bytes = 0, ss_first_seen_ns = 1,
     ss_last_seen_ns = 2, ss_last_reason = 0, ss_flags = 0\<rparr>"

definition talkers_d :: caly_daemon where
  "talkers_d = d0\<lparr>d_dp := (d_dp d0)\<lparr>dp_top := [K4 1 \<mapsto> talker 5, K4 2 \<mapsto> talker 9]\<rparr>\<rparr>"

lemma nothing_walks: "walks (\<lambda>_ _. None) []"
  by (simp add: walks_def)

lemma k1_fields: "kq_fd k1 mid" "kq_realloc k1 n" "kq_gc k1 = gk1" "kq_qsort k1 = isort"
  by (simp_all add: k1_def w0_def sy0_def)

theorem top_talkers_are_top_witness:
  "\<exists>rows rest. h_top k1 (JObj []) talkers_d = Some (hok (JObj [(''sources'', JArr (map (top_entry k1) rows))])) \<and>
    mset (rows @ rest) = mset (top_all (ctl_arg_family (JObj [])) (dp_top (d_dp talkers_d)) ord0 []) \<and>
    (length rows = top_limit (arg_u64 (JObj []) ''n'' 20) \<or> rest = []) \<and> length rows \<le> top_limit (arg_u64 (JObj []) ''n'' 20) \<and>
    sorted_wrt (\<lambda>x y. top_key (top_sort_field (JObj [])) y \<le> top_key (top_sort_field (JObj [])) x) (rows @ rest)"
proof (rule top_talkers_are_top)
  show "walks (gk_next_top (kq_gc k1) MID_TOP4) ord0" using next0_walks by (simp add: k1_fields gk1_def)
  show "walks (gk_next_top (kq_gc k1) MID_TOP6) []" using nothing_walks by (simp add: k1_fields gk1_def)
  show "length (entries (dp_top (d_dp talkers_d)) ord0) \<le> 2000000" by (simp add: talkers_d_def entries_def ord0_def)
qed (simp_all add: k1_fields isort_ok entries_def)

end
