(* ===== verification/Caly_Ctl.thy ===== *)
theory Caly_Ctl
  imports Caly_Query
begin

text \<open>
  The commands of the control socket (\<open>ctl.c\<close>) that change something, the dispatch of a request line, and
  the framing of the byte stream into lines (\<open>caly_ctl_handle\<close> in \<open>main.c\<close>).

  The state is the daemon's state with its maps and the pending-reload mark; the answers of the system
  are those of \<open>Caly_Query\<close>.  A request gives the action for the connection, the bytes sent and the new
  state; \<^term>\<open>None\<close> is a request that does not return.
\<close>

section \<open>Arguments\<close>

record ctl_state =
  cl_d :: caly_daemon
  cl_reload_pending :: bool

definition upd_dp :: "(dp_state \<Rightarrow> dp_state) \<Rightarrow> ctl_state \<Rightarrow> ctl_state" where
  "upd_dp f st = st\<lparr>cl_d := (cl_d st)\<lparr>d_dp := f (d_dp (cl_d st))\<rparr>\<rparr>"

definition ctl_arg_cidr :: "ctl_kern \<Rightarrow> jval \<Rightarrow> string \<Rightarrow> (string \<times> string) + caly_cidr" where
  "ctl_arg_cidr k args key =
     (let v = (case j_obj_get args key of Some v \<Rightarrow> Some v
               | None \<Rightarrow> (case j_obj_get args ''addr'' of Some v \<Rightarrow> Some v | None \<Rightarrow> j_obj_get args ''cidr''))
      in case j_str_dup v CALY_CIDR_STRLEN of
           None \<Rightarrow> Inl (''bad_request'', ''missing or oversized address ('cidr'/'addr')'')
         | Some buf \<Rightarrow>
             (case caly_parse_cidr (kq_pton k) buf of
                None \<Rightarrow> Inl (''bad_request'', ''malformed CIDR'')
              | Some c \<Rightarrow> Inr (case caly_cidr_apply_mask c of None \<Rightarrow> c | Some c \<Rightarrow> c)))"

definition ctl_is_default_route :: "caly_cidr \<Rightarrow> bool" where
  "ctl_is_default_route c \<longleftrightarrow> cd_prefixlen c = 0"

definition ctl_is_host :: "caly_cidr \<Rightarrow> bool" where
  "ctl_is_host c \<longleftrightarrow> (if cd_family c = CALY_AF_INET then cd_prefixlen c = 32 else cd_prefixlen c = 128)"

definition quoted :: "string \<Rightarrow> string" where
  "quoted s = [CHR 0x27] @ s @ [CHR 0x27]"

section \<open>Bans\<close>

definition ban_mid :: "caly_cidr \<Rightarrow> caly_map_id" where
  "ban_mid c = (if cd_family c = CALY_AF_INET then MID_BAN4 else MID_BAN6)"

definition cli_ban :: "u64 \<Rightarrow> u64 \<Rightarrow> u32 \<Rightarrow> ban_entry" where
  "cli_ban now ttl flags =
     \<lparr>be_expiry_ns = (if has_flag flags CALY_BAN_F_PERMANENT then 0 else now + ttl), be_first_seen_ns = now,
      be_last_hit_ns = now, be_cur_ttl_ns = ttl, be_hit_pkts = 0, be_hit_bytes = 0, be_reason = STAT_DROP_TOTAL,
      be_strikes = 0, be_offences = 1, be_flags = flags\<rparr>"

definition ctl_ban_add :: "ctl_kern \<Rightarrow> caly_cidr \<Rightarrow> u64 \<Rightarrow> u32 \<Rightarrow> dp_state \<Rightarrow> dp_state option" where
  "ctl_ban_add k c ttl flags s =
     (if \<not> kq_fd k (ban_mid c) then None
      else map_option (\<lambda>m. s\<lparr>dp_ban := m\<rparr>) (kq_ban_put k (dp_ban s) (fst (cidr_key c)) (cli_ban (kq_now k) ttl flags)))"

text \<open>\<open>bpf_map_delete_elem\<close> fails when the key is not there, and may fail otherwise.\<close>

definition ctl_ban_del :: "ctl_kern \<Rightarrow> caly_cidr \<Rightarrow> dp_state \<Rightarrow> dp_state option" where
  "ctl_ban_del k c s =
     (let key = fst (cidr_key c)
      in if kq_fd k (ban_mid c) \<and> dp_ban s key \<noteq> None \<and> gk_del (kq_gc k) (ban_mid c) key
         then Some (s\<lparr>dp_ban := (dp_ban s)(key := None)\<rparr>) else None)"

definition changed :: "u64 \<Rightarrow> hres" where
  "changed n = hok (JObj [(''changed'', jn n)])"

text \<open>The flags and the time to live of a ban command; without \<open>ttl_ns\<close> it is the configured base.\<close>

definition ban_permanent :: "jval \<Rightarrow> bool" where
  "ban_permanent args = (case j_obj_get args ''permanent'' of None \<Rightarrow> False
     | Some v \<Rightarrow> (case j_as_bool v of None \<Rightarrow> False | Some b \<Rightarrow> b))"

definition ban_flags :: "jval \<Rightarrow> u32" where
  "ban_flags args = (if ban_permanent args then CALY_BAN_F_MANUAL OR CALY_BAN_F_PERMANENT else CALY_BAN_F_MANUAL)"

definition ban_ttl :: "jval \<Rightarrow> caly_daemon \<Rightarrow> u64" where
  "ban_ttl args d = (case j_obj_get args ''ttl_ns'' of Some v \<Rightarrow> (case j_as_u64 v of None \<Rightarrow> 0 | Some n \<Rightarrow> n)
     | None \<Rightarrow> if ban_permanent args then 0 else cfg_ban_ttl_base_ns (d_cfg d))"

definition h_ban :: "ctl_kern \<Rightarrow> jval \<Rightarrow> ctl_state \<Rightarrow> hres \<times> ctl_state" where
  "h_ban k args st =
     (case ctl_arg_cidr k args ''cidr'' of Inl (code, msg) \<Rightarrow> (herr code msg, st)
      | Inr c \<Rightarrow>
          if ctl_is_default_route c then (herr ''refused'' ''refusing to ban the default route'', st)
          else if \<not> ctl_is_host c then (herr ''bad_request'' ''ban requires a host address (/32 or /128)'', st)
          else
            (case ctl_ban_add k c (ban_ttl args (cl_d st)) (ban_flags args) (d_dp (cl_d st)) of
               None \<Rightarrow> (herr ''internal'' ''ban insert failed'', st)
             | Some s \<Rightarrow> (changed 1, upd_dp (\<lambda>_. s) st)))"

definition h_unban :: "ctl_kern \<Rightarrow> jval \<Rightarrow> ctl_state \<Rightarrow> hres \<times> ctl_state" where
  "h_unban k args st =
     (case ctl_arg_cidr k args ''cidr'' of Inl (code, msg) \<Rightarrow> (herr code msg, st)
      | Inr c \<Rightarrow> (case ctl_ban_del k c (d_dp (cl_d st)) of
                    None \<Rightarrow> (changed 0, st) | Some s \<Rightarrow> (changed 1, upd_dp (\<lambda>_. s) st)))"

text \<open>The loop of \<open>ctl_ban_flush_one\<close> over the collected keys, and the number removed.\<close>

primrec flush_keys :: "(src_key \<Rightarrow> bool) \<Rightarrow> src_key list \<Rightarrow> nat \<Rightarrow> (src_key \<rightharpoonup> ban_entry) \<Rightarrow> nat \<times> (src_key \<rightharpoonup> ban_entry)" where
  "flush_keys del [] n m = (n, m)"
| "flush_keys del (x # xs) n m =
     (if m x \<noteq> None \<and> del x then flush_keys del xs (n + 1) (m(x := None)) else flush_keys del xs n m)"

definition ctl_ban_flush_one ::
  "ctl_kern \<Rightarrow> caly_map_id \<Rightarrow> nat \<times> (src_key \<rightharpoonup> ban_entry) \<Rightarrow> (nat \<times> (src_key \<rightharpoonup> ban_entry)) option option" where
  "ctl_ban_flush_one k mid nm =
     (if \<not> kq_fd k mid then Some (Some nm)
      else map_option (map_option (\<lambda>es. flush_keys (gk_del (kq_gc k) mid) (map fst es) (fst nm) (snd nm)))
             (ctl_map_collect (gk_next_ban (kq_gc k) mid) (kq_realloc k) (snd nm)))"

definition h_unban_all :: "ctl_kern \<Rightarrow> ctl_state \<Rightarrow> (hres \<times> ctl_state) option" where
  "h_unban_all k st =
     (let failed = herr ''internal'' ''ban flush failed'';
          put = (\<lambda>m. upd_dp (\<lambda>s. s\<lparr>dp_ban := m\<rparr>) st)
      in case ctl_ban_flush_one k MID_BAN4 (0, dp_ban (d_dp (cl_d st))) of
           None \<Rightarrow> None
         | Some None \<Rightarrow> Some (failed, st)
         | Some (Some nm) \<Rightarrow>
             (case ctl_ban_flush_one k MID_BAN6 nm of
                None \<Rightarrow> None
              | Some None \<Rightarrow> Some (failed, put (snd nm))
              | Some (Some (n, m)) \<Rightarrow> Some (changed (of_nat n), put m)))"

section \<open>Prefix lists, modes and ports\<close>

abbreviation (input) CALY_TAG_CLI :: u32 where "CALY_TAG_CLI \<equiv> 2"

datatype ctl_set = CTL_SET_ALLOW | CTL_SET_BLOCK | CTL_SET_LOCAL

definition ctl_lpm_map_id :: "ctl_set \<Rightarrow> bool \<Rightarrow> caly_map_id" where
  "ctl_lpm_map_id which v6 =
     (case which of CTL_SET_ALLOW \<Rightarrow> if v6 then MID_ALLOW6 else MID_ALLOW4
      | CTL_SET_BLOCK \<Rightarrow> if v6 then MID_BLOCK6 else MID_BLOCK4
      | CTL_SET_LOCAL \<Rightarrow> if v6 then MID_LOCAL6 else MID_LOCAL4)"

definition ctl_set_del :: "ctl_kern \<Rightarrow> ctl_set \<Rightarrow> caly_cidr \<Rightarrow> dp_state \<Rightarrow> dp_state option" where
  "ctl_set_del k which c s =
     (let mid = ctl_lpm_map_id which (cd_family c = CALY_AF_INET6); key = cidr_key c
      in if kq_fd k mid \<and> lpm_of mid s key \<noteq> None \<and> kq_lpm_del k mid key
         then Some (set_lpm_of mid ((lpm_of mid s)(key := None)) s) else None)"

definition h_set_add :: "ctl_kern \<Rightarrow> jval \<Rightarrow> ctl_set \<Rightarrow> ctl_state \<Rightarrow> hres \<times> ctl_state" where
  "h_set_add k args which st =
     (case ctl_arg_cidr k args ''cidr'' of Inl (code, msg) \<Rightarrow> (herr code msg, st)
      | Inr c \<Rightarrow>
          if which = CTL_SET_BLOCK \<and> ctl_is_default_route c
          then (herr ''refused'' ''refusing to blocklist the default route'', st)
          else (case caly_lpm_insert (w_sys (kq_w k)) (ctl_lpm_map_id which (cd_family c = CALY_AF_INET6)) c 0 CALY_TAG_CLI
                       (d_dp (cl_d st)) of
                  (None, s) \<Rightarrow> (changed 1, upd_dp (\<lambda>_. s) st)
                | (Some e, _) \<Rightarrow> (herr ''internal'' ''set insert failed'', st)))"

definition h_set_del :: "ctl_kern \<Rightarrow> jval \<Rightarrow> ctl_set \<Rightarrow> ctl_state \<Rightarrow> hres \<times> ctl_state" where
  "h_set_del k args which st =
     (case ctl_arg_cidr k args ''cidr'' of Inl (code, msg) \<Rightarrow> (herr code msg, st)
      | Inr c \<Rightarrow> (case ctl_set_del k which c (d_dp (cl_d st)) of
                    None \<Rightarrow> (changed 0, st) | Some s \<Rightarrow> (changed 1, upd_dp (\<lambda>_. s) st)))"

text \<open>The request around \<open>h_mode\<close> of \<open>Caly_Daemon\<close>.\<close>

definition h_mode_req :: "ctl_kern \<Rightarrow> jval \<Rightarrow> ctl_state \<Rightarrow> hres \<times> ctl_state" where
  "h_mode_req k args st =
     (case Option.bind (j_obj_get args ''mode'') j_as_u64 of
        None \<Rightarrow> (herr ''bad_request'' (''missing integer '' @ quoted ''mode''), st)
      | Some mode \<Rightarrow>
          if mode > ucast FW_MODE_MONITOR_ONLY then (herr ''bad_request'' ''mode out of range (0..4)'', st)
          else
            let (ok, d) = h_mode (kq_w k) mode (cl_d st); st = st\<lparr>cl_d := d\<rparr>
            in if ok then (hok (JObj [(''changed'', jn 1), (''mode'', jn mode)]), st)
               else (herr ''internal'' ''cannot write the config map'', st))"

text \<open>The rule of a port command, and the loop over the range.\<close>

definition port_cmd_rule :: "jval \<Rightarrow> string \<Rightarrow> port_rule option" where
  "port_cmd_rule args action =
     (let pr = zero_rule\<lparr>pr_flags := CALY_PORT_F_PRESENT\<rparr>
      in if caly_strcaseeq action ''open'' then Some (pr\<lparr>pr_mode := CALY_PORT_OPEN\<rparr>)
         else if caly_strcaseeq action ''close'' \<or> caly_strcaseeq action ''closed'' then Some (pr\<lparr>pr_mode := CALY_PORT_CLOSED\<rparr>)
         else if caly_strcaseeq action ''limit'' \<or> caly_strcaseeq action ''ratelimit'' then
           (let rate = arg_u64 args ''rate'' 0; burst = arg_u64 args ''burst'' 0
            in Some (pr\<lparr>pr_mode := CALY_PORT_RATELIMIT, pr_rate := rate, pr_burst := (if burst \<noteq> 0 then burst else rate)\<rparr>))
         else None)"

primrec put_ports :: "syscalls \<Rightarrow> bool \<Rightarrow> port_rule \<Rightarrow> nat list \<Rightarrow> u32 \<times> dp_state \<Rightarrow> u32 \<times> dp_state" where
  "put_ports sy is_udp pr [] ns = ns"
| "put_ports sy is_udp pr (p # ps) ns =
     (let key = of_nat p
      in put_ports sy is_udp pr ps
           (if sy_upd sy (port_mid is_udp) key
            then (fst ns + 1, set_dp_port is_udp ((dp_port is_udp (snd ns))(key \<mapsto> pr)) (snd ns)) else ns))"

definition port_cmd_proto :: "jval \<Rightarrow> (string \<times> string) + bool" where
  "port_cmd_proto args =
     (case j_str_dup (j_obj_get args ''proto'') 8 of
        None \<Rightarrow> Inl (''bad_request'', ''missing 'proto' (tcp|udp)'')
      | Some proto \<Rightarrow>
          if caly_strcaseeq proto ''tcp'' then Inr False else if caly_strcaseeq proto ''udp'' then Inr True
          else Inl (''bad_request'', ''proto must be tcp or udp''))"

definition port_cmd_range :: "jval \<Rightarrow> (string \<times> string) + (nat \<times> nat)" where
  "port_cmd_range args =
     (case Option.bind (j_obj_get args ''first'') j_as_u64 of
        None \<Rightarrow> Inl (''bad_request'', ''missing 'first' port'')
      | Some lo \<Rightarrow>
          (let hi = arg_u64 args ''last'' lo
           in if lo > 65535 \<or> hi > 65535 \<or> hi < lo then Inl (''bad_request'', ''port range out of bounds'')
              else Inr (unat lo, unat hi)))"

definition h_port :: "ctl_kern \<Rightarrow> jval \<Rightarrow> ctl_state \<Rightarrow> hres \<times> ctl_state" where
  "h_port k args st =
     (case port_cmd_proto args of Inl (code, msg) \<Rightarrow> (herr code msg, st)
      | Inr is_udp \<Rightarrow>
     (case port_cmd_range args of Inl (code, msg) \<Rightarrow> (herr code msg, st)
      | Inr (lo, hi) \<Rightarrow>
     (case j_str_dup (j_obj_get args ''action'') 16 of
        None \<Rightarrow> (herr ''bad_request'' ''missing 'action' (open|close|limit)'', st)
      | Some action \<Rightarrow>
     (case port_cmd_rule args action of
        None \<Rightarrow> (herr ''bad_request'' ''action must be open, close or limit'', st)
      | Some pr \<Rightarrow>
          if \<not> kq_fd k (port_mid is_udp) then (herr ''internal'' ''port map unavailable'', st)
          else
            let (n, s) = put_ports (w_sys (kq_w k)) is_udp pr [lo..<hi + 1] (0, d_dp (cl_d st))
            in (changed (ucast n), upd_dp (\<lambda>_. s) st)))))"

definition h_reload :: "ctl_state \<Rightarrow> hres \<times> ctl_state" where
  "h_reload st = (hok (JObj [(''config_gen'', jn (cfg_config_gen (d_cfg (cl_d st))))]), st\<lparr>cl_reload_pending := True\<rparr>)"

definition h_subscribe :: hres where
  "h_subscribe = hok (JObj [(''streams'', JArr [JStr ''events''])])"

section \<open>Dispatch\<close>

datatype caly_ctl_action = CALY_CTL_CONTINUE | CALY_CTL_SUBSCRIBE | CALY_CTL_CLOSE

abbreviation (input) NEWLINE :: char where "NEWLINE \<equiv> CHR 0x0A"

definition err_reply :: "u64 \<Rightarrow> string \<Rightarrow> string \<Rightarrow> jval" where
  "err_reply req code msg = JObj [(''id'', jn req), (''ok'', JBool False), (''error'', j_strz msg), (''code'', j_strz code)]"

definition ctl_send_err :: "ctl_kern \<Rightarrow> u64 \<Rightarrow> string \<Rightarrow> string \<Rightarrow> string" where
  "ctl_send_err k req code msg =
     (let s = sb_puts (kq_realloc k) (j_tokens (err_reply req code msg) @ [[NEWLINE]])
      in if sb_err s then [] else sb_text s)"

text \<open>Around the data: the request's number and the success mark.\<close>

definition ok_tokens :: "u64 \<Rightarrow> string \<Rightarrow> string list" where
  "ok_tokens req dat = [CHR 0x7B # sb_key ''id'', sb_u64 req, '','' @ sb_key ''ok'' @ ''true'' @ '','' @ sb_key ''data'',
     dat, [CHR 0x7D, NEWLINE]]"

definition ctl_send_ok :: "ctl_kern \<Rightarrow> u64 \<Rightarrow> string \<Rightarrow> string" where
  "ctl_send_ok k req dat =
     (let out = sb_puts (kq_realloc k) (ok_tokens req dat)
      in if sb_err out then ctl_send_err k req ''internal'' ''response too large'' else sb_text out)"

definition pure :: "ctl_state \<Rightarrow> hres option \<Rightarrow> (hres \<times> ctl_state) option" where
  "pure st r = map_option (\<lambda>h. (h, st)) r"

text \<open>The chain of command names; \<^term>\<open>None\<close> is an unknown command, an inner \<^term>\<open>None\<close> a handler
  that does not return.\<close>

definition ctl_handler ::
  "ctl_kern \<Rightarrow> caly_ctl_env \<Rightarrow> string \<Rightarrow> jval \<Rightarrow> ctl_state \<Rightarrow> (hres \<times> ctl_state) option option" where
  "ctl_handler k env cmd args st =
     (if caly_strcaseeq cmd ''ping'' then Some (Some (h_ping, st))
      else if caly_strcaseeq cmd ''status'' then Some (Some (h_status k env (cl_d st), st))
      else if caly_strcaseeq cmd ''stats'' then Some (Some (h_stats k, st))
      else if caly_strcaseeq cmd ''top'' then Some (pure st (h_top k args (cl_d st)))
      else if caly_strcaseeq cmd ''list'' then Some (pure st (h_list k args (cl_d st)))
      else if caly_strcaseeq cmd ''ban'' then Some (Some (h_ban k args st))
      else if caly_strcaseeq cmd ''unban'' then Some (Some (h_unban k args st))
      else if str_in cmd [''unban_all'', ''unban-all'', ''flush''] then Some (h_unban_all k st)
      else if caly_strcaseeq cmd ''allow'' then Some (Some (h_set_add k args CTL_SET_ALLOW st))
      else if caly_strcaseeq cmd ''unallow'' then Some (Some (h_set_del k args CTL_SET_ALLOW st))
      else if caly_strcaseeq cmd ''block'' then Some (Some (h_set_add k args CTL_SET_BLOCK st))
      else if caly_strcaseeq cmd ''unblock'' then Some (Some (h_set_del k args CTL_SET_BLOCK st))
      else if caly_strcaseeq cmd ''mode'' then Some (Some (h_mode_req k args st))
      else if caly_strcaseeq cmd ''port'' then Some (Some (h_port k args st))
      else if caly_strcaseeq cmd ''conntrack'' then Some (pure st (h_conntrack k args (cl_d st)))
      else if caly_strcaseeq cmd ''reload'' then Some (Some (h_reload st))
      else if caly_strcaseeq cmd ''subscribe'' then Some (Some (h_subscribe, st))
      else None)"

text \<open>The reply to a handler's result.\<close>

definition ctl_finish :: "ctl_kern \<Rightarrow> u64 \<Rightarrow> hres \<Rightarrow> bool \<times> string" where
  "ctl_finish k req h =
     (let dat = sb_puts (kq_realloc k) (snd h)
      in if sb_err dat then (False, ctl_send_err k req ''internal'' ''response too large'')
         else case fst h of
           Some (code, msg) \<Rightarrow> (False, ctl_send_err k req code msg)
         | None \<Rightarrow> (True, ctl_send_ok k req (if snd h = [] then [CHR 0x7B, CHR 0x7D] else sb_text dat)))"

definition trim_eol :: "string \<Rightarrow> string" where
  "trim_eol line = rev (dropWhile (\<lambda>c. c = NEWLINE \<or> c = CHR 0x0D) (rev line))"

definition ctl_request :: "ctl_kern \<Rightarrow> caly_ctl_env \<Rightarrow> jval \<Rightarrow> ctl_state \<Rightarrow> (caly_ctl_action \<times> string \<times> ctl_state) option" where
  "ctl_request k env root st =
     (let req = arg_u64 root ''id'' 0
      in case j_str_dup (j_obj_get root ''cmd'') 32 of
           None \<Rightarrow> Some (CALY_CTL_CONTINUE, ctl_send_err k req ''bad_request'' (''missing '' @ quoted ''cmd''), st)
         | Some cmd \<Rightarrow>
             (let args = (case j_obj_get root ''args'' of None \<Rightarrow> root | Some a \<Rightarrow> a)
              in case ctl_handler k env cmd args st of
                   None \<Rightarrow> Some (CALY_CTL_CONTINUE, ctl_send_err k req ''unknown_command'' ''unknown command'', st)
                 | Some r \<Rightarrow> map_option (\<lambda>(h, st).
                     let (ok, out) = ctl_finish k req h
                     in (if ok \<and> caly_strcaseeq cmd ''subscribe'' then CALY_CTL_SUBSCRIBE else CALY_CTL_CONTINUE, out, st)) r))"

definition caly_ctl_dispatch ::
  "ctl_kern \<Rightarrow> caly_ctl_env \<Rightarrow> string \<Rightarrow> ctl_state \<Rightarrow> (caly_ctl_action \<times> string \<times> ctl_state) option" where
  "caly_ctl_dispatch k env line st =
     (let line = trim_eol line
      in if line = [] then Some (CALY_CTL_CONTINUE, [], st)
         else if \<not> kq_calloc k ''request'' then Some (CALY_CTL_CONTINUE, ctl_send_err k 0 ''internal'' ''out of memory'', st)
         else case j_parse_value line of
           None \<Rightarrow> None
         | Some (Some (JObj ms, _, _)) \<Rightarrow> ctl_request k env (JObj ms) st
         | Some _ \<Rightarrow> Some (CALY_CTL_CONTINUE, ctl_send_err k 0 ''bad_request'' ''request is not a JSON object'', st))"

section \<open>Requests are steps of the daemon\<close>

lemma upd_dp_fields [simp]:
  "cl_d (upd_dp f st) = (cl_d st)\<lparr>d_dp := f (d_dp (cl_d st))\<rparr>" "cl_reload_pending (upd_dp f st) = cl_reload_pending st"
  by (simp_all add: upd_dp_def)

lemma dstep_same: "dstep d d"
  using dstep.traffic [OF refl, of d] by simp

lemma put_ports_keeps: "dp_config (snd (put_ports sy u pr ps ns)) = dp_config (snd ns) \<and> dp_block (snd (put_ports sy u pr ps ns)) = dp_block (snd ns)"
  by (induction ps arbitrary: ns) (auto simp: Let_def set_dp_port_def)

lemma lpm_insert_config: "dp_config (snd (caly_lpm_insert sy mid c f t s)) = dp_config s"
  by (auto simp: caly_lpm_insert_def set_lpm_of_def Let_def split: option.splits)

lemma set_lpm_config [simp]: "dp_config (set_lpm_of mid m s) = dp_config s"
  by (simp add: set_lpm_of_def)

text \<open>The commands on bans, lists and ports change the maps only, and not the configuration.\<close>

definition maps_only :: "ctl_state \<Rightarrow> ctl_state \<Rightarrow> bool" where
  "maps_only st st' \<longleftrightarrow> (\<exists>s. cl_d st' = (cl_d st)\<lparr>d_dp := s\<rparr> \<and> dp_config s = dp_config (d_dp (cl_d st)))"

lemma maps_only_refl: "maps_only st st"
  unfolding maps_only_def by (rule exI [of _ "d_dp (cl_d st)"]) simp

lemma maps_only_dp: "dp_config (f (d_dp (cl_d st))) = dp_config (d_dp (cl_d st)) \<Longrightarrow> maps_only st (upd_dp f st)"
  unfolding maps_only_def by (rule exI [of _ "f (d_dp (cl_d st))"]) simp

lemma h_ban_maps: "maps_only st (snd (h_ban k args st))"
  by (auto simp: h_ban_def ctl_ban_add_def maps_only_refl split: sum.splits option.splits intro!: maps_only_dp)

lemma h_unban_maps: "maps_only st (snd (h_unban k args st))"
  by (auto simp: h_unban_def ctl_ban_del_def Let_def maps_only_refl split: sum.splits option.splits if_splits intro!: maps_only_dp)

lemma h_set_add_maps: "maps_only st (snd (h_set_add k args which st))"
  using lpm_insert_config
  by (auto simp: h_set_add_def maps_only_refl split: sum.splits option.splits prod.splits intro!: maps_only_dp) (metis snd_conv)+

lemma h_set_del_maps: "maps_only st (snd (h_set_del k args which st))"
  by (auto simp: h_set_del_def ctl_set_del_def Let_def maps_only_refl split: sum.splits option.splits if_splits intro!: maps_only_dp)

lemma h_port_maps: "maps_only st (snd (h_port k args st))"
  using put_ports_keeps
  by (auto simp: h_port_def split_beta maps_only_refl split: sum.splits option.splits intro!: maps_only_dp)

lemma h_unban_all_maps: "h_unban_all k st = Some (h, st') \<Longrightarrow> maps_only st st'"
  by (auto simp: h_unban_all_def Let_def maps_only_refl split: option.splits intro!: maps_only_dp)

lemma maps_only_dstep: "maps_only st st' \<Longrightarrow> dstep (cl_d st) (cl_d st')"
  using dstep.traffic by (auto simp: maps_only_def)

lemma h_mode_req_dstep: "dstep (cl_d st) (cl_d (snd (h_mode_req k args st)))"
proof -
  have "cl_d (snd (h_mode_req k args st)) = cl_d st \<or> (\<exists>m. cl_d (snd (h_mode_req k args st)) = snd (h_mode (kq_w k) m (cl_d st)))"
    by (auto simp: h_mode_req_def split_beta Let_def split: option.splits)
  then show ?thesis using dstep.mode dstep_same by metis
qed

lemma handler_dstep:
  assumes "ctl_handler k env cmd args st = Some (Some (h, st'))"
  shows "dstep (cl_d st) (cl_d st')"
  using assms dstep_same h_mode_req_dstep [of st k args] maps_only_dstep [OF h_ban_maps, of st k args]
    maps_only_dstep [OF h_unban_maps, of st k args] maps_only_dstep [OF h_set_add_maps, of st k args]
    maps_only_dstep [OF h_set_del_maps, of st k args] maps_only_dstep [OF h_port_maps, of st k args]
    maps_only_dstep [OF h_unban_all_maps]
  by (auto simp: ctl_handler_def pure_def h_reload_def split: if_splits; metis snd_conv)

lemma dispatch_cases:
  assumes "caly_ctl_dispatch k env line st = Some (act, out, st')"
  obtains "st' = st" | cmd args h where "ctl_handler k env cmd args st = Some (Some (h, st'))"
  using assms
  by (auto simp: caly_ctl_dispatch_def ctl_request_def Let_def split: if_splits option.splits jval.splits prod.splits)

section \<open>Every request is answered by one line\<close>

text \<open>What is known of \<open>get_next_key\<close>: each map is walked in some order.\<close>

definition ctl_walks :: "ctl_kern \<Rightarrow> bool" where
  "ctl_walks k \<longleftrightarrow>
     (\<forall>mid. \<exists>ord. walks (gk_next_ban (kq_gc k) mid) ord) \<and> (\<forall>mid. \<exists>ord. walks (gk_next_top (kq_gc k) mid) ord) \<and>
     (\<forall>mid. \<exists>ord. walks (kq_next_lpm k mid) ord) \<and> (\<exists>ord. walks (gk_next_conn (kq_gc k)) ord)"

lemma collect_returns: "\<exists>ord. walks nxt ord \<Longrightarrow> \<exists>r. ctl_map_collect nxt mem m = Some r"
  using map_collect_walks by metis

text \<open>A handler's result: a value, or an error with a short text.\<close>

definition answer :: "hres \<Rightarrow> bool" where
  "answer h \<longleftrightarrow> (\<exists>v. h = hok v) \<or> (\<exists>code msg w. h = (Some (code, msg), w) \<and> length code + length msg \<le> 100)"

lemma answer_hok [simp]: "answer (hok v)"
  by (auto simp: answer_def)

lemma answer_err [simp]: "length code + length msg \<le> 100 \<Longrightarrow> answer (Some (code, msg), w)"
  by (auto simp: answer_def)

lemma answer_herr [simp]: "length code + length msg \<le> 100 \<Longrightarrow> answer (herr code msg)"
  by (simp add: herr_def)

lemma arg_cidr_short: "ctl_arg_cidr k args key = Inl (code, msg) \<Longrightarrow> length code + length msg \<le> 100"
  by (auto simp: ctl_arg_cidr_def Let_def split: option.splits)

definition answered :: "(hres \<times> ctl_state) option \<Rightarrow> bool" where
  "answered r \<longleftrightarrow> (\<exists>h st. r = Some (h, st) \<and> answer h)"

lemma answered_Some [simp]: "answered (Some (h, st)) \<longleftrightarrow> answer h"
  by (simp add: answered_def)

lemma answered_pair: "answer (fst x) \<Longrightarrow> answered (Some x)"
  by (cases x) simp

lemma cmd_answers:
  "answer (fst (h_ban k args st))" "answer (fst (h_unban k args st))" "answer (fst (h_set_add k args which st))"
  "answer (fst (h_set_del k args which st))" "answer (fst (h_mode_req k args st))" "answer (fst (h_reload st))"
  by (auto simp: h_ban_def h_unban_def h_set_add_def h_set_del_def h_mode_req_def h_reload_def changed_def quoted_def split_beta Let_def
      arg_cidr_short split: sum.splits option.splits prod.splits)

lemma port_answers: "answer (fst (h_port k args st))"
  by (auto simp: h_port_def port_cmd_proto_def port_cmd_range_def changed_def split_beta Let_def
      split: sum.splits option.splits if_splits)

lemma query_answers: "answer h_ping" "answer (h_status k env d)" "answer (h_stats k)" "answer h_subscribe"
  by (auto simp: h_ping_def h_status_def h_stats_def h_subscribe_def Let_def split: option.splits prod.splits bool.splits)

lemma pure_Some: "pure st (Some h) = Some (h, st)"
  by (simp add: pure_def)

lemma both_answers: "a \<noteq> None \<Longrightarrow> b \<noteq> None \<Longrightarrow> answered (pure st (both a b))"
  by (auto simp: both_def pure_def)

lemma walk_answers:
  assumes "ctl_walks k"
  shows "answered (pure st (h_top k args d))" "answered (pure st (h_list k args d))"
    "answered (pure st (h_conntrack k args d))" "answered (h_unban_all k st)"
proof -
  note w = assms [unfolded ctl_walks_def]
  have ban: "\<exists>r. ctl_map_collect (gk_next_ban (kq_gc k) mid) mem m = Some r" for mid mem m
    using w by (auto intro!: collect_returns)
  have top: "\<exists>r. ctl_map_collect (gk_next_top (kq_gc k) mid) mem m = Some r" for mid mem m
    using w by (auto intro!: collect_returns)
  have lpm: "\<exists>r. ctl_map_collect (kq_next_lpm k mid) mem m = Some r" for mid mem m
    using w by (auto intro!: collect_returns)
  have conn: "\<exists>r. ctl_map_collect (gk_next_conn (kq_gc k)) mem m = Some r" for mem m
    using w by (auto intro!: collect_returns)
  have g: "\<exists>r. ctl_top_gather k mid v6 m rows = Some r" for mid v6 m rows
    using top [of mid "kq_realloc k" m] by (auto simp: ctl_top_gather_def)
  have "\<exists>r. top_rows k fam m = Some r" for fam m
    using g by (auto simp: top_rows_def split: option.splits) (metis option.distinct(1))+
  then obtain r where "top_rows k (ctl_arg_family args) (dp_top (d_dp d)) = Some r" by blast
  then show "answered (pure st (h_top k args d))" by (auto simp: h_top_def pure_def Let_def split: option.splits)
  have "h_list_bans k mid v6 s \<noteq> None" "h_list_lpm k mid v6 s \<noteq> None" for mid v6 s
    using ban [of mid "kq_realloc k" "dp_ban s"] lpm [of mid "kq_realloc k" "lpm_of mid s"]
    by (auto simp: h_list_bans_def h_list_lpm_def list_map_def)
  then show "answered (pure st (h_list k args d))"
    by (simp add: h_list_def Let_def both_answers pure_Some split: option.split)
  show "answered (pure st (h_conntrack k args d))"
    using conn [of "kq_realloc k" "dp_conn (d_dp d)"] by (auto simp: h_conntrack_def pure_def Let_def split: option.splits)
  have "\<exists>r. ctl_ban_flush_one k mid nm = Some r" for mid nm
    using ban [of mid "kq_realloc k" "snd nm"] by (auto simp: ctl_ban_flush_one_def)
  then obtain f where f: "ctl_ban_flush_one k mid nm = Some (f mid nm)" for mid nm by metis
  show "answered (h_unban_all k st)"
    by (auto simp: h_unban_all_def changed_def Let_def f split: option.split)
qed

lemma handler_answers: "ctl_walks k \<Longrightarrow> ctl_handler k env cmd args st = Some r \<Longrightarrow> answered r"
  using walk_answers cmd_answers port_answers query_answers
  by (auto simp: ctl_handler_def answered_pair split: if_splits)

text \<open>The texts that are sent.\<close>

definition ok_reply :: "u64 \<Rightarrow> jval \<Rightarrow> jval" where
  "ok_reply req v = JObj [(''id'', jn req), (''ok'', JBool True), (''data'', v)]"

lemma ok_tokens_print: "concat (ok_tokens req (j_print v)) = j_print (ok_reply req v) @ [NEWLINE]"
  by (simp add: ok_tokens_def ok_reply_def commas_def)

lemma jstr_length: "length (sb_jstr s) \<le> 6 * length s + 2"
proof -
  have "length (j_escape c) \<le> 6" for c by (simp add: j_escape_def)
  then have "length (concat (map j_escape s)) \<le> 6 * length s"
    by (induction s) (auto simp: add_mono algebra_simps intro: order.trans [OF add_mono])
  then show ?thesis by (simp add: sb_jstr_def)
qed

lemma u64_text_length: "length (sb_u64 v) \<le> 20"
  using dec_str_length [of "unat v" 20] unat_u64_less [of v] by (simp add: sb_u64_def)

lemma err_reply_length:
  assumes "length code + length msg \<le> 100"
  shows "length (j_print (err_reply req code msg)) \<le> 1000"
proof -
  have "length (c_str msg) \<le> length msg" "length (c_str code) \<le> length code" by (simp_all add: c_str_def length_takeWhile_le)
  then show ?thesis
    using assms jstr_length [of "c_str msg"] jstr_length [of "c_str code"] u64_text_length [of req]
    by (simp add: err_reply_def j_strz_def commas_def sb_key_def sb_jstr_def [of "''id''"] sb_jstr_def [of "''ok''"]
        sb_jstr_def [of "''error''"] sb_jstr_def [of "''code''"] j_escape_def ccode_def)
qed

text \<open>One line for a request: nothing when the text could not be allocated.\<close>

definition line_of :: "ctl_kern \<Rightarrow> u64 \<Rightarrow> string \<Rightarrow> bool" where
  "line_of k req out \<longleftrightarrow>
     (out = [] \<and> \<not> (\<forall>n. kq_realloc k n)) \<or>
     (\<exists>v. out = j_print v @ [NEWLINE] \<and> NEWLINE \<notin> set (j_print v) \<and>
          ((\<exists>x. v = ok_reply req x) \<or> (\<exists>code msg. v = err_reply req code msg)))"

lemma line_of_print:
  "(\<exists>x. v = ok_reply req x) \<or> (\<exists>code msg. v = err_reply req code msg) \<Longrightarrow> line_of k req (j_print v @ [NEWLINE])"
  using print_no_newline by (auto simp: line_of_def)

lemma send_err_line:
  assumes "length code + length msg \<le> 100"
  shows "line_of k req (ctl_send_err k req code msg)"
proof -
  let ?ps = "j_tokens (err_reply req code msg) @ [[NEWLINE]]"
  have c: "concat ?ps = j_print (err_reply req code msg) @ [NEWLINE]" by (simp add: j_tokens_print)
  show ?thesis
  proof (cases "sb_err (sb_puts (kq_realloc k) ?ps)")
    case True
    then have "\<not> (\<forall>n. kq_realloc k n)"
      using sb_puts_err [of "kq_realloc k" ?ps] err_reply_length [OF assms, of req] unfolding c by auto
    then show ?thesis using True by (simp add: ctl_send_err_def Let_def line_of_def)
  next
    case False
    then have "ctl_send_err k req code msg = j_print (err_reply req code msg) @ [NEWLINE]"
      using sb_puts_text [of "kq_realloc k" ?ps] unfolding c by (simp add: ctl_send_err_def Let_def)
    then show ?thesis using line_of_print by metis
  qed
qed

lemma send_ok_line: "line_of k req (ctl_send_ok k req (j_print v))"
proof (cases "sb_err (sb_puts (kq_realloc k) (ok_tokens req (j_print v)))")
  case False
  then have "ctl_send_ok k req (j_print v) = j_print (ok_reply req v) @ [NEWLINE]"
    using sb_puts_text [of "kq_realloc k" "ok_tokens req (j_print v)"] unfolding ok_tokens_print by (simp add: ctl_send_ok_def Let_def)
  then show ?thesis using line_of_print by metis
qed (simp add: ctl_send_ok_def Let_def send_err_line)

lemma j_tokens_nonempty: "j_tokens v \<noteq> []"
  by (cases v) simp_all

lemma finish_line:
  assumes "answer h"
  shows "line_of k req (snd (ctl_finish k req h))"
  using assms unfolding answer_def
proof (elim disjE exE conjE)
  fix v assume h: "h = hok v"
  show ?thesis
  proof (cases "sb_err (sb_puts (kq_realloc k) (j_tokens v))")
    case False
    then have "sb_text (sb_puts (kq_realloc k) (j_tokens v)) = j_print v" by (simp add: sb_puts_text j_tokens_print)
    then show ?thesis using False h send_ok_line by (simp add: ctl_finish_def hok_def Let_def j_tokens_nonempty)
  qed (simp add: h ctl_finish_def hok_def Let_def send_err_line)
qed (auto simp: ctl_finish_def Let_def send_err_line)

text \<open>The number a reply carries: the request's, 0 when there is none.\<close>

definition request_id :: "string \<Rightarrow> u64" where
  "request_id line = (case j_parse_value (trim_eol line) of Some (Some (JObj ms, _, _)) \<Rightarrow> arg_u64 (JObj ms) ''id'' 0 | _ \<Rightarrow> 0)"

text \<open>C22. Every request line is answered, by one line: whatever the bytes, the reader and the handlers
  return, and the reply (absent for an empty line, or when there is no memory for it) is one JSON object
  with the request's number and a success mark or an error, followed by the only line break of the text.\<close>

theorem every_request_answered:
  assumes "ctl_walks k"
  shows "\<exists>act out st'. caly_ctl_dispatch k env line st = Some (act, out, st') \<and>
    (if trim_eol line = [] then out = [] \<and> st' = st
     else line_of k (if kq_calloc k ''request'' then request_id line else 0) out)"
proof -
  obtain r where r: "j_parse_value (trim_eol line) = Some r"
    using j_returnsD(1) [OF value_at_returns, of J_MAX_DEPTH "trim_eol line" 0] by (auto simp: j_parse_value_def)
  have req: "\<exists>act out st'. ctl_request k env root st = Some (act, out, st') \<and> line_of k (arg_u64 root ''id'' 0) out" for root
  proof (cases "j_str_dup (j_obj_get root ''cmd'') 32")
    case (Some cmd)
    let ?args = "case j_obj_get root ''args'' of None \<Rightarrow> root | Some a \<Rightarrow> a"
    show ?thesis
    proof (cases "ctl_handler k env cmd ?args st")
      case None
      then show ?thesis using Some send_err_line [of "''unknown_command''" "''unknown command''"] by (simp add: ctl_request_def Let_def)
    next
      case h: (Some x)
      then obtain h st' where x: "x = Some (h, st')" "answer h" using handler_answers [OF assms h] unfolding answered_def by blast
      then show ?thesis using Some h finish_line [OF x(2), of k "arg_u64 root ''id'' 0"] by (simp add: ctl_request_def Let_def split_beta)
    qed
  qed (simp add: ctl_request_def Let_def quoted_def send_err_line)
  show ?thesis
    using r req by (auto simp: caly_ctl_dispatch_def Let_def request_id_def send_err_line split: option.split jval.split)
qed

text \<open>C21. The control socket cannot break the daemon: whatever request an operator sends, and whatever the
  system calls in its handler do, the daemon goes from a reachable state to a reachable state, so its
  invariant and the reachability of SSH are kept.\<close>

theorem requests_keep_running:
  assumes "running (cl_d st)" "caly_ctl_dispatch k env line st = Some (act, out, st')"
  shows "running (cl_d st')"
  using dispatch_cases [OF assms(2)]
proof cases
  case 2
  show ?thesis by (rule running.step [OF assms(1) handler_dstep [OF 2]])
qed (use assms(1) in simp)

section \<open>The default route\<close>

text \<open>An update of a prefix map sets its key and nothing else, or fails.\<close>

definition lpm_law :: "syscalls \<Rightarrow> bool" where
  "lpm_law sy \<longleftrightarrow> (\<forall>mid m key v m'. sy_lpm sy mid m key v = Some m' \<longrightarrow> m' = m(key \<mapsto> v))"

text \<open>No block entry of length 0 is there that was not before.\<close>

definition no_new_default :: "dp_state \<Rightarrow> dp_state \<Rightarrow> bool" where
  "no_new_default s s' \<longleftrightarrow> (\<forall>a. dp_block s (a, 0) = None \<longrightarrow> dp_block s' (a, 0) = None)"

lemma no_new_default_same: "dp_block s' = dp_block s \<Longrightarrow> no_new_default s s'"
  by (simp add: no_new_default_def)

lemma arg_cidr_masked: "ctl_arg_cidr k args key = Inr c \<Longrightarrow> caly_cidr_apply_mask c = Some c' \<Longrightarrow> cd_prefixlen c' = cd_prefixlen c"
  by (auto simp: caly_cidr_apply_mask_def Let_def split: if_splits option.splits)

lemma lpm_lawD: "lpm_law sy \<Longrightarrow> sy_lpm sy mid m key v = Some m' \<Longrightarrow> m' = m(key \<mapsto> v)"
  unfolding lpm_law_def by (erule allE)+ (erule (1) impE)

lemma lpm_insert_done:
  assumes "lpm_law sy" "caly_lpm_insert sy mid c f t s = (None, s')"
  shows "\<exists>c' v. caly_cidr_apply_mask c = Some c' \<and> s' = set_lpm_of mid ((lpm_of mid s)(cidr_key c' \<mapsto> v)) s"
  using assms(2) by (auto simp: caly_lpm_insert_def Let_def dest!: lpm_lawD [OF assms(1)] split: option.splits if_splits)

lemma set_add_default:
  assumes "lpm_law (w_sys (kq_w k))"
  shows "no_new_default (d_dp (cl_d st)) (d_dp (cl_d (snd (h_set_add k args which st))))"
proof (cases "ctl_arg_cidr k args ''cidr''")
  case (Inl e)
  then show ?thesis by (simp add: h_set_add_def no_new_default_def split_beta)
next
  case (Inr c)
  let ?mid = "ctl_lpm_map_id which (cd_family c = CALY_AF_INET6)"
  have blk: "?mid \<in> {MID_BLOCK4, MID_BLOCK6} \<longleftrightarrow> which = CTL_SET_BLOCK" by (cases which) (auto simp: ctl_lpm_map_id_def)
  obtain e s' where ins: "caly_lpm_insert (w_sys (kq_w k)) ?mid c 0 CALY_TAG_CLI (d_dp (cl_d st)) = (e, s')" by fastforce
  have "no_new_default (d_dp (cl_d st)) s'" if e: "e = None" "\<not> (which = CTL_SET_BLOCK \<and> cd_prefixlen c = 0)"
  proof -
    obtain c' v where c': "caly_cidr_apply_mask c = Some c'"
        "s' = set_lpm_of ?mid ((lpm_of ?mid (d_dp (cl_d st)))(cidr_key c' \<mapsto> v)) (d_dp (cl_d st))"
      using lpm_insert_done [OF assms ins [unfolded e(1)]] by blast
    have "snd (cidr_key c') = 0 \<Longrightarrow> which \<noteq> CTL_SET_BLOCK"
      using arg_cidr_masked [OF Inr c'(1)] e(2) by (auto simp: cidr_key_def unat_eq_zero)
    then have "(x, 0) = cidr_key c' \<Longrightarrow> which \<noteq> CTL_SET_BLOCK" for x by (metis snd_conv)
    then show ?thesis
      using blk unfolding c'(2) by (cases "which = CTL_SET_BLOCK") (auto simp: set_lpm_of_def lpm_of_def no_new_default_def)
  qed
  then show ?thesis using Inr ins by (auto simp: h_set_add_def ctl_is_default_route_def no_new_default_same split: option.splits)
qed

lemma cmd_default:
  "no_new_default (d_dp (cl_d st)) (d_dp (cl_d (snd (h_ban k args st))))"
  "no_new_default (d_dp (cl_d st)) (d_dp (cl_d (snd (h_unban k args st))))"
  "no_new_default (d_dp (cl_d st)) (d_dp (cl_d (snd (h_set_del k args which st))))"
  "no_new_default (d_dp (cl_d st)) (d_dp (cl_d (snd (h_port k args st))))"
  by (auto simp: h_ban_def ctl_ban_add_def h_unban_def ctl_ban_del_def h_set_del_def ctl_set_del_def h_port_def Let_def split_beta
      no_new_default_def put_ports_keeps set_lpm_of_def lpm_of_def split: sum.splits option.splits if_splits)

lemma mode_default: "no_new_default (d_dp (cl_d st)) (d_dp (cl_d (snd (h_mode_req k args st))))"
  by (auto simp: h_mode_req_def h_mode_def push_config_def Let_def no_new_default_def split: option.splits if_splits)

lemma unban_all_default: "h_unban_all k st = Some (h, st') \<Longrightarrow> no_new_default (d_dp (cl_d st)) (d_dp (cl_d st'))"
  by (auto simp: h_unban_all_def Let_def no_new_default_def split: option.splits)

lemma handler_default:
  assumes "lpm_law (w_sys (kq_w k))" "ctl_handler k env cmd args st = Some (Some (h, st'))"
  shows "no_new_default (d_dp (cl_d st)) (d_dp (cl_d st'))"
  using assms(2) no_new_default_same [OF refl] mode_default [of st k args] cmd_default [of st k args]
    set_add_default [OF assms(1), of st args] unban_all_default
  by (auto simp: ctl_handler_def pure_def h_reload_def split: if_splits; metis snd_conv)

text \<open>C24. The default route cannot be blocked or banned by command: no request puts a prefix of length 0 into
  the block list, and a ban of anything but a single host is refused and changes nothing.\<close>

theorem default_route_never_blocked:
  assumes "lpm_law (w_sys (kq_w k))"
  shows "(caly_ctl_dispatch k env line st = Some (act, out, st') \<longrightarrow>
            dp_block (d_dp (cl_d st)) (a, 0) = None \<longrightarrow> dp_block (d_dp (cl_d st')) (a, 0) = None) \<and>
         (ctl_arg_cidr k args ''cidr'' = Inr c \<longrightarrow> \<not> ctl_is_host c \<longrightarrow>
            snd (h_ban k args st) = st \<and> fst (fst (h_ban k args st)) \<noteq> None)"
proof (intro conjI impI)
  assume "caly_ctl_dispatch k env line st = Some (act, out, st')" "dp_block (d_dp (cl_d st)) (a, 0) = None"
  then show "dp_block (d_dp (cl_d st')) (a, 0) = None"
    using handler_default [OF assms] by (auto simp: no_new_default_def elim: dispatch_cases)
qed (auto simp: h_ban_def herr_def)

section \<open>Bans by command\<close>

lemma cli_ban_active:
  assumes "unat now + unat ttl < 2 ^ 64"
  shows "ban_active t (cli_ban now ttl flags) \<longleftrightarrow> has_flag flags CALY_BAN_F_PERMANENT \<or> unat t < unat now + unat ttl"
  using assms by (auto simp: ban_active_def cli_ban_def word_less_nat_alt unat_word_ariths(1))

lemma ban_flags_cases: "has_flag (ban_flags args) CALY_BAN_F_PERMANENT = ban_permanent args"
  "has_flag (ban_flags args) (CALY_BAN_F_MANUAL OR CALY_BAN_F_FEED OR CALY_BAN_F_PERMANENT)"
  by (simp_all add: ban_flags_def)

lemma h_ban_installs:
  assumes "ctl_arg_cidr k args ''cidr'' = Inr c" "upd_law (kq_ban_put k)" "h_ban k args st = ((None, w), st')"
  shows "dp_ban (d_dp (cl_d st')) (fst (cidr_key c)) = Some (cli_ban (kq_now k) (ban_ttl args (cl_d st)) (ban_flags args))"
  using assms(1,3) upd_lawD [OF assms(2)]
  by (auto simp: h_ban_def ctl_ban_add_def herr_def changed_def split: if_splits option.splits)


text \<open>A time to live close to the end of the clock wraps around: the ban is reported as made and is
  never in force.\<close>

lemma huge_ttl_never_bans:
  assumes "unat now + unat ttl \<ge> 2 ^ 64" "\<not> has_flag flags CALY_BAN_F_PERMANENT" "now \<le> t"
  shows "\<not> ban_active t (cli_ban now ttl flags)"
proof -
  have "unat (now + ttl) = unat now + unat ttl - 2 ^ 64"
    using assms(1) unat_u64_less [of now] unat_u64_less [of ttl] by (simp add: unat_word_ariths(1) le_mod_geq)
  then have "unat (now + ttl) \<le> unat now" using unat_u64_less [of ttl] by simp
  then show ?thesis using assms(2,3) by (simp add: ban_active_def cli_ban_def word_less_nat_alt word_le_nat_alt)
qed

text \<open>The port command replaces the whole rule: opening an amplifier port clears the mark by which the
  data plane filters its answers.\<close>

lemma port_command_clears_marks:
  assumes "port_cmd_rule args action = Some pr"
  shows "pr_flags pr = CALY_PORT_F_PRESENT"
  using assms by (auto simp: port_cmd_rule_def Let_def zero_rule_def split: if_splits)

section \<open>Lines from a byte stream\<close>

abbreviation (input) CTL_BUF :: nat where "CTL_BUF \<equiv> 65536"

lemma cut_at_split: "cut_at c s = Some (l, r) \<longleftrightarrow> s = l @ c # r \<and> c \<notin> set l"
proof
  assume a: "cut_at c s = Some (l, r)"
  then have "c \<in> set s" by (auto simp: cut_at_def split: if_splits)
  then obtain us vs where "s = us @ c # vs" "c \<notin> set us" using split_list_first by metis
  then show "s = l @ c # r \<and> c \<notin> set l" using a cut_at_join [of c us vs] by simp
qed (use cut_at_join [of c l r] in auto)

lemma cut_at_shorter: "Some (l, r) = cut_at c s \<Longrightarrow> length r < length s"
  using cut_at_split [of c s l r] by simp

text \<open>A connection: the bytes still to come, how many of them each \<open>read\<close> offers (no further \<open>read\<close>
  succeeds after the last), and the buffer.  \<open>f n line\<close> is the dispatch of the \<open>n\<close>-th request and \<open>sub\<close>
  the outcome of \<open>caly_ctl_subscribe_add\<close>; the result tells whether the connection was promoted, what was
  sent and the final state.\<close>

function ctl_handle_loop ::
  "(nat \<Rightarrow> string \<Rightarrow> 's \<Rightarrow> (caly_ctl_action \<times> string \<times> 's) option) \<Rightarrow> bool \<Rightarrow> nat \<Rightarrow> string \<Rightarrow> string \<Rightarrow> nat list
   \<Rightarrow> string \<Rightarrow> 's \<Rightarrow> (bool \<times> string \<times> 's) option" where
  "ctl_handle_loop f sub n buf stream sizes out st =
     (case cut_at NEWLINE buf of
        Some (line, rest) \<Rightarrow>
          (case f n line st of None \<Rightarrow> None
           | Some (act, o1, st) \<Rightarrow>
               if act = CALY_CTL_SUBSCRIBE then Some (sub, out @ o1, st)
               else if act = CALY_CTL_CLOSE then Some (False, out @ o1, st)
               else ctl_handle_loop f sub (n + 1) rest stream sizes (out @ o1) st)
      | None \<Rightarrow>
          if length buf = CTL_BUF then Some (False, out, st)
          else case sizes of [] \<Rightarrow> Some (False, out, st)
            | z # zs \<Rightarrow>
                let got = take (min z (CTL_BUF - length buf)) stream
                in if got = [] then Some (False, out, st)
                   else ctl_handle_loop f sub n (buf @ got) (drop (length got) stream) zs out st)"
  by pat_completeness auto

termination
  by (relation "measures [\<lambda>(_, _, _, _, _, sizes, _, _). length sizes, \<lambda>(_, _, _, buf, _, _, _, _). length buf]")
    (auto dest: cut_at_shorter [OF sym])

declare ctl_handle_loop.simps [simp del]

definition caly_ctl_handle ::
  "(nat \<Rightarrow> string \<Rightarrow> 's \<Rightarrow> (caly_ctl_action \<times> string \<times> 's) option) \<Rightarrow> bool \<Rightarrow> string \<Rightarrow> nat list \<Rightarrow> 's
   \<Rightarrow> (bool \<times> string \<times> 's) option" where
  "caly_ctl_handle f sub stream sizes st = ctl_handle_loop f sub 0 [] stream sizes [] st"

text \<open>The requests one after the other, as if each arrived by itself.\<close>

fun serve ::
  "(nat \<Rightarrow> string \<Rightarrow> 's \<Rightarrow> (caly_ctl_action \<times> string \<times> 's) option) \<Rightarrow> bool \<Rightarrow> nat \<Rightarrow> string list \<Rightarrow> string \<Rightarrow> 's
   \<Rightarrow> (bool \<times> string \<times> 's) option" where
  "serve f sub n [] out st = Some (False, out, st)"
| "serve f sub n (line # ls) out st =
     (case f n line st of None \<Rightarrow> None
      | Some (act, o1, st) \<Rightarrow>
          if act = CALY_CTL_SUBSCRIBE then Some (sub, out @ o1, st)
          else if act = CALY_CTL_CLOSE then Some (False, out @ o1, st)
          else serve f sub (n + 1) ls (out @ o1) st)"

definition wire :: "string list \<Rightarrow> string" where
  "wire ls = concat (map (\<lambda>l. l @ [NEWLINE]) ls)"

text \<open>What is in the buffer when the next request has not fully arrived.\<close>

lemma wire_buffer:
  assumes "buf @ stream = wire ls @ tail" "\<forall>l \<in> set ls. NEWLINE \<notin> set l \<and> length l < CTL_BUF" "NEWLINE \<notin> set tail"
  shows "cut_at NEWLINE buf = Some (line, rest) \<Longrightarrow> \<exists>ls'. ls = line # ls' \<and> rest @ stream = wire ls' @ tail"
    and "cut_at NEWLINE buf = None \<Longrightarrow> ls \<noteq> [] \<Longrightarrow> length buf < CTL_BUF \<and> stream \<noteq> []"
proof -
  assume "cut_at NEWLINE buf = Some (line, rest)"
  then have b: "buf = line @ NEWLINE # rest" "NEWLINE \<notin> set line" using cut_at_split by auto
  show "\<exists>ls'. ls = line # ls' \<and> rest @ stream = wire ls' @ tail"
  proof (cases ls)
    case Nil
    then show ?thesis using assms(1,3) b by (metis append_Nil append_is_Nil_conv concat.simps(1) in_set_conv_decomp list.simps(8) wire_def append.assoc append_Cons)
  next
    case (Cons l ls')
    then have e: "line @ NEWLINE # (rest @ stream) = l @ NEWLINE # (wire ls' @ tail)" using assms(1) b by (simp add: wire_def)
    have "NEWLINE \<notin> set l" using assms(2) Cons by simp
    then have "line = l \<and> rest @ stream = wire ls' @ tail"
      using e b(2) cut_at_split [of NEWLINE "line @ NEWLINE # (rest @ stream)"] by (metis option.inject prod.inject)
    then show ?thesis using Cons by simp
  qed
next
  assume "cut_at NEWLINE buf = None" "ls \<noteq> []"
  then obtain l ls' where ls: "ls = l # ls'" and n: "NEWLINE \<notin> set buf" by (cases ls) (auto simp: cut_at_def split: if_splits)
  have e: "buf @ stream = l @ NEWLINE # (wire ls' @ tail)" using assms(1) ls by (simp add: wire_def)
  have "length buf \<le> length l"
  proof (rule ccontr)
    assume c: "\<not> length buf \<le> length l"
    then have "buf ! length l = NEWLINE" using arg_cong [OF e, of "\<lambda>x. x ! length l"] by (simp add: nth_append)
    then show False using n c nth_mem [of "length l" buf] by simp
  qed
  moreover have "length l < CTL_BUF" using assms(2) ls by simp
  moreover have "stream \<noteq> []" using e n by (metis append_Nil2 in_set_conv_decomp)
  ultimately show "length buf < CTL_BUF \<and> stream \<noteq> []" by simp
qed

lemma handle_line:
  "cut_at NEWLINE buf = Some (line, rest) \<Longrightarrow> ctl_handle_loop f sub n buf stream sizes out st =
     (case f n line st of None \<Rightarrow> None
      | Some (act, o1, st) \<Rightarrow>
          if act = CALY_CTL_SUBSCRIBE then Some (sub, out @ o1, st)
          else if act = CALY_CTL_CLOSE then Some (False, out @ o1, st)
          else ctl_handle_loop f sub (n + 1) rest stream sizes (out @ o1) st)"
  by (subst ctl_handle_loop.simps) simp

lemma handle_stop:
  "cut_at NEWLINE buf = None \<Longrightarrow> length buf \<ge> CTL_BUF \<or> stream = [] \<Longrightarrow> ctl_handle_loop f sub n buf stream sizes out st = Some (False, out, st)"
  by (subst ctl_handle_loop.simps) (auto split: list.split)

text \<open>A read that finds something: the buffer and the stream stay the same text.\<close>

lemma handle_read:
  assumes "cut_at NEWLINE buf = None" "length buf < CTL_BUF" "stream \<noteq> []" "0 < z"
  obtains got rest where "stream = got @ rest" "got \<noteq> []"
    "ctl_handle_loop f sub n buf stream (z # zs) out st = ctl_handle_loop f sub n (buf @ got) rest zs out st"
proof
  let ?got = "take (min z (CTL_BUF - length buf)) stream"
  show "?got \<noteq> []" using assms(2-4) by auto
  then show "ctl_handle_loop f sub n buf stream (z # zs) out st = ctl_handle_loop f sub n (buf @ ?got) (drop (length ?got) stream) zs out st"
    using assms by (subst ctl_handle_loop.simps) (auto simp: Let_def)
  show "stream = ?got @ drop (length ?got) stream" by (metis append_eq_conv_conj append_take_drop_id)
qed

lemma handle_serves:
  "buf @ stream = wire ls @ tail \<Longrightarrow> \<forall>l \<in> set ls. NEWLINE \<notin> set l \<and> length l < CTL_BUF \<Longrightarrow> NEWLINE \<notin> set tail \<Longrightarrow>
   \<forall>z \<in> set sizes. 0 < z \<Longrightarrow> length stream \<le> length sizes \<Longrightarrow>
   ctl_handle_loop f sub n buf stream sizes out st = serve f sub n ls out st"
proof (induction "(length sizes, length buf)" arbitrary: n buf stream sizes out st ls
    rule: wf_induct_rule [OF wf_lex_prod [OF wf_less_than wf_less_than]])
  case 1
  note w = wire_buffer [OF "1.prems"(1-3)]
  show ?case
  proof (cases "cut_at NEWLINE buf")
    case (Some lr)
    obtain line rest where lr: "lr = (line, rest)" by (cases lr)
    then obtain ls' where ls: "ls = line # ls'" "rest @ stream = wire ls' @ tail" using w(1) Some by blast
    have "length rest < length buf" using Some lr cut_at_shorter by metis
    then have "ctl_handle_loop f sub (n + 1) rest stream sizes o2 s2 = serve f sub (n + 1) ls' o2 s2" for o2 s2
      using "1.hyps" [where buf = rest and sizes = sizes, OF _ ls(2)] "1.prems" ls by auto
    then show ?thesis using handle_line [OF Some [unfolded lr], of f sub n stream sizes out st] ls(1) by (simp split: option.split)
  next
    case None
    show ?thesis
    proof (cases "length buf \<ge> CTL_BUF \<or> stream = []")
      case True
      then have "ls = []" using w(2) [OF None] by (cases ls) auto
      then show ?thesis using handle_stop [OF None True] by simp
    next
      case False
      then obtain z zs where z: "sizes = z # zs" "0 < z" using "1.prems"(4,5) by (cases sizes) auto
      obtain got rest where g: "stream = got @ rest" "got \<noteq> []"
        "ctl_handle_loop f sub n buf stream (z # zs) out st = ctl_handle_loop f sub n (buf @ got) rest zs out st"
        using handle_read [OF None _ _ z(2), of stream f sub n zs out st] False by (metis not_le)
      have "length rest \<le> length zs" using g(1,2) "1.prems"(5) z(1) by (cases got) auto
      then have "ctl_handle_loop f sub n (buf @ got) rest zs out st = serve f sub n ls out st"
        using "1.hyps" [where buf = "buf @ got" and sizes = zs and stream = rest and ls = ls] "1.prems" g(1) z(1) by auto
      then show ?thesis using g(3) z(1) by simp
    qed
  qed
qed

text \<open>C25. The framing does not depend on how the bytes arrive: however the stream is cut into reads, the
  requests on it (lines shorter than the 64 KiB buffer) are dispatched one by one, in order, each exactly
  once and unchanged, until one of them turns the connection into a subscription; a partial line at the
  end is ignored.\<close>

theorem framing_independent_of_reads:
  assumes "\<forall>l \<in> set ls. NEWLINE \<notin> set l \<and> length l < CTL_BUF" "NEWLINE \<notin> set tail"
    and "\<forall>z \<in> set sizes. 0 < z" "length (wire ls @ tail) \<le> length sizes"
  shows "caly_ctl_handle f sub (wire ls @ tail) sizes st = serve f sub 0 ls [] st"
  unfolding caly_ctl_handle_def by (rule handle_serves) (use assms in auto)

section \<open>Subscribers\<close>

abbreviation (input) CALY_CTL_MAX_SUBS :: nat where "CALY_CTL_MAX_SUBS \<equiv> 32"

text \<open>The list of descriptors; \<open>nb\<close> and \<open>ep\<close> are the outcomes of the two system calls.\<close>

definition caly_ctl_subscribe_add :: "bool \<Rightarrow> bool \<Rightarrow> int \<Rightarrow> int list \<Rightarrow> int list option" where
  "caly_ctl_subscribe_add nb ep fd subs =
     (if length subs \<ge> CALY_CTL_MAX_SUBS then None else if \<not> nb then None else if \<not> ep then None else Some (subs @ [fd]))"

text \<open>The last descriptor takes the place of the one that is removed.\<close>

fun caly_ctl_subscribe_remove :: "int \<Rightarrow> int list \<Rightarrow> int list" where
  "caly_ctl_subscribe_remove fd [] = []"
| "caly_ctl_subscribe_remove fd (x # xs) =
     (if x \<noteq> fd then x # caly_ctl_subscribe_remove fd xs
      else if xs = [] then [] else last xs # butlast xs)"

definition caly_ctl_is_sub :: "int \<Rightarrow> int list \<Rightarrow> bool" where
  "caly_ctl_is_sub fd subs = list_ex (\<lambda>x. x = fd) subs"

lemma subscribe_remove_set:
  "distinct subs \<Longrightarrow> distinct (caly_ctl_subscribe_remove fd subs) \<and> set (caly_ctl_subscribe_remove fd subs) = set subs - {fd}"
proof (induction subs)
  case (Cons x xs)
  show ?case
  proof (cases "x = fd \<and> xs \<noteq> []")
    case True
    then obtain ys y where "xs = ys @ [y]" by (cases xs rule: rev_cases) auto
    then show ?thesis using True Cons.prems by auto
  qed (use Cons in auto)
qed simp

text \<open>The list keeps its bound and has no duplicates, and a removed subscriber is gone.\<close>

lemma subscribers_kept:
  assumes "distinct subs" "length subs \<le> CALY_CTL_MAX_SUBS" "fd \<notin> set subs"
  shows "caly_ctl_subscribe_add nb ep fd subs = Some subs' \<Longrightarrow>
           distinct subs' \<and> length subs' \<le> CALY_CTL_MAX_SUBS \<and> caly_ctl_is_sub fd subs' \<and>
           set (caly_ctl_subscribe_remove fd subs') = set subs"
  using assms subscribe_remove_set [of subs' fd]
  by (auto simp: caly_ctl_subscribe_add_def caly_ctl_is_sub_def split: if_splits)

section \<open>Instances\<close>

text \<open>A request as a client prints it.\<close>

lemma dispatch_printed:
  assumes "j_depth (JObj ms) \<le> J_MAX_DEPTH" "j_nodes (JObj ms) \<le> J_MAX_NODES" "kq_calloc k ''request''"
  shows "caly_ctl_dispatch k env (j_print (JObj ms)) st = ctl_request k env (JObj ms) st"
proof -
  let ?t = "j_print (JObj ms)"
  obtain r where "rev ?t = CHR 0x7D # r" by simp
  then have "trim_eol ?t = rev (rev ?t)" by (simp add: trim_eol_def del: j_print.simps)
  then have t: "trim_eol ?t = ?t" by (simp only: rev_rev_ident)
  have "?t \<noteq> []" by simp
  then show ?thesis
    using assms(3) by (simp add: caly_ctl_dispatch_def Let_def t parse_printed [OF assms(1,2)] del: j_print.simps)
qed

definition st1 :: ctl_state where
  "st1 = \<lparr>cl_d = d1, cl_reload_pending = False\<rparr>"

definition env1 :: caly_ctl_env where
  "env1 = \<lparr>ce_version = ''1.0.0'', ce_start_wall_ns = 1, ce_pid = 77, ce_events_seen = 0, ce_events_lost = 0,
     ce_synproxy_loaded = True, ce_ringbuf_active = True\<rparr>"

lemma k1_next: "gk_next_ban (kq_gc k1) mid = (if mid = MID_BAN4 then next0 else (\<lambda>_ _. None))"
  "gk_next_top (kq_gc k1) mid = (if mid = MID_TOP4 then next0 else (\<lambda>_ _. None))"
  "kq_next_lpm k1 mid = (\<lambda>_ _. None)" "gk_next_conn (kq_gc k1) = (\<lambda>_ _. None)" "kq_calloc k1 x"
  by (simp_all add: k1_fields gk1_def gk0_def) (simp_all add: k1_def)

lemma some_walks: "\<exists>ord. walks (if b then next0 else (\<lambda>_ _. None)) ord" "\<exists>ord. walks (\<lambda>_ _. None) ord"
  using next0_walks nothing_walks by (cases b; auto)+

lemma k1_walks: "ctl_walks k1"
  by (simp only: ctl_walks_def k1_next some_walks simp_thms)

lemma k1_lpm: "lpm_law (w_sys (kq_w k1))"
  by (simp add: lpm_law_def k1_def w0_def sy0_def)

theorem every_request_answered_witness:
  "\<exists>act out st'. caly_ctl_dispatch k1 env1 ''hello'' st1 = Some (act, out, st') \<and>
    (if trim_eol ''hello'' = [] then out = [] \<and> st' = st1
     else line_of k1 (if kq_calloc k1 ''request'' then request_id ''hello'' else 0) out)"
  by (rule every_request_answered [OF k1_walks])

text \<open>A request for lockdown.\<close>

definition lockdown_req :: "(string \<times> jval) list" where
  "lockdown_req = [(''cmd'', JStr ''mode''), (''mode'', jn 3)]"

lemma lockdown_handled: "ctl_handler k env ''mode'' args st = Some (Some (h_mode_req k args st))"
  by (simp add: ctl_handler_def str_in_def caly_strcaseeq.simps tolower_def ccode_def)

lemma lockdown_dispatched:
  "\<exists>act out. caly_ctl_dispatch k1 env1 (j_print (JObj lockdown_req)) st = Some (act, out, snd (h_mode_req k1 (JObj lockdown_req) st))"
proof -
  have "caly_ctl_dispatch k1 env1 (j_print (JObj lockdown_req)) st = ctl_request k1 env1 (JObj lockdown_req) st"
    by (rule dispatch_printed) (simp_all add: lockdown_req_def k1_next)
  moreover have "j_str_dup (j_obj_get (JObj lockdown_req) ''cmd'') 32 = Some ''mode''" "j_obj_get (JObj lockdown_req) ''args'' = None"
    by (simp_all add: lockdown_req_def j_str_dup_def c_str_def)
  ultimately show ?thesis by (simp add: ctl_request_def Let_def lockdown_handled split_beta)
qed

theorem requests_keep_running_witness: "running (cl_d (snd (h_mode_req k1 (JObj lockdown_req) st1)))"
proof -
  obtain act out where "caly_ctl_dispatch k1 env1 (j_print (JObj lockdown_req)) st1 = Some (act, out, snd (h_mode_req k1 (JObj lockdown_req) st1))"
    using lockdown_dispatched by blast
  moreover have "running (cl_d st1)" using d1_running by (simp add: st1_def)
  ultimately show ?thesis using requests_keep_running by blast
qed

text \<open>A ban of 7.0.0.0 for 4500 ns at time 500, and a request to block everything.\<close>

definition ban_args :: jval where
  "ban_args = JObj [(''cidr'', JStr ''7.0.0.0''), (''ttl_ns'', jn 4500)]"

definition host7 :: caly_cidr where
  "host7 = \<lparr>cd_addr = [7, 0, 0, 0] @ replicate 12 0, cd_prefixlen = 32, cd_family = CALY_AF_INET\<rparr>"

lemma host7_arg: "ctl_arg_cidr k1 ban_args ''cidr'' = Inr host7"
proof -
  have "j_str_dup (j_obj_get ban_args ''cidr'') 48 = Some ''7.0.0.0''" by (simp add: ban_args_def j_str_dup_def c_str_def)
  moreover have "caly_trim ''7.0.0.0'' = ''7.0.0.0''" by (simp add: caly_trim_def isspace_def ccode_def)
  then have "caly_parse_cidr (kq_pton k1) ''7.0.0.0'' = Some host7"
    by (simp add: caly_parse_cidr_def cut_at_def caly_parse_ip4_def k1_def pton1_def host7_def)
  moreover have "caly_cidr_apply_mask host7 = Some host7" by (simp add: caly_cidr_apply_mask_def host7_def Let_def zero_tail_eq)
  moreover have "\<exists>v. j_obj_get ban_args ''cidr'' = Some v" by (simp add: ban_args_def)
  ultimately show ?thesis by (auto simp: ctl_arg_cidr_def Let_def)
qed

definition banned_dp :: dp_state where
  "banned_dp = syn_dp\<lparr>dp_ban := dp_ban (d_dp (cl_d (snd (h_ban k1 ban_args st1))))\<rparr>"


definition st0 :: ctl_state where
  "st0 = \<lparr>cl_d = d0, cl_reload_pending = False\<rparr>"

theorem default_route_never_blocked_witness:
  "dp_block (d_dp (cl_d (snd (h_mode_req k1 (JObj lockdown_req) st0)))) (K4 0, 0) = None"
proof -
  obtain act out where d: "caly_ctl_dispatch k1 env1 (j_print (JObj lockdown_req)) st0 = Some (act, out, snd (h_mode_req k1 (JObj lockdown_req) st0))"
    using lockdown_dispatched by blast
  have b: "dp_block (d_dp (cl_d st0)) (K4 0, 0) = None" by (simp add: st0_def d0_def dp0_def)
  show ?thesis
    using conjunct1 [OF default_route_never_blocked [OF k1_lpm, of env1 "j_print (JObj lockdown_req)" st0 act out _ "K4 0"]] d b by blast
qed

text \<open>Two requests in three reads, with a partial one behind.\<close>

definition echo :: "nat \<Rightarrow> string \<Rightarrow> nat \<Rightarrow> (caly_ctl_action \<times> string \<times> nat) option" where
  "echo n line st = Some (CALY_CTL_CONTINUE, line, st + 1)"

theorem framing_independent_of_reads_witness:
  "caly_ctl_handle echo True (wire [''ab'', ''c''] @ ''d'') (replicate 6 2) 0 = Some (False, ''abc'', 2)"
  using framing_independent_of_reads [of "[''ab'', ''c'']" "''d''" "replicate 6 2" echo True 0]
  by (simp add: wire_def echo_def)

end
