(* ===== verification/Caly_Ingress.thy ===== *)
theory Caly_Ingress
  imports Caly_Flow
begin

text \<open>
  The clsact ingress hook of \<open>tc_ingress.bpf.c\<close>, the filter of the hosts whose driver or kernel has no
  XDP: its own linear parser, the counters, lists, bans, connection table, rate limits and scan
  detector it shares with the XDP chain through the maps, and the main program as the sequence of its
  stages.

  A lookup that follows an insertion is modelled as such: an insertion that fails leaves the map
  as it was and the second lookup finds nothing.  The scratch area is written in place.  The value of
  \<open>bpf_get_prandom_u32\<close> is the parameter \<open>rnd\<close>; a packet draws at most one.
\<close>

section \<open>Data\<close>

record tci_pkt =
  tp_saddr :: quad
  tp_daddr :: quad
  tp_family :: u32
  tp_proto :: u32
  tp_l3_off :: u32
  tp_l4_off :: u32
  tp_pkt_len :: u32
  tp_ifindex :: u32
  tp_pkt_flags :: u32
  tp_icmp_type :: u32
  tp_sport :: u16
  tp_dport :: u16
  tp_tcp_flags :: u16
  tp_frag_units :: u16
  tp_ttl :: u8
  tp_is_wan :: bool
  tp_is_syn :: bool
  tp_drop_private :: bool

abbreviation (input) TCI_PULL_LEN :: u32 where "TCI_PULL_LEN \<equiv> 128"
abbreviation (input) TCI_TCP_OFF_DOFF :: nat where "TCI_TCP_OFF_DOFF \<equiv> 12"
abbreviation (input) TCI_TCP_OFF_FLAGS :: nat where "TCI_TCP_OFF_FLAGS \<equiv> 13"
abbreviation (input) TCI_PASS_NONIP :: u32 where "TCI_PASS_NONIP \<equiv> 0xFFFFFFFF"

text \<open>The verdict of the connection table.\<close>

datatype tci_ct = TCI_CT_MISS | TCI_CT_UNCONFIRMED | TCI_CT_CONFIRMED

definition tp_flag :: "u32 \<Rightarrow> tci_pkt \<Rightarrow> tci_pkt" where
  "tp_flag f p = p\<lparr>tp_pkt_flags := tp_pkt_flags p OR f\<rparr>"

text \<open>The key of the source in the per-address maps.\<close>

definition tci_key :: "tci_pkt \<Rightarrow> src_key" where
  "tci_key p = (if tp_family p = CALY_AF_INET then K4 (q0 (tp_saddr p)) else K6 (tp_saddr p))"

definition on_scratch :: "(caly_scratch \<Rightarrow> caly_scratch) \<Rightarrow> dp_state \<Rightarrow> dp_state" where
  "on_scratch f s = s\<lparr>dp_scratch := map_option f (dp_scratch s)\<rparr>"

text \<open>\<open>bpf_map_update_elem\<close> whose result is ignored.\<close>

definition upd_or_keep :: "('m \<Rightarrow> 'k \<Rightarrow> 'v \<Rightarrow> 'm option) \<Rightarrow> 'm \<Rightarrow> 'k \<Rightarrow> 'v \<Rightarrow> 'm" where
  "upd_or_keep upd m key v = (case upd m key v of None \<Rightarrow> m | Some m' \<Rightarrow> m')"

section \<open>Counters, statistics and events\<close>

definition tci_stat :: "u32 \<Rightarrow> u32 \<Rightarrow> dp_state \<Rightarrow> dp_state" where
  "tci_stat reason bytes s =
     (if reason \<ge> STAT_MAX then s
      else
        let s = (case dp_stats s reason of Some v \<Rightarrow> s\<lparr>dp_stats := (dp_stats s)(reason \<mapsto> v + 1)\<rparr>
                 | None \<Rightarrow> s)
        in (case dp_stats_b s reason of
              Some v \<Rightarrow> s\<lparr>dp_stats_b := (dp_stats_b s)(reason \<mapsto> v + ucast bytes)\<rparr>
            | None \<Rightarrow> s))"

definition tci_gauge :: "caly_gauge \<Rightarrow> u64 \<Rightarrow> dp_state \<Rightarrow> dp_state" where
  "tci_gauge gauge add s =
     (case dp_global s gauge of Some v \<Rightarrow> s\<lparr>dp_global := (dp_global s)(gauge \<mapsto> v + add)\<rparr> | None \<Rightarrow> s)"

definition tci_srcstats :: "kern \<Rightarrow> tci_pkt \<Rightarrow> fw_config \<Rightarrow> u32 \<Rightarrow> bool \<Rightarrow> u64 \<Rightarrow> dp_state \<Rightarrow> dp_state" where
  "tci_srcstats k p cfg reason dropped now s =
     (if \<not> has_flag (cfg_flags cfg) CALY_F_SRC_STATS then s
      else if tp_family p \<noteq> CALY_AF_INET \<and> tp_family p \<noteq> CALY_AF_INET6 then s
      else
        let key = tci_key p; len = ucast (tp_pkt_len p);
            init = \<lparr>ss_packets = 0, ss_bytes = 0, ss_drops = 0, ss_drop_bytes = 0, ss_first_seen_ns = now,
                    ss_last_seen_ns = 0, ss_last_reason = 0, ss_flags = 0\<rparr>;
            s = (if dp_top s key = None then s\<lparr>dp_top := upd_or_keep (k_upd_top k) (dp_top s) key init\<rparr> else s)
        in (case dp_top s key of
              None \<Rightarrow> tci_stat STAT_MAP_FULL_SRCSTAT 0 s
            | Some ss \<Rightarrow>
                let ss = ss\<lparr>ss_packets := ss_packets ss + 1, ss_bytes := ss_bytes ss + len,
                            ss_last_seen_ns := now, ss_last_reason := reason\<rparr>;
                    ss = (if dropped then ss\<lparr>ss_drops := ss_drops ss + 1,
                                             ss_drop_bytes := ss_drop_bytes ss + len\<rparr> else ss)
                in s\<lparr>dp_top := (dp_top s)(key \<mapsto> ss)\<rparr>))"

definition tci_ev :: "fw_config \<Rightarrow> tci_pkt \<Rightarrow> u32 \<Rightarrow> caly_verdict \<Rightarrow> u64 \<Rightarrow> u64 \<Rightarrow> u64 \<Rightarrow> event" where
  "tci_ev cfg p reason verdict ban_ttl val now =
     \<lparr>ev_ts_ns = now, ev_ban_ttl_ns = ban_ttl, ev_value = val, ev_saddr = tp_saddr p,
      ev_daddr = tp_daddr p, ev_ifindex = tp_ifindex p, ev_reason = reason,
      ev_verdict = verdict_code verdict, ev_proto = tp_proto p, ev_pkt_len = tp_pkt_len p,
      ev_family = tp_family p, ev_sport = tp_sport p, ev_dport = tp_dport p,
      ev_tcp_flags = tp_tcp_flags p, ev_mode = ucast (cfg_mode cfg), ev_version = 1\<rparr>"

definition tci_event ::
  "kern \<Rightarrow> u32 \<Rightarrow> fw_config \<Rightarrow> tci_pkt \<Rightarrow> u32 \<Rightarrow> caly_verdict \<Rightarrow> u64 \<Rightarrow> u64 \<Rightarrow> u64 \<Rightarrow> dp_state \<Rightarrow> dp_state" where
  "tci_event k rnd cfg p reason verdict ban_ttl val now s =
     (if \<not> has_flag (cfg_flags cfg) CALY_F_LOG_EVENTS then s
      else if cfg_log_sample_rate cfg = 0 then s
      else if cfg_log_sample_rate cfg > 1 \<and> rnd mod cfg_log_sample_rate cfg \<noteq> 0
        then tci_stat STAT_EVENT_SAMPLED_OUT 0 s
      else
        let ev = tci_ev cfg p reason verdict ban_ttl val now;
            s = on_scratch (\<lambda>sc. sc\<lparr>sc_ev := ev\<rparr>) s
        in if k_perf k ev
           then tci_gauge G_EVENTS 1 (tci_stat STAT_EVENT_EMITTED 0 (s\<lparr>dp_events := dp_events s @ [ev]\<rparr>))
           else tci_gauge G_EVENTS_LOST 1 (tci_stat STAT_EVENT_LOST 0 s))"

definition tci_finish ::
  "kern \<Rightarrow> fw_config \<Rightarrow> tci_pkt \<Rightarrow> u32 \<Rightarrow> caly_verdict \<Rightarrow> bool \<Rightarrow> u64 \<Rightarrow> dp_state \<Rightarrow> tc_action \<times> dp_state" where
  "tci_finish k cfg p reason verdict monitor now s =
     (let len = tp_pkt_len p;
          (verdict, s) = (if verdict = VERDICT_DROP \<and> monitor
                          then (VERDICT_MONITOR, tci_stat STAT_MONITOR_WOULD_DROP len s) else (verdict, s));
          s = tci_stat STAT_PKT_TOTAL len s;
          s = tci_gauge G_PKTS 1 s;
          s = tci_gauge G_BYTES (ucast len) s;
          s = (if tp_proto p = CALY_IPPROTO_UDP then tci_gauge G_UDP 1 s
               else if tp_proto p = CALY_IPPROTO_ICMP \<or> tp_proto p = CALY_IPPROTO_ICMPV6 then tci_gauge G_ICMP 1 s
               else s);
          s = (if has_flag (tp_pkt_flags p) CALY_PKT_F_FRAG then tci_gauge G_FRAG 1 s else s);
          s = (if reason \<noteq> STAT_PKT_TOTAL then tci_stat reason len s else s);
          dropped = (verdict = VERDICT_DROP);
          s = (if dropped then tci_gauge G_DROPS 1 (tci_stat STAT_DROP_TOTAL len s)
               else tci_stat STAT_PASS_TOTAL len s);
          s = tci_srcstats k p cfg reason dropped now s
      in (if dropped then TC_ACT_SHOT else TC_ACT_OK, s))"

section \<open>Lists and bans\<close>

definition tci_lpm :: "kern \<Rightarrow> lpm_map \<Rightarrow> tci_pkt \<Rightarrow> (lpm_key \<times> rule_meta) option" where
  "tci_lpm k m p = lpm_find k m (lpm_src (tp_family p = CALY_AF_INET) (tp_saddr p))"

definition tci_blocklisted :: "kern \<Rightarrow> tci_pkt \<Rightarrow> dp_state \<Rightarrow> bool" where
  "tci_blocklisted k p s \<longleftrightarrow> tci_lpm k (dp_block s) p \<noteq> None"

definition tci_src_is_local :: "kern \<Rightarrow> tci_pkt \<Rightarrow> dp_state \<Rightarrow> bool" where
  "tci_src_is_local k p s \<longleftrightarrow> tci_lpm k (dp_local s) p \<noteq> None"

text \<open>The rule flags of the entry, when there is one.\<close>

definition tci_allowlisted :: "kern \<Rightarrow> tci_pkt \<Rightarrow> dp_state \<Rightarrow> bool \<times> u32" where
  "tci_allowlisted k p s =
     (case tci_lpm k (dp_allow s) p of None \<Rightarrow> (False, 0) | Some (_, rm) \<Rightarrow> (True, rm_flags rm))"

definition tci_ban_active :: "tci_pkt \<Rightarrow> u64 \<Rightarrow> dp_state \<Rightarrow> bool \<times> dp_state" where
  "tci_ban_active p now s =
     (case dp_ban s (tci_key p) of
        None \<Rightarrow> (False, s)
      | Some b \<Rightarrow>
          if \<not> has_flag (be_flags b) CALY_BAN_F_PERMANENT \<and> be_expiry_ns b \<le> now then (False, s)
          else (True, s\<lparr>dp_ban := (dp_ban s)(tci_key p \<mapsto>
                  b\<lparr>be_last_hit_ns := now, be_hit_pkts := be_hit_pkts b + 1,
                    be_hit_bytes := be_hit_bytes b + ucast (tp_pkt_len p)\<rparr>)\<rparr>))"

definition tci_ban_apply ::
  "kern \<Rightarrow> fw_config \<Rightarrow> tci_pkt \<Rightarrow> u32 \<Rightarrow> u64 \<Rightarrow> u32 \<Rightarrow> u64 \<Rightarrow> dp_state \<Rightarrow> u64 \<times> dp_state" where
  "tci_ban_apply k cfg p reason base_ttl strikes now s =
     (case dp_ban s (tci_key p) of
        Some e \<Rightarrow>
          let ttl = caly_ban_next_ttl (be_cur_ttl_ns e) (cfg_ban_ttl_base_ns cfg) (cfg_ban_ttl_max_ns cfg)
                      (cfg_ban_escalate_num cfg) (cfg_ban_escalate_den cfg);
              e = e\<lparr>be_expiry_ns := now + ttl, be_cur_ttl_ns := ttl, be_last_hit_ns := now,
                    be_reason := reason, be_strikes := strikes, be_offences := be_offences e + 1,
                    be_flags := be_flags e OR CALY_BAN_F_AUTO OR CALY_BAN_F_ESCALATED\<rparr>
          in (ttl, tci_stat STAT_BAN_ESCALATED 0 (s\<lparr>dp_ban := (dp_ban s)(tci_key p \<mapsto> e)\<rparr>))
      | None \<Rightarrow>
          let ttl = (if base_ttl = 0 then cfg_ban_ttl_base_ns cfg else base_ttl);
              b = \<lparr>be_expiry_ns = now + ttl, be_first_seen_ns = now, be_last_hit_ns = now,
                   be_cur_ttl_ns = ttl, be_hit_pkts = 0, be_hit_bytes = 0, be_reason = reason,
                   be_strikes = strikes, be_offences = 1, be_flags = CALY_BAN_F_AUTO\<rparr>;
              s = on_scratch (\<lambda>sc. sc\<lparr>sc_ban := b\<rparr>) s
          in (case k_upd_ban k (dp_ban s) (tci_key p) b of
                Some m \<Rightarrow> (ttl, tci_stat STAT_BAN_ADDED 0 (s\<lparr>dp_ban := m\<rparr>))
              | None \<Rightarrow> (ttl, tci_stat STAT_BAN_FULL 0 s)))"

section \<open>Connection table\<close>

definition tci_conn_key :: "tci_pkt \<Rightarrow> conn_key" where
  "tci_conn_key p = \<lparr>ck_saddr = tp_saddr p, ck_daddr = tp_daddr p, ck_sport = tp_sport p,
     ck_dport = tp_dport p, ck_proto = ucast (tp_proto p), ck_family = ucast (tp_family p), ck_pad = (0, 0)\<rparr>"

text \<open>A packet of a known flow that is not closed: the entry, and whether the handshake was
  completed and whether the flow was reset by this packet.\<close>

definition tci_conn_advance :: "tci_pkt \<Rightarrow> conn_state \<Rightarrow> conn_state \<times> bool \<times> bool" where
  "tci_conn_advance p cs =
     (let tcp = (tp_proto p = CALY_IPPROTO_TCP); fl = tp_tcp_flags p;
          est = (cs_state cs = CALY_CT_SYN_RECV \<and> tcp \<and> has_flag fl CALY_TCP_ACK \<and> \<not> has_flag fl CALY_TCP_SYN);
          cs = (if est then cs\<lparr>cs_state := CALY_CT_ESTABLISHED, cs_flags := cs_flags cs OR CALY_CT_F_SEEN_REPLY\<rparr>
                else cs);
          rst = (tcp \<and> has_flag fl CALY_TCP_RST);
          cs = (if rst then cs\<lparr>cs_state := CALY_CT_CLOSED\<rparr>
                else if tcp \<and> has_flag fl CALY_TCP_FIN then cs\<lparr>cs_state := CALY_CT_FIN_WAIT\<rparr> else cs)
      in (cs, est, rst))"

definition tci_conn_hit :: "tci_pkt \<Rightarrow> u64 \<Rightarrow> dp_state \<Rightarrow> tci_ct \<times> dp_state" where
  "tci_conn_hit p now s =
     (let ck = tci_conn_key p; s = on_scratch (\<lambda>sc. sc\<lparr>sc_ck := ck\<rparr>) s
      in case dp_conn s ck of
           None \<Rightarrow> (TCI_CT_MISS, tci_stat STAT_CT_MISS 0 s)
         | Some cs \<Rightarrow>
             let cs = cs\<lparr>cs_last_seen_ns := now, cs_pkts_in := cs_pkts_in cs + 1,
                         cs_bytes_in := cs_bytes_in cs + ucast (tp_pkt_len p)\<rparr>
             in if cs_state cs = CALY_CT_CLOSED
                then (TCI_CT_MISS, tci_stat STAT_CT_MISS 0 (s\<lparr>dp_conn := (dp_conn s)(ck \<mapsto> cs)\<rparr>))
                else
                  let (cs, est, rst) = tci_conn_advance p cs;
                      s = s\<lparr>dp_conn := (dp_conn s)(ck \<mapsto> cs)\<rparr>;
                      s = (if est then tci_stat STAT_CT_UPDATED 0 s else s);
                      s = (if rst then tci_stat STAT_CT_CLOSED 0 s else s);
                      s = tci_stat STAT_CT_HIT 0 s
                  in (if has_flag (cs_flags cs) (CALY_CT_F_SEEN_REPLY OR CALY_CT_F_OUTBOUND)
                      then TCI_CT_CONFIRMED else TCI_CT_UNCONFIRMED, s))"

definition tci_conn_create :: "kern \<Rightarrow> tci_pkt \<Rightarrow> u32 \<Rightarrow> u64 \<Rightarrow> dp_state \<Rightarrow> dp_state" where
  "tci_conn_create k p rule_flags now s =
     (let ck = tci_conn_key p;
          cs = \<lparr>cs_created_ns = now, cs_last_seen_ns = now, cs_pkts_in = 1, cs_bytes_in = ucast (tp_pkt_len p),
                cs_pkts_out = 0, cs_bytes_out = 0,
                cs_state = (if tp_proto p = CALY_IPPROTO_TCP
                            then (if tp_is_syn p then CALY_CT_SYN_RECV else CALY_CT_NEW) else CALY_CT_NEW),
                cs_flags = (if rule_flags \<noteq> 0 then CALY_CT_F_ALLOWLIST else 0),
                cs_ifindex = tp_ifindex p, cs_mark = 0\<rparr>;
          s = on_scratch (\<lambda>sc. sc\<lparr>sc_ck := ck, sc_cs := cs\<rparr>) s
      in case k_upd_conn k (dp_conn s) ck cs of
           Some m \<Rightarrow> tci_stat STAT_CT_CREATED 0 (s\<lparr>dp_conn := m\<rparr>)
         | None \<Rightarrow> tci_stat STAT_CT_FULL 0 s)"


section \<open>Rate limits and port scans\<close>

text \<open>The entry of the source, created when there is none; the buckets of a new entry are zero
  and fill on their first draw.\<close>

definition tci_rate_state :: "kern \<Rightarrow> tci_pkt \<Rightarrow> dp_state \<Rightarrow> rate_state option \<times> dp_state" where
  "tci_rate_state k p s =
     (case dp_rate s (tci_key p) of
        Some rs \<Rightarrow> (Some rs, s)
      | None \<Rightarrow>
          let init = \<lparr>rs_tb = (\<lambda>_. \<lparr>tb_tokens = 0, tb_last_refill_ns = 0\<rparr>), rs_window_start_ns = 0, rs_last_seen_ns = 0,
                      rs_strikes = 0, rs_last_reason = 0, rs_offences = 0, rs_flags = CALY_RS_F_SEEDED\<rparr>;
              s = s\<lparr>dp_rate := upd_or_keep (k_upd_rate k) (dp_rate s) (tci_key p) init\<rparr>
          in (dp_rate s (tci_key p), s))"

text \<open>One \<open>if (reason == STAT_PKT_TOTAL && applies && !caly_tb_consume(...)) reason = r;\<close>.\<close>

definition tci_draw ::
  "fw_config \<Rightarrow> u64 \<Rightarrow> bool \<Rightarrow> caly_tb_kind \<Rightarrow> u64 \<Rightarrow> u32 \<Rightarrow> u32 \<times> rate_state \<Rightarrow> u32 \<times> rate_state" where
  "tci_draw cfg now applies kind want r st =
     (let (reason, rs) = st
      in if reason = STAT_PKT_TOTAL \<and> applies then
           let (ok, rs) = rate_draw rs cfg now kind want
           in (if ok then reason else r, rs)
         else (reason, rs))"

definition tci_rate_check :: "rate_state \<Rightarrow> fw_config \<Rightarrow> tci_pkt \<Rightarrow> bool \<Rightarrow> u64 \<Rightarrow> u32 \<times> rate_state" where
  "tci_rate_check rs cfg p ct_miss now =
     (let udp = (tp_proto p = CALY_IPPROTO_UDP);
          icmp = (tp_proto p = CALY_IPPROTO_ICMP \<or> tp_proto p = CALY_IPPROTO_ICMPV6);
          st = (STAT_PKT_TOTAL, rs\<lparr>rs_last_seen_ns := now\<rparr>);
          st = tci_draw cfg now True TB_PPS 1 STAT_DROP_RATE_PPS st;
          st = tci_draw cfg now True TB_BPS (ucast (tp_pkt_len p)) STAT_DROP_RATE_BPS st;
          st = tci_draw cfg now (tp_is_syn p) TB_SYN 1 STAT_DROP_RATE_SYN st;
          st = tci_draw cfg now udp TB_UDP 1 STAT_DROP_RATE_UDP st;
          st = tci_draw cfg now icmp TB_ICMP 1 STAT_DROP_RATE_ICMP st
      in tci_draw cfg now (ct_miss \<and> (tp_is_syn p \<or> udp \<or> icmp)) TB_NEWCONN 1 STAT_DROP_RATE_NEWCONN st)"

text \<open>Whether the strikes reached the limit.\<close>

definition tci_strike :: "rate_state \<Rightarrow> fw_config \<Rightarrow> u32 \<Rightarrow> u64 \<Rightarrow> dp_state \<Rightarrow> bool \<times> rate_state \<times> dp_state" where
  "tci_strike rs cfg reason now s =
     (let rs = (if rs_window_start_ns rs = 0 \<or> now - rs_window_start_ns rs > cfg_strike_window_ns cfg
                then rs\<lparr>rs_window_start_ns := now, rs_strikes := 0\<rparr> else rs);
          rs = (if rs_strikes rs < 0xFFFFFFFF then rs\<lparr>rs_strikes := rs_strikes rs + 1\<rparr> else rs);
          rs = rs\<lparr>rs_last_reason := reason, rs_flags := rs_flags rs OR CALY_RS_F_STRIKING\<rparr>
      in (cfg_strike_limit cfg > 0 \<and> rs_strikes rs \<ge> cfg_strike_limit cfg, rs, tci_stat STAT_STRIKE_ADDED 0 s))"

text \<open>The part of \<open>tci_scan\<close> that works on the entry of the source.\<close>

definition tci_scan_hit :: "fw_config \<Rightarrow> u16 \<Rightarrow> u64 \<Rightarrow> scan_state \<Rightarrow> bool \<times> scan_state" where
  "tci_scan_hit cfg dport_h now st =
     (let st = (if now - sn_window_start_ns st > cfg_scan_window_ns cfg then caly_scan_reset st now else st);
          st = st\<lparr>sn_last_seen_ns := now, sn_hits := sn_hits st + 1\<rparr>
      in if ucast dport_h = sn_last_port st then (False, st)
         else
           let st = st\<lparr>sn_last_port := ucast dport_h\<rparr>;
               st = snd (caly_scan_mark st dport_h)
           in (cfg_scan_port_threshold cfg > 0 \<and> sn_distinct st > cfg_scan_port_threshold cfg, st))"

definition tci_scan :: "kern \<Rightarrow> tci_pkt \<Rightarrow> fw_config \<Rightarrow> u64 \<Rightarrow> dp_state \<Rightarrow> bool \<times> dp_state" where
  "tci_scan k p cfg now s =
     (let key = tci_key p;
          init = caly_scan_reset \<lparr>sn_window_start_ns = 0, sn_last_seen_ns = 0, sn_bitmap = replicate 8 0,
                   sn_distinct = 0, sn_hits = 0, sn_last_port = 0, sn_flags = 0\<rparr> now;
          s = (if dp_scan s key = None then s\<lparr>dp_scan := upd_or_keep (k_upd_scan k) (dp_scan s) key init\<rparr> else s)
      in case dp_scan s key of
           None \<Rightarrow> (False, tci_stat STAT_MAP_FULL_SCAN 0 s)
         | Some st \<Rightarrow>
             let (r, st) = tci_scan_hit cfg (ntohs (tp_dport p)) now st
             in (r, s\<lparr>dp_scan := (dp_scan s)(key \<mapsto> st)\<rparr>))"

definition tci_icmp4_mandatory :: "u32 \<Rightarrow> bool" where
  "tci_icmp4_mandatory type \<longleftrightarrow> type = 3"

definition tci_icmp6_mandatory :: "u32 \<Rightarrow> bool" where
  "tci_icmp6_mandatory type \<longleftrightarrow> type = 2 \<or> type = 133 \<or> type = 134 \<or> type = 135 \<or> type = 136"

section \<open>The parser\<close>

text \<open>Every part gives \<^term>\<open>None\<close> for a load outside the buffer, which the kernel's verifier
  excludes and the lemmas below too, \<^term>\<open>Inl\<close> for an early return of \<open>tci_parse\<close> with its reason,
  and \<^term>\<open>Inr\<close> to go on.\<close>

type_synonym 'a tci_step = "((u32 \<times> tci_pkt) + 'a) option"

definition tci_is_vlan :: "u16 \<Rightarrow> bool" where
  "tci_is_vlan h \<longleftrightarrow> h = ntohs CALY_ETH_P_8021Q \<or> h = ntohs CALY_ETH_P_8021AD \<or> h = ntohs CALY_ETH_P_QINQ1 \<or>
     h = ntohs CALY_ETH_P_QINQ2 \<or> h = ntohs CALY_ETH_P_QINQ3"

function tci_vlan_loop :: "bytes \<Rightarrow> nat \<Rightarrow> u16 \<Rightarrow> u32 \<Rightarrow> tci_pkt \<Rightarrow> (u16 \<times> u32 \<times> tci_pkt) tci_step" where
  "tci_vlan_loop d i h_proto nh_off p =
     (if i < unat CALY_VLAN_MAX_DEPTH then
        if \<not> tci_is_vlan h_proto then Some (Inr (h_proto, nh_off, p))
        else if unat nh_off + 4 > length d then Some (Inl (STAT_DROP_VLAN_TRUNC, p))
        else (case ld16 d (unat nh_off + 2) of
                None \<Rightarrow> None
              | Some enc \<Rightarrow> tci_vlan_loop d (i + 1) enc (nh_off + 4) (tp_flag CALY_PKT_F_VLAN p))
      else Some (Inr (h_proto, nh_off, p)))"
  by pat_completeness auto
termination by (relation "measure (\<lambda>(_, i, _). unat CALY_VLAN_MAX_DEPTH - i)") auto

declare tci_vlan_loop.simps [simp del]

text \<open>The IPv4 header; the flag says that there is no transport header to read.\<close>

definition tci_ip4_fill :: "u32 \<Rightarrow> u8 \<Rightarrow> u16 \<Rightarrow> u8 \<Rightarrow> u8 \<Rightarrow> u32 \<Rightarrow> u32 \<Rightarrow> tci_pkt \<Rightarrow> tci_pkt" where
  "tci_ip4_fill nh_off ihl frag ttl protocol saddr daddr p =
     (let p = p\<lparr>tp_family := CALY_AF_INET, tp_l3_off := nh_off, tp_l4_off := nh_off + ucast ihl * 4,
                tp_proto := ucast protocol, tp_ttl := ttl,
                tp_saddr := (case tp_saddr p of Quad _ b c e \<Rightarrow> Quad saddr b c e),
                tp_daddr := (case tp_daddr p of Quad _ b c e \<Rightarrow> Quad daddr b c e),
                tp_frag_units := frag AND 0x1FFF\<rparr>
      in if has_flag frag 0x3FFF then
           let p = tp_flag CALY_PKT_F_FRAG p
           in if has_flag frag 0x2000 \<and> tp_frag_units p = 0 then tp_flag CALY_PKT_F_FRAG_FIRST p else p
         else p)"

definition tci_ip4 :: "bytes \<Rightarrow> fw_config \<Rightarrow> u32 \<Rightarrow> tci_pkt \<Rightarrow> (bool \<times> tci_pkt) tci_step" where
  "tci_ip4 d cfg nh_off p =
     (let o3 = unat nh_off in
      if o3 + 20 > length d then Some (Inl (STAT_DROP_IP4_TRUNC, p))
      else do {
        b0 \<leftarrow> ld8 d o3; tot_len \<leftarrow> ld16 d (o3 + 2); frag_off \<leftarrow> ld16 d (o3 + 6); ttl \<leftarrow> ld8 d (o3 + 8);
        protocol \<leftarrow> ld8 d (o3 + 9); saddr \<leftarrow> ld32 d (o3 + 12); daddr \<leftarrow> ld32 d (o3 + 16);
        let ihl = b0 AND 0x0F;
        let p' = tci_ip4_fill nh_off ihl (ntohs frag_off) ttl protocol saddr daddr p;
        Some (if ihl < 5 then Inl (STAT_DROP_IP4_IHL, p)
              else if ucast (ntohs tot_len) < (ucast ihl * 4 :: u32) then Inl (STAT_DROP_IP4_TOTLEN, p)
              else if has_flag (cfg_flags cfg) CALY_F_DROP_IP4_OPTIONS \<and> ihl > 5 then Inl (STAT_DROP_IP4_OPTIONS, p)
              else Inr (tp_frag_units p' \<noteq> 0, p')) })"

text \<open>The bytes two and three of an extension header, zero when the buffer ends before them.\<close>

definition tci_ext_word :: "bytes \<Rightarrow> nat \<Rightarrow> (u8 \<times> u8) option" where
  "tci_ext_word d i =
     (if i + 4 \<le> length d then do { a \<leftarrow> ld8 d (i + 2); b \<leftarrow> ld8 d (i + 3); Some (a, b) } else Some (0, 0))"

definition tci_is_ext :: "u8 \<Rightarrow> bool" where
  "tci_is_ext nh \<longleftrightarrow> nh = CALY_IPPROTO_HOPOPTS \<or> nh = CALY_IPPROTO_ROUTING \<or> nh = CALY_IPPROTO_DSTOPTS \<or>
     nh = CALY_IPPROTO_AH \<or> nh = CALY_IPPROTO_MH"

function tci_ext_loop ::
  "bytes \<Rightarrow> fw_config \<Rightarrow> nat \<Rightarrow> u8 \<Rightarrow> u32 \<Rightarrow> bool \<Rightarrow> tci_pkt \<Rightarrow> (u8 \<times> u32 \<times> bool \<times> tci_pkt) tci_step" where
  "tci_ext_loop d cfg i nh off frag p =
     (if \<not> i < unat CALY_IP6_EXT_MAX then Some (Inr (nh, off, frag, p))
      else if nh = CALY_IPPROTO_TCP \<or> nh = CALY_IPPROTO_UDP \<or> nh = CALY_IPPROTO_ICMPV6
        then Some (Inr (nh, off, frag, p))
      else if off > TCI_PULL_LEN then Some (Inl (STAT_DROP_IP6_EXT_TRUNC, p))
      else if nh = CALY_IPPROTO_FRAGMENT then
        let p = tp_flag CALY_PKT_F_FRAG p in
        if unat off + 2 > length d then Some (Inl (STAT_DROP_IP6_EXT_TRUNC, p))
        else (case (tci_ext_word d (unat off), ld8 d (unat off)) of
                (Some (fo_hi, fo_lo), Some nexthdr) \<Rightarrow>
                  if drop_bit 3 (push_bit 8 (ucast fo_hi) OR ucast fo_lo :: u32) \<noteq> 0
                  then tci_ext_loop d cfg (i + 1) nexthdr (off + 8) True p
                  else tci_ext_loop d cfg (i + 1) nexthdr (off + 8) frag (tp_flag CALY_PKT_F_FRAG_FIRST p)
              | _ \<Rightarrow> None)
      else if tci_is_ext nh then
        if unat off + 2 > length d then Some (Inl (STAT_DROP_IP6_EXT_TRUNC, p))
        else (case (tci_ext_word d (unat off), ld8 d (unat off), ld8 d (unat off + 1)) of
                (Some (rtype, segs), Some nexthdr, Some hdrlen) \<Rightarrow>
                  if has_flag (cfg_flags cfg) CALY_F_DROP_RH0 \<and> nh = CALY_IPPROTO_ROUTING \<and> rtype = 0 \<and> segs \<noteq> 0
                  then Some (Inl (STAT_DROP_IP6_RH0, p))
                  else tci_ext_loop d cfg (i + 1) nexthdr
                         (if nh = CALY_IPPROTO_AH then off + (ucast hdrlen + 2) * 4
                          else off + (ucast hdrlen + 1) * 8) frag p
              | _ \<Rightarrow> None)
      else Some (Inr (nh, off, frag, p)))"
  by pat_completeness auto
termination by (relation "measure (\<lambda>(_, _, i, _). unat CALY_IP6_EXT_MAX - i)") auto

declare tci_ext_loop.simps [simp del]

definition tci_ip6 :: "bytes \<Rightarrow> fw_config \<Rightarrow> u64 \<Rightarrow> u32 \<Rightarrow> tci_pkt \<Rightarrow> (bool \<times> tci_pkt) tci_step" where
  "tci_ip6 d cfg iface_flags nh_off p =
     (let o3 = unat nh_off in
      if o3 + 40 > length d then Some (Inl (STAT_DROP_IP6_TRUNC, p))
      else if \<not> has_flag (cfg_flags cfg) CALY_F_IPV6 \<or> has_flag iface_flags CALY_IF_F_NO_IPV6
        then Some (Inl (STAT_DROP_IP6_DISABLED, p))
      else do {
        nexthdr \<leftarrow> ld8 d (o3 + 6); hop_limit \<leftarrow> ld8 d (o3 + 7);
        saddr \<leftarrow> ld_quad d (o3 + 8); daddr \<leftarrow> ld_quad d (o3 + 24);
        r \<leftarrow> tci_ext_loop d cfg 0 nexthdr (nh_off + 40) False
               (p\<lparr>tp_family := CALY_AF_INET6, tp_l3_off := nh_off, tp_ttl := hop_limit,
                  tp_saddr := saddr, tp_daddr := daddr\<rparr>);
        Some (case r of Inl x \<Rightarrow> Inl x
              | Inr (nh, off, frag, p) \<Rightarrow> Inr (frag, p\<lparr>tp_proto := ucast nh, tp_l4_off := off\<rparr>)) })"

definition tci_l4 :: "bytes \<Rightarrow> tci_pkt \<Rightarrow> (u32 \<times> tci_pkt) option" where
  "tci_l4 d p =
     (let o4 = unat (tp_l4_off p); trunc = (STAT_DROP_L4_TRUNC, tp_flag CALY_PKT_F_L4_TRUNC p) in
      if tp_proto p = CALY_IPPROTO_TCP then
        if o4 + 20 > length d then Some trunc
        else do {
          source \<leftarrow> ld16 d o4; dest \<leftarrow> ld16 d (o4 + 2);
          b12 \<leftarrow> ld8 d (o4 + TCI_TCP_OFF_DOFF); fl \<leftarrow> ld8 d (o4 + TCI_TCP_OFF_FLAGS);
          let p = p\<lparr>tp_sport := source, tp_dport := dest, tp_tcp_flags := ucast fl\<rparr>;
          Some (if drop_bit 4 b12 < 5 then (STAT_DROP_TCP_DOFF, p)
                else (STAT_PKT_TOTAL,
                      p\<lparr>tp_is_syn := has_flag fl CALY_TCP_SYN \<and>
                                     \<not> has_flag fl (CALY_TCP_ACK OR CALY_TCP_RST OR CALY_TCP_FIN)\<rparr>)) }
      else if tp_proto p = CALY_IPPROTO_UDP then
        if o4 + 8 > length d then Some trunc
        else do {
          source \<leftarrow> ld16 d o4; dest \<leftarrow> ld16 d (o4 + 2);
          Some (STAT_PKT_TOTAL, p\<lparr>tp_sport := source, tp_dport := dest\<rparr>) }
      else if tp_proto p = CALY_IPPROTO_ICMP \<or> tp_proto p = CALY_IPPROTO_ICMPV6 then
        if o4 + 4 > length d then Some trunc
        else do { t \<leftarrow> ld8 d o4; Some (STAT_PKT_TOTAL, p\<lparr>tp_icmp_type := ucast t\<rparr>) }
      else Some (STAT_PKT_TOTAL, p))"

definition tci_l3 :: "bytes \<Rightarrow> fw_config \<Rightarrow> u64 \<Rightarrow> u16 \<Rightarrow> u32 \<Rightarrow> tci_pkt \<Rightarrow> (bool \<times> tci_pkt) tci_step" where
  "tci_l3 d cfg iface_flags h_proto nh_off p =
     (if tci_is_vlan h_proto then Some (Inl (STAT_DROP_VLAN_DEPTH, p))
      else if h_proto = ntohs CALY_ETH_P_IP then tci_ip4 d cfg nh_off p
      else if h_proto = ntohs CALY_ETH_P_IPV6 then tci_ip6 d cfg iface_flags nh_off p
      else Some (Inl (TCI_PASS_NONIP, p)))"

definition tci_parse :: "bytes \<Rightarrow> tci_pkt \<Rightarrow> fw_config \<Rightarrow> u64 \<Rightarrow> (u32 \<times> tci_pkt) option" where
  "tci_parse d p cfg iface_flags =
     (if 14 > length d then Some (STAT_DROP_ETH_TRUNC, p)
      else do {
        h_proto \<leftarrow> ld16 d 12;
        r \<leftarrow> tci_vlan_loop d 0 h_proto 14 p;
        case r of Inl x \<Rightarrow> Some x
        | Inr (h_proto, nh_off, p) \<Rightarrow> do {
            r \<leftarrow> tci_l3 d cfg iface_flags h_proto nh_off p;
            case r of Inl x \<Rightarrow> Some x
            | Inr (frag_no_l4, p) \<Rightarrow>
                if frag_no_l4 then Some (STAT_PKT_TOTAL, tp_flag CALY_PKT_F_L4_TRUNC p) else tci_l4 d p } })"


section \<open>The stages of the main program\<close>

text \<open>The local variables; \<open>ie_monitor\<close> is what the verdict of a drop is demoted by.\<close>

record tci_env =
  ie_cfg :: fw_config
  ie_tp :: tci_pkt
  ie_now :: u64
  ie_iface_flags :: u64
  ie_monitor :: bool
  ie_ct_miss :: bool
  ie_rule_flags :: u32

text \<open>A stage returns through \<open>tci_finish\<close>, dropping or passing, or falls through.  A pass is
  finished with \<open>monitor\<close> zero, which only demotes drops.\<close>

datatype tci_out = TDrop u32 tci_env dp_state | TPass u32 tci_env dp_state | TNext tci_env dp_state

type_synonym tci_stage = "tci_env \<Rightarrow> dp_state \<Rightarrow> tci_out"

primrec tci_run :: "tci_stage list \<Rightarrow> tci_env \<Rightarrow> dp_state \<Rightarrow> tci_out" where
  "tci_run [] e s = TNext e s"
| "tci_run (f # fs) e s =
     (case f e s of TNext e s \<Rightarrow> tci_run fs e s | r \<Rightarrow> r)"

abbreviation ie_flags :: "tci_env \<Rightarrow> u64" where "ie_flags e \<equiv> cfg_flags (ie_cfg e)"

definition ie_set_flag :: "u32 \<Rightarrow> tci_env \<Rightarrow> tci_env" where
  "ie_set_flag f e = e\<lparr>ie_tp := tp_flag f (ie_tp e)\<rparr>"

abbreviation is_tcp_udp :: "tci_pkt \<Rightarrow> bool" where
  "is_tcp_udp p \<equiv> tp_proto p = CALY_IPPROTO_TCP \<or> tp_proto p = CALY_IPPROTO_UDP"

definition tcs_port_zero :: tci_stage where
  "tcs_port_zero e s =
     (let p = ie_tp e in
      if is_tcp_udp p \<and> \<not> has_flag (tp_pkt_flags p) CALY_PKT_F_L4_TRUNC \<and> (tp_sport p = 0 \<or> tp_dport p = 0)
      then TDrop STAT_DROP_L4_PORT_ZERO e s else TNext e s)"

definition tcs_land :: tci_stage where
  "tcs_land e s =
     (let p = ie_tp e in
      if has_flag (ie_flags e) CALY_F_LAND_CHECK \<and> tp_saddr p = tp_daddr p \<and> tp_sport p = tp_dport p
      then TDrop STAT_DROP_LAND e s else TNext e s)"

definition tcs_ttl :: tci_stage where
  "tcs_ttl e s =
     (let p = ie_tp e; min_ttl = cfg_ip_min_ttl (ie_cfg e) in
      if tp_ttl p = 0 then TDrop STAT_DROP_TTL_ZERO e s
      else if has_flag (ie_flags e) CALY_F_TTL_CHECK \<and> min_ttl > 0 \<and> ucast (tp_ttl p) < min_ttl
        then TDrop STAT_DROP_TTL_LOW e s
      else TNext e s)"

definition tcs_bogon :: "kern \<Rightarrow> tci_stage" where
  "tcs_bogon k e s =
     (if has_flag (ie_flags e) CALY_F_BOGON_FILTER \<and> tp_is_wan (ie_tp e) then
        let dp = (has_flag (ie_flags e) CALY_F_WAN_DROP_PRIVATE \<or>
                  has_flag (ie_iface_flags e) CALY_IF_F_DROP_PRIVATE);
            e = e\<lparr>ie_tp := (ie_tp e)\<lparr>tp_drop_private := dp\<rparr>\<rparr>;
            a = tp_saddr (ie_tp e);
            br = (if tp_family (ie_tp e) = CALY_AF_INET then caly_v4_src_bogon (word_bytes (q0 a)) dp
                  else caly_v6_src_bogon (word_bytes (q0 a) @ word_bytes (q1 a) @ word_bytes (q2 a)
                                          @ word_bytes (q3 a)) dp)
        in if br \<noteq> STAT_PKT_TOTAL then TDrop br e s
           else if tci_src_is_local k (ie_tp e) s then TDrop STAT_DROP_SRC_SELF e s
           else TNext e s
      else TNext e s)"

definition tcs_tcp_flags :: tci_stage where
  "tcs_tcp_flags e s =
     (let fr = caly_tcp_flags_illegal (ucast (tp_tcp_flags (ie_tp e))) in
      if has_flag (ie_flags e) CALY_F_TCP_FLAG_CHECKS \<and> tp_proto (ie_tp e) = CALY_IPPROTO_TCP \<and> fr \<noteq> STAT_PKT_TOTAL
      then TDrop fr e s else TNext e s)"

abbreviation is_icmp_pkt :: "tci_pkt \<Rightarrow> bool" where
  "is_icmp_pkt p \<equiv> tp_proto p = CALY_IPPROTO_ICMP \<or> tp_proto p = CALY_IPPROTO_ICMPV6"

definition tcs_frag :: tci_stage where
  "tcs_frag e s =
     (let p = ie_tp e; cfg = ie_cfg e in
      if has_flag (ie_flags e) CALY_F_FRAG_CHECKS \<and> has_flag (tp_pkt_flags p) CALY_PKT_F_FRAG then
        if is_icmp_pkt p then TDrop STAT_DROP_FRAG_ICMP e s
        else if tp_frag_units p = 1 then TDrop STAT_DROP_FRAG_OFF_ONE e s
        else if has_flag (ie_flags e) CALY_F_DROP_ALL_FRAGS then TDrop STAT_DROP_FRAG_POLICY e s
        else if has_flag (tp_pkt_flags p) CALY_PKT_F_FRAG_FIRST \<and> cfg_frag_min_bytes cfg > 0 \<and>
                tp_pkt_len p < cfg_frag_min_bytes cfg
          then TDrop STAT_DROP_FRAG_TINY e s
        else TNext e s
      else TNext e s)"

definition tcs_icmp :: tci_stage where
  "tcs_icmp e s =
     (let p = ie_tp e; cfg = ie_cfg e in
      if has_flag (ie_flags e) CALY_F_ICMP_FILTER \<and> is_icmp_pkt p then
        let v6 = (tp_proto p = CALY_IPPROTO_ICMPV6);
            type = tp_icmp_type p AND 0xFF;
            maxp = (if v6 then cfg_icmp6_max_payload cfg else cfg_icmp_max_payload cfg);
            payload = (if tp_pkt_len p > tp_l4_off p + 8 then tp_pkt_len p - (tp_l4_off p + 8) else 0);
            pol = (if v6 then dp_icmp6_pol s type else dp_icmp4_pol s type)
        in if v6 \<and> tci_icmp6_mandatory type
             then TPass (if type = 2 then STAT_PASS_ICMP6_PMTUD else STAT_PASS_ICMP6_ND) e s
           else if \<not> v6 \<and> tci_icmp4_mandatory type then TPass STAT_PASS_ICMP4_PMTUD e s
           else if maxp > 0 \<and> payload > maxp
             then TDrop (if v6 then STAT_DROP_ICMP6_OVERSIZE else STAT_DROP_ICMP_OVERSIZE) e s
           else if pol = Some CALY_ICMP_DROP
             then TDrop (if v6 then STAT_DROP_ICMP6_TYPE else STAT_DROP_ICMP_TYPE) e s
           else TNext e s
      else TNext e s)"

definition tcs_allow :: "kern \<Rightarrow> tci_stage" where
  "tcs_allow k e s =
     (if has_flag (ie_flags e) CALY_F_ALLOWLIST then
        let (listed, rule_flags) = tci_allowlisted k (ie_tp e) s;
            e = e\<lparr>ie_rule_flags := rule_flags\<rparr>
        in if listed then TPass STAT_PASS_ALLOWLIST (ie_set_flag CALY_PKT_F_ALLOWLIST e) s else TNext e s
      else TNext e s)"

definition tcs_mgmt :: tci_stage where
  "tcs_mgmt e s =
     (let p = ie_tp e in
      if tp_proto p = CALY_IPPROTO_TCP \<and> caly_is_mgmt_tcp (ie_cfg e) (ntohs (tp_dport p))
        then TPass STAT_PASS_MGMT_PORT (ie_set_flag CALY_PKT_F_MGMT e) s
      else if tp_proto p = CALY_IPPROTO_UDP \<and> caly_is_mgmt_udp (ie_cfg e) (ntohs (tp_dport p))
        then TPass STAT_PASS_MGMT_PORT (ie_set_flag CALY_PKT_F_MGMT e) s
      else TNext e s)"

definition tcs_block :: "kern \<Rightarrow> tci_stage" where
  "tcs_block k e s =
     (if has_flag (ie_flags e) CALY_F_BLOCKLIST \<and> tci_blocklisted k (ie_tp e) s
      then TDrop STAT_DROP_BLOCKLIST e s else TNext e s)"

definition tcs_ban :: tci_stage where
  "tcs_ban e s =
     (let (active, s) = tci_ban_active (ie_tp e) (ie_now e) s
      in if active then TDrop STAT_DROP_BAN_ACTIVE e s else TNext e s)"

definition tcs_conntrack :: tci_stage where
  "tcs_conntrack e s =
     (let e = e\<lparr>ie_ct_miss := True\<rparr> in
      if has_flag (ie_flags e) CALY_F_CONNTRACK then
        let (ch, s) = tci_conn_hit (ie_tp e) (ie_now e) s
        in (case ch of
              TCI_CT_CONFIRMED \<Rightarrow> TPass STAT_PASS_CONNTRACK (ie_set_flag CALY_PKT_F_CT_HIT e) s
            | TCI_CT_UNCONFIRMED \<Rightarrow> TNext (e\<lparr>ie_ct_miss := False\<rparr>) s
            | TCI_CT_MISS \<Rightarrow> TNext e s)
      else TNext e s)"

definition tcs_lockdown :: tci_stage where
  "tcs_lockdown e s =
     (if cfg_mode (ie_cfg e) = FW_MODE_LOCKDOWN then TDrop STAT_DROP_LOCKDOWN e s else TNext e s)"

definition drop_verdict :: "tci_env \<Rightarrow> caly_verdict" where
  "drop_verdict e = (if ie_monitor e then VERDICT_MONITOR else VERDICT_DROP)"

definition tcs_amp :: "kern \<Rightarrow> u32 \<Rightarrow> tci_stage" where
  "tcs_amp k rnd e s =
     (let p = ie_tp e in
      if has_flag (ie_flags e) CALY_F_ANTI_AMPLIFY \<and> tp_proto p = CALY_IPPROTO_UDP then
        let sport_h = ucast (ntohs (tp_sport p))
        in (case dp_port_udp s sport_h of
              Some pr \<Rightarrow>
                if has_flag (pr_flags pr) CALY_PORT_F_AMPLIFIER
                then TDrop STAT_DROP_AMP_SRCPORT e
                       (tci_event k rnd (ie_cfg e) p STAT_DROP_AMP_SRCPORT (drop_verdict e) 0 (ucast sport_h) (ie_now e) s)
                else TNext e s
            | None \<Rightarrow> TNext e s)
      else TNext e s)"

definition tcs_port :: tci_stage where
  "tcs_port e s =
     (let p = ie_tp e in
      if has_flag (ie_flags e) CALY_F_PORT_POLICY \<and> is_tcp_udp p \<and> \<not> has_flag (tp_pkt_flags p) CALY_PKT_F_L4_TRUNC
      then
        let dport_h = ucast (ntohs (tp_dport p)); is_tcp = (tp_proto p = CALY_IPPROTO_TCP)
        in (case (if is_tcp then dp_port_tcp s dport_h else dp_port_udp s dport_h) of
              Some pr \<Rightarrow>
                if pr_mode pr = CALY_PORT_RATELIMIT then
                  let idx = CALY_PORT_TB_IDX (tp_proto p = CALY_IPPROTO_UDP) dport_h
                  in (case dp_port_tb s idx of
                        None \<Rightarrow> TNext e s
                      | Some tb \<Rightarrow>
                          let (ok, tb) = caly_tb_consume tb (ie_now e) (pr_rate pr) (pr_burst pr) 1;
                              s = s\<lparr>dp_port_tb := (dp_port_tb s)(idx \<mapsto> tb)\<rparr>
                          in if ok then TNext e s else TDrop STAT_DROP_PORT_RATE e s)
                else if pr_mode pr = CALY_PORT_CLOSED \<and> has_flag (ie_flags e) CALY_F_DEFAULT_DENY
                  then TDrop STAT_DROP_DEFAULT_DENY e s
                else TNext e s
            | None \<Rightarrow> if has_flag (ie_flags e) CALY_F_DEFAULT_DENY then TDrop STAT_DROP_DEFAULT_DENY e s
                      else TNext e s)
      else TNext e s)"

text \<open>A source that has exhausted a bucket: for TCP with automatic bans a strike, and at the limit
  a ban and its event.\<close>

definition tci_rate_hit :: "kern \<Rightarrow> u32 \<Rightarrow> u32 \<Rightarrow> rate_state \<Rightarrow> tci_env \<Rightarrow> dp_state \<Rightarrow> dp_state" where
  "tci_rate_hit k rnd rr rs e s =
     (let cfg = ie_cfg e; p = ie_tp e; now = ie_now e; key = tci_key p in
      if has_flag (cfg_flags cfg) CALY_F_AUTOBAN \<and> tp_proto p = CALY_IPPROTO_TCP then
        let (ban, rs, s) = tci_strike rs cfg rr now s;
            s = s\<lparr>dp_rate := (dp_rate s)(key \<mapsto> rs)\<rparr>
        in if ban then
             let (ttl, s) = tci_ban_apply k cfg p rr (cfg_ban_ttl_base_ns cfg) (rs_strikes rs) now s;
                 s = s\<lparr>dp_rate := (dp_rate s)(key \<mapsto> rs\<lparr>rs_offences := rs_offences rs + 1\<rparr>)\<rparr>
             in tci_event k rnd cfg p rr (drop_verdict e) ttl (ucast (rs_strikes rs)) now s
           else s
      else s\<lparr>dp_rate := (dp_rate s)(key \<mapsto> rs)\<rparr>)"

definition tcs_rate :: "kern \<Rightarrow> u32 \<Rightarrow> tci_stage" where
  "tcs_rate k rnd e s =
     (if has_flag (ie_flags e) CALY_F_RATE_LIMIT \<and> \<not> has_flag (ie_rule_flags e) CALY_RULE_F_BYPASS_RATE then
        let (r, s) = tci_rate_state k (ie_tp e) s
        in (case r of
              None \<Rightarrow> TNext e (tci_stat STAT_MAP_FULL_RATE 0 s)
            | Some rs \<Rightarrow>
                let (rr, rs) = tci_rate_check rs (ie_cfg e) (ie_tp e) (ie_ct_miss e) (ie_now e)
                in if rr \<noteq> STAT_PKT_TOTAL then TDrop rr e (tci_rate_hit k rnd rr rs e s)
                   else TNext e (s\<lparr>dp_rate := (dp_rate s)(tci_key (ie_tp e) \<mapsto> rs)\<rparr>))
      else TNext e s)"

definition tcs_scan :: "kern \<Rightarrow> u32 \<Rightarrow> tci_stage" where
  "tcs_scan k rnd e s =
     (let cfg = ie_cfg e; p = ie_tp e; now = ie_now e in
      if has_flag (ie_flags e) CALY_F_PORTSCAN_DETECT \<and> is_tcp_udp p then
        let (hit, s) = tci_scan k p cfg now s
        in if hit \<and> has_flag (ie_flags e) CALY_F_AUTOBAN then
             let (ttl, s) = tci_ban_apply k cfg p STAT_DROP_PORTSCAN (cfg_ban_ttl_scan_ns cfg) 0 now s
             in TDrop STAT_DROP_PORTSCAN e
                  (tci_event k rnd cfg p STAT_DROP_PORTSCAN (drop_verdict e) ttl 0 now s)
           else TNext e s
      else TNext e s)"

definition tcs_syn :: tci_stage where
  "tcs_syn e s = TNext e (if tp_is_syn (ie_tp e) then tci_gauge G_SYN 1 s else s)"

definition tcs_learn :: "kern \<Rightarrow> tci_stage" where
  "tcs_learn k e s =
     (let p = ie_tp e; dport_h = ucast (ntohs (tp_dport p));
          learn = (tp_is_syn p \<or> tp_proto p = CALY_IPPROTO_UDP \<or> is_icmp_pkt p);
          dpr = (if tp_proto p = CALY_IPPROTO_TCP then dp_port_tcp s dport_h
                 else if tp_proto p = CALY_IPPROTO_UDP then dp_port_udp s dport_h else None);
          no_ct = (case dpr of Some r \<Rightarrow> has_flag (pr_flags r) CALY_PORT_F_NO_CT | None \<Rightarrow> False)
      in if has_flag (ie_flags e) CALY_F_CONNTRACK \<and> ie_ct_miss e \<and> learn \<and> \<not> no_ct
         then TNext e (tci_conn_create k p (ie_rule_flags e) (ie_now e) (tci_gauge G_NEWCONN 1 s))
         else TNext e s)"

section \<open>The main program\<close>

definition tci_early :: "kern \<Rightarrow> tci_stage list" where
  "tci_early k = [tcs_port_zero, tcs_land, tcs_ttl, tcs_bogon k, tcs_tcp_flags, tcs_frag, tcs_icmp]"

definition tci_late :: "kern \<Rightarrow> u32 \<Rightarrow> tci_stage list" where
  "tci_late k rnd = [tcs_lockdown, tcs_amp k rnd, tcs_port, tcs_rate k rnd, tcs_scan k rnd, tcs_syn, tcs_learn k]"

definition tci_stages :: "kern \<Rightarrow> u32 \<Rightarrow> tci_stage list" where
  "tci_stages k rnd =
     tci_early k @ [tcs_allow k, tcs_mgmt, tcs_block k, tcs_ban, tcs_conntrack] @ tci_late k rnd"

text \<open>The end of a run: falling through every stage is \<open>STAT_PASS_DEFAULT\<close>.\<close>

definition tci_conclude :: "kern \<Rightarrow> tci_out \<Rightarrow> tc_action \<times> dp_state" where
  "tci_conclude k r =
     (case r of
        TDrop reason e s \<Rightarrow> tci_finish k (ie_cfg e) (ie_tp e) reason VERDICT_DROP (ie_monitor e) (ie_now e) s
      | TPass reason e s \<Rightarrow> tci_finish k (ie_cfg e) (ie_tp e) reason VERDICT_PASS False (ie_now e) s
      | TNext e s \<Rightarrow> tci_finish k (ie_cfg e) (ie_tp e) STAT_PASS_DEFAULT VERDICT_PASS False (ie_now e) s)"

text \<open>The interface: \<^term>\<open>Inl\<close> the reason of a packet that is not filtered, or its flags and
  whether it faces the network.\<close>

definition tci_iface :: "fw_config \<Rightarrow> u32 \<Rightarrow> dp_state \<Rightarrow> u32 + u64 \<times> bool" where
  "tci_iface cfg ifindex s =
     (case dp_iface s ifindex of
        Some ic \<Rightarrow>
          if has_flag (if_flags ic) CALY_IF_F_DISABLED then Inl STAT_PASS_DISABLED
          else if if_zone ic = CALY_ZONE_LAN \<or> if_zone ic = CALY_ZONE_DMZ then Inl STAT_PASS_LAN_IFACE
          else Inr (if_flags ic, has_flag (if_flags ic) CALY_IF_F_WAN)
      | None \<Rightarrow> Inr (0, cfg_default_zone cfg = CALY_ZONE_WAN))"

definition tci_pkt0 :: "u32 \<Rightarrow> u32 \<Rightarrow> tci_pkt" where
  "tci_pkt0 len ifindex = \<lparr>tp_saddr = Quad 0 0 0 0, tp_daddr = Quad 0 0 0 0, tp_family = 0, tp_proto = 0,
     tp_l3_off = 0, tp_l4_off = 0, tp_pkt_len = len, tp_ifindex = ifindex, tp_pkt_flags = 0, tp_icmp_type = 0,
     tp_sport = 0, tp_dport = 0, tp_tcp_flags = 0, tp_frag_units = 0, tp_ttl = 0, tp_is_wan = False,
     tp_is_syn = False, tp_drop_private = False\<rparr>"

definition tci_data :: "(nat \<Rightarrow> nat \<Rightarrow> nat) \<Rightarrow> sk_buff \<Rightarrow> bytes" where
  "tci_data pull skb =
     (let n = (if skb_len skb > TCI_PULL_LEN then TCI_PULL_LEN else skb_len skb)
      in take (pull (skb_linear skb) (unat n)) (skb_bytes skb))"

text \<open>The counter of a packet that could not be inspected; the byte counter is left alone.\<close>

definition tci_uninspected :: "u32 \<Rightarrow> dp_state \<Rightarrow> dp_state" where
  "tci_uninspected r s =
     (case dp_stats s r of Some v \<Rightarrow> s\<lparr>dp_stats := (dp_stats s)(r \<mapsto> v + 1)\<rparr> | None \<Rightarrow> s)"

definition tci_monitor :: "fw_config \<Rightarrow> u64 \<Rightarrow> bool" where
  "tci_monitor cfg iface_flags \<longleftrightarrow> has_flag (cfg_flags cfg) CALY_F_MONITOR_ONLY \<or>
     cfg_mode cfg = FW_MODE_MONITOR_ONLY \<or> has_flag iface_flags CALY_IF_F_MONITOR"

text \<open>A packet of a filtered interface: the parser, then the stages.\<close>

definition tci_filter ::
  "kern \<Rightarrow> u32 \<Rightarrow> fw_config \<Rightarrow> u64 \<Rightarrow> bytes \<Rightarrow> tci_pkt \<Rightarrow> dp_state \<Rightarrow> (tc_action \<times> dp_state) option" where
  "tci_filter k rnd cfg iface_flags d tp s = do {
     (reason, tp) \<leftarrow> tci_parse d tp cfg iface_flags;
     let monitor = tci_monitor cfg iface_flags;
     let now = k_now k;
     Some (if reason = TCI_PASS_NONIP then tci_finish k cfg tp STAT_PASS_NOT_IP VERDICT_PASS False 0 s
           else if reason \<noteq> STAT_PKT_TOTAL then tci_finish k cfg tp reason VERDICT_DROP monitor now s
           else tci_conclude k (tci_run (tci_stages k rnd)
                  \<lparr>ie_cfg = cfg, ie_tp = tp, ie_now = now, ie_iface_flags = iface_flags, ie_monitor = monitor,
                   ie_ct_miss = True, ie_rule_flags = 0\<rparr> s)) }"

definition caly_tc_ingress ::
  "kern \<Rightarrow> u32 \<Rightarrow> (nat \<Rightarrow> nat \<Rightarrow> nat) \<Rightarrow> sk_buff \<Rightarrow> dp_state \<Rightarrow> (tc_action \<times> dp_state) option" where
  "caly_tc_ingress k rnd pull skb s =
     (case dp_config s of
        None \<Rightarrow> Some (TC_ACT_OK, tci_uninspected STAT_CONFIG_MISSING s)
      | Some cfg \<Rightarrow>
          if dp_scratch s = None then Some (TC_ACT_OK, tci_uninspected STAT_SCRATCH_FAIL s)
          else
            let tp = tci_pkt0 (skb_len skb) (skb_ifindex skb)
            in if \<not> has_flag (cfg_flags cfg) CALY_F_ENABLED
                 then Some (tci_finish k cfg tp STAT_PASS_DISABLED VERDICT_PASS False 0 s)
               else (case tci_iface cfg (skb_ifindex skb) s of
                       Inl r \<Rightarrow> Some (tci_finish k cfg tp r VERDICT_PASS False 0 s)
                     | Inr (iface_flags, wan) \<Rightarrow>
                         tci_filter k rnd cfg iface_flags (tci_data pull skb) (tp\<lparr>tp_is_wan := wan\<rparr>) s))"


section \<open>The helpers agree with those of the XDP side\<close>

lemma tci_stat_eq [simp]: "tci_stat = caly_stat"
  by (intro ext) (simp add: tci_stat_def caly_stat_def Let_def split: option.split)

lemma tci_gauge_eq [simp]: "tci_gauge = caly_gauge_add"
  by (intro ext) (simp add: tci_gauge_def caly_gauge_add_def split: option.split)

lemma on_scratch_simps [simp]:
  "totals (on_scratch f s) = totals s" "dp_config (on_scratch f s) = dp_config s"
  "dp_ban (on_scratch f s) = dp_ban s" "dp_conn (on_scratch f s) = dp_conn s" "dp_rate (on_scratch f s) = dp_rate s"
  by (simp_all add: on_scratch_def)

text \<open>The limiter: the same walk over the buckets as \<open>caly_rate_check\<close> on a seeded entry.\<close>

lemma tci_draw_walk:
  assumes "\<And>x. x \<in> set q \<Longrightarrow> snd (snd x) \<noteq> STAT_PKT_TOTAL" "r \<noteq> STAT_PKT_TOTAL"
  shows "tci_draw cfg now a kind want r (rate_walk cfg now q rs) =
         rate_walk cfg now (q @ (if a then [(kind, want, r)] else [])) rs"
  using assms(1)
proof (induction q arbitrary: rs)
  case Nil
  show ?case using assms(2) by (simp add: tci_draw_def split_beta Let_def)
next
  case (Cons x q)
  obtain b w v where x: "x = (b, w, v)" by (metis prod.exhaust)
  have "v \<noteq> STAT_PKT_TOTAL" using Cons.prems(1) [of x] by (simp add: x)
  moreover have "tci_draw cfg now a kind want r (v, y) = (v, y)" if "v \<noteq> STAT_PKT_TOTAL" for y
    using that by (simp add: tci_draw_def)
  moreover have "tci_draw cfg now a kind want r (rate_walk cfg now q y) =
      rate_walk cfg now (q @ (if a then [(kind, want, r)] else [])) y" for y
    using Cons.prems(1) by (intro Cons.IH) simp
  ultimately show ?case
    by (cases "rate_draw rs cfg now b w") (simp add: x)
qed

definition tci_plan :: "tci_pkt \<Rightarrow> bool \<Rightarrow> rate_plan" where
  "tci_plan p ct_miss =
     plan_of (tp_pkt_len p) (tp_is_syn p) (tp_proto p = CALY_IPPROTO_UDP) (is_icmp_pkt p)
       (ct_miss \<and> (tp_is_syn p \<or> tp_proto p = CALY_IPPROTO_UDP \<or> is_icmp_pkt p))"

lemma tci_rate_check_walk:
  "tci_rate_check rs cfg p ct_miss now = rate_walk cfg now (tci_plan p ct_miss) (rs\<lparr>rs_last_seen_ns := now\<rparr>)"
proof -
  have z: "(STAT_PKT_TOTAL, rs\<lparr>rs_last_seen_ns := now\<rparr>) = rate_walk cfg now [] (rs\<lparr>rs_last_seen_ns := now\<rparr>)"
    by simp
  show ?thesis
    unfolding tci_rate_check_def Let_def z
    by (subst tci_draw_walk, force, force)+ (simp add: tci_plan_def plan_of_def)
qed

section \<open>Every load of the parser is inside the buffer\<close>

text \<open>What a parser step may return early with, and what every step leaves alone.\<close>

definition tci_reason :: "u32 \<Rightarrow> bool" where
  "tci_reason r \<longleftrightarrow> r = TCI_PASS_NONIP \<or> stat_reason_is_drop r"

definition step_ok :: "'a tci_step \<Rightarrow> bool" where
  "step_ok m \<longleftrightarrow> (case m of None \<Rightarrow> False | Some (Inl (r, _)) \<Rightarrow> tci_reason r | Some (Inr _) \<Rightarrow> True)"

lemma step_ok_simps [simp]:
  "\<not> step_ok None" "step_ok (Some (Inl (r, p))) = tci_reason r" "step_ok (Some (Inr x))"
  by (simp_all add: step_ok_def)

lemma step_okE:
  assumes "step_ok m"
  obtains r p where "m = Some (Inl (r, p))" "tci_reason r" | x where "m = Some (Inr x)"
  using assms by (auto simp: step_ok_def split: option.splits sum.splits)

lemma tci_vlan_loop_ok: "step_ok (tci_vlan_loop d i h off p)"
proof (induction d i h off p rule: tci_vlan_loop.induct)
  case (1 d i h off p)
  show ?case
  proof (cases "i < unat CALY_VLAN_MAX_DEPTH \<and> tci_is_vlan h \<and> \<not> unat off + 4 > length d")
    case True
    then have "ld16 d (unat off + 2) = Some (le16 (d ! (unat off + 2)) (d ! (unat off + 2 + 1)))"
      by (intro ld16_inside) simp
    with True "1" show ?thesis by (subst tci_vlan_loop.simps) auto
  next
    case False
    then show ?thesis
      by (subst tci_vlan_loop.simps) (auto simp: tci_reason_def stat_reason_is_drop_def)
  qed
qed

lemma tci_ip4_ok: "step_ok (tci_ip4 d cfg off p)"
  by (simp add: tci_ip4_def Let_def load_simps tci_reason_def stat_reason_is_drop_def)

lemma tci_ext_word_defined: "\<exists>a b. tci_ext_word d i = Some (a, b)"
  by (simp add: tci_ext_word_def load_simps)

lemma tci_ext_loop_ok: "step_ok (tci_ext_loop d cfg i nh off fr p)"
proof (induction d cfg i nh off fr p rule: tci_ext_loop.induct)
  case (1 d cfg i nh off fr p)
  obtain a b where w: "tci_ext_word d (unat off) = Some (a, b)" using tci_ext_word_defined by blast
  show ?case
  proof (cases "i < unat CALY_IP6_EXT_MAX \<and> \<not> (nh = CALY_IPPROTO_TCP \<or> nh = CALY_IPPROTO_UDP \<or> nh = CALY_IPPROTO_ICMPV6)
       \<and> \<not> off > TCI_PULL_LEN \<and> \<not> unat off + 2 > length d \<and> (nh = CALY_IPPROTO_FRAGMENT \<or> tci_is_ext nh)")
    case True
    then have l: "ld8 d (unat off) = Some (d ! unat off)" "ld8 d (unat off + 1) = Some (d ! (unat off + 1))"
      by (simp_all add: ld8_inside)
    show ?thesis
      using True "1" w l by (subst tci_ext_loop.simps) (auto simp: Let_def tci_reason_def stat_reason_is_drop_def)
  next
    case False
    then show ?thesis
      by (subst tci_ext_loop.simps) (auto simp: Let_def tci_reason_def stat_reason_is_drop_def)
  qed
qed

lemma tci_ip6_ok: "step_ok (tci_ip6 d cfg fl off p)"
proof (cases "unat off + 40 \<le> length d")
  case True
  then obtain q r where q: "ld_quad d (unat off + 8) = Some q" "ld_quad d (unat off + 24) = Some r"
    by (auto simp: ld_quad_def load_simps)
  have l: "ld8 d (unat off + 6) = Some (d ! (unat off + 6))" "ld8 d (unat off + 7) = Some (d ! (unat off + 7))"
    using True by (simp_all add: ld8_inside)
  have "step_ok (tci_ext_loop d cfg 0 (d ! (unat off + 6)) (off + 40) False
          (p\<lparr>tp_family := CALY_AF_INET6, tp_l3_off := off, tp_ttl := d ! (unat off + 7), tp_saddr := q, tp_daddr := r\<rparr>))"
    (is "step_ok ?m")
    by (rule tci_ext_loop_ok)
  then have "step_ok (?m \<bind> (\<lambda>r. Some (case r of Inl x \<Rightarrow> Inl x
      | Inr (nh, off, frag, p) \<Rightarrow> Inr (frag, p\<lparr>tp_proto := ucast nh, tp_l4_off := off\<rparr>))))"
    by (rule step_okE) auto
  with True q l show ?thesis
    by (simp add: tci_ip6_def Let_def tci_reason_def stat_reason_is_drop_def)
next
  case False
  then show ?thesis by (simp add: tci_ip6_def Let_def tci_reason_def stat_reason_is_drop_def)
qed

lemma tci_l3_ok: "step_ok (tci_l3 d cfg fl h off p)"
  by (simp add: tci_l3_def tci_ip4_ok tci_ip6_ok) (simp add: tci_reason_def stat_reason_is_drop_def)

lemma tci_l4_ok: "\<exists>r q. tci_l4 d p = Some (r, q) \<and> (r = STAT_PKT_TOTAL \<or> stat_reason_is_drop r)"
  by (simp add: tci_l4_def Let_def load_simps stat_reason_is_drop_def)

lemma tci_parse_ok:
  "\<exists>r q. tci_parse d p cfg fl = Some (r, q) \<and> (r = STAT_PKT_TOTAL \<or> tci_reason r)"
proof (cases "14 > length d")
  case True
  then show ?thesis by (simp add: tci_parse_def tci_reason_def stat_reason_is_drop_def)
next
  case False
  then obtain h where h: "ld16 d 12 = Some h" by (simp add: ld16_inside)
  show ?thesis
  proof (rule step_okE [OF tci_vlan_loop_ok [of d 0 h 14 p]])
    fix x assume v: "tci_vlan_loop d 0 h 14 p = Some (Inr x)"
    obtain h' off p' where x: "x = (h', off, p')" by (metis prod.exhaust)
    show ?thesis
    proof (rule step_okE [OF tci_l3_ok [of d cfg fl h' off p']])
      fix y assume "tci_l3 d cfg fl h' off p' = Some (Inr y)"
      then show ?thesis
        using False h v x tci_l4_ok [of d "snd y"]
        by (cases y) (auto simp: tci_parse_def tci_reason_def)
    qed (use False h v x in \<open>auto simp: tci_parse_def\<close>)
  qed (use False h in \<open>auto simp: tci_parse_def\<close>)
qed


section \<open>The end of a packet\<close>

definition tc_counted :: "tc_action \<Rightarrow> dp_state \<Rightarrow> dp_state \<Rightarrow> bool" where
  "tc_counted a s s' \<longleftrightarrow>
     totals s' = (bump (dp_stats s STAT_PKT_TOTAL) True, bump (dp_stats s STAT_PASS_TOTAL) (a = TC_ACT_OK),
                  bump (dp_stats s STAT_DROP_TOTAL) (a = TC_ACT_SHOT), dp_stats s STAT_TX_TOTAL)"

lemma tc_counted_cong: "tc_counted a s s' \<Longrightarrow> totals s = totals t \<Longrightarrow> tc_counted a t s'"
  by (simp add: tc_counted_def totals_def)

lemma tci_srcstats_kept [simp]:
  "totals (tci_srcstats k p cfg r dr now s) = totals s" "dp_config (tci_srcstats k p cfg r dr now s) = dp_config s"
  by (simp_all add: tci_srcstats_def Let_def split: option.splits)

lemma tci_event_kept [simp]:
  "totals (tci_event k rnd cfg p r v ttl val now s) = totals s"
  "dp_config (tci_event k rnd cfg p r v ttl val now s) = dp_config s"
  by (simp_all add: tci_event_def Let_def)

lemma tci_finish_action [simp]:
  "fst (tci_finish k cfg p r v m now s) = (if v = VERDICT_DROP \<and> \<not> m then TC_ACT_SHOT else TC_ACT_OK)"
  by (simp add: tci_finish_def Let_def)

lemma tci_finish_config [simp]: "dp_config (snd (tci_finish k cfg p r v m now s)) = dp_config s"
  by (simp add: tci_finish_def Let_def)

lemma tci_finish_counted:
  assumes "4 \<le> r"
  shows "tc_counted (fst (tci_finish k cfg p r v m now s)) s (snd (tci_finish k cfg p r v m now s))"
proof -
  have ne: "r \<noteq> 0" "r \<noteq> 1" "r \<noteq> 2" "r \<noteq> 3"
    using assms by (auto simp: word_le_nat_alt)
  have st: "dp_stats (tci_srcstats k p cfg r dr now t) STAT_PKT_TOTAL = dp_stats t STAT_PKT_TOTAL"
    "dp_stats (tci_srcstats k p cfg r dr now t) STAT_PASS_TOTAL = dp_stats t STAT_PASS_TOTAL"
    "dp_stats (tci_srcstats k p cfg r dr now t) STAT_DROP_TOTAL = dp_stats t STAT_DROP_TOTAL"
    "dp_stats (tci_srcstats k p cfg r dr now t) STAT_TX_TOTAL = dp_stats t STAT_TX_TOTAL" for dr t
    using tci_srcstats_kept(1) [of k p cfg r dr now t] by (simp_all add: totals_def)
  show ?thesis
    using ne by (simp add: tci_finish_def tc_counted_def totals_def bump_def stat_at st Let_def)
qed

section \<open>The contract of a stage\<close>

text \<open>A stage touches none of the grand totals and leaves the configuration and the monitor flag
  alone; it drops only for a reason that is counted as a drop, and passes only for one that is not.\<close>

definition ie_kept :: "tci_env \<Rightarrow> dp_state \<Rightarrow> tci_env \<Rightarrow> dp_state \<Rightarrow> bool" where
  "ie_kept e s e' s' \<longleftrightarrow> totals s' = totals s \<and> dp_config s' = dp_config s \<and> ie_cfg e' = ie_cfg e \<and>
     ie_monitor e' = ie_monitor e \<and> ie_now e' = ie_now e"

definition tci_ok :: "tci_env \<Rightarrow> dp_state \<Rightarrow> tci_out \<Rightarrow> bool" where
  "tci_ok e s r = (case r of
     TDrop rc e' s' \<Rightarrow> stat_reason_is_drop rc \<and> ie_kept e s e' s'
   | TPass rc e' s' \<Rightarrow> 4 \<le> rc \<and> \<not> stat_reason_is_drop rc \<and> ie_kept e s e' s'
   | TNext e' s' \<Rightarrow> ie_kept e s e' s')"

lemma tci_ok_simps [simp]:
  "tci_ok e s (TDrop rc e' s') \<longleftrightarrow> stat_reason_is_drop rc \<and> ie_kept e s e' s'"
  "tci_ok e s (TPass rc e' s') \<longleftrightarrow> 4 \<le> rc \<and> \<not> stat_reason_is_drop rc \<and> ie_kept e s e' s'"
  "tci_ok e s (TNext e' s') \<longleftrightarrow> ie_kept e s e' s'"
  by (simp_all add: tci_ok_def)

lemma ie_kept_simps [simp]:
  "ie_kept e s e s' \<longleftrightarrow> totals s' = totals s \<and> dp_config s' = dp_config s"
  "ie_kept e s (ie_set_flag f e') s' \<longleftrightarrow> ie_kept e s e' s'"
  "ie_kept e s (e'\<lparr>ie_tp := x\<rparr>) s' \<longleftrightarrow> ie_kept e s e' s'"
  "ie_kept e s (e'\<lparr>ie_ct_miss := y\<rparr>) s' \<longleftrightarrow> ie_kept e s e' s'"
  "ie_kept e s (e'\<lparr>ie_rule_flags := z\<rparr>) s' \<longleftrightarrow> ie_kept e s e' s'"
  by (simp_all add: ie_kept_def ie_set_flag_def)

locale tc_stage =
  fixes f :: tci_stage
  assumes ok: "tci_ok e s (f e s)"
begin

text \<open>A packet the stage decides is counted once, under the action returned for it, and never
  dropped while monitoring.\<close>

lemma decided_counted:
  assumes "f e s = TDrop rc e' s' \<or> f e s = TPass rc e' s'"
  shows "tc_counted (fst (tci_conclude k (f e s))) s (snd (tci_conclude k (f e s)))"
proof -
  have "4 \<le> rc \<and> totals s' = totals s"
    using ok [of e s] assms drop_reason_countable by (auto simp: ie_kept_def)
  with assms show ?thesis
    by (auto simp: tci_conclude_def simp del: tci_finish_action intro!: tc_counted_cong [OF tci_finish_counted])
qed

lemma decided_monitor:
  assumes "ie_monitor e"
  shows "fst (tci_conclude k (f e s)) = TC_ACT_OK"
  using ok [of e s] assms by (cases "f e s") (auto simp: tci_conclude_def ie_kept_def)

end

lemma tci_run_ok:
  assumes "\<forall>f \<in> set fs. tc_stage f"
  shows "tci_ok e s (tci_run fs e s)"
  using assms
proof (induction fs arbitrary: e s)
  case (Cons f fs)
  then have f: "tci_ok e s (f e s)" by (auto intro: tc_stage.ok)
  show ?case
  proof (cases "f e s")
    case (TNext e1 s1)
    with Cons have "tci_ok e1 s1 (tci_run fs e1 s1)" by simp
    with f TNext show ?thesis
      by (cases "tci_run fs e1 s1") (simp_all add: ie_kept_def)
  qed (use f in simp_all)
qed simp

lemma tci_run_append:
  "tci_run (fs @ gs) e s = (case tci_run fs e s of TNext e s \<Rightarrow> tci_run gs e s | r \<Rightarrow> r)"
  by (induction fs arbitrary: e s) (simp_all split: tci_out.splits)

section \<open>The stages obey the contract\<close>

lemma tcp_illegal_drop: "caly_tcp_flags_illegal f = STAT_PKT_TOTAL \<or> stat_reason_is_drop (caly_tcp_flags_illegal f)"
  by (simp add: caly_tcp_flags_illegal_def Let_def stat_reason_is_drop_def)

lemma bogon_drop:
  "caly_v4_src_bogon a b = STAT_PKT_TOTAL \<or> stat_reason_is_drop (caly_v4_src_bogon a b)"
  "caly_v6_src_bogon a b = STAT_PKT_TOTAL \<or> stat_reason_is_drop (caly_v6_src_bogon a b)"
  by (simp_all add: caly_v4_src_bogon_def caly_v6_src_bogon_def Let_def stat_reason_is_drop_def)

lemma ban_active_kept [simp]:
  "totals (snd (tci_ban_active p now s)) = totals s" "dp_config (snd (tci_ban_active p now s)) = dp_config s"
  by (simp_all add: tci_ban_active_def split: option.split)

lemma ban_apply_kept [simp]:
  "totals (snd (tci_ban_apply k cfg p r b st now s)) = totals s"
  "dp_config (snd (tci_ban_apply k cfg p r b st now s)) = dp_config s"
  by (simp_all add: tci_ban_apply_def Let_def split: option.split)

lemma conn_hit_kept [simp]:
  "totals (snd (tci_conn_hit p now s)) = totals s" "dp_config (snd (tci_conn_hit p now s)) = dp_config s"
  by (simp_all add: tci_conn_hit_def Let_def split_beta split: option.split)

lemma conn_create_kept [simp]:
  "totals (tci_conn_create k p rf now s) = totals s" "dp_config (tci_conn_create k p rf now s) = dp_config s"
  by (simp_all add: tci_conn_create_def Let_def split: option.split)

lemma rate_state_kept [simp]:
  "totals (snd (tci_rate_state k p s)) = totals s" "dp_config (snd (tci_rate_state k p s)) = dp_config s"
  by (simp_all add: tci_rate_state_def Let_def split: option.split)

lemma scan_kept [simp]:
  "totals (snd (tci_scan k p cfg now s)) = totals s" "dp_config (snd (tci_scan k p cfg now s)) = dp_config s"
  by (simp_all add: tci_scan_def Let_def split_beta split: option.split)

lemma strike_kept [simp]:
  "totals (snd (snd (tci_strike rs cfg r now s))) = totals s"
  "dp_config (snd (snd (tci_strike rs cfg r now s))) = dp_config s"
  by (simp_all add: tci_strike_def Let_def)

lemma rate_hit_kept [simp]:
  "totals (tci_rate_hit k rnd rr rs e s) = totals s" "dp_config (tci_rate_hit k rnd rr rs e s) = dp_config s"
  by (simp_all add: tci_rate_hit_def Let_def split_beta)

lemma rate_check_drop:
  "fst (tci_rate_check rs cfg p m now) = STAT_PKT_TOTAL \<or> stat_reason_is_drop (fst (tci_rate_check rs cfg p m now))"
proof -
  have "fst (rate_walk cfg now q rs) = STAT_PKT_TOTAL \<or> fst (rate_walk cfg now q rs) \<in> (snd \<circ> snd) ` set q" for q rs
  proof (induction q arbitrary: rs)
    case (Cons x q)
    then show ?case
      by (cases x, cases "rate_draw rs cfg now (fst x) (fst (snd x))") (simp, blast)
  qed simp
  moreover have "stat_reason_is_drop r" if "r \<in> (snd \<circ> snd) ` set (tci_plan p m)" for r
    using that by (auto simp: tci_plan_def plan_of_def stat_reason_is_drop_def split: if_splits)
  ultimately show ?thesis
    unfolding tci_rate_check_walk by blast
qed

interpretation tc_port_zero: tc_stage tcs_port_zero
  by unfold_locales (simp add: tcs_port_zero_def Let_def stat_reason_is_drop_def)

interpretation tc_land: tc_stage tcs_land
  by unfold_locales (simp add: tcs_land_def Let_def stat_reason_is_drop_def)

interpretation tc_ttl: tc_stage tcs_ttl
  by unfold_locales (simp add: tcs_ttl_def Let_def stat_reason_is_drop_def)

interpretation tc_bogon: tc_stage "tcs_bogon k"
  by unfold_locales (use bogon_drop in \<open>auto simp: tcs_bogon_def Let_def\<close>, simp_all add: stat_reason_is_drop_def)

interpretation tc_tcp_flags: tc_stage tcs_tcp_flags
  by unfold_locales (use tcp_illegal_drop in \<open>auto simp: tcs_tcp_flags_def Let_def\<close>)

interpretation tc_frag: tc_stage tcs_frag
  by unfold_locales (simp add: tcs_frag_def Let_def stat_reason_is_drop_def)

interpretation tc_icmp: tc_stage tcs_icmp
  by unfold_locales (simp add: tcs_icmp_def Let_def stat_reason_is_drop_def)

interpretation tc_allow: tc_stage "tcs_allow k"
  by unfold_locales (simp add: tcs_allow_def Let_def split_beta stat_reason_is_drop_def)

interpretation tc_mgmt: tc_stage tcs_mgmt
  by unfold_locales (simp add: tcs_mgmt_def Let_def stat_reason_is_drop_def)

interpretation tc_block: tc_stage "tcs_block k"
  by unfold_locales (simp add: tcs_block_def stat_reason_is_drop_def)

interpretation tc_ban: tc_stage tcs_ban
  by unfold_locales (simp add: tcs_ban_def split_beta stat_reason_is_drop_def)

interpretation tc_conntrack: tc_stage tcs_conntrack
  by unfold_locales (simp add: tcs_conntrack_def Let_def split_beta stat_reason_is_drop_def split: tci_ct.split)

interpretation tc_lockdown: tc_stage tcs_lockdown
  by unfold_locales (simp add: tcs_lockdown_def stat_reason_is_drop_def)

interpretation tc_amp: tc_stage "tcs_amp k rnd"
  by unfold_locales (simp add: tcs_amp_def Let_def stat_reason_is_drop_def split: option.split)

interpretation tc_port: tc_stage tcs_port
  by unfold_locales (simp add: tcs_port_def Let_def split_beta stat_reason_is_drop_def split: option.split)

interpretation tc_rate: tc_stage "tcs_rate k rnd"
proof
  fix e s
  show "tci_ok e s (tcs_rate k rnd e s)"
    using rate_check_drop [of _ "ie_cfg e" "ie_tp e" "ie_ct_miss e" "ie_now e"]
    by (simp add: tcs_rate_def Let_def split_beta split: option.split) blast
qed

interpretation tc_scan: tc_stage "tcs_scan k rnd"
  by unfold_locales (simp add: tcs_scan_def Let_def split_beta stat_reason_is_drop_def)

interpretation tc_syn: tc_stage tcs_syn
  by unfold_locales (simp add: tcs_syn_def)

interpretation tc_learn: tc_stage "tcs_learn k"
  by unfold_locales (simp add: tcs_learn_def Let_def)

lemmas tc_stage_axioms = tc_port_zero.tc_stage_axioms tc_land.tc_stage_axioms tc_ttl.tc_stage_axioms
  tc_bogon.tc_stage_axioms tc_tcp_flags.tc_stage_axioms tc_frag.tc_stage_axioms tc_icmp.tc_stage_axioms
  tc_allow.tc_stage_axioms tc_mgmt.tc_stage_axioms tc_block.tc_stage_axioms tc_ban.tc_stage_axioms
  tc_conntrack.tc_stage_axioms tc_lockdown.tc_stage_axioms tc_amp.tc_stage_axioms tc_port.tc_stage_axioms
  tc_rate.tc_stage_axioms tc_scan.tc_stage_axioms tc_syn.tc_stage_axioms tc_learn.tc_stage_axioms

lemma tci_stages_ok: "\<forall>f \<in> set (tci_stages k rnd). tc_stage f"
  by (simp add: tci_stages_def tci_early_def tci_late_def tc_stage_axioms)

interpretation tc_chain: tc_stage "tci_run (tci_stages k rnd)"
  by unfold_locales (rule tci_run_ok [OF tci_stages_ok])

lemma chain_counted:
  "tc_counted (fst (tci_conclude k (tci_run (tci_stages k rnd) e s))) s
     (snd (tci_conclude k (tci_run (tci_stages k rnd) e s)))"
proof (cases "tci_run (tci_stages k rnd) e s")
  case (TNext e' s')
  then have "totals s' = totals s" using tc_chain.ok [of e s k rnd] by (simp add: ie_kept_def)
  then show ?thesis
    by (auto simp: TNext tci_conclude_def simp del: tci_finish_action intro!: tc_counted_cong [OF tci_finish_counted])
qed (use tc_chain.decided_counted in blast)+

lemma chain_config: "dp_config (snd (tci_conclude k (tci_run (tci_stages k rnd) e s))) = dp_config s"
  using tc_chain.ok [of e s k rnd]
  by (cases "tci_run (tci_stages k rnd) e s") (simp_all add: tci_conclude_def ie_kept_def)


section \<open>A TCP segment at the hook\<close>

definition tci_tcp_pkt :: "tci_pkt \<Rightarrow> u8 \<Rightarrow> u32 \<Rightarrow> u32 \<Rightarrow> u16 \<Rightarrow> u16 \<Rightarrow> u8 \<Rightarrow> tci_pkt" where
  "tci_tcp_pkt p ttl saddr daddr sport dport fl =
     p\<lparr>tp_family := CALY_AF_INET, tp_l3_off := 14, tp_l4_off := 34, tp_proto := CALY_IPPROTO_TCP, tp_ttl := ttl,
       tp_saddr := Quad saddr 0 0 0, tp_daddr := Quad daddr 0 0 0, tp_frag_units := 0,
       tp_sport := ntohs sport, tp_dport := ntohs dport, tp_tcp_flags := ucast fl,
       tp_is_syn := has_flag fl CALY_TCP_SYN \<and> \<not> has_flag fl (CALY_TCP_ACK OR CALY_TCP_RST OR CALY_TCP_FIN)\<rparr>"

lemma tci_parse_tcp:
  assumes "length macs = 12" "length seqack = 8" "length tail = 6" "length payload \<le> 65481" "54 \<le> n"
    and "tp_saddr p = Quad 0 0 0 0" "tp_daddr p = Quad 0 0 0 0"
    and "d = ip4_tcp_frame macs tos ident ttl csum (s0, s1, s2, s3) (t0, t1, t2, t3) sport dport seqack fl tail payload"
  shows "tci_parse (take n d) p cfg ifl =
     Some (STAT_PKT_TOTAL, tci_tcp_pkt p ttl (le32 s0 s1 s2 s3) (le32 t0 t1 t2 t3) sport dport fl)"
proof -
  note ld = ip4_tcp_frame_loads [OF assms(1-3,8)]
  have eth: "ld16 d 12 = Some 8" using ip4_tcp_ethertype [OF assms(1)] assms(8) by simp
  have len: "54 \<le> length (take n d)" using assms(5) ld(1) by simp
  have c: "ntohs 2048 = 8" "ntohs 34525 = 0xDD86" "ntohs 33024 = 0x81" "ntohs 34984 = 0xA888"
    "ntohs 37120 = 0x91" "ntohs 37376 = 0x92" "ntohs 37632 = 0x93"
    by (simp_all add: ntohs_def)
  have v: "\<not> tci_is_vlan 8" by (simp add: tci_is_vlan_def c)
  have vl: "tci_vlan_loop (take n d) 0 8 14 p = Some (Inr (8, 14, p))"
    by (subst tci_vlan_loop.simps) (simp add: v)
  have tot: "\<not> (ucast (of_nat (40 + length payload) :: u16) :: u32) < 20"
  proof -
    have "unat (of_nat (40 + length payload) :: u16) = 40 + length payload"
      using assms(4) by (simp only: unsigned_of_nat) (simp add: take_bit_nat_eq_self_iff)
    moreover have "take_bit 32 (40 + length payload) = 40 + length payload"
      using assms(4) by (simp add: take_bit_nat_eq_self_iff)
    ultimately show ?thesis by (simp add: word_less_nat_alt unsigned_ucast_eq del: of_nat_add)
  qed
  have fr: "ntohs (le16 0x40 0) = 0x4000" by (simp add: ntohs_def le16_def)
  define p1 where "p1 = tci_ip4_fill 14 5 0x4000 ttl 6 (le32 s0 s1 s2 s3) (le32 t0 t1 t2 t3) p"
  have l3: "tci_ip4 (take n d) cfg 14 p = Some (Inr (False, p1))"
    using len assms(5) tot
    by (simp add: tci_ip4_def Let_def ld_take ld ntohs_be16 fr p1_def del: of_nat_add) (simp add: tci_ip4_fill_def Let_def)
  have p1: "tp_proto p1 = CALY_IPPROTO_TCP" "tp_l4_off p1 = 34"
    by (simp_all add: p1_def tci_ip4_fill_def Let_def)
  have "tci_l4 (take n d) p1 =
      Some (STAT_PKT_TOTAL, tci_tcp_pkt p ttl (le32 s0 s1 s2 s3) (le32 t0 t1 t2 t3) sport dport fl)"
    using len assms(5)
    by (simp add: tci_l4_def Let_def p1 ld_take ld le16_be16)
      (simp add: p1_def tci_ip4_fill_def tci_tcp_pkt_def assms(6,7) Let_def)
  then show ?thesis
    using len assms(5) by (simp add: tci_parse_def ld_take eth vl tci_l3_def v c l3)
qed


section \<open>Properties\<close>

definition tci_monitoring :: "fw_config \<Rightarrow> u32 \<Rightarrow> dp_state \<Rightarrow> bool" where
  "tci_monitoring cfg ifindex s \<longleftrightarrow>
     (case tci_iface cfg ifindex s of Inl _ \<Rightarrow> True | Inr (ifl, _) \<Rightarrow> tci_monitor cfg ifl)"

text \<open>The outcome of the hook on a packet.\<close>

definition tc_result :: "fw_config \<Rightarrow> u32 \<Rightarrow> dp_state \<Rightarrow> (tc_action \<times> dp_state) option \<Rightarrow> bool" where
  "tc_result cfg ifindex s m \<longleftrightarrow> (\<exists>a s'. m = Some (a, s') \<and> tc_counted a s s' \<and> dp_config s' = dp_config s \<and>
     (tci_monitoring cfg ifindex s \<longrightarrow> a = TC_ACT_OK))"

lemma tc_result_finish:
  assumes "4 \<le> r" "v = VERDICT_DROP \<longrightarrow> tci_monitoring cfg i s \<longrightarrow> m"
  shows "tc_result cfg i s (Some (tci_finish k c p r v m now s))"
proof -
  obtain a s' where f: "tci_finish k c p r v m now s = (a, s')" by (metis prod.exhaust)
  then show ?thesis
    using tci_finish_counted [OF assms(1), of k c p v m now s] tci_finish_action [of k c p r v m now s]
      tci_finish_config [of k c p r v m now s] assms(2)
    by (auto simp: tc_result_def simp del: tci_finish_action tci_finish_config)
qed

lemma tci_filter_result:
  assumes "tci_iface cfg i s = Inr (ifl, wan)"
  shows "tc_result cfg i s (tci_filter k rnd cfg ifl d tp s)"
proof -
  obtain r q where p: "tci_parse d tp cfg ifl = Some (r, q)" and r: "r = STAT_PKT_TOTAL \<or> tci_reason r"
    using tci_parse_ok by blast
  have m: "tci_monitoring cfg i s = tci_monitor cfg ifl" using assms by (simp add: tci_monitoring_def)
  show ?thesis
  proof (cases "r = STAT_PKT_TOTAL")
    case True
    define e where "e = \<lparr>ie_cfg = cfg, ie_tp = q, ie_now = k_now k, ie_iface_flags = ifl,
       ie_monitor = tci_monitor cfg ifl, ie_ct_miss = True, ie_rule_flags = 0\<rparr>"
    obtain a s' where c: "tci_conclude k (tci_run (tci_stages k rnd) e s) = (a, s')" by (metis prod.exhaust)
    have "tc_counted a s s'" "dp_config s' = dp_config s"
      using chain_counted [of k rnd e s] chain_config [of k rnd e s] by (simp_all add: c)
    moreover have "a = TC_ACT_OK" if "tci_monitor cfg ifl"
      using tc_chain.decided_monitor [of e k k rnd s] that c by (simp add: e_def)
    ultimately show ?thesis
      using True p m c by (simp add: tci_filter_def tc_result_def e_def)
  next
    case False
    then show ?thesis
      using p r m
      by (auto simp: tci_filter_def tci_reason_def drop_reason_countable Let_def intro!: tc_result_finish)
  qed
qed

lemma tc_ingress_result:
  assumes "dp_config s = Some cfg" "dp_scratch s = Some sc"
  shows "tc_result cfg (skb_ifindex skb) s (caly_tc_ingress k rnd pull skb s)"
proof (cases "has_flag (cfg_flags cfg) CALY_F_ENABLED")
  case True
  show ?thesis
  proof (cases "tci_iface cfg (skb_ifindex skb) s")
    case (Inl r)
    then have "4 \<le> r" by (auto simp: tci_iface_def split: option.splits if_splits)
    with True Inl assms show ?thesis by (simp add: caly_tc_ingress_def Let_def tc_result_finish)
  next
    case (Inr x)
    with True assms show ?thesis
      by (cases x) (simp add: caly_tc_ingress_def Let_def tci_filter_result)
  qed
qed (use assms in \<open>simp add: caly_tc_ingress_def Let_def tc_result_finish\<close>)

text \<open>C7. The ingress hook of the hosts without XDP is safe for every packet: it reads only inside the
  accessible bytes and returns; without a configuration or a scratch area it passes the packet and counts
  the failure only; otherwise the packet is counted once in the total and once under the action that is
  returned for it.\<close>

theorem tc_ingress_accounts:
  "\<exists>a s'. caly_tc_ingress k rnd pull skb s = Some (a, s') \<and> dp_config s' = dp_config s \<and>
     (if dp_config s = None then a = TC_ACT_OK \<and> s' = tci_uninspected STAT_CONFIG_MISSING s
      else if dp_scratch s = None then a = TC_ACT_OK \<and> s' = tci_uninspected STAT_SCRATCH_FAIL s
      else totals s' = (bump (dp_stats s STAT_PKT_TOTAL) True, bump (dp_stats s STAT_PASS_TOTAL) (a = TC_ACT_OK),
                        bump (dp_stats s STAT_DROP_TOTAL) (a = TC_ACT_SHOT), dp_stats s STAT_TX_TOTAL))"
proof (cases "dp_config s = None \<or> dp_scratch s = None")
  case True
  have "dp_config (tci_uninspected r s) = dp_config s" for r
    by (simp add: tci_uninspected_def split: option.split)
  with True show ?thesis
    by (cases "dp_config s") (simp_all add: caly_tc_ingress_def)
next
  case False
  then obtain cfg sc where c: "dp_config s = Some cfg" "dp_scratch s = Some sc" by auto
  with tc_ingress_result [OF c, of skb k rnd pull] show ?thesis
    by (auto simp: tc_result_def tc_counted_def)
qed

text \<open>In monitor mode, by flag, by mode or by interface, the hook drops nothing.\<close>

theorem tc_monitor_passes:
  assumes "dp_config s = Some cfg" "dp_scratch s = Some sc"
    and "has_flag (cfg_flags cfg) CALY_F_MONITOR_ONLY \<or> cfg_mode cfg = FW_MODE_MONITOR_ONLY \<or>
         (\<exists>ic. dp_iface s (skb_ifindex skb) = Some ic \<and> has_flag (if_flags ic) CALY_IF_F_MONITOR)"
  shows "\<exists>s'. caly_tc_ingress k rnd pull skb s = Some (TC_ACT_OK, s')"
proof -
  have "tci_monitoring cfg (skb_ifindex skb) s"
    using assms(3) by (auto simp: tci_monitoring_def tci_iface_def tci_monitor_def split: option.splits)
  then show ?thesis
    using tc_ingress_result [OF assms(1,2), of skb k rnd pull] by (auto simp: tc_result_def)
qed

text \<open>C35. The two ingress paths enforce the same limits: on a seeded entry of a source the limiter of the
  hook takes the same tokens from the same buckets and gives the same reason as the check of
  \<open>ratelimit.h\<close>, where a packet counts as a new connection when the table missed and the packet is a SYN,
  UDP or ICMP.\<close>

theorem tc_rate_limits_agree:
  assumes "has_flag (rs_flags rs) CALY_RS_F_SEEDED"
  shows "tci_rate_check rs cfg p ct_miss now =
         caly_rate_check (caly_rate_touch rs now) cfg now (tp_pkt_len p) (tp_is_syn p)
           (tp_proto p = CALY_IPPROTO_UDP) (tp_proto p = CALY_IPPROTO_ICMP \<or> tp_proto p = CALY_IPPROTO_ICMPV6)
           (ct_miss \<and> (tp_is_syn p \<or> tp_proto p = CALY_IPPROTO_UDP \<or>
                        tp_proto p = CALY_IPPROTO_ICMP \<or> tp_proto p = CALY_IPPROTO_ICMPV6))"
  using assms by (simp add: tci_rate_check_walk rate_check_walk tci_plan_def rate_seeded_def caly_rate_touch_def)

section \<open>Witnesses\<close>

definition skb0 :: sk_buff where
  "skb0 = \<lparr>skb_bytes = replicate 60 0, skb_linear = 60, skb_len = 60, skb_protocol = 0, skb_ifindex = 2\<rparr>"

theorem tc_monitor_passes_witness: "\<exists>s'. caly_tc_ingress (kern0 9) 0 (\<lambda>l n. n) skb0 mon_dp = Some (TC_ACT_OK, s')"
  by (rule tc_monitor_passes [OF mon_dp_config]) (simp_all add: mon_dp_def mon_cfg_def dp0_def)

definition rs_wit :: rate_state where
  "rs_wit = \<lparr>rs_tb = (\<lambda>_. \<lparr>tb_tokens = 0, tb_last_refill_ns = 5\<rparr>), rs_window_start_ns = 0, rs_last_seen_ns = 0,
     rs_strikes = 0, rs_last_reason = 0, rs_offences = 0, rs_flags = CALY_RS_F_SEEDED\<rparr>"

theorem tc_rate_limits_agree_witness:
  "tci_rate_check rs_wit caly_conf_set_defaults (tci_pkt0 60 2) True 5 =
   caly_rate_check (caly_rate_touch rs_wit 5) caly_conf_set_defaults 5 60 False False False False"
  using tc_rate_limits_agree [of rs_wit caly_conf_set_defaults "tci_pkt0 60 2" True 5]
  by (simp add: rs_wit_def tci_pkt0_def)

end
