(* ===== verification/Caly_Hook.thy ===== *)
theory Caly_Hook
  imports Caly_Ingress Caly_Daemon
begin

text \<open>
  What the ingress hook of \<open>tc_ingress.bpf.c\<close> does with TCP segments, from the bytes of the buffer to the
  returned action, and how it works together with the egress hook and the daemon.
\<close>

section \<open>A segment that passes the stateless checks\<close>

text \<open>A TCP segment in an IPv4 packet without options, of which the kernel gives the hook the headers.\<close>

definition tc_segment ::
  "(nat \<Rightarrow> nat \<Rightarrow> nat) \<Rightarrow> sk_buff \<Rightarrow> u8 \<Rightarrow> u8 \<times> u8 \<times> u8 \<times> u8 \<Rightarrow> u8 \<times> u8 \<times> u8 \<times> u8 \<Rightarrow> u16 \<Rightarrow> u16 \<Rightarrow> u8 \<Rightarrow> bool" where
  "tc_segment pull skb ttl src dst sport dport fl \<longleftrightarrow>
     (\<exists>macs tos ident csum seqack tail payload.
        length macs = 12 \<and> length seqack = 8 \<and> length tail = 6 \<and> length payload \<le> 65481 \<and>
        skb_bytes skb = ip4_tcp_frame macs tos ident ttl csum src dst sport dport seqack fl tail payload) \<and>
     54 \<le> skb_len skb \<and> (\<forall>l n. n \<le> pull l n)"

fun ip_word :: "u8 \<times> u8 \<times> u8 \<times> u8 \<Rightarrow> u32" where
  "ip_word (a, b, c, d) = le32 a b c d"

fun ip_octets :: "u8 \<times> u8 \<times> u8 \<times> u8 \<Rightarrow> bytes" where
  "ip_octets (a, b, c, d) = [a, b, c, d]"

text \<open>The stateless checks on it: ports, land, TTL, bogon source, flags.\<close>

definition tc_plausible ::
  "kern \<Rightarrow> fw_config \<Rightarrow> u8 \<Rightarrow> u8 \<times> u8 \<times> u8 \<times> u8 \<Rightarrow> u8 \<times> u8 \<times> u8 \<times> u8 \<Rightarrow> u16 \<Rightarrow> u16 \<Rightarrow> u8 \<Rightarrow> dp_state \<Rightarrow> bool" where
  "tc_plausible k cfg ttl src dst sport dport fl s \<longleftrightarrow>
     sport \<noteq> 0 \<and> dport \<noteq> 0 \<and> (ip_word src \<noteq> ip_word dst \<or> sport \<noteq> dport) \<and>
     ttl \<noteq> 0 \<and> (has_flag (cfg_flags cfg) CALY_F_TTL_CHECK \<longrightarrow> cfg_ip_min_ttl cfg \<le> ucast ttl) \<and>
     caly_v4_src_bogon (ip_octets src) False = STAT_PKT_TOTAL \<and>
     caly_v4_src_bogon (ip_octets src) True = STAT_PKT_TOTAL \<and>
     lpm_find k (dp_local s) (K4 (ip_word src)) = None \<and>
     caly_tcp_flags_illegal fl = STAT_PKT_TOTAL"

text \<open>The hook filters the packets of the interface.\<close>

definition tc_filters :: "fw_config \<Rightarrow> u32 \<Rightarrow> dp_state \<Rightarrow> bool" where
  "tc_filters cfg ifindex s \<longleftrightarrow> dp_config s = Some cfg \<and> dp_scratch s \<noteq> None \<and>
     has_flag (cfg_flags cfg) CALY_F_ENABLED \<and> isl (tci_iface cfg ifindex s) = False"

text \<open>The stages from the allow list on.\<close>

definition tci_decide :: "kern \<Rightarrow> u32 \<Rightarrow> tci_stage list" where
  "tci_decide k rnd = [tcs_allow k, tcs_mgmt, tcs_block k, tcs_ban, tcs_conntrack] @ tci_late k rnd"

lemma tci_stages_split: "tci_stages k rnd = tci_early k @ tci_decide k rnd"
  by (simp add: tci_stages_def tci_decide_def)

text \<open>What the stages up to the connection table look at.\<close>

definition seg_env :: "tci_env \<Rightarrow> fw_config \<Rightarrow> u64 \<Rightarrow> bool \<Rightarrow> u32 \<Rightarrow> u32 \<Rightarrow> u16 \<Rightarrow> u16 \<Rightarrow> u8 \<Rightarrow> bool" where
  "seg_env e cfg now m saddr daddr sport dport fl \<longleftrightarrow>
     ie_cfg e = cfg \<and> ie_now e = now \<and> ie_monitor e = m \<and> tp_family (ie_tp e) = CALY_AF_INET \<and>
     tp_proto (ie_tp e) = CALY_IPPROTO_TCP \<and> tp_saddr (ie_tp e) = Quad saddr 0 0 0 \<and>
     tp_daddr (ie_tp e) = Quad daddr 0 0 0 \<and> tp_sport (ie_tp e) = ntohs sport \<and>
     tp_dport (ie_tp e) = ntohs dport \<and> tp_tcp_flags (ie_tp e) = ucast fl"

lemma seg_env_upd [simp]:
  "seg_env (e\<lparr>ie_rule_flags := x\<rparr>) cfg now m a b c d fl = seg_env e cfg now m a b c d fl"
  "seg_env (e\<lparr>ie_ct_miss := y\<rparr>) cfg now m a b c d fl = seg_env e cfg now m a b c d fl"
  by (simp_all add: seg_env_def)

lemma ntohs_inj [simp]: "ntohs x = ntohs y \<longleftrightarrow> x = y"
  by (metis ntohs_ntohs)

lemma bogon_next:
  assumes "tp_family (ie_tp e) = CALY_AF_INET" "tp_saddr (ie_tp e) = Quad (le32 a b c d) 0 0 0"
    and "\<And>x. caly_v4_src_bogon [a, b, c, d] x = STAT_PKT_TOTAL"
    and "lpm_find k (dp_local s) (K4 (le32 a b c d)) = None"
  shows "\<exists>x. tcs_bogon k e s = TNext (e\<lparr>ie_tp := (ie_tp e)\<lparr>tp_drop_private := x\<rparr>\<rparr>) s"
proof (cases "has_flag (ie_flags e) CALY_F_BOGON_FILTER \<and> tp_is_wan (ie_tp e)")
  case True
  with assms show ?thesis
    by (simp add: tcs_bogon_def Let_def word_bytes_le32 tci_src_is_local_def tci_lpm_def lpm_src_def) blast
next
  case False
  then have "tcs_bogon k e s = TNext (e\<lparr>ie_tp := (ie_tp e)\<lparr>tp_drop_private := tp_drop_private (ie_tp e)\<rparr>\<rparr>) s"
    by (auto simp: tcs_bogon_def)
  then show ?thesis by blast
qed

lemma early_passes:
  assumes "tc_plausible k cfg ttl src dst sport dport fl s"
    and "seg_env e cfg now m (ip_word src) (ip_word dst) sport dport fl"
    and "tp_ttl (ie_tp e) = ttl" "tp_pkt_flags (ie_tp e) = 0"
  shows "\<exists>e'. tci_run (tci_early k) e s = TNext e' s \<and>
              seg_env e' cfg now m (ip_word src) (ip_word dst) sport dport fl"
proof -
  obtain a b c d where src: "src = (a, b, c, d)" by (metis prod.exhaust)
  have uu: "(ucast (ucast fl :: u16) :: u8) = fl"
    by (rule bit_word_eqI) (simp add: bit_simps)
  note pl = assms(1) [unfolded tc_plausible_def src ip_word.simps ip_octets.simps]
  note en = assms(2) [unfolded seg_env_def src ip_word.simps]
  have bog: "caly_v4_src_bogon [a, b, c, d] x = STAT_PKT_TOTAL" for x
    using pl by (cases x) simp_all
  obtain x where b: "tcs_bogon k e s = TNext (e\<lparr>ie_tp := (ie_tp e)\<lparr>tp_drop_private := x\<rparr>\<rparr>) s"
    using bogon_next [of e a b c d k s] en pl bog by auto
  have z: "tcs_port_zero e s = TNext e s" "tcs_land e s = TNext e s" "tcs_ttl e s = TNext e s"
    using pl en assms(3,4) by (auto simp: tcs_port_zero_def tcs_land_def tcs_ttl_def Let_def not_less)
  show ?thesis
    using pl en assms(4) uu
    by (simp add: tci_early_def z b tcs_tcp_flags_def tcs_frag_def tcs_icmp_def Let_def seg_env_def src)
qed

text \<open>The hook on such a segment: what is left to do after the stateless checks.\<close>

lemma segment_decided:
  assumes "tc_filters cfg (skb_ifindex skb) s" "tc_segment pull skb ttl src dst sport dport fl"
    and "tc_plausible k cfg ttl src dst sport dport fl s"
  shows "\<exists>e. caly_tc_ingress k rnd pull skb s = Some (tci_conclude k (tci_run (tci_decide k rnd) e s)) \<and>
             seg_env e cfg (k_now k) (tci_monitoring cfg (skb_ifindex skb) s)
               (ip_word src) (ip_word dst) sport dport fl"
proof -
  obtain ifl wan where i: "tci_iface cfg (skb_ifindex skb) s = Inr (ifl, wan)"
    using assms(1) by (cases "tci_iface cfg (skb_ifindex skb) s") (auto simp: tc_filters_def)
  obtain macs tos ident csum seqack tail payload where f:
    "length macs = 12" "length seqack = 8" "length tail = 6" "length payload \<le> 65481"
    "skb_bytes skb = ip4_tcp_frame macs tos ident ttl csum src dst sport dport seqack fl tail payload"
    using assms(2) by (auto simp: tc_segment_def)
  obtain s0 s1 s2 s3 t0 t1 t2 t3 where ad: "src = (s0, s1, s2, s3)" "dst = (t0, t1, t2, t3)"
    by (metis prod.exhaust)
  define n where "n = (if skb_len skb > TCI_PULL_LEN then TCI_PULL_LEN else skb_len skb)"
  have "54 \<le> unat n" using assms(2) by (simp add: n_def tc_segment_def word_le_nat_alt)
  then have n: "54 \<le> pull (skb_linear skb) (unat n)"
    using assms(2) by (auto simp: tc_segment_def intro: order.trans)
  define p where "p = (tci_pkt0 (skb_len skb) (skb_ifindex skb))\<lparr>tp_is_wan := wan\<rparr>"
  have "tp_saddr p = Quad 0 0 0 0" "tp_daddr p = Quad 0 0 0 0" by (simp_all add: p_def tci_pkt0_def)
  then have parse: "tci_parse (tci_data pull skb) p cfg ifl =
      Some (STAT_PKT_TOTAL, tci_tcp_pkt p ttl (ip_word src) (ip_word dst) sport dport fl)"
    unfolding tci_data_def n_def [symmetric] Let_def ad ip_word.simps
    by (rule tci_parse_tcp [OF f(1-4) n _ _ f(5) [unfolded ad]])
  define e where "e = \<lparr>ie_cfg = cfg, ie_tp = tci_tcp_pkt p ttl (ip_word src) (ip_word dst) sport dport fl,
     ie_now = k_now k, ie_iface_flags = ifl, ie_monitor = tci_monitor cfg ifl, ie_ct_miss = True, ie_rule_flags = 0\<rparr>"
  have "seg_env e cfg (k_now k) (tci_monitor cfg ifl) (ip_word src) (ip_word dst) sport dport fl"
    "tp_ttl (ie_tp e) = ttl" "tp_pkt_flags (ie_tp e) = 0"
    by (simp_all add: seg_env_def e_def tci_tcp_pkt_def p_def tci_pkt0_def)
  then obtain e' where e': "tci_run (tci_early k) e s = TNext e' s"
    "seg_env e' cfg (k_now k) (tci_monitor cfg ifl) (ip_word src) (ip_word dst) sport dport fl"
    using early_passes [OF assms(3)] by blast
  have "caly_tc_ingress k rnd pull skb s = tci_filter k rnd cfg ifl (tci_data pull skb) p s"
    using assms(1) i by (auto simp: caly_tc_ingress_def tc_filters_def Let_def p_def)
  also have "\<dots> = Some (tci_conclude k (tci_run (tci_decide k rnd) e' s))"
    by (simp add: tci_filter_def parse Let_def e_def [symmetric] tci_stages_split tci_run_append e'(1))
  finally show ?thesis
    using e'(2) i by (auto simp: tci_monitoring_def)
qed


section \<open>Deciding\<close>

lemma allow_cases:
  obtains e' where "tcs_allow k e s = TPass STAT_PASS_ALLOWLIST e' s"
  | x where "tcs_allow k e s = TNext (e\<lparr>ie_rule_flags := x\<rparr>) s"
proof (cases "has_flag (ie_flags e) CALY_F_ALLOWLIST \<and> fst (tci_allowlisted k (ie_tp e) s)")
  case True
  with that(1) show ?thesis by (simp add: tcs_allow_def split_beta Let_def)
next
  case False
  have "tcs_allow k e s = TNext (e\<lparr>ie_rule_flags :=
      if has_flag (ie_flags e) CALY_F_ALLOWLIST then snd (tci_allowlisted k (ie_tp e) s) else ie_rule_flags e\<rparr>) s"
    using False by (auto simp: tcs_allow_def split_beta Let_def)
  then show ?thesis by (rule that(2))
qed

lemma conclude_pass: "fst (tci_conclude k (TPass r e s)) = TC_ACT_OK"
  by (simp add: tci_conclude_def)

lemma conclude_drop: "\<not> ie_monitor e \<Longrightarrow> fst (tci_conclude k (TDrop r e s)) = TC_ACT_SHOT"
  by (simp add: tci_conclude_def)

lemma mgmt_decides:
  assumes "seg_env e cfg now m a b sport dport fl" "caly_is_mgmt_tcp cfg dport"
  shows "fst (tci_conclude k (tci_run (tci_decide k rnd) e s)) = TC_ACT_OK"
proof (cases rule: allow_cases [of k e s])
  case (2 x)
  have "tcs_mgmt (e\<lparr>ie_rule_flags := x\<rparr>) s = TPass STAT_PASS_MGMT_PORT (ie_set_flag CALY_PKT_F_MGMT (e\<lparr>ie_rule_flags := x\<rparr>)) s"
    using assms by (simp add: tcs_mgmt_def seg_env_def Let_def)
  with 2 show ?thesis by (simp add: tci_decide_def conclude_pass)
qed (simp add: tci_decide_def conclude_pass)

lemma mgmt_not:
  "seg_env e cfg now m a b sport dport fl \<Longrightarrow> \<not> caly_is_mgmt_tcp cfg dport \<Longrightarrow> tcs_mgmt e s = TNext e s"
  by (simp add: tcs_mgmt_def seg_env_def Let_def)

text \<open>A flow the table knows and does not hold for closed.\<close>

definition tc_confirmed :: "u8 \<Rightarrow> conn_state \<Rightarrow> bool" where
  "tc_confirmed fl cs \<longleftrightarrow> cs_state cs \<noteq> CALY_CT_CLOSED \<and>
     (has_flag (cs_flags cs) CALY_CT_F_OUTBOUND \<or> has_flag (cs_flags cs) CALY_CT_F_SEEN_REPLY \<or>
      cs_state cs = CALY_CT_SYN_RECV \<and> has_flag fl CALY_TCP_ACK \<and> \<not> has_flag fl CALY_TCP_SYN)"

lemma conn_hit_confirmed:
  assumes "seg_env e cfg now m a b sport dport fl" "dp_conn s (tcp4_key a b sport dport) = Some cs"
    and "tc_confirmed fl cs"
  shows "\<exists>s' cs'. tci_conn_hit (ie_tp e) t s = (TCI_CT_CONFIRMED, s') \<and>
           dp_conn s' (tcp4_key a b sport dport) = Some cs' \<and>
           (has_flag (cs_flags cs') CALY_CT_F_OUTBOUND \<or> has_flag (cs_flags cs') CALY_CT_F_SEEN_REPLY) \<and>
           cs_pkts_out cs' = cs_pkts_out cs \<and> (cs_state cs' = CALY_CT_CLOSED \<longrightarrow> has_flag fl CALY_TCP_RST)"
proof -
  have ck: "tci_conn_key (ie_tp e) = tcp4_key a b sport dport"
    using assms(1) by (simp add: tci_conn_key_def tcp4_key_def seg_env_def)
  have p: "tp_proto (ie_tp e) = CALY_IPPROTO_TCP" "tp_tcp_flags (ie_tp e) = ucast fl"
    using assms(1) by (simp_all add: seg_env_def)
  have "has_flag w 17 \<longleftrightarrow> has_flag w CALY_CT_F_SEEN_REPLY \<or> has_flag w CALY_CT_F_OUTBOUND" for w :: u32
    using has_flag_mask_or [of w 16 1] by simp
  then show ?thesis
    using assms(2,3)
    by (auto simp: tci_conn_hit_def ck Let_def tci_conn_advance_def p tcp_flag_up tc_confirmed_def split_beta)
qed

lemma finish_conn [simp]: "dp_conn (snd (tci_finish k cfg p r v m now s)) = dp_conn s"
proof -
  have "dp_conn (tci_srcstats k p cfg r dr now t) = dp_conn t" for dr t
    by (simp add: tci_srcstats_def Let_def split: option.splits)
  then show ?thesis by (simp add: tci_finish_def Let_def)
qed

text \<open>A segment of such a flow that no list and no escape decides.\<close>

lemma confirmed_run:
  assumes "seg_env e cfg now m a b sport dport fl" "has_flag (cfg_flags cfg) CALY_F_CONNTRACK"
    and "dp_conn s (tcp4_key a b sport dport) = Some cs" "tc_confirmed fl cs"
    and "lpm_find k (dp_block s) (K4 a) = None" "dp_ban s (K4 a) = None"
    and "\<not> caly_is_mgmt_tcp cfg dport" "tcs_allow k e s = TNext (e\<lparr>ie_rule_flags := x\<rparr>) s"
  shows "\<exists>e' s' cs'. tci_run (tci_decide k rnd) e s = TPass STAT_PASS_CONNTRACK e' s' \<and>
           dp_conn s' (tcp4_key a b sport dport) = Some cs' \<and>
           (has_flag (cs_flags cs') CALY_CT_F_OUTBOUND \<or> has_flag (cs_flags cs') CALY_CT_F_SEEN_REPLY) \<and>
           cs_pkts_out cs' = cs_pkts_out cs \<and> (cs_state cs' = CALY_CT_CLOSED \<longrightarrow> has_flag fl CALY_TCP_RST)"
proof -
  let ?e = "e\<lparr>ie_rule_flags := x\<rparr>"
  have se: "seg_env ?e cfg now m a b sport dport fl" "seg_env (?e\<lparr>ie_ct_miss := True\<rparr>) cfg now m a b sport dport fl"
    using assms(1) by simp_all
  have key: "tci_key (ie_tp ?e) = K4 a" "tci_lpm k M (ie_tp ?e) = lpm_find k M (K4 a)" for M
    using assms(1) by (simp_all add: tci_key_def tci_lpm_def lpm_src_def seg_env_def)
  have b: "tcs_block k ?e s = TNext ?e s" "tcs_ban ?e s = TNext ?e s"
    using assms(5,6) key by (simp_all add: tcs_block_def tci_blocklisted_def tcs_ban_def tci_ban_active_def)
  have "ie_cfg ?e = cfg" using assms(1) by (simp add: seg_env_def)
  then show ?thesis
    using conn_hit_confirmed [OF se(2) assms(3,4), of "ie_now e"] assms(2,8) mgmt_not [OF se(1) assms(7), of s] b
    by (auto simp: tci_decide_def tcs_conntrack_def Let_def)
qed

lemma confirmed_decides:
  assumes "seg_env e cfg now m a b sport dport fl" "has_flag (cfg_flags cfg) CALY_F_CONNTRACK"
    and "dp_conn s (tcp4_key a b sport dport) = Some cs" "tc_confirmed fl cs"
    and "lpm_find k (dp_block s) (K4 a) = None" "dp_ban s (K4 a) = None"
  shows "fst (tci_conclude k (tci_run (tci_decide k rnd) e s)) = TC_ACT_OK"
proof (cases "caly_is_mgmt_tcp cfg dport")
  case True
  then show ?thesis using mgmt_decides [OF assms(1)] by blast
next
  case False
  show ?thesis
  proof (cases rule: allow_cases [of k e s])
    case (2 x)
    then show ?thesis
      using confirmed_run [OF assms False 2, of rnd] conclude_pass by fastforce
  qed (simp add: tci_decide_def conclude_pass)
qed

lemma listed_decides:
  assumes "seg_env e cfg (k_now k) False a b sport dport fl" "\<not> caly_is_mgmt_tcp cfg dport"
    and "has_flag (cfg_flags cfg) CALY_F_ALLOWLIST \<longrightarrow> lpm_find k (dp_allow s) (K4 a) = None"
    and "has_flag (cfg_flags cfg) CALY_F_BLOCKLIST \<and> lpm_find k (dp_block s) (K4 a) \<noteq> None \<or>
         dp_ban s (K4 a) = Some be \<and> (has_flag (be_flags be) CALY_BAN_F_PERMANENT \<or> k_now k < be_expiry_ns be)"
  shows "fst (tci_conclude k (tci_run (tci_decide k rnd) e s)) = TC_ACT_SHOT"
proof -
  have key: "tci_key (ie_tp e) = K4 a" "tci_lpm k M (ie_tp e) = lpm_find k M (K4 a)" for M
    using assms(1) by (simp_all add: tci_key_def tci_lpm_def lpm_src_def seg_env_def)
  have c: "ie_cfg e = cfg" "ie_now e = k_now k" "\<not> ie_monitor e" using assms(1) by (simp_all add: seg_env_def)
  obtain x where al: "tcs_allow k e s = TNext (e\<lparr>ie_rule_flags := x\<rparr>) s"
    using assms(3) key c by (cases rule: allow_cases [of k e s]) (auto simp: tcs_allow_def tci_allowlisted_def split: if_splits)
  let ?e = "e\<lparr>ie_rule_flags := x\<rparr>"
  have "seg_env ?e cfg (k_now k) False a b sport dport fl" using assms(1) by simp
  note m = mgmt_not [OF this assms(2)]
  show ?thesis
  proof (cases "has_flag (cfg_flags cfg) CALY_F_BLOCKLIST \<and> lpm_find k (dp_block s) (K4 a) \<noteq> None")
    case True
    then have "tcs_block k ?e s = TDrop STAT_DROP_BLOCKLIST ?e s"
      using key c by (simp add: tcs_block_def tci_blocklisted_def)
    then show ?thesis using al m c by (simp add: tci_decide_def conclude_drop)
  next
    case False
    then have "tcs_block k ?e s = TNext ?e s" using key c by (auto simp: tcs_block_def tci_blocklisted_def)
    moreover have "\<exists>s'. tcs_ban ?e s = TDrop STAT_DROP_BAN_ACTIVE ?e s'"
      using False assms(4) key c by (auto simp: tcs_ban_def tci_ban_active_def not_le)
    ultimately show ?thesis using al m c by (auto simp: tci_decide_def conclude_drop)
  qed
qed

section \<open>Properties\<close>

text \<open>C8. SSH stays reachable on the hosts without XDP too: in every reachable state of the daemon, with
  its configuration in the map, a plausible TCP segment to port 22 passes the ingress hook, whatever the
  allow, block and ban tables, the buckets, the mode and the monitor flags are.\<close>

theorem tc_ssh_reachable:
  assumes "running d" "dp_config (d_dp d) = Some cfg"
    and "tc_filters cfg (skb_ifindex skb) s" "tc_segment pull skb ttl src dst sport 22 fl"
    and "tc_plausible k cfg ttl src dst sport 22 fl s"
  shows "\<exists>s'. caly_tc_ingress k rnd pull skb s = Some (TC_ACT_OK, s')"
proof -
  have "running_ok cfg" using running_inv [OF assms(1)] assms(2) by (simp add: daemon_inv_def)
  then have "mgmt_arrays cfg" "mgmt_ok cfg" by (simp_all add: running_ok_def)
  then have "caly_is_mgmt_tcp cfg 22" using mgmt_tcp_iff [of cfg 22] by (simp add: mgmt_ok_def)
  then show ?thesis
    using segment_decided [OF assms(3-5), of rnd] mgmt_decides by (metis prod.collapse)
qed

text \<open>C10. A block-listed or banned source is dropped by the hook: a plausible segment of a source that is
  not allow-listed, to a port that is not a management port, from a source with a block-list entry or a
  ban that is permanent or not expired, is dropped unless the hook monitors.\<close>

theorem tc_listed_source_dropped:
  assumes "tc_filters cfg (skb_ifindex skb) s" "tc_segment pull skb ttl src dst sport dport fl"
    and "tc_plausible k cfg ttl src dst sport dport fl s" "\<not> tci_monitoring cfg (skb_ifindex skb) s"
    and "\<not> caly_is_mgmt_tcp cfg dport"
    and "has_flag (cfg_flags cfg) CALY_F_ALLOWLIST \<longrightarrow> lpm_find k (dp_allow s) (K4 (ip_word src)) = None"
    and "has_flag (cfg_flags cfg) CALY_F_BLOCKLIST \<and> lpm_find k (dp_block s) (K4 (ip_word src)) \<noteq> None \<or>
         dp_ban s (K4 (ip_word src)) = Some be \<and>
           (has_flag (be_flags be) CALY_BAN_F_PERMANENT \<or> k_now k < be_expiry_ns be)"
  shows "\<exists>s'. caly_tc_ingress k rnd pull skb s = Some (TC_ACT_SHOT, s')"
  using segment_decided [OF assms(1-3), of rnd] listed_decides [OF _ assms(5-7), of _ _ _ _ rnd] assms(4)
  by (metis (full_types) prod.collapse)


text \<open>C34. An inbound acknowledgement alone opens the fast path: when the hook has learnt a half-open
  connection from an inbound SYN and nothing was ever sent to the source, a plausible segment of that source
  with ACK and without SYN passes as part of a confirmed flow, in every mode and whatever the buckets hold,
  and the entry says that traffic was seen in both directions, although still nothing was sent.\<close>

theorem tc_ack_alone_confirms:
  assumes "tc_filters cfg (skb_ifindex skb) s" "tc_segment pull skb ttl src dst sport dport fl"
    and "tc_plausible k cfg ttl src dst sport dport fl s" "has_flag (cfg_flags cfg) CALY_F_CONNTRACK"
    and "dp_conn s (tcp4_key (ip_word src) (ip_word dst) sport dport) = Some cs"
    and "cs_state cs = CALY_CT_SYN_RECV" "cs_pkts_out cs = 0"
    and "has_flag fl CALY_TCP_ACK" "\<not> has_flag fl CALY_TCP_SYN"
    and "lpm_find k (dp_block s) (K4 (ip_word src)) = None" "dp_ban s (K4 (ip_word src)) = None"
    and "\<not> caly_is_mgmt_tcp cfg dport" "lpm_find k (dp_allow s) (K4 (ip_word src)) = None"
  shows "\<exists>s' cs'. caly_tc_ingress k rnd pull skb s = Some (TC_ACT_OK, s') \<and>
           dp_conn s' (tcp4_key (ip_word src) (ip_word dst) sport dport) = Some cs' \<and>
           (has_flag (cs_flags cs') CALY_CT_F_OUTBOUND \<or> has_flag (cs_flags cs') CALY_CT_F_SEEN_REPLY) \<and>
           cs_pkts_out cs' = 0"
proof -
  obtain e where i: "caly_tc_ingress k rnd pull skb s = Some (tci_conclude k (tci_run (tci_decide k rnd) e s))"
    and e: "seg_env e cfg (k_now k) (tci_monitoring cfg (skb_ifindex skb) s) (ip_word src) (ip_word dst) sport dport fl"
    using segment_decided [OF assms(1-3)] by blast
  have c: "tc_confirmed fl cs" using assms(6,8,9) by (simp add: tc_confirmed_def)
  have "tci_lpm k (dp_allow s) (ie_tp e) = None"
    using e assms(13) by (simp add: tci_lpm_def lpm_src_def seg_env_def)
  then obtain x where "tcs_allow k e s = TNext (e\<lparr>ie_rule_flags := x\<rparr>) s"
    by (cases rule: allow_cases [of k e s]) (auto simp: tcs_allow_def tci_allowlisted_def split: if_splits)
  from confirmed_run [OF e assms(4,5) c assms(10,11,12) this, of rnd] obtain e' s' cs' where
    r: "tci_run (tci_decide k rnd) e s = TPass STAT_PASS_CONNTRACK e' s'"
    "dp_conn s' (tcp4_key (ip_word src) (ip_word dst) sport dport) = Some cs'"
    "has_flag (cs_flags cs') CALY_CT_F_OUTBOUND \<or> has_flag (cs_flags cs') CALY_CT_F_SEEN_REPLY"
    "cs_pkts_out cs' = 0"
    using assms(7) by auto
  then show ?thesis
    using i by (simp add: tci_conclude_def prod_eq_iff)
qed


section \<open>Witnesses\<close>

definition hook_skb :: "u8 \<times> u8 \<times> u8 \<times> u8 \<Rightarrow> u8 \<times> u8 \<times> u8 \<times> u8 \<Rightarrow> u16 \<Rightarrow> u16 \<Rightarrow> u8 \<Rightarrow> sk_buff" where
  "hook_skb src dst sport dport fl =
     \<lparr>skb_bytes = ip4_tcp_frame (replicate 12 7) 0 1 64 0 src dst sport dport (replicate 8 0) fl (replicate 6 0) [],
      skb_linear = 54, skb_len = 54, skb_protocol = 8, skb_ifindex = 2\<rparr>"

abbreviation "us9 \<equiv> (9 :: u8, 9 :: u8, 9 :: u8, 9 :: u8)"
abbreviation "peer8 \<equiv> (8 :: u8, 8 :: u8, 8 :: u8, 8 :: u8)"

lemma hook_segment: "tc_segment (\<lambda>l n. n) (hook_skb src dst sport dport fl) 64 src dst sport dport fl"
  unfolding tc_segment_def hook_skb_def
  by (intro conjI exI [of _ "replicate 12 7"] exI [of _ "0 :: u8"] exI [of _ "1 :: u16"] exI [of _ "0 :: u16"]
      exI [of _ "replicate 8 0"] exI [of _ "replicate 6 0"] exI [of _ "[]"]) simp_all

lemma hook_ifindex [simp]: "skb_ifindex (hook_skb src dst sport dport fl) = 2"
  by (simp add: hook_skb_def)

lemma peer8_bogon: "caly_v4_src_bogon [8, 8, 8, 8] b = STAT_PKT_TOTAL"
  by (simp add: caly_v4_src_bogon_def)

lemma peer8_plausible:
  assumes "sport \<noteq> 0" "dport \<noteq> 0" "caly_tcp_flags_illegal fl = STAT_PKT_TOTAL" "cfg_ip_min_ttl cfg = 0"
    and "dp_local s = Map.empty"
  shows "tc_plausible (kern0 t) cfg 64 peer8 us9 sport dport fl s"
  using assms by (simp add: tc_plausible_def peer8_bogon kern0_lpm) (simp add: le32_def)

lemma dp0_filters:
  assumes "has_flag (cfg_flags cfg) CALY_F_ENABLED"
  shows "tc_filters cfg i (dp0 cfg sc)"
  using assms by (simp add: tc_filters_def tci_iface_def dp0_def)

lemma ack_legal: "caly_tcp_flags_illegal CALY_TCP_ACK = STAT_PKT_TOTAL"
  "caly_tcp_flags_illegal 18 = STAT_PKT_TOTAL"
  by (simp_all add: caly_tcp_flags_illegal_def)

theorem tc_ssh_reachable_witness:
  "\<exists>s'. caly_tc_ingress (kern0 9) 0 (\<lambda>l n. n) (hook_skb peer8 us9 40000 22 CALY_TCP_SYN)
     ((dp0 cfg1 ssh_sc)\<lparr>dp_ban := [K4 (ip_word peer8) \<mapsto> ban0 CALY_BAN_F_PERMANENT]\<rparr>) = Some (TC_ACT_OK, s')"
proof (rule tc_ssh_reachable [OF d1_running started(3) _ hook_segment])
  have c: "cfg_ip_min_ttl cfg1 = 0" "has_flag (cfg_flags cfg1) CALY_F_ENABLED"
    by (simp_all add: cfg1_def caly_config_defaults_def caly_config_apply_caps_def feat0_def Let_def)
  show "tc_plausible (kern0 9) cfg1 64 peer8 us9 40000 22 CALY_TCP_SYN
      ((dp0 cfg1 ssh_sc)\<lparr>dp_ban := [K4 (ip_word peer8) \<mapsto> ban0 CALY_BAN_F_PERMANENT]\<rparr>)"
    by (rule peer8_plausible) (simp_all add: c dp0_def)
  show "tc_filters cfg1 (skb_ifindex (hook_skb peer8 us9 40000 22 CALY_TCP_SYN))
      ((dp0 cfg1 ssh_sc)\<lparr>dp_ban := [K4 (ip_word peer8) \<mapsto> ban0 CALY_BAN_F_PERMANENT]\<rparr>)"
    using c(2) by (simp add: tc_filters_def tci_iface_def dp0_def)
qed

theorem tc_listed_source_dropped_witness:
  "\<exists>s'. caly_tc_ingress (kern0 9) 0 (\<lambda>l n. n) (hook_skb peer8 us9 443 40000 CALY_TCP_SYN)
     ((dp0 caly_conf_set_defaults syn_sc)\<lparr>dp_ban := [K4 (ip_word peer8) \<mapsto> ban0 CALY_BAN_F_PERMANENT]\<rparr>) = Some (TC_ACT_SHOT, s')"
  by (rule tc_listed_source_dropped [where cfg = caly_conf_set_defaults and be = "ban0 CALY_BAN_F_PERMANENT", OF _ hook_segment peer8_plausible])
    (simp_all add: tc_filters_def tci_iface_def tci_monitoring_def tci_monitor_def wit_not_mgmt kern0_lpm, simp_all add: dp0_def kern0_lpm ban0_def tci_monitor_def)


definition half_open :: conn_state where
  "half_open = \<lparr>cs_created_ns = 5, cs_last_seen_ns = 5, cs_pkts_in = 1, cs_bytes_in = 54, cs_pkts_out = 0,
     cs_bytes_out = 0, cs_state = CALY_CT_SYN_RECV, cs_flags = 0, cs_ifindex = 2, cs_mark = 0\<rparr>"

definition flood_cfg :: fw_config where
  "flood_cfg = caly_conf_set_defaults\<lparr>cfg_mode := FW_MODE_LOCKDOWN\<rparr>"

theorem tc_ack_alone_confirms_witness:
  "\<exists>s'. caly_tc_ingress (kern0 9) 0 (\<lambda>l n. n) (hook_skb peer8 us9 443 40000 CALY_TCP_ACK)
     ((dp0 flood_cfg syn_sc)\<lparr>dp_conn := [wit_key \<mapsto> half_open]\<rparr>) = Some (TC_ACT_OK, s')"
proof -
  let ?s = "(dp0 flood_cfg syn_sc)\<lparr>dp_conn := [wit_key \<mapsto> half_open]\<rparr>"
  have c: "cfg_ip_min_ttl flood_cfg = 0" "has_flag (cfg_flags flood_cfg) CALY_F_ENABLED"
    "has_flag (cfg_flags flood_cfg) CALY_F_CONNTRACK" "\<not> caly_is_mgmt_tcp flood_cfg 40000"
    using wit_not_mgmt by (simp_all add: flood_cfg_def caly_is_mgmt_tcp_def)
  have m: "dp_allow ?s = Map.empty" "dp_block ?s = Map.empty" "dp_local ?s = Map.empty" "dp_ban ?s = Map.empty"
    by (simp_all add: dp0_def)
  have f: "tc_filters flood_cfg (skb_ifindex (hook_skb peer8 us9 443 40000 CALY_TCP_ACK)) ?s"
    using c(2) by (simp add: tc_filters_def tci_iface_def dp0_def)
  have p: "tc_plausible (kern0 9) flood_cfg 64 peer8 us9 443 40000 CALY_TCP_ACK ?s"
    by (rule peer8_plausible) (simp_all add: c(1) m ack_legal)
  show ?thesis
    using tc_ack_alone_confirms [OF f hook_segment p c(3), of half_open 0] c(4)
    by (simp add: m kern0_lpm half_open_def has_flag_def) blast
qed

end
