(* ===== verification/Caly_Cursor.thy ===== *)
theory Caly_Cursor
  imports Caly_Parse
begin

text \<open>
  The cursor parser of \<open>parsing.h\<close>, the library parser of the data plane: a cursor over the frame with
  bounded pulls, one routine per header, the tunnel unwrapping, and \<open>caly_parse_packet\<close>, which fills the
  packet descriptor.  The translation of its error codes to counters is in \<open>compat.h\<close>.

  A cursor is the offset of its position in the frame; its end is the end of the frame.  A routine that
  would load outside the frame has the result \<^term>\<open>None\<close>, which the lemmas exclude.  The bound on nested
  tunnels, a constant of the build that is zero today, is a parameter of the routines that use it.
\<close>

section \<open>Error codes\<close>

datatype parse_err = ERR_TRUNC | ERR_ETH_TRUNC | ERR_VLAN_TRUNC | ERR_VLAN_DEPTH | ERR_L3_UNKNOWN | ERR_IP4_TRUNC
  | ERR_IP4_IHL | ERR_IP4_TOTLEN | ERR_IP4_OPTIONS | ERR_IP6_TRUNC | ERR_IP6_EXT_DEPTH | ERR_IP6_EXT_TRUNC
  | ERR_IP6_RH0 | ERR_TUNNEL_TRUNC | ERR_TUNNEL_DEPTH | ERR_TUNNEL_PROTO | ERR_GRE_MALFORMED | ERR_L4_TRUNC
  | ERR_L4_UNKNOWN | ERR_TCP_DOFF | ERR_L4_PORT_ZERO | ERR_ENCRYPTED | ERR_NO_NEXT | ERR_FRAG_NO_L4 | ERR_INVAL

fun caly_parse_err_reason :: "parse_err \<Rightarrow> u32" where
  "caly_parse_err_reason ERR_ETH_TRUNC = STAT_DROP_ETH_TRUNC"
| "caly_parse_err_reason ERR_VLAN_TRUNC = STAT_DROP_VLAN_TRUNC"
| "caly_parse_err_reason ERR_VLAN_DEPTH = STAT_DROP_VLAN_DEPTH"
| "caly_parse_err_reason ERR_L3_UNKNOWN = STAT_DROP_L3_UNKNOWN"
| "caly_parse_err_reason ERR_IP4_TRUNC = STAT_DROP_IP4_TRUNC"
| "caly_parse_err_reason ERR_IP4_IHL = STAT_DROP_IP4_IHL"
| "caly_parse_err_reason ERR_IP4_TOTLEN = STAT_DROP_IP4_TOTLEN"
| "caly_parse_err_reason ERR_IP4_OPTIONS = STAT_DROP_IP4_OPTIONS"
| "caly_parse_err_reason ERR_IP6_TRUNC = STAT_DROP_IP6_TRUNC"
| "caly_parse_err_reason ERR_IP6_EXT_DEPTH = STAT_DROP_IP6_EXT_DEPTH"
| "caly_parse_err_reason ERR_IP6_EXT_TRUNC = STAT_DROP_IP6_EXT_TRUNC"
| "caly_parse_err_reason ERR_IP6_RH0 = STAT_DROP_IP6_RH0"
| "caly_parse_err_reason ERR_TUNNEL_TRUNC = STAT_DROP_TUNNEL_TRUNC"
| "caly_parse_err_reason ERR_TUNNEL_DEPTH = STAT_DROP_TUNNEL_DEPTH"
| "caly_parse_err_reason ERR_TUNNEL_PROTO = STAT_DROP_TUNNEL_PROTO"
| "caly_parse_err_reason ERR_GRE_MALFORMED = STAT_DROP_GRE_MALFORMED"
| "caly_parse_err_reason ERR_L4_TRUNC = STAT_DROP_L4_TRUNC"
| "caly_parse_err_reason ERR_L4_UNKNOWN = STAT_DROP_L4_UNKNOWN"
| "caly_parse_err_reason ERR_TCP_DOFF = STAT_DROP_TCP_DOFF"
| "caly_parse_err_reason ERR_L4_PORT_ZERO = STAT_DROP_L4_PORT_ZERO"
| "caly_parse_err_reason ERR_TRUNC = STAT_DROP_L4_TRUNC"
| "caly_parse_err_reason ERR_ENCRYPTED = STAT_PKT_TOTAL"
| "caly_parse_err_reason ERR_NO_NEXT = STAT_PKT_TOTAL"
| "caly_parse_err_reason ERR_FRAG_NO_L4 = STAT_PKT_TOTAL"
| "caly_parse_err_reason ERR_INVAL = STAT_PKT_TOTAL"

definition caly_parse_err_benign :: "parse_err \<Rightarrow> bool" where
  "caly_parse_err_benign err \<longleftrightarrow> err = ERR_ENCRYPTED \<or> err = ERR_NO_NEXT \<or> err = ERR_FRAG_NO_L4"

section \<open>The cursor\<close>

abbreviation (input) CALY_PULL_MAX :: u32 where "CALY_PULL_MAX \<equiv> 2048"

text \<open>The pointer to the pulled bytes and the new cursor, or the null pointer.\<close>

definition caly_pull :: "bytes \<Rightarrow> nat \<Rightarrow> u32 \<Rightarrow> (nat \<times> nat) option" where
  "caly_pull d c len =
     (if len > CALY_PULL_MAX then None
      else if c + unat len > length d then None
      else Some (c, c + unat len))"

definition caly_peek :: "bytes \<Rightarrow> nat \<Rightarrow> u32 \<Rightarrow> nat option" where
  "caly_peek d c len =
     (if len > CALY_PULL_MAX then None else if c + unat len > length d then None else Some c)"

definition caly_avail :: "bytes \<Rightarrow> nat \<Rightarrow> u32" where
  "caly_avail d c = (if c > length d then 0 else of_nat (length d - c))"

definition caly_offset :: "nat \<Rightarrow> u32" where
  "caly_offset c = of_nat c"

section \<open>Ethernet\<close>

definition caly_eth_proto_is_vlan :: "u16 \<Rightarrow> bool" where
  "caly_eth_proto_is_vlan p \<longleftrightarrow> p = CALY_ETH_P_8021Q \<or> p = CALY_ETH_P_8021AD \<or> p = CALY_ETH_P_QINQ1 \<or>
     p = CALY_ETH_P_QINQ2 \<or> p = CALY_ETH_P_QINQ3"

function eth_vlans :: "bytes \<Rightarrow> u32 \<Rightarrow> nat \<Rightarrow> u16 \<Rightarrow> u32 \<Rightarrow> nat \<Rightarrow> (parse_err + u16 \<times> u32 \<times> nat) option" where
  "eth_vlans d max_vlan i proto depth c =
     (if \<not> i < unat CALY_VLAN_MAX_DEPTH \<or> of_nat i \<ge> max_vlan \<or> \<not> caly_eth_proto_is_vlan proto
      then Some (Inr (proto, depth, c))
      else (case caly_pull d c 4 of
              None \<Rightarrow> Some (Inl ERR_VLAN_TRUNC)
            | Some (vh, c) \<Rightarrow>
                (case ld16 d (vh + 2) of
                   None \<Rightarrow> None
                 | Some p \<Rightarrow> eth_vlans d max_vlan (i + 1) (ntohs p) (depth + 1) c)))"
  by pat_completeness auto
termination by (relation "measure (\<lambda>(_, _, i, _). unat CALY_VLAN_MAX_DEPTH - i)") auto

declare eth_vlans.simps [simp del]

text \<open>The Ethernet header, the protocol in host order, the number of tags and the cursor.\<close>

definition caly_parse_eth :: "bytes \<Rightarrow> nat \<Rightarrow> u32 \<Rightarrow> (parse_err + nat \<times> u16 \<times> u32 \<times> nat) option" where
  "caly_parse_eth d c max_vlan =
     (let max_vlan = (if max_vlan > CALY_VLAN_MAX_DEPTH then CALY_VLAN_MAX_DEPTH else max_vlan)
      in case caly_pull d c 14 of
           None \<Rightarrow> Some (Inl ERR_ETH_TRUNC)
         | Some (eth, c) \<Rightarrow> do {
             h \<leftarrow> ld16 d (eth + 12);
             r \<leftarrow> eth_vlans d max_vlan 0 (ntohs h) 0 c;
             Some (case r of
                     Inl e \<Rightarrow> Inl e
                   | Inr (proto, depth, c) \<Rightarrow>
                       if caly_eth_proto_is_vlan proto then Inl ERR_VLAN_DEPTH else Inr (eth, proto, depth, c)) })"

section \<open>IPv4\<close>

record caly_ip4_info =
  i4_saddr :: u32
  i4_daddr :: u32
  i4_hdr_bytes :: u32
  i4_payload_len :: u32
  i4_frag_off :: u32
  i4_protocol :: u8
  i4_ttl :: u8
  i4_more_frags :: bool
  i4_dont_frag :: bool

abbreviation (input) CALY_IP4_FRAG_DF :: u16 where "CALY_IP4_FRAG_DF \<equiv> 0x4000"
abbreviation (input) CALY_IP4_FRAG_MF :: u16 where "CALY_IP4_FRAG_MF \<equiv> 0x2000"
abbreviation (input) CALY_IP4_FRAG_MASK :: u16 where "CALY_IP4_FRAG_MASK \<equiv> 0x1FFF"

definition caly_parse_ipv4 :: "bytes \<Rightarrow> nat \<Rightarrow> u64 \<Rightarrow> (parse_err + caly_ip4_info \<times> nat) option" where
  "caly_parse_ipv4 d c cflags =
     (let avail_at_l3 = caly_avail d c
      in case caly_pull d c 20 of
           None \<Rightarrow> Some (Inl ERR_IP4_TRUNC)
         | Some (ip, c) \<Rightarrow> do {
             version_ihl \<leftarrow> ld8 d ip; tot \<leftarrow> ld16 d (ip + 2); frag \<leftarrow> ld16 d (ip + 6); ttl \<leftarrow> ld8 d (ip + 8);
             protocol \<leftarrow> ld8 d (ip + 9); saddr \<leftarrow> ld32 d (ip + 12); daddr \<leftarrow> ld32 d (ip + 16);
             let ihl_bytes = (ucast (version_ihl AND 0x0F) * 4 :: u32);
             let tot_len = (ucast (ntohs tot) :: u32);
             let frag_field = ntohs frag;
             let out = \<lparr>i4_saddr = saddr, i4_daddr = daddr, i4_hdr_bytes = ihl_bytes,
                        i4_payload_len = tot_len - ihl_bytes,
                        i4_frag_off = ucast (frag_field AND CALY_IP4_FRAG_MASK), i4_protocol = protocol, i4_ttl = ttl,
                        i4_more_frags = has_flag frag_field CALY_IP4_FRAG_MF,
                        i4_dont_frag = has_flag frag_field CALY_IP4_FRAG_DF\<rparr>;
             Some (if drop_bit 4 version_ihl \<noteq> 4 then Inl ERR_L3_UNKNOWN
                   else if ihl_bytes < 20 then Inl ERR_IP4_IHL
                   else if tot_len < ihl_bytes then Inl ERR_IP4_TOTLEN
                   else if tot_len > avail_at_l3 then Inl ERR_IP4_TOTLEN
                   else if ihl_bytes > 20 then
                     if has_flag cflags CALY_F_DROP_IP4_OPTIONS then Inl ERR_IP4_OPTIONS
                     else if ihl_bytes - 20 > 40 then Inl ERR_IP4_IHL
                     else (case caly_pull d c (ihl_bytes - 20) of
                             None \<Rightarrow> Inl ERR_IP4_TRUNC
                           | Some (_, c) \<Rightarrow> Inr (out, c))
                   else Inr (out, c)) })"

section \<open>IPv6\<close>

record caly_ip6_info =
  i6_saddr :: quad
  i6_daddr :: quad
  i6_payload_len :: u32
  i6_ext_bytes :: u32
  i6_frag_off :: u32
  i6_nexthdr :: u8
  i6_hop_limit :: u8
  i6_more_frags :: bool
  i6_ext_count :: u8

definition ld_addr6 :: "bytes \<Rightarrow> nat \<Rightarrow> quad option" where
  "ld_addr6 d i = do { a \<leftarrow> ld32 d i; b \<leftarrow> ld32 d (i + 4); c \<leftarrow> ld32 d (i + 8); e \<leftarrow> ld32 d (i + 12);
     Some (Quad a b c e) }"

definition caly_parse_ipv6 :: "bytes \<Rightarrow> nat \<Rightarrow> (parse_err + caly_ip6_info \<times> nat) option" where
  "caly_parse_ipv6 d c =
     (let avail_at_l3 = caly_avail d c
      in case caly_pull d c 40 of
           None \<Rightarrow> Some (Inl ERR_IP6_TRUNC)
         | Some (ip6, c) \<Rightarrow> do {
             ver \<leftarrow> ld32 d ip6; pl \<leftarrow> ld16 d (ip6 + 4); nexthdr \<leftarrow> ld8 d (ip6 + 6); hop_limit \<leftarrow> ld8 d (ip6 + 7);
             saddr \<leftarrow> ld_addr6 d (ip6 + 8); daddr \<leftarrow> ld_addr6 d (ip6 + 24);
             let plen = (ucast (ntohs pl) :: u32);
             Some (if drop_bit 28 (ntohl ver) \<noteq> 6 then Inl ERR_L3_UNKNOWN
                   else if plen \<noteq> 0 \<and> plen + 40 > avail_at_l3 then Inl ERR_IP6_TRUNC
                   else Inr (\<lparr>i6_saddr = saddr, i6_daddr = daddr, i6_payload_len = plen, i6_ext_bytes = 0,
                              i6_frag_off = 0, i6_nexthdr = nexthdr, i6_hop_limit = hop_limit,
                              i6_more_frags = False, i6_ext_count = 0\<rparr>, c)) })"

text \<open>One extension header: the next header, the length to skip and what it adds to the description.\<close>

definition ext_hdr :: "bytes \<Rightarrow> u64 \<Rightarrow> u8 \<Rightarrow> caly_ip6_info \<Rightarrow> nat \<Rightarrow> (parse_err + u8 \<times> u32 \<times> caly_ip6_info) option" where
  "ext_hdr d cflags nh info c =
     (if nh = CALY_IPPROTO_ROUTING then
        (case caly_peek d c 4 of
           None \<Rightarrow> Some (Inl ERR_IP6_EXT_TRUNC)
         | Some rt \<Rightarrow> do {
             nexthdr \<leftarrow> ld8 d rt; hdrlen \<leftarrow> ld8 d (rt + 1); type \<leftarrow> ld8 d (rt + 2);
             let hlen = ((ucast hdrlen + 1) * 8 :: u32);
             Some (if type = 0 \<and> has_flag cflags CALY_F_DROP_RH0 then Inl ERR_IP6_RH0
                   else if hlen < 8 \<or> hlen > 2048 then Inl ERR_IP6_EXT_TRUNC
                   else Inr (nexthdr, hlen, info)) })
      else if nh = CALY_IPPROTO_FRAGMENT then
        (case caly_peek d c 8 of
           None \<Rightarrow> Some (Inl ERR_IP6_EXT_TRUNC)
         | Some fh \<Rightarrow> do {
             nexthdr \<leftarrow> ld8 d fh; f \<leftarrow> ld16 d (fh + 2);
             let fo = ntohs f;
             Some (Inr (nexthdr, 8, info\<lparr>i6_frag_off := ucast (drop_bit 3 fo), i6_more_frags := has_flag fo 1\<rparr>)) })
      else if nh = CALY_IPPROTO_AH then
        (case caly_peek d c 12 of
           None \<Rightarrow> Some (Inl ERR_IP6_EXT_TRUNC)
         | Some ah \<Rightarrow> do {
             nexthdr \<leftarrow> ld8 d ah; hdrlen \<leftarrow> ld8 d (ah + 1);
             let hlen = ((ucast hdrlen + 2) * 4 :: u32);
             Some (if hlen < 8 \<or> hlen > 1024 then Inl ERR_IP6_EXT_TRUNC else Inr (nexthdr, hlen, info)) })
      else
        (case caly_peek d c 2 of
           None \<Rightarrow> Some (Inl ERR_IP6_EXT_TRUNC)
         | Some ext \<Rightarrow> do {
             nexthdr \<leftarrow> ld8 d ext; hdrlen \<leftarrow> ld8 d (ext + 1);
             let hlen = ((ucast hdrlen + 1) * 8 :: u32);
             Some (if hlen < 8 \<or> hlen > 2048 then Inl ERR_IP6_EXT_TRUNC else Inr (nexthdr, hlen, info)) }))"

definition ip6_stop :: "u8 \<Rightarrow> parse_err option" where
  "ip6_stop nh = (if nh = CALY_IPPROTO_ESP then Some ERR_ENCRYPTED
                  else if nh = CALY_IPPROTO_NONE then Some ERR_NO_NEXT else None)"

text \<open>The walk; the error is \<^term>\<open>None\<close> for \<open>CALY_OK\<close>, and the description is filled in either way.\<close>

function skip_ip6_loop ::
  "bytes \<Rightarrow> u64 \<Rightarrow> u32 \<Rightarrow> nat \<Rightarrow> u8 \<Rightarrow> u32 \<Rightarrow> caly_ip6_info \<Rightarrow> nat \<Rightarrow> (parse_err option \<times> caly_ip6_info \<times> nat) option" where
  "skip_ip6_loop d cflags ext_max i nh walked info c =
     (if \<not> i < unat CALY_IP6_EXT_MAX \<or> of_nat i \<ge> ext_max then
        Some (if caly_ip6_is_ext nh then Some ERR_IP6_EXT_DEPTH else ip6_stop nh,
              info\<lparr>i6_nexthdr := nh, i6_ext_bytes := walked\<rparr>, c)
      else if \<not> caly_ip6_is_ext nh then
        Some (ip6_stop nh, info\<lparr>i6_nexthdr := nh, i6_ext_bytes := walked, i6_ext_count := of_nat i\<rparr>, c)
      else (case ext_hdr d cflags nh info c of
              None \<Rightarrow> None
            | Some (Inl e) \<Rightarrow> Some (Some e, info, c)
            | Some (Inr (nh, hlen, info)) \<Rightarrow>
                (case caly_pull d c hlen of
                   None \<Rightarrow> Some (Some ERR_IP6_EXT_TRUNC, info, c)
                 | Some (_, c) \<Rightarrow>
                     skip_ip6_loop d cflags ext_max (i + 1) nh (walked + hlen)
                       (info\<lparr>i6_ext_count := of_nat i + 1\<rparr>) c)))"
  by pat_completeness auto
termination by (relation "measure (\<lambda>(_, _, _, i, _). unat CALY_IP6_EXT_MAX - i)") auto

declare skip_ip6_loop.simps [simp del]

definition caly_skip_ip6_exts ::
  "bytes \<Rightarrow> nat \<Rightarrow> u64 \<Rightarrow> u32 \<Rightarrow> caly_ip6_info \<Rightarrow> (parse_err option \<times> caly_ip6_info \<times> nat) option" where
  "caly_skip_ip6_exts d c cflags ext_max info =
     skip_ip6_loop d cflags (if ext_max > CALY_IP6_EXT_MAX then CALY_IP6_EXT_MAX else ext_max) 0 (i6_nexthdr info) 0 info c"

section \<open>Layer 4\<close>

record caly_l4_info =
  l4_sport :: u16
  l4_dport :: u16
  l4_hdr_bytes :: u32
  l4_tcp_flags :: u8
  l4_icmp_type :: u8
  l4_icmp_code :: u8

definition CALY_PKT_ICMP_PACK :: "u8 \<Rightarrow> u8 \<Rightarrow> u32" where
  "CALY_PKT_ICMP_PACK type code = push_bit 8 (ucast type) OR (ucast code AND 0xFF)"

text \<open>The description is filled in before the last checks; it is the initial one when the header is
  truncated.\<close>

definition caly_parse_tcp :: "bytes \<Rightarrow> nat \<Rightarrow> u32 \<Rightarrow> caly_l4_info \<Rightarrow> (parse_err option \<times> caly_l4_info \<times> nat) option" where
  "caly_parse_tcp d c min_doff out =
     (case caly_pull d c 20 of
        None \<Rightarrow> Some (Some ERR_L4_TRUNC, out, c)
      | Some (th, c) \<Rightarrow> do {
          source \<leftarrow> ld16 d th; dest \<leftarrow> ld16 d (th + 2); doff_res \<leftarrow> ld8 d (th + 12); fl \<leftarrow> ld8 d (th + 13);
          let doff_bytes = (ucast (drop_bit 4 doff_res) * 4 :: u32);
          let min_doff = (if min_doff < 5 \<or> min_doff > 15 then 5 else min_doff);
          let out = \<lparr>l4_sport = source, l4_dport = dest, l4_hdr_bytes = doff_bytes, l4_tcp_flags = fl,
                     l4_icmp_type = 0, l4_icmp_code = 0\<rparr>;
          Some (if doff_bytes < min_doff * 4 then (Some ERR_TCP_DOFF, out, c)
                else if source = 0 \<or> dest = 0 then (Some ERR_L4_PORT_ZERO, out, c)
                else if doff_bytes > 20 then
                  if doff_bytes - 20 > 40 then (Some ERR_TCP_DOFF, out, c)
                  else (case caly_pull d c (doff_bytes - 20) of
                          None \<Rightarrow> (Some ERR_L4_TRUNC, out, c)
                        | Some (_, c) \<Rightarrow> (None, out, c))
                else (None, out, c)) })"

definition caly_parse_udp :: "bytes \<Rightarrow> nat \<Rightarrow> caly_l4_info \<Rightarrow> (parse_err option \<times> caly_l4_info \<times> nat) option" where
  "caly_parse_udp d c out =
     (case caly_pull d c 8 of
        None \<Rightarrow> Some (Some ERR_L4_TRUNC, out, c)
      | Some (uh, c) \<Rightarrow> do {
          source \<leftarrow> ld16 d uh; dest \<leftarrow> ld16 d (uh + 2);
          Some (if source = 0 \<or> dest = 0 then Some ERR_L4_PORT_ZERO else None,
                \<lparr>l4_sport = source, l4_dport = dest, l4_hdr_bytes = 8, l4_tcp_flags = 0,
                 l4_icmp_type = 0, l4_icmp_code = 0\<rparr>, c) })"

definition caly_parse_icmp :: "bytes \<Rightarrow> nat \<Rightarrow> caly_l4_info \<Rightarrow> (parse_err option \<times> caly_l4_info \<times> nat) option" where
  "caly_parse_icmp d c out =
     (case caly_pull d c 8 of
        None \<Rightarrow> Some (Some ERR_L4_TRUNC, out, c)
      | Some (ih, c) \<Rightarrow> do {
          type \<leftarrow> ld8 d ih; code \<leftarrow> ld8 d (ih + 1);
          Some (None, \<lparr>l4_sport = ucast (CALY_PKT_ICMP_PACK type code), l4_dport = 0, l4_hdr_bytes = 8, l4_tcp_flags = 0,
                       l4_icmp_type = type, l4_icmp_code = code\<rparr>, c) })"

section \<open>Tunnels\<close>

abbreviation (input) CALY_ETH_P_TEB :: u16 where "CALY_ETH_P_TEB \<equiv> 0x6558"

definition gre_optbytes :: "u16 \<Rightarrow> u32" where
  "gre_optbytes flags = (if has_flag flags 0x8000 then 4 else 0) + (if has_flag flags 0x2000 then 4 else 0)
     + (if has_flag flags 0x1000 then 4 else 0)"

definition caly_parse_gre :: "bytes \<Rightarrow> nat \<Rightarrow> (parse_err + u16 \<times> nat) option" where
  "caly_parse_gre d c =
     (case caly_pull d c 4 of
        None \<Rightarrow> Some (Inl ERR_TUNNEL_TRUNC)
      | Some (gre, c) \<Rightarrow> do {
          f \<leftarrow> ld16 d gre; pr \<leftarrow> ld16 d (gre + 2);
          let flags = ntohs f;
          let optbytes = gre_optbytes flags;
          Some (if has_flag flags 0x0007 then Inl ERR_GRE_MALFORMED
                else if has_flag flags (0x4000 OR 0x0800 OR 0x00F8) then Inl ERR_GRE_MALFORMED
                else if optbytes > 12 then Inl ERR_GRE_MALFORMED
                else if optbytes = 0 then Inr (ntohs pr, c)
                else (case caly_pull d c optbytes of
                        None \<Rightarrow> Inl ERR_TUNNEL_TRUNC
                      | Some (_, c) \<Rightarrow> Inr (ntohs pr, c))) })"

definition inner_family :: "u16 \<Rightarrow> bool option" where
  "inner_family eth = (if eth = CALY_ETH_P_IP then Some False else if eth = CALY_ETH_P_IPV6 then Some True else None)"

text \<open>Whether the inner packet is IPv6, the new depth and the cursor.\<close>

definition caly_tunnel_inspect :: "u32 \<Rightarrow> bytes \<Rightarrow> nat \<Rightarrow> u8 \<Rightarrow> u32 \<Rightarrow> (parse_err + bool \<times> u32 \<times> nat) option" where
  "caly_tunnel_inspect tmax d c outer_proto depth =
     (if depth \<ge> tmax then Some (Inl ERR_TUNNEL_DEPTH)
      else if outer_proto = CALY_IPPROTO_IPIP then Some (Inr (False, depth + 1, c))
      else if outer_proto = CALY_IPPROTO_IPV6 then Some (Inr (True, depth + 1, c))
      else if outer_proto = CALY_IPPROTO_GRE then
        (case caly_parse_gre d c of
           None \<Rightarrow> None
         | Some (Inl e) \<Rightarrow> Some (Inl e)
         | Some (Inr (inner_eth, c)) \<Rightarrow>
             (case inner_family inner_eth of
                Some v6 \<Rightarrow> Some (Inr (v6, depth + 1, c))
              | None \<Rightarrow>
                  if inner_eth = CALY_ETH_P_TEB then
                    (case caly_parse_eth d c CALY_VLAN_MAX_DEPTH of
                       None \<Rightarrow> None
                     | Some (Inl e) \<Rightarrow> Some (Inl e)
                     | Some (Inr (_, iproto, _, c)) \<Rightarrow>
                         Some (case inner_family iproto of
                                 Some v6 \<Rightarrow> Inr (v6, depth + 1, c) | None \<Rightarrow> Inl ERR_TUNNEL_PROTO))
                  else Some (Inl ERR_TUNNEL_PROTO)))
      else Some (Inl ERR_TUNNEL_PROTO))"

definition caly_proto_is_tunnel :: "u8 \<Rightarrow> bool" where
  "caly_proto_is_tunnel p \<longleftrightarrow> p = CALY_IPPROTO_IPIP \<or> p = CALY_IPPROTO_IPV6 \<or> p = CALY_IPPROTO_GRE"


section \<open>Connection keys\<close>

definition caly_conn_key_v4 :: "u32 \<Rightarrow> u32 \<Rightarrow> u16 \<Rightarrow> u16 \<Rightarrow> u8 \<Rightarrow> conn_key" where
  "caly_conn_key_v4 saddr daddr sport dport proto =
     \<lparr>ck_saddr = Quad saddr 0 0 0, ck_daddr = Quad daddr 0 0 0, ck_sport = sport, ck_dport = dport,
      ck_proto = proto, ck_family = ucast CALY_AF_INET, ck_pad = (0, 0)\<rparr>"

definition caly_conn_key_v6 :: "quad \<Rightarrow> quad \<Rightarrow> u16 \<Rightarrow> u16 \<Rightarrow> u8 \<Rightarrow> conn_key" where
  "caly_conn_key_v6 saddr daddr sport dport proto =
     \<lparr>ck_saddr = saddr, ck_daddr = daddr, ck_sport = sport, ck_dport = dport,
      ck_proto = proto, ck_family = ucast CALY_AF_INET6, ck_pad = (0, 0)\<rparr>"

definition caly_conn_key_swap :: "conn_key \<Rightarrow> conn_key" where
  "caly_conn_key_swap k =
     \<lparr>ck_saddr = ck_daddr k, ck_daddr = ck_saddr k, ck_sport = ck_dport k, ck_dport = ck_sport k,
      ck_proto = ck_proto k, ck_family = ck_family k, ck_pad = (0, 0)\<rparr>"

section \<open>The packet descriptor\<close>

definition caly_pkt_ctx_reset :: "bytes \<Rightarrow> u32 \<Rightarrow> u64 \<Rightarrow> pkt_ctx" where
  "caly_pkt_ctx_reset d ifindex now_ns =
     \<lparr>pk_ts_ns = now_ns, pk_saddr = Quad 0 0 0 0, pk_daddr = Quad 0 0 0 0, pk_l3_off = 0, pk_l4_off = 0,
      pk_payload_off = 0, pk_pkt_len = of_nat (length d), pk_ifindex = ifindex, pk_family = 0, pk_proto = 0,
      pk_vlan_depth = 0, pk_tunnel_depth = 0, pk_frag_off = 0, pk_tcp_flags = 0, pk_flags = 0, pk_sport = 0,
      pk_dport = 0, pk_eth_proto = 0, pk_l4_len = 0\<rparr>"

definition caly_pkt_set_v4_addrs :: "u32 \<Rightarrow> u32 \<Rightarrow> pkt_ctx \<Rightarrow> pkt_ctx" where
  "caly_pkt_set_v4_addrs saddr daddr pkt = pkt\<lparr>pk_saddr := Quad saddr 0 0 0, pk_daddr := Quad daddr 0 0 0\<rparr>"

definition caly_pkt_set_v6_addrs :: "quad \<Rightarrow> quad \<Rightarrow> pkt_ctx \<Rightarrow> pkt_ctx" where
  "caly_pkt_set_v6_addrs saddr daddr pkt = pkt\<lparr>pk_saddr := saddr, pk_daddr := daddr\<rparr>"

definition pkt_or :: "u32 \<Rightarrow> pkt_ctx \<Rightarrow> pkt_ctx" where
  "pkt_or f pkt = pkt\<lparr>pk_flags := pk_flags pkt OR f\<rparr>"

text \<open>The transport header; \<^term>\<open>None\<close> inside is a protocol the parser does not know.\<close>

definition parse_l4 :: "bytes \<Rightarrow> nat \<Rightarrow> u8 \<Rightarrow> u32 \<Rightarrow> (parse_err option \<times> caly_l4_info \<times> nat) option option" where
  "parse_l4 d c proto min_doff =
     (let l4 = \<lparr>l4_sport = 0, l4_dport = 0, l4_hdr_bytes = 0, l4_tcp_flags = 0, l4_icmp_type = 0, l4_icmp_code = 0\<rparr>
      in if proto = CALY_IPPROTO_TCP then map_option Some (caly_parse_tcp d c min_doff l4)
         else if proto = CALY_IPPROTO_UDP then map_option Some (caly_parse_udp d c l4)
         else if proto = CALY_IPPROTO_ICMP \<or> proto = CALY_IPPROTO_ICMPV6 then map_option Some (caly_parse_icmp d c l4)
         else Some None)"

definition caly_pkt_fill_l4 ::
  "pkt_ctx \<Rightarrow> bytes \<Rightarrow> nat \<Rightarrow> u8 \<Rightarrow> u32 \<Rightarrow> bool \<Rightarrow> (parse_err option \<times> pkt_ctx) option" where
  "caly_pkt_fill_l4 pkt d c proto min_doff frag_no_l4 =
     (let is_icmp = (proto = CALY_IPPROTO_ICMP \<or> proto = CALY_IPPROTO_ICMPV6);
          pkt = pkt\<lparr>pk_proto := ucast proto, pk_l4_off := caly_offset c\<rparr>
      in if frag_no_l4
         then Some (Some ERR_FRAG_NO_L4, pkt_or CALY_PKT_F_L4_TRUNC (pkt\<lparr>pk_sport := 0, pk_dport := 0\<rparr>))
         else (case parse_l4 d c proto min_doff of
                 None \<Rightarrow> None
               | Some None \<Rightarrow> Some (Some ERR_L4_UNKNOWN, pkt)
               | Some (Some (err, l4, c)) \<Rightarrow>
                   let pkt = (if err = Some ERR_L4_TRUNC then pkt_or CALY_PKT_F_L4_TRUNC pkt else pkt);
                       pkt = pkt\<lparr>pk_sport := (if is_icmp then 0 else l4_sport l4),
                                 pk_dport := (if is_icmp then 0 else l4_dport l4)\<rparr>;
                       pkt = (if proto = CALY_IPPROTO_TCP then pkt\<lparr>pk_tcp_flags := ucast (l4_tcp_flags l4)\<rparr> else pkt)
                   in if err \<noteq> None then Some (err, pkt)
                      else
                        let pkt = pkt\<lparr>pk_payload_off := caly_offset c\<rparr>;
                            pkt = (if is_icmp
                                   then pkt\<lparr>pk_tcp_flags := CALY_PKT_ICMP_PACK (l4_icmp_type l4) (l4_icmp_code l4)\<rparr> else pkt);
                            pkt = (if pk_pkt_len pkt \<ge> pk_l4_off pkt
                                   then pkt\<lparr>pk_l4_len := ucast (caly_min_u32 (pk_pkt_len pkt - pk_l4_off pkt) 0xFFFF)\<rparr>
                                   else pkt)
                        in Some (None, pkt)))"

section \<open>Layer 3\<close>

record caly_l3_result =
  r3_proto :: u8
  r3_is_tunnel :: bool
  r3_frag_no_l4 :: bool

abbreviation (input) r3_0 :: caly_l3_result where
  "r3_0 \<equiv> \<lparr>r3_proto = 0, r3_is_tunnel = False, r3_frag_no_l4 = False\<rparr>"

definition pkt_frag :: "u32 \<Rightarrow> bool \<Rightarrow> pkt_ctx \<Rightarrow> pkt_ctx" where
  "pkt_frag frag_off mf pkt =
     (let pkt = pkt\<lparr>pk_frag_off := frag_off\<rparr>
      in if frag_off \<noteq> 0 \<or> mf
         then (let pkt = pkt_or CALY_PKT_F_FRAG pkt
               in if frag_off = 0 then pkt_or CALY_PKT_F_FRAG_FIRST pkt else pkt)
         else pkt)"

definition cfg_flags_of :: "fw_config option \<Rightarrow> u64" where
  "cfg_flags_of cfg = (case cfg of None \<Rightarrow> 0 | Some c \<Rightarrow> cfg_flags c)"

definition caly_parse_l3v4 ::
  "pkt_ctx \<Rightarrow> bytes \<Rightarrow> nat \<Rightarrow> fw_config option \<Rightarrow> (parse_err option \<times> pkt_ctx \<times> caly_l3_result \<times> nat) option" where
  "caly_parse_l3v4 pkt d c cfg =
     (let pkt = pkt\<lparr>pk_family := CALY_AF_INET, pk_eth_proto := CALY_ETH_P_IP, pk_l3_off := caly_offset c\<rparr>
      in case caly_parse_ipv4 d c (cfg_flags_of cfg) of
           None \<Rightarrow> None
         | Some (Inl e) \<Rightarrow> Some (Some e, pkt, r3_0, c)
         | Some (Inr (ip, c)) \<Rightarrow>
             Some (None, pkt_frag (i4_frag_off ip) (i4_more_frags ip)
                           (caly_pkt_set_v4_addrs (i4_saddr ip) (i4_daddr ip) pkt),
                   \<lparr>r3_proto = i4_protocol ip,
                    r3_is_tunnel = (i4_frag_off ip = 0 \<and> \<not> i4_more_frags ip \<and> caly_proto_is_tunnel (i4_protocol ip)),
                    r3_frag_no_l4 = (i4_frag_off ip \<noteq> 0)\<rparr>, c))"

definition caly_parse_l3v6 ::
  "pkt_ctx \<Rightarrow> bytes \<Rightarrow> nat \<Rightarrow> fw_config option \<Rightarrow> (parse_err option \<times> pkt_ctx \<times> caly_l3_result \<times> nat) option" where
  "caly_parse_l3v6 pkt d c cfg =
     (let ext_max = (case cfg of None \<Rightarrow> CALY_IP6_EXT_MAX | Some cf \<Rightarrow> caly_clamp_ip6_ext (cfg_ip6_ext_max cf));
          pkt = pkt\<lparr>pk_family := CALY_AF_INET6, pk_eth_proto := CALY_ETH_P_IPV6, pk_l3_off := caly_offset c\<rparr>
      in case caly_parse_ipv6 d c of
           None \<Rightarrow> None
         | Some (Inl e) \<Rightarrow> Some (Some e, pkt, r3_0, c)
         | Some (Inr (ip6, c)) \<Rightarrow>
             let pkt = caly_pkt_set_v6_addrs (i6_saddr ip6) (i6_daddr ip6) pkt
             in (case caly_skip_ip6_exts d c (cfg_flags_of cfg) ext_max ip6 of
                   None \<Rightarrow> None
                 | Some (err, ip6, c) \<Rightarrow>
                     let pkt = pkt_frag (i6_frag_off ip6) (i6_more_frags ip6) pkt
                     in if err \<noteq> None
                        then Some (err, if err = Some ERR_ENCRYPTED \<or> err = Some ERR_NO_NEXT
                                        then pkt\<lparr>pk_proto := ucast (i6_nexthdr ip6)\<rparr> else pkt, r3_0, c)
                        else Some (None, pkt,
                               \<lparr>r3_proto = i6_nexthdr ip6,
                                r3_is_tunnel = (i6_frag_off ip6 = 0 \<and> \<not> i6_more_frags ip6 \<and>
                                                caly_proto_is_tunnel (i6_nexthdr ip6)),
                                r3_frag_no_l4 = (i6_frag_off ip6 \<noteq> 0)\<rparr>, c)))"

text \<open>The loop over nested headers, \<open>i\<close> of at most \<open>tmax + 1\<close>.  The inspection of a tunnel gives no benign
  error (\<open>tunnel_not_benign\<close>), so where its cursor would stand then does not matter.\<close>

function l3_loop ::
  "u32 \<Rightarrow> fw_config option \<Rightarrow> bytes \<Rightarrow> nat \<Rightarrow> pkt_ctx \<Rightarrow> nat \<Rightarrow> bool \<Rightarrow> (parse_err option \<times> pkt_ctx) option" where
  "l3_loop tmax cfg d i pkt c is_v6 =
     (if \<not> i < unat tmax + 1 then Some (Some ERR_TUNNEL_DEPTH, pkt)
      else (case (if is_v6 then caly_parse_l3v6 pkt d c cfg else caly_parse_l3v4 pkt d c cfg) of
              None \<Rightarrow> None
            | Some (Some e, pkt, _, _) \<Rightarrow> Some (Some e, pkt)
            | Some (None, pkt, r, c) \<Rightarrow>
                let min_doff = (case cfg of None \<Rightarrow> 5 | Some cf \<Rightarrow> cfg_tcp_min_doff cf);
                    fill = (\<lambda>c. caly_pkt_fill_l4 pkt d c (r3_proto r) min_doff (r3_frag_no_l4 r))
                in if r3_is_tunnel r \<and> has_flag (cfg_flags_of cfg) CALY_F_TUNNEL_INSPECT \<and> pk_tunnel_depth pkt < tmax
                   then (case caly_tunnel_inspect tmax d c (r3_proto r) (pk_tunnel_depth pkt) of
                           None \<Rightarrow> None
                         | Some (Inr (v6, depth, c)) \<Rightarrow>
                             l3_loop tmax cfg d (i + 1) (pkt_or CALY_PKT_F_TUNNELED (pkt\<lparr>pk_tunnel_depth := depth\<rparr>)) c v6
                         | Some (Inl e) \<Rightarrow> if caly_parse_err_benign e then fill c else Some (Some e, pkt))
                   else fill c))"
  by pat_completeness auto
termination by (relation "measure (\<lambda>(tmax, _, _, i, _). unat tmax + 1 - i)") auto

declare l3_loop.simps [simp del]

definition caly_parse_l3_and_l4 ::
  "u32 \<Rightarrow> pkt_ctx \<Rightarrow> bytes \<Rightarrow> nat \<Rightarrow> fw_config option \<Rightarrow> bool \<Rightarrow> (parse_err option \<times> pkt_ctx) option" where
  "caly_parse_l3_and_l4 tmax pkt d c cfg is_v6 = l3_loop tmax cfg d 0 pkt c is_v6"

text \<open>The whole packet: the error, the Ethernet header and the descriptor.\<close>

definition caly_parse_packet ::
  "u32 \<Rightarrow> bytes \<Rightarrow> u32 \<Rightarrow> u64 \<Rightarrow> fw_config option \<Rightarrow> (parse_err option \<times> nat option \<times> pkt_ctx) option" where
  "caly_parse_packet tmax d ifindex now_ns cfg =
     (let max_vlan = (case cfg of None \<Rightarrow> CALY_VLAN_MAX_DEPTH | Some cf \<Rightarrow> caly_clamp_vlan_depth (cfg_vlan_max_depth cf));
          pkt = caly_pkt_ctx_reset d ifindex now_ns
      in case caly_parse_eth d 0 max_vlan of
           None \<Rightarrow> None
         | Some (Inl e) \<Rightarrow> Some (Some e, None, pkt)
         | Some (Inr (eth, proto, vlan_depth, c)) \<Rightarrow>
             let pkt = pkt\<lparr>pk_vlan_depth := vlan_depth, pk_eth_proto := proto\<rparr>;
                 pkt = (if vlan_depth \<noteq> 0 then pkt_or CALY_PKT_F_VLAN pkt else pkt);
                 out = map_option (\<lambda>(e, p). (e, Some eth, p))
             in if proto = CALY_ETH_P_IP then out (caly_parse_l3_and_l4 tmax pkt d c cfg False)
                else if proto = CALY_ETH_P_IPV6 then out (caly_parse_l3_and_l4 tmax pkt d c cfg True)
                else if proto = CALY_ETH_P_ARP then Some (Some ERR_NO_NEXT, Some eth, pkt)
                else Some (Some ERR_L3_UNKNOWN, Some eth, pkt))"


section \<open>The cursor stays inside the frame\<close>

locale byte_cursor =
  fixes pull :: "bytes \<Rightarrow> nat \<Rightarrow> u32 \<Rightarrow> (nat \<times> nat) option" and peek :: "bytes \<Rightarrow> nat \<Rightarrow> u32 \<Rightarrow> nat option"
  assumes pull_in: "pull d c n = Some (p, c') \<Longrightarrow> p = c \<and> c' = c + unat n \<and> c' \<le> length d"
    and peek_in: "peek d c n = Some p \<Longrightarrow> p = c \<and> c + unat n \<le> length d"
begin

text \<open>What a pull or a peek of \<open>n\<close> bytes lets its caller load.\<close>

lemma pulled:
  assumes "pull d c n = Some (p, c')"
  shows "c \<le> c'" "c' \<le> length d"
    and "i < unat n \<Longrightarrow> ld8 d (p + i) = Some (d ! (p + i))"
    and "i + 2 \<le> unat n \<Longrightarrow> ld16 d (p + i) = Some (le16 (d ! (p + i)) (d ! (p + i + 1)))"
    and "i + 4 \<le> unat n \<Longrightarrow> \<exists>w. ld32 d (p + i) = Some w"
  using pull_in [OF assms] by (simp_all add: load_simps)

lemma peeked:
  assumes "peek d c n = Some p"
  shows "i < unat n \<Longrightarrow> ld8 d (p + i) = Some (d ! (p + i))"
    and "i + 2 \<le> unat n \<Longrightarrow> ld16 d (p + i) = Some (le16 (d ! (p + i)) (d ! (p + i + 1)))"
  using peek_in [OF assms] by (simp_all add: load_simps)

end

interpretation cur: byte_cursor caly_pull caly_peek
  by unfold_locales (auto simp: caly_pull_def caly_peek_def split: if_splits)

text \<open>The errors that are charged as drops; the others say that there is nothing to inspect.\<close>

definition hard :: "parse_err \<Rightarrow> bool" where
  "hard e \<longleftrightarrow> stat_reason_is_drop (caly_parse_err_reason e)"

lemma hard_iff: "hard e \<longleftrightarrow> e \<noteq> ERR_ENCRYPTED \<and> e \<noteq> ERR_NO_NEXT \<and> e \<noteq> ERR_FRAG_NO_L4 \<and> e \<noteq> ERR_INVAL"
  by (cases e) (simp_all add: hard_def stat_reason_is_drop_def)

definition res_ok :: "('a \<Rightarrow> nat) \<Rightarrow> bytes \<Rightarrow> nat \<Rightarrow> (parse_err + 'a) option \<Rightarrow> bool" where
  "res_ok pos d c m \<longleftrightarrow> (case m of None \<Rightarrow> False | Some (Inl e) \<Rightarrow> hard e | Some (Inr x) \<Rightarrow> c \<le> pos x \<and> pos x \<le> length d)"

lemma res_ok_simps [simp]:
  "\<not> res_ok pos d c None" "res_ok pos d c (Some (Inl e)) \<longleftrightarrow> hard e"
  "res_ok pos d c (Some (Inr x)) \<longleftrightarrow> c \<le> pos x \<and> pos x \<le> length d"
  by (simp_all add: res_ok_def)

lemma res_okE:
  assumes "res_ok pos d c m"
  obtains e where "m = Some (Inl e)" "hard e" | x where "m = Some (Inr x)" "c \<le> pos x" "pos x \<le> length d"
  using assms by (auto simp: res_ok_def split: option.splits sum.splits)

lemma eth_vlans_ok:
  "c \<le> length d \<Longrightarrow> res_ok (\<lambda>(_, _, c). c) d c (eth_vlans d m i proto depth c)"
proof (induction d m i proto depth c rule: eth_vlans.induct)
  case (1 d m i proto depth c)
  show ?case
  proof (cases "caly_pull d c 4")
    case None
    with "1.prems" show ?thesis by (subst eth_vlans.simps) (simp add: hard_iff)
  next
    case (Some x)
    obtain vh c' where x: "x = (vh, c')" by (cases x)
    note p = cur.pulled [OF Some [unfolded x]]
    obtain h where h: "ld16 d (vh + 2) = Some h" using p(4) [of 2] by simp
    have go: "res_ok (\<lambda>(_, _, c). c) d c' (eth_vlans d m (i + 1) (ntohs h) (depth + 1) c')"
      if "\<not> (\<not> i < unat CALY_VLAN_MAX_DEPTH \<or> of_nat i \<ge> m \<or> \<not> caly_eth_proto_is_vlan proto)"
      using "1.IH" [OF that Some x [symmetric] h] p(2) by simp
    then have "res_ok (\<lambda>(_, _, c). c) d c (eth_vlans d m (i + 1) (ntohs h) (depth + 1) c')"
      if "\<not> (\<not> i < unat CALY_VLAN_MAX_DEPTH \<or> of_nat i \<ge> m \<or> \<not> caly_eth_proto_is_vlan proto)"
      using go [OF that] p(1) by (auto elim!: res_okE)
    with "1.prems" Some x h show ?thesis by (subst eth_vlans.simps) auto
  qed
qed

lemma parse_eth_ok: "res_ok (\<lambda>(_, _, _, c). c) d c (caly_parse_eth d c m)"
proof (cases "caly_pull d c 14")
  case None
  then show ?thesis by (simp add: caly_parse_eth_def Let_def hard_iff)
next
  case (Some x)
  obtain e c' where x: "x = (e, c')" by (cases x)
  note p = cur.pulled [OF Some [unfolded x]]
  obtain h where h: "ld16 d (e + 12) = Some h" using p(4) [of 12] by simp
  define m' where "m' = (if m > CALY_VLAN_MAX_DEPTH then CALY_VLAN_MAX_DEPTH else m)"
  show ?thesis
    by (rule res_okE [OF eth_vlans_ok [OF p(2), of m' 0 "ntohs h" 0]])
      (use p(1) in \<open>auto simp: caly_parse_eth_def Let_def Some x h m'_def hard_iff split: prod.splits\<close>)
qed

lemma parse_ipv4_ok: "res_ok snd d c (caly_parse_ipv4 d c fl)"
proof (cases "caly_pull d c 20")
  case None
  then show ?thesis by (simp add: caly_parse_ipv4_def Let_def hard_iff)
next
  case (Some x)
  obtain ip c1 where x: "x = (ip, c1)" by (cases x)
  note p = cur.pulled [OF Some [unfolded x]]
  obtain s t where l: "ld32 d (ip + 12) = Some s" "ld32 d (ip + 16) = Some t"
    using p(5) [of 12] p(5) [of 16] by auto
  note l = l p(3) [of 0, simplified] p(3) [of 8, simplified] p(3) [of 9, simplified] p(4) [of 2, simplified] p(4) [of 6, simplified]
  have o: "c1 \<le> c2 \<and> c2 \<le> length d" if "caly_pull d c1 n = Some (q, c2)" for n q c2
    using cur.pulled(1,2) [OF that] by simp
  show ?thesis
    using p(1,2) unfolding caly_parse_ipv4_def Let_def Some x option.case prod.case
    by (auto simp: l hard_iff dest!: o split: option.splits)
qed

lemma parse_ipv6_ok: "res_ok snd d c (caly_parse_ipv6 d c)"
proof (cases "caly_pull d c 40")
  case None
  then show ?thesis by (simp add: caly_parse_ipv6_def Let_def hard_iff)
next
  case (Some x)
  obtain ip c1 where x: "x = (ip, c1)" by (cases x)
  note p = cur.pulled [OF Some [unfolded x]]
  have ad: "\<exists>q. ld_addr6 d (ip + i) = Some q" if "i + 16 \<le> 40" for i
  proof -
    have "\<exists>w. ld32 d (ip + i + j) = Some w" if "j \<le> 12" for j
      using p(5) [of "i + j"] that \<open>i + 16 \<le> 40\<close> by (simp add: add.assoc)
    from this [of 0] this [of 4] this [of 8] this [of 12] show ?thesis by (auto simp: ld_addr6_def)
  qed
  obtain v s t where l: "ld32 d ip = Some v" "ld_addr6 d (ip + 8) = Some s" "ld_addr6 d (ip + 24) = Some t"
    using p(5) [of 0] ad [of 8] ad [of 24] by auto
  note l = l p(3) [of 6, simplified] p(3) [of 7, simplified] p(4) [of 4, simplified]
  show ?thesis
    using p(1,2) by (simp add: caly_parse_ipv6_def Let_def Some x l hard_iff)
qed

text \<open>What the loads of one extension header find.\<close>

lemma ext_hdr_ok:
  "\<exists>r. ext_hdr d fl nh info c = Some r \<and> (\<forall>e. r = Inl e \<longrightarrow> hard e)"
proof -
  have l: "ld8 d p = Some (d ! p) \<and> ld8 d (p + 1) = Some (d ! (p + 1))" if "caly_peek d c n = Some p" "2 \<le> unat n" for n p
    using cur.peeked(1) [OF that(1), of 0] cur.peeked(1) [OF that(1), of 1] that(2) by simp
  have rt: "ld8 d (p + 2) = Some (d ! (p + 2))" if "caly_peek d c 4 = Some p" for p
    using cur.peeked(1) [OF that, of 2] by simp
  have fh: "\<exists>w. ld16 d (p + 2) = Some w" if "caly_peek d c 8 = Some p" for p
    using cur.peeked(2) [OF that, of 2] by simp
  consider "nh = CALY_IPPROTO_ROUTING" | "nh = CALY_IPPROTO_FRAGMENT" | "nh = CALY_IPPROTO_AH"
    | "nh \<noteq> CALY_IPPROTO_ROUTING" "nh \<noteq> CALY_IPPROTO_FRAGMENT" "nh \<noteq> CALY_IPPROTO_AH" by blast
  then show ?thesis
  proof cases
    case 1
    then show ?thesis
      using l [of 4] rt by (cases "caly_peek d c 4") (auto simp: ext_hdr_def Let_def hard_iff)
  next
    case 2
    then show ?thesis
      using l [of 8] fh by (cases "caly_peek d c 8") (auto simp: ext_hdr_def Let_def hard_iff)
  next
    case 3
    then show ?thesis
      using l [of 12] by (cases "caly_peek d c 12") (auto simp: ext_hdr_def Let_def hard_iff)
  next
    case 4
    then show ?thesis
      using l [of 2] by (cases "caly_peek d c 2") (auto simp: ext_hdr_def Let_def hard_iff)
  qed
qed

text \<open>The walk over the extension headers and the transport headers return a description in any case.\<close>

definition walk_ok :: "(parse_err \<Rightarrow> bool) \<Rightarrow> bytes \<Rightarrow> nat \<Rightarrow> (parse_err option \<times> 'a \<times> nat) option \<Rightarrow> bool" where
  "walk_ok P d c m \<longleftrightarrow> (\<exists>err x c'. m = Some (err, x, c') \<and> (\<forall>e. err = Some e \<longrightarrow> P e) \<and> c \<le> c' \<and> c' \<le> length d)"

lemma walk_ok_Some [simp]:
  "walk_ok P d c (Some (err, x, c')) \<longleftrightarrow> (\<forall>e. err = Some e \<longrightarrow> P e) \<and> c \<le> c' \<and> c' \<le> length d"
  by (simp add: walk_ok_def)

lemma walk_okE:
  assumes "walk_ok P d c m"
  obtains err x c' where "m = Some (err, x, c')" "\<forall>e. err = Some e \<longrightarrow> P e" "c \<le> c'" "c' \<le> length d"
  using assms by (auto simp: walk_ok_def)

lemma walk_ok_mono: "walk_ok P d c m \<Longrightarrow> b \<le> c \<Longrightarrow> walk_ok P d b m"
  by (auto simp: walk_ok_def)

definition stops :: "parse_err \<Rightarrow> bool" where
  "stops e \<longleftrightarrow> hard e \<or> e = ERR_ENCRYPTED \<or> e = ERR_NO_NEXT"

lemma ip6_stop_stops: "ip6_stop nh = Some e \<Longrightarrow> stops e"
  by (auto simp: ip6_stop_def stops_def split: if_splits)

lemma stops_simps [simp]: "stops ERR_IP6_EXT_DEPTH" "stops ERR_IP6_EXT_TRUNC" "hard e \<Longrightarrow> stops e"
  by (simp_all add: stops_def hard_iff)

text \<open>The walk is over when the bound is reached or the header is not an extension header.\<close>

abbreviation (input) walk_over :: "u32 \<Rightarrow> nat \<Rightarrow> u8 \<Rightarrow> bool" where
  "walk_over m i nh \<equiv> (\<not> i < unat CALY_IP6_EXT_MAX \<or> of_nat i \<ge> m) \<or> \<not> caly_ip6_is_ext nh"

lemma skip_ip6_over:
  assumes "walk_over m i nh"
  shows "\<exists>err info'. skip_ip6_loop d fl m i nh w info c = Some (err, info', c) \<and> (\<forall>e. err = Some e \<longrightarrow> stops e)"
proof (cases "\<not> i < unat CALY_IP6_EXT_MAX \<or> of_nat i \<ge> m")
  case True
  then show ?thesis by (subst skip_ip6_loop.simps) (simp add: ip6_stop_stops)
next
  case False
  with assms have n: "\<not> caly_ip6_is_ext nh" by blast
  show ?thesis by (subst skip_ip6_loop.simps) (simp only: False n if_False if_True not_False_eq_True, simp add: ip6_stop_stops)
qed

lemma skip_ip6_loop_ok:
  "c \<le> length d \<Longrightarrow> walk_ok stops d c (skip_ip6_loop d fl m i nh w info c)"
proof (induction d fl m i nh w info c rule: skip_ip6_loop.induct)
  case (1 d fl m i nh w info c)
  show ?case
  proof (cases "walk_over m i nh")
    case True
    from skip_ip6_over [OF this] "1.prems" show ?thesis unfolding walk_ok_def by blast
  next
    case False
    then have g: "\<not> (\<not> i < unat CALY_IP6_EXT_MAX \<or> of_nat i \<ge> m)" "\<not> \<not> caly_ip6_is_ext nh" by blast+
    obtain r where r: "ext_hdr d fl nh info c = Some r" "\<forall>e. r = Inl e \<longrightarrow> hard e" using ext_hdr_ok by blast
    note eq = trans [OF skip_ip6_loop.simps trans [OF if_not_P [OF g(1)] if_not_P [OF g(2)]], of d fl w info c, unfolded r(1)]
    show ?thesis
    proof (cases r)
      case (Inl e)
      with eq r(2) "1.prems" show ?thesis by simp
    next
      case (Inr x)
      obtain nh' hlen info' where x: "x = (nh', hlen, info')" by (cases x)
      show ?thesis
      proof (cases "caly_pull d c hlen")
        case None
        with eq Inr x "1.prems" show ?thesis by simp
      next
        case (Some y)
        obtain q c' where y: "y = (q, c')" by (cases y)
        note p = cur.pulled(1,2) [OF Some [unfolded y]]
        have "walk_ok stops d c' (skip_ip6_loop d fl m (i + 1) nh' (w + hlen) (info'\<lparr>i6_ext_count := of_nat i + 1\<rparr>) c')"
          by (rule "1.IH" [OF g r(1) Inr x [symmetric] refl Some y [symmetric] p(2)])
        from walk_ok_mono [OF this p(1)] eq Inr x Some y show ?thesis by simp
      qed
    qed
  qed
qed

text \<open>A pull that succeeds after \<open>c\<close>.\<close>

lemma pull_le: "caly_pull d c n = Some (q, c') \<Longrightarrow> c \<le> c' \<and> c' \<le> length d"
  using cur.pulled(1,2) by blast

lemma cur_tcp_ok: "c \<le> length d \<Longrightarrow> walk_ok hard d c (caly_parse_tcp d c m out)"
proof (cases "caly_pull d c 20")
  case None
  moreover assume "c \<le> length d"
  ultimately show ?thesis by (simp add: caly_parse_tcp_def hard_iff)
next
  case (Some x)
  obtain th c1 where x: "x = (th, c1)" by (cases x)
  note p = cur.pulled [OF Some [unfolded x]]
  note l = p(3) [of 12, simplified] p(3) [of 13, simplified] p(4) [of 0, simplified] p(4) [of 2, simplified]
  show ?thesis
    using p(1,2) unfolding caly_parse_tcp_def Let_def Some x option.case prod.case
    by (auto simp: l hard_iff dest!: pull_le split: option.splits)
qed

lemma cur_udp_ok: "c \<le> length d \<Longrightarrow> walk_ok hard d c (caly_parse_udp d c out)"
proof (cases "caly_pull d c 8")
  case None
  moreover assume "c \<le> length d"
  ultimately show ?thesis by (simp add: caly_parse_udp_def hard_iff)
next
  case (Some x)
  obtain uh c1 where x: "x = (uh, c1)" by (cases x)
  note p = cur.pulled [OF Some [unfolded x]]
  show ?thesis
    using p(1,2) p(4) [of 0] p(4) [of 2] by (simp add: caly_parse_udp_def Some x hard_iff)
qed

lemma cur_icmp_ok: "c \<le> length d \<Longrightarrow> walk_ok hard d c (caly_parse_icmp d c out)"
proof (cases "caly_pull d c 8")
  case None
  moreover assume "c \<le> length d"
  ultimately show ?thesis by (simp add: caly_parse_icmp_def hard_iff)
next
  case (Some x)
  obtain ih c1 where x: "x = (ih, c1)" by (cases x)
  note p = cur.pulled [OF Some [unfolded x]]
  show ?thesis
    using p(1,2) p(3) [of 0] p(3) [of 1] by (simp add: caly_parse_icmp_def Some x)
qed

lemma cur_l4_cases:
  assumes "c \<le> length d"
  obtains "parse_l4 d c proto m = Some None"
  | err l4 c' where "parse_l4 d c proto m = Some (Some (err, l4, c'))" "\<forall>e. err = Some e \<longrightarrow> hard e" "c \<le> c'" "c' \<le> length d"
proof -
  have w: "parse_l4 d c proto m = Some None \<or>
      (\<exists>err l4 c'. parse_l4 d c proto m = Some (Some (err, l4, c')) \<and> (\<forall>e. err = Some e \<longrightarrow> hard e) \<and> c \<le> c' \<and> c' \<le> length d)"
    unfolding parse_l4_def Let_def
    by (auto intro: cur_tcp_ok [OF assms, unfolded walk_ok_def] cur_udp_ok [OF assms, unfolded walk_ok_def]
        cur_icmp_ok [OF assms, unfolded walk_ok_def])
  then show thesis using that by blast
qed

lemma cur_gre_ok: "res_ok snd d c (caly_parse_gre d c)"
proof (cases "caly_pull d c 4")
  case None
  then show ?thesis by (simp add: caly_parse_gre_def hard_iff)
next
  case (Some x)
  obtain g c1 where x: "x = (g, c1)" by (cases x)
  note p = cur.pulled [OF Some [unfolded x]]
  note l = p(4) [of 0, simplified] p(4) [of 2, simplified]
  show ?thesis
    using p(1,2) unfolding caly_parse_gre_def Let_def Some x option.case prod.case
    by (auto simp: l hard_iff dest!: pull_le split: option.splits)
qed

text \<open>What the inspection of a tunnel finds is never benign.\<close>

lemma tunnel_not_benign: "c \<le> length d \<Longrightarrow> res_ok (snd \<circ> snd) d c (caly_tunnel_inspect tmax d c proto depth)"
proof -
  assume c: "c \<le> length d"
  have e: "res_ok (snd \<circ> snd) d c (case caly_parse_eth d c' CALY_VLAN_MAX_DEPTH of
       None \<Rightarrow> None | Some (Inl e) \<Rightarrow> Some (Inl e)
     | Some (Inr (_, iproto, _, c)) \<Rightarrow>
         Some (case inner_family iproto of Some v6 \<Rightarrow> Inr (v6, depth + 1, c) | None \<Rightarrow> Inl ERR_TUNNEL_PROTO))"
    if "c \<le> c'" for c'
    using that by (rule_tac res_okE [OF parse_eth_ok [of d c' CALY_VLAN_MAX_DEPTH]])
      (auto simp: hard_iff split: prod.splits option.splits)
  show ?thesis
  proof (rule res_okE [OF cur_gre_ok [of d c]])
    fix er assume "caly_parse_gre d c = Some (Inl er)" "hard er"
    then show ?thesis using c by (simp add: caly_tunnel_inspect_def hard_iff)
  next
    fix x assume g: "caly_parse_gre d c = Some (Inr x)" "c \<le> snd x" "snd x \<le> length d"
    obtain ie c' where x: "x = (ie, c')" by (cases x)
    show ?thesis
      using c g x e [of c'] by (cases "inner_family ie") (simp_all add: caly_tunnel_inspect_def hard_iff)
  qed
qed

text \<open>One layer-3 header: the offset it records, the cursor behind it and the fragment offset.\<close>

definition l3_post :: "bytes \<Rightarrow> nat \<Rightarrow> (parse_err option \<times> pkt_ctx \<times> caly_l3_result \<times> nat) option \<Rightarrow> bool" where
  "l3_post d c m \<longleftrightarrow> (case m of None \<Rightarrow> False | Some (Some e, _) \<Rightarrow> stops e
     | Some (None, p, r, c') \<Rightarrow> c \<le> c' \<and> c' \<le> length d \<and> pk_l3_off p = of_nat c \<and> (r3_frag_no_l4 r \<longleftrightarrow> pk_frag_off p \<noteq> 0))"

lemma pkt_frag_sel [simp]:
  "pk_frag_off (pkt_frag f mf p) = f" "pk_l3_off (pkt_frag f mf p) = pk_l3_off p"
  "pk_tunnel_depth (pkt_frag f mf p) = pk_tunnel_depth p"
  by (simp_all add: pkt_frag_def pkt_or_def Let_def)

lemma l3v4_ok: "l3_post d c (caly_parse_l3v4 p d c cfg)"
  by (rule res_okE [OF parse_ipv4_ok [of d c "cfg_flags_of cfg"]])
    (auto simp: caly_parse_l3v4_def l3_post_def caly_offset_def caly_pkt_set_v4_addrs_def)

lemma l3v6_ok: "l3_post d c (caly_parse_l3v6 p d c cfg)"
proof (rule res_okE [OF parse_ipv6_ok [of d c]])
  fix e assume "caly_parse_ipv6 d c = Some (Inl e)" "hard e"
  then show ?thesis by (simp add: caly_parse_l3v6_def l3_post_def Let_def)
next
  fix x assume v: "caly_parse_ipv6 d c = Some (Inr x)" "c \<le> snd x" "snd x \<le> length d"
  obtain ip c1 where x: "x = (ip, c1)" by (cases x)
  define m where "m = (case cfg of None \<Rightarrow> CALY_IP6_EXT_MAX | Some cf \<Rightarrow> caly_clamp_ip6_ext (cfg_ip6_ext_max cf))"
  have "walk_ok stops d c1 (caly_skip_ip6_exts d c1 (cfg_flags_of cfg) m ip)"
    using v x by (simp add: caly_skip_ip6_exts_def skip_ip6_loop_ok)
  then obtain err ip' c2 where w: "caly_skip_ip6_exts d c1 (cfg_flags_of cfg) m ip = Some (err, ip', c2)"
    "\<forall>e. err = Some e \<longrightarrow> stops e" "c1 \<le> c2" "c2 \<le> length d" by (rule walk_okE)
  then show ?thesis
    using v x unfolding caly_parse_l3v6_def Let_def m_def [symmetric]
    by (cases err) (simp_all add: l3_post_def caly_offset_def caly_pkt_set_v6_addrs_def)
qed

text \<open>The transport header of a packet whose layer 3 is parsed.\<close>

definition parsed_ok :: "bytes \<Rightarrow> (parse_err option \<times> pkt_ctx) option \<Rightarrow> bool" where
  "parsed_ok d m \<longleftrightarrow> (case m of None \<Rightarrow> False | Some (Some e, _) \<Rightarrow> e \<noteq> ERR_INVAL
     | Some (None, p) \<Rightarrow> \<exists>l3 l4 pl. l3 \<le> l4 \<and> l4 \<le> pl \<and> pl \<le> length d \<and> pk_l3_off p = of_nat l3 \<and>
         pk_l4_off p = of_nat l4 \<and> pk_payload_off p = of_nat pl \<and> pk_frag_off p = 0)"

lemma not_inval: "hard e \<Longrightarrow> e \<noteq> ERR_INVAL" "stops e \<Longrightarrow> e \<noteq> ERR_INVAL"
  by (auto simp: stops_def hard_iff)

lemma fill_l4_ok:
  assumes "b \<le> c" "c \<le> length d" "pk_l3_off p = of_nat b" "fr \<longleftrightarrow> pk_frag_off p \<noteq> 0"
  shows "parsed_ok d (caly_pkt_fill_l4 p d c proto m fr)"
proof (cases fr)
  case True
  then show ?thesis by (simp add: caly_pkt_fill_l4_def Let_def parsed_ok_def)
next
  case False
  show ?thesis
  proof (rule cur_l4_cases [OF assms(2), of proto m])
    assume "parse_l4 d c proto m = Some None"
    with False show ?thesis by (simp add: caly_pkt_fill_l4_def Let_def parsed_ok_def)
  next
    fix err l4 c' assume l: "parse_l4 d c proto m = Some (Some (err, l4, c'))"
      "\<forall>e. err = Some e \<longrightarrow> hard e" "c \<le> c'" "c' \<le> length d"
    show ?thesis
    proof (cases err)
      case None
      have "\<exists>p'. caly_pkt_fill_l4 p d c proto m fr = Some (None, p') \<and> pk_l3_off p' = of_nat b \<and>
          pk_l4_off p' = of_nat c \<and> pk_payload_off p' = of_nat c' \<and> pk_frag_off p' = 0"
        using False assms(3,4) l(1) None by (simp add: caly_pkt_fill_l4_def Let_def caly_offset_def)
      with assms(1) l(3,4) show ?thesis
        unfolding parsed_ok_def by auto blast
    next
      case (Some e)
      with False l show ?thesis
        by (simp add: caly_pkt_fill_l4_def Let_def parsed_ok_def pkt_or_def not_inval)
    qed
  qed
qed

lemma l3_step_ok: "l3_post d c (if v6 then caly_parse_l3v6 p d c cfg else caly_parse_l3v4 p d c cfg)"
  by (simp add: l3v4_ok l3v6_ok)

lemma l3_loop_ok: "parsed_ok d (l3_loop tmax cfg d i p c v6)"
proof (induction tmax cfg d i p c v6 rule: l3_loop.induct)
  case (1 tmax cfg d i p c v6)
  show ?case
  proof (cases "i < unat tmax + 1")
    case False
    then show ?thesis by (subst l3_loop.simps) (simp add: parsed_ok_def)
  next
    case True
    then have g: "\<not> \<not> i < unat tmax + 1" by simp
    define m where "m = (if v6 then caly_parse_l3v6 p d c cfg else caly_parse_l3v4 p d c cfg)"
    have post: "l3_post d c m" unfolding m_def by (rule l3_step_ok)
    then obtain err p' r c' where m: "m = Some (err, p', r, c')"
      by (auto simp: l3_post_def split: option.splits)
    note eq = trans [OF l3_loop.simps if_not_P [OF g], of cfg d p c v6, folded m_def, unfolded m option.case prod.case]
    show ?thesis
    proof (cases err)
      case (Some e)
      with post m have "stops e" by (simp add: l3_post_def)
      with eq Some show ?thesis by (simp add: parsed_ok_def not_inval)
    next
      case None
      with post m have q: "c \<le> c'" "c' \<le> length d" "pk_l3_off p' = of_nat c" "r3_frag_no_l4 r \<longleftrightarrow> pk_frag_off p' \<noteq> 0"
        by (simp_all add: l3_post_def)
      define td where "td = (case cfg of None \<Rightarrow> 5 | Some cf \<Rightarrow> cfg_tcp_min_doff cf)"
      have fill: "parsed_ok d (caly_pkt_fill_l4 p' d c' (r3_proto r) td (r3_frag_no_l4 r))"
        by (rule fill_l4_ok [OF q])
      show ?thesis
      proof (cases "r3_is_tunnel r \<and> has_flag (cfg_flags_of cfg) CALY_F_TUNNEL_INSPECT \<and> pk_tunnel_depth p' < tmax")
        case False
        with eq None fill show ?thesis by (simp add: td_def)
      next
        case True
        show ?thesis
        proof (rule res_okE [OF tunnel_not_benign [OF q(2), of tmax "r3_proto r" "pk_tunnel_depth p'"]])
          fix e assume t: "caly_tunnel_inspect tmax d c' (r3_proto r) (pk_tunnel_depth p') = Some (Inl e)" "hard e"
          then have "\<not> caly_parse_err_benign e" by (auto simp: caly_parse_err_benign_def hard_iff)
          with eq None True t show ?thesis by (simp add: parsed_ok_def not_inval)
        next
          fix x assume t: "caly_tunnel_inspect tmax d c' (r3_proto r) (pk_tunnel_depth p') = Some (Inr x)"
          obtain w dp c2 where x: "x = (w, dp, c2)" by (cases x)
          have "parsed_ok d (l3_loop tmax cfg d (i + 1) (pkt_or CALY_PKT_F_TUNNELED (p'\<lparr>pk_tunnel_depth := dp\<rparr>)) c2 w)"
            by (rule "1.IH" [OF g m [unfolded m_def] refl None refl refl refl refl True t refl x [symmetric] refl])
          with eq None True t x show ?thesis by simp
        qed
      qed
    qed
  qed
qed

lemma parse_packet_ok:
  "\<exists>err eth p. caly_parse_packet tmax d ifx now cfg = Some (err, eth, p) \<and> parsed_ok d (Some (err, p))"
proof -
  define m where "m = (case cfg of None \<Rightarrow> CALY_VLAN_MAX_DEPTH | Some cf \<Rightarrow> caly_clamp_vlan_depth (cfg_vlan_max_depth cf))"
  have l: "\<exists>err p'. l3_loop tmax cfg d 0 p c v6 = Some (err, p') \<and> parsed_ok d (Some (err, p'))" for p c v6
    using l3_loop_ok [of d tmax cfg 0 p c v6]
    by (cases "l3_loop tmax cfg d 0 p c v6") (simp add: parsed_ok_def, metis surj_pair)
  show ?thesis
  proof (rule res_okE [OF parse_eth_ok [of d 0 m]])
    fix e assume "caly_parse_eth d 0 m = Some (Inl e)" "hard e"
    then show ?thesis by (simp add: caly_parse_packet_def m_def Let_def parsed_ok_def not_inval)
  next
    fix x assume e: "caly_parse_eth d 0 m = Some (Inr x)"
    obtain eth proto vd c where x: "x = (eth, proto, vd, c)" by (cases x)
    define p where "p = (if vd \<noteq> 0
       then pkt_or CALY_PKT_F_VLAN ((caly_pkt_ctx_reset d ifx now)\<lparr>pk_vlan_depth := vd, pk_eth_proto := proto\<rparr>)
       else (caly_pkt_ctx_reset d ifx now)\<lparr>pk_vlan_depth := vd, pk_eth_proto := proto\<rparr>)"
    note eq = caly_parse_packet_def [of tmax d ifx now cfg, folded m_def, unfolded Let_def, folded m_def p_def,
        unfolded e x option.case sum.case prod.case, folded p_def caly_parse_l3_and_l4_def]
    show ?thesis
      using l [of p c False] l [of p c True]
      by (auto simp: eq caly_parse_l3_and_l4_def parsed_ok_def)
  qed
qed


section \<open>The properties of the parser\<close>

text \<open>C36. The cursor parser never loads outside the frame and always returns, for every frame, configuration and
  bound on tunnels.  When it reports success, the packet is no trailing fragment and the offsets it records are
  in order inside the frame: layer 3, then layer 4, then the payload.  Every error it reports is either one of
  the three that mean there is nothing to inspect, or one that is charged to a drop counter, never the code
  for a bad argument.\<close>

theorem parse_packet_memory_safe:
  assumes "length d < 2 ^ 32"
  shows "\<exists>err eth p. caly_parse_packet tmax d ifindex now_ns cfg = Some (err, eth, p) \<and>
     (case err of
        None \<Rightarrow> pk_l3_off p \<le> pk_l4_off p \<and> pk_l4_off p \<le> pk_payload_off p \<and>
                unat (pk_payload_off p) \<le> length d \<and> pk_frag_off p = 0
      | Some e \<Rightarrow> caly_parse_err_benign e \<noteq> stat_reason_is_drop (caly_parse_err_reason e))"
proof -
  obtain err eth p where r: "caly_parse_packet tmax d ifindex now_ns cfg = Some (err, eth, p)" "parsed_ok d (Some (err, p))"
    using parse_packet_ok by blast
  have u: "unat (of_nat n :: u32) = n" if "n \<le> length d" for n
    using that assms by (simp add: unsigned_of_nat take_bit_nat_eq_self_iff)
  show ?thesis
  proof (cases err)
    case None
    then obtain l3 l4 pl where o: "l3 \<le> l4" "l4 \<le> pl" "pl \<le> length d" "pk_l3_off p = of_nat l3"
      "pk_l4_off p = of_nat l4" "pk_payload_off p = of_nat pl" "pk_frag_off p = 0"
      using r(2) by (auto simp: parsed_ok_def)
    then show ?thesis
      using r(1) None u [of l3] u [of l4] u [of pl] by (simp add: word_le_nat_alt)
  next
    case (Some e)
    then have "e \<noteq> ERR_INVAL" using r(2) by (simp add: parsed_ok_def)
    then have "caly_parse_err_benign e \<noteq> hard e" by (auto simp: caly_parse_err_benign_def hard_iff)
    with r(1) Some show ?thesis by (simp add: hard_def)
  qed
qed

theorem parse_packet_memory_safe_witness:
  "\<exists>err eth p. caly_parse_packet 3 [1, 2, 3] 1 0 None = Some (err, eth, p) \<and>
     (case err of
        None \<Rightarrow> pk_l3_off p \<le> pk_l4_off p \<and> pk_l4_off p \<le> pk_payload_off p \<and>
                unat (pk_payload_off p) \<le> length ([1, 2, 3] :: bytes) \<and> pk_frag_off p = 0
      | Some e \<Rightarrow> caly_parse_err_benign e \<noteq> stat_reason_is_drop (caly_parse_err_reason e))"
  by (rule parse_packet_memory_safe) simp

text \<open>The frames of \<open>Caly_Parse\<close>, seen through the cursor.\<close>

lemma ip4_tcp_eth:
  assumes "length macs = 12"
  shows "ld16 (ip4_tcp_frame macs tos ident ttl csum s t sport dport seqack fl tail payload) 12 = Some (le16 8 0)"
proof -
  have z: "(2048 :: u8) = 0" by (simp add: word_eq_iff_unsigned)
  let ?d = "ip4_tcp_frame macs tos ident ttl csum s t sport dport seqack fl tail payload"
  have "14 \<le> length ?d" using assms by (cases s; cases t) (simp add: ip4_tcp_frame_def)
  then show ?thesis
    using assms by (cases s; cases t) (simp add: load_simps, simp add: ip4_tcp_frame_def be16_def nth_append z)
qed

lemma ip4_tcp_cursor:
  assumes "length macs = 12" "length seqack = 8" "length tail = 6" "length payload \<le> 65481"
    and "cfg_tcp_min_doff cfg \<le> 5" "sport \<noteq> 0" "dport \<noteq> 0"
    and "d = ip4_tcp_frame macs tos ident ttl csum (s0, s1, s2, s3) (t0, t1, t2, t3) sport dport seqack fl tail payload"
  shows "\<exists>p. caly_parse_packet tmax d ifindex now_ns (Some cfg) = Some (None, Some 0, p) \<and>
             pk_family p = CALY_AF_INET \<and> pk_proto p = CALY_IPPROTO_TCP \<and>
             pk_saddr p = Quad (le32 s0 s1 s2 s3) 0 0 0 \<and> pk_daddr p = Quad (le32 t0 t1 t2 t3) 0 0 0 \<and>
             ntohs (pk_sport p) = sport \<and> ntohs (pk_dport p) = dport \<and> pk_tcp_flags p = ucast fl \<and>
             pk_l4_off p = 34 \<and> pk_payload_off p = 54 \<and> pk_flags p = 0"
proof -
  let ?n = "length payload"
  have e12: "ld16 d 12 = Some (le16 8 0)" unfolding assms(8) by (rule ip4_tcp_eth [OF assms(1)])
  note ld = ip4_tcp_frame_loads [OF assms(1-3,8)] e12
  have tot: "(ucast (of_nat (40 + ?n) :: u16) :: u32) = of_nat (40 + ?n)"
    using assms(4) take_bit_nat_eq_self_iff [of 16 "40 + ?n"] by (simp only: unsigned_of_nat) simp
  have un: "unat (of_nat (40 + ?n) :: u32) = 40 + ?n"
    using assms(4) by (simp only: unsigned_of_nat) (simp add: take_bit_nat_eq_self_iff)
  have cmp: "\<not> (of_nat (40 + ?n) :: u32) < 20"
    using un by (simp only: word_less_nat_alt) simp
  have fr: "ntohs (le16 0x40 0) = 0x4000" "ntohs (le16 8 0) = 0x800" by (simp_all add: ntohs_def le16_def)
  have pull: "caly_pull d 0 14 = Some (0, 14)" "caly_pull d 14 20 = Some (14, 34)" "caly_pull d 34 20 = Some (34, 54)"
    "caly_avail d 14 = of_nat (40 + ?n)"
    using ld(1) by (simp_all add: caly_pull_def caly_avail_def)
  have eth: "caly_parse_eth d 0 m = Some (Inr (0, 0x800, 0, 14))" for m
    by (subst caly_parse_eth_def) (simp add: pull ld fr eth_vlans.simps caly_eth_proto_is_vlan_def Let_def)
  have nz: "le16 (ucast (drop_bit 8 x)) (ucast x) \<noteq> 0" if "x \<noteq> 0" for x :: u16
    using that ntohs_be16 [of x] by (auto simp: ntohs_def)
  have ip: "caly_parse_ipv4 d 14 fl' = Some (Inr (\<lparr>i4_saddr = le32 s0 s1 s2 s3, i4_daddr = le32 t0 t1 t2 t3,
      i4_hdr_bytes = 20, i4_payload_len = of_nat (40 + ?n) - 20, i4_frag_off = 0, i4_protocol = 6, i4_ttl = ttl,
      i4_more_frags = False, i4_dont_frag = True\<rparr>, 34))" for fl'
    using cmp by (simp add: caly_parse_ipv4_def Let_def pull ld ntohs_be16 tot fr has_flag_def del: of_nat_add)
  have tcp: "caly_parse_tcp d 34 (cfg_tcp_min_doff cfg) l = Some (None,
      \<lparr>l4_sport = le16 (ucast (drop_bit 8 sport)) (ucast sport), l4_dport = le16 (ucast (drop_bit 8 dport)) (ucast dport),
       l4_hdr_bytes = 20, l4_tcp_flags = fl, l4_icmp_type = 0, l4_icmp_code = 0\<rparr>, 54)" for l
    using nz [OF assms(6)] nz [OF assms(7)] assms(5)
    by (simp add: caly_parse_tcp_def Let_def pull ld)
  show ?thesis
    by (simp add: caly_parse_packet_def eth caly_parse_l3_and_l4_def)
      (simp add: l3_loop.simps caly_parse_l3v4_def ip caly_proto_is_tunnel_def,
        simp add: caly_pkt_fill_l4_def parse_l4_def tcp Let_def ntohs_be16,
        simp add: pkt_frag_def caly_pkt_set_v4_addrs_def caly_pkt_ctx_reset_def caly_offset_def)
qed




end
