(* ===== verification/Caly_Tune.thy ===== *)
theory Caly_Tune
  imports Caly_Daemon
begin

text \<open>
  The decisions of \<open>src/user/autotune.c\<close>: rates and moving averages, anomaly detection, classification of an
  attack, the configuration synthesised for a mode, and the mode state machine.  What the module does with
  these decisions is in \<open>Caly_Autotune\<close>.

  The arrays indexed by an enumeration are functions on it; the arrays indexed by a counter are functions on
  words.  A \<open>have\<close> flag next to a value is an option.
\<close>

section \<open>Enumerations\<close>

datatype at_metric = AT_M_PPS | AT_M_BPS | AT_M_SYN_PPS | AT_M_NEWCONN_PPS | AT_M_UDP_PPS | AT_M_ICMP_PPS | AT_M_FRAG_PPS
  | AT_M_TCP_PPS | AT_M_DROP_PPS | AT_M_UNIQ_SRC | AT_M_CONN_LEVEL | AT_M_PKT_SIZE

definition at_metrics :: "at_metric list" where
  "at_metrics = [AT_M_PPS, AT_M_BPS, AT_M_SYN_PPS, AT_M_NEWCONN_PPS, AT_M_UDP_PPS, AT_M_ICMP_PPS, AT_M_FRAG_PPS,
     AT_M_TCP_PPS, AT_M_DROP_PPS, AT_M_UNIQ_SRC, AT_M_CONN_LEVEL, AT_M_PKT_SIZE]"

fun at_metric_idx :: "at_metric \<Rightarrow> nat" where
  "at_metric_idx AT_M_PPS = 0" | "at_metric_idx AT_M_BPS = 1" | "at_metric_idx AT_M_SYN_PPS = 2"
| "at_metric_idx AT_M_NEWCONN_PPS = 3" | "at_metric_idx AT_M_UDP_PPS = 4" | "at_metric_idx AT_M_ICMP_PPS = 5"
| "at_metric_idx AT_M_FRAG_PPS = 6" | "at_metric_idx AT_M_TCP_PPS = 7" | "at_metric_idx AT_M_DROP_PPS = 8"
| "at_metric_idx AT_M_UNIQ_SRC = 9" | "at_metric_idx AT_M_CONN_LEVEL = 10" | "at_metric_idx AT_M_PKT_SIZE = 11"

datatype at_window = AT_W_SHORT | AT_W_MED | AT_W_LONG

datatype at_class = AT_C_SYN | AT_C_ACK | AT_C_UDP | AT_C_AMP | AT_C_ICMP | AT_C_FRAG | AT_C_CONN_EXH | AT_C_SLOWLORIS
  | AT_C_PORTSCAN | AT_C_VOLUMETRIC

definition at_classes :: "at_class list" where
  "at_classes = [AT_C_SYN, AT_C_ACK, AT_C_UDP, AT_C_AMP, AT_C_ICMP, AT_C_FRAG, AT_C_CONN_EXH, AT_C_SLOWLORIS,
     AT_C_PORTSCAN, AT_C_VOLUMETRIC]"

fun AT_CLS_BIT :: "at_class \<Rightarrow> u32" where
  "AT_CLS_BIT AT_C_SYN = 1" | "AT_CLS_BIT AT_C_ACK = 2" | "AT_CLS_BIT AT_C_UDP = 4" | "AT_CLS_BIT AT_C_AMP = 8"
| "AT_CLS_BIT AT_C_ICMP = 16" | "AT_CLS_BIT AT_C_FRAG = 32" | "AT_CLS_BIT AT_C_CONN_EXH = 64"
| "AT_CLS_BIT AT_C_SLOWLORIS = 128" | "AT_CLS_BIT AT_C_PORTSCAN = 256" | "AT_CLS_BIT AT_C_VOLUMETRIC = 512"

abbreviation (input) AT_CLASS_MIN_SCORE :: u32 where "AT_CLASS_MIN_SCORE \<equiv> 50"
abbreviation (input) AT_ABS_PPS :: u32 where "AT_ABS_PPS \<equiv> 1"
abbreviation (input) AT_ABS_BPS :: u32 where "AT_ABS_BPS \<equiv> 2"
abbreviation (input) AT_ABS_SYN :: u32 where "AT_ABS_SYN \<equiv> 4"
abbreviation (input) AT_ABS_NEWCONN :: u32 where "AT_ABS_NEWCONN \<equiv> 8"
abbreviation (input) CALY_F_OPERATOR_MASK :: u64 where "CALY_F_OPERATOR_MASK \<equiv> 0xFFFFFFFF"
abbreviation (input) CALY_ABI_VERSION_MAJOR :: u64 where "CALY_ABI_VERSION_MAJOR \<equiv> 1"
abbreviation (input) CALY_MGMT_PORTS_MAX :: u32 where "CALY_MGMT_PORTS_MAX \<equiv> 16"

section \<open>State\<close>

record at_tunables =
  tu_win_ns :: "at_window \<Rightarrow> u64"
  tu_min_tick_ns :: u64
  tu_warmup_ns :: u64
  tu_heartbeat_ns :: u64
  tu_hook_min_interval_ns :: u64
  tu_lockdown_extra_dwell_ns :: u64
  tu_ban_interval_ns :: u64
  tu_metric_floor :: "at_metric \<Rightarrow> u64"
  tu_metric_mult :: "at_metric \<Rightarrow> u32"
  tu_confirm_up :: u32
  tu_confirm_down :: u32
  tu_sev_elevate :: u32
  tu_sev_attack :: u32
  tu_sev_lockdown :: u32
  tu_max_bans_per_tick :: u32
  tu_ban_min_drops :: u64
  tu_ban_min_share_pct :: u32
  tu_srcmem_entries :: u32
  tu_allow_lockdown :: bool
  tu_allow_synproxy :: bool
  tu_allow_amp_override :: bool
  tu_allow_portscan_enable :: bool
  tu_allow_drop_all_frags :: bool
  tu_allow_icmp_policy :: bool
  tu_allow_autoban :: bool
  tu_dry_run :: bool
  tu_alerts_enabled :: bool
  tu_hook_timeout_s :: u32
  tu_alert_file :: string
  tu_hook_path :: string
  tu_webhook_url :: string
  tu_webhook_client :: string
  tu_node_id :: string

record at_track =
  tr_ewma :: "at_window \<Rightarrow> u64"
  tr_cur :: u64
  tr_peak :: u64
  tr_samples :: u32
  tr_anomalous :: bool

record at_rtrack =
  rt_prev :: u64
  rt_rate :: u64
  rt_ewma_short :: u64
  rt_ewma_long :: u64

record at_srcmem =
  me_a :: quad
  me_family :: u32
  me_offences :: u32
  me_prev_drops :: u64
  me_prev_pkts :: u64
  me_cur_ttl_ns :: u64
  me_last_ban_ns :: u64
  me_last_seen_ns :: u64
  me_ban_expires_ns :: u64

record at_sample =
  sm_gauge :: "caly_gauge \<Rightarrow> u64"
  sm_stat :: "(u32 \<Rightarrow> u64) option"
  sm_conn_entries :: "u64 option"
  sm_uniq_sources :: "u64 option"
  sm_live :: "fw_config option"

text \<open>The module's state, without the callbacks.  The source memory is the list behind the pointer, its
  capacity the length of the list.\<close>

record autotune =
  au_cfg :: at_tunables
  au_base :: fw_config
  au_applied :: fw_config
  au_have_base :: bool
  au_have_applied :: bool
  au_first_ts_ns :: u64
  au_last_ts_ns :: u64
  au_prev_gauge :: "caly_gauge \<Rightarrow> u64"
  au_have_prev_gauge :: bool
  au_have_prev_stat :: bool
  au_sample_count :: u64
  au_last_drop_delta :: u64
  au_last_dt_ns :: u64
  au_rate :: "at_metric \<Rightarrow> u64"
  au_track :: "at_metric \<Rightarrow> at_track"
  au_rtrack :: "u32 \<Rightarrow> at_rtrack"
  au_anom_mask :: u32
  au_severity :: u32
  au_class_mask :: u32
  au_primary_class :: at_class
  au_class_score :: "at_class \<Rightarrow> u32"
  au_abs_hi_mask :: u32
  au_mode :: u32
  au_target_mode :: u32
  au_pinned :: bool
  au_up_count :: u32
  au_down_count :: u32
  au_mode_since_ns :: u64
  au_attack_since_ns :: u64
  au_applied_class_mask :: u32
  au_applied_mode :: u32
  au_amp_touched :: "u16 list"
  au_icmp4_echo_saved :: u32
  au_icmp6_echo_saved :: u32
  au_icmp4_echo_changed :: bool
  au_icmp6_echo_changed :: bool
  au_srcmem :: "at_srcmem list"
  au_srcmem_used :: u32
  au_alert_fd :: bool
  au_webhook_ok :: bool
  au_webhook_client :: string
  au_last_hook_ns :: u64
  au_last_heartbeat_ns :: u64
  au_last_ban_pass_ns :: u64
  au_last_ban_pass_drops :: u64
  au_bans_issued :: u64
  au_bans_suppressed :: u64
  au_alerts_emitted :: u64
  au_alerts_failed :: u64
  au_config_pushes :: u64
  au_config_rejected :: u64
  au_ev_reason :: "u32 \<Rightarrow> u64"
  au_abi_warned :: bool
  au_init_done :: bool

section \<open>Arithmetic\<close>

text \<open>The product is taken at 128 bits.\<close>

definition at_mul_div :: "u64 \<Rightarrow> u64 \<Rightarrow> u64 \<Rightarrow> u64" where
  "at_mul_div a b c = (if c = 0 then 0 else ucast ((ucast a * ucast b :: 128 word) div ucast c))"

definition at_per_sec :: "u64 \<Rightarrow> u64 \<Rightarrow> u64" where
  "at_per_sec delta dt_ns = (if dt_ns = 0 then 0 else at_mul_div delta CALY_NSEC_PER_SEC dt_ns)"

definition at_min64 :: "u64 \<Rightarrow> u64 \<Rightarrow> u64" where
  "at_min64 a b = (if a < b then a else b)"

definition at_clamp32 :: "u32 \<Rightarrow> u32 \<Rightarrow> u32 \<Rightarrow> u32" where
  "at_clamp32 v lo hi = (if v < lo then lo else if v > hi then hi else v)"

definition at_ewma_step :: "u64 \<Rightarrow> u64 \<Rightarrow> u64 \<Rightarrow> u64 \<Rightarrow> u64" where
  "at_ewma_step cur sample dt_ns tau_ns =
     (if tau_ns = 0 \<or> dt_ns \<ge> tau_ns then sample
      else
        let den = tau_ns + dt_ns
        in if sample \<ge> cur then cur + at_mul_div (sample - cur) dt_ns den
           else cur - at_mul_div (cur - sample) dt_ns den)"

definition at_track_update :: "at_track \<Rightarrow> u64 \<Rightarrow> u64 \<Rightarrow> (at_window \<Rightarrow> u64) \<Rightarrow> bool \<Rightarrow> at_track" where
  "at_track_update t v dt_ns win freeze_long =
     (let t = t\<lparr>tr_cur := v, tr_peak := (if v > tr_peak t then v else tr_peak t)\<rparr>;
          step = (\<lambda>w. at_ewma_step (tr_ewma t w) v dt_ns (win w));
          t = t\<lparr>tr_ewma := (if tr_samples t = 0 then (\<lambda>_. v)
                 else (\<lambda>w. if w = AT_W_LONG \<and> freeze_long then tr_ewma t w else step w))\<rparr>
      in if tr_samples t \<noteq> 0xFFFFFFFF then t\<lparr>tr_samples := tr_samples t + 1\<rparr> else t)"

section \<open>Sampling\<close>

definition at_gauge_delta :: "autotune \<Rightarrow> (caly_gauge \<Rightarrow> u64) \<Rightarrow> caly_gauge \<Rightarrow> u64" where
  "at_gauge_delta at cur idx =
     (if au_have_prev_gauge at \<and> cur idx \<ge> au_prev_gauge at idx then cur idx - au_prev_gauge at idx else 0)"

definition at_compute_rates :: "autotune \<Rightarrow> at_sample \<Rightarrow> u64 \<Rightarrow> autotune" where
  "at_compute_rates at s dt_ns =
     (let d = at_gauge_delta at (sm_gauge s);
          pps = at_per_sec (d G_PKTS) dt_ns; udp = at_per_sec (d G_UDP) dt_ns; icmp = at_per_sec (d G_ICMP) dt_ns
      in at\<lparr>au_last_drop_delta := d G_DROPS,
            au_rate := (au_rate at)(
              AT_M_PPS := pps,
              AT_M_BPS := at_per_sec (d G_BYTES) dt_ns,
              AT_M_SYN_PPS := at_per_sec (d G_SYN) dt_ns,
              AT_M_NEWCONN_PPS := at_per_sec (d G_NEWCONN) dt_ns,
              AT_M_UDP_PPS := udp,
              AT_M_ICMP_PPS := icmp,
              AT_M_FRAG_PPS := at_per_sec (d G_FRAG) dt_ns,
              AT_M_DROP_PPS := at_per_sec (d G_DROPS) dt_ns,
              AT_M_TCP_PPS := (if pps > udp + icmp then pps - udp - icmp else 0),
              AT_M_UNIQ_SRC := (case sm_uniq_sources s of Some n \<Rightarrow> at_per_sec n dt_ns | None \<Rightarrow> au_rate at AT_M_UNIQ_SRC),
              AT_M_CONN_LEVEL := (case sm_conn_entries s of Some n \<Rightarrow> n | None \<Rightarrow> au_rate at AT_M_CONN_LEVEL),
              AT_M_PKT_SIZE := (if d G_PKTS \<noteq> 0 then d G_BYTES div d G_PKTS else 0)),
            au_prev_gauge := sm_gauge s, au_have_prev_gauge := True\<rparr>)"

definition reason_step :: "bool \<Rightarrow> (at_window \<Rightarrow> u64) \<Rightarrow> u64 \<Rightarrow> bool \<Rightarrow> u64 \<Rightarrow> at_rtrack \<Rightarrow> at_rtrack" where
  "reason_step have_prev win dt_ns freeze_long v r =
     (let d = (if have_prev \<and> v \<ge> rt_prev r then v - rt_prev r else 0);
          r = r\<lparr>rt_prev := v, rt_rate := at_per_sec d dt_ns\<rparr>
      in if \<not> have_prev then r\<lparr>rt_ewma_short := rt_rate r, rt_ewma_long := rt_rate r\<rparr>
         else r\<lparr>rt_ewma_short := at_ewma_step (rt_ewma_short r) (rt_rate r) dt_ns (win AT_W_SHORT),
                rt_ewma_long := (if freeze_long then rt_ewma_long r
                                 else at_ewma_step (rt_ewma_long r) (rt_rate r) dt_ns (win AT_W_LONG))\<rparr>)"

definition at_compute_reason_rates :: "autotune \<Rightarrow> at_sample \<Rightarrow> u64 \<Rightarrow> bool \<Rightarrow> autotune" where
  "at_compute_reason_rates at s dt_ns freeze_long =
     (case sm_stat s of
        None \<Rightarrow> at
      | Some st \<Rightarrow>
          at\<lparr>au_rtrack := (\<lambda>i. if i < STAT_MAX
               then reason_step (au_have_prev_stat at) (tu_win_ns (au_cfg at)) dt_ns freeze_long (st i) (au_rtrack at i)
               else au_rtrack at i),
             au_have_prev_stat := True\<rparr>)"

definition autotune_reason_rate :: "autotune \<Rightarrow> u32 \<Rightarrow> u64" where
  "autotune_reason_rate at reason = (if reason \<ge> STAT_MAX then 0 else rt_rate (au_rtrack at reason))"

section \<open>Detection\<close>

definition at_threshold :: "autotune \<Rightarrow> at_metric \<Rightarrow> u64" where
  "at_threshold at m =
     (if tu_metric_mult (au_cfg at) m = 0 then 0
      else
        let rel = at_mul_div (tr_ewma (au_track at m) AT_W_LONG) (ucast (tu_metric_mult (au_cfg at) m)) 10;
            flr = tu_metric_floor (au_cfg at) m
        in if rel > flr then rel else flr)"

text \<open>One metric: the mask of anomalies, their number and the severity so far.\<close>

definition detect_one :: "autotune \<Rightarrow> at_metric \<Rightarrow> u32 \<times> u32 \<times> u32 \<Rightarrow> u32 \<times> u32 \<times> u32" where
  "detect_one at m = (\<lambda>(mask, n_anom, sev).
     let thr = at_threshold at m; cur = au_rate at m
     in if thr = 0 \<or> cur \<le> thr then (mask, n_anom, sev)
        else
          let mask = mask OR push_bit (at_metric_idx m) 1;
              n_anom = n_anom + 1;
              over_pct = at_min64 (at_mul_div cur 100 thr) 100000
          in if over_pct \<le> 100 then (mask, n_anom, sev)
             else let s = (ucast (at_min64 ((over_pct - 100) div 4) 100) :: u32)
                  in (mask, n_anom, if s > sev then s else sev))"

definition abs_hi :: "u64 \<Rightarrow> u64 \<Rightarrow> u32 \<Rightarrow> u32" where
  "abs_hi hi rate b = (if hi \<noteq> 0 \<and> rate > hi then b else 0)"

definition at_detect :: "autotune \<Rightarrow> fw_config \<Rightarrow> autotune" where
  "at_detect at live =
     (let (mask, n_anom, sev) = fold (detect_one at) at_metrics (0, 0, 0);
          sev = (if n_anom > 1
                 then let bonus = (n_anom - 1) * 8 in if sev + bonus > 100 then 100 else sev + bonus
                 else sev);
          hi = abs_hi (cfg_global_pps_hi live) (au_rate at AT_M_PPS) AT_ABS_PPS OR
               abs_hi (cfg_global_bps_hi live) (au_rate at AT_M_BPS) AT_ABS_BPS OR
               abs_hi (cfg_global_syn_pps_hi live) (au_rate at AT_M_SYN_PPS) AT_ABS_SYN OR
               abs_hi (cfg_global_newconn_pps_hi live) (au_rate at AT_M_NEWCONN_PPS) AT_ABS_NEWCONN;
          sev = (if hi \<noteq> 0 \<and> sev < tu_sev_attack (au_cfg at) then tu_sev_attack (au_cfg at) else sev)
      in at\<lparr>au_anom_mask := mask, au_abs_hi_mask := hi,
            au_track := (\<lambda>m. (au_track at m)\<lparr>tr_anomalous :=
                          (at_threshold at m \<noteq> 0 \<and> au_rate at m > at_threshold at m)\<rparr>),
            au_severity := (if sev > 100 then 100 else sev)\<rparr>)"

definition at_below_all_lo :: "autotune \<Rightarrow> fw_config \<Rightarrow> bool" where
  "at_below_all_lo at live \<longleftrightarrow>
     \<not> (cfg_global_pps_lo live \<noteq> 0 \<and> au_rate at AT_M_PPS \<ge> cfg_global_pps_lo live) \<and>
     \<not> (cfg_global_bps_lo live \<noteq> 0 \<and> au_rate at AT_M_BPS \<ge> cfg_global_bps_lo live) \<and>
     \<not> (cfg_global_syn_pps_lo live \<noteq> 0 \<and> au_rate at AT_M_SYN_PPS \<ge> cfg_global_syn_pps_lo live) \<and>
     \<not> (cfg_global_newconn_pps_lo live \<noteq> 0 \<and> au_rate at AT_M_NEWCONN_PPS \<ge> cfg_global_newconn_pps_lo live)"

section \<open>Classification\<close>

text \<open>The sum of the rates of the counters \<open>from\<close> to \<open>to\<close>, both included.\<close>

definition at_reason_sum :: "autotune \<Rightarrow> u32 \<Rightarrow> u32 \<Rightarrow> u64" where
  "at_reason_sum at from to =
     fold (\<lambda>i acc. acc + rt_rate (au_rtrack at (of_nat i)))
       [unat from..<min (unat to + 1) (unat STAT_MAX)] 0"

definition at_anom :: "autotune \<Rightarrow> at_metric \<Rightarrow> bool" where
  "at_anom at m = has_flag (au_anom_mask at) (push_bit (at_metric_idx m) 1)"

definition at_share :: "u64 \<Rightarrow> u64 \<Rightarrow> u32" where
  "at_share part tot = (if tot = 0 then 0 else ucast (at_min64 (at_mul_div part 100 tot) 100))"

definition pts :: "bool \<Rightarrow> u32 \<Rightarrow> u32" where
  "pts b n = (if b then n else 0)"

fun class_sc :: "autotune \<Rightarrow> fw_config \<Rightarrow> at_class \<Rightarrow> u32" where
  "class_sc at live AT_C_SYN =
     (let pps = au_rate at AT_M_PPS; syn = au_rate at AT_M_SYN_PPS;
          syn_drop = rt_rate (au_rtrack at STAT_DROP_RATE_SYN) + rt_rate (au_rtrack at STAT_DROP_RATE_GLOBAL_SYN)
      in pts (at_anom at AT_M_SYN_PPS \<or> has_flag (au_abs_hi_mask at) AT_ABS_SYN) 60
         + pts (pps \<noteq> 0 \<and> at_share syn pps \<ge> 40) 25 + pts (syn_drop > 0) 15)"
| "class_sc at live AT_C_ACK =
     (let pps = au_rate at AT_M_PPS; tcp = au_rate at AT_M_TCP_PPS;
          tcpflag_drop = at_reason_sum at STAT_DROP_TCP_NULL STAT_DROP_TCP_SYNACK_UNSOL;
          ct_miss = rt_rate (au_rtrack at STAT_CT_MISS)
      in if at_anom at AT_M_TCP_PPS \<and> \<not> at_anom at AT_M_SYN_PPS
         then 50 + pts (\<not> at_anom at AT_M_NEWCONN_PPS) 15
              + pts (tcpflag_drop > 0 \<and> pps \<noteq> 0 \<and> at_share tcpflag_drop pps \<ge> 5) 15
              + pts (ct_miss > 0 \<and> tcp \<noteq> 0 \<and> at_share ct_miss tcp \<ge> 50) 10
         else 0)"
| "class_sc at live AT_C_UDP =
     (let pps = au_rate at AT_M_PPS; udp = au_rate at AT_M_UDP_PPS
      in pts (at_anom at AT_M_UDP_PPS) 60 + pts (pps \<noteq> 0 \<and> at_share udp pps \<ge> 50) 20)"
| "class_sc at live AT_C_AMP =
     (let udp = au_rate at AT_M_UDP_PPS; psize = au_rate at AT_M_PKT_SIZE;
          amp_drop = rt_rate (au_rtrack at STAT_DROP_AMP_SRCPORT)
      in (if amp_drop > 0 then 50 + pts (udp \<noteq> 0 \<and> at_share amp_drop udp \<ge> 5) 15 else 0)
         + pts (psize \<ge> 512 \<and> at_anom at AT_M_UDP_PPS) 25 + pts (psize \<ge> 1200 \<and> at_anom at AT_M_BPS) 10)"
| "class_sc at live AT_C_ICMP =
     (let pps = au_rate at AT_M_PPS; icmp = au_rate at AT_M_ICMP_PPS
      in pts (at_anom at AT_M_ICMP_PPS) 70 + pts (pps \<noteq> 0 \<and> at_share icmp pps \<ge> 20) 20)"
| "class_sc at live AT_C_FRAG =
     (let pps = au_rate at AT_M_PPS; frag_drop = at_reason_sum at STAT_DROP_FRAG_TINY STAT_DROP_FRAG_ICMP
      in pts (at_anom at AT_M_FRAG_PPS) 60 + pts (frag_drop > 0 \<and> pps \<noteq> 0 \<and> at_share frag_drop pps \<ge> 2) 25)"
| "class_sc at live AT_C_CONN_EXH =
     (let conns = au_rate at AT_M_CONN_LEVEL; conn_cap = ucast (cfg_max_conn_entries live);
          ct_full = rt_rate (au_rtrack at STAT_CT_FULL)
      in pts (at_anom at AT_M_NEWCONN_PPS \<or> has_flag (au_abs_hi_mask at) AT_ABS_NEWCONN) 60
         + pts (conn_cap \<noteq> 0 \<and> at_share conns conn_cap \<ge> 80) 30 + pts (ct_full > 0) 20)"
| "class_sc at live AT_C_SLOWLORIS =
     (let conns = au_rate at AT_M_CONN_LEVEL; conn_cap = ucast (cfg_max_conn_entries live)
      in if conn_cap \<noteq> 0 \<and> at_share conns conn_cap \<ge> 60 \<and> \<not> at_anom at AT_M_PPS \<and> \<not> at_anom at AT_M_BPS
         then 60 + pts (at_anom at AT_M_CONN_LEVEL) 20 + pts (\<not> at_anom at AT_M_NEWCONN_PPS) 10
         else 0)"
| "class_sc at live AT_C_PORTSCAN =
     (let scan_drop = rt_rate (au_rtrack at STAT_DROP_PORTSCAN); usual = rt_ewma_long (au_rtrack at STAT_DROP_PORTSCAN)
      in pts (scan_drop > 0) 50 + pts (usual \<noteq> 0 \<and> scan_drop > usual * 4 \<or> scan_drop > 100) 30)"
| "class_sc at live AT_C_VOLUMETRIC =
     (pts (at_anom at AT_M_PPS \<or> at_anom at AT_M_BPS \<or> has_flag (au_abs_hi_mask at) (AT_ABS_PPS OR AT_ABS_BPS)) 45
      + pts (at_anom at AT_M_PPS \<and> at_anom at AT_M_BPS) 15)"

definition capped_sc :: "autotune \<Rightarrow> fw_config \<Rightarrow> at_class \<Rightarrow> u32" where
  "capped_sc at live c = (let s = class_sc at live c in if s > 100 then 100 else s)"

definition score_one :: "(at_class \<Rightarrow> u32) \<Rightarrow> at_class \<Rightarrow> u32 \<times> at_class \<times> u32 \<Rightarrow> u32 \<times> at_class \<times> u32" where
  "score_one sc c = (\<lambda>(mask, best, best_score).
     (if sc c \<ge> AT_CLASS_MIN_SCORE then mask OR AT_CLS_BIT c else mask,
      if sc c > best_score then c else best, if sc c > best_score then sc c else best_score))"

definition at_classify :: "autotune \<Rightarrow> fw_config \<Rightarrow> autotune" where
  "at_classify at live =
     (let sc = capped_sc at live;
          (mask, best, _) = fold (score_one sc) at_classes (0, AT_C_VOLUMETRIC, 0);
          (mask, best) = (if mask = 0 \<and> au_severity at \<ge> tu_sev_elevate (au_cfg at)
                          then (AT_CLS_BIT AT_C_VOLUMETRIC, AT_C_VOLUMETRIC) else (mask, best))
      in at\<lparr>au_class_score := sc, au_class_mask := mask, au_primary_class := best\<rparr>)"

section \<open>Synthesis of a configuration\<close>

definition at_mode_pct :: "u32 \<Rightarrow> u32" where
  "at_mode_pct mode = (if mode = FW_MODE_ELEVATED then 50 else if mode = FW_MODE_UNDER_ATTACK then 25
     else if mode = FW_MODE_LOCKDOWN then 10 else 100)"

fun at_tb_rate_floor :: "caly_tb_kind \<Rightarrow> u64" where
  "at_tb_rate_floor TB_PPS = 2000" | "at_tb_rate_floor TB_BPS = 2000000" | "at_tb_rate_floor TB_SYN = 100"
| "at_tb_rate_floor TB_UDP = 1000" | "at_tb_rate_floor TB_ICMP = 20" | "at_tb_rate_floor TB_NEWCONN = 50"

fun at_tb_burst_floor :: "caly_tb_kind \<Rightarrow> u64" where
  "at_tb_burst_floor TB_PPS = 2000" | "at_tb_burst_floor TB_BPS = 2000000" | "at_tb_burst_floor TB_SYN = 100"
| "at_tb_burst_floor TB_UDP = 1000" | "at_tb_burst_floor TB_ICMP = 20" | "at_tb_burst_floor TB_NEWCONN = 50"

definition at_press_tab :: "(at_class \<times> caly_tb_kind \<times> u32) list" where
  "at_press_tab = [(AT_C_SYN, TB_SYN, 50), (AT_C_ACK, TB_PPS, 50), (AT_C_UDP, TB_UDP, 50), (AT_C_UDP, TB_BPS, 50),
     (AT_C_AMP, TB_UDP, 70), (AT_C_ICMP, TB_ICMP, 25), (AT_C_FRAG, TB_PPS, 75), (AT_C_CONN_EXH, TB_NEWCONN, 40),
     (AT_C_SLOWLORIS, TB_NEWCONN, 60), (AT_C_VOLUMETRIC, TB_PPS, 60), (AT_C_VOLUMETRIC, TB_BPS, 60)]"

definition at_scale_down :: "u64 \<Rightarrow> u32 \<Rightarrow> u64 \<Rightarrow> u64" where
  "at_scale_down v pct floor_v =
     (if v = 0 then 0
      else if pct \<ge> 100 then v
      else
        let r = at_mul_div v (ucast pct) 100;
            r = (if r < floor_v then floor_v else r);
            r = (if r > v then v else r)
        in if r = 0 then 1 else r)"

definition at_scale_up :: "u64 \<Rightarrow> u32 \<Rightarrow> u64 \<Rightarrow> u64" where
  "at_scale_up v pct cap =
     (if v = 0 then 0
      else if pct \<le> 100 then v
      else
        let r = at_mul_div v (ucast pct) 100;
            r = (if cap \<noteq> 0 \<and> r > cap then cap else r)
        in if r < v then v else r)"

definition at_kind_pct :: "u32 \<Rightarrow> u32 \<Rightarrow> caly_tb_kind \<Rightarrow> u32" where
  "at_kind_pct mode_pct cls_mask kind =
     fold (\<lambda>(c, k, p) pct.
             if k \<noteq> kind \<or> \<not> has_flag cls_mask (AT_CLS_BIT c) then pct
             else let x = (mode_pct * p) div 100 in if x < pct then x else pct)
       at_press_tab mode_pct"

text \<open>Port 22 in a list of \<open>n\<close> ports, and whether the list was repaired.\<close>

definition mgmt_add_22 :: "u32 \<Rightarrow> u16 list \<Rightarrow> bool \<Rightarrow> u32 \<times> u16 list \<times> bool" where
  "mgmt_add_22 n ports rep =
     (let (n, ports, rep) =
            (if 22 \<in> set (take (unat n) ports) then (n, ports, rep)
             else if n < CALY_MGMT_PORTS_MAX then (n + 1, ports[unat n := 22], True)
             else (n, ports[unat (CALY_MGMT_PORTS_MAX - 1) := 22], True))
      in if n = 0 then (1, ports[0 := 22], True) else (n, ports, rep))"

text \<open>The repaired configuration and whether something was repaired.\<close>

definition at_enforce_mgmt :: "fw_config \<Rightarrow> fw_config \<times> bool" where
  "at_enforce_mgmt c =
     (let n = cfg_mgmt_tcp_count c;
          (n, ports, rep) =
            (if n > CALY_MGMT_PORTS_MAX then mgmt_add_22 CALY_MGMT_PORTS_MAX (cfg_mgmt_tcp_ports c) True
             else mgmt_add_22 n (cfg_mgmt_tcp_ports c) False);
          c = c\<lparr>cfg_mgmt_tcp_ports := ports, cfg_mgmt_tcp_count := n\<rparr>
      in if cfg_mgmt_udp_count c > CALY_MGMT_PORTS_MAX
         then (c\<lparr>cfg_mgmt_udp_count := CALY_MGMT_PORTS_MAX\<rparr>, True) else (c, rep))"

definition same_sizing :: "fw_config \<Rightarrow> fw_config \<Rightarrow> bool" where
  "same_sizing c b \<longleftrightarrow>
     cfg_max_ban_entries c = cfg_max_ban_entries b \<and> cfg_max_conn_entries c = cfg_max_conn_entries b \<and>
     cfg_max_rate_entries c = cfg_max_rate_entries b \<and> cfg_max_scan_entries c = cfg_max_scan_entries b \<and>
     cfg_max_srcstat_entries c = cfg_max_srcstat_entries b \<and> cfg_max_allow_entries c = cfg_max_allow_entries b \<and>
     cfg_max_block_entries c = cfg_max_block_entries b \<and> cfg_max_iface_entries c = cfg_max_iface_entries b \<and>
     cfg_vlan_max_depth c = cfg_vlan_max_depth b \<and> cfg_ip6_ext_max c = cfg_ip6_ext_max b \<and>
     cfg_tunnel_max_depth c = cfg_tunnel_max_depth b"

definition at_config_sane :: "fw_config \<Rightarrow> fw_config \<Rightarrow> bool" where
  "at_config_sane base c \<longleftrightarrow>
     drop_bit 16 (cfg_abi_version c) = CALY_ABI_VERSION_MAJOR \<and>
     \<not> cfg_mode c \<ge> FW_MODE_MAX \<and>
     \<not> (cfg_mgmt_tcp_count c = 0 \<or> cfg_mgmt_tcp_count c > CALY_MGMT_PORTS_MAX) \<and>
     22 \<in> set (take (unat (cfg_mgmt_tcp_count c)) (cfg_mgmt_tcp_ports c)) \<and>
     cfg_flags c AND CALY_F_ENABLED = cfg_flags base AND CALY_F_ENABLED \<and>
     \<not> (has_flag (cfg_flags base) CALY_F_ALLOWLIST \<and> \<not> has_flag (cfg_flags c) CALY_F_ALLOWLIST) \<and>
     \<not> (cfg_mode c = FW_MODE_LOCKDOWN \<and> \<not> has_flag (cfg_flags c) (CALY_F_ALLOWLIST OR CALY_F_MGMT_BYPASS_ALL)) \<and>
     same_sizing c base"


definition at_active :: "u32 \<Rightarrow> bool" where
  "at_active mode \<longleftrightarrow> mode \<ge> FW_MODE_ELEVATED \<and> mode \<le> FW_MODE_LOCKDOWN"

text \<open>The limits of the candidate, then its flags.\<close>

definition build_limits :: "fw_config \<Rightarrow> u32 \<Rightarrow> u32 \<Rightarrow> fw_config" where
  "build_limits base mode cls =
     (let mode_pct = at_mode_pct mode;
          pct = at_kind_pct mode_pct cls;
          out = base\<lparr>cfg_mode := mode,
            cfg_tb_rate := (\<lambda>k. at_scale_down (cfg_tb_rate base k) (pct k) (at_tb_rate_floor k)),
            cfg_tb_burst := (\<lambda>k. at_scale_down (cfg_tb_burst base k) (pct k) (at_tb_burst_floor k)),
            cfg_syn_fallback_pps := at_scale_down (cfg_syn_fallback_pps base) (pct TB_SYN) 5000\<rparr>;
          out = (if mode = FW_MODE_UNDER_ATTACK
                   then out\<lparr>cfg_ban_ttl_base_ns := at_scale_up (cfg_ban_ttl_base_ns base) 200 (cfg_ban_ttl_max_ns base)\<rparr>
                 else if mode = FW_MODE_LOCKDOWN
                   then out\<lparr>cfg_ban_ttl_base_ns := at_scale_up (cfg_ban_ttl_base_ns base) 400 (cfg_ban_ttl_max_ns base)\<rparr>
                 else out);
          out = (if cfg_strike_limit base > 2 then
                   if mode = FW_MODE_UNDER_ATTACK
                     then out\<lparr>cfg_strike_limit := at_clamp32 (cfg_strike_limit base div 2) 2 (cfg_strike_limit base)\<rparr>
                   else if mode = FW_MODE_LOCKDOWN
                     then out\<lparr>cfg_strike_limit := at_clamp32 (cfg_strike_limit base div 4) 2 (cfg_strike_limit base)\<rparr>
                   else out
                 else out);
          out = (if has_flag cls (AT_CLS_BIT AT_C_PORTSCAN) \<and> at_active mode
                 then out\<lparr>cfg_scan_port_threshold := ucast (at_scale_down (ucast (cfg_scan_port_threshold base)) mode_pct 8)\<rparr>
                 else out);
          out = (if has_flag cls (AT_CLS_BIT AT_C_CONN_EXH OR AT_CLS_BIT AT_C_SLOWLORIS) \<and> at_active mode
                 then out\<lparr>cfg_ct_tcp_syn_ns := at_scale_down (cfg_ct_tcp_syn_ns base) mode_pct (2 * CALY_NSEC_PER_SEC),
                          cfg_ct_tcp_est_ns := at_scale_down (cfg_ct_tcp_est_ns base) mode_pct (60 * CALY_NSEC_PER_SEC)\<rparr>
                 else out)
      in if cfg_log_sample_rate base \<noteq> 0
         then let up = (if mode = FW_MODE_ELEVATED then 200 else if mode = FW_MODE_UNDER_ATTACK then 400
                        else if mode = FW_MODE_LOCKDOWN then 800 else 100)
              in out\<lparr>cfg_log_sample_rate := ucast (at_scale_up (ucast (cfg_log_sample_rate base)) up 1000000)\<rparr>
         else out)"

definition or_if :: "bool \<Rightarrow> u64 \<Rightarrow> u64 \<Rightarrow> u64" where
  "or_if b m f = (if b then f OR m else f)"

definition build_flags :: "at_tunables \<Rightarrow> fw_config \<Rightarrow> fw_config \<Rightarrow> u32 \<Rightarrow> u32 \<Rightarrow> u64" where
  "build_flags tu base live mode cls =
     (let f = (cfg_flags base AND CALY_F_OPERATOR_MASK) OR (cfg_flags live AND CALY_F_CAP_MASK);
          act = at_active mode;
          f = or_if (act \<and> has_flag cls (AT_CLS_BIT AT_C_SYN) \<and> tu_allow_synproxy tu \<and>
                     has_flag (cfg_flags live) CALY_F_CAP_SYNPROXY) CALY_F_SYNPROXY f;
          f = or_if (act \<and> has_flag cls (AT_CLS_BIT AT_C_AMP) \<and> tu_allow_amp_override tu) CALY_F_ANTI_AMPLIFY f;
          f = or_if (act \<and> has_flag cls (AT_CLS_BIT AT_C_PORTSCAN) \<and> tu_allow_portscan_enable tu) CALY_F_PORTSCAN_DETECT f
      in if mode = FW_MODE_LOCKDOWN
         then or_if (has_flag cls (AT_CLS_BIT AT_C_FRAG) \<and> tu_allow_drop_all_frags tu) CALY_F_DROP_ALL_FRAGS
                (f OR CALY_F_ALLOWLIST OR CALY_F_MGMT_BYPASS_ALL OR CALY_F_LOCKDOWN_ICMP OR CALY_F_CONNTRACK
                   OR CALY_F_DEFAULT_DENY)
         else f)"

definition at_build_config :: "autotune \<Rightarrow> fw_config \<Rightarrow> u32 \<Rightarrow> u32 \<Rightarrow> fw_config" where
  "at_build_config at live mode cls =
     (let mode = (if mode \<ge> FW_MODE_MAX then FW_MODE_NORMAL else mode);
          out = build_limits (au_base at) mode cls
      in fst (at_enforce_mgmt (out\<lparr>
           cfg_abi_version := (if cfg_abi_version live \<noteq> 0 then cfg_abi_version live else CALY_ABI_VERSION),
           cfg_flags := build_flags (au_cfg at) (au_base at) live mode cls,
           cfg_config_gen := cfg_config_gen live\<rparr>)))"

definition at_config_equal :: "fw_config \<Rightarrow> fw_config \<Rightarrow> bool" where
  "at_config_equal a b \<longleftrightarrow> a\<lparr>cfg_config_gen := cfg_config_gen b\<rparr> = b"

section \<open>The mode\<close>

definition warmed :: "autotune \<Rightarrow> u64 \<Rightarrow> bool" where
  "warmed at now \<longleftrightarrow> au_sample_count at \<ge> 8 \<and> au_first_ts_ns at \<noteq> 0 \<and> now - au_first_ts_ns at \<ge> tu_warmup_ns (au_cfg at)"

definition at_target_mode :: "autotune \<Rightarrow> u64 \<Rightarrow> u32" where
  "at_target_mode at now_ns =
     (let adaptive =
            (if warmed at now_ns then
               if au_severity at \<ge> tu_sev_lockdown (au_cfg at) then FW_MODE_LOCKDOWN
               else if au_severity at \<ge> tu_sev_attack (au_cfg at) then FW_MODE_UNDER_ATTACK
               else if au_severity at \<ge> tu_sev_elevate (au_cfg at) then FW_MODE_ELEVATED
               else FW_MODE_NORMAL
             else FW_MODE_NORMAL);
          absolute = (if au_abs_hi_mask at \<noteq> 0 then FW_MODE_UNDER_ATTACK else FW_MODE_NORMAL);
          target = (if adaptive > absolute then adaptive else absolute)
      in if target = FW_MODE_LOCKDOWN \<and> \<not> tu_allow_lockdown (au_cfg at) then FW_MODE_UNDER_ATTACK else target)"

definition sat_inc :: "u32 \<Rightarrow> u32" where
  "sat_inc n = (if n < 0xFFFFFFFF then n + 1 else n)"

text \<open>The next mode and the counters, when the target is above and when it is below the mode.\<close>

definition mode_up :: "autotune \<Rightarrow> u32 \<times> autotune" where
  "mode_up at =
     (let at = at\<lparr>au_down_count := 0, au_up_count := sat_inc (au_up_count at)\<rparr>
      in if au_up_count at \<ge> tu_confirm_up (au_cfg at) then (au_mode at + 1, at\<lparr>au_up_count := 0\<rparr>) else (au_mode at, at))"

definition dwell_of :: "autotune \<Rightarrow> fw_config \<Rightarrow> u64" where
  "dwell_of at live = cfg_attack_dwell_ns live +
     (if au_mode at = FW_MODE_LOCKDOWN then tu_lockdown_extra_dwell_ns (au_cfg at) else 0)"

definition mode_down :: "autotune \<Rightarrow> fw_config \<Rightarrow> u64 \<Rightarrow> u32 \<times> autotune" where
  "mode_down at live now_ns =
     (let at = at\<lparr>au_up_count := 0\<rparr>
      in if \<not> at_below_all_lo at live then (au_mode at, at\<lparr>au_down_count := 0\<rparr>)
         else
           let at1 = at\<lparr>au_down_count := sat_inc (au_down_count at)\<rparr>
           in if au_mode_since_ns at \<noteq> 0 \<and> now_ns - au_mode_since_ns at < dwell_of at live then (au_mode at, at1)
              else if au_down_count at1 \<ge> tu_confirm_down (au_cfg at) then (au_mode at - 1, at1\<lparr>au_down_count := 0\<rparr>)
              else (au_mode at, at1))"

definition at_step_mode :: "autotune \<Rightarrow> fw_config \<Rightarrow> u64 \<Rightarrow> u32 \<times> autotune" where
  "at_step_mode at live now_ns =
     (let target = at_target_mode at now_ns; at = at\<lparr>au_target_mode := target\<rparr>
      in if au_pinned at then (au_mode at, at)
         else if au_mode at \<ge> FW_MODE_MONITOR_ONLY then (au_mode at, at)
         else if target > au_mode at then mode_up at
         else if target < au_mode at then mode_down at live now_ns
         else (au_mode at, at\<lparr>au_up_count := 0, au_down_count := 0\<rparr>))"

section \<open>Initial values\<close>

definition autotune_tunables_default :: at_tunables where
  "autotune_tunables_default = \<lparr>
     tu_win_ns = (\<lambda>w. case w of AT_W_SHORT \<Rightarrow> 10 * CALY_NSEC_PER_SEC | AT_W_MED \<Rightarrow> 60 * CALY_NSEC_PER_SEC
                     | AT_W_LONG \<Rightarrow> 900 * CALY_NSEC_PER_SEC),
     tu_min_tick_ns = 250 * CALY_NSEC_PER_MSEC, tu_warmup_ns = 60 * CALY_NSEC_PER_SEC,
     tu_heartbeat_ns = 60 * CALY_NSEC_PER_SEC, tu_hook_min_interval_ns = 5 * CALY_NSEC_PER_SEC,
     tu_lockdown_extra_dwell_ns = 300 * CALY_NSEC_PER_SEC, tu_ban_interval_ns = 2 * CALY_NSEC_PER_SEC,
     tu_metric_floor = (\<lambda>m. case m of AT_M_PPS \<Rightarrow> 50000 | AT_M_BPS \<Rightarrow> 12500000 | AT_M_SYN_PPS \<Rightarrow> 2000
        | AT_M_NEWCONN_PPS \<Rightarrow> 2000 | AT_M_UDP_PPS \<Rightarrow> 20000 | AT_M_ICMP_PPS \<Rightarrow> 1000 | AT_M_FRAG_PPS \<Rightarrow> 1000
        | AT_M_TCP_PPS \<Rightarrow> 50000 | AT_M_DROP_PPS \<Rightarrow> 5000 | AT_M_UNIQ_SRC \<Rightarrow> 5000 | AT_M_CONN_LEVEL \<Rightarrow> 20000
        | AT_M_PKT_SIZE \<Rightarrow> 0),
     tu_metric_mult = (\<lambda>m. case m of AT_M_PPS \<Rightarrow> 40 | AT_M_BPS \<Rightarrow> 40 | AT_M_SYN_PPS \<Rightarrow> 50
        | AT_M_NEWCONN_PPS \<Rightarrow> 50 | AT_M_UDP_PPS \<Rightarrow> 50 | AT_M_ICMP_PPS \<Rightarrow> 60 | AT_M_FRAG_PPS \<Rightarrow> 60
        | AT_M_TCP_PPS \<Rightarrow> 40 | AT_M_DROP_PPS \<Rightarrow> 60 | AT_M_UNIQ_SRC \<Rightarrow> 60 | AT_M_CONN_LEVEL \<Rightarrow> 25
        | AT_M_PKT_SIZE \<Rightarrow> 0),
     tu_confirm_up = 3, tu_confirm_down = 10, tu_sev_elevate = 20, tu_sev_attack = 50, tu_sev_lockdown = 85,
     tu_max_bans_per_tick = 32, tu_ban_min_drops = 1000, tu_ban_min_share_pct = 2, tu_srcmem_entries = 4096,
     tu_allow_lockdown = False, tu_allow_synproxy = True, tu_allow_amp_override = True, tu_allow_portscan_enable = True,
     tu_allow_drop_all_frags = False, tu_allow_icmp_policy = True, tu_allow_autoban = True, tu_dry_run = False,
     tu_alerts_enabled = True, tu_hook_timeout_s = 10, tu_alert_file = [], tu_hook_path = [], tu_webhook_url = [],
     tu_webhook_client = [], tu_node_id = ''calyanti''\<rparr>"

text \<open>The state as \<open>autotune_init\<close> clears it, with the tunables, the baseline and the mode it sets.\<close>

definition at_fresh :: "at_tunables \<Rightarrow> fw_config \<Rightarrow> fw_config \<Rightarrow> u32 \<Rightarrow> bool \<Rightarrow> at_srcmem list \<Rightarrow> autotune" where
  "at_fresh tu base applied mode pin mem = \<lparr>
     au_cfg = tu, au_base = base, au_applied = applied, au_have_base = True, au_have_applied = True,
     au_first_ts_ns = 0, au_last_ts_ns = 0, au_prev_gauge = (\<lambda>_. 0), au_have_prev_gauge = False,
     au_have_prev_stat = False, au_sample_count = 0, au_last_drop_delta = 0, au_last_dt_ns = 0, au_rate = (\<lambda>_. 0),
     au_track = (\<lambda>_. \<lparr>tr_ewma = (\<lambda>_. 0), tr_cur = 0, tr_peak = 0, tr_samples = 0, tr_anomalous = False\<rparr>),
     au_rtrack = (\<lambda>_. \<lparr>rt_prev = 0, rt_rate = 0, rt_ewma_short = 0, rt_ewma_long = 0\<rparr>),
     au_anom_mask = 0, au_severity = 0, au_class_mask = 0, au_primary_class = AT_C_SYN, au_class_score = (\<lambda>_. 0),
     au_abs_hi_mask = 0, au_mode = mode, au_target_mode = 0, au_pinned = pin, au_up_count = 0, au_down_count = 0,
     au_mode_since_ns = 0, au_attack_since_ns = 0, au_applied_class_mask = 0, au_applied_mode = mode,
     au_amp_touched = [], au_icmp4_echo_saved = 0, au_icmp6_echo_saved = 0, au_icmp4_echo_changed = False,
     au_icmp6_echo_changed = False, au_srcmem = mem, au_srcmem_used = 0, au_alert_fd = False, au_webhook_ok = False,
     au_webhook_client = [], au_last_hook_ns = 0, au_last_heartbeat_ns = 0, au_last_ban_pass_ns = 0,
     au_last_ban_pass_drops = 0, au_bans_issued = 0, au_bans_suppressed = 0, au_alerts_emitted = 0,
     au_alerts_failed = 0, au_config_pushes = 0, au_config_rejected = 0, au_ev_reason = (\<lambda>_. 0),
     au_abi_warned = False, au_init_done = True\<rparr>"

section \<open>Arithmetic facts\<close>

lemma unat_lt64: "unat (x :: u64) < 2 ^ 64"
  using unsigned_less [of x] by simp

lemma at_mul_div_unat:
  assumes "c \<noteq> 0"
  shows "unat (at_mul_div a b c) = (unat a * unat b div unat c) mod 2 ^ 64"
proof -
  have u: "unat a < 2 ^ 64" "unat b < 2 ^ 64" by (rule unat_lt64)+
  then have "unat a * unat b < 2 ^ 64 * 2 ^ 64" by (intro mult_strict_mono) auto
  moreover have "take_bit 128 (unat x) = unat x" for x :: u64
    using unat_lt64 [of x] by (simp add: take_bit_nat_eq_self)
  ultimately have "unat (ucast a * ucast b :: 128 word) = unat a * unat b"
    by (simp add: unat_word_ariths unsigned_ucast_eq)
  moreover have "unat (ucast c :: 128 word) = unat c"
    using unat_lt64 [of c] by (simp add: unsigned_ucast_eq take_bit_nat_eq_self)
  ultimately show ?thesis
    using assms by (simp add: at_mul_div_def unsigned_ucast_eq take_bit_eq_mod unat_div_distrib)
qed

lemma at_mul_div_le:
  assumes "c \<noteq> 0" "b \<le> c"
  shows "unat (at_mul_div a b c) = unat a * unat b div unat c" "at_mul_div a b c \<le> a"
proof -
  have "unat a * unat b \<le> unat a * unat c" using assms(2) by (simp add: word_le_nat_alt)
  then have l: "unat a * unat b div unat c \<le> unat a"
    using assms(1) by (metis div_le_mono nonzero_mult_div_cancel_right unat_eq_zero)
  with unat_lt64 [of a] show e: "unat (at_mul_div a b c) = unat a * unat b div unat c"
    by (simp add: at_mul_div_unat [OF assms(1)])
  show "at_mul_div a b c \<le> a" using l by (simp add: word_le_nat_alt e)
qed

text \<open>A moving average stays between the old value and the sample.\<close>

lemma at_ewma_between:
  assumes "tau < 2 ^ 63"
  shows "min cur sample \<le> at_ewma_step cur sample dt tau" "at_ewma_step cur sample dt tau \<le> max cur sample"
proof -
  have "at_ewma_step cur sample dt tau \<in> {min cur sample .. max cur sample}"
  proof (cases "tau = 0 \<or> dt \<ge> tau")
    case True
    then show ?thesis by (simp add: at_ewma_step_def)
  next
    case False
    then have "dt < tau" "dt < 2 ^ 63" using assms by auto
    then have s: "unat (tau + dt) = unat tau + unat dt"
      using assms by (simp add: unat_add_lem [symmetric] word_less_nat_alt)
    have d: "tau + dt \<noteq> 0" "dt \<le> tau + dt"
      using False s by (auto simp: word_le_nat_alt unat_eq_zero [symmetric])
    show ?thesis
    proof (cases "sample \<ge> cur")
      case True
      define x where "x = at_mul_div (sample - cur) dt (tau + dt)"
      have x: "x \<le> sample - cur" using at_mul_div_le(2) [OF d] by (simp add: x_def)
      then have "unat (cur + x) = unat cur + unat x"
        using True unat_lt64 [of sample] by (simp add: unat_add_lem [symmetric] word_le_nat_alt unat_sub)
      with x True have "cur \<le> cur + x" "cur + x \<le> sample"
        by (simp_all add: word_le_nat_alt unat_sub)
      then show ?thesis using False True by (simp add: at_ewma_step_def Let_def x_def)
    next
      case f: False
      define x where "x = at_mul_div (cur - sample) dt (tau + dt)"
      have x: "x \<le> cur - sample" using at_mul_div_le(2) [OF d] by (simp add: x_def)
      then have "unat (cur - x) = unat cur - unat x"
        using f by (intro unat_sub) (simp add: word_le_nat_alt unat_sub)
      with x f have "sample \<le> cur - x" "cur - x \<le> cur"
        by (simp_all add: word_le_nat_alt unat_sub)
      then show ?thesis using False f by (simp add: at_ewma_step_def Let_def x_def)
    qed
  qed
  then show "min cur sample \<le> at_ewma_step cur sample dt tau" "at_ewma_step cur sample dt tau \<le> max cur sample"
    by simp_all
qed

lemma word_gr_0_one: "v \<noteq> 0 \<Longrightarrow> 1 \<le> (v :: u64)"
  by (simp add: word_le_nat_alt Suc_le_eq unat_gt_0)

lemma word_zero_one: "\<not> 0 < f \<Longrightarrow> f \<le> (1 :: u64)"
  by (simp flip: word_neq_0_conv)

lemma at_scale_down_bounds:
  "at_scale_down v pct f \<le> v" "at_scale_down v pct f = 0 \<longleftrightarrow> v = 0" "v \<noteq> 0 \<Longrightarrow> min v f \<le> at_scale_down v pct f"
  using word_gr_0_one [of v] word_zero_one
  by (auto simp: at_scale_down_def Let_def min_def word_neq_0_conv split: if_splits)

lemma at_scale_up_bounds:
  "v \<le> at_scale_up v pct cap" "cap \<noteq> 0 \<Longrightarrow> at_scale_up v pct cap \<le> max v cap" "at_scale_up 0 pct cap = 0"
  by (auto simp: at_scale_up_def Let_def max_def split: if_splits)


section \<open>The synthesised configuration\<close>

lemma at_kind_pct_le: "at_kind_pct p cls k \<le> p"
proof -
  let ?g = "\<lambda>(c, k', q) pct. if k' \<noteq> k \<or> \<not> has_flag cls (AT_CLS_BIT c) then pct
             else let x = (p * q) div 100 in if x < pct then x else pct"
  have "fold ?g xs y \<le> y" for xs y
    by (induction xs arbitrary: y) (auto simp: Let_def intro: order_trans less_imp_le split: prod.splits)
  then show ?thesis by (simp add: at_kind_pct_def)
qed

text \<open>What is the same in the candidate and the baseline.\<close>

lemma build_limits_same:
  "same_sizing (build_limits b m cls) b" "cfg_mode (build_limits b m cls) = m"
  "cfg_mgmt_tcp_count (build_limits b m cls) = cfg_mgmt_tcp_count b"
  "cfg_mgmt_tcp_ports (build_limits b m cls) = cfg_mgmt_tcp_ports b"
  "cfg_mgmt_udp_count (build_limits b m cls) = cfg_mgmt_udp_count b"
  "cfg_mgmt_udp_ports (build_limits b m cls) = cfg_mgmt_udp_ports b"
  by (simp_all add: build_limits_def same_sizing_def Let_def)

definition ports_22 :: "fw_config \<Rightarrow> bool" where
  "ports_22 c \<longleftrightarrow> 0 < cfg_mgmt_tcp_count c \<and> cfg_mgmt_tcp_count c \<le> CALY_MGMT_PORTS_MAX \<and>
     22 \<in> set (take (unat (cfg_mgmt_tcp_count c)) (cfg_mgmt_tcp_ports c))"

lemma take_update_last: "n < length xs \<Longrightarrow> x \<in> set (take (Suc n) (xs[n := x]))"
  by (simp add: take_Suc_conv_app_nth)

lemma mgmt_add_22_ports:
  assumes "length ports = 16" "n \<le> CALY_MGMT_PORTS_MAX" "mgmt_add_22 n ports r = (n', ports', r')"
  shows "0 < n' \<and> n' \<le> CALY_MGMT_PORTS_MAX \<and> 22 \<in> set (take (unat n') ports')" "length ports' = 16"
proof -
  have u: "unat n \<le> 16" using assms(2) by (simp add: word_le_nat_alt)
  consider (there) "22 \<in> set (take (unat n) ports)" | (add) "22 \<notin> set (take (unat n) ports)" "n < 16"
    | (full) "22 \<notin> set (take (unat n) ports)" "n = 16"
    using assms(2) by fastforce
  then have "(0 < n' \<and> n' \<le> CALY_MGMT_PORTS_MAX \<and> 22 \<in> set (take (unat n') ports')) \<and> length ports' = 16"
  proof cases
    case there
    then have "n \<noteq> 0" by auto
    with there assms show ?thesis by (auto simp: mgmt_add_22_def word_neq_0_conv)
  next
    case add
    then have s: "unat n < 16" by (simp add: word_less_nat_alt)
    then have s1: "unat (n + 1) = Suc (unat n)" by (simp add: unat_word_ariths)
    then have "n + 1 \<noteq> 0" "0 < n + 1" "n + 1 \<le> 16" using s by (auto simp: word_le_nat_alt word_less_nat_alt)
    moreover have "22 \<in> set (take (unat (n + 1)) (ports[unat n := 22]))"
      unfolding s1 using s assms(1) by (intro take_update_last) simp
    ultimately show ?thesis
      using add assms(1,3) by (auto simp: mgmt_add_22_def)
  next
    case full
    have "22 \<in> set (take (Suc 15) (ports[15 := 22]))" using assms(1) by (intro take_update_last) simp
    with full assms(1,3) show ?thesis by (auto simp: mgmt_add_22_def)
  qed
  then show "0 < n' \<and> n' \<le> CALY_MGMT_PORTS_MAX \<and> 22 \<in> set (take (unat n') ports')" "length ports' = 16" by blast+
qed

text \<open>The repair changes the management lists only, ends with port 22 in the list, and leaves alone a list that
  has it.\<close>

lemma enforce_mgmt_cases:
  obtains n ps u where
    "fst (at_enforce_mgmt c) = c\<lparr>cfg_mgmt_tcp_ports := ps, cfg_mgmt_tcp_count := n, cfg_mgmt_udp_count := u\<rparr>"
    "length (cfg_mgmt_tcp_ports c) = 16 \<Longrightarrow> length ps = 16 \<and> ports_22 (fst (at_enforce_mgmt c))"
    "ports_22 c \<Longrightarrow> ps = cfg_mgmt_tcp_ports c \<and> n = cfg_mgmt_tcp_count c" "u \<le> CALY_MGMT_PORTS_MAX"
proof -
  define m where "m = (if cfg_mgmt_tcp_count c > 16 then mgmt_add_22 16 (cfg_mgmt_tcp_ports c) True
     else mgmt_add_22 (cfg_mgmt_tcp_count c) (cfg_mgmt_tcp_ports c) False)"
  obtain n ps r where m: "m = (n, ps, r)" by (cases m)
  define u where "u = (if cfg_mgmt_udp_count c > 16 then 16 else cfg_mgmt_udp_count c)"
  have eq: "fst (at_enforce_mgmt c) = c\<lparr>cfg_mgmt_tcp_ports := ps, cfg_mgmt_tcp_count := n, cfg_mgmt_udp_count := u\<rparr>"
    unfolding at_enforce_mgmt_def Let_def m_def [symmetric] m by (simp add: u_def)
  show thesis
  proof (rule that [OF eq])
    assume l: "length (cfg_mgmt_tcp_ports c) = 16"
    show "length ps = 16 \<and> ports_22 (fst (at_enforce_mgmt c))"
      using m l mgmt_add_22_ports [OF l, of 16 True n ps r] mgmt_add_22_ports [OF l, of "cfg_mgmt_tcp_count c" False n ps r]
      by (auto simp: m_def eq ports_22_def not_less split: if_splits)
  next
    assume "ports_22 c"
    then show "ps = cfg_mgmt_tcp_ports c \<and> n = cfg_mgmt_tcp_count c"
      using m by (auto simp: m_def ports_22_def mgmt_add_22_def split: if_splits)
  next
    show "u \<le> 16" by (auto simp: u_def)
  qed
qed


lemma has_flag_and_mask: "has_flag (w AND m) f \<longleftrightarrow> has_flag w (m AND f)"
  by (simp add: has_flag_def and.assoc)

lemma or_if_has [simp]: "has_flag (or_if b m f) x \<longleftrightarrow> has_flag f x \<or> b \<and> has_flag m x"
  by (auto simp: or_if_def)

lemma build_flags_operator:
  "f AND CALY_F_OPERATOR_MASK = f \<Longrightarrow> has_flag (cfg_flags base) f \<Longrightarrow> has_flag (build_flags tu base live mode cls) f"
  by (simp add: build_flags_def Let_def has_flag_and_mask and.commute)

text \<open>The flag that turns the filter on is neither set nor cleared.\<close>

lemma build_flags_enabled: "has_flag (build_flags tu base live mode cls) CALY_F_ENABLED \<longleftrightarrow> has_flag (cfg_flags base) CALY_F_ENABLED"
  by (simp add: build_flags_def Let_def has_flag_and_mask)

lemma and_one_flag: "(x :: u64) AND 1 = (if has_flag x 1 then 1 else 0)"
  by (simp add: has_flag_def and_one_eq mod_2_eq_odd)

lemma build_flags_lockdown:
  "has_flag (build_flags tu base live FW_MODE_LOCKDOWN cls) f"
  if "has_flag (CALY_F_ALLOWLIST OR CALY_F_MGMT_BYPASS_ALL OR CALY_F_LOCKDOWN_ICMP OR CALY_F_CONNTRACK OR CALY_F_DEFAULT_DENY) f"
  using that by (auto simp: build_flags_def Let_def)

lemma build_sane:
  assumes "mgmt_arrays (au_base at)"
    and "cfg_abi_version live = 0 \<or> drop_bit 16 (cfg_abi_version live) = CALY_ABI_VERSION_MAJOR"
  shows "at_config_sane (au_base at) (at_build_config at live mode cls)"
    and "caly_is_mgmt_tcp (at_build_config at live mode cls) 22" "mgmt_arrays (at_build_config at live mode cls)"
proof -
  define m where "m = (if mode \<ge> FW_MODE_MAX then FW_MODE_NORMAL else mode)"
  define o1 where "o1 = (build_limits (au_base at) m cls)\<lparr>
     cfg_abi_version := (if cfg_abi_version live \<noteq> 0 then cfg_abi_version live else CALY_ABI_VERSION),
     cfg_flags := build_flags (au_cfg at) (au_base at) live m cls, cfg_config_gen := cfg_config_gen live\<rparr>"
  have b: "at_build_config at live mode cls = fst (at_enforce_mgmt o1)"
    by (simp add: at_build_config_def o1_def m_def Let_def)
  have l: "length (cfg_mgmt_tcp_ports o1) = 16" using assms(1) by (simp add: o1_def build_limits_same mgmt_arrays_def)
  obtain n ps u where e: "fst (at_enforce_mgmt o1) = o1\<lparr>cfg_mgmt_tcp_ports := ps, cfg_mgmt_tcp_count := n, cfg_mgmt_udp_count := u\<rparr>"
    and p: "length ps = 16" "ports_22 (fst (at_enforce_mgmt o1))"
    using l by (rule_tac enforce_mgmt_cases [of o1]) auto
  have q: "ports_22 (at_build_config at live mode cls)" using p e by (simp add: b)
  show a: "mgmt_arrays (at_build_config at live mode cls)"
    unfolding b e using p(1) assms(1) by (simp add: mgmt_arrays_def o1_def build_limits_same)
  show "caly_is_mgmt_tcp (at_build_config at live mode cls) 22"
    unfolding mgmt_tcp_iff [OF a] using q by (simp add: ports_22_def)
  have ab: "drop_bit 16 CALY_ABI_VERSION = (1 :: u64)" by (simp add: CALY_ABI_VERSION_def)
  have al: "has_flag (build_flags (au_cfg at) (au_base at) live m cls) CALY_F_ALLOWLIST"
    if "has_flag (cfg_flags (au_base at)) CALY_F_ALLOWLIST" using that by (simp add: build_flags_operator)
  have lk: "has_flag (build_flags (au_cfg at) (au_base at) live 3 cls) (CALY_F_ALLOWLIST OR CALY_F_MGMT_BYPASS_ALL)"
    by (rule build_flags_lockdown) simp
  have sz: "same_sizing (fst (at_enforce_mgmt o1)) (au_base at)"
    using build_limits_same(1) [of "au_base at" m cls] unfolding e by (simp add: same_sizing_def o1_def)
  have m5: "\<not> 5 \<le> m" by (simp add: m_def)
  show "at_config_sane (au_base at) (at_build_config at live mode cls)"
    using q [unfolded b e ports_22_def] sz [unfolded e] assms(2) ab al lk m5
    unfolding at_config_sane_def b e
    by (auto simp: o1_def build_limits_same and_one_flag build_flags_enabled)
qed


text \<open>How the limits of a candidate compare with the baseline.\<close>

definition tightened :: "u64 \<Rightarrow> u64 \<Rightarrow> u64 \<Rightarrow> bool" where
  "tightened f b v \<longleftrightarrow> v \<le> b \<and> (v = 0 \<longleftrightarrow> b = 0) \<and> (b \<noteq> 0 \<longrightarrow> min b f \<le> v)"

lemma scale_down_tightened: "tightened f b (at_scale_down b p f)"
  using at_scale_down_bounds [where v = b and pct = p and f = f] by (auto simp: tightened_def)

lemma tightened_refl: "tightened f b b"
  by (simp add: tightened_def)

lemma build_sel:
  fixes at live mode cls and m :: u32 and l c :: fw_config
  defines "m \<equiv> (if mode \<ge> FW_MODE_MAX then FW_MODE_NORMAL else mode)" and "l \<equiv> build_limits (au_base at) m cls"
    and "c \<equiv> at_build_config at live mode cls"
  shows "cfg_tb_rate c = cfg_tb_rate l" "cfg_tb_burst c = cfg_tb_burst l" "cfg_syn_fallback_pps c = cfg_syn_fallback_pps l"
    and "cfg_ban_ttl_base_ns c = cfg_ban_ttl_base_ns l" "cfg_ban_ttl_max_ns c = cfg_ban_ttl_max_ns l"
    and "cfg_strike_limit c = cfg_strike_limit l" "cfg_ct_tcp_syn_ns c = cfg_ct_tcp_syn_ns l"
    and "cfg_ct_tcp_est_ns c = cfg_ct_tcp_est_ns l" "cfg_mode c = cfg_mode l"
    and "cfg_flags c = build_flags (au_cfg at) (au_base at) live m cls"
proof -
  define o1 where "o1 = l\<lparr>
     cfg_abi_version := (if cfg_abi_version live \<noteq> 0 then cfg_abi_version live else CALY_ABI_VERSION),
     cfg_flags := build_flags (au_cfg at) (au_base at) live m cls, cfg_config_gen := cfg_config_gen live\<rparr>"
  have c: "c = fst (at_enforce_mgmt o1)"
    by (simp add: c_def at_build_config_def o1_def m_def l_def Let_def)
  obtain n ps u where e: "fst (at_enforce_mgmt o1) = o1\<lparr>cfg_mgmt_tcp_ports := ps, cfg_mgmt_tcp_count := n, cfg_mgmt_udp_count := u\<rparr>"
    using enforce_mgmt_cases [of o1] by blast
  show "cfg_tb_rate c = cfg_tb_rate l" "cfg_tb_burst c = cfg_tb_burst l" "cfg_syn_fallback_pps c = cfg_syn_fallback_pps l"
    "cfg_ban_ttl_base_ns c = cfg_ban_ttl_base_ns l" "cfg_ban_ttl_max_ns c = cfg_ban_ttl_max_ns l"
    "cfg_strike_limit c = cfg_strike_limit l" "cfg_ct_tcp_syn_ns c = cfg_ct_tcp_syn_ns l"
    "cfg_ct_tcp_est_ns c = cfg_ct_tcp_est_ns l" "cfg_mode c = cfg_mode l"
    "cfg_flags c = build_flags (au_cfg at) (au_base at) live m cls"
    unfolding c e by (simp_all add: o1_def)
qed

lemma limits_tightened:
  "tightened (at_tb_rate_floor k) (cfg_tb_rate b k) (cfg_tb_rate (build_limits b m cls) k)"
  "tightened (at_tb_burst_floor k) (cfg_tb_burst b k) (cfg_tb_burst (build_limits b m cls) k)"
  "tightened 5000 (cfg_syn_fallback_pps b) (cfg_syn_fallback_pps (build_limits b m cls))"
  "tightened (2 * CALY_NSEC_PER_SEC) (cfg_ct_tcp_syn_ns b) (cfg_ct_tcp_syn_ns (build_limits b m cls))"
  "tightened (60 * CALY_NSEC_PER_SEC) (cfg_ct_tcp_est_ns b) (cfg_ct_tcp_est_ns (build_limits b m cls))"
  by (simp_all add: build_limits_def Let_def scale_down_tightened tightened_refl)

lemma limits_bans:
  "cfg_ban_ttl_base_ns b \<le> cfg_ban_ttl_base_ns (build_limits b m cls)"
  "cfg_ban_ttl_max_ns b \<noteq> 0 \<Longrightarrow>
     cfg_ban_ttl_base_ns (build_limits b m cls) \<le> max (cfg_ban_ttl_base_ns b) (cfg_ban_ttl_max_ns b)"
  "cfg_strike_limit (build_limits b m cls) \<le> cfg_strike_limit b" "min (cfg_strike_limit b) 2 \<le> cfg_strike_limit (build_limits b m cls)"
proof -
  have "b' div k \<le> b'" for b' k :: u32 by (simp add: word_le_nat_alt unat_div)
  then show "cfg_strike_limit (build_limits b m cls) \<le> cfg_strike_limit b"
    "min (cfg_strike_limit b) 2 \<le> cfg_strike_limit (build_limits b m cls)"
    by (auto simp: build_limits_def Let_def at_clamp32_def)
  show "cfg_ban_ttl_base_ns b \<le> cfg_ban_ttl_base_ns (build_limits b m cls)"
    by (simp add: build_limits_def Let_def at_scale_up_bounds)
  show "cfg_ban_ttl_max_ns b \<noteq> 0 \<Longrightarrow>
     cfg_ban_ttl_base_ns (build_limits b m cls) \<le> max (cfg_ban_ttl_base_ns b) (cfg_ban_ttl_max_ns b)"
    using at_scale_up_bounds(2) by (auto simp: build_limits_def Let_def)
qed


section \<open>The mode machine over a run\<close>

text \<open>What the mode machine looks at, besides its own state, and a run of it over a list of observations, as
  \<open>autotune_step\<close> drives it.\<close>

record at_obs =
  ob_severity :: u32
  ob_abs_hi_mask :: u32
  ob_rate :: "at_metric \<Rightarrow> u64"
  ob_sample_count :: u64
  ob_first_ts_ns :: u64
  ob_live :: fw_config
  ob_now :: u64

definition observe :: "at_obs \<Rightarrow> autotune \<Rightarrow> autotune" where
  "observe ob at = at\<lparr>au_severity := ob_severity ob, au_abs_hi_mask := ob_abs_hi_mask ob, au_rate := ob_rate ob,
     au_sample_count := ob_sample_count ob, au_first_ts_ns := ob_first_ts_ns ob\<rparr>"

definition set_mode :: "u32 \<Rightarrow> u64 \<Rightarrow> autotune \<Rightarrow> autotune" where
  "set_mode m now at = (if m \<noteq> au_mode at
     then at\<lparr>au_mode := m, au_mode_since_ns := now,
             au_attack_since_ns := (if m = FW_MODE_NORMAL then 0
               else if m > au_mode at \<and> au_attack_since_ns at = 0 then now else au_attack_since_ns at)\<rparr>
     else at)"

definition mode_step :: "at_obs \<Rightarrow> autotune \<Rightarrow> autotune" where
  "mode_step ob at = (let (m, at) = at_step_mode (observe ob at) (ob_live ob) (ob_now ob) in set_mode m (ob_now ob) at)"

abbreviation (input) mode_run :: "at_obs list \<Rightarrow> autotune \<Rightarrow> autotune" where
  "mode_run obs at \<equiv> fold mode_step obs at"

definition wants :: "at_tunables \<Rightarrow> at_obs \<Rightarrow> u32" where
  "wants tu ob =
     (let s = ob_severity ob;
          adaptive = (if ob_sample_count ob \<ge> 8 \<and> ob_first_ts_ns ob \<noteq> 0 \<and> ob_now ob - ob_first_ts_ns ob \<ge> tu_warmup_ns tu
                      then if s \<ge> tu_sev_lockdown tu then 3 else if s \<ge> tu_sev_attack tu then 2
                           else if s \<ge> tu_sev_elevate tu then 1 else 0
                      else 0);
          absolute = (if ob_abs_hi_mask ob \<noteq> 0 then 2 else 0)
      in min (max adaptive absolute) (if tu_allow_lockdown tu then 3 else 2))"

lemma target_wants: "at_target_mode (observe ob at) (ob_now ob) = wants (au_cfg at) ob"
  by (simp add: at_target_mode_def wants_def observe_def warmed_def Let_def)

lemma wants_le: "wants tu ob \<le> 3" "\<not> tu_allow_lockdown tu \<Longrightarrow> wants tu ob \<le> 2"
  by (simp_all add: wants_def Let_def)

text \<open>One step: how the mode and the two counters move.\<close>

text \<open>One step: how the mode and the two counters move.\<close>

definition counters :: "autotune \<Rightarrow> u32 \<times> u32 \<times> u32 \<times> u64" where
  "counters at = (au_mode at, au_up_count at, au_down_count at, au_mode_since_ns at)"

lemma counters_set_mode:
  "counters (set_mode m now at) = (m, au_up_count at, au_down_count at, if m \<noteq> au_mode at then now else au_mode_since_ns at)"
  by (simp add: counters_def set_mode_def)

lemma step_mode_split:
  assumes "\<not> au_pinned at" "au_mode at < FW_MODE_MONITOR_ONLY" "w = at_target_mode at now" "at1 = at\<lparr>au_target_mode := w\<rparr>"
  shows "at_step_mode at live now = (if au_mode at < w then mode_up at1 else if w < au_mode at then mode_down at1 live now
     else (au_mode at, at1\<lparr>au_up_count := 0, au_down_count := 0\<rparr>))"
proof -
  have "\<not> FW_MODE_MONITOR_ONLY \<le> au_mode at" using assms(2) by simp
  then show ?thesis
    unfolding at_step_mode_def Let_def assms(3) [symmetric] assms(4) [symmetric]
    using assms(1) by (simp add: assms(4))
qed

definition dwelt :: "autotune \<Rightarrow> at_obs \<Rightarrow> bool" where
  "dwelt at ob \<longleftrightarrow> au_mode_since_ns at \<noteq> 0 \<longrightarrow> ob_now ob - au_mode_since_ns at \<ge> dwell_of at (ob_live ob)"

lemma mode_step_cases:
  assumes "\<not> au_pinned at" "au_mode at < FW_MODE_MONITOR_ONLY"
  obtains (climb) "au_mode at < wants (au_cfg at) ob" "sat_inc (au_up_count at) \<ge> tu_confirm_up (au_cfg at)"
      "counters (mode_step ob at) = (au_mode at + 1, 0, 0, ob_now ob)"
  | (press) "au_mode at < wants (au_cfg at) ob" "\<not> sat_inc (au_up_count at) \<ge> tu_confirm_up (au_cfg at)"
      "counters (mode_step ob at) = (au_mode at, sat_inc (au_up_count at), 0, au_mode_since_ns at)"
  | (fall) "wants (au_cfg at) ob < au_mode at" "at_below_all_lo (observe ob at) (ob_live ob)" "dwelt at ob"
      "sat_inc (au_down_count at) \<ge> tu_confirm_down (au_cfg at)"
      "counters (mode_step ob at) = (au_mode at - 1, 0, 0, ob_now ob)"
  | (quiet) "wants (au_cfg at) ob < au_mode at" "at_below_all_lo (observe ob at) (ob_live ob)"
      "counters (mode_step ob at) = (au_mode at, 0, sat_inc (au_down_count at), au_mode_since_ns at)"
  | (stay) "\<not> au_mode at < wants (au_cfg at) ob" "counters (mode_step ob at) = (au_mode at, 0, 0, au_mode_since_ns at)"
proof -
  let ?w = "wants (au_cfg at) ob"
  define at1 where "at1 = (observe ob at)\<lparr>au_target_mode := ?w\<rparr>"
  have o: "au_pinned (observe ob at) = au_pinned at" "au_mode (observe ob at) = au_mode at"
    by (simp_all add: observe_def)
  have s: "au_up_count at1 = au_up_count at" "au_down_count at1 = au_down_count at" "au_cfg at1 = au_cfg at"
    "au_mode_since_ns at1 = au_mode_since_ns at" "au_mode at1 = au_mode at"
    by (simp_all add: at1_def observe_def)
  have b: "at_below_all_lo (at1\<lparr>au_up_count := n\<rparr>) live = at_below_all_lo (observe ob at) live" for n live
    by (simp add: at1_def at_below_all_lo_def)
  have dw: "dwell_of (at1\<lparr>au_up_count := n\<rparr>) live = dwell_of at live" for n live
    by (simp add: dwell_of_def s)
  have eq: "mode_step ob at = (let (m, a) = (if au_mode at < ?w then mode_up at1 else if ?w < au_mode at
       then mode_down at1 (ob_live ob) (ob_now ob) else (au_mode at, at1\<lparr>au_up_count := 0, au_down_count := 0\<rparr>))
     in set_mode m (ob_now ob) a)"
    using step_mode_split [of "observe ob at" ?w "ob_now ob" at1 "ob_live ob"] assms
    by (simp add: mode_step_def o target_wants at1_def)
  consider (up) "au_mode at < ?w" | (down) "?w < au_mode at" "\<not> au_mode at < ?w" | (same) "?w = au_mode at" by fastforce
  then show thesis
  proof cases
    case up
    then show thesis
      using climb press by (cases "sat_inc (au_up_count at) \<ge> tu_confirm_up (au_cfg at)")
        (simp_all add: eq mode_up_def Let_def counters_set_mode s)
  next
    case down
    then have eqd: "mode_step ob at = (let (m, a) = mode_down at1 (ob_live ob) (ob_now ob) in set_mode m (ob_now ob) a)"
      by (simp add: eq)
    have nw: "(au_mode_since_ns at \<noteq> 0 \<and> ob_now ob - au_mode_since_ns at < dwell_of at (ob_live ob)) = (\<not> dwelt at ob)"
      by (auto simp: dwelt_def)
    show thesis
      using stay [OF down(2)] fall [OF down(1)] quiet [OF down(1)]
      by (cases "at_below_all_lo (observe ob at) (ob_live ob)"; cases "dwelt at ob";
          cases "sat_inc (au_down_count at) \<ge> tu_confirm_down (au_cfg at)")
        (simp_all add: eqd mode_down_def Let_def counters_set_mode s b dw nw)
  next
    case same
    then show thesis using stay by (simp add: eq counters_set_mode s)
  qed
qed


lemma mode_step_wanted:
  assumes "\<not> au_pinned at" "au_mode at < FW_MODE_MONITOR_ONLY" "au_mode at < wants (au_cfg at) ob"
  shows "counters (mode_step ob at) =
     (if sat_inc (au_up_count at) \<ge> tu_confirm_up (au_cfg at) then (au_mode at + 1, 0, 0, ob_now ob)
      else (au_mode at, sat_inc (au_up_count at), 0, au_mode_since_ns at))"
  by (rule mode_step_cases [OF assms(1,2), of ob]) (use assms(3) in auto)

lemma mode_step_keeps [simp]: "au_pinned (mode_step ob at) = au_pinned at" "au_cfg (mode_step ob at) = au_cfg at"
proof -
  have u: "au_pinned (snd (mode_up a)) = au_pinned a \<and> au_cfg (snd (mode_up a)) = au_cfg a" for a
    by (simp add: mode_up_def Let_def)
  have d: "au_pinned (snd (mode_down a l n)) = au_pinned a \<and> au_cfg (snd (mode_down a l n)) = au_cfg a" for a l n
    by (simp add: mode_down_def Let_def)
  have "au_pinned (snd (at_step_mode a l n)) = au_pinned a \<and> au_cfg (snd (at_step_mode a l n)) = au_cfg a" for a l n
    unfolding at_step_mode_def Let_def by (simp add: u d)
  moreover have "au_pinned (observe ob at) = au_pinned at" "au_cfg (observe ob at) = au_cfg at" by (simp_all add: observe_def)
  ultimately show "au_pinned (mode_step ob at) = au_pinned at" "au_cfg (mode_step ob at) = au_cfg at"
    by (simp_all add: mode_step_def set_mode_def case_prod_beta)
qed

lemma mode_run_keeps [simp]: "au_pinned (mode_run obs at) = au_pinned at" "au_cfg (mode_run obs at) = au_cfg at"
  by (induction obs arbitrary: at) simp_all

definition is_quiet :: "at_obs \<Rightarrow> bool" where
  "is_quiet ob \<longleftrightarrow> at_below_all_lo (observe ob undefined) (ob_live ob)"

lemma below_quiet: "at_below_all_lo (observe ob at) (ob_live ob) = is_quiet ob"
  by (simp add: is_quiet_def at_below_all_lo_def observe_def)

lemma sat_inc_le: "unat (sat_inc n) \<le> unat n + 1"
  by (simp add: sat_inc_def unat_word_ariths)

abbreviation (input) suffix_all :: "nat \<Rightarrow> ('a \<Rightarrow> bool) \<Rightarrow> 'a list \<Rightarrow> bool" where
  "suffix_all k P xs \<equiv> k \<le> length xs \<and> (\<forall>x\<in>set (drop (length xs - k) xs). P x)"

lemma suffix_all_snoc: "suffix_all k P xs \<Longrightarrow> P x \<Longrightarrow> j \<le> Suc k \<Longrightarrow> suffix_all j P (xs @ [x])"
proof -
  assume a: "suffix_all k P xs" "P x" "j \<le> Suc k"
  have "set (drop (Suc (length xs) - j) xs) \<subseteq> set (drop (length xs - k) xs)"
    using a(3) by (intro set_drop_subset_set_drop) simp
  with a show ?thesis by (auto simp: Suc_diff_le dest: in_set_dropD)
qed

text \<open>While the mode does not change, the counters count the last observations that ask for the change.\<close>

lemma mode_run_counts:
  assumes "\<not> au_pinned at" "au_mode at < FW_MODE_MONITOR_ONLY" "au_up_count at = 0" "au_down_count at = 0"
    and "\<forall>n\<le>length obs. au_mode (mode_run (take n obs) at) = au_mode at"
  shows "suffix_all (unat (au_up_count (mode_run obs at))) (\<lambda>ob. au_mode at < wants (au_cfg at) ob) obs \<and>
         suffix_all (unat (au_down_count (mode_run obs at))) (\<lambda>ob. wants (au_cfg at) ob < au_mode at \<and> is_quiet ob) obs \<and>
         au_mode_since_ns (mode_run obs at) = au_mode_since_ns at"
  using assms(5)
proof (induction obs rule: rev_induct)
  case Nil
  then show ?case using assms(3,4) by simp
next
  case (snoc ob obs)
  let ?a = "mode_run obs at"
  have pre: "\<forall>n\<le>length obs. au_mode (mode_run (take n obs) at) = au_mode at"
  proof (intro allI impI)
    fix n assume "n \<le> length obs"
    then show "au_mode (mode_run (take n obs) at) = au_mode at" using snoc.prems [rule_format, of n] by simp
  qed
  note IH0 = snoc.IH [OF pre]
  note IH = IH0 [THEN conjunct1] IH0 [THEN conjunct2, THEN conjunct1] IH0 [THEN conjunct2, THEN conjunct2]
  have m: "au_mode ?a = au_mode at" using pre [rule_format, of "length obs"] by simp
  have m': "au_mode (mode_step ob ?a) = au_mode at" using snoc.prems [rule_format, of "Suc (length obs)"] by simp
  have np: "\<not> au_pinned ?a" "au_mode ?a < FW_MODE_MONITOR_ONLY" using assms(1,2) m by simp_all
  show ?case
  proof (rule mode_step_cases [OF np, of ob])
    assume "counters (mode_step ob ?a) = (au_mode ?a + 1, 0, 0, ob_now ob)"
    with m m' show ?thesis by (simp add: counters_def)
  next
    assume c: "au_mode ?a < wants (au_cfg ?a) ob" "\<not> tu_confirm_up (au_cfg ?a) \<le> sat_inc (au_up_count ?a)"
      "counters (mode_step ob ?a) = (au_mode ?a, sat_inc (au_up_count ?a), 0, au_mode_since_ns ?a)"
    have "suffix_all (unat (sat_inc (au_up_count ?a))) (\<lambda>ob. au_mode at < wants (au_cfg at) ob) (obs @ [ob])"
      by (rule suffix_all_snoc [OF IH(1)]) (use c m sat_inc_le in simp_all)
    then show ?thesis using IH(3) c m by (simp add: counters_def)
  next
    assume "counters (mode_step ob ?a) = (au_mode ?a - 1, 0, 0, ob_now ob)"
    with m m' show ?thesis by (simp add: counters_def)
  next
    assume c: "wants (au_cfg ?a) ob < au_mode ?a" "at_below_all_lo (observe ob ?a) (ob_live ob)"
      "counters (mode_step ob ?a) = (au_mode ?a, 0, sat_inc (au_down_count ?a), au_mode_since_ns ?a)"
    have "suffix_all (unat (sat_inc (au_down_count ?a))) (\<lambda>ob. wants (au_cfg at) ob < au_mode at \<and> is_quiet ob) (obs @ [ob])"
      by (rule suffix_all_snoc [OF IH(2)]) (use c m sat_inc_le in \<open>simp_all add: below_quiet\<close>)
    then show ?thesis using IH(3) c m by (simp add: counters_def)
  next
    assume "counters (mode_step ob ?a) = (au_mode ?a, 0, 0, au_mode_since_ns ?a)"
    then show ?thesis using IH(3) by (simp add: counters_def)
  qed
qed


section \<open>Properties\<close>

text \<open>A configuration \<open>c\<close> that tightens the baseline \<open>b\<close>, and one that keeps what the operator needs.\<close>

definition only_tightens :: "fw_config \<Rightarrow> fw_config \<Rightarrow> bool" where
  "only_tightens b c \<longleftrightarrow>
     (\<forall>k. tightened (at_tb_rate_floor k) (cfg_tb_rate b k) (cfg_tb_rate c k) \<and>
          tightened (at_tb_burst_floor k) (cfg_tb_burst b k) (cfg_tb_burst c k)) \<and>
     tightened 5000 (cfg_syn_fallback_pps b) (cfg_syn_fallback_pps c) \<and>
     tightened 2000000000 (cfg_ct_tcp_syn_ns b) (cfg_ct_tcp_syn_ns c) \<and>
     tightened 60000000000 (cfg_ct_tcp_est_ns b) (cfg_ct_tcp_est_ns c) \<and>
     min (cfg_strike_limit b) 2 \<le> cfg_strike_limit c \<and> cfg_strike_limit c \<le> cfg_strike_limit b \<and>
     cfg_ban_ttl_base_ns b \<le> cfg_ban_ttl_base_ns c \<and>
     (cfg_ban_ttl_max_ns b \<noteq> 0 \<longrightarrow> cfg_ban_ttl_base_ns c \<le> max (cfg_ban_ttl_base_ns b) (cfg_ban_ttl_max_ns b))"

definition keeps_access :: "fw_config \<Rightarrow> fw_config \<Rightarrow> bool" where
  "keeps_access b c \<longleftrightarrow>
     at_config_sane b c \<and> caly_is_mgmt_tcp c 22 \<and> mgmt_arrays c \<and>
     (\<forall>f. f AND CALY_F_OPERATOR_MASK = f \<and> has_flag (cfg_flags b) f \<longrightarrow> has_flag (cfg_flags c) f) \<and>
     (cfg_mode c = FW_MODE_LOCKDOWN \<longrightarrow>
        has_flag (cfg_flags c) CALY_F_ALLOWLIST \<and> has_flag (cfg_flags c) CALY_F_MGMT_BYPASS_ALL \<and>
        has_flag (cfg_flags c) CALY_F_CONNTRACK \<and> has_flag (cfg_flags c) CALY_F_LOCKDOWN_ICMP)"

lemma build_keeps_access:
  assumes "mgmt_arrays (au_base at)"
    and "cfg_abi_version live = 0 \<or> drop_bit 16 (cfg_abi_version live) = CALY_ABI_VERSION_MAJOR"
  shows "keeps_access (au_base at) (at_build_config at live mode cls)"
proof -
  let ?m = "if mode \<ge> FW_MODE_MAX then FW_MODE_NORMAL else mode"
  have "cfg_mode (at_build_config at live mode cls) = FW_MODE_LOCKDOWN \<Longrightarrow> ?m = 3"
    unfolding build_sel by (simp add: build_limits_same)
  then show ?thesis
    unfolding keeps_access_def using build_sane [OF assms, of mode cls]
    by (auto simp: build_sel(10) build_flags_operator build_flags_lockdown)
qed

text \<open>C15. The synthesised configuration only tightens, and never to nothing: every token bucket, the SYN fallback
  cap and the connection timeouts are at most the operator's value, at least its floor (or the operator's
  value when that is lower) and zero only when the operator's is; the strike limit stays between two and the
  operator's; a ban gets longer, but not longer than the operator's maximum.\<close>

theorem tuning_keeps_floors: "only_tightens (au_base at) (at_build_config at live mode cls)"
  unfolding only_tightens_def build_sel
  by (simp add: limits_tightened [simplified] limits_bans)

text \<open>C14. The mode does not flap: in a run that starts with fresh counters in a mode the module drives, the first
  change of mode is by one rung.  A climb is preceded by \<open>confirm_up\<close> consecutive observations that ask for
  more; a descent by \<open>confirm_down\<close> consecutive ones that ask for less with all traffic below the operator's
  low marks, and the operator's dwell time has passed since the mode was entered.\<close>

theorem mode_change_confirmed:
  assumes "\<not> au_pinned at" "au_mode at < FW_MODE_MONITOR_ONLY" "au_up_count at = 0" "au_down_count at = 0"
    and "\<forall>n\<le>length obs. au_mode (mode_run (take n obs) at) = au_mode at"
    and "au_mode (mode_run (obs @ [ob]) at) \<noteq> au_mode at"
  shows "(au_mode (mode_run (obs @ [ob]) at) = au_mode at + 1 \<and>
            suffix_all (unat (tu_confirm_up (au_cfg at))) (\<lambda>ob. au_mode at < wants (au_cfg at) ob) (obs @ [ob])) \<or>
         (au_mode (mode_run (obs @ [ob]) at) = au_mode at - 1 \<and>
            suffix_all (unat (tu_confirm_down (au_cfg at))) (\<lambda>ob. wants (au_cfg at) ob < au_mode at \<and> is_quiet ob) (obs @ [ob]) \<and>
            dwelt at ob)"
proof -
  let ?a = "mode_run obs at"
  note r0 = mode_run_counts [OF assms(1-5)]
  note r = r0 [THEN conjunct1] r0 [THEN conjunct2, THEN conjunct1] r0 [THEN conjunct2, THEN conjunct2]
  have m: "au_mode ?a = au_mode at" using assms(5) [rule_format, of "length obs"] by simp
  have np: "\<not> au_pinned ?a" "au_mode ?a < FW_MODE_MONITOR_ONLY" using assms(1,2) m by simp_all
  have dw: "dwelt ?a ob = dwelt at ob" using r(3) m by (simp add: dwelt_def dwell_of_def)
  have ch: "au_mode (mode_step ob ?a) \<noteq> au_mode ?a" using assms(6) m by simp
  show ?thesis
  proof (rule mode_step_cases [OF np, of ob])
    assume c: "au_mode ?a < wants (au_cfg ?a) ob" "tu_confirm_up (au_cfg ?a) \<le> sat_inc (au_up_count ?a)"
      "counters (mode_step ob ?a) = (au_mode ?a + 1, 0, 0, ob_now ob)"
    have "suffix_all (unat (tu_confirm_up (au_cfg at))) (\<lambda>ob. au_mode at < wants (au_cfg at) ob) (obs @ [ob])"
      by (rule suffix_all_snoc [OF r(1)]) (use c m sat_inc_le [of "au_up_count ?a"] in \<open>simp_all add: word_le_nat_alt\<close>)
    then show ?thesis using c m by (simp add: counters_def)
  next
    assume c: "wants (au_cfg ?a) ob < au_mode ?a" "at_below_all_lo (observe ob ?a) (ob_live ob)" "dwelt ?a ob"
      "tu_confirm_down (au_cfg ?a) \<le> sat_inc (au_down_count ?a)"
      "counters (mode_step ob ?a) = (au_mode ?a - 1, 0, 0, ob_now ob)"
    have "suffix_all (unat (tu_confirm_down (au_cfg at))) (\<lambda>ob. wants (au_cfg at) ob < au_mode at \<and> is_quiet ob) (obs @ [ob])"
      by (rule suffix_all_snoc [OF r(2)])
        (use c m sat_inc_le [of "au_down_count ?a"] in \<open>simp_all add: word_le_nat_alt below_quiet\<close>)
    then show ?thesis using c m dw by (simp add: counters_def)
  qed (use ch in \<open>simp_all add: counters_def\<close>)
qed


definition wit_at :: autotune where
  "wit_at = at_fresh autotune_tunables_default caly_conf_set_defaults caly_conf_set_defaults FW_MODE_NORMAL False []"

definition wit_ob :: at_obs where
  "wit_ob = \<lparr>ob_severity = 60, ob_abs_hi_mask = 1, ob_rate = (\<lambda>_. 0), ob_sample_count = 1, ob_first_ts_ns = 1,
     ob_live = caly_conf_set_defaults, ob_now = 5\<rparr>"

lemma wit_run:
  "counters wit_at = (0, 0, 0, 0)" "counters (mode_run [wit_ob] wit_at) = (0, 1, 0, 0)"
  "counters (mode_run [wit_ob, wit_ob] wit_at) = (0, 2, 0, 0)"
  "counters (mode_run [wit_ob, wit_ob, wit_ob] wit_at) = (1, 0, 0, 5)"
proof -
  have w: "\<not> au_pinned wit_at" "tu_confirm_up (au_cfg wit_at) = 3" "0 < wants (au_cfg wit_at) wit_ob" "ob_now wit_ob = 5"
    "\<not> (3 :: u32) \<le> 1" "\<not> (3 :: u32) \<le> 2"
    by (simp_all add: word_le_nat_alt wit_at_def at_fresh_def autotune_tunables_default_def wit_ob_def wants_def Let_def)
  have r: "\<not> au_pinned (mode_run obs wit_at)" "au_cfg (mode_run obs wit_at) = au_cfg wit_at" for obs
    using w(1) by simp_all
  show 0: "counters wit_at = (0, 0, 0, 0)" by (simp add: wit_at_def at_fresh_def counters_def)
  show 1: "counters (mode_run [wit_ob] wit_at) = (0, 1, 0, 0)"
    using mode_step_wanted [OF r(1), of "[]" wit_ob] 0 w r(2) [of "[]"] by (simp add: counters_def sat_inc_def)
  show 2: "counters (mode_run [wit_ob, wit_ob] wit_at) = (0, 2, 0, 0)"
    using mode_step_wanted [OF r(1), of "[wit_ob]" wit_ob] 1 w r(2) [of "[wit_ob]"] by (simp add: counters_def sat_inc_def)
  show "counters (mode_run [wit_ob, wit_ob, wit_ob] wit_at) = (1, 0, 0, 5)"
    using mode_step_wanted [OF r(1), of "[wit_ob, wit_ob]" wit_ob] 2 w r(2) [of "[wit_ob, wit_ob]"]
    by (simp add: counters_def sat_inc_def)
qed

theorem mode_change_confirmed_witness:
  "au_mode (mode_run [wit_ob, wit_ob, wit_ob] wit_at) = 1 \<and>
   list_all (\<lambda>ob. au_mode wit_at < wants (au_cfg wit_at) ob) [wit_ob, wit_ob, wit_ob]"
proof -
  have w: "\<not> au_pinned wit_at" "au_mode wit_at = 0" "au_up_count wit_at = 0" "au_down_count wit_at = 0"
    "tu_confirm_up (au_cfg wit_at) = 3"
    by (simp_all add: wit_at_def at_fresh_def autotune_tunables_default_def)
  have "\<forall>n\<le>length [wit_ob, wit_ob]. au_mode (mode_run (take n [wit_ob, wit_ob]) wit_at) = au_mode wit_at"
  proof (intro allI impI)
    fix n assume "n \<le> length [wit_ob, wit_ob]"
    then consider "n = 0" | "n = 1" | "n = 2" by fastforce
    then show "au_mode (mode_run (take n [wit_ob, wit_ob]) wit_at) = au_mode wit_at"
      using wit_run w by cases (simp_all add: counters_def)
  qed
  from mode_change_confirmed [OF w(1) _ w(3,4) this, of wit_ob] show ?thesis
    using wit_run(4) w by (simp add: counters_def)
qed

end
