(* ===== verification/Caly_Autotune.thy ===== *)
theory Caly_Autotune
  imports Caly_Tune Caly_Json
begin

text \<open>
  The controller of \<open>src/user/autotune.c\<close>: pushing a configuration, the temporary port and ICMP policies, the
  memory of offending sources, automatic bans, alerts, and the entry points (\<open>autotune_init\<close>,
  \<open>autotune_step\<close>, \<open>autotune_tick\<close>, the operator's overrides).

  The callbacks of \<open>struct at_ops\<close>, through which the module reads and writes everything outside itself, are an
  argument: functions on the state \<open>'w\<close> behind \<open>ctx\<close>, with \<^term>\<open>None\<close> for a null pointer.  A callback that only
  reads does not change that state.  Files and processes answer through \<open>at_io\<close>; the text of an alert is not
  modelled.  A step whose source memory is accessed outside the array has the result \<^term>\<open>None\<close>.
\<close>

section \<open>Addresses, callbacks\<close>

record at_addr =
  aa_family :: u32
  aa_a :: quad

record at_offender =
  of_addr :: at_addr
  of_st :: src_stats
  of_drops_delta :: u64
  of_pkts_delta :: u64
  of_share_pct :: u32

record at_banrec =
  br_addr :: at_addr
  br_ttl_ns :: u64
  br_drops :: u64
  br_offences :: u32
  br_reason :: u32

text \<open>Whether a write to the alert file succeeds, whether a path is a regular executable file that is not
  writable for everyone, whether a process can be started, whether a file can be opened, and whether the
  source memory can be allocated.\<close>

record at_io =
  io_write_ok :: bool
  io_exec :: "string \<Rightarrow> bool"
  io_spawn :: "string list \<Rightarrow> bool"
  io_open :: "string \<Rightarrow> bool"
  io_calloc :: bool

record 'w at_ops =
  op_config_read :: "'w \<Rightarrow> int + fw_config"
  op_config_write :: "(fw_config \<Rightarrow> 'w \<Rightarrow> int \<times> 'w) option"
  op_gauges_read :: "'w \<Rightarrow> int + (caly_gauge \<Rightarrow> u64)"
  op_stats_read :: "('w \<Rightarrow> (u32 \<Rightarrow> u64) option) option"
  op_conn_count :: "('w \<Rightarrow> u64 option) option"
  op_unique_sources :: "('w \<Rightarrow> u64 option \<times> 'w) option"
  op_top_offenders :: "('w \<Rightarrow> at_offender list) option"
  op_ban_lookup :: "('w \<Rightarrow> at_addr \<Rightarrow> ban_entry option) option"
  op_ban_add :: "(at_addr \<Rightarrow> ban_entry \<Rightarrow> 'w \<Rightarrow> bool \<times> 'w) option"
  op_is_allowlisted :: "('w \<Rightarrow> at_addr \<Rightarrow> int) option"
  op_port_rule_get :: "('w \<Rightarrow> bool \<Rightarrow> u16 \<Rightarrow> port_rule option) option"
  op_port_rule_set :: "(bool \<Rightarrow> u16 \<Rightarrow> port_rule \<Rightarrow> 'w \<Rightarrow> bool \<times> 'w) option"
  op_icmp_pol_get :: "('w \<Rightarrow> bool \<Rightarrow> u8 \<Rightarrow> u32 option) option"
  op_icmp_pol_set :: "(bool \<Rightarrow> u8 \<Rightarrow> u32 \<Rightarrow> 'w \<Rightarrow> bool \<times> 'w) option"
  op_io :: "'w \<Rightarrow> at_io"

abbreviation (input) RC_INVAL :: int where "RC_INVAL \<equiv> - 22"
abbreviation (input) RC_NOSYS :: int where "RC_NOSYS \<equiv> - 38"
abbreviation (input) RC_PROTO :: int where "RC_PROTO \<equiv> - 71"
abbreviation (input) AT_SRCMEM_PROBE :: nat where "AT_SRCMEM_PROBE \<equiv> 8"
abbreviation (input) AT_SRCMEM_MIN :: u32 where "AT_SRCMEM_MIN \<equiv> 256"
abbreviation (input) AT_SRCMEM_MAX :: u32 where "AT_SRCMEM_MAX \<equiv> 262144"
abbreviation (input) AT_TOP_MAX :: nat where "AT_TOP_MAX \<equiv> 64"
abbreviation (input) AT_ALERT_BANS_MAX :: nat where "AT_ALERT_BANS_MAX \<equiv> 16"
abbreviation (input) CALY_ICMP4_ECHO :: u8 where "CALY_ICMP4_ECHO \<equiv> 8"
abbreviation (input) CALY_ICMP6_ECHO_REQUEST :: u8 where "CALY_ICMP6_ECHO_REQUEST \<equiv> 128"

section \<open>Names\<close>

fun at_class_str :: "at_class \<Rightarrow> string" where
  "at_class_str AT_C_SYN = ''syn_flood''" | "at_class_str AT_C_ACK = ''ack_flood''" | "at_class_str AT_C_UDP = ''udp_flood''"
| "at_class_str AT_C_AMP = ''amplification''" | "at_class_str AT_C_ICMP = ''icmp_flood''"
| "at_class_str AT_C_FRAG = ''fragment_flood''" | "at_class_str AT_C_CONN_EXH = ''conn_exhaustion''"
| "at_class_str AT_C_SLOWLORIS = ''slowloris''" | "at_class_str AT_C_PORTSCAN = ''portscan''"
| "at_class_str AT_C_VOLUMETRIC = ''volumetric''"

datatype at_event_kind = AT_EV_MODE_UP | AT_EV_MODE_DOWN | AT_EV_ATTACK | AT_EV_CLEAR | AT_EV_BAN | AT_EV_HEARTBEAT | AT_EV_ERROR

fun at_event_str :: "at_event_kind \<Rightarrow> string" where
  "at_event_str AT_EV_MODE_UP = ''mode_escalate''" | "at_event_str AT_EV_MODE_DOWN = ''mode_deescalate''"
| "at_event_str AT_EV_ATTACK = ''attack''" | "at_event_str AT_EV_CLEAR = ''clear''" | "at_event_str AT_EV_BAN = ''ban''"
| "at_event_str AT_EV_HEARTBEAT = ''heartbeat''" | "at_event_str AT_EV_ERROR = ''error''"

section \<open>Alerts\<close>

fun strstr :: "string \<Rightarrow> string \<Rightarrow> bool" where
  "strstr [] pat = (pat = [])"
| "strstr (c # cs) pat = (take (length pat) (c # cs) = pat \<or> strstr cs pat)"

definition at_execpath_ok :: "at_io \<Rightarrow> string \<Rightarrow> bool" where
  "at_execpath_ok io p \<longleftrightarrow> take 1 p = ''/'' \<and> \<not> length p \<ge> 250 \<and> \<not> strstr p ''/../'' \<and> io_exec io p"

definition url_allowed :: string where
  "url_allowed = ''ABCDEFGHIJKLMNOPQRSTUVWXYZabcdefghijklmnopqrstuvwxyz0123456789-._~:/?#[]@!$&'' @ [CHR 0x27] @ ''()*+,;=%''"

definition at_url_ok :: "string \<Rightarrow> bool" where
  "at_url_ok u \<longleftrightarrow> \<not> (length u < 8 \<or> length u \<ge> 1000) \<and> (take 7 u = ''http://'' \<or> take 8 u = ''https://'') \<and>
     (\<forall>c\<in>set u. \<not> (of_char c \<le> (0x20 :: nat) \<or> of_char c \<ge> (0x7F :: nat)) \<and> c \<in> set url_allowed)"

definition hook_argv :: "autotune \<Rightarrow> at_event_kind \<Rightarrow> string list" where
  "hook_argv at kind =
     [tu_hook_path (au_cfg at), ''--event'', at_event_str kind, ''--mode'', fw_mode_str (au_mode at), ''--class'',
      if au_class_mask at \<noteq> 0 then at_class_str (au_primary_class at) else ''none'', ''--severity'',
      sb_u64 (ucast (au_severity at))]"

definition webhook_argv :: "autotune \<Rightarrow> string list" where
  "webhook_argv at =
     [au_webhook_client at, ''-sS'', ''--max-time'',
      sb_u64 (ucast (if tu_hook_timeout_s (au_cfg at) \<noteq> 0 then tu_hook_timeout_s (au_cfg at) else 10)),
      ''-X'', ''POST'', ''-H'', ''Content-Type: application/json'', ''--data-binary'', ''@-'', tu_webhook_url (au_cfg at)]"

definition alert_fail :: "autotune \<Rightarrow> autotune" where
  "alert_fail at = at\<lparr>au_alerts_failed := au_alerts_failed at + 1\<rparr>"

definition at_hook_fire :: "at_io \<Rightarrow> at_event_kind \<Rightarrow> u64 \<Rightarrow> autotune \<Rightarrow> autotune" where
  "at_hook_fire io kind now_ns at =
     (let cfg = au_cfg at in
      if \<not> tu_alerts_enabled cfg then at
      else if tu_hook_path cfg = [] \<and> tu_webhook_url cfg = [] then at
      else if au_last_hook_ns at \<noteq> 0 \<and> now_ns - au_last_hook_ns at < tu_hook_min_interval_ns cfg then at
      else
        let at = at\<lparr>au_last_hook_ns := now_ns\<rparr>;
            at = (if tu_hook_path cfg \<noteq> [] then
                    if \<not> at_execpath_ok io (tu_hook_path cfg) then alert_fail at
                    else if \<not> io_spawn io (hook_argv at kind) then alert_fail at else at
                  else at)
        in if au_webhook_ok at \<and> tu_webhook_url cfg \<noteq> [] \<and> \<not> io_spawn io (webhook_argv at) then alert_fail at else at)"

definition at_alert_sink_open :: "at_io \<Rightarrow> autotune \<Rightarrow> autotune" where
  "at_alert_sink_open io at =
     (let f = tu_alert_file (au_cfg at)
      in at\<lparr>au_alert_fd := (tu_alerts_enabled (au_cfg at) \<and> f \<noteq> [] \<and> (f = ''-'' \<or> take 1 f = ''/'' \<and> io_open io f))\<rparr>)"

definition at_webhook_probe :: "at_io \<Rightarrow> autotune \<Rightarrow> autotune" where
  "at_webhook_probe io at =
     (let cfg = au_cfg at;
          no = at\<lparr>au_webhook_ok := False, au_webhook_client := []\<rparr>;
          yes = (\<lambda>c. at\<lparr>au_webhook_ok := True, au_webhook_client := c\<rparr>)
      in if \<not> tu_alerts_enabled cfg \<or> tu_webhook_url cfg = [] then no
         else if \<not> at_url_ok (tu_webhook_url cfg) then no
         else if tu_webhook_client cfg \<noteq> [] then
           if at_execpath_ok io (tu_webhook_client cfg) then yes (tu_webhook_client cfg) else no
         else (case find (at_execpath_ok io) [''/usr/bin/curl'', ''/bin/curl'', ''/usr/local/bin/curl''] of
                 Some c \<Rightarrow> yes c | None \<Rightarrow> no))"

definition at_emit_alert :: "at_io \<Rightarrow> at_event_kind \<Rightarrow> u64 \<Rightarrow> autotune \<Rightarrow> autotune" where
  "at_emit_alert io kind now_ns at =
     (if \<not> tu_alerts_enabled (au_cfg at) then at
      else
        let at = (if au_alert_fd at \<and> \<not> io_write_ok io then alert_fail at else at);
            at = at_hook_fire io kind now_ns at
        in at\<lparr>au_alerts_emitted := au_alerts_emitted at + 1\<rparr>)"

section \<open>Writing the configuration\<close>

definition reject :: "autotune \<Rightarrow> autotune" where
  "reject at = at\<lparr>au_config_rejected := au_config_rejected at + 1\<rparr>"

definition at_push_config :: "'w at_ops \<Rightarrow> fw_config \<Rightarrow> u32 \<Rightarrow> u32 \<Rightarrow> autotune \<Rightarrow> 'w \<Rightarrow> int \<times> autotune \<times> 'w" where
  "at_push_config ops live mode cls at w =
     (let cand = at_build_config at live mode cls
      in if \<not> at_config_sane (au_base at) cand then (RC_INVAL, reject at, w)
         else if au_have_applied at \<and> at_config_equal cand (au_applied at) then (0, at, w)
         else
           let cand = cand\<lparr>cfg_config_gen := cfg_config_gen live + 1\<rparr>;
               done = at\<lparr>au_applied := cand, au_have_applied := True, au_config_pushes := au_config_pushes at + 1\<rparr>
           in if tu_dry_run (au_cfg at) then (0, done, w)
              else (case op_config_write ops of
                      None \<Rightarrow> (RC_NOSYS, reject at, w)
                    | Some write \<Rightarrow>
                        (case write cand w of
                           (rc, w) \<Rightarrow> if rc \<noteq> 0 then (rc, reject at, w) else (0, done, w))))"

section \<open>Temporary policies\<close>

definition amp_engage_one ::
  "(bool \<Rightarrow> u16 \<Rightarrow> port_rule \<Rightarrow> 'w \<Rightarrow> bool \<times> 'w) \<Rightarrow> ('w \<Rightarrow> bool \<Rightarrow> u16 \<Rightarrow> port_rule option) \<Rightarrow> u16 \<Rightarrow>
   autotune \<times> 'w \<Rightarrow> autotune \<times> 'w" where
  "amp_engage_one set_rule get_rule p = (\<lambda>(at, w).
     case get_rule w True p of
       None \<Rightarrow> (at, w)
     | Some pr \<Rightarrow>
         if has_flag (pr_flags pr) CALY_PORT_F_AMPLIFIER \<or> has_flag (pr_flags pr) CALY_PORT_F_MGMT then (at, w)
         else
           let pr = pr\<lparr>pr_flags := pr_flags pr OR CALY_PORT_F_AMPLIFIER\<rparr>;
               touch = at\<lparr>au_amp_touched := au_amp_touched at @ [p]\<rparr>;
               (ok, w) = (if tu_dry_run (au_cfg at) then (True, w) else set_rule True p pr w)
           in (if ok \<and> length (au_amp_touched at) < length CALY_AMP_PORTS then touch else at, w))"

definition amp_restore_one ::
  "(bool \<Rightarrow> u16 \<Rightarrow> port_rule \<Rightarrow> 'w \<Rightarrow> bool \<times> 'w) \<Rightarrow> ('w \<Rightarrow> bool \<Rightarrow> u16 \<Rightarrow> port_rule option) \<Rightarrow> bool \<Rightarrow> u16 \<Rightarrow> 'w \<Rightarrow> 'w" where
  "amp_restore_one set_rule get_rule dry p w =
     (case get_rule w True p of
        None \<Rightarrow> w
      | Some pr \<Rightarrow>
          if dry then w else snd (set_rule True p (pr\<lparr>pr_flags := pr_flags pr AND NOT CALY_PORT_F_AMPLIFIER\<rparr>) w))"

definition at_amp_apply :: "'w at_ops \<Rightarrow> bool \<Rightarrow> autotune \<times> 'w \<Rightarrow> autotune \<times> 'w" where
  "at_amp_apply ops engage = (\<lambda>(at, w).
     if \<not> tu_allow_amp_override (au_cfg at) then (at, w)
     else (case (op_port_rule_get ops, op_port_rule_set ops) of
             (Some get_rule, Some set_rule) \<Rightarrow>
               if engage then
                 if au_amp_touched at \<noteq> [] then (at, w)
                 else fold (amp_engage_one set_rule get_rule) (map ucast CALY_AMP_PORTS) (at, w)
               else (at\<lparr>au_amp_touched := []\<rparr>,
                     fold (amp_restore_one set_rule get_rule (tu_dry_run (au_cfg at))) (au_amp_touched at) w)
           | _ \<Rightarrow> (at, w)))"

text \<open>The echo policy of one family: what was saved, whether it was changed, and the world.\<close>

definition icmp_engage ::
  "(bool \<Rightarrow> u8 \<Rightarrow> u32 \<Rightarrow> 'w \<Rightarrow> bool \<times> 'w) \<Rightarrow> ('w \<Rightarrow> bool \<Rightarrow> u8 \<Rightarrow> u32 option) \<Rightarrow> bool \<Rightarrow> bool \<Rightarrow> u8 \<Rightarrow>
   u32 \<times> bool \<times> 'w \<Rightarrow> u32 \<times> bool \<times> 'w" where
  "icmp_engage set_pol get_pol dry v6 type = (\<lambda>(saved, changed, w).
     if changed then (saved, changed, w)
     else (case get_pol w v6 type of
             None \<Rightarrow> (saved, changed, w)
           | Some pol \<Rightarrow>
               if pol = CALY_ICMP_PASS
               then (let (ok, w) = (if dry then (True, w) else set_pol v6 type CALY_ICMP_RATELIMIT w) in (pol, ok, w))
               else (saved, changed, w)))"

definition icmp_restore ::
  "(bool \<Rightarrow> u8 \<Rightarrow> u32 \<Rightarrow> 'w \<Rightarrow> bool \<times> 'w) \<Rightarrow> bool \<Rightarrow> bool \<Rightarrow> u8 \<Rightarrow> u32 \<times> bool \<times> 'w \<Rightarrow> u32 \<times> bool \<times> 'w" where
  "icmp_restore set_pol dry v6 type = (\<lambda>(saved, changed, w).
     if changed then (saved, False, if dry then w else snd (set_pol v6 type saved w)) else (saved, changed, w))"

definition at_icmp_apply :: "'w at_ops \<Rightarrow> bool \<Rightarrow> autotune \<times> 'w \<Rightarrow> autotune \<times> 'w" where
  "at_icmp_apply ops engage = (\<lambda>(at, w).
     if \<not> tu_allow_icmp_policy (au_cfg at) then (at, w)
     else (case (op_icmp_pol_get ops, op_icmp_pol_set ops) of
             (Some get_pol, Some set_pol) \<Rightarrow>
               let dry = tu_dry_run (au_cfg at);
                   f = (\<lambda>v6 t. if engage then icmp_engage set_pol get_pol dry v6 t else icmp_restore set_pol dry v6 t);
                   (s4, c4, w) = f False CALY_ICMP4_ECHO (au_icmp4_echo_saved at, au_icmp4_echo_changed at, w);
                   (s6, c6, w) = f True CALY_ICMP6_ECHO_REQUEST (au_icmp6_echo_saved at, au_icmp6_echo_changed at, w)
               in (at\<lparr>au_icmp4_echo_saved := s4, au_icmp4_echo_changed := c4,
                      au_icmp6_echo_saved := s6, au_icmp6_echo_changed := c6\<rparr>, w)
           | _ \<Rightarrow> (at, w)))"

definition at_side_policy :: "'w at_ops \<Rightarrow> u32 \<Rightarrow> u32 \<Rightarrow> autotune \<times> 'w \<Rightarrow> autotune \<times> 'w" where
  "at_side_policy ops mode cls x =
     at_icmp_apply ops (at_active mode \<and> has_flag cls (AT_CLS_BIT AT_C_ICMP))
       (at_amp_apply ops (at_active mode \<and> has_flag cls (AT_CLS_BIT AT_C_AMP)) x)"

section \<open>The memory of offending sources\<close>

fun quad_zero :: "quad \<Rightarrow> bool" where
  "quad_zero (Quad a b c d) = (a OR b OR c OR d = 0)"

fun quad_first :: "quad \<Rightarrow> u32" where
  "quad_first (Quad a b c d) = a"

definition at_addr_valid :: "at_addr \<Rightarrow> bool" where
  "at_addr_valid a =
     (if aa_family a = CALY_AF_INET then quad_first (aa_a a) \<noteq> 0
      else if aa_family a = CALY_AF_INET6 then \<not> quad_zero (aa_a a)
      else False)"

fun srcmem_mix :: "quad \<Rightarrow> u32 \<Rightarrow> u32" where
  "srcmem_mix (Quad a b c d) family =
     (let h = caly_mix32 a 0x51ED270B;
          h = caly_mix32 (h XOR b) 0x2F1B3C5D;
          h = caly_mix32 (h XOR c) 0x7A1E9C3F;
          h = caly_mix32 (h XOR d) 0x1B873593
      in caly_mix32 (h XOR family) 0x9E3779B9)"

definition at_srcmem_hash :: "at_addr \<Rightarrow> u32" where
  "at_srcmem_hash a = srcmem_mix (aa_a a) (aa_family a)"

definition fresh_mem :: "at_addr \<Rightarrow> u64 \<Rightarrow> at_srcmem" where
  "fresh_mem a now = \<lparr>me_a = aa_a a, me_family = aa_family a, me_offences = 0, me_prev_drops = 0, me_prev_pkts = 0,
     me_cur_ttl_ns = 0, me_last_ban_ns = 0, me_last_seen_ns = now, me_ban_expires_ns = 0\<rparr>"

text \<open>What the probe finds: a free slot, the slot of the source, or the slot to evict.\<close>

datatype probe = Free nat | Hit nat | Evict nat

function srcmem_probe :: "at_srcmem list \<Rightarrow> at_addr \<Rightarrow> u32 \<Rightarrow> u32 \<Rightarrow> nat \<Rightarrow> nat \<Rightarrow> u64 \<Rightarrow> probe option" where
  "srcmem_probe mem a msk idx i victim oldest =
     (if i < AT_SRCMEM_PROBE then
        let slot = unat ((idx + of_nat i) AND msk)
        in if \<not> slot < length mem then None
           else
             let e = mem ! slot
             in if me_family e = 0 then Some (Free slot)
                else if me_family e = aa_family a \<and> me_a e = aa_a a then Some (Hit slot)
                else if me_last_seen_ns e \<le> oldest
                then srcmem_probe mem a msk idx (i + 1) slot (me_last_seen_ns e)
                else srcmem_probe mem a msk idx (i + 1) victim oldest
      else Some (Evict victim))"
  by pat_completeness auto
termination by (relation "measure (\<lambda>(_, _, _, _, i, _). AT_SRCMEM_PROBE - i)") auto

declare srcmem_probe.simps [simp del]

text \<open>The slot and whether it is new, or the null pointer.\<close>

definition at_srcmem_get :: "at_addr \<Rightarrow> u64 \<Rightarrow> autotune \<Rightarrow> ((nat \<times> bool) option \<times> autotune) option" where
  "at_srcmem_get a now at =
     (if au_srcmem at = [] \<or> \<not> at_addr_valid a then Some (None, at)
      else
        let msk = of_nat (length (au_srcmem at)) - 1;
            idx = at_srcmem_hash a AND msk
        in (case srcmem_probe (au_srcmem at) a msk idx 0 (unat idx) 0xFFFFFFFFFFFFFFFF of
              None \<Rightarrow> None
            | Some (Free i) \<Rightarrow>
                Some (Some (i, True), at\<lparr>au_srcmem := (au_srcmem at)[i := fresh_mem a now], au_srcmem_used := au_srcmem_used at + 1\<rparr>)
            | Some (Hit i) \<Rightarrow>
                Some (Some (i, False), at\<lparr>au_srcmem := (au_srcmem at)[i := (au_srcmem at ! i)\<lparr>me_last_seen_ns := now\<rparr>]\<rparr>)
            | Some (Evict i) \<Rightarrow>
                if \<not> i < length (au_srcmem at) then None
                else Some (Some (i, True), at\<lparr>au_srcmem := (au_srcmem at)[i := fresh_mem a now]\<rparr>)))"

definition upd_mem :: "nat \<Rightarrow> (at_srcmem \<Rightarrow> at_srcmem) \<Rightarrow> autotune \<Rightarrow> autotune" where
  "upd_mem i f at = at\<lparr>au_srcmem := (au_srcmem at)[i := f (au_srcmem at ! i)]\<rparr>"

section \<open>Automatic bans\<close>

text \<open>What an offender did since the last pass.\<close>

definition offender_delta :: "u64 \<Rightarrow> u64 \<Rightarrow> at_offender \<Rightarrow> autotune \<Rightarrow> (at_offender \<times> autotune) option" where
  "offender_delta now interval_drops o1 at =
     (if \<not> at_addr_valid (of_addr o1) then Some (o1\<lparr>of_drops_delta := 0\<rparr>, at)
      else
        let drops = ss_drops (of_st o1); packets = ss_packets (of_st o1);
            note_seen = (\<lambda>i. upd_mem i (\<lambda>m. m\<lparr>me_prev_drops := drops, me_prev_pkts := packets\<rparr>));
            none = o1\<lparr>of_drops_delta := 0, of_pkts_delta := 0, of_share_pct := 0\<rparr>
        in (case at_srcmem_get (of_addr o1) now at of
              None \<Rightarrow> None
            | Some (None, at) \<Rightarrow> Some (none, at)
            | Some (Some (i, True), at) \<Rightarrow> Some (none, note_seen i at)
            | Some (Some (i, False), at) \<Rightarrow>
                let m = au_srcmem at ! i;
                    dd = (if drops \<ge> me_prev_drops m then drops - me_prev_drops m else drops);
                    pd = (if packets \<ge> me_prev_pkts m then packets - me_prev_pkts m else packets)
                in Some (o1\<lparr>of_drops_delta := dd, of_pkts_delta := pd, of_share_pct := at_share dd interval_drops\<rparr>,
                         note_seen i at)))"

primrec offender_deltas :: "u64 \<Rightarrow> u64 \<Rightarrow> at_offender list \<Rightarrow> autotune \<Rightarrow> (at_offender list \<times> autotune) option" where
  "offender_deltas now interval_drops [] at = Some ([], at)"
| "offender_deltas now interval_drops (x # xs) at =
     (case offender_delta now interval_drops x at of
        None \<Rightarrow> None
      | Some (y, at) \<Rightarrow>
          (case offender_deltas now interval_drops xs at of None \<Rightarrow> None | Some (ys, at) \<Rightarrow> Some (y # ys, at)))"

text \<open>One round of the insertion sort; the sorted part of the array is held in reverse.\<close>

primrec sift :: "at_offender \<Rightarrow> at_offender list \<Rightarrow> at_offender list" where
  "sift x [] = [x]"
| "sift x (y # ys) = (if of_drops_delta y < of_drops_delta x then y # sift x ys else x # y # ys)"

definition at_sort_offenders :: "at_offender list \<Rightarrow> at_offender list" where
  "at_sort_offenders xs = rev (fold sift xs [])"

definition at_ban_reason :: "autotune \<Rightarrow> u32" where
  "at_ban_reason at =
     (if au_class_mask at = 0 then STAT_DROP_RATE_PPS
      else (case au_primary_class at of
              AT_C_SYN \<Rightarrow> STAT_DROP_RATE_SYN | AT_C_ACK \<Rightarrow> STAT_DROP_RATE_PPS | AT_C_UDP \<Rightarrow> STAT_DROP_RATE_UDP
            | AT_C_AMP \<Rightarrow> STAT_DROP_AMP_SRCPORT | AT_C_ICMP \<Rightarrow> STAT_DROP_RATE_ICMP | AT_C_FRAG \<Rightarrow> STAT_DROP_FRAG_POLICY
            | AT_C_CONN_EXH \<Rightarrow> STAT_DROP_RATE_NEWCONN | AT_C_SLOWLORIS \<Rightarrow> STAT_DROP_RATE_NEWCONN
            | AT_C_PORTSCAN \<Rightarrow> STAT_DROP_PORTSCAN | AT_C_VOLUMETRIC \<Rightarrow> STAT_DROP_RATE_PPS))"

definition at_ban_base_ttl :: "autotune \<Rightarrow> fw_config \<Rightarrow> u64" where
  "at_ban_base_ttl at live =
     (let ttl = (if has_flag (au_class_mask at) (AT_CLS_BIT AT_C_AMP) then cfg_ban_ttl_amp_ns live
                 else if has_flag (au_class_mask at) (AT_CLS_BIT AT_C_PORTSCAN) then cfg_ban_ttl_scan_ns live
                 else cfg_ban_ttl_base_ns live);
          ttl = (if ttl = 0 then cfg_ban_ttl_base_ns live else ttl)
      in if ttl = 0 then 60 * CALY_NSEC_PER_SEC else ttl)"

text \<open>The time to live of a ban, from the entry in the ban table or the module's own memory.\<close>

definition auto_ttl :: "fw_config \<Rightarrow> u64 \<Rightarrow> u64 \<Rightarrow> u64 \<Rightarrow> ban_entry option \<Rightarrow> at_srcmem option \<Rightarrow> u64" where
  "auto_ttl live base_ttl max_ttl now old m =
     (let next = (\<lambda>cur. caly_ban_next_ttl cur base_ttl max_ttl (cfg_ban_escalate_num live) (cfg_ban_escalate_den live));
          ttl = (case (old, m) of
                   (Some b, _) \<Rightarrow>
                     if be_cur_ttl_ns b \<noteq> 0 then next (be_cur_ttl_ns b)
                     else (case m of
                             Some e \<Rightarrow> if me_cur_ttl_ns e \<noteq> 0 \<and> now < me_ban_expires_ns e + max_ttl then next (me_cur_ttl_ns e) else base_ttl
                           | None \<Rightarrow> base_ttl)
                 | (None, Some e) \<Rightarrow>
                     if me_cur_ttl_ns e \<noteq> 0 \<and> now < me_ban_expires_ns e + max_ttl then next (me_cur_ttl_ns e) else base_ttl
                 | (None, None) \<Rightarrow> base_ttl);
          ttl = (if ttl > max_ttl then max_ttl else ttl)
      in if ttl = 0 then base_ttl else ttl)"

definition auto_ban :: "u64 \<Rightarrow> u64 \<Rightarrow> u64 \<Rightarrow> u32 \<Rightarrow> ban_entry option \<Rightarrow> at_srcmem option \<Rightarrow> ban_entry" where
  "auto_ban now ttl base_ttl reason old m =
     \<lparr>be_expiry_ns = now + ttl,
      be_first_seen_ns = (case old of Some b \<Rightarrow> if be_first_seen_ns b \<noteq> 0 then be_first_seen_ns b else now | None \<Rightarrow> now),
      be_last_hit_ns = (case old of Some b \<Rightarrow> be_last_hit_ns b | None \<Rightarrow> 0), be_cur_ttl_ns = ttl,
      be_hit_pkts = (case old of Some b \<Rightarrow> be_hit_pkts b | None \<Rightarrow> 0),
      be_hit_bytes = (case old of Some b \<Rightarrow> be_hit_bytes b | None \<Rightarrow> 0), be_reason = reason,
      be_strikes = (case old of Some b \<Rightarrow> be_strikes b | None \<Rightarrow> 0),
      be_offences = (case old of Some b \<Rightarrow> be_offences b
                     | None \<Rightarrow> (case m of Some e \<Rightarrow> me_offences e | None \<Rightarrow> 0)) + 1,
      be_flags = (if ttl > base_ttl then CALY_BAN_F_AUTO OR CALY_BAN_F_ESCALATED else CALY_BAN_F_AUTO)\<rparr>"

definition suppress :: "autotune \<Rightarrow> autotune" where
  "suppress at = at\<lparr>au_bans_suppressed := au_bans_suppressed at + 1\<rparr>"

text \<open>Whether an existing entry is left alone.\<close>

definition keep_old :: "u64 \<Rightarrow> u64 \<Rightarrow> ban_entry option \<Rightarrow> bool" where
  "keep_old now ttl old = (case old of None \<Rightarrow> False | Some b \<Rightarrow>
     \<not> has_flag (be_flags b) CALY_BAN_F_PERMANENT \<and> be_expiry_ns b > now + ttl \<or>
     has_flag (be_flags b) (CALY_BAN_F_MANUAL OR CALY_BAN_F_PERMANENT OR CALY_BAN_F_FEED))"

text \<open>One offender: the record of a new ban, the state and the world.\<close>

definition ban_offender ::
  "'w at_ops \<Rightarrow> (at_addr \<Rightarrow> ban_entry \<Rightarrow> 'w \<Rightarrow> bool \<times> 'w) \<Rightarrow> fw_config \<Rightarrow> u64 \<Rightarrow> u64 \<Rightarrow> at_offender \<Rightarrow> autotune \<Rightarrow> 'w \<Rightarrow>
   (at_banrec option \<times> autotune \<times> 'w) option" where
  "ban_offender ops add live now interval_drops o1 at w =
     (let base_ttl = at_ban_base_ttl at live;
          max_ttl = (if cfg_ban_ttl_max_ns live \<noteq> 0 then cfg_ban_ttl_max_ns live else base_ttl * 16);
          reason = at_ban_reason at; a = of_addr o1
      in if \<not> at_addr_valid a \<or> of_drops_delta o1 < tu_ban_min_drops (au_cfg at) \<or>
            interval_drops \<noteq> 0 \<and> of_share_pct o1 < tu_ban_min_share_pct (au_cfg at) then Some (None, at, w)
         else if (case op_is_allowlisted ops of None \<Rightarrow> False | Some f \<Rightarrow> f w a = 1) then Some (None, suppress at, w)
         else (case at_srcmem_get a now at of
                 None \<Rightarrow> None
               | Some (slot, at) \<Rightarrow>
                   let m = map_option (\<lambda>(i, _). au_srcmem at ! i) slot;
                       old = (case op_ban_lookup ops of None \<Rightarrow> None | Some f \<Rightarrow> f w a);
                       ttl = auto_ttl live base_ttl max_ttl now old m;
                       be = auto_ban now ttl base_ttl reason old m
                   in if keep_old now ttl old then Some (None, suppress at, w)
                      else
                        let (ok, w) = (if tu_dry_run (au_cfg at) then (True, w) else add a be w)
                        in if \<not> ok then Some (None, suppress at, w)
                           else
                             let at = (case slot of None \<Rightarrow> at | Some (i, _) \<Rightarrow>
                                   upd_mem i (\<lambda>e. e\<lparr>me_cur_ttl_ns := ttl, me_last_ban_ns := now,
                                     me_ban_expires_ns := be_expiry_ns be, me_offences := be_offences be\<rparr>) at)
                             in Some (Some \<lparr>br_addr = a, br_ttl_ns = ttl, br_drops = of_drops_delta o1,
                                            br_offences = be_offences be, br_reason = reason\<rparr>,
                                      at\<lparr>au_bans_issued := au_bans_issued at + 1\<rparr>, w)))"

primrec ban_offenders ::
  "'w at_ops \<Rightarrow> (at_addr \<Rightarrow> ban_entry \<Rightarrow> 'w \<Rightarrow> bool \<times> 'w) \<Rightarrow> fw_config \<Rightarrow> u64 \<Rightarrow> u64 \<Rightarrow> at_offender list \<Rightarrow> u32 \<Rightarrow> autotune \<Rightarrow> 'w \<Rightarrow>
   (at_banrec list \<times> autotune \<times> 'w) option" where
  "ban_offenders ops add live now interval_drops [] banned at w = Some ([], at, w)"
| "ban_offenders ops add live now interval_drops (x # xs) banned at w =
     (if \<not> banned < tu_max_bans_per_tick (au_cfg at) then Some ([], at, w)
      else (case ban_offender ops add live now interval_drops x at w of
              None \<Rightarrow> None
            | Some (r, at, w) \<Rightarrow>
                (case ban_offenders ops add live now interval_drops xs (if r = None then banned else banned + 1) at w of
                   None \<Rightarrow> None
                 | Some (rs, at, w) \<Rightarrow> Some ((case r of None \<Rightarrow> rs | Some b \<Rightarrow> b # rs), at, w))))"

definition at_autoban :: "'w at_ops \<Rightarrow> fw_config \<Rightarrow> u64 \<Rightarrow> autotune \<Rightarrow> 'w \<Rightarrow> (at_banrec list \<times> autotune \<times> 'w) option" where
  "at_autoban ops live now at w =
     (case (op_top_offenders ops, op_ban_add ops) of
        (Some offenders, Some add) \<Rightarrow>
          if \<not> tu_allow_autoban (au_cfg at) \<or> \<not> has_flag (cfg_flags (au_base at)) CALY_F_AUTOBAN \<or>
             has_flag (cfg_flags (au_base at)) CALY_F_MONITOR_ONLY \<or> \<not> at_active (au_mode at) \<or>
             au_last_ban_pass_ns at \<noteq> 0 \<and> now - au_last_ban_pass_ns at < tu_ban_interval_ns (au_cfg at)
          then Some ([], at, w)
          else
            let cur = au_prev_gauge at G_DROPS;
                interval_drops = (if cur \<ge> au_last_ban_pass_drops at then cur - au_last_ban_pass_drops at else 0);
                at = at\<lparr>au_last_ban_pass_ns := now, au_last_ban_pass_drops := cur\<rparr>
            in (case offender_deltas now interval_drops (take AT_TOP_MAX (offenders w)) at of
                  None \<Rightarrow> None
                | Some (tops, at) \<Rightarrow>
                    (case ban_offenders ops add live now interval_drops (at_sort_offenders tops) 0 at w of
                       None \<Rightarrow> None
                     | Some (rs, at, w) \<Rightarrow> Some (take AT_ALERT_BANS_MAX rs, at, w)))
      | _ \<Rightarrow> Some ([], at, w))"

section \<open>Start and overrides\<close>

partial_function (option) pow2_loop :: "u32 \<Rightarrow> u32 \<Rightarrow> u32 \<Rightarrow> u32 option" where
  "pow2_loop p v hi = (if p < v \<and> p < hi then pow2_loop (push_bit 1 p) v hi else Some p)"

definition at_round_pow2 :: "u32 \<Rightarrow> u32 \<Rightarrow> u32 \<Rightarrow> u32 option" where
  "at_round_pow2 v lo hi =
     (let v = (if v < lo then lo else v); v = (if v > hi then hi else v) in pow2_loop lo v hi)"

definition at_sanitise_tunables :: "at_tunables \<Rightarrow> at_tunables" where
  "at_sanitise_tunables t =
     (let el = at_clamp32 (tu_sev_elevate t) 1 100;
          ak = at_clamp32 (tu_sev_attack t) el 100
      in t\<lparr>tu_win_ns := (\<lambda>i. if tu_win_ns t i = 0
              then (case i of AT_W_SHORT \<Rightarrow> 10 * CALY_NSEC_PER_SEC | AT_W_MED \<Rightarrow> 60 * CALY_NSEC_PER_SEC
                    | AT_W_LONG \<Rightarrow> 900 * CALY_NSEC_PER_SEC) else tu_win_ns t i),
           tu_min_tick_ns := (if tu_min_tick_ns t = 0 then 100 * CALY_NSEC_PER_MSEC else tu_min_tick_ns t),
           tu_heartbeat_ns := (if tu_heartbeat_ns t = 0 then 60 * CALY_NSEC_PER_SEC else tu_heartbeat_ns t),
           tu_ban_interval_ns := (if tu_ban_interval_ns t = 0 then CALY_NSEC_PER_SEC else tu_ban_interval_ns t),
           tu_confirm_up := at_clamp32 (tu_confirm_up t) 1 1000,
           tu_confirm_down := at_clamp32 (tu_confirm_down t) 1 10000,
           tu_sev_elevate := el, tu_sev_attack := ak,
           tu_sev_lockdown := at_clamp32 (tu_sev_lockdown t) ak 100,
           tu_max_bans_per_tick := at_clamp32 (tu_max_bans_per_tick t) 0 64,
           tu_ban_min_share_pct := at_clamp32 (tu_ban_min_share_pct t) 0 100,
           tu_hook_timeout_s := at_clamp32 (tu_hook_timeout_s t) 1 300,
           tu_alert_file := take 255 (tu_alert_file t), tu_hook_path := take 255 (tu_hook_path t),
           tu_webhook_url := take 1023 (tu_webhook_url t), tu_webhook_client := take 255 (tu_webhook_client t),
           tu_node_id := (if tu_node_id t = [] then ''calyanti'' else take 63 (tu_node_id t))\<rparr>)"

definition empty_mem :: at_srcmem where
  "empty_mem = \<lparr>me_a = Quad 0 0 0 0, me_family = 0, me_offences = 0, me_prev_drops = 0, me_prev_pkts = 0,
     me_cur_ttl_ns = 0, me_last_ban_ns = 0, me_last_seen_ns = 0, me_ban_expires_ns = 0\<rparr>"

definition operator_state :: "u32 \<Rightarrow> bool" where
  "operator_state m \<longleftrightarrow> m = FW_MODE_LOCKDOWN \<or> m = FW_MODE_MONITOR_ONLY"

definition known_abi :: "fw_config \<Rightarrow> fw_config" where
  "known_abi c = (if cfg_abi_version c = 0 then c\<lparr>cfg_abi_version := CALY_ABI_VERSION\<rparr> else c)"

definition autotune_init :: "'w at_ops \<Rightarrow> at_tunables option \<Rightarrow> 'w \<Rightarrow> (int + autotune) option" where
  "autotune_init ops cfg w =
     (let tu = at_sanitise_tunables (case cfg of Some t \<Rightarrow> t | None \<Rightarrow> autotune_tunables_default)
      in case op_config_read ops w of
           Inl rc \<Rightarrow> Some (Inl rc)
         | Inr live \<Rightarrow>
             let live = known_abi live
             in if drop_bit 16 (cfg_abi_version live) \<noteq> CALY_ABI_VERSION_MAJOR then Some (Inl RC_PROTO)
                else (case at_round_pow2 (if tu_srcmem_entries tu \<noteq> 0 then tu_srcmem_entries tu else 4096)
                              AT_SRCMEM_MIN AT_SRCMEM_MAX of
                        None \<Rightarrow> None
                      | Some cap \<Rightarrow>
                          let mode = (if cfg_mode live < FW_MODE_MAX then cfg_mode live else FW_MODE_NORMAL);
                              mem = (if io_calloc (op_io ops w) then replicate (unat cap) empty_mem else []);
                              at = at_fresh tu (fst (at_enforce_mgmt live)) live mode (operator_state mode) mem
                          in Some (Inr (at_webhook_probe (op_io ops w) (at_alert_sink_open (op_io ops w) at)))))"

definition read_live :: "'w at_ops \<Rightarrow> autotune \<Rightarrow> 'w \<Rightarrow> fw_config" where
  "read_live ops at w = (case op_config_read ops w of Inr live \<Rightarrow> known_abi live | Inl _ \<Rightarrow> au_base at)"

definition autotune_set_base_config :: "'w at_ops \<Rightarrow> fw_config \<Rightarrow> autotune \<Rightarrow> 'w \<Rightarrow> int \<times> autotune \<times> 'w" where
  "autotune_set_base_config ops cfg at w =
     (if drop_bit 16 (cfg_abi_version cfg) \<noteq> CALY_ABI_VERSION_MAJOR \<and> cfg_abi_version cfg \<noteq> 0 then (RC_PROTO, at, w)
      else
        let base = fst (at_enforce_mgmt (known_abi cfg));
            at = at\<lparr>au_base := base, au_have_base := True, au_pinned := operator_state (cfg_mode base),
                    au_mode := (if cfg_mode base < FW_MODE_MAX then cfg_mode base else au_mode at),
                    au_up_count := 0, au_down_count := 0, au_mode_since_ns := au_last_ts_ns at\<rparr>;
            live = read_live ops at w;
            at = at\<lparr>au_have_applied := False\<rparr>;
            (at, w) = at_side_policy ops (au_mode at) (au_class_mask at) (at, w)
        in at_push_config ops live (au_mode at) (au_class_mask at) at w)"

definition autotune_note_event :: "u32 \<Rightarrow> autotune \<Rightarrow> autotune" where
  "autotune_note_event reason at =
     (if reason < STAT_MAX then at\<lparr>au_ev_reason := (au_ev_reason at)(reason := au_ev_reason at reason + 1)\<rparr> else at)"

definition autotune_force_mode :: "'w at_ops \<Rightarrow> u32 \<Rightarrow> u64 \<Rightarrow> autotune \<Rightarrow> 'w \<Rightarrow> int \<times> autotune \<times> 'w" where
  "autotune_force_mode ops mode now at w =
     (if mode \<ge> FW_MODE_MAX then (RC_INVAL, at, w)
      else
        let prev = au_mode at;
            at = at\<lparr>au_mode := mode, au_mode_since_ns := now, au_up_count := 0, au_down_count := 0,
                    au_pinned := operator_state mode\<rparr>;
            live = read_live ops at w;
            (at, w) = at_side_policy ops mode (au_class_mask at) (at, w);
            at = at_emit_alert (op_io ops w) (if mode > prev then AT_EV_MODE_UP else AT_EV_MODE_DOWN) now at
        in at_push_config ops live (au_mode at) (au_class_mask at) at w)"

definition autotune_unpin :: "u64 \<Rightarrow> autotune \<Rightarrow> autotune" where
  "autotune_unpin now at =
     at\<lparr>au_pinned := False, au_up_count := 0, au_down_count := 0, au_mode_since_ns := now,
        au_mode := (if au_mode at \<ge> FW_MODE_MONITOR_ONLY then FW_MODE_NORMAL else au_mode at)\<rparr>"

definition autotune_fini :: "'w at_ops \<Rightarrow> autotune \<Rightarrow> 'w \<Rightarrow> autotune \<times> 'w" where
  "autotune_fini ops at w =
     (let (at, w) = (if au_init_done at then at_icmp_apply ops False (at_amp_apply ops False (at, w)) else (at, w))
      in (at\<lparr>au_alert_fd := False, au_srcmem := [], au_init_done := False\<rparr>, w))"

section \<open>One iteration\<close>

text \<open>The configuration in force, and the mode someone else set.\<close>

definition step_live :: "'w at_ops \<Rightarrow> at_sample \<Rightarrow> autotune \<Rightarrow> 'w \<Rightarrow> fw_config" where
  "step_live ops s at w =
     known_abi (case sm_live s of Some c \<Rightarrow> c
                | None \<Rightarrow> (case op_config_read ops w of Inr c \<Rightarrow> c | Inl _ \<Rightarrow> au_base at))"

definition adopt_mode :: "fw_config \<Rightarrow> u64 \<Rightarrow> autotune \<Rightarrow> autotune" where
  "adopt_mode live now at =
     (if au_have_applied at \<and> cfg_mode live \<noteq> cfg_mode (au_applied at) \<and> cfg_mode live < FW_MODE_MAX
      then at\<lparr>au_mode := cfg_mode live, au_mode_since_ns := now, au_up_count := 0, au_down_count := 0,
              au_pinned := operator_state (cfg_mode live), au_applied := live\<rparr>
      else at)"

definition first_sample :: "at_sample \<Rightarrow> u64 \<Rightarrow> autotune \<Rightarrow> autotune" where
  "first_sample s now at =
     (let at = at\<lparr>au_first_ts_ns := now, au_last_ts_ns := now, au_mode_since_ns := now,
                  au_prev_gauge := sm_gauge s, au_have_prev_gauge := True\<rparr>
      in case sm_stat s of
           None \<Rightarrow> at
         | Some st \<Rightarrow>
             at\<lparr>au_rtrack := (\<lambda>i. if i < STAT_MAX then (au_rtrack at i)\<lparr>rt_prev := st i\<rparr> else au_rtrack at i),
                au_have_prev_stat := True\<rparr>)"

definition learn_sample :: "fw_config \<Rightarrow> at_sample \<Rightarrow> u64 \<Rightarrow> u64 \<Rightarrow> autotune \<Rightarrow> autotune" where
  "learn_sample live s now dt at =
     (let at = at\<lparr>au_last_ts_ns := now, au_last_dt_ns := dt, au_sample_count := au_sample_count at + 1\<rparr>;
          at = at_detect (at_compute_rates at s dt) live;
          freeze_long = (au_anom_mask at \<noteq> 0 \<or> at_active (au_mode at));
          at = at_classify (at_compute_reason_rates at s dt freeze_long) live
      in at\<lparr>au_track := (\<lambda>m. at_track_update (au_track at m) (au_rate at m) dt (tu_win_ns (au_cfg at)) freeze_long)\<rparr>)"

definition act_push :: "'w at_ops \<Rightarrow> fw_config \<Rightarrow> autotune \<Rightarrow> 'w \<Rightarrow> autotune \<times> 'w" where
  "act_push ops live at w =
     (if \<not> au_pinned at \<and> (au_mode at \<noteq> au_applied_mode at \<or> au_class_mask at \<noteq> au_applied_class_mask at \<or> \<not> au_have_applied at)
      then
        let (at, w) = at_side_policy ops (au_mode at) (au_class_mask at) (at, w);
            (_, at, w) = at_push_config ops live (au_mode at) (au_class_mask at) at w
        in (at\<lparr>au_applied_mode := au_mode at, au_applied_class_mask := au_class_mask at\<rparr>, w)
      else (at, w))"

definition step_alerts :: "at_io \<Rightarrow> u32 \<Rightarrow> u32 \<Rightarrow> nat \<Rightarrow> u64 \<Rightarrow> autotune \<Rightarrow> autotune" where
  "step_alerts io prev_mode prev_class nbans now at =
     (if au_mode at \<noteq> prev_mode then
        let at = (at_emit_alert io (if au_mode at > prev_mode then AT_EV_MODE_UP else AT_EV_MODE_DOWN) now at)
                   \<lparr>au_last_heartbeat_ns := now\<rparr>
        in if au_mode at = FW_MODE_NORMAL \<and> prev_mode \<noteq> FW_MODE_NORMAL then at_emit_alert io AT_EV_CLEAR now at else at
      else if au_class_mask at \<noteq> prev_class \<and> au_class_mask at \<noteq> 0 then
        (at_emit_alert io AT_EV_ATTACK now at)\<lparr>au_last_heartbeat_ns := now\<rparr>
      else if nbans > 0 then at_emit_alert io AT_EV_BAN now at
      else if at_active (au_mode at) \<and>
              (au_last_heartbeat_ns at = 0 \<or> now - au_last_heartbeat_ns at \<ge> tu_heartbeat_ns (au_cfg at)) then
        (at_emit_alert io AT_EV_HEARTBEAT now at)\<lparr>au_last_heartbeat_ns := now\<rparr>
      else at)"

definition autotune_step :: "'w at_ops \<Rightarrow> u64 \<Rightarrow> at_sample \<Rightarrow> autotune \<Rightarrow> 'w \<Rightarrow> (int \<times> autotune \<times> 'w) option" where
  "autotune_step ops now s at w =
     (if \<not> au_init_done at then Some (RC_INVAL, at, w)
      else
        let live = step_live ops s at w
        in if drop_bit 16 (cfg_abi_version live) \<noteq> CALY_ABI_VERSION_MAJOR then
             Some (RC_PROTO, if au_abi_warned at then at
                             else at_emit_alert (op_io ops w) AT_EV_ERROR now (at\<lparr>au_abi_warned := True\<rparr>), w)
           else
             let at = adopt_mode live now at
             in if au_last_ts_ns at = 0 \<or> now < au_last_ts_ns at then Some (0, first_sample s now at, w)
                else
                  let dt = now - au_last_ts_ns at
                  in if dt < tu_min_tick_ns (au_cfg at) then Some (1, at, w)
                     else
                       let prev_mode = au_mode at; prev_class = au_class_mask at;
                           at = learn_sample live s now dt at;
                           (m, at) = at_step_mode at live now;
                           at = set_mode m now at;
                           (at, w) = act_push ops live at w
                       in (case at_autoban ops live now at w of
                             None \<Rightarrow> None
                           | Some (bans, at, w) \<Rightarrow>
                               Some (0, step_alerts (op_io ops w) prev_mode prev_class (length bans) now at, w)))"

definition autotune_tick :: "'w at_ops \<Rightarrow> u64 \<Rightarrow> autotune \<Rightarrow> 'w \<Rightarrow> (int \<times> autotune \<times> 'w) option" where
  "autotune_tick ops now at w =
     (if \<not> au_init_done at then Some (RC_INVAL, at, w)
      else (case op_gauges_read ops w of
              Inl rc \<Rightarrow> Some (rc, at, w)
            | Inr g \<Rightarrow>
                let live = (case op_config_read ops w of Inr c \<Rightarrow> Some c | Inl _ \<Rightarrow> None);
                    st = (case op_stats_read ops of None \<Rightarrow> None | Some f \<Rightarrow> f w);
                    conn = (case op_conn_count ops of None \<Rightarrow> None | Some f \<Rightarrow> f w);
                    (uniq, w) = (case op_unique_sources ops of None \<Rightarrow> (None, w) | Some f \<Rightarrow> f w)
                in autotune_step ops now \<lparr>sm_gauge = g, sm_stat = st, sm_conn_entries = conn, sm_uniq_sources = uniq,
                     sm_live = live\<rparr> at w))"


section \<open>What the module may do\<close>

text \<open>The actions the module's contract allows on the outside world, given the operator's baseline: to write a
  configuration that keeps the operator's access; to ban, for a limited time, a source that is not
  allow-listed and has no entry of the operator's; to raise or lower the amplifier mark of a standard
  reflector port; to limit ICMP echo requests and to open them again; and to read.\<close>

definition amp_ports :: "u16 set" where
  "amp_ports = set (map ucast CALY_AMP_PORTS)"

definition mark_only :: "port_rule \<Rightarrow> port_rule \<Rightarrow> bool" where
  "mark_only pr pr' \<longleftrightarrow> pr' = pr\<lparr>pr_flags := pr_flags pr OR CALY_PORT_F_AMPLIFIER\<rparr> \<and> \<not> has_flag (pr_flags pr) CALY_PORT_F_MGMT \<or>
     pr' = pr\<lparr>pr_flags := pr_flags pr AND NOT CALY_PORT_F_AMPLIFIER\<rparr>"

definition limited_ban :: "u64 \<Rightarrow> ban_entry \<Rightarrow> bool" where
  "limited_ban now be \<longleftrightarrow> be_cur_ttl_ns be \<noteq> 0 \<and> be_expiry_ns be = now + be_cur_ttl_ns be \<and>
     has_flag (be_flags be) CALY_BAN_F_AUTO \<and>
     \<not> has_flag (be_flags be) (CALY_BAN_F_PERMANENT OR CALY_BAN_F_MANUAL OR CALY_BAN_F_FEED)"

definition operator_ban :: "'w at_ops \<Rightarrow> 'w \<Rightarrow> at_addr \<Rightarrow> bool" where
  "operator_ban ops w a \<longleftrightarrow> (case op_ban_lookup ops of None \<Rightarrow> False | Some f \<Rightarrow> (case f w a of None \<Rightarrow> False
     | Some b \<Rightarrow> has_flag (be_flags b) (CALY_BAN_F_MANUAL OR CALY_BAN_F_PERMANENT OR CALY_BAN_F_FEED)))"

definition allowlisted :: "'w at_ops \<Rightarrow> 'w \<Rightarrow> at_addr \<Rightarrow> bool" where
  "allowlisted ops w a \<longleftrightarrow> (case op_is_allowlisted ops of None \<Rightarrow> False | Some f \<Rightarrow> f w a = 1)"

inductive permitted :: "'w at_ops \<Rightarrow> fw_config \<Rightarrow> u64 \<Rightarrow> 'w \<Rightarrow> 'w \<Rightarrow> bool" for ops base now where
  p_write: "op_config_write ops = Some f \<Longrightarrow> keeps_access base c \<Longrightarrow> permitted ops base now w (snd (f c w))"
| p_ban: "op_ban_add ops = Some f \<Longrightarrow> at_addr_valid a \<Longrightarrow> limited_ban now be \<Longrightarrow> \<not> operator_ban ops w a \<Longrightarrow>
     \<not> allowlisted ops w a \<Longrightarrow> permitted ops base now w (snd (f a be w))"
| p_port: "op_port_rule_set ops = Some f \<Longrightarrow> op_port_rule_get ops = Some g \<Longrightarrow> p \<in> amp_ports \<Longrightarrow> g w True p = Some pr \<Longrightarrow>
     mark_only pr pr' \<Longrightarrow> permitted ops base now w (snd (f True p pr' w))"
| p_icmp: "op_icmp_pol_set ops = Some f \<Longrightarrow> (v6, t) \<in> {(False, CALY_ICMP4_ECHO), (True, CALY_ICMP6_ECHO_REQUEST)} \<Longrightarrow>
     pol \<in> {CALY_ICMP_PASS, CALY_ICMP_RATELIMIT} \<Longrightarrow> permitted ops base now w (snd (f v6 t pol w))"
| p_uniq: "op_unique_sources ops = Some f \<Longrightarrow> permitted ops base now w (snd (f w))"

abbreviation (input) acts :: "'w at_ops \<Rightarrow> fw_config \<Rightarrow> u64 \<Rightarrow> 'w \<Rightarrow> 'w \<Rightarrow> bool" where
  "acts ops base now \<equiv> (permitted ops base now)\<^sup>*\<^sup>*"

text \<open>The invariant of the module's state.\<close>

definition au_inv :: "autotune \<Rightarrow> bool" where
  "au_inv at \<longleftrightarrow> mgmt_arrays (au_base at) \<and> set (au_amp_touched at) \<subseteq> amp_ports \<and>
     (au_icmp4_echo_changed at \<longrightarrow> au_icmp4_echo_saved at = CALY_ICMP_PASS) \<and>
     (au_icmp6_echo_changed at \<longrightarrow> au_icmp6_echo_saved at = CALY_ICMP_PASS)"

text \<open>What the invariant and the contract look at.\<close>

definition au_core :: "autotune \<Rightarrow> fw_config \<times> u16 list \<times> u32 \<times> bool \<times> u32 \<times> bool \<times> at_tunables \<times> bool" where
  "au_core at = (au_base at, au_amp_touched at, au_icmp4_echo_saved at, au_icmp4_echo_changed at,
     au_icmp6_echo_saved at, au_icmp6_echo_changed at, au_cfg at, au_init_done at)"

lemma au_core_eq:
  "au_core a = au_core b \<Longrightarrow> au_base a = au_base b" "au_core a = au_core b \<Longrightarrow> au_cfg a = au_cfg b"
  "au_core a = au_core b \<Longrightarrow> au_inv a = au_inv b"
  by (auto simp: au_core_def au_inv_def)

subsection \<open>Writing the configuration\<close>

lemma keeps_access_gen: "keeps_access b (c\<lparr>cfg_config_gen := g\<rparr>) = keeps_access b c"
  by (simp add: keeps_access_def at_config_sane_def same_sizing_def mgmt_arrays_def caly_is_mgmt_tcp_def)

lemma build_abi: "cfg_abi_version (at_build_config at live mode cls) =
    (if cfg_abi_version live \<noteq> 0 then cfg_abi_version live else CALY_ABI_VERSION)"
proof -
  define o1 where "o1 = (build_limits (au_base at) (if mode \<ge> FW_MODE_MAX then FW_MODE_NORMAL else mode) cls)\<lparr>
     cfg_abi_version := (if cfg_abi_version live \<noteq> 0 then cfg_abi_version live else CALY_ABI_VERSION),
     cfg_flags := build_flags (au_cfg at) (au_base at) live (if mode \<ge> FW_MODE_MAX then FW_MODE_NORMAL else mode) cls,
     cfg_config_gen := cfg_config_gen live\<rparr>"
  obtain n ps u where "fst (at_enforce_mgmt o1) = o1\<lparr>cfg_mgmt_tcp_ports := ps, cfg_mgmt_tcp_count := n, cfg_mgmt_udp_count := u\<rparr>"
    by (rule enforce_mgmt_cases)
  then show ?thesis by (simp add: at_build_config_def Let_def o1_def)
qed

lemma push_config_acts:
  assumes "at_push_config ops live mode cls at w = (rc, at', w')" "mgmt_arrays (au_base at)"
  shows "acts ops (au_base at) now w w'" "au_core at' = au_core at" "au_srcmem at' = au_srcmem at"
proof -
  have k: "keeps_access (au_base at) ((at_build_config at live mode cls)\<lparr>cfg_config_gen := g\<rparr>)"
    if "at_config_sane (au_base at) (at_build_config at live mode cls)" for g
    unfolding keeps_access_gen
    using that by (intro build_keeps_access [OF assms(2)]) (auto simp: at_config_sane_def build_abi split: if_splits)
  have wr: "acts ops (au_base at) now w w1"
    if "op_config_write ops = Some f" "at_config_sane (au_base at) (at_build_config at live mode cls)"
      "f ((at_build_config at live mode cls)\<lparr>cfg_config_gen := g\<rparr>) w = (r, w1)" for f g r w1
    using p_write [OF that(1) k [OF that(2), of g], of now w] that(3) by (simp add: r_into_rtranclp)
  have "acts ops (au_base at) now w w' \<and> au_core at' = au_core at \<and> au_srcmem at' = au_srcmem at"
    using assms(1)
    by (auto simp: at_push_config_def Let_def au_core_def reject_def split: if_splits option.splits prod.splits intro: wr)
  then show "acts ops (au_base at) now w w'" "au_core at' = au_core at" "au_srcmem at' = au_srcmem at" by blast+
qed


subsection \<open>Composition of steps\<close>

definition ok_step :: "'w at_ops \<Rightarrow> u64 \<Rightarrow> autotune \<times> 'w \<Rightarrow> autotune \<times> 'w \<Rightarrow> bool" where
  "ok_step ops now x y \<longleftrightarrow> (au_inv (fst x) \<longrightarrow>
     acts ops (au_base (fst x)) now (snd x) (snd y) \<and> au_inv (fst y) \<and> au_base (fst y) = au_base (fst x) \<and>
     au_cfg (fst y) = au_cfg (fst x) \<and> length (au_srcmem (fst y)) = length (au_srcmem (fst x)))"

lemma ok_step_refl [simp]: "ok_step ops now x x"
  by (simp add: ok_step_def)

lemma ok_step_trans: "ok_step ops now x y \<Longrightarrow> ok_step ops now y z \<Longrightarrow> ok_step ops now x z"
  unfolding ok_step_def by (metis rtranclp_trans)

lemma ok_step_fold: "(\<And>a x. a \<in> set as \<Longrightarrow> ok_step ops now x (f a x)) \<Longrightarrow> ok_step ops now x (fold f as x)"
proof (induction as arbitrary: x)
  case (Cons a as)
  have "ok_step ops now x (f a x)" "ok_step ops now (f a x) (fold f as (f a x))" using Cons by simp_all
  then show ?case by (simp add: ok_step_trans [of ops now x "f a x"])
qed simp

text \<open>A step that changes neither the world nor what the invariant looks at.\<close>

lemma ok_step_core:
  "au_core a' = au_core a \<Longrightarrow> length (au_srcmem a') = length (au_srcmem a) \<Longrightarrow> ok_step ops now (a, w) (a', w)"
  unfolding ok_step_def using au_core_eq [of a' a] by simp

lemma push_config_ok: "at_push_config ops live mode cls at w = (rc, at', w') \<Longrightarrow> ok_step ops now (at, w) (at', w')"
  unfolding ok_step_def fst_conv snd_conv
proof
  assume p: "at_push_config ops live mode cls at w = (rc, at', w')" and i: "au_inv at"
  then have "mgmt_arrays (au_base at)" by (simp add: au_inv_def)
  from push_config_acts(1) [OF p this] push_config_acts(2,3) [OF p this] i
  show "acts ops (au_base at) now w w' \<and> au_inv at' \<and> au_base at' = au_base at \<and> au_cfg at' = au_cfg at \<and>
      length (au_srcmem at') = length (au_srcmem at)"
    using au_core_eq [of at' at] by simp
qed

lemma acts_one: "permitted ops base now w w' \<Longrightarrow> acts ops base now w w'"
  by (rule r_into_rtranclp)

lemma amp_engage_ok:
  assumes "op_port_rule_get ops = Some g" "op_port_rule_set ops = Some f" "p \<in> amp_ports"
  shows "ok_step ops now x (amp_engage_one f g p x)"
proof (cases x)
  case (Pair at w)
  show ?thesis
  proof (cases "g w True p")
    case None
    then show ?thesis using Pair by (simp add: amp_engage_one_def)
  next
    case (Some pr)
    let ?pr = "pr\<lparr>pr_flags := pr_flags pr OR CALY_PORT_F_AMPLIFIER\<rparr>"
    have "acts ops (au_base at) now w (snd (f True p ?pr w))" if "\<not> has_flag (pr_flags pr) CALY_PORT_F_MGMT"
      by (rule acts_one, rule p_port [OF assms(2,1,3) Some]) (use that in \<open>simp add: mark_only_def\<close>)
    then show ?thesis
      using Pair Some assms(3)
      by (auto simp: amp_engage_one_def Let_def ok_step_def au_inv_def case_prod_beta split: if_splits)
  qed
qed

lemma amp_restore_acts:
  assumes "op_port_rule_get ops = Some g" "op_port_rule_set ops = Some f" "set ps \<subseteq> amp_ports"
  shows "acts ops base now w (fold (amp_restore_one f g dry) ps w)"
  using assms(3)
proof (induction ps arbitrary: w)
  case (Cons p ps)
  have "acts ops base now w (amp_restore_one f g dry p w)"
  proof (cases "g w True p")
    case None
    then show ?thesis by (simp add: amp_restore_one_def)
  next
    case (Some pr)
    have "permitted ops base now w (snd (f True p (pr\<lparr>pr_flags := pr_flags pr AND NOT CALY_PORT_F_AMPLIFIER\<rparr>) w))"
      by (rule p_port [OF assms(2,1) _ Some]) (use Cons.prems in \<open>simp_all add: mark_only_def\<close>)
    with Some show ?thesis by (simp add: amp_restore_one_def acts_one)
  qed
  with Cons show ?case by (auto intro: rtranclp_trans)
qed simp

lemma amp_apply_ok: "ok_step ops now x (at_amp_apply ops engage x)"
proof (cases x)
  case (Pair at w)
  show ?thesis
  proof (cases "tu_allow_amp_override (au_cfg at) \<and> op_port_rule_get ops \<noteq> None \<and> op_port_rule_set ops \<noteq> None")
    case False
    then show ?thesis using Pair by (auto simp: at_amp_apply_def split: option.splits)
  next
    case True
    then obtain g f where o: "op_port_rule_get ops = Some g" "op_port_rule_set ops = Some f" by auto
    have "ok_step ops now x (fold (amp_engage_one f g) (map ucast CALY_AMP_PORTS) x)"
      by (rule ok_step_fold) (rule amp_engage_ok [OF o], simp add: amp_ports_def)
    moreover have "ok_step ops now x (at\<lparr>au_amp_touched := []\<rparr>,
        fold (amp_restore_one f g (tu_dry_run (au_cfg at))) (au_amp_touched at) w)"
      using amp_restore_acts [OF o] Pair by (simp add: ok_step_def au_inv_def)
    ultimately show ?thesis using True o Pair by (simp add: at_amp_apply_def)
  qed
qed

lemma icmp_one_ok:
  assumes "op_icmp_pol_set ops = Some f" "(v6, t) \<in> {(False, CALY_ICMP4_ECHO), (True, CALY_ICMP6_ECHO_REQUEST)}"
    and "c \<longrightarrow> s = CALY_ICMP_PASS"
    and "(if engage then icmp_engage f g dry v6 t else icmp_restore f dry v6 t) (s, c, w) = (s', c', w')"
  shows "acts ops base now w w'" "c' \<longrightarrow> s' = CALY_ICMP_PASS"
proof -
  have p: "acts ops base now w (snd (f v6 t pol w))" if "pol \<in> {CALY_ICMP_PASS, CALY_ICMP_RATELIMIT}" for pol
    by (rule acts_one) (rule p_icmp [OF assms(1,2) that])
  have "acts ops base now w w' \<and> (c' \<longrightarrow> s' = CALY_ICMP_PASS)"
    using assms(3,4) p [of CALY_ICMP_PASS] p [of CALY_ICMP_RATELIMIT]
    by (auto simp: icmp_engage_def icmp_restore_def case_prod_beta split: if_splits option.splits)
  then show "acts ops base now w w'" "c' \<longrightarrow> s' = CALY_ICMP_PASS" by blast+
qed

lemma icmp_apply_ok: "ok_step ops now x (at_icmp_apply ops engage x)"
proof (cases x)
  case (Pair at w)
  show ?thesis
  proof (cases "tu_allow_icmp_policy (au_cfg at) \<and> op_icmp_pol_get ops \<noteq> None \<and> op_icmp_pol_set ops \<noteq> None \<and> au_inv at")
    case False
    then show ?thesis using Pair by (auto simp: at_icmp_apply_def ok_step_def split: option.splits)
  next
    case True
    then obtain g f where o: "op_icmp_pol_get ops = Some g" "op_icmp_pol_set ops = Some f" by auto
    let ?f = "\<lambda>v6 t. if engage then icmp_engage f g (tu_dry_run (au_cfg at)) v6 t else icmp_restore f (tu_dry_run (au_cfg at)) v6 t"
    obtain s4 c4 w4 where r4: "?f False CALY_ICMP4_ECHO (au_icmp4_echo_saved at, au_icmp4_echo_changed at, w) = (s4, c4, w4)"
      by (metis prod_cases3)
    obtain s6 c6 w6 where r6: "?f True CALY_ICMP6_ECHO_REQUEST (au_icmp6_echo_saved at, au_icmp6_echo_changed at, w4) = (s6, c6, w6)"
      by (metis prod_cases3)
    note q4 = icmp_one_ok(1) [OF o(2) _ _ r4, of "au_base at" now] icmp_one_ok(2) [OF o(2) _ _ r4]
    note q6 = icmp_one_ok(1) [OF o(2) _ _ r6, of "au_base at" now] icmp_one_ok(2) [OF o(2) _ _ r6]
    have "at_icmp_apply ops engage x = (at\<lparr>au_icmp4_echo_saved := s4, au_icmp4_echo_changed := c4,
        au_icmp6_echo_saved := s6, au_icmp6_echo_changed := c6\<rparr>, w6)"
      using True o Pair r4 r6 by (simp add: at_icmp_apply_def Let_def)
    then show ?thesis
      using True q4 q6 Pair by (auto simp: ok_step_def au_inv_def intro: rtranclp_trans)
  qed
qed

lemma side_policy_ok: "ok_step ops now x (at_side_policy ops mode cls x)"
  unfolding at_side_policy_def by (rule ok_step_trans [OF amp_apply_ok icmp_apply_ok])


subsection \<open>The source memory\<close>

text \<open>A probe stays inside the array, whatever its size.\<close>

lemma and_mask_lt:
  assumes "mem \<noteq> []" "length mem < 2 ^ 32"
  shows "unat (x AND (of_nat (length mem) - 1 :: u32)) < length mem"
proof -
  have l: "0 < length mem" "unat (of_nat (length mem) :: u32) = length mem"
    using assms by (simp_all add: unsigned_of_nat take_bit_nat_eq_self_iff)
  then have "(1 :: u32) \<le> of_nat (length mem)" by (simp add: word_le_nat_alt Suc_le_eq)
  then have "unat (of_nat (length mem) - 1 :: u32) = length mem - 1" using l(2) by (simp add: unat_sub)
  moreover have "x AND (of_nat (length mem) - 1) \<le> (of_nat (length mem) - 1 :: u32)" by (rule word_and_le1)
  ultimately have "unat (x AND (of_nat (length mem) - 1 :: u32)) \<le> length mem - 1" by (simp only: word_le_nat_alt)
  with l(1) show ?thesis by linarith
qed

fun probe_slot :: "probe \<Rightarrow> nat" where
  "probe_slot (Free i) = i" | "probe_slot (Hit i) = i" | "probe_slot (Evict i) = i"

lemma srcmem_probe_ok:
  assumes "mem \<noteq> []" "length mem < 2 ^ 32" "victim < length mem" "msk = of_nat (length mem) - 1"
  shows "\<exists>r. srcmem_probe mem a msk idx i victim oldest = Some r \<and> probe_slot r < length mem"
  using assms
proof (induction mem a msk idx i victim oldest rule: srcmem_probe.induct)
  case (1 mem a msk idx i victim oldest)
  let ?s = "unat ((idx + of_nat i) AND msk)"
  have s: "?s < length mem" using and_mask_lt [OF "1.prems"(1,2)] "1.prems"(4) by simp
  show ?case
  proof (cases "i < AT_SRCMEM_PROBE \<and> me_family (mem ! ?s) \<noteq> 0 \<and> \<not> (me_family (mem ! ?s) = aa_family a \<and> me_a (mem ! ?s) = aa_a a)")
    case False
    then show ?thesis using s "1.prems"(3) by (subst srcmem_probe.simps) (auto simp: Let_def)
  next
    case True
    then have t: "i < 8" "me_family (mem ! ?s) \<noteq> 0" "\<not> (me_family (mem ! ?s) = aa_family a \<and> me_a (mem ! ?s) = aa_a a)" by simp_all
    have s': "\<not> \<not> ?s < length mem" using s by simp
    show ?thesis
    proof (cases "me_last_seen_ns (mem ! ?s) \<le> oldest")
      case True
      from "1.IH"(1) [OF t(1) refl s' refl t(2,3) True "1.prems"(1,2) s "1.prems"(4)] t s True
      show ?thesis by (subst srcmem_probe.simps) (simp add: Let_def)
    next
      case False
      from "1.IH"(2) [OF t(1) refl s' refl t(2,3) False "1.prems"] t s False
      show ?thesis by (subst srcmem_probe.simps) (simp add: Let_def)
    qed
  qed
qed

text \<open>A step that changes the source memory only.\<close>

definition mem_step :: "autotune \<Rightarrow> autotune \<Rightarrow> bool" where
  "mem_step at at' \<longleftrightarrow> (\<exists>mem used. at' = at\<lparr>au_srcmem := mem, au_srcmem_used := used\<rparr> \<and> length mem = length (au_srcmem at))"

lemma mem_step_refl [simp]: "mem_step at at"
  unfolding mem_step_def by (rule exI [of _ "au_srcmem at"], rule exI [of _ "au_srcmem_used at"]) simp

lemma mem_step_trans: "mem_step a b \<Longrightarrow> mem_step b c \<Longrightarrow> mem_step a c"
proof -
  assume "mem_step a b" "mem_step b c"
  then obtain m u m' u' where "b = a\<lparr>au_srcmem := m, au_srcmem_used := u\<rparr>" "length m = length (au_srcmem a)"
    "c = b\<lparr>au_srcmem := m', au_srcmem_used := u'\<rparr>" "length m' = length (au_srcmem b)"
    unfolding mem_step_def by blast
  then have "c = a\<lparr>au_srcmem := m', au_srcmem_used := u'\<rparr>" "length m' = length (au_srcmem a)" by simp_all
  then show ?thesis unfolding mem_step_def by blast
qed

text \<open>A lookup changes the memory only, never its size.\<close>

lemma srcmem_get_ok:
  assumes "length (au_srcmem at) < 2 ^ 32"
  shows "\<exists>r at'. at_srcmem_get a now at = Some (r, at') \<and> mem_step at at'"
proof (cases "au_srcmem at = [] \<or> \<not> at_addr_valid a")
  case True
  then have "at_srcmem_get a now at = Some (None, at)" by (simp add: at_srcmem_get_def)
  then show ?thesis by simp
next
  case False
  let ?m = "of_nat (length (au_srcmem at)) - 1 :: u32"
  let ?s = "au_srcmem at"
  have v: "unat (at_srcmem_hash a AND ?m) < length ?s" using False assms by (intro and_mask_lt) simp_all
  obtain r where r: "srcmem_probe ?s a ?m (at_srcmem_hash a AND ?m) 0 (unat (at_srcmem_hash a AND ?m)) 0xFFFFFFFFFFFFFFFF = Some r"
    "probe_slot r < length ?s"
    using srcmem_probe_ok [OF _ assms v refl] False by blast
  have ms: "mem_step at (at\<lparr>au_srcmem := ?s[i := x], au_srcmem_used := u\<rparr>)" "mem_step at (at\<lparr>au_srcmem := ?s[i := x]\<rparr>)" for i x u
    unfolding mem_step_def
    by (rule exI [of _ "?s[i := x]"], rule exI [of _ u], simp) (rule exI [of _ "?s[i := x]"], rule exI [of _ "au_srcmem_used at"], simp)
  show ?thesis
  proof (cases r)
    case (Free i)
    with r False have "at_srcmem_get a now at = Some (Some (i, True),
        at\<lparr>au_srcmem := ?s[i := fresh_mem a now], au_srcmem_used := au_srcmem_used at + 1\<rparr>)"
      by (simp add: at_srcmem_get_def Let_def)
    then show ?thesis using ms by blast
  next
    case (Hit i)
    with r False have "at_srcmem_get a now at = Some (Some (i, False), at\<lparr>au_srcmem := ?s[i := (?s ! i)\<lparr>me_last_seen_ns := now\<rparr>]\<rparr>)"
      by (simp add: at_srcmem_get_def Let_def)
    then show ?thesis using ms by blast
  next
    case (Evict i)
    with r False have "at_srcmem_get a now at = Some (Some (i, True), at\<lparr>au_srcmem := ?s[i := fresh_mem a now]\<rparr>)"
      by (simp add: at_srcmem_get_def Let_def)
    then show ?thesis using ms by blast
  qed
qed

subsection \<open>Bans\<close>

lemma mem_step_upd [simp]: "mem_step at (upd_mem i f at)"
  unfolding mem_step_def upd_mem_def
  by (rule exI [of _ "(au_srcmem at)[i := f (au_srcmem at ! i)]"], rule exI [of _ "au_srcmem_used at"]) simp

lemma mem_step_sel:
  assumes "mem_step at at'"
  shows "au_core at' = au_core at" "length (au_srcmem at') = length (au_srcmem at)" "au_cfg at' = au_cfg at"
  using assms by (auto simp: mem_step_def au_core_def)

lemma offender_delta_ok:
  assumes "length (au_srcmem at) < 2 ^ 32"
  shows "\<exists>y at'. offender_delta now k x at = Some (y, at') \<and> mem_step at at'"
proof (cases "at_addr_valid (of_addr x)")
  case False
  then show ?thesis by (simp add: offender_delta_def)
next
  case True
  obtain r a1 where g: "at_srcmem_get (of_addr x) now at = Some (r, a1)" and m: "mem_step at a1"
    using srcmem_get_ok [OF assms, of "of_addr x" now] by blast
  note mu = mem_step_trans [OF m mem_step_upd]
  show ?thesis
  proof (cases r)
    case None
    then show ?thesis unfolding offender_delta_def Let_def by (simp add: True g m)
  next
    case (Some p)
    obtain i c where p: "p = (i, c)" by (cases p)
    show ?thesis
      unfolding offender_delta_def Let_def g Some p option.case prod.case
      by (cases c) (simp_all add: True mu)
  qed
qed

lemma offender_deltas_ok:
  "length (au_srcmem at) < 2 ^ 32 \<Longrightarrow> \<exists>ys at'. offender_deltas now k xs at = Some (ys, at') \<and> mem_step at at'"
proof (induction xs arbitrary: at)
  case (Cons x xs)
  obtain y a1 where a: "offender_delta now k x at = Some (y, a1)" "mem_step at a1"
    using offender_delta_ok [OF Cons.prems] by blast
  then have "length (au_srcmem a1) < 2 ^ 32" using Cons.prems mem_step_sel(2) by simp
  from Cons.IH [OF this] obtain ys a2 where "offender_deltas now k xs a1 = Some (ys, a2)" "mem_step a1 a2" by blast
  with a show ?case by (auto intro: mem_step_trans)
qed simp

lemma ban_base_ttl_pos: "at_ban_base_ttl at live \<noteq> 0"
  by (simp add: at_ban_base_ttl_def Let_def)

lemma auto_ttl_pos: "base_ttl \<noteq> 0 \<Longrightarrow> auto_ttl live base_ttl max_ttl now old m \<noteq> 0"
  by (simp add: auto_ttl_def Let_def)

lemma auto_ban_limited: "ttl \<noteq> 0 \<Longrightarrow> limited_ban now (auto_ban now ttl base_ttl reason old m)"
  by (simp add: limited_ban_def auto_ban_def)

lemma keep_old_operator: "\<not> keep_old now ttl (case op_ban_lookup ops of None \<Rightarrow> None | Some f \<Rightarrow> f w a) \<Longrightarrow> \<not> operator_ban ops w a"
  by (auto simp: keep_old_def operator_ban_def split: option.splits)

lemma suppress_core: "au_core (suppress at) = au_core at" "au_srcmem (suppress at) = au_srcmem at"
  by (simp_all add: suppress_def au_core_def)

lemma ban_offender_ok:
  assumes "length (au_srcmem at) < 2 ^ 32" "op_ban_add ops = Some add"
  obtains r at' w' where "ban_offender ops add live now k x at w = Some (r, at', w')" "ok_step ops now (at, w) (at', w')"
proof -
  let ?a = "of_addr x"
  let ?b = "at_ban_base_ttl at live"
  let ?mx = "if cfg_ban_ttl_max_ns live \<noteq> 0 then cfg_ban_ttl_max_ns live else ?b * 16"
  obtain s a1 where g: "at_srcmem_get ?a now at = Some (s, a1)" and m1: "mem_step at a1"
    using srcmem_get_ok [OF assms(1), of ?a now] by blast
  define old where "old = (case op_ban_lookup ops of None \<Rightarrow> None | Some f \<Rightarrow> f w ?a)"
  define m where "m = map_option (\<lambda>(i, _). au_srcmem a1 ! i) s"
  define ttl where "ttl = auto_ttl live ?b ?mx now old m"
  define be where "be = auto_ban now ttl ?b (at_ban_reason at) old m"
  have lim: "limited_ban now be"
    unfolding be_def ttl_def by (intro auto_ban_limited auto_ttl_pos ban_base_ttl_pos)
  have sup: "ok_step ops now (at, w) (suppress a, w')" if "ok_step ops now (at, w) (a, w')" for a w'
    by (rule ok_step_trans [OF that ok_step_core]) (simp_all add: suppress_core)
  have s0: "ok_step ops now (at, w) (a1, w)" using mem_step_sel [OF m1] by (intro ok_step_core)
  show thesis
  proof (cases "\<not> at_addr_valid ?a \<or> of_drops_delta x < tu_ban_min_drops (au_cfg at) \<or>
            k \<noteq> 0 \<and> of_share_pct x < tu_ban_min_share_pct (au_cfg at)")
    case True
    then have "ban_offender ops add live now k x at w = Some (None, at, w)" by (simp add: ban_offender_def Let_def)
    then show thesis by (rule that) simp
  next
    case plaus: False
    show thesis
    proof (cases "allowlisted ops w ?a")
      case True
      then have "ban_offender ops add live now k x at w = Some (None, suppress at, w)"
        using plaus unfolding ban_offender_def Let_def allowlisted_def by (simp only: if_False if_True)
      then show thesis by (rule that) (rule sup, simp)
    next
      case nal: False
      have eq: "ban_offender ops add live now k x at w =
          (if keep_old now ttl old then Some (None, suppress a1, w)
           else let (ok, w) = (if tu_dry_run (au_cfg at) then (True, w) else add ?a be w)
                in if \<not> ok then Some (None, suppress a1, w)
                   else let a2 = (case s of None \<Rightarrow> a1 | Some (i, _) \<Rightarrow>
                          upd_mem i (\<lambda>e. e\<lparr>me_cur_ttl_ns := ttl, me_last_ban_ns := now,
                            me_ban_expires_ns := be_expiry_ns be, me_offences := be_offences be\<rparr>) a1)
                        in Some (Some \<lparr>br_addr = ?a, br_ttl_ns = ttl, br_drops = of_drops_delta x,
                                  br_offences = be_offences be, br_reason = at_ban_reason at\<rparr>,
                             a2\<lparr>au_bans_issued := au_bans_issued a2 + 1\<rparr>, w))"
        using plaus nal unfolding ban_offender_def Let_def allowlisted_def g option.case prod.case old_def [symmetric] m_def [symmetric]
          ttl_def [symmetric] be_def [symmetric] mem_step_sel(3) [OF m1]
        by (simp only: if_False)
      show thesis
      proof (cases "keep_old now ttl old")
        case True
        then show thesis using eq sup [OF s0] by (intro that) (simp_all only: if_True)
      next
        case False
        obtain ok w1 where w1: "(if tu_dry_run (au_cfg at) then (True, w) else add ?a be w) = (ok, w1)" by fastforce
        have "permitted ops (au_base at) now w (snd (add ?a be w))"
          using plaus nal lim keep_old_operator [where now = now and ttl = ttl and ops = ops and w = w and a = ?a] False assms(2)
          by (intro p_ban) (simp_all add: old_def)
        then have ac: "acts ops (au_base at) now w w1" using w1 by (auto split: if_splits)
        have s1: "ok_step ops now (at, w) (a1, w1)"
          using s0 ac by (simp add: ok_step_def)
        define a2 where "a2 = (case s of None \<Rightarrow> a1 | Some (i, _) \<Rightarrow>
            upd_mem i (\<lambda>e. e\<lparr>me_cur_ttl_ns := ttl, me_last_ban_ns := now,
              me_ban_expires_ns := be_expiry_ns be, me_offences := be_offences be\<rparr>) a1)"
        have "mem_step a1 a2" by (simp add: a2_def split: option.splits)
        moreover have "au_core (a2\<lparr>au_bans_issued := n\<rparr>) = au_core a2" for n by (simp add: au_core_def)
        ultimately have s2: "ok_step ops now (at, w) (a2\<lparr>au_bans_issued := au_bans_issued a2 + 1\<rparr>, w1)"
          by (intro ok_step_trans [OF s1] ok_step_core) (simp_all add: mem_step_sel)
        note eq1 = eq [unfolded w1 Let_def prod.case a2_def [symmetric] if_not_P [OF False]]
        show thesis
        proof (cases ok)
          case True
          then have "ban_offender ops add live now k x at w = Some (Some \<lparr>br_addr = ?a, br_ttl_ns = ttl,
              br_drops = of_drops_delta x, br_offences = be_offences be, br_reason = at_ban_reason at\<rparr>,
              a2\<lparr>au_bans_issued := au_bans_issued a2 + 1\<rparr>, w1)" using eq1 by (simp only: not_True_eq_False if_False)
          then show thesis using s2 by (rule that)
        next
          case False
          then have "ban_offender ops add live now k x at w = Some (None, suppress a1, w1)"
            using eq1 by (simp only: not_False_eq_True if_True)
          then show thesis using sup [OF s1] by (rule that)
        qed
      qed
    qed
  qed
qed


lemma ok_step_mem:
  "ok_step ops now (a, w) (a', w') \<Longrightarrow> au_inv a \<Longrightarrow> length (au_srcmem a') = length (au_srcmem a) \<and> au_inv a'"
  by (simp add: ok_step_def)

lemma ban_offenders_ok:
  assumes "op_ban_add ops = Some add"
  shows "au_inv at \<Longrightarrow> length (au_srcmem at) < 2 ^ 32 \<Longrightarrow>
    \<exists>rs at' w'. ban_offenders ops add live now k xs n at w = Some (rs, at', w') \<and> ok_step ops now (at, w) (at', w')"
proof (induction xs arbitrary: n at w)
  case (Cons x xs)
  show ?case
  proof (cases "n < tu_max_bans_per_tick (au_cfg at)")
    case True
    obtain r a1 w1 where b: "ban_offender ops add live now k x at w = Some (r, a1, w1)" and s1: "ok_step ops now (at, w) (a1, w1)"
      by (rule ban_offender_ok [OF Cons.prems(2) assms])
    have i: "au_inv a1" "length (au_srcmem a1) < 2 ^ 32" using ok_step_mem [OF s1 Cons.prems(1)] Cons.prems(2) by simp_all
    from Cons.IH [OF i] obtain rs a2 w2 where
      "ban_offenders ops add live now k xs (if r = None then n else n + 1) a1 w1 = Some (rs, a2, w2)" "ok_step ops now (a1, w1) (a2, w2)"
      by blast
    with True b ok_step_trans [OF s1] show ?thesis by simp
  qed simp
qed simp

lemma autoban_ok:
  assumes "au_inv at" "length (au_srcmem at) < 2 ^ 32"
  shows "\<exists>rs at' w'. at_autoban ops live now at w = Some (rs, at', w') \<and> ok_step ops now (at, w) (at', w')"
proof (cases "op_top_offenders ops = None \<or> op_ban_add ops = None")
  case True
  then show ?thesis by (auto simp: at_autoban_def split: option.splits)
next
  case False
  then obtain f add where o: "op_top_offenders ops = Some f" "op_ban_add ops = Some add" by auto
  define cur where "cur = au_prev_gauge at G_DROPS"
  define k where "k = (if cur \<ge> au_last_ban_pass_drops at then cur - au_last_ban_pass_drops at else 0)"
  define a1 where "a1 = at\<lparr>au_last_ban_pass_ns := now, au_last_ban_pass_drops := cur\<rparr>"
  have c1: "au_core a1 = au_core at" "au_srcmem a1 = au_srcmem at" by (simp_all add: a1_def au_core_def)
  then have l1: "length (au_srcmem a1) < 2 ^ 32" using assms(2) by simp
  obtain ys a2 where d: "offender_deltas now k (take AT_TOP_MAX (f w)) a1 = Some (ys, a2)" "mem_step a1 a2"
    using offender_deltas_ok [OF l1] by blast
  have c2: "au_core a2 = au_core at" "length (au_srcmem a2) = length (au_srcmem at)"
    using mem_step_sel [OF d(2)] c1 by simp_all
  have s2: "ok_step ops now (at, w) (a2, w)" by (rule ok_step_core [OF c2])
  have i2: "au_inv a2" "length (au_srcmem a2) < 2 ^ 32" using au_core_eq(3) [OF c2(1)] c2(2) assms by simp_all
  obtain rs a3 w3 where b: "ban_offenders ops add live now k (at_sort_offenders ys) 0 a2 w = Some (rs, a3, w3)"
    "ok_step ops now (a2, w) (a3, w3)" using ban_offenders_ok [OF o(2) i2] by blast
  have "at_autoban ops live now at w = Some ([], at, w) \<or> at_autoban ops live now at w = Some (take AT_ALERT_BANS_MAX rs, a3, w3)"
    unfolding at_autoban_def o option.case prod.case Let_def cur_def [symmetric] k_def [symmetric] a1_def [symmetric] d(1) b(1)
    by simp
  then show ?thesis using ok_step_trans [OF s2 b(2)] ok_step_refl by blast
qed

subsection \<open>Alerts and samples\<close>

lemma emit_alert_core: "au_core (at_emit_alert io kind now at) = au_core at" "au_srcmem (at_emit_alert io kind now at) = au_srcmem at"
proof -
  have f: "au_core (alert_fail a) = au_core a" "au_srcmem (alert_fail a) = au_srcmem a" for a
    by (simp_all add: alert_fail_def au_core_def)
  have l: "au_core (a\<lparr>au_last_hook_ns := n\<rparr>) = au_core a" "au_core (a\<lparr>au_alerts_emitted := n\<rparr>) = au_core a" for a n
    by (simp_all add: au_core_def)
  have h: "au_core (at_hook_fire io kind now a) = au_core a" "au_srcmem (at_hook_fire io kind now a) = au_srcmem a" for a
    unfolding at_hook_fire_def Let_def by (simp_all add: f l)
  show "au_core (at_emit_alert io kind now at) = au_core at" "au_srcmem (at_emit_alert io kind now at) = au_srcmem at"
    unfolding at_emit_alert_def Let_def by (simp_all add: f l h)
qed

lemma step_alerts_core: "au_core (step_alerts io pm pc n now at) = au_core at" "au_srcmem (step_alerts io pm pc n now at) = au_srcmem at"
proof -
  have l: "au_core (a\<lparr>au_last_heartbeat_ns := n\<rparr>) = au_core a" for a n by (simp add: au_core_def)
  show "au_core (step_alerts io pm pc n now at) = au_core at" "au_srcmem (step_alerts io pm pc n now at) = au_srcmem at"
    unfolding step_alerts_def Let_def by (simp_all add: l emit_alert_core)
qed

lemma learn_core: "au_core (learn_sample live s now dt at) = au_core at" "au_srcmem (learn_sample live s now dt at) = au_srcmem at"
proof -
  have d: "au_core (at_detect a live) = au_core a" "au_srcmem (at_detect a live) = au_srcmem a" for a
    unfolding at_detect_def Let_def case_prod_beta by (simp_all add: au_core_def)
  have r: "au_core (at_compute_rates a s dt) = au_core a" "au_srcmem (at_compute_rates a s dt) = au_srcmem a" for a
    unfolding at_compute_rates_def Let_def by (simp_all add: au_core_def)
  have e: "au_core (at_compute_reason_rates a s dt f) = au_core a" "au_srcmem (at_compute_reason_rates a s dt f) = au_srcmem a" for a f
    unfolding at_compute_reason_rates_def by (simp_all add: au_core_def split: option.splits)
  have c: "au_core (at_classify a live) = au_core a" "au_srcmem (at_classify a live) = au_srcmem a" for a
    unfolding at_classify_def Let_def case_prod_beta by (simp_all add: au_core_def)
  have t: "au_core (a\<lparr>au_track := x\<rparr>) = au_core a"
    "au_core (a\<lparr>au_last_ts_ns := p, au_last_dt_ns := q, au_sample_count := n\<rparr>) = au_core a" for a x p q n
    by (simp_all add: au_core_def)
  show "au_core (learn_sample live s now dt at) = au_core at" "au_srcmem (learn_sample live s now dt at) = au_srcmem at"
    unfolding learn_sample_def Let_def by (simp_all add: t c e d r)
qed

lemma step_mode_core: "at_step_mode at live now = (m, at') \<Longrightarrow> au_core (set_mode m now at') = au_core at \<and> au_srcmem (set_mode m now at') = au_srcmem at"
proof -
  have u: "au_core (snd (mode_up a)) = au_core a \<and> au_srcmem (snd (mode_up a)) = au_srcmem a" for a
    by (simp add: mode_up_def Let_def au_core_def)
  have d: "au_core (snd (mode_down a l n)) = au_core a \<and> au_srcmem (snd (mode_down a l n)) = au_srcmem a" for a l n
    by (simp add: mode_down_def Let_def au_core_def)
  have t: "au_core (a\<lparr>au_target_mode := x\<rparr>) = au_core a" "au_core (a\<lparr>au_target_mode := x, au_up_count := 0, au_down_count := 0\<rparr>) = au_core a"
    for a x by (simp_all add: au_core_def)
  have "au_core (snd (at_step_mode a l n)) = au_core a \<and> au_srcmem (snd (at_step_mode a l n)) = au_srcmem a" for a l n
    unfolding at_step_mode_def Let_def by (simp add: u d t)
  moreover have "au_core (set_mode m now a) = au_core a \<and> au_srcmem (set_mode m now a) = au_srcmem a" for a
    by (simp add: set_mode_def au_core_def)
  moreover assume "at_step_mode at live now = (m, at')"
  ultimately show ?thesis by (metis snd_conv)
qed


lemma act_push_ok: "act_push ops live at w = (at', w') \<Longrightarrow> ok_step ops now (at, w) (at', w')"
proof -
  assume a: "act_push ops live at w = (at', w')"
  obtain a1 w1 where s: "at_side_policy ops (au_mode at) (au_class_mask at) (at, w) = (a1, w1)" by fastforce
  obtain rc a2 w2 where p: "at_push_config ops live (au_mode a1) (au_class_mask a1) a1 w1 = (rc, a2, w2)" by (metis prod_cases3)
  have "ok_step ops now (at, w) (a1, w1)" using side_policy_ok [of ops now "(at, w)" "au_mode at" "au_class_mask at"] s by simp
  from ok_step_trans [OF this push_config_ok [OF p]] have s2: "ok_step ops now (at, w) (a2, w2)" .
  have "au_core (a2\<lparr>au_applied_mode := x, au_applied_class_mask := y\<rparr>) = au_core a2" for x y by (simp add: au_core_def)
  then have s3: "ok_step ops now (at, w) (a2\<lparr>au_applied_mode := x, au_applied_class_mask := y\<rparr>, w2)" for x y
    by (intro ok_step_trans [OF s2] ok_step_core) simp_all
  show ?thesis
    using a s3 unfolding act_push_def Let_def s prod.case p by (auto split: if_splits)
qed

lemma autotune_step_ok:
  assumes "au_inv at" "length (au_srcmem at) < 2 ^ 32"
  shows "\<exists>rc at' w'. autotune_step ops now s at w = Some (rc, at', w') \<and> ok_step ops now (at, w) (at', w')"
proof -
  define live where "live = step_live ops s at w"
  define a1 where "a1 = adopt_mode live now at"
  have c1: "au_core a1 = au_core at" "au_srcmem a1 = au_srcmem at"
    by (simp_all add: a1_def adopt_mode_def au_core_def)
  have s1: "ok_step ops now (at, w) (a1, w)" by (rule ok_step_core) (simp_all add: c1)
  have fs: "au_core (first_sample s now a1) = au_core at" "au_srcmem (first_sample s now a1) = au_srcmem at"
    using c1 by (simp_all add: first_sample_def Let_def au_core_def split: option.splits)
  define a2 where "a2 = learn_sample live s now (now - au_last_ts_ns a1) a1"
  obtain m a3' where m: "at_step_mode a2 live now = (m, a3')" by fastforce
  define a3 where "a3 = set_mode m now a3'"
  have c3: "au_core a3 = au_core at" "au_srcmem a3 = au_srcmem at"
    using step_mode_core [OF m] c1 by (simp_all add: a3_def a2_def learn_core)
  obtain a4 w4 where p: "act_push ops live a3 w = (a4, w4)" by fastforce
  have s3: "ok_step ops now (at, w) (a3, w)" by (rule ok_step_core) (simp_all add: c3)
  have s4: "ok_step ops now (at, w) (a4, w4)" by (rule ok_step_trans [OF s3 act_push_ok [OF p]])
  have i4: "au_inv a4" "length (au_srcmem a4) < 2 ^ 32" using ok_step_mem [OF s4 assms(1)] assms(2) by simp_all
  obtain rs a5 w5 where b: "at_autoban ops live now a4 w4 = Some (rs, a5, w5)" "ok_step ops now (a4, w4) (a5, w5)"
    using autoban_ok [OF i4, where ops = ops and live = live and now = now and w = w4] by blast
  have s6: "ok_step ops now (at, w) (step_alerts (op_io ops w5) (au_mode a1) (au_class_mask a1) (length rs) now a5, w5)"
    by (intro ok_step_trans [OF ok_step_trans [OF s4 b(2)]] ok_step_core) (simp_all add: step_alerts_core)
  have e: "ok_step ops now (at, w) (at_emit_alert io k now (at\<lparr>au_abi_warned := True\<rparr>), w)" for io k
    by (rule ok_step_core) (simp_all add: emit_alert_core, simp add: au_core_def)
  have s2: "ok_step ops now (at, w) (first_sample s now a1, w)" by (rule ok_step_core) (simp_all add: fs)
  show ?thesis
    unfolding autotune_step_def Let_def live_def [symmetric] a1_def [symmetric] a2_def [symmetric] m prod.case a3_def [symmetric] p b(1)
    using s1 s2 s6 e by simp
qed

lemma autotune_tick_ok:
  assumes "au_inv at" "length (au_srcmem at) < 2 ^ 32"
  shows "\<exists>rc at' w'. autotune_tick ops now at w = Some (rc, at', w') \<and> ok_step ops now (at, w) (at', w')"
proof -
  obtain u w1 where u: "(case op_unique_sources ops of None \<Rightarrow> (None, w) | Some f \<Rightarrow> f w) = (u, w1)" by fastforce
  have "acts ops (au_base at) now w w1"
    using u p_uniq [of ops _ "au_base at" now w] by (auto split: option.splits intro!: acts_one)
  then have s1: "ok_step ops now (at, w) (at, w1)" using assms(1) by (simp add: ok_step_def)
  show ?thesis
  proof (cases "au_init_done at \<and> (\<exists>g. op_gauges_read ops w = Inr g)")
    case True
    then obtain g where g: "op_gauges_read ops w = Inr g" by blast
    define sm where "sm = \<lparr>sm_gauge = g, sm_stat = (case op_stats_read ops of None \<Rightarrow> None | Some f \<Rightarrow> f w),
       sm_conn_entries = (case op_conn_count ops of None \<Rightarrow> None | Some f \<Rightarrow> f w), sm_uniq_sources = u,
       sm_live = (case op_config_read ops w of Inr c \<Rightarrow> Some c | Inl _ \<Rightarrow> None)\<rparr>"
    have "autotune_tick ops now at w = autotune_step ops now sm at w1"
      using True g u by (simp add: autotune_tick_def sm_def)
    then show ?thesis using autotune_step_ok [OF assms, of ops now sm w1] ok_step_trans [OF s1] by metis
  next
    case False
    then show ?thesis by (cases "op_gauges_read ops w") (auto simp: autotune_tick_def)
  qed
qed


subsection \<open>Start and overrides\<close>

lemma pow2_loop_returns:
  "0 < unat p \<Longrightarrow> unat p < 524288 \<Longrightarrow>
     \<exists>q. pow2_loop p v AT_SRCMEM_MAX = Some q \<and> unat p \<le> unat q \<and> unat q < 524288"
proof (induction "262144 - unat p" arbitrary: p rule: less_induct)
  case less
  show ?case
  proof (cases "p < v \<and> p < AT_SRCMEM_MAX")
    case False
    then have "pow2_loop p v AT_SRCMEM_MAX = Some p" by (subst pow2_loop.simps) (simp only: if_False)
    then show ?thesis using less.prems by simp
  next
    case True
    then have l: "unat p < 262144" by (simp add: word_less_nat_alt)
    have d: "unat (push_bit 1 p) = 2 * unat p" using l by (simp add: push_bit_eq_mult unat_word_ariths)
    have "\<exists>q. pow2_loop (push_bit 1 p) v AT_SRCMEM_MAX = Some q \<and> unat (push_bit 1 p) \<le> unat q \<and> unat q < 524288"
      by (rule less.hyps) (use l d less.prems in simp_all)
    moreover have "pow2_loop p v AT_SRCMEM_MAX = pow2_loop (push_bit 1 p) v AT_SRCMEM_MAX"
      by (rule trans [OF pow2_loop.simps if_P [OF True]])
    ultimately show ?thesis using d by fastforce
  qed
qed

text \<open>The module starts with its invariant, whatever it is given.\<close>

lemma init_ok:
  assumes "\<And>c. op_config_read ops w = Inr c \<Longrightarrow> mgmt_arrays c"
  shows "\<exists>r. autotune_init ops cfg w = Some r \<and> (\<forall>at. r = Inr at \<longrightarrow> au_inv at \<and> au_init_done at \<and> length (au_srcmem at) < 524288)"
proof (cases "op_config_read ops w")
  case (Inl rc)
  then show ?thesis by (simp add: autotune_init_def)
next
  case (Inr c)
  define tu where "tu = at_sanitise_tunables (case cfg of Some t \<Rightarrow> t | None \<Rightarrow> autotune_tunables_default)"
  define n where "n = (if tu_srcmem_entries tu \<noteq> 0 then tu_srcmem_entries tu else 4096)"
  have "\<exists>cap. at_round_pow2 n AT_SRCMEM_MIN AT_SRCMEM_MAX = Some cap \<and> unat cap < 524288"
    using pow2_loop_returns [of AT_SRCMEM_MIN] by (auto simp: at_round_pow2_def Let_def)
  then obtain cap where cap: "at_round_pow2 n AT_SRCMEM_MIN AT_SRCMEM_MAX = Some cap" "unat cap < 524288" by blast
  define b where "b = fst (at_enforce_mgmt (known_abi c))"
  have ka: "mgmt_arrays (known_abi c)" using assms [OF Inr] by (simp add: known_abi_def mgmt_arrays_def)
  obtain k ps u where e: "b = (known_abi c)\<lparr>cfg_mgmt_tcp_ports := ps, cfg_mgmt_tcp_count := k, cfg_mgmt_udp_count := u\<rparr>"
    and ps: "length ps = 16"
    using ka by (rule_tac enforce_mgmt_cases [of "known_abi c"]) (auto simp: mgmt_arrays_def b_def)
  have "mgmt_arrays b" using ka ps by (simp add: e mgmt_arrays_def)
  then have i: "au_inv (at_fresh tu b live m p mem)" "au_init_done (at_fresh tu b live m p mem)"
    "au_srcmem (at_fresh tu b live m p mem) = mem" for live m p mem
    by (simp_all add: au_inv_def at_fresh_def)
  have w: "au_inv (at_webhook_probe io (at_alert_sink_open io a)) = au_inv a"
    "au_init_done (at_webhook_probe io (at_alert_sink_open io a)) = au_init_done a"
    "au_srcmem (at_webhook_probe io (at_alert_sink_open io a)) = au_srcmem a" for io a
    by (simp_all add: at_webhook_probe_def at_alert_sink_open_def Let_def au_inv_def split: option.splits)
  show ?thesis
    unfolding autotune_init_def Let_def tu_def [symmetric] n_def [symmetric] Inr sum.case cap(1) option.case b_def [symmetric]
    using cap(2) by (simp add: i w)
qed

lemma base_step_ok:
  assumes "au_inv at" "mgmt_arrays cfg" "autotune_set_base_config ops cfg at w = (rc, at', w')"
  shows "acts ops (au_base at') now w w'" "au_inv at'" "length (au_srcmem at') = length (au_srcmem at)"
proof -
  define b where "b = fst (at_enforce_mgmt (known_abi cfg))"
  have ka: "mgmt_arrays (known_abi cfg)" using assms(2) by (simp add: known_abi_def mgmt_arrays_def)
  obtain k ps u where e: "b = (known_abi cfg)\<lparr>cfg_mgmt_tcp_ports := ps, cfg_mgmt_tcp_count := k, cfg_mgmt_udp_count := u\<rparr>"
    and ps: "length ps = 16"
    using ka by (rule_tac enforce_mgmt_cases [of "known_abi cfg"]) (auto simp: mgmt_arrays_def b_def)
  have mb: "mgmt_arrays b" using ka ps by (simp add: e mgmt_arrays_def)
  define a1 where "a1 = at\<lparr>au_base := b, au_have_base := True, au_pinned := operator_state (cfg_mode b),
      au_mode := (if cfg_mode b < FW_MODE_MAX then cfg_mode b else au_mode at),
      au_up_count := 0, au_down_count := 0, au_mode_since_ns := au_last_ts_ns at\<rparr>"
  define a2 where "a2 = a1\<lparr>au_have_applied := False\<rparr>"
  have i2: "au_inv a2" "au_base a2 = b" "au_srcmem a2 = au_srcmem at"
    using assms(1) mb by (simp_all add: a2_def a1_def au_inv_def)
  obtain a3 w3 where s: "at_side_policy ops (au_mode a2) (au_class_mask a2) (a2, w) = (a3, w3)" by fastforce
  obtain rc1 a4 w4 where p: "at_push_config ops (read_live ops a1 w) (au_mode a3) (au_class_mask a3) a3 w3 = (rc1, a4, w4)"
    by (metis prod_cases3)
  have "ok_step ops now (a2, w) (a3, w3)" using side_policy_ok [of ops now "(a2, w)" "au_mode a2" "au_class_mask a2"] s by simp
  from ok_step_trans [OF this push_config_ok [OF p]] have "ok_step ops now (a2, w) (a4, w4)" .
  then have o: "acts ops b now w w4" "au_inv a4" "au_base a4 = b" "length (au_srcmem a4) = length (au_srcmem at)"
    using i2 by (simp_all add: ok_step_def)
  have "(rc, at', w') = (RC_PROTO, at, w) \<or> (rc, at', w') = (rc1, a4, w4)"
    using assms(3) unfolding autotune_set_base_config_def Let_def b_def [symmetric] a1_def [symmetric] a2_def [symmetric] s prod.case p
    by (auto split: if_splits)
  then show "acts ops (au_base at') now w w'" "au_inv at'" "length (au_srcmem at') = length (au_srcmem at)"
    using o assms(1) by auto
qed

lemma force_mode_ok:
  assumes "autotune_force_mode ops mode now at w = (rc, at', w')"
  shows "ok_step ops now (at, w) (at', w')"
proof -
  define a1 where "a1 = at\<lparr>au_mode := mode, au_mode_since_ns := now, au_up_count := 0, au_down_count := 0,
      au_pinned := operator_state mode\<rparr>"
  have s1: "ok_step ops now (at, w) (a1, w)" by (rule ok_step_core) (simp_all add: a1_def au_core_def)
  obtain a2 w2 where s: "at_side_policy ops mode (au_class_mask a1) (a1, w) = (a2, w2)" by fastforce
  define k where "k = (if mode > au_mode at then AT_EV_MODE_UP else AT_EV_MODE_DOWN)"
  define a3 where "a3 = at_emit_alert (op_io ops w2) k now a2"
  have "ok_step ops now (a1, w) (a2, w2)" using side_policy_ok [of ops now "(a1, w)" mode "au_class_mask a1"] s by simp
  moreover have "ok_step ops now (a2, w2) (a3, w2)" by (rule ok_step_core) (simp_all add: a3_def emit_alert_core)
  ultimately have s3: "ok_step ops now (at, w) (a3, w2)" using s1 ok_step_trans by blast
  have "(rc, at', w') = (RC_INVAL, at, w) \<or>
      at_push_config ops (read_live ops a1 w) (au_mode a3) (au_class_mask a3) a3 w2 = (rc, at', w')"
    using assms unfolding autotune_force_mode_def Let_def a1_def [symmetric] s prod.case k_def [symmetric] a3_def [symmetric]
    by (auto split: if_splits)
  then show ?thesis using s3 push_config_ok ok_step_trans by (metis ok_step_refl prod.inject)
qed

end
