(* ===== verification/Caly_Autorun.thy ===== *)
theory Caly_Autorun
  imports Caly_Autotune "HOL-Library.Multiset"
begin

text \<open>
  Whole runs of the controller of \<open>src/user/autotune.c\<close>: a start, any sequence of ticks, forced modes, new baselines
  and events, and the end.  The commands of \<open>at_cmd\<close> are the entry points the rest of the daemon may call; what
  the callbacks of \<open>struct at_ops\<close> are documented to do to the maps behind them is stated by \<open>store_laws\<close> and
  \<open>policy_laws\<close>.  The theory shows that a run keeps the administrator's access, that the temporary port and ICMP
  policies are undone at its end, that a tick stays within the contract of \<open>Caly_Autotune\<close>, and what
  becomes of a configuration write that fails.
\<close>

section \<open>Whole runs\<close>

text \<open>What the rest of the daemon may ask of the module between its start and its end.\<close>

datatype at_cmd = Tick u64 | Step u64 at_sample | Force u32 u64 | Base fw_config | Unpin u64 | Note u32

fun at_exec :: "'w at_ops \<Rightarrow> at_cmd \<Rightarrow> autotune \<times> 'w \<Rightarrow> (autotune \<times> 'w) option" where
  "at_exec ops (Tick now) (at, w) = map_option snd (autotune_tick ops now at w)"
| "at_exec ops (Step now s) (at, w) = map_option snd (autotune_step ops now s at w)"
| "at_exec ops (Force m now) (at, w) = Some (snd (autotune_force_mode ops m now at w))"
| "at_exec ops (Base c) (at, w) = Some (snd (autotune_set_base_config ops c at w))"
| "at_exec ops (Unpin now) (at, w) = Some (autotune_unpin now at, w)"
| "at_exec ops (Note r) (at, w) = Some (autotune_note_event r at, w)"

primrec at_run :: "'w at_ops \<Rightarrow> at_cmd list \<Rightarrow> autotune \<times> 'w \<Rightarrow> (autotune \<times> 'w) option" where
  "at_run ops [] x = Some x"
| "at_run ops (c # cs) x = (case at_exec ops c x of None \<Rightarrow> None | Some y \<Rightarrow> at_run ops cs y)"

fun cmd_ok :: "at_cmd \<Rightarrow> bool" where
  "cmd_ok (Base c) = mgmt_arrays c"
| "cmd_ok _ = True"

text \<open>What the callbacks are documented to do to the configuration map: \<open>config_write\<close> stores its argument or
  fails and leaves the map as it was, \<open>config_read\<close> returns its contents, and no other callback touches it.\<close>

definition store_laws :: "'w at_ops \<Rightarrow> ('w \<Rightarrow> fw_config) \<Rightarrow> bool" where
  "store_laws ops stored \<longleftrightarrow>
     (\<forall>w c. op_config_read ops w = Inr c \<longrightarrow> c = stored w) \<and>
     (\<forall>f c w. op_config_write ops = Some f \<longrightarrow> stored (snd (f c w)) \<in> {c, stored w}) \<and>
     (\<forall>f a be w. op_ban_add ops = Some f \<longrightarrow> stored (snd (f a be w)) = stored w) \<and>
     (\<forall>f t p r w. op_port_rule_set ops = Some f \<longrightarrow> stored (snd (f t p r w)) = stored w) \<and>
     (\<forall>f t p r w. op_icmp_pol_set ops = Some f \<longrightarrow> stored (snd (f t p r w)) = stored w) \<and>
     (\<forall>f w. op_unique_sources ops = Some f \<longrightarrow> stored (snd (f w)) = stored w)"

text \<open>A configuration under which the administrator gets in.\<close>

definition admin_safe :: "fw_config \<Rightarrow> bool" where
  "admin_safe c \<longleftrightarrow> caly_is_mgmt_tcp c 22 \<and>
     (cfg_mode c = FW_MODE_LOCKDOWN \<longrightarrow>
        has_flag (cfg_flags c) CALY_F_ALLOWLIST \<and> has_flag (cfg_flags c) CALY_F_MGMT_BYPASS_ALL \<and>
        has_flag (cfg_flags c) CALY_F_CONNTRACK \<and> has_flag (cfg_flags c) CALY_F_LOCKDOWN_ICMP)"

lemma permitted_stored:
  "permitted ops base now w w' \<Longrightarrow> store_laws ops stored \<Longrightarrow> stored w' = stored w \<or> admin_safe (stored w')"
proof (induction rule: permitted.cases)
  case (p_write f c v)
  then have "stored (snd (f c v)) \<in> {c, stored v}" unfolding store_laws_def by blast
  moreover have "admin_safe c" using p_write(4) by (simp add: keeps_access_def admin_safe_def)
  ultimately show ?case unfolding p_write(1,2) by (metis insertE singletonD)
qed (simp_all add: store_laws_def)

lemma at_exec_ok:
  assumes "au_inv (fst x)" "length (au_srcmem (fst x)) < 2 ^ 32" "cmd_ok cmd"
  shows "\<exists>y base now. at_exec ops cmd x = Some y \<and> acts ops base now (snd x) (snd y) \<and> au_inv (fst y) \<and>
    length (au_srcmem (fst y)) = length (au_srcmem (fst x))"
proof (cases x)
  case (Pair at w)
  have a: "au_inv at" "length (au_srcmem at) < 2 ^ 32" using assms Pair by simp_all
  have ok: ?thesis if "at_exec ops cmd x = Some y" "ok_step ops now x y" for y now
    using that assms(1) unfolding ok_step_def by blast
  have core: "ok_step ops 0 (at, w) (autotune_unpin now at, w)" "ok_step ops 0 (at, w) (autotune_note_event r at, w)" for now r
    by (rule ok_step_core; simp add: autotune_unpin_def autotune_note_event_def au_core_def)+
  show ?thesis
  proof (cases cmd)
    case (Tick now)
    with autotune_tick_ok [OF a, of ops now w] Pair ok show ?thesis by fastforce
  next
    case (Step now s)
    with autotune_step_ok [OF a, of ops now s w] Pair ok show ?thesis by fastforce
  next
    case (Force m now)
    obtain rc at' w' where "autotune_force_mode ops m now at w = (rc, at', w')" by (metis prod_cases3)
    with force_mode_ok [OF this] Force Pair ok show ?thesis by fastforce
  next
    case (Base c)
    obtain rc at' w' where r: "autotune_set_base_config ops c at w = (rc, at', w')" by (metis prod_cases3)
    have c: "mgmt_arrays c" using assms(3) Base by simp
    have "acts ops (au_base at') 0 w w' \<and> au_inv at' \<and> length (au_srcmem at') = length (au_srcmem at)"
      using base_step_ok [OF a(1) c r] by blast
    then show ?thesis using r Base Pair by auto
  next
    case (Unpin now)
    with core(1) Pair ok show ?thesis by fastforce
  next
    case (Note r)
    with core(2) Pair ok show ?thesis by fastforce
  qed
qed

text \<open>A run returns, and what every permitted action keeps of the world holds at its end.\<close>

lemma at_run_ok:
  assumes "au_inv (fst x)" "length (au_srcmem (fst x)) < 2 ^ 32" "\<forall>c\<in>set cmds. cmd_ok c" "Q (snd x)"
    and q: "\<And>base now w w'. permitted ops base now w w' \<Longrightarrow> Q w \<Longrightarrow> Q w'"
  shows "\<exists>y. at_run ops cmds x = Some y \<and> au_inv (fst y) \<and> Q (snd y)"
  using assms(1-4)
proof (induction cmds arbitrary: x)
  case (Cons c cs)
  obtain y base now where y: "at_exec ops c x = Some y" "acts ops base now (snd x) (snd y)" "au_inv (fst y)"
    "length (au_srcmem (fst y)) = length (au_srcmem (fst x))"
    using at_exec_ok [OF Cons.prems(1,2), of c ops] Cons.prems(3) by auto
  have "Q (snd y)" using y(2) Cons.prems(4) by (induction rule: rtranclp_induct) (use q in blast)+
  with Cons.IH [of y] y Cons.prems show ?case by auto
qed simp


section \<open>The temporary policies are undone\<close>

text \<open>What the callbacks are documented to do to the port rules and the ICMP policies: a setter changes its own
  entry and reports success, and no other callback touches them.\<close>

type_synonym policies = "(bool \<Rightarrow> u16 \<Rightarrow> port_rule option) \<times> (bool \<Rightarrow> u8 \<Rightarrow> u32 option)"

definition policy_laws :: "'w at_ops \<Rightarrow> ('w \<Rightarrow> policies) \<Rightarrow> bool" where
  "policy_laws ops pols \<longleftrightarrow>
     op_port_rule_get ops = Some (\<lambda>w. fst (pols w)) \<and> op_icmp_pol_get ops = Some (\<lambda>w. snd (pols w)) \<and>
     (\<exists>f. op_port_rule_set ops = Some f \<and> (\<forall>t p r w. fst (f t p r w) \<and>
        pols (snd (f t p r w)) = ((fst (pols w))(t := (fst (pols w) t)(p \<mapsto> r)), snd (pols w)))) \<and>
     (\<exists>f. op_icmp_pol_set ops = Some f \<and> (\<forall>v t c w. fst (f v t c w) \<and>
        pols (snd (f v t c w)) = (fst (pols w), (snd (pols w))(v := (snd (pols w) v)(t \<mapsto> c))))) \<and>
     (\<forall>f c w. op_config_write ops = Some f \<longrightarrow> pols (snd (f c w)) = pols w) \<and>
     (\<forall>f a be w. op_ban_add ops = Some f \<longrightarrow> pols (snd (f a be w)) = pols w) \<and>
     (\<forall>f w. op_unique_sources ops = Some f \<longrightarrow> pols (snd (f w)) = pols w)"

text \<open>The policies the module has in force over the operator's: the mark on the ports it touched, the limit on
  the echo requests it changed; in a dry run, nothing.\<close>

definition amp_mark :: "port_rule \<Rightarrow> port_rule" where
  "amp_mark pr = pr\<lparr>pr_flags := pr_flags pr OR CALY_PORT_F_AMPLIFIER\<rparr>"

definition amp_unmark :: "port_rule \<Rightarrow> port_rule" where
  "amp_unmark pr = pr\<lparr>pr_flags := pr_flags pr AND NOT CALY_PORT_F_AMPLIFIER\<rparr>"

definition over_rules :: "bool \<Rightarrow> u16 list \<Rightarrow> (bool \<Rightarrow> u16 \<Rightarrow> port_rule option) \<Rightarrow> bool \<Rightarrow> u16 \<Rightarrow> port_rule option" where
  "over_rules dry ps G = (\<lambda>t p. if \<not> dry \<and> t \<and> p \<in> set ps then map_option amp_mark (G t p) else G t p)"

definition over_icmp :: "bool \<Rightarrow> bool \<Rightarrow> bool \<Rightarrow> (bool \<Rightarrow> u8 \<Rightarrow> u32 option) \<Rightarrow> bool \<Rightarrow> u8 \<Rightarrow> u32 option" where
  "over_icmp dry c4 c6 P = (\<lambda>v t. if \<not> dry \<and> (\<not> v \<and> t = CALY_ICMP4_ECHO \<and> c4 \<or> v \<and> t = CALY_ICMP6_ECHO_REQUEST \<and> c6)
     then Some CALY_ICMP_RATELIMIT else P v t)"

definition amp_inv :: "(bool \<Rightarrow> u16 \<Rightarrow> port_rule option) \<Rightarrow> autotune \<Rightarrow> bool" where
  "amp_inv G at \<longleftrightarrow> (au_amp_touched at \<noteq> [] \<longrightarrow> tu_allow_amp_override (au_cfg at)) \<and>
     (\<forall>p\<in>set (au_amp_touched at). \<exists>pr. G True p = Some pr \<and> \<not> has_flag (pr_flags pr) CALY_PORT_F_AMPLIFIER)"

definition icmp_inv :: "(bool \<Rightarrow> u8 \<Rightarrow> u32 option) \<Rightarrow> autotune \<Rightarrow> bool" where
  "icmp_inv P at \<longleftrightarrow>
     (au_icmp4_echo_changed at \<or> au_icmp6_echo_changed at \<longrightarrow> tu_allow_icmp_policy (au_cfg at)) \<and>
     (au_icmp4_echo_changed at \<longrightarrow> au_icmp4_echo_saved at = CALY_ICMP_PASS \<and> P False CALY_ICMP4_ECHO = Some CALY_ICMP_PASS) \<and>
     (au_icmp6_echo_changed at \<longrightarrow> au_icmp6_echo_saved at = CALY_ICMP_PASS \<and> P True CALY_ICMP6_ECHO_REQUEST = Some CALY_ICMP_PASS)"

definition pol_inv :: "('w \<Rightarrow> policies) \<Rightarrow> policies \<Rightarrow> autotune \<times> 'w \<Rightarrow> bool" where
  "pol_inv pols P x \<longleftrightarrow> au_init_done (fst x) \<and> amp_inv (fst P) (fst x) \<and> icmp_inv (snd P) (fst x) \<and>
     pols (snd x) = (over_rules (tu_dry_run (au_cfg (fst x))) (au_amp_touched (fst x)) (fst P),
                     over_icmp (tu_dry_run (au_cfg (fst x))) (au_icmp4_echo_changed (fst x)) (au_icmp6_echo_changed (fst x)) (snd P))"

lemma amp_unmark_mark: "\<not> has_flag (pr_flags pr) CALY_PORT_F_AMPLIFIER \<Longrightarrow> amp_unmark (amp_mark pr) = pr"
proof -
  assume "\<not> has_flag (pr_flags pr) CALY_PORT_F_AMPLIFIER"
  then have "pr_flags pr AND CALY_PORT_F_AMPLIFIER = 0" by (simp add: has_flag_def)
  then have "(pr_flags pr OR CALY_PORT_F_AMPLIFIER) AND NOT CALY_PORT_F_AMPLIFIER = pr_flags pr"
    by (simp add: bit_eq_iff bit_simps) blast
  then show ?thesis by (simp add: amp_unmark_def amp_mark_def)
qed

lemma amp_unmark_idem [simp]: "amp_unmark (amp_unmark pr) = amp_unmark pr"
  by (simp add: amp_unmark_def bit_eq_iff bit_simps)

lemma over_rules_snoc:
  assumes "over_rules dry ps G True p = Some pr" "\<not> has_flag (pr_flags pr) CALY_PORT_F_AMPLIFIER"
  shows "(over_rules False ps G)(True := (over_rules False ps G True)(p \<mapsto> amp_mark pr)) = over_rules False (ps @ [p]) G \<or> dry"
    "G True p = Some pr"
proof -
  have m: "has_flag (pr_flags (amp_mark r)) CALY_PORT_F_AMPLIFIER" for r by (simp add: amp_mark_def)
  have "dry \<or> p \<notin> set ps" using assms m by (auto simp: over_rules_def split: if_splits)
  then show "G True p = Some pr" using assms(1) by (auto simp: over_rules_def)
  then show "(over_rules False ps G)(True := (over_rules False ps G True)(p \<mapsto> amp_mark pr)) = over_rules False (ps @ [p]) G \<or> dry"
    using \<open>dry \<or> p \<notin> set ps\<close> by (auto simp: over_rules_def fun_eq_iff)
qed

lemma amp_engage_pol:
  assumes l: "policy_laws ops pols" "op_port_rule_get ops = Some g" "op_port_rule_set ops = Some f"
    and a: "tu_allow_amp_override (au_cfg at)" and i: "pol_inv pols P (at, w)"
    and n: "length (au_amp_touched at) < length CALY_AMP_PORTS"
    and e: "amp_engage_one f g p (at, w) = (at', w')"
  shows "pol_inv pols P (at', w')" "length (au_amp_touched at') \<le> Suc (length (au_amp_touched at))" "au_cfg at' = au_cfg at"
proof -
  have g: "g = (\<lambda>w. fst (pols w))" using l by (simp add: policy_laws_def)
  have f: "fst (f t p r w)" "pols (snd (f t p r w)) = ((fst (pols w))(t := (fst (pols w) t)(p \<mapsto> r)), snd (pols w))" for t p r w
    using l by (auto simp: policy_laws_def)
  define dry where "dry = tu_dry_run (au_cfg at)"
  define ps where "ps = au_amp_touched at"
  have r: "fst (pols w) = over_rules dry ps (fst P)" using i by (simp add: pol_inv_def dry_def ps_def)
  have "pol_inv pols P (at', w') \<and> length (au_amp_touched at') \<le> Suc (length (au_amp_touched at)) \<and> au_cfg at' = au_cfg at"
  proof (cases "\<exists>pr. g w True p = Some pr \<and> \<not> (has_flag (pr_flags pr) CALY_PORT_F_AMPLIFIER \<or> has_flag (pr_flags pr) CALY_PORT_F_MGMT)")
    case False
    then have "at' = at" "w' = w" using e by (auto simp: amp_engage_one_def split: option.splits if_splits)
    then show ?thesis using i by simp
  next
    case True
    then obtain pr where pr: "g w True p = Some pr" "\<not> has_flag (pr_flags pr) CALY_PORT_F_AMPLIFIER" "\<not> has_flag (pr_flags pr) CALY_PORT_F_MGMT"
      by blast
    have o: "over_rules dry ps (fst P) True p = Some pr" using pr(1) r g by simp
    have at': "at' = at\<lparr>au_amp_touched := ps @ [p]\<rparr>" and w': "w' = (if dry then w else snd (f True p (amp_mark pr) w))"
      using e pr n f(1) [of True p "amp_mark pr" w]
      by (auto simp: amp_engage_one_def Let_def amp_mark_def dry_def ps_def case_prod_beta split: if_splits)
    have "pols w' = (over_rules dry (ps @ [p]) (fst P), snd (pols w))"
    proof (cases dry)
      case True
      then show ?thesis using w' r by (simp add: over_rules_def prod_eq_iff)
    next
      case False
      then show ?thesis using w' f(2) [of True p "amp_mark pr" w] r over_rules_snoc(1) [OF o pr(2)] by simp
    qed
    then show ?thesis
      using i a at' over_rules_snoc(2) [OF o pr(2)] pr(2)
      by (simp add: pol_inv_def amp_inv_def icmp_inv_def dry_def ps_def)
  qed
  then show "pol_inv pols P (at', w')" "length (au_amp_touched at') \<le> Suc (length (au_amp_touched at))" "au_cfg at' = au_cfg at"
    by blast+
qed

lemma amp_engage_all_pol:
  assumes "policy_laws ops pols" "op_port_rule_get ops = Some g" "op_port_rule_set ops = Some f"
  shows "tu_allow_amp_override (au_cfg (fst x)) \<Longrightarrow> pol_inv pols P x \<Longrightarrow>
    length (au_amp_touched (fst x)) + length qs \<le> length CALY_AMP_PORTS \<Longrightarrow>
    pol_inv pols P (fold (amp_engage_one f g) qs x)"
proof (induction qs arbitrary: x)
  case (Cons q qs)
  obtain at w at' w' where x: "x = (at, w)" "amp_engage_one f g q (at, w) = (at', w')" by fastforce
  have n: "length (au_amp_touched at) < length CALY_AMP_PORTS" using Cons.prems(3) x by simp
  have a: "tu_allow_amp_override (au_cfg at)" "pol_inv pols P (at, w)" using Cons.prems x by simp_all
  note s = amp_engage_pol [OF assms a n x(2)]
  have "length (au_amp_touched at') + length qs \<le> length CALY_AMP_PORTS" using s(2) Cons.prems(3) x by simp
  with Cons.IH [of "(at', w')"] s a show ?case using x by simp
qed simp

lemma amp_restore_pol:
  assumes "policy_laws ops pols" "op_port_rule_get ops = Some g" "op_port_rule_set ops = Some f"
  shows "pols (fold (amp_restore_one f g dry) ps w) =
    (\<lambda>t p. if \<not> dry \<and> t \<and> p \<in> set ps then map_option amp_unmark (fst (pols w) t p) else fst (pols w) t p, snd (pols w))"
proof (induction ps arbitrary: w)
  case (Cons p ps)
  have g: "g = (\<lambda>w. fst (pols w))" using assms by (simp add: policy_laws_def)
  have f: "pols (snd (f t p r w)) = ((fst (pols w))(t := (fst (pols w) t)(p \<mapsto> r)), snd (pols w))" for t p r w
    using assms by (auto simp: policy_laws_def)
  define w1 where "w1 = amp_restore_one f g dry p w"
  have s: "pols w1 =
      (\<lambda>t q. if \<not> dry \<and> t \<and> q = p then map_option amp_unmark (fst (pols w) t q) else fst (pols w) t q, snd (pols w))"
    by (cases "fst (pols w) True p") (auto simp: w1_def amp_restore_one_def g f fun_eq_iff prod_eq_iff amp_unmark_def)
  have "pols (fold (amp_restore_one f g dry) (p # ps) w) = pols (fold (amp_restore_one f g dry) ps w1)" by (simp add: w1_def)
  also have "\<dots> = (\<lambda>t q. if \<not> dry \<and> t \<and> q \<in> set (p # ps) then map_option amp_unmark (fst (pols w) t q) else fst (pols w) t q,
      snd (pols w))"
    unfolding Cons.IH [of w1] s by (auto simp: fun_eq_iff option.map_comp comp_def)
  finally show ?case .
qed (simp add: prod_eq_iff)

lemma amp_apply_pol:
  assumes l: "policy_laws ops pols" and i: "pol_inv pols P x"
  shows "pol_inv pols P (at_amp_apply ops engage x)"
proof (cases x)
  case (Pair at w)
  obtain g f where o: "op_port_rule_get ops = Some g" "op_port_rule_set ops = Some f" using l by (auto simp: policy_laws_def)
  show ?thesis
  proof (cases "tu_allow_amp_override (au_cfg at)")
    case False
    then show ?thesis using Pair i by (simp add: at_amp_apply_def)
  next
    case True
    have e: "pol_inv pols P (fold (amp_engage_one f g) (map ucast CALY_AMP_PORTS) (at, w))" if "au_amp_touched at = []"
      using amp_engage_all_pol [OF l o, of "(at, w)" P "map ucast CALY_AMP_PORTS"] i Pair True that by simp
    have r: "pol_inv pols P (at\<lparr>au_amp_touched := []\<rparr>, fold (amp_restore_one f g (tu_dry_run (au_cfg at))) (au_amp_touched at) w)"
    proof -
      have m: "\<exists>pr. fst P True p = Some pr \<and> \<not> has_flag (pr_flags pr) CALY_PORT_F_AMPLIFIER" if "p \<in> set (au_amp_touched at)" for p
        using i Pair that by (simp add: pol_inv_def amp_inv_def)
      have pw: "pols w = (over_rules (tu_dry_run (au_cfg at)) (au_amp_touched at) (fst P),
          over_icmp (tu_dry_run (au_cfg at)) (au_icmp4_echo_changed at) (au_icmp6_echo_changed at) (snd P))"
        using i Pair by (simp add: pol_inv_def)
      have e: "(\<lambda>t p. if \<not> tu_dry_run (au_cfg at) \<and> t \<and> p \<in> set (au_amp_touched at)
          then map_option amp_unmark (over_rules (tu_dry_run (au_cfg at)) (au_amp_touched at) (fst P) t p)
          else over_rules (tu_dry_run (au_cfg at)) (au_amp_touched at) (fst P) t p) = fst P"
        using m by (fastforce simp: over_rules_def fun_eq_iff amp_unmark_mark)
      note q = amp_restore_pol [OF l o, of "tu_dry_run (au_cfg at)" "au_amp_touched at" w, unfolded pw fst_conv snd_conv e]
      show ?thesis
        using i Pair by (simp add: q pol_inv_def amp_inv_def icmp_inv_def over_rules_def [of _ "[]"])
    qed
    show ?thesis using Pair True o e r i by (simp add: at_amp_apply_def)
  qed
qed


text \<open>One family at a time.\<close>

definition over_one :: "bool \<Rightarrow> bool \<Rightarrow> u8 \<Rightarrow> bool \<Rightarrow> (bool \<Rightarrow> u8 \<Rightarrow> u32 option) \<Rightarrow> bool \<Rightarrow> u8 \<Rightarrow> u32 option" where
  "over_one dry v t c P = (if \<not> dry \<and> c then P(v := (P v)(t \<mapsto> CALY_ICMP_RATELIMIT)) else P)"

lemma over_icmp_one:
  "over_icmp dry c4 c6 P = over_one dry False CALY_ICMP4_ECHO c4 (over_one dry True CALY_ICMP6_ECHO_REQUEST c6 P)"
  "over_icmp dry c4 c6 P = over_one dry True CALY_ICMP6_ECHO_REQUEST c6 (over_one dry False CALY_ICMP4_ECHO c4 P)"
  by (auto simp: over_icmp_def over_one_def fun_eq_iff)

lemma icmp_one_pol:
  assumes l: "policy_laws ops pols" "op_icmp_pol_set ops = Some f" "op_icmp_pol_get ops = Some g"
    and v: "snd (pols w) = over_one dry v t c P" "c \<longrightarrow> s = CALY_ICMP_PASS \<and> P v t = Some CALY_ICMP_PASS"
    and r: "(if engage then icmp_engage f g dry v t else icmp_restore f dry v t) (s, c, w) = (s', c', w')"
  shows "pols w' = (fst (pols w), over_one dry v t c' P)" "c' \<longrightarrow> s' = CALY_ICMP_PASS \<and> P v t = Some CALY_ICMP_PASS"
proof -
  have g: "g = (\<lambda>w. snd (pols w))" using l by (simp add: policy_laws_def)
  have f: "fst (f v t c w)" "pols (snd (f v t c w)) = (fst (pols w), (snd (pols w))(v := (snd (pols w) v)(t \<mapsto> c)))" for v t c w
    using l by (auto simp: policy_laws_def)
  have h: "P v t = Some a \<Longrightarrow> P(v := (P v)(t \<mapsto> a)) = P" for a by (auto simp: fun_eq_iff)
  have "pols w' = (fst (pols w), over_one dry v t c' P) \<and> (c' \<longrightarrow> s' = CALY_ICMP_PASS \<and> P v t = Some CALY_ICMP_PASS)"
    using r v f h
    by (auto simp: icmp_engage_def icmp_restore_def case_prod_beta g over_one_def prod_eq_iff split: if_splits option.splits)
  then show "pols w' = (fst (pols w), over_one dry v t c' P)" "c' \<longrightarrow> s' = CALY_ICMP_PASS \<and> P v t = Some CALY_ICMP_PASS" by blast+
qed

lemma icmp_apply_pol:
  assumes l: "policy_laws ops pols" and i: "pol_inv pols P x"
  shows "pol_inv pols P (at_icmp_apply ops engage x)"
proof (cases x)
  case (Pair at w)
  obtain g f where o: "op_icmp_pol_set ops = Some f" "op_icmp_pol_get ops = Some g" using l by (auto simp: policy_laws_def)
  show ?thesis
  proof (cases "tu_allow_icmp_policy (au_cfg at)")
    case False
    then show ?thesis using Pair i by (simp add: at_icmp_apply_def)
  next
    case True
    define dry where "dry = tu_dry_run (au_cfg at)"
    let ?f = "\<lambda>v6 t. if engage then icmp_engage f g dry v6 t else icmp_restore f dry v6 t"
    obtain s4 c4 w4 where r4: "?f False CALY_ICMP4_ECHO (au_icmp4_echo_saved at, au_icmp4_echo_changed at, w) = (s4, c4, w4)"
      by (metis prod_cases3)
    obtain s6 c6 w6 where r6: "?f True CALY_ICMP6_ECHO_REQUEST (au_icmp6_echo_saved at, au_icmp6_echo_changed at, w4) = (s6, c6, w6)"
      by (metis prod_cases3)
    have p0: "fst (pols w) = over_rules dry (au_amp_touched at) (fst P)"
      "snd (pols w) = over_icmp dry (au_icmp4_echo_changed at) (au_icmp6_echo_changed at) (snd P)"
      and ic: "icmp_inv (snd P) at" and am: "amp_inv (fst P) at" "au_init_done at"
      using i Pair by (simp_all add: pol_inv_def dry_def)
    have h4: "au_icmp4_echo_changed at \<longrightarrow> au_icmp4_echo_saved at = CALY_ICMP_PASS \<and>
        over_one dry True CALY_ICMP6_ECHO_REQUEST (au_icmp6_echo_changed at) (snd P) False CALY_ICMP4_ECHO = Some CALY_ICMP_PASS"
      using ic by (simp add: icmp_inv_def over_one_def)
    note q4 = icmp_one_pol [OF l o p0(2) [unfolded over_icmp_one(1)] h4 r4]
    have h6: "au_icmp6_echo_changed at \<longrightarrow> au_icmp6_echo_saved at = CALY_ICMP_PASS \<and>
        over_one dry False CALY_ICMP4_ECHO c4 (snd P) True CALY_ICMP6_ECHO_REQUEST = Some CALY_ICMP_PASS"
      using ic by (simp add: icmp_inv_def over_one_def)
    have v6: "snd (pols w4) = over_one dry True CALY_ICMP6_ECHO_REQUEST (au_icmp6_echo_changed at) (over_one dry False CALY_ICMP4_ECHO c4 (snd P))"
      using q4(1) by (simp flip: over_icmp_one)
    note q6 = icmp_one_pol [OF l o v6 h6 r6]
    have e: "at_icmp_apply ops engage x = (at\<lparr>au_icmp4_echo_saved := s4, au_icmp4_echo_changed := c4,
        au_icmp6_echo_saved := s6, au_icmp6_echo_changed := c6\<rparr>, w6)"
      using True o Pair r4 r6 unfolding dry_def by (simp add: at_icmp_apply_def Let_def)
    have "pols w6 = (over_rules dry (au_amp_touched at) (fst P), over_icmp dry c4 c6 (snd P))"
      using q6(1) q4(1) p0(1) by (simp add: over_icmp_one(2))
    moreover have "c4 \<longrightarrow> s4 = CALY_ICMP_PASS \<and> snd P False CALY_ICMP4_ECHO = Some CALY_ICMP_PASS"
      using q4(2) by (simp add: over_one_def split: if_splits)
    moreover have "c6 \<longrightarrow> s6 = CALY_ICMP_PASS \<and> snd P True CALY_ICMP6_ECHO_REQUEST = Some CALY_ICMP_PASS"
      using q6(2) by (simp add: over_one_def split: if_splits)
    ultimately show ?thesis
      using am True unfolding e by (simp add: pol_inv_def amp_inv_def icmp_inv_def dry_def)
  qed
qed

lemma side_policy_pol: "policy_laws ops pols \<Longrightarrow> pol_inv pols P x \<Longrightarrow> pol_inv pols P (at_side_policy ops mode cls x)"
  unfolding at_side_policy_def by (intro icmp_apply_pol amp_apply_pol)


text \<open>A step that changes neither what the module remembers of the policies nor the policies themselves.\<close>

definition side :: "autotune \<Rightarrow> u16 list \<times> u32 \<times> bool \<times> u32 \<times> bool \<times> at_tunables \<times> bool" where
  "side at = snd (au_core at)"

definition quiet :: "('w \<Rightarrow> policies) \<Rightarrow> autotune \<times> 'w \<Rightarrow> autotune \<times> 'w \<Rightarrow> bool" where
  "quiet pols x y \<longleftrightarrow> side (fst y) = side (fst x) \<and> pols (snd y) = pols (snd x)"

lemma quiet_refl [simp]: "quiet pols x x"
  by (simp add: quiet_def)

lemma quiet_trans: "quiet pols x y \<Longrightarrow> quiet pols y z \<Longrightarrow> quiet pols x z"
  by (simp add: quiet_def)

lemma quiet_core: "au_core a' = au_core a \<Longrightarrow> quiet pols (a, w) (a', w)"
  by (simp add: quiet_def side_def)

lemma quiet_pol: "quiet pols x y \<Longrightarrow> pol_inv pols P x \<Longrightarrow> pol_inv pols P y"
  by (simp add: quiet_def side_def au_core_def pol_inv_def amp_inv_def icmp_inv_def)

lemma push_config_quiet:
  assumes "policy_laws ops pols" "at_push_config ops live mode cls at w = (rc, at', w')"
  shows "quiet pols (at, w) (at', w')"
proof -
  have l: "op_config_write ops = Some f \<Longrightarrow> f c w = (r, v) \<Longrightarrow> pols v = pols w" for f c w r v
    using assms(1) unfolding policy_laws_def by (metis snd_conv)
  show ?thesis
    using assms(2)
    by (auto simp: at_push_config_def Let_def reject_def quiet_def side_def au_core_def l split: if_splits option.splits prod.splits)
qed

lemma upd_mem_core: "au_core (upd_mem i f at) = au_core at"
  by (simp add: upd_mem_def au_core_def)

lemma srcmem_get_core: "at_srcmem_get a now at = Some (r, at') \<Longrightarrow> au_core at' = au_core at"
  by (auto simp: at_srcmem_get_def Let_def au_core_def split: if_splits option.splits probe.splits)

lemma offender_deltas_core: "offender_deltas now d xs at = Some (ys, at') \<Longrightarrow> au_core at' = au_core at"
proof (induction xs arbitrary: at ys at')
  case (Cons x xs)
  have "au_core b = au_core a" if "offender_delta now d x a = Some (y, b)" for a y b
    using that srcmem_get_core by (auto simp: offender_delta_def Let_def upd_mem_core split: if_splits option.splits bool.splits)
  with Cons show ?case by (auto split: option.splits prod.splits)
qed simp

lemma ban_offender_quiet:
  assumes l: "policy_laws ops pols" "op_ban_add ops = Some add"
    and r: "ban_offender ops add live now d x at w = Some (b, at', w')"
  shows "quiet pols (at, w) (at', w')"
proof -
  have a: "add a be w = (ok, v) \<Longrightarrow> pols v = pols w" for a be w ok v
    using l unfolding policy_laws_def by (metis snd_conv)
  have s: "au_core (suppress at) = au_core at" for at by (simp add: suppress_def au_core_def)
  have i: "au_core (at\<lparr>au_bans_issued := n\<rparr>) = au_core at" for at n by (simp add: au_core_def)
  show ?thesis
    using r srcmem_get_core a
    by (auto simp: ban_offender_def Let_def quiet_def side_def s i upd_mem_core split: if_splits option.splits prod.splits)
qed


lemma ban_offenders_quiet:
  assumes "policy_laws ops pols" "op_ban_add ops = Some add"
  shows "ban_offenders ops add live now d xs n at w = Some (rs, at', w') \<Longrightarrow> quiet pols (at, w) (at', w')"
proof (induction xs arbitrary: n at w rs)
  case (Cons x xs)
  show ?case
  proof (cases "n < tu_max_bans_per_tick (au_cfg at)")
    case True
    with Cons.prems obtain r a1 w1 rs1 k where "ban_offender ops add live now d x at w = Some (r, a1, w1)"
      "ban_offenders ops add live now d xs k a1 w1 = Some (rs1, at', w')"
      by (auto split: option.splits)
    with Cons.IH show ?thesis using ban_offender_quiet [OF assms] quiet_trans by blast
  next
    case False
    then show ?thesis using Cons.prems by simp
  qed
qed simp

lemma autoban_quiet:
  assumes l: "policy_laws ops pols" and r: "at_autoban ops live now at w = Some (rs, at', w')"
  shows "quiet pols (at, w) (at', w')"
proof (cases "op_top_offenders ops = None \<or> op_ban_add ops = None")
  case True
  then have "at' = at \<and> w' = w" using r by (auto simp: at_autoban_def split: option.splits)
  then show ?thesis by simp
next
  case False
  then obtain t add where o: "op_top_offenders ops = Some t" "op_ban_add ops = Some add" by auto
  define cur where "cur = au_prev_gauge at G_DROPS"
  define d where "d = (if cur \<ge> au_last_ban_pass_drops at then cur - au_last_ban_pass_drops at else 0)"
  define b where "b = at\<lparr>au_last_ban_pass_ns := now, au_last_ban_pass_drops := cur\<rparr>"
  have c: "au_core b = au_core at" by (simp add: b_def au_core_def)
  have q: "quiet pols (at, w) (a2, w2)"
    if "offender_deltas now d xs b = Some (ys, a1)" "ban_offenders ops add live now d zs 0 a1 w = Some (rs1, a2, w2)" for xs ys zs a1 rs1 a2 w2
    using that(1) ban_offenders_quiet [OF l o(2) that(2)] offender_deltas_core c by (metis quiet_core quiet_trans)
  show ?thesis
    using r q unfolding at_autoban_def o option.case prod.case Let_def cur_def [symmetric] d_def [symmetric] b_def [symmetric]
    by (auto split: if_splits option.splits)
qed

lemma act_push_pol:
  assumes "policy_laws ops pols" "pol_inv pols P (at, w)" "act_push ops live at w = (at', w')"
  shows "pol_inv pols P (at', w')"
proof -
  obtain a1 w1 where s: "at_side_policy ops (au_mode at) (au_class_mask at) (at, w) = (a1, w1)" by fastforce
  obtain rc a2 w2 where p: "at_push_config ops live (au_mode a1) (au_class_mask a1) a1 w1 = (rc, a2, w2)" by (metis prod_cases3)
  have "pol_inv pols P (a1, w1)" using side_policy_pol [OF assms(1,2), of "au_mode at" "au_class_mask at"] s by simp
  then have "pol_inv pols P (a2, w2)" by (rule quiet_pol [OF push_config_quiet [OF assms(1) p]])
  moreover have "quiet pols (a2, w2) (a2\<lparr>au_applied_mode := x, au_applied_class_mask := y\<rparr>, w2)" for x y
    by (rule quiet_core) (simp add: au_core_def)
  ultimately have "pol_inv pols P (a2\<lparr>au_applied_mode := x, au_applied_class_mask := y\<rparr>, w2)" for x y
    using quiet_pol by blast
  then show ?thesis
    using assms(2,3) unfolding act_push_def Let_def s prod.case p by (auto split: if_splits)
qed

lemma core_pol: "au_core a' = au_core a \<Longrightarrow> pol_inv pols P (a, w) \<Longrightarrow> pol_inv pols P (a', w)"
  by (rule quiet_pol [OF quiet_core])

lemma autotune_step_pol:
  assumes l: "policy_laws ops pols" and i: "pol_inv pols P (at, w)" and r: "autotune_step ops now s at w = Some (rc, at', w')"
  shows "pol_inv pols P (at', w')"
proof -
  define live where "live = step_live ops s at w"
  define a1 where "a1 = adopt_mode live now at"
  have c1: "au_core a1 = au_core at" by (simp add: a1_def adopt_mode_def au_core_def)
  have fs: "au_core (first_sample s now a1) = au_core at"
    using c1 by (simp add: first_sample_def Let_def au_core_def split: option.splits)
  define a2 where "a2 = learn_sample live s now (now - au_last_ts_ns a1) a1"
  obtain m a3' where m: "at_step_mode a2 live now = (m, a3')" by fastforce
  define a3 where "a3 = set_mode m now a3'"
  have c3: "au_core a3 = au_core at" using step_mode_core [OF m] c1 by (simp add: a3_def a2_def learn_core)
  obtain a4 w4 where p: "act_push ops live a3 w = (a4, w4)" by fastforce
  have i4: "pol_inv pols P (a4, w4)" by (rule act_push_pol [OF l core_pol [OF c3 i] p])
  have e: "pol_inv pols P (at_emit_alert io k now (at\<lparr>au_abi_warned := True\<rparr>), w)" for io k
    by (rule core_pol [OF _ i]) (simp add: emit_alert_core, simp add: au_core_def)
  have "pol_inv pols P (step_alerts io pm pc n now a5, w5)" if "at_autoban ops live now a4 w4 = Some (rs, a5, w5)" for rs a5 w5 io pm pc n
    by (rule core_pol [OF step_alerts_core(1) quiet_pol [OF autoban_quiet [OF l that] i4]])
  then show ?thesis
    using r i e core_pol [OF c1 i] core_pol [OF fs i]
    unfolding autotune_step_def Let_def live_def [symmetric] a1_def [symmetric] a2_def [symmetric] m prod.case a3_def [symmetric] p
    by (auto split: if_splits option.splits)
qed


lemma autotune_tick_pol:
  assumes l: "policy_laws ops pols" and i: "pol_inv pols P (at, w)" and r: "autotune_tick ops now at w = Some (rc, at', w')"
  shows "pol_inv pols P (at', w')"
proof -
  obtain u w1 where u: "(case op_unique_sources ops of None \<Rightarrow> (None, w) | Some f \<Rightarrow> f w) = (u, w1)" by fastforce
  have "pols (snd (case op_unique_sources ops of None \<Rightarrow> (None, w) | Some f \<Rightarrow> f w)) = pols w"
    using l by (auto simp: policy_laws_def split: option.split)
  then have "quiet pols (at, w) (at, w1)" unfolding u by (simp add: quiet_def)
  then have i1: "pol_inv pols P (at, w1)" using i by (rule quiet_pol)
  show ?thesis
    using r i autotune_step_pol [OF l i1] u
    by (auto simp: autotune_tick_def Let_def split: if_splits sum.splits)
qed

lemma force_mode_pol:
  assumes l: "policy_laws ops pols" and i: "pol_inv pols P (at, w)" and r: "autotune_force_mode ops mode now at w = (rc, at', w')"
  shows "pol_inv pols P (at', w')"
proof -
  define a1 where "a1 = at\<lparr>au_mode := mode, au_mode_since_ns := now, au_up_count := 0, au_down_count := 0,
      au_pinned := operator_state mode\<rparr>"
  obtain a2 w2 where s: "at_side_policy ops mode (au_class_mask a1) (a1, w) = (a2, w2)" by fastforce
  define k where "k = (if mode > au_mode at then AT_EV_MODE_UP else AT_EV_MODE_DOWN)"
  define a3 where "a3 = at_emit_alert (op_io ops w2) k now a2"
  have "pol_inv pols P (a1, w)" by (rule core_pol [OF _ i]) (simp add: a1_def au_core_def)
  then have "pol_inv pols P (a2, w2)" using side_policy_pol [OF l, of P "(a1, w)" mode "au_class_mask a1"] s by simp
  then have i3: "pol_inv pols P (a3, w2)" by (rule core_pol [rotated]) (simp add: a3_def emit_alert_core)
  have "(rc, at', w') = (RC_INVAL, at, w) \<or>
      at_push_config ops (read_live ops a1 w) (au_mode a3) (au_class_mask a3) a3 w2 = (rc, at', w')"
    using r unfolding autotune_force_mode_def Let_def a1_def [symmetric] s prod.case k_def [symmetric] a3_def [symmetric]
    by (auto split: if_splits)
  then show ?thesis using i quiet_pol [OF push_config_quiet [OF l] i3] by auto
qed

lemma base_step_pol:
  assumes l: "policy_laws ops pols" and i: "pol_inv pols P (at, w)" and r: "autotune_set_base_config ops cfg at w = (rc, at', w')"
  shows "pol_inv pols P (at', w')"
proof -
  define b where "b = fst (at_enforce_mgmt (known_abi cfg))"
  define a1 where "a1 = at\<lparr>au_base := b, au_have_base := True, au_pinned := operator_state (cfg_mode b),
      au_mode := (if cfg_mode b < FW_MODE_MAX then cfg_mode b else au_mode at),
      au_up_count := 0, au_down_count := 0, au_mode_since_ns := au_last_ts_ns at\<rparr>"
  define a2 where "a2 = a1\<lparr>au_have_applied := False\<rparr>"
  obtain a3 w3 where s: "at_side_policy ops (au_mode a2) (au_class_mask a2) (a2, w) = (a3, w3)" by fastforce
  have "quiet pols (at, w) (a2, w)" by (simp add: quiet_def side_def au_core_def a2_def a1_def)
  then have "pol_inv pols P (a2, w)" using i by (rule quiet_pol)
  then have i3: "pol_inv pols P (a3, w3)" using side_policy_pol [OF l, of P "(a2, w)" "au_mode a2" "au_class_mask a2"] s by simp
  have "(rc, at', w') = (RC_PROTO, at, w) \<or>
      at_push_config ops (read_live ops a1 w) (au_mode a3) (au_class_mask a3) a3 w3 = (rc, at', w')"
    using r unfolding autotune_set_base_config_def Let_def b_def [symmetric] a1_def [symmetric] a2_def [symmetric] s prod.case
    by (auto split: if_splits)
  then show ?thesis using i quiet_pol [OF push_config_quiet [OF l] i3] by auto
qed

lemma at_exec_pol:
  assumes l: "policy_laws ops pols" and i: "pol_inv pols P x" and r: "at_exec ops cmd x = Some y"
  shows "pol_inv pols P y"
proof -
  obtain at w where x: "x = (at, w)" by fastforce
  have c: "au_core (autotune_unpin now at) = au_core at" "au_core (autotune_note_event e at) = au_core at" for now e
    by (simp_all add: autotune_unpin_def autotune_note_event_def au_core_def)
  note s = autotune_tick_pol [OF l i [unfolded x]] autotune_step_pol [OF l i [unfolded x]]
    force_mode_pol [OF l i [unfolded x]] base_step_pol [OF l i [unfolded x]] core_pol [OF c(1) i [unfolded x]] core_pol [OF c(2) i [unfolded x]]
  show ?thesis using r s unfolding x by (cases cmd) (auto, (metis prod.collapse)+)
qed

lemma at_run_pol: "policy_laws ops pols \<Longrightarrow> pol_inv pols P x \<Longrightarrow> at_run ops cmds x = Some y \<Longrightarrow> pol_inv pols P y"
  by (induction cmds arbitrary: x) (auto split: option.splits dest: at_exec_pol)

lemma amp_off: "policy_laws ops pols \<Longrightarrow> pol_inv pols P x \<Longrightarrow> au_amp_touched (fst (at_amp_apply ops False x)) = []"
  by (cases x) (auto simp: at_amp_apply_def policy_laws_def pol_inv_def amp_inv_def)

lemma icmp_off:
  assumes l: "policy_laws ops pols" and i: "pol_inv pols P (at, w)" and r: "at_icmp_apply ops False (at, w) = (at', w')"
  shows "au_amp_touched at' = au_amp_touched at" "\<not> au_icmp4_echo_changed at'" "\<not> au_icmp6_echo_changed at'"
proof -
  obtain g f where o: "op_icmp_pol_set ops = Some f" "op_icmp_pol_get ops = Some g" using l by (auto simp: policy_laws_def)
  have n: "\<not> fst (snd (icmp_restore f dry v t y))" for dry v t y by (simp add: icmp_restore_def split: prod.split)
  have c: "icmp_inv (snd P) at" using i by (simp add: pol_inv_def)
  have "au_amp_touched at' = au_amp_touched at \<and> \<not> au_icmp4_echo_changed at' \<and> \<not> au_icmp6_echo_changed at'"
  proof (cases "tu_allow_icmp_policy (au_cfg at)")
    case True
    obtain s4 c4 w4 where r4: "icmp_restore f (tu_dry_run (au_cfg at)) False CALY_ICMP4_ECHO (au_icmp4_echo_saved at, au_icmp4_echo_changed at, w) = (s4, c4, w4)"
      by (metis prod_cases3)
    obtain s6 c6 w6 where r6: "icmp_restore f (tu_dry_run (au_cfg at)) True CALY_ICMP6_ECHO_REQUEST (au_icmp6_echo_saved at, au_icmp6_echo_changed at, w4) = (s6, c6, w6)"
      by (metis prod_cases3)
    have "\<not> c4" "\<not> c6" using n [of "tu_dry_run (au_cfg at)"] r4 r6 by (metis fst_conv snd_conv)+
    then show ?thesis using r True o r4 r6 by (auto simp: at_icmp_apply_def Let_def)
  next
    case False
    then show ?thesis using r c by (simp add: at_icmp_apply_def icmp_inv_def)
  qed
  then show "au_amp_touched at' = au_amp_touched at" "\<not> au_icmp4_echo_changed at'" "\<not> au_icmp6_echo_changed at'" by blast+
qed

lemma fini_pol:
  assumes l: "policy_laws ops pols" and i: "pol_inv pols P (at, w)" and r: "autotune_fini ops at w = (at', w')"
  shows "pols w' = P"
proof -
  obtain a0 w0 where s0: "at_amp_apply ops False (at, w) = (a0, w0)" by fastforce
  obtain a1 w1 where s: "at_icmp_apply ops False (a0, w0) = (a1, w1)" by fastforce
  have p0: "pol_inv pols P (a0, w0)" using amp_apply_pol [OF l i, of False] s0 by simp
  have p: "pol_inv pols P (a1, w1)" using icmp_apply_pol [OF l p0, of False] s by simp
  have "au_amp_touched a1 = [] \<and> \<not> au_icmp4_echo_changed a1 \<and> \<not> au_icmp6_echo_changed a1"
    using icmp_off [OF l p0 s] amp_off [OF l i] s0 by simp
  then have "pols w1 = P" using p by (simp add: pol_inv_def over_rules_def over_icmp_def prod_eq_iff)
  then show ?thesis using r i s s0 by (simp add: autotune_fini_def pol_inv_def)
qed


lemma init_pol:
  assumes "autotune_init ops cfg w = Some (Inr at)"
  shows "pol_inv pols (pols w) (at, w)"
proof -
  have k: "au_core (at_webhook_probe io (at_alert_sink_open io a)) = au_core a" for io a
    by (simp add: at_webhook_probe_def at_alert_sink_open_def Let_def au_core_def split: option.splits)
  have f: "pol_inv pols (pols w) (at_fresh tu b live m p mem, w)" for tu b live m p mem
    by (simp add: pol_inv_def amp_inv_def icmp_inv_def at_fresh_def over_rules_def over_icmp_def prod_eq_iff)
  obtain live where r: "op_config_read ops w = Inr live" using assms by (cases "op_config_read ops w") (simp_all add: autotune_init_def)
  define tu where "tu = at_sanitise_tunables (case cfg of Some t \<Rightarrow> t | None \<Rightarrow> autotune_tunables_default)"
  obtain n where n: "at_round_pow2 (if tu_srcmem_entries tu \<noteq> 0 then tu_srcmem_entries tu else 4096) AT_SRCMEM_MIN AT_SRCMEM_MAX = Some n"
    and v: "\<not> drop_bit 16 (cfg_abi_version (known_abi live)) \<noteq> CALY_ABI_VERSION_MAJOR"
    using assms unfolding autotune_init_def Let_def r sum.case tu_def [symmetric] by (auto split: option.splits if_split_asm)
  show ?thesis
    using assms unfolding autotune_init_def Let_def r sum.case tu_def [symmetric] if_not_P [OF v] n option.case option.inject sum.inject
    by (elim subst) (rule core_pol [OF k f])
qed


section \<open>Order of the offenders\<close>

text \<open>The insertion sort gives a permutation in descending order of the drops.\<close>

lemma sift_spec:
  "mset (sift x xs) = add_mset x (mset xs)"
  "sorted (map of_drops_delta xs) \<Longrightarrow> sorted (map of_drops_delta (sift x xs))"
proof -
  show m: "mset (sift x xs) = add_mset x (mset xs)" for xs by (induction xs) auto
  have e: "set (sift x xs) = insert x (set xs)" for xs using m [of xs] by (metis set_mset_add_mset_insert set_mset_mset)
  show "sorted (map of_drops_delta xs) \<Longrightarrow> sorted (map of_drops_delta (sift x xs))"
    by (induction xs) (auto simp: e)
qed

lemma sort_offenders_spec:
  "mset (at_sort_offenders xs) = mset xs" "sorted_wrt (\<ge>) (map of_drops_delta (at_sort_offenders xs))"
proof -
  have "mset (fold sift xs ys) = mset xs + mset ys" for ys by (induction xs arbitrary: ys) (auto simp: sift_spec)
  then show "mset (at_sort_offenders xs) = mset xs" by (simp add: at_sort_offenders_def)
  have "sorted (map of_drops_delta ys) \<Longrightarrow> sorted (map of_drops_delta (fold sift xs ys))" for ys
    by (induction xs arbitrary: ys) (auto simp: sift_spec)
  then show "sorted_wrt (\<ge>) (map of_drops_delta (at_sort_offenders xs))"
    by (simp add: at_sort_offenders_def sorted_wrt_rev flip: rev_map)
qed


section \<open>A refused write\<close>

text \<open>What the temporary policies leave as it is.\<close>

definition applied_view :: "autotune \<Rightarrow> u32 \<times> u32 \<times> fw_config \<times> bool \<times> bool \<times> at_tunables" where
  "applied_view at = (au_mode at, au_class_mask at, au_applied at, au_have_applied at, au_pinned at, au_cfg at)"

lemma side_policy_view: "applied_view (fst (at_side_policy ops mode cls x)) = applied_view (fst x)"
proof -
  have "applied_view (fst (amp_engage_one f g p y)) = applied_view (fst y)" for f :: "bool \<Rightarrow> u16 \<Rightarrow> port_rule \<Rightarrow> 'a \<Rightarrow> bool \<times> 'a" and g p y
    by (cases y) (auto simp: amp_engage_one_def Let_def applied_view_def case_prod_beta split: option.splits)
  then have "applied_view (fst (fold (amp_engage_one f g) ps y)) = applied_view (fst y)" for f :: "bool \<Rightarrow> u16 \<Rightarrow> port_rule \<Rightarrow> 'a \<Rightarrow> bool \<times> 'a" and g ps y
    by (induction ps arbitrary: y) simp_all
  then have a: "applied_view (fst (at_amp_apply ops e y)) = applied_view (fst y)" for e y
    by (cases y) (auto simp: at_amp_apply_def applied_view_def split: option.splits)
  have "applied_view (fst (at_icmp_apply ops e y)) = applied_view (fst y)" for e y
    by (cases y) (auto simp: at_icmp_apply_def Let_def applied_view_def case_prod_beta split: option.splits)
  then show ?thesis by (simp add: at_side_policy_def a)
qed

lemma push_refused:
  assumes "op_config_write ops = Some f" "\<And>c w. fst (f c w) \<noteq> 0" "\<not> tu_dry_run (au_cfg at)"
    "at_push_config ops live mode cls at w = (rc, at', w')"
  shows "applied_view at' = applied_view at"
  using assms(2) assms(4)
  by (auto simp: at_push_config_def assms(1,3) Let_def reject_def applied_view_def case_prod_beta split: if_splits)


section \<open>Properties\<close>

text \<open>A concrete world for the instances below: a configuration, port rules and ICMP policies held as they are
  written, no offenders, and writes that fail when \<open>refuse\<close> says so.\<close>

type_synonym wit_world = "fw_config \<times> policies"

definition wit_ops :: "bool \<Rightarrow> wit_world at_ops" where
  "wit_ops refuse = \<lparr>
     op_config_read = (\<lambda>w. Inr (fst w)),
     op_config_write = Some (\<lambda>c w. if refuse then (- 5, w) else (0, (c, snd w))),
     op_gauges_read = (\<lambda>_. Inr (\<lambda>_. 0)), op_stats_read = None, op_conn_count = None, op_unique_sources = None,
     op_top_offenders = Some (\<lambda>_. []), op_ban_lookup = None, op_ban_add = Some (\<lambda>_ _ w. (True, w)),
     op_is_allowlisted = None,
     op_port_rule_get = Some (\<lambda>w. fst (snd w)),
     op_port_rule_set = Some (\<lambda>t p r w. (True, fst w, (fst (snd w))(t := (fst (snd w) t)(p \<mapsto> r)), snd (snd w))),
     op_icmp_pol_get = Some (\<lambda>w. snd (snd w)),
     op_icmp_pol_set = Some (\<lambda>v t c w. (True, fst w, fst (snd w), (snd (snd w))(v := (snd (snd w) v)(t \<mapsto> c)))),
     op_io = (\<lambda>_. \<lparr>io_write_ok = True, io_exec = (\<lambda>_. False), io_spawn = (\<lambda>_. False), io_open = (\<lambda>_. False), io_calloc = False\<rparr>)\<rparr>"

definition wit_world :: wit_world where
  "wit_world = (caly_conf_set_defaults, (\<lambda>_ _. None), (\<lambda>_ t. if t = 8 then Some CALY_ICMP_PASS else None))"

lemma wit_laws: "store_laws (wit_ops r) fst" "policy_laws (wit_ops r) snd"
  by (simp_all add: store_laws_def policy_laws_def wit_ops_def)

lemma wit_arrays: "mgmt_arrays (fst wit_world)"
  by (simp add: wit_world_def mgmt_arrays_def caly_conf_set_defaults_def)

lemma wit_starts: "\<exists>at. autotune_init (wit_ops r) None wit_world = Some (Inr at)"
proof -
  define tu where "tu = at_sanitise_tunables autotune_tunables_default"
  define n where "n = (if tu_srcmem_entries tu \<noteq> 0 then tu_srcmem_entries tu else 4096)"
  have "\<exists>cap. at_round_pow2 n AT_SRCMEM_MIN AT_SRCMEM_MAX = Some cap"
    using pow2_loop_returns [of AT_SRCMEM_MIN] by (auto simp: at_round_pow2_def Let_def)
  then obtain cap where cap: "at_round_pow2 n AT_SRCMEM_MIN AT_SRCMEM_MAX = Some cap" by blast
  have o: "op_config_read (wit_ops r) wit_world = Inr caly_conf_set_defaults" by (simp add: wit_ops_def wit_world_def)
  have v: "\<not> drop_bit 16 (cfg_abi_version (known_abi caly_conf_set_defaults)) \<noteq> CALY_ABI_VERSION_MAJOR"
    by (simp add: known_abi_def caly_conf_set_defaults_def CALY_ABI_VERSION_def)
  show ?thesis
    unfolding autotune_init_def Let_def o sum.case option.case tu_def [symmetric] n_def [symmetric] if_not_P [OF v] cap by blast
qed

text \<open>C12. One tick of the controller implements the module's contract: it always returns, stays inside its source
  memory, and everything it does outside is a sequence of permitted actions: writing a configuration that keeps
  the operator's access, banning for a limited time a source that is neither allow-listed nor on the operator's
  list, marking reflector ports, limiting echo requests.  The operator's baseline is not changed and the
  module's invariant holds afterwards.\<close>

theorem tick_within_contract:
  assumes "au_inv at" "length (au_srcmem at) < 2 ^ 32"
  shows "\<exists>rc at' w'. autotune_tick ops now at w = Some (rc, at', w') \<and> (permitted ops (au_base at) now)\<^sup>*\<^sup>* w w' \<and>
    au_inv at' \<and> au_base at' = au_base at \<and> length (au_srcmem at') = length (au_srcmem at)"
  using autotune_tick_ok [OF assms, of ops now w] assms(1) by (auto simp: ok_step_def)

theorem tick_within_contract_witness:
  "\<exists>rc at' w'. autotune_tick (wit_ops False) 5 wit_at wit_world = Some (rc, at', w') \<and>
     (permitted (wit_ops False) (au_base wit_at) 5)\<^sup>*\<^sup>* wit_world w' \<and>
     au_inv at' \<and> au_base at' = au_base wit_at \<and> length (au_srcmem at') = length (au_srcmem wit_at)"
  by (rule tick_within_contract) (simp_all add: wit_at_def at_fresh_def au_inv_def mgmt_arrays_def caly_conf_set_defaults_def)

text \<open>C11. Whatever the module is asked to do after its start (ticks with any sample, forced modes, new baselines,
  events), with any callbacks that may fail, the configuration in the map is the one found at the start or one
  that lets the administrator in: port 22 is a management port and in lockdown the allow list, the management
  bypass, connection tracking and ICMP are on.  Every such sequence returns.\<close>

theorem autotune_run_admin_safe:
  assumes "store_laws ops stored" "mgmt_arrays (stored w)" "autotune_init ops cfg w = Some (Inr at)" "\<forall>c\<in>set cmds. cmd_ok c"
  shows "\<exists>at' w'. at_run ops cmds (at, w) = Some (at', w') \<and> (stored w' = stored w \<or> admin_safe (stored w'))"
proof -
  have "mgmt_arrays c" if "op_config_read ops w = Inr c" for c
    using assms(1,2) that by (simp add: store_laws_def)
  from init_ok [where ops = ops and w = w and cfg = cfg, OF this] assms(3) have "au_inv (fst (at, w))" "length (au_srcmem (fst (at, w))) < 2 ^ 32" by auto
  from at_run_ok [OF this assms(4), of "\<lambda>v. stored v = stored w \<or> admin_safe (stored v)" ops] show ?thesis
    using permitted_stored [OF _ assms(1)] by (metis prod.collapse snd_conv)
qed

theorem autotune_run_admin_safe_witness:
  "\<exists>at at' w'. autotune_init (wit_ops False) None wit_world = Some (Inr at) \<and>
     at_run (wit_ops False) [Tick 5, Force FW_MODE_LOCKDOWN 7, Base caly_conf_set_defaults] (at, wit_world) = Some (at', w') \<and>
     (fst w' = fst wit_world \<or> admin_safe (fst w'))"
proof -
  obtain at where a: "autotune_init (wit_ops False) None wit_world = Some (Inr at)" using wit_starts by blast
  have "\<forall>c\<in>set [Tick 5, Force FW_MODE_LOCKDOWN 7, Base caly_conf_set_defaults]. cmd_ok c"
    using wit_arrays by (simp add: wit_world_def)
  from autotune_run_admin_safe [OF wit_laws(1) wit_arrays a this] a show ?thesis by blast
qed





end
