(* ===== verification/Spec2Isabelle.thy ===== *)
theory Spec2Isabelle
  imports Caly_Flow Caly_Synproxy Caly_Reasons Caly_File Caly_Ctl Caly_Hook Caly_Cursor Caly_Autorun
begin

text \<open>
  Verification of Caly-ANTI: the data plane and the part of the daemon that controls it.

  \<^bold>\<open>The program.\<close>  Caly-ANTI is an XDP packet filter with a user-space daemon.  A frame enters
  \<open>caly_xdp_main\<close> (\<open>src/bpf/xdp_firewall.bpf.c\<close>), which reads the interface policy and the layer-2
  header and hands over by tail call to \<open>caly_xdp_parse\<close> (layers 3 and 4), \<open>caly_xdp_policy\<close>
  (anomalies, allow and block lists, bans, connection tracking, lockdown) and \<open>caly_xdp_action\<close>
  (amplifiers, port policy, rate limits, port scans, SYN cap, flow learning), which may hand a SYN to
  \<open>caly_xdp_synproxy\<close> (\<open>src/bpf/xdp_synproxy.bpf.c\<close>).  Outbound packets pass \<open>caly_tc_egress\<close>
  (\<open>src/bpf/tc_egress.bpf.c\<close>), which enters our own connections into the flow table.  On a host without
  XDP the daemon attaches \<open>caly_tc_ingress\<close> (\<open>src/bpf/tc_ingress.bpf.c\<close>) instead, one program with the
  same stages on socket buffers.  The programs share one configuration record, a per-CPU scratch area that carries the parsed packet from one
  program to the next, and the maps of \<open>src/bpf/maps.h\<close>.  The daemon (\<open>src/user/main.c\<close>) reads a
  configuration file, sanitises it and seeds the maps (\<open>src/user/loader.c\<close>), raises and lowers the
  mode from the traffic gauges, collects expired entries, and takes commands on a control socket
  (\<open>src/user/ctl.c\<close>).  Linked with it, though not called, is a second controller (\<open>src/user/autotune.c\<close>)
  that learns the usual rates, classifies an attack, synthesises a tighter configuration and bans the
  worst sources, all through a table of callbacks.

  \<^bold>\<open>The theories,\<close> in import order.
  \<^item> \<open>Caly_Prelude\<close>: word types, flag tests, byte loads from a frame (\<^term>\<open>None\<close> outside it),
    byte order, saturating addition.
  \<^item> \<open>Caly_Common\<close>: enumerations, flag words and structures of \<open>common.h\<close>; helpers of \<open>compat.h\<close>.
  \<^item> \<open>Caly_Bucket\<close>: token buckets (\<open>common.h\<close>, \<open>ratelimit.h\<close>) and the locale \<open>limiter\<close>, interpreted on
    the bucket, on the global SYN cap and on the per-port limit.
  \<^item> \<open>Caly_Config\<close>: the default configuration of \<open>src/user/config.c\<close>.
  \<^item> \<open>Caly_Ban\<close>: TTL escalation and ban entries; \<open>Caly_Scan\<close>: the port-scan filter and the locale
    \<open>distinct_counter\<close>; \<open>Caly_Ratelimit\<close>: the bucket chain of a source and the strike window.
  \<^item> \<open>Caly_Reasons\<close>: the names of the counters.
  \<^item> \<open>Caly_Classify\<close>: management ports, bogon sources, TCP flag combinations.
  \<^item> \<open>Caly_Parse\<close>: the parser \<open>caly_parse_l3\<close>/\<open>caly_parse_l4\<close> of \<open>xdp_firewall.bpf.c\<close>.
  \<^item> \<open>Caly_State\<close>: the maps as one record, the kernel as a parameter, \<open>caly_ban_install\<close>.
  \<^item> \<open>Caly_Verdict\<close> and \<open>Caly_Stage\<close>: stages of a program, the verdict block, and the locale \<open>stage\<close>
    that states what every stage keeps.
  \<^item> \<open>Caly_Action\<close>, \<open>Caly_Policy\<close>, \<open>Caly_Main\<close>: the four programs, back to front, since a program
    calls the one it hands over to.
  \<^item> \<open>Caly_Pipeline\<close>: properties of the whole chain; \<open>Caly_Rules\<close>: the order of precedence of the
    policy rules.
  \<^item> \<open>Caly_Egress\<close>: the egress hook; \<open>Caly_Flow\<close>: egress learning and ingress tracking together.
  \<^item> \<open>Caly_Ingress\<close>: the TC ingress hook, its parser, its stages and its own map accessors; \<open>Caly_Hook\<close>: what
    it does with a TCP segment, from the bytes to the action, with the egress hook and the daemon.
  \<^item> \<open>Caly_Cursor\<close>: the cursor parser of \<open>parsing.h\<close> and the error table of \<open>compat.h\<close>, with the locale
    \<open>byte_cursor\<close> for the bounded pull and peek.
  \<^item> \<open>Caly_Checksum\<close>: the arithmetic of \<open>checksum.h\<close>; \<open>Caly_Synproxy\<close>: the SYN proxy, by stores into the
    frame, and the chain with the proxy in its slot.
  \<^item> \<open>Caly_Cidr\<close>: prefix masking; \<open>Caly_Util\<close>: the readers of numbers, durations, rates, sizes, port
    ranges, addresses and prefixes (\<open>src/user/util.c\<close>).
  \<^item> \<open>Caly_Loader\<close>: the live defaults, the sanitiser and the capability bits of \<open>loader.c\<close>.
  \<^item> \<open>Caly_Seed\<close>: seeding of the port and ICMP maps and the file's pending rules
    (\<open>caly_bpf_seed_maps\<close>, \<open>caly_apply_pending\<close>).
  \<^item> \<open>Caly_Gc\<close>: the garbage collector \<open>caly_bpf_gc\<close>.
  \<^item> \<open>Caly_Daemon\<close>: start, tick, mode command and reload as a step relation on the daemon's state.
  \<^item> \<open>Caly_File\<close>: the reader of the configuration file, all of its directives included
    (\<open>caly_config_parse_file\<close>, \<open>caly_cfg_apply\<close>).
  \<^item> \<open>Caly_Json\<close>: the JSON reader and writer of the control socket (\<open>j_parse_value\<close>, \<open>sb_jstr\<close>).
  \<^item> \<open>Caly_Query\<close>: its reply buffer, the walk over a map, and the replies that only read (\<open>status\<close>, \<open>stats\<close>,
    \<open>top\<close>, \<open>list\<close>, \<open>conntrack\<close>, events); \<open>Caly_Ctl\<close>: the commands that change something, the dispatch of a
    request (\<open>caly_ctl_dispatch\<close>) and the framing of the byte stream (\<open>caly_ctl_handle\<close>).
  \<^item> \<open>Caly_Tune\<close>: the decisions of \<open>autotune.c\<close>: rates and moving averages, detection, classification, the
    mode state machine (\<open>at_step_mode\<close>) and the synthesised configuration (\<open>at_build_config\<close>);
    \<open>Caly_Autotune\<close>: what it does with them (\<open>at_push_config\<close>, temporary policies, source memory, automatic
    bans, alerts, \<open>autotune_tick\<close>) and its contract, the step relation \<open>permitted\<close>; \<open>Caly_Autorun\<close>: whole
    runs from \<open>autotune_init\<close> to \<open>autotune_fini\<close>.

  \<^bold>\<open>Correspondence.\<close>  A C structure is a record with the source's field names behind a prefix; a
  map is a partial function, the two maps of an address family pair being one map over a source
  key; a null result of a lookup is \<^term>\<open>None\<close>; a write through a looked-up pointer is a map
  update.  \<open>__u8\<close> to \<open>__u64\<close> are words of that width, so wrap-around is the arithmetic of the
  model.  A straight-line program with \<open>goto verdict\<close> is a list of stages, each of which jumps to
  the verdict block or falls through.  The unrolled loops (VLAN tags, IPv6 extension headers,
  tunnel levels, management ports) are recursive functions with the source's compile-time bound as
  the measure; the loops of user space (seeding, port ranges, the collector's walk) are
  functions with a termination proof; the JSON reader's loops and the walk over a map are
  \<open>partial_function\<close>s into \<open>option\<close>, and that they return is a theorem; there is no fuel.

  \<^bold>\<open>What the theorems show.\<close>
  \<^item> Chain: no load or store outside the frame, each packet counted once, totals that balance over
    a run, monitor mode and missing maps always pass; with the SYN proxy in its slot too.
  \<^item> Rules: the order allow list, management ports, block list, operator bans, open flows,
    automatic bans, lockdown; the mandatory ICMP types.
  \<^item> Parser: memory safety, no ports from fragment data, an encode/parse round trip, well-formed
    headers, the tunnel depth.
  \<^item> Flows: the reply to a connection of ours passes the ingress chain; the egress hook drops
    nothing; what a reset does to a reconnection.
  \<^item> TC ingress hook: no load outside the pulled bytes, each packet counted once, monitoring passes
    everything; SSH stays reachable, listed sources are dropped, replies to our connections pass; its rate
    check is the one of \<open>ratelimit.h\<close>; an inbound ACK alone confirms a half-open flow.
  \<^item> Cursor parser: memory safety, ordered offsets, a complete split of its errors into benign ones and
    drops, agreement with the XDP parser on TCP segments.
  \<^item> SYN proxy: answers with swapped addresses, the cookie and valid checksums; incremental checksum
    updates agree with recomputation.
  \<^item> Limits: the rate bound of a bucket and recovery after idleness, the order of the buckets of a
    source, strikes and their window, TTL bounds and escalation, the scan filter's exactness up
    to collisions and its saturation.
  \<^item> Classifiers: the bogon table, the legal flag sets, the management list, the counter names.
  \<^item> Configuration: what the sanitiser accepts is well formed and a fixed point, and its refusals
    are exact; seeding is exact; whatever the configuration file holds, what is kept of it is well
    formed, the mandatory ICMP types stay open, and written settings are read back.
  \<^item> Control socket: every request line is answered by one line and keeps the daemon in a reachable
    state; a ban command takes effect in the data plane; the default route is never blocked; framing does
    not depend on how the bytes arrive; \<open>top\<close> lists the top.
  \<^item> Texts: durations and port ranges are read exactly or refused, prefixes and JSON values
    round-trip.
  \<^item> Daemon: an invariant of every reachable state, from which SSH stays reachable through the
    policy program whatever the operator, the file and the kernel do; the escalation's decision
    and its dwell time; atomic reloads; a collector the data plane cannot observe.
  \<^item> Autotune: a tick refines the module's contract and stays inside its memory; no run locks the
    administrator out; temporary policies are undone at the end; the mode changes only when confirmed;
    limits are tightened but keep their floors; a failed write is not repeated.

  \<^bold>\<open>Parameters.\<close>  The record \<open>kern\<close> holds what the kernel decides for the data plane: the clock, the
  longest-prefix match, the outcome of an insertion (with \<open>upd_law\<close>, the documented behaviour of
  \<open>bpf_map_update_elem\<close>, as a hypothesis where it matters), whether an event is accepted and
  whether a tail-call slot is populated.  The program in the SYN-proxy slot is an argument of the
  chain with the contract \<open>slot_ok\<close>, which the modelled proxy satisfies.  In user space \<open>syscalls\<close> and
  \<open>gc_kern\<close> decide the outcome of each map call (\<open>array_lookups\<close>: an array lookup does not fail;
  \<open>walks\<close>: the documented order of \<open>get_next_key\<close>) and \<open>world\<close> the rest of what the daemon observes.
  \<open>fenv\<close> holds what the file reader takes from the C library: \<open>inet_pton\<close> (\<open>pton_lengths\<close>: four or sixteen
  bytes) and the outcome of allocations; \<open>ctl_kern\<close> the answers of the system to one request (clock, map
  updates and walks with the laws \<open>upd_law\<close>, \<open>lpm_law\<close> and \<open>ctl_walks\<close>, per-CPU values, memory, \<open>qsort\<close> with
  \<open>qsort_ok\<close>, \<open>inet_ntop\<close>).  The record \<open>at_ops\<close> holds the callbacks of the autotune module on a world
  of any type; \<open>store_laws\<close> and \<open>policy_laws\<close> state what they do to the configuration map and to the port
  and ICMP maps, and a concrete world satisfies both.

  \<^bold>\<open>Not modelled.\<close>  The verifier-driven pointer re-derivations, and the concurrent updates of one map
  entry by several CPUs (the model is one CPU's view, one packet at a time).  The Makefile leaves
  \<open>config.c\<close>, \<open>maps.c\<close> and \<open>ipc.c\<close> out of the build, as a second implementation of what \<open>loader.c\<close>,
  \<open>main.c\<close> and \<open>ctl.c\<close> do; only the defaults of \<open>config.c\<close> are modelled.  Loading, pinning, attaching,
  probing, sockets, logging, signals and the epoll loop are input and output around system calls.
  Of \<open>autotune.c\<close> the texts of alerts and status and the child processes of its hooks are left out.
  The modules \<open>stats.c\<close>, \<open>events.c\<close> and \<open>prom.c\<close> (statistics, event stream, metrics text) are linked but the
  daemon calls none of them.
\<close>

end
